(* ===== verification/Prelude.thy ===== *)
theory Prelude
  imports "HOL-Library.Word"
begin

text \<open>
  Shared ground of the development: the C integer types as words, the result type that
  carries assertion failures, out-of-bounds accesses and C++ exceptions as values, the
  little-endian view of memory that \<open>memcpy\<close> between bytes and integers gives on the
  supported machines (x86-64), and the generic list and word lemmas that the component
  theories use through the collections \<open>res_simps\<close> and \<open>unat_simps\<close>.
\<close>

unbundle bit_operations_syntax

named_theorems res_simps \<open>rewriting of the result type and its guards\<close>
named_theorems unat_simps \<open>reading word arithmetic in the natural numbers\<close>

section \<open>Integer types\<close>

type_synonym u8 = "8 word"
type_synonym u16 = "16 word"
type_synonym u32 = "32 word"
type_synonym u64 = "64 word"

section \<open>Results\<close>

text \<open>
  Every way in which the code can stop early: a failing \<open>ASSERT\<close> or \<open>assert\<close> (the
  debug build), a division by zero, an access outside a buffer, a null pointer
  dereference, and a thrown \<open>cybozu::Exception\<close> with its message.
\<close>

datatype error =
    Assert_Failed
  | Div_By_Zero
  | Out_Of_Bounds
  | Null_Pointer
  | Exception string

type_synonym 'a res = "error + 'a"

fun res_bind :: "'a res \<Rightarrow> ('a \<Rightarrow> 'b res) \<Rightarrow> 'b res" where
  "res_bind (Inl e) f = Inl e"
| "res_bind (Inr x) f = f x"

definition ensure :: "bool \<Rightarrow> error \<Rightarrow> 'a res \<Rightarrow> 'a res" where
  "ensure c e m = (if c then m else Inl e)"

fun is_ok :: "'a res \<Rightarrow> bool" where
  "is_ok (Inl _) = False"
| "is_ok (Inr _) = True"

lemma ensure_True [simp, res_simps]: "ensure True e m = m"
  and ensure_False [simp, res_simps]: "ensure False e m = Inl e"
  by (simp_all add: ensure_def)

lemma ensure_Inr_iff [res_simps]: "ensure c e m = Inr x \<longleftrightarrow> c \<and> m = Inr x"
  by (simp add: ensure_def)

lemma res_bind_Inr_iff [res_simps]:
  "res_bind m f = Inr y \<longleftrightarrow> (\<exists>x. m = Inr x \<and> f x = Inr y)"
  by (cases m) auto

lemma res_bind_assoc: "res_bind (res_bind m f) g = res_bind m (\<lambda>x. res_bind (f x) g)"
  by (cases m) auto

lemma res_bind_cong [fundef_cong]:
  "m = m' \<Longrightarrow> (\<And>x. m' = Inr x \<Longrightarrow> f x = f' x) \<Longrightarrow> res_bind m f = res_bind m' f'"
  by (cases m') auto

lemma ensure_cong [fundef_cong]:
  "c = c' \<Longrightarrow> e = e' \<Longrightarrow> (c' \<Longrightarrow> m = m') \<Longrightarrow> ensure c e m = ensure c' e' m'"
  by (simp add: ensure_def)

text \<open>
  A computation that may not return: \<open>None\<close> is a loop without end, and the value of one that returns
  is a result. \<open>obind\<close> runs one after the other.
\<close>

definition obind :: "'a res option \<Rightarrow> ('a \<Rightarrow> 'b res option) \<Rightarrow> 'b res option" where
  "obind m f = Option.bind m (\<lambda>r. case r of Inl e \<Rightarrow> Some (Inl e) | Inr x \<Rightarrow> f x)"

lemma obind_simps [simp]:
  "obind None f = None" "obind (Some (Inl e)) f = Some (Inl e)" "obind (Some (Inr x)) f = f x"
  by (simp_all add: obind_def)

lemma obind_cong [fundef_cong]:
  "m = m' \<Longrightarrow> (\<And>x. m' = Some (Inr x) \<Longrightarrow> f x = f' x) \<Longrightarrow> obind m f = obind m' f'"
  by (cases m') (auto simp: obind_def split: sum.splits)

lemma obind_mono [partial_function_mono]:
  assumes "mono_option m" and "\<And>x. mono_option (f x)"
  shows "mono_option (\<lambda>g. obind (m g) (\<lambda>x. f x g))"
  unfolding obind_def
proof (rule bind_mono [OF assms(1)])
  fix r
  show "mono_option (\<lambda>g. case r of Inl e \<Rightarrow> Some (Inl e) | Inr x \<Rightarrow> f x g)"
    using assms(2) by (cases r) (auto intro!: option.const_mono)
qed

section \<open>Reading words as natural numbers\<close>

lemma unat_add_small [unat_simps]:
  fixes a b :: "'a::len word"
  shows "unat a + unat b < 2 ^ LENGTH('a) \<Longrightarrow> unat (a + b) = unat a + unat b"
  by (simp add: unat_word_ariths)

lemma unat_sub_le [unat_simps]:
  fixes a b :: "'a::len word"
  shows "b \<le> a \<Longrightarrow> unat (a - b) = unat a - unat b"
  by (simp add: unat_sub)

lemma unat_mult_small [unat_simps]:
  fixes a b :: "'a::len word"
  shows "unat a * unat b < 2 ^ LENGTH('a) \<Longrightarrow> unat (a * b) = unat a * unat b"
  by (simp add: unat_word_ariths)

lemmas word_nat_order [unat_simps] = word_le_nat_alt word_less_nat_alt

lemma unat_lt64 [simp]: "unat (x :: u64) < 18446744073709551616"
  using unsigned_less [of x, where ?'a = nat] by simp

lemma unat_lt32 [simp]: "unat (x :: u32) < 4294967296"
  using unsigned_less [of x, where ?'a = nat] by simp

lemma unat_lt16 [simp]: "unat (x :: u16) < 65536"
  using unsigned_less [of x, where ?'a = nat] by simp

lemma unat_lt8 [simp]: "unat (x :: u8) < 256"
  using unsigned_less [of x, where ?'a = nat] by simp

lemma unat_ucast_32_64 [simp]: "unat (ucast (x :: u32) :: u64) = unat x"
  by (simp add: unsigned_ucast_eq take_bit_eq_mod mod_less less_trans [OF unat_lt32])

lemma unat_ucast_16_64 [simp]: "unat (ucast (x :: u16) :: u64) = unat x"
  by (simp add: unsigned_ucast_eq take_bit_eq_mod mod_less less_trans [OF unat_lt16])

lemma unat_ucast_16_32 [simp]: "unat (ucast (x :: u16) :: u32) = unat x"
  by (simp add: unsigned_ucast_eq take_bit_eq_mod mod_less less_trans [OF unat_lt16])

lemma unat_ucast_8_32 [simp]: "unat (ucast (x :: u8) :: u32) = unat x"
  by (simp add: unsigned_ucast_eq take_bit_eq_mod mod_less less_trans [OF unat_lt8])

lemma unat_of_nat_u32: "k < 4294967296 \<Longrightarrow> unat (of_nat k :: u32) = k"
  by (simp add: unat_of_nat)

lemma unat_ucast_64_32: "unat (x :: u64) < 4294967296 \<Longrightarrow> unat (ucast x :: u32) = unat x"
  by (simp add: unsigned_ucast_eq take_bit_eq_mod)

lemma unat_eq_iff_nat: "(x = y) = (unat x = unat (y :: 'a::len word))"
  by (simp add: word_unat_eq_iff)

section \<open>Little-endian memory\<close>

fun le_val :: "u8 list \<Rightarrow> nat" where
  "le_val [] = 0"
| "le_val (b # bs) = unat b + 256 * le_val bs"

definition le_load :: "u8 list \<Rightarrow> 'a::len word" where
  "le_load bs = of_nat (le_val bs)"

primrec le_store :: "nat \<Rightarrow> 'a::len word \<Rightarrow> u8 list" where
  "le_store 0 w = []"
| "le_store (Suc n) w = ucast w # le_store n (drop_bit 8 w)"

lemma length_le_store [simp]: "length (le_store n w) = n"
  by (induction n arbitrary: w) auto

lemma unat_ucast_byte: "unat (ucast (w :: 'a::len word) :: u8) = unat w mod 256"
  by (simp add: unsigned_ucast_eq take_bit_eq_mod)

lemma le_val_le_store: "le_val (le_store n w) = unat w mod 256 ^ n"
proof (induction n arbitrary: w)
  case 0
  then show ?case by simp
next
  case (Suc n)
  have "le_val (le_store (Suc n) w) = unat w mod 256 + 256 * ((unat w div 256) mod 256 ^ n)"
    by (simp add: Suc unat_ucast_byte unat_drop_bit_eq) (simp add: drop_bit_eq_div)
  also have "\<dots> = unat w mod (256 * 256 ^ n)"
    by (simp add: mod_mult2_eq)
  finally show ?case by simp
qed

lemma le_load_le_store:
  assumes "2 ^ LENGTH('a) \<le> (256 :: nat) ^ n"
  shows "le_load (le_store n w) = (w :: 'a::len word)"
proof -
  have "unat w < 256 ^ n" using unsigned_less [of w, where ?'a = nat] assms by linarith
  then show ?thesis by (simp add: le_load_def le_val_le_store)
qed

lemma le_load_le_store_32 [simp]: "le_load (le_store 4 w) = (w :: u32)"
  by (rule le_load_le_store) simp

lemma le_load_le_store_64 [simp]: "le_load (le_store 8 w) = (w :: u64)"
  by (rule le_load_le_store) simp

lemma le_load_le_store_16 [simp]: "le_load (le_store 2 w) = (w :: u16)"
  by (rule le_load_le_store) simp

lemma le_load_le_store_8 [simp]: "le_load (le_store 1 w) = (w :: u8)"
  by (rule le_load_le_store) simp

section \<open>Lists\<close>

lemma take_append_slice: "n \<le> length xs \<Longrightarrow> take n xs @ take m (drop n xs) = take (n + m) xs"
  by (simp add: take_add)

lemma take_drop_split:
  "t \<le> n \<Longrightarrow> take t (drop c xs) @ take (n - t) (drop (c + t) xs) = take n (drop c xs)"
  using take_add [of t "n - t" "drop c xs"] by (simp add: add.commute)

lemma length_concat_uniform:
  "(\<forall>x \<in> set xss. length x = n) \<Longrightarrow> length (concat xss) = n * length xss"
  by (induction xss) auto

lemma concat_uniform_take_drop:
  assumes "\<forall>x \<in> set xss. length x = n" and "i < length xss"
  shows "take n (drop (i * n) (concat xss)) = xss ! i"
  using assms
proof (induction xss arbitrary: i)
  case Nil
  then show ?case by simp
next
  case (Cons x xss)
  then show ?case by (cases i) auto
qed

section \<open>Buffers\<close>

text \<open>
  \<open>overwrite\<close> is what \<open>memcpy\<close> does to the destination buffer; \<open>write_at\<close> adds the bounds
  check that C leaves to the programmer.
\<close>

definition overwrite :: "'a list \<Rightarrow> nat \<Rightarrow> 'a list \<Rightarrow> 'a list" where
  "overwrite buf off s = take off buf @ s @ drop (off + length s) buf"

definition write_at :: "'a list \<Rightarrow> nat \<Rightarrow> 'a list \<Rightarrow> 'a list res" where
  "write_at buf off s =
     ensure (off + length s \<le> length buf) Out_Of_Bounds (Inr (overwrite buf off s))"

definition read_at :: "'a list \<Rightarrow> nat \<Rightarrow> nat \<Rightarrow> 'a list res" where
  "read_at buf off n =
     ensure (off + n \<le> length buf) Out_Of_Bounds (Inr (take n (drop off buf)))"

lemma write_at_ok [simp]:
  "off + length s \<le> length buf \<Longrightarrow> write_at buf off s = Inr (overwrite buf off s)"
  by (simp add: write_at_def)

lemma read_at_ok [simp]:
  "off + n \<le> length buf \<Longrightarrow> read_at buf off n = Inr (take n (drop off buf))"
  by (simp add: read_at_def)

lemma length_overwrite [simp]:
  "off + length s \<le> length buf \<Longrightarrow> length (overwrite buf off s) = length buf"
  by (simp add: overwrite_def)

lemma overwrite_Nil [simp]: "overwrite buf off [] = buf"
  by (simp add: overwrite_def)

lemma nth_overwrite:
  assumes "off + length s \<le> length buf" and "i < length buf"
  shows "overwrite buf off s ! i =
    (if off \<le> i \<and> i < off + length s then s ! (i - off) else buf ! i)"
  using assms by (auto simp: overwrite_def nth_append)

lemma overwrite_read: "off + length s \<le> length buf \<Longrightarrow>
    take (length s) (drop off (overwrite buf off s)) = s"
  by (simp add: overwrite_def)

lemma overwrite_append:
  assumes "off + length s + length t \<le> length buf"
  shows "overwrite (overwrite buf off s) (off + length s) t = overwrite buf off (s @ t)"
proof (rule nth_equalityI)
  show "length (overwrite (overwrite buf off s) (off + length s) t) =
      length (overwrite buf off (s @ t))"
    using assms by simp
next
  fix i
  assume "i < length (overwrite (overwrite buf off s) (off + length s) t)"
  then have "i < length buf" using assms by simp
  then show "overwrite (overwrite buf off s) (off + length s) t ! i =
      overwrite buf off (s @ t) ! i"
    using assms by (auto simp: nth_overwrite nth_append)
qed

lemma overwrite_next:
  "q = off + length s \<Longrightarrow> q + length t \<le> length buf \<Longrightarrow>
     overwrite (overwrite buf off s) q t = overwrite buf off (s @ t)"
  using overwrite_append [of off s t buf] by simp

lemma concat_overwrite:
  assumes "\<forall>x \<in> set xss. length x = n" and "i < length xss" and "off + length s \<le> n"
  shows "concat (xss[i := overwrite (xss ! i) off s]) = overwrite (concat xss) (i * n + off) s"
  using assms
proof (induction xss arbitrary: i)
  case Nil
  then show ?case by simp
next
  case (Cons x xss)
  show ?case
  proof (cases i)
    case 0
    with Cons.prems show ?thesis by (simp add: overwrite_def)
  next
    case (Suc j)
    have "overwrite (x @ concat xss) (n + (j * n + off)) s
        = x @ overwrite (concat xss) (j * n + off) s"
      using Cons.prems(1) by (simp add: overwrite_def add.assoc)
    with Suc Cons show ?thesis by (simp add: add.assoc)
  qed
qed

lemma concat_read:
  assumes "\<forall>x \<in> set xss. length x = n" and "i < length xss" and "off + m \<le> n"
  shows "take m (drop (i * n + off) (concat xss)) = take m (drop off (xss ! i))"
  using assms
proof (induction xss arbitrary: i)
  case Nil
  then show ?case by simp
next
  case (Cons x xss)
  then show ?case by (cases i) (auto simp: add.assoc)
qed

section \<open>More on little-endian values\<close>

lemma le_val_append: "le_val (xs @ ys) = le_val xs + 256 ^ length xs * le_val ys"
  by (induction xs) (auto simp: algebra_simps)

end
