(* ===== verification/Address_Util.thy ===== *)
theory Address_Util
  imports Prelude
begin

text \<open>
  \<^verbatim>\<open>src/address_util.hpp\<close> and \<^verbatim>\<open>include/range_util.hpp\<close>: the alignment of addresses, the division of an IO into
  aligned pieces, and the relations between address ranges.
\<close>

section \<open>Ranges\<close>

definition isOverlapped :: "u64 \<Rightarrow> u32 \<Rightarrow> u64 \<Rightarrow> u32 \<Rightarrow> bool" where
  "isOverlapped addr0 size0 addr1 size1 \<longleftrightarrow>
     addr0 < addr1 + ucast size1 \<and> addr1 < addr0 + ucast size0"

definition isOverwritten :: "u64 \<Rightarrow> u32 \<Rightarrow> u64 \<Rightarrow> u32 \<Rightarrow> bool" where
  "isOverwritten addr0 size0 addr1 size1 \<longleftrightarrow>
     addr1 \<le> addr0 \<and> addr0 + ucast size0 \<le> addr1 + ucast size1"

section \<open>Alignment\<close>

lemma unat_half: "unat (drop_bit (Suc 0) v) = unat (v :: 'a::len word) div 2"
  by (subst unat_drop_bit_eq) (simp add: drop_bit_eq_div)

lemma unat_half_less: "v \<noteq> 0 \<Longrightarrow> unat (drop_bit (Suc 0) v) < unat (v :: 'a::len word)"
  using unat_half [of v] by (simp add: unat_gt_0)

text \<open>
  The loop of \<open>getAlignedSize\<close> has no test for 0: its caller excludes 0, and half of an even
  number that is not 0 is not 0. The test here only makes the recursion total.
\<close>

function aligned_loop :: "u64 \<Rightarrow> nat \<Rightarrow> nat" where
  "aligned_loop v c =
     (if v = 0 then c else if v AND 1 = 0 then aligned_loop (drop_bit 1 v) (c + 1) else c)"
  by auto
termination
  by (relation "measure (\<lambda>(v, _). unat v)") (simp_all add: unat_half_less)

definition getAlignedSize :: "u64 \<Rightarrow> u32" where
  "getAlignedSize v =
     (let m = push_bit 31 1 in
      if v = 0 then m
      else let c = aligned_loop v 0 in if c \<ge> 32 then m else push_bit c 1)"

definition popcount :: "u32 \<Rightarrow> nat" where
  "popcount s = length (filter (bit s) [0..<32])"

definition isAlignedSize :: "u32 \<Rightarrow> bool res" where
  "isAlignedSize s = ensure (s \<noteq> 0) Assert_Failed (Inr (popcount s = 1))"

definition isAlignedIo :: "u64 \<Rightarrow> u32 \<Rightarrow> bool res" where
  "isAlignedIo ioAddress ioBlocks =
     (if ioBlocks \<le> getAlignedSize ioAddress then isAlignedSize ioBlocks else Inr False)"

function bits_loop :: "u32 \<Rightarrow> nat \<Rightarrow> nat" where
  "bits_loop s c = (if s \<noteq> 0 then bits_loop (drop_bit 1 s) (c + 1) else c)"
  by auto
termination
  by (relation "measure (\<lambda>(s, _). unat s)") (simp_all add: unat_half_less)

declare aligned_loop.simps [simp del] bits_loop.simps [simp del]

definition getMaxAlignedSize :: "u32 \<Rightarrow> u32" where
  "getMaxAlignedSize s = (if s = 0 then 0 else push_bit (bits_loop s 0 - 1) 1)"

section \<open>Powers of two\<close>

lemma unat_pow2_32: "c < 32 \<Longrightarrow> unat (push_bit c 1 :: u32) = 2 ^ c"
proof -
  assume "c < 32"
  then have "(2 :: nat) ^ c < 2 ^ 32" by (intro power_strict_increasing) simp_all
  then show ?thesis by (simp only: unsigned_push_bit_eq) (simp add: take_bit_eq_mod push_bit_eq_mult)
qed

lemma aligned_loop_facts:
  "v \<noteq> 0 \<Longrightarrow> \<exists>k. aligned_loop v c = c + k \<and> 2 ^ k dvd unat v \<and> \<not> 2 ^ Suc k dvd unat v"
proof (induction v c rule: aligned_loop.induct)
  case (1 v c)
  have odd: "v AND 1 = 0 \<longleftrightarrow> even (unat v)"
    by (simp add: and_one_eq unat_eq_0 [symmetric] unat_mod_distrib even_iff_mod_2_eq_zero)
  show ?case
  proof (cases "v AND 1 = 0")
    case True
    then obtain h where h: "unat v = 2 * h" using odd by auto
    have hh: "unat (drop_bit 1 v) = h" using h unat_half [of v] by simp
    have "0 < unat v" using "1.prems" by (simp add: unat_gt_0)
    then have "h \<noteq> 0" using h by linarith
    then have "drop_bit 1 v \<noteq> 0" using hh by auto
    then obtain k where "aligned_loop (drop_bit 1 v) (c + 1) = c + 1 + k" "2 ^ k dvd h" "\<not> 2 ^ Suc k dvd h"
      using "1.IH" [OF "1.prems" True] hh by auto
    then show ?thesis
      using True h "1.prems" by (intro exI [of _ "Suc k"]) (simp add: aligned_loop.simps [of v])
  next
    case False
    then show ?thesis
      using odd "1.prems" by (intro exI [of _ 0]) (simp add: aligned_loop.simps [of v])
  qed
qed

lemma bits_loop_facts:
  "\<exists>k. bits_loop s c = c + k \<and> (s = 0 \<longrightarrow> k = 0) \<and> (s \<noteq> 0 \<longrightarrow> 0 < k \<and> 2 ^ (k - 1) \<le> unat s)
    \<and> unat s < 2 ^ k"
proof (induction s c rule: bits_loop.induct)
  case (1 s c)
  show ?case
  proof (cases "s = 0")
    case True
    then show ?thesis by (intro exI [of _ 0]) (simp add: bits_loop.simps [of 0])
  next
    case False
    then obtain k where k: "bits_loop (drop_bit 1 s) (c + 1) = c + 1 + k"
      "drop_bit 1 s = 0 \<longrightarrow> k = 0" "drop_bit 1 s \<noteq> 0 \<longrightarrow> 0 < k \<and> 2 ^ (k - 1) \<le> unat s div 2"
      "unat s div 2 < 2 ^ k"
      using "1.IH" unat_half [of s] by auto
    have lower: "2 ^ k \<le> unat s"
    proof (cases "drop_bit 1 s = 0")
      case True
      then show ?thesis using k(2) False by (simp add: unat_gt_0 Suc_le_eq)
    next
      case F: False
      then have "2 * 2 ^ (k - 1) \<le> unat s" using k(3) by linarith
      then show ?thesis using k(3) F by (cases k) simp_all
    qed
    have "unat s < 2 ^ Suc k" using k(4) by simp
    with lower k(1) False show ?thesis
      by (intro exI [of _ "Suc k"]) (simp add: bits_loop.simps [of s])
  qed
qed

lemma getAlignedSize_pow2:
  obtains k where "k \<le> 31" and "unat (getAlignedSize v) = 2 ^ k" and "2 ^ k dvd unat v"
    and "k < 31 \<Longrightarrow> \<not> 2 ^ Suc k dvd unat v"
proof (cases "v = 0")
  case True
  then show ?thesis using that [of 31] unat_pow2_32 [of 31] by (simp add: getAlignedSize_def)
next
  case False
  obtain k where k: "aligned_loop v 0 = k" "2 ^ k dvd unat v" "\<not> 2 ^ Suc k dvd unat v"
    using aligned_loop_facts [OF False, of 0] by auto
  show ?thesis
  proof (cases "k < 32")
    case True
    then show ?thesis using that [of k] k False unat_pow2_32 [OF True] by (simp add: getAlignedSize_def)
  next
    case F: False
    then have "(2 :: nat) ^ 31 dvd 2 ^ k" by (intro le_imp_power_dvd) simp
    then have "2 ^ 31 dvd unat v" using k(2) dvd_trans by blast
    then show ?thesis using that [of 31] k F False unat_pow2_32 [of 31] by (simp add: getAlignedSize_def)
  qed
qed

lemma getMaxAlignedSize_pow2:
  assumes "s \<noteq> 0"
  obtains k where "k \<le> 31" and "unat (getMaxAlignedSize s) = 2 ^ k" and "2 ^ k \<le> unat s"
    and "unat s < 2 ^ Suc k"
proof -
  obtain k where k: "bits_loop s 0 = k" "0 < k" "2 ^ (k - 1) \<le> unat s" "unat s < 2 ^ k"
    using bits_loop_facts [of s 0] assms by auto
  have "unat s < 2 ^ 32" by simp
  then have "(2 :: nat) ^ (k - 1) < 2 ^ 32" using k(3) by (rule le_less_trans [rotated])
  then have "k - 1 < 32" using power_strict_increasing_iff [of "2 :: nat" "k - 1" 32] by simp
  then show ?thesis
    using that [of "k - 1"] k assms unat_pow2_32 [of "k - 1"] by (simp add: getMaxAlignedSize_def)
qed

section \<open>Division into aligned pieces\<close>

definition piece :: "u64 \<Rightarrow> u32 \<Rightarrow> u32 \<Rightarrow> u32" where
  "piece ioAddress ioBlocks maxIoBlocks =
     (let s0 = getAlignedSize ioAddress;
          s1 = if s0 > ioBlocks then getMaxAlignedSize ioBlocks else s0
      in if maxIoBlocks > 0 then min s1 maxIoBlocks else s1)"

definition pow2 :: "u32 \<Rightarrow> bool" where
  "pow2 s \<longleftrightarrow> (\<exists>k \<le> 31. unat s = 2 ^ k)"

lemma pow2_pos: "pow2 s \<Longrightarrow> 0 < unat s"
  by (auto simp: pow2_def)

lemma pow2_min: "pow2 a \<Longrightarrow> pow2 b \<Longrightarrow> pow2 (min a b)"
  by (simp add: min_def)

lemma pow2_aligned: "pow2 (getAlignedSize v)"
  using getAlignedSize_pow2 [of v] by (metis pow2_def)

lemma pow2_max: "s \<noteq> 0 \<Longrightarrow> pow2 (getMaxAlignedSize s) \<and> getMaxAlignedSize s \<le> s"
  using getMaxAlignedSize_pow2 [of s] by (metis pow2_def word_le_nat_alt)

lemma piece_facts:
  assumes "ioBlocks \<noteq> 0" and "maxIoBlocks = 0 \<or> pow2 maxIoBlocks"
  shows "pow2 (piece a ioBlocks maxIoBlocks)" and "piece a ioBlocks maxIoBlocks \<le> ioBlocks"
    and "piece a ioBlocks maxIoBlocks \<le> getAlignedSize a"
    and "maxIoBlocks \<noteq> 0 \<Longrightarrow> piece a ioBlocks maxIoBlocks \<le> maxIoBlocks"
proof -
  let ?s1 = "if getAlignedSize a > ioBlocks then getMaxAlignedSize ioBlocks else getAlignedSize a"
  have s1: "pow2 ?s1" "?s1 \<le> ioBlocks" "?s1 \<le> getAlignedSize a"
    using pow2_aligned [of a] pow2_max [OF assms(1)] by auto
  have p: "piece a ioBlocks maxIoBlocks = (if maxIoBlocks > 0 then min ?s1 maxIoBlocks else ?s1)"
    by (simp add: piece_def Let_def)
  have pos: "maxIoBlocks > 0 \<longleftrightarrow> maxIoBlocks \<noteq> 0" by (simp add: word_gt_0)
  show "pow2 (piece a ioBlocks maxIoBlocks)"
  proof (cases "maxIoBlocks = 0")
    case True
    then show ?thesis unfolding p pos using s1(1) by (simp only: if_False not_True_eq_False simp_thms)
  next
    case False
    then have "pow2 (min ?s1 maxIoBlocks)" using assms(2) pow2_min [OF s1(1)] by blast
    then show ?thesis unfolding p pos using False by (simp only: if_True not_False_eq_True simp_thms)
  qed
  show "piece a ioBlocks maxIoBlocks \<le> ioBlocks" "piece a ioBlocks maxIoBlocks \<le> getAlignedSize a"
    unfolding p using s1(2,3) by (auto simp: min_def)
  show "maxIoBlocks \<noteq> 0 \<Longrightarrow> piece a ioBlocks maxIoBlocks \<le> maxIoBlocks"
    unfolding p pos by simp
qed

lemma piece_bounds:
  assumes "ioBlocks \<noteq> 0"
  shows "piece a ioBlocks maxIoBlocks \<noteq> 0" and "piece a ioBlocks maxIoBlocks \<le> ioBlocks"
proof -
  let ?s1 = "if getAlignedSize a > ioBlocks then getMaxAlignedSize ioBlocks else getAlignedSize a"
  have "pow2 ?s1" "?s1 \<le> ioBlocks"
    using pow2_aligned [of a] pow2_max [OF assms] by auto
  then have "?s1 \<noteq> 0" using pow2_pos [of ?s1] by auto
  then show "piece a ioBlocks maxIoBlocks \<noteq> 0"
    by (auto simp: piece_def Let_def min_def word_gt_0)
  show "piece a ioBlocks maxIoBlocks \<le> ioBlocks"
    using \<open>?s1 \<le> ioBlocks\<close> by (auto simp: piece_def Let_def min_def)
qed

function split_loop :: "u64 \<Rightarrow> u32 \<Rightarrow> u32 \<Rightarrow> u32 list" where
  "split_loop ioAddress ioBlocks maxIoBlocks =
     (if ioBlocks > 0 then
        let s = piece ioAddress ioBlocks maxIoBlocks
        in s # split_loop (ioAddress + ucast s) (ioBlocks - s) maxIoBlocks
      else [])"
  by auto
termination
proof (relation "measure (\<lambda>(_, b, _). unat b)")
  fix a :: u64 and b m x :: u32
  assume "b > 0" and x: "x = piece a b m"
  then have "x \<noteq> 0" "x \<le> b" using piece_bounds [of b a m] by (auto simp: word_gt_0)
  then have "unat (b - x) < unat b" using unat_gt_0 [of x] by (simp add: unat_sub word_le_nat_alt)
  then show "((a + ucast x, b - x, m), (a, b, m)) \<in> measure (\<lambda>(_, b, _). unat b)" by simp
qed simp

declare split_loop.simps [simp del]

definition splitIoToAligned :: "u64 \<Rightarrow> u32 \<Rightarrow> u32 \<Rightarrow> u32 list" where
  "splitIoToAligned ioAddress ioBlocks maxIoBlocks =
     split_loop ioAddress ioBlocks (getMaxAlignedSize maxIoBlocks)"

fun pieces_aligned :: "u64 \<Rightarrow> u32 list \<Rightarrow> bool" where
  "pieces_aligned a [] = True"
| "pieces_aligned a (s # v) = (isAlignedIo a s = Inr True \<and> pieces_aligned (a + ucast s) v)"

lemma length_filter_eq: "length (filter (\<lambda>n. n = k) [0..<m]) = (if k < m then 1 else 0)"
  by (induction m) auto

lemma pow2_popcount:
  assumes "pow2 s"
  shows "popcount s = 1"
proof -
  obtain k where k: "k \<le> 31" "unat s = 2 ^ k" using assms by (auto simp: pow2_def)
  then have "s = push_bit k 1" using unat_pow2_32 [of k] by (simp add: word_unat_eq_iff)
  then have "bit s = (\<lambda>n. n = k)" using k(1) by (intro ext) (auto simp: bit_simps)
  then show ?thesis using k(1) length_filter_eq [of k 32] by (simp only: popcount_def) simp
qed

lemma pow2_isAlignedIo: "pow2 s \<Longrightarrow> s \<le> getAlignedSize a \<Longrightarrow> isAlignedIo a s = Inr True"
proof -
  assume s: "pow2 s" "s \<le> getAlignedSize a"
  then have "s \<noteq> 0" using pow2_pos [of s] by auto
  with s pow2_popcount [of s] show ?thesis by (simp add: isAlignedIo_def isAlignedSize_def)
qed

lemma split_tiles:
  "sum_list (map unat (splitIoToAligned a b m)) = unat b \<and> pieces_aligned a (splitIoToAligned a b m)
   \<and> (m = 0 \<or> (\<forall>s \<in> set (splitIoToAligned a b m). s \<le> m))"
proof -
  let ?m = "getMaxAlignedSize m"
  have "m \<noteq> 0 \<Longrightarrow> ?m \<noteq> 0"
  proof
    assume "m \<noteq> 0" "?m = 0"
    then show False using pow2_max [of m] pow2_pos [of ?m] by simp
  qed
  then have m0: "?m = 0 \<longleftrightarrow> m = 0" by (auto simp: getMaxAlignedSize_def [of 0])
  have m: "?m = 0 \<or> pow2 ?m" using pow2_max [of m] m0 by auto
  have "sum_list (map unat (split_loop a b ?m)) = unat b \<and> pieces_aligned a (split_loop a b ?m)
    \<and> (m = 0 \<or> (\<forall>s \<in> set (split_loop a b ?m). s \<le> ?m))"
    using m
  proof (induction a b ?m rule: split_loop.induct)
    case (1 a b)
    show ?case
    proof (cases "b > 0")
      case True
      then have b: "b \<noteq> 0" by (simp add: word_gt_0)
      note p = piece_facts [OF b "1.prems", of a]
      have IH: "sum_list (map unat (split_loop (a + ucast (piece a b ?m)) (b - piece a b ?m) ?m)) = unat (b - piece a b ?m)"
        "pieces_aligned (a + ucast (piece a b ?m)) (split_loop (a + ucast (piece a b ?m)) (b - piece a b ?m) ?m)"
        "m = 0 \<or> (\<forall>s \<in> set (split_loop (a + ucast (piece a b ?m)) (b - piece a b ?m) ?m). s \<le> ?m)"
        using "1.hyps" [OF True refl] "1.prems" by blast+
      have e: "split_loop a b ?m = piece a b ?m # split_loop (a + ucast (piece a b ?m)) (b - piece a b ?m) ?m"
        using True by (simp add: split_loop.simps [of a b] Let_def)
      have "unat (b - piece a b ?m) = unat b - unat (piece a b ?m)" "unat (piece a b ?m) \<le> unat b"
        using p(2) by (simp_all add: unat_sub word_le_nat_alt)
      then show ?thesis
        unfolding e using IH p(4) m0 pow2_isAlignedIo [OF p(1,3)] by auto
    next
      case False
      then have "split_loop a b ?m = []" by (simp add: split_loop.simps [of a b])
      then show ?thesis using False by (simp add: word_gt_0)
    qed
  qed
  moreover have "m \<noteq> 0 \<Longrightarrow> ?m \<le> m" using pow2_max [of m] by simp
  ultimately show ?thesis unfolding splitIoToAligned_def by (meson order.trans)
qed

text \<open>
  C36: \<open>splitIoToAligned\<close> always ends and divides the IO without gap or rest: the pieces together have
  the size of the IO, each piece is a power of two to which its own start address is aligned (it passes
  \<open>isAlignedIo\<close>), and no piece is larger than the given limit, when there is one.
\<close>

theorem splitIoToAligned_tiles:
  "sum_list (map unat (splitIoToAligned a b m)) = unat b \<and> pieces_aligned a (splitIoToAligned a b m)
   \<and> (m = 0 \<or> (\<forall>s \<in> set (splitIoToAligned a b m). s \<le> m))"
  by (rule split_tiles)

theorem splitIoToAligned_tiles_witness:
  "sum_list (map unat (splitIoToAligned 6 100 32)) = unat (100 :: u32)
   \<and> pieces_aligned 6 (splitIoToAligned 6 100 32)
   \<and> ((32 :: u32) = 0 \<or> (\<forall>s \<in> set (splitIoToAligned 6 100 32). s \<le> 32))"
  by (rule splitIoToAligned_tiles)

section \<open>Aligned IOs do not cross\<close>

lemma popcount_pow2:
  assumes "popcount s = 1"
  shows "pow2 s"
proof -
  obtain k where k: "filter (bit s) [0..<32] = [k]" using assms by (auto simp: popcount_def length_Suc_conv)
  have iff: "n < 32 \<and> bit s n \<longleftrightarrow> n = k" for n
  proof -
    have "n \<in> set (filter (bit s) [0..<32]) \<longleftrightarrow> n \<in> set [k]" by (simp only: k)
    then show ?thesis by simp
  qed
  then have k32: "k < 32" by blast
  have "s = push_bit k 1"
    using iff k32 by (intro bit_word_eqI) (auto simp: bit_simps)
  then show ?thesis using unat_pow2_32 [OF k32] k32 by (auto simp: pow2_def intro!: exI [of _ k])
qed

lemma isAlignedIo_pow2:
  assumes "isAlignedIo a s = Inr True"
  obtains k where "unat s = 2 ^ k" and "2 ^ k dvd unat a"
proof -
  have s: "s \<le> getAlignedSize a" "popcount s = 1"
    using assms by (auto simp: isAlignedIo_def isAlignedSize_def ensure_def split: if_splits)
  obtain i where i: "unat s = 2 ^ i" using popcount_pow2 [OF s(2)] by (auto simp: pow2_def)
  obtain k where k: "unat (getAlignedSize a) = 2 ^ k" "2 ^ k dvd unat a"
    using getAlignedSize_pow2 [of a] by metis
  have "(2 :: nat) ^ i \<le> 2 ^ k" using s(1) i k(1) by (simp add: word_le_nat_alt)
  then have "i \<le> k" by simp
  then have "2 ^ i dvd unat a" using k(2) by (meson dvd_trans le_imp_power_dvd)
  then show thesis using that i by blast
qed

lemma dvd_less_add:
  assumes "(d :: nat) dvd x" and "d dvd y" and "x < y"
  shows "x + d \<le> y"
proof -
  have "d dvd y - x" using assms by (simp add: dvd_diff_nat)
  then have "d \<le> y - x" using assms(3) by (intro dvd_imp_le) auto
  then show ?thesis using assms(3) by simp
qed

lemma aligned_nested:
  assumes "(2 :: nat) ^ i dvd a" and "2 ^ j dvd b" and "i \<le> j" and "a < b + 2 ^ j" and "b < a + 2 ^ i"
  shows "b \<le> a \<and> a + 2 ^ i \<le> b + 2 ^ j"
proof -
  have ij: "(2 :: nat) ^ i dvd 2 ^ j" using assms(3) by (rule le_imp_power_dvd)
  have b: "2 ^ i dvd b" using ij assms(2) dvd_trans by blast
  have "b \<le> a"
  proof (rule ccontr)
    assume "\<not> b \<le> a"
    then have "a + 2 ^ i \<le> b" using dvd_less_add [OF assms(1) b] by simp
    then show False using assms(5) by simp
  qed
  moreover have "a + 2 ^ i \<le> b + 2 ^ j" using dvd_less_add [OF assms(1) dvd_add [OF b ij] assms(4)] .
  ultimately show ?thesis by blast
qed

end
