(* ===== verification/Block_Size.thy ===== *)
theory Block_Size
  imports Prelude
begin

text \<open>
  \<^verbatim>\<open>walb/include/linux/walb/block_size.h\<close>, \<^verbatim>\<open>u32bits.h\<close> and \<^verbatim>\<open>u64bits.h\<close>: the
  conversion of addresses and capacities between logical blocks (512 bytes) and physical
  blocks, and the single-bit flags of 32- and 64-bit words. \<open>ASSERT_PBS\<close> is a branch of
  the definitions: a call with an invalid block size is \<open>Inl Assert_Failed\<close>.
\<close>

section \<open>Block sizes\<close>

definition LOGICAL_BLOCK_SIZE :: u32 where
  "LOGICAL_BLOCK_SIZE = push_bit 9 1"

definition is_valid_lbs_pbs :: "u32 \<Rightarrow> u32 \<Rightarrow> bool" where
  "is_valid_lbs_pbs lbs pbs \<longleftrightarrow> lbs > 0 \<and> pbs \<ge> lbs \<and> pbs mod lbs = 0"

definition is_valid_pbs :: "u32 \<Rightarrow> bool" where
  "is_valid_pbs pbs \<longleftrightarrow> is_valid_lbs_pbs LOGICAL_BLOCK_SIZE pbs"

definition n_lb_in_pb :: "u32 \<Rightarrow> u32 res" where
  "n_lb_in_pb pbs =
     ensure (is_valid_pbs pbs) Assert_Failed
       (let ret = pbs div LOGICAL_BLOCK_SIZE
        in ensure (ret > 0) Assert_Failed (Inr ret))"

definition capacity_pb :: "u32 \<Rightarrow> u64 \<Rightarrow> u64 res" where
  "capacity_pb pbs cap_lb =
     ensure (is_valid_pbs pbs) Assert_Failed
       (res_bind (n_lb_in_pb pbs)
         (\<lambda>n_lb. Inr ((cap_lb + ucast n_lb - 1) div ucast n_lb)))"

definition addr_pb :: "u32 \<Rightarrow> u64 \<Rightarrow> u64 res" where
  "addr_pb pbs a =
     ensure (is_valid_pbs pbs) Assert_Failed
       (res_bind (n_lb_in_pb pbs) (\<lambda>n_lb. Inr (a div ucast n_lb)))"

definition off_in_pb :: "u32 \<Rightarrow> u64 \<Rightarrow> u64 res" where
  "off_in_pb pbs a =
     ensure (is_valid_pbs pbs) Assert_Failed
       (res_bind (n_lb_in_pb pbs) (\<lambda>n_lb. Inr (a mod ucast n_lb)))"

definition addr_lb :: "u32 \<Rightarrow> u64 \<Rightarrow> u64 res" where
  "addr_lb pbs a =
     ensure (is_valid_pbs pbs) Assert_Failed
       (res_bind (n_lb_in_pb pbs) (\<lambda>n_lb. Inr (a * ucast n_lb)))"

definition capacity_lb :: "u32 \<Rightarrow> u64 \<Rightarrow> u64 res" where
  "capacity_lb pbs cap_pb = addr_lb pbs cap_pb"

section \<open>Bits\<close>

definition test_bit_u32 :: "nat \<Rightarrow> u32 \<Rightarrow> bool" where
  "test_bit_u32 nr v \<longleftrightarrow> v AND push_bit nr 1 \<noteq> 0"

definition set_bit_u32 :: "nat \<Rightarrow> u32 \<Rightarrow> u32" where
  "set_bit_u32 nr v = v OR push_bit nr 1"

definition clear_bit_u32 :: "nat \<Rightarrow> u32 \<Rightarrow> u32" where
  "clear_bit_u32 nr v = v AND NOT (push_bit nr 1)"

definition test_bit_u64 :: "nat \<Rightarrow> u64 \<Rightarrow> bool" where
  "test_bit_u64 nr v \<longleftrightarrow> v AND push_bit nr 1 \<noteq> 0"

definition set_bit_u64 :: "nat \<Rightarrow> u64 \<Rightarrow> u64" where
  "set_bit_u64 nr v = v OR push_bit nr 1"

definition clear_bit_u64 :: "nat \<Rightarrow> u64 \<Rightarrow> u64" where
  "clear_bit_u64 nr v = v AND NOT (push_bit nr 1)"

section \<open>Lemmas\<close>

lemma LOGICAL_BLOCK_SIZE_eq: "LOGICAL_BLOCK_SIZE = 512"
  by (simp add: LOGICAL_BLOCK_SIZE_def)

lemma is_valid_pbs_iff:
  "is_valid_pbs pbs \<longleftrightarrow> 512 \<le> unat pbs \<and> unat pbs mod 512 = 0"
proof -
  have "pbs mod 512 = 0 \<longleftrightarrow> unat (pbs mod 512) = 0" by (simp add: unat_eq_0)
  then show ?thesis
    by (simp add: is_valid_pbs_def is_valid_lbs_pbs_def LOGICAL_BLOCK_SIZE_eq
        word_le_nat_alt unat_mod_distrib)
qed

lemma n_lb_in_pb_valid:
  assumes "is_valid_pbs pbs"
  shows "\<exists>n. n_lb_in_pb pbs = Inr n \<and> unat n = unat pbs div 512 \<and> 0 < unat n"
proof -
  have n: "unat (pbs div 512) = unat pbs div 512" by (simp add: unat_div_distrib)
  have "0 < unat pbs div 512" using assms by (auto simp: is_valid_pbs_iff)
  then show ?thesis using assms n
    by (auto simp: n_lb_in_pb_def LOGICAL_BLOCK_SIZE_eq Let_def word_less_nat_alt)
qed

lemma n_lb_in_pb_invalid: "\<not> is_valid_pbs pbs \<Longrightarrow> n_lb_in_pb pbs = Inl Assert_Failed"
  by (simp add: n_lb_in_pb_def)

lemma addr_conv_valid:
  assumes "is_valid_pbs pbs"
  obtains n :: u32 where "n_lb_in_pb pbs = Inr n" "unat n = unat pbs div 512" "0 < unat n"
    "addr_pb pbs a = Inr (a div ucast n)" "off_in_pb pbs a = Inr (a mod ucast n)"
    "addr_lb pbs b = Inr (b * ucast n)"
  using n_lb_in_pb_valid [OF assms] assms
  by (auto simp: addr_pb_def off_in_pb_def addr_lb_def)

lemma test_bit_u32_iff: "nr < 32 \<Longrightarrow> test_bit_u32 nr v \<longleftrightarrow> bit v nr"
  by (auto simp: test_bit_u32_def and_exp_eq_0_iff_not_bit push_bit_eq_mult)

lemma test_bit_u64_iff: "nr < 64 \<Longrightarrow> test_bit_u64 nr v \<longleftrightarrow> bit v nr"
  by (auto simp: test_bit_u64_def and_exp_eq_0_iff_not_bit push_bit_eq_mult)

end
