(* ===== verification/Checksum.thy ===== *)
theory Checksum
  imports Block_Size
begin

text \<open>
  \<^verbatim>\<open>walb/include/linux/walb/checksum.h\<close>, \<^verbatim>\<open>util.h\<close> and the C++ twin
  \<^verbatim>\<open>include/checksum.hpp\<close>: the additive 32-bit checksum of a byte array, used for every
  on-disk header. The specification \<open>word_sum\<close> is the sum of the little-endian 32-bit
  words; the theorems say that both routines compute it, that the incremental use agrees
  with the whole-array use, and that storing the computed checksum in a zeroed, aligned
  field makes the array verify.
\<close>

section \<open>checksum.h\<close>

fun checksum_loop :: "nat \<Rightarrow> u32 \<Rightarrow> u8 list \<Rightarrow> u32 res" where
  "checksum_loop 0 acc p = Inr acc"
| "checksum_loop (Suc n) acc p =
     ensure (4 \<le> length p) Out_Of_Bounds
       (checksum_loop n (acc + le_load (take 4 p)) (drop 4 p))"

definition checksum_partial :: "u32 \<Rightarrow> u8 list \<Rightarrow> u32 \<Rightarrow> u32 res" where
  "checksum_partial acc data sz =
     ensure (sz mod 4 = 0) Assert_Failed (checksum_loop (unat (sz div 4)) acc data)"

definition checksum_finish :: "u32 \<Rightarrow> u32" where
  "checksum_finish acc = NOT acc + 1"

definition checksum :: "u8 list \<Rightarrow> u32 \<Rightarrow> u32 \<Rightarrow> u32 res" where
  "checksum data sz salt =
     res_bind (checksum_partial salt data sz) (\<lambda>s. Inr (checksum_finish s))"

section \<open>checksum.hpp\<close>

text \<open>
  The C++ routine takes a \<open>size_t\<close> and pads an unaligned tail with zero bytes. The list
  argument is the \<open>sz\<close> bytes at \<open>data\<close>.
\<close>

fun checksumPartial :: "u8 list \<Rightarrow> u32 \<Rightarrow> u32" where
  "checksumPartial p csum =
     (if 4 \<le> length p then checksumPartial (drop 4 p) (csum + le_load (take 4 p))
      else if 0 < length p then csum + le_load (p @ replicate (4 - length p) 0)
      else csum)"

declare checksumPartial.simps [simp del]

definition checksumFinish :: "u32 \<Rightarrow> u32" where
  "checksumFinish csum = NOT csum + 1"

definition calcChecksum :: "u8 list \<Rightarrow> u32 \<Rightarrow> u32" where
  "calcChecksum data salt = checksumFinish (checksumPartial data salt)"

section \<open>util.h\<close>

definition UUID_SIZE :: nat where "UUID_SIZE = 16"

definition UUID_STR_SIZE :: nat where "UUID_STR_SIZE = 16 * 3 + 1"

definition hex_digit :: "nat \<Rightarrow> char" where
  "hex_digit d = (if d < 10 then char_of (48 + d) else char_of (55 + d))"

definition hex_byte :: "u8 \<Rightarrow> string" where
  "hex_byte b = [hex_digit (unat b div 16), hex_digit (unat b mod 16), CHR '' '']"

fun sprint_hex_loop :: "nat \<Rightarrow> u8 list \<Rightarrow> char list \<Rightarrow> char list res" where
  "sprint_hex_loop i [] str = Inr str"
| "sprint_hex_loop i (b # bs) str =
     res_bind (write_at str (i * 3) (hex_byte b @ [CHR 0x00])) (sprint_hex_loop (Suc i) bs)"

text \<open>
  \<open>str\<close> is the destination buffer, \<open>data\<close> the bytes at the source pointer; the result is
  the returned number of characters and the buffer.
\<close>

definition sprint_hex :: "char list \<Rightarrow> int \<Rightarrow> u8 list \<Rightarrow> int \<Rightarrow> (int \<times> char list) res" where
  "sprint_hex str str_size data sz =
     ensure (sz \<ge> 0 \<and> str_size > 0) Assert_Failed
       (if str_size < sz * 3 + 1 then Inr (0, str)
        else ensure (nat sz \<le> length data) Out_Of_Bounds
          (res_bind (sprint_hex_loop 0 (take (nat sz) data) str)
            (\<lambda>str'. Inr (sz * 3, str'))))"

definition sprint_uuid :: "char list \<Rightarrow> int \<Rightarrow> u8 list \<Rightarrow> (int \<times> char list) res" where
  "sprint_uuid str str_size uuid = sprint_hex str str_size uuid (int UUID_SIZE)"

fun fnv1a_loop :: "u8 list \<Rightarrow> u32 \<Rightarrow> u32" where
  "fnv1a_loop [] v = v"
| "fnv1a_loop (b # bs) v = fnv1a_loop bs ((v XOR ucast b) * 16777619)"

definition fnv1a_hash :: "u8 list \<Rightarrow> u32 \<Rightarrow> u32 res" where
  "fnv1a_hash x n =
     ensure (unat n \<le> length x) Out_Of_Bounds (Inr (fnv1a_loop (take (unat n) x) 2166136261))"

section \<open>The sum of the little-endian words\<close>

fun word_sum :: "u8 list \<Rightarrow> u32" where
  "word_sum (a # b # c # d # bs) = le_load [a, b, c, d] + word_sum bs"
| "word_sum bs = 0"

lemma four_cases:
  assumes "4 \<le> length xs"
  obtains a b c d ys where "xs = a # b # c # d # ys"
  using assms by (auto simp: numeral_eq_Suc Suc_le_length_iff intro: that)

lemma word_sum_step: "4 \<le> length p \<Longrightarrow> word_sum p = le_load (take 4 p) + word_sum (drop 4 p)"
  by (erule four_cases) simp

lemma word_sum_append: "4 dvd length xs \<Longrightarrow> word_sum (xs @ ys) = word_sum xs + word_sum ys"
proof (induction xs rule: word_sum.induct)
  case (1 a b c d bs)
  then have "4 dvd length bs" by (simp add: dvd_def) presburger
  with 1 show ?case by (simp add: add.assoc)
qed (auto dest: dvd_imp_le)

lemma word_sum_le_store [simp]: "word_sum (le_store 4 w @ ys) = w + word_sum ys"
proof -
  have "word_sum (le_store 4 w @ ys) = le_load (le_store 4 w) + word_sum ys"
    by (subst word_sum_step) simp_all
  then show ?thesis by simp
qed

lemma checksum_loop_word_sum:
  "4 * n \<le> length p \<Longrightarrow> checksum_loop n acc p = Inr (acc + word_sum (take (4 * n) p))"
proof (induction n arbitrary: acc p)
  case 0
  then show ?case by simp
next
  case (Suc n)
  then have len: "4 \<le> length p" and rest: "4 * n \<le> length (drop 4 p)" by simp_all
  have "word_sum (take (4 * Suc n) p) = le_load (take 4 p) + word_sum (take (4 * n) (drop 4 p))"
    using Suc.prems by (subst word_sum_step) (auto simp: drop_take min_def)
  with Suc.IH [OF rest] len show ?case by (simp add: add.assoc)
qed

lemma checksum_partial_word_sum:
  assumes "unat sz mod 4 = 0" and "unat sz \<le> length data"
  shows "checksum_partial acc data sz = Inr (acc + word_sum (take (unat sz) data))"
proof -
  have "unat (sz mod 4) = 0" using assms(1) by (simp add: unat_mod_distrib)
  then have m: "sz mod 4 = 0" by (simp add: unat_eq_0)
  have d: "4 * unat (sz div 4) = unat sz"
    using assms(1) by (simp add: unat_div_distrib) presburger
  with checksum_loop_word_sum [of "unat (sz div 4)" data acc] assms(2) m show ?thesis
    by (simp add: checksum_partial_def)
qed

lemma checksum_finish_eq: "checksum_finish s = - s"
  by (simp add: checksum_finish_def minus_eq_not_plus_1)

lemma checksum_word_sum:
  assumes "unat sz mod 4 = 0" and "unat sz \<le> length data"
  shows "checksum data sz salt = Inr (- (salt + word_sum (take (unat sz) data)))"
  using checksum_partial_word_sum [OF assms] by (simp add: checksum_def checksum_finish_eq)

lemma checksumPartial_word_sum:
  "4 dvd length p \<Longrightarrow> checksumPartial p csum = csum + word_sum p"
proof (induction p csum rule: checksumPartial.induct)
  case (1 p csum)
  show ?case
  proof (cases "4 \<le> length p")
    case True
    then have "4 dvd length (drop 4 p)" using "1.prems" by (auto simp: dvd_def) presburger
    with 1 True show ?thesis
      by (subst checksumPartial.simps) (simp add: word_sum_step add.assoc)
  next
    case False
    with "1.prems" have "p = []" by (auto dest: dvd_imp_le)
    then show ?thesis by (subst checksumPartial.simps) simp
  qed
qed

lemma calcChecksum_word_sum: "4 dvd length p \<Longrightarrow> calcChecksum p salt = - (salt + word_sum p)"
  by (simp add: calcChecksum_def checksumFinish_def checksumPartial_word_sum minus_eq_not_plus_1)

text \<open>Padding the array to a multiple of four bytes with zeros changes nothing.\<close>

lemma checksumPartial_pad:
  "checksumPartial p csum = csum + word_sum (p @ replicate ((4 - length p mod 4) mod 4) 0)"
proof (induction p csum rule: checksumPartial.induct)
  case (1 p csum)
  consider (long) "4 \<le> length p" | (tail) "length p < 4" "0 < length p" | (none) "p = []"
    by fastforce
  then show ?case
  proof cases
    case long
    then have "(length p - 4) mod 4 = length p mod 4" by (simp add: mod_if [of "length p"])
    with 1 long show ?thesis
      by (subst checksumPartial.simps) (simp add: word_sum_step add.assoc)
  next
    case tail
    let ?q = "p @ replicate (4 - length p) (0 :: u8)"
    have "word_sum ?q = le_load (take 4 ?q) + word_sum (drop 4 ?q)"
      using tail by (intro word_sum_step) simp
    also have "\<dots> = le_load ?q" using tail by simp
    finally show ?thesis using tail by (subst checksumPartial.simps) simp
  next
    case none
    then show ?thesis by (subst checksumPartial.simps) simp
  qed
qed

section \<open>Headers that carry their own checksum\<close>

text \<open>
  Every on-disk header of the program (super sector, log pack, wlog file, diff file, diff pack,
  indexed diff record, index super block) stores a checksum field inside the checksummed bytes.
  The contract: the image has a size that is a multiple of four, and the field is one of the
  summed words. Its consequence is the update rule that all of them use: clear the field,
  compute the checksum, store it; the checksum of the result is zero, and no other value of
  the field has that property.
\<close>

locale checksummed =
  fixes ok :: "'h \<Rightarrow> bool" and bytes :: "'h \<Rightarrow> u8 list" and set_csum :: "u32 \<Rightarrow> 'h \<Rightarrow> 'h"
  assumes ok_set: "ok h \<Longrightarrow> ok (set_csum c h)"
    and aligned: "ok h \<Longrightarrow> 4 dvd length (bytes h)"
    and csum_word: "ok h \<Longrightarrow> word_sum (bytes (set_csum c h)) = c + word_sum (bytes (set_csum 0 h))"
begin

lemma calc_zero_iff:
  assumes "ok h"
  shows "calcChecksum (bytes (set_csum c h)) salt = 0
     \<longleftrightarrow> c = calcChecksum (bytes (set_csum 0 h)) salt"
proof -
  have "calcChecksum (bytes (set_csum c h)) salt = calcChecksum (bytes (set_csum 0 h)) salt - c"
    using csum_word [OF assms, of c] aligned ok_set assms by (simp add: calcChecksum_word_sum)
  then show ?thesis by auto
qed

lemma updated_verifies:
  "ok h \<Longrightarrow> calcChecksum (bytes (set_csum (calcChecksum (bytes (set_csum 0 h)) salt) h)) salt = 0"
  by (simp add: calc_zero_iff)

lemma checksum_agrees:
  assumes "ok h" and "unat sz = length (bytes h)"
  shows "checksum (bytes h) sz salt = Inr (calcChecksum (bytes h) salt)"
  using aligned [OF assms(1)] assms(2) checksum_word_sum [of sz "bytes h" salt]
  by (auto simp: calcChecksum_word_sum dvd_eq_mod_eq_0)

end

text \<open>The sum of zero bytes.\<close>

lemma word_sum_replicate_0 [simp]: "word_sum (replicate n 0) = 0"
proof (induction n rule: less_induct)
  case (less n)
  show ?case
  proof (cases "n < 4")
    case True
    then have "n = 0 \<or> n = 1 \<or> n = 2 \<or> n = 3" by auto
    then show ?thesis by (auto simp: numeral_eq_Suc)
  next
    case False
    then obtain m where m: "n = 4 + m" by (metis not_less le_iff_add)
    have "word_sum (replicate n 0) = le_load (replicate 4 0) + word_sum (replicate m 0)"
      using m by (simp add: numeral_eq_Suc)
    with less m show ?thesis by (simp add: le_load_def numeral_eq_Suc)
  qed
qed

end
