(* ===== verification/Diff_Record.thy ===== *)
theory Diff_Record
  imports Address_Util Checksum Block_Size
begin

text \<open>
  Records of wdiff files: the structures of \<^verbatim>\<open>src/walb_diff.h\<close> and the classes \<open>DiffRecord\<close>,
  \<open>IndexedDiffRecord\<close> and \<open>DiffIndexSuper\<close> of \<^verbatim>\<open>src/walb_diff_base.hpp\<close> and
  \<^verbatim>\<open>src/walb_diff_base.cpp\<close>, with the division of records and of their data, the difference of
  records, and compression. A vector of bytes is its list. The compression engines are the
  parameters \<open>enc\<close> and \<open>dec\<close>; only the engine that copies is in the source.
\<close>

section \<open>walb\_diff.h\<close>

definition WALB_DIFF_VERSION :: u16 where "WALB_DIFF_VERSION = 2"

definition WALB_DIFF_TYPE_SORTED :: u8 where "WALB_DIFF_TYPE_SORTED = 0"

definition WALB_DIFF_TYPE_INDEXED :: u8 where "WALB_DIFF_TYPE_INDEXED = 1"

definition WALB_DIFF_FLAG_ALLZERO :: u8 where "WALB_DIFF_FLAG_ALLZERO = push_bit 1 1"

definition WALB_DIFF_FLAG_DISCARD :: u8 where "WALB_DIFF_FLAG_DISCARD = push_bit 2 1"

definition WALB_DIFF_CMPR_NONE :: u8 where "WALB_DIFF_CMPR_NONE = 0"

definition WALB_DIFF_CMPR_GZIP :: u8 where "WALB_DIFF_CMPR_GZIP = 1"

definition WALB_DIFF_CMPR_SNAPPY :: u8 where "WALB_DIFF_CMPR_SNAPPY = 2"

definition WALB_DIFF_CMPR_LZMA :: u8 where "WALB_DIFF_CMPR_LZMA = 3"

definition WALB_DIFF_CMPR_LZ4 :: u8 where "WALB_DIFF_CMPR_LZ4 = 4"

definition WALB_DIFF_CMPR_ZSTD :: u8 where "WALB_DIFF_CMPR_ZSTD = 5"

definition WALB_DIFF_CMPR_MAX :: u8 where "WALB_DIFF_CMPR_MAX = 6"

record walb_diff_file_header =
  fh_checksum :: u32
  fh_version :: u16
  fh_type :: u8
  fh_reserved1 :: u8
  fh_reserved2 :: u32
  fh_reserved3 :: u32
  fh_uuid :: "u8 list"

record walb_diff_record =
  dr_io_address :: u64
  dr_io_blocks :: u32
  dr_flags :: u8
  dr_compression_type :: u8
  dr_reserved1 :: u16
  dr_data_offset :: u32
  dr_data_size :: u32
  dr_checksum :: u32
  dr_reserved2 :: u32

record walb_indexed_diff_record =
  ir_io_address :: u64
  ir_io_blocks :: u32
  ir_flags :: u8
  ir_compression_type :: u8
  ir_reserved1 :: u16
  ir_data_offset :: u64
  ir_data_size :: u32
  ir_io_offset :: u32
  ir_orig_blocks :: u32
  ir_reserved2 :: u32
  ir_io_checksum :: u32
  ir_rec_checksum :: u32

record walb_diff_index_super =
  is_index_offset :: u64
  is_n_records :: u32
  is_n_data :: u32
  is_reserved1 :: u32
  is_checksum :: u32

definition diff_record_bytes :: "walb_diff_record \<Rightarrow> u8 list" where
  "diff_record_bytes r =
     le_store 8 (dr_io_address r) @ le_store 4 (dr_io_blocks r) @ le_store 1 (dr_flags r)
     @ le_store 1 (dr_compression_type r) @ le_store 2 (dr_reserved1 r)
     @ le_store 4 (dr_data_offset r) @ le_store 4 (dr_data_size r) @ le_store 4 (dr_checksum r)
     @ le_store 4 (dr_reserved2 r)"

definition diff_record_of :: "u8 list \<Rightarrow> walb_diff_record" where
  "diff_record_of bs =
     \<lparr>dr_io_address = le_load (take 8 bs), dr_io_blocks = le_load (take 4 (drop 8 bs)),
      dr_flags = le_load (take 1 (drop 12 bs)),
      dr_compression_type = le_load (take 1 (drop 13 bs)),
      dr_reserved1 = le_load (take 2 (drop 14 bs)),
      dr_data_offset = le_load (take 4 (drop 16 bs)),
      dr_data_size = le_load (take 4 (drop 20 bs)), dr_checksum = le_load (take 4 (drop 24 bs)),
      dr_reserved2 = le_load (take 4 (drop 28 bs))\<rparr>"

definition indexed_record_bytes :: "walb_indexed_diff_record \<Rightarrow> u8 list" where
  "indexed_record_bytes r =
     le_store 8 (ir_io_address r) @ le_store 4 (ir_io_blocks r) @ le_store 1 (ir_flags r)
     @ le_store 1 (ir_compression_type r) @ le_store 2 (ir_reserved1 r)
     @ le_store 8 (ir_data_offset r) @ le_store 4 (ir_data_size r) @ le_store 4 (ir_io_offset r)
     @ le_store 4 (ir_orig_blocks r) @ le_store 4 (ir_reserved2 r)
     @ le_store 4 (ir_io_checksum r) @ le_store 4 (ir_rec_checksum r)"

definition index_super_bytes :: "walb_diff_index_super \<Rightarrow> u8 list" where
  "index_super_bytes s =
     le_store 8 (is_index_offset s) @ le_store 4 (is_n_records s) @ le_store 4 (is_n_data s)
     @ le_store 4 (is_reserved1 s) @ le_store 4 (is_checksum s)"

definition diff_file_header_bytes :: "walb_diff_file_header \<Rightarrow> u8 list" where
  "diff_file_header_bytes h =
     le_store 4 (fh_checksum h) @ le_store 2 (fh_version h) @ le_store 1 (fh_type h)
     @ le_store 1 (fh_reserved1 h) @ le_store 4 (fh_reserved2 h) @ le_store 4 (fh_reserved3 h)
     @ fh_uuid h"

definition diff_file_header_of :: "u8 list \<Rightarrow> walb_diff_file_header" where
  "diff_file_header_of bs =
     \<lparr>fh_checksum = le_load (take 4 bs), fh_version = le_load (take 2 (drop 4 bs)),
      fh_type = le_load (take 1 (drop 6 bs)), fh_reserved1 = le_load (take 1 (drop 7 bs)),
      fh_reserved2 = le_load (take 4 (drop 8 bs)), fh_reserved3 = le_load (take 4 (drop 12 bs)),
      fh_uuid = take 16 (drop 16 bs)\<rparr>"

section \<open>DiffRecord\<close>

definition DiffRecord_init :: walb_diff_record where
  "DiffRecord_init =
     \<lparr>dr_io_address = 0, dr_io_blocks = 0, dr_flags = 0, dr_compression_type = 0,
      dr_reserved1 = 0, dr_data_offset = 0, dr_data_size = 0, dr_checksum = 0, dr_reserved2 = 0\<rparr>"

definition rec_endIoAddress :: "walb_diff_record \<Rightarrow> u64" where
  "rec_endIoAddress r = dr_io_address r + ucast (dr_io_blocks r)"

definition rec_isCompressed :: "walb_diff_record \<Rightarrow> bool" where
  "rec_isCompressed r \<longleftrightarrow> dr_compression_type r \<noteq> WALB_DIFF_CMPR_NONE"

definition rec_isAllZero :: "walb_diff_record \<Rightarrow> bool" where
  "rec_isAllZero r \<longleftrightarrow> dr_flags r AND WALB_DIFF_FLAG_ALLZERO \<noteq> 0"

definition rec_isDiscard :: "walb_diff_record \<Rightarrow> bool" where
  "rec_isDiscard r \<longleftrightarrow> dr_flags r AND WALB_DIFF_FLAG_DISCARD \<noteq> 0"

definition rec_isNormal :: "walb_diff_record \<Rightarrow> bool" where
  "rec_isNormal r \<longleftrightarrow> \<not> rec_isAllZero r \<and> \<not> rec_isDiscard r"

definition rec_setNormal :: "walb_diff_record \<Rightarrow> walb_diff_record" where
  "rec_setNormal r = r\<lparr>dr_flags := dr_flags r AND NOT WALB_DIFF_FLAG_ALLZERO AND NOT WALB_DIFF_FLAG_DISCARD\<rparr>"

definition rec_setAllZero :: "walb_diff_record \<Rightarrow> walb_diff_record" where
  "rec_setAllZero r = r\<lparr>dr_flags := (dr_flags r OR WALB_DIFF_FLAG_ALLZERO) AND NOT WALB_DIFF_FLAG_DISCARD\<rparr>"

definition rec_setDiscard :: "walb_diff_record \<Rightarrow> walb_diff_record" where
  "rec_setDiscard r = r\<lparr>dr_flags := (dr_flags r AND NOT WALB_DIFF_FLAG_ALLZERO) OR WALB_DIFF_FLAG_DISCARD\<rparr>"

definition rec_isOverwrittenBy :: "walb_diff_record \<Rightarrow> walb_diff_record \<Rightarrow> bool" where
  "rec_isOverwrittenBy r s =
     isOverwritten (dr_io_address r) (dr_io_blocks r) (dr_io_address s) (dr_io_blocks s)"

definition rec_isOverlapped :: "walb_diff_record \<Rightarrow> walb_diff_record \<Rightarrow> bool" where
  "rec_isOverlapped r s =
     isOverlapped (dr_io_address r) (dr_io_blocks r) (dr_io_address s) (dr_io_blocks s)"

definition rec_verify :: "walb_diff_record \<Rightarrow> unit res" where
  "rec_verify r =
     (if \<not> rec_isNormal r then
        (if rec_isAllZero r \<and> rec_isDiscard r
         then Inl (Exception ''allzero and discard flag is exclusive'') else Inr ())
      else if WALB_DIFF_CMPR_MAX \<le> dr_compression_type r
        then Inl (Exception ''compression type is invalid'')
      else if dr_io_blocks r = 0 then Inl (Exception ''io_blocks must not be 0'')
      else Inr ())"

definition rec_isValid :: "walb_diff_record \<Rightarrow> bool" where
  "rec_isValid r = is_ok (rec_verify r)"

text \<open>The loop of \<open>splitAll\<close>; \<open>blks * LOGICAL_BLOCK_SIZE\<close> is computed in 32 bits.\<close>

function splitAll_loop ::
  "walb_diff_record \<Rightarrow> u32 \<Rightarrow> u64 \<Rightarrow> u32 \<Rightarrow> walb_diff_record list"
where
  "splitAll_loop r ioBlocks0 addr remaining =
     (if remaining > 0 \<and> ioBlocks0 \<noteq> 0 then
        let blks = min ioBlocks0 remaining;
            p = r\<lparr>dr_io_address := addr, dr_io_blocks := blks\<rparr>;
            p' = if rec_isNormal r then p\<lparr>dr_data_size := blks * LOGICAL_BLOCK_SIZE\<rparr> else p
        in p' # splitAll_loop r ioBlocks0 (addr + ucast blks) (remaining - blks)
      else [])"
  by auto

lemma chunk_progress:
  assumes "(rem :: u32) > 0" and "n \<noteq> 0"
  shows "unat (rem - min n rem) < unat rem"
proof -
  have "0 < unat n" "0 < unat rem" using assms by (simp_all add: unat_gt_0 word_gt_0)
  then show ?thesis by (simp add: min_def unat_sub word_le_nat_alt)
qed

termination splitAll_loop
  by (relation "measure (\<lambda>(_, _, _, n). unat n)") (auto intro: chunk_progress)

declare splitAll_loop.simps [simp del]

definition rec_splitAll :: "walb_diff_record \<Rightarrow> u32 \<Rightarrow> walb_diff_record list res" where
  "rec_splitAll r ioBlocks0 =
     (if ioBlocks0 = 0 then Inl (Exception ''splitAll: ioBlocks0 must not be 0.'')
      else if rec_isCompressed r
        then Inl (Exception ''splitAll: compressed data can not be splitted.'')
      else let v = splitAll_loop r ioBlocks0 (dr_io_address r) (dr_io_blocks r)
        in ensure (v \<noteq> []) Assert_Failed (Inr v))"

section \<open>Data of IOs\<close>

definition calcDiffIoChecksum :: "u8 list \<Rightarrow> u32" where
  "calcDiffIoChecksum io = (if io = [] then 0 else calcChecksum io 0)"

definition calcDiffIoIsAllZero :: "u8 list \<Rightarrow> bool" where
  "calcDiffIoIsAllZero io = (if io = [] then False else list_all (\<lambda>b. b = 0) io)"

text \<open>
  \<open>remaining\<close> is 32 bits wide and so is the size of a piece in bytes. With \<open>ioBlocks\<close> zero the
  loop of the source does not end; \<open>None\<close> stands for this.
\<close>

partial_function (option) splitIoData_loop ::
  "u32 \<Rightarrow> u32 \<Rightarrow> u8 list \<Rightarrow> u8 list list res option"
where
  "splitIoData_loop ioBlocks remaining p =
     (if remaining > 0 then
        let lb = min remaining ioBlocks; bytes = unat (lb * LOGICAL_BLOCK_SIZE) in
        case read_at p 0 bytes of
          Inl e \<Rightarrow> Some (Inl e)
        | Inr x \<Rightarrow> Option.bind (splitIoData_loop ioBlocks (remaining - lb) (drop bytes p))
            (\<lambda>t. Some (res_bind t (\<lambda>v. Inr (x # v))))
      else Some (Inr []))"

definition splitIoDataAll :: "u8 list \<Rightarrow> u32 \<Rightarrow> u8 list list res option" where
  "splitIoDataAll buf ioBlocks =
     (if length buf mod 512 = 0
      then splitIoData_loop ioBlocks (of_nat (length buf div 512)) buf
      else Some (Inl Assert_Failed))"

section \<open>Compression\<close>

text \<open>
  \<open>Compressor\<close> and \<open>Uncompressor\<close> select an engine by its number. An engine that fails to
  compress returns \<open>None\<close>, one that fails to decompress throws; the constructors of some engines
  throw for a level that they do not know. The libraries behind the engines
  are \<open>lib_enc type level maxOutSize in\<close> and \<open>lib_dec type maxOutSize in\<close>, where \<open>level\<close> is
  the one that the wrapper passes on (0 for the default of zlib, and for the libraries that take none).
\<close>

definition asis_run :: "nat \<Rightarrow> u8 list \<Rightarrow> u8 list option" where
  "asis_run maxOutSize xs = (if maxOutSize < length xs then None else Some xs)"

definition asis_unrun :: "nat \<Rightarrow> u8 list \<Rightarrow> u8 list res" where
  "asis_unrun maxOutSize xs =
     (if maxOutSize < length xs then Inl (Exception ''UncompressorAsIs:run:small maxOutSize'')
      else Inr xs)"

type_synonym encoder = "u8 \<Rightarrow> nat \<Rightarrow> nat \<Rightarrow> u8 list \<Rightarrow> u8 list option"
type_synonym decoder = "u8 \<Rightarrow> nat \<Rightarrow> u8 list \<Rightarrow> u8 list res"

text \<open>
  The constructors: \<open>CompressorZlib\<close>, \<open>CompressorXz\<close> with its preset of 32 bits, and \<open>CompressorZstd\<close>, which checks
  the level and then always compresses at level 1.
\<close>

definition compressor_level :: "u8 \<Rightarrow> nat \<Rightarrow> nat res" where
  "compressor_level type level =
     (if type = WALB_DIFF_CMPR_GZIP then
        (if level > 9 then Inl (Exception ''CompressorZlib:bad compressionLevel'') else Inr level)
      else if type = WALB_DIFF_CMPR_LZMA then
        (let present = (if level = 0 then 6 else level mod 2 ^ 32) in
         if present > 9 then Inl (Exception ''CompressorXz:bad compressionLevel'') else Inr present)
      else if type = WALB_DIFF_CMPR_ZSTD then
        (if level \<ge> 20 then Inl (Exception ''CompressorZstd:bad compression level'') else Inr 1)
      else Inr 0)"

text \<open>The wrappers of zlib and LZ4 take an empty result as a failure.\<close>

definition engine_result :: "u8 \<Rightarrow> u8 list option \<Rightarrow> u8 list option" where
  "engine_result type out = (if type \<in> {WALB_DIFF_CMPR_GZIP, WALB_DIFF_CMPR_LZ4} \<and> out = Some [] then None else out)"

definition Compressor_run :: "encoder \<Rightarrow> u8 \<Rightarrow> nat \<Rightarrow> nat \<Rightarrow> u8 list \<Rightarrow> u8 list option res" where
  "Compressor_run lib_enc type level maxOutSize xs =
     (if type = WALB_DIFF_CMPR_NONE then Inr (asis_run maxOutSize xs)
      else if type < WALB_DIFF_CMPR_MAX then
        res_bind (compressor_level type level) (\<lambda>l. Inr (engine_result type (lib_enc type l maxOutSize xs)))
      else Inl (Exception ''Compressor:invalid mode''))"

text \<open>The memory limit of \<open>UncompressorXz\<close>, 16 MiB as no caller gives another one, is part of \<open>lib_dec\<close>.\<close>

definition Uncompressor_run :: "decoder \<Rightarrow> u8 \<Rightarrow> nat \<Rightarrow> u8 list \<Rightarrow> u8 list res" where
  "Uncompressor_run lib_dec type maxOutSize xs =
     (if type = WALB_DIFF_CMPR_NONE then asis_unrun maxOutSize xs
      else if type < WALB_DIFF_CMPR_MAX then
        res_bind (lib_dec type maxOutSize xs) (\<lambda>out.
          if type = WALB_DIFF_CMPR_LZ4 \<and> out = [] then Inl (Exception ''UncompressorLz4:LZ4_decompress_safe failed'')
          else Inr out)
      else Inl (Exception ''Uncompressor:invalid mode''))"

text \<open>The result is the type that was used in the end, and the data.\<close>

definition compressData :: "encoder \<Rightarrow> u8 list \<Rightarrow> u8 \<Rightarrow> nat \<Rightarrow> (u8 \<times> u8 list) res" where
  "compressData lib_enc inData type level =
     res_bind (Compressor_run lib_enc type level (length inData + 4096) inData) (\<lambda>out.
       case out of
         Some outData \<Rightarrow> if length outData < length inData then Inr (type, outData)
                         else Inr (WALB_DIFF_CMPR_NONE, inData)
       | None \<Rightarrow> Inr (WALB_DIFF_CMPR_NONE, inData))"

definition uncompressData :: "decoder \<Rightarrow> u8 list \<Rightarrow> nat \<Rightarrow> u8 \<Rightarrow> u8 list res" where
  "uncompressData lib_dec inData outSize type =
     res_bind (Uncompressor_run lib_dec type outSize inData) (\<lambda>out.
       if length out \<noteq> outSize then Inl (Exception ''uncompressData:size is invalid'')
       else Inr out)"

text \<open>\<open>inData\<close> points to at least the bytes of the IO.\<close>

definition compressDiffIo ::
  "encoder \<Rightarrow> walb_diff_record \<Rightarrow> u8 list \<Rightarrow> u8 \<Rightarrow> nat \<Rightarrow> (walb_diff_record \<times> u8 list) res"
where
  "compressDiffIo lib_enc inRec inData type level =
     ensure (rec_isNormal inRec) Assert_Failed (ensure (\<not> rec_isCompressed inRec) Assert_Failed
       (let inSize = unat (dr_io_blocks inRec * LOGICAL_BLOCK_SIZE) in
        res_bind (read_at inData 0 inSize) (\<lambda>xs.
        res_bind (compressData lib_enc xs type level) (\<lambda>(t, outData).
          Inr (inRec\<lparr>dr_compression_type := t, dr_data_size := of_nat (length outData),
                 dr_checksum := calcDiffIoChecksum outData\<rparr>, outData)))))"

definition uncompressDiffIo ::
  "decoder \<Rightarrow> walb_diff_record \<Rightarrow> u8 list \<Rightarrow> bool \<Rightarrow> (walb_diff_record \<times> u8 list) res"
where
  "uncompressDiffIo lib_dec inRec inData calcCsum =
     ensure (rec_isNormal inRec) Assert_Failed (ensure (rec_isCompressed inRec) Assert_Failed
       (let sz = unat (dr_io_blocks inRec * LOGICAL_BLOCK_SIZE) in
        res_bind (read_at inData 0 (unat (dr_data_size inRec))) (\<lambda>xs.
        res_bind (uncompressData lib_dec xs sz (dr_compression_type inRec)) (\<lambda>outData.
          Inr (inRec\<lparr>dr_data_size := of_nat sz, dr_compression_type := WALB_DIFF_CMPR_NONE,
                 dr_checksum := if calcCsum then calcDiffIoChecksum outData else 0\<rparr>, outData)))))"

section \<open>IndexedDiffRecord\<close>

definition irec_endIoAddress :: "walb_indexed_diff_record \<Rightarrow> u64" where
  "irec_endIoAddress r = ir_io_address r + ucast (ir_io_blocks r)"

definition irec_isCompressed :: "walb_indexed_diff_record \<Rightarrow> bool" where
  "irec_isCompressed r \<longleftrightarrow> ir_compression_type r \<noteq> WALB_DIFF_CMPR_NONE"

definition irec_isAllZero :: "walb_indexed_diff_record \<Rightarrow> bool" where
  "irec_isAllZero r \<longleftrightarrow> ir_flags r AND WALB_DIFF_FLAG_ALLZERO \<noteq> 0"

definition irec_isDiscard :: "walb_indexed_diff_record \<Rightarrow> bool" where
  "irec_isDiscard r \<longleftrightarrow> ir_flags r AND WALB_DIFF_FLAG_DISCARD \<noteq> 0"

definition irec_isNormal :: "walb_indexed_diff_record \<Rightarrow> bool" where
  "irec_isNormal r \<longleftrightarrow> \<not> irec_isAllZero r \<and> \<not> irec_isDiscard r"

definition irec_isOverwrittenBy :: "walb_indexed_diff_record \<Rightarrow> walb_indexed_diff_record \<Rightarrow> bool" where
  "irec_isOverwrittenBy r s =
     isOverwritten (ir_io_address r) (ir_io_blocks r) (ir_io_address s) (ir_io_blocks s)"

definition irec_isOverlapped :: "walb_indexed_diff_record \<Rightarrow> walb_indexed_diff_record \<Rightarrow> bool" where
  "irec_isOverlapped r s =
     isOverlapped (ir_io_address r) (ir_io_blocks r) (ir_io_address s) (ir_io_blocks s)"

definition irec_verifyAligned :: "walb_indexed_diff_record \<Rightarrow> unit res" where
  "irec_verifyAligned r =
     res_bind (isAlignedSize (ir_io_blocks r)) (\<lambda>ok.
       if \<not> ok then Inl (Exception ''IO is not alined'') else Inr ())"

text \<open>\<open>verifyDetail(true, doChecksum)\<close>; with \<open>throwError\<close> false it returns false where this throws.\<close>

definition irec_verify :: "walb_indexed_diff_record \<Rightarrow> bool \<Rightarrow> unit res" where
  "irec_verify r doChecksum =
     (if \<not> irec_isNormal r then
        (if irec_isAllZero r \<and> irec_isDiscard r
         then Inl (Exception ''allzero and discard flag must be exclusive'') else Inr ())
      else if WALB_DIFF_CMPR_MAX \<le> ir_compression_type r
        then Inl (Exception ''compression type is invalid'')
      else if ir_io_blocks r = 0 then Inl (Exception ''io_blocks must not be 0'')
      else if \<not> doChecksum then Inr ()
      else if calcChecksum (indexed_record_bytes r) 0 \<noteq> 0
        then Inl (Exception ''invalid checksum'')
      else Inr ())"

definition irec_isValid :: "walb_indexed_diff_record \<Rightarrow> bool \<Rightarrow> bool" where
  "irec_isValid r doChecksum = is_ok (irec_verify r doChecksum)"

definition updateRecChecksum :: "walb_indexed_diff_record \<Rightarrow> walb_indexed_diff_record res" where
  "updateRecChecksum r =
     (let r0 = r\<lparr>ir_rec_checksum := 0\<rparr>;
          r1 = r0\<lparr>ir_rec_checksum := calcChecksum (indexed_record_bytes r0) 0\<rparr>
      in res_bind (irec_verify r1 True) (\<lambda>_. Inr r1))"

fun irec_split_loop ::
  "walb_indexed_diff_record \<Rightarrow> u64 \<Rightarrow> u32 \<Rightarrow> u32 list \<Rightarrow> walb_indexed_diff_record list res"
where
  "irec_split_loop r addr off [] = Inr []"
| "irec_split_loop r addr off (s # v) =
     res_bind (updateRecChecksum (r\<lparr>ir_io_address := addr, ir_io_blocks := s, ir_io_offset := off\<rparr>))
       (\<lambda>p. res_bind (irec_split_loop r (addr + ucast s) (off + s) v) (\<lambda>w. Inr (p # w)))"

definition irec_split :: "walb_indexed_diff_record \<Rightarrow> u32 \<Rightarrow> walb_indexed_diff_record list res" where
  "irec_split r maxIoBlocks =
     irec_split_loop r (ir_io_address r) (ir_io_offset r)
       (splitIoToAligned (ir_io_address r) (ir_io_blocks r) maxIoBlocks)"

text \<open>Only a part that is not empty is sealed with its checksum and returned.\<close>

definition irec_part :: "u32 \<Rightarrow> walb_indexed_diff_record \<Rightarrow> walb_indexed_diff_record list res" where
  "irec_part blks r =
     (if blks > 0 then res_bind (updateRecChecksum r) (\<lambda>p. Inr [p]) else Inr [])"

definition irec_minus ::
  "walb_indexed_diff_record \<Rightarrow> walb_indexed_diff_record \<Rightarrow> walb_indexed_diff_record list res"
where
  "irec_minus lhs rhs =
     ensure (irec_isOverlapped lhs rhs) Assert_Failed
       (if irec_isOverwrittenBy lhs rhs then Inr []
        else if irec_isOverwrittenBy rhs lhs then
          let blks0 = ucast (ir_io_address rhs - ir_io_address lhs);
              blks1 = ucast (irec_endIoAddress lhs - irec_endIoAddress rhs);
              addr0 = ir_io_address lhs; addr1 = irec_endIoAddress rhs;
              r0 = lhs\<lparr>ir_io_address := addr0, ir_io_blocks := blks0\<rparr>;
              r1 = lhs\<lparr>ir_io_address := addr1, ir_io_blocks := blks1,
                     ir_io_offset := ir_io_offset lhs + ucast (addr1 - addr0)\<rparr>
          in res_bind (irec_part blks0 r0) (\<lambda>v0. res_bind (irec_part blks1 r1) (\<lambda>v1. Inr (v0 @ v1)))
        else Inl (Exception ''BUG: IndexedDiffRecord:minus.''))"

section \<open>DiffFileHeader\<close>

text \<open>A reader is the list of the bytes that are left, a writer the list of the bytes written.\<close>

definition DIFF_FILE_HEADER_SIZE :: nat where "DIFF_FILE_HEADER_SIZE = 32"

definition file_header_init :: walb_diff_file_header where
  "file_header_init =
     diff_file_header_of (replicate DIFF_FILE_HEADER_SIZE 0)
       \<lparr>fh_version := WALB_DIFF_VERSION, fh_type := WALB_DIFF_TYPE_SORTED\<rparr>"

definition file_header_setUuid :: "u8 list \<Rightarrow> walb_diff_file_header \<Rightarrow> walb_diff_file_header" where
  "file_header_setUuid uuid h = h\<lparr>fh_uuid := uuid\<rparr>"

definition file_header_verify :: "walb_diff_file_header \<Rightarrow> unit res" where
  "file_header_verify h =
     (if calcChecksum (diff_file_header_bytes h) 0 \<noteq> 0 then Inl (Exception ''invalid checksum'')
      else if fh_version h \<noteq> WALB_DIFF_VERSION
        then Inl (Exception ''invalid walb diff version'')
      else Inr ())"

definition file_header_isValid :: "walb_diff_file_header \<Rightarrow> bool" where
  "file_header_isValid h = is_ok (file_header_verify h)"

definition file_header_updateChecksum :: "walb_diff_file_header \<Rightarrow> walb_diff_file_header" where
  "file_header_updateChecksum h =
     (let h0 = h\<lparr>fh_checksum := 0\<rparr>
      in h0\<lparr>fh_checksum := calcChecksum (diff_file_header_bytes h0) 0\<rparr>)"

definition file_header_isIndexed :: "walb_diff_file_header \<Rightarrow> bool res" where
  "file_header_isIndexed h =
     (if fh_type h = WALB_DIFF_TYPE_SORTED then Inr False
      else if fh_type h = WALB_DIFF_TYPE_INDEXED then Inr True
      else Inl (Exception ''Invalid type''))"

definition file_header_writeTo ::
  "u8 list \<Rightarrow> walb_diff_file_header \<Rightarrow> u8 list \<times> walb_diff_file_header"
where
  "file_header_writeTo writer h =
     (let h1 = file_header_updateChecksum h in (writer @ diff_file_header_bytes h1, h1))"

definition file_header_readFrom :: "u8 list \<Rightarrow> (walb_diff_file_header \<times> u8 list) res" where
  "file_header_readFrom reader =
     (if length reader < DIFF_FILE_HEADER_SIZE then Inl (Exception ''EofError'')
      else let h = diff_file_header_of (take DIFF_FILE_HEADER_SIZE reader) in
        res_bind (file_header_verify h) (\<lambda>_. Inr (h, drop DIFF_FILE_HEADER_SIZE reader)))"

section \<open>DiffIndexSuper\<close>

definition index_super_updateChecksum :: "walb_diff_index_super \<Rightarrow> walb_diff_index_super" where
  "index_super_updateChecksum s =
     (let s0 = s\<lparr>is_checksum := 0\<rparr> in s0\<lparr>is_checksum := calcChecksum (index_super_bytes s0) 0\<rparr>)"

definition index_super_verify :: "walb_diff_index_super \<Rightarrow> unit res" where
  "index_super_verify s =
     (if calcChecksum (index_super_bytes s) 0 \<noteq> 0 then Inl (Exception ''invalid checksum'')
      else Inr ())"

section \<open>getDiffRecType\<close>

datatype DiffRecType = NORMAL | DISCARD | ALLZERO

definition getDiffRecType :: "bool \<Rightarrow> bool \<Rightarrow> bool \<Rightarrow> DiffRecType res" where
  "getDiffRecType isNormal isDiscard isAllZero =
     (if isNormal then Inr NORMAL else if isDiscard then Inr DISCARD
      else if isAllZero then Inr ALLZERO else Inl (Exception ''bad record type''))"

end
