(* ===== verification/Range_Map.thy ===== *)
theory Range_Map
  imports Address_Util "HOL-Library.Multiset"
begin

text \<open>
  Ordered maps from the address of an IO to the IO (\<open>std::map<uint64_t, T>\<close>), as \<open>DiffMemory\<close>
  and \<open>DiffIndexMem\<close> keep them: the search for the items that a new IO overlaps, their removal,
  and insertion. The map is the list of its entries in key order. The locale \<open>range_items\<close> says
  what the two classes have in common, a start address, a size and the contents of each block, and
  proves once that the search finds every overlapped item; \<open>range_minus\<close> adds the subtraction of
  an IO and proves that removing the overlapped items and inserting what is left of them is the
  same as overwriting the blocks of the IO.
\<close>

section \<open>Entries\<close>

type_synonym 'r entries = "(u64 \<times> 'r) list"

text \<open>The entries before the iterator, and the rest, whose first entry it points to.\<close>

definition search_start :: "u64 \<Rightarrow> 'r entries \<Rightarrow> 'r entries \<times> 'r entries" where
  "search_start addr m =
     (let a = takeWhile (\<lambda>x. fst x < addr) m; b = dropWhile (\<lambda>x. fst x < addr) m in
      case b of
        [] \<Rightarrow> if m = [] then ([], []) else (butlast a, [last a])
      | x # _ \<Rightarrow> if addr < fst x \<and> a \<noteq> [] then (butlast a, last a # b) else (a, b))"

text \<open>\<open>std::map::emplace\<close> does nothing when the key is present.\<close>

fun emplace :: "u64 \<Rightarrow> 'r \<Rightarrow> 'r entries \<Rightarrow> 'r entries" where
  "emplace k r [] = [(k, r)]"
| "emplace k r (x # m) =
     (if k < fst x then (k, r) # x # m
      else if k = fst x then x # m
      else x # emplace k r m)"

text \<open>The loop \<open>while (it != end && it->first < addr1)\<close>: what stays, and the queue.\<close>

fun pull_overlapped :: "('r \<Rightarrow> bool) \<Rightarrow> u64 \<Rightarrow> 'r entries \<Rightarrow> 'r entries \<times> 'r list" where
  "pull_overlapped ov addr1 [] = ([], [])"
| "pull_overlapped ov addr1 (x # m) =
     (if fst x < addr1 then
        (let (m', q) = pull_overlapped ov addr1 m in
         if ov (snd x) then (m', snd x # q) else (x # m', q))
      else (x # m, []))"

fun emplace_all :: "('r \<Rightarrow> u64) \<Rightarrow> 'r list \<Rightarrow> 'r entries \<Rightarrow> 'r entries" where
  "emplace_all lo [] m = m"
| "emplace_all lo (r # rs) m = emplace_all lo rs (emplace (lo r) r m)"

text \<open>The loop over the queue, with the difference as a parameter.\<close>

fun eliminate ::
  "('r \<Rightarrow> u64) \<Rightarrow> ('r \<Rightarrow> 'r list res) \<Rightarrow> 'r list \<Rightarrow> 'r entries \<Rightarrow> 'r entries res"
where
  "eliminate lo diff [] m = Inr m"
| "eliminate lo diff (r # q) m =
     res_bind (diff r) (\<lambda>v. eliminate lo diff q (emplace_all lo v m))"

text \<open>All that is left of the items in the queue.\<close>

fun diff_all :: "('r \<Rightarrow> 'r list res) \<Rightarrow> 'r list \<Rightarrow> 'r list res" where
  "diff_all diff [] = Inr []"
| "diff_all diff (r # q) =
     res_bind (diff r) (\<lambda>v. res_bind (diff_all diff q) (\<lambda>w. Inr (v @ w)))"

text \<open>\<open>checkNoOverlappedAndSorted\<close>.\<close>

fun check_sorted :: "('r \<Rightarrow> u64) \<Rightarrow> ('r \<Rightarrow> u64) \<Rightarrow> 'r option \<Rightarrow> 'r list \<Rightarrow> unit res" where
  "check_sorted lo hi prev [] = Inr ()"
| "check_sorted lo hi prev (cur # rs) =
     (case prev of
        None \<Rightarrow> check_sorted lo hi (Some cur) rs
      | Some p \<Rightarrow>
          if \<not> lo p < lo cur then Inl (Exception ''Not sorted.'')
          else if \<not> hi p \<le> lo cur then Inl (Exception ''Overlapped records exist.'')
          else check_sorted lo hi (Some cur) rs)"

section \<open>Searching\<close>

lemma emplace_all_append: "emplace_all lo (rs @ ss) m = emplace_all lo ss (emplace_all lo rs m)"
  by (induction rs arbitrary: m) auto

lemma set_emplace: "snd ` set (emplace k r m) \<subseteq> insert r (snd ` set m)"
  by (induction m) auto

lemma set_emplace_all: "snd ` set (emplace_all lo rs m) \<subseteq> snd ` set m \<union> set rs"
proof (induction rs arbitrary: m)
  case (Cons r rs)
  have "snd ` set (emplace_all lo rs (emplace (lo r) r m)) \<subseteq> insert r (snd ` set m) \<union> set rs"
    using Cons.IH [of "emplace (lo r) r m"] set_emplace [of "lo r" r m] by blast
  then show ?case by simp
qed simp

lemma eliminate_diff_all:
  "diff_all diff q = Inr ps \<Longrightarrow> eliminate lo diff q m = Inr (emplace_all lo ps m)"
  by (induction q arbitrary: ps m) (auto simp: res_bind_Inr_iff emplace_all_append)

lemma search_start_cases:
  assumes "search_start addr m = (a, b)"
  obtains d where "m = a @ d" and "b = d" and "a = [] \<or> (\<exists>z zs. d = z # zs \<and> \<not> addr < fst z)"
      and "\<forall>y \<in> set a. fst y < addr"
    | x d where "m = a @ x # d" and "b = x # d" and "fst x < addr"
proof -
  obtain t d where td: "takeWhile (\<lambda>x. fst x < addr) m = t" "dropWhile (\<lambda>x. fst x < addr) m = d"
    by blast
  have m: "t @ d = m" using td takeWhile_dropWhile_id [of "\<lambda>x. fst x < addr" m] by simp
  have lt: "\<forall>y \<in> set t. fst y < addr"
    using set_takeWhileD [of _ "\<lambda>x. fst x < addr" m] td(1) by blast
  have s: "(case d of [] \<Rightarrow> if m = [] then ([], []) else (butlast t, [last t])
      | x # _ \<Rightarrow> if addr < fst x \<and> t \<noteq> [] then (butlast t, last t # d) else (t, d)) = (a, b)"
    using assms by (simp only: search_start_def Let_def td)
  show thesis
  proof (cases t rule: rev_cases)
    case Nil
    then have "a = [] \<and> b = m" using s m by (cases d) auto
    then show thesis using that(1) [of m] by simp
  next
    case (snoc pre x)
    note t = this
    have mm: "m = pre @ x # d" using m t by simp
    have x: "fst x < addr" using lt t by simp
    show thesis
    proof (cases d)
      case Nil
      then have "a = pre \<and> b = [x]" using s t mm by auto
      then show thesis using that(2) [of x "[]"] mm x Nil by simp
    next
      case (Cons z zs)
      show thesis
      proof (cases "addr < fst z")
        case True
        then have "a = pre \<and> b = x # d" using s t Cons by simp
        then show thesis using that(2) [of x d] mm x by blast
      next
        case False
        then have "a = t \<and> b = d" using s t Cons by simp
        then show thesis using that(1) [of d] m Cons False lt by metis
      qed
    qed
  qed
qed

locale range_items =
  fixes lo :: "'r \<Rightarrow> u64" and blks :: "'r \<Rightarrow> u32" and ok :: "'r \<Rightarrow> bool"
    and blk :: "'r \<Rightarrow> nat \<Rightarrow> 'b"
  assumes ok_pos: "ok r \<Longrightarrow> 0 < unat (blks r)"
    and ok_end: "ok r \<Longrightarrow> unat (lo r) + unat (blks r) < 2 ^ 64"
begin

definition rng :: "'r \<Rightarrow> nat set" where
  "rng r = {unat (lo r) ..< unat (lo r) + unat (blks r)}"

definition item :: "'r \<Rightarrow> nat \<Rightarrow> 'b option" where
  "item r = (\<lambda>a. if a \<in> rng r then Some (blk r a) else None)"

fun views :: "'r list \<Rightarrow> nat \<Rightarrow> 'b option" where
  "views [] = Map.empty"
| "views (r # rs) = views rs ++ item r"

definition disjoint :: "'r list \<Rightarrow> bool" where
  "disjoint rs = sorted_wrt (\<lambda>r s. rng r \<inter> rng s = {}) rs"

definition map_ok :: "'r entries \<Rightarrow> bool" where
  "map_ok m \<longleftrightarrow> (\<forall>x \<in> set m. fst x = lo (snd x) \<and> ok (snd x))
     \<and> sorted_wrt (\<lambda>x y. unat (lo (snd x)) + unat (blks (snd x)) \<le> unat (lo (snd y))) m"

lemma unat_end: "ok r \<Longrightarrow> unat (lo r + ucast (blks r)) = unat (lo r) + unat (blks r)"
  using ok_end [of r] by (simp add: unat_add_small)

lemma ranges_meet:
  "0 < m \<Longrightarrow> 0 < n \<Longrightarrow> {a ..< a + m} \<inter> {b ..< b + n} \<noteq> {} \<longleftrightarrow> a < b + n \<and> b < a + (m :: nat)"
  by (auto simp: ex_in_conv [symmetric] intro: exI [of _ "max a b"])

lemma overlapped_iff:
  "ok r \<Longrightarrow> ok s \<Longrightarrow> isOverlapped (lo r) (blks r) (lo s) (blks s) \<longleftrightarrow> rng r \<inter> rng s \<noteq> {}"
  using ranges_meet [OF ok_pos [of r] ok_pos [of s]]
  by (simp only: isOverlapped_def word_less_nat_alt unat_end rng_def)

lemma overwritten_iff:
  "ok r \<Longrightarrow> ok s \<Longrightarrow> isOverwritten (lo r) (blks r) (lo s) (blks s) \<longleftrightarrow> rng r \<subseteq> rng s"
  using ok_pos [of r] by (simp add: isOverwritten_def word_le_nat_alt unat_end rng_def ivl_subset)

lemma dom_item: "dom (item r) = rng r"
  by (auto simp: item_def split: if_splits)

lemma dom_views: "dom (views rs) = (\<Union>r \<in> set rs. rng r)"
  by (induction rs) (auto simp: dom_item)

lemma disjoint_Cons:
  "disjoint (r # rs) \<longleftrightarrow> (\<forall>s \<in> set rs. rng r \<inter> rng s = {}) \<and> disjoint rs"
  by (simp add: disjoint_def)

lemma disjoint_append:
  "disjoint (rs @ ss) \<longleftrightarrow> disjoint rs \<and> disjoint ss \<and> (\<forall>r \<in> set rs. \<forall>s \<in> set ss. rng r \<inter> rng s = {})"
  by (auto simp: disjoint_def sorted_wrt_append)

lemma views_in:
  "disjoint rs \<Longrightarrow> r \<in> set rs \<Longrightarrow> a \<in> rng r \<Longrightarrow> views rs a = Some (blk r a)"
proof (induction rs)
  case (Cons s rs)
  show ?case
  proof (cases "r = s")
    case True
    then show ?thesis using Cons.prems by (simp add: item_def map_add_def)
  next
    case False
    then have "a \<notin> rng s" "views rs a = Some (blk r a)" using Cons by (auto simp: disjoint_Cons)
    then show ?thesis by (simp add: item_def map_add_def)
  qed
qed simp

lemma views_out: "a \<notin> (\<Union>r \<in> set rs. rng r) \<Longrightarrow> views rs a = None"
  using dom_views [of rs] by blast

text \<open>The contents do not depend on the order of disjoint items.\<close>

lemma views_set:
  assumes "disjoint rs" and "disjoint ss" and "set rs = set ss"
  shows "views rs = views ss"
proof
  fix a
  show "views rs a = views ss a"
  proof (cases "\<exists>r \<in> set rs. a \<in> rng r")
    case True
    then obtain r where "r \<in> set rs" "a \<in> rng r" by blast
    then show ?thesis using views_in [OF assms(1)] views_in [OF assms(2)] assms(3) by auto
  next
    case False
    then show ?thesis using views_out [of a rs] views_out [of a ss] assms(3) by auto
  qed
qed

lemma views_append: "views (rs @ ss) = views ss ++ views rs"
  by (induction rs) auto

lemma map_ok_Cons:
  "map_ok (x # m) \<longleftrightarrow> fst x = lo (snd x) \<and> ok (snd x) \<and> map_ok m
     \<and> (\<forall>y \<in> set m. unat (lo (snd x)) + unat (blks (snd x)) \<le> unat (lo (snd y)))"
  by (auto simp: map_ok_def)

lemma map_ok_append:
  "map_ok (m @ n) \<longleftrightarrow> map_ok m \<and> map_ok n
     \<and> (\<forall>x \<in> set m. \<forall>y \<in> set n. unat (lo (snd x)) + unat (blks (snd x)) \<le> unat (lo (snd y)))"
  by (auto simp: map_ok_def sorted_wrt_append)

lemma map_ok_filter: "map_ok m \<Longrightarrow> map_ok (filter P m)"
  by (auto simp: map_ok_def sorted_wrt_filter)

lemma map_ok_disjoint: "map_ok m \<Longrightarrow> disjoint (map snd m)"
proof (induction m)
  case (Cons x m)
  then show ?case by (fastforce simp: map_ok_Cons disjoint_Cons rng_def)
qed (simp add: disjoint_def)

lemma map_ok_ordered:
  assumes "map_ok (a @ x # b)" and "y \<in> set a"
  shows "unat (lo (snd y)) + unat (blks (snd y)) \<le> unat (lo (snd x))"
  using assms by (auto simp: map_ok_append)

text \<open>Every overlapped item is at the start of the search or behind it.\<close>

lemma search_start_before:
  assumes "map_ok m" and "ok s" and "search_start (lo s) m = (a, b)" and "y \<in> set a"
  shows "rng (snd y) \<inter> rng s = {}"
  using assms(3)
proof (cases rule: search_start_cases)
  case (1 d)
  then obtain z zs where z: "m = a @ z # zs" "\<not> lo s < fst z" using assms(4) by auto
  have "fst z = lo (snd z)" using assms(1) z(1) by (simp add: map_ok_def)
  then show ?thesis
    using map_ok_ordered [of a z zs y] assms(1,4) z by (auto simp: rng_def word_less_nat_alt)
next
  case (2 x d)
  have "fst x = lo (snd x)" using assms(1) 2(1) by (simp add: map_ok_def)
  then show ?thesis
    using map_ok_ordered [of a x d y] assms(1,4) 2 by (auto simp: rng_def word_less_nat_alt)
qed

lemma pull_overlapped_filter:
  assumes "map_ok m" and "ok s" and "\<And>r. ok r \<Longrightarrow> ov r \<longleftrightarrow> rng r \<inter> rng s \<noteq> {}"
  shows "pull_overlapped ov (lo s + ucast (blks s)) m
    = (filter (\<lambda>x. \<not> ov (snd x)) m, map snd (filter (\<lambda>x. ov (snd x)) m))"
  using assms(1)
proof (induction m)
  case (Cons x m)
  have x: "fst x = lo (snd x)" "ok (snd x)" "map_ok m"
    and after: "\<forall>y \<in> set m. unat (lo (snd x)) + unat (blks (snd x)) \<le> unat (lo (snd y))"
    using Cons.prems by (simp_all add: map_ok_Cons)
  show ?case
  proof (cases "fst x < lo s + ucast (blks s)")
    case True
    then show ?thesis using Cons.IH [OF x(3)] by simp
  next
    case False
    then have ge: "unat (lo s) + unat (blks s) \<le> unat (lo (snd x))"
      using x(1) unat_end [OF assms(2)] by (simp add: word_less_nat_alt)
    have "\<not> ov (snd y)" if "y \<in> set (x # m)" for y
    proof -
      have "ok (snd y)" using that Cons.prems unfolding map_ok_def by blast
      moreover have "unat (lo s) + unat (blks s) \<le> unat (lo (snd y))"
        using that ge after by fastforce
      then have "rng (snd y) \<inter> rng s = {}" by (auto simp: rng_def)
      ultimately show ?thesis using assms(3) by blast
    qed
    then have "filter (\<lambda>y. \<not> ov (snd y)) (x # m) = x # m" "filter (\<lambda>y. ov (snd y)) (x # m) = []"
      by (meson filter_True, meson filter_False)
    then show ?thesis using False by simp
  qed
qed simp

text \<open>The search and the loop together remove exactly the overlapped items.\<close>

lemma search_complete:
  assumes "map_ok m" and "ok s" and "\<And>r. ok r \<Longrightarrow> ov r \<longleftrightarrow> rng r \<inter> rng s \<noteq> {}"
    and "search_start (lo s) m = (a, b)" and "pull_overlapped ov (lo s + ucast (blks s)) b = (c, q)"
  shows "a @ c = filter (\<lambda>x. \<not> ov (snd x)) m" and "q = map snd (filter (\<lambda>x. ov (snd x)) m)"
proof -
  have m: "m = a @ b" using assms(4) by (cases rule: search_start_cases) auto
  then have b: "map_ok b" and oka: "\<forall>x \<in> set a. ok (snd x)"
    using assms(1) by (simp_all add: map_ok_append) (simp add: map_ok_def)
  have "\<forall>x \<in> set a. \<not> ov (snd x)"
    using search_start_before [OF assms(1,2,4)] assms(3) oka by blast
  then have "filter (\<lambda>x. \<not> ov (snd x)) a = a" "filter (\<lambda>x. ov (snd x)) a = []"
    by (simp_all add: filter_empty_conv)
  moreover note pull_overlapped_filter [OF b assms(2), of ov] assms(3,5) m
  ultimately show "a @ c = filter (\<lambda>x. \<not> ov (snd x)) m"
    and "q = map snd (filter (\<lambda>x. ov (snd x)) m)"
    by simp_all
qed

text \<open>Insertion of an item that overlaps no other.\<close>

lemma emplace_ok:
  assumes "map_ok m" and "ok r" and "\<forall>x \<in> set m. rng (snd x) \<inter> rng r = {}"
  shows "map_ok (emplace (lo r) r m) \<and> mset (emplace (lo r) r m) = add_mset (lo r, r) (mset m)"
  using assms(1,3)
proof (induction m)
  case Nil
  then show ?case using assms(2) by (simp add: map_ok_def)
next
  case (Cons x m)
  have x: "fst x = lo (snd x)" "ok (snd x)" "map_ok m"
    and after: "\<forall>y \<in> set m. unat (lo (snd x)) + unat (blks (snd x)) \<le> unat (lo (snd y))"
    using Cons.prems(1) by (simp_all add: map_ok_Cons)
  have sep: "rng (snd x) \<inter> rng r = {}" using Cons.prems(2) by simp
  then have apart: "unat (lo r) + unat (blks r) \<le> unat (lo (snd x))
      \<or> unat (lo (snd x)) + unat (blks (snd x)) \<le> unat (lo r)"
    using ranges_meet [OF ok_pos [OF x(2)] ok_pos [OF assms(2)], of "unat (lo (snd x))" "unat (lo r)"]
    unfolding rng_def by linarith
  show ?case
  proof (cases "lo r < fst x")
    case True
    then have "unat (lo r) < unat (lo (snd x))" using x(1) by (simp add: word_less_nat_alt)
    then have le: "unat (lo r) + unat (blks r) \<le> unat (lo (snd x))" using apart by linarith
    moreover have "unat (lo r) + unat (blks r) \<le> unat (lo (snd y))" if "y \<in> set m" for y
      using le after that by fastforce
    ultimately show ?thesis using True Cons.prems(1) assms(2) by (simp add: map_ok_Cons [of "(lo r, r)"])
  next
    case False
    then have "\<not> unat (lo r) < unat (lo (snd x))" using x(1) by (simp add: word_less_nat_alt)
    then have le: "unat (lo (snd x)) + unat (blks (snd x)) \<le> unat (lo r)"
      using apart ok_pos [OF assms(2)] by linarith
    then have ne: "lo r \<noteq> fst x" using x(1) ok_pos [OF x(2)] by auto
    have IH: "map_ok (emplace (lo r) r m)" "mset (emplace (lo r) r m) = add_mset (lo r, r) (mset m)"
      using Cons.IH [OF x(3)] Cons.prems(2) by simp_all
    then have "set (emplace (lo r) r m) = insert (lo r, r) (set m)"
      by (metis set_mset_add_mset_insert set_mset_mset)
    note IH = IH this
    have "map_ok (x # emplace (lo r) r m)"
      unfolding map_ok_Cons using x(1,2) IH after le by auto
    then show ?thesis using False ne IH by auto
  qed
qed

lemma emplace_all_ok:
  assumes "map_ok m" and "\<forall>r \<in> set rs. ok r" and "disjoint rs"
    and "\<forall>x \<in> set m. \<forall>r \<in> set rs. rng (snd x) \<inter> rng r = {}"
  shows "map_ok (emplace_all lo rs m)
    \<and> mset (map snd (emplace_all lo rs m)) = mset (map snd m) + mset rs"
  using assms
proof (induction rs arbitrary: m)
  case (Cons r rs)
  have e: "map_ok (emplace (lo r) r m)" "mset (emplace (lo r) r m) = add_mset (lo r, r) (mset m)"
    using emplace_ok [of m r] Cons.prems by auto
  then have es: "set (emplace (lo r) r m) = insert (lo r, r) (set m)"
    by (metis set_mset_add_mset_insert set_mset_mset)
  have "\<forall>x \<in> set (emplace (lo r) r m). \<forall>s \<in> set rs. rng (snd x) \<inter> rng s = {}"
    using es Cons.prems(3,4) by (auto simp: disjoint_Cons)
  then show ?case
    using Cons.IH [OF e(1)] Cons.prems(2,3) e(2) by (auto simp: disjoint_Cons)
qed simp

text \<open>
  Overwriting: the overlapped items are taken out, the pieces \<open>ps\<close> of what lies outside of the new
  IO and the items \<open>ss\<close> that make up the new IO are put in.
\<close>

lemma disjoint_pair:
  "disjoint (map snd m) \<Longrightarrow> x \<in> set m \<Longrightarrow> y \<in> set m \<Longrightarrow> x \<noteq> y \<Longrightarrow> rng (snd x) \<inter> rng (snd y) = {}"
  by (induction m) (auto simp: disjoint_Cons)

lemma overwrite_items:
  assumes m: "map_ok m" and s: "ok s"
    and ps: "\<forall>r \<in> set ps. ok r" "disjoint ps"
      "views ps = views (map snd (filter (\<lambda>x. rng (snd x) \<inter> rng s \<noteq> {}) m)) |` (- rng s)"
    and ss: "\<forall>r \<in> set ss. ok r" "disjoint ss" "views ss = item s"
  defines "m' \<equiv> emplace_all lo (ps @ ss) (filter (\<lambda>x. \<not> rng (snd x) \<inter> rng s \<noteq> {}) m)"
  shows "map_ok m'" and "views (map snd m') = views (map snd m) ++ item s"
    and "mset (map snd m') = filter_mset (\<lambda>r. rng r \<inter> rng s = {}) (mset (map snd m)) + mset ps + mset ss"
proof -
  let ?out = "filter (\<lambda>x. \<not> rng (snd x) \<inter> rng s \<noteq> {}) m"
  let ?q = "filter (\<lambda>x. rng (snd x) \<inter> rng s \<noteq> {}) m"
  have dm: "disjoint (map snd m)" by (rule map_ok_disjoint [OF m])
  have rq: "(\<Union>r \<in> set ps. rng r) = (\<Union>x \<in> set ?q. rng (snd x)) - rng s"
    using arg_cong [OF ps(3), of dom] by (simp add: dom_views Diff_eq)
  have rs: "(\<Union>r \<in> set ss. rng r) = rng s" using arg_cong [OF ss(3), of dom] by (simp add: dom_views dom_item)
  have cross: "rng (snd x) \<inter> rng (snd y) = {}" if "x \<in> set ?out" "y \<in> set ?q" for x y
    using disjoint_pair [OF dm, of x y] that by auto
  have in_ps: "rng r \<subseteq> (\<Union>x \<in> set ?q. rng (snd x)) - rng s" if "r \<in> set ps" for r
    using that rq by blast
  have in_ss: "rng r \<subseteq> rng s" if "r \<in> set ss" for r
    using that rs by blast
  have "rng r \<inter> rng t = {}" if "r \<in> set ps" "t \<in> set ss" for r t
    using in_ps [OF that(1)] in_ss [OF that(2)] by blast
  then have dps: "disjoint (ps @ ss)" using ps(2) ss(2) unfolding disjoint_append by blast
  have "rng (snd x) \<inter> rng r = {}" if "x \<in> set ?out" "r \<in> set ps" for x r
    using in_ps [OF that(2)] cross [OF that(1)] by blast
  moreover have "rng (snd x) \<inter> rng r = {}" if "x \<in> set ?out" "r \<in> set ss" for x r
    using in_ss [OF that(2)] that(1) by auto
  ultimately have sep: "\<forall>x \<in> set ?out. \<forall>r \<in> set (ps @ ss). rng (snd x) \<inter> rng r = {}"
    unfolding set_append by blast
  have e: "map_ok m'" "mset (map snd m') = mset (map snd ?out) + mset (ps @ ss)"
    using emplace_all_ok [OF map_ok_filter [OF m] _ dps sep] ps(1) ss(1) by (auto simp: m'_def)
  show "map_ok m'" by (fact e(1))
  show "mset (map snd m') = filter_mset (\<lambda>r. rng r \<inter> rng s = {}) (mset (map snd m)) + mset ps + mset ss"
    using e(2) by (simp add: filter_mset_image_mset comp_def)
  have es: "set (map snd m') = set (map snd ?out @ ps @ ss)"
    using arg_cong [OF e(2), of set_mset] by simp
  have dout: "disjoint (map snd ?out)" by (rule map_ok_disjoint [OF map_ok_filter [OF m]])
  have "disjoint (map snd ?out @ ps @ ss)"
    unfolding disjoint_append [of "map snd ?out"] using dout dps sep by (metis (no_types, lifting) imageE image_set)
  then have "views (map snd m') = views (map snd ?out @ ps @ ss)"
    using e(1) es by (intro views_set [OF map_ok_disjoint])
  then have v: "views (map snd m') = (views ss ++ views ps) ++ views (map snd ?out)"
    by (simp only: views_append)
  have sepq: "\<forall>r \<in> set (map snd ?out). \<forall>t \<in> set (map snd ?q). rng r \<inter> rng t = {}"
  proof (intro ballI)
    fix r t
    assume "r \<in> set (map snd ?out)" "t \<in> set (map snd ?q)"
    then obtain x y where "x \<in> set ?out" "y \<in> set ?q" "r = snd x" "t = snd y"
      by (metis (no_types, lifting) imageE list.set_map)
    then show "rng r \<inter> rng t = {}" using cross by simp
  qed
  have "disjoint (map snd (?out @ ?q))"
    unfolding map_append disjoint_append
    using dout map_ok_disjoint [OF map_ok_filter [OF m]] sepq by (intro conjI) assumption+
  then have vm: "views (map snd m) = views (map snd ?q) ++ views (map snd ?out)"
    using views_set [OF dm, of "map snd (?out @ ?q)"] by (auto simp: views_append)
  show "views (map snd m') = views (map snd m) ++ item s"
  proof
    fix a
    show "views (map snd m') a = (views (map snd m) ++ item s) a"
    proof (cases "a \<in> rng s")
      case True
      then have "views (map snd ?out) a = None" by (intro views_out) auto
      moreover have "views ps a = None" using True by (simp add: ps(3))
      ultimately show ?thesis using True by (simp add: v ss(3) map_add_def item_def)
    next
      case False
      then show ?thesis by (simp add: v vm ss(3) ps(3) map_add_def item_def split: option.splits)
    qed
  qed
qed

end

section \<open>Eliminating overlaps\<close>

locale range_minus = range_items lo blks ok blk
  for lo :: "'r \<Rightarrow> u64" and blks :: "'r \<Rightarrow> u32" and ok :: "'r \<Rightarrow> bool" and blk :: "'r \<Rightarrow> nat \<Rightarrow> 'b" +
  fixes diff :: "'r \<Rightarrow> 'r \<Rightarrow> 'r list res"
  assumes diff_ok: "ok r \<Longrightarrow> ok s \<Longrightarrow> rng r \<inter> rng s \<noteq> {} \<Longrightarrow>
      \<exists>v. diff r s = Inr v \<and> (\<forall>p \<in> set v. ok p) \<and> disjoint v \<and> views v = item r |` (- rng s)"
begin

lemma eliminate_ok:
  assumes "ok s" and "\<forall>r \<in> set q. ok r \<and> rng r \<inter> rng s \<noteq> {}" and "disjoint q"
  shows "\<exists>ps. diff_all (\<lambda>r. diff r s) q = Inr ps
    \<and> (\<forall>p \<in> set ps. ok p) \<and> disjoint ps \<and> views ps = views q |` (- rng s)"
  using assms(2,3)
proof (induction q)
  case Nil
  show ?case by (intro exI [of _ "[]"]) (simp add: disjoint_def)
next
  case (Cons r q)
  obtain v where v: "diff r s = Inr v" "\<forall>p \<in> set v. ok p" "disjoint v" "views v = item r |` (- rng s)"
    using diff_ok [of r s] assms(1) Cons.prems(1) by auto
  obtain ps where ps: "diff_all (\<lambda>r. diff r s) q = Inr ps"
    "\<forall>p \<in> set ps. ok p" "disjoint ps" "views ps = views q |` (- rng s)"
    using Cons.IH Cons.prems by (auto simp: disjoint_Cons)
  have "(\<Union>p \<in> set v. rng p) \<subseteq> rng r" "(\<Union>p \<in> set ps. rng p) \<subseteq> (\<Union>p \<in> set q. rng p)"
    using arg_cong [OF v(4), of dom] arg_cong [OF ps(4), of dom] by (auto simp: dom_views dom_item)
  then have "disjoint (v @ ps)"
    using v(3) ps(3) Cons.prems(2) by (fastforce simp: disjoint_append disjoint_Cons)
  moreover have "views (v @ ps) = views (r # q) |` (- rng s)"
    by (auto simp: views_append v(4) ps(4) map_add_def restrict_map_def fun_eq_iff split: option.splits)
  ultimately show ?case
    using v(1,2) ps(1,2) by (intro exI [of _ "v @ ps"]) auto
qed

text \<open>What is left of the items is not larger than they were.\<close>

lemma diff_all_small:
  assumes "ok s" and "\<forall>r \<in> set q. ok r \<and> rng r \<inter> rng s \<noteq> {} \<and> blks r \<le> n"
    and "diff_all (\<lambda>r. diff r s) q = Inr ps"
  shows "\<forall>p \<in> set ps. blks p \<le> n"
  using assms(2,3)
proof (induction q arbitrary: ps)
  case (Cons r q)
  obtain v where v: "diff r s = Inr v" "\<forall>p \<in> set v. ok p" "views v = item r |` (- rng s)"
    using diff_ok [of r s] assms(1) Cons.prems(1) by auto
  obtain w where w: "diff_all (\<lambda>r. diff r s) q = Inr w" "ps = v @ w"
    using Cons.prems(2) v(1) by (auto simp: res_bind_Inr_iff)
  have "blks p \<le> n" if p: "p \<in> set v" for p
  proof -
    have "rng p \<subseteq> dom (views v)" using p by (auto simp: dom_views)
    then have "rng p \<subseteq> rng r" using v(3) by (auto simp: dom_item)
    moreover have "0 < unat (blks p)" using v(2) p ok_pos by blast
    ultimately have "unat (blks p) \<le> unat (blks r)" by (simp add: rng_def ivl_subset)
    then show ?thesis using Cons.prems(1) by (auto simp: word_le_nat_alt)
  qed
  then show ?case using Cons.IH [OF _ w(1)] Cons.prems(1) w(2) by auto
qed simp

text \<open>
  The steps the two classes share: the search, the elimination of overlaps, and the insertion of
  \<open>ss\<close>, which has the contents of the new IO.
\<close>

lemma add_items:
  assumes m: "map_ok m" and s: "ok s" and ss: "\<forall>r \<in> set ss. ok r" "disjoint ss" "views ss = item s"
    and ov: "\<And>r. ok r \<Longrightarrow> ov r \<longleftrightarrow> rng r \<inter> rng s \<noteq> {}"
    and a: "search_start (lo s) m = (a, b)" "pull_overlapped ov (lo s + ucast (blks s)) b = (c, q)"
  obtains ps where "diff_all (\<lambda>r. diff r s) q = Inr ps"
    and "map_ok (emplace_all lo ss (emplace_all lo ps (a @ c)))"
    and "views (map snd (emplace_all lo ss (emplace_all lo ps (a @ c)))) = views (map snd m) ++ item s"
    and "mset (map snd (emplace_all lo ss (emplace_all lo ps (a @ c)))) = mset (map snd (a @ c)) + mset ps + mset ss"
    and "mset (map snd m) = mset (map snd (a @ c)) + mset q"
    and "views ps = views q |` (- rng s)" and "disjoint ps" and "\<forall>p \<in> set ps. ok p"
proof -
  have okm: "\<forall>x \<in> set m. ok (snd x)" using m by (simp add: map_ok_def)
  have f: "filter (\<lambda>x. \<not> ov (snd x)) m = filter (\<lambda>x. \<not> rng (snd x) \<inter> rng s \<noteq> {}) m"
    "filter (\<lambda>x. ov (snd x)) m = filter (\<lambda>x. rng (snd x) \<inter> rng s \<noteq> {}) m"
    using okm ov by (auto intro!: filter_cong)
  note c = search_complete [OF m s ov a, unfolded f]
  have "disjoint q" using c(2) map_ok_disjoint [OF map_ok_filter [OF m]] by simp
  moreover have "\<forall>r \<in> set q. ok r \<and> rng r \<inter> rng s \<noteq> {}" using c(2) okm by auto
  ultimately obtain ps where ps: "diff_all (\<lambda>r. diff r s) q = Inr ps"
    "\<forall>p \<in> set ps. ok p" "disjoint ps" "views ps = views q |` (- rng s)"
    using eliminate_ok [OF s, of q] by blast
  have vps: "views ps = views (map snd (filter (\<lambda>x. rng (snd x) \<inter> rng s \<noteq> {}) m)) |` (- rng s)"
    using ps(4) c(2) by simp
  note o = overwrite_items [OF m s ps(2,3) vps ss]
  have e: "emplace_all lo ss (emplace_all lo ps (a @ c)) =
      emplace_all lo (ps @ ss) (filter (\<lambda>x. \<not> rng (snd x) \<inter> rng s \<noteq> {}) m)"
    by (simp only: emplace_all_append c(1))
  have mc: "mset (map snd (a @ c)) = image_mset snd (filter_mset (\<lambda>x. rng (snd x) \<inter> rng s = {}) (mset m))"
    by (simp only: c(1)) simp
  then have "filter_mset (\<lambda>r. rng r \<inter> rng s = {}) (mset (map snd m)) = mset (map snd (a @ c))"
    by (simp only:) (simp add: filter_mset_image_mset comp_def)
  moreover have "mset (map snd m) = mset (map snd (a @ c)) + mset q"
  proof -
    have q: "mset q = image_mset snd (filter_mset (\<lambda>x. rng (snd x) \<inter> rng s \<noteq> {}) (mset m))"
      by (simp only: c(2)) simp
    have "mset (map snd m) = image_mset snd (filter_mset (\<lambda>x. rng (snd x) \<inter> rng s = {}) (mset m)
        + filter_mset (\<lambda>x. rng (snd x) \<inter> rng s \<noteq> {}) (mset m))"
      by (simp only: mset_map multiset_partition [symmetric])
    then show ?thesis by (simp only: image_mset_union mc q)
  qed
  ultimately show thesis using that [of ps] ps o e by simp
qed

end

text \<open>\<open>checkNoOverlappedAndSorted\<close> accepts exactly the maps whose items are sorted and do not overlap.\<close>

context range_items
begin

lemma check_sorted_ok:
  "map_ok m \<Longrightarrow> (\<forall>x \<in> set m. prev = None \<or> unat (lo (the prev)) + unat (blks (the prev)) \<le> unat (lo (snd x)))
     \<Longrightarrow> (prev \<noteq> None \<longrightarrow> ok (the prev))
     \<Longrightarrow> check_sorted lo (\<lambda>r. lo r + ucast (blks r)) prev (map snd m) = Inr ()"
proof (induction m arbitrary: prev)
  case (Cons x m)
  have x: "ok (snd x)" "map_ok m"
    "\<forall>y \<in> set m. unat (lo (snd x)) + unat (blks (snd x)) \<le> unat (lo (snd y))"
    using Cons.prems(1) by (simp_all add: map_ok_Cons)
  have IH: "check_sorted lo (\<lambda>r. lo r + ucast (blks r)) (Some (snd x)) (map snd m) = Inr ()"
    using Cons.IH [of "Some (snd x)"] x by simp
  show ?case
  proof (cases prev)
    case (Some p)
    then have "unat (lo p) + unat (blks p) \<le> unat (lo (snd x))" "0 < unat (blks p)" "ok p"
      using Cons.prems ok_pos [of p] by auto
    then show ?thesis using Some IH unat_end [of p] by (simp add: word_less_nat_alt word_le_nat_alt)
  qed (simp add: IH)
qed simp

end

end
