(* ===== verification/Diff_Mem.thy ===== *)
theory Diff_Mem
  imports Diff_Record Range_Map
begin

text \<open>
  Diffs in memory: \<open>DiffRecIo\<close> and \<open>DiffMemory\<close> of \<^verbatim>\<open>src/walb_diff_mem.hpp\<close> and
  \<^verbatim>\<open>src/walb_diff_mem.cpp\<close>. The abstract contents of a diff is a map from logical block
  addresses to blocks; adding an IO overwrites the blocks of its range and leaves all others
  as they are. Reading and writing files is in the theory of diff files.
\<close>

section \<open>DiffRecIo\<close>

record DiffRecIo =
  rio_rec :: walb_diff_record
  rio_io :: "u8 list"

definition rio_isValid :: "DiffRecIo \<Rightarrow> bool \<Rightarrow> bool" where
  "rio_isValid r isChecksum =
     (if \<not> rec_isNormal (rio_rec r) then rio_io r = []
      else if unat (dr_data_size (rio_rec r)) \<noteq> length (rio_io r) then False
      else if \<not> isChecksum then True
      else dr_checksum (rio_rec r) = calcDiffIoChecksum (rio_io r))"

definition rio_new :: "walb_diff_record \<Rightarrow> u8 list \<Rightarrow> DiffRecIo res" where
  "rio_new rec buf =
     (let r = \<lparr>rio_rec = rec, rio_io = if rec_isNormal rec then buf else []\<rparr>
      in ensure (rio_isValid r False) Assert_Failed (Inr r))"

fun rio_new_all :: "walb_diff_record list \<Rightarrow> u8 list list \<Rightarrow> DiffRecIo list res" where
  "rio_new_all (rec # recV) (io # ioV) =
     res_bind (rio_new rec io) (\<lambda>r. res_bind (rio_new_all recV ioV) (\<lambda>v. Inr (r # v)))"
| "rio_new_all _ _ = Inr []"

text \<open>
  \<open>rec_splitAll\<close> throws when \<open>ioBlocks\<close> is 0; for other values \<open>splitIoDataAll\<close> returns
  (\<open>splitIoDataAll_returns\<close>).
\<close>

definition rio_splitAll :: "DiffRecIo \<Rightarrow> u32 \<Rightarrow> DiffRecIo list res" where
  "rio_splitAll r ioBlocks =
     ensure (rio_isValid r False) Assert_Failed
       (res_bind (rec_splitAll (rio_rec r) ioBlocks) (\<lambda>recV.
        res_bind (if rec_isNormal (rio_rec r) then the (splitIoDataAll (rio_io r) ioBlocks)
                  else Inr (replicate (length recV) [])) (\<lambda>ioV.
          ensure (length recV = length ioV) Assert_Failed (rio_new_all recV ioV))))"

text \<open>\<open>x - y\<close> on \<open>size_t\<close>: a negative difference is a huge size, which no buffer has.\<close>

definition size_sub :: "nat \<Rightarrow> nat \<Rightarrow> nat res" where
  "size_sub x y = ensure (y \<le> x) Out_Of_Bounds (Inr (x - y))"

definition rio_part :: "u32 \<Rightarrow> walb_diff_record \<Rightarrow> u8 list \<Rightarrow> DiffRecIo list res" where
  "rio_part blks rec data = (if 0 < blks then res_bind (rio_new rec data) (\<lambda>r. Inr [r]) else Inr [])"

text \<open>Pattern 2: the middle of the IO is overwritten.\<close>

definition rio_minus_inner :: "DiffRecIo \<Rightarrow> DiffRecIo \<Rightarrow> DiffRecIo list res" where
  "rio_minus_inner r rhs =
     (let rec = rio_rec r; rrec = rio_rec rhs;
          blks0 = ucast (dr_io_address rrec - dr_io_address rec);
          blks1 = ucast (rec_endIoAddress rec - rec_endIoAddress rrec);
          addr0 = dr_io_address rec;
          addr1 = rec_endIoAddress rec - ucast blks1;
          recIsNormal = rec_isNormal rec;
          size0 = if recIsNormal then unat (blks0 * LOGICAL_BLOCK_SIZE) else 0;
          size1 = if recIsNormal then unat (blks1 * LOGICAL_BLOCK_SIZE) else 0;
          rec0 = rec\<lparr>dr_io_address := addr0, dr_io_blocks := blks0, dr_data_size := of_nat size0\<rparr>;
          rec1 = rec\<lparr>dr_io_address := addr1, dr_io_blocks := blks1, dr_data_size := of_nat size1\<rparr>
      in res_bind
          (if recIsNormal then
             let off1 = unat ((addr1 - dr_io_address rec) * ucast LOGICAL_BLOCK_SIZE) in
             ensure (size0 + unat (dr_io_blocks rrec * LOGICAL_BLOCK_SIZE) + size1
                 = unat (dr_data_size rec)) Assert_Failed
               (res_bind (read_at (rio_io r) 0 size0) (\<lambda>data0.
                res_bind (read_at (rio_io r) off1 size1) (\<lambda>data1. Inr (data0, data1))))
           else Inr ([], []))
          (\<lambda>(data0, data1).
             res_bind (rio_part blks0 rec0 data0) (\<lambda>v0.
             res_bind (rio_part blks1 rec1 data1) (\<lambda>v1. Inr (v0 @ v1)))))"

text \<open>Pattern 3: the end of the IO is overwritten.\<close>

definition rio_minus_tail :: "DiffRecIo \<Rightarrow> DiffRecIo \<Rightarrow> DiffRecIo list res" where
  "rio_minus_tail r rhs =
     (let rec = rio_rec r; rrec = rio_rec rhs;
          endIoAddr = rec_endIoAddress rec;
          rblks = ucast (endIoAddr - dr_io_address rrec);
          rec' = rec\<lparr>dr_io_blocks := dr_io_blocks rec - rblks\<rparr>
      in ensure (dr_io_address rrec < endIoAddr) Assert_Failed
        (ensure (dr_io_address rrec + ucast rblks = endIoAddr) Assert_Failed
        (ensure (rec_endIoAddress rec' = dr_io_address rrec) Assert_Failed
          (if rec_isNormal rec then
             res_bind (size_sub (length (rio_io r)) (unat (rblks * LOGICAL_BLOCK_SIZE))) (\<lambda>size.
             ensure (unat (dr_data_size rec) = length (rio_io r)) Assert_Failed
               (res_bind (read_at (rio_io r) 0 size) (\<lambda>data.
                res_bind (rio_new (rec'\<lparr>dr_data_size := of_nat size\<rparr>) data) (\<lambda>p. Inr [p]))))
           else res_bind (rio_new rec' []) (\<lambda>p. Inr [p])))))"

text \<open>Pattern 4: the start of the IO is overwritten.\<close>

definition rio_minus_head :: "DiffRecIo \<Rightarrow> DiffRecIo \<Rightarrow> DiffRecIo list res" where
  "rio_minus_head r rhs =
     (let rec = rio_rec r; rrec = rio_rec rhs;
          rhsEndIoAddr = rec_endIoAddress rrec;
          rblks = ucast (rhsEndIoAddr - dr_io_address rec);
          off = unat (rblks * LOGICAL_BLOCK_SIZE);
          rec' = rec\<lparr>dr_io_address := dr_io_address rec + ucast rblks,
                   dr_io_blocks := dr_io_blocks rec - rblks\<rparr>
      in ensure (dr_io_address rec < rhsEndIoAddr) Assert_Failed
        (ensure (dr_io_address rec + ucast rblks = rhsEndIoAddr) Assert_Failed
          (if rec_isNormal rec then
             res_bind (size_sub (length (rio_io r)) off) (\<lambda>size.
             ensure (unat (dr_data_size rec) = length (rio_io r)) Assert_Failed
               (res_bind (read_at (rio_io r) off size) (\<lambda>data.
                ensure (rhsEndIoAddr = dr_io_address rec') Assert_Failed
                  (res_bind (rio_new (rec'\<lparr>dr_data_size := of_nat size\<rparr>) data) (\<lambda>p. Inr [p])))))
           else ensure (rhsEndIoAddr = dr_io_address rec') Assert_Failed
             (res_bind (rio_new rec' []) (\<lambda>p. Inr [p])))))"

definition rio_minus :: "DiffRecIo \<Rightarrow> DiffRecIo \<Rightarrow> DiffRecIo list res" where
  "rio_minus r rhs =
     ensure (rio_isValid r False) Assert_Failed (ensure (rio_isValid rhs False) Assert_Failed
       (if \<not> rec_isOverlapped (rio_rec r) (rio_rec rhs) then Inl (Exception ''Non-overlapped.'')
        else if rec_isOverwrittenBy (rio_rec r) (rio_rec rhs) then Inr []
        else if rec_isOverwrittenBy (rio_rec rhs) (rio_rec r) then rio_minus_inner r rhs
        else if dr_io_address (rio_rec r) < dr_io_address (rio_rec rhs) then rio_minus_tail r rhs
        else rio_minus_head r rhs))"

section \<open>DiffMemory\<close>

definition DEFAULT_MAX_IO_LB :: u32 where "DEFAULT_MAX_IO_LB = 1048576 div LOGICAL_BLOCK_SIZE"

record diff_memory =
  mem_maxIoBlocks :: u32
  mem_map :: "DiffRecIo entries"
  mem_fileH :: walb_diff_file_header
  mem_nIos :: u64
  mem_nBlocks :: u64

definition mem_new :: diff_memory where
  "mem_new = \<lparr>mem_maxIoBlocks = DEFAULT_MAX_IO_LB, mem_map = [], mem_fileH = file_header_init,
     mem_nIos = 0, mem_nBlocks = 0\<rparr>"

definition mem_setMaxIoBlocks :: "u32 \<Rightarrow> diff_memory \<Rightarrow> diff_memory" where
  "mem_setMaxIoBlocks n dm = dm\<lparr>mem_maxIoBlocks := n\<rparr>"

definition mem_clear :: "diff_memory \<Rightarrow> diff_memory" where
  "mem_clear dm = dm\<lparr>mem_map := [], mem_nIos := 0, mem_nBlocks := 0, mem_fileH := file_header_init\<rparr>"

definition rio_addr :: "DiffRecIo \<Rightarrow> u64" where
  "rio_addr r = dr_io_address (rio_rec r)"

definition rio_blocks :: "DiffRecIo \<Rightarrow> u32" where
  "rio_blocks r = dr_io_blocks (rio_rec r)"

text \<open>The items taken out of the map leave the counters.\<close>

fun mem_uncount :: "DiffRecIo list \<Rightarrow> diff_memory \<Rightarrow> diff_memory" where
  "mem_uncount [] dm = dm"
| "mem_uncount (r # q) dm =
     mem_uncount q (dm\<lparr>mem_nIos := mem_nIos dm - 1, mem_nBlocks := mem_nBlocks dm - ucast (rio_blocks r)\<rparr>)"

fun mem_put :: "DiffRecIo list \<Rightarrow> diff_memory \<Rightarrow> diff_memory" where
  "mem_put [] dm = dm"
| "mem_put (r # v) dm =
     mem_put v (dm\<lparr>mem_nIos := mem_nIos dm + 1, mem_nBlocks := mem_nBlocks dm + ucast (rio_blocks r),
       mem_map := emplace (rio_addr r) r (mem_map dm)\<rparr>)"

fun mem_eliminate :: "DiffRecIo \<Rightarrow> DiffRecIo list \<Rightarrow> diff_memory \<Rightarrow> diff_memory res" where
  "mem_eliminate r0 [] dm = Inr dm"
| "mem_eliminate r0 (r # q) dm =
     res_bind (rio_minus r r0) (\<lambda>v. mem_eliminate r0 q (mem_put v dm))"

definition mem_add :: "walb_diff_record \<Rightarrow> u8 list \<Rightarrow> diff_memory \<Rightarrow> diff_memory res" where
  "mem_add rec buf dm =
     (let (a, b) = search_start (dr_io_address rec) (mem_map dm);
          (c, q) = pull_overlapped (\<lambda>r. rec_isOverlapped (rio_rec r) rec) (rec_endIoAddress rec) b;
          dm1 = mem_uncount q (dm\<lparr>mem_map := a @ c\<rparr>)
      in res_bind (rio_new rec buf) (\<lambda>r0.
         res_bind (mem_eliminate r0 q dm1) (\<lambda>dm2.
           let dm3 = dm2\<lparr>mem_nIos := mem_nIos dm2 + 1,
                 mem_nBlocks := mem_nBlocks dm2 + ucast (rio_blocks r0)\<rparr>
           in res_bind (if mem_maxIoBlocks dm > 0 \<and> mem_maxIoBlocks dm < dr_io_blocks rec
                        then rio_splitAll r0 (mem_maxIoBlocks dm) else Inr [r0]) (\<lambda>rv.
             Inr (dm3\<lparr>mem_map := emplace_all rio_addr rv (mem_map dm3)\<rparr>)))))"

fun count_stats :: "DiffRecIo list \<Rightarrow> u64 \<Rightarrow> u64 \<Rightarrow> u64 \<times> u64" where
  "count_stats [] nBlocks nIos = (nBlocks, nIos)"
| "count_stats (r # rs) nBlocks nIos = count_stats rs (nBlocks + ucast (rio_blocks r)) (nIos + 1)"

definition checkStatistics :: "diff_memory \<Rightarrow> unit res" where
  "checkStatistics dm =
     (let (nBlocks, nIos) = count_stats (map snd (mem_map dm)) 0 0 in
      if mem_nBlocks dm \<noteq> nBlocks then Inl (Exception ''DiffMemory:getNIos:bad blocks'')
      else if mem_nIos dm \<noteq> nIos then Inl (Exception ''DiffMemory:getNIos:bad ios'')
      else Inr ())"

definition mem_checkNoOverlappedAndSorted :: "diff_memory \<Rightarrow> unit res" where
  "mem_checkNoOverlappedAndSorted dm =
     check_sorted rio_addr (\<lambda>r. rec_endIoAddress (rio_rec r)) None (map snd (mem_map dm))"

text \<open>The iterator is the number of its entry; the iterator to the next entry has the same number.\<close>

definition eraseFromMap :: "nat \<Rightarrow> diff_memory \<Rightarrow> diff_memory res" where
  "eraseFromMap i dm =
     ensure (i < length (mem_map dm)) Out_Of_Bounds
       (Inr (dm\<lparr>mem_nIos := mem_nIos dm - 1,
          mem_nBlocks := mem_nBlocks dm - ucast (rio_blocks (snd (mem_map dm ! i))),
          mem_map := take i (mem_map dm) @ drop (i + 1) (mem_map dm)\<rparr>))"

end
