(* ===== verification/File_Io.thy ===== *)
theory File_Io
  imports Prelude
begin

text \<open>
  \<open>cybozu::util::File\<close> of \<^verbatim>\<open>src/include/fileio.hpp\<close>: reading, writing and seeking on one open
  file descriptor. The kernel decides how many bytes one call of \<open>read\<close> or \<open>write\<close> transfers and
  whether it fails; it is the parameter \<open>os\<close>, a function of the file offset and of the size asked for. Opening,
  closing and \<open>fsync\<close> have no effect on the contents and are left out.
\<close>

definition EofError :: error where "EofError = Exception ''EofError''"

text \<open>\<open>None\<close> is a failed system call.\<close>

type_synonym os_io = "nat \<Rightarrow> nat \<Rightarrow> nat option"

record os_file =
  fl_bytes :: "u8 list"
  fl_pos :: nat
  fl_seekable :: bool

datatype whence = SEEK_SET | SEEK_CUR

definition fd_seekable :: "os_file \<Rightarrow> bool" where
  "fd_seekable f = fl_seekable f"

definition fd_lseek :: "int \<Rightarrow> whence \<Rightarrow> os_file \<Rightarrow> os_file res" where
  "fd_lseek off wh f =
     (let p = (case wh of SEEK_SET \<Rightarrow> off | SEEK_CUR \<Rightarrow> int (fl_pos f) + off) in
      if fl_seekable f \<and> 0 \<le> p then Inr (f\<lparr>fl_pos := nat p\<rparr>) else Inl (Exception ''lseek failed.''))"

definition fd_readsome :: "os_io \<Rightarrow> nat \<Rightarrow> os_file \<Rightarrow> (u8 list \<times> os_file) res" where
  "fd_readsome os n f =
     (case os (fl_pos f) n of
        None \<Rightarrow> Inl (Exception ''read failed.'')
      | Some k \<Rightarrow>
          let d = take (min k n) (drop (fl_pos f) (fl_bytes f)) in
          Inr (d, f\<lparr>fl_pos := fl_pos f + length d\<rparr>))"

lemma fd_readsome_Inr:
  "fd_readsome os n f = Inr (d, f') \<longleftrightarrow> (\<exists>k. os (fl_pos f) n = Some k
     \<and> d = take (min k n) (drop (fl_pos f) (fl_bytes f)) \<and> f' = f\<lparr>fl_pos := fl_pos f + length d\<rparr>)"
  by (auto simp: fd_readsome_def Let_def split: option.splits)

text \<open>The loop of \<open>read\<close>; the bytes read so far are put together on the way back.\<close>

function fd_read :: "os_io \<Rightarrow> nat \<Rightarrow> os_file \<Rightarrow> (u8 list \<times> os_file) res" where
  "fd_read os n f =
     (if n = 0 then Inr ([], f)
      else res_bind (fd_readsome os n f) (\<lambda>(d, f1).
        if d = [] then Inl EofError
        else res_bind (fd_read os (n - length d) f1) (\<lambda>(ds, f2). Inr (d @ ds, f2))))"
  by pat_completeness auto
termination by (relation "measure (\<lambda>(os, n, f). n)") auto

declare fd_read.simps [simp del]

definition SKIP_BUF_SIZE :: nat where "SKIP_BUF_SIZE = 4096"

function skip_loop :: "os_io \<Rightarrow> nat \<Rightarrow> os_file \<Rightarrow> os_file res" where
  "skip_loop os n f =
     (if n = 0 then Inr f
      else res_bind (fd_readsome os (min n SKIP_BUF_SIZE) f) (\<lambda>(d, f1).
        if d = [] then Inl EofError else skip_loop os (n - length d) f1))"
  by pat_completeness auto
termination by (relation "measure (\<lambda>(os, n, f). n)") auto

declare skip_loop.simps [simp del]

definition fd_skip :: "os_io \<Rightarrow> nat \<Rightarrow> os_file \<Rightarrow> os_file res" where
  "fd_skip os n f = (if fd_seekable f then fd_lseek (int n) SEEK_CUR f else skip_loop os n f)"

definition fd_pread :: "os_io \<Rightarrow> nat \<Rightarrow> nat \<Rightarrow> os_file \<Rightarrow> (u8 list \<times> os_file) res" where
  "fd_pread os n off f = res_bind (fd_lseek (int off) SEEK_SET f) (fd_read os n)"

text \<open>Writing behind the end fills the hole with zeros.\<close>

definition file_put :: "nat \<Rightarrow> u8 list \<Rightarrow> u8 list \<Rightarrow> u8 list" where
  "file_put p d bs = (if d = [] then bs else take p bs @ replicate (p - length bs) 0 @ d @ drop (p + length d) bs)"

function fd_write :: "os_io \<Rightarrow> u8 list \<Rightarrow> os_file \<Rightarrow> os_file res" where
  "fd_write os d f =
     (if d = [] then Inr f
      else case os (fl_pos f) (length d) of
        None \<Rightarrow> Inl (Exception ''write failed.'')
      | Some k \<Rightarrow>
          if k = 0 then Inl EofError
          else fd_write os (drop k d)
            (f\<lparr>fl_bytes := file_put (fl_pos f) (take k d) (fl_bytes f), fl_pos := fl_pos f + length (take k d)\<rparr>))"
  by pat_completeness auto
termination by (relation "measure (\<lambda>(os, d, f). length d)") auto

declare fd_write.simps [simp del]

definition fd_pwrite :: "os_io \<Rightarrow> u8 list \<Rightarrow> nat \<Rightarrow> os_file \<Rightarrow> os_file res" where
  "fd_pwrite os d off f = res_bind (fd_lseek (int off) SEEK_SET f) (fd_write os d)"

definition fd_ftruncate :: "nat \<Rightarrow> os_file \<Rightarrow> os_file res" where
  "fd_ftruncate n f = Inr (f\<lparr>fl_bytes := take n (fl_bytes f) @ replicate (n - length (fl_bytes f)) 0\<rparr>)"

definition READ_UNIT :: nat where "READ_UNIT = 4096"

function readAllFromFile :: "os_io \<Rightarrow> u8 list \<Rightarrow> os_file \<Rightarrow> (u8 list \<times> os_file) res" where
  "readAllFromFile os buf f =
     res_bind (fd_readsome os READ_UNIT f) (\<lambda>(d, f1).
       if d = [] then Inr (buf, f1) else readAllFromFile os (buf @ d) f1)"
  by pat_completeness auto
termination
  by (relation "measure (\<lambda>(os, buf, f). length (fl_bytes f) - fl_pos f)")
    (auto simp: fd_readsome_Inr not_le READ_UNIT_def intro!: diff_less_mono2)

declare readAllFromFile.simps [simp del]

section \<open>What the functions do on a working system\<close>

text \<open>A call that succeeds transfers at least one byte unless none is asked for, and never fails.\<close>

definition io_works :: "os_io \<Rightarrow> bool" where
  "io_works os \<longleftrightarrow> (\<forall>p n. \<exists>k. os p n = Some k \<and> k \<le> n \<and> (0 < n \<longrightarrow> 0 < k))"

lemma io_worksD:
  assumes "io_works os" and "0 < n"
  obtains k where "os p n = Some k" "k \<le> n" "0 < k"
  using assms by (auto simp: io_works_def)

lemma fd_readsome_works:
  assumes "io_works os" and "0 < n"
  obtains k where "0 < k" "k \<le> n" "fd_readsome os n f = Inr (take k (drop (fl_pos f) (fl_bytes f)),
    f\<lparr>fl_pos := fl_pos f + length (take k (drop (fl_pos f) (fl_bytes f)))\<rparr>)"
proof -
  obtain k where "os (fl_pos f) n = Some k" "k \<le> n" "0 < k" using io_worksD [OF assms] by blast
  then show ?thesis using that [of k] by (simp add: fd_readsome_def Let_def min_absorb1)
qed

lemma fd_lseek_cur: "fl_seekable f \<Longrightarrow> fd_lseek (int n) SEEK_CUR f = Inr (f\<lparr>fl_pos := fl_pos f + n\<rparr>)"
  by (simp add: fd_lseek_def nat_int_add)

lemma take_drop_more: "k \<le> n \<Longrightarrow> take k (drop p xs) @ take (n - k) (drop (p + k) xs) = take n (drop p xs)"
  by (rule take_drop_split)

lemma fd_read_works:
  assumes "io_works os"
  shows "fd_read os n f =
    (if fl_pos f + n \<le> length (fl_bytes f) \<or> n = 0
     then Inr (take n (drop (fl_pos f) (fl_bytes f)), f\<lparr>fl_pos := fl_pos f + n\<rparr>) else Inl EofError)"
proof (induction n arbitrary: f rule: less_induct)
  case (less n)
  show ?case
  proof (cases "n = 0")
    case False
    then obtain k where k: "0 < k" "k \<le> n" "fd_readsome os n f = Inr (take k (drop (fl_pos f) (fl_bytes f)),
        f\<lparr>fl_pos := fl_pos f + length (take k (drop (fl_pos f) (fl_bytes f)))\<rparr>)"
      using fd_readsome_works [OF assms] by blast
    define d where "d = take k (drop (fl_pos f) (fl_bytes f))"
    show ?thesis
    proof (cases "d = []")
      case True
      then have "length (fl_bytes f) \<le> fl_pos f" using k(1) by (simp add: d_def)
      then show ?thesis using True k(3) False by (subst fd_read.simps) (simp add: d_def)
    next
      case ne: False
      let ?f = "f\<lparr>fl_pos := fl_pos f + length d\<rparr>"
      have l: "length d \<le> k" "fl_pos f + length d \<le> length (fl_bytes f)" "0 < length d" using ne by (auto simp: d_def)
      have IH: "fd_read os (n - length d) ?f = (if fl_pos ?f + (n - length d) \<le> length (fl_bytes ?f) \<or> n - length d = 0
          then Inr (take (n - length d) (drop (fl_pos ?f) (fl_bytes ?f)), ?f\<lparr>fl_pos := fl_pos ?f + (n - length d)\<rparr>)
          else Inl EofError)"
        using less [of "n - length d" ?f] False l(3) by simp
      have d: "d = take (length d) (drop (fl_pos f) (fl_bytes f))" by (simp add: d_def min_def)
      have "d @ take (n - length d) (drop (fl_pos f + length d) (fl_bytes f)) = take n (drop (fl_pos f) (fl_bytes f))"
        using take_drop_more [of "length d" n "fl_pos f" "fl_bytes f"] d l(1) k(2) by simp
      then show ?thesis using False ne k l IH
        by (subst fd_read.simps) (auto simp: d_def [symmetric])
    qed
  qed (simp add: fd_read.simps)
qed

lemma readAllFromFile_works:
  assumes "io_works os"
  shows "\<exists>f'. readAllFromFile os buf f = Inr (buf @ drop (fl_pos f) (fl_bytes f), f')
    \<and> fl_bytes f' = fl_bytes f \<and> fl_pos f' = max (fl_pos f) (length (fl_bytes f))"
proof (induction "length (fl_bytes f) - fl_pos f" arbitrary: buf f rule: less_induct)
  case less
  obtain k where k: "0 < k" "k \<le> READ_UNIT" "fd_readsome os READ_UNIT f = Inr (take k (drop (fl_pos f) (fl_bytes f)),
      f\<lparr>fl_pos := fl_pos f + length (take k (drop (fl_pos f) (fl_bytes f)))\<rparr>)"
    using fd_readsome_works [OF assms, of READ_UNIT f] by (auto simp: READ_UNIT_def)
  define d where "d = take k (drop (fl_pos f) (fl_bytes f))"
  let ?f = "f\<lparr>fl_pos := fl_pos f + length d\<rparr>"
  show ?case
  proof (cases "d = []")
    case True
    then have "length (fl_bytes f) \<le> fl_pos f" using k(1) by (simp add: d_def)
    then show ?thesis using k(3) by (subst readAllFromFile.simps) (simp add: max_absorb1)
  next
    case False
    then have l: "fl_pos f + length d \<le> length (fl_bytes f)" "0 < length d" by (auto simp: d_def)
    have d: "d = take (length d) (drop (fl_pos f) (fl_bytes f))" by (simp add: d_def min_def)
    obtain f' where "readAllFromFile os (buf @ d) ?f = Inr ((buf @ d) @ drop (fl_pos ?f) (fl_bytes ?f), f')"
      "fl_bytes f' = fl_bytes ?f" "fl_pos f' = max (fl_pos ?f) (length (fl_bytes ?f))"
    proof -
      have "length (fl_bytes ?f) - fl_pos ?f < length (fl_bytes f) - fl_pos f"
        using l(1) l(2) diff_less_mono2 [of "fl_pos f" "fl_pos f + length d" "length (fl_bytes f)"] by (simp del: length_greater_0_conv)
      from less [OF this, of "buf @ d"] show ?thesis using that by blast
    qed
    moreover have "d @ drop (fl_pos f + length d) (fl_bytes f) = drop (fl_pos f) (fl_bytes f)"
      using append_take_drop_id [of "length d" "drop (fl_pos f) (fl_bytes f)"] d by (simp add: add.commute)
    ultimately show ?thesis using False k(3) l by (subst readAllFromFile.simps) (simp add: d_def [symmetric])
  qed
qed

lemma file_put_append:
  "file_put (p + length d) e (file_put p d bs) = file_put p (d @ e) bs"
proof (cases "d = [] \<or> e = []")
  case False
  then show ?thesis
    by (cases "p \<le> length bs") (auto simp: file_put_def min_def not_le ac_simps)
qed (auto simp: file_put_def)

lemma fd_write_works:
  assumes "io_works os"
  shows "fd_write os d f = Inr (f\<lparr>fl_bytes := file_put (fl_pos f) d (fl_bytes f), fl_pos := fl_pos f + length d\<rparr>)"
proof (induction "length d" arbitrary: d f rule: less_induct)
  case less
  show ?case
  proof (cases "d = []")
    case False
    then obtain k where k: "os (fl_pos f) (length d) = Some k" "k \<le> length d" "0 < k"
      using io_worksD [OF assms, of "length d" "fl_pos f"] by auto
    have "length (drop k d) < length d" using k False by simp
    then show ?thesis using False k less [of "drop k d"] file_put_append [of "fl_pos f" "take k d" "drop k d"]
      by (subst fd_write.simps) (simp add: min_absorb2)
  qed (simp add: fd_write.simps file_put_def)
qed

lemma file_put_at_end: "file_put (length bs) d bs = bs @ d"
  by (simp add: file_put_def)

lemma file_put_slice: "take (length d) (drop p (file_put p d bs)) = d"
  by (auto simp: file_put_def min_def)

lemma length_file_put: "d \<noteq> [] \<Longrightarrow> length (file_put p d bs) = max (length bs) (p + length d)"
  by (simp add: file_put_def)

text \<open>
  What is written at an offset of a seekable file is read back from there, however the system
  cuts the transfers into pieces.
\<close>

theorem pwrite_pread:
  assumes "io_works osw" and "io_works osr" and "fl_seekable f"
  shows "\<exists>f1 f2. fd_pwrite osw d off f = Inr f1 \<and> fd_pread osr (length d) off f1 = Inr (d, f2)"
proof -
  let ?f = "f\<lparr>fl_bytes := file_put off d (fl_bytes f), fl_pos := off + length d\<rparr>"
  have w: "fd_pwrite osw d off f = Inr ?f"
    using assms(3) by (simp add: fd_pwrite_def fd_lseek_def fd_write_works [OF assms(1)])
  have "d \<noteq> [] \<Longrightarrow> off + length d \<le> length (file_put off d (fl_bytes f))" by (simp add: length_file_put)
  then have "fd_pread osr (length d) off ?f = Inr (d, ?f)"
    using assms(3) by (auto simp: fd_pread_def fd_lseek_def fd_read_works [OF assms(2)] file_put_slice)
  then show ?thesis using w by blast
qed

definition one_by_one :: os_io where "one_by_one p n = Some (min 1 n)"

lemma one_by_one_works: "io_works one_by_one"
  by (auto simp: io_works_def one_by_one_def)

theorem pwrite_pread_witness:
  "\<exists>f1 f2. fd_pwrite one_by_one [1, 2, 3] 2 \<lparr>fl_bytes = [9, 9, 9], fl_pos = 0, fl_seekable = True\<rparr> = Inr f1
    \<and> fd_pread one_by_one (length [1 :: u8, 2, 3]) 2 f1 = Inr ([1, 2, 3], f2)"
  by (rule pwrite_pread [OF one_by_one_works one_by_one_works]) simp

end
