(* ===== verification/Diff_Pack.thy ===== *)
theory Diff_Pack
  imports Diff_Record
begin

text \<open>
  Packs of wdiff records: \<open>struct walb_diff_pack\<close> of \<^verbatim>\<open>src/walb_diff.h\<close>, the classes
  \<open>DiffPackHeader\<close>, \<open>MemoryDiffPack\<close> and \<open>DiffPacker\<close> of \<^verbatim>\<open>src/walb_diff_pack.hpp\<close> and
  \<^verbatim>\<open>src/walb_diff_pack.cpp\<close>, and \<open>DiffStatistics\<close> of \<^verbatim>\<open>src/walb_diff_stat.hpp\<close>. A pack header
  occupies a block of 4096 bytes: 16 bytes of fields, 127 records and 16 bytes that are not used.
\<close>

section \<open>The pack header block\<close>

definition WALB_DIFF_PACK_END :: nat where "WALB_DIFF_PACK_END = 0"

definition WALB_DIFF_PACK_SIZE :: nat where "WALB_DIFF_PACK_SIZE = 4096"

definition MAX_N_RECORDS_IN_WALB_DIFF_PACK :: nat where
  "MAX_N_RECORDS_IN_WALB_DIFF_PACK = (WALB_DIFF_PACK_SIZE - 16) div 32"

definition WALB_DIFF_PACK_MAX_SIZE :: nat where "WALB_DIFF_PACK_MAX_SIZE = 32 * 1024 * 1024"

record walb_diff_pack =
  dp_checksum :: u32
  dp_n_records :: u16
  dp_flags :: u8
  dp_reserved0 :: u8
  dp_total_size :: u32
  dp_reserved1 :: u32
  dp_record :: "walb_diff_record list"
  dp_tail :: "u8 list"

definition diff_pack_fields :: "walb_diff_pack \<Rightarrow> u8 list" where
  "diff_pack_fields p =
     le_store 2 (dp_n_records p) @ le_store 1 (dp_flags p) @ le_store 1 (dp_reserved0 p)
     @ le_store 4 (dp_total_size p) @ le_store 4 (dp_reserved1 p)"

definition diff_pack_bytes :: "walb_diff_pack \<Rightarrow> u8 list" where
  "diff_pack_bytes p =
     le_store 4 (dp_checksum p) @ diff_pack_fields p
     @ concat (map diff_record_bytes (dp_record p)) @ dp_tail p"

fun diff_records_of :: "nat \<Rightarrow> u8 list \<Rightarrow> walb_diff_record list" where
  "diff_records_of 0 bs = []"
| "diff_records_of (Suc n) bs = diff_record_of (take 32 bs) # diff_records_of n (drop 32 bs)"

definition diff_pack_of :: "u8 list \<Rightarrow> walb_diff_pack" where
  "diff_pack_of bs =
     \<lparr>dp_checksum = le_load (take 4 bs), dp_n_records = le_load (take 2 (drop 4 bs)),
      dp_flags = le_load (take 1 (drop 6 bs)), dp_reserved0 = le_load (take 1 (drop 7 bs)),
      dp_total_size = le_load (take 4 (drop 8 bs)), dp_reserved1 = le_load (take 4 (drop 12 bs)),
      dp_record = diff_records_of MAX_N_RECORDS_IN_WALB_DIFF_PACK (drop 16 bs),
      dp_tail = drop (16 + 32 * MAX_N_RECORDS_IN_WALB_DIFF_PACK) bs\<rparr>"

section \<open>DiffPackHeader\<close>

definition dpack_clear :: walb_diff_pack where
  "dpack_clear = diff_pack_of (replicate WALB_DIFF_PACK_SIZE 0)"

definition wholePackSize :: "walb_diff_pack \<Rightarrow> u32" where
  "wholePackSize p = of_nat WALB_DIFF_PACK_SIZE + dp_total_size p"

definition dpack_at :: "walb_diff_pack \<Rightarrow> nat \<Rightarrow> walb_diff_record res" where
  "dpack_at p i = ensure (i < length (dp_record p)) Out_Of_Bounds (Inr (dp_record p ! i))"

fun sum_io_blocks :: "nat \<Rightarrow> nat \<Rightarrow> walb_diff_pack \<Rightarrow> u32 res" where
  "sum_io_blocks 0 i p = Inr 0"
| "sum_io_blocks (Suc k) i p =
     res_bind (dpack_at p i) (\<lambda>r. res_bind (sum_io_blocks k (i + 1) p) (\<lambda>t. Inr (dr_io_blocks r + t)))"

definition uncompressedTotalSize :: "walb_diff_pack \<Rightarrow> u32 res" where
  "uncompressedTotalSize p =
     res_bind (sum_io_blocks (unat (dp_n_records p)) 0 p) (\<lambda>t. Inr (t * LOGICAL_BLOCK_SIZE))"

definition dpack_isEnd :: "walb_diff_pack \<Rightarrow> bool" where
  "dpack_isEnd p \<longleftrightarrow> dp_flags p AND push_bit WALB_DIFF_PACK_END 1 \<noteq> 0"

definition dpack_setEnd :: "walb_diff_pack \<Rightarrow> walb_diff_pack" where
  "dpack_setEnd p = p\<lparr>dp_flags := dp_flags p OR push_bit WALB_DIFF_PACK_END 1\<rparr>"

fun dpack_verify_loop :: "nat \<Rightarrow> nat \<Rightarrow> walb_diff_pack \<Rightarrow> unit res" where
  "dpack_verify_loop 0 i p = Inr ()"
| "dpack_verify_loop (Suc k) i p =
     res_bind (dpack_at p i) (\<lambda>r. res_bind (rec_verify r) (\<lambda>_. dpack_verify_loop k (i + 1) p))"

definition dpack_verify :: "walb_diff_pack \<Rightarrow> unit res" where
  "dpack_verify p =
     (if calcChecksum (diff_pack_bytes p) 0 \<noteq> 0 then Inl (Exception ''invalid checksum'')
      else if unat (dp_n_records p) > MAX_N_RECORDS_IN_WALB_DIFF_PACK
        then Inl (Exception ''invalid n_recoreds'')
      else dpack_verify_loop (unat (dp_n_records p)) 0 p)"

definition dpack_isValid :: "walb_diff_pack \<Rightarrow> bool" where
  "dpack_isValid p = is_ok (dpack_verify p)"

definition dpack_updateChecksum :: "walb_diff_pack \<Rightarrow> walb_diff_pack res" where
  "dpack_updateChecksum p =
     (let p0 = p\<lparr>dp_checksum := 0\<rparr>;
          p1 = p0\<lparr>dp_checksum := calcChecksum (diff_pack_bytes p0) 0\<rparr>
      in res_bind (dpack_verify p1) (\<lambda>_. Inr p1))"

definition dpack_writeTo :: "u8 list \<Rightarrow> walb_diff_pack \<Rightarrow> (u8 list \<times> walb_diff_pack) res" where
  "dpack_writeTo writer p =
     res_bind (dpack_updateChecksum p) (\<lambda>p1. Inr (writer @ diff_pack_bytes p1, p1))"

text \<open>\<open>EofError\<close> is the exception of the reader; the others are those of \<open>verify\<close>.\<close>

definition dpack_readFrom :: "u8 list \<Rightarrow> bool \<Rightarrow> (walb_diff_pack \<times> u8 list) res" where
  "dpack_readFrom reader doVerify =
     (if length reader < WALB_DIFF_PACK_SIZE then Inl (Exception ''EofError'')
      else let p = diff_pack_of (take WALB_DIFF_PACK_SIZE reader) in
        res_bind (if doVerify then dpack_verify p else Inr ()) (\<lambda>_.
          Inr (p, drop WALB_DIFF_PACK_SIZE reader)))"

text \<open>\<open>total_size + dataSize\<close> is computed in 32 bits.\<close>

definition canAdd :: "walb_diff_pack \<Rightarrow> u32 \<Rightarrow> bool" where
  "canAdd p dataSize =
     (if MAX_N_RECORDS_IN_WALB_DIFF_PACK \<le> unat (dp_n_records p) then False
      else if 0 < dp_n_records p \<and> WALB_DIFF_PACK_MAX_SIZE < unat (dp_total_size p + dataSize)
        then False
      else True)"

definition dpack_add :: "walb_diff_record \<Rightarrow> walb_diff_pack \<Rightarrow> (bool \<times> walb_diff_pack) res" where
  "dpack_add inRec p =
     ensure (rec_isValid inRec) Assert_Failed
       (if \<not> canAdd p (dr_data_size inRec) then Inr (False, p)
        else ensure (unat (dp_n_records p) < length (dp_record p)) Out_Of_Bounds
          (Inr (True, p\<lparr>dp_record := (dp_record p)[unat (dp_n_records p) :=
                 inRec\<lparr>dr_data_offset := dp_total_size p\<rparr>],
               dp_n_records := dp_n_records p + 1,
               dp_total_size := dp_total_size p + dr_data_size inRec\<rparr>)))"

section \<open>MemoryDiffPack\<close>

text \<open>The object is the memory \<open>p_\<close>, whose size is \<open>size_\<close>.\<close>

definition mpack_header :: "u8 list \<Rightarrow> walb_diff_pack" where
  "mpack_header m = diff_pack_of (take WALB_DIFF_PACK_SIZE m)"

definition mpack_reset :: "u8 list option \<Rightarrow> u8 list res" where
  "mpack_reset p =
     (case p of
        None \<Rightarrow> Inl (Exception ''The pointer must not be null.'')
      | Some m \<Rightarrow>
          ensure (WALB_DIFF_PACK_SIZE \<le> length m) Out_Of_Bounds
            (if length m \<noteq> WALB_DIFF_PACK_SIZE + unat (dp_total_size (mpack_header m))
             then Inl (Exception ''invalid pack size'') else Inr m))"

definition mpack_offset :: "u8 list \<Rightarrow> nat \<Rightarrow> nat res" where
  "mpack_offset m i =
     res_bind (dpack_at (mpack_header m) i) (\<lambda>r. Inr (WALB_DIFF_PACK_SIZE + unat (dr_data_offset r)))"

text \<open>\<open>None\<close> is the null pointer; the result is the memory that the pointer points to.\<close>

definition mpack_data :: "u8 list \<Rightarrow> nat \<Rightarrow> u8 list option res" where
  "mpack_data m i =
     ensure (i < unat (dp_n_records (mpack_header m))) Assert_Failed
       (res_bind (dpack_at (mpack_header m) i) (\<lambda>r.
          if dr_data_size r = 0 then Inr None
          else res_bind (mpack_offset m i) (\<lambda>off. Inr (Some (drop off m)))))"

text \<open>\<open>calcChecksum\<close> of zero bytes does not look at its pointer.\<close>

fun mpack_verify_loop :: "bool \<Rightarrow> nat \<Rightarrow> nat \<Rightarrow> u8 list \<Rightarrow> unit res" where
  "mpack_verify_loop doChecksum 0 i m = Inr ()"
| "mpack_verify_loop doChecksum (Suc k) i m =
     res_bind (dpack_at (mpack_header m) i) (\<lambda>r.
     res_bind (mpack_offset m i) (\<lambda>off.
       if length m < off + unat (dr_data_size r) then Inl (Exception ''data_size out of range'')
       else if \<not> doChecksum \<or> \<not> rec_isNormal r then mpack_verify_loop doChecksum k (i + 1) m
       else res_bind (mpack_data m i) (\<lambda>d.
         if calcChecksum (case d of None \<Rightarrow> [] | Some x \<Rightarrow> take (unat (dr_data_size r)) x) 0
            \<noteq> dr_checksum r
         then Inl (Exception ''invalid checksum'')
         else mpack_verify_loop doChecksum k (i + 1) m)))"

definition mpack_verify :: "u8 list \<Rightarrow> bool \<Rightarrow> unit res" where
  "mpack_verify m doChecksum =
     res_bind (dpack_verify (mpack_header m)) (\<lambda>_.
       mpack_verify_loop doChecksum (unat (dp_n_records (mpack_header m))) 0 m)"

definition verifyDiffPack :: "u8 list \<Rightarrow> bool \<Rightarrow> unit res" where
  "verifyDiffPack m doChecksum = res_bind (mpack_reset (Some m)) (\<lambda>m. mpack_verify m doChecksum)"

definition verifyDiffPackSize :: "nat \<Rightarrow> unit res" where
  "verifyDiffPackSize n =
     (if n > WALB_DIFF_PACK_SIZE + WALB_DIFF_PACK_MAX_SIZE
      then Inl (Exception ''too large pack size'') else Inr ())"

section \<open>DiffPacker\<close>

text \<open>The append buffer: its first array is the header block, the others are data.\<close>

record diff_packer =
  pk_pack :: walb_diff_pack
  pk_bufs :: "u8 list list"

definition packer_new :: diff_packer where
  "packer_new = \<lparr>pk_pack = dpack_clear, pk_bufs = []\<rparr>"

definition packer_clear :: "diff_packer \<Rightarrow> diff_packer" where
  "packer_clear pk = \<lparr>pk_pack = dpack_clear, pk_bufs = []\<rparr>"

definition packer_empty :: "diff_packer \<Rightarrow> bool res" where
  "packer_empty pk =
     (let ret = dp_n_records (pk_pack pk) = 0 in
      if ret then ensure (pk_bufs pk = []) Assert_Failed (Inr ret) else Inr ret)"

definition packer_size :: "diff_packer \<Rightarrow> nat" where
  "packer_size pk = WALB_DIFF_PACK_SIZE + sum_list (map length (pk_bufs pk))"

definition packer_array :: "diff_packer \<Rightarrow> u8 list" where
  "packer_array pk = diff_pack_bytes (pk_pack pk) @ concat (pk_bufs pk)"

definition packer_add_rec ::
  "walb_diff_record \<Rightarrow> u8 list \<Rightarrow> diff_packer \<Rightarrow> (bool \<times> diff_packer) res"
where
  "packer_add_rec rec data pk =
     ensure (rec_isValid rec) Assert_Failed
       (let dSize = dr_data_size rec in
        if \<not> canAdd (pk_pack pk) dSize then Inr (False, pk)
        else res_bind (dpack_add rec (pk_pack pk)) (\<lambda>(r, p).
          let pk1 = pk\<lparr>pk_pack := p\<rparr> in
          if r \<and> rec_isNormal rec
          then res_bind (read_at data 0 (unat dSize)) (\<lambda>d. Inr (r, pk1\<lparr>pk_bufs := pk_bufs pk1 @ [d]\<rparr>))
          else Inr (r, pk1)))"

definition packer_add ::
  "u64 \<Rightarrow> u32 \<Rightarrow> u8 list \<Rightarrow> diff_packer \<Rightarrow> (bool \<times> diff_packer) res"
where
  "packer_add ioAddr ioBlocks data pk =
     ensure (ioBlocks \<noteq> 0) Assert_Failed (ensure (unat ioBlocks \<le> 65535) Assert_Failed
       (let dSize = ioBlocks * LOGICAL_BLOCK_SIZE in
        if \<not> canAdd (pk_pack pk) dSize then Inr (False, pk)
        else res_bind (read_at data 0 (unat dSize)) (\<lambda>d.
          let isZero = list_all (\<lambda>b. b = 0) d;
              rec = DiffRecord_init\<lparr>dr_io_address := ioAddr, dr_io_blocks := ioBlocks,
                dr_compression_type := WALB_DIFF_CMPR_NONE, dr_checksum := 0\<rparr>;
              rec' = (if isZero then (rec_setAllZero rec)\<lparr>dr_data_size := 0\<rparr>
                      else (rec_setNormal rec)\<lparr>dr_data_size := dSize\<rparr>)
          in packer_add_rec rec' data pk)))"

definition packer_verify :: "diff_packer \<Rightarrow> unit res" where
  "packer_verify pk = verifyDiffPack (packer_array pk) False"

definition getPackAsArray :: "diff_packer \<Rightarrow> (u8 list \<times> diff_packer) res" where
  "getPackAsArray pk =
     res_bind (dpack_updateChecksum (pk_pack pk)) (\<lambda>p.
       let pk1 = pk\<lparr>pk_pack := p\<rparr> in
       res_bind (packer_verify pk1) (\<lambda>_. Inr (packer_array pk1, packer_clear pk1)))"

section \<open>DiffStatistics\<close>

record DiffStatistics =
  wdiffNr :: u64
  normNr :: u64
  zeroNr :: u64
  discNr :: u64
  normLb :: u64
  zeroLb :: u64
  discLb :: u64
  dataSize :: u64

definition stat_clear :: DiffStatistics where
  "stat_clear = \<lparr>wdiffNr = 0, normNr = 0, zeroNr = 0, discNr = 0, normLb = 0, zeroLb = 0, discLb = 0,
     dataSize = 0\<rparr>"

definition updateDetail ::
  "bool \<Rightarrow> bool \<Rightarrow> bool \<Rightarrow> u64 \<Rightarrow> u64 \<Rightarrow> DiffStatistics \<Rightarrow> DiffStatistics res"
where
  "updateDetail isNormal isDiscard isAllZero ioBlocks sz st =
     res_bind
       (if isNormal then Inr (st\<lparr>normNr := normNr st + 1, normLb := normLb st + ioBlocks\<rparr>)
        else if isDiscard then Inr (st\<lparr>discNr := discNr st + 1, discLb := discLb st + ioBlocks\<rparr>)
        else if isAllZero then Inr (st\<lparr>zeroNr := zeroNr st + 1, zeroLb := zeroLb st + ioBlocks\<rparr>)
        else Inl (Exception ''invalid record''))
       (\<lambda>st1. Inr (st1\<lparr>dataSize := dataSize st1 + sz\<rparr>))"

definition stat_update_rec :: "walb_diff_record \<Rightarrow> DiffStatistics \<Rightarrow> DiffStatistics res" where
  "stat_update_rec r st =
     updateDetail (rec_isNormal r) (rec_isDiscard r) (rec_isAllZero r) (ucast (dr_io_blocks r))
       (ucast (dr_data_size r)) st"

definition stat_update_irec :: "walb_indexed_diff_record \<Rightarrow> DiffStatistics \<Rightarrow> DiffStatistics res" where
  "stat_update_irec r st =
     updateDetail (irec_isNormal r) (irec_isDiscard r) (irec_isAllZero r) (ucast (ir_io_blocks r)) 0 st"

fun stat_update_loop :: "nat \<Rightarrow> nat \<Rightarrow> walb_diff_pack \<Rightarrow> DiffStatistics \<Rightarrow> DiffStatistics res" where
  "stat_update_loop 0 i p st = Inr st"
| "stat_update_loop (Suc k) i p st =
     res_bind (dpack_at p i) (\<lambda>r. res_bind (stat_update_rec r st) (stat_update_loop k (i + 1) p))"

definition stat_update_pack :: "walb_diff_pack \<Rightarrow> DiffStatistics \<Rightarrow> DiffStatistics res" where
  "stat_update_pack p st =
     (if dpack_isEnd p then Inr st else stat_update_loop (unat (dp_n_records p)) 0 p st)"

definition stat_update_stat :: "DiffStatistics \<Rightarrow> DiffStatistics \<Rightarrow> DiffStatistics" where
  "stat_update_stat s st =
     \<lparr>wdiffNr = wdiffNr st + wdiffNr s, normNr = normNr st + normNr s, zeroNr = zeroNr st + zeroNr s,
      discNr = discNr st + discNr s, normLb = normLb st + normLb s, zeroLb = zeroLb st + zeroLb s,
      discLb = discLb st + discLb s, dataSize = dataSize st + dataSize s\<rparr>"

end
