(* ===== verification/Diff_Index.thy ===== *)
theory Diff_Index
  imports Diff_Record Range_Map
begin

text \<open>
  The index of an indexed wdiff while it is built: \<open>DiffIndexMem\<close> of
  \<^verbatim>\<open>src/walb_diff_file.hpp\<close> and \<^verbatim>\<open>src/walb_diff_file.cpp\<close>. All records are aligned to
  powers of two, so that of two records that overlap one lies inside the other, and the
  difference of records never reaches its \<open>BUG\<close> branch. The index refines the map from logical
  blocks to places in the compressed images, and every record it keeps verifies.
\<close>

section \<open>DiffIndexMem\<close>

record diff_index_mem =
  idx_index :: "walb_indexed_diff_record entries"
  idx_maxIoBlocks :: u32

definition idx_setMaxIoBlocks :: "u32 \<Rightarrow> diff_index_mem \<Rightarrow> diff_index_mem" where
  "idx_setMaxIoBlocks n im = im\<lparr>idx_maxIoBlocks := n\<rparr>"

definition idx_clear :: "diff_index_mem \<Rightarrow> diff_index_mem" where
  "idx_clear im = im\<lparr>idx_index := []\<rparr>"

text \<open>The inner loops over \<open>minus\<close> and \<open>split\<close>.\<close>

fun irec_split_all :: "u32 \<Rightarrow> walb_indexed_diff_record list \<Rightarrow> walb_indexed_diff_record list res" where
  "irec_split_all mx [] = Inr []"
| "irec_split_all mx (r # v) =
     res_bind (irec_split r mx) (\<lambda>w. res_bind (irec_split_all mx v) (\<lambda>u. Inr (w @ u)))"

definition irec_minus_split ::
  "u32 \<Rightarrow> walb_indexed_diff_record \<Rightarrow> walb_indexed_diff_record \<Rightarrow> walb_indexed_diff_record list res"
where
  "irec_minus_split mx r rec = res_bind (irec_minus r rec) (irec_split_all mx)"

definition idx_addDetail :: "walb_indexed_diff_record \<Rightarrow> diff_index_mem \<Rightarrow> diff_index_mem res" where
  "idx_addDetail rec im =
     res_bind (isAlignedIo (ir_io_address rec) (ir_io_blocks rec)) (\<lambda>al.
     ensure al Assert_Failed
       (if idx_index im = [] then Inr (im\<lparr>idx_index := emplace (ir_io_address rec) rec []\<rparr>)
        else
          let (a, b) = search_start (ir_io_address rec) (idx_index im);
              (c, q) = pull_overlapped (\<lambda>r. irec_isOverlapped r rec) (irec_endIoAddress rec) b
          in res_bind (eliminate ir_io_address
               (\<lambda>r. irec_minus_split (idx_maxIoBlocks im) r rec) q (a @ c)) (\<lambda>m.
             Inr (im\<lparr>idx_index := emplace (ir_io_address rec) rec m\<rparr>))))"

fun idx_add_loop :: "walb_indexed_diff_record list \<Rightarrow> diff_index_mem \<Rightarrow> diff_index_mem res" where
  "idx_add_loop [] im = Inr im"
| "idx_add_loop (r # v) im = res_bind (idx_addDetail r im) (idx_add_loop v)"

definition idx_add :: "walb_indexed_diff_record \<Rightarrow> diff_index_mem \<Rightarrow> diff_index_mem res" where
  "idx_add rec im = res_bind (irec_split rec (idx_maxIoBlocks im)) (\<lambda>v. idx_add_loop v im)"

definition idx_getAsVec :: "diff_index_mem \<Rightarrow> walb_indexed_diff_record list" where
  "idx_getAsVec im = map snd (idx_index im)"

definition idx_writeTo :: "u8 list \<Rightarrow> diff_index_mem \<Rightarrow> u8 list" where
  "idx_writeTo writer im = writer @ concat (map (\<lambda>x. indexed_record_bytes (snd x)) (idx_index im))"

definition idx_checkNoOverlappedAndSorted :: "diff_index_mem \<Rightarrow> unit res" where
  "idx_checkNoOverlappedAndSorted im =
     check_sorted ir_io_address irec_endIoAddress None (idx_getAsVec im)"

section \<open>Sealed records\<close>

lemma length_indexed_record_bytes [simp]: "length (indexed_record_bytes r) = 48"
  by (simp add: indexed_record_bytes_def)

interpretation irec_sum: checksummed "\<lambda>_. True" indexed_record_bytes "\<lambda>c r. r\<lparr>ir_rec_checksum := c\<rparr>"
proof
  fix c and r :: walb_indexed_diff_record
  let ?p = "le_store 8 (ir_io_address r) @ le_store 4 (ir_io_blocks r) @ le_store 1 (ir_flags r)
     @ le_store 1 (ir_compression_type r) @ le_store 2 (ir_reserved1 r)
     @ le_store 8 (ir_data_offset r) @ le_store 4 (ir_data_size r) @ le_store 4 (ir_io_offset r)
     @ le_store 4 (ir_orig_blocks r) @ le_store 4 (ir_reserved2 r) @ le_store 4 (ir_io_checksum r)"
  have "indexed_record_bytes (r\<lparr>ir_rec_checksum := x\<rparr>) = ?p @ le_store 4 x" for x
    by (simp add: indexed_record_bytes_def)
  moreover have "word_sum (?p @ le_store 4 x) = word_sum ?p + x" for x
    using word_sum_le_store [of x "[]"] by (subst word_sum_append) simp_all
  ultimately show "word_sum (indexed_record_bytes (r\<lparr>ir_rec_checksum := c\<rparr>)) =
      c + word_sum (indexed_record_bytes (r\<lparr>ir_rec_checksum := 0\<rparr>))"
    by (simp add: add.commute)
qed simp_all

definition irec_flags_ok :: "walb_indexed_diff_record \<Rightarrow> bool" where
  "irec_flags_ok r \<longleftrightarrow> \<not> (irec_isAllZero r \<and> irec_isDiscard r)
     \<and> (irec_isNormal r \<longrightarrow> ir_compression_type r < WALB_DIFF_CMPR_MAX)"

definition sealed :: "walb_indexed_diff_record \<Rightarrow> walb_indexed_diff_record" where
  "sealed r = r\<lparr>ir_rec_checksum := calcChecksum (indexed_record_bytes (r\<lparr>ir_rec_checksum := 0\<rparr>)) 0\<rparr>"

lemma irec_flags_upd [simp]:
  "irec_isNormal (r\<lparr>ir_io_address := a\<rparr>) = irec_isNormal r" "irec_isNormal (r\<lparr>ir_io_blocks := n\<rparr>) = irec_isNormal r"
  "irec_isNormal (r\<lparr>ir_io_offset := n\<rparr>) = irec_isNormal r" "irec_isNormal (r\<lparr>ir_rec_checksum := n\<rparr>) = irec_isNormal r"
  "irec_isDiscard (r\<lparr>ir_io_address := a\<rparr>) = irec_isDiscard r" "irec_isDiscard (r\<lparr>ir_io_blocks := n\<rparr>) = irec_isDiscard r"
  "irec_isDiscard (r\<lparr>ir_io_offset := n\<rparr>) = irec_isDiscard r" "irec_isDiscard (r\<lparr>ir_rec_checksum := n\<rparr>) = irec_isDiscard r"
  "irec_flags_ok (r\<lparr>ir_io_address := a\<rparr>) = irec_flags_ok r" "irec_flags_ok (r\<lparr>ir_io_blocks := n\<rparr>) = irec_flags_ok r"
  "irec_flags_ok (r\<lparr>ir_io_offset := n\<rparr>) = irec_flags_ok r" "irec_flags_ok (r\<lparr>ir_rec_checksum := n\<rparr>) = irec_flags_ok r"
  by (simp_all add: irec_isNormal_def irec_isAllZero_def irec_isDiscard_def irec_flags_ok_def)

lemma irec_verify_flags: "irec_verify r c = Inr () \<Longrightarrow> irec_flags_ok r"
  by (auto simp: irec_verify_def irec_flags_ok_def irec_isNormal_def split: if_splits)

lemma updateRecChecksum_ok:
  assumes "irec_flags_ok r" and "ir_io_blocks r \<noteq> 0"
  shows "updateRecChecksum r = Inr (sealed r)" and "irec_verify (sealed r) True = Inr ()"
proof -
  have "calcChecksum (indexed_record_bytes (sealed r)) 0 = 0"
    using irec_sum.updated_verifies [of r 0] by (simp add: sealed_def)
  moreover have "irec_flags_ok (sealed r)" "ir_io_blocks (sealed r) \<noteq> 0" using assms by (simp_all add: sealed_def)
  ultimately show "irec_verify (sealed r) True = Inr ()"
    by (auto simp: irec_verify_def irec_flags_ok_def irec_isNormal_def not_le)
  then show "updateRecChecksum r = Inr (sealed r)"
    by (simp add: updateRecChecksum_def sealed_def Let_def)
qed

section \<open>Places of blocks\<close>

text \<open>
  Where the contents of a block is found: the image at a byte offset of the file, its size and
  compression, and the number of the block in the decompressed image.
\<close>

datatype block_place = Zero_Place | Discard_Place
  | Image_Place (image_offset: u64) (image_size: u32) (image_type: u8) (image_blocks: u32)
      (image_csum: u32) (block_no: u32)

definition irec_block :: "walb_indexed_diff_record \<Rightarrow> nat \<Rightarrow> block_place" where
  "irec_block r a =
     (if irec_isNormal r
      then Image_Place (ir_data_offset r) (ir_data_size r) (ir_compression_type r) (ir_orig_blocks r)
        (ir_io_checksum r) (ir_io_offset r + of_nat (a - unat (ir_io_address r)))
      else if irec_isDiscard r then Discard_Place else Zero_Place)"

definition irec_ok :: "walb_indexed_diff_record \<Rightarrow> bool" where
  "irec_ok r \<longleftrightarrow> 0 < unat (ir_io_blocks r) \<and> unat (ir_io_address r) + unat (ir_io_blocks r) < 2 ^ 64
     \<and> isAlignedIo (ir_io_address r) (ir_io_blocks r) = Inr True \<and> irec_verify r True = Inr ()"

interpretation idx: range_items ir_io_address ir_io_blocks irec_ok irec_block
  by standard (auto simp: irec_ok_def)

text \<open>The part of a record from block \<open>x\<close> on.\<close>

definition ipart :: "walb_indexed_diff_record \<Rightarrow> u64 \<Rightarrow> u32 \<Rightarrow> walb_indexed_diff_record" where
  "ipart r x n = r\<lparr>ir_io_address := x, ir_io_blocks := n,
     ir_io_offset := ir_io_offset r + ucast (x - ir_io_address r)\<rparr>"

lemma of_nat_diff_word: "b \<le> a \<Longrightarrow> of_nat (a - b) = (of_nat a - of_nat b :: 'a::len word)"
  by (simp add: of_nat_diff)

lemma ucast_diff_32: "unat (y :: u64) \<le> unat x \<Longrightarrow> (ucast (x - y) :: u32) = of_nat (unat x - unat y)"
  by (metis of_nat_unat unat_sub_le word_le_nat_alt)

lemma item_ipart:
  assumes "unat (ir_io_address r) \<le> unat x"
    and "unat x + unat n \<le> unat (ir_io_address r) + unat (ir_io_blocks r)"
  shows "idx.item (ipart r x n) = idx.item r |` {unat x ..< unat x + unat n}"
proof -
  have "irec_block (ipart r x n) a = irec_block r a" if "unat x \<le> a" for a
  proof -
    have "(of_nat (unat x - unat (ir_io_address r)) :: u32) + of_nat (a - unat x) = of_nat (a - unat (ir_io_address r))"
      using assms(1) that by (simp flip: of_nat_add)
    then show ?thesis
      using ucast_diff_32 [OF assms(1)] by (simp add: irec_block_def ipart_def add.assoc)
  qed
  then show "idx.item (ipart r x n) = idx.item r |` {unat x ..< unat x + unat n}"
    using assms by (auto simp: idx.item_def idx.rng_def ipart_def restrict_map_def fun_eq_iff)
qed

lemma item_sealed: "idx.item (sealed r) = idx.item r"
  by (auto simp: idx.item_def idx.rng_def sealed_def irec_block_def fun_eq_iff)

lemma ipart_simps [simp]:
  "ir_io_address (ipart r x n) = x" "ir_io_blocks (ipart r x n) = n"
  "irec_flags_ok (ipart r x n) = irec_flags_ok r"
  by (simp_all add: ipart_def)

lemma sealed_simps [simp]:
  "ir_io_address (sealed r) = ir_io_address r" "ir_io_blocks (sealed r) = ir_io_blocks r"
  "ir_io_offset (sealed r) = ir_io_offset r" "irec_flags_ok (sealed r) = irec_flags_ok r"
  "idx.rng (sealed r) = idx.rng r"
  by (simp_all add: sealed_def idx.rng_def)

text \<open>The split of a record that is not aligned itself.\<close>

lemma irec_split_loop_ok:
  assumes "irec_flags_ok r" and "unat (ir_io_address r) \<le> unat x"
    and "unat x + sum_list (map unat v) = unat (ir_io_address r) + unat (ir_io_blocks r)"
    and "unat (ir_io_address r) + unat (ir_io_blocks r) < 2 ^ 64" and "pieces_aligned x v"
    and "off = ir_io_offset r + ucast (x - ir_io_address r)"
  shows "\<exists>w. irec_split_loop r x off v = Inr w \<and> (\<forall>p \<in> set w. irec_ok p) \<and> idx.disjoint w
    \<and> idx.views w = idx.item r |` {unat x ..< unat x + sum_list (map unat v)}"
  using assms(2,3,5,6)
proof (induction v arbitrary: x off)
  case Nil
  then show ?case by (simp add: idx.disjoint_def)
next
  case (Cons s v)
  let ?p = "ipart r x s"
  have al: "isAlignedIo x s = Inr True" "pieces_aligned (x + ucast s) v" using Cons.prems(3) by simp_all
  have s: "s \<noteq> 0" using al(1) by (auto simp: isAlignedIo_def isAlignedSize_def ensure_def split: if_splits)
  then have pos: "0 < unat s" by (simp add: unat_gt_0)
  have x: "unat (x + ucast s) = unat x + unat s"
    using Cons.prems(2) assms(4) by (simp add: unat_add_small)
  have p: "r\<lparr>ir_io_address := x, ir_io_blocks := s, ir_io_offset := off\<rparr> = ?p"
    using Cons.prems(4) by (simp add: ipart_def)
  note u = updateRecChecksum_ok [of ?p] assms(1) s
  have ok: "irec_ok (sealed ?p)"
    using u al(1) pos Cons.prems(2) assms(4) by (simp add: irec_ok_def)
  have "off + s = ir_io_offset r + ucast (x + ucast s - ir_io_address r)"
  proof -
    have "(ucast (x + ucast s - ir_io_address r) :: u32) = of_nat (unat x + unat s - unat (ir_io_address r))"
      using ucast_diff_32 [of "ir_io_address r" "x + ucast s"] x Cons.prems(1) by simp
    also have "\<dots> = of_nat (unat x - unat (ir_io_address r) + unat s)" using Cons.prems(1) by simp
    also have "\<dots> = ucast (x - ir_io_address r) + s"
      using ucast_diff_32 [OF Cons.prems(1)] by simp
    finally show ?thesis using Cons.prems(4) by (simp add: add.assoc)
  qed
  moreover have "unat x + unat s + sum_list (map unat v) = unat (ir_io_address r) + unat (ir_io_blocks r)"
    using Cons.prems(2) by simp
  ultimately obtain w where w: "irec_split_loop r (x + ucast s) (off + s) v = Inr w" "\<forall>p \<in> set w. irec_ok p"
    "idx.disjoint w" "idx.views w = idx.item r |` {unat x + unat s ..< unat x + unat s + sum_list (map unat v)}"
    using Cons.IH [of "x + ucast s" "off + s"] Cons.prems(1,2) al(2) x by auto
  have it: "idx.item (sealed ?p) = idx.item r |` {unat x ..< unat x + unat s}"
    using item_sealed [of ?p] item_ipart [of r x s] Cons.prems(1,2) by simp
  have "idx.rng (sealed ?p) = {unat x ..< unat x + unat s}" by (simp add: idx.rng_def)
  moreover have "(\<Union>q \<in> set w. idx.rng q) \<subseteq> {unat x + unat s ..<  unat x + unat s + sum_list (map unat v)}"
    using arg_cong [OF w(4), of dom] by (auto simp: idx.dom_views)
  ultimately have "idx.disjoint (sealed ?p # w)" using w(3) by (fastforce simp: idx.disjoint_Cons)
  moreover have "idx.views (sealed ?p # w) = idx.item r |` {unat x ..< unat x + sum_list (map unat (s # v))}"
    using it w(4) by (auto simp: map_add_def restrict_map_def fun_eq_iff split: option.splits)
  ultimately show ?case
    using u w(1,2) ok p by (intro exI [of _ "sealed ?p # w"]) simp
qed

lemma irec_split_ok:
  assumes "irec_flags_ok r" and "unat (ir_io_address r) + unat (ir_io_blocks r) < 2 ^ 64"
  shows "\<exists>w. irec_split r mx = Inr w \<and> (\<forall>p \<in> set w. irec_ok p) \<and> idx.disjoint w \<and> idx.views w = idx.item r"
proof -
  let ?v = "splitIoToAligned (ir_io_address r) (ir_io_blocks r) mx"
  have v: "sum_list (map unat ?v) = unat (ir_io_blocks r)" "pieces_aligned (ir_io_address r) ?v"
    using split_tiles [of "ir_io_address r" "ir_io_blocks r" mx] by simp_all
  have "idx.item r |` {unat (ir_io_address r) ..< unat (ir_io_address r) + unat (ir_io_blocks r)} = idx.item r"
    by (auto simp: idx.item_def idx.rng_def restrict_map_def fun_eq_iff)
  then show ?thesis
    using irec_split_loop_ok [OF assms(1) order_refl _ assms(2) v(2)] v(1) by (simp add: irec_split_def)
qed

lemma irec_split_all_ok:
  assumes "\<forall>r \<in> set v. irec_flags_ok r \<and> unat (ir_io_address r) + unat (ir_io_blocks r) < 2 ^ 64"
    and "idx.disjoint v"
  shows "\<exists>w. irec_split_all mx v = Inr w \<and> (\<forall>p \<in> set w. irec_ok p) \<and> idx.disjoint w \<and> idx.views w = idx.views v"
  using assms
proof (induction v)
  case Nil
  then show ?case by (simp add: idx.disjoint_def)
next
  case (Cons r v)
  obtain w where w: "irec_split r mx = Inr w" "\<forall>p \<in> set w. irec_ok p" "idx.disjoint w" "idx.views w = idx.item r"
    using irec_split_ok [of r mx] Cons.prems(1) by auto
  obtain u where u: "irec_split_all mx v = Inr u" "\<forall>p \<in> set u. irec_ok p" "idx.disjoint u" "idx.views u = idx.views v"
    using Cons.IH Cons.prems by (auto simp: idx.disjoint_Cons)
  have "(\<Union>p \<in> set w. idx.rng p) = idx.rng r" "(\<Union>p \<in> set u. idx.rng p) = (\<Union>p \<in> set v. idx.rng p)"
    using arg_cong [OF w(4), of dom] arg_cong [OF u(4), of dom] by (simp_all add: idx.dom_views idx.dom_item)
  moreover have "\<forall>s \<in> set v. idx.rng r \<inter> idx.rng s = {}" using Cons.prems(2) by (simp add: idx.disjoint_Cons)
  ultimately have "idx.rng p \<inter> idx.rng q = {}" if "p \<in> set w" "q \<in> set u" for p q
    using that by fastforce
  then have "idx.disjoint (w @ u)" using w(3) u(3) by (simp add: idx.disjoint_append)
  then show ?case using w u by (intro exI [of _ "w @ u"]) (auto simp: idx.views_append)
qed

section \<open>The difference of aligned records\<close>

lemma idx_overlap:
  "irec_ok r \<Longrightarrow> irec_ok s \<Longrightarrow> irec_isOverlapped r s \<longleftrightarrow> idx.rng r \<inter> idx.rng s \<noteq> {}"
  using idx.overlapped_iff [of r s] by (simp add: irec_isOverlapped_def)

lemma idx_overwrite:
  "irec_ok r \<Longrightarrow> irec_ok s \<Longrightarrow> irec_isOverwrittenBy r s \<longleftrightarrow> idx.rng r \<subseteq> idx.rng s"
  using idx.overwritten_iff [of r s] by (simp add: irec_isOverwrittenBy_def)

lemma irec_nested:
  assumes "irec_ok r" and "irec_ok s" and "idx.rng r \<inter> idx.rng s \<noteq> {}"
  shows "idx.rng r \<subseteq> idx.rng s \<or> idx.rng s \<subseteq> idx.rng r"
proof -
  obtain i where i: "unat (ir_io_blocks r) = 2 ^ i" "2 ^ i dvd unat (ir_io_address r)"
    using assms(1) isAlignedIo_pow2 by (metis irec_ok_def)
  obtain j where j: "unat (ir_io_blocks s) = 2 ^ j" "2 ^ j dvd unat (ir_io_address s)"
    using assms(2) isAlignedIo_pow2 by (metis irec_ok_def)
  have x: "unat (ir_io_address r) < unat (ir_io_address s) + 2 ^ j"
    "unat (ir_io_address s) < unat (ir_io_address r) + 2 ^ i"
    using assms(3) i(1) j(1) by (auto simp: idx.rng_def)
  show ?thesis
    using aligned_nested [OF i(2) j(2) _ x] aligned_nested [OF j(2) i(2) _ x(2,1)] i(1) j(1)
    by (cases "i \<le> j") (auto simp: idx.rng_def)
qed

lemma irec_part_ok:
  assumes "irec_flags_ok r" and "unat (ir_io_address r) \<le> unat x"
    and "unat x + unat n \<le> unat (ir_io_address r) + unat (ir_io_blocks r)"
    and "unat (ir_io_address r) + unat (ir_io_blocks r) < 2 ^ 64"
  shows "\<exists>v. irec_part n (ipart r x n) = Inr v
    \<and> (\<forall>p \<in> set v. irec_flags_ok p \<and> unat (ir_io_address p) + unat (ir_io_blocks p) < 2 ^ 64)
    \<and> idx.disjoint v \<and> idx.views v = idx.item r |` {unat x ..< unat x + unat n}"
proof (cases "n = 0")
  case True
  then show ?thesis by (simp add: irec_part_def idx.disjoint_def)
next
  case False
  then have "0 < n" by (simp add: word_gt_0)
  with updateRecChecksum_ok [of "ipart r x n"] item_sealed [of "ipart r x n"] item_ipart [OF assms(2,3)] assms False
  show ?thesis by (simp add: irec_part_def idx.disjoint_def)
qed

lemma irec_minus_inner_ok:
  assumes r: "irec_ok r" and s: "irec_ok s" and sub: "idx.rng s \<subseteq> idx.rng r" and ne: "\<not> idx.rng r \<subseteq> idx.rng s"
  shows "\<exists>v. irec_minus r s = Inr v
    \<and> (\<forall>p \<in> set v. irec_flags_ok p \<and> unat (ir_io_address p) + unat (ir_io_blocks p) < 2 ^ 64)
    \<and> idx.disjoint v \<and> idx.views v = idx.item r |` (- idx.rng s)"
proof -
  let ?a = "unat (ir_io_address r)" and ?n = "unat (ir_io_blocks r)"
    and ?b = "unat (ir_io_address s)" and ?m = "unat (ir_io_blocks s)"
  have pos: "0 < ?m" using s by (simp add: irec_ok_def)
  have le: "?a \<le> ?b" "?b + ?m \<le> ?a + ?n" using sub pos by (auto simp: idx.rng_def ivl_subset)
  have end64: "?a + ?n < 2 ^ 64" using r by (simp add: irec_ok_def)
  have n32: "?n < 4294967296" by simp
  have fl: "irec_flags_ok r" using r irec_verify_flags by (auto simp: irec_ok_def)
  define bl :: u32 where "bl = ucast (ir_io_address s - ir_io_address r)"
  define br :: u32 where "br = ucast (irec_endIoAddress r - irec_endIoAddress s)"
  define ad where "ad = irec_endIoAddress s"
  have e: "unat (irec_endIoAddress r) = ?a + ?n" "unat ad = ?b + ?m"
    using idx.unat_end [OF r] idx.unat_end [OF s] by (simp_all add: irec_endIoAddress_def ad_def)
  have bl: "unat bl = ?b - ?a"
    using le n32 unfolding bl_def
    by (subst unat_ucast_64_32) (simp_all add: unat_sub_le word_le_nat_alt del: unat_lt32)
  have br: "unat br = ?a + ?n - (?b + ?m)"
    using le n32 e unfolding br_def ad_def
    by (subst unat_ucast_64_32) (simp_all add: unat_sub_le word_le_nat_alt del: unat_lt32)
  have off: "ir_io_offset r + ucast (ad - ir_io_address r) = ir_io_offset (ipart r ad br)"
    by (simp add: ipart_def)
  have brd: "ucast (irec_endIoAddress r - ad) = br" by (simp add: br_def ad_def)
  have parts: "irec_minus r s =
      res_bind (irec_part bl (ipart r (ir_io_address r) bl)) (\<lambda>v0.
      res_bind (irec_part br (ipart r ad br)) (\<lambda>v1. Inr (v0 @ v1)))"
    using idx_overlap [OF r s] idx_overwrite [OF r s] idx_overwrite [OF s r] sub ne pos le
    by (auto simp: irec_minus_def Let_def bl_def [symmetric] ad_def [symmetric] brd ipart_def
        idx.rng_def)
  obtain v where v: "irec_part bl (ipart r (ir_io_address r) bl) = Inr v"
    "\<forall>p \<in> set v. irec_flags_ok p \<and> unat (ir_io_address p) + unat (ir_io_blocks p) < 2 ^ 64"
    "idx.disjoint v" "idx.views v = idx.item r |` {?a ..< ?b}"
    using irec_part_ok [OF fl, of "ir_io_address r" bl] bl le end64 by auto
  obtain w where w: "irec_part br (ipart r ad br) = Inr w"
    "\<forall>p \<in> set w. irec_flags_ok p \<and> unat (ir_io_address p) + unat (ir_io_blocks p) < 2 ^ 64"
    "idx.disjoint w" "idx.views w = idx.item r |` {?b + ?m ..< ?a + ?n}"
    using irec_part_ok [OF fl, of ad br] e br le end64 by auto
  have "(\<Union>p \<in> set v. idx.rng p) \<subseteq> {?a ..< ?b}" "(\<Union>p \<in> set w. idx.rng p) \<subseteq> {?b + ?m ..< ?a + ?n}"
    using arg_cong [OF v(4), of dom] arg_cong [OF w(4), of dom] by (simp_all add: idx.dom_views)
  then have "idx.rng p \<inter> idx.rng t = {}" if "p \<in> set v" "t \<in> set w" for p t
    using that by fastforce
  then have "idx.disjoint (v @ w)" using v(3) w(3) by (simp add: idx.disjoint_append)
  moreover have "idx.views (v @ w) = idx.item r |` (- idx.rng s)"
    using le by (auto simp: idx.views_append v(4) w(4) map_add_def restrict_map_def fun_eq_iff idx.item_def
        idx.rng_def split: option.splits)
  ultimately show ?thesis using parts v(1,2) w(1,2) by (intro exI [of _ "v @ w"]) auto
qed

interpretation idx: range_minus ir_io_address ir_io_blocks irec_ok irec_block "irec_minus_split mx" for mx
proof
  fix r s
  assume r: "irec_ok r" and s: "irec_ok s" and ov: "idx.rng r \<inter> idx.rng s \<noteq> {}"
  show "\<exists>v. irec_minus_split mx r s = Inr v \<and> (\<forall>p \<in> set v. irec_ok p) \<and> idx.disjoint v
      \<and> idx.views v = idx.item r |` (- idx.rng s)"
  proof (cases "idx.rng r \<subseteq> idx.rng s")
    case True
    then have "irec_minus_split mx r s = Inr []"
      using idx_overlap [OF r s] idx_overwrite [OF r s] ov by (simp add: irec_minus_split_def irec_minus_def)
    moreover have "idx.item r |` (- idx.rng s) = Map.empty"
      using True by (auto simp: idx.item_def restrict_map_def fun_eq_iff)
    ultimately show ?thesis by (simp add: idx.disjoint_def)
  next
    case False
    then have "idx.rng s \<subseteq> idx.rng r" using irec_nested [OF r s ov] by blast
    then obtain v where v: "irec_minus r s = Inr v"
      "\<forall>p \<in> set v. irec_flags_ok p \<and> unat (ir_io_address p) + unat (ir_io_blocks p) < 2 ^ 64"
      "idx.disjoint v" "idx.views v = idx.item r |` (- idx.rng s)"
      using irec_minus_inner_ok [OF r s _ False] by blast
    then show ?thesis using irec_split_all_ok [OF v(2,3), of mx] by (simp add: irec_minus_split_def)
  qed
qed

section \<open>The index refines a map of places\<close>

definition idx_ok :: "diff_index_mem \<Rightarrow> bool" where
  "idx_ok im \<longleftrightarrow> idx.map_ok (idx_index im)"

definition idx_view :: "diff_index_mem \<Rightarrow> nat \<Rightarrow> block_place option" where
  "idx_view im = idx.views (map snd (idx_index im))"

definition irec_view :: "walb_indexed_diff_record \<Rightarrow> nat \<Rightarrow> block_place option" where
  "irec_view r = idx.item r"

text \<open>What \<open>add\<close> is given: any record with valid flags whose range does not wrap around.\<close>

definition irec_arg_ok :: "walb_indexed_diff_record \<Rightarrow> bool" where
  "irec_arg_ok r \<longleftrightarrow> irec_flags_ok r \<and> unat (ir_io_address r) + unat (ir_io_blocks r) < 2 ^ 64"

lemma idx_addDetail_ok:
  assumes "idx_ok im" and "irec_ok rec"
  shows "\<exists>im'. idx_addDetail rec im = Inr im' \<and> idx_ok im' \<and> idx_view im' = idx_view im ++ idx.item rec
    \<and> idx_maxIoBlocks im' = idx_maxIoBlocks im"
proof -
  let ?ov = "\<lambda>r. irec_isOverlapped r rec" and ?mx = "idx_maxIoBlocks im"
  have al: "isAlignedIo (ir_io_address rec) (ir_io_blocks rec) = Inr True" using assms(2) by (simp add: irec_ok_def)
  show ?thesis
  proof (cases "idx_index im = []")
    case True
    then show ?thesis
      using assms(2) al by (simp add: idx_addDetail_def idx_ok_def idx_view_def idx.map_ok_def)
  next
    case False
    obtain a b where ab: "search_start (ir_io_address rec) (idx_index im) = (a, b)" by fastforce
    obtain c q where cq: "pull_overlapped ?ov (irec_endIoAddress rec) b = (c, q)" by fastforce
    have dj: "idx.disjoint [rec]" by (simp add: idx.disjoint_def)
    obtain ps where ps: "diff_all (\<lambda>r. irec_minus_split ?mx r rec) q = Inr ps"
      "idx.map_ok (emplace_all ir_io_address [rec] (emplace_all ir_io_address ps (a @ c)))"
      "idx.views (map snd (emplace_all ir_io_address [rec] (emplace_all ir_io_address ps (a @ c)))) =
        idx.views (map snd (idx_index im)) ++ idx.item rec"
      using idx.add_items [OF assms(1) [unfolded idx_ok_def] assms(2) _ dj _ idx_overlap [OF _ assms(2)] ab
          cq [unfolded irec_endIoAddress_def], of ?mx] assms(2) by auto
    have "idx_addDetail rec im = Inr (im\<lparr>idx_index := emplace (ir_io_address rec) rec
        (emplace_all ir_io_address ps (a @ c))\<rparr>)"
      using al False ab cq eliminate_diff_all [OF ps(1)] by (simp add: idx_addDetail_def)
    then show ?thesis using ps(2,3) by (simp add: idx_ok_def idx_view_def)
  qed
qed

lemma idx_add_loop_ok:
  assumes "idx_ok im" and "\<forall>r \<in> set v. irec_ok r" and "idx.disjoint v"
  shows "\<exists>im'. idx_add_loop v im = Inr im' \<and> idx_ok im' \<and> idx_view im' = idx_view im ++ idx.views v
    \<and> idx_maxIoBlocks im' = idx_maxIoBlocks im"
  using assms
proof (induction v arbitrary: im)
  case (Cons r v)
  obtain im1 where i: "idx_addDetail r im = Inr im1" "idx_ok im1" "idx_view im1 = idx_view im ++ idx.item r"
    "idx_maxIoBlocks im1 = idx_maxIoBlocks im"
    using idx_addDetail_ok Cons.prems(1,2) by fastforce
  have "dom (idx.item r) \<inter> dom (idx.views v) = {}"
    using Cons.prems(3) by (auto simp: idx.dom_item idx.dom_views idx.disjoint_Cons)
  then have "idx.item r ++ idx.views v = idx.views v ++ idx.item r" by (rule map_add_comm)
  moreover obtain im2 where "idx_add_loop v im1 = Inr im2" "idx_ok im2" "idx_view im2 = idx_view im1 ++ idx.views v"
    "idx_maxIoBlocks im2 = idx_maxIoBlocks im1"
    using Cons.IH [OF i(2)] Cons.prems(2,3) by (auto simp: idx.disjoint_Cons)
  ultimately show ?case using i by (simp del: map_add_assoc flip: map_add_assoc)
qed simp

text \<open>A sequence of additions, as the writer of an indexed diff performs them.\<close>

fun idx_add_all :: "walb_indexed_diff_record list \<Rightarrow> diff_index_mem \<Rightarrow> diff_index_mem res" where
  "idx_add_all [] im = Inr im"
| "idx_add_all (r # rs) im = res_bind (idx_add r im) (idx_add_all rs)"

lemma idx_checks:
  assumes "idx_ok im"
  shows "idx_checkNoOverlappedAndSorted im = Inr ()"
    and "\<forall>r \<in> set (idx_getAsVec im). irec_verify r True = Inr ()
      \<and> isAlignedIo (ir_io_address r) (ir_io_blocks r) = Inr True"
  using assms idx.check_sorted_ok [of "idx_index im" None]
  by (auto simp: idx_ok_def idx_checkNoOverlappedAndSorted_def idx_getAsVec_def
      irec_endIoAddress_def [abs_def] idx.map_ok_def irec_ok_def)

text \<open>
  C22: Adding records to the index of a wdiff never fails: no assertion fails, the \<open>BUG\<close> branch of
  \<open>minus\<close> is not reached and no record that the index creates fails its own verification. The index
  refines the map from logical blocks to places in the compressed images, each added record
  overwriting the blocks of its range; in the end the records are aligned, sorted, free of overlaps
  and verify.
\<close>

theorem idx_add_all_refines:
  assumes "idx_ok im" and "\<forall>r \<in> set rs. irec_arg_ok r"
  shows "\<exists>im'. idx_add_all rs im = Inr im' \<and> idx_ok im'
    \<and> idx_view im' = foldl (\<lambda>m r. m ++ irec_view r) (idx_view im) rs
    \<and> idx_checkNoOverlappedAndSorted im' = Inr ()
    \<and> (\<forall>r \<in> set (idx_getAsVec im'). irec_verify r True = Inr ()
         \<and> isAlignedIo (ir_io_address r) (ir_io_blocks r) = Inr True)"
  using assms
proof (induction rs arbitrary: im)
  case Nil
  then show ?case using idx_checks [of im] by simp
next
  case (Cons r rs)
  obtain w where w: "irec_split r (idx_maxIoBlocks im) = Inr w" "\<forall>p \<in> set w. irec_ok p" "idx.disjoint w"
    "idx.views w = idx.item r"
    using irec_split_ok [of r "idx_maxIoBlocks im"] Cons.prems(2) by (auto simp: irec_arg_ok_def)
  then obtain im1 where "idx_add r im = Inr im1" "idx_ok im1" "idx_view im1 = idx_view im ++ irec_view r"
    using idx_add_loop_ok [OF Cons.prems(1) w(2,3)] by (auto simp: idx_add_def irec_view_def)
  then show ?case using Cons.IH [of im1] Cons.prems(2) by simp
qed

definition sample_irec :: "u64 \<Rightarrow> u32 \<Rightarrow> walb_indexed_diff_record" where
  "sample_irec a n = \<lparr>ir_io_address = a, ir_io_blocks = n, ir_flags = 0, ir_compression_type = 2,
     ir_reserved1 = 0, ir_data_offset = 32, ir_data_size = 700, ir_io_offset = 0, ir_orig_blocks = n,
     ir_reserved2 = 0, ir_io_checksum = 5, ir_rec_checksum = 0\<rparr>"

theorem idx_add_all_refines_witness:
  "\<exists>im'. idx_add_all [sample_irec 6 20, sample_irec 9 1] \<lparr>idx_index = [], idx_maxIoBlocks = 8\<rparr> = Inr im' \<and> idx_ok im'
    \<and> idx_view im' = foldl (\<lambda>m r. m ++ irec_view r) (idx_view \<lparr>idx_index = [], idx_maxIoBlocks = 8\<rparr>)
        [sample_irec 6 20, sample_irec 9 1]
    \<and> idx_checkNoOverlappedAndSorted im' = Inr ()
    \<and> (\<forall>r \<in> set (idx_getAsVec im'). irec_verify r True = Inr ()
         \<and> isAlignedIo (ir_io_address r) (ir_io_blocks r) = Inr True)"
  by (rule idx_add_all_refines)
    (simp_all add: idx_ok_def idx.map_ok_def irec_arg_ok_def irec_flags_ok_def sample_irec_def
      irec_isNormal_def irec_isAllZero_def irec_isDiscard_def WALB_DIFF_CMPR_MAX_def)

end
