(* ===== verification/Diff_Mem_Laws.thy ===== *)
theory Diff_Mem_Laws
  imports Diff_Mem
begin

text \<open>
  What the diff in memory guarantees: the difference of two IOs keeps exactly the blocks that are
  not overwritten, adding an IO overwrites its blocks and no other, the map stays sorted and free
  of overlaps, and the counters. The locales of ordered maps are interpreted on \<open>DiffRecIo\<close>.
\<close>

section \<open>Blocks of an IO\<close>

datatype diff_block = Zero_Block | Discard_Block | Data_Block "u8 list"

definition rio_block :: "DiffRecIo \<Rightarrow> nat \<Rightarrow> diff_block" where
  "rio_block r a =
     (if rec_isNormal (rio_rec r)
      then Data_Block (take 512 (drop (512 * (a - unat (rio_addr r))) (rio_io r)))
      else if rec_isDiscard (rio_rec r) then Discard_Block else Zero_Block)"

definition rio_ok :: "DiffRecIo \<Rightarrow> bool" where
  "rio_ok r \<longleftrightarrow> 0 < unat (rio_blocks r) \<and> unat (rio_addr r) + unat (rio_blocks r) < 2 ^ 64
     \<and> \<not> rec_isCompressed (rio_rec r) \<and> rec_verify (rio_rec r) = Inr () \<and> rio_isValid r False
     \<and> (if rec_isNormal (rio_rec r) then length (rio_io r) = 512 * unat (rio_blocks r)
         else dr_data_size (rio_rec r) = 0)"

interpretation rio: range_items rio_addr rio_blocks rio_ok rio_block
  by standard (auto simp: rio_ok_def)

lemma rio_overlap:
  "rio_ok r \<Longrightarrow> rio_ok s \<Longrightarrow> rec_isOverlapped (rio_rec r) (rio_rec s) \<longleftrightarrow> rio.rng r \<inter> rio.rng s \<noteq> {}"
  using rio.overlapped_iff [of r s] by (simp add: rec_isOverlapped_def rio_addr_def rio_blocks_def)

lemma rio_overwrite:
  "rio_ok r \<Longrightarrow> rio_ok s \<Longrightarrow> rec_isOverwrittenBy (rio_rec r) (rio_rec s) \<longleftrightarrow> rio.rng r \<subseteq> rio.rng s"
  using rio.overwritten_iff [of r s] by (simp add: rec_isOverwrittenBy_def rio_addr_def rio_blocks_def)

lemma unat_end_rec: "rio_ok r \<Longrightarrow> unat (rec_endIoAddress (rio_rec r)) = unat (rio_addr r) + unat (rio_blocks r)"
  using rio.unat_end [of r] by (simp add: rec_endIoAddress_def rio_addr_def rio_blocks_def)

lemma flags_update [simp]:
  "rec_isNormal (rec\<lparr>dr_io_address := a\<rparr>) = rec_isNormal rec"
  "rec_isNormal (rec\<lparr>dr_io_blocks := n\<rparr>) = rec_isNormal rec"
  "rec_isNormal (rec\<lparr>dr_data_size := k\<rparr>) = rec_isNormal rec"
  "rec_isDiscard (rec\<lparr>dr_io_address := a\<rparr>) = rec_isDiscard rec"
  "rec_isDiscard (rec\<lparr>dr_io_blocks := n\<rparr>) = rec_isDiscard rec"
  "rec_isDiscard (rec\<lparr>dr_data_size := k\<rparr>) = rec_isDiscard rec"
  "rec_isCompressed (rec\<lparr>dr_io_address := a\<rparr>) = rec_isCompressed rec"
  "rec_isCompressed (rec\<lparr>dr_io_blocks := n\<rparr>) = rec_isCompressed rec"
  "rec_isCompressed (rec\<lparr>dr_data_size := k\<rparr>) = rec_isCompressed rec"
  "rec_verify (rec\<lparr>dr_io_address := a\<rparr>) = rec_verify rec"
  "rec_verify (rec\<lparr>dr_data_size := k\<rparr>) = rec_verify rec"
  "n \<noteq> 0 \<Longrightarrow> rec_verify rec = Inr () \<Longrightarrow> rec_verify (rec\<lparr>dr_io_blocks := n\<rparr>) = Inr ()"
  by (auto simp: rec_isNormal_def rec_isAllZero_def rec_isDiscard_def rec_isCompressed_def rec_verify_def split: if_splits)

text \<open>The part of an IO that covers \<open>n\<close> blocks from \<open>x\<close>.\<close>

definition cut :: "DiffRecIo \<Rightarrow> u64 \<Rightarrow> u32 \<Rightarrow> u32 \<Rightarrow> DiffRecIo" where
  "cut r x n sz =
     \<lparr>rio_rec = rio_rec r\<lparr>dr_io_address := x, dr_io_blocks := n, dr_data_size := sz\<rparr>,
      rio_io = take (512 * unat n) (drop (512 * (unat x - unat (rio_addr r))) (rio_io r))\<rparr>"

lemma length_cut:
  assumes "rio_ok r" and "rec_isNormal (rio_rec r)" and "unat (rio_addr r) \<le> unat x"
    and "unat x + unat n \<le> unat (rio_addr r) + unat (rio_blocks r)"
  shows "length (rio_io (cut r x n sz)) = 512 * unat n"
  using assms by (auto simp: cut_def rio_ok_def min_def)

lemma cut_ok:
  assumes r: "rio_ok r" and n: "0 < unat n" and x: "unat (rio_addr r) \<le> unat x"
    "unat x + unat n \<le> unat (rio_addr r) + unat (rio_blocks r)"
    and sz: "rec_isNormal (rio_rec r) \<Longrightarrow> unat sz = 512 * unat n" "\<not> rec_isNormal (rio_rec r) \<Longrightarrow> sz = 0"
  shows "rio_ok (cut r x n sz)"
    and "rio.item (cut r x n sz) = rio.item r |` {unat x ..< unat x + unat n}"
    and "rio_new (rio_rec (cut r x n sz)) (rio_io (cut r x n sz)) = Inr (cut r x n sz)"
proof -
  have io: "\<not> rec_isNormal (rio_rec r) \<Longrightarrow> rio_io r = []" using r by (simp add: rio_ok_def rio_isValid_def)
  have valid: "rio_isValid (cut r x n sz) False"
    using sz(1) length_cut [OF r _ x, of sz] io by (auto simp: rio_isValid_def cut_def)
  have nz: "n \<noteq> 0" using n by auto
  show ok: "rio_ok (cut r x n sz)"
    using valid nz r n x sz(2) length_cut [OF r _ x, of sz] by (simp add: rio_ok_def cut_def rio_blocks_def rio_addr_def)
  show "rio_new (rio_rec (cut r x n sz)) (rio_io (cut r x n sz)) = Inr (cut r x n sz)"
    using valid io by (auto simp: rio_new_def cut_def Let_def)
  have blk: "rio_block (cut r x n sz) a = rio_block r a" if "a \<in> {unat x ..< unat x + unat n}" for a
  proof -
    have "512 * (a - unat x) + 512 \<le> 512 * unat n" using that by auto
    moreover have "512 * (unat x - unat (rio_addr r)) + 512 * (a - unat x) = 512 * (a - unat (rio_addr r))"
      using that x(1) by auto
    ultimately show ?thesis
      by (simp add: rio_block_def cut_def rio_addr_def drop_take drop_drop add.commute min_def)
  qed
  have "rio.rng (cut r x n sz) = {unat x ..< unat x + unat n}"
    by (simp add: rio.rng_def cut_def rio_addr_def rio_blocks_def)
  moreover have "{unat x ..< unat x + unat n} \<subseteq> rio.rng r" using x by (auto simp: rio.rng_def)
  ultimately show "rio.item (cut r x n sz) = rio.item r |` {unat x ..< unat x + unat n}"
    using blk by (auto simp: rio.item_def restrict_map_def fun_eq_iff)
qed

lemma rio_part_cut:
  assumes "rio_ok r" and "unat (rio_addr r) \<le> unat x"
    and "unat x + unat n \<le> unat (rio_addr r) + unat (rio_blocks r)"
    and "rec_isNormal (rio_rec r) \<Longrightarrow> unat sz = 512 * unat n" "\<not> rec_isNormal (rio_rec r) \<Longrightarrow> sz = 0"
  shows "\<exists>v. rio_part n (rio_rec (cut r x n sz)) (rio_io (cut r x n sz)) = Inr v \<and> (\<forall>p \<in> set v. rio_ok p)
    \<and> rio.disjoint v \<and> rio.views v = rio.item r |` {unat x ..< unat x + unat n}"
proof (cases "n = 0")
  case True
  then show ?thesis by (simp add: rio_part_def rio.disjoint_def)
next
  case False
  then have n: "0 < unat n" by (simp add: unat_gt_0)
  show ?thesis
    using cut_ok [OF assms(1) n assms(2-5)] False
    by (simp add: rio_part_def rio.disjoint_def word_gt_0)
qed

lemma normal_size:
  assumes "rio_ok r" and "rec_isNormal (rio_rec r)"
  shows "unat (dr_data_size (rio_rec r)) = 512 * unat (rio_blocks r)"
    and "512 * unat (rio_blocks r) < 4294967296"
    and "length (rio_io r) = 512 * unat (rio_blocks r)"
proof -
  show d: "unat (dr_data_size (rio_rec r)) = 512 * unat (rio_blocks r)"
    and "length (rio_io r) = 512 * unat (rio_blocks r)"
    using assms by (auto simp: rio_ok_def rio_isValid_def split: if_splits)
  have "unat (dr_data_size (rio_rec r)) < 4294967296" by simp
  then show "512 * unat (rio_blocks r) < 4294967296" by (simp only: d)
qed

lemma unat_lb_bytes: "unat n * 512 < 4294967296 \<Longrightarrow> unat ((n :: u32) * LOGICAL_BLOCK_SIZE) = 512 * unat n"
  by (simp add: LOGICAL_BLOCK_SIZE_eq unat_mult_small)

lemma unat_lb_bytes64:
  "unat x * 512 < 18446744073709551616 \<Longrightarrow> unat ((x :: u64) * ucast LOGICAL_BLOCK_SIZE) = 512 * unat x"
  by (simp add: LOGICAL_BLOCK_SIZE_eq unat_mult_small)

section \<open>The difference of two IOs\<close>

lemma rio_minus_inner_ok:
  assumes r: "rio_ok r" and s: "rio_ok s" and sub: "rio.rng s \<subseteq> rio.rng r"
  shows "\<exists>v. rio_minus_inner r s = Inr v \<and> (\<forall>p \<in> set v. rio_ok p) \<and> rio.disjoint v
    \<and> rio.views v = rio.item r |` (- rio.rng s)"
proof -
  let ?a = "unat (rio_addr r)" and ?n = "unat (rio_blocks r)" and ?b = "unat (rio_addr s)" and ?m = "unat (rio_blocks s)"
  have pos: "0 < ?m" using s by (simp add: rio_ok_def)
  have le: "?a \<le> ?b" "?b + ?m \<le> ?a + ?n" using sub pos by (auto simp: rio.rng_def ivl_subset)
  have n32: "?n < 4294967296" by simp
  define bl :: u32 where "bl = ucast (dr_io_address (rio_rec s) - dr_io_address (rio_rec r))"
  define br :: u32 where "br = ucast (rec_endIoAddress (rio_rec r) - rec_endIoAddress (rio_rec s))"
  define ad where "ad = rec_endIoAddress (rio_rec r) - ucast br"
  define N where "N = rec_isNormal (rio_rec r)"
  define sl where "sl = (if N then unat (bl * LOGICAL_BLOCK_SIZE) else 0)"
  define sr where "sr = (if N then unat (br * LOGICAL_BLOCK_SIZE) else 0)"
  have bl: "unat bl = ?b - ?a"
    using le n32 unfolding bl_def
    by (subst unat_ucast_64_32) (simp_all add: unat_sub_le word_le_nat_alt rio_addr_def del: unat_lt32)
  have e: "unat (rec_endIoAddress (rio_rec r)) = ?a + ?n" "unat (rec_endIoAddress (rio_rec s)) = ?b + ?m"
    using unat_end_rec r s by blast+
  have br: "unat br = ?a + ?n - (?b + ?m)"
    using le n32 e unfolding br_def
    by (subst unat_ucast_64_32) (simp_all add: unat_sub_le word_le_nat_alt del: unat_lt32)
  have ad: "unat ad = ?b + ?m"
    using le e br by (simp add: ad_def unat_sub_le word_le_nat_alt)
  have sz: "sl = (if N then 512 * unat bl else 0)" "sr = (if N then 512 * unat br else 0)"
    using normal_size [OF r] le bl br by (auto simp: sl_def sr_def N_def unat_lb_bytes)
  have small: "sl < 4294967296" "sr < 4294967296"
    by (simp_all add: sl_def sr_def)
  have sn: "unat (of_nat sl :: u32) = sl" "unat (of_nat sr :: u32) = sr"
    using small by (simp_all add: unat_of_nat)
  let ?c0 = "cut r (rio_addr r) bl (of_nat sl)" and ?c1 = "cut r ad br (of_nat sr)"
  obtain v where v: "rio_part bl (rio_rec ?c0) (rio_io ?c0) = Inr v" "\<forall>p \<in> set v. rio_ok p" "rio.disjoint v"
    "rio.views v = rio.item r |` {?a ..< ?b}"
    using rio_part_cut [OF r, of "rio_addr r" bl "of_nat sl"] bl le sn(1) sz(1) N_def by auto
  obtain w where w: "rio_part br (rio_rec ?c1) (rio_io ?c1) = Inr w" "\<forall>p \<in> set w. rio_ok p" "rio.disjoint w"
    "rio.views w = rio.item r |` {?b + ?m ..< ?a + ?n}"
    using rio_part_cut [OF r, of ad br "of_nat sr"] ad br le sn(2) sz(2) N_def by auto
  have data: "(if N then
       let off1 = unat ((ad - dr_io_address (rio_rec r)) * ucast LOGICAL_BLOCK_SIZE) in
       ensure (sl + unat (dr_io_blocks (rio_rec s) * LOGICAL_BLOCK_SIZE) + sr = unat (dr_data_size (rio_rec r)))
         Assert_Failed
         (res_bind (read_at (rio_io r) 0 sl) (\<lambda>data0.
          res_bind (read_at (rio_io r) off1 sr) (\<lambda>data1. Inr (data0, data1))))
     else Inr ([], [])) = Inr (rio_io ?c0, rio_io ?c1)"
  proof (cases N)
    case True
    note ns = normal_size [OF r True [unfolded N_def]]
    have "unat (dr_io_blocks (rio_rec s) * LOGICAL_BLOCK_SIZE) = 512 * ?m"
      using ns le by (simp add: unat_lb_bytes rio_blocks_def)
    moreover have "unat (ad - dr_io_address (rio_rec r)) = ?b + ?m - ?a"
      using ad le by (simp add: unat_sub_le word_le_nat_alt rio_addr_def)
    moreover have "unat ((ad - dr_io_address (rio_rec r)) * ucast LOGICAL_BLOCK_SIZE) = 512 * (?b + ?m - ?a)"
      using calculation(2) ns le by (subst unat_lb_bytes64) simp_all
    ultimately show ?thesis
      using True ns le sz bl br ad by (simp add: Let_def cut_def algebra_simps)
  next
    case False
    then show ?thesis using r by (simp add: cut_def N_def rio_ok_def rio_isValid_def)
  qed
  have "rio_minus_inner r s = res_bind (if N then
       let off1 = unat ((ad - dr_io_address (rio_rec r)) * ucast LOGICAL_BLOCK_SIZE) in
       ensure (sl + unat (dr_io_blocks (rio_rec s) * LOGICAL_BLOCK_SIZE) + sr = unat (dr_data_size (rio_rec r)))
         Assert_Failed
         (res_bind (read_at (rio_io r) 0 sl) (\<lambda>data0.
          res_bind (read_at (rio_io r) off1 sr) (\<lambda>data1. Inr (data0, data1))))
     else Inr ([], []))
     (\<lambda>(d0, d1). res_bind (rio_part bl (rio_rec ?c0) d0) (\<lambda>v0.
        res_bind (rio_part br (rio_rec ?c1) d1) (\<lambda>v1. Inr (v0 @ v1))))"
    by (simp only: rio_minus_inner_def Let_def bl_def br_def ad_def N_def sl_def sr_def cut_def
        DiffRecIo.select_convs rio_addr_def)
  then have "rio_minus_inner r s = Inr (v @ w)"
    by (simp only: data res_bind.simps prod.case v(1) w(1))
  moreover have "(\<Union>p \<in> set v. rio.rng p) \<subseteq> {?a ..< ?b}" "(\<Union>p \<in> set w. rio.rng p) \<subseteq> {?b + ?m ..< ?a + ?n}"
    using arg_cong [OF v(4), of dom] arg_cong [OF w(4), of dom] by (simp_all add: rio.dom_views)
  then have "rio.rng p \<inter> rio.rng t = {}" if "p \<in> set v" "t \<in> set w" for p t
    using that by fastforce
  then have "rio.disjoint (v @ w)" using v(3) w(3) by (simp add: rio.disjoint_append)
  moreover have "rio.views (v @ w) = rio.item r |` (- rio.rng s)"
    using le by (auto simp: rio.views_append v(4) w(4) map_add_def restrict_map_def fun_eq_iff rio.item_def
        rio.rng_def split: option.splits)
  ultimately show ?thesis using v(2) w(2) by (intro exI [of _ "v @ w"]) auto
qed

lemma rio_minus_tail_ok:
  assumes r: "rio_ok r" and s: "rio_ok s" and ov: "rio.rng r \<inter> rio.rng s \<noteq> {}"
    and lt: "unat (rio_addr r) < unat (rio_addr s)" and ns: "\<not> rio.rng s \<subseteq> rio.rng r"
  shows "\<exists>v. rio_minus_tail r s = Inr v \<and> (\<forall>p \<in> set v. rio_ok p) \<and> rio.disjoint v
    \<and> rio.views v = rio.item r |` (- rio.rng s)"
proof -
  let ?a = "unat (rio_addr r)" and ?n = "unat (rio_blocks r)" and ?b = "unat (rio_addr s)" and ?m = "unat (rio_blocks s)"
  have le: "?b < ?a + ?n" "?a + ?n \<le> ?b + ?m" using ov lt ns by (auto simp: rio.rng_def)
  have n32: "?n < 4294967296" by simp
  define N where "N = rec_isNormal (rio_rec r)"
  define bl :: u32 where "bl = ucast (rec_endIoAddress (rio_rec r) - dr_io_address (rio_rec s))"
  define kp where "kp = dr_io_blocks (rio_rec r) - bl"
  have e: "unat (rec_endIoAddress (rio_rec r)) = ?a + ?n" using unat_end_rec r by blast
  have sub: "unat (rec_endIoAddress (rio_rec r) - dr_io_address (rio_rec s)) = ?a + ?n - ?b"
    using le e by (simp add: unat_sub_le word_le_nat_alt rio_addr_def)
  have bl: "unat bl = ?a + ?n - ?b"
    using le lt n32 sub unfolding bl_def by (subst unat_ucast_64_32) (simp_all del: unat_lt32)
  have kp: "unat kp = ?b - ?a"
    using le lt bl by (simp add: kp_def unat_sub_le word_le_nat_alt rio_blocks_def)
  have end64: "?a + ?n < 18446744073709551616" using r by (simp add: rio_ok_def)
  have asserts: "dr_io_address (rio_rec s) < rec_endIoAddress (rio_rec r)"
    "dr_io_address (rio_rec s) + ucast bl = rec_endIoAddress (rio_rec r)"
    "rec_endIoAddress (rio_rec r\<lparr>dr_io_blocks := kp\<rparr>) = dr_io_address (rio_rec s)"
    using le lt e bl kp end64
    by (simp_all add: word_less_nat_alt unat_eq_iff_nat unat_add_small rec_endIoAddress_def rio_addr_def)
  define k where "k = 512 * unat kp"
  define sz :: u32 where "sz = (if N then of_nat k else dr_data_size (rio_rec r))"
  have szn: "unat sz = 512 * unat kp" if "N"
  proof -
    have "k < 4294967296" using normal_size(2) [OF r] that le lt kp by (simp add: N_def k_def)
    then show ?thesis using that by (simp add: sz_def unat_of_nat_u32) (simp add: k_def)
  qed
  have sz0: "\<not> N \<Longrightarrow> sz = 0" using r by (simp add: sz_def N_def rio_ok_def)
  let ?c = "cut r (rio_addr r) kp sz"
  have c: "rio_ok ?c" "rio.item ?c = rio.item r |` {?a ..< ?b}" "rio_new (rio_rec ?c) (rio_io ?c) = Inr ?c"
    using cut_ok [OF r, of kp "rio_addr r" sz] kp lt le szn sz0 N_def by auto
  have rc: "rio_rec ?c = rio_rec r\<lparr>dr_io_blocks := kp, dr_data_size := sz\<rparr>"
    by (simp add: cut_def rio_addr_def)
  have "rio_minus_tail r s = Inr [?c]"
  proof (cases N)
    case True
    note z = normal_size [OF r True [unfolded N_def]]
    have "unat (bl * LOGICAL_BLOCK_SIZE) = 512 * (?a + ?n - ?b)"
      using z(2) le lt bl by (subst unat_lb_bytes) simp_all
    moreover have "512 * ?n - 512 * (?a + ?n - ?b) = k" using le lt kp by (simp add: k_def)
    moreover have "512 * (?a + ?n - ?b) \<le> 512 * ?n" using lt by simp
    ultimately have ss: "size_sub (length (rio_io r)) (unat (bl * LOGICAL_BLOCK_SIZE)) = Inr k"
      using z(3) by (simp only: size_sub_def ensure_True)
    have rd: "read_at (rio_io r) 0 k = Inr (rio_io ?c)"
      using z(3) kp le lt by (simp add: cut_def k_def)
    have "unat (dr_data_size (rio_rec r)) = length (rio_io r)" using z by simp
    then show ?thesis
      using True asserts c(3) rc ss rd
      by (simp add: rio_minus_tail_def Let_def N_def bl_def [symmetric] kp_def [symmetric] sz_def)
  next
    case False
    then have io: "rio_io r = []" using r by (simp add: N_def rio_ok_def rio_isValid_def)
    then have "rio_io ?c = []" by (simp add: cut_def)
    then have "rio_new (rio_rec r\<lparr>dr_io_blocks := kp\<rparr>) [] = Inr ?c" using c(3) rc False by (simp add: sz_def)
    then show ?thesis
      using False asserts
      by (simp add: rio_minus_tail_def Let_def N_def bl_def [symmetric] kp_def [symmetric])
  qed
  moreover have "rio.views [?c] = rio.item r |` (- rio.rng s)"
    using c(2) le lt by (auto simp: rio.rng_def rio.item_def restrict_map_def fun_eq_iff)
  ultimately show ?thesis using c(1) by (simp add: rio.disjoint_def)
qed

lemma rio_minus_head_ok:
  assumes r: "rio_ok r" and s: "rio_ok s" and ov: "rio.rng r \<inter> rio.rng s \<noteq> {}"
    and ge: "unat (rio_addr s) \<le> unat (rio_addr r)" and ns: "\<not> rio.rng r \<subseteq> rio.rng s"
  shows "\<exists>v. rio_minus_head r s = Inr v \<and> (\<forall>p \<in> set v. rio_ok p) \<and> rio.disjoint v
    \<and> rio.views v = rio.item r |` (- rio.rng s)"
proof -
  let ?a = "unat (rio_addr r)" and ?n = "unat (rio_blocks r)" and ?b = "unat (rio_addr s)" and ?m = "unat (rio_blocks s)"
  have le: "?a < ?b + ?m" "?b + ?m < ?a + ?n" using ov ge ns by (auto simp: rio.rng_def)
  have n32: "?n < 4294967296" by simp
  define N where "N = rec_isNormal (rio_rec r)"
  define bl :: u32 where "bl = ucast (rec_endIoAddress (rio_rec s) - dr_io_address (rio_rec r))"
  define kp where "kp = dr_io_blocks (rio_rec r) - bl"
  define ad where "ad = dr_io_address (rio_rec r) + ucast bl"
  have e: "unat (rec_endIoAddress (rio_rec s)) = ?b + ?m" using unat_end_rec s by blast
  have sub: "unat (rec_endIoAddress (rio_rec s) - dr_io_address (rio_rec r)) = ?b + ?m - ?a"
    using le e by (simp add: unat_sub_le word_le_nat_alt rio_addr_def)
  have bl: "unat bl = ?b + ?m - ?a"
    using le n32 sub unfolding bl_def by (subst unat_ucast_64_32) (simp_all del: unat_lt32)
  have kp: "unat kp = ?a + ?n - (?b + ?m)"
    using le bl by (simp add: kp_def unat_sub_le word_le_nat_alt rio_blocks_def)
  have end64: "?b + ?m < 18446744073709551616" using s by (simp add: rio_ok_def)
  have ad: "unat ad = ?b + ?m"
    using le bl end64 by (simp add: ad_def unat_add_small rio_addr_def)
  have asserts: "dr_io_address (rio_rec r) < rec_endIoAddress (rio_rec s)"
    "dr_io_address (rio_rec r) + ucast bl = rec_endIoAddress (rio_rec s)" "rec_endIoAddress (rio_rec s) = ad"
    using le e ad by (simp_all add: word_less_nat_alt unat_eq_iff_nat rio_addr_def ad_def [symmetric])
  define k where "k = 512 * unat kp"
  define sz :: u32 where "sz = (if N then of_nat k else dr_data_size (rio_rec r))"
  have szn: "unat sz = 512 * unat kp" if "N"
  proof -
    have "k < 4294967296" using normal_size(2) [OF r] that le kp by (simp add: N_def k_def)
    then show ?thesis using that by (simp add: sz_def unat_of_nat_u32) (simp add: k_def)
  qed
  have sz0: "\<not> N \<Longrightarrow> sz = 0" using r by (simp add: sz_def N_def rio_ok_def)
  let ?c = "cut r ad kp sz"
  have c: "rio_ok ?c" "rio.item ?c = rio.item r |` {?b + ?m ..< ?a + ?n}" "rio_new (rio_rec ?c) (rio_io ?c) = Inr ?c"
    using cut_ok [OF r, of kp ad sz] kp ad le szn sz0 N_def by auto
  have rc: "rio_rec ?c = rio_rec r\<lparr>dr_io_address := ad, dr_io_blocks := kp, dr_data_size := sz\<rparr>"
    by (simp add: cut_def)
  have "rio_minus_head r s = Inr [?c]"
  proof (cases N)
    case True
    note z = normal_size [OF r True [unfolded N_def]]
    have "unat (bl * LOGICAL_BLOCK_SIZE) = 512 * (?b + ?m - ?a)"
      using z(2) le bl by (subst unat_lb_bytes) simp_all
    moreover have "512 * ?n - 512 * (?b + ?m - ?a) = k" using le kp by (simp add: k_def)
    moreover have "512 * (?b + ?m - ?a) \<le> 512 * ?n" using le by simp
    ultimately have ss: "size_sub (length (rio_io r)) (unat (bl * LOGICAL_BLOCK_SIZE)) = Inr k"
      using z(3) by (simp only: size_sub_def ensure_True)
    have rd: "read_at (rio_io r) (unat (bl * LOGICAL_BLOCK_SIZE)) k = Inr (rio_io ?c)"
      using z(2,3) kp le bl ad by (simp add: cut_def k_def unat_lb_bytes)
    have "unat (dr_data_size (rio_rec r)) = length (rio_io r)" using z by simp
    then show ?thesis
      using True asserts(1) c(3) rc ss rd
      by (simp add: rio_minus_head_def Let_def N_def bl_def [symmetric] kp_def [symmetric]
          ad_def [symmetric] sz_def eqTrueI [OF asserts(3)] eqTrueI [OF asserts(3) [symmetric]])
  next
    case False
    then have io: "rio_io r = []" using r by (simp add: N_def rio_ok_def rio_isValid_def)
    then have "rio_io ?c = []" by (simp add: cut_def)
    then have "rio_new (rio_rec r\<lparr>dr_io_address := ad, dr_io_blocks := kp\<rparr>) [] = Inr ?c"
      using c(3) rc False by (simp add: sz_def)
    then show ?thesis
      using False asserts(1)
      by (simp add: rio_minus_head_def Let_def N_def bl_def [symmetric] kp_def [symmetric] ad_def [symmetric]
          eqTrueI [OF asserts(3)] eqTrueI [OF asserts(3) [symmetric]])
  qed
  moreover have "rio.views [?c] = rio.item r |` (- rio.rng s)"
    using c(2) le ge by (auto simp: rio.rng_def rio.item_def restrict_map_def fun_eq_iff)
  ultimately show ?thesis using c(1) by (simp add: rio.disjoint_def)
qed

interpretation rio: range_minus rio_addr rio_blocks rio_ok rio_block rio_minus
proof
  fix r s
  assume r: "rio_ok r" and s: "rio_ok s" and ov: "rio.rng r \<inter> rio.rng s \<noteq> {}"
  have valid: "rio_isValid r False" "rio_isValid s False" using r s by (simp_all add: rio_ok_def)
  have o: "rec_isOverlapped (rio_rec r) (rio_rec s)" using rio_overlap [OF r s] ov by blast
  note w = rio_overwrite [OF r s] rio_overwrite [OF s r]
  show "\<exists>v. rio_minus r s = Inr v \<and> (\<forall>p \<in> set v. rio_ok p) \<and> rio.disjoint v
      \<and> rio.views v = rio.item r |` (- rio.rng s)"
  proof (cases "rio.rng r \<subseteq> rio.rng s")
    case True
    then have "rio_minus r s = Inr []" using valid o w by (simp add: rio_minus_def)
    moreover have "rio.item r |` (- rio.rng s) = Map.empty"
      using True by (auto simp: rio.item_def restrict_map_def fun_eq_iff)
    ultimately show ?thesis by (simp add: rio.disjoint_def)
  next
    case nr: False
    show ?thesis
    proof (cases "rio.rng s \<subseteq> rio.rng r")
      case True
      then have "rio_minus r s = rio_minus_inner r s" using valid o w nr by (simp add: rio_minus_def)
      then show ?thesis using rio_minus_inner_ok [OF r s True] by simp
    next
      case False
      then have "rio_minus r s =
          (if unat (rio_addr r) < unat (rio_addr s) then rio_minus_tail r s else rio_minus_head r s)"
        using valid o w nr by (simp add: rio_minus_def word_less_nat_alt rio_addr_def)
      then show ?thesis
        using rio_minus_tail_ok [OF r s ov _ False] rio_minus_head_ok [OF r s ov _ nr] by (simp add: not_less)
    qed
  qed
qed

section \<open>Dividing an IO\<close>

definition split_ios :: "DiffRecIo \<Rightarrow> u32 \<Rightarrow> u64 \<Rightarrow> u32 \<Rightarrow> u8 list list res option" where
  "split_ios r n x rem =
     (if rec_isNormal (rio_rec r)
      then splitIoData_loop n rem (drop (512 * (unat x - unat (rio_addr r))) (rio_io r))
      else Some (Inr (replicate (length (splitAll_loop (rio_rec r) n x rem)) [])))"

lemma split_pieces:
  assumes "rio_ok r" and "n \<noteq> 0" and "unat (rio_addr r) \<le> unat x"
    and "unat x + unat rem = unat (rio_addr r) + unat (rio_blocks r)"
  shows "\<exists>ioV v. split_ios r n x rem = Some (Inr ioV)
    \<and> length ioV = length (splitAll_loop (rio_rec r) n x rem)
    \<and> rio_new_all (splitAll_loop (rio_rec r) n x rem) ioV = Inr v
    \<and> (\<forall>p \<in> set v. rio_ok p \<and> rio_blocks p \<le> n) \<and> rio.disjoint v
    \<and> rio.views v = rio.item r |` {unat x ..< unat x + unat rem}
    \<and> sum_list (map (\<lambda>p. unat (rio_blocks p)) v) = unat rem \<and> length v \<le> unat rem"
  using assms(3,4)
proof (induction "unat rem" arbitrary: x rem rule: less_induct)
  case less
  let ?L = "splitAll_loop (rio_rec r) n"
  show ?case
  proof (cases "rem = 0")
    case True
    then have "?L x rem = []" by (simp add: splitAll_loop.simps)
    then show ?thesis
      using True by (simp add: split_ios_def splitIoData_loop.simps rio.disjoint_def)
  next
    case False
    define bl where "bl = min n rem"
    have bl: "0 < unat bl" "unat bl \<le> unat rem" "bl \<le> n"
      using False assms(2) by (auto simp: bl_def min_def unat_gt_0 word_le_nat_alt)
    have bl4: "min rem n = bl" by (simp add: bl_def min.commute)
    have rem: "unat (rem - bl) = unat rem - unat bl" using bl(2) by (simp add: unat_sub_le word_le_nat_alt)
    have "unat x + unat rem < 18446744073709551616" using assms(1) less.prems(2) by (simp add: rio_ok_def)
    then have x: "unat (x + ucast bl) = unat x + unat bl" using bl(2) by (simp add: unat_add_small)
    define sz where "sz = (if rec_isNormal (rio_rec r) then bl * LOGICAL_BLOCK_SIZE else dr_data_size (rio_rec r))"
    have szn: "unat sz = 512 * unat bl" if "rec_isNormal (rio_rec r)"
      using normal_size [OF assms(1) that] that bl less.prems by (simp add: sz_def unat_lb_bytes)
    have sz0: "\<not> rec_isNormal (rio_rec r) \<Longrightarrow> sz = 0" using assms(1) by (simp add: sz_def rio_ok_def)
    let ?c = "cut r x bl sz"
    have c: "rio_ok ?c" "rio.item ?c = rio.item r |` {unat x ..< unat x + unat bl}"
      "rio_new (rio_rec ?c) (rio_io ?c) = Inr ?c"
      using cut_ok [OF assms(1) bl(1) less.prems(1)] less.prems(2) bl(2) szn sz0 by auto
    have L: "?L x rem = rio_rec ?c # ?L (x + ucast bl) (rem - bl)"
      using False assms(2)
      by (simp add: splitAll_loop.simps [of _ n x rem] bl_def word_gt_0 Let_def cut_def sz_def)
    obtain ioV v where IH: "split_ios r n (x + ucast bl) (rem - bl) = Some (Inr ioV)"
      "length ioV = length (?L (x + ucast bl) (rem - bl))"
      "rio_new_all (?L (x + ucast bl) (rem - bl)) ioV = Inr v"
      "\<forall>p \<in> set v. rio_ok p \<and> rio_blocks p \<le> n" "rio.disjoint v"
      "rio.views v = rio.item r |` {unat (x + ucast bl) ..< unat (x + ucast bl) + unat (rem - bl)}"
      "sum_list (map (\<lambda>p. unat (rio_blocks p)) v) = unat (rem - bl)" "length v \<le> unat (rem - bl)"
      using less.hyps [of "rem - bl" "x + ucast bl"] rem x bl less.prems by auto
    have ios: "split_ios r n x rem = Some (Inr (rio_io ?c # ioV))"
    proof (cases "rec_isNormal (rio_rec r)")
      case True
      let ?p = "drop (512 * (unat x - unat (rio_addr r))) (rio_io r)"
      have byt: "unat (bl * LOGICAL_BLOCK_SIZE) = 512 * unat bl"
        using szn [OF True] True by (simp add: sz_def)
      have rd: "read_at ?p 0 (512 * unat bl) = Inr (rio_io ?c)"
        using normal_size(3) [OF assms(1) True] less.prems bl(2) by (simp add: cut_def)
      have nxt: "drop (512 * unat bl) ?p = drop (512 * (unat (x + ucast bl) - unat (rio_addr r))) (rio_io r)"
        using less.prems(1) x by (simp add: algebra_simps)
      show ?thesis
        using IH(1) True False rd
        by (simp add: split_ios_def splitIoData_loop.simps [of n rem] word_gt_0 Let_def
            bl4 byt nxt del: drop_drop)
    next
      case F: False
      then have "rio_io ?c = []" using assms(1) by (simp add: cut_def rio_ok_def rio_isValid_def)
      then show ?thesis using IH(1) F L by (simp add: split_ios_def)
    qed
    have "rio.rng ?c = {unat x ..< unat x + unat bl}" by (simp add: rio.rng_def cut_def rio_addr_def rio_blocks_def)
    moreover have "(\<Union>p \<in> set v. rio.rng p) \<subseteq> {unat x + unat bl ..< unat x + unat rem}"
      using arg_cong [OF IH(6), of dom] x rem bl(2) by (auto simp: rio.dom_views)
    ultimately have "rio.disjoint (?c # v)" using IH(5) by (fastforce simp: rio.disjoint_Cons)
    moreover have "rio.views (?c # v) = rio.item r |` {unat x ..< unat x + unat rem}"
      using c(2) IH(6) x rem bl(2) by (auto simp: map_add_def restrict_map_def fun_eq_iff split: option.splits)
    moreover have "rio_blocks ?c = bl" by (simp add: cut_def rio_blocks_def)
    ultimately show ?thesis
      using L ios IH(2,3,4,7,8) c rem bl(1,2,3) by (intro exI [of _ "rio_io ?c # ioV"] exI [of _ "?c # v"]) simp
  qed
qed

lemma splitIoDataAll_returns:
  assumes "rio_ok r" and "rec_isNormal (rio_rec r)" and "n \<noteq> 0"
  shows "splitIoDataAll (rio_io r) n = split_ios r n (rio_addr r) (rio_blocks r)"
  using normal_size [OF assms(1,2)] assms(2) by (simp add: splitIoDataAll_def split_ios_def)

lemma rio_splitAll_ok:
  assumes "rio_ok r" and "n \<noteq> 0"
  shows "\<exists>v. rio_splitAll r n = Inr v \<and> (\<forall>p \<in> set v. rio_ok p \<and> rio_blocks p \<le> n)
    \<and> rio.disjoint v \<and> rio.views v = rio.item r
    \<and> sum_list (map (\<lambda>p. unat (rio_blocks p)) v) = unat (rio_blocks r) \<and> length v \<le> unat (rio_blocks r)"
proof -
  let ?L = "splitAll_loop (rio_rec r) n (rio_addr r) (rio_blocks r)"
  obtain ioV v where p: "split_ios r n (rio_addr r) (rio_blocks r) = Some (Inr ioV)" "length ioV = length ?L"
    "rio_new_all ?L ioV = Inr v" "\<forall>p \<in> set v. rio_ok p \<and> rio_blocks p \<le> n" "rio.disjoint v"
    "rio.views v = rio.item r |` {unat (rio_addr r) ..< unat (rio_addr r) + unat (rio_blocks r)}"
    "sum_list (map (\<lambda>p. unat (rio_blocks p)) v) = unat (rio_blocks r)" "length v \<le> unat (rio_blocks r)"
    using split_pieces [OF assms, of "rio_addr r" "rio_blocks r"] by auto
  have pos: "0 < rio_blocks r" using assms(1) by (simp add: rio_ok_def unat_gt_0 word_gt_0)
  then have "?L \<noteq> []" using assms(2) by (subst splitAll_loop.simps) (simp add: Let_def)
  then have s: "rec_splitAll (rio_rec r) n = Inr ?L"
    using assms by (simp add: rec_splitAll_def rio_ok_def rio_addr_def rio_blocks_def)
  have io: "(if rec_isNormal (rio_rec r) then the (splitIoDataAll (rio_io r) n)
      else Inr (replicate (length ?L) [])) = Inr ioV"
    using p(1) splitIoDataAll_returns [OF assms(1) _ assms(2)] by (auto simp: split_ios_def)
  have "rio_splitAll r n = Inr v"
    using assms(1) s io p(2,3) by (simp add: rio_splitAll_def rio_ok_def)
  moreover have "rio.item r |` {unat (rio_addr r) ..< unat (rio_addr r) + unat (rio_blocks r)} = rio.item r"
    by (auto simp: rio.item_def rio.rng_def restrict_map_def fun_eq_iff)
  ultimately show ?thesis using p(4-8) by auto
qed

section \<open>DiffMemory\<close>

definition mem_ok :: "diff_memory \<Rightarrow> bool" where
  "mem_ok dm \<longleftrightarrow> rio.map_ok (mem_map dm)"

definition mem_view :: "diff_memory \<Rightarrow> nat \<Rightarrow> diff_block option" where
  "mem_view dm = rio.views (map snd (mem_map dm))"

definition io_view :: "DiffRecIo \<Rightarrow> nat \<Rightarrow> diff_block option" where
  "io_view r = rio.item r"

definition sum_blocks :: "DiffRecIo multiset \<Rightarrow> u64" where
  "sum_blocks M = sum_mset (image_mset (\<lambda>r. ucast (rio_blocks r)) M)"

lemma sum_blocks_simps [simp]:
  "sum_blocks {#} = 0" "sum_blocks (add_mset r M) = ucast (rio_blocks r) + sum_blocks M"
  "sum_blocks (M + N) = sum_blocks M + sum_blocks N"
  by (simp_all add: sum_blocks_def)

lemma count_stats_eq:
  "count_stats rs b n = (b + sum_blocks (mset rs), n + of_nat (length rs))"
  by (induction rs arbitrary: b n) (simp_all add: add.assoc)

lemma checkStatistics_iff:
  "checkStatistics dm = Inr () \<longleftrightarrow> mem_nBlocks dm = sum_blocks (mset (map snd (mem_map dm)))
     \<and> mem_nIos dm = of_nat (length (mem_map dm))"
  by (simp add: checkStatistics_def count_stats_eq)

lemma mem_uncount_eq:
  "mem_uncount q dm = dm\<lparr>mem_nIos := mem_nIos dm - of_nat (length q),
     mem_nBlocks := mem_nBlocks dm - sum_blocks (mset q)\<rparr>"
  by (induction q arbitrary: dm) simp_all

lemma mem_put_eq:
  "mem_put v dm = dm\<lparr>mem_nIos := mem_nIos dm + of_nat (length v),
     mem_nBlocks := mem_nBlocks dm + sum_blocks (mset v), mem_map := emplace_all rio_addr v (mem_map dm)\<rparr>"
  by (induction v arbitrary: dm) (simp_all add: add.assoc)

lemma mem_put_append: "mem_put (v @ w) dm = mem_put w (mem_put v dm)"
  by (induction v arbitrary: dm) auto

lemma mem_eliminate_put:
  "diff_all (\<lambda>r. rio_minus r r0) q = Inr ps \<Longrightarrow> mem_eliminate r0 q dm = Inr (mem_put ps dm)"
  by (induction q arbitrary: ps dm) (auto simp: res_bind_Inr_iff mem_put_append)

text \<open>
  The IO that \<open>add\<close> is given: a record that is not compressed, with the data it announces and an
  address range that does not wrap around.
\<close>

definition add_arg :: "walb_diff_record \<Rightarrow> u8 list \<Rightarrow> DiffRecIo" where
  "add_arg rec buf = \<lparr>rio_rec = rec, rio_io = if rec_isNormal rec then buf else []\<rparr>"

lemma mem_add_eq:
  assumes "mem_ok dm" and "rio_ok (add_arg rec buf)"
  shows "\<exists>dm' rv. mem_add rec buf dm = Inr dm' \<and> mem_ok dm'
    \<and> mem_view dm' = mem_view dm ++ io_view (add_arg rec buf)
    \<and> (mem_nBlocks dm = sum_blocks (mset (map snd (mem_map dm))) \<longrightarrow>
        mem_nBlocks dm' + sum_blocks (mset rv) = sum_blocks (mset (map snd (mem_map dm'))) + ucast (dr_io_blocks rec))
    \<and> (mem_nIos dm = of_nat (length (mem_map dm)) \<longrightarrow>
        mem_nIos dm' + of_nat (length rv) = of_nat (length (mem_map dm')) + 1)
    \<and> (if mem_maxIoBlocks dm > 0 \<and> mem_maxIoBlocks dm < dr_io_blocks rec
        then rio_splitAll (add_arg rec buf) (mem_maxIoBlocks dm) = Inr rv else rv = [add_arg rec buf])
    \<and> mem_maxIoBlocks dm' = mem_maxIoBlocks dm"
proof -
  let ?s = "add_arg rec buf" and ?mx = "mem_maxIoBlocks dm"
  let ?ov = "\<lambda>r. rec_isOverlapped (rio_rec r) rec"
  obtain a b where ab: "search_start (dr_io_address rec) (mem_map dm) = (a, b)" by fastforce
  obtain c q where cq: "pull_overlapped ?ov (rec_endIoAddress rec) b = (c, q)" by fastforce
  have s: "rio_addr ?s = dr_io_address rec" "rio_blocks ?s = dr_io_blocks rec" "rio_rec ?s = rec"
    by (simp_all add: add_arg_def rio_addr_def rio_blocks_def)
  have new: "rio_new rec buf = Inr ?s"
    using assms(2) by (simp add: rio_ok_def rio_new_def add_arg_def Let_def)
  have mx: "?mx > 0 \<longleftrightarrow> ?mx \<noteq> 0" by (simp add: word_gt_0)
  obtain rv where rv: "(if ?mx > 0 \<and> ?mx < dr_io_blocks rec then rio_splitAll ?s ?mx else Inr [?s]) = Inr rv"
    "\<forall>p \<in> set rv. rio_ok p" "rio.disjoint rv" "rio.views rv = rio.item ?s"
  proof (cases "?mx > 0 \<and> ?mx < dr_io_blocks rec")
    case True
    then show ?thesis using rio_splitAll_ok [OF assms(2), of ?mx] that by (auto simp: mx)
  next
    case False
    then show ?thesis using that [of "[?s]"] assms(2) by (auto simp: rio.disjoint_def)
  qed
  have ov: "\<And>r. rio_ok r \<Longrightarrow> ?ov r \<longleftrightarrow> rio.rng r \<inter> rio.rng ?s \<noteq> {}"
    using rio_overlap [OF _ assms(2)] s(3) by simp
  have cq': "pull_overlapped ?ov (rio_addr ?s + ucast (rio_blocks ?s)) b = (c, q)"
    using cq s by (simp add: rec_endIoAddress_def)
  obtain ps where ps: "diff_all (\<lambda>r. rio_minus r ?s) q = Inr ps"
    "rio.map_ok (emplace_all rio_addr rv (emplace_all rio_addr ps (a @ c)))"
    "rio.views (map snd (emplace_all rio_addr rv (emplace_all rio_addr ps (a @ c)))) =
      rio.views (map snd (mem_map dm)) ++ rio.item ?s"
    "mset (map snd (emplace_all rio_addr rv (emplace_all rio_addr ps (a @ c)))) =
      mset (map snd (a @ c)) + mset ps + mset rv"
    "mset (map snd (mem_map dm)) = mset (map snd (a @ c)) + mset q"
    using rio.add_items [OF assms(1) [unfolded mem_ok_def] assms(2) rv(2-4) ov ab [folded s(1)] cq'] by blast
  let ?dm1 = "mem_uncount q (dm\<lparr>mem_map := a @ c\<rparr>)"
  let ?dm2 = "mem_put ps ?dm1"
  let ?dm3 = "?dm2\<lparr>mem_nIos := mem_nIos ?dm2 + 1, mem_nBlocks := mem_nBlocks ?dm2 + ucast (dr_io_blocks rec)\<rparr>"
  let ?dm = "?dm3\<lparr>mem_map := emplace_all rio_addr rv (mem_map ?dm3)\<rparr>"
  have "mem_add rec buf dm = Inr ?dm"
    using ab cq new rv(1) s(2) mem_eliminate_put [OF ps(1)]
    by (simp add: mem_add_def Let_def)
  moreover have m: "mem_map ?dm = emplace_all rio_addr rv (emplace_all rio_addr ps (a @ c))"
    by (simp add: mem_uncount_eq mem_put_eq)
  have len: "length (mem_map dm) = length (a @ c) + length q"
    "length (mem_map ?dm) = length (a @ c) + length ps + length rv"
    unfolding m using arg_cong [OF ps(5), of size] arg_cong [OF ps(4), of size] by simp_all
  have "mem_nIos ?dm = mem_nIos dm - of_nat (length q) + of_nat (length ps) + 1"
    by (simp add: mem_uncount_eq mem_put_eq)
  then have "mem_nIos dm = of_nat (length (mem_map dm)) \<Longrightarrow>
      mem_nIos ?dm + of_nat (length rv) = of_nat (length (mem_map ?dm)) + 1"
    unfolding len by simp
  moreover have "mem_nBlocks ?dm = mem_nBlocks dm - sum_blocks (mset q) + sum_blocks (mset ps) + ucast (dr_io_blocks rec)"
    by (simp add: mem_uncount_eq mem_put_eq)
  then have "mem_nBlocks dm = sum_blocks (mset (map snd (mem_map dm))) \<Longrightarrow>
      mem_nBlocks ?dm + sum_blocks (mset rv) = sum_blocks (mset (map snd (mem_map ?dm))) + ucast (dr_io_blocks rec)"
    unfolding m ps(4,5) by simp
  moreover have "mem_ok ?dm" "mem_view ?dm = mem_view dm ++ io_view ?s"
    unfolding mem_ok_def mem_view_def io_view_def m using ps(2,3) by simp_all
  moreover have "mem_maxIoBlocks ?dm = ?mx" by (simp add: mem_uncount_eq mem_put_eq)
  moreover have "if ?mx > 0 \<and> ?mx < dr_io_blocks rec then rio_splitAll ?s ?mx = Inr rv else rv = [?s]"
    using rv(1) by (auto split: if_splits)
  ultimately show ?thesis by blast
qed

text \<open>No record becomes larger than the limit or the IO that is added.\<close>

lemma mem_add_small:
  assumes "mem_ok dm" and "rio_ok (add_arg rec buf)" and "mem_add rec buf dm = Inr dm'"
    and "\<forall>x \<in> set (mem_map dm). rio_blocks (snd x) \<le> n"
    and "mem_maxIoBlocks dm \<noteq> 0 \<and> mem_maxIoBlocks dm \<le> n \<or> dr_io_blocks rec \<le> n"
  shows "\<forall>x \<in> set (mem_map dm'). rio_blocks (snd x) \<le> n"
proof -
  let ?s = "add_arg rec buf" and ?mx = "mem_maxIoBlocks dm"
  let ?ov = "\<lambda>r. rec_isOverlapped (rio_rec r) rec"
  obtain a b where ab: "search_start (dr_io_address rec) (mem_map dm) = (a, b)" by fastforce
  obtain c q where cq: "pull_overlapped ?ov (rec_endIoAddress rec) b = (c, q)" by fastforce
  have s: "rio_addr ?s = dr_io_address rec" "rio_blocks ?s = dr_io_blocks rec" "rio_rec ?s = rec"
    by (simp_all add: add_arg_def rio_addr_def rio_blocks_def)
  have new: "rio_new rec buf = Inr ?s"
    using assms(2) by (simp add: rio_ok_def rio_new_def add_arg_def Let_def)
  have ov: "\<And>r. rio_ok r \<Longrightarrow> ?ov r \<longleftrightarrow> rio.rng r \<inter> rio.rng ?s \<noteq> {}"
    using rio_overlap [OF _ assms(2)] s(3) by simp
  have cq': "pull_overlapped ?ov (rio_addr ?s + ucast (rio_blocks ?s)) b = (c, q)"
    using cq s by (simp add: rec_endIoAddress_def)
  note sc = rio.search_complete [OF assms(1) [unfolded mem_ok_def] assms(2) ov ab [folded s(1)] cq']
  have okm: "\<forall>x \<in> set (mem_map dm). rio_ok (snd x)" using assms(1) by (simp add: mem_ok_def rio.map_ok_def)
  have q: "\<forall>r \<in> set q. rio_ok r \<and> rio.rng r \<inter> rio.rng ?s \<noteq> {} \<and> rio_blocks r \<le> n"
    using sc(2) okm ov assms(4) by auto
  have "rio.disjoint q" using sc(2) rio.map_ok_disjoint [OF rio.map_ok_filter] assms(1) by (simp add: mem_ok_def)
  then obtain ps where ps: "diff_all (\<lambda>r. rio_minus r ?s) q = Inr ps"
    using rio.eliminate_ok [OF assms(2), of q] q by auto
  obtain rv where rv: "(if ?mx > 0 \<and> ?mx < dr_io_blocks rec then rio_splitAll ?s ?mx else Inr [?s]) = Inr rv"
    "mem_map dm' = emplace_all rio_addr rv (emplace_all rio_addr ps (a @ c))"
  proof -
    let ?dm2 = "mem_put ps (mem_uncount q (dm\<lparr>mem_map := a @ c\<rparr>))"
    have e: "mem_eliminate ?s q (mem_uncount q (dm\<lparr>mem_map := a @ c\<rparr>)) = Inr ?dm2" by (rule mem_eliminate_put [OF ps])
    have m: "mem_map ?dm2 = emplace_all rio_addr ps (a @ c)" by (simp add: mem_uncount_eq mem_put_eq)
    obtain rv where rv: "(if ?mx > 0 \<and> ?mx < dr_io_blocks rec then rio_splitAll ?s ?mx else Inr [?s]) = Inr rv"
    proof (cases "?mx > 0 \<and> ?mx < dr_io_blocks rec")
      case True
      then show ?thesis using rio_splitAll_ok [OF assms(2), of ?mx] that by (auto simp: word_gt_0)
    next
      case False
      then show ?thesis using that by auto
    qed
    have "mem_add rec buf dm = Inr (?dm2\<lparr>mem_nIos := mem_nIos ?dm2 + 1,
        mem_nBlocks := mem_nBlocks ?dm2 + ucast (rio_blocks ?s), mem_map := emplace_all rio_addr rv (mem_map ?dm2)\<rparr>)"
      using ab cq new rv e by (simp add: mem_add_def Let_def)
    then have "mem_map dm' = emplace_all rio_addr rv (mem_map ?dm2)" using assms(3) by simp
    then show ?thesis using that rv m by simp
  qed
  have rvn: "rio_blocks p \<le> n" if p: "p \<in> set rv" for p
  proof (cases "?mx > 0 \<and> ?mx < dr_io_blocks rec")
    case True
    then have "rio_blocks p \<le> ?mx" "?mx \<le> n"
      using rio_splitAll_ok [OF assms(2), of ?mx] rv(1) p assms(5) by (auto simp: word_gt_0)
    then show ?thesis by (rule order_trans)
  next
    case False
    then have "dr_io_blocks rec \<le> n" using assms(5) by (auto simp: word_gt_0 not_less intro: order_trans)
    then show ?thesis using False rv(1) p s(2) by auto
  qed
  have sub: "snd ` set (mem_map dm') \<subseteq> snd ` set (a @ c) \<union> set ps \<union> set rv"
    using set_emplace_all [of rio_addr rv "emplace_all rio_addr ps (a @ c)"] set_emplace_all [of rio_addr ps "a @ c"]
    unfolding rv(2) by blast
  have psn: "\<forall>p \<in> set ps. rio_blocks p \<le> n" using rio.diff_all_small [OF assms(2) q ps] .
  have acn: "\<forall>x \<in> set (a @ c). rio_blocks (snd x) \<le> n" using assms(4) sc(1) by simp
  show ?thesis
  proof
    fix x assume "x \<in> set (mem_map dm')"
    then have "snd x \<in> snd ` set (a @ c) \<union> set ps \<union> set rv" using sub by blast
    then consider y where "y \<in> set (a @ c)" "snd x = snd y" | "snd x \<in> set ps" | "snd x \<in> set rv" by blast
    then show "rio_blocks (snd x) \<le> n" by cases (use psn acn rvn in auto)
  qed
qed

text \<open>A sequence of additions, as \<open>readFrom\<close> and the merger perform them.\<close>

fun mem_add_all :: "(walb_diff_record \<times> u8 list) list \<Rightarrow> diff_memory \<Rightarrow> diff_memory res" where
  "mem_add_all [] dm = Inr dm"
| "mem_add_all ((rec, buf) # xs) dm = res_bind (mem_add rec buf dm) (mem_add_all xs)"

text \<open>
  C6: Adding IOs to a diff in memory never fails and never stops at an assertion, whatever the IOs
  overlap, and refines the map from addresses to blocks: each addition overwrites the blocks of its
  own range and leaves all others as they were. The records stay sorted and free of overlaps, so the
  code's own check accepts the result. IOs are not compressed, do not wrap around and carry the
  data they announce.
\<close>

theorem mem_add_all_refines:
  assumes "mem_ok dm" and "\<forall>(rec, buf) \<in> set xs. rio_ok (add_arg rec buf)"
  shows "\<exists>dm'. mem_add_all xs dm = Inr dm' \<and> mem_ok dm'
    \<and> mem_view dm' = foldl (\<lambda>m (rec, buf). m ++ io_view (add_arg rec buf)) (mem_view dm) xs
    \<and> mem_checkNoOverlappedAndSorted dm' = Inr ()"
  using assms
proof (induction xs arbitrary: dm)
  case Nil
  then show ?case
    using rio.check_sorted_ok [of "mem_map dm" None]
    by (simp add: mem_checkNoOverlappedAndSorted_def mem_ok_def rio_addr_def rio_blocks_def
        rec_endIoAddress_def [abs_def])
next
  case (Cons x xs)
  obtain rec buf where x: "x = (rec, buf)" by fastforce
  obtain dm' where "mem_add rec buf dm = Inr dm'" "mem_ok dm'"
    "mem_view dm' = mem_view dm ++ io_view (add_arg rec buf)"
    using mem_add_eq [of dm rec buf] Cons.prems x by auto
  then show ?case using Cons.IH [of dm'] Cons.prems(2) x by simp
qed

lemma sum_blocks_of_nat: "sum_blocks (mset v) = of_nat (sum_list (map (\<lambda>p. unat (rio_blocks p)) v))"
  by (induction v) simp_all

text \<open>
  \<open>checkStatistics\<close> after an addition. The counters stay exact when the IO is not divided; when
  it is larger than the limit and is divided, the block counter is exact but the IO counter
  is not (it counts the IO once), so that the check that held before throws.
\<close>

theorem checkStatistics_after_add:
  assumes "mem_ok dm" and "checkStatistics dm = Inr ()" and "rio_ok (add_arg rec buf)"
  shows "\<exists>dm'. mem_add rec buf dm = Inr dm'
    \<and> checkStatistics dm' =
       (if mem_maxIoBlocks dm > 0 \<and> mem_maxIoBlocks dm < dr_io_blocks rec
        then Inl (Exception ''DiffMemory:getNIos:bad ios'') else Inr ())"
proof -
  let ?big = "mem_maxIoBlocks dm > 0 \<and> mem_maxIoBlocks dm < dr_io_blocks rec"
  have counts: "mem_nBlocks dm = sum_blocks (mset (map snd (mem_map dm)))"
    "mem_nIos dm = of_nat (length (mem_map dm))"
    using assms(2) by (auto simp: checkStatistics_def count_stats_eq split: if_splits)
  obtain dm' rv where dm': "mem_add rec buf dm = Inr dm'"
    "mem_nBlocks dm' + sum_blocks (mset rv) = sum_blocks (mset (map snd (mem_map dm'))) + ucast (dr_io_blocks rec)"
    "mem_nIos dm' + of_nat (length rv) = of_nat (length (mem_map dm')) + 1"
    "if ?big then rio_splitAll (add_arg rec buf) (mem_maxIoBlocks dm) = Inr rv else rv = [add_arg rec buf]"
    using mem_add_eq [OF assms(1,3)] counts by blast
  have b: "rio_blocks (add_arg rec buf) = dr_io_blocks rec" by (simp add: add_arg_def rio_blocks_def)
  have rv: "sum_list (map (\<lambda>p. unat (rio_blocks p)) rv) = unat (dr_io_blocks rec)"
    "if ?big then \<forall>p \<in> set rv. rio_blocks p \<le> mem_maxIoBlocks dm else length rv = 1"
    "length rv \<le> unat (dr_io_blocks rec)"
  proof -
    have "0 < unat (dr_io_blocks rec)" using assms(3) b by (simp add: rio_ok_def)
    moreover have "mem_maxIoBlocks dm > 0 \<longleftrightarrow> mem_maxIoBlocks dm \<noteq> 0" by (simp add: word_gt_0)
    ultimately show "sum_list (map (\<lambda>p. unat (rio_blocks p)) rv) = unat (dr_io_blocks rec)"
      "if ?big then \<forall>p \<in> set rv. rio_blocks p \<le> mem_maxIoBlocks dm else length rv = 1"
      "length rv \<le> unat (dr_io_blocks rec)"
      using dm'(4) rio_splitAll_ok [OF assms(3), of "mem_maxIoBlocks dm"] b by (auto split: if_splits)
  qed
  have "mem_nBlocks dm' = sum_blocks (mset (map snd (mem_map dm')))"
    using dm'(2) rv(1) by (simp add: sum_blocks_of_nat [of rv])
  moreover have "mem_nIos dm' = of_nat (length (mem_map dm')) \<longleftrightarrow> \<not> ?big"
  proof -
    have "unat (dr_io_blocks rec) < 4294967296" by simp
    then have "length rv < 18446744073709551616" using rv(3) by linarith
    then have "(of_nat (length rv) :: u64) = 1 \<longleftrightarrow> length rv = 1"
      by (simp add: unat_eq_iff_nat unat_of_nat)
    moreover have "length rv \<noteq> 1" if ?big
    proof
      assume "length rv = 1"
      then obtain p where "rv = [p]" by (cases rv) auto
      then show False using rv(1,2) that by (simp add: word_less_nat_alt word_le_nat_alt)
    qed
    moreover have "\<not> ?big \<Longrightarrow> length rv = 1" using rv(2) by (simp split: if_splits)
    ultimately have "(of_nat (length rv) :: u64) = 1 \<longleftrightarrow> \<not> ?big" by blast
    moreover have "mem_nIos dm' = of_nat (length (mem_map dm')) \<longleftrightarrow> (of_nat (length rv) :: u64) = 1"
      using dm'(3) by (metis add.commute add_left_cancel)
    ultimately show ?thesis by blast
  qed
  ultimately have "checkStatistics dm' = (if ?big then Inl (Exception ''DiffMemory:getNIos:bad ios'') else Inr ())"
    by (simp add: checkStatistics_def count_stats_eq)
  then show ?thesis using dm'(1) by blast
qed

text \<open>
  \<open>eraseFromMap\<close> at a valid iterator removes the blocks of that record and no other, and keeps
  order, disjointness and counters.
\<close>

theorem eraseFromMap_correct:
  assumes "mem_ok dm" and "checkStatistics dm = Inr ()" and "i < length (mem_map dm)"
  shows "\<exists>dm'. eraseFromMap i dm = Inr dm' \<and> mem_ok dm' \<and> checkStatistics dm' = Inr ()
    \<and> mem_view dm' = mem_view dm |` (- dom (io_view (snd (mem_map dm ! i))))"
proof -
  obtain a x b where m: "mem_map dm = a @ x # b" and i: "length a = i"
    using id_take_nth_drop [OF assms(3)] assms(3) by (metis length_take less_imp_le min.absorb2)
  let ?dm = "dm\<lparr>mem_nIos := mem_nIos dm - 1, mem_nBlocks := mem_nBlocks dm - ucast (rio_blocks (snd x)),
      mem_map := a @ b\<rparr>"
  have x: "mem_map dm ! i = x" using m i by (metis nth_append_length)
  have e: "eraseFromMap i dm = Inr ?dm" using m i [symmetric] by (simp add: eraseFromMap_def)
  have oks: "rio.map_ok (a @ x # b)" using assms(1) m by (simp add: mem_ok_def)
  then have ok: "mem_ok ?dm" by (auto simp: mem_ok_def rio.map_ok_append rio.map_ok_Cons)
  have st: "checkStatistics ?dm = Inr ()"
    using assms(2) m by (simp add: checkStatistics_iff)
  have dj: "rio.disjoint (map snd a @ snd x # map snd b)" using rio.map_ok_disjoint [OF oks] by simp
  have out: "rio.views (map snd a @ map snd b) k = None" if "k \<in> rio.rng (snd x)" for k
  proof (rule rio.views_out)
    have "\<forall>r \<in> set (map snd a @ map snd b). rio.rng r \<inter> rio.rng (snd x) = {}"
      using dj unfolding rio.disjoint_append rio.disjoint_Cons set_append by (auto simp: Int_commute)
    then show "k \<notin> (\<Union>r \<in> set (map snd a @ map snd b). rio.rng r)" using that by blast
  qed
  have "mem_view ?dm = mem_view dm |` (- dom (io_view (snd x)))"
  proof
    fix k
    show "mem_view ?dm k = (mem_view dm |` (- dom (io_view (snd x)))) k"
      unfolding io_view_def rio.dom_item using out [of k] m
      by (cases "k \<in> rio.rng (snd x)")
        (simp_all add: mem_view_def rio.views_append map_add_def rio.item_def restrict_map_def
          split: option.splits)
  qed
  then show ?thesis using e ok st x by auto
qed

section \<open>Examples\<close>

definition sample_io_rec :: "u64 \<Rightarrow> u32 \<Rightarrow> walb_diff_record" where
  "sample_io_rec a n = DiffRecord_init\<lparr>dr_io_address := a, dr_io_blocks := n, dr_data_size := n * 512\<rparr>"

definition sample_discard :: "u64 \<Rightarrow> u32 \<Rightarrow> walb_diff_record" where
  "sample_discard a n = rec_setDiscard (DiffRecord_init\<lparr>dr_io_address := a, dr_io_blocks := n\<rparr>)"

lemmas sample_io_simps = sample_io_rec_def sample_discard_def rio_ok_def add_arg_def rio_isValid_def
  rio_blocks_def rio_addr_def rec_isNormal_def rec_isAllZero_def rec_isDiscard_def rec_isCompressed_def
  rec_setDiscard_def DiffRecord_init_def WALB_DIFF_FLAG_ALLZERO_def WALB_DIFF_FLAG_DISCARD_def
  WALB_DIFF_CMPR_NONE_def WALB_DIFF_CMPR_MAX_def rec_verify_def

lemma mem_new_ok: "mem_ok mem_new" "mem_ok (mem_setMaxIoBlocks n mem_new)"
  "checkStatistics (mem_setMaxIoBlocks n mem_new) = Inr ()"
  by (simp_all add: mem_ok_def mem_new_def mem_setMaxIoBlocks_def rio.map_ok_def checkStatistics_def)

theorem mem_add_all_refines_witness:
  "\<exists>dm'. mem_add_all [(sample_io_rec 10 4, replicate 2048 1), (sample_discard 11 2, [])] mem_new = Inr dm'
    \<and> mem_ok dm'
    \<and> mem_view dm' = foldl (\<lambda>m (rec, buf). m ++ io_view (add_arg rec buf)) (mem_view mem_new)
        [(sample_io_rec 10 4, replicate 2048 1), (sample_discard 11 2, [])]
    \<and> mem_checkNoOverlappedAndSorted dm' = Inr ()"
  by (rule mem_add_all_refines [OF mem_new_ok(1)]) (simp add: sample_io_simps)

theorem checkStatistics_after_add_witness:
  "\<exists>dm'. mem_add (sample_io_rec 10 4) (replicate 2048 1) (mem_setMaxIoBlocks 1 mem_new) = Inr dm'
    \<and> checkStatistics dm' =
       (if mem_maxIoBlocks (mem_setMaxIoBlocks 1 mem_new) > 0
          \<and> mem_maxIoBlocks (mem_setMaxIoBlocks 1 mem_new) < dr_io_blocks (sample_io_rec 10 4)
        then Inl (Exception ''DiffMemory:getNIos:bad ios'') else Inr ())"
  by (rule checkStatistics_after_add [OF mem_new_ok(2,3)]) (simp add: sample_io_simps)

definition sample_mem :: diff_memory where
  "sample_mem = mem_new\<lparr>mem_map := [(7, add_arg (sample_discard 7 3) [])], mem_nIos := 1, mem_nBlocks := 3\<rparr>"

theorem eraseFromMap_correct_witness:
  "\<exists>dm'. eraseFromMap 0 sample_mem = Inr dm' \<and> mem_ok dm' \<and> checkStatistics dm' = Inr ()
    \<and> mem_view dm' = mem_view sample_mem |` (- dom (io_view (snd (mem_map sample_mem ! 0))))"
  by (rule eraseFromMap_correct)
    (simp_all add: sample_mem_def mem_ok_def rio.map_ok_def checkStatistics_def sample_io_simps mem_new_def)

end
