(* ===== verification/Diff_File.thy ===== *)
theory Diff_File
  imports File_Io Diff_Pack Diff_Index Diff_Mem_Laws
begin

text \<open>
  Wdiff files: \<open>SortedDiffWriter\<close>, \<open>SortedDiffReader\<close> and \<open>IndexedDiffWriter\<close> of
  \<^verbatim>\<open>src/walb_diff_file.hpp\<close> and \<^verbatim>\<open>src/walb_diff_file.cpp\<close>, and \<open>writeTo\<close> and \<open>readFrom\<close> of
  \<open>DiffMemory\<close> (\<^verbatim>\<open>src/walb_diff_mem.cpp\<close>). A file that is written is the list of the bytes
  written so far, a file that is read the list of the bytes that are left; reading behind the end
  throws \<open>EofError\<close>.
\<close>

definition file_read :: "nat \<Rightarrow> u8 list \<Rightarrow> (u8 list \<times> u8 list) res" where
  "file_read n f = (if length f < n then Inl EofError else Inr (take n f, drop n f))"

text \<open>It is what \<open>File::read\<close> does, however the system cuts the transfer into pieces.\<close>

lemma file_read_fd_read:
  "io_works os \<Longrightarrow> fl_pos f \<le> length (fl_bytes f) \<Longrightarrow> file_read n (drop (fl_pos f) (fl_bytes f))
     = res_bind (fd_read os n f) (\<lambda>(d, f'). Inr (d, drop (fl_pos f') (fl_bytes f')))"
  by (auto simp: file_read_def fd_read_works add.commute)

section \<open>SortedDiffWriter\<close>

record sorted_writer =
  sw_file :: "u8 list"
  sw_isWrittenHeader :: bool
  sw_isClosed :: bool
  sw_pack :: walb_diff_pack
  sw_ioQ :: "u8 list list"
  sw_stat :: DiffStatistics

definition writer_init :: "u8 list \<Rightarrow> sorted_writer" where
  "writer_init f = \<lparr>sw_file = f, sw_isWrittenHeader = False, sw_isClosed = True, sw_pack = dpack_clear,
     sw_ioQ = [], sw_stat = stat_clear\<lparr>wdiffNr := 1\<rparr>\<rparr>"

definition writer_setFd :: "u8 list \<Rightarrow> sorted_writer" where
  "writer_setFd f = writer_init f\<lparr>sw_isClosed := False\<rparr>"

definition writer_writeHeader ::
  "walb_diff_file_header \<Rightarrow> sorted_writer \<Rightarrow> (walb_diff_file_header \<times> sorted_writer) res"
where
  "writer_writeHeader h w =
     (if sw_isWrittenHeader w then Inl (Exception ''Do not call writeHeader() more than once.'')
      else let (f, h1) = file_header_writeTo (sw_file w) (h\<lparr>fh_type := WALB_DIFF_TYPE_SORTED\<rparr>)
        in Inr (h1, w\<lparr>sw_file := f, sw_isWrittenHeader := True\<rparr>))"

text \<open>The loop of \<open>writePack\<close>: the bytes, and \<open>total\<close>.\<close>

fun write_ios :: "u8 list list \<Rightarrow> u8 list \<Rightarrow> nat \<Rightarrow> u8 list \<times> nat" where
  "write_ios [] f tot = (f, tot)"
| "write_ios (buf # q) f tot =
     (if buf = [] then write_ios q f tot else write_ios q (f @ buf) (tot + length buf))"

definition writer_writePack :: "sorted_writer \<Rightarrow> sorted_writer res" where
  "writer_writePack w =
     (if dp_n_records (sw_pack w) = 0 then ensure (sw_ioQ w = []) Assert_Failed (Inr w)
      else res_bind (stat_update_pack (sw_pack w) (sw_stat w)) (\<lambda>st.
        res_bind (dpack_writeTo (sw_file w) (sw_pack w)) (\<lambda>(f, p).
        ensure (unat (dp_n_records p) = length (sw_ioQ w)) Assert_Failed
          (let (f1, tot) = write_ios (sw_ioQ w) f 0 in
           ensure (tot = unat (dp_total_size p)) Assert_Failed
             (Inr (w\<lparr>sw_file := f1, sw_stat := st, sw_pack := dpack_clear, sw_ioQ := []\<rparr>))))))"

definition writeDiffEofPack :: "u8 list \<Rightarrow> u8 list res" where
  "writeDiffEofPack f = res_bind (dpack_writeTo f (dpack_setEnd dpack_clear)) (\<lambda>(f1, _). Inr f1)"

definition writer_close :: "sorted_writer \<Rightarrow> sorted_writer res" where
  "writer_close w =
     (if \<not> sw_isClosed w then
        res_bind (writer_writePack w) (\<lambda>w1.
        res_bind (writeDiffEofPack (sw_file w1)) (\<lambda>f. Inr (w1\<lparr>sw_file := f, sw_isClosed := True\<rparr>)))
      else Inr w)"

definition addAndPush ::
  "walb_diff_record \<Rightarrow> u8 list \<Rightarrow> sorted_writer \<Rightarrow> (bool \<times> sorted_writer) res"
where
  "addAndPush rec buf w =
     res_bind (dpack_add rec (sw_pack w)) (\<lambda>(r, p).
       if r then Inr (True, w\<lparr>sw_pack := p, sw_ioQ := sw_ioQ w @ [buf]\<rparr>)
       else Inr (False, w\<lparr>sw_pack := p\<rparr>))"

definition checkWrittenHeader :: "bool \<Rightarrow> unit res" where
  "checkWrittenHeader b =
     (if b then Inr () else Inl (Exception ''Call writeHeader() before calling writeDiff().''))"

definition assertRecAndIo :: "walb_diff_record \<Rightarrow> u8 list \<Rightarrow> unit res" where
  "assertRecAndIo rec buf =
     (if rec_isNormal rec then
        ensure (buf \<noteq> []) Assert_Failed
          (ensure (dr_checksum rec = calcDiffIoChecksum buf) Assert_Failed (Inr ()))
      else ensure (buf = []) Assert_Failed (Inr ()))"

definition writer_writeDiff :: "walb_diff_record \<Rightarrow> u8 list \<Rightarrow> sorted_writer \<Rightarrow> sorted_writer res" where
  "writer_writeDiff rec buf w =
     res_bind (checkWrittenHeader (sw_isWrittenHeader w)) (\<lambda>_.
     res_bind (assertRecAndIo rec buf) (\<lambda>_.
     res_bind (addAndPush rec buf w) (\<lambda>(ok, w1).
       if ok then Inr w1
       else res_bind (writer_writePack w1) (\<lambda>w2.
         res_bind (addAndPush rec buf w2) (\<lambda>(ret, w3). ensure ret Assert_Failed (Inr w3))))))"

text \<open>\<open>writeDiff\<close> of a pointer.\<close>

definition writer_writeDiff_ptr ::
  "walb_diff_record \<Rightarrow> u8 list \<Rightarrow> sorted_writer \<Rightarrow> sorted_writer res"
where
  "writer_writeDiff_ptr rec data w =
     res_bind (if rec_isNormal rec then read_at data 0 (unat (dr_data_size rec)) else Inr []) (\<lambda>buf.
       writer_writeDiff rec buf w)"

definition writer_compressAndWriteDiff ::
  "encoder \<Rightarrow> walb_diff_record \<Rightarrow> u8 list \<Rightarrow> u8 \<Rightarrow> nat \<Rightarrow> sorted_writer \<Rightarrow> sorted_writer res"
where
  "writer_compressAndWriteDiff lib_enc rec data type level w =
     (if rec_isCompressed rec then writer_writeDiff_ptr rec data w
      else if \<not> rec_isNormal rec then writer_writeDiff rec [] w
      else res_bind (compressDiffIo lib_enc rec data type level) (\<lambda>(compRec, buf).
        writer_writeDiff compRec buf w))"

section \<open>SortedDiffReader\<close>

record sorted_reader =
  sr_file :: "u8 list"
  sr_isReadHeader :: bool
  sr_pack :: walb_diff_pack
  sr_recIdx :: u16
  sr_totalSize :: u32
  sr_stat :: DiffStatistics

definition reader_init :: "u8 list \<Rightarrow> sorted_reader" where
  "reader_init f = \<lparr>sr_file = f, sr_isReadHeader = False, sr_pack = dpack_clear, sr_recIdx = 0,
     sr_totalSize = 0, sr_stat = stat_clear\<lparr>wdiffNr := 1\<rparr>\<rparr>"

definition reader_readPackHeader :: "sorted_reader \<Rightarrow> (bool \<times> sorted_reader) res" where
  "reader_readPackHeader r =
     (case dpack_readFrom (sr_file r) True of
        Inl e \<Rightarrow> if e = EofError then Inr (False, r\<lparr>sr_pack := dpack_setEnd (sr_pack r)\<rparr>) else Inl e
      | Inr (p, f) \<Rightarrow>
          let r1 = r\<lparr>sr_pack := p, sr_file := f\<rparr> in
          if dpack_isEnd p then Inr (False, r1)
          else res_bind (stat_update_pack p (sr_stat r1)) (\<lambda>st.
            Inr (True, r1\<lparr>sr_recIdx := 0, sr_totalSize := 0, sr_stat := st\<rparr>)))"

text \<open>The exception for a wrong type is constructed but not thrown.\<close>

definition reader_readHeader ::
  "bool \<Rightarrow> sorted_reader \<Rightarrow> (walb_diff_file_header \<times> sorted_reader) res"
where
  "reader_readHeader doReadPackHeader r =
     (if sr_isReadHeader r then Inl (Exception ''Do not call readHeader() more than once.'')
      else res_bind (file_header_readFrom (sr_file r)) (\<lambda>(h, f).
        let r1 = r\<lparr>sr_file := f, sr_isReadHeader := True\<rparr> in
        if doReadPackHeader then res_bind (reader_readPackHeader r1) (\<lambda>(_, r2). Inr (h, r2))
        else Inr (h, r1)))"

definition reader_dontReadHeader :: "bool \<Rightarrow> sorted_reader \<Rightarrow> sorted_reader res" where
  "reader_dontReadHeader doReadPackHeader r =
     (let r1 = r\<lparr>sr_isReadHeader := True\<rparr> in
      if doReadPackHeader then res_bind (reader_readPackHeader r1) (\<lambda>(_, r2). Inr r2) else Inr r1)"

definition reader_prepareRead :: "sorted_reader \<Rightarrow> (bool \<times> sorted_reader) res" where
  "reader_prepareRead r =
     (if dpack_isEnd (sr_pack r) then Inr (False, r)
      else if sr_recIdx r = dp_n_records (sr_pack r) then reader_readPackHeader r
      else Inr (True, r))"

definition reader_readDiffIo ::
  "walb_diff_record \<Rightarrow> bool \<Rightarrow> sorted_reader \<Rightarrow> (u8 list \<times> sorted_reader) res"
where
  "reader_readDiffIo rec verifyChecksum r =
     (if dr_data_offset rec \<noteq> sr_totalSize r then Inl (Exception ''data offset invalid'')
      else res_bind
        (if rec_isNormal rec then
           res_bind (file_read (unat (dr_data_size rec)) (sr_file r)) (\<lambda>(buf, f).
             if verifyChecksum \<and> dr_checksum rec \<noteq> calcDiffIoChecksum buf
             then Inl (Exception ''checksum differ'')
             else Inr (buf, r\<lparr>sr_file := f\<rparr>))
         else ensure (dr_data_size rec = 0) Assert_Failed (Inr ([], r)))
        (\<lambda>(buf, r1). Inr (buf, r1\<lparr>sr_totalSize := sr_totalSize r1 + dr_data_size rec,
           sr_recIdx := sr_recIdx r1 + 1\<rparr>)))"

text \<open>\<open>None\<close> stands for the return value false.\<close>

definition reader_readDiff :: "sorted_reader \<Rightarrow> ((walb_diff_record \<times> u8 list) option \<times> sorted_reader) res" where
  "reader_readDiff r =
     res_bind (reader_prepareRead r) (\<lambda>(ok, r1).
       if \<not> ok then Inr (None, r1)
       else ensure (dp_n_records (sr_pack r1) = 0 \<or> sr_recIdx r1 < dp_n_records (sr_pack r1)) Assert_Failed
         (res_bind (dpack_at (sr_pack r1) (unat (sr_recIdx r1))) (\<lambda>rec.
           if \<not> rec_isValid rec then Inl (Exception ''invalid record'')
           else res_bind (reader_readDiffIo rec True r1) (\<lambda>(buf, r2). Inr (Some (rec, buf), r2)))))"

definition reader_readAndUncompressDiff ::
  "decoder \<Rightarrow> bool \<Rightarrow> sorted_reader \<Rightarrow> ((walb_diff_record \<times> u8 list) option \<times> sorted_reader) res"
where
  "reader_readAndUncompressDiff lib_dec calcCsum r =
     res_bind (reader_readDiff r) (\<lambda>(x, r1).
       case x of
         None \<Rightarrow> Inr (None, r1)
       | Some (rec, buf) \<Rightarrow>
           if \<not> rec_isNormal rec \<or> \<not> rec_isCompressed rec then Inr (Some (rec, buf), r1)
           else res_bind (uncompressDiffIo lib_dec rec buf calcCsum) (\<lambda>out. Inr (Some out, r1)))"

section \<open>Diffs in memory and files\<close>

fun mem_write_entries ::
  "encoder \<Rightarrow> u8 \<Rightarrow> DiffRecIo list \<Rightarrow> sorted_writer \<Rightarrow> sorted_writer res"
where
  "mem_write_entries lib_enc cmprType [] w = Inr w"
| "mem_write_entries lib_enc cmprType (r # rs) w =
     ensure (rio_isValid r False) Assert_Failed
       (res_bind
         (if cmprType \<noteq> WALB_DIFF_CMPR_NONE
          then writer_compressAndWriteDiff lib_enc (rio_rec r) (rio_io r) cmprType 0 w
          else writer_writeDiff_ptr (rio_rec r\<lparr>dr_checksum := calcDiffIoChecksum (rio_io r)\<rparr>) (rio_io r) w)
         (mem_write_entries lib_enc cmprType rs))"

definition mem_writeTo :: "encoder \<Rightarrow> u8 \<Rightarrow> diff_memory \<Rightarrow> (u8 list \<times> diff_memory) res" where
  "mem_writeTo lib_enc cmprType dm =
     res_bind (writer_writeHeader (mem_fileH dm) (writer_setFd [])) (\<lambda>(h, w).
     res_bind (mem_write_entries lib_enc cmprType (map snd (mem_map dm)) w) (\<lambda>w1.
     res_bind (writer_close w1) (\<lambda>w2. Inr (sw_file w2, dm\<lparr>mem_fileH := h\<rparr>))))"

text \<open>The loop of \<open>readFrom\<close>; \<open>None\<close> would be a loop that does not end.\<close>

partial_function (option) mem_read_loop ::
  "decoder \<Rightarrow> sorted_reader \<Rightarrow> diff_memory \<Rightarrow> diff_memory res option"
where
  "mem_read_loop lib_dec r dm =
     (case reader_readAndUncompressDiff lib_dec False r of
        Inl e \<Rightarrow> Some (Inl e)
      | Inr (x, r1) \<Rightarrow>
          (case x of
             None \<Rightarrow> Some (Inr dm)
           | Some (rec, buf) \<Rightarrow>
               (case mem_add rec buf dm of
                  Inl e \<Rightarrow> Some (Inl e)
                | Inr dm1 \<Rightarrow> mem_read_loop lib_dec r1 dm1)))"

definition mem_readFrom :: "decoder \<Rightarrow> u8 list \<Rightarrow> diff_memory \<Rightarrow> diff_memory res option" where
  "mem_readFrom lib_dec f dm =
     (case reader_readHeader True (reader_init f) of
        Inl e \<Rightarrow> Some (Inl e)
      | Inr (h, r) \<Rightarrow> mem_read_loop lib_dec r (dm\<lparr>mem_fileH := h\<rparr>))"

section \<open>IndexedDiffWriter\<close>

record indexed_writer =
  iw_file :: "u8 list"
  iw_isWrittenHeader :: bool
  iw_isClosed :: bool
  iw_offset :: u64
  iw_n_data :: u64
  iw_indexMem :: diff_index_mem
  iw_stat :: DiffStatistics

definition iw_init :: "u8 list \<Rightarrow> u32 \<Rightarrow> indexed_writer" where
  "iw_init f mx = \<lparr>iw_file = f, iw_isWrittenHeader = False, iw_isClosed = True, iw_offset = 0,
     iw_n_data = 0, iw_indexMem = \<lparr>idx_index = [], idx_maxIoBlocks = mx\<rparr>,
     iw_stat = stat_clear\<lparr>wdiffNr := 1\<rparr>\<rparr>"

definition iw_setFd :: "u8 list \<Rightarrow> u32 \<Rightarrow> indexed_writer" where
  "iw_setFd f mx = iw_init f mx\<lparr>iw_isClosed := False\<rparr>"

definition iw_writeHeader ::
  "walb_diff_file_header \<Rightarrow> indexed_writer \<Rightarrow> (walb_diff_file_header \<times> indexed_writer) res"
where
  "iw_writeHeader h w =
     (if iw_isWrittenHeader w then Inl (Exception ''do not call writeHeader() more than once.'')
      else let (f, h1) = file_header_writeTo (iw_file w) (h\<lparr>fh_type := WALB_DIFF_TYPE_INDEXED\<rparr>)
        in ensure (iw_offset w = 0) Assert_Failed
          (Inr (h1, w\<lparr>iw_file := f, iw_offset := iw_offset w + of_nat DIFF_FILE_HEADER_SIZE,
             iw_isWrittenHeader := True\<rparr>)))"

text \<open>\<open>data\<close> is the memory behind the pointer; \<open>None\<close> is the null pointer.\<close>

definition iw_writeDiff ::
  "walb_indexed_diff_record \<Rightarrow> u8 list option \<Rightarrow> indexed_writer \<Rightarrow> indexed_writer res"
where
  "iw_writeDiff rec data w =
     res_bind (if iw_isWrittenHeader w then Inr ()
       else Inl (Exception ''checkWrittenHeader: call writeHeader() before writeDiff().'')) (\<lambda>_.
     let r = rec\<lparr>ir_data_offset := iw_offset w\<rparr> in
     res_bind
       (if irec_isNormal rec then
          (case data of
             None \<Rightarrow> Inl Assert_Failed
           | Some d \<Rightarrow> res_bind (updateRecChecksum r) (\<lambda>r1.
               res_bind (read_at d 0 (unat (ir_data_size rec))) (\<lambda>bs.
                 Inr (r1, w\<lparr>iw_file := iw_file w @ bs,
                   iw_stat := (iw_stat w)\<lparr>dataSize := dataSize (iw_stat w) + ucast (ir_data_size rec)\<rparr>,
                   iw_offset := iw_offset w + ucast (ir_data_size rec)\<rparr>))))
        else Inr (r, w))
       (\<lambda>(r1, w1). res_bind (idx_add r1 (iw_indexMem w1)) (\<lambda>im.
          Inr (w1\<lparr>iw_indexMem := im, iw_n_data := iw_n_data w1 + 1\<rparr>))))"

definition iw_compressAndWriteDiff ::
  "encoder \<Rightarrow> walb_indexed_diff_record \<Rightarrow> u8 list \<Rightarrow> u8 \<Rightarrow> nat \<Rightarrow> indexed_writer \<Rightarrow> indexed_writer res"
where
  "iw_compressAndWriteDiff lib_enc rec data type level w =
     (if \<not> irec_isNormal rec then iw_writeDiff rec None w
      else if irec_isCompressed rec then iw_writeDiff rec (Some data) w
      else res_bind (read_at data 0 (unat (ir_io_blocks rec * LOGICAL_BLOCK_SIZE))) (\<lambda>xs.
        res_bind (compressData lib_enc xs type level) (\<lambda>(t, buf).
          iw_writeDiff (rec\<lparr>ir_compression_type := t, ir_data_size := of_nat (length buf),
             ir_io_checksum := calcDiffIoChecksum buf\<rparr>) (Some buf) w)))"

definition iw_writeSuper :: "indexed_writer \<Rightarrow> indexed_writer" where
  "iw_writeSuper w =
     (let s = index_super_updateChecksum \<lparr>is_index_offset = iw_offset w,
          is_n_records = of_nat (length (idx_index (iw_indexMem w))), is_n_data = ucast (iw_n_data w),
          is_reserved1 = 0, is_checksum = 0\<rparr>
      in w\<lparr>iw_file := iw_file w @ index_super_bytes s\<rparr>)"

fun stat_update_irecs :: "walb_indexed_diff_record list \<Rightarrow> DiffStatistics \<Rightarrow> DiffStatistics res" where
  "stat_update_irecs [] st = Inr st"
| "stat_update_irecs (r # rs) st = res_bind (stat_update_irec r st) (stat_update_irecs rs)"

definition iw_finalize :: "indexed_writer \<Rightarrow> indexed_writer res" where
  "iw_finalize w =
     (if iw_isClosed w then Inr w
      else
        let delta = iw_offset w mod 8;
            padding = 8 - delta;
            w1 = (if delta > 0
                  then w\<lparr>iw_file := iw_file w @ replicate (unat padding) 0, iw_offset := iw_offset w + padding\<rparr>
                  else w)
        in res_bind (stat_update_irecs (idx_getAsVec (iw_indexMem w1)) (iw_stat w1)) (\<lambda>st.
          Inr (iw_writeSuper (w1\<lparr>iw_file := idx_writeTo (iw_file w1) (iw_indexMem w1), iw_stat := st\<rparr>)
            \<lparr>iw_isClosed := True\<rparr>)))"

end
