(* ===== verification/Diff_Cache.thy ===== *)
theory Diff_Cache
  imports Diff_File "HOL-Library.AList"
begin

text \<open>
  Reading of wdiff files of both formats: \<open>IndexedDiffCache\<close>, \<open>IndexedDiffReader\<close> and
  \<open>BothDiffReader\<close> of \<^verbatim>\<open>src/walb_diff_file.hpp\<close> and \<^verbatim>\<open>src/walb_diff_file.cpp\<close>. The cache is
  a list of items, the one used last in front, and a hash map from keys to list iterators; an
  iterator is the number the item got when it was inserted. A memory-mapped file is the list of its
  bytes, and an access behind its end is an error.
\<close>

section \<open>IndexedDiffCache\<close>

text \<open>The tag is the address of a reader; readers are numbered.\<close>

type_synonym cache_key = "nat \<times> u64"

record cache_item =
  ci_it :: nat
  ci_key :: cache_key
  ci_data :: "u8 list"

record diff_cache =
  ic_maxBytes :: u64
  ic_curBytes :: u64
  ic_lruList :: "cache_item list"
  ic_map :: "(cache_key \<times> nat) list"
  ic_next :: nat

definition cache_new :: diff_cache where
  "cache_new = \<lparr>ic_maxBytes = 0, ic_curBytes = 0, ic_lruList = [], ic_map = [], ic_next = 0\<rparr>"

definition cache_setMaxSize :: "u64 \<Rightarrow> diff_cache \<Rightarrow> diff_cache" where
  "cache_setMaxSize bytes c = c\<lparr>ic_maxBytes := bytes\<rparr>"

text \<open>\<open>push_front\<close> of a new list node and the entry of the map that points to it.\<close>

definition cache_push_front :: "cache_key \<Rightarrow> u8 list \<Rightarrow> diff_cache \<Rightarrow> diff_cache" where
  "cache_push_front key d c =
     c\<lparr>ic_lruList := \<lparr>ci_it = ic_next c, ci_key = key, ci_data = d\<rparr> # ic_lruList c,
       ic_map := AList.update key (ic_next c) (ic_map c), ic_next := ic_next c + 1\<rparr>"

text \<open>The result is the data behind the pointer that \<open>find\<close> returns; \<open>None\<close> is the null pointer.\<close>

definition cache_find :: "cache_key \<Rightarrow> diff_cache \<Rightarrow> (u8 list option \<times> diff_cache) res" where
  "cache_find key c =
     (case map_of (ic_map c) key of
        None \<Rightarrow> Inr (None, c)
      | Some lit \<Rightarrow>
          (case List.find (\<lambda>x. ci_it x = lit) (ic_lruList c) of
             None \<Rightarrow> Inl Out_Of_Bounds
           | Some x \<Rightarrow> Inr (Some (ci_data x),
               cache_push_front key (ci_data x)
                 (c\<lparr>ic_lruList := filter (\<lambda>y. ci_it y \<noteq> lit) (ic_lruList c)\<rparr>))))"

definition evictOne :: "diff_cache \<Rightarrow> diff_cache" where
  "evictOne c =
     (if ic_lruList c = [] then c
      else let item = last (ic_lruList c) in
        c\<lparr>ic_map := AList.delete (ci_key item) (ic_map c),
          ic_curBytes := ic_curBytes c - of_nat (length (ci_data item)),
          ic_lruList := butlast (ic_lruList c)\<rparr>)"

text \<open>With an empty list the loop would not end.\<close>

partial_function (option) evict_loop :: "diff_cache \<Rightarrow> diff_cache option" where
  "evict_loop c =
     (if ic_curBytes c > ic_maxBytes c \<and> length (ic_map c) > 1 then evict_loop (evictOne c) else Some c)"

definition cache_add :: "cache_key \<Rightarrow> u8 list \<Rightarrow> diff_cache \<Rightarrow> diff_cache res option" where
  "cache_add key d c =
     (if map_of (ic_map c) key \<noteq> None then Some (Inl (Exception ''already in cache''))
      else map_option Inr
        (evict_loop (cache_push_front key d (c\<lparr>ic_curBytes := ic_curBytes c + of_nat (length d)\<rparr>))))"

definition cache_clear :: "diff_cache \<Rightarrow> diff_cache" where
  "cache_clear c = c\<lparr>ic_lruList := [], ic_map := [], ic_curBytes := 0\<rparr>"

section \<open>IndexedDiffReader\<close>

definition indexed_record_of :: "u8 list \<Rightarrow> walb_indexed_diff_record" where
  "indexed_record_of bs =
     \<lparr>ir_io_address = le_load (take 8 bs), ir_io_blocks = le_load (take 4 (drop 8 bs)),
      ir_flags = le_load (take 1 (drop 12 bs)), ir_compression_type = le_load (take 1 (drop 13 bs)),
      ir_reserved1 = le_load (take 2 (drop 14 bs)), ir_data_offset = le_load (take 8 (drop 16 bs)),
      ir_data_size = le_load (take 4 (drop 24 bs)), ir_io_offset = le_load (take 4 (drop 28 bs)),
      ir_orig_blocks = le_load (take 4 (drop 32 bs)), ir_reserved2 = le_load (take 4 (drop 36 bs)),
      ir_io_checksum = le_load (take 4 (drop 40 bs)), ir_rec_checksum = le_load (take 4 (drop 44 bs))\<rparr>"

definition index_super_of :: "u8 list \<Rightarrow> walb_diff_index_super" where
  "index_super_of bs =
     \<lparr>is_index_offset = le_load (take 8 bs), is_n_records = le_load (take 4 (drop 8 bs)),
      is_n_data = le_load (take 4 (drop 12 bs)), is_reserved1 = le_load (take 4 (drop 16 bs)),
      is_checksum = le_load (take 4 (drop 20 bs))\<rparr>"

text \<open>\<open>ird_this\<close> is the address of the object, \<open>ird_cache\<close> says whether \<open>cache_\<close> is set.\<close>

record indexed_reader =
  ird_this :: nat
  ird_memFile :: "u8 list"
  ird_header :: walb_diff_file_header
  ird_idxBgnOffset :: u64
  ird_idxEndOffset :: u64
  ird_idxOffset :: u64
  ird_cache :: bool
  ird_stat :: DiffStatistics

definition ird_new :: "nat \<Rightarrow> indexed_reader" where
  "ird_new this = \<lparr>ird_this = this, ird_memFile = [], ird_header = file_header_init, ird_idxBgnOffset = 0,
     ird_idxEndOffset = 0, ird_idxOffset = 0, ird_cache = False, ird_stat = stat_clear\<rparr>"

definition ird_setFile :: "bool \<Rightarrow> u8 list \<Rightarrow> indexed_reader \<Rightarrow> indexed_reader res" where
  "ird_setFile seekable f rd =
     (if \<not> seekable then Inl (Exception ''non-seekable file descriptor is not supported'')
      else res_bind (read_at f 0 DIFF_FILE_HEADER_SIZE) (\<lambda>hb.
        let h = diff_file_header_of hb in
        res_bind (file_header_verify h) (\<lambda>_.
        if fh_type h \<noteq> WALB_DIFF_TYPE_INDEXED then Inl (Exception ''Not indexed diff file'')
        else
          let e = of_nat (length f) - 24 :: u64 in
          res_bind (read_at f (unat e) 24) (\<lambda>sb.
          let super = index_super_of sb in
          res_bind (index_super_verify super) (\<lambda>_.
            Inr (rd\<lparr>ird_memFile := f, ird_header := h, ird_cache := True, ird_idxEndOffset := e,
              ird_idxBgnOffset := is_index_offset super, ird_idxOffset := is_index_offset super,
              ird_stat := stat_clear\<lparr>wdiffNr := 1,
                dataSize := is_index_offset super - of_nat DIFF_FILE_HEADER_SIZE\<rparr>\<rparr>))))))"

text \<open>\<open>None\<close> stands for the return value false.\<close>

definition getNextRec :: "indexed_reader \<Rightarrow> (walb_indexed_diff_record option \<times> indexed_reader) res" where
  "getNextRec rd =
     (if ird_idxOffset rd \<ge> ird_idxEndOffset rd then Inr (None, rd)
      else res_bind (read_at (ird_memFile rd) (unat (ird_idxOffset rd)) 48) (\<lambda>bs.
        Inr (Some (indexed_record_of bs), rd\<lparr>ird_idxOffset := ird_idxOffset rd + 48\<rparr>)))"

definition readDiffRecord ::
  "bool \<Rightarrow> indexed_reader \<Rightarrow> (walb_indexed_diff_record option \<times> indexed_reader) res"
where
  "readDiffRecord doVerify rd =
     res_bind (getNextRec rd) (\<lambda>(x, rd1).
       case x of
         None \<Rightarrow> Inr (None, rd1)
       | Some rec \<Rightarrow>
           res_bind (if doVerify then irec_verify rec True else Inr ()) (\<lambda>_.
           res_bind (stat_update_irec rec (ird_stat rd1)) (\<lambda>st.
             Inr (Some rec, rd1\<lparr>ird_stat := st\<rparr>))))"

definition verifyIoData :: "u64 \<Rightarrow> u32 \<Rightarrow> u32 \<Rightarrow> bool \<Rightarrow> indexed_reader \<Rightarrow> bool res" where
  "verifyIoData offset sz csum throwError rd =
     res_bind (read_at (ird_memFile rd) (unat offset) (unat sz)) (\<lambda>bs.
       if calcChecksum bs 0 = csum then Inr True
       else if throwError then Inl (Exception ''IO data invalid'') else Inr False)"

definition isOnCache ::
  "walb_indexed_diff_record \<Rightarrow> indexed_reader \<Rightarrow> diff_cache \<Rightarrow> (bool \<times> diff_cache) res"
where
  "isOnCache rec rd c =
     res_bind (cache_find (ird_this rd, ir_data_offset rec) c) (\<lambda>(p, c1). Inr (p \<noteq> None, c1))"

definition loadToCache ::
  "decoder \<Rightarrow> walb_indexed_diff_record \<Rightarrow> bool \<Rightarrow> indexed_reader \<Rightarrow> diff_cache \<Rightarrow> (bool \<times> diff_cache) res option"
where
  "loadToCache lib_dec rec throwError rd c =
     (case res_bind (isOnCache rec rd c) (\<lambda>(on, c1).
         ensure (\<not> on) Assert_Failed
           (res_bind (verifyIoData (ir_data_offset rec) (ir_data_size rec) (ir_io_checksum rec) throwError rd) (\<lambda>ok.
            if \<not> ok then Inr (None, c1)
            else res_bind (read_at (ird_memFile rd) (unat (ir_data_offset rec)) (unat (ir_data_size rec))) (\<lambda>bs.
              res_bind (uncompressData lib_dec bs (unat (ir_orig_blocks rec * LOGICAL_BLOCK_SIZE))
                (ir_compression_type rec)) (\<lambda>p. Inr (Some p, c1)))))) of
        Inl e \<Rightarrow> Some (Inl e)
      | Inr (None, c1) \<Rightarrow> Some (Inr (False, c1))
      | Inr (Some p, c1) \<Rightarrow> map_option (\<lambda>r. res_bind r (\<lambda>c2. Inr (True, c2)))
          (cache_add (ird_this rd, ir_data_offset rec) p c1))"

text \<open>The copy out of the cached image; a null pointer is an error.\<close>

definition copyFromCache :: "walb_indexed_diff_record \<Rightarrow> u8 list option \<Rightarrow> u8 list res" where
  "copyFromCache rec ary =
     (case ary of
        None \<Rightarrow> Inl Null_Pointer
      | Some d \<Rightarrow> read_at d (unat (ir_io_offset rec * LOGICAL_BLOCK_SIZE)) (unat (ir_io_blocks rec * LOGICAL_BLOCK_SIZE)))"

definition ird_readDiffIo ::
  "decoder \<Rightarrow> walb_indexed_diff_record \<Rightarrow> u8 list \<Rightarrow> indexed_reader \<Rightarrow> diff_cache \<Rightarrow> (u8 list \<times> diff_cache) res option"
where
  "ird_readDiffIo lib_dec rec buf rd c =
     (if \<not> irec_isNormal rec then Some (Inr (buf, c))
      else if \<not> ird_cache rd then Some (Inl (Exception ''BUG: cache_ must be set.''))
      else
        let key = (ird_this rd, ir_data_offset rec) in
        case cache_find key c of
          Inl e \<Rightarrow> Some (Inl e)
        | Inr (Some d, c1) \<Rightarrow> Some (res_bind (copyFromCache rec (Some d)) (\<lambda>out. Inr (out, c1)))
        | Inr (None, c1) \<Rightarrow>
            map_option (\<lambda>r. res_bind r (\<lambda>(_, c2).
              res_bind (cache_find key c2) (\<lambda>(ary, c3).
              res_bind (copyFromCache rec ary) (\<lambda>out. Inr (out, c3)))))
            (loadToCache lib_dec rec True rd c1))"

definition ird_readDiff ::
  "decoder \<Rightarrow> u8 list \<Rightarrow> indexed_reader \<Rightarrow> diff_cache
     \<Rightarrow> (walb_indexed_diff_record option \<times> u8 list \<times> indexed_reader \<times> diff_cache) res option"
where
  "ird_readDiff lib_dec buf rd c =
     (case readDiffRecord True rd of
        Inl e \<Rightarrow> Some (Inl e)
      | Inr (None, rd1) \<Rightarrow> Some (Inr (None, buf, rd1, c))
      | Inr (Some rec, rd1) \<Rightarrow>
          map_option (\<lambda>r. res_bind r (\<lambda>(buf1, c1). Inr (Some rec, buf1, rd1, c1)))
            (ird_readDiffIo lib_dec rec buf rd1 c))"

section \<open>BothDiffReader\<close>

record both_reader =
  br_head :: walb_diff_file_header
  br_sreader :: sorted_reader
  br_ireader :: indexed_reader
  br_cache :: bool

definition both_new :: "nat \<Rightarrow> both_reader" where
  "both_new this = \<lparr>br_head = file_header_init, br_sreader = reader_init [], br_ireader = ird_new this,
     br_cache = False\<rparr>"

definition both_setCache :: "both_reader \<Rightarrow> both_reader" where
  "both_setCache b = b\<lparr>br_cache := True\<rparr>"

definition both_setFile :: "bool \<Rightarrow> u8 list \<Rightarrow> both_reader \<Rightarrow> both_reader res" where
  "both_setFile seekable f b =
     res_bind (file_header_readFrom f) (\<lambda>(h, rest).
     res_bind (file_header_isIndexed h) (\<lambda>ix.
       let b1 = b\<lparr>br_head := h\<rparr> in
       if ix then
         (if \<not> br_cache b then Inl (Exception ''cache is not set for indexed reader.'')
          else res_bind (ird_setFile seekable f (br_ireader b1)) (\<lambda>rd. Inr (b1\<lparr>br_ireader := rd\<rparr>)))
       else res_bind (reader_dontReadHeader True (reader_init rest)) (\<lambda>r. Inr (b1\<lparr>br_sreader := r\<rparr>))))"

text \<open>What \<open>read\<close> fills in: address, blocks, type and data. \<open>None\<close> is the end.\<close>

type_synonym io_piece = "u64 \<times> u32 \<times> DiffRecType \<times> u8 list"

definition both_read ::
  "decoder \<Rightarrow> u8 list \<Rightarrow> both_reader \<Rightarrow> diff_cache \<Rightarrow> (io_piece option \<times> both_reader \<times> diff_cache) res option"
where
  "both_read lib_dec buf b c =
     (case file_header_isIndexed (br_head b) of
        Inl e \<Rightarrow> Some (Inl e)
      | Inr True \<Rightarrow>
          map_option (\<lambda>r. res_bind r (\<lambda>(x, buf1, rd, c1).
            let b1 = b\<lparr>br_ireader := rd\<rparr> in
            case x of
              None \<Rightarrow> Inr (None, b1, c1)
            | Some rec \<Rightarrow> res_bind (getDiffRecType (irec_isNormal rec) (irec_isDiscard rec) (irec_isAllZero rec)) (\<lambda>t.
                Inr (Some (ir_io_address rec, ir_io_blocks rec, t, buf1), b1, c1))))
          (ird_readDiff lib_dec buf (br_ireader b) c)
      | Inr False \<Rightarrow>
          Some (res_bind (reader_readAndUncompressDiff lib_dec False (br_sreader b)) (\<lambda>(x, r).
            let b1 = b\<lparr>br_sreader := r\<rparr> in
            case x of
              None \<Rightarrow> Inr (None, b1, c)
            | Some (rec, buf1) \<Rightarrow> res_bind (getDiffRecType (rec_isNormal rec) (rec_isDiscard rec) (rec_isAllZero rec)) (\<lambda>t.
                Inr (Some (dr_io_address rec, dr_io_blocks rec, t, buf1), b1, c)))))"

end
