(* ===== verification/Diff_Merge.thy ===== *)
theory Diff_Merge
  imports Diff_Mem Diff_Cache
begin

text \<open>
  The merger of wdiff files: \<open>DiffMerger\<close> of \<^verbatim>\<open>src/walb_diff_merge.hpp\<close> and
  \<^verbatim>\<open>src/walb_diff_merge.cpp\<close>. It reads all wdiffs side by side, adds IOs to a diff in memory in an order
  in which no older IO can follow a newer one on the same blocks, and hands out IOs as soon as
  no wdiff can change them any more. Methods of a wdiff may read from its file and so change the
  shared cache of images, which is passed along. The parallel variant of \<open>mergeToFd\<close> uses threads and is
  left out.
\<close>

section \<open>DiffMerger::Wdiff\<close>

record wdiff =
  wd_sReader :: sorted_reader
  wd_iReader :: indexed_reader
  wd_isIndexed :: bool
  wd_header :: walb_diff_file_header
  wd_rec :: walb_diff_record
  wd_buf :: "u8 list"
  wd_isFilled :: bool
  wd_isEnd :: bool

definition wd_new :: "nat \<Rightarrow> wdiff" where
  "wd_new this = \<lparr>wd_sReader = reader_init [], wd_iReader = ird_new this, wd_isIndexed = False,
     wd_header = file_header_init, wd_rec = DiffRecord_init, wd_buf = [], wd_isFilled = False, wd_isEnd = False\<rparr>"

text \<open>\<open>hasCache\<close> tells whether the pointer to the cache is not null.\<close>

definition wd_setFile :: "bool \<Rightarrow> bool \<Rightarrow> u8 list \<Rightarrow> wdiff \<Rightarrow> wdiff res" where
  "wd_setFile hasCache seekable f wd =
     res_bind (file_header_readFrom f) (\<lambda>(h, rest).
     res_bind (file_header_isIndexed h) (\<lambda>ix.
       let wd1 = wd\<lparr>wd_header := h, wd_isIndexed := ix\<rparr> in
       if ix then
         (if \<not> hasCache then Inl (Exception ''indexed diff cache must be specified.'')
          else res_bind (ird_setFile seekable f (wd_iReader wd1)) (\<lambda>rd. Inr (wd1\<lparr>wd_iReader := rd\<rparr>)))
       else res_bind (reader_dontReadHeader True (reader_init rest)) (\<lambda>r. Inr (wd1\<lparr>wd_sReader := r\<rparr>))))"

text \<open>The conversion of an indexed record; the flag is the return value.\<close>

definition readIndexedDiff :: "decoder \<Rightarrow> wdiff \<Rightarrow> diff_cache \<Rightarrow> (bool \<times> wdiff \<times> diff_cache) res option" where
  "readIndexedDiff lib_dec wd c =
     obind (ird_readDiff lib_dec (wd_buf wd) (wd_iReader wd) c) (\<lambda>(x, buf, rd, c1).
       let wd1 = wd\<lparr>wd_iReader := rd, wd_buf := buf\<rparr> in
       case x of
         None \<Rightarrow> Some (Inr (False, wd1, c1))
       | Some irec \<Rightarrow>
           let rec = DiffRecord_init\<lparr>dr_io_address := ir_io_address irec, dr_io_blocks := ir_io_blocks irec,
                 dr_flags := ir_flags irec\<rparr> in
           if \<not> irec_isNormal irec then Some (Inr (True, wd1\<lparr>wd_rec := rec\<rparr>, c1))
           else
             let rec1 = rec\<lparr>dr_compression_type := WALB_DIFF_CMPR_NONE, dr_data_offset := 0,
                   dr_data_size := ir_io_blocks irec * LOGICAL_BLOCK_SIZE, dr_checksum := ir_io_checksum irec\<rparr>
             in Some (ensure (length buf = unat (dr_data_size rec1)) Assert_Failed
                  (Inr (True, wd1\<lparr>wd_rec := rec1\<rparr>, c1))))"

definition wd_fill :: "decoder \<Rightarrow> wdiff \<Rightarrow> diff_cache \<Rightarrow> (wdiff \<times> diff_cache) res option" where
  "wd_fill lib_dec wd c =
     (if wd_isEnd wd \<or> wd_isFilled wd then Some (Inr (wd, c))
      else
        obind
          (if wd_isIndexed wd then readIndexedDiff lib_dec wd c
           else Some (res_bind (reader_readAndUncompressDiff lib_dec False (wd_sReader wd)) (\<lambda>(x, r).
             let wd1 = wd\<lparr>wd_sReader := r\<rparr> in
             case x of
               None \<Rightarrow> Inr (False, wd1, c)
             | Some (rec, buf) \<Rightarrow> Inr (True, wd1\<lparr>wd_rec := rec, wd_buf := buf\<rparr>, c))))
          (\<lambda>(success, wd1, c1).
            Some (Inr (if success then wd1\<lparr>wd_isFilled := True\<rparr> else wd1\<lparr>wd_isEnd := True\<rparr>, c1))))"

definition wd_atEnd :: "decoder \<Rightarrow> wdiff \<Rightarrow> diff_cache \<Rightarrow> (bool \<times> wdiff \<times> diff_cache) res option" where
  "wd_atEnd lib_dec wd c = obind (wd_fill lib_dec wd c) (\<lambda>(wd1, c1). Some (Inr (wd_isEnd wd1, wd1, c1)))"

text \<open>\<open>verifyNotEnd\<close> and \<open>verifyFilled\<close> as in a debug build.\<close>

definition verifyNotEnd :: "decoder \<Rightarrow> wdiff \<Rightarrow> diff_cache \<Rightarrow> (wdiff \<times> diff_cache) res option" where
  "verifyNotEnd lib_dec wd c =
     obind (wd_atEnd lib_dec wd c) (\<lambda>(e, wd1, c1).
       Some (if e then Inl (Exception ''reached to end'') else Inr (wd1, c1)))"

definition verifyFilled :: "wdiff \<Rightarrow> unit res" where
  "verifyFilled wd = (if \<not> wd_isFilled wd then Inl (Exception ''not filled'') else Inr ())"

definition getFrontRec :: "decoder \<Rightarrow> wdiff \<Rightarrow> diff_cache \<Rightarrow> (walb_diff_record \<times> wdiff \<times> diff_cache) res option" where
  "getFrontRec lib_dec wd c =
     obind (verifyNotEnd lib_dec wd c) (\<lambda>(wd1, c1).
     obind (wd_fill lib_dec wd1 c1) (\<lambda>(wd2, c2). Some (Inr (wd_rec wd2, wd2, c2))))"

definition currentAddress :: "decoder \<Rightarrow> wdiff \<Rightarrow> diff_cache \<Rightarrow> (u64 \<times> wdiff \<times> diff_cache) res option" where
  "currentAddress lib_dec wd c =
     obind (wd_atEnd lib_dec wd c) (\<lambda>(e, wd1, c1).
       if e then Some (Inr (- 1, wd1, c1))
       else Some (res_bind (verifyFilled wd1) (\<lambda>_. Inr (dr_io_address (wd_rec wd1), wd1, c1))))"

text \<open>The buffer that is moved from is empty.\<close>

definition getAndRemoveIo :: "decoder \<Rightarrow> wdiff \<Rightarrow> diff_cache \<Rightarrow> (u8 list \<times> wdiff \<times> diff_cache) res option" where
  "getAndRemoveIo lib_dec wd c =
     obind (verifyNotEnd lib_dec wd c) (\<lambda>(wd1, c1).
       let endIoAddr0 = rec_endIoAddress (wd_rec wd1) in
       obind (Some (verifyFilled wd1)) (\<lambda>_.
       let buf = wd_buf wd1 in
       obind (wd_fill lib_dec (wd1\<lparr>wd_buf := [], wd_isFilled := False\<rparr>) c1) (\<lambda>(wd2, c2).
       obind (wd_atEnd lib_dec wd2 c2) (\<lambda>(e, wd3, c3).
         Some (if \<not> e \<and> dr_io_address (wd_rec wd3) < endIoAddr0
           then Inl (Exception ''Invalid wdiff: IOs must be sorted and not overlapped each other.'')
           else Inr (buf, wd3, c3))))))"

definition wd_getStat :: "wdiff \<Rightarrow> DiffStatistics" where
  "wd_getStat wd = (if wd_isIndexed wd then ird_stat (wd_iReader wd) else sr_stat (wd_sReader wd))"

section \<open>Ranges\<close>

record merge_range =
  rg_bgn :: u64
  rg_end :: u64

definition range_of :: "walb_diff_record \<Rightarrow> merge_range" where
  "range_of rec = \<lparr>rg_bgn = dr_io_address rec, rg_end = rec_endIoAddress rec\<rparr>"

definition rg_isOverlapped :: "merge_range \<Rightarrow> merge_range \<Rightarrow> bool" where
  "rg_isOverlapped r rhs \<longleftrightarrow> rg_bgn r < rg_end rhs \<and> rg_bgn rhs < rg_end r"

definition rg_isLeftRight :: "merge_range \<Rightarrow> merge_range \<Rightarrow> bool" where
  "rg_isLeftRight r rhs \<longleftrightarrow> rg_end r \<le> rg_bgn rhs"

definition rg_merge :: "merge_range \<Rightarrow> merge_range \<Rightarrow> merge_range" where
  "rg_merge r rhs = \<lparr>rg_bgn = min (rg_bgn r) (rg_bgn rhs), rg_end = max (rg_end r) (rg_end rhs)\<rparr>"

text \<open>The assertion that the size fits into \<open>size_t\<close> always holds on 64-bit machines.\<close>

definition rg_size :: "merge_range \<Rightarrow> u64" where
  "rg_size r = rg_end r - rg_bgn r"

text \<open>The cluster of the leftmost IOs, as the loop over the wdiffs maintains it.\<close>

definition rg_cluster :: "merge_range \<Rightarrow> merge_range \<Rightarrow> merge_range res" where
  "rg_cluster rgn curRange =
     (if rg_isOverlapped rgn curRange then Inr (rg_merge rgn curRange)
      else if rg_isLeftRight curRange rgn then Inr curRange
      else ensure (rg_isLeftRight rgn curRange) Assert_Failed (Inr rgn))"

section \<open>DiffMerger\<close>

definition DEFAULT_MERGE_BUFFER_LB :: u64 where
  "DEFAULT_MERGE_BUFFER_LB = 4 * 1048576 div ucast LOGICAL_BLOCK_SIZE"

record diff_merger =
  mg_shouldValidateUuid :: bool
  mg_wdiffH :: walb_diff_file_header
  mg_isHeaderPrepared :: bool
  mg_wdiffs :: "wdiff list"
  mg_diffMem :: diff_memory
  mg_mergedQ :: "DiffRecIo list"
  mg_doneAddr :: u64
  mg_searchLen :: u64
  mg_cache :: diff_cache
  mg_statIn :: DiffStatistics
  mg_statOut :: DiffStatistics

definition merger_new :: "u64 \<Rightarrow> diff_merger" where
  "merger_new initSearchLen = \<lparr>mg_shouldValidateUuid = False, mg_wdiffH = file_header_init,
     mg_isHeaderPrepared = False, mg_wdiffs = [], mg_diffMem = mem_new, mg_mergedQ = [], mg_doneAddr = 0,
     mg_searchLen = initSearchLen, mg_cache = cache_new, mg_statIn = stat_clear, mg_statOut = stat_clear\<rparr>"

definition merger_setMaxIoBlocks :: "u32 \<Rightarrow> diff_merger \<Rightarrow> diff_merger" where
  "merger_setMaxIoBlocks n mg = mg\<lparr>mg_diffMem := mem_setMaxIoBlocks n (mg_diffMem mg)\<rparr>"

definition setShouldValidateUuid :: "bool \<Rightarrow> diff_merger \<Rightarrow> diff_merger" where
  "setShouldValidateUuid b mg = mg\<lparr>mg_shouldValidateUuid := b\<rparr>"

definition setMaxCacheSize :: "u64 \<Rightarrow> diff_merger \<Rightarrow> diff_merger" where
  "setMaxCacheSize bytes mg = mg\<lparr>mg_cache := cache_setMaxSize bytes (mg_cache mg)\<rparr>"

text \<open>\<open>this\<close> names the new \<open>Wdiff\<close> object; files are given by their bytes and can be seeked.\<close>

definition addWdiff :: "nat \<Rightarrow> u8 list \<Rightarrow> diff_merger \<Rightarrow> diff_merger res" where
  "addWdiff this f mg =
     res_bind (wd_setFile True True f (wd_new this)) (\<lambda>wd. Inr (mg\<lparr>mg_wdiffs := mg_wdiffs mg @ [wd]\<rparr>))"

fun addWdiffs :: "(nat \<times> u8 list) list \<Rightarrow> diff_merger \<Rightarrow> diff_merger res" where
  "addWdiffs [] mg = Inr mg"
| "addWdiffs ((this, f) # fileV) mg = res_bind (addWdiff this f mg) (addWdiffs fileV)"

definition shouldMerge :: "walb_diff_record \<Rightarrow> u64 \<Rightarrow> diff_merger \<Rightarrow> bool" where
  "shouldMerge rec minAddr mg \<longleftrightarrow>
     dr_io_address rec < mg_doneAddr mg + mg_searchLen mg \<and> rec_endIoAddress rec \<le> minAddr"

definition mergeIo :: "walb_diff_record \<Rightarrow> u8 list \<Rightarrow> diff_merger \<Rightarrow> diff_merger res" where
  "mergeIo rec buf mg =
     ensure (\<not> rec_isCompressed rec) Assert_Failed
       (res_bind (mem_add rec buf (mg_diffMem mg)) (\<lambda>dm. Inr (mg\<lparr>mg_diffMem := dm\<rparr>)))"

text \<open>
  The inner loop: IOs of one wdiff go to the diff in memory. The result is the count, the range, whether
  the wdiff ended, the wdiff and the merger.
\<close>

partial_function (option) merge_front ::
  "decoder \<Rightarrow> u64 \<Rightarrow> u64 \<Rightarrow> merge_range \<Rightarrow> walb_diff_record \<Rightarrow> wdiff \<Rightarrow> diff_merger
     \<Rightarrow> (u64 \<times> merge_range \<times> bool \<times> wdiff \<times> diff_merger) res option"
where
  "merge_front lib_dec nextDoneAddr nr curRange rec wd mg =
     (if \<not> shouldMerge rec nextDoneAddr mg then Some (Inr (nr, curRange, False, wd, mg))
      else obind (getAndRemoveIo lib_dec wd (mg_cache mg)) (\<lambda>t.
        obind (Some (mergeIo rec (fst t) (mg\<lparr>mg_cache := snd (snd t)\<rparr>))) (\<lambda>mg1.
        obind (wd_atEnd lib_dec (fst (snd t)) (mg_cache mg1)) (\<lambda>u.
          if fst u then
            Some (Inr (nr + 1, rg_merge curRange (range_of rec), True, fst (snd u),
              mg1\<lparr>mg_cache := snd (snd u), mg_statIn := stat_update_stat (wd_getStat (fst (snd u))) (mg_statIn mg1)\<rparr>))
          else obind (getFrontRec lib_dec (fst (snd u)) (snd (snd u))) (\<lambda>v.
            merge_front lib_dec nextDoneAddr (nr + 1) (rg_merge curRange (range_of rec)) (fst v) (fst (snd v))
              (mg1\<lparr>mg_cache := snd (snd v)\<rparr>))))))"

text \<open>The loop over the wdiffs: count, minimum address, next \<open>doneAddr_\<close>, range and the wdiffs that stay.\<close>

fun merge_wdiffs ::
  "decoder \<Rightarrow> wdiff list \<Rightarrow> u64 \<Rightarrow> u64 \<Rightarrow> u64 \<Rightarrow> merge_range \<Rightarrow> diff_merger
     \<Rightarrow> (u64 \<times> u64 \<times> u64 \<times> merge_range \<times> wdiff list \<times> diff_merger) res option"
where
  "merge_wdiffs lib_dec [] nr minAddr nextDoneAddr rgn mg = Some (Inr (nr, minAddr, nextDoneAddr, rgn, [], mg))"
| "merge_wdiffs lib_dec (wd # wds) nr minAddr nextDoneAddr rgn mg =
     obind (getFrontRec lib_dec wd (mg_cache mg)) (\<lambda>(rec, wd1, c1).
     obind (merge_front lib_dec nextDoneAddr nr (range_of rec) rec wd1 (mg\<lparr>mg_cache := c1\<rparr>))
       (\<lambda>(nr1, curRange, ended, wd2, mg1).
     obind (Some (rg_cluster rgn curRange)) (\<lambda>range1.
       if ended then
         merge_wdiffs lib_dec wds nr1 (min minAddr (dr_io_address rec)) nextDoneAddr range1 mg1
       else obind (currentAddress lib_dec wd2 (mg_cache mg1)) (\<lambda>(a, wd3, c2).
         obind (merge_wdiffs lib_dec wds nr1 (min minAddr (dr_io_address rec)) (min nextDoneAddr a) range1
             (mg1\<lparr>mg_cache := c2\<rparr>)) (\<lambda>(nr2, m, n, rg, kept, mg2).
           Some (Inr (nr2, m, n, rg, wd3 # kept, mg2)))))))"

definition tryMoveToDiffMemory :: "decoder \<Rightarrow> diff_merger \<Rightarrow> (u64 \<times> diff_merger) res option" where
  "tryMoveToDiffMemory lib_dec mg =
     (case mg_wdiffs mg of
        [] \<Rightarrow> Some (Inr (0, mg\<lparr>mg_doneAddr := - 1\<rparr>))
      | wd # wds \<Rightarrow>
          obind (getFrontRec lib_dec wd (mg_cache mg)) (\<lambda>(rec, wd1, c1).
          obind (merge_wdiffs lib_dec (wd1 # wds) 0 (- 1) (- 1) (range_of rec) (mg\<lparr>mg_cache := c1\<rparr>))
            (\<lambda>(nr, minAddr, nextDoneAddr, rgn, kept, mg1).
              Some (ensure (minAddr \<noteq> - 1 \<longrightarrow> minAddr = rg_bgn rgn) Assert_Failed
                (Inr (nr, mg1\<lparr>mg_wdiffs := kept, mg_searchLen := max (mg_searchLen mg1) (rg_size rgn),
                   mg_doneAddr := nextDoneAddr\<rparr>))))))"

definition moveToDiffMemory :: "decoder \<Rightarrow> diff_merger \<Rightarrow> diff_merger res option" where
  "moveToDiffMemory lib_dec mg =
     obind (tryMoveToDiffMemory lib_dec mg) (\<lambda>(nr, mg1).
     obind (if nr = 0 \<and> mg_wdiffs mg1 \<noteq> [] then tryMoveToDiffMemory lib_dec mg1 else Some (Inr (nr, mg1)))
       (\<lambda>(nr1, mg2).
         Some (if mg_wdiffs mg2 \<noteq> [] then ensure (0 < nr1) Assert_Failed (Inr mg2) else Inr mg2)))"

text \<open>The loop always looks at the first entry of the map; \<open>es\<close> are the entries that are left.\<close>

fun flush_loop :: "DiffRecIo entries \<Rightarrow> diff_merger \<Rightarrow> diff_merger res" where
  "flush_loop [] mg = Inr mg"
| "flush_loop (e # es) mg =
     (if mg_doneAddr mg < rec_endIoAddress (rio_rec (snd e)) then Inr mg
      else res_bind (eraseFromMap 0 (mg_diffMem mg)) (\<lambda>dm.
        flush_loop es (mg\<lparr>mg_mergedQ := mg_mergedQ mg @ [snd e], mg_diffMem := dm\<rparr>)))"

definition moveToMergedQueue :: "diff_merger \<Rightarrow> (bool \<times> diff_merger) res" where
  "moveToMergedQueue mg =
     (if mem_map (mg_diffMem mg) = [] then Inr (False, mg)
      else res_bind (flush_loop (mem_map (mg_diffMem mg)) mg) (\<lambda>mg1. Inr (True, mg1)))"

partial_function (option) merger_next ::
  "decoder \<Rightarrow> diff_merger \<Rightarrow> (DiffRecIo option \<times> diff_merger) res option"
where
  "merger_next lib_dec mg =
     (case mg_mergedQ mg of
        r # q \<Rightarrow> Some (Inr (Some r, mg\<lparr>mg_mergedQ := q\<rparr>))
      | [] \<Rightarrow>
          obind (moveToDiffMemory lib_dec mg) (\<lambda>mg1.
          obind (Some (moveToMergedQueue mg1)) (\<lambda>t.
            if \<not> fst t then Some (ensure (mg_wdiffs (snd t) = []) Assert_Failed (Inr (None, snd t)))
            else merger_next lib_dec (snd t))))"

text \<open>\<open>None\<close> stands for the return value false.\<close>

definition getAndRemove :: "decoder \<Rightarrow> diff_merger \<Rightarrow> (DiffRecIo option \<times> diff_merger) res option" where
  "getAndRemove lib_dec mg =
     (if \<not> mg_isHeaderPrepared mg then Some (Inl Assert_Failed) else merger_next lib_dec mg)"

fun verifyUuid_loop :: "u8 list \<Rightarrow> wdiff list \<Rightarrow> unit res" where
  "verifyUuid_loop uuid [] = Inr ()"
| "verifyUuid_loop uuid (wd # wds) =
     (if fh_uuid (wd_header wd) \<noteq> uuid then Inl (Exception ''uuid differ'') else verifyUuid_loop uuid wds)"

fun remove_ended :: "decoder \<Rightarrow> wdiff list \<Rightarrow> diff_merger \<Rightarrow> (wdiff list \<times> diff_merger) res option" where
  "remove_ended lib_dec [] mg = Some (Inr ([], mg))"
| "remove_ended lib_dec (wd # wds) mg =
     obind (wd_atEnd lib_dec wd (mg_cache mg)) (\<lambda>(e, wd1, c1).
       if e then
         remove_ended lib_dec wds
           (mg\<lparr>mg_cache := c1, mg_statIn := stat_update_stat (wd_getStat wd1) (mg_statIn mg)\<rparr>)
       else obind (remove_ended lib_dec wds (mg\<lparr>mg_cache := c1\<rparr>)) (\<lambda>(kept, mg1).
         Some (Inr (wd1 # kept, mg1))))"

definition removeEndedWdiffs :: "decoder \<Rightarrow> diff_merger \<Rightarrow> diff_merger res option" where
  "removeEndedWdiffs lib_dec mg =
     obind (remove_ended lib_dec (mg_wdiffs mg) mg) (\<lambda>(kept, mg1). Some (Inr (mg1\<lparr>mg_wdiffs := kept\<rparr>)))"

fun min_addr :: "decoder \<Rightarrow> wdiff list \<Rightarrow> u64 \<Rightarrow> diff_cache \<Rightarrow> (u64 \<times> wdiff list \<times> diff_cache) res option" where
  "min_addr lib_dec [] addr c = Some (Inr (addr, [], c))"
| "min_addr lib_dec (wd # wds) addr c =
     obind (getFrontRec lib_dec wd c) (\<lambda>(rec, wd1, c1).
     obind (min_addr lib_dec wds (min addr (dr_io_address rec)) c1) (\<lambda>(a, wds1, c2).
       Some (Inr (a, wd1 # wds1, c2))))"

definition getMinimumAddr :: "decoder \<Rightarrow> diff_merger \<Rightarrow> (u64 \<times> diff_merger) res option" where
  "getMinimumAddr lib_dec mg =
     obind (min_addr lib_dec (mg_wdiffs mg) (- 1) (mg_cache mg)) (\<lambda>(a, wds, c).
       Some (Inr (a, mg\<lparr>mg_wdiffs := wds, mg_cache := c\<rparr>)))"

definition merger_prepare :: "decoder \<Rightarrow> diff_merger \<Rightarrow> diff_merger res option" where
  "merger_prepare lib_dec mg =
     (if mg_isHeaderPrepared mg then Some (Inr mg)
      else if mg_wdiffs mg = [] then Some (Inl (Exception ''Wdiffs are not set.''))
      else
        let uuid = fh_uuid (wd_header (last (mg_wdiffs mg))) in
        obind (Some (if mg_shouldValidateUuid mg then verifyUuid_loop uuid (mg_wdiffs mg) else Inr ())) (\<lambda>_.
        obind (removeEndedWdiffs lib_dec (mg\<lparr>mg_wdiffH := file_header_setUuid uuid file_header_init\<rparr>)) (\<lambda>mg1.
        obind (getMinimumAddr lib_dec mg1) (\<lambda>(a, mg2).
          Some (Inr (mg2\<lparr>mg_doneAddr := a, mg_isHeaderPrepared := True\<rparr>))))))"

definition merger_header :: "diff_merger \<Rightarrow> walb_diff_file_header res" where
  "merger_header mg = ensure (mg_isHeaderPrepared mg) Assert_Failed (Inr (mg_wdiffH mg))"

definition merger_statIn :: "diff_merger \<Rightarrow> DiffStatistics res" where
  "merger_statIn mg = ensure (mg_wdiffs mg = []) Assert_Failed (Inr (mg_statIn mg))"

definition merger_statOut :: "diff_merger \<Rightarrow> DiffStatistics res" where
  "merger_statOut mg = ensure (mg_wdiffs mg = []) Assert_Failed (Inr (mg_statOut mg))"

partial_function (option) merge_write_loop ::
  "encoder \<Rightarrow> decoder \<Rightarrow> sorted_writer \<Rightarrow> diff_merger \<Rightarrow> (sorted_writer \<times> diff_merger) res option"
where
  "merge_write_loop lib_enc lib_dec w mg =
     obind (getAndRemove lib_dec mg) (\<lambda>t.
       case fst t of
         None \<Rightarrow> Some (Inr (w, snd t))
       | Some d \<Rightarrow>
           obind (Some (ensure (rio_isValid d False) Assert_Failed
             (writer_compressAndWriteDiff lib_enc (rio_rec d) (rio_io d) WALB_DIFF_CMPR_SNAPPY 0 w))) (\<lambda>w1.
             merge_write_loop lib_enc lib_dec w1 (snd t)))"

definition mergeToFd :: "encoder \<Rightarrow> decoder \<Rightarrow> diff_merger \<Rightarrow> (u8 list \<times> diff_merger) res option" where
  "mergeToFd lib_enc lib_dec mg =
     obind (merger_prepare lib_dec mg) (\<lambda>mg1.
     obind (Some (writer_writeHeader (mg_wdiffH mg1) (writer_setFd []))) (\<lambda>(h, w).
     obind (merge_write_loop lib_enc lib_dec w (mg1\<lparr>mg_wdiffH := h\<rparr>)) (\<lambda>(w1, mg2).
     obind (Some (writer_close w1)) (\<lambda>w2.
       Some (ensure (mg_wdiffs mg2 = []) Assert_Failed
         (ensure (mem_map (mg_diffMem mg2) = []) Assert_Failed
           (Inr (sw_file w2, mg2\<lparr>mg_statOut := stat_update_stat (sw_stat w2) (mg_statOut mg2)\<rparr>))))))))"

end
