(* ===== verification/Diff_Virt.thy ===== *)
theory Diff_Virt
  imports Diff_Merge File_Io
begin

text \<open>
  \<open>VirtualFullScanner\<close> of \<^verbatim>\<open>src/walb_diff_virt.hpp\<close> and \<^verbatim>\<open>src/walb_diff_virt.cpp\<close>: a base image read
  with the merged contents of wdiffs over it. The data that a method stores in the caller's buffer is
  part of its result. The base image is an open file (theory \<open>File_Io\<close>), the wdiffs are the bytes of
  their files. A scanner without a file has an empty one; nothing is read before \<open>init\<close>.
\<close>

record virt_scanner =
  vs_reader :: os_file
  vs_isInputFdSeekable :: bool
  vs_merger :: diff_merger
  vs_addr :: u64
  vs_recIo :: DiffRecIo
  vs_offInIo :: u32
  vs_isEndDiff :: bool
  vs_emptyWdiff :: bool
  vs_statOut :: DiffStatistics

definition DiffRecIo_init :: DiffRecIo where
  "DiffRecIo_init = \<lparr>rio_rec = DiffRecord_init, rio_io = []\<rparr>"

definition virt_new :: virt_scanner where
  "virt_new = \<lparr>vs_reader = \<lparr>fl_bytes = [], fl_pos = 0, fl_seekable = False\<rparr>, vs_isInputFdSeekable = False,
     vs_merger = merger_new DEFAULT_MERGE_BUFFER_LB, vs_addr = 0, vs_recIo = DiffRecIo_init, vs_offInIo = 0,
     vs_isEndDiff = False, vs_emptyWdiff = False, vs_statOut = stat_clear\<rparr>"

definition virt_init_inner :: "os_file \<Rightarrow> virt_scanner \<Rightarrow> virt_scanner" where
  "virt_init_inner reader sc = sc\<lparr>vs_reader := reader, vs_isInputFdSeekable := fd_seekable reader\<rparr>"

definition virt_init ::
  "decoder \<Rightarrow> os_file \<Rightarrow> (nat \<times> u8 list) list \<Rightarrow> virt_scanner \<Rightarrow> virt_scanner res option"
where
  "virt_init lib_dec reader fileV sc =
     (let sc1 = (virt_init_inner reader sc)\<lparr>vs_emptyWdiff := (fileV = [])\<rparr> in
      if vs_emptyWdiff sc1 then Some (Inr (sc1\<lparr>vs_statOut := stat_clear\<rparr>))
      else
        obind (Some (addWdiffs fileV (vs_merger sc1))) (\<lambda>mg.
        obind (merger_prepare lib_dec mg) (\<lambda>mg1.
          Some (Inr (sc1\<lparr>vs_merger := mg1, vs_statOut := stat_clear\<rparr>)))))"

definition virt_statIn :: "virt_scanner \<Rightarrow> DiffStatistics res" where
  "virt_statIn sc = merger_statIn (vs_merger sc)"

definition currentDiffAddr :: "virt_scanner \<Rightarrow> u64" where
  "currentDiffAddr sc = dr_io_address (rio_rec (vs_recIo sc)) + ucast (vs_offInIo sc)"

definition currentDiffBlocks :: "virt_scanner \<Rightarrow> u32 res" where
  "currentDiffBlocks sc =
     ensure (vs_offInIo sc \<le> dr_io_blocks (rio_rec (vs_recIo sc))) Assert_Failed
       (Inr (dr_io_blocks (rio_rec (vs_recIo sc)) - vs_offInIo sc))"

definition fillDiffIo :: "decoder \<Rightarrow> virt_scanner \<Rightarrow> virt_scanner res option" where
  "fillDiffIo lib_dec sc =
     (if vs_emptyWdiff sc \<or> vs_isEndDiff sc then Some (Inr sc)
      else if \<not> vs_offInIo sc \<le> dr_io_blocks (rio_rec (vs_recIo sc)) then Some (Inl Assert_Failed)
      else if vs_offInIo sc = dr_io_blocks (rio_rec (vs_recIo sc)) then
        obind (getAndRemove lib_dec (vs_merger sc)) (\<lambda>(r, mg).
          let sc1 = sc\<lparr>vs_offInIo := 0, vs_merger := mg\<rparr>;
              sc2 = (case r of
                Some d \<Rightarrow> sc1\<lparr>vs_recIo := d\<rparr>
              | None \<Rightarrow> sc1\<lparr>vs_isEndDiff := True, vs_recIo := DiffRecIo_init,
                  vs_statOut := (vs_statOut sc1)\<lparr>wdiffNr := - 1, dataSize := - 1\<rparr>\<rparr>) in
          Some (res_bind (stat_update_rec (rio_rec (vs_recIo sc2)) (vs_statOut sc2)) (\<lambda>st.
            Inr (sc2\<lparr>vs_statOut := st\<rparr>))))
      else Some (Inr sc))"

text \<open>The loop of \<open>readBase\<close>: it stops at the end of the file.\<close>

function base_loop :: "os_io \<Rightarrow> nat \<Rightarrow> os_file \<Rightarrow> (u8 list \<times> os_file) res" where
  "base_loop os n f =
     (if n = 0 then Inr ([], f)
      else res_bind (fd_readsome os n f) (\<lambda>(d, f1).
        if d = [] then Inr ([], f1)
        else res_bind (base_loop os (n - length d) f1) (\<lambda>(ds, f2). Inr (d @ ds, f2))))"
  by pat_completeness auto
termination by (relation "measure (\<lambda>(os, n, f). n)") auto

declare base_loop.simps [simp del]

definition readBase :: "os_io \<Rightarrow> u64 \<Rightarrow> virt_scanner \<Rightarrow> (u8 list \<times> virt_scanner) res" where
  "readBase os blks sc =
     res_bind (base_loop os (unat (blks * ucast LOGICAL_BLOCK_SIZE)) (vs_reader sc)) (\<lambda>(d, f).
       let rest = blks * ucast LOGICAL_BLOCK_SIZE - of_nat (length d) in
       if rest mod ucast LOGICAL_BLOCK_SIZE \<noteq> 0
       then Inl (Exception ''input data is not a multiples of LOGICAL_BLOCK_SIZE.'')
       else
         let readLb = blks - rest div ucast LOGICAL_BLOCK_SIZE in
         Inr (take (unat (readLb * ucast LOGICAL_BLOCK_SIZE)) d,
           sc\<lparr>vs_reader := f, vs_addr := vs_addr sc + readLb\<rparr>))"

fun skip_blocks :: "os_io \<Rightarrow> nat \<Rightarrow> os_file \<Rightarrow> os_file res" where
  "skip_blocks os 0 f = Inr f"
| "skip_blocks os (Suc k) f =
     res_bind (fd_read os (unat LOGICAL_BLOCK_SIZE) f) (\<lambda>(d, f1). skip_blocks os k f1)"

definition skipBase :: "os_io \<Rightarrow> u64 \<Rightarrow> virt_scanner \<Rightarrow> virt_scanner res" where
  "skipBase os blks sc =
     res_bind
       (if vs_isInputFdSeekable sc
        then fd_lseek (sint (blks * ucast LOGICAL_BLOCK_SIZE)) SEEK_CUR (vs_reader sc)
        else skip_blocks os (unat blks) (vs_reader sc))
       (\<lambda>f. Inr (sc\<lparr>vs_reader := f\<rparr>))"

definition readWdiff :: "os_io \<Rightarrow> u64 \<Rightarrow> virt_scanner \<Rightarrow> (u8 list \<times> virt_scanner) res" where
  "readWdiff os blks sc =
     (let rec = rio_rec (vs_recIo sc) in
      ensure (rio_isValid (vs_recIo sc) False) Assert_Failed
     (ensure (vs_offInIo sc < dr_io_blocks rec) Assert_Failed
     (res_bind
       (if rec_isNormal rec
        then read_at (rio_io (vs_recIo sc)) (unat (vs_offInIo sc * LOGICAL_BLOCK_SIZE))
               (unat (blks * ucast LOGICAL_BLOCK_SIZE))
        else ensure (rec_isDiscard rec \<or> rec_isAllZero rec) Assert_Failed
               (Inr (replicate (unat (blks * ucast LOGICAL_BLOCK_SIZE)) 0))) (\<lambda>d.
      let off = vs_offInIo sc + ucast blks in
      ensure (off \<le> dr_io_blocks rec) Assert_Failed
     (res_bind (skipBase os blks (sc\<lparr>vs_offInIo := off\<rparr>)) (\<lambda>sc1.
        Inr (d, sc1\<lparr>vs_addr := vs_addr sc1 + blks\<rparr>)))))))"

definition readSome ::
  "decoder \<Rightarrow> os_io \<Rightarrow> u64 \<Rightarrow> virt_scanner \<Rightarrow> (u8 list \<times> virt_scanner) res option"
where
  "readSome lib_dec os sz sc =
     (if sz mod ucast LOGICAL_BLOCK_SIZE \<noteq> 0 then Some (Inl Assert_Failed)
      else
        let blks = (ucast (sz div ucast LOGICAL_BLOCK_SIZE) :: u32) in
        if (ucast (blks * LOGICAL_BLOCK_SIZE) :: u64) \<noteq> sz then Some (Inl Assert_Failed)
        else obind (fillDiffIo lib_dec sc) (\<lambda>sc1. Some (
          if vs_emptyWdiff sc1 \<or> vs_isEndDiff sc1 then readBase os (ucast blks) sc1
          else
            let diffAddr = currentDiffAddr sc1 in
            ensure (vs_addr sc1 \<le> diffAddr) Assert_Failed
              (if vs_addr sc1 = diffAddr
               then res_bind (currentDiffBlocks sc1) (\<lambda>n. readWdiff os (ucast (min blks n)) sc1)
               else
                 let blksToIo = diffAddr - vs_addr sc1 in
                 readBase os (ucast (if blksToIo < ucast blks then ucast blksToIo else blks)) sc1))))"

partial_function (option) virt_read ::
  "decoder \<Rightarrow> os_io \<Rightarrow> u64 \<Rightarrow> virt_scanner \<Rightarrow> (u8 list \<times> virt_scanner) res option"
where
  "virt_read lib_dec os sz sc =
     (if sz = 0 then Some (Inr ([], sc))
      else obind (readSome lib_dec os sz sc) (\<lambda>t.
        if fst t = [] then Some (Inl EofError)
        else obind (virt_read lib_dec os (sz - of_nat (length (fst t))) (snd t)) (\<lambda>u.
          Some (Inr (fst t @ fst u, snd u)))))"

text \<open>The \<open>fdatasync\<close> after the last block is not modelled: the bytes are those of the file, not of the disk.\<close>

partial_function (option) readAndWriteTo ::
  "decoder \<Rightarrow> os_io \<Rightarrow> os_io \<Rightarrow> u64 \<Rightarrow> os_file \<Rightarrow> virt_scanner \<Rightarrow> (os_file \<times> virt_scanner) res option"
where
  "readAndWriteTo lib_dec osr osw bufSize writer sc =
     obind (readSome lib_dec osr bufSize sc) (\<lambda>t.
       if fst t = [] then Some (Inr (writer, snd t))
       else obind (Some (fd_write osw (fst t) writer)) (\<lambda>w.
         readAndWriteTo lib_dec osr osw bufSize w (snd t)))"

end
