(* ===== verification/Diff_File_Laws.thy ===== *)
theory Diff_File_Laws
  imports Diff_File
begin

text \<open>
  What wdiff files guarantee: images of headers and packs are read back, a pack holds the IOs that
  were added to it, the reader of a sorted wdiff returns the IOs that were written, and a diff in
  memory that is written, compressed or not, is read back with the same contents.
\<close>

section \<open>Images\<close>

lemma le_load_byte [simp]: "le_load [b] = (b :: u8)"
  by (simp add: le_load_def)

lemma length_diff_record_bytes [simp]: "length (diff_record_bytes r) = 32"
  by (simp add: diff_record_bytes_def)

lemma diff_record_of_bytes [simp]: "diff_record_of (diff_record_bytes r) = r"
  by (simp add: diff_record_bytes_def diff_record_of_def)

lemma length_concat_diff_records [simp]: "length (concat (map diff_record_bytes rs)) = 32 * length rs"
  by (induction rs) simp_all

lemma diff_records_of_bytes:
  "diff_records_of (length rs) (concat (map diff_record_bytes rs) @ xs) = rs"
  by (induction rs) simp_all

definition file_header_ok :: "walb_diff_file_header \<Rightarrow> bool" where
  "file_header_ok h \<longleftrightarrow> length (fh_uuid h) = 16"

lemma length_file_header_bytes: "file_header_ok h \<Longrightarrow> length (diff_file_header_bytes h) = 32"
  by (simp add: file_header_ok_def diff_file_header_bytes_def)

lemma file_header_of_bytes: "file_header_ok h \<Longrightarrow> diff_file_header_of (diff_file_header_bytes h) = h"
  by (simp add: file_header_ok_def diff_file_header_bytes_def diff_file_header_of_def)

interpretation file_header_sum: checksummed file_header_ok diff_file_header_bytes "\<lambda>c h. h\<lparr>fh_checksum := c\<rparr>"
proof
  fix c and h :: walb_diff_file_header
  assume "file_header_ok h"
  then show "file_header_ok (h\<lparr>fh_checksum := c\<rparr>)" "4 dvd length (diff_file_header_bytes h)"
    by (simp_all add: file_header_ok_def diff_file_header_bytes_def)
  show "word_sum (diff_file_header_bytes (h\<lparr>fh_checksum := c\<rparr>)) =
      c + word_sum (diff_file_header_bytes (h\<lparr>fh_checksum := 0\<rparr>))"
    by (simp add: diff_file_header_bytes_def)
qed

definition pack_image_ok :: "walb_diff_pack \<Rightarrow> bool" where
  "pack_image_ok p \<longleftrightarrow> length (dp_record p) = 127 \<and> length (dp_tail p) = 16"

lemma MAX_RECORDS: "MAX_N_RECORDS_IN_WALB_DIFF_PACK = 127"
  by (simp add: MAX_N_RECORDS_IN_WALB_DIFF_PACK_def WALB_DIFF_PACK_SIZE_def)

lemma length_diff_pack_bytes: "pack_image_ok p \<Longrightarrow> length (diff_pack_bytes p) = 4096"
  by (simp add: pack_image_ok_def diff_pack_bytes_def diff_pack_fields_def)

lemma diff_pack_of_bytes:
  assumes "pack_image_ok p"
  shows "diff_pack_of (diff_pack_bytes p) = p"
proof -
  have "diff_records_of 127 (concat (map diff_record_bytes (dp_record p)) @ dp_tail p) = dp_record p"
    using diff_records_of_bytes [of "dp_record p" "dp_tail p"] assms by (simp add: pack_image_ok_def)
  then show ?thesis
    using assms by (simp add: diff_pack_of_def diff_pack_bytes_def diff_pack_fields_def MAX_RECORDS pack_image_ok_def)
qed

interpretation pack_sum: checksummed pack_image_ok diff_pack_bytes "\<lambda>c p. p\<lparr>dp_checksum := c\<rparr>"
proof
  fix c and p :: walb_diff_pack
  assume "pack_image_ok p"
  then show "pack_image_ok (p\<lparr>dp_checksum := c\<rparr>)" "4 dvd length (diff_pack_bytes p)"
    by (simp_all add: pack_image_ok_def length_diff_pack_bytes)
  show "word_sum (diff_pack_bytes (p\<lparr>dp_checksum := c\<rparr>)) = c + word_sum (diff_pack_bytes (p\<lparr>dp_checksum := 0\<rparr>))"
    by (simp add: diff_pack_bytes_def diff_pack_fields_def)
qed

section \<open>The contents of a pack\<close>

type_synonym diff_io = "walb_diff_record \<times> u8 list"

text \<open>An IO as the writer takes it.\<close>

definition io_ok :: "diff_io \<Rightarrow> bool" where
  "io_ok x \<longleftrightarrow> rec_verify (fst x) = Inr () \<and> unat (dr_data_size (fst x)) < 2147483648
     \<and> (if rec_isNormal (fst x)
        then snd x \<noteq> [] \<and> length (snd x) = unat (dr_data_size (fst x))
          \<and> dr_checksum (fst x) = calcDiffIoChecksum (snd x)
        else snd x = [] \<and> dr_data_size (fst x) = 0)"

fun packed :: "u32 \<Rightarrow> diff_io list \<Rightarrow> walb_diff_record list" where
  "packed off [] = []"
| "packed off (x # xs) = (fst x)\<lparr>dr_data_offset := off\<rparr> # packed (off + dr_data_size (fst x)) xs"

definition total_data :: "diff_io list \<Rightarrow> nat" where
  "total_data xs = sum_list (map (\<lambda>x. unat (dr_data_size (fst x))) xs)"

lemma total_data_simps [simp]:
  "total_data [] = 0" "total_data (x # xs) = unat (dr_data_size (fst x)) + total_data xs"
  "total_data (xs @ ys) = total_data xs + total_data ys"
  by (simp_all add: total_data_def)

lemma length_packed [simp]: "length (packed off xs) = length xs"
  by (induction xs arbitrary: off) simp_all

lemma packed_append: "packed off (xs @ ys) = packed off xs @ packed (off + of_nat (total_data xs)) ys"
  by (induction xs arbitrary: off) (simp_all add: add.assoc)

definition pack_holds :: "walb_diff_pack \<Rightarrow> diff_io list \<Rightarrow> bool" where
  "pack_holds p xs \<longleftrightarrow> pack_image_ok p \<and> dp_n_records p = of_nat (length xs) \<and> length xs \<le> 127
     \<and> take (length xs) (dp_record p) = packed 0 xs \<and> dp_total_size p = of_nat (total_data xs)
     \<and> total_data xs < 2147483648 \<and> dp_flags p = 0"

lemma dpack_clear_image: "pack_image_ok dpack_clear" "dp_n_records dpack_clear = 0" "dp_flags dpack_clear = 0"
    "dp_total_size dpack_clear = 0"
proof -
  have "length (diff_records_of n bs) = n" for n bs by (induction n arbitrary: bs) simp_all
  then show "pack_image_ok dpack_clear"
    by (simp add: dpack_clear_def pack_image_ok_def diff_pack_of_def MAX_RECORDS WALB_DIFF_PACK_SIZE_def)
  have "le_val (replicate n 0) = 0" for n by (induction n) simp_all
  then show "dp_n_records dpack_clear = 0" "dp_flags dpack_clear = 0" "dp_total_size dpack_clear = 0"
    by (simp_all add: dpack_clear_def diff_pack_of_def WALB_DIFF_PACK_SIZE_def le_load_def)
qed

lemma pack_holds_clear: "pack_holds dpack_clear []"
  by (simp add: pack_holds_def dpack_clear_image)

lemma pack_holds_n: "pack_holds p xs \<Longrightarrow> unat (dp_n_records p) = length xs"
  by (simp add: pack_holds_def unat_of_nat)

lemma pack_holds_at:
  assumes "pack_holds p (xs @ y # ys)"
  shows "dpack_at p (length xs) = Inr ((fst y)\<lparr>dr_data_offset := of_nat (total_data xs)\<rparr>)"
proof -
  have "dp_record p ! length xs = take (length (xs @ y # ys)) (dp_record p) ! length xs"
    by simp
  also have "\<dots> = packed 0 (xs @ y # ys) ! length xs" using assms unfolding pack_holds_def by metis
  also have "\<dots> = (fst y)\<lparr>dr_data_offset := of_nat (total_data xs)\<rparr>"
    by (simp add: packed_append nth_append)
  finally show ?thesis using assms by (simp add: dpack_at_def pack_holds_def pack_image_ok_def)
qed

lemma pack_holds_not_end: "pack_holds p xs \<Longrightarrow> \<not> dpack_isEnd p"
  by (simp add: pack_holds_def dpack_isEnd_def)

lemma rec_flags_offset [simp]:
  "rec_isNormal (r\<lparr>dr_data_offset := k\<rparr>) = rec_isNormal r" "rec_isDiscard (r\<lparr>dr_data_offset := k\<rparr>) = rec_isDiscard r"
  "rec_isCompressed (r\<lparr>dr_data_offset := k\<rparr>) = rec_isCompressed r"
  "rec_verify (r\<lparr>dr_data_offset := k\<rparr>) = rec_verify r" "rec_verify (r\<lparr>dr_checksum := c\<rparr>) = rec_verify r"
  "rec_isNormal (r\<lparr>dr_checksum := c\<rparr>) = rec_isNormal r" "rec_isDiscard (r\<lparr>dr_checksum := c\<rparr>) = rec_isDiscard r"
  "rec_isCompressed (r\<lparr>dr_checksum := c\<rparr>) = rec_isCompressed r"
  "rec_isNormal (r\<lparr>dr_compression_type := t\<rparr>) = rec_isNormal r"
  "rec_isDiscard (r\<lparr>dr_compression_type := t\<rparr>) = rec_isDiscard r"
  by (simp_all add: rec_isNormal_def rec_isAllZero_def rec_isDiscard_def rec_isCompressed_def rec_verify_def)

lemma unat_of_nat_16: "k < 65536 \<Longrightarrow> unat (of_nat k :: u16) = k"
  by (simp add: unat_of_nat)

lemma pack_holds_total: "pack_holds p xs \<Longrightarrow> unat (dp_total_size p) = total_data xs"
  by (simp add: pack_holds_def unat_of_nat_u32)

lemma dpack_add_holds:
  assumes "pack_holds p xs" and "io_ok x"
  shows "\<exists>p'. dpack_add (fst x) p = Inr (canAdd p (dr_data_size (fst x)), p')
    \<and> (if canAdd p (dr_data_size (fst x)) then pack_holds p' (xs @ [x]) else p' = p)
    \<and> (xs = [] \<longrightarrow> canAdd p (dr_data_size (fst x)))"
proof -
  let ?d = "dr_data_size (fst x)"
  have valid: "rec_isValid (fst x)" and d: "unat ?d < 2147483648"
    using assms(2) by (simp_all add: io_ok_def rec_isValid_def)
  note n = pack_holds_n [OF assms(1)] and t = pack_holds_total [OF assms(1)]
  have first: "xs = [] \<longrightarrow> canAdd p ?d" using n by (auto simp: canAdd_def MAX_RECORDS word_gt_0 unat_eq_0)
  show ?thesis
  proof (cases "canAdd p ?d")
    case False
    then show ?thesis using valid first by (simp add: dpack_add_def)
  next
    case True
    let ?p = "p\<lparr>dp_record := (dp_record p)[unat (dp_n_records p) := (fst x)\<lparr>dr_data_offset := dp_total_size p\<rparr>],
        dp_n_records := dp_n_records p + 1, dp_total_size := dp_total_size p + ?d\<rparr>"
    have len: "length xs < 127" using True n by (auto simp: canAdd_def MAX_RECORDS split: if_splits)
    have small: "total_data xs < 2147483648" using assms(1) by (simp add: pack_holds_def)
    have sum: "unat (dp_total_size p + ?d) = total_data xs + unat ?d"
      using t d small by (simp add: unat_add_small)
    have total: "total_data (xs @ [x]) < 2147483648"
    proof (cases "xs = []")
      case True
      then show ?thesis using d by simp
    next
      case False
      then have "0 < dp_n_records p" using n by (simp add: word_gt_0 unat_gt_0 [symmetric])
      then have "unat (dp_total_size p + ?d) \<le> WALB_DIFF_PACK_MAX_SIZE"
        using True by (auto simp: canAdd_def split: if_splits)
      then show ?thesis using sum by (simp add: WALB_DIFF_PACK_MAX_SIZE_def)
    qed
    have img: "length (dp_record p) = 127" "take (length xs) (dp_record p) = packed 0 xs"
      "dp_total_size p = of_nat (total_data xs)"
      using assms(1) by (simp_all add: pack_holds_def pack_image_ok_def)
    have "take (Suc (length xs)) ((dp_record p)[length xs := (fst x)\<lparr>dr_data_offset := of_nat (total_data xs)\<rparr>])
        = packed 0 (xs @ [x])"
      using img len by (simp add: take_Suc_conv_app_nth packed_append)
    then have "pack_holds ?p (xs @ [x])"
      using assms(1) n len total by (simp add: pack_holds_def pack_image_ok_def unat_of_nat_16)
    then show ?thesis
      using True valid first n len img(1) by (simp add: dpack_add_def)
  qed
qed

definition chunk_ok :: "walb_diff_pack \<times> diff_io list \<Rightarrow> bool" where
  "chunk_ok c \<longleftrightarrow> pack_holds (fst c) (snd c) \<and> snd c \<noteq> [] \<and> dpack_verify (fst c) = Inr ()
     \<and> (\<forall>x \<in> set (snd c). io_ok x)"

definition chunk_bytes :: "walb_diff_pack \<times> diff_io list \<Rightarrow> u8 list" where
  "chunk_bytes c = diff_pack_bytes (fst c) @ concat (map snd (snd c))"

lemma dpack_verify_loop_ok:
  assumes "pack_holds p (xs @ ys)" and "\<forall>x \<in> set ys. rec_verify (fst x) = Inr ()"
  shows "dpack_verify_loop (length ys) (length xs) p = Inr ()"
  using assms
proof (induction ys arbitrary: xs)
  case (Cons y ys)
  then show ?case using pack_holds_at [of p xs y ys] Cons.IH [of "xs @ [y]"] by simp
qed simp

lemma dpack_seal:
  assumes "pack_holds p xs" and "\<forall>x \<in> set xs. rec_verify (fst x) = Inr ()"
  shows "\<exists>p'. dpack_updateChecksum p = Inr p' \<and> pack_holds p' xs \<and> dpack_verify p' = Inr ()"
proof -
  let ?p = "p\<lparr>dp_checksum := calcChecksum (diff_pack_bytes (p\<lparr>dp_checksum := 0\<rparr>)) 0\<rparr>"
  have h: "pack_holds ?p xs" using assms(1) by (simp add: pack_holds_def pack_image_ok_def)
  have "calcChecksum (diff_pack_bytes ?p) 0 = 0"
    using pack_sum.updated_verifies [of p 0] assms(1) by (simp add: pack_holds_def)
  then have "dpack_verify ?p = Inr ()"
    using dpack_verify_loop_ok [of ?p "[]" xs] h assms pack_holds_n [OF h]
    by (simp add: dpack_verify_def MAX_RECORDS) (simp add: pack_holds_def)
  then show ?thesis using h by (simp add: dpack_updateChecksum_def)
qed

lemma stat_update_rec_ok: "\<exists>st'. stat_update_rec r st = Inr st'"
  by (simp add: stat_update_rec_def updateDetail_def rec_isNormal_def)

lemma stat_update_pack_ok:
  assumes "pack_holds p xs"
  shows "\<exists>st'. stat_update_pack p st = Inr st'"
proof -
  have len: "length xs \<le> length (dp_record p)" using assms by (simp add: pack_holds_def pack_image_ok_def)
  have "k + i \<le> length (dp_record p) \<Longrightarrow> \<exists>st'. stat_update_loop k i p st = Inr st'" for k i st
  proof (induction k arbitrary: i st)
    case (Suc k)
    obtain st1 where "stat_update_rec (dp_record p ! i) st = Inr st1" using stat_update_rec_ok by blast
    then show ?case using Suc.IH [of "i + 1" st1] Suc.prems by (simp add: dpack_at_def)
  qed simp
  then show ?thesis using len pack_holds_n [OF assms] by (simp add: stat_update_pack_def)
qed

section \<open>Writing\<close>

definition writer_holds ::
  "sorted_writer \<Rightarrow> u8 list \<Rightarrow> (walb_diff_pack \<times> diff_io list) list \<Rightarrow> diff_io list \<Rightarrow> bool"
where
  "writer_holds w hdr cs xs \<longleftrightarrow> sw_file w = hdr @ concat (map chunk_bytes cs) \<and> sw_isWrittenHeader w
     \<and> \<not> sw_isClosed w \<and> pack_holds (sw_pack w) xs \<and> sw_ioQ w = map snd xs
     \<and> (\<forall>c \<in> set cs. chunk_ok c) \<and> (\<forall>x \<in> set xs. io_ok x)"

lemma write_ios_eq: "write_ios q f t = (f @ concat q, t + sum_list (map length q))"
  by (induction q arbitrary: f t) auto

lemma io_lengths: "\<forall>x \<in> set xs. io_ok x \<Longrightarrow> sum_list (map (length \<circ> snd) xs) = total_data xs"
  by (induction xs) (auto simp: io_ok_def split: if_splits)

lemma writePack_holds:
  assumes "writer_holds w hdr cs xs"
  shows "\<exists>w' cs'. writer_writePack w = Inr w' \<and> writer_holds w' hdr cs' []
    \<and> concat (map snd cs') = concat (map snd cs) @ xs"
proof (cases "xs = []")
  case True
  then have "dp_n_records (sw_pack w) = 0" "sw_ioQ w = []"
    using assms by (simp_all add: writer_holds_def pack_holds_def)
  then show ?thesis using assms True by (intro exI [of _ w] exI [of _ cs]) (simp add: writer_writePack_def)
next
  case False
  have h: "pack_holds (sw_pack w) xs" and ios: "\<forall>x \<in> set xs. io_ok x"
    and q: "sw_ioQ w = map snd xs" using assms by (simp_all add: writer_holds_def)
  have n: "dp_n_records (sw_pack w) \<noteq> 0" using pack_holds_n [OF h] False by auto
  obtain st where st: "stat_update_pack (sw_pack w) (sw_stat w) = Inr st" using stat_update_pack_ok [OF h] by blast
  obtain p where p: "dpack_updateChecksum (sw_pack w) = Inr p" "pack_holds p xs" "dpack_verify p = Inr ()"
    using dpack_seal [OF h] ios by (auto simp: io_ok_def)
  let ?w = "w\<lparr>sw_file := sw_file w @ chunk_bytes (p, xs), sw_stat := st, sw_pack := dpack_clear, sw_ioQ := []\<rparr>"
  have "writer_writePack w = Inr ?w"
    using n st p(1) q pack_holds_n [OF p(2)] pack_holds_total [OF p(2)] io_lengths [OF ios]
    by (simp add: writer_writePack_def dpack_writeTo_def write_ios_eq chunk_bytes_def)
  moreover have "writer_holds ?w hdr (cs @ [(p, xs)]) []"
    using assms p False by (simp add: writer_holds_def pack_holds_clear chunk_ok_def)
  ultimately show ?thesis by (intro exI [of _ ?w] exI [of _ "cs @ [(p, xs)]"]) simp
qed

lemma addAndPush_holds:
  assumes "writer_holds w hdr cs xs" and "io_ok x"
  shows "\<exists>r w'. addAndPush (fst x) (snd x) w = Inr (r, w')
    \<and> (if r then writer_holds w' hdr cs (xs @ [x]) else writer_holds w' hdr cs xs) \<and> (xs = [] \<longrightarrow> r)"
proof -
  have h: "pack_holds (sw_pack w) xs" using assms(1) by (simp add: writer_holds_def)
  show ?thesis
    using dpack_add_holds [OF h assms(2)] assms by (auto simp: addAndPush_def writer_holds_def)
qed

lemma writeDiff_holds:
  assumes "writer_holds w hdr cs xs" and "io_ok x"
  shows "\<exists>w' cs' xs'. writer_writeDiff (fst x) (snd x) w = Inr w' \<and> writer_holds w' hdr cs' xs'
    \<and> concat (map snd cs') @ xs' = concat (map snd cs) @ xs @ [x]"
proof -
  have chk: "checkWrittenHeader (sw_isWrittenHeader w) = Inr ()" "assertRecAndIo (fst x) (snd x) = Inr ()"
    using assms by (auto simp: writer_holds_def checkWrittenHeader_def assertRecAndIo_def io_ok_def split: if_splits)
  obtain r w1 where w1: "addAndPush (fst x) (snd x) w = Inr (r, w1)"
    "if r then writer_holds w1 hdr cs (xs @ [x]) else writer_holds w1 hdr cs xs"
    using addAndPush_holds [OF assms] by blast
  show ?thesis
  proof (cases r)
    case True
    then show ?thesis using w1 chk by (intro exI [of _ w1] exI [of _ cs] exI [of _ "xs @ [x]"]) (simp add: writer_writeDiff_def)
  next
    case False
    then obtain w2 cs2 where w2: "writer_writePack w1 = Inr w2" "writer_holds w2 hdr cs2 []"
      "concat (map snd cs2) = concat (map snd cs) @ xs"
      using writePack_holds w1(2) by fastforce
    obtain w3 where w3: "addAndPush (fst x) (snd x) w2 = Inr (True, w3)" "writer_holds w3 hdr cs2 [x]"
      using addAndPush_holds [OF w2(2) assms(2)] by fastforce
    show ?thesis
      using False w1(1) w2(1,3) w3 chk
      by (intro exI [of _ w3] exI [of _ cs2] exI [of _ "[x]"]) (simp add: writer_writeDiff_def)
  qed
qed

text \<open>The end of every file.\<close>

definition eof_bytes :: "u8 list" where
  "eof_bytes = (case writeDiffEofPack [] of Inl _ \<Rightarrow> [] | Inr f \<Rightarrow> f)"

lemma eof_pack:
  obtains p where "pack_image_ok p" and "dpack_isEnd p" and "dpack_verify p = Inr ()"
    and "eof_bytes = diff_pack_bytes p" and "\<And>f. writeDiffEofPack f = Inr (f @ eof_bytes)"
proof -
  let ?e = "dpack_setEnd dpack_clear"
  let ?p = "?e\<lparr>dp_checksum := calcChecksum (diff_pack_bytes (?e\<lparr>dp_checksum := 0\<rparr>)) 0\<rparr>"
  have img: "pack_image_ok ?e" using dpack_clear_image(1) by (simp add: pack_image_ok_def dpack_setEnd_def)
  then have ok: "pack_image_ok ?p" by (simp add: pack_image_ok_def)
  have "calcChecksum (diff_pack_bytes ?p) 0 = 0" using pack_sum.updated_verifies [OF img, of 0] .
  then have v: "dpack_verify ?p = Inr ()" by (simp add: dpack_verify_def dpack_setEnd_def dpack_clear_image)
  then have u: "dpack_updateChecksum ?e = Inr ?p" by (simp add: dpack_updateChecksum_def Let_def)
  have e: "dpack_isEnd ?p" by (simp add: dpack_isEnd_def dpack_setEnd_def dpack_clear_image WALB_DIFF_PACK_END_def)
  have w: "writeDiffEofPack f = Inr (f @ diff_pack_bytes ?p)" for f
    using u by (simp add: writeDiffEofPack_def dpack_writeTo_def)
  then have "eof_bytes = diff_pack_bytes ?p" by (simp add: eof_bytes_def)
  then show thesis using that [OF ok e v] w by simp
qed

lemma writer_close_holds:
  assumes "writer_holds w hdr cs xs"
  shows "\<exists>w' cs'. writer_close w = Inr w' \<and> sw_file w' = hdr @ concat (map chunk_bytes cs') @ eof_bytes
    \<and> (\<forall>c \<in> set cs'. chunk_ok c) \<and> concat (map snd cs') = concat (map snd cs) @ xs"
proof -
  obtain w1 cs1 where w1: "writer_writePack w = Inr w1" "writer_holds w1 hdr cs1 []"
    "concat (map snd cs1) = concat (map snd cs) @ xs"
    using writePack_holds [OF assms] by blast
  have "\<not> sw_isClosed w" using assms by (simp add: writer_holds_def)
  moreover obtain f where "writeDiffEofPack (sw_file w1) = Inr f" "f = sw_file w1 @ eof_bytes"
    using eof_pack by metis
  ultimately show ?thesis
    using w1 by (intro exI [of _ "w1\<lparr>sw_file := f, sw_isClosed := True\<rparr>"] exI [of _ cs1])
      (simp add: writer_close_def writer_holds_def)
qed

section \<open>Reading\<close>

definition reader_at ::
  "sorted_reader \<Rightarrow> diff_io list \<Rightarrow> (walb_diff_pack \<times> diff_io list) list \<Rightarrow> bool"
where
  "reader_at r xs cs \<longleftrightarrow> (\<exists>pre. pack_holds (sr_pack r) (pre @ xs) \<and> sr_recIdx r = of_nat (length pre)
     \<and> sr_totalSize r = of_nat (total_data pre) \<and> (\<forall>x \<in> set xs. io_ok x)
     \<and> sr_file r = concat (map snd xs) @ concat (map chunk_bytes cs) @ eof_bytes
     \<and> (\<forall>c \<in> set cs. chunk_ok c))"

text \<open>The reader has still to return the IOs \<open>ys\<close>.\<close>

definition reader_rest :: "sorted_reader \<Rightarrow> diff_io list \<Rightarrow> bool" where
  "reader_rest r ys \<longleftrightarrow> dpack_isEnd (sr_pack r) \<and> ys = []
     \<or> (\<exists>xs cs. reader_at r xs cs \<and> ys = xs @ concat (map snd cs))"

lemma read_pack:
  assumes "pack_image_ok p" and "dpack_verify p = Inr ()"
  shows "dpack_readFrom (diff_pack_bytes p @ f) True = Inr (p, f)"
proof -
  have len: "length (diff_pack_bytes p) = WALB_DIFF_PACK_SIZE"
    using length_diff_pack_bytes [OF assms(1)] by (simp add: WALB_DIFF_PACK_SIZE_def)
  then have "take WALB_DIFF_PACK_SIZE (diff_pack_bytes p @ f) = diff_pack_bytes p"
    and "drop WALB_DIFF_PACK_SIZE (diff_pack_bytes p @ f) = f" by simp_all
  then show ?thesis
    using len assms(2) diff_pack_of_bytes [OF assms(1)] by (simp add: dpack_readFrom_def Let_def)
qed

lemma readPackHeader_chunk:
  assumes "sr_file r = concat (map chunk_bytes ((p, xs) # cs)) @ eof_bytes" and "\<forall>c \<in> set ((p, xs) # cs). chunk_ok c"
  shows "\<exists>r'. reader_readPackHeader r = Inr (True, r') \<and> reader_at r' xs cs \<and> sr_pack r' = p
    \<and> sr_recIdx r' = 0"
proof -
  have c: "pack_holds p xs" "dpack_verify p = Inr ()" "\<forall>x \<in> set xs. io_ok x" "pack_image_ok p"
    using assms(2) by (simp_all add: chunk_ok_def pack_holds_def)
  obtain st where st: "stat_update_pack p (sr_stat r) = Inr st" using stat_update_pack_ok [OF c(1)] by blast
  let ?f = "concat (map snd xs) @ concat (map chunk_bytes cs) @ eof_bytes"
  have "dpack_readFrom (sr_file r) True = Inr (p, ?f)"
    using read_pack [OF c(4,2)] assms(1) by (simp add: chunk_bytes_def)
  then have "reader_readPackHeader r =
      Inr (True, r\<lparr>sr_pack := p, sr_file := ?f, sr_recIdx := 0, sr_totalSize := 0, sr_stat := st\<rparr>)"
    using st pack_holds_not_end [OF c(1)] by (simp add: reader_readPackHeader_def)
  moreover have "reader_at (r\<lparr>sr_pack := p, sr_file := ?f, sr_recIdx := 0, sr_totalSize := 0, sr_stat := st\<rparr>) xs cs"
    unfolding reader_at_def using c assms(2) by (intro exI [of _ "[]"]) simp
  ultimately show ?thesis by simp
qed

lemma readPackHeader_eof:
  assumes "sr_file r = eof_bytes"
  shows "\<exists>r'. reader_readPackHeader r = Inr (False, r') \<and> dpack_isEnd (sr_pack r')"
proof -
  obtain p where p: "pack_image_ok p" "dpack_isEnd p" "dpack_verify p = Inr ()" "eof_bytes = diff_pack_bytes p"
    by (rule eof_pack)
  then have "dpack_readFrom (sr_file r) True = Inr (p, [])" using read_pack [of p "[]"] assms by simp
  then show ?thesis using p(2) by (simp add: reader_readPackHeader_def)
qed

lemma readDiffIo_holds:
  assumes "pack_holds (sr_pack r) (pre @ x # xs)" and "sr_recIdx r = of_nat (length pre)"
    and "sr_totalSize r = of_nat (total_data pre)" and "\<forall>x \<in> set (x # xs). io_ok x"
    and "sr_file r = concat (map snd (x # xs)) @ concat (map chunk_bytes cs) @ eof_bytes"
    and "\<forall>c \<in> set cs. chunk_ok c"
  shows "\<exists>r'. reader_readDiffIo ((fst x)\<lparr>dr_data_offset := of_nat (total_data pre)\<rparr>) True r = Inr (snd x, r')
    \<and> reader_at r' xs cs"
proof -
  let ?f = "concat (map snd xs) @ concat (map chunk_bytes cs) @ eof_bytes"
  let ?r = "r\<lparr>sr_file := ?f, sr_totalSize := sr_totalSize r + dr_data_size (fst x), sr_recIdx := sr_recIdx r + 1\<rparr>"
  have io: "io_ok x" using assms(4) by simp
  have "reader_readDiffIo ((fst x)\<lparr>dr_data_offset := of_nat (total_data pre)\<rparr>) True r = Inr (snd x, ?r)"
  proof (cases "rec_isNormal (fst x)")
    case True
    then have l: "unat (dr_data_size (fst x)) = length (snd x)" and c: "dr_checksum (fst x) = calcDiffIoChecksum (snd x)"
      using io by (simp_all add: io_ok_def)
    have "file_read (length (snd x)) (sr_file r) = Inr (snd x, ?f)"
      using assms(5) by (simp add: file_read_def)
    then show ?thesis using True assms(3) c l by (simp add: reader_readDiffIo_def)
  next
    case False
    then have l: "dr_data_size (fst x) = 0" "snd x = []" using io by (simp_all add: io_ok_def)
    then have "sr_file r = ?f" using assms(5) by simp
    then show ?thesis using False assms(3) l by (simp add: reader_readDiffIo_def)
  qed
  moreover have "reader_at ?r xs cs"
    unfolding reader_at_def using assms by (intro exI [of _ "pre @ [x]"]) simp
  ultimately show ?thesis by blast
qed

text \<open>One step inside of a pack.\<close>

lemma readDiff_at:
  assumes "reader_at r (x # xs) cs"
  shows "\<exists>r' k. reader_readDiff r = Inr (Some ((fst x)\<lparr>dr_data_offset := k\<rparr>, snd x), r') \<and> reader_at r' xs cs"
proof -
  obtain pre where pre: "pack_holds (sr_pack r) (pre @ x # xs)" "sr_recIdx r = of_nat (length pre)"
    "sr_totalSize r = of_nat (total_data pre)" "\<forall>x \<in> set (x # xs). io_ok x"
    "sr_file r = concat (map snd (x # xs)) @ concat (map chunk_bytes cs) @ eof_bytes" "\<forall>c \<in> set cs. chunk_ok c"
    using assms unfolding reader_at_def by blast
  have len: "length (pre @ x # xs) \<le> 127" using pre(1) by (simp add: pack_holds_def)
  have idx: "unat (sr_recIdx r) = length pre" using pre(2) len by (simp add: unat_of_nat_16)
  have n: "unat (dp_n_records (sr_pack r)) = length pre + Suc (length xs)" using pack_holds_n [OF pre(1)] by simp
  have lt: "sr_recIdx r < dp_n_records (sr_pack r)" using idx n by (simp add: word_less_nat_alt)
  then have prep: "reader_prepareRead r = Inr (True, r)"
    using pack_holds_not_end [OF pre(1)] by (auto simp: reader_prepareRead_def)
  have valid: "rec_isValid ((fst x)\<lparr>dr_data_offset := of_nat (total_data pre)\<rparr>)"
    using pre(4) by (simp add: rec_isValid_def io_ok_def)
  obtain r' where "reader_readDiffIo ((fst x)\<lparr>dr_data_offset := of_nat (total_data pre)\<rparr>) True r = Inr (snd x, r')"
    "reader_at r' xs cs"
    using readDiffIo_holds [OF pre] by blast
  then show ?thesis
    using prep lt idx pack_holds_at [OF pre(1)] valid
    by (intro exI [of _ r'] exI [of _ "of_nat (total_data pre)"]) (simp add: reader_readDiff_def)
qed

text \<open>When a pack is used up, the next call goes on with the next one.\<close>

lemma readDiff_next:
  assumes "reader_at r [] cs" and "reader_readPackHeader r = Inr (True, r1)" and "reader_at r1 xs cs'"
    and "sr_recIdx r1 = 0" and "xs \<noteq> []"
  shows "reader_readDiff r = reader_readDiff r1"
proof -
  obtain pre where pre: "pack_holds (sr_pack r) pre" "sr_recIdx r = of_nat (length pre)"
    using assms(1) unfolding reader_at_def by auto
  then have "sr_recIdx r = dp_n_records (sr_pack r)" by (simp add: pack_holds_def)
  then have p: "reader_prepareRead r = Inr (True, r1)"
    using pack_holds_not_end [OF pre(1)] assms(2) by (simp add: reader_prepareRead_def)
  obtain q where q: "pack_holds (sr_pack r1) (q @ xs)" using assms(3) unfolding reader_at_def by blast
  have "0 < length (q @ xs)" using assms(5) by simp
  then have "dp_n_records (sr_pack r1) \<noteq> 0" using pack_holds_n [OF q] by auto
  then have "reader_prepareRead r1 = Inr (True, r1)"
    using assms(4) pack_holds_not_end [OF q] by (simp add: reader_prepareRead_def)
  then show ?thesis using p by (simp add: reader_readDiff_def)
qed

lemma readDiff_rest:
  assumes "reader_rest r (y # ys)"
  shows "\<exists>r' k. reader_readDiff r = Inr (Some ((fst y)\<lparr>dr_data_offset := k\<rparr>, snd y), r') \<and> reader_rest r' ys"
proof -
  obtain xs cs where at: "reader_at r xs cs" "y # ys = xs @ concat (map snd cs)"
    using assms by (auto simp: reader_rest_def)
  show ?thesis
  proof (cases xs)
    case (Cons x xs')
    then show ?thesis using readDiff_at [of r x xs' cs] at unfolding reader_rest_def by fastforce
  next
    case Nil
    then obtain p zs cs' where cs: "cs = (p, zs) # cs'" using at(2) by (cases cs) auto
    have ok: "\<forall>c \<in> set cs. chunk_ok c" and f: "sr_file r = concat (map chunk_bytes cs) @ eof_bytes"
      using at(1) Nil unfolding reader_at_def by auto
    obtain r1 where r1: "reader_readPackHeader r = Inr (True, r1)" "reader_at r1 zs cs'" "sr_recIdx r1 = 0"
      using readPackHeader_chunk f ok cs by blast
    have zs: "zs \<noteq> []" using ok cs by (simp add: chunk_ok_def)
    then obtain zs' where z: "zs = y # zs'" "ys = zs' @ concat (map snd cs')"
      using at(2) Nil cs by (cases zs) auto
    show ?thesis
      using readDiff_next [OF _ r1(1,2,3) zs] at(1) Nil readDiff_at [of r1 y zs' cs'] r1(2) z
      unfolding reader_rest_def by fastforce
  qed
qed

lemma readDiff_rest_Nil:
  assumes "reader_rest r []"
  shows "\<exists>r'. reader_readDiff r = Inr (None, r')"
proof (cases "dpack_isEnd (sr_pack r)")
  case True
  then show ?thesis by (simp add: reader_readDiff_def reader_prepareRead_def)
next
  case False
  then obtain cs where at: "reader_at r [] cs" "concat (map snd cs) = []" using assms by (auto simp: reader_rest_def)
  then have "cs = []" unfolding reader_at_def by (cases cs) (auto simp: chunk_ok_def)
  then have f: "sr_file r = eof_bytes" using at(1) unfolding reader_at_def by auto
  obtain pre where "pack_holds (sr_pack r) pre" "sr_recIdx r = of_nat (length pre)"
    using at(1) unfolding reader_at_def by auto
  then have "sr_recIdx r = dp_n_records (sr_pack r)" by (simp add: pack_holds_def)
  then show ?thesis
    using False readPackHeader_eof [OF f] by (auto simp: reader_readDiff_def reader_prepareRead_def)
qed

lemma readHeader_rest:
  assumes "file_header_ok h" and "file_header_verify h = Inr ()" and "\<forall>c \<in> set cs. chunk_ok c"
  shows "\<exists>r. reader_readHeader True (reader_init (diff_file_header_bytes h @ concat (map chunk_bytes cs) @ eof_bytes))
      = Inr (h, r) \<and> reader_rest r (concat (map snd cs))"
proof -
  let ?f = "concat (map chunk_bytes cs) @ eof_bytes"
  have hd: "file_header_readFrom (diff_file_header_bytes h @ ?f) = Inr (h, ?f)"
    using assms(2) length_file_header_bytes [OF assms(1)] file_header_of_bytes [OF assms(1)]
    by (simp add: file_header_readFrom_def DIFF_FILE_HEADER_SIZE_def)
  let ?r = "reader_init (diff_file_header_bytes h @ ?f)\<lparr>sr_file := ?f, sr_isReadHeader := True\<rparr>"
  have step: "reader_readHeader True (reader_init (diff_file_header_bytes h @ ?f)) =
      res_bind (reader_readPackHeader ?r) (\<lambda>(_, r2). Inr (h, r2))"
    using hd by (simp add: reader_readHeader_def reader_init_def)
  show ?thesis
  proof (cases cs)
    case Nil
    then show ?thesis
      using step readPackHeader_eof [of ?r] by (auto simp: reader_rest_def)
  next
    case (Cons c cs')
    then show ?thesis
      using step readPackHeader_chunk [of ?r "fst c" "snd c" cs'] assms(3) by (fastforce simp: reader_rest_def)
  qed
qed

section \<open>Whole files\<close>

fun writer_write_all :: "diff_io list \<Rightarrow> sorted_writer \<Rightarrow> sorted_writer res" where
  "writer_write_all [] w = Inr w"
| "writer_write_all (x # xs) w = res_bind (writer_writeDiff (fst x) (snd x) w) (writer_write_all xs)"

partial_function (option) reader_read_all :: "sorted_reader \<Rightarrow> diff_io list res option" where
  "reader_read_all r =
     (case reader_readDiff r of
        Inl e \<Rightarrow> Some (Inl e)
      | Inr (x, r1) \<Rightarrow>
          (case x of
             None \<Rightarrow> Some (Inr [])
           | Some y \<Rightarrow> Option.bind (reader_read_all r1) (\<lambda>t. Some (res_bind t (\<lambda>v. Inr (y # v))))))"

text \<open>The reader sees the position of the data in its pack; the writer sets it.\<close>

definition without_offset :: "diff_io \<Rightarrow> diff_io" where
  "without_offset x = ((fst x)\<lparr>dr_data_offset := 0\<rparr>, snd x)"

lemma write_all_holds:
  assumes "writer_holds w hdr cs ys" and "\<forall>x \<in> set xs. io_ok x"
  shows "\<exists>w' cs' ys'. writer_write_all xs w = Inr w' \<and> writer_holds w' hdr cs' ys'
    \<and> concat (map snd cs') @ ys' = concat (map snd cs) @ ys @ xs"
  using assms
proof (induction xs arbitrary: w cs ys)
  case Nil
  then show ?case by auto
next
  case (Cons x xs)
  obtain w1 cs1 ys1 where "writer_writeDiff (fst x) (snd x) w = Inr w1" "writer_holds w1 hdr cs1 ys1"
    "concat (map snd cs1) @ ys1 = concat (map snd cs) @ ys @ [x]"
    using writeDiff_holds [OF Cons.prems(1), of x] Cons.prems(2) by auto
  moreover then obtain w2 cs2 ys2 where "writer_write_all xs w1 = Inr w2" "writer_holds w2 hdr cs2 ys2"
    "concat (map snd cs2) @ ys2 = concat (map snd cs1) @ ys1 @ xs"
    using Cons.IH [of w1 cs1 ys1] Cons.prems(2) by auto
  ultimately show ?case by (intro exI [of _ w2] exI [of _ cs2] exI [of _ ys2]) simp
qed

lemma read_all_rest:
  "reader_rest r xs \<Longrightarrow> \<exists>ys. reader_read_all r = Some (Inr ys) \<and> map without_offset ys = map without_offset xs"
proof (induction xs arbitrary: r)
  case Nil
  then obtain r' where "reader_readDiff r = Inr (None, r')" using readDiff_rest_Nil by blast
  then show ?case by (subst reader_read_all.simps) simp
next
  case (Cons x xs)
  obtain r' k where r': "reader_readDiff r = Inr (Some ((fst x)\<lparr>dr_data_offset := k\<rparr>, snd x), r')" "reader_rest r' xs"
    using readDiff_rest [OF Cons.prems] by blast
  obtain ys where "reader_read_all r' = Some (Inr ys)" "map without_offset ys = map without_offset xs"
    using Cons.IH [OF r'(2)] by blast
  then show ?case using r'(1) by (subst reader_read_all.simps) (simp add: without_offset_def)
qed

definition sealed_header :: "walb_diff_file_header \<Rightarrow> walb_diff_file_header" where
  "sealed_header h = file_header_updateChecksum (h\<lparr>fh_type := WALB_DIFF_TYPE_SORTED\<rparr>)"

lemma sealed_header_ok:
  assumes "file_header_ok h" and "fh_version h = WALB_DIFF_VERSION"
  shows "file_header_ok (sealed_header h)" and "file_header_verify (sealed_header h) = Inr ()"
    and "\<exists>w. writer_writeHeader h (writer_setFd []) = Inr (sealed_header h, w)
      \<and> writer_holds w (diff_file_header_bytes (sealed_header h)) [] []"
proof -
  let ?h = "h\<lparr>fh_type := WALB_DIFF_TYPE_SORTED\<rparr>"
  have ok: "file_header_ok ?h" using assms(1) by (simp add: file_header_ok_def)
  then show "file_header_ok (sealed_header h)"
    by (simp add: sealed_header_def file_header_updateChecksum_def Let_def file_header_ok_def)
  have "calcChecksum (diff_file_header_bytes (sealed_header h)) 0 = 0"
    using file_header_sum.updated_verifies [OF ok, of 0]
    by (simp add: sealed_header_def file_header_updateChecksum_def Let_def)
  moreover have "fh_version (sealed_header h) = WALB_DIFF_VERSION"
    using assms(2) by (simp add: sealed_header_def file_header_updateChecksum_def Let_def)
  ultimately show "file_header_verify (sealed_header h) = Inr ()" by (simp add: file_header_verify_def)
  show "\<exists>w. writer_writeHeader h (writer_setFd []) = Inr (sealed_header h, w)
      \<and> writer_holds w (diff_file_header_bytes (sealed_header h)) [] []"
    by (simp add: writer_writeHeader_def writer_setFd_def writer_init_def file_header_writeTo_def
        sealed_header_def writer_holds_def pack_holds_clear Let_def)
qed

lemma written_file:
  assumes "writer_holds w hdr cs ys" and "hdr = diff_file_header_bytes h" and "file_header_ok h"
    and "file_header_verify h = Inr ()"
  shows "\<exists>w' r. writer_close w = Inr w' \<and> reader_readHeader True (reader_init (sw_file w')) = Inr (h, r)
    \<and> reader_rest r (concat (map snd cs) @ ys)"
  using writer_close_holds [OF assms(1)] readHeader_rest [OF assms(3,4)] assms(2) by fastforce

text \<open>
  C23: The reader of a sorted wdiff returns exactly the IOs that were given to the writer, in their order and with
  their data, however they were spread over packs, and then reports the end; the header is read back
  sealed. Only the offset fields are those of the packs. No write and no read fails.
\<close>

theorem sorted_diff_write_read:
  assumes "file_header_ok h" and "fh_version h = WALB_DIFF_VERSION" and "\<forall>x \<in> set xs. io_ok x"
  shows "\<exists>h' w1 w2 w3 r ys. writer_writeHeader h (writer_setFd []) = Inr (h', w1)
    \<and> writer_write_all xs w1 = Inr w2 \<and> writer_close w2 = Inr w3
    \<and> reader_readHeader True (reader_init (sw_file w3)) = Inr (h', r)
    \<and> h' = h\<lparr>fh_type := WALB_DIFF_TYPE_SORTED, fh_checksum := fh_checksum h'\<rparr>
    \<and> reader_read_all r = Some (Inr ys) \<and> map without_offset ys = map without_offset xs"
proof -
  note sh = sealed_header_ok [OF assms(1,2)]
  obtain w1 where w1: "writer_writeHeader h (writer_setFd []) = Inr (sealed_header h, w1)"
    "writer_holds w1 (diff_file_header_bytes (sealed_header h)) [] []"
    using sh(3) by blast
  obtain w2 cs ys where w2: "writer_write_all xs w1 = Inr w2"
    "writer_holds w2 (diff_file_header_bytes (sealed_header h)) cs ys" "concat (map snd cs) @ ys = xs"
    using write_all_holds [OF w1(2) assms(3)] by auto
  obtain w3 r where w3: "writer_close w2 = Inr w3" "reader_readHeader True (reader_init (sw_file w3)) = Inr (sealed_header h, r)"
    "reader_rest r xs"
    using written_file [OF w2(2) refl sh(1,2)] w2(3) by auto
  have "sealed_header h = h\<lparr>fh_type := WALB_DIFF_TYPE_SORTED, fh_checksum := fh_checksum (sealed_header h)\<rparr>"
    by (simp add: sealed_header_def file_header_updateChecksum_def Let_def)
  then show ?thesis using w1(1) w2(1) w3 read_all_rest [OF w3(3)] by blast
qed

section \<open>Compression\<close>

text \<open>
  What the compression libraries promise: what an engine has compressed, the engine of the same type
  decompresses to the original, given a buffer of its size; the compressed form of a data block is not empty.
  liblzma promises it for the presets up to 6 only: the higher ones need a dictionary of 16 MiB or more, which is
  over the memory limit that \<open>UncompressorXz\<close> sets.
\<close>

definition codec_ok :: "encoder \<Rightarrow> decoder \<Rightarrow> bool" where
  "codec_ok lib_enc lib_dec \<longleftrightarrow>
     (\<forall>t l mx xs ys. lib_enc t l mx xs = Some ys \<and> (t = WALB_DIFF_CMPR_LZMA \<longrightarrow> l \<le> 6)
        \<longrightarrow> lib_dec t (length xs) ys = Inr xs \<and> (xs \<noteq> [] \<longrightarrow> ys \<noteq> []))"

text \<open>The levels that an engine accepts and for which its data can be read back.\<close>

definition level_ok :: "u8 \<Rightarrow> nat \<Rightarrow> bool" where
  "level_ok t l \<longleftrightarrow> (case compressor_level t l of Inl e \<Rightarrow> False | Inr l' \<Rightarrow> t = WALB_DIFF_CMPR_LZMA \<longrightarrow> l' \<le> 6)"

lemma level_ok_0 [simp]: "level_ok t 0"
  by (simp add: level_ok_def compressor_level_def WALB_DIFF_CMPR_GZIP_def WALB_DIFF_CMPR_LZMA_def WALB_DIFF_CMPR_ZSTD_def)

lemma level_ok_snappy: "t \<in> {WALB_DIFF_CMPR_NONE, WALB_DIFF_CMPR_SNAPPY, WALB_DIFF_CMPR_LZ4} \<Longrightarrow> level_ok t l"
  by (auto simp: level_ok_def compressor_level_def WALB_DIFF_CMPR_GZIP_def WALB_DIFF_CMPR_LZMA_def WALB_DIFF_CMPR_ZSTD_def
      WALB_DIFF_CMPR_NONE_def WALB_DIFF_CMPR_SNAPPY_def WALB_DIFF_CMPR_LZ4_def)

text \<open>A record of an IO that is not compressed, with its data.\<close>

definition plain_io :: "walb_diff_record \<Rightarrow> u8 list \<Rightarrow> bool" where
  "plain_io rec io \<longleftrightarrow> rec_isNormal rec \<and> \<not> rec_isCompressed rec \<and> dr_io_blocks rec \<noteq> 0
     \<and> 512 * unat (dr_io_blocks rec) < 2147483648 \<and> length io = 512 * unat (dr_io_blocks rec)"

lemma compressData_cases:
  assumes "codec_ok lib_enc lib_dec" and "t < WALB_DIFF_CMPR_MAX" and "level_ok t l"
  shows "compressData lib_enc xs t l = Inr (WALB_DIFF_CMPR_NONE, xs)
    \<or> (\<exists>ys. compressData lib_enc xs t l = Inr (t, ys) \<and> length ys < length xs
        \<and> uncompressData lib_dec ys (length xs) t = Inr xs \<and> t \<noteq> WALB_DIFF_CMPR_NONE \<and> (xs \<noteq> [] \<longrightarrow> ys \<noteq> []))"
proof (cases "t = WALB_DIFF_CMPR_NONE")
  case True
  then show ?thesis by (simp add: compressData_def Compressor_run_def asis_run_def)
next
  case False
  obtain l' where l': "compressor_level t l = Inr l'" "t = WALB_DIFF_CMPR_LZMA \<longrightarrow> l' \<le> 6"
    using assms(3) by (auto simp: level_ok_def split: sum.splits)
  show ?thesis
  proof (cases "engine_result t (lib_enc t l' (length xs + 4096) xs)")
    case None
    then show ?thesis using False assms(2) l'(1) by (simp add: compressData_def Compressor_run_def)
  next
    case (Some ys)
    then have "lib_enc t l' (length xs + 4096) xs = Some ys" by (simp add: engine_result_def split: if_splits)
    then have "lib_dec t (length xs) ys = Inr xs" "xs \<noteq> [] \<longrightarrow> ys \<noteq> []" using assms(1) l'(2) by (auto simp: codec_ok_def)
    then show ?thesis
      using Some False assms(2) l'(1) by (auto simp: compressData_def Compressor_run_def uncompressData_def Uncompressor_run_def)
  qed
qed

lemma compressed_io:
  assumes "codec_ok lib_enc lib_dec" and "t < WALB_DIFF_CMPR_MAX" and "plain_io rec io" and "level_ok t l"
  shows "\<exists>rec' out. compressDiffIo lib_enc rec io t l = Inr (rec', out) \<and> io_ok (rec', out)
    \<and> length out \<le> length io \<and> rec' = rec\<lparr>dr_compression_type := dr_compression_type rec', dr_data_size := dr_data_size rec', dr_checksum := dr_checksum rec'\<rparr>
    \<and> (if rec_isCompressed rec'
       then \<forall>k b. uncompressDiffIo lib_dec (rec'\<lparr>dr_data_offset := k\<rparr>) out b =
         Inr (rec\<lparr>dr_compression_type := 0, dr_data_size := of_nat (length io), dr_data_offset := k,
            dr_checksum := if b then calcDiffIoChecksum io else 0\<rparr>, io)
       else out = io)"
proof -
  let ?n = "512 * unat (dr_io_blocks rec)"
  have p: "rec_isNormal rec" "\<not> rec_isCompressed rec" "dr_io_blocks rec \<noteq> 0" "?n < 2147483648" "length io = ?n"
    using assms(3) by (simp_all add: plain_io_def)
  have byt: "unat (dr_io_blocks rec * LOGICAL_BLOCK_SIZE) = ?n" using p(4) by (simp add: unat_lb_bytes)
  have pos: "0 < unat (dr_io_blocks rec)" using p(3) by (simp add: unat_gt_0)
  have ne: "io \<noteq> []" using p(5) pos by auto
  let ?out = "\<lambda>t ys. rec\<lparr>dr_compression_type := t, dr_data_size := of_nat (length ys), dr_checksum := calcDiffIoChecksum ys\<rparr>"
  have c: "compressData lib_enc io t l = Inr (u, ys) \<Longrightarrow> compressDiffIo lib_enc rec io t l = Inr (?out u ys, ys)" for u ys
    using p byt by (simp add: compressDiffIo_def)
  have ok: "io_ok (?out u ys, ys)" if "u < WALB_DIFF_CMPR_MAX" "ys \<noteq> []" "length ys \<le> ?n" for u ys
    using that p by (simp add: io_ok_def rec_verify_def unat_of_nat_u32 not_le)
  show ?thesis
  proof (cases "compressData lib_enc io t l = Inr (WALB_DIFF_CMPR_NONE, io)")
    case True
    then show ?thesis
      using c [OF True] ok [of WALB_DIFF_CMPR_NONE io] ne p(5)
      by (simp add: rec_isCompressed_def WALB_DIFF_CMPR_MAX_def WALB_DIFF_CMPR_NONE_def)
  next
    case False
    then obtain ys where ys: "compressData lib_enc io t l = Inr (t, ys)" "length ys < length io"
      "uncompressData lib_dec ys (length io) t = Inr io" "t \<noteq> WALB_DIFF_CMPR_NONE" "ys \<noteq> []"
      using compressData_cases [OF assms(1,2,4), of io] ne by auto
    let ?r = "?out t ys"
    have comp: "rec_isCompressed (?r\<lparr>dr_data_offset := k\<rparr>)" "rec_isCompressed ?r" for k
      using ys(4) by (simp_all add: rec_isCompressed_def)
    have sz: "unat (of_nat (length ys) :: u32) = length ys" using ys(2) p(4,5) by (intro unat_of_nat_u32) simp
    have "uncompressDiffIo lib_dec (?r\<lparr>dr_data_offset := k\<rparr>) ys b =
         Inr (rec\<lparr>dr_compression_type := 0, dr_data_size := of_nat (length io), dr_data_offset := k,
            dr_checksum := if b then calcDiffIoChecksum io else 0\<rparr>, io)" for k b
      using p(1,5) comp(1) byt ys(3) sz by (simp add: uncompressDiffIo_def WALB_DIFF_CMPR_NONE_def)
    then show ?thesis
      using c [OF ys(1)] ok [OF assms(2) ys(5)] ys(2) p(5) comp(2) by (intro exI [of _ ?r] exI [of _ ys]) simp
  qed
qed

lemma compressed_any:
  assumes "plain_io rec io" and "t < WALB_DIFF_CMPR_MAX" and "compressor_level t l = Inr l'"
  shows "\<exists>rec' out. compressDiffIo lib_enc rec io t l = Inr (rec', out)
    \<and> unat (dr_data_size rec') = length out \<and> dr_checksum rec' = calcDiffIoChecksum out \<and> length out \<le> length io
    \<and> (if rec_isCompressed rec'
       then dr_compression_type rec' = t \<and> length out < length io \<and> lib_enc t l' (length io + 4096) io = Some out
       else out = io \<and> rec' = rec\<lparr>dr_data_size := of_nat (length io), dr_checksum := calcDiffIoChecksum io\<rparr>)"
proof -
  have p: "rec_isNormal rec" "dr_compression_type rec = 0" "512 * unat (dr_io_blocks rec) < 2147483648"
    "length io = 512 * unat (dr_io_blocks rec)"
    using assms(1) by (simp_all add: plain_io_def rec_isCompressed_def WALB_DIFF_CMPR_NONE_def)
  let ?out = "\<lambda>t ys. rec\<lparr>dr_compression_type := t, dr_data_size := of_nat (length ys), dr_checksum := calcDiffIoChecksum ys\<rparr>"
  have c: "compressDiffIo lib_enc rec io t l = res_bind (compressData lib_enc io t l) (\<lambda>(u, ys). Inr (?out u ys, ys))"
    using p by (simp add: compressDiffIo_def rec_isCompressed_def WALB_DIFF_CMPR_NONE_def unat_lb_bytes)
  have sz: "unat (of_nat (length ys) :: u32) = length ys" if "length ys \<le> length io" for ys :: "u8 list"
    using that p(3,4) by (intro unat_of_nat_u32) simp
  have plain: "?out WALB_DIFF_CMPR_NONE io = rec\<lparr>dr_data_size := of_nat (length io), dr_checksum := calcDiffIoChecksum io\<rparr>"
    using p(2) by (simp add: WALB_DIFF_CMPR_NONE_def)
  consider "compressData lib_enc io t l = Inr (WALB_DIFF_CMPR_NONE, io)"
    | ys where "compressData lib_enc io t l = Inr (t, ys)" "length ys < length io" "t \<noteq> WALB_DIFF_CMPR_NONE"
        "lib_enc t l' (length io + 4096) io = Some ys"
  proof (cases "t = WALB_DIFF_CMPR_NONE")
    case True
    then have "compressData lib_enc io t l = Inr (WALB_DIFF_CMPR_NONE, io)"
      by (simp add: compressData_def Compressor_run_def asis_run_def)
    then show ?thesis by (rule that(1))
  next
    case False
    let ?r = "engine_result t (lib_enc t l' (length io + 4096) io)"
    have r: "compressData lib_enc io t l = (case ?r of None \<Rightarrow> Inr (WALB_DIFF_CMPR_NONE, io)
      | Some ys \<Rightarrow> if length ys < length io then Inr (t, ys) else Inr (WALB_DIFF_CMPR_NONE, io))"
      using False assms(2,3) by (simp add: compressData_def Compressor_run_def)
    show ?thesis
    proof (cases ?r)
      case None
      then show ?thesis using r that(1) by simp
    next
      case (Some ys)
      then have "lib_enc t l' (length io + 4096) io = Some ys" by (simp add: engine_result_def split: if_splits)
      then show ?thesis using r Some False that by (cases "length ys < length io") simp_all
    qed
  qed
  then show ?thesis
  proof cases
    case 1
    then show ?thesis unfolding c plain [symmetric] using sz [of io] by (simp add: rec_isCompressed_def)
  next
    case (2 ys)
    then show ?thesis unfolding c using sz [of ys] by (simp add: rec_isCompressed_def)
  qed
qed

lemma compressed_back:
  assumes "codec_ok lib_enc lib_dec" and "t < WALB_DIFF_CMPR_MAX" and "plain_io rec io" and "compressor_level t l = Inr l'"
    and "compressDiffIo lib_enc rec io t l = Inr (rec', out)" and "\<not> (t = WALB_DIFF_CMPR_LZMA \<and> 6 < l')"
  shows "rec_verify rec' = Inr () \<and> (rec_isCompressed rec' \<longrightarrow> uncompressDiffIo lib_dec rec' out True =
    Inr (rec\<lparr>dr_data_size := of_nat (length io), dr_checksum := calcDiffIoChecksum io\<rparr>, io))"
proof -
  have "level_ok t l" using assms(4,6) by (auto simp: level_ok_def)
  from compressed_io [OF assms(1-3) this] assms(5) have r: "io_ok (rec', out)"
    "rec' = rec\<lparr>dr_compression_type := dr_compression_type rec', dr_data_size := dr_data_size rec', dr_checksum := dr_checksum rec'\<rparr>"
    "rec_isCompressed rec' \<longrightarrow> (\<forall>k b. uncompressDiffIo lib_dec (rec'\<lparr>dr_data_offset := k\<rparr>) out b =
         Inr (rec\<lparr>dr_compression_type := 0, dr_data_size := of_nat (length io), dr_data_offset := k,
            dr_checksum := if b then calcDiffIoChecksum io else 0\<rparr>, io))"
    by auto
  have n: "rec_isNormal rec" "dr_compression_type rec = 0"
    using assms(3) by (simp_all add: plain_io_def rec_isCompressed_def WALB_DIFF_CMPR_NONE_def)
  have "rec_isNormal rec' = rec_isNormal rec" by (subst r(2)) simp
  then have v: "rec_verify rec' = Inr ()" using r(1) n(1) by (simp add: io_ok_def)
  have k: "rec'\<lparr>dr_data_offset := dr_data_offset rec\<rparr> = rec'" by (subst (1 2) r(2)) simp
  have "uncompressDiffIo lib_dec (rec'\<lparr>dr_data_offset := dr_data_offset rec\<rparr>) out True =
      Inr (rec\<lparr>dr_compression_type := dr_compression_type rec, dr_data_size := of_nat (length io),
        dr_data_offset := dr_data_offset rec, dr_checksum := calcDiffIoChecksum io\<rparr>, io)" if "rec_isCompressed rec'"
    using r(3) that n(2) by simp
  then show ?thesis using v k by simp
qed

text \<open>
  C34: \<open>compressDiffIo\<close> throws exactly for the levels that the constructor of the engine refuses: above 9 for zlib and xz (whose
  level is cut to 32 bits), from 20 on for zstd. Otherwise it returns a record that verifies and carries the size and the
  checksum of the data that is stored, which is never longer than the IO; data that does not get shorter is kept as it is,
  with its record, and what was compressed is decompressed to the IO and its record, by lossless libraries. For xz the last
  is stated up to preset 6, because the memory limit of the decoder does not admit the higher ones.
\<close>

theorem compress_uncompress:
  assumes "codec_ok lib_enc lib_dec" and "t < WALB_DIFF_CMPR_MAX" and "plain_io rec io"
  shows "case compressor_level t l of Inl e \<Rightarrow> compressDiffIo lib_enc rec io t l = Inl e
    | Inr l' \<Rightarrow> \<exists>rec' out. compressDiffIo lib_enc rec io t l = Inr (rec', out)
        \<and> unat (dr_data_size rec') = length out \<and> dr_checksum rec' = calcDiffIoChecksum out \<and> length out \<le> length io
        \<and> (if rec_isCompressed rec'
           then dr_compression_type rec' = t \<and> length out < length io \<and> lib_enc t l' (length io + 4096) io = Some out
           else out = io \<and> rec' = rec\<lparr>dr_data_size := of_nat (length io), dr_checksum := calcDiffIoChecksum io\<rparr>)
        \<and> (if t = WALB_DIFF_CMPR_LZMA \<and> 6 < l' then True
           else rec_verify rec' = Inr () \<and> (if rec_isCompressed rec' then uncompressDiffIo lib_dec rec' out True =
             Inr (rec\<lparr>dr_data_size := of_nat (length io), dr_checksum := calcDiffIoChecksum io\<rparr>, io) else True))"
proof (cases "compressor_level t l")
  case (Inl e)
  have "t \<noteq> WALB_DIFF_CMPR_NONE" using Inl level_ok_snappy [of t l] by (auto simp: level_ok_def)
  then show ?thesis using Inl assms(2,3)
    by (simp add: compressDiffIo_def plain_io_def compressData_def Compressor_run_def unat_lb_bytes)
next
  case (Inr l')
  then show ?thesis using compressed_any [OF assms(3,2) Inr] compressed_back [OF assms Inr] by fastforce
qed

section \<open>Diffs in memory\<close>

text \<open>Every record of the diff has at most 2 GiB of data.\<close>

definition mem_small :: "diff_memory \<Rightarrow> bool" where
  "mem_small dm \<longleftrightarrow> (\<forall>x \<in> set (mem_map dm). 512 * unat (rio_blocks (snd x)) < 2147483648)"

text \<open>The IO \<open>x\<close> of a file stands for the record \<open>r\<close> of a diff in memory.\<close>

definition stands_for :: "decoder \<Rightarrow> diff_io \<Rightarrow> DiffRecIo \<Rightarrow> bool" where
  "stands_for lib_dec x r \<longleftrightarrow> io_ok x
     \<and> (\<forall>k. let rec = (fst x)\<lparr>dr_data_offset := k\<rparr> in
          if \<not> rec_isNormal rec \<or> \<not> rec_isCompressed rec
          then rio_ok (add_arg rec (snd x)) \<and> io_view (add_arg rec (snd x)) = io_view r
          else \<exists>rec' io. uncompressDiffIo lib_dec rec (snd x) False = Inr (rec', io)
            \<and> rio_ok (add_arg rec' io) \<and> io_view (add_arg rec' io) = io_view r)"

text \<open>Fields that do not matter for the contents.\<close>

lemma io_view_irrelevant:
  assumes "rio_ok r"
    and "rec = (rio_rec r)\<lparr>dr_data_offset := k, dr_checksum := c\<rparr>"
  shows "rio_ok (add_arg rec (rio_io r))" and "io_view (add_arg rec (rio_io r)) = io_view r"
proof -
  have io: "\<not> rec_isNormal (rio_rec r) \<Longrightarrow> rio_io r = []" using assms(1) by (simp add: rio_ok_def rio_isValid_def)
  show "rio_ok (add_arg rec (rio_io r))"
    using assms io by (auto simp: rio_ok_def add_arg_def rio_isValid_def rio_addr_def rio_blocks_def split: if_splits)
  show "io_view (add_arg rec (rio_io r)) = io_view r"
    using assms(2) io
    by (auto simp: io_view_def rio.item_def rio.rng_def rio_block_def add_arg_def rio_addr_def rio_blocks_def fun_eq_iff)
qed

definition write_entry :: "encoder \<Rightarrow> u8 \<Rightarrow> DiffRecIo \<Rightarrow> sorted_writer \<Rightarrow> sorted_writer res" where
  "write_entry lib_enc t r w =
     (if t \<noteq> WALB_DIFF_CMPR_NONE then writer_compressAndWriteDiff lib_enc (rio_rec r) (rio_io r) t 0 w
      else writer_writeDiff_ptr (rio_rec r\<lparr>dr_checksum := calcDiffIoChecksum (rio_io r)\<rparr>) (rio_io r) w)"

lemma stands_for_plain:
  assumes "rio_ok r" and "512 * unat (rio_blocks r) < 2147483648"
    and "\<not> rec_isNormal (rio_rec r) \<or> c = calcDiffIoChecksum (rio_io r)"
  shows "stands_for lib_dec ((rio_rec r)\<lparr>dr_checksum := c\<rparr>, rio_io r) r"
proof -
  have "io_ok ((rio_rec r)\<lparr>dr_checksum := c\<rparr>, rio_io r)"
    using assms normal_size [OF assms(1)] by (auto simp: io_ok_def rio_ok_def rio_isValid_def)
  moreover have "\<not> rec_isCompressed (rio_rec r)" using assms(1) by (simp add: rio_ok_def)
  moreover have "rio_ok (add_arg ((rio_rec r)\<lparr>dr_checksum := c, dr_data_offset := k\<rparr>) (rio_io r))"
    and "io_view (add_arg ((rio_rec r)\<lparr>dr_checksum := c, dr_data_offset := k\<rparr>) (rio_io r)) = io_view r" for k
    using io_view_irrelevant [OF assms(1), of "(rio_rec r)\<lparr>dr_checksum := c, dr_data_offset := k\<rparr>" c k]
    by simp_all
  ultimately show ?thesis by (simp add: stands_for_def Let_def)
qed

lemma write_entry_stands:
  assumes "codec_ok lib_enc lib_dec" and "t < WALB_DIFF_CMPR_MAX" and "rio_ok r"
    and "512 * unat (rio_blocks r) < 2147483648"
  shows "\<exists>x. (\<forall>w. write_entry lib_enc t r w = writer_writeDiff (fst x) (snd x) w) \<and> stands_for lib_dec x r"
proof -
  let ?rec = "rio_rec r" and ?io = "rio_io r"
  have nc: "\<not> rec_isCompressed ?rec" and nb: "dr_io_blocks ?rec \<noteq> 0"
    using assms(3) by (auto simp: rio_ok_def rio_blocks_def)
  have e: "\<not> rec_isNormal ?rec \<Longrightarrow> ?io = []" using assms(3) by (simp add: rio_ok_def rio_isValid_def)
  consider (plain) "t = WALB_DIFF_CMPR_NONE" | (empty) "t \<noteq> WALB_DIFF_CMPR_NONE" "\<not> rec_isNormal ?rec"
    | (comp) "t \<noteq> WALB_DIFF_CMPR_NONE" "rec_isNormal ?rec" by blast
  then show ?thesis
  proof cases
    case plain
    then have "write_entry lib_enc t r w = writer_writeDiff (?rec\<lparr>dr_checksum := calcDiffIoChecksum ?io\<rparr>) ?io w" for w
      using e normal_size [OF assms(3)]
      by (cases "rec_isNormal ?rec") (simp_all add: write_entry_def writer_writeDiff_ptr_def)
    then show ?thesis
      using stands_for_plain [OF assms(3,4), of "calcDiffIoChecksum ?io" lib_dec]
      by (intro exI [of _ "(?rec\<lparr>dr_checksum := calcDiffIoChecksum ?io\<rparr>, ?io)"]) simp
  next
    case empty
    then have "write_entry lib_enc t r w = writer_writeDiff ?rec ?io w" for w
      using e nc by (simp add: write_entry_def writer_compressAndWriteDiff_def)
    then show ?thesis
      using stands_for_plain [OF assms(3,4), of "dr_checksum ?rec" lib_dec] empty(2)
      by (intro exI [of _ "(?rec, ?io)"]) simp
  next
    case comp
    note ns = normal_size [OF assms(3) comp(2)]
    have "plain_io ?rec ?io" using comp(2) nc nb ns assms(4) by (simp add: plain_io_def rio_blocks_def)
    then obtain rec' out where c: "compressDiffIo lib_enc ?rec ?io t 0 = Inr (rec', out)" "io_ok (rec', out)"
      "rec' = ?rec\<lparr>dr_compression_type := dr_compression_type rec', dr_data_size := dr_data_size rec', dr_checksum := dr_checksum rec'\<rparr>"
      "if rec_isCompressed rec'
       then \<forall>k b. uncompressDiffIo lib_dec (rec'\<lparr>dr_data_offset := k\<rparr>) out b =
         Inr (?rec\<lparr>dr_compression_type := 0, dr_data_size := of_nat (length ?io), dr_data_offset := k,
            dr_checksum := if b then calcDiffIoChecksum ?io else 0\<rparr>, ?io)
       else out = ?io"
      using compressed_io [OF assms(1,2) _ level_ok_0] by blast
    have w: "write_entry lib_enc t r w = writer_writeDiff rec' out w" for w
      using comp nc c(1) by (simp add: write_entry_def writer_compressAndWriteDiff_def)
    have n: "rec_isNormal rec'" using comp(2) by (subst c(3)) simp
    have sz: "dr_data_size ?rec = of_nat (length ?io)" using ns(1,3) by (metis of_nat_unat ucast_id)
    have z: "dr_compression_type ?rec = 0" using nc by (simp add: rec_isCompressed_def WALB_DIFF_CMPR_NONE_def)
    have "stands_for lib_dec (rec', out) r"
    proof (cases "rec_isCompressed rec'")
      case True
      have "?rec\<lparr>dr_compression_type := 0, dr_data_size := of_nat (length ?io), dr_data_offset := k, dr_checksum := c\<rparr>
          = ?rec\<lparr>dr_data_offset := k, dr_checksum := c\<rparr>" for k c
        using sz z by simp
      then show ?thesis
        using True c(2,4) n io_view_irrelevant [OF assms(3)] by (simp add: stands_for_def Let_def)
    next
      case False
      then have o: "out = ?io" using c(4) by simp
      have "dr_data_size rec' = dr_data_size ?rec"
        using c(2) n o sz by (metis fst_conv io_ok_def of_nat_unat snd_conv ucast_id)
      moreover have "dr_compression_type rec' = dr_compression_type ?rec"
        using False z by (simp add: rec_isCompressed_def WALB_DIFF_CMPR_NONE_def)
      ultimately have "rec' = ?rec\<lparr>dr_checksum := dr_checksum rec'\<rparr>" by (subst c(3)) simp
      moreover have "dr_checksum rec' = calcDiffIoChecksum ?io" using c(2) n o by (simp add: io_ok_def)
      ultimately show ?thesis
        using stands_for_plain [OF assms(3,4), of "calcDiffIoChecksum ?io" lib_dec] o by simp
    qed
    then show ?thesis using w by (intro exI [of _ "(rec', out)"]) simp
  qed
qed

lemma mem_write_entries_eq:
  assumes "codec_ok lib_enc lib_dec" and "t < WALB_DIFF_CMPR_MAX"
    and "\<forall>r \<in> set rs. rio_ok r \<and> 512 * unat (rio_blocks r) < 2147483648"
  shows "\<exists>xs. (\<forall>w. mem_write_entries lib_enc t rs w = writer_write_all xs w) \<and> list_all2 (stands_for lib_dec) xs rs"
  using assms(3)
proof (induction rs)
  case Nil
  show ?case by (intro exI [of _ "[]"]) simp
next
  case (Cons r rs)
  obtain x where x: "\<forall>w. write_entry lib_enc t r w = writer_writeDiff (fst x) (snd x) w" "stands_for lib_dec x r"
    using write_entry_stands [OF assms(1,2)] Cons.prems by fastforce
  obtain xs where xs: "\<forall>w. mem_write_entries lib_enc t rs w = writer_write_all xs w" "list_all2 (stands_for lib_dec) xs rs"
    using Cons by auto
  have "rio_isValid r False" using Cons.prems by (simp add: rio_ok_def)
  then have "mem_write_entries lib_enc t (r # rs) w = res_bind (write_entry lib_enc t r w) (mem_write_entries lib_enc t rs)" for w
    by (simp add: write_entry_def)
  moreover have "mem_write_entries lib_enc t rs = writer_write_all xs" using xs(1) by blast
  ultimately show ?case using x xs(2) by (intro exI [of _ "x # xs"]) simp
qed

lemma read_stands:
  assumes "reader_rest r (x # xs)" and "stands_for lib_dec x s"
  shows "\<exists>rec io r'. reader_readAndUncompressDiff lib_dec False r = Inr (Some (rec, io), r')
    \<and> rio_ok (add_arg rec io) \<and> io_view (add_arg rec io) = io_view s \<and> reader_rest r' xs"
proof -
  obtain r' k where r': "reader_readDiff r = Inr (Some ((fst x)\<lparr>dr_data_offset := k\<rparr>, snd x), r')" "reader_rest r' xs"
    using readDiff_rest [OF assms(1)] by blast
  show ?thesis
  proof (cases "\<not> rec_isNormal (fst x) \<or> \<not> rec_isCompressed (fst x)")
    case True
    then have "reader_readAndUncompressDiff lib_dec False r = Inr (Some ((fst x)\<lparr>dr_data_offset := k\<rparr>, snd x), r')"
      using r'(1) by (simp add: reader_readAndUncompressDiff_def)
    then show ?thesis using assms(2) True r'(2) by (simp add: stands_for_def Let_def)
  next
    case False
    then obtain rec' io where "uncompressDiffIo lib_dec ((fst x)\<lparr>dr_data_offset := k\<rparr>) (snd x) False = Inr (rec', io)"
      "rio_ok (add_arg rec' io)" "io_view (add_arg rec' io) = io_view s"
      using assms(2) by (simp add: stands_for_def Let_def) blast
    moreover from this(1) have "reader_readAndUncompressDiff lib_dec False r = Inr (Some (rec', io), r')"
      using r'(1) False by (simp add: reader_readAndUncompressDiff_def)
    ultimately show ?thesis using r'(2) by blast
  qed
qed

lemma mem_read_loop_rest:
  assumes "reader_rest r xs" and "list_all2 (stands_for lib_dec) xs rs" and "mem_ok dm"
  shows "\<exists>dm'. mem_read_loop lib_dec r dm = Some (Inr dm') \<and> mem_ok dm'
    \<and> mem_view dm' = foldl (\<lambda>m r. m ++ io_view r) (mem_view dm) rs"
  using assms
proof (induction xs arbitrary: r rs dm)
  case Nil
  then obtain r' where "reader_readDiff r = Inr (None, r')" using readDiff_rest_Nil by blast
  then show ?case
    using Nil.prems by (subst mem_read_loop.simps) (simp add: reader_readAndUncompressDiff_def)
next
  case (Cons x xs)
  obtain s rs' where rs: "rs = s # rs'" "stands_for lib_dec x s" "list_all2 (stands_for lib_dec) xs rs'"
    using Cons.prems(2) by (cases rs) auto
  obtain rec io r' where ri: "reader_readAndUncompressDiff lib_dec False r = Inr (Some (rec, io), r')"
    "rio_ok (add_arg rec io)" "io_view (add_arg rec io) = io_view s" and r': "reader_rest r' xs"
    using read_stands [OF Cons.prems(1) rs(2)] by blast
  obtain dm1 where dm1: "mem_add rec io dm = Inr dm1" "mem_ok dm1" "mem_view dm1 = mem_view dm ++ io_view s"
    using mem_add_eq [OF Cons.prems(3) ri(2)] ri(3) by auto
  show ?case
    using Cons.IH [OF r' rs(3) dm1(2)] ri(1) dm1(1,3) rs(1) by (subst mem_read_loop.simps) simp
qed

lemma foldl_disjoint_items:
  "rio.disjoint rs \<Longrightarrow> foldl (\<lambda>m r. m ++ io_view r) m rs = m ++ rio.views rs"
proof (induction rs arbitrary: m)
  case (Cons r rs)
  then have "dom (rio.item r) \<inter> dom (rio.views rs) = {}"
    by (auto simp: rio.dom_item rio.dom_views rio.disjoint_Cons)
  then have "rio.item r ++ rio.views rs = rio.views rs ++ rio.item r" by (rule map_add_comm)
  then show ?case
    using Cons by (simp add: rio.disjoint_Cons io_view_def del: map_add_assoc flip: map_add_assoc)
qed simp

text \<open>A file to which IOs of a diff in memory were written, and what reading it gives.\<close>

lemma write_ios_file:
  assumes "codec_ok lib_enc lib_dec" and "t < WALB_DIFF_CMPR_MAX"
    and "file_header_ok h" and "fh_version h = WALB_DIFF_VERSION"
    and "\<forall>r \<in> set rs. rio_ok r \<and> 512 * unat (rio_blocks r) < 2147483648"
  shows "\<exists>w xs w1 w2 r. writer_writeHeader h (writer_setFd []) = Inr (sealed_header h, w)
    \<and> mem_write_entries lib_enc t rs w = Inr w1 \<and> writer_close w1 = Inr w2
    \<and> reader_readHeader True (reader_init (sw_file w2)) = Inr (sealed_header h, r)
    \<and> reader_rest r xs \<and> list_all2 (stands_for lib_dec) xs rs"
proof -
  note sh = sealed_header_ok [OF assms(3,4)]
  obtain w where w: "writer_writeHeader h (writer_setFd []) = Inr (sealed_header h, w)"
    "writer_holds w (diff_file_header_bytes (sealed_header h)) [] []"
    using sh(3) by blast
  obtain xs where xs: "\<forall>w. mem_write_entries lib_enc t rs w = writer_write_all xs w" "list_all2 (stands_for lib_dec) xs rs"
    using mem_write_entries_eq [OF assms(1,2,5)] by blast
  have ios: "\<forall>x \<in> set xs. io_ok x" using xs(2) by (metis in_set_conv_nth list_all2_nthD stands_for_def)
  obtain w1 cs ys where w1: "writer_write_all xs w = Inr w1"
    "writer_holds w1 (diff_file_header_bytes (sealed_header h)) cs ys" "concat (map snd cs) @ ys = xs"
    using write_all_holds [OF w(2) ios] by auto
  obtain w2 r where w2: "writer_close w1 = Inr w2"
    "reader_readHeader True (reader_init (sw_file w2)) = Inr (sealed_header h, r)" "reader_rest r xs"
    using written_file [OF w1(2) refl sh(1,2)] w1(3) by auto
  show ?thesis using w(1) xs w1(1) w2 by auto
qed

lemma read_ios_file:
  assumes "reader_readHeader True (reader_init f) = Inr (h, r)" and "reader_rest r xs"
    and "list_all2 (stands_for lib_dec) xs rs" and "mem_ok dm0" and "mem_map dm0 = []"
  shows "\<exists>dm2. mem_readFrom lib_dec f dm0 = Some (Inr dm2) \<and> mem_ok dm2
    \<and> mem_view dm2 = foldl (\<lambda>m r. m ++ io_view r) Map.empty rs"
proof -
  have "mem_ok (dm0\<lparr>mem_fileH := h\<rparr>)" "mem_view (dm0\<lparr>mem_fileH := h\<rparr>) = Map.empty"
    using assms(4,5) by (simp_all add: mem_ok_def mem_view_def)
  then show ?thesis using mem_read_loop_rest [OF assms(2,3), of "dm0\<lparr>mem_fileH := h\<rparr>"] assms(1)
    by (simp add: mem_readFrom_def)
qed

text \<open>
  C5: Writing a diff in memory to a file, with any lossless compression or without, and reading the
  file into an empty diff gives a diff with the same contents: every block has the data, the zeros or
  the discard it had. Neither direction fails and the reading loop ends.
\<close>

theorem mem_write_read:
  assumes "mem_ok dm" and "mem_small dm" and "codec_ok lib_enc lib_dec" and "t < WALB_DIFF_CMPR_MAX"
    and "file_header_ok (mem_fileH dm)" and "fh_version (mem_fileH dm) = WALB_DIFF_VERSION"
    and "mem_ok dm0" and "mem_map dm0 = []"
  shows "\<exists>f dm1 dm2. mem_writeTo lib_enc t dm = Inr (f, dm1) \<and> mem_readFrom lib_dec f dm0 = Some (Inr dm2)
    \<and> mem_ok dm2 \<and> mem_view dm2 = mem_view dm"
proof -
  let ?rs = "map snd (mem_map dm)" and ?h = "sealed_header (mem_fileH dm)"
  have "\<forall>r \<in> set ?rs. rio_ok r \<and> 512 * unat (rio_blocks r) < 2147483648"
    using assms(1,2) by (auto simp: mem_ok_def mem_small_def rio.map_ok_def)
  then obtain w xs w1 w2 r where w: "writer_writeHeader (mem_fileH dm) (writer_setFd []) = Inr (?h, w)"
    "mem_write_entries lib_enc t ?rs w = Inr w1" "writer_close w1 = Inr w2"
    "reader_readHeader True (reader_init (sw_file w2)) = Inr (?h, r)" "reader_rest r xs"
    "list_all2 (stands_for lib_dec) xs ?rs"
    using write_ios_file [OF assms(3-6)] by blast
  obtain dm2 where dm2: "mem_readFrom lib_dec (sw_file w2) dm0 = Some (Inr dm2)" "mem_ok dm2"
    "mem_view dm2 = foldl (\<lambda>m r. m ++ io_view r) Map.empty ?rs"
    using read_ios_file [OF w(4-6) assms(7,8)] by blast
  have "rio.disjoint ?rs" using assms(1) rio.map_ok_disjoint by (simp add: mem_ok_def)
  then have "mem_view dm2 = mem_view dm" using dm2(3) by (simp add: foldl_disjoint_items mem_view_def)
  moreover have "mem_writeTo lib_enc t dm = Inr (sw_file w2, dm\<lparr>mem_fileH := ?h\<rparr>)"
    using w(1-3) by (simp add: mem_writeTo_def)
  ultimately show ?thesis using dm2(1,2) by blast
qed

section \<open>Examples\<close>

text \<open>An engine that knows how to compress zeros.\<close>

definition sample_enc :: encoder where
  "sample_enc t l mx xs = (if xs = replicate (length xs) 0 then Some [0] else None)"

definition sample_dec :: decoder where
  "sample_dec t n ys = Inr (replicate n 0)"

lemma sample_codec_ok: "codec_ok sample_enc sample_dec"
  by (auto simp: codec_ok_def sample_enc_def sample_dec_def split: if_splits)

lemma file_header_init_ok: "file_header_ok file_header_init" "fh_version file_header_init = WALB_DIFF_VERSION"
  by (simp_all add: file_header_ok_def file_header_init_def diff_file_header_of_def DIFF_FILE_HEADER_SIZE_def)

definition sample_diff_io :: diff_io where
  "sample_diff_io = ((sample_io_rec 10 1)\<lparr>dr_checksum := calcDiffIoChecksum (replicate 512 7)\<rparr>, replicate 512 7)"

theorem sorted_diff_write_read_witness:
  "\<exists>h' w1 w2 w3 r ys. writer_writeHeader file_header_init (writer_setFd []) = Inr (h', w1)
    \<and> writer_write_all [sample_diff_io, (sample_discard 4 2, [])] w1 = Inr w2 \<and> writer_close w2 = Inr w3
    \<and> reader_readHeader True (reader_init (sw_file w3)) = Inr (h', r)
    \<and> h' = file_header_init\<lparr>fh_type := WALB_DIFF_TYPE_SORTED, fh_checksum := fh_checksum h'\<rparr>
    \<and> reader_read_all r = Some (Inr ys)
    \<and> map without_offset ys = map without_offset [sample_diff_io, (sample_discard 4 2, [])]"
  by (rule sorted_diff_write_read [OF file_header_init_ok])
    (simp add: io_ok_def sample_diff_io_def sample_io_simps)

theorem compress_uncompress_witness:
  "case compressor_level WALB_DIFF_CMPR_GZIP 9 of
      Inl e \<Rightarrow> compressDiffIo sample_enc (sample_io_rec 10 4) (replicate 2048 0) WALB_DIFF_CMPR_GZIP 9 = Inl e
    | Inr l' \<Rightarrow> \<exists>rec' out. compressDiffIo sample_enc (sample_io_rec 10 4) (replicate 2048 0) WALB_DIFF_CMPR_GZIP 9 = Inr (rec', out)
        \<and> unat (dr_data_size rec') = length out \<and> dr_checksum rec' = calcDiffIoChecksum out \<and> length out \<le> length (replicate 2048 (0 :: u8))
        \<and> (if rec_isCompressed rec'
           then dr_compression_type rec' = WALB_DIFF_CMPR_GZIP \<and> length out < length (replicate 2048 (0 :: u8))
             \<and> sample_enc WALB_DIFF_CMPR_GZIP l' (length (replicate 2048 (0 :: u8)) + 4096) (replicate 2048 0) = Some out
           else out = replicate 2048 0 \<and> rec' = (sample_io_rec 10 4)\<lparr>dr_data_size := of_nat (length (replicate 2048 (0 :: u8))),
             dr_checksum := calcDiffIoChecksum (replicate 2048 0)\<rparr>)
        \<and> (if WALB_DIFF_CMPR_GZIP = WALB_DIFF_CMPR_LZMA \<and> 6 < l' then True
           else rec_verify rec' = Inr () \<and> (if rec_isCompressed rec' then uncompressDiffIo sample_dec rec' out True =
             Inr ((sample_io_rec 10 4)\<lparr>dr_data_size := of_nat (length (replicate 2048 (0 :: u8))),
               dr_checksum := calcDiffIoChecksum (replicate 2048 0)\<rparr>, replicate 2048 0) else True))"
  by (rule compress_uncompress [OF sample_codec_ok])
    (simp_all add: WALB_DIFF_CMPR_GZIP_def WALB_DIFF_CMPR_MAX_def plain_io_def sample_io_simps)

definition sample_mem_zeros :: diff_memory where
  "sample_mem_zeros = mem_new\<lparr>mem_map := [(7, add_arg (sample_discard 7 3) []),
     (10, add_arg (sample_io_rec 10 4) (replicate 2048 0))]\<rparr>"

theorem mem_write_read_witness:
  "\<exists>f dm1 dm2. mem_writeTo sample_enc WALB_DIFF_CMPR_SNAPPY sample_mem_zeros = Inr (f, dm1)
    \<and> mem_readFrom sample_dec f mem_new = Some (Inr dm2)
    \<and> mem_ok dm2 \<and> mem_view dm2 = mem_view sample_mem_zeros"
proof (rule mem_write_read [OF _ _ sample_codec_ok])
  show "mem_ok sample_mem_zeros" "mem_small sample_mem_zeros"
    by (simp_all add: sample_mem_zeros_def mem_ok_def mem_small_def rio.map_ok_def sample_io_simps)
  show "file_header_ok (mem_fileH sample_mem_zeros)" "fh_version (mem_fileH sample_mem_zeros) = WALB_DIFF_VERSION"
    using file_header_init_ok by (simp_all add: sample_mem_zeros_def mem_new_def)
qed (simp_all add: WALB_DIFF_CMPR_SNAPPY_def WALB_DIFF_CMPR_MAX_def mem_new_ok mem_new_def rio.map_ok_def mem_ok_def)

end
