(* ===== verification/Merge_Pass.thy ===== *)
theory Merge_Pass
  imports Diff_Merge Diff_File_Laws
begin

text \<open>
  One pass of the merger over the wdiffs, as a function on the lists of IOs that the wdiffs still
  hold: which IOs are taken, what is left, and the next value of \<open>doneAddr_\<close>. It is the specification of
  the loops of \<open>tryMoveToDiffMemory\<close>. The theory shows that a pass keeps the contents that the wdiffs stand
  for, that what it leaves lies behind the new \<open>doneAddr_\<close>, and that a second pass takes at least one IO when
  the first took none, because the search length has grown to the cluster of the leftmost IOs.
\<close>

section \<open>Streams of IOs\<close>

abbreviation rio_fin :: "DiffRecIo \<Rightarrow> u64" where
  "rio_fin r \<equiv> rec_endIoAddress (rio_rec r)"

text \<open>\<open>r\<close> ends before \<open>s\<close> begins.\<close>

definition before :: "DiffRecIo \<Rightarrow> DiffRecIo \<Rightarrow> bool" where
  "before r s \<longleftrightarrow> unat (rio_addr r) + unat (rio_blocks r) \<le> unat (rio_addr s)"

text \<open>A wdiff is sorted and free of overlaps; its addresses are below two to the 62.\<close>

definition stream_ok :: "DiffRecIo list \<Rightarrow> bool" where
  "stream_ok t \<longleftrightarrow> (\<forall>r \<in> set t. rio_ok r \<and> unat (rio_addr r) + unat (rio_blocks r) < 2 ^ 62) \<and> sorted_wrt before t"

lemma stream_ok_Cons: "stream_ok (r # t) \<longleftrightarrow> rio_ok r \<and> unat (rio_addr r) + unat (rio_blocks r) < 2 ^ 62
    \<and> (\<forall>s \<in> set t. before r s) \<and> stream_ok t"
  by (auto simp: stream_ok_def)

lemma stream_ok_append: "stream_ok (s @ t) \<longleftrightarrow> stream_ok s \<and> stream_ok t \<and> (\<forall>x \<in> set s. \<forall>y \<in> set t. before x y)"
  by (auto simp: stream_ok_def sorted_wrt_append)

lemma stream_ok_Nil [simp]: "stream_ok []"
  by (simp add: stream_ok_def)

lemma addr_less_fin: "rio_ok r \<Longrightarrow> rio_addr r < rio_fin r"
  using unat_end_rec [of r] by (simp add: word_less_nat_alt rio_ok_def)

lemma fin_le_addr: "rio_ok r \<Longrightarrow> before r s \<longleftrightarrow> rio_fin r \<le> rio_addr s"
  using unat_end_rec [of r] by (simp add: word_le_nat_alt before_def)

lemma before_disjoint: "before r s \<Longrightarrow> rio.rng r \<inter> rio.rng s = {}"
  by (auto simp: before_def rio.rng_def)

lemma stream_disjoint: "stream_ok t \<Longrightarrow> rio.disjoint t"
  using sorted_wrt_mono_rel [of t before] before_disjoint by (simp add: stream_ok_def rio.disjoint_def)

lemma fin_small: "rio_ok r \<Longrightarrow> unat (rio_addr r) + unat (rio_blocks r) < 2 ^ 62 \<Longrightarrow> unat (rio_fin r) < 2 ^ 62"
  using unat_end_rec [of r] by simp

section \<open>The pass\<close>

definition pick :: "u64 \<Rightarrow> u64 \<Rightarrow> DiffRecIo \<Rightarrow> bool" where
  "pick lim nxt r \<longleftrightarrow> rio_addr r < lim \<and> rio_fin r \<le> nxt"

fun next_done :: "u64 \<Rightarrow> DiffRecIo list \<Rightarrow> u64" where
  "next_done nxt [] = nxt"
| "next_done nxt (r # t) = min nxt (rio_addr r)"

fun pass_taken :: "u64 \<Rightarrow> u64 \<Rightarrow> DiffRecIo list list \<Rightarrow> DiffRecIo list" where
  "pass_taken lim nxt [] = []"
| "pass_taken lim nxt (t # ts) =
     takeWhile (pick lim nxt) t @ pass_taken lim (next_done nxt (dropWhile (pick lim nxt) t)) ts"

fun pass_left :: "u64 \<Rightarrow> u64 \<Rightarrow> DiffRecIo list list \<Rightarrow> DiffRecIo list list" where
  "pass_left lim nxt [] = []"
| "pass_left lim nxt (t # ts) =
     (let l = dropWhile (pick lim nxt) t in
      (if l = [] then [] else [l]) @ pass_left lim (next_done nxt l) ts)"

fun pass_next :: "u64 \<Rightarrow> u64 \<Rightarrow> DiffRecIo list list \<Rightarrow> u64" where
  "pass_next lim nxt [] = nxt"
| "pass_next lim nxt (t # ts) = pass_next lim (next_done nxt (dropWhile (pick lim nxt) t)) ts"

definition rio_range :: "DiffRecIo \<Rightarrow> merge_range" where
  "rio_range r = range_of (rio_rec r)"

definition cover :: "merge_range \<Rightarrow> DiffRecIo list \<Rightarrow> merge_range" where
  "cover c t = foldl (\<lambda>c r. rg_merge c (rio_range r)) c t"

fun pass_range :: "u64 \<Rightarrow> u64 \<Rightarrow> merge_range \<Rightarrow> DiffRecIo list list \<Rightarrow> merge_range res" where
  "pass_range lim nxt g [] = Inr g"
| "pass_range lim nxt g (t # ts) =
     res_bind (rg_cluster g (cover (rio_range (hd t)) (takeWhile (pick lim nxt) t)))
       (\<lambda>g1. pass_range lim (next_done nxt (dropWhile (pick lim nxt) t)) g1 ts)"

definition heads_min :: "u64 \<Rightarrow> DiffRecIo list list \<Rightarrow> u64" where
  "heads_min a ts = foldl (\<lambda>a t. min a (rio_addr (hd t))) a ts"

text \<open>What the streams stand for: newer wdiffs overwrite older ones and what is in memory.\<close>

definition contents :: "(nat \<Rightarrow> diff_block option) \<Rightarrow> DiffRecIo list list \<Rightarrow> nat \<Rightarrow> diff_block option" where
  "contents m ts = foldl (\<lambda>m t. m ++ rio.views t) m ts"

definition overwrite_all :: "(nat \<Rightarrow> diff_block option) \<Rightarrow> DiffRecIo list \<Rightarrow> nat \<Rightarrow> diff_block option" where
  "overwrite_all m t = foldl (\<lambda>m r. m ++ io_view r) m t"

lemma contents_simps [simp]:
  "contents m [] = m" "contents m (t # ts) = contents (m ++ rio.views t) ts"
  by (simp_all add: contents_def)

lemma contents_add: "contents (m ++ n) ts = m ++ contents n ts"
proof (induction ts arbitrary: n)
  case (Cons t ts)
  then show ?case by (simp flip: map_add_assoc)
qed simp

lemma dom_contents: "dom (contents m ts) = dom m \<union> (\<Union>r \<in> set (concat ts). rio.rng r)"
  by (induction ts arbitrary: m) (auto simp: rio.dom_views)

lemma heads_min_simps [simp]:
  "heads_min a [] = a" "heads_min a (t # ts) = heads_min (min a (rio_addr (hd t))) ts"
  by (simp_all add: heads_min_def)

lemma overwrite_all_append: "overwrite_all m (s @ t) = overwrite_all (overwrite_all m s) t"
  by (simp add: overwrite_all_def)

lemma overwrite_all_stream: "stream_ok t \<Longrightarrow> overwrite_all m t = m ++ rio.views t"
  unfolding overwrite_all_def by (rule foldl_disjoint_items [OF stream_disjoint])

lemma dom_overwrite_all: "dom (overwrite_all m t) = dom m \<union> (\<Union>r \<in> set t. rio.rng r)"
  unfolding overwrite_all_def by (induction t arbitrary: m) (auto simp: io_view_def rio.dom_item)

section \<open>What a pass keeps\<close>

lemma split_stream:
  assumes "stream_ok t"
  shows "stream_ok (takeWhile p t)" and "stream_ok (dropWhile p t)"
    and "rio.views t = rio.views (takeWhile p t) ++ rio.views (dropWhile p t)"
proof -
  have t: "stream_ok (takeWhile p t @ dropWhile p t)" using assms by simp
  then show "stream_ok (takeWhile p t)" "stream_ok (dropWhile p t)" unfolding stream_ok_append by blast+
  have "rio.disjoint (takeWhile p t @ dropWhile p t)" using stream_disjoint [OF t] .
  then have "dom (rio.views (takeWhile p t)) \<inter> dom (rio.views (dropWhile p t)) = {}"
    unfolding rio.disjoint_append by (auto simp: rio.dom_views)
  then have "rio.views (dropWhile p t) ++ rio.views (takeWhile p t) = rio.views (takeWhile p t) ++ rio.views (dropWhile p t)"
    by (rule map_add_comm [symmetric])
  then show "rio.views t = rio.views (takeWhile p t) ++ rio.views (dropWhile p t)"
    using rio.views_append [of "takeWhile p t" "dropWhile p t"] by simp
qed

lemma next_done_le: "next_done nxt l \<le> nxt"
  by (cases l) simp_all

lemma next_done_bound:
  assumes "stream_ok l" and "r \<in> set l"
  shows "next_done nxt l \<le> rio_addr r"
proof (cases l)
  case (Cons s l')
  have "rio_addr s \<le> rio_addr r"
  proof (cases "r = s")
    case False
    then have "before s r" using assms Cons by (simp add: stream_ok_Cons)
    then show ?thesis by (simp add: before_def word_le_nat_alt)
  qed simp
  then show ?thesis using Cons by (simp add: min.coboundedI2)
qed (use assms in simp)

lemma heads_min_le:
  assumes "\<forall>t \<in> set ts. stream_ok t \<and> t \<noteq> []"
  shows "heads_min a ts \<le> a \<and> (\<forall>x \<in> set (concat ts). heads_min a ts \<le> rio_addr x)"
  using assms
proof (induction ts arbitrary: a)
  case (Cons t ts)
  let ?b = "rio_addr (hd t)"
  have IH: "heads_min (min a ?b) ts \<le> min a ?b" "\<forall>x \<in> set (concat ts). heads_min (min a ?b) ts \<le> rio_addr x"
    using Cons.IH [of "min a ?b"] Cons.prems by (auto simp del: min.bounded_iff)
  have "?b \<le> rio_addr y" if "y \<in> set t" for y
    using next_done_bound [of t y ?b] that Cons.prems by (cases t) auto
  moreover have "heads_min (min a ?b) ts \<le> a" "heads_min (min a ?b) ts \<le> ?b" using IH(1) min.bounded_iff by blast+
  ultimately show ?case using IH(2) order_trans by simp blast
qed simp

text \<open>The IOs taken from newer wdiffs end before what the older ones, with contents \<open>X\<close>, still hold.\<close>

lemma pass_contents:
  assumes "\<forall>t \<in> set ts. stream_ok t" and "\<forall>a \<in> dom X. unat nxt \<le> a"
  shows "contents (overwrite_all m (pass_taken lim nxt ts) ++ X) (pass_left lim nxt ts) = contents (m ++ X) ts"
  using assms
proof (induction ts arbitrary: m X nxt)
  case Nil
  then show ?case by (simp add: overwrite_all_def)
next
  case (Cons t ts)
  let ?p = "pick lim nxt" let ?l = "dropWhile ?p t" let ?n = "next_done nxt ?l" let ?k = "rio.views (takeWhile ?p t)"
  have ok: "stream_ok t" "\<forall>t \<in> set ts. stream_ok t" using Cons.prems(1) by simp_all
  note sp = split_stream [OF ok(1), of ?p]
  have tk: "unat (rio_addr r) + unat (rio_blocks r) \<le> unat nxt" if "r \<in> set (takeWhile ?p t)" for r
  proof -
    have "rio_ok r" using sp(1) that by (simp add: stream_ok_def)
    then show ?thesis using set_takeWhileD [OF that] unat_end_rec [of r] by (simp add: pick_def word_le_nat_alt)
  qed
  have "a \<notin> dom X" if "a \<in> dom ?k" for a
  proof -
    obtain r where "r \<in> set (takeWhile ?p t)" "a \<in> rio.rng r" using \<open>a \<in> dom ?k\<close> by (auto simp: rio.dom_views)
    then have "a < unat nxt" using tk by (fastforce simp: rio.rng_def)
    then show ?thesis using Cons.prems(2) by (meson not_le)
  qed
  then have "dom ?k \<inter> dom X = {}" by blast
  then have c: "X ++ ?k = ?k ++ X" by (rule map_add_comm [symmetric])
  have X': "\<forall>a \<in> dom (X ++ rio.views ?l). unat ?n \<le> a"
  proof
    fix a assume "a \<in> dom (X ++ rio.views ?l)"
    then consider "a \<in> dom X" | r where "r \<in> set ?l" "a \<in> rio.rng r" by (auto simp: rio.dom_views)
    then show "unat ?n \<le> a"
    proof cases
      case 1
      then have "unat nxt \<le> a" using Cons.prems(2) by blast
      then show ?thesis using next_done_le [of nxt ?l] unfolding word_le_nat_alt by linarith
    next
      case 2
      then show ?thesis using next_done_bound [OF sp(2) 2(1), of nxt] by (auto simp: word_le_nat_alt rio.rng_def)
    qed
  qed
  have "contents (m ++ X) (t # ts) = contents ((m ++ ?k) ++ (X ++ rio.views ?l)) ts"
    using sp(3) c by (metis contents_simps(2) map_add_assoc)
  also have "\<dots> = contents (overwrite_all (m ++ ?k) (pass_taken lim ?n ts) ++ (X ++ rio.views ?l)) (pass_left lim ?n ts)"
    using Cons.IH [OF ok(2) X', of "m ++ ?k"] by simp
  also have "\<dots> = contents (overwrite_all m (pass_taken lim nxt (t # ts)) ++ X) (pass_left lim nxt (t # ts))"
    using overwrite_all_stream [OF sp(1), of m] unfolding pass_taken.simps pass_left.simps Let_def
    by (cases "?l = []") (simp_all add: overwrite_all_append del: dropWhile_eq_Nil_conv)
  finally show ?case by simp
qed

lemma pass_left_ok:
  assumes "\<forall>t \<in> set ts. stream_ok t"
  shows "(\<forall>t \<in> set (pass_left lim nxt ts). stream_ok t \<and> t \<noteq> [])
    \<and> (\<forall>r \<in> set (concat (pass_left lim nxt ts)). pass_next lim nxt ts \<le> rio_addr r)
    \<and> pass_next lim nxt ts \<le> nxt
    \<and> set (concat (pass_left lim nxt ts)) \<subseteq> set (concat ts)
    \<and> set (pass_taken lim nxt ts) \<subseteq> set (concat ts)
    \<and> length (pass_taken lim nxt ts) + length (concat (pass_left lim nxt ts)) = length (concat ts)"
  using assms
proof (induction ts arbitrary: nxt)
  case (Cons t ts)
  let ?p = "pick lim nxt" let ?l = "dropWhile ?p t" let ?n = "next_done nxt ?l"
  have ok: "stream_ok t" "\<forall>t \<in> set ts. stream_ok t" using Cons.prems by simp_all
  note sp = split_stream [OF ok(1), of ?p] and IH = Cons.IH [OF ok(2), of ?n]
  have le: "pass_next lim ?n ts \<le> nxt" using IH next_done_le [of nxt ?l] by (meson order_trans)
  have l: "\<forall>r \<in> set ?l. pass_next lim ?n ts \<le> rio_addr r" using IH next_done_bound [OF sp(2)] by (meson order_trans)
  have len: "length (takeWhile ?p t) + length ?l = length t" by (metis length_append takeWhile_dropWhile_id)
  have sub: "set (takeWhile ?p t) \<subseteq> set t" "set ?l \<subseteq> set t" by (auto dest: set_takeWhileD set_dropWhileD)
  obtain k l where kl: "takeWhile ?p t = k" "?l = l" by simp
  show ?case
    using IH le l len sub sp(2) unfolding pass_taken.simps pass_left.simps pass_next.simps Let_def kl
    by (cases "l = []") auto
qed simp

lemma pass_next_all: "pass_left lim nxt ts = [] \<Longrightarrow> pass_next lim nxt ts = nxt"
  by (induction ts arbitrary: nxt) (simp_all add: Let_def split: if_splits del: dropWhile_eq_Nil_conv)

section \<open>The cluster of the leftmost IOs\<close>

definition rg_ok :: "merge_range \<Rightarrow> bool" where
  "rg_ok g \<longleftrightarrow> rg_bgn g < rg_end g \<and> unat (rg_end g) < 2 ^ 62"

lemma rg_ok_rio: "rio_ok r \<Longrightarrow> unat (rio_addr r) + unat (rio_blocks r) < 2 ^ 62 \<Longrightarrow> rg_ok (rio_range r)"
  using addr_less_fin [of r] fin_small [of r] by (simp add: rg_ok_def rio_range_def range_of_def rio_addr_def)

lemma rg_ok_merge: "rg_ok g \<Longrightarrow> rg_ok h \<Longrightarrow> rg_ok (rg_merge g h)"
  unfolding rg_ok_def rg_merge_def by (auto simp: min_def max_def split: if_splits)

lemma cover_ok:
  assumes "rg_ok c" and "stream_ok t" and "\<forall>r \<in> set t. rg_bgn c \<le> rio_addr r"
  shows "rg_ok (cover c t) \<and> rg_bgn (cover c t) = rg_bgn c"
  using assms
proof (induction t arbitrary: c)
  case (Cons r t)
  have "rg_ok (rg_merge c (rio_range r))"
    using Cons.prems rg_ok_rio [of r] by (intro rg_ok_merge) (simp_all add: stream_ok_Cons)
  moreover have "rg_bgn (rg_merge c (rio_range r)) = rg_bgn c"
    using Cons.prems by (simp add: rg_merge_def rio_range_def range_of_def rio_addr_def min_def)
  ultimately show ?case using Cons.IH [of "rg_merge c (rio_range r)"] Cons.prems by (simp add: cover_def stream_ok_Cons)
qed (simp add: cover_def)

lemma cover_front:
  assumes "stream_ok t" and "t \<noteq> []"
  shows "rg_ok (cover (rio_range (hd t)) (takeWhile p t)) \<and> rg_bgn (cover (rio_range (hd t)) (takeWhile p t)) = rio_addr (hd t)"
proof -
  obtain r t' where t: "t = r # t'" using assms(2) by (cases t) auto
  have "rio_addr r \<le> rio_addr s" if "s \<in> set t" for s
    using next_done_bound [OF assms(1) that, of "rio_addr r"] t by simp
  moreover have "set (takeWhile p t) \<subseteq> set t" by (auto dest: set_takeWhileD)
  ultimately have le: "\<forall>s \<in> set (takeWhile p t). rg_bgn (rio_range r) \<le> rio_addr s"
    by (auto simp: rio_range_def range_of_def rio_addr_def)
  have ok: "rg_ok (rio_range r)" using assms(1) t rg_ok_rio by (simp add: stream_ok_Cons)
  show ?thesis using cover_ok [OF ok split_stream(1) [OF assms(1)] le] t
    by (simp add: rio_range_def range_of_def rio_addr_def)
qed

lemma rg_cluster_ok:
  assumes "rg_ok g" and "rg_ok c"
  shows "\<exists>h. rg_cluster g c = Inr h \<and> rg_ok h \<and> rg_bgn h = min (rg_bgn g) (rg_bgn c)
    \<and> (rg_end g \<le> rg_end h \<or> rg_end c \<le> rg_bgn g \<and> h = c)"
proof (cases "rg_isOverlapped g c")
  case True
  then show ?thesis using rg_ok_merge [OF assms] by (simp add: rg_cluster_def rg_merge_def)
next
  case False
  show ?thesis
  proof (cases "rg_isLeftRight c g")
    case True
    then show ?thesis using False assms by (auto simp: rg_cluster_def rg_isLeftRight_def rg_ok_def min_def)
  next
    case c: False
    then have "rg_end g \<le> rg_bgn c" using False by (auto simp: rg_isLeftRight_def rg_isOverlapped_def)
    then show ?thesis using False c assms by (auto simp: rg_cluster_def rg_isLeftRight_def rg_ok_def min_def)
  qed
qed

lemma pass_range_ok:
  assumes "rg_ok g" and "\<forall>t \<in> set ts. stream_ok t \<and> t \<noteq> []"
  shows "\<exists>h. pass_range lim nxt g ts = Inr h \<and> rg_ok h \<and> rg_bgn h = heads_min (rg_bgn g) ts"
  using assms
proof (induction ts arbitrary: g nxt)
  case (Cons t ts)
  let ?c = "cover (rio_range (hd t)) (takeWhile (pick lim nxt) t)"
  have c: "rg_ok ?c" "rg_bgn ?c = rio_addr (hd t)" using cover_front Cons.prems(2) by simp_all
  obtain h where h: "rg_cluster g ?c = Inr h" "rg_ok h" "rg_bgn h = min (rg_bgn g) (rg_bgn ?c)"
    using rg_cluster_ok [OF Cons.prems(1) c(1)] by blast
  show ?case using Cons.IH [OF h(2), of "next_done nxt (dropWhile (pick lim nxt) t)"] Cons.prems(2) h c(2) by simp
qed simp

section \<open>Progress\<close>

lemma not_picked: "takeWhile p t = [] \<Longrightarrow> t \<noteq> [] \<Longrightarrow> \<not> p (hd t) \<and> dropWhile p t = t"
  by (cases t) (auto split: if_splits)

text \<open>A pass that takes nothing leaves everything; its \<open>doneAddr_\<close> is the smallest address.\<close>

lemma pass_idle:
  assumes "pass_taken lim nxt ts = []" and "\<forall>t \<in> set ts. t \<noteq> []"
  shows "pass_left lim nxt ts = ts \<and> pass_next lim nxt ts = heads_min nxt ts"
  using assms
proof (induction ts arbitrary: nxt)
  case (Cons t ts)
  then have "dropWhile (pick lim nxt) t = t" "t \<noteq> []" using not_picked [of "pick lim nxt" t] by auto
  then show ?case using Cons by (cases t) (auto simp: Let_def)
qed simp

text \<open>An IO that ends before all older wdiffs begin, and begins before \<open>e\<close>.\<close>

definition unblocked :: "u64 \<Rightarrow> u64 \<Rightarrow> DiffRecIo list list \<Rightarrow> bool" where
  "unblocked e nxt ts \<longleftrightarrow>
     (\<exists>us t vs. ts = us @ t # vs \<and> rio_fin (hd t) \<le> heads_min nxt us \<and> rio_addr (hd t) < e)"

lemma unblocked_Cons: "unblocked e (min nxt (rio_addr (hd t))) ts \<Longrightarrow> unblocked e nxt (t # ts)"
  unfolding unblocked_def by (metis append_Cons heads_min_simps(2))

lemma unblocked_taken:
  assumes "unblocked e nxt ts" and "\<forall>t \<in> set ts. t \<noteq> []" and "e \<le> lim"
  shows "pass_taken lim nxt ts \<noteq> []"
proof
  assume idle: "pass_taken lim nxt ts = []"
  obtain us t vs where ts: "ts = us @ t # vs" "rio_fin (hd t) \<le> heads_min nxt us" "rio_addr (hd t) < e"
    using assms(1) by (auto simp: unblocked_def)
  have "\<not> pick lim (heads_min nxt us) (hd t)" using idle assms(2) unfolding ts(1)
  proof (induction us arbitrary: nxt)
    case Nil
    then show ?case using not_picked [of "pick lim nxt" t] by simp
  next
    case (Cons u us)
    then have "dropWhile (pick lim nxt) u = u" "u \<noteq> []" using not_picked [of "pick lim nxt" u] by auto
    then show ?case using Cons by (cases u) auto
  qed
  then show False using ts(2,3) assms(3) by (auto simp: pick_def)
qed

lemma idle_cluster:
  assumes "pass_taken lim nxt ts = []" and "\<forall>t \<in> set ts. stream_ok t \<and> t \<noteq> []"
    and "rg_ok g" and "rg_bgn g = nxt" and "pass_range lim nxt g ts = Inr h"
  shows "rg_end g \<le> rg_end h \<or> unblocked (rg_end h) nxt ts"
  using assms
proof (induction ts arbitrary: nxt g)
  case (Cons t ts)
  have t: "dropWhile (pick lim nxt) t = t" "t \<noteq> []" "stream_ok t" "takeWhile (pick lim nxt) t = []"
    using Cons.prems(1,2) not_picked [of "pick lim nxt" t] by auto
  then have c: "cover (rio_range (hd t)) (takeWhile (pick lim nxt) t) = rio_range (hd t)" by (simp add: cover_def)
  have r: "rio_ok (hd t)" "rg_ok (rio_range (hd t))"
    using t(2,3) rg_ok_rio [of "hd t"] by (cases t; simp add: stream_ok_Cons)+
  have nd: "next_done nxt t = min nxt (rio_addr (hd t))" using t(2) by (cases t) simp_all
  obtain g1 where g1: "rg_cluster g (rio_range (hd t)) = Inr g1" "rg_ok g1" "rg_bgn g1 = min nxt (rio_addr (hd t))"
      "rg_end g \<le> rg_end g1 \<or> rg_end (rio_range (hd t)) \<le> nxt \<and> g1 = rio_range (hd t)"
    using rg_cluster_ok [OF Cons.prems(3) r(2)] Cons.prems(4)
    by (auto simp: rio_range_def range_of_def rio_addr_def)
  have IH: "rg_end g1 \<le> rg_end h \<or> unblocked (rg_end h) (min nxt (rio_addr (hd t))) ts"
    using Cons.IH [of "next_done nxt t" g1] Cons.prems(1,2,5) g1(1-3) t c nd by simp
  then consider "unblocked (rg_end h) (min nxt (rio_addr (hd t))) ts" | "rg_end g \<le> rg_end g1" "rg_end g1 \<le> rg_end h"
    | "rg_end (rio_range (hd t)) \<le> nxt" "rg_end (rio_range (hd t)) \<le> rg_end h"
    using g1(4) by blast
  then show ?case
  proof cases
    case 1
    then show ?thesis using unblocked_Cons by blast
  next
    case 3
    then have "rio_fin (hd t) \<le> nxt" "rio_addr (hd t) < rg_end h"
      using addr_less_fin [OF r(1)] by (simp_all add: rio_range_def range_of_def)
    then have "unblocked (rg_end h) nxt (t # ts)" unfolding unblocked_def
      by (intro exI [of _ "[]"] exI [of _ t] exI [of _ ts]) simp
    then show ?thesis ..
  qed auto
qed simp

lemma idle_unblocked:
  assumes "pass_taken lim (- 1) (t # ts) = []" and "\<forall>t \<in> set (t # ts). stream_ok t \<and> t \<noteq> []"
    and "pass_range lim (- 1) (rio_range (hd t)) (t # ts) = Inr h"
  shows "unblocked (rg_end h) (- 1) (t # ts)"
proof -
  have t: "dropWhile (pick lim (- 1)) t = t" "t \<noteq> []" "stream_ok t" "takeWhile (pick lim (- 1)) t = []"
    using assms(1,2) not_picked [of "pick lim (- 1)" t] by auto
  have r: "rio_ok (hd t)" "rg_ok (rio_range (hd t))"
    using t(2,3) rg_ok_rio [of "hd t"] by (cases t; simp add: stream_ok_Cons)+
  have nd: "next_done (- 1) t = rio_addr (hd t)" using t(2)
    by (cases t) (simp_all add: min_def word_order.extremum word_order.extremum_unique)
  have "rg_cluster (rio_range (hd t)) (rio_range (hd t)) = Inr (rio_range (hd t))"
    using r(2) by (simp add: rg_cluster_def rg_isOverlapped_def rg_ok_def rg_merge_def)
  then have "pass_range lim (rio_addr (hd t)) (rio_range (hd t)) ts = Inr h"
    using assms(3) t(1,4) nd by (simp add: cover_def)
  moreover have "pass_taken lim (rio_addr (hd t)) ts = []" using assms(1) t(1,4) nd by simp
  ultimately have "rg_end (rio_range (hd t)) \<le> rg_end h \<or> unblocked (rg_end h) (rio_addr (hd t)) ts"
    using idle_cluster [of lim "rio_addr (hd t)" ts "rio_range (hd t)" h] assms(2) r(2)
    by (simp add: rio_range_def range_of_def rio_addr_def)
  then show ?thesis
  proof
    assume "rg_end (rio_range (hd t)) \<le> rg_end h"
    then have "rio_addr (hd t) < rg_end h" using addr_less_fin [OF r(1)] by (simp add: rio_range_def range_of_def)
    then show ?thesis unfolding unblocked_def
      by (intro exI [of _ "[]"] exI [of _ t] exI [of _ ts]) (simp add: word_order.extremum)
  next
    assume "unblocked (rg_end h) (rio_addr (hd t)) ts"
    then show ?thesis by (intro unblocked_Cons) (simp add: min_def word_order.extremum word_order.extremum_unique)
  qed
qed

end
