(* ===== verification/Diff_Merge_Laws.thy ===== *)
theory Diff_Merge_Laws
  imports Merge_Pass
begin

text \<open>
  The merger refines the pass: its loops take the IOs that \<open>Merge_Pass\<close> says, so it always moves on,
  no assertion fails, and reading it to the end gives sorted IOs without overlaps with the
  contents of all wdiffs, newer ones over older ones. What the merger needs from a wdiff is the locale
  \<open>wdiff_source\<close>; the wdiff files are an interpretation of it.
\<close>

section \<open>Wdiffs as sources of IOs\<close>

text \<open>No IO is larger than the limit of the diff in memory.\<close>

definition fits :: "diff_memory \<Rightarrow> DiffRecIo \<Rightarrow> bool" where
  "fits dm r \<longleftrightarrow> mem_maxIoBlocks dm = 0 \<or> rio_blocks r \<le> mem_maxIoBlocks dm"

definition mem_good :: "diff_memory \<Rightarrow> bool" where
  "mem_good dm \<longleftrightarrow> mem_ok dm \<and> (\<forall>x \<in> set (mem_map dm). fits dm (snd x))"

lemma mem_add_good:
  assumes "mem_good dm" and "rio_ok r" and "add_arg (rio_rec r) buf = r"
  shows "\<exists>dm'. mem_add (rio_rec r) buf dm = Inr dm' \<and> mem_good dm' \<and> mem_view dm' = mem_view dm ++ io_view r
    \<and> mem_maxIoBlocks dm' = mem_maxIoBlocks dm"
proof -
  have ok: "mem_ok dm" "rio_ok (add_arg (rio_rec r) buf)" using assms by (simp_all add: mem_good_def)
  obtain dm' where dm': "mem_add (rio_rec r) buf dm = Inr dm'" "mem_ok dm'"
    "mem_view dm' = mem_view dm ++ io_view r" "mem_maxIoBlocks dm' = mem_maxIoBlocks dm"
    using mem_add_eq [OF ok] assms(3) by auto
  have "\<forall>x \<in> set (mem_map dm'). rio_blocks (snd x) \<le> mem_maxIoBlocks dm" if "mem_maxIoBlocks dm \<noteq> 0"
    by (rule mem_add_small [OF ok dm'(1)]) (use that assms(1) in \<open>auto simp: mem_good_def fits_def\<close>)
  then have "mem_good dm'" using dm'(2,4) by (auto simp: mem_good_def fits_def)
  then show ?thesis using dm' by blast
qed

text \<open>The fields that reading and merging of IOs leave alone.\<close>

definition merger_frame :: "diff_merger \<Rightarrow> diff_merger" where
  "merger_frame mg = mg\<lparr>mg_diffMem := mem_setMaxIoBlocks (mem_maxIoBlocks (mg_diffMem mg)) mem_new,
     mg_cache := cache_new, mg_statIn := stat_clear\<rparr>"

lemma merger_frame_simps [simp]:
  "mem_maxIoBlocks dm = mem_maxIoBlocks (mg_diffMem mg) \<Longrightarrow> merger_frame (mg\<lparr>mg_diffMem := dm\<rparr>) = merger_frame mg"
  "merger_frame (mg\<lparr>mg_cache := c\<rparr>) = merger_frame mg"
  "merger_frame (mg\<lparr>mg_statIn := st\<rparr>) = merger_frame mg"
  by (simp_all add: merger_frame_def)

lemma merger_frame_eq:
  "merger_frame mg' = merger_frame mg \<longleftrightarrow> mg_shouldValidateUuid mg' = mg_shouldValidateUuid mg
     \<and> mg_wdiffH mg' = mg_wdiffH mg \<and> mg_isHeaderPrepared mg' = mg_isHeaderPrepared mg
     \<and> mg_wdiffs mg' = mg_wdiffs mg \<and> mg_mergedQ mg' = mg_mergedQ mg \<and> mg_doneAddr mg' = mg_doneAddr mg
     \<and> mg_searchLen mg' = mg_searchLen mg \<and> mg_statOut mg' = mg_statOut mg
     \<and> mem_maxIoBlocks (mg_diffMem mg') = mem_maxIoBlocks (mg_diffMem mg)"
  by (cases mg; cases mg') (auto simp: merger_frame_def mem_setMaxIoBlocks_def mem_new_def)

locale wdiff_source =
  fixes lib_dec :: decoder and good :: "diff_cache \<Rightarrow> bool" and yields :: "wdiff \<Rightarrow> DiffRecIo list \<Rightarrow> bool"
  assumes at_end: "yields wd t \<Longrightarrow> good c \<Longrightarrow>
      \<exists>wd' c'. wd_atEnd lib_dec wd c = Some (Inr (t = [], wd', c')) \<and> yields wd' t \<and> good c'"
    and front: "yields wd (r # t) \<Longrightarrow> good c \<Longrightarrow>
      \<exists>wd' c'. getFrontRec lib_dec wd c = Some (Inr (rio_rec r, wd', c')) \<and> yields wd' (r # t) \<and> good c'"
    and address: "yields wd (r # t) \<Longrightarrow> good c \<Longrightarrow>
      \<exists>wd' c'. currentAddress lib_dec wd c = Some (Inr (rio_addr r, wd', c')) \<and> yields wd' (r # t) \<and> good c'"
    and remove: "yields wd (r # t) \<Longrightarrow> good c \<Longrightarrow> stream_ok (r # t) \<Longrightarrow>
      \<exists>buf wd' c'. getAndRemoveIo lib_dec wd c = Some (Inr (buf, wd', c')) \<and> add_arg (rio_rec r) buf = r
        \<and> yields wd' t \<and> good c'"
begin

text \<open>The merger after some IOs went to the diff in memory; the other fields are as before.\<close>

definition moved :: "diff_merger \<Rightarrow> DiffRecIo list \<Rightarrow> diff_merger \<Rightarrow> bool" where
  "moved mg k mg' \<longleftrightarrow> merger_frame mg' = merger_frame mg \<and> mem_good (mg_diffMem mg')
     \<and> mem_view (mg_diffMem mg') = overwrite_all (mem_view (mg_diffMem mg)) k \<and> good (mg_cache mg')"

definition ready :: "diff_merger \<Rightarrow> bool" where
  "ready mg \<longleftrightarrow> mem_good (mg_diffMem mg) \<and> good (mg_cache mg)"

lemma moved_Nil: "mem_good (mg_diffMem mg) \<Longrightarrow> good c \<Longrightarrow> moved mg [] (mg\<lparr>mg_cache := c\<rparr>)"
  by (simp add: moved_def overwrite_all_def)

lemma moved_trans: "moved mg k mg1 \<Longrightarrow> moved mg1 l mg2 \<Longrightarrow> moved mg (k @ l) mg2"
  by (simp add: moved_def overwrite_all_append)

lemma moved_ready: "moved mg k mg' \<Longrightarrow> ready mg'"
  by (simp add: moved_def ready_def)

lemma moved_same:
  assumes "moved mg k mg'"
  shows "mg_doneAddr mg' = mg_doneAddr mg" and "mg_searchLen mg' = mg_searchLen mg"
    and "mg_mergedQ mg' = mg_mergedQ mg" and "mg_isHeaderPrepared mg' = mg_isHeaderPrepared mg"
    and "mg_wdiffH mg' = mg_wdiffH mg" and "mem_maxIoBlocks (mg_diffMem mg') = mem_maxIoBlocks (mg_diffMem mg)"
  using assms by (simp_all add: moved_def merger_frame_eq)

lemma shouldMerge_pick: "shouldMerge (rio_rec r) nxt mg \<longleftrightarrow> pick (mg_doneAddr mg + mg_searchLen mg) nxt r"
  by (simp add: shouldMerge_def pick_def rio_addr_def)

lemma mergeIo_moved:
  assumes "ready mg" and "rio_ok r" and "add_arg (rio_rec r) buf = r" and "good c"
  shows "\<exists>mg'. mergeIo (rio_rec r) buf (mg\<lparr>mg_cache := c\<rparr>) = Inr mg' \<and> moved mg [r] mg'"
proof -
  obtain dm where dm: "mem_add (rio_rec r) buf (mg_diffMem mg) = Inr dm" "mem_good dm"
    "mem_view dm = mem_view (mg_diffMem mg) ++ io_view r" "mem_maxIoBlocks dm = mem_maxIoBlocks (mg_diffMem mg)"
    using mem_add_good [OF _ assms(2,3), of "mg_diffMem mg"] assms(1) by (auto simp: ready_def)
  have nc: "\<not> rec_isCompressed (rio_rec r)" using assms(2) by (simp add: rio_ok_def)
  have "mergeIo (rio_rec r) buf (mg\<lparr>mg_cache := c\<rparr>) = Inr (mg\<lparr>mg_cache := c, mg_diffMem := dm\<rparr>)"
    using nc dm(1) by (simp add: mergeIo_def)
  moreover have "moved mg [r] (mg\<lparr>mg_cache := c, mg_diffMem := dm\<rparr>)"
    using dm(2-4) assms(4) by (simp add: moved_def overwrite_all_def)
  ultimately show ?thesis by blast
qed

lemma moved_cache: "moved mg k mg1 \<Longrightarrow> good c \<Longrightarrow> moved mg k (mg1\<lparr>mg_cache := c\<rparr>)"
  using moved_trans [of mg k mg1 "[]"] moved_Nil [of mg1 c] moved_ready [of mg k mg1] by (simp add: ready_def)

lemma moved_stat: "moved mg k mg1 \<Longrightarrow> moved mg k (mg1\<lparr>mg_statIn := st\<rparr>)"
  by (simp add: moved_def)

section \<open>The loops\<close>

lemma merge_front_pass:
  assumes "yields wd (r # t)" and "stream_ok (r # t)" and "ready mg"
    and "lim = mg_doneAddr mg + mg_searchLen mg"
  shows "\<exists>wd' mg'. merge_front lib_dec nxt nr g (rio_rec r) wd mg
      = Some (Inr (nr + of_nat (length (takeWhile (pick lim nxt) (r # t))), cover g (takeWhile (pick lim nxt) (r # t)),
          dropWhile (pick lim nxt) (r # t) = [], wd', mg'))
    \<and> (dropWhile (pick lim nxt) (r # t) \<noteq> [] \<longrightarrow> yields wd' (dropWhile (pick lim nxt) (r # t)))
    \<and> moved mg (takeWhile (pick lim nxt) (r # t)) mg'"
  using assms
proof (induction t arbitrary: r wd mg nr g)
  case (Nil r wd mg nr g)
  note step = Nil
  show ?case
  proof (cases "pick lim nxt r")
    case False
    then show ?thesis using step moved_Nil [of mg "mg_cache mg"]
      by (subst merge_front.simps) (simp add: shouldMerge_pick cover_def ready_def)
  next
    case True
    obtain buf wd1 c1 where r1: "getAndRemoveIo lib_dec wd (mg_cache mg) = Some (Inr (buf, wd1, c1))"
      "add_arg (rio_rec r) buf = r" "yields wd1 []" "good c1"
      using remove [OF step(1) _ step(2), of "mg_cache mg"] step(3) by (auto simp: ready_def)
    obtain mg1 where mg1: "mergeIo (rio_rec r) buf (mg\<lparr>mg_cache := c1\<rparr>) = Inr mg1" "moved mg [r] mg1"
      using mergeIo_moved [OF step(3) _ r1(2,4)] step(2) by (auto simp: stream_ok_Cons)
    obtain wd2 c2 where w2: "wd_atEnd lib_dec wd1 (mg_cache mg1) = Some (Inr (True, wd2, c2))" "good c2"
      using at_end [OF r1(3), of "mg_cache mg1"] moved_ready [OF mg1(2)] by (auto simp: ready_def)
    show ?thesis
      using True step(4) r1(1) mg1(1) w2 moved_stat [OF moved_cache [OF mg1(2) w2(2)]]
      by (subst merge_front.simps) (simp add: shouldMerge_pick cover_def rio_range_def)
  qed
next
  case (Cons s t r wd mg nr g)
  note step = Cons.prems
  show ?case
  proof (cases "pick lim nxt r")
    case False
    then show ?thesis using step moved_Nil [of mg "mg_cache mg"]
      by (subst merge_front.simps) (simp add: shouldMerge_pick cover_def ready_def)
  next
    case True
    obtain buf wd1 c1 where r1: "getAndRemoveIo lib_dec wd (mg_cache mg) = Some (Inr (buf, wd1, c1))"
      "add_arg (rio_rec r) buf = r" "yields wd1 (s # t)" "good c1"
      using remove [OF step(1) _ step(2), of "mg_cache mg"] step(3) by (auto simp: ready_def)
    obtain mg1 where mg1: "mergeIo (rio_rec r) buf (mg\<lparr>mg_cache := c1\<rparr>) = Inr mg1" "moved mg [r] mg1"
      using mergeIo_moved [OF step(3) _ r1(2,4)] step(2) by (auto simp: stream_ok_Cons)
    obtain wd2 c2 where w2: "wd_atEnd lib_dec wd1 (mg_cache mg1) = Some (Inr (False, wd2, c2))" "yields wd2 (s # t)" "good c2"
      using at_end [OF r1(3), of "mg_cache mg1"] moved_ready [OF mg1(2)] by (auto simp: ready_def)
    obtain wd3 c3 where w3: "getFrontRec lib_dec wd2 c2 = Some (Inr (rio_rec s, wd3, c3))" "yields wd3 (s # t)" "good c3"
      using front [OF w2(2,3)] by blast
    let ?mg = "mg1\<lparr>mg_cache := c3\<rparr>" let ?g = "rg_merge g (rio_range r)"
    have m: "moved mg [r] ?mg" by (rule moved_cache [OF mg1(2) w3(3)])
    have lim: "lim = mg_doneAddr ?mg + mg_searchLen ?mg" using step(4) moved_same [OF m] by simp
    have st: "stream_ok (s # t)" using step(2) by (simp add: stream_ok_Cons)
    have eq: "merge_front lib_dec nxt nr g (rio_rec r) wd mg = merge_front lib_dec nxt (nr + 1) ?g (rio_rec s) wd3 ?mg"
      using True step(4) r1(1) mg1(1) w2(1) w3(1)
      by (subst merge_front.simps) (simp add: shouldMerge_pick rio_range_def)
    obtain wd' mg' where IH: "merge_front lib_dec nxt (nr + 1) ?g (rio_rec s) wd3 ?mg
        = Some (Inr (nr + 1 + of_nat (length (takeWhile (pick lim nxt) (s # t))), cover ?g (takeWhile (pick lim nxt) (s # t)),
            dropWhile (pick lim nxt) (s # t) = [], wd', mg'))"
      "dropWhile (pick lim nxt) (s # t) \<noteq> [] \<longrightarrow> yields wd' (dropWhile (pick lim nxt) (s # t))"
      "moved ?mg (takeWhile (pick lim nxt) (s # t)) mg'"
      using Cons.IH [OF w3(2) st moved_ready [OF m] lim] by blast
    have "takeWhile (pick lim nxt) (r # s # t) = r # takeWhile (pick lim nxt) (s # t)"
      "dropWhile (pick lim nxt) (r # s # t) = dropWhile (pick lim nxt) (s # t)"
      using True by simp_all
    then show ?thesis
      using eq IH(1,2) moved_trans [OF m IH(3)] by (simp add: cover_def del: takeWhile.simps dropWhile.simps)
  qed
qed

lemma merge_wdiffs_pass:
  assumes "list_all2 yields wds ts" and "\<forall>t \<in> set ts. stream_ok t \<and> t \<noteq> []" and "ready mg"
    and "lim = mg_doneAddr mg + mg_searchLen mg" and "pass_range lim nxt g ts = Inr h"
  shows "\<exists>kept mg'. merge_wdiffs lib_dec wds nr m nxt g mg
      = Some (Inr (nr + of_nat (length (pass_taken lim nxt ts)), heads_min m ts, pass_next lim nxt ts, h, kept, mg'))
    \<and> list_all2 yields kept (pass_left lim nxt ts) \<and> moved mg (pass_taken lim nxt ts) mg'"
  using assms
proof (induction ts arbitrary: wds mg nr m nxt g rule: list.induct)
  case Nil
  have "wds = []" using Nil.prems(1) by simp
  moreover have "g = h" "moved mg [] mg"
    using moved_Nil [of mg "mg_cache mg"] Nil.prems(3,5) by (simp_all add: ready_def)
  ultimately show ?case by auto
next
  case (Cons t ts)
  obtain wd wds' where w: "wds = wd # wds'" "yields wd t" "list_all2 yields wds' ts"
    using Cons.prems(1) by (auto simp: list_all2_Cons2)
  obtain r t' where t: "t = r # t'" using Cons.prems(2) by (cases t) auto
  obtain wd1 c1 where w1: "getFrontRec lib_dec wd (mg_cache mg) = Some (Inr (rio_rec r, wd1, c1))" "yields wd1 t" "good c1"
    using front [of wd r t' "mg_cache mg"] w(2) t Cons.prems(3) by (auto simp: ready_def)
  define k where "k = takeWhile (pick lim nxt) t"
  define l where "l = dropWhile (pick lim nxt) t"
  let ?mg = "mg\<lparr>mg_cache := c1\<rparr>"
  have m0: "moved mg [] ?mg" using moved_Nil [of mg c1] Cons.prems(3) w1(3) by (simp add: ready_def)
  obtain wd2 mg1 where f: "merge_front lib_dec nxt nr (range_of (rio_rec r)) (rio_rec r) wd1 ?mg
      = Some (Inr (nr + of_nat (length k), cover (rio_range r) k, l = [], wd2, mg1))"
    "l \<noteq> [] \<longrightarrow> yields wd2 l" "moved ?mg k mg1"
    using merge_front_pass [of wd1 r t' ?mg lim nxt nr "range_of (rio_rec r)"] w1(2) t Cons.prems(2,4) moved_ready [OF m0]
    unfolding k_def l_def rio_range_def by auto
  have m1: "moved mg k mg1" using moved_trans [OF m0 f(3)] by simp
  obtain g1 where g1: "rg_cluster g (cover (rio_range r) k) = Inr g1" "pass_range lim (next_done nxt l) g1 ts = Inr h"
    using Cons.prems(5) t unfolding k_def l_def by (auto simp: res_bind_Inr_iff)
  have a: "rio_rec r = rio_rec (hd t)" "dr_io_address (rio_rec r) = rio_addr (hd t)" using t by (simp_all add: rio_addr_def)
  have ts: "\<forall>t \<in> set ts. stream_ok t \<and> t \<noteq> []" using Cons.prems(2) by simp
  have pt: "pass_taken lim nxt (t # ts) = k @ pass_taken lim (next_done nxt l) ts"
    "pass_left lim nxt (t # ts) = (if l = [] then [] else [l]) @ pass_left lim (next_done nxt l) ts"
    "pass_next lim nxt (t # ts) = pass_next lim (next_done nxt l) ts"
    by (simp_all only: pass_taken.simps pass_left.simps pass_next.simps Let_def k_def l_def)
  show ?case
  proof (cases "l = []")
    case True
    have lim: "lim = mg_doneAddr mg1 + mg_searchLen mg1" using Cons.prems(4) moved_same [OF m1] by simp
    obtain kept mg' where IH: "merge_wdiffs lib_dec wds' (nr + of_nat (length k)) (min m (rio_addr (hd t))) nxt g1 mg1
        = Some (Inr (nr + of_nat (length k) + of_nat (length (pass_taken lim nxt ts)),
            heads_min (min m (rio_addr (hd t))) ts, pass_next lim nxt ts, h, kept, mg'))"
      "list_all2 yields kept (pass_left lim nxt ts)" "moved mg1 (pass_taken lim nxt ts) mg'"
      using Cons.IH [OF w(3) ts moved_ready [OF m1] lim] g1(2) True by (metis next_done.simps(1))
    have "moved mg (pass_taken lim nxt (t # ts)) mg'" using moved_trans [OF m1 IH(3)] pt(1) True by simp
    then show ?thesis
      using IH(1,2) w(1) w1(1) f(1) g1(1) True a by (simp add: pt del: pass_taken.simps pass_left.simps pass_next.simps)
  next
    case False
    then obtain s l' where l: "l = s # l'" by (cases l) auto
    obtain wd3 c2 where w3: "currentAddress lib_dec wd2 (mg_cache mg1) = Some (Inr (rio_addr s, wd3, c2))" "yields wd3 l" "good c2"
      using address [of wd2 s l' "mg_cache mg1"] f(2) l moved_ready [OF m1] by (auto simp: ready_def)
    let ?mg1 = "mg1\<lparr>mg_cache := c2\<rparr>" let ?n = "min nxt (rio_addr s)"
    have m2: "moved mg k ?mg1" by (rule moved_cache [OF m1 w3(3)])
    have lim: "lim = mg_doneAddr ?mg1 + mg_searchLen ?mg1" using Cons.prems(4) moved_same [OF m2] by simp
    obtain kept mg' where IH: "merge_wdiffs lib_dec wds' (nr + of_nat (length k)) (min m (rio_addr (hd t))) ?n g1 ?mg1
        = Some (Inr (nr + of_nat (length k) + of_nat (length (pass_taken lim ?n ts)),
            heads_min (min m (rio_addr (hd t))) ts, pass_next lim ?n ts, h, kept, mg'))"
      "list_all2 yields kept (pass_left lim ?n ts)" "moved ?mg1 (pass_taken lim ?n ts) mg'"
      using Cons.IH [OF w(3) ts moved_ready [OF m2] lim] g1(2) l by (metis next_done.simps(2))
    have "moved mg (pass_taken lim nxt (t # ts)) mg'" using moved_trans [OF m2 IH(3)] pt(1) l by simp
    then show ?thesis
      using IH(1,2) w(1) w1(1) f(1) g1(1) l w3(1,2) a by (simp add: pt del: pass_taken.simps pass_left.simps pass_next.simps)
  qed
qed

end

section \<open>Handing IOs out\<close>

text \<open>The records that end at \<open>doneAddr_\<close> or before, a prefix of the map, go to the queue.\<close>

lemma flush_loop_ok:
  assumes "mem_map (mg_diffMem mg) = es" and "p = (\<lambda>e. rio_fin (snd e) \<le> mg_doneAddr mg)"
  shows "\<exists>dm. flush_loop es mg = Inr (mg\<lparr>mg_mergedQ := mg_mergedQ mg @ map snd (takeWhile p es), mg_diffMem := dm\<rparr>)
    \<and> mem_map dm = dropWhile p es \<and> mem_maxIoBlocks dm = mem_maxIoBlocks (mg_diffMem mg)"
  using assms
proof (induction es arbitrary: mg)
  case Nil
  then show ?case by (intro exI [of _ "mg_diffMem mg"]) simp
next
  case (Cons e es)
  show ?case
  proof (cases "p e")
    case False
    then have "mg_doneAddr mg < rio_fin (snd e)" using Cons.prems(2) by auto
    then show ?thesis using Cons.prems(1) False by (intro exI [of _ "mg_diffMem mg"]) simp
  next
    case True
    then have le: "\<not> mg_doneAddr mg < rio_fin (snd e)" using Cons.prems(2) by auto
    obtain dm1 where dm1: "eraseFromMap 0 (mg_diffMem mg) = Inr dm1" "mem_map dm1 = es"
      "mem_maxIoBlocks dm1 = mem_maxIoBlocks (mg_diffMem mg)"
      using Cons.prems(1) by (simp add: eraseFromMap_def)
    let ?mg = "mg\<lparr>mg_mergedQ := mg_mergedQ mg @ [snd e], mg_diffMem := dm1\<rparr>"
    obtain dm where "flush_loop es ?mg = Inr (?mg\<lparr>mg_mergedQ := mg_mergedQ ?mg @ map snd (takeWhile p es), mg_diffMem := dm\<rparr>)"
      "mem_map dm = dropWhile p es" "mem_maxIoBlocks dm = mem_maxIoBlocks (mg_diffMem mg)"
      using Cons.IH [of ?mg] dm1(2,3) Cons.prems(2) by auto
    then show ?thesis using le dm1(1) True by (intro exI [of _ dm]) simp
  qed
qed

text \<open>Everything that is read until the merger reports the end.\<close>

partial_function (option) merger_read_all ::
  "decoder \<Rightarrow> diff_merger \<Rightarrow> (DiffRecIo list \<times> diff_merger) res option"
where
  "merger_read_all lib_dec mg =
     obind (getAndRemove lib_dec mg) (\<lambda>t.
       case fst t of
         None \<Rightarrow> Some (Inr ([], snd t))
       | Some d \<Rightarrow> obind (merger_read_all lib_dec (snd t)) (\<lambda>u. Some (Inr (d # fst u, snd u))))"

lemma map_ok_split:
  assumes "mem_ok dm" and "mem_ok dm1" and "mem_map dm1 = dropWhile p (mem_map dm)"
  defines "k \<equiv> map snd (takeWhile p (mem_map dm))"
  shows "(\<forall>r \<in> set k. rio_ok r) \<and> sorted_wrt before k \<and> mem_view dm = rio.views k ++ mem_view dm1
    \<and> (\<forall>r \<in> set k. \<forall>a \<in> dom (mem_view dm1). unat (rio_fin r) \<le> a)"
proof -
  have "rio.map_ok (takeWhile p (mem_map dm) @ dropWhile p (mem_map dm))" using assms(1) by (simp add: mem_ok_def)
  then have sp: "rio.map_ok (takeWhile p (mem_map dm))"
    "\<forall>x \<in> set (takeWhile p (mem_map dm)). \<forall>y \<in> set (mem_map dm1). before (snd x) (snd y)"
    unfolding rio.map_ok_append assms(3) by (auto simp: before_def)
  have ok: "\<forall>r \<in> set k. rio_ok r" using sp(1) by (auto simp: k_def rio.map_ok_def)
  have "rio.disjoint (k @ map snd (mem_map dm1))"
    using rio.map_ok_disjoint [of "mem_map dm"] assms(1,3) by (simp add: mem_ok_def k_def flip: map_append)
  then have "dom (rio.views k) \<inter> dom (mem_view dm1) = {}"
    unfolding rio.disjoint_append mem_view_def by (auto simp: rio.dom_views)
  then have comm: "rio.views k ++ mem_view dm1 = mem_view dm1 ++ rio.views k" by (rule map_add_comm)
  have "mem_map dm = takeWhile p (mem_map dm) @ mem_map dm1" using assms(3) by simp
  then have "mem_view dm = mem_view dm1 ++ rio.views k"
    unfolding mem_view_def k_def by (metis map_append rio.views_append)
  moreover have "unat (rio_fin r) \<le> a" if r: "r \<in> set k" and a: "a \<in> dom (mem_view dm1)" for r a
  proof -
    obtain y where y: "y \<in> set (mem_map dm1)" "a \<in> rio.rng (snd y)" using a by (auto simp: mem_view_def rio.dom_views)
    then have "before r (snd y)" using sp(2) r by (auto simp: k_def)
    then show ?thesis using y(2) ok r unat_end_rec [of r] by (auto simp: before_def rio.rng_def)
  qed
  moreover have "sorted_wrt before k" using sp(1)
    by (auto simp: k_def rio.map_ok_def sorted_wrt_map before_def [abs_def])
  ultimately show ?thesis using ok comm by auto
qed

section \<open>The merger makes progress\<close>

context wdiff_source
begin

text \<open>The state of the merger between calls: the streams \<open>ts\<close> are still to come.\<close>

definition merging :: "diff_merger \<Rightarrow> DiffRecIo list list \<Rightarrow> bool" where
  "merging mg ts \<longleftrightarrow> list_all2 yields (mg_wdiffs mg) ts \<and> (\<forall>t \<in> set ts. stream_ok t \<and> t \<noteq> []) \<and> ready mg
     \<and> (\<forall>r \<in> set (concat ts). mg_doneAddr mg \<le> rio_addr r) \<and> (ts = [] \<longrightarrow> mg_wdiffs mg = [])
     \<and> unat (mg_searchLen mg) < 2 ^ 63 \<and> length (concat ts) < 2 ^ 64"

lemma try_move:
  assumes "merging mg ts" and "ts \<noteq> []"
  defines "lim \<equiv> mg_doneAddr mg + mg_searchLen mg"
  shows "\<exists>h mg'. pass_range lim (- 1) (rio_range (hd (hd ts))) ts = Inr h
    \<and> tryMoveToDiffMemory lib_dec mg = Some (Inr (of_nat (length (pass_taken lim (- 1) ts)), mg'))
    \<and> merging mg' (pass_left lim (- 1) ts)
    \<and> contents (mem_view (mg_diffMem mg')) (pass_left lim (- 1) ts) = contents (mem_view (mg_diffMem mg)) ts
    \<and> mem_view (mg_diffMem mg') = overwrite_all (mem_view (mg_diffMem mg)) (pass_taken lim (- 1) ts)
    \<and> mg_doneAddr mg' = pass_next lim (- 1) ts \<and> mg_searchLen mg' = max (mg_searchLen mg) (rg_size h)
    \<and> rg_ok h \<and> rg_bgn h = heads_min (- 1) ts
    \<and> mg_mergedQ mg' = mg_mergedQ mg \<and> mg_isHeaderPrepared mg' = mg_isHeaderPrepared mg \<and> mg_wdiffH mg' = mg_wdiffH mg
    \<and> mem_maxIoBlocks (mg_diffMem mg') = mem_maxIoBlocks (mg_diffMem mg)"
proof -
  obtain t ts' where ts: "ts = t # ts'" using assms(2) by (cases ts) auto
  have ok: "\<forall>t \<in> set ts. stream_ok t \<and> t \<noteq> []" and oks: "\<forall>t \<in> set ts. stream_ok t" and rd: "ready mg"
    and sl: "unat (mg_searchLen mg) < 2 ^ 63"
    and len: "length (concat ts) < 2 ^ 64"
    using assms(1) by (simp_all add: merging_def)
  obtain wd wds where w: "mg_wdiffs mg = wd # wds" "yields wd t" "list_all2 yields wds ts'"
    using assms(1) ts by (auto simp: merging_def list_all2_Cons2)
  obtain r t' where t: "t = r # t'" using ok ts by (cases t) auto
  obtain wd1 c1 where w1: "getFrontRec lib_dec wd (mg_cache mg) = Some (Inr (rio_rec r, wd1, c1))" "yields wd1 t" "good c1"
    using front [of wd r t' "mg_cache mg"] w(2) t rd by (auto simp: ready_def)
  have rr: "rio_ok r" "unat (rio_addr r) + unat (rio_blocks r) < 2 ^ 62" using ok ts t by (simp_all add: stream_ok_Cons)
  have hm: "heads_min (- 1) ts = heads_min (rio_addr r) ts'" "heads_min (rio_addr r) ts = heads_min (rio_addr r) ts'"
    using ts t by (simp_all add: min_def word_order.extremum word_order.extremum_unique)
  obtain h where h: "pass_range lim (- 1) (rio_range r) ts = Inr h" "rg_ok h" "rg_bgn h = heads_min (- 1) ts"
    using pass_range_ok [OF rg_ok_rio [OF rr] ok, of lim "- 1"] hm
    by (auto simp: rio_range_def range_of_def rio_addr_def)
  let ?mg = "mg\<lparr>mg_cache := c1\<rparr>"
  have m0: "moved mg [] ?mg" using moved_Nil [of mg c1] rd w1(3) by (simp add: ready_def)
  have "lim = mg_doneAddr ?mg + mg_searchLen ?mg" by (simp add: lim_def)
  then obtain kept mg1 where m1: "merge_wdiffs lib_dec (wd1 # wds) 0 (- 1) (- 1) (range_of (rio_rec r)) ?mg
      = Some (Inr (of_nat (length (pass_taken lim (- 1) ts)), heads_min (- 1) ts, pass_next lim (- 1) ts, h, kept, mg1))"
    "list_all2 yields kept (pass_left lim (- 1) ts)" "moved ?mg (pass_taken lim (- 1) ts) mg1"
    using merge_wdiffs_pass [of "wd1 # wds" ts ?mg lim "- 1" "rio_range r" h 0 "- 1"] w(3) w1(2) ts ok moved_ready [OF m0] h(1)
    by (auto simp: rio_range_def)
  have m: "moved mg (pass_taken lim (- 1) ts) mg1" using moved_trans [OF m0 m1(3)] by simp
  let ?mg' = "mg1\<lparr>mg_wdiffs := kept, mg_searchLen := max (mg_searchLen mg1) (rg_size h), mg_doneAddr := pass_next lim (- 1) ts\<rparr>"
  have tm: "tryMoveToDiffMemory lib_dec mg = Some (Inr (of_nat (length (pass_taken lim (- 1) ts)), ?mg'))"
    using w(1) w1(1) m1(1) h(3) by (simp add: tryMoveToDiffMemory_def)
  note pl = pass_left_ok [OF oks, of lim "- 1"]
  have sz: "unat (rg_size h) < 2 ^ 62"
    using h(2) by (auto simp: rg_size_def rg_ok_def unat_sub_le)
  have "merging ?mg' (pass_left lim (- 1) ts)"
    unfolding merging_def
  proof (intro conjI)
    show "list_all2 yields (mg_wdiffs ?mg') (pass_left lim (- 1) ts)" using m1(2) by simp
    show "ready ?mg'" using moved_ready [OF m] by (simp add: ready_def)
    show "unat (mg_searchLen ?mg') < 2 ^ 63" using sl sz moved_same(2) [OF m] by (simp add: max_def)
    show "pass_left lim (- 1) ts = [] \<longrightarrow> mg_wdiffs ?mg' = []" using m1(2) by auto
    show "length (concat (pass_left lim (- 1) ts)) < 2 ^ 64" using pl len by linarith
  qed (use pl in auto)
  moreover have "contents (mem_view (mg_diffMem ?mg')) (pass_left lim (- 1) ts) = contents (mem_view (mg_diffMem mg)) ts"
    using m pass_contents [OF oks, of Map.empty "- 1" "mem_view (mg_diffMem mg)" lim] by (simp add: moved_def)
  ultimately show ?thesis
    using tm h(2,3) h(1) ts t m moved_same [OF m] by (intro exI [of _ h] exI [of _ ?mg']) (simp add: moved_def)
qed

lemma taken_progress:
  assumes "merging mg ts" and "pass_taken lim nxt ts \<noteq> []" and "mem_view dm = overwrite_all m (pass_taken lim nxt ts)"
  shows "length (concat (pass_left lim nxt ts)) < length (concat ts)" and "mem_map dm \<noteq> []"
    and "(of_nat (length (pass_taken lim nxt ts)) :: u64) \<noteq> 0"
proof -
  have oks: "\<forall>t \<in> set ts. stream_ok t" and len: "length (concat ts) < 2 ^ 64" using assms(1) by (simp_all add: merging_def)
  note pl = pass_left_ok [OF oks, of lim nxt]
  have pos: "0 < length (pass_taken lim nxt ts)" using assms(2) by simp
  then show "length (concat (pass_left lim nxt ts)) < length (concat ts)" using pl by linarith
  obtain r k where r: "pass_taken lim nxt ts = r # k" using assms(2) by (cases "pass_taken lim nxt ts") auto
  then have "r \<in> set (concat ts)" using pl by auto
  then have "rio_ok r" using oks by (auto simp: stream_ok_def)
  then have "rio.rng r \<noteq> {}" by (simp add: rio.rng_def rio_ok_def)
  then have "dom (mem_view dm) \<noteq> {}" using assms(3) r by (auto simp: dom_overwrite_all)
  then show "mem_map dm \<noteq> []" by (auto simp: mem_view_def)
  have "length (pass_taken lim nxt ts) < 2 ^ 64" using pl len by linarith
  then have "unat (of_nat (length (pass_taken lim nxt ts)) :: u64) \<noteq> 0"
    using pos by (simp add: unat_of_nat)
  then show "(of_nat (length (pass_taken lim nxt ts)) :: u64) \<noteq> 0" by (metis unat_0)
qed

text \<open>With the searched length grown to the cluster, the second attempt takes an IO.\<close>

lemma move_ok:
  assumes "merging mg ts"
  shows "\<exists>mg' ts'. moveToDiffMemory lib_dec mg = Some (Inr mg') \<and> merging mg' ts'
    \<and> contents (mem_view (mg_diffMem mg')) ts' = contents (mem_view (mg_diffMem mg)) ts
    \<and> (ts \<noteq> [] \<longrightarrow> length (concat ts') < length (concat ts) \<and> mem_map (mg_diffMem mg') \<noteq> [])
    \<and> (ts = [] \<longrightarrow> ts' = [] \<and> mg_diffMem mg' = mg_diffMem mg)
    \<and> (ts' = [] \<longrightarrow> mg_doneAddr mg' = - 1)
    \<and> mg_mergedQ mg' = mg_mergedQ mg \<and> mg_isHeaderPrepared mg' = mg_isHeaderPrepared mg \<and> mg_wdiffH mg' = mg_wdiffH mg
    \<and> mem_maxIoBlocks (mg_diffMem mg') = mem_maxIoBlocks (mg_diffMem mg)"
proof (cases "ts = []")
  case True
  then have "mg_wdiffs mg = []" using assms by (simp add: merging_def)
  moreover from this have "merging (mg\<lparr>mg_doneAddr := - 1\<rparr>) []" using assms True by (simp add: merging_def ready_def)
  ultimately show ?thesis using True
    by (intro exI [of _ "mg\<lparr>mg_doneAddr := - 1\<rparr>"] exI [of _ "[]"])
      (simp add: moveToDiffMemory_def tryMoveToDiffMemory_def)
next
  case ts: False
  have ok: "\<forall>t \<in> set ts. stream_ok t \<and> t \<noteq> []" and oks: "\<forall>t \<in> set ts. stream_ok t"
    and len: "length (concat ts) < 2 ^ 64"
    using assms by (simp_all add: merging_def)
  define lim where "lim = mg_doneAddr mg + mg_searchLen mg"
  obtain h mg1 where m1: "pass_range lim (- 1) (rio_range (hd (hd ts))) ts = Inr h"
    "tryMoveToDiffMemory lib_dec mg = Some (Inr (of_nat (length (pass_taken lim (- 1) ts)), mg1))"
    "merging mg1 (pass_left lim (- 1) ts)"
    "contents (mem_view (mg_diffMem mg1)) (pass_left lim (- 1) ts) = contents (mem_view (mg_diffMem mg)) ts"
    "mem_view (mg_diffMem mg1) = overwrite_all (mem_view (mg_diffMem mg)) (pass_taken lim (- 1) ts)"
    "mg_doneAddr mg1 = pass_next lim (- 1) ts" "mg_searchLen mg1 = max (mg_searchLen mg) (rg_size h)"
    "rg_ok h" "rg_bgn h = heads_min (- 1) ts"
    "mg_mergedQ mg1 = mg_mergedQ mg" "mg_isHeaderPrepared mg1 = mg_isHeaderPrepared mg" "mg_wdiffH mg1 = mg_wdiffH mg"
    "mem_maxIoBlocks (mg_diffMem mg1) = mem_maxIoBlocks (mg_diffMem mg)"
    using try_move [OF assms ts] unfolding lim_def by blast
  show ?thesis
  proof (cases "pass_taken lim (- 1) ts = []")
    case False
    note pr = taken_progress [OF assms False m1(5)]
    have "moveToDiffMemory lib_dec mg = Some (Inr mg1)"
      using m1(2) pr(3) by (simp add: moveToDiffMemory_def word_gt_0)
    then show ?thesis using m1(3,4,6,10-13) pr(1,2) pass_next_all [of lim "- 1" ts] ts
      by (intro exI [of _ mg1] exI [of _ "pass_left lim (- 1) ts"]) simp
  next
    case True
    note idle = pass_idle [OF True]
    obtain t ts0 where t: "ts = t # ts0" using ts by (cases ts) auto
    have left: "pass_left lim (- 1) ts = ts" and da: "mg_doneAddr mg1 = rg_bgn h" using idle ok m1(6,9) by simp_all
    have m: "merging mg1 ts" using m1(3) left by simp
    define lim1 where "lim1 = mg_doneAddr mg1 + mg_searchLen mg1"
    have "unblocked (rg_end h) (- 1) ts" using idle_unblocked [of lim t ts0 h] True ok m1(1) t by simp
    moreover have "rg_end h \<le> lim1"
    proof -
      have b: "unat (rg_bgn h) < unat (rg_end h)" "unat (rg_end h) < 2 ^ 62" "rg_bgn h \<le> rg_end h"
        using m1(8) by (auto simp: rg_ok_def word_less_nat_alt word_le_nat_alt)
      have s: "unat (mg_searchLen mg1) < 2 ^ 63" using m by (simp add: merging_def)
      have "rg_end h - rg_bgn h \<le> mg_searchLen mg1" using m1(7) by (simp add: rg_size_def)
      then have "unat (rg_end h) - unat (rg_bgn h) \<le> unat (mg_searchLen mg1)"
        using b(3) by (simp add: word_le_nat_alt unat_sub_le)
      moreover have "unat (rg_bgn h + mg_searchLen mg1) = unat (rg_bgn h) + unat (mg_searchLen mg1)"
        using b s by (intro unat_add_small) simp
      ultimately show ?thesis using b by (simp add: lim1_def da word_le_nat_alt)
    qed
    ultimately have tk: "pass_taken lim1 (- 1) ts \<noteq> []" using unblocked_taken ok by blast
    obtain h2 mg2 where m2: "tryMoveToDiffMemory lib_dec mg1 = Some (Inr (of_nat (length (pass_taken lim1 (- 1) ts)), mg2))"
      "merging mg2 (pass_left lim1 (- 1) ts)"
      "contents (mem_view (mg_diffMem mg2)) (pass_left lim1 (- 1) ts) = contents (mem_view (mg_diffMem mg1)) ts"
      "mem_view (mg_diffMem mg2) = overwrite_all (mem_view (mg_diffMem mg1)) (pass_taken lim1 (- 1) ts)"
      "mg_doneAddr mg2 = pass_next lim1 (- 1) ts"
      "mg_mergedQ mg2 = mg_mergedQ mg1" "mg_isHeaderPrepared mg2 = mg_isHeaderPrepared mg1" "mg_wdiffH mg2 = mg_wdiffH mg1"
      "mem_maxIoBlocks (mg_diffMem mg2) = mem_maxIoBlocks (mg_diffMem mg1)"
      using try_move [OF m ts] unfolding lim1_def by blast
    note pr = taken_progress [OF m tk m2(4)]
    have "mg_wdiffs mg1 \<noteq> []" using m ts by (auto simp: merging_def)
    then have "moveToDiffMemory lib_dec mg = Some (Inr mg2)"
      using m1(2) True m2(1) pr(3) by (simp add: moveToDiffMemory_def word_gt_0)
    then show ?thesis using m1(4,10-13) m2(2,3,5-9) pr(1,2) pass_next_all [of lim1 "- 1" ts] ts left
      by (intro exI [of _ mg2] exI [of _ "pass_left lim1 (- 1) ts"]) simp
  qed
qed


section \<open>Reading the merger to the end\<close>

text \<open>The queue holds sorted IOs that end before everything that is still to come.\<close>

definition merge_state :: "diff_merger \<Rightarrow> DiffRecIo list list \<Rightarrow> bool" where
  "merge_state mg ts \<longleftrightarrow> merging mg ts \<and> mg_isHeaderPrepared mg \<and> sorted_wrt before (mg_mergedQ mg)
     \<and> (\<forall>r \<in> set (mg_mergedQ mg). rio_ok r \<and> fits (mg_diffMem mg) r
          \<and> (\<forall>a \<in> dom (contents (mem_view (mg_diffMem mg)) ts). unat (rio_fin r) \<le> a))"

lemma flush_ok:
  assumes "merging mg ts" and "mg_isHeaderPrepared mg" and "mg_mergedQ mg = []" and "mem_map (mg_diffMem mg) \<noteq> []"
  shows "\<exists>mg'. moveToMergedQueue mg = Inr (True, mg') \<and> merge_state mg' ts
    \<and> contents (mem_view (mg_diffMem mg)) ts
      = rio.views (mg_mergedQ mg') ++ contents (mem_view (mg_diffMem mg')) ts
    \<and> length (mg_mergedQ mg') + length (mem_map (mg_diffMem mg')) = length (mem_map (mg_diffMem mg))
    \<and> (mg_doneAddr mg = - 1 \<longrightarrow> mem_map (mg_diffMem mg') = []) \<and> mg_wdiffH mg' = mg_wdiffH mg
    \<and> mem_maxIoBlocks (mg_diffMem mg') = mem_maxIoBlocks (mg_diffMem mg)"
proof -
  define p where "p = (\<lambda>e :: u64 \<times> DiffRecIo. rio_fin (snd e) \<le> mg_doneAddr mg)"
  let ?m = "mem_map (mg_diffMem mg)" let ?k = "map snd (takeWhile p ?m)"
  obtain dm where dm: "flush_loop ?m mg = Inr (mg\<lparr>mg_mergedQ := ?k, mg_diffMem := dm\<rparr>)" "mem_map dm = dropWhile p ?m"
    "mem_maxIoBlocks dm = mem_maxIoBlocks (mg_diffMem mg)"
    using flush_loop_ok [of mg ?m p] assms(3) p_def by auto
  let ?mg = "mg\<lparr>mg_mergedQ := ?k, mg_diffMem := dm\<rparr>"
  have mg: "mem_good (mg_diffMem mg)" using assms(1) by (simp add: merging_def ready_def)
  then have mok: "mem_ok (mg_diffMem mg)" by (simp add: mem_good_def)
  have "rio.map_ok (takeWhile p ?m @ dropWhile p ?m)" using mok by (simp add: mem_ok_def)
  then have dok: "mem_ok dm" using dm(2) unfolding rio.map_ok_append by (simp add: mem_ok_def)
  note sp = map_ok_split [OF mok dok dm(2)]
  have c: "contents (mem_view (mg_diffMem mg)) ts = rio.views ?k ++ contents (mem_view dm) ts"
    using sp contents_add by metis
  have low: "unat (rio_fin r) \<le> a" if r: "r \<in> set ?k" and a: "a \<in> dom (contents (mem_view dm) ts)" for r a
  proof -
    consider "a \<in> dom (mem_view dm)" | x where "x \<in> set (concat ts)" "a \<in> rio.rng x"
      using a unfolding dom_contents by blast
    then show ?thesis
    proof cases
      case 1
      then show ?thesis using sp r by blast
    next
      case 2
      have "rio_fin r \<le> mg_doneAddr mg" using r by (auto simp: p_def dest: set_takeWhileD)
      moreover have "mg_doneAddr mg \<le> rio_addr x" using assms(1) 2(1) unfolding merging_def by blast
      ultimately have "rio_fin r \<le> rio_addr x" by (rule order_trans)
      then show ?thesis using 2(2) by (simp add: word_le_nat_alt rio.rng_def)
    qed
  qed
  have ft: "\<forall>x \<in> set ?m. fits dm (snd x)" using mg dm(3) by (simp add: mem_good_def fits_def)
  then have "mem_good dm" using dok dm(2) by (auto simp: mem_good_def dest: set_dropWhileD)
  then have "merging ?mg ts" using assms(1) by (simp add: merging_def ready_def)
  moreover have "\<forall>r \<in> set ?k. fits dm r" using ft by (auto dest: set_takeWhileD)
  ultimately have "merge_state ?mg ts" using assms(2) sp low by (simp add: merge_state_def)
  moreover have "moveToMergedQueue mg = Inr (True, ?mg)" using assms(4) dm(1) by (simp add: moveToMergedQueue_def)
  moreover have "length ?k + length (mem_map dm) = length ?m" using dm(2) by (simp flip: length_append)
  moreover have "mg_doneAddr mg = - 1 \<longrightarrow> mem_map dm = []" using dm(2) by (simp add: p_def word_order.extremum)
  ultimately show ?thesis using c dm(3) by (intro exI [of _ ?mg]) simp
qed

text \<open>One round of the loop of \<open>getAndRemove\<close>.\<close>

lemma next_round:
  assumes "merge_state mg ts" and "mg_mergedQ mg = []" and "ts \<noteq> [] \<or> mem_map (mg_diffMem mg) \<noteq> []"
  shows "\<exists>mg' ts'. merger_read_all lib_dec mg = merger_read_all lib_dec mg' \<and> merge_state mg' ts'
    \<and> contents (mem_view (mg_diffMem mg)) ts
      = rio.views (mg_mergedQ mg') ++ contents (mem_view (mg_diffMem mg')) ts'
    \<and> (ts \<noteq> [] \<and> length (concat ts') < length (concat ts)
       \<or> ts' = [] \<and> ts = [] \<and> length (mem_map (mg_diffMem mg')) < length (mem_map (mg_diffMem mg)))
    \<and> mem_maxIoBlocks (mg_diffMem mg') = mem_maxIoBlocks (mg_diffMem mg)"
proof -
  have m: "merging mg ts" "mg_isHeaderPrepared mg" using assms(1) by (simp_all add: merge_state_def)
  obtain mg1 ts1 where m1: "moveToDiffMemory lib_dec mg = Some (Inr mg1)" "merging mg1 ts1"
    "contents (mem_view (mg_diffMem mg1)) ts1 = contents (mem_view (mg_diffMem mg)) ts"
    "ts \<noteq> [] \<longrightarrow> length (concat ts1) < length (concat ts) \<and> mem_map (mg_diffMem mg1) \<noteq> []"
    "ts = [] \<longrightarrow> ts1 = [] \<and> mg_diffMem mg1 = mg_diffMem mg" "ts1 = [] \<longrightarrow> mg_doneAddr mg1 = - 1"
    "mg_mergedQ mg1 = mg_mergedQ mg" "mg_isHeaderPrepared mg1 = mg_isHeaderPrepared mg"
    "mem_maxIoBlocks (mg_diffMem mg1) = mem_maxIoBlocks (mg_diffMem mg)"
    using move_ok [OF m(1)] by blast
  have ne: "mem_map (mg_diffMem mg1) \<noteq> []" using m1(4,5) assms(3) by (cases "ts = []") auto
  obtain mg2 where m2: "moveToMergedQueue mg1 = Inr (True, mg2)" "merge_state mg2 ts1"
    "contents (mem_view (mg_diffMem mg1)) ts1 = rio.views (mg_mergedQ mg2) ++ contents (mem_view (mg_diffMem mg2)) ts1"
    "length (mg_mergedQ mg2) + length (mem_map (mg_diffMem mg2)) = length (mem_map (mg_diffMem mg1))"
    "mg_doneAddr mg1 = - 1 \<longrightarrow> mem_map (mg_diffMem mg2) = []"
    "mem_maxIoBlocks (mg_diffMem mg2) = mem_maxIoBlocks (mg_diffMem mg1)"
    using flush_ok [OF m1(2)] m1(7,8) m(2) assms(2) ne by auto
  have "merger_next lib_dec mg = merger_next lib_dec mg2"
    by (subst merger_next.simps) (simp add: assms(2) m1(1) m2(1))
  then have "getAndRemove lib_dec mg = getAndRemove lib_dec mg2"
    using m(2) m2(2) by (simp add: getAndRemove_def merge_state_def)
  then have "merger_read_all lib_dec mg = merger_read_all lib_dec mg2"
    by (subst (1 2) merger_read_all.simps) simp
  moreover have "mem_map (mg_diffMem mg2) = []" if "ts = []" using that m1(5,6) m2(5) by simp
  ultimately show ?thesis using m1(3-5,9) m2 ne assms(3)
    by (intro exI [of _ mg2] exI [of _ ts1]) auto
qed

lemma read_all_end:
  assumes "merge_state mg []" and "mg_mergedQ mg = []" and "mem_map (mg_diffMem mg) = []"
  shows "merger_read_all lib_dec mg = Some (Inr ([], mg\<lparr>mg_doneAddr := - 1\<rparr>))"
proof -
  have "mg_wdiffs mg = []" "mg_isHeaderPrepared mg" using assms(1) by (simp_all add: merge_state_def merging_def)
  moreover from this have "merger_next lib_dec mg = Some (Inr (None, mg\<lparr>mg_doneAddr := - 1\<rparr>))"
    using assms(2,3)
    by (subst merger_next.simps) (simp add: moveToDiffMemory_def tryMoveToDiffMemory_def moveToMergedQueue_def)
  ultimately show ?thesis by (subst merger_read_all.simps) (simp add: getAndRemove_def)
qed

lemma read_all_ok:
  assumes "merge_state mg ts"
  shows "\<exists>rs mg'. merger_read_all lib_dec mg = Some (Inr (rs, mg')) \<and> sorted_wrt before rs \<and> (\<forall>r \<in> set rs. rio_ok r \<and> fits (mg_diffMem mg) r)
    \<and> rio.views rs = rio.views (mg_mergedQ mg) ++ contents (mem_view (mg_diffMem mg)) ts
    \<and> mg_wdiffs mg' = [] \<and> mem_map (mg_diffMem mg') = []"
proof -
  define f where "f = (\<lambda>x :: diff_merger \<times> DiffRecIo list list. length (concat (snd x)))"
  define g where "g = (\<lambda>x :: diff_merger \<times> DiffRecIo list list. length (mem_map (mg_diffMem (fst x))))"
  define h where "h = (\<lambda>x :: diff_merger \<times> DiffRecIo list list. length (mg_mergedQ (fst x)))"
  have "merge_state (fst x) (snd x) \<Longrightarrow> \<exists>rs mg'. merger_read_all lib_dec (fst x) = Some (Inr (rs, mg'))
      \<and> sorted_wrt before rs \<and> (\<forall>r \<in> set rs. rio_ok r \<and> fits (mg_diffMem (fst x)) r)
      \<and> rio.views rs = rio.views (mg_mergedQ (fst x)) ++ contents (mem_view (mg_diffMem (fst x))) (snd x)
      \<and> mg_wdiffs mg' = [] \<and> mem_map (mg_diffMem mg') = []" for x
  proof (induction x rule: wf_induct_rule [OF wf_measures [of "[f, g, h]"]])
    case (1 x)
    obtain mg ts where x: "x = (mg, ts)" by fastforce
    have st: "merge_state mg ts" using 1(2) x by simp
    have IH: "\<exists>rs mg''. merger_read_all lib_dec mg' = Some (Inr (rs, mg''))
      \<and> sorted_wrt before rs \<and> (\<forall>r \<in> set rs. rio_ok r \<and> fits (mg_diffMem mg') r)
      \<and> rio.views rs = rio.views (mg_mergedQ mg') ++ contents (mem_view (mg_diffMem mg')) ts'
      \<and> mg_wdiffs mg'' = [] \<and> mem_map (mg_diffMem mg'') = []"
      if "((mg', ts'), x) \<in> measures [f, g, h]" "merge_state mg' ts'" for mg' ts'
      using 1(1) [of "(mg', ts')"] that by simp
    show ?case
    proof (cases "mg_mergedQ mg")
      case (Cons r q)
      let ?mg = "mg\<lparr>mg_mergedQ := q\<rparr>"
      have st': "merge_state ?mg ts" using st Cons by (simp add: merge_state_def merging_def ready_def)
      have "((?mg, ts), x) \<in> measures [f, g, h]" using x Cons by (simp add: f_def g_def h_def)
      from IH [OF this st'] obtain rs mg' where rs: "merger_read_all lib_dec ?mg = Some (Inr (rs, mg'))"
        "sorted_wrt before rs" "\<forall>r \<in> set rs. rio_ok r \<and> fits (mg_diffMem mg) r"
        "rio.views rs = rio.views q ++ contents (mem_view (mg_diffMem mg)) ts"
        "mg_wdiffs mg' = []" "mem_map (mg_diffMem mg') = []" by auto
      have q: "rio_ok r" "\<forall>s \<in> set q. before r s" "fits (mg_diffMem mg) r"
        "\<forall>a \<in> dom (contents (mem_view (mg_diffMem mg)) ts). unat (rio_fin r) \<le> a"
        using st Cons by (simp_all add: merge_state_def)
      have low: "unat (rio_fin r) \<le> a" if a: "a \<in> dom (rio.views rs)" for a
      proof -
        consider "a \<in> dom (contents (mem_view (mg_diffMem mg)) ts)" | s where "s \<in> set q" "a \<in> rio.rng s"
          using a unfolding rs(4) dom_map_add rio.dom_views by blast
        then show ?thesis
        proof cases
          case 2
          then have "before r s" using q(2) by blast
          then show ?thesis using 2(2) unat_end_rec [OF q(1)] by (simp add: before_def rio.rng_def)
        qed (use q(4) in blast)
      qed
      have bef: "before r s" if s: "s \<in> set rs" for s
      proof -
        have "unat (rio_addr s) \<in> rio.rng s" using rs(3) s by (auto simp: rio.rng_def rio_ok_def)
        then have "unat (rio_addr s) \<in> dom (rio.views rs)" using s by (auto simp: rio.dom_views)
        then show ?thesis using low unat_end_rec [OF q(1)] by (simp add: before_def)
      qed
      have "rio.rng r \<inter> dom (rio.views rs) = {}"
        using low unat_end_rec [OF q(1)] by (fastforce simp: rio.rng_def)
      then have "rio.views rs ++ rio.item r = rio.item r ++ rio.views rs"
        by (intro map_add_comm) (simp add: rio.dom_item Int_commute)
      have qd: "dom (rio.views q) \<inter> rio.rng r = {}"
      proof -
        have "rio.rng r \<inter> rio.rng s = {}" if "s \<in> set q" for s using that q(2) before_disjoint by blast
        then show ?thesis unfolding rio.dom_views by blast
      qed
      have "rio.views (r # rs) = rio.item r ++ rio.views rs"
        using \<open>rio.views rs ++ rio.item r = rio.item r ++ rio.views rs\<close> by simp
      also have "\<dots> = (rio.item r ++ rio.views q) ++ contents (mem_view (mg_diffMem mg)) ts" using rs(4) by simp
      also have "rio.item r ++ rio.views q = rio.views q ++ rio.item r"
        using qd by (intro map_add_comm) (simp add: rio.dom_item Int_commute)
      finally have v: "rio.views (r # rs) = rio.views (mg_mergedQ mg) ++ contents (mem_view (mg_diffMem mg)) ts"
        using Cons by simp
      have "getAndRemove lib_dec mg = Some (Inr (Some r, ?mg))"
        using st Cons by (subst getAndRemove_def, subst merger_next.simps) (simp add: merge_state_def)
      then have "merger_read_all lib_dec mg = Some (Inr (r # rs, mg'))"
        using rs(1) by (subst merger_read_all.simps) simp
      then show ?thesis using x rs(2,3,5,6) bef q(1,3) v by (intro exI [of _ "r # rs"] exI [of _ mg']) simp
    next
      case Nil
      show ?thesis
      proof (cases "ts \<noteq> [] \<or> mem_map (mg_diffMem mg) \<noteq> []")
        case True
        from next_round [OF st Nil this] obtain mg' ts' where r: "merger_read_all lib_dec mg = merger_read_all lib_dec mg'"
          "merge_state mg' ts'"
          "contents (mem_view (mg_diffMem mg)) ts = rio.views (mg_mergedQ mg') ++ contents (mem_view (mg_diffMem mg')) ts'"
          "ts \<noteq> [] \<and> length (concat ts') < length (concat ts)
             \<or> ts' = [] \<and> ts = [] \<and> length (mem_map (mg_diffMem mg')) < length (mem_map (mg_diffMem mg))"
          "mem_maxIoBlocks (mg_diffMem mg') = mem_maxIoBlocks (mg_diffMem mg)"
          by blast
        have "((mg', ts'), x) \<in> measures [f, g, h]" using r(4) x by (auto simp: f_def g_def)
        then show ?thesis using IH [OF _ r(2)] r(1,3,5) x Nil by (simp add: fits_def)
      next
        case False
        then show ?thesis using read_all_end [of mg] st Nil x by (auto simp: mem_view_def merge_state_def merging_def)
      qed
    qed
  qed
  from this [of "(mg, ts)"] show ?thesis using assms by simp
qed


section \<open>Preparing\<close>

lemma remove_ended_ok:
  assumes "list_all2 yields wds ts" and "ready mg"
  shows "\<exists>kept mg'. remove_ended lib_dec wds mg = Some (Inr (kept, mg'))
    \<and> list_all2 yields kept (filter (\<lambda>t. t \<noteq> []) ts) \<and> moved mg [] mg'"
  using assms
proof (induction ts arbitrary: wds mg rule: list.induct)
  case Nil
  then have "wds = []" by simp
  then show ?case using moved_Nil [of mg "mg_cache mg"] Nil.prems(2) by (simp add: ready_def)
next
  case (Cons t ts)
  obtain wd wds' where w: "wds = wd # wds'" "yields wd t" "list_all2 yields wds' ts"
    using Cons.prems(1) by (auto simp: list_all2_Cons2)
  obtain wd1 c1 where w1: "wd_atEnd lib_dec wd (mg_cache mg) = Some (Inr (t = [], wd1, c1))" "yields wd1 t" "good c1"
    using at_end [OF w(2), of "mg_cache mg"] Cons.prems(2) by (auto simp: ready_def)
  show ?case
  proof (cases "t = []")
    case True
    let ?mg = "mg\<lparr>mg_cache := c1, mg_statIn := stat_update_stat (wd_getStat wd1) (mg_statIn mg)\<rparr>"
    have m: "moved mg [] ?mg" using moved_stat [OF moved_Nil [of mg c1]] Cons.prems(2) w1(3) by (simp add: ready_def)
    obtain kept mg' where "remove_ended lib_dec wds' ?mg = Some (Inr (kept, mg'))"
      "list_all2 yields kept (filter (\<lambda>t. t \<noteq> []) ts)" "moved ?mg [] mg'"
      using Cons.IH [OF w(3) moved_ready [OF m]] by blast
    then show ?thesis using w(1) w1(1) True moved_trans [OF m] by fastforce
  next
    case False
    let ?mg = "mg\<lparr>mg_cache := c1\<rparr>"
    have m: "moved mg [] ?mg" using moved_Nil [of mg c1] Cons.prems(2) w1(3) by (simp add: ready_def)
    obtain kept mg' where "remove_ended lib_dec wds' ?mg = Some (Inr (kept, mg'))"
      "list_all2 yields kept (filter (\<lambda>t. t \<noteq> []) ts)" "moved ?mg [] mg'"
      using Cons.IH [OF w(3) moved_ready [OF m]] by blast
    then show ?thesis using w(1) w1(1,2) False moved_trans [OF m] by fastforce
  qed
qed

lemma min_addr_ok:
  assumes "list_all2 yields wds ts" and "\<forall>t \<in> set ts. t \<noteq> []" and "good c"
  shows "\<exists>wds' c'. min_addr lib_dec wds a c = Some (Inr (heads_min a ts, wds', c'))
    \<and> list_all2 yields wds' ts \<and> good c'"
  using assms
proof (induction ts arbitrary: wds a c rule: list.induct)
  case Nil
  then show ?case by simp
next
  case (Cons t ts)
  obtain wd wds' where w: "wds = wd # wds'" "yields wd t" "list_all2 yields wds' ts"
    using Cons.prems(1) by (auto simp: list_all2_Cons2)
  obtain r t' where t: "t = r # t'" using Cons.prems(2) by (cases t) auto
  obtain wd1 c1 where w1: "getFrontRec lib_dec wd c = Some (Inr (rio_rec r, wd1, c1))" "yields wd1 t" "good c1"
    using front [of wd r t' c] w(2) t Cons.prems(3) by auto
  obtain wds2 c2 where "min_addr lib_dec wds' (min a (rio_addr r)) c1 = Some (Inr (heads_min (min a (rio_addr r)) ts, wds2, c2))"
    "list_all2 yields wds2 ts" "good c2"
    using Cons.IH [OF w(3) _ w1(3), of "min a (rio_addr r)"] Cons.prems(2) by auto
  then show ?case using w(1) w1(1,2) t by (simp add: rio_addr_def)
qed

lemma prepare_ok:
  assumes "list_all2 yields (mg_wdiffs mg) ts" and "mg_wdiffs mg \<noteq> []" and "\<forall>t \<in> set ts. stream_ok t"
    and "ready mg" and "\<not> mg_isHeaderPrepared mg" and "mg_mergedQ mg = []"
    and "mg_shouldValidateUuid mg \<longrightarrow> (\<forall>wd \<in> set (mg_wdiffs mg). fh_uuid (wd_header wd) = fh_uuid (wd_header (last (mg_wdiffs mg))))"
    and "unat (mg_searchLen mg) < 2 ^ 63" and "length (concat ts) < 2 ^ 64"
  shows "\<exists>mg'. merger_prepare lib_dec mg = Some (Inr mg') \<and> merge_state mg' (filter (\<lambda>t. t \<noteq> []) ts)
    \<and> mem_view (mg_diffMem mg') = mem_view (mg_diffMem mg) \<and> mg_mergedQ mg' = []
    \<and> mem_maxIoBlocks (mg_diffMem mg') = mem_maxIoBlocks (mg_diffMem mg)
    \<and> mg_wdiffH mg' = file_header_setUuid (fh_uuid (wd_header (last (mg_wdiffs mg)))) file_header_init"
proof -
  let ?uuid = "fh_uuid (wd_header (last (mg_wdiffs mg)))" let ?ts = "filter (\<lambda>t. t \<noteq> []) ts"
  have v: "verifyUuid_loop u wds = Inr ()" if "\<forall>wd \<in> set wds. fh_uuid (wd_header wd) = u" for u wds
    using that by (induction wds) simp_all
  have vu: "(if mg_shouldValidateUuid mg then verifyUuid_loop ?uuid (mg_wdiffs mg) else Inr ()) = Inr ()"
  proof (cases "mg_shouldValidateUuid mg")
    case True
    then show ?thesis using v [of "mg_wdiffs mg" ?uuid] assms(7) by argo
  qed simp
  let ?mg = "mg\<lparr>mg_wdiffH := file_header_setUuid ?uuid file_header_init\<rparr>"
  have "ready ?mg" using assms(4) by (simp add: ready_def)
  then obtain kept mg1 where r: "remove_ended lib_dec (mg_wdiffs ?mg) ?mg = Some (Inr (kept, mg1))"
    "list_all2 yields kept ?ts" "moved ?mg [] mg1"
    using remove_ended_ok [of "mg_wdiffs ?mg" ts ?mg] assms(1) by auto
  obtain wds2 c2 where m: "min_addr lib_dec kept (- 1) (mg_cache mg1) = Some (Inr (heads_min (- 1) ?ts, wds2, c2))"
    "list_all2 yields wds2 ?ts" "good c2"
    using min_addr_ok [OF r(2), of "mg_cache mg1" "- 1"] moved_ready [OF r(3)] unfolding ready_def by fastforce
  let ?mg2 = "mg1\<lparr>mg_wdiffs := wds2, mg_cache := c2, mg_doneAddr := heads_min (- 1) ?ts, mg_isHeaderPrepared := True\<rparr>"
  have p: "merger_prepare lib_dec mg = Some (Inr ?mg2)"
    using assms(2,5) vu r(1) m(1) by (simp add: merger_prepare_def removeEndedWdiffs_def getMinimumAddr_def)
  have len: "length (concat ?ts) = length (concat ts)" by (induction ts) simp_all
  have "\<forall>t \<in> set ?ts. stream_ok t \<and> t \<noteq> []" using assms(3) by simp
  then have low: "\<forall>x \<in> set (concat ?ts). heads_min (- 1) ?ts \<le> rio_addr x" using heads_min_le by blast
  have "merge_state ?mg2 ?ts"
    using moved_ready [OF r(3)] moved_same [OF r(3)] m(2,3) assms(3,6,8,9) low len
    by (auto simp: merge_state_def merging_def ready_def)
  then show ?thesis using p r(3) moved_same [OF r(3)] assms(6)
    by (intro exI [of _ ?mg2]) (simp add: moved_def overwrite_all_def)
qed

end

lemma contents_filter: "contents m (filter (\<lambda>t. t \<noteq> []) ts) = contents m ts"
  by (induction ts arbitrary: m) simp_all

end
