(* ===== verification/Diff_Cache_Laws.thy ===== *)
theory Diff_Cache_Laws
  imports Diff_Cache
begin

text \<open>
  What the cache of decompressed images guarantees. It refines a list in order of use that is cut at
  its end. The locale \<open>image_cache\<close> is what a reader relies on: the cache may forget, but what it
  returns is what was put into it.
\<close>

section \<open>The cache as a list in order of use\<close>

definition cache_contents :: "diff_cache \<Rightarrow> (cache_key \<times> u8 list) list" where
  "cache_contents c = map (\<lambda>x. (ci_key x, ci_data x)) (ic_lruList c)"

definition bytes_of :: "(cache_key \<times> u8 list) list \<Rightarrow> nat" where
  "bytes_of xs = sum_list (map (\<lambda>x. length (snd x)) xs)"

lemma bytes_of_simps [simp]:
  "bytes_of [] = 0" "bytes_of (x # xs) = length (snd x) + bytes_of xs" "bytes_of (xs @ ys) = bytes_of xs + bytes_of ys"
  by (simp_all add: bytes_of_def)

text \<open>The hash map points to the list node of each key, and \<open>curBytes_\<close> is the sum of the sizes.\<close>

definition cache_ok :: "diff_cache \<Rightarrow> bool" where
  "cache_ok c \<longleftrightarrow> distinct (map ci_it (ic_lruList c)) \<and> (\<forall>x \<in> set (ic_lruList c). ci_it x < ic_next c)
     \<and> distinct (map ci_key (ic_lruList c)) \<and> distinct (map fst (ic_map c))
     \<and> map_of (ic_map c) = map_of (map (\<lambda>x. (ci_key x, ci_it x)) (ic_lruList c))
     \<and> unat (ic_curBytes c) = bytes_of (cache_contents c)"

lemma cache_new_ok: "cache_ok cache_new"
  by (simp add: cache_ok_def cache_new_def cache_contents_def)

lemma cache_okD:
  assumes "cache_ok c"
  shows "distinct (map ci_it (ic_lruList c))" "\<forall>x \<in> set (ic_lruList c). ci_it x < ic_next c"
    "distinct (map ci_key (ic_lruList c))" "distinct (map fst (ic_map c))"
    "map_of (ic_map c) = map_of (map (\<lambda>x. (ci_key x, ci_it x)) (ic_lruList c))"
    "unat (ic_curBytes c) = bytes_of (cache_contents c)"
  using assms by (simp_all add: cache_ok_def)

lemma map_of_upd_middle: "(map_of (xs @ (k, v) # ys))(k \<mapsto> n) = (map_of (xs @ ys))(k \<mapsto> n)"
  by (auto simp: map_add_def fun_eq_iff split: option.splits)

lemma length_ic_map:
  assumes "cache_ok c"
  shows "length (ic_map c) = length (ic_lruList c)"
proof -
  have "length (ic_map c) = card (dom (map_of (ic_map c)))"
    using distinct_card [OF cache_okD(4) [OF assms]] by (simp add: dom_map_of_conv_image_fst)
  also have "\<dots> = card (ci_key ` set (ic_lruList c))"
    unfolding cache_okD(5) [OF assms] dom_map_of_conv_image_fst by (simp add: image_image)
  also have "\<dots> = length (ic_lruList c)" using distinct_card [OF cache_okD(3) [OF assms]] by simp
  finally show ?thesis .
qed

lemma cache_lookup:
  assumes "cache_ok c"
  shows "map_of (ic_map c) key = None \<Longrightarrow> key \<notin> ci_key ` set (ic_lruList c)"
    and "map_of (ic_map c) key = Some lit \<Longrightarrow>
      \<exists>xs x ys. ic_lruList c = xs @ x # ys \<and> ci_it x = lit \<and> ci_key x = key"
proof -
  have m: "map_of (ic_map c) = map_of (map (\<lambda>x. (ci_key x, ci_it x)) (ic_lruList c))"
    using assms by (simp add: cache_ok_def)
  show "key \<notin> ci_key ` set (ic_lruList c)" if "map_of (ic_map c) key = None"
    using that m by (simp add: map_of_eq_None_iff image_image)
  show "\<exists>xs x ys. ic_lruList c = xs @ x # ys \<and> ci_it x = lit \<and> ci_key x = key" if "map_of (ic_map c) key = Some lit"
  proof -
    have "(key, lit) \<in> set (map (\<lambda>x. (ci_key x, ci_it x)) (ic_lruList c))"
      using that m by (metis map_of_SomeD)
    then obtain x where "x \<in> set (ic_lruList c)" "ci_key x = key" "ci_it x = lit" by auto
    then show ?thesis using split_list by metis
  qed
qed

lemma filter_middle:
  assumes "x \<notin> f ` set xs" and "x \<notin> f ` set ys" and "f z = x"
  shows "filter (\<lambda>y. f y \<noteq> x) (xs @ z # ys) = xs @ ys"
proof -
  have "filter (\<lambda>y. f y \<noteq> x) l = l" if "x \<notin> f ` set l" for l using that by (intro filter_True) blast
  then show ?thesis using assms by simp
qed

lemma find_middle: "x \<notin> f ` set xs \<Longrightarrow> f z = x \<Longrightarrow> List.find (\<lambda>y. f y = x) (xs @ z # ys) = Some z"
  by (induction xs) auto

text \<open>\<open>find\<close> moves the item to the front.\<close>

lemma cache_find_eq:
  assumes "cache_ok c"
  shows "\<exists>c'. cache_find key c = Inr (map_of (cache_contents c) key, c') \<and> cache_ok c'
    \<and> ic_maxBytes c' = ic_maxBytes c \<and> ic_curBytes c' = ic_curBytes c
    \<and> cache_contents c' = (case map_of (cache_contents c) key of None \<Rightarrow> cache_contents c
         | Some d \<Rightarrow> (key, d) # filter (\<lambda>x. fst x \<noteq> key) (cache_contents c))"
proof (cases "map_of (ic_map c) key")
  case None
  then have "map_of (cache_contents c) key = None"
    using cache_lookup(1) [OF assms] by (simp add: cache_contents_def map_of_eq_None_iff image_image)
  then show ?thesis using None assms by (simp add: cache_find_def)
next
  case (Some lit)
  obtain xs x ys where l: "ic_lruList c = xs @ x # ys" and x: "ci_it x = lit" "ci_key x = key"
    using cache_lookup(2) [OF assms Some] by blast
  note ok = assms [unfolded cache_ok_def l]
  have its: "lit \<notin> ci_it ` set xs" "lit \<notin> ci_it ` set ys" and keys: "key \<notin> ci_key ` set xs" "key \<notin> ci_key ` set ys"
    using ok x by auto
  let ?c = "cache_push_front key (ci_data x) (c\<lparr>ic_lruList := xs @ ys\<rparr>)"
  have cs: "cache_contents c = map (\<lambda>x. (ci_key x, ci_data x)) xs @ (key, ci_data x) # map (\<lambda>x. (ci_key x, ci_data x)) ys"
    using l x by (simp add: cache_contents_def)
  have d: "map_of (cache_contents c) key = Some (ci_data x)"
  proof -
    have "map_of (map (\<lambda>x. (ci_key x, ci_data x)) xs) key = None"
      using keys(1) by (simp add: map_of_eq_None_iff image_image)
    then show ?thesis by (simp add: cs map_add_def)
  qed
  have f: "filter (\<lambda>x. fst x \<noteq> key) (cache_contents c) = map (\<lambda>x. (ci_key x, ci_data x)) (xs @ ys)"
    using keys filter_middle [of key fst "map (\<lambda>x. (ci_key x, ci_data x)) xs" "map (\<lambda>x. (ci_key x, ci_data x)) ys"
      "(key, ci_data x)"] unfolding cs by (simp add: image_image)
  have "cache_find key c = Inr (Some (ci_data x), ?c)"
    using Some l find_middle [where f = ci_it, OF its(1) x(1)] filter_middle [where f = ci_it, OF its x(1)]
    by (simp add: cache_find_def)
  moreover have "cache_contents ?c = (key, ci_data x) # filter (\<lambda>x. fst x \<noteq> key) (cache_contents c)"
    unfolding f by (simp add: cache_contents_def cache_push_front_def)
  moreover have "cache_ok ?c"
  proof -
    have "map_of (ic_map c) = map_of (map (\<lambda>x. (ci_key x, ci_it x)) (xs @ x # ys))" using ok by simp
    then have upd: "(map_of (ic_map c))(key \<mapsto> n) = (map_of (map (\<lambda>x. (ci_key x, ci_it x)) (xs @ ys)))(key \<mapsto> n)" for n
      using x map_of_upd_middle by simp
    have "map_of (ic_map ?c) = map_of (map (\<lambda>x. (ci_key x, ci_it x)) (ic_lruList ?c))"
      using upd [of "ic_next c"] by (simp add: cache_push_front_def update_conv')
    moreover have "bytes_of (cache_contents ?c) = bytes_of (cache_contents c)"
      using l by (simp add: cache_contents_def cache_push_front_def)
    moreover have "distinct (map fst (ic_map ?c))" "ic_curBytes ?c = ic_curBytes c"
      using ok by (simp_all add: cache_push_front_def distinct_update)
    moreover have "distinct (map ci_key (ic_lruList ?c))" "distinct (map ci_it (ic_lruList ?c))"
      using ok keys by (auto simp: cache_push_front_def)
    moreover have "\<forall>y \<in> set (ic_lruList ?c). ci_it y < ic_next ?c"
      using ok by (auto simp: cache_push_front_def intro: less_SucI)
    ultimately show ?thesis using cache_okD(6) [OF assms] unfolding cache_ok_def by simp
  qed
  ultimately show ?thesis using d by (simp add: cache_push_front_def)
qed

text \<open>\<open>evictOne\<close> removes the last item.\<close>

lemma evictOne_eq:
  assumes "cache_ok c" and "ic_lruList c \<noteq> []"
  shows "cache_ok (evictOne c)" and "cache_contents (evictOne c) = butlast (cache_contents c)"
    and "ic_maxBytes (evictOne c) = ic_maxBytes c" and "length (ic_lruList (evictOne c)) < length (ic_lruList c)"
proof -
  obtain xs x where l: "ic_lruList c = xs @ [x]" using assms(2) by (metis rev_exhaust)
  note ok = cache_okD [OF assms(1), unfolded l]
  let ?c = "evictOne c"
  have e: "ic_lruList ?c = xs" "ic_map ?c = AList.delete (ci_key x) (ic_map c)" "ic_next ?c = ic_next c"
    "ic_curBytes ?c = ic_curBytes c - of_nat (length (ci_data x))"
    using l by (simp_all add: evictOne_def)
  have cs: "cache_contents c = cache_contents ?c @ [(ci_key x, ci_data x)]"
    using e(1) l by (simp add: cache_contents_def)
  have "map_of (map (\<lambda>x. (ci_key x, ci_it x)) xs) (ci_key x) = None"
    using ok(3) by (simp add: map_of_eq_None_iff image_image)
  then have m: "map_of (ic_map ?c) = map_of (map (\<lambda>x. (ci_key x, ci_it x)) xs)"
    unfolding e(2) delete_conv' ok(5) by (auto simp: fun_eq_iff map_add_def split: option.splits)
  have b: "unat (ic_curBytes ?c) = bytes_of (cache_contents ?c)"
  proof -
    have "ic_curBytes c = of_nat (bytes_of (cache_contents c))" using ok(6) by (metis of_nat_unat ucast_id)
    then have "ic_curBytes ?c = of_nat (bytes_of (cache_contents ?c))" unfolding e(4) cs by simp
    moreover have "bytes_of (cache_contents ?c) < 2 ^ 64"
      using unat_lt64 [of "ic_curBytes c"] ok(6) cs by (simp del: unat_lt64)
    ultimately show ?thesis by (simp add: unat_of_nat)
  qed
  show "cache_ok ?c"
    using ok(1-4) m b by (simp add: cache_ok_def e(1-3) distinct_delete)
  show "cache_contents ?c = butlast (cache_contents c)" using cs by simp
  show "ic_maxBytes ?c = ic_maxBytes c" "length (ic_lruList ?c) < length (ic_lruList c)"
    using l e(1) by (simp_all add: evictOne_def)
qed

text \<open>
  The longest beginning of a list that fits into \<open>mx\<close> bytes, or its first entry.
\<close>

definition lru_cut :: "nat \<Rightarrow> (cache_key \<times> u8 list) list \<Rightarrow> (cache_key \<times> u8 list) list \<Rightarrow> bool" where
  "lru_cut mx xs ys \<longleftrightarrow> (\<exists>n. ys = take n xs \<and> (bytes_of ys \<le> mx \<or> length ys \<le> 1)
     \<and> (\<forall>m. n < m \<and> m \<le> length xs \<longrightarrow> mx < bytes_of (take m xs) \<and> 1 < m))"

lemma lru_cut_butlast:
  assumes "lru_cut mx (butlast xs) ys" and "mx < bytes_of xs" and "1 < length xs"
  shows "lru_cut mx xs ys"
proof -
  obtain n where n: "ys = take n (butlast xs)" "bytes_of ys \<le> mx \<or> length ys \<le> 1"
    "\<forall>m. n < m \<and> m \<le> length (butlast xs) \<longrightarrow> mx < bytes_of (take m (butlast xs)) \<and> 1 < m"
    using assms(1) by (auto simp: lru_cut_def)
  have t: "take m xs = take m (butlast xs)" if "m \<le> length xs - 1" for m
    using that assms(3) by (simp add: take_butlast butlast_conv_take min_def)
  let ?n = "min n (length xs - 1)"
  have "ys = take ?n xs" using n(1) t [of ?n] by (simp add: butlast_conv_take take_take min_def)
  moreover have "mx < bytes_of (take m xs) \<and> 1 < m" if "?n < m" "m \<le> length xs" for m
  proof (cases "m = length xs")
    case True
    then show ?thesis using assms(2,3) by simp
  next
    case False
    then show ?thesis using n(3) t [of m] that by (simp add: min_def split: if_splits)
  qed
  ultimately show ?thesis using n(2) unfolding lru_cut_def by blast
qed

lemma evict_loop_eq:
  assumes "cache_ok c"
  shows "\<exists>c'. evict_loop c = Some c' \<and> cache_ok c' \<and> ic_maxBytes c' = ic_maxBytes c
    \<and> lru_cut (unat (ic_maxBytes c)) (cache_contents c) (cache_contents c')"
  using assms
proof (induction "length (ic_lruList c)" arbitrary: c rule: less_induct)
  case less
  have len: "length (ic_map c) = length (cache_contents c)"
    using length_ic_map [OF less.prems] by (simp add: cache_contents_def)
  show ?case
  proof (cases "ic_curBytes c > ic_maxBytes c \<and> length (ic_map c) > 1")
    case True
    then have "ic_lruList c \<noteq> []" using length_ic_map [OF less.prems] by auto
    note e = evictOne_eq [OF less.prems this]
    obtain c' where c': "evict_loop (evictOne c) = Some c'" "cache_ok c'" "ic_maxBytes c' = ic_maxBytes c"
      "lru_cut (unat (ic_maxBytes c)) (butlast (cache_contents c)) (cache_contents c')"
      using less.hyps [OF e(4,1)] e(2,3) by auto
    moreover have "unat (ic_maxBytes c) < bytes_of (cache_contents c)"
      using True cache_okD(6) [OF less.prems] by (simp add: word_less_nat_alt)
    ultimately have "lru_cut (unat (ic_maxBytes c)) (cache_contents c) (cache_contents c')"
      using lru_cut_butlast True len by simp
    moreover have "evict_loop c = Some c'" using True c'(1) by (subst evict_loop.simps) simp
    ultimately show ?thesis using c' by blast
  next
    case False
    then have "bytes_of (cache_contents c) \<le> unat (ic_maxBytes c) \<or> length (cache_contents c) \<le> 1"
      using len cache_okD(6) [OF less.prems] by (auto simp: word_less_nat_alt)
    then have "lru_cut (unat (ic_maxBytes c)) (cache_contents c) (cache_contents c)"
      by (intro lru_cut_def [THEN iffD2] exI [of _ "length (cache_contents c)"]) simp
    moreover have "evict_loop c = Some c" using False by (subst evict_loop.simps) (simp only: if_False)
    ultimately show ?thesis using less.prems by blast
  qed
qed

lemma cache_push_front_new:
  assumes "cache_ok c" and "map_of (cache_contents c) key = None" and "bytes_of (cache_contents c) + length d < 2 ^ 64"
  shows "cache_ok (cache_push_front key d (c\<lparr>ic_curBytes := ic_curBytes c + of_nat (length d)\<rparr>))" (is "cache_ok ?c")
    and "cache_contents (cache_push_front key d (c\<lparr>ic_curBytes := ic_curBytes c + of_nat (length d)\<rparr>)) =
      (key, d) # cache_contents c"
proof -
  note ok = cache_okD [OF assms(1)]
  have key: "key \<notin> ci_key ` set (ic_lruList c)"
    using assms(2) by (simp add: cache_contents_def map_of_eq_None_iff image_image)
  show cs: "cache_contents ?c = (key, d) # cache_contents c"
    by (simp add: cache_contents_def cache_push_front_def)
  have "unat (ic_curBytes c + of_nat (length d)) = bytes_of (cache_contents c) + length d"
    using ok(6) assms(3) by (simp add: unat_add_small unat_of_nat)
  then have "unat (ic_curBytes ?c) = bytes_of (cache_contents ?c)"
    by (simp add: cache_push_front_def cache_contents_def)
  moreover have "map_of (ic_map ?c) = map_of (map (\<lambda>x. (ci_key x, ci_it x)) (ic_lruList ?c))"
    using ok(5) by (simp add: cache_push_front_def update_conv')
  moreover have "distinct (map fst (ic_map ?c))" using ok(4) by (simp add: cache_push_front_def distinct_update)
  moreover have "distinct (map ci_key (ic_lruList ?c))" "distinct (map ci_it (ic_lruList ?c))"
    using ok(1-3) key by (auto simp: cache_push_front_def)
  moreover have "\<forall>y \<in> set (ic_lruList ?c). ci_it y < ic_next ?c"
    using ok(2) by (auto simp: cache_push_front_def intro: less_SucI)
  ultimately show "cache_ok ?c" unfolding cache_ok_def by simp
qed

lemma cache_mapped_iff: "cache_ok c \<Longrightarrow> map_of (ic_map c) key = None \<longleftrightarrow> map_of (cache_contents c) key = None"
  by (simp add: cache_ok_def cache_contents_def map_of_eq_None_iff image_image)

lemma cache_add_eq:
  assumes "cache_ok c" and "bytes_of (cache_contents c) + length d < 2 ^ 64" and "map_of (cache_contents c) key = None"
  shows "\<exists>c'. cache_add key d c = Some (Inr c') \<and> cache_ok c' \<and> ic_maxBytes c' = ic_maxBytes c
    \<and> lru_cut (unat (ic_maxBytes c)) ((key, d) # cache_contents c) (cache_contents c')"
proof -
  note p = cache_push_front_new [OF assms(1,3,2)]
  have "map_of (ic_map c) key = None" using cache_mapped_iff [OF assms(1)] assms(3) by simp
  then show ?thesis
    using evict_loop_eq [OF p(1)] p(2) by (auto simp: cache_add_def cache_push_front_def)
qed

text \<open>
  C39: The cache of decompressed images behaves as a list in order of use. \<open>find\<close> returns the data of the
  key and moves it to the front, or changes nothing; \<open>add\<close> of a key that is present throws, and of a new
  key puts it in front and forgets exactly as many of the least recently used items as the limit
  demands, never the new one. The eviction loop ends, and the hash map, the list and the byte count stay
  consistent.
\<close>

theorem cache_refines_lru:
  assumes "cache_ok c" and "bytes_of (cache_contents c) + length d < 2 ^ 64"
  shows "(\<exists>c'. cache_find key c = Inr (map_of (cache_contents c) key, c') \<and> cache_ok c'
      \<and> cache_contents c' = (case map_of (cache_contents c) key of None \<Rightarrow> cache_contents c
           | Some v \<Rightarrow> (key, v) # filter (\<lambda>x. fst x \<noteq> key) (cache_contents c)))
    \<and> (if map_of (cache_contents c) key = None
       then \<exists>c'. cache_add key d c = Some (Inr c') \<and> cache_ok c'
         \<and> lru_cut (unat (ic_maxBytes c)) ((key, d) # cache_contents c) (cache_contents c')
       else cache_add key d c = Some (Inl (Exception ''already in cache'')))"
proof (rule conjI)
  show "\<exists>c'. cache_find key c = Inr (map_of (cache_contents c) key, c') \<and> cache_ok c'
      \<and> cache_contents c' = (case map_of (cache_contents c) key of None \<Rightarrow> cache_contents c
           | Some v \<Rightarrow> (key, v) # filter (\<lambda>x. fst x \<noteq> key) (cache_contents c))"
    using cache_find_eq [OF assms(1), of key] by blast
  show "if map_of (cache_contents c) key = None
       then \<exists>c'. cache_add key d c = Some (Inr c') \<and> cache_ok c'
         \<and> lru_cut (unat (ic_maxBytes c)) ((key, d) # cache_contents c) (cache_contents c')
       else cache_add key d c = Some (Inl (Exception ''already in cache''))"
    using cache_add_eq [OF assms, of key] cache_mapped_iff [OF assms(1), of key]
    by (cases "map_of (cache_contents c) key = None") (auto simp: cache_add_def)
qed

definition sample_cache :: diff_cache where
  "sample_cache = \<lparr>ic_maxBytes = 5, ic_curBytes = 4,
     ic_lruList = [\<lparr>ci_it = 3, ci_key = (0, 32), ci_data = [1, 2]\<rparr>, \<lparr>ci_it = 1, ci_key = (1, 32), ci_data = [3, 4]\<rparr>],
     ic_map = [((1, 32), 1), ((0, 32), 3)], ic_next = 4\<rparr>"

lemma sample_cache_ok: "cache_ok sample_cache" "bytes_of (cache_contents sample_cache) = 4"
  by (auto simp: cache_ok_def sample_cache_def cache_contents_def fun_eq_iff)

theorem cache_refines_lru_witness:
  "(\<exists>c'. cache_find (1, 40) sample_cache = Inr (map_of (cache_contents sample_cache) (1, 40), c') \<and> cache_ok c'
      \<and> cache_contents c' = (case map_of (cache_contents sample_cache) (1, 40) of None \<Rightarrow> cache_contents sample_cache
           | Some v \<Rightarrow> ((1, 40), v) # filter (\<lambda>x. fst x \<noteq> (1, 40)) (cache_contents sample_cache)))
    \<and> (if map_of (cache_contents sample_cache) (1, 40) = None
       then \<exists>c'. cache_add (1, 40) [5, 6, 7] sample_cache = Some (Inr c') \<and> cache_ok c'
         \<and> lru_cut (unat (ic_maxBytes sample_cache)) (((1, 40), [5, 6, 7]) # cache_contents sample_cache) (cache_contents c')
       else cache_add (1, 40) [5, 6, 7] sample_cache = Some (Inl (Exception ''already in cache'')))"
  by (rule cache_refines_lru [OF sample_cache_ok(1)]) (simp add: sample_cache_ok(2))

section \<open>What readers rely on\<close>

text \<open>
  A cache of images of less than 4 GiB: it returns what it holds, it holds a new image right after it
  was added, and apart from that it only forgets. The client keeps it sound for the images \<open>F\<close> that
  belong to the keys.
\<close>

locale image_cache =
  fixes ok :: "'c \<Rightarrow> bool"
    and view :: "'c \<Rightarrow> 'k \<Rightarrow> u8 list option"
    and lookup :: "'k \<Rightarrow> 'c \<Rightarrow> (u8 list option \<times> 'c) res"
    and insert_image :: "'k \<Rightarrow> u8 list \<Rightarrow> 'c \<Rightarrow> 'c res option"
  assumes lookup: "ok c \<Longrightarrow> \<exists>c'. lookup k c = Inr (view c k, c') \<and> ok c' \<and> view c' = view c"
    and insert_image: "ok c \<Longrightarrow> view c k = None \<Longrightarrow> length d < 2 ^ 32 \<Longrightarrow>
      \<exists>c'. insert_image k d c = Some (Inr c') \<and> ok c' \<and> view c' k = Some d \<and> view c' \<subseteq>\<^sub>m (view c)(k \<mapsto> d)"
begin

definition sound :: "('k \<Rightarrow> u8 list option) \<Rightarrow> 'c \<Rightarrow> bool" where
  "sound F c \<longleftrightarrow> ok c \<and> view c \<subseteq>\<^sub>m F"

lemma lookup_sound:
  assumes "sound F c"
  shows "\<exists>c'. lookup k c = Inr (view c k, c') \<and> sound F c' \<and> view c' = view c"
  using assms lookup [of c k] by (auto simp: sound_def)

lemma lookup_hit: "sound F c \<Longrightarrow> view c k = Some d \<Longrightarrow> F k = Some d"
  by (metis domI map_le_def sound_def)

lemma insert_sound:
  assumes "sound F c" and "view c k = None" and "F k = Some d" and "length d < 2 ^ 32"
  shows "\<exists>c'. insert_image k d c = Some (Inr c') \<and> sound F c' \<and> view c' k = Some d"
proof -
  obtain c' where c': "insert_image k d c = Some (Inr c')" "ok c'" "view c' k = Some d" "view c' \<subseteq>\<^sub>m (view c)(k \<mapsto> d)"
    using insert_image [of c k d] assms by (auto simp: sound_def)
  have "(view c)(k \<mapsto> d) \<subseteq>\<^sub>m F" using assms(1,3) by (auto simp: sound_def map_le_def)
  then show ?thesis using c' map_le_trans unfolding sound_def by blast
qed

end

text \<open>The limit is below 8 EiB, and the cache holds at most one image beyond it.\<close>

definition cache_bounded :: "diff_cache \<Rightarrow> bool" where
  "cache_bounded c \<longleftrightarrow> cache_ok c \<and> unat (ic_maxBytes c) < 2 ^ 63
     \<and> bytes_of (cache_contents c) \<le> unat (ic_maxBytes c) + 2 ^ 32"

definition cache_view :: "diff_cache \<Rightarrow> cache_key \<Rightarrow> u8 list option" where
  "cache_view c = map_of (cache_contents c)"

lemma distinct_contents: "cache_ok c \<Longrightarrow> distinct (map fst (cache_contents c))"
  by (simp add: cache_ok_def cache_contents_def o_def)

lemma bytes_of_filter: "distinct (map fst xs) \<Longrightarrow> map_of xs k = Some d \<Longrightarrow>
    length d + bytes_of (filter (\<lambda>x. fst x \<noteq> k) xs) = bytes_of xs"
proof (induction xs)
  case (Cons x xs)
  then show ?case
  proof (cases "fst x = k")
    case True
    then have "filter (\<lambda>x. fst x \<noteq> k) xs = xs" using Cons.prems(1)
      by (intro filter_True ballI) (metis distinct.simps(2) image_eqI list.simps(9) set_map)
    then show ?thesis using True Cons.prems(2) by simp
  qed simp
qed simp

lemma map_of_filter_neq: "a \<noteq> k \<Longrightarrow> map_of (filter (\<lambda>x. fst x \<noteq> k) xs) a = map_of xs a"
  by (induction xs) auto

lemma map_of_take_le:
  assumes "distinct (map fst xs)"
  shows "map_of (take n xs) \<subseteq>\<^sub>m map_of xs"
  unfolding map_le_def
proof
  fix k assume "k \<in> dom (map_of (take n xs))"
  then obtain v where v: "map_of (take n xs) k = Some v" by blast
  then have "(k, v) \<in> set xs" by (metis map_of_SomeD in_set_takeD)
  then show "map_of (take n xs) k = map_of xs k" using v assms by simp
qed

interpretation img: image_cache cache_bounded cache_view cache_find cache_add
proof
  fix c :: diff_cache and k :: cache_key
  assume b: "cache_bounded c"
  then have ok: "cache_ok c" by (simp add: cache_bounded_def)
  obtain c' where c': "cache_find k c = Inr (map_of (cache_contents c) k, c')" "cache_ok c'"
    "ic_maxBytes c' = ic_maxBytes c"
    "cache_contents c' = (case map_of (cache_contents c) k of None \<Rightarrow> cache_contents c
         | Some v \<Rightarrow> (k, v) # filter (\<lambda>x. fst x \<noteq> k) (cache_contents c))"
    using cache_find_eq [OF ok] by blast
  have v: "cache_view c' = cache_view c"
    using c'(4) by (auto simp: cache_view_def fun_eq_iff map_of_filter_neq split: option.splits)
  have "bytes_of (cache_contents c') = bytes_of (cache_contents c)"
    using c'(4) bytes_of_filter [OF distinct_contents [OF ok]] by (auto split: option.splits)
  then show "\<exists>c'. cache_find k c = Inr (cache_view c k, c') \<and> cache_bounded c' \<and> cache_view c' = cache_view c"
    using c' v b by (auto simp: cache_bounded_def cache_view_def)
next
  fix c :: diff_cache and k :: cache_key and d :: "u8 list"
  assume b: "cache_bounded c" and n: "cache_view c k = None" and d: "length d < 2 ^ 32"
  then have ok: "cache_ok c" and sz: "bytes_of (cache_contents c) + length d < 2 ^ 64"
    by (simp_all add: cache_bounded_def)
  obtain c' where c': "cache_add k d c = Some (Inr c')" "cache_ok c'" "ic_maxBytes c' = ic_maxBytes c"
    "lru_cut (unat (ic_maxBytes c)) ((k, d) # cache_contents c) (cache_contents c')"
    using cache_add_eq [OF ok sz, of k] n unfolding cache_view_def by blast
  then obtain m where m: "cache_contents c' = take m ((k, d) # cache_contents c)"
    "bytes_of (cache_contents c') \<le> unat (ic_maxBytes c) \<or> length (cache_contents c') \<le> 1" "0 < m"
    unfolding lru_cut_def by (metis One_nat_def length_Cons less_numeral_extra(4) not_gr_zero Suc_le_mono le0 lessI)
  show "\<exists>c'. cache_add k d c = Some (Inr c') \<and> cache_bounded c' \<and> cache_view c' k = Some d
      \<and> cache_view c' \<subseteq>\<^sub>m (cache_view c)(k \<mapsto> d)"
  proof (intro exI conjI)
    obtain j where j: "m = Suc j" using m(3) by (cases m) auto
    then have cs: "cache_contents c' = (k, d) # take j (cache_contents c)" using m(1) by simp
    show "cache_add k d c = Some (Inr c')" by (rule c'(1))
    show "cache_view c' k = Some d" using cs by (simp add: cache_view_def)
    show "cache_view c' \<subseteq>\<^sub>m (cache_view c)(k \<mapsto> d)"
      using map_of_take_le [OF distinct_contents [OF ok], of j] cs by (simp add: cache_view_def map_le_upd)
    have "bytes_of (cache_contents c') = length d" if "length (cache_contents c') \<le> 1" using that cs
      by (cases "take j (cache_contents c)") simp_all
    then show "cache_bounded c'" using m(2) d c'(2,3) b by (auto simp: cache_bounded_def)
  qed
qed

end
