(* ===== verification/Diff_Read_Laws.thy ===== *)
theory Diff_Read_Laws
  imports Diff_Cache_Laws Diff_File_Laws
begin

text \<open>
  Indexed wdiffs are read back: the pieces that \<open>BothDiffReader\<close> returns for a file of
  \<open>IndexedDiffWriter\<close> are sorted and hold exactly the blocks of the IOs that were written, each
  overwriting those before it, whatever the cache forgets in between. The writer keeps the invariant
  that the places in its index lead to the right blocks of the images in the file.
\<close>

section \<open>Contents of pieces and places\<close>

definition piece_view :: "io_piece \<Rightarrow> nat \<Rightarrow> diff_block option" where
  "piece_view = (\<lambda>(addr, blks, t, buf) a.
     if unat addr \<le> a \<and> a < unat addr + unat blks
     then Some (case t of NORMAL \<Rightarrow> Data_Block (take 512 (drop (512 * (a - unat addr)) buf))
       | DISCARD \<Rightarrow> Discard_Block | ALLZERO \<Rightarrow> Zero_Block)
     else None)"

definition irec_type :: "walb_indexed_diff_record \<Rightarrow> DiffRecType" where
  "irec_type r = (if irec_isNormal r then NORMAL else if irec_isDiscard r then DISCARD else ALLZERO)"

definition irec_io :: "walb_indexed_diff_record \<times> u8 list \<Rightarrow> io_piece" where
  "irec_io x = (ir_io_address (fst x), ir_io_blocks (fst x), irec_type (fst x), snd x)"

lemma getDiffRecType_irec: "getDiffRecType (irec_isNormal r) (irec_isDiscard r) (irec_isAllZero r) = Inr (irec_type r)"
  by (auto simp: getDiffRecType_def irec_type_def irec_isNormal_def)

lemma dom_piece_view: "dom (piece_view (irec_io x)) = idx.rng (fst x)"
  by (auto simp: piece_view_def irec_io_def idx.rng_def split: if_splits)

text \<open>The image of \<open>x = (size, type, blocks, checksum)\<close> at an offset of a file.\<close>

definition image_at :: "decoder \<Rightarrow> u8 list \<Rightarrow> u64 \<Rightarrow> u32 \<times> u8 \<times> u32 \<times> u32 \<Rightarrow> u8 list option" where
  "image_at lib_dec f off = (\<lambda>(sz, t, n, cs).
     if 0 < sz \<and> unat off + unat sz \<le> length f \<and> 512 * unat n < 2 ^ 32
       \<and> calcChecksum (take (unat sz) (drop (unat off) f)) 0 = cs
     then (case uncompressData lib_dec (take (unat sz) (drop (unat off) f)) (512 * unat n) t of
             Inl _ \<Rightarrow> None | Inr img \<Rightarrow> Some img)
     else None)"

fun image_info :: "block_place \<Rightarrow> (u64 \<times> u32 \<times> u8 \<times> u32 \<times> u32) option" where
  "image_info (Image_Place off sz t n cs k) = Some (off, sz, t, n, cs)"
| "image_info _ = None"

fun place_block :: "decoder \<Rightarrow> u8 list \<Rightarrow> block_place \<Rightarrow> diff_block option" where
  "place_block lib_dec f Zero_Place = Some Zero_Block"
| "place_block lib_dec f Discard_Place = Some Discard_Block"
| "place_block lib_dec f (Image_Place off sz t n cs k) =
     (case image_at lib_dec f off (sz, t, n, cs) of
        None \<Rightarrow> None
      | Some img \<Rightarrow> if k < n then Some (Data_Block (take 512 (drop (512 * unat k) img))) else None)"

lemma image_at_Some:
  assumes "image_at lib_dec f off (sz, t, n, cs) = Some img"
  shows "0 < sz" "unat off + unat sz \<le> length f" "512 * unat n < 2 ^ 32" "length img = 512 * unat n"
    and "calcChecksum (take (unat sz) (drop (unat off) f)) 0 = cs"
    and "uncompressData lib_dec (take (unat sz) (drop (unat off) f)) (512 * unat n) t = Inr img"
  using assms
  by (auto simp: image_at_def uncompressData_def res_simps split: if_splits sum.splits)

lemma image_at_append:
  assumes "image_at lib_dec f off x = Some img"
  shows "image_at lib_dec (f @ g) off x = Some img"
proof -
  obtain sz t n cs where x: "x = (sz, t, n, cs)" by (cases x)
  note i = image_at_Some [OF assms [unfolded x]]
  have "take (unat sz) (drop (unat off) (f @ g)) = take (unat sz) (drop (unat off) f)" using i(2) by simp
  then show ?thesis using i x by (simp add: image_at_def)
qed

lemma place_block_append:
  "place_block lib_dec f p = Some b \<Longrightarrow> place_block lib_dec (f @ g) p = Some b"
  by (cases p) (auto simp: image_at_append split: option.splits)

lemma place_block_below:
  assumes "place_block lib_dec f p = Some b" and "image_info p = Some (off, x)"
  shows "unat off < length f"
proof (cases p)
  case (Image_Place off' sz t n cs k)
  then obtain img where "image_at lib_dec f off (sz, t, n, cs) = Some img"
    using assms by (auto split: option.splits)
  then have "0 < sz" "unat off + unat sz \<le> length f" using image_at_Some by blast+
  then show ?thesis by (simp add: word_less_nat_alt)
qed (use assms in simp_all)

section \<open>The writer\<close>

text \<open>Every offset carries one image.\<close>

definition consistent :: "(nat \<Rightarrow> block_place option) \<Rightarrow> bool" where
  "consistent v \<longleftrightarrow> (\<forall>p \<in> ran v. \<forall>q \<in> ran v. \<forall>off x y.
     image_info p = Some (off, x) \<longrightarrow> image_info q = Some (off, y) \<longrightarrow> x = y)"

text \<open>
  The writer holds the blocks \<open>V\<close>: its file begins with the header, its offset is the end of the file,
  and the index leads to the blocks. At most \<open>n\<close> blocks were written.
\<close>

definition iw_holds :: "decoder \<Rightarrow> indexed_writer \<Rightarrow> u8 list \<Rightarrow> nat \<Rightarrow> (nat \<Rightarrow> diff_block option) \<Rightarrow> bool" where
  "iw_holds lib_dec w hb n V \<longleftrightarrow> iw_isWrittenHeader w \<and> \<not> iw_isClosed w
     \<and> (\<exists>rest. iw_file w = hb @ rest) \<and> unat (iw_offset w) = length (iw_file w)
     \<and> length (iw_file w) \<le> 32 + 512 * n \<and> finite (dom V) \<and> card (dom V) \<le> n
     \<and> idx_ok (iw_indexMem w) \<and> consistent (idx_view (iw_indexMem w))
     \<and> dom (idx_view (iw_indexMem w)) = dom V
     \<and> (\<forall>a p. idx_view (iw_indexMem w) a = Some p \<longrightarrow> place_block lib_dec (iw_file w) p = V a)"

lemma iw_holdsD:
  assumes "iw_holds lib_dec w hb n V"
  shows "iw_isWrittenHeader w" "\<not> iw_isClosed w" "\<exists>rest. iw_file w = hb @ rest"
    "unat (iw_offset w) = length (iw_file w)" "length (iw_file w) \<le> 32 + 512 * n" "finite (dom V)" "card (dom V) \<le> n"
    "idx_ok (iw_indexMem w)" "consistent (idx_view (iw_indexMem w))" "dom (idx_view (iw_indexMem w)) = dom V"
    "\<And>a p. idx_view (iw_indexMem w) a = Some p \<Longrightarrow> place_block lib_dec (iw_file w) p = V a"
  using assms by (simp_all add: iw_holds_def)

text \<open>Adding a record whose blocks are in the file.\<close>

lemma iw_holds_add:
  assumes h: "iw_holds lib_dec w hb n V" and arg: "irec_arg_ok r"
    and new: "irec_isNormal r \<Longrightarrow> ir_data_offset r = iw_offset w"
    and blocks: "\<forall>a \<in> idx.rng r. place_block lib_dec (iw_file w @ g) (irec_block r a) = B a \<and> B a \<noteq> None"
    and dom: "dom B = idx.rng r" and len: "length g \<le> 512 * unat (ir_io_blocks r)"
    and small: "32 + 512 * (n + unat (ir_io_blocks r)) < 2 ^ 64"
  shows "\<exists>im. idx_add r (iw_indexMem w) = Inr im
    \<and> (\<forall>st nd. iw_holds lib_dec (w\<lparr>iw_file := iw_file w @ g, iw_offset := iw_offset w + of_nat (length g),
        iw_indexMem := im, iw_stat := st, iw_n_data := nd\<rparr>) hb (n + unat (ir_io_blocks r)) (V ++ B))"
proof -
  note d = iw_holdsD [OF h]
  let ?im = "iw_indexMem w" and ?f = "iw_file w @ g"
  have "irec_flags_ok r" "unat (ir_io_address r) + unat (ir_io_blocks r) < 2 ^ 64"
    using arg by (simp_all add: irec_arg_ok_def)
  then obtain v where v: "irec_split r (idx_maxIoBlocks ?im) = Inr v" "\<forall>p \<in> set v. irec_ok p" "idx.disjoint v"
    "idx.views v = idx.item r"
    using irec_split_ok [of r "idx_maxIoBlocks ?im"] by blast
  then obtain im where im: "idx_add r ?im = Inr im" "idx_ok im" "idx_view im = idx_view ?im ++ idx.item r"
    using idx_add_loop_ok [OF d(8) v(2,3)] by (auto simp: idx_add_def)
  have item: "idx.item r a = (if a \<in> idx.rng r then Some (irec_block r a) else None)" for a
    by (simp add: idx.item_def)
  have old: "place_block lib_dec ?f p = V a" if "idx_view ?im a = Some p" for a p
  proof -
    have "V a \<noteq> None" using that d(10) by (metis domI domIff)
    then show ?thesis using d(11) [OF that] place_block_append by fastforce
  qed
  have places: "place_block lib_dec ?f p = (V ++ B) a" if "idx_view im a = Some p" for a p
  proof (cases "a \<in> idx.rng r")
    case True
    then have "p = irec_block r a" using that im(3) item by (simp add: map_add_def)
    then show ?thesis using True blocks by (auto simp: map_add_def)
  next
    case False
    then have "B a = None" using dom by blast
    then show ?thesis using that old [of a p] im(3) item False by (simp add: map_add_def)
  qed
  have off: "unat off < unat (iw_offset w)" if p: "idx_view ?im a = Some p" and i: "image_info p = Some (off, x)" for a p off x
  proof -
    have "V a \<noteq> None" using p d(10) by (metis domI domIff)
    then obtain b where "place_block lib_dec (iw_file w) p = Some b" using d(11) [OF p] by auto
    then show ?thesis using place_block_below [OF _ i] d(4) by auto
  qed
  have inew: "off = iw_offset w \<and> x = (ir_data_size r, ir_compression_type r, ir_orig_blocks r, ir_io_checksum r)"
    if "image_info (irec_block r a) = Some (off, x)" for a off x
    using that new by (auto simp: irec_block_def split: if_splits)
  have ran: "p \<in> ran (idx_view ?im) \<or> (\<exists>a. p = irec_block r a)" if m: "p \<in> ran (idx_view im)" for p
  proof -
    obtain a where "idx_view im a = Some p" using m by (auto simp: ran_def)
    then show ?thesis using im(3) item by (cases "a \<in> idx.rng r") (auto simp: map_add_def ran_def)
  qed
  have "consistent (idx_view im)"
    unfolding consistent_def
  proof (intro ballI allI impI)
    fix p q off x y
    assume p: "p \<in> ran (idx_view im)" "image_info p = Some (off, x)"
      and q: "q \<in> ran (idx_view im)" "image_info q = Some (off, y)"
    have olds: "unat off < unat (iw_offset w)" if s: "s \<in> ran (idx_view ?im)" "image_info s = Some (off, z)" for s z
    proof -
      obtain a where "idx_view ?im a = Some s" using s(1) by (auto simp: ran_def)
      then show ?thesis using off s(2) by blast
    qed
    show "x = y"
      using ran [OF p(1)] ran [OF q(1)] olds [of p x] olds [of q y] inew p(2) q(2) d(9)
      unfolding consistent_def by (metis less_irrefl)
  qed
  moreover have "unat (iw_offset w + of_nat (length g)) = length ?f"
  proof -
    have "length (iw_file w) + length g < 2 ^ 64" using d(5) len small by simp
    then show ?thesis using d(4) by (simp add: unat_add_small unat_of_nat)
  qed
  moreover have "length ?f \<le> 32 + 512 * (n + unat (ir_io_blocks r))" using d(5) len by simp
  moreover have "finite (dom (V ++ B))" "card (dom (V ++ B)) \<le> n + unat (ir_io_blocks r)"
  proof -
    have "finite (idx.rng r)" "card (idx.rng r) = unat (ir_io_blocks r)" by (simp_all add: idx.rng_def)
    then show "finite (dom (V ++ B))" "card (dom (V ++ B)) \<le> n + unat (ir_io_blocks r)"
      using d(6,7) dom card_Un_le [of "dom B" "dom V"] by simp_all
  qed
  moreover have "dom (idx_view im) = dom (V ++ B)" using im(3) d(10) dom idx.dom_item by simp
  moreover have "\<exists>rest. ?f = hb @ rest" using d(3) by auto
  ultimately show ?thesis
    using im(1,2) d(1,2) places by (intro exI [of _ im]) (simp add: iw_holds_def)
qed

text \<open>The blocks of a record whose image is the data that is appended.\<close>

lemma appended_image:
  assumes "uncompressData lib_dec d (512 * unat n) t = Inr img" and "512 * unat n < 2 ^ 32"
    and "d \<noteq> []" and "unat sz = length d" and "cs = calcChecksum d 0" and "unat off = length f"
  shows "image_at lib_dec (f @ d) off (sz, t, n, cs) = Some img" and "length img = 512 * unat n"
proof -
  have "0 < sz" using assms(3,4) by (simp add: word_less_nat_alt)
  then show "image_at lib_dec (f @ d) off (sz, t, n, cs) = Some img" using assms by (simp add: image_at_def)
  show "length img = 512 * unat n"
    using assms(1) by (auto simp: uncompressData_def res_simps split: if_splits)
qed

lemma iw_writeDiff_normal:
  assumes h: "iw_holds lib_dec w hb n V" and nor: "irec_isNormal rec" and ok: "irec_arg_ok rec"
    and nz: "ir_io_blocks rec \<noteq> 0" and off0: "ir_io_offset rec = 0" and orig: "ir_orig_blocks rec = ir_io_blocks rec"
    and d: "d \<noteq> []" "unat (ir_data_size rec) = length d" "ir_io_checksum rec = calcChecksum d 0"
      "length d \<le> 512 * unat (ir_io_blocks rec)"
    and img: "uncompressData lib_dec d (512 * unat (ir_io_blocks rec)) (ir_compression_type rec) = Inr img"
    and small: "512 * unat (ir_io_blocks rec) < 2 ^ 32" "32 + 512 * (n + unat (ir_io_blocks rec)) < 2 ^ 64"
  shows "\<exists>w'. iw_writeDiff rec (Some d) w = Inr w'
    \<and> iw_holds lib_dec w' hb (n + unat (ir_io_blocks rec)) (V ++ piece_view (irec_io (rec, img)))"
proof -
  let ?r = "rec\<lparr>ir_data_offset := iw_offset w\<rparr>" let ?s = "sealed ?r"
  note hd = iw_holdsD [OF h]
  have fl: "irec_flags_ok ?r" using ok by (simp add: irec_arg_ok_def irec_flags_ok_def irec_isNormal_def irec_isAllZero_def irec_isDiscard_def)
  have nr: "irec_isNormal ?s" using nor by (simp add: sealed_def irec_isNormal_def irec_isAllZero_def irec_isDiscard_def)
  have upd: "updateRecChecksum ?r = Inr ?s" using updateRecChecksum_ok(1) [OF fl] nz by simp
  have arg: "irec_arg_ok ?s"
    using ok fl by (simp add: irec_arg_ok_def sealed_def irec_flags_ok_def irec_isNormal_def irec_isAllZero_def irec_isDiscard_def)
  have rng: "idx.rng ?s = idx.rng rec" by (simp add: idx.rng_def sealed_def)
  have nb: "ir_io_blocks ?s = ir_io_blocks rec" by (simp add: sealed_def)
  note im = appended_image [OF img small(1) d(1,2,3) hd(4)]
  have blk: "place_block lib_dec (iw_file w @ d) (irec_block ?s a) = piece_view (irec_io (rec, img)) a
      \<and> piece_view (irec_io (rec, img)) a \<noteq> None" if a: "a \<in> idx.rng ?s" for a
  proof -
    have lt: "a - unat (ir_io_address rec) < unat (ir_io_blocks rec)" and le: "unat (ir_io_address rec) \<le> a"
      using a rng by (auto simp: idx.rng_def)
    then have k: "unat (of_nat (a - unat (ir_io_address rec)) :: u32) = a - unat (ir_io_address rec)"
      by (intro unat_of_nat_u32) (use small(1) in simp)
    have "irec_block ?s a = Image_Place (iw_offset w) (ir_data_size rec) (ir_compression_type rec) (ir_io_blocks rec)
        (ir_io_checksum rec) (of_nat (a - unat (ir_io_address rec)))"
      using nr off0 orig by (simp add: irec_block_def) (simp add: sealed_def)
    moreover have "of_nat (a - unat (ir_io_address rec)) < ir_io_blocks rec"
      using lt k by (simp add: word_less_nat_alt)
    ultimately show ?thesis
      using im(1) k lt le nor by (simp add: piece_view_def irec_io_def irec_type_def)
  qed
  have dom: "dom (piece_view (irec_io (rec, img))) = idx.rng ?s"
    using rng by (simp add: dom_piece_view)
  obtain ix where ix: "idx_add ?s (iw_indexMem w) = Inr ix"
    "\<And>st nd. iw_holds lib_dec (w\<lparr>iw_file := iw_file w @ d, iw_offset := iw_offset w + of_nat (length d), iw_indexMem := ix,
        iw_stat := st, iw_n_data := nd\<rparr>) hb (n + unat (ir_io_blocks rec)) (V ++ piece_view (irec_io (rec, img)))"
  proof -
    have "ir_data_offset ?s = iw_offset w" by (simp add: sealed_def)
    then show ?thesis
      using iw_holds_add [OF h arg _ _ dom, of d] blk d(4) small(2) nb that by auto
  qed
  have sz: "ucast (ir_data_size rec) = (of_nat (length d) :: u64)" using d(2) by (metis of_nat_unat)
  have "iw_writeDiff rec (Some d) w = Inr (w\<lparr>iw_file := iw_file w @ d, iw_offset := iw_offset w + of_nat (length d),
      iw_indexMem := ix, iw_stat := (iw_stat w)\<lparr>dataSize := dataSize (iw_stat w) + of_nat (length d)\<rparr>,
      iw_n_data := iw_n_data w + 1\<rparr>)"
    using hd(1) nor upd d(2) ix(1) sz by (simp add: iw_writeDiff_def)
  then show ?thesis using ix(2) by blast
qed

lemma iw_writeDiff_empty:
  assumes h: "iw_holds lib_dec w hb n V" and nor: "\<not> irec_isNormal rec" and ok: "irec_arg_ok rec"
    and small: "32 + 512 * (n + unat (ir_io_blocks rec)) < 2 ^ 64"
  shows "\<exists>w'. iw_writeDiff rec None w = Inr w'
    \<and> iw_holds lib_dec w' hb (n + unat (ir_io_blocks rec)) (V ++ piece_view (irec_io (rec, d)))"
proof -
  let ?r = "rec\<lparr>ir_data_offset := iw_offset w\<rparr>"
  note hd = iw_holdsD [OF h]
  have nr: "\<not> irec_isNormal ?r" "irec_isDiscard ?r = irec_isDiscard rec"
    using nor by (simp_all add: irec_isNormal_def irec_isAllZero_def irec_isDiscard_def)
  have arg: "irec_arg_ok ?r"
    using ok by (simp add: irec_arg_ok_def irec_flags_ok_def irec_isNormal_def irec_isAllZero_def irec_isDiscard_def)
  have rng: "idx.rng ?r = idx.rng rec" by (simp add: idx.rng_def)
  have blk: "place_block lib_dec (iw_file w @ []) (irec_block ?r a) = piece_view (irec_io (rec, d)) a
      \<and> piece_view (irec_io (rec, d)) a \<noteq> None" if a: "a \<in> idx.rng ?r" for a
    using a rng nor nr by (simp add: irec_block_def piece_view_def irec_io_def irec_type_def idx.rng_def)
  have dom: "dom (piece_view (irec_io (rec, d))) = idx.rng ?r"
    using rng by (simp add: dom_piece_view)
  obtain ix where ix: "idx_add ?r (iw_indexMem w) = Inr ix"
    "\<And>st nd. iw_holds lib_dec (w\<lparr>iw_file := iw_file w @ [], iw_offset := iw_offset w + of_nat (length []), iw_indexMem := ix,
        iw_stat := st, iw_n_data := nd\<rparr>) hb (n + unat (ir_io_blocks rec)) (V ++ piece_view (irec_io (rec, d)))"
    using iw_holds_add [OF h arg _ _ dom, of "[]"] blk small nr(1) by auto
  have "iw_writeDiff rec None w = Inr (w\<lparr>iw_indexMem := ix, iw_n_data := iw_n_data w + 1\<rparr>)"
    using hd(1) nor ix(1) by (simp add: iw_writeDiff_def)
  moreover have "w\<lparr>iw_indexMem := ix, iw_n_data := iw_n_data w + 1\<rparr> = w\<lparr>iw_file := iw_file w @ [],
      iw_offset := iw_offset w + of_nat (length []), iw_indexMem := ix, iw_stat := iw_stat w, iw_n_data := iw_n_data w + 1\<rparr>"
    by simp
  ultimately show ?thesis using ix(2) [of "iw_n_data w + 1" "iw_stat w"] by auto
qed

text \<open>An IO as the tools hand it to the writer: not compressed, with its data.\<close>

definition plain_irec :: "walb_indexed_diff_record \<times> u8 list \<Rightarrow> bool" where
  "plain_irec x \<longleftrightarrow> irec_arg_ok (fst x)
     \<and> (irec_isNormal (fst x) \<longrightarrow> \<not> irec_isCompressed (fst x) \<and> ir_io_blocks (fst x) \<noteq> 0
         \<and> ir_io_offset (fst x) = 0 \<and> ir_orig_blocks (fst x) = ir_io_blocks (fst x)
         \<and> 512 * unat (ir_io_blocks (fst x)) < 2147483648 \<and> length (snd x) = 512 * unat (ir_io_blocks (fst x)))"

lemma iw_compressAndWriteDiff_holds:
  assumes "codec_ok lib_enc lib_dec" and "t < WALB_DIFF_CMPR_MAX" and "level_ok t l" and h: "iw_holds lib_dec w hb n V"
    and x: "plain_irec (rec, io)" and small: "32 + 512 * (n + unat (ir_io_blocks rec)) < 2 ^ 64"
  shows "\<exists>w'. iw_compressAndWriteDiff lib_enc rec io t l w = Inr w'
    \<and> iw_holds lib_dec w' hb (n + unat (ir_io_blocks rec)) (V ++ piece_view (irec_io (rec, io)))"
proof (cases "irec_isNormal rec")
  case False
  then show ?thesis
    using iw_writeDiff_empty [OF h False _ small] x by (simp add: plain_irec_def iw_compressAndWriteDiff_def)
next
  case True
  let ?n = "512 * unat (ir_io_blocks rec)"
  have p: "irec_arg_ok rec" "\<not> irec_isCompressed rec" "ir_io_blocks rec \<noteq> 0" "ir_io_offset rec = 0"
    "ir_orig_blocks rec = ir_io_blocks rec" "?n < 2147483648" "length io = ?n"
    using x True by (simp_all add: plain_irec_def)
  have byt: "unat (ir_io_blocks rec * LOGICAL_BLOCK_SIZE) = ?n" using p(6) by (simp add: unat_lb_bytes)
  have "0 < unat (ir_io_blocks rec)" using p(3) by (simp add: unat_gt_0)
  then have ne: "io \<noteq> []" using p(7) by auto
  obtain u ys where c: "compressData lib_enc io t l = Inr (u, ys)" "length ys \<le> ?n" "ys \<noteq> []"
    "uncompressData lib_dec ys ?n u = Inr io" "u < WALB_DIFF_CMPR_MAX"
  proof -
    have "uncompressData lib_dec io ?n WALB_DIFF_CMPR_NONE = Inr io"
      using p(7) by (simp add: uncompressData_def Uncompressor_run_def asis_unrun_def)
    moreover have "WALB_DIFF_CMPR_NONE < WALB_DIFF_CMPR_MAX"
      by (simp add: WALB_DIFF_CMPR_MAX_def WALB_DIFF_CMPR_NONE_def)
    ultimately show ?thesis
      using compressData_cases [OF assms(1-3), of io] that ne p(7) assms(2) by fastforce
  qed
  let ?r = "rec\<lparr>ir_compression_type := u, ir_data_size := of_nat (length ys), ir_io_checksum := calcDiffIoChecksum ys\<rparr>"
  have nr: "irec_isNormal ?r" using True by (simp add: irec_isNormal_def irec_isAllZero_def irec_isDiscard_def)
  have arg: "irec_arg_ok ?r"
    using p(1) c(5) by (simp add: irec_arg_ok_def irec_flags_ok_def irec_isNormal_def irec_isAllZero_def irec_isDiscard_def)
  have sz: "unat (of_nat (length ys) :: u32) = length ys" using c(2) p(6) by (intro unat_of_nat_u32) simp
  obtain w' where w': "iw_writeDiff ?r (Some ys) w = Inr w'"
    "iw_holds lib_dec w' hb (n + unat (ir_io_blocks rec)) (V ++ piece_view (irec_io (?r, io)))"
    using iw_writeDiff_normal [OF h nr arg, of ys io] p(3,4,5,6) c(2-4) sz small
    by (auto simp: calcDiffIoChecksum_def)
  have "iw_compressAndWriteDiff lib_enc rec io t l w = iw_writeDiff ?r (Some ys) w"
    using True p(2,7) byt c(1) by (simp add: iw_compressAndWriteDiff_def)
  moreover have "irec_io (?r, io) = irec_io (rec, io)" using True nr by (simp add: irec_io_def irec_type_def)
  ultimately show ?thesis using w' by simp
qed

text \<open>A sequence of IOs, as the tools write them.\<close>

fun iw_write_all ::
  "encoder \<Rightarrow> u8 \<Rightarrow> nat \<Rightarrow> (walb_indexed_diff_record \<times> u8 list) list \<Rightarrow> indexed_writer \<Rightarrow> indexed_writer res"
where
  "iw_write_all lib_enc t l [] w = Inr w"
| "iw_write_all lib_enc t l (x # xs) w =
     res_bind (iw_compressAndWriteDiff lib_enc (fst x) (snd x) t l w) (iw_write_all lib_enc t l xs)"

definition total_blocks :: "(walb_indexed_diff_record \<times> u8 list) list \<Rightarrow> nat" where
  "total_blocks xs = sum_list (map (\<lambda>x. unat (ir_io_blocks (fst x))) xs)"

lemma iw_write_all_holds:
  assumes "codec_ok lib_enc lib_dec" and "t < WALB_DIFF_CMPR_MAX" and "level_ok t l" and "iw_holds lib_dec w hb n V"
    and "\<forall>x \<in> set xs. plain_irec x" and "32 + 512 * (n + total_blocks xs) < 2 ^ 64"
  shows "\<exists>w'. iw_write_all lib_enc t l xs w = Inr w'
    \<and> iw_holds lib_dec w' hb (n + total_blocks xs) (foldl (\<lambda>m x. m ++ piece_view (irec_io x)) V xs)"
  using assms(4-6)
proof (induction xs arbitrary: w n V)
  case Nil
  then show ?case by (simp add: total_blocks_def)
next
  case (Cons x xs)
  have tb: "total_blocks (x # xs) = unat (ir_io_blocks (fst x)) + total_blocks xs" by (simp add: total_blocks_def)
  obtain w1 where w1: "iw_compressAndWriteDiff lib_enc (fst x) (snd x) t l w = Inr w1"
    "iw_holds lib_dec w1 hb (n + unat (ir_io_blocks (fst x))) (V ++ piece_view (irec_io x))"
    using iw_compressAndWriteDiff_holds [OF assms(1-3) Cons.prems(1), of "fst x" "snd x"] Cons.prems(2,3) tb by auto
  then show ?case using Cons.IH [OF w1(2)] Cons.prems(2,3) tb by (simp add: add.assoc)
qed

section \<open>The file\<close>

interpretation index_super_sum: checksummed "\<lambda>_. True" index_super_bytes "\<lambda>c s. s\<lparr>is_checksum := c\<rparr>"
proof
  fix c and s :: walb_diff_index_super
  let ?p = "le_store 8 (is_index_offset s) @ le_store 4 (is_n_records s) @ le_store 4 (is_n_data s)
     @ le_store 4 (is_reserved1 s)"
  have "index_super_bytes (s\<lparr>is_checksum := x\<rparr>) = ?p @ le_store 4 x" for x by (simp add: index_super_bytes_def)
  moreover have "word_sum (?p @ le_store 4 x) = word_sum ?p + x" for x
    using word_sum_le_store [of x "[]"] by (subst word_sum_append) simp_all
  ultimately show "word_sum (index_super_bytes (s\<lparr>is_checksum := c\<rparr>)) =
      c + word_sum (index_super_bytes (s\<lparr>is_checksum := 0\<rparr>))" by (simp add: add.commute)
qed (simp_all add: index_super_bytes_def)

lemma index_super_of_bytes [simp]: "index_super_of (index_super_bytes s) = s"
  by (simp add: index_super_of_def index_super_bytes_def)

lemma length_index_super_bytes [simp]: "length (index_super_bytes s) = 24"
  by (simp add: index_super_bytes_def)

lemma indexed_record_of_bytes [simp]: "indexed_record_of (indexed_record_bytes r) = r"
  by (simp add: indexed_record_of_def indexed_record_bytes_def)

lemma length_index_bytes: "length (concat (map indexed_record_bytes rs)) = 48 * length rs"
  by (induction rs) simp_all

lemma stat_update_irec_ok: "\<exists>st'. stat_update_irec r st = Inr st'"
  by (auto simp: stat_update_irec_def updateDetail_def irec_isNormal_def)

lemma stat_update_irecs_ok: "\<exists>st'. stat_update_irecs rs st = Inr st'"
proof (induction rs arbitrary: st)
  case (Cons r rs)
  then show ?case using stat_update_irec_ok [of r st] by auto
qed simp

lemma index_length:
  assumes "idx_ok im" and "finite (dom (idx_view im))"
  shows "length (idx_getAsVec im) \<le> card (dom (idx_view im))"
proof -
  have cnt: "length rs \<le> card (\<Union>r \<in> set rs. idx.rng r)" if "idx.disjoint rs" "\<forall>r \<in> set rs. irec_ok r" for rs
    using that
  proof (induction rs)
    case (Cons r rs)
    have "0 < card (idx.rng r)" using Cons.prems(2) by (simp add: idx.rng_def irec_ok_def)
    moreover have "card (idx.rng r \<union> (\<Union>r \<in> set rs. idx.rng r)) = card (idx.rng r) + card (\<Union>r \<in> set rs. idx.rng r)"
      using Cons.prems(1) by (intro card_Un_disjoint) (auto simp: idx.disjoint_Cons idx.rng_def)
    ultimately show ?case using Cons by (simp add: idx.disjoint_Cons)
  qed simp
  have "\<forall>r \<in> set (map snd (idx_index im)). irec_ok r" using assms(1) by (auto simp: idx_ok_def idx.map_ok_def)
  then have "length (map snd (idx_index im)) \<le> card (\<Union>r \<in> set (map snd (idx_index im)). idx.rng r)"
    using assms(1) by (intro cnt idx.map_ok_disjoint) (simp_all add: idx_ok_def)
  then show ?thesis unfolding idx_view_def idx.dom_views idx_getAsVec_def .
qed

text \<open>The layout of a finished file: header and images, padding, index, super block.\<close>

definition indexed_file :: "u8 list \<Rightarrow> walb_indexed_diff_record list \<Rightarrow> u8 list \<Rightarrow> bool" where
  "indexed_file pre rs f \<longleftrightarrow> (\<exists>s. f = pre @ concat (map indexed_record_bytes rs) @ index_super_bytes s
     \<and> index_super_verify s = Inr () \<and> is_index_offset s = of_nat (length pre)) \<and> length f < 2 ^ 64"

lemma iw_finalize_file:
  assumes h: "iw_holds lib_dec w hb n V" and n: "n < 2 ^ 50"
  shows "\<exists>w' pad. iw_finalize w = Inr w'
    \<and> indexed_file (iw_file w @ pad) (idx_getAsVec (iw_indexMem w)) (iw_file w')"
proof -
  note d = iw_holdsD [OF h]
  let ?rs = "idx_getAsVec (iw_indexMem w)" and ?delta = "iw_offset w mod 8"
  define pad :: "u8 list" where "pad = (if ?delta > 0 then replicate (unat (8 - ?delta)) 0 else [])"
  have delta: "unat ?delta < 8" by (simp add: unat_mod)
  have lp: "length pad \<le> 8"
  proof -
    have "unat (8 - ?delta) = 8 - unat ?delta" using delta by (simp add: unat_sub word_le_nat_alt)
    then show ?thesis by (simp add: pad_def)
  qed
  have lf: "length (iw_file w @ pad) < 2 ^ 62" using d(5) lp n by simp
  have lrs: "length ?rs \<le> n" using index_length [OF d(8)] d(6,7,10) by simp
  define off where "off = (if ?delta > 0 then iw_offset w + (8 - ?delta) else iw_offset w)"
  have off: "off = of_nat (length (iw_file w @ pad))"
  proof -
    have "iw_offset w = of_nat (length (iw_file w))" using d(4) by (metis of_nat_unat ucast_id)
    then show ?thesis by (simp add: off_def pad_def)
  qed
  obtain st where st: "stat_update_irecs ?rs (iw_stat w) = Inr st" using stat_update_irecs_ok by blast
  let ?s0 = "\<lparr>is_index_offset = off, is_n_records = of_nat (length (idx_index (iw_indexMem w))),
      is_n_data = ucast (iw_n_data w), is_reserved1 = 0, is_checksum = 0\<rparr>"
  let ?s = "index_super_updateChecksum ?s0"
  have idxb: "concat (map (\<lambda>x. indexed_record_bytes (snd x)) (idx_index (iw_indexMem w))) =
      concat (map indexed_record_bytes ?rs)" by (simp add: idx_getAsVec_def o_def)
  obtain w' where w': "iw_finalize w = Inr w'"
    "iw_file w' = ((iw_file w @ pad) @ concat (map indexed_record_bytes ?rs)) @ index_super_bytes ?s"
    using d(2) st
    by (cases "?delta > 0") (simp_all add: iw_finalize_def Let_def iw_writeSuper_def idx_writeTo_def pad_def off_def idxb)
  have "index_super_verify ?s = Inr ()"
    using index_super_sum.updated_verifies [of ?s0 0]
    by (simp add: index_super_verify_def index_super_updateChecksum_def)
  moreover have "is_index_offset ?s = of_nat (length (iw_file w @ pad))"
    using off by (simp add: index_super_updateChecksum_def)
  moreover have "length (iw_file w') < 2 ^ 64" using lf lrs n w'(2) by (simp add: length_index_bytes)
  ultimately show ?thesis
    using w' unfolding indexed_file_def by (intro exI [of _ w'] exI [of _ pad]) auto
qed

section \<open>The reader\<close>

text \<open>The records that are left to read.\<close>

definition ird_rest :: "u8 list \<Rightarrow> indexed_reader \<Rightarrow> walb_indexed_diff_record list \<Rightarrow> bool" where
  "ird_rest f rd rs \<longleftrightarrow> ird_memFile rd = f \<and> ird_cache rd \<and> length f < 2 ^ 64
     \<and> (\<exists>pre sb. f = pre @ concat (map indexed_record_bytes rs) @ sb \<and> length sb = 24
         \<and> unat (ird_idxOffset rd) = length pre \<and> unat (ird_idxEndOffset rd) = length f - 24)"

lemma ird_setFile_rest:
  assumes "indexed_file pre rs f" and "pre = diff_file_header_bytes h @ xs" and "file_header_ok h"
    and "file_header_verify h = Inr ()" and "fh_type h = WALB_DIFF_TYPE_INDEXED"
  shows "\<exists>rd'. ird_setFile True f rd = Inr rd' \<and> ird_rest f rd' rs \<and> ird_this rd' = ird_this rd"
proof -
  obtain s where f: "f = pre @ concat (map indexed_record_bytes rs) @ index_super_bytes s"
    "index_super_verify s = Inr ()" "is_index_offset s = of_nat (length pre)" "length f < 2 ^ 64"
    using assms(1) by (auto simp: indexed_file_def)
  note lh = length_file_header_bytes [OF assms(3)]
  have lf: "length f = length pre + 48 * length rs + 24" using f(1) by (simp add: length_index_bytes)
  have hd: "read_at f 0 DIFF_FILE_HEADER_SIZE = Inr (diff_file_header_bytes h)"
    using f(1) assms(2) lh by (simp add: DIFF_FILE_HEADER_SIZE_def)
  have e: "unat (of_nat (length f) - 24 :: u64) = length f - 24"
  proof -
    have "unat (of_nat k - 24 :: u64) = k - 24" if "24 \<le> k" "k < 2 ^ 64" for k
      using that by (simp add: unat_sub word_le_nat_alt unat_of_nat)
    then show ?thesis using f(4) lf by (metis le_add2)
  qed
  have sb: "read_at f (length f - 24) 24 = Inr (index_super_bytes s)"
    using f(1) lf by (simp add: length_index_bytes)
  have p: "unat (is_index_offset s) = length pre" using f(3,4) lf by (simp add: unat_of_nat)
  let ?rd = "rd\<lparr>ird_memFile := f, ird_header := h, ird_cache := True, ird_idxEndOffset := of_nat (length f) - 24,
      ird_idxBgnOffset := is_index_offset s, ird_idxOffset := is_index_offset s,
      ird_stat := stat_clear\<lparr>wdiffNr := 1, dataSize := is_index_offset s - of_nat DIFF_FILE_HEADER_SIZE\<rparr>\<rparr>"
  have "ird_setFile True f rd = Inr ?rd"
    using hd assms(4,5) e sb f(2) file_header_of_bytes [OF assms(3)]
    by (simp add: ird_setFile_def Let_def)
  moreover have "ird_rest f ?rd rs"
    using f(4) e p unfolding ird_rest_def
    by (intro conjI exI [of _ pre] exI [of _ "index_super_bytes s"]) (simp_all add: f(1))
  ultimately show ?thesis by fastforce
qed

lemma readDiffRecord_rest:
  assumes "ird_rest f rd rs" and "\<forall>r \<in> set rs. irec_verify r True = Inr ()"
  shows "case rs of [] \<Rightarrow> readDiffRecord True rd = Inr (None, rd)
    | r # rs' \<Rightarrow> \<exists>rd'. readDiffRecord True rd = Inr (Some r, rd') \<and> ird_rest f rd' rs' \<and> ird_this rd' = ird_this rd"
proof -
  obtain pre sb where m: "ird_memFile rd = f" "ird_cache rd" "length f < 2 ^ 64"
    "f = pre @ concat (map indexed_record_bytes rs) @ sb" "length sb = 24"
    "unat (ird_idxOffset rd) = length pre" "unat (ird_idxEndOffset rd) = length f - 24"
    using assms(1) by (auto simp: ird_rest_def)
  have lf: "length f = length pre + 48 * length rs + 24" using m(4,5) by (simp add: length_index_bytes)
  show ?thesis
  proof (cases rs)
    case Nil
    then have "ird_idxEndOffset rd \<le> ird_idxOffset rd" using m(6,7) lf by (simp add: word_le_nat_alt)
    then show ?thesis using Nil by (simp add: readDiffRecord_def getNextRec_def)
  next
    case (Cons r rs')
    have lt: "\<not> ird_idxEndOffset rd \<le> ird_idxOffset rd" using m(6,7) lf Cons by (simp add: word_le_nat_alt)
    have rd: "read_at f (length pre) 48 = Inr (indexed_record_bytes r)" using m(4) Cons by simp
    obtain st where st: "stat_update_irec r (ird_stat rd) = Inr st" using stat_update_irec_ok by blast
    let ?rd = "rd\<lparr>ird_idxOffset := ird_idxOffset rd + 48, ird_stat := st\<rparr>"
    have "readDiffRecord True rd = Inr (Some r, ?rd)"
      using lt rd m(1,6) assms(2) Cons st by (simp add: readDiffRecord_def getNextRec_def)
    moreover have "ird_rest f ?rd rs'"
    proof -
      have "unat (ird_idxOffset rd + 48) = length (pre @ indexed_record_bytes r)"
        using m(3,6) lf Cons by (simp add: unat_add_small)
      then show ?thesis
        using m(1-5,7) Cons unfolding ird_rest_def
        by (intro conjI exI [of _ "pre @ indexed_record_bytes r"] exI [of _ sb]) simp_all
    qed
    ultimately show ?thesis using Cons by fastforce
  qed
qed

text \<open>The image of a record, and the images that the cache may hold for this reader.\<close>

definition rec_image :: "decoder \<Rightarrow> u8 list \<Rightarrow> walb_indexed_diff_record \<Rightarrow> u8 list option" where
  "rec_image lib_dec f r =
     image_at lib_dec f (ir_data_offset r) (ir_data_size r, ir_compression_type r, ir_orig_blocks r, ir_io_checksum r)"

definition rec_ready :: "decoder \<Rightarrow> u8 list \<Rightarrow> walb_indexed_diff_record \<Rightarrow> bool" where
  "rec_ready lib_dec f r \<longleftrightarrow> irec_verify r True = Inr () \<and> (irec_isNormal r \<longrightarrow> rec_image lib_dec f r \<noteq> None
     \<and> unat (ir_io_offset r) + unat (ir_io_blocks r) \<le> unat (ir_orig_blocks r))"

definition rec_data :: "decoder \<Rightarrow> u8 list \<Rightarrow> u8 list \<Rightarrow> walb_indexed_diff_record \<Rightarrow> u8 list" where
  "rec_data lib_dec f buf r =
     (if irec_isNormal r then take (512 * unat (ir_io_blocks r)) (drop (512 * unat (ir_io_offset r)) (the (rec_image lib_dec f r)))
      else buf)"

lemma ird_readDiffIo_sound:
  assumes "rec_ready lib_dec f r" and "ird_memFile rd = f" and "ird_cache rd" and "img.sound F c"
    and "irec_isNormal r \<longrightarrow> F (ird_this rd, ir_data_offset r) = rec_image lib_dec f r"
  shows "\<exists>c'. ird_readDiffIo lib_dec r buf rd c = Some (Inr (rec_data lib_dec f buf r, c')) \<and> img.sound F c'"
proof (cases "irec_isNormal r")
  case False
  then show ?thesis using assms(4) by (simp add: ird_readDiffIo_def rec_data_def)
next
  case True
  let ?key = "(ird_this rd, ir_data_offset r)"
  obtain im where im: "rec_image lib_dec f r = Some im" "F ?key = Some im"
    "unat (ir_io_offset r) + unat (ir_io_blocks r) \<le> unat (ir_orig_blocks r)"
    using assms(1,5) True by (auto simp: rec_ready_def)
  note i = image_at_Some [OF im(1) [unfolded rec_image_def]]
  have "512 * unat (ir_io_offset r) < 2 ^ 32" "512 * unat (ir_io_blocks r) < 2 ^ 32" using im(3) i(3) by simp_all
  then have byt: "unat (ir_io_offset r * LOGICAL_BLOCK_SIZE) = 512 * unat (ir_io_offset r)"
    "unat (ir_io_blocks r * LOGICAL_BLOCK_SIZE) = 512 * unat (ir_io_blocks r)"
    "unat (ir_orig_blocks r * LOGICAL_BLOCK_SIZE) = 512 * unat (ir_orig_blocks r)"
    using i(3) by (simp_all add: unat_lb_bytes)
  have copy: "copyFromCache r (Some im) = Inr (rec_data lib_dec f buf r)"
    using im i(4) True byt by (simp add: copyFromCache_def rec_data_def)
  obtain c1 where c1: "cache_find ?key c = Inr (cache_view c ?key, c1)" "img.sound F c1" "cache_view c1 = cache_view c"
    using img.lookup_sound [OF assms(4)] by blast
  show ?thesis
  proof (cases "cache_view c ?key")
    case (Some d)
    then have "d = im" using img.lookup_hit [OF assms(4)] im(2) by fastforce
    then show ?thesis using True assms(3) c1(1,2) Some copy by (simp add: ird_readDiffIo_def)
  next
    case None
    obtain c2 where c2: "cache_find ?key c1 = Inr (None, c2)" "img.sound F c2" "cache_view c2 ?key = None"
      using img.lookup_sound [OF c1(2), of ?key] c1(3) None by auto
    have "length im < 2 ^ 32" using i(3,4) by simp
    then obtain c3 where c3: "cache_add ?key im c2 = Some (Inr c3)" "img.sound F c3" "cache_view c3 ?key = Some im"
      using img.insert_sound [OF c2(2,3) im(2)] by blast
    obtain c4 where c4: "cache_find ?key c3 = Inr (Some im, c4)" "img.sound F c4"
      using img.lookup_sound [OF c3(2), of ?key] c3(3) by auto
    have "loadToCache lib_dec r True rd c1 = Some (Inr (True, c3))"
      using c2(1) c3(1) i(2,5,6) byt(3) assms(2) by (simp add: loadToCache_def isOnCache_def verifyIoData_def)
    then show ?thesis using True assms(3) c1(1) None c4 copy by (auto simp: ird_readDiffIo_def)
  qed
qed

text \<open>The pieces that a client gets when it calls \<open>read\<close> until the end, always with the same buffer.\<close>

partial_function (option) both_read_all ::
  "decoder \<Rightarrow> u8 list \<Rightarrow> both_reader \<Rightarrow> diff_cache \<Rightarrow> io_piece list res option"
where
  "both_read_all lib_dec buf b c =
     (case both_read lib_dec buf b c of
        None \<Rightarrow> None
      | Some y \<Rightarrow>
          (case y of
             Inl e \<Rightarrow> Some (Inl e)
           | Inr (x, b1, c1) \<Rightarrow>
               (case x of
                  None \<Rightarrow> Some (Inr [])
                | Some p \<Rightarrow> Option.bind (both_read_all lib_dec (snd (snd (snd p))) b1 c1)
                    (\<lambda>t. Some (res_bind t (\<lambda>ps. Inr (p # ps)))))))"

fun read_pieces ::
  "decoder \<Rightarrow> u8 list \<Rightarrow> u8 list \<Rightarrow> walb_indexed_diff_record list \<Rightarrow> io_piece list"
where
  "read_pieces lib_dec f buf [] = []"
| "read_pieces lib_dec f buf (r # rs) =
     irec_io (r, rec_data lib_dec f buf r) # read_pieces lib_dec f (rec_data lib_dec f buf r) rs"

lemma both_read_all_indexed:
  assumes "file_header_isIndexed (br_head b) = Inr True" and "ird_rest f (br_ireader b) rs"
    and "\<forall>r \<in> set rs. rec_ready lib_dec f r" and "img.sound F c"
    and "\<forall>r \<in> set rs. irec_isNormal r \<longrightarrow> F (ird_this (br_ireader b), ir_data_offset r) = rec_image lib_dec f r"
  shows "both_read_all lib_dec buf b c = Some (Inr (read_pieces lib_dec f buf rs))"
  using assms
proof (induction rs arbitrary: buf b c)
  case Nil
  then have "readDiffRecord True (br_ireader b) = Inr (None, br_ireader b)"
    using readDiffRecord_rest [OF Nil.prems(2)] by simp
  then show ?case
    using Nil.prems(1) by (subst both_read_all.simps) (simp add: both_read_def ird_readDiff_def)
next
  case (Cons r rs)
  have "\<forall>r \<in> set (r # rs). irec_verify r True = Inr ()" using Cons.prems(3) by (simp add: rec_ready_def)
  then obtain rd where rd: "readDiffRecord True (br_ireader b) = Inr (Some r, rd)" "ird_rest f rd rs"
    "ird_this rd = ird_this (br_ireader b)"
    using readDiffRecord_rest [OF Cons.prems(2)] by auto
  have m: "ird_memFile rd = f" "ird_cache rd" using rd(2) by (simp_all add: ird_rest_def)
  obtain c1 where c1: "ird_readDiffIo lib_dec r buf rd c = Some (Inr (rec_data lib_dec f buf r, c1))" "img.sound F c1"
    using ird_readDiffIo_sound [OF _ m Cons.prems(4), of lib_dec r buf] Cons.prems(3,5) rd(3) by auto
  let ?b = "b\<lparr>br_ireader := rd\<rparr>"
  have r: "both_read lib_dec buf b c = Some (Inr (Some (irec_io (r, rec_data lib_dec f buf r)), ?b, c1))"
    using Cons.prems(1) rd(1) c1(1)
    by (simp add: both_read_def ird_readDiff_def getDiffRecType_irec irec_io_def)
  have "both_read_all lib_dec (rec_data lib_dec f buf r) ?b c1 = Some (Inr (read_pieces lib_dec f (rec_data lib_dec f buf r) rs))"
    using Cons.IH [of ?b c1] Cons.prems(1,3,5) rd(2,3) c1(2) by simp
  then show ?case using r by (subst both_read_all.simps) (simp add: irec_io_def)
qed

section \<open>What is read back\<close>

text \<open>A record whose places all lead to a block is ready to be read.\<close>

lemma no_wrap:
  fixes off n :: u32
  assumes "\<forall>k < m. off + of_nat k < n"
  shows "m = 0 \<or> unat off + m \<le> unat n"
  using assms
proof (induction m)
  case (Suc m)
  have lt: "off + of_nat m < n" using Suc.prems by blast
  have le: "unat off + m \<le> unat n" if "0 < m" using Suc that by auto
  then have "unat off + m < 2 ^ 32" using unat_lt32 [of n] unat_lt32 [of off] by (cases "m = 0") (simp_all del: unat_lt32)
  then have "unat (off + of_nat m) = unat off + m" by (simp add: unat_add_small unat_of_nat)
  then show ?case using lt by (simp add: word_less_nat_alt)
qed simp

lemma rec_ready_places:
  assumes "irec_ok r" and "\<forall>a \<in> idx.rng r. place_block lib_dec f (irec_block r a) \<noteq> None"
  shows "rec_ready lib_dec f r"
proof -
  have blk: "ir_io_offset r + of_nat k < ir_orig_blocks r \<and> rec_image lib_dec f r \<noteq> None"
    if "irec_isNormal r" "k < unat (ir_io_blocks r)" for k
  proof -
    have "unat (ir_io_address r) + k \<in> idx.rng r" using that(2) by (simp add: idx.rng_def)
    then have "place_block lib_dec f (irec_block r (unat (ir_io_address r) + k)) \<noteq> None" using assms(2) by blast
    then show ?thesis
      using that(1) by (auto simp: irec_block_def rec_image_def split: option.splits if_splits)
  qed
  have pos: "0 < unat (ir_io_blocks r)" using assms(1) by (simp add: irec_ok_def)
  then have "irec_isNormal r \<Longrightarrow> unat (ir_io_offset r) + unat (ir_io_blocks r) \<le> unat (ir_orig_blocks r)"
    using no_wrap [of "unat (ir_io_blocks r)" "ir_io_offset r" "ir_orig_blocks r"] blk by auto
  then show ?thesis using blk [OF _ pos] assms(1) by (auto simp: rec_ready_def irec_ok_def)
qed

lemma take_drop_inner: "k + m \<le> n \<Longrightarrow> take m (drop k (take n xs)) = take m (drop k xs)"
  by (simp add: drop_take min_def)

lemma piece_of_place:
  assumes "rec_ready lib_dec f r" and "a \<in> idx.rng r"
  shows "piece_view (irec_io (r, rec_data lib_dec f buf r)) a = place_block lib_dec f (irec_block r a)"
proof -
  let ?k = "a - unat (ir_io_address r)"
  have a: "unat (ir_io_address r) \<le> a" "?k < unat (ir_io_blocks r)" using assms(2) by (auto simp: idx.rng_def)
  show ?thesis
  proof (cases "irec_isNormal r")
    case True
    then obtain im where im: "rec_image lib_dec f r = Some im"
      "unat (ir_io_offset r) + unat (ir_io_blocks r) \<le> unat (ir_orig_blocks r)"
      using assms(1) by (auto simp: rec_ready_def)
    have "unat (ir_io_offset r) + ?k < 2 ^ 32" "?k < 2 ^ 32"
      using im(2) a(2) unat_lt32 [of "ir_orig_blocks r"] by (simp_all del: unat_lt32)
    then have k: "unat (ir_io_offset r + of_nat ?k) = unat (ir_io_offset r) + ?k"
      by (simp add: unat_add_small unat_of_nat)
    then have "ir_io_offset r + of_nat ?k < ir_orig_blocks r" using im(2) a(2) by (simp add: word_less_nat_alt)
    moreover have "take 512 (drop (512 * ?k) (rec_data lib_dec f buf r)) =
        take 512 (drop (512 * unat (ir_io_offset r + of_nat ?k)) im)"
      using True im(1) a(2) k by (simp add: rec_data_def take_drop_inner algebra_simps)
    ultimately show ?thesis
      using True im(1) a by (simp add: piece_view_def irec_io_def irec_type_def irec_block_def rec_image_def)
  next
    case False
    then show ?thesis using a by (simp add: piece_view_def irec_io_def irec_type_def irec_block_def)
  qed
qed

definition pieces_view :: "io_piece list \<Rightarrow> nat \<Rightarrow> diff_block option" where
  "pieces_view ps = foldl (\<lambda>m p. m ++ piece_view p) Map.empty ps"

lemma foldl_view: "foldl (\<lambda>m p. m ++ piece_view p) V ps = V ++ foldl (\<lambda>m p. m ++ piece_view p) Map.empty ps"
proof (induction ps arbitrary: V)
  case (Cons p ps)
  show ?case by (simp add: Cons.IH [of "V ++ piece_view p"] Cons.IH [of "piece_view p"])
qed simp

lemma pieces_view_simps [simp]:
  "pieces_view [] = Map.empty" "pieces_view (p # ps) = piece_view p ++ pieces_view ps"
  by (simp_all add: pieces_view_def foldl_view [of "piece_view p"])

lemma read_pieces_view:
  assumes "\<forall>r \<in> set rs. rec_ready lib_dec f r" and "idx.disjoint rs"
    and "\<forall>r \<in> set rs. \<forall>a \<in> idx.rng r. place_block lib_dec f (irec_block r a) = V a"
  shows "pieces_view (read_pieces lib_dec f buf rs) = V |` (\<Union>r \<in> set rs. idx.rng r)"
  using assms
proof (induction rs arbitrary: buf)
  case (Cons r rs)
  let ?p = "irec_io (r, rec_data lib_dec f buf r)"
  have IH: "pieces_view (read_pieces lib_dec f d rs) = V |` (\<Union>r \<in> set rs. idx.rng r)" for d
    using Cons by (simp add: idx.disjoint_Cons)
  have "piece_view ?p a = (V |` idx.rng r) a" for a
  proof (cases "a \<in> idx.rng r")
    case True
    then show ?thesis using piece_of_place [of lib_dec f r a buf] Cons.prems(1,3) by simp
  next
    case False
    then show ?thesis using dom_piece_view [of "(r, rec_data lib_dec f buf r)"] by (metis domIff fst_conv restrict_out)
  qed
  then have "piece_view ?p = V |` idx.rng r" by blast
  then show ?case using IH by (auto simp: map_add_def restrict_map_def fun_eq_iff split: option.splits)
qed simp

text \<open>The image that belongs to a key: those of the file for this reader, the old ones for others.\<close>

definition reader_images ::
  "decoder \<Rightarrow> u8 list \<Rightarrow> nat \<Rightarrow> walb_indexed_diff_record list \<Rightarrow> diff_cache \<Rightarrow> cache_key \<Rightarrow> u8 list option"
where
  "reader_images lib_dec f this rs c = (\<lambda>(tag, off).
     if tag = this
     then (case List.find (\<lambda>r. irec_isNormal r \<and> ir_data_offset r = off) rs of
             None \<Rightarrow> None | Some r \<Rightarrow> rec_image lib_dec f r)
     else cache_view c (tag, off))"

lemma reader_images_sound:
  assumes "cache_bounded c" and "\<forall>off. cache_view c (this, off) = None"
  shows "img.sound (reader_images lib_dec f this rs c) c"
  using assms by (auto simp: img.sound_def map_le_def reader_images_def)

lemma reader_images_rec:
  assumes "r \<in> set rs" and "irec_isNormal r" and "\<forall>r \<in> set rs. irec_ok r" and "idx.disjoint rs"
    and "consistent (idx.views rs)"
  shows "reader_images lib_dec f this rs c (this, ir_data_offset r) = rec_image lib_dec f r"
proof -
  obtain s where s: "List.find (\<lambda>s. irec_isNormal s \<and> ir_data_offset s = ir_data_offset r) rs = Some s"
    using assms(1,2) by (cases "List.find (\<lambda>s. irec_isNormal s \<and> ir_data_offset s = ir_data_offset r) rs")
      (auto simp: find_None_iff)
  then have s': "s \<in> set rs" "irec_isNormal s" "ir_data_offset s = ir_data_offset r"
    by (auto simp: find_Some_iff)
  have info: "\<exists>p \<in> ran (idx.views rs). image_info p =
      Some (ir_data_offset q, ir_data_size q, ir_compression_type q, ir_orig_blocks q, ir_io_checksum q)"
    if q: "q \<in> set rs" "irec_isNormal q" for q
  proof -
    have "unat (ir_io_address q) \<in> idx.rng q" using assms(3) q(1) by (simp add: idx.rng_def irec_ok_def)
    then have "idx.views rs (unat (ir_io_address q)) = Some (irec_block q (unat (ir_io_address q)))"
      by (rule idx.views_in [OF assms(4) q(1)])
    then show ?thesis using q(2) by (intro bexI [of _ "irec_block q (unat (ir_io_address q))"])
      (auto simp: irec_block_def ran_def)
  qed
  have "(ir_data_size s, ir_compression_type s, ir_orig_blocks s, ir_io_checksum s)
      = (ir_data_size r, ir_compression_type r, ir_orig_blocks r, ir_io_checksum r)"
    using info [OF assms(1,2)] info [OF s'(1,2)] s'(3) assms(5) unfolding consistent_def by metis
  then show ?thesis using s s'(3) by (simp add: reader_images_def rec_image_def)
qed

text \<open>A finished file: the reader is set to the records of the index, and all of them are ready.\<close>

lemma indexed_file_ready:
  assumes h: "iw_holds lib_dec w (diff_file_header_bytes h) n V" and n: "n < 2 ^ 50"
    and hdr: "file_header_ok h" "file_header_verify h = Inr ()" "fh_type h = WALB_DIFF_TYPE_INDEXED"
  defines "rs \<equiv> idx_getAsVec (iw_indexMem w)"
  shows "\<exists>w' rest. iw_finalize w = Inr w' \<and> file_header_readFrom (iw_file w') = Inr (h, rest)
    \<and> (\<forall>r \<in> set rs. rec_ready lib_dec (iw_file w') r
         \<and> (\<forall>a \<in> idx.rng r. place_block lib_dec (iw_file w') (irec_block r a) = V a))
    \<and> (\<forall>rd. \<exists>rd'. ird_setFile True (iw_file w') rd = Inr rd' \<and> ird_rest (iw_file w') rd' rs \<and> ird_this rd' = ird_this rd)
    \<and> (\<forall>r \<in> set rs. irec_ok r) \<and> idx.disjoint rs \<and> idx_view (iw_indexMem w) = idx.views rs \<and> dom (idx.views rs) = dom V"
proof -
  note d = iw_holdsD [OF h]
  obtain w' pad where w': "iw_finalize w = Inr w'" "indexed_file (iw_file w @ pad) rs (iw_file w')"
    using iw_finalize_file [OF h n] unfolding rs_def by blast
  obtain rest where rest: "iw_file w = diff_file_header_bytes h @ rest" using d(3) by blast
  let ?f = "iw_file w'"
  obtain tl where tl: "?f = iw_file w @ tl" using w'(2) by (auto simp: indexed_file_def)
  have ok: "\<forall>r \<in> set rs. irec_ok r" "idx.disjoint rs"
    using d(8) idx.map_ok_disjoint by (auto simp: rs_def idx_ok_def idx.map_ok_def idx_getAsVec_def)
  have view: "idx_view (iw_indexMem w) = idx.views rs" by (simp add: rs_def idx_view_def idx_getAsVec_def)
  have blocks: "place_block lib_dec ?f (irec_block r a) = V a \<and> V a \<noteq> None" if r: "r \<in> set rs" "a \<in> idx.rng r" for r a
  proof -
    have v: "idx_view (iw_indexMem w) a = Some (irec_block r a)" using idx.views_in [OF ok(2) r] view by simp
    then have "V a \<noteq> None" using d(10) by (metis domI domIff)
    then show ?thesis using d(11) [OF v] place_block_append tl by fastforce
  qed
  have rf: "file_header_readFrom ?f = Inr (h, rest @ tl)"
    using rest tl length_file_header_bytes [OF hdr(1)] file_header_of_bytes [OF hdr(1)] hdr(2)
    by (simp add: file_header_readFrom_def DIFF_FILE_HEADER_SIZE_def)
  have "\<exists>rd'. ird_setFile True ?f rd = Inr rd' \<and> ird_rest ?f rd' rs \<and> ird_this rd' = ird_this rd" for rd
    using ird_setFile_rest [OF w'(2) _ hdr, of "rest @ pad" rd] rest by auto
  moreover have "\<forall>r \<in> set rs. rec_ready lib_dec ?f r" using rec_ready_places ok(1) blocks by metis
  ultimately show ?thesis using w'(1) rf blocks ok view d(10) by (intro exI [of _ w'] exI [of _ "rest @ tl"]) auto
qed

lemma read_indexed_file:
  assumes h: "iw_holds lib_dec w (diff_file_header_bytes h) n V" and n: "n < 2 ^ 50"
    and hdr: "file_header_ok h" "file_header_verify h = Inr ()" "fh_type h = WALB_DIFF_TYPE_INDEXED"
    and c: "cache_bounded c" "\<forall>off. cache_view c (this, off) = None"
  shows "\<exists>w' b ps. iw_finalize w = Inr w' \<and> both_setFile True (iw_file w') (both_setCache (both_new this)) = Inr b
    \<and> both_read_all lib_dec buf b c = Some (Inr ps) \<and> pieces_view ps = V
    \<and> map (\<lambda>p. (fst p, fst (snd p))) ps = map (\<lambda>r. (ir_io_address r, ir_io_blocks r)) (idx_getAsVec (iw_indexMem w))"
proof -
  let ?rs = "idx_getAsVec (iw_indexMem w)"
  obtain w' rest where w': "iw_finalize w = Inr w'" "file_header_readFrom (iw_file w') = Inr (h, rest)"
    and rdy: "\<forall>r \<in> set ?rs. rec_ready lib_dec (iw_file w') r
         \<and> (\<forall>a \<in> idx.rng r. place_block lib_dec (iw_file w') (irec_block r a) = V a)"
    and set: "\<forall>rd. \<exists>rd'. ird_setFile True (iw_file w') rd = Inr rd' \<and> ird_rest (iw_file w') rd' ?rs \<and> ird_this rd' = ird_this rd"
    and ok: "\<forall>r \<in> set ?rs. irec_ok r" "idx.disjoint ?rs"
    and view: "idx_view (iw_indexMem w) = idx.views ?rs" "dom (idx.views ?rs) = dom V"
    using indexed_file_ready [OF h n hdr] by blast
  let ?f = "iw_file w'"
  obtain rd where rd: "ird_setFile True ?f (ird_new this) = Inr rd" "ird_rest ?f rd ?rs" "ird_this rd = this"
    using set [rule_format, of "ird_new this"] by (auto simp: ird_new_def)
  have ready: "\<forall>r \<in> set ?rs. rec_ready lib_dec ?f r" using rdy by blast
  have ix: "file_header_isIndexed h = Inr True"
    using hdr(3) by (simp add: file_header_isIndexed_def WALB_DIFF_TYPE_INDEXED_def WALB_DIFF_TYPE_SORTED_def)
  let ?b = "(both_setCache (both_new this))\<lparr>br_head := h, br_ireader := rd\<rparr>"
  have b: "both_setFile True ?f (both_setCache (both_new this)) = Inr ?b"
    using w'(2) ix rd(1) by (simp add: both_setFile_def both_setCache_def both_new_def)
  have "both_read_all lib_dec buf ?b c = Some (Inr (read_pieces lib_dec ?f buf ?rs))"
    using ix rd(2,3) ready reader_images_sound [OF c] reader_images_rec [OF _ _ ok] iw_holdsD(9) [OF h] view(1)
    by (intro both_read_all_indexed [where F = "reader_images lib_dec ?f this ?rs c"]) auto
  moreover have "pieces_view (read_pieces lib_dec ?f buf ?rs) = V"
  proof -
    have "pieces_view (read_pieces lib_dec ?f buf ?rs) = V |` (\<Union>r \<in> set ?rs. idx.rng r)"
      using rdy by (intro read_pieces_view [OF ready ok(2)]) blast
    also have "\<dots> = V |` dom V" using view(2) idx.dom_views by simp
    also have "\<dots> = V" by (auto simp: restrict_map_def fun_eq_iff domIff)
    finally show ?thesis .
  qed
  moreover have "map (\<lambda>p. (fst p, fst (snd p))) (read_pieces lib_dec ?f buf rs)
      = map (\<lambda>r. (ir_io_address r, ir_io_blocks r)) rs" for rs
    by (induction rs arbitrary: buf) (simp_all add: irec_io_def)
  ultimately show ?thesis using w'(1) b by blast
qed

definition pieces_sorted :: "io_piece list \<Rightarrow> bool" where
  "pieces_sorted ps \<longleftrightarrow> sorted_wrt (\<lambda>p q. unat (fst p) + unat (fst (snd p)) \<le> unat (fst q)) ps"

lemma pieces_sorted_map:
  "pieces_sorted ps \<longleftrightarrow> sorted_wrt (\<lambda>x y. unat (fst x) + unat (snd x) \<le> unat (fst y)) (map (\<lambda>p. (fst p, fst (snd p))) ps)"
  by (simp add: pieces_sorted_def sorted_wrt_map)

text \<open>The writer after the header and the IOs.\<close>

lemma write_index:
  assumes "codec_ok lib_enc lib_dec" and "t < WALB_DIFF_CMPR_MAX" and "level_ok t l"
    and "file_header_ok h" and "fh_version h = WALB_DIFF_VERSION"
    and "\<forall>x \<in> set xs. plain_irec x" and "total_blocks xs < 2 ^ 50"
  shows "\<exists>h' w1 w2. iw_writeHeader h (iw_setFd [] mx) = Inr (h', w1) \<and> iw_write_all lib_enc t l xs w1 = Inr w2
    \<and> file_header_ok h' \<and> file_header_verify h' = Inr () \<and> fh_type h' = WALB_DIFF_TYPE_INDEXED
    \<and> iw_holds lib_dec w2 (diff_file_header_bytes h') (total_blocks xs)
         (foldl (\<lambda>m x. m ++ piece_view (irec_io x)) Map.empty xs)"
proof -
  let ?h = "h\<lparr>fh_type := WALB_DIFF_TYPE_INDEXED\<rparr>" let ?h' = "file_header_updateChecksum ?h"
  have hok: "file_header_ok ?h" using assms(4) by (simp add: file_header_ok_def)
  then have ok': "file_header_ok ?h'" by (simp add: file_header_updateChecksum_def Let_def file_header_ok_def)
  have "calcChecksum (diff_file_header_bytes ?h') 0 = 0"
    using file_header_sum.updated_verifies [OF hok, of 0] by (simp add: file_header_updateChecksum_def Let_def)
  then have ver: "file_header_verify ?h' = Inr ()"
    using assms(5) by (simp add: file_header_verify_def file_header_updateChecksum_def Let_def)
  have ty: "fh_type ?h' = WALB_DIFF_TYPE_INDEXED" by (simp add: file_header_updateChecksum_def Let_def)
  obtain w1 where w1: "iw_writeHeader h (iw_setFd [] mx) = Inr (?h', w1)"
    "iw_holds lib_dec w1 (diff_file_header_bytes ?h') 0 Map.empty"
    using length_file_header_bytes [OF ok']
    by (simp add: iw_writeHeader_def iw_setFd_def iw_init_def file_header_writeTo_def iw_holds_def Let_def
        DIFF_FILE_HEADER_SIZE_def idx_ok_def idx.map_ok_def idx_view_def consistent_def)
  obtain w2 where w2: "iw_write_all lib_enc t l xs w1 = Inr w2"
    "iw_holds lib_dec w2 (diff_file_header_bytes ?h') (total_blocks xs)
       (foldl (\<lambda>m x. m ++ piece_view (irec_io x)) Map.empty xs)"
    using iw_write_all_holds [OF assms(1-3) w1(2) assms(6)] assms(7) by auto
  show ?thesis using w1(1) w2 ok' ver ty by blast
qed

text \<open>
  C29: An indexed wdiff that is written, compressed or not, is read back: \<open>BothDiffReader\<close> returns sorted
  pieces without overlaps that hold exactly the blocks of the IOs, each IO overwriting those
  before it. The level is one that the engine accepts and can read back (\<open>level_ok\<close>, see C34). Nothing fails in between, whatever the limit of the IO size, the cache size and the images of other
  readers in the cache are; the cache holds nothing yet for this reader.
\<close>

theorem indexed_diff_write_read:
  assumes "codec_ok lib_enc lib_dec" and "t < WALB_DIFF_CMPR_MAX" and "level_ok t l"
    and "file_header_ok h" and "fh_version h = WALB_DIFF_VERSION"
    and "\<forall>x \<in> set xs. plain_irec x" and "total_blocks xs < 2 ^ 50"
    and "cache_bounded c" and "\<forall>off. cache_view c (this, off) = None"
  shows "\<exists>h' w1 w2 w3 b ps. iw_writeHeader h (iw_setFd [] mx) = Inr (h', w1)
    \<and> iw_write_all lib_enc t l xs w1 = Inr w2 \<and> iw_finalize w2 = Inr w3
    \<and> both_setFile True (iw_file w3) (both_setCache (both_new this)) = Inr b
    \<and> both_read_all lib_dec buf b c = Some (Inr ps) \<and> pieces_sorted ps
    \<and> pieces_view ps = foldl (\<lambda>m x. m ++ piece_view (irec_io x)) Map.empty xs"
proof -
  obtain h' w1 w2 where w: "iw_writeHeader h (iw_setFd [] mx) = Inr (h', w1)" "iw_write_all lib_enc t l xs w1 = Inr w2"
    "file_header_ok h'" "file_header_verify h' = Inr ()" "fh_type h' = WALB_DIFF_TYPE_INDEXED"
    "iw_holds lib_dec w2 (diff_file_header_bytes h') (total_blocks xs)
       (foldl (\<lambda>m x. m ++ piece_view (irec_io x)) Map.empty xs)"
    using write_index [OF assms(1-7)] by blast
  obtain w3 b ps where w3: "iw_finalize w2 = Inr w3" "both_setFile True (iw_file w3) (both_setCache (both_new this)) = Inr b"
    "both_read_all lib_dec buf b c = Some (Inr ps)" "pieces_view ps = foldl (\<lambda>m x. m ++ piece_view (irec_io x)) Map.empty xs"
    "map (\<lambda>p. (fst p, fst (snd p))) ps = map (\<lambda>r. (ir_io_address r, ir_io_blocks r)) (idx_getAsVec (iw_indexMem w2))"
    using read_indexed_file [OF w(6) assms(7) w(3-5) assms(8,9)] by blast
  have "sorted_wrt (\<lambda>x y. unat (ir_io_address (snd x)) + unat (ir_io_blocks (snd x)) \<le> unat (ir_io_address (snd y)))
      (idx_index (iw_indexMem w2))"
    using iw_holdsD(8) [OF w(6)] by (simp add: idx_ok_def idx.map_ok_def)
  then have "pieces_sorted ps" unfolding pieces_sorted_map w3(5) by (simp add: idx_getAsVec_def sorted_wrt_map)
  then show ?thesis using w(1,2) w3(1-4) by blast
qed

definition plain_sample :: "u64 \<Rightarrow> u32 \<Rightarrow> u8 \<Rightarrow> walb_indexed_diff_record" where
  "plain_sample a n fl = \<lparr>ir_io_address = a, ir_io_blocks = n, ir_flags = fl, ir_compression_type = 0,
     ir_reserved1 = 0, ir_data_offset = 0, ir_data_size = 0, ir_io_offset = 0, ir_orig_blocks = n,
     ir_reserved2 = 0, ir_io_checksum = 0, ir_rec_checksum = 0\<rparr>"

theorem indexed_diff_write_read_witness:
  "\<exists>h' w1 w2 w3 b ps. iw_writeHeader file_header_init (iw_setFd [] 2) = Inr (h', w1)
    \<and> iw_write_all sample_enc WALB_DIFF_CMPR_SNAPPY 0
         [(plain_sample 10 4 0, replicate 2048 0), (plain_sample 11 2 2, []), (plain_sample 13 1 0, replicate 512 7)] w1 = Inr w2
    \<and> iw_finalize w2 = Inr w3
    \<and> both_setFile True (iw_file w3) (both_setCache (both_new 5)) = Inr b
    \<and> both_read_all sample_dec [] b sample_cache = Some (Inr ps) \<and> pieces_sorted ps
    \<and> pieces_view ps = foldl (\<lambda>m x. m ++ piece_view (irec_io x)) Map.empty
         [(plain_sample 10 4 0, replicate 2048 0), (plain_sample 11 2 2, []), (plain_sample 13 1 0, replicate 512 7)]"
proof (rule indexed_diff_write_read [OF sample_codec_ok _ level_ok_0 file_header_init_ok])
  show "cache_bounded sample_cache" using sample_cache_ok by (simp add: cache_bounded_def) (simp add: sample_cache_def)
  show "\<forall>off. cache_view sample_cache (5, off) = None"
    by (simp add: cache_view_def cache_contents_def sample_cache_def)
qed (simp_all add: WALB_DIFF_CMPR_SNAPPY_def WALB_DIFF_CMPR_MAX_def WALB_DIFF_CMPR_NONE_def plain_irec_def irec_arg_ok_def
  irec_flags_ok_def irec_isNormal_def irec_isAllZero_def irec_isDiscard_def irec_isCompressed_def plain_sample_def
  total_blocks_def WALB_DIFF_FLAG_ALLZERO_def WALB_DIFF_FLAG_DISCARD_def)

end
