(* ===== verification/Merge_Files.thy ===== *)
theory Merge_Files
  imports Diff_Merge_Laws Diff_Read_Laws
begin

text \<open>
  Wdiff files, sorted and indexed, are sources of IOs for the merger, and what merging of files gives:
  \<open>mergeToFd\<close> writes a wdiff whose contents are those of the inputs, newer ones over older ones.
\<close>

section \<open>A wdiff that still holds some IOs\<close>

text \<open>
  \<open>wd_src\<close> speaks of a wdiff with no IO in its buffer: each call of \<open>fill\<close> brings the next IO,
  whatever the cache holds, as long as it is sound for the images \<open>F\<close>.
\<close>

fun wd_src :: "decoder \<Rightarrow> (cache_key \<Rightarrow> u8 list option) \<Rightarrow> wdiff \<Rightarrow> DiffRecIo list \<Rightarrow> bool" where
  "wd_src lib_dec F wd [] \<longleftrightarrow> (\<forall>c. img.sound F c \<longrightarrow>
     (\<exists>wd' c'. wd_fill lib_dec wd c = Some (Inr (wd', c')) \<and> wd_isEnd wd' \<and> img.sound F c'))"
| "wd_src lib_dec F wd (r # t) \<longleftrightarrow> (\<forall>c. img.sound F c \<longrightarrow>
     (\<exists>wd' c'. wd_fill lib_dec wd c = Some (Inr (wd', c')) \<and> \<not> wd_isEnd wd' \<and> wd_isFilled wd'
        \<and> add_arg (wd_rec wd') (wd_buf wd') = r \<and> img.sound F c'
        \<and> wd_src lib_dec F (wd'\<lparr>wd_buf := [], wd_isFilled := False\<rparr>) t))"

definition wd_yields :: "decoder \<Rightarrow> (cache_key \<Rightarrow> u8 list option) \<Rightarrow> wdiff \<Rightarrow> DiffRecIo list \<Rightarrow> bool" where
  "wd_yields lib_dec F wd t \<longleftrightarrow>
     (if wd_isEnd wd then t = []
      else if wd_isFilled wd then
        (case t of [] \<Rightarrow> False
         | r # t' \<Rightarrow> add_arg (wd_rec wd) (wd_buf wd) = r
             \<and> wd_src lib_dec F (wd\<lparr>wd_buf := [], wd_isFilled := False\<rparr>) t')
      else wd_src lib_dec F wd t)"

lemma fill_yields:
  assumes "wd_yields lib_dec F wd t" and "img.sound F c"
  shows "\<exists>wd' c'. wd_fill lib_dec wd c = Some (Inr (wd', c')) \<and> img.sound F c' \<and> wd_yields lib_dec F wd' t
    \<and> (wd_isEnd wd' \<longleftrightarrow> t = []) \<and> (wd_isEnd wd' \<or> wd_isFilled wd')"
proof (cases "wd_isEnd wd \<or> wd_isFilled wd")
  case True
  then show ?thesis using assms by (cases t) (auto simp: wd_fill_def wd_yields_def split: if_splits)
next
  case False
  then have src: "wd_src lib_dec F wd t" using assms(1) by (simp add: wd_yields_def)
  show ?thesis
  proof (cases t)
    case Nil
    then obtain wd' c' where "wd_fill lib_dec wd c = Some (Inr (wd', c'))" "wd_isEnd wd'" "img.sound F c'"
      using src assms(2) by auto
    then show ?thesis using Nil by (auto simp: wd_yields_def)
  next
    case (Cons r t')
    then obtain wd' c' where "wd_fill lib_dec wd c = Some (Inr (wd', c'))" "\<not> wd_isEnd wd'" "wd_isFilled wd'"
      "add_arg (wd_rec wd') (wd_buf wd') = r" "img.sound F c'"
      "wd_src lib_dec F (wd'\<lparr>wd_buf := [], wd_isFilled := False\<rparr>) t'"
      using src assms(2) by auto
    then show ?thesis using Cons by (auto simp: wd_yields_def)
  qed
qed

lemma fill_again: "wd_isEnd wd \<or> wd_isFilled wd \<Longrightarrow> wd_fill lib_dec wd c = Some (Inr (wd, c))"
  by (auto simp: wd_fill_def)

text \<open>What \<open>fill_yields\<close> gives in the form the methods need it.\<close>

lemma fill_Cons:
  assumes "wd_yields lib_dec F wd (r # t)" and "img.sound F c"
  obtains wd' c' where "wd_fill lib_dec wd c = Some (Inr (wd', c'))" and "img.sound F c'"
    and "wd_yields lib_dec F wd' (r # t)" and "\<not> wd_isEnd wd'" and "wd_isFilled wd'"
    and "add_arg (wd_rec wd') (wd_buf wd') = r"
    and "wd_yields lib_dec F (wd'\<lparr>wd_buf := [], wd_isFilled := False\<rparr>) t"
  using fill_yields [OF assms] by (auto simp: wd_yields_def)

lemma add_arg_rec: "add_arg rec buf = r \<Longrightarrow> rio_rec r = rec"
  by (auto simp: add_arg_def)

interpretation src: wdiff_source lib_dec "img.sound F" "wd_yields lib_dec F" for lib_dec F
proof
  fix wd t c
  assume "wd_yields lib_dec F wd t" and "img.sound F c"
  then show "\<exists>wd' c'. wd_atEnd lib_dec wd c = Some (Inr (t = [], wd', c')) \<and> wd_yields lib_dec F wd' t \<and> img.sound F c'"
    using fill_yields by (fastforce simp: wd_atEnd_def)
next
  fix wd r t c
  assume y: "wd_yields lib_dec F wd (r # t)" and c: "img.sound F c"
  obtain wd' c' where f: "wd_fill lib_dec wd c = Some (Inr (wd', c'))" "img.sound F c'" "wd_yields lib_dec F wd' (r # t)"
    "\<not> wd_isEnd wd'" "wd_isFilled wd'" "add_arg (wd_rec wd') (wd_buf wd') = r"
    "wd_yields lib_dec F (wd'\<lparr>wd_buf := [], wd_isFilled := False\<rparr>) t"
    by (rule fill_Cons [OF y c])
  have rec: "rio_rec r = wd_rec wd'" using add_arg_rec [OF f(6)] .
  note fa = fill_again [of wd' lib_dec]
  show "\<exists>wd' c'. getFrontRec lib_dec wd c = Some (Inr (rio_rec r, wd', c')) \<and> wd_yields lib_dec F wd' (r # t) \<and> img.sound F c'"
    using f(1-5) fa rec by (simp add: getFrontRec_def verifyNotEnd_def wd_atEnd_def)
  show "\<exists>wd' c'. currentAddress lib_dec wd c = Some (Inr (rio_addr r, wd', c')) \<and> wd_yields lib_dec F wd' (r # t) \<and> img.sound F c'"
    using f(1-5) rec by (simp add: currentAddress_def verifyFilled_def wd_atEnd_def rio_addr_def)
  show "\<exists>buf wd' c'. getAndRemoveIo lib_dec wd c = Some (Inr (buf, wd', c')) \<and> add_arg (rio_rec r) buf = r
        \<and> wd_yields lib_dec F wd' t \<and> img.sound F c'" if ok: "stream_ok (r # t)"
  proof -
    let ?wd = "wd'\<lparr>wd_buf := [], wd_isFilled := False\<rparr>"
    obtain wd2 c2 where f2: "wd_fill lib_dec ?wd c' = Some (Inr (wd2, c2))" "img.sound F c2" "wd_yields lib_dec F wd2 t"
      "wd_isEnd wd2 \<longleftrightarrow> t = []" "wd_isEnd wd2 \<or> wd_isFilled wd2"
      using fill_yields [OF f(7,2)] by blast
    note fb = fill_again [of wd2 lib_dec]
    have "\<not> (\<not> wd_isEnd wd2 \<and> dr_io_address (wd_rec wd2) < rec_endIoAddress (wd_rec wd'))"
    proof (cases t)
      case (Cons s t')
      have "add_arg (wd_rec wd2) (wd_buf wd2) = s" using f2(3-5) Cons by (auto simp: wd_yields_def)
      from add_arg_rec [OF this] have "rio_addr s = dr_io_address (wd_rec wd2)" by (simp add: rio_addr_def)
      moreover have "rio_fin r \<le> rio_addr s" using ok Cons fin_le_addr [of r s] by (simp add: stream_ok_Cons)
      ultimately show ?thesis using rec by (simp add: not_less)
    qed (use f2(4) in simp)
    then have "getAndRemoveIo lib_dec wd c = Some (Inr (wd_buf wd', wd2, c2))"
      using f(1,4,5) f2(1,5) fb by (simp add: getAndRemoveIo_def verifyNotEnd_def wd_atEnd_def verifyFilled_def Let_def)
    then show ?thesis using f(6) rec f2(2,3) by simp
  qed
qed

section \<open>Sorted wdiffs\<close>

text \<open>IOs with the same contents have the same place.\<close>

lemma ivl_same: "{a ..< a + m} = {b ..< b + n} \<Longrightarrow> 0 < m \<Longrightarrow> 0 < n \<Longrightarrow> a = b \<and> m = (n :: nat)"
  using atLeastLessThan_inj [of a "a + m" b "b + n"] by auto

lemma same_view_place:
  assumes "rio_ok r" and "rio_ok s" and "io_view r = io_view s"
  shows "rio_addr r = rio_addr s" and "rio_blocks r = rio_blocks s"
proof -
  have "rio.rng r = rio.rng s" using assms(3) rio.dom_item [of r] rio.dom_item [of s] by (simp add: io_view_def)
  then have "unat (rio_addr r) = unat (rio_addr s) \<and> unat (rio_addr r) + unat (rio_blocks r) = unat (rio_addr s) + unat (rio_blocks s)"
    using assms(1,2) ivl_same [of "unat (rio_addr r)" "unat (rio_blocks r)" "unat (rio_addr s)" "unat (rio_blocks s)"]
    by (simp add: rio.rng_def rio_ok_def)
  then show "rio_addr r = rio_addr s" "rio_blocks r = rio_blocks s" by (simp_all add: unat_eq_iff_nat)
qed

lemma sorted_src:
  assumes "reader_rest (wd_sReader wd) xs" and "list_all2 (stands_for lib_dec) xs rs"
    and "\<not> wd_isIndexed wd" and "\<not> wd_isEnd wd" and "\<not> wd_isFilled wd"
  shows "\<exists>ts. (\<forall>F. wd_src lib_dec F wd ts) \<and> list_all2 (\<lambda>r s. rio_ok r \<and> io_view r = io_view s) ts rs"
  using assms
proof (induction xs arbitrary: wd rs)
  case Nil
  obtain r' where "reader_readDiff (wd_sReader wd) = Inr (None, r')" using readDiff_rest_Nil [OF Nil.prems(1)] by blast
  then have "\<forall>F. wd_src lib_dec F wd []" using Nil.prems(3-5)
    by (simp add: wd_fill_def reader_readAndUncompressDiff_def)
  then show ?case using Nil.prems(2) by (intro exI [of _ "[]"]) simp
next
  case (Cons x xs)
  obtain s rs' where rs: "rs = s # rs'" "stands_for lib_dec x s" "list_all2 (stands_for lib_dec) xs rs'"
    using Cons.prems(2) by (auto simp: list_all2_Cons1)
  obtain rec io r' where r: "reader_readAndUncompressDiff lib_dec False (wd_sReader wd) = Inr (Some (rec, io), r')"
    "rio_ok (add_arg rec io)" "io_view (add_arg rec io) = io_view s" "reader_rest r' xs"
    using read_stands [OF Cons.prems(1) rs(2)] by blast
  let ?wd = "wd\<lparr>wd_sReader := r', wd_rec := rec, wd_buf := io, wd_isFilled := True\<rparr>"
  let ?we = "?wd\<lparr>wd_buf := [], wd_isFilled := False\<rparr>"
  obtain ts where ts: "\<forall>F. wd_src lib_dec F ?we ts" "list_all2 (\<lambda>r s. rio_ok r \<and> io_view r = io_view s) ts rs'"
    using Cons.IH [of ?we rs'] r(4) rs(3) Cons.prems(3,4) by auto
  have "wd_fill lib_dec wd c = Some (Inr (?wd, c))" for c
    using Cons.prems(3-5) r(1) by (simp add: wd_fill_def)
  then have "\<forall>F. wd_src lib_dec F wd (add_arg rec io # ts)"
    using ts(1) Cons.prems(4) by simp
  moreover have "list_all2 (\<lambda>r s. rio_ok r \<and> io_view r = io_view s) (add_arg rec io # ts) rs"
    using ts(2) r(2,3) rs(1) by simp
  ultimately show ?case by blast
qed

section \<open>Indexed wdiffs\<close>

text \<open>The IO that the merger sees for an indexed record.\<close>

definition irec_rio :: "decoder \<Rightarrow> u8 list \<Rightarrow> walb_indexed_diff_record \<Rightarrow> DiffRecIo" where
  "irec_rio lib_dec f r =
     (let rec = DiffRecord_init\<lparr>dr_io_address := ir_io_address r, dr_io_blocks := ir_io_blocks r, dr_flags := ir_flags r\<rparr> in
      if irec_isNormal r
      then add_arg (rec\<lparr>dr_compression_type := WALB_DIFF_CMPR_NONE, dr_data_offset := 0,
             dr_data_size := ir_io_blocks r * LOGICAL_BLOCK_SIZE, dr_checksum := ir_io_checksum r\<rparr>)
             (rec_data lib_dec f [] r)
      else add_arg rec [])"

lemma irec_flags_rec:
  "dr_flags rec = ir_flags r \<Longrightarrow> rec_isAllZero rec = irec_isAllZero r \<and> rec_isDiscard rec = irec_isDiscard r
     \<and> rec_isNormal rec = irec_isNormal r"
  by (simp add: rec_isAllZero_def irec_isAllZero_def rec_isDiscard_def irec_isDiscard_def rec_isNormal_def irec_isNormal_def)

lemma rec_data_length:
  assumes "rec_ready lib_dec f r" and "irec_isNormal r"
  shows "length (rec_data lib_dec f buf r) = 512 * unat (ir_io_blocks r)"
    and "unat (ir_io_blocks r * LOGICAL_BLOCK_SIZE) = 512 * unat (ir_io_blocks r)"
proof -
  obtain im where im: "rec_image lib_dec f r = Some im" "unat (ir_io_offset r) + unat (ir_io_blocks r) \<le> unat (ir_orig_blocks r)"
    using assms by (auto simp: rec_ready_def)
  note i = image_at_Some [OF im(1) [unfolded rec_image_def]]
  show "length (rec_data lib_dec f buf r) = 512 * unat (ir_io_blocks r)" using im i(4) assms(2) by (simp add: rec_data_def)
  have "512 * unat (ir_io_blocks r) < 2 ^ 32" using im(2) i(3) by simp
  then show "unat (ir_io_blocks r * LOGICAL_BLOCK_SIZE) = 512 * unat (ir_io_blocks r)" by (simp add: unat_lb_bytes)
qed

lemma irec_rio_ok:
  assumes "irec_ok r" and "rec_ready lib_dec f r"
  shows "rio_ok (irec_rio lib_dec f r) \<and> rio_addr (irec_rio lib_dec f r) = ir_io_address r
    \<and> rio_blocks (irec_rio lib_dec f r) = ir_io_blocks r
    \<and> io_view (irec_rio lib_dec f r) = piece_view (irec_io (r, rec_data lib_dec f [] r))"
proof -
  let ?q = "irec_rio lib_dec f r"
  have fl: "dr_flags (rio_rec ?q) = ir_flags r" by (simp add: irec_rio_def add_arg_def Let_def)
  note fr = irec_flags_rec [OF fl]
  have a: "rio_addr ?q = ir_io_address r" "rio_blocks ?q = ir_io_blocks r"
    by (simp_all add: irec_rio_def add_arg_def rio_addr_def rio_blocks_def Let_def)
  have io: "rio_io ?q = (if irec_isNormal r then rec_data lib_dec f [] r else [])"
    using fr by (auto simp: irec_rio_def add_arg_def Let_def)
  have nc: "\<not> rec_isCompressed (rio_rec ?q)"
    by (simp add: irec_rio_def add_arg_def Let_def rec_isCompressed_def DiffRecord_init_def WALB_DIFF_CMPR_NONE_def)
  have sz: "irec_isNormal r \<Longrightarrow> unat (dr_data_size (rio_rec ?q)) = 512 * unat (ir_io_blocks r)"
    "\<not> irec_isNormal r \<Longrightarrow> dr_data_size (rio_rec ?q) = 0"
    using rec_data_length(2) [OF assms(2)] by (simp_all add: irec_rio_def add_arg_def Let_def DiffRecord_init_def)
  have ver: "irec_verify r True = Inr ()" using assms(1) by (simp add: irec_ok_def)
  have "rec_verify (rio_rec ?q) = Inr ()"
    using ver fr a(2) nc assms(1)
    by (auto simp: rec_verify_def irec_verify_def rio_blocks_def irec_ok_def rec_isCompressed_def
        WALB_DIFF_CMPR_NONE_def WALB_DIFF_CMPR_MAX_def split: if_splits)
  then have "rio_ok ?q"
    using a io nc sz fr rec_data_length(1) [OF assms(2)] assms(1) by (simp add: rio_ok_def rio_isValid_def irec_ok_def)
  moreover have "io_view ?q = piece_view (irec_io (r, rec_data lib_dec f [] r))"
    using a io fr by (auto simp: io_view_def rio.item_def rio.rng_def rio_block_def piece_view_def irec_io_def irec_type_def fun_eq_iff)
  ultimately show ?thesis using a by simp
qed

lemma indexed_src:
  assumes "ird_rest f (wd_iReader wd) rs" and "\<forall>r \<in> set rs. rec_ready lib_dec f r"
    and "\<forall>r \<in> set rs. irec_isNormal r \<longrightarrow> F (ird_this (wd_iReader wd), ir_data_offset r) = rec_image lib_dec f r"
    and "wd_isIndexed wd" and "\<not> wd_isEnd wd" and "\<not> wd_isFilled wd" and "wd_buf wd = []"
  shows "wd_src lib_dec F wd (map (irec_rio lib_dec f) rs)"
  using assms
proof (induction rs arbitrary: wd)
  case Nil
  then have "readDiffRecord True (wd_iReader wd) = Inr (None, wd_iReader wd)"
    using readDiffRecord_rest [OF Nil.prems(1)] by simp
  then show ?case using Nil.prems(4-7) by (simp add: wd_fill_def readIndexedDiff_def ird_readDiff_def)
next
  case (Cons r rs)
  have "\<forall>r \<in> set (r # rs). irec_verify r True = Inr ()" using Cons.prems(2) by (simp add: rec_ready_def)
  then obtain rd where rd: "readDiffRecord True (wd_iReader wd) = Inr (Some r, rd)" "ird_rest f rd rs"
    "ird_this rd = ird_this (wd_iReader wd)"
    using readDiffRecord_rest [OF Cons.prems(1)] by auto
  have m: "ird_memFile rd = f" "ird_cache rd" using rd(2) by (simp_all add: ird_rest_def)
  have rr: "rec_ready lib_dec f r" using Cons.prems(2) by simp
  let ?q = "irec_rio lib_dec f r"
  let ?wd = "wd\<lparr>wd_iReader := rd, wd_buf := rec_data lib_dec f [] r, wd_rec := rio_rec ?q, wd_isFilled := True\<rparr>"
  have fl: "rec_isNormal (rio_rec ?q) = irec_isNormal r"
    using irec_flags_rec [of "rio_rec ?q" r] by (simp add: irec_rio_def add_arg_def Let_def)
  have arg: "add_arg (rio_rec ?q) (rec_data lib_dec f [] r) = ?q"
    using fl by (auto simp: irec_rio_def add_arg_def Let_def)
  have fill: "\<exists>c'. wd_fill lib_dec wd c = Some (Inr (?wd, c')) \<and> img.sound F c'" if c: "img.sound F c" for c
  proof -
    obtain c1 where c1: "ird_readDiffIo lib_dec r [] rd c = Some (Inr (rec_data lib_dec f [] r, c1))" "img.sound F c1"
      using ird_readDiffIo_sound [OF rr m c, of "[]"] Cons.prems(3) rd(3) by auto
    show ?thesis
    proof (cases "irec_isNormal r")
      case True
      then show ?thesis
        using Cons.prems(4-7) rd(1) c1 rec_data_length(1) [OF rr True, of "[]"] rec_data_length(2) [OF rr True]
        by (simp add: wd_fill_def readIndexedDiff_def ird_readDiff_def irec_rio_def add_arg_def Let_def)
    next
      case False
      then show ?thesis
        using Cons.prems(4-7) rd(1) c1
        by (simp add: wd_fill_def readIndexedDiff_def ird_readDiff_def irec_rio_def add_arg_def Let_def)
    qed
  qed
  have "wd_src lib_dec F (?wd\<lparr>wd_buf := [], wd_isFilled := False\<rparr>) (map (irec_rio lib_dec f) rs)"
    using Cons.prems rd by (intro Cons.IH) simp_all
  then show ?case using fill arg Cons.prems(5) by fastforce
qed

section \<open>Files of wdiffs\<close>

text \<open>\<open>f\<close> is a wdiff written by the tools, from a diff in memory or by the indexed writer, with the contents \<open>V\<close>.\<close>

definition sorted_wdiff :: "encoder \<Rightarrow> u8 list \<Rightarrow> (nat \<Rightarrow> diff_block option) \<Rightarrow> bool" where
  "sorted_wdiff lib_enc f V \<longleftrightarrow> (\<exists>dm t dm'. mem_ok dm \<and> mem_small dm \<and> t < WALB_DIFF_CMPR_MAX
     \<and> file_header_ok (mem_fileH dm) \<and> fh_version (mem_fileH dm) = WALB_DIFF_VERSION
     \<and> mem_writeTo lib_enc t dm = Inr (f, dm') \<and> V = mem_view dm)"

definition indexed_wdiff :: "encoder \<Rightarrow> u8 list \<Rightarrow> (nat \<Rightarrow> diff_block option) \<Rightarrow> bool" where
  "indexed_wdiff lib_enc f V \<longleftrightarrow> (\<exists>h mx t l xs h' w1 w2 w3. file_header_ok h \<and> fh_version h = WALB_DIFF_VERSION
     \<and> t < WALB_DIFF_CMPR_MAX \<and> level_ok t l \<and> (\<forall>x \<in> set xs. plain_irec x) \<and> total_blocks xs < 2 ^ 50
     \<and> iw_writeHeader h (iw_setFd [] mx) = Inr (h', w1) \<and> iw_write_all lib_enc t l xs w1 = Inr w2
     \<and> iw_finalize w2 = Inr w3 \<and> f = iw_file w3 \<and> V = foldl (\<lambda>m x. m ++ piece_view (irec_io x)) Map.empty xs)"

definition wdiff_file :: "encoder \<Rightarrow> u8 list \<Rightarrow> (nat \<Rightarrow> diff_block option) \<Rightarrow> bool" where
  "wdiff_file lib_enc f V \<longleftrightarrow> sorted_wdiff lib_enc f V \<or> indexed_wdiff lib_enc f V"

text \<open>A sorted list of IOs with contents \<open>V\<close>.\<close>

definition stream_of :: "(nat \<Rightarrow> diff_block option) \<Rightarrow> DiffRecIo list \<Rightarrow> bool" where
  "stream_of V t \<longleftrightarrow> sorted_wrt before t \<and> (\<forall>r \<in> set t. rio_ok r) \<and> rio.views t = V"

lemma same_views_stream:
  assumes "list_all2 (\<lambda>r s. rio_ok r \<and> io_view r = io_view s) ts rs" and "\<forall>r \<in> set rs. rio_ok r" and "sorted_wrt before rs"
  shows "stream_of (rio.views rs) ts"
  using assms
proof (induction ts arbitrary: rs rule: list.induct)
  case Nil
  then show ?case by (simp add: stream_of_def)
next
  case (Cons t ts)
  obtain r rs' where rs: "rs = r # rs'" "rio_ok t" "io_view t = io_view r" "list_all2 (\<lambda>r s. rio_ok r \<and> io_view r = io_view s) ts rs'"
    using Cons.prems(1) by (auto simp: list_all2_Cons1)
  have IH: "stream_of (rio.views rs') ts" using Cons rs(1,4) by simp
  have "before t y" if y: "y \<in> set ts" for y
  proof -
    obtain z where z: "z \<in> set rs'" "rio_ok y" "io_view y = io_view z"
    proof -
      obtain i where i: "i < length ts" "y = ts ! i" using y by (auto simp: in_set_conv_nth)
      then have "rio_ok (ts ! i) \<and> io_view (ts ! i) = io_view (rs' ! i)" "i < length rs'"
        using list_all2_nthD [OF rs(4) i(1)] list_all2_lengthD [OF rs(4)] by simp_all
      then show ?thesis using that [of "rs' ! i"] i(2) by simp
    qed
    have "before r z" "rio_ok z" "rio_ok r" using Cons.prems(2,3) rs(1) z(1) by simp_all
    then show ?thesis
      using same_view_place [OF rs(2) _ rs(3)] same_view_place [OF z(2) _ z(3)] by (simp add: before_def)
  qed
  then show ?case using IH rs(1-3) by (simp add: stream_of_def io_view_def)
qed

lemma readHeader_dontReadHeader:
  assumes "reader_readHeader True (reader_init f) = Inr (h, r)"
  shows "\<exists>rest. file_header_readFrom f = Inr (h, rest) \<and> reader_dontReadHeader True (reader_init rest) = Inr r"
  using assms by (auto simp: reader_readHeader_def reader_dontReadHeader_def reader_init_def res_bind_Inr_iff Let_def)

lemma sorted_wdiff_opens:
  assumes "sorted_wdiff lib_enc f V" and "codec_ok lib_enc lib_dec"
  shows "\<exists>wd ts. wd_setFile True True f (wd_new this) = Inr wd \<and> (\<forall>F. wd_yields lib_dec F wd ts) \<and> stream_of V ts
    \<and> length (fh_uuid (wd_header wd)) = 16"
proof -
  obtain dm t dm' where d: "mem_ok dm" "mem_small dm" "t < WALB_DIFF_CMPR_MAX" "file_header_ok (mem_fileH dm)"
    "fh_version (mem_fileH dm) = WALB_DIFF_VERSION" "mem_writeTo lib_enc t dm = Inr (f, dm')" "V = mem_view dm"
    using assms(1) by (auto simp: sorted_wdiff_def)
  let ?rs = "map snd (mem_map dm)" and ?h = "sealed_header (mem_fileH dm)"
  have small: "\<forall>r \<in> set ?rs. rio_ok r \<and> 512 * unat (rio_blocks r) < 2147483648"
    using d(1,2) by (auto simp: mem_ok_def mem_small_def rio.map_ok_def)
  then obtain w xs w1 w2 r where w: "writer_writeHeader (mem_fileH dm) (writer_setFd []) = Inr (?h, w)"
    "mem_write_entries lib_enc t ?rs w = Inr w1" "writer_close w1 = Inr w2"
    "reader_readHeader True (reader_init (sw_file w2)) = Inr (?h, r)" "reader_rest r xs"
    "list_all2 (stands_for lib_dec) xs ?rs"
    using write_ios_file [OF assms(2) d(3-5)] by blast
  have f: "f = sw_file w2" using d(6) w(1-3) by (simp add: mem_writeTo_def)
  obtain rest where rest: "file_header_readFrom f = Inr (?h, rest)" "reader_dontReadHeader True (reader_init rest) = Inr r"
    using readHeader_dontReadHeader [OF w(4)] f by blast
  let ?wd = "(wd_new this)\<lparr>wd_header := ?h, wd_isIndexed := False, wd_sReader := r\<rparr>"
  have ix: "file_header_isIndexed ?h = Inr False"
    by (simp add: file_header_isIndexed_def sealed_header_def file_header_updateChecksum_def Let_def)
  have set: "wd_setFile True True f (wd_new this) = Inr ?wd" using rest ix by (simp add: wd_setFile_def)
  have new: "\<not> wd_isIndexed ?wd" "\<not> wd_isEnd ?wd" "\<not> wd_isFilled ?wd" by (simp_all add: wd_new_def)
  obtain ts where ts: "\<forall>F. wd_src lib_dec F ?wd ts" "list_all2 (\<lambda>r s. rio_ok r \<and> io_view r = io_view s) ts ?rs"
    using sorted_src [OF _ w(6) new] w(5) by auto
  have "\<forall>F. wd_yields lib_dec F ?wd ts" using ts(1) new by (simp add: wd_yields_def)
  moreover have "stream_of V ts"
  proof -
    have "sorted_wrt before ?rs" using d(1) by (simp add: mem_ok_def rio.map_ok_def sorted_wrt_map before_def [abs_def])
    then show ?thesis using same_views_stream [OF ts(2)] small d(7) by (simp add: mem_view_def)
  qed
  ultimately show ?thesis using set sealed_header_ok(1) [OF d(4,5)] by (auto simp: file_header_ok_def)
qed

text \<open>For an indexed wdiff, \<open>G\<close> gives the images that belong to the offsets.\<close>

lemma indexed_wdiff_opens:
  assumes "indexed_wdiff lib_enc f V" and "codec_ok lib_enc lib_dec"
  shows "\<exists>wd ts G. wd_setFile True True f (wd_new this) = Inr wd
    \<and> (\<forall>F. (\<forall>off. F (this, off) = G off) \<longrightarrow> wd_yields lib_dec F wd ts) \<and> stream_of V ts
    \<and> length (fh_uuid (wd_header wd)) = 16"
proof -
  obtain h mx t l xs h0 v1 v2 v3 where d: "file_header_ok h" "fh_version h = WALB_DIFF_VERSION"
    "t < WALB_DIFF_CMPR_MAX" "\<forall>x \<in> set xs. plain_irec x" "total_blocks xs < 2 ^ 50"
    "iw_writeHeader h (iw_setFd [] mx) = Inr (h0, v1)" "iw_write_all lib_enc t l xs v1 = Inr v2"
    "iw_finalize v2 = Inr v3" "f = iw_file v3" "V = foldl (\<lambda>m x. m ++ piece_view (irec_io x)) Map.empty xs"
    "level_ok t l"
    using assms(1) by (auto simp: indexed_wdiff_def)
  obtain h' where hdr: "file_header_ok h'" "file_header_verify h' = Inr ()" "fh_type h' = WALB_DIFF_TYPE_INDEXED"
    and hold: "iw_holds lib_dec v2 (diff_file_header_bytes h') (total_blocks xs) V"
    using write_index [OF assms(2) d(3,11,1,2,4,5), of mx] d(6,7,10) by auto
  define rs where "rs = idx_getAsVec (iw_indexMem v2)"
  obtain w' rest where w': "iw_finalize v2 = Inr w'" "file_header_readFrom (iw_file w') = Inr (h', rest)"
    and rdy: "\<forall>r \<in> set rs. rec_ready lib_dec (iw_file w') r
         \<and> (\<forall>a \<in> idx.rng r. place_block lib_dec (iw_file w') (irec_block r a) = V a)"
    and set: "\<forall>rd. \<exists>rd'. ird_setFile True (iw_file w') rd = Inr rd' \<and> ird_rest (iw_file w') rd' rs \<and> ird_this rd' = ird_this rd"
    and ok: "\<forall>r \<in> set rs. irec_ok r" "idx.disjoint rs"
    and view: "idx_view (iw_indexMem v2) = idx.views rs" "dom (idx.views rs) = dom V"
    using indexed_file_ready [OF hold d(5) hdr] unfolding rs_def by blast
  have f: "f = iw_file w'" using d(8,9) w'(1) by simp
  obtain rd where rd: "ird_setFile True f (ird_new this) = Inr rd" "ird_rest f rd rs" "ird_this rd = this"
    using set [rule_format, of "ird_new this"] f by (auto simp: ird_new_def)
  let ?wd = "(wd_new this)\<lparr>wd_header := h', wd_isIndexed := True, wd_iReader := rd\<rparr>"
  have ix: "file_header_isIndexed h' = Inr True"
    using hdr(3) by (simp add: file_header_isIndexed_def WALB_DIFF_TYPE_INDEXED_def WALB_DIFF_TYPE_SORTED_def)
  have sf: "wd_setFile True True f (wd_new this) = Inr ?wd"
    using w'(2) f ix rd(1) by (simp add: wd_setFile_def wd_new_def)
  define G where "G = (\<lambda>off. reader_images lib_dec f this rs cache_new (this, off))"
  let ?ts = "map (irec_rio lib_dec f) rs"
  have "wd_yields lib_dec F ?wd ?ts" if F: "\<forall>off. F (this, off) = G off" for F
  proof -
    have "\<forall>r \<in> set rs. irec_isNormal r \<longrightarrow> F (ird_this (wd_iReader ?wd), ir_data_offset r) = rec_image lib_dec f r"
      using F rd(3) reader_images_rec [OF _ _ ok] iw_holdsD(9) [OF hold] view(1) by (simp add: G_def)
    moreover have "\<forall>r \<in> set rs. rec_ready lib_dec f r" using rdy f by simp
    ultimately have "wd_src lib_dec F ?wd ?ts" using rd(2) by (intro indexed_src) (simp_all add: wd_new_def)
    then show ?thesis by (simp add: wd_yields_def wd_new_def)
  qed
  moreover have "stream_of V ?ts"
  proof -
    have q: "rio_ok (irec_rio lib_dec f r) \<and> rio_addr (irec_rio lib_dec f r) = ir_io_address r
      \<and> rio_blocks (irec_rio lib_dec f r) = ir_io_blocks r
      \<and> io_view (irec_rio lib_dec f r) = V |` idx.rng r" if r: "r \<in> set rs" for r
    proof -
      have rr: "rec_ready lib_dec f r" using rdy r f by simp
      have "piece_view (irec_io (r, rec_data lib_dec f [] r)) a = (V |` idx.rng r) a" for a
      proof (cases "a \<in> idx.rng r")
        case True
        then show ?thesis using piece_of_place [OF rr True, of "[]"] rdy r f by simp
      next
        case False
        then show ?thesis using dom_piece_view [of "(r, rec_data lib_dec f [] r)"] by (metis domIff fst_conv restrict_out)
      qed
      then show ?thesis using irec_rio_ok [OF _ rr] ok(1) r by auto
    qed
    have "rio.views (map (irec_rio lib_dec f) qs) = V |` (\<Union>r \<in> set qs. idx.rng r)" if "set qs \<subseteq> set rs" for qs
      using that
    proof (induction qs)
      case (Cons r qs)
      then have "rio.item (irec_rio lib_dec f r) = V |` idx.rng r" using q by (simp add: io_view_def)
      then show ?case using Cons by (auto simp: map_add_def restrict_map_def fun_eq_iff split: option.splits)
    qed simp
    from this [of rs] have "rio.views ?ts = V |` dom V" using view(2) idx.dom_views by simp
    moreover have "V |` dom V = V" by (auto simp: restrict_map_def fun_eq_iff domIff)
    moreover have "sorted_wrt before ?ts"
    proof -
      have "sorted_wrt (\<lambda>x y. unat (ir_io_address x) + unat (ir_io_blocks x) \<le> unat (ir_io_address y)) rs"
        using iw_holdsD(8) [OF hold] by (simp add: rs_def idx_ok_def idx.map_ok_def idx_getAsVec_def sorted_wrt_map)
      then show ?thesis unfolding sorted_wrt_map
        by (rule sorted_wrt_mono_rel [rotated]) (use q in \<open>simp add: before_def\<close>)
    qed
    ultimately show ?thesis using q by (simp add: stream_of_def)
  qed
  ultimately show ?thesis using sf hdr(1) by (intro exI [of _ ?wd] exI [of _ ?ts] exI [of _ G]) (simp add: file_header_ok_def)
qed

lemma wdiff_file_opens:
  assumes "wdiff_file lib_enc f V" and "codec_ok lib_enc lib_dec"
  shows "\<exists>wd ts G. wd_setFile True True f (wd_new this) = Inr wd
    \<and> (\<forall>F. (\<forall>off. F (this, off) = G off) \<longrightarrow> wd_yields lib_dec F wd ts) \<and> stream_of V ts
    \<and> length (fh_uuid (wd_header wd)) = 16"
  using assms sorted_wdiff_opens indexed_wdiff_opens unfolding wdiff_file_def by metis

text \<open>All files of a merger; \<open>G\<close> gives the images of all of them.\<close>

lemma addWdiffs_ok:
  assumes "list_all2 (wdiff_file lib_enc) fs Vs" and "codec_ok lib_enc lib_dec"
    and "distinct tags" and "length tags = length fs"
  shows "\<exists>wds tss G. addWdiffs (zip tags fs) mg = Inr (mg\<lparr>mg_wdiffs := mg_wdiffs mg @ wds\<rparr>)
    \<and> (\<forall>F. (\<forall>tag \<in> set tags. \<forall>off. F (tag, off) = G (tag, off)) \<longrightarrow> list_all2 (wd_yields lib_dec F) wds tss)
    \<and> list_all2 stream_of Vs tss \<and> (\<forall>wd \<in> set wds. length (fh_uuid (wd_header wd)) = 16) \<and> length wds = length fs"
  using assms(1,3,4)
proof (induction fs arbitrary: Vs tags mg rule: list.induct)
  case Nil
  then show ?case by (intro exI [of _ "[]"]) simp
next
  case (Cons f fs)
  obtain V Vs' where V: "Vs = V # Vs'" "wdiff_file lib_enc f V" "list_all2 (wdiff_file lib_enc) fs Vs'"
    using Cons.prems(1) by (auto simp: list_all2_Cons1)
  obtain tag tags' where tg: "tags = tag # tags'" "tag \<notin> set tags'" "distinct tags'" "length tags' = length fs"
    using Cons.prems(2,3) by (cases tags) auto
  obtain wd ts g where wd: "wd_setFile True True f (wd_new tag) = Inr wd"
    "\<And>F. \<forall>off. F (tag, off) = g off \<Longrightarrow> wd_yields lib_dec F wd ts" "stream_of V ts" "length (fh_uuid (wd_header wd)) = 16"
    using wdiff_file_opens [OF V(2) assms(2)] by blast
  let ?mg = "mg\<lparr>mg_wdiffs := mg_wdiffs mg @ [wd]\<rparr>"
  obtain wds tss G where IH: "addWdiffs (zip tags' fs) ?mg = Inr (?mg\<lparr>mg_wdiffs := mg_wdiffs ?mg @ wds\<rparr>)"
    "\<And>F. \<forall>t \<in> set tags'. \<forall>off. F (t, off) = G (t, off) \<Longrightarrow> list_all2 (wd_yields lib_dec F) wds tss"
    "list_all2 stream_of Vs' tss" "\<forall>wd \<in> set wds. length (fh_uuid (wd_header wd)) = 16" "length wds = length fs"
    using Cons.IH [OF V(3) tg(3,4), of ?mg] by blast
  define H where "H = (\<lambda>(t, off). if t = tag then g off else G (t, off))"
  have "list_all2 (wd_yields lib_dec F) (wd # wds) (ts # tss)"
    if F: "\<forall>t \<in> set tags. \<forall>off. F (t, off) = H (t, off)" for F
  proof -
    have "\<forall>off. F (tag, off) = g off" using F tg(1) by (simp add: H_def)
    moreover have "\<forall>t \<in> set tags'. \<forall>off. F (t, off) = G (t, off)" using F tg(1,2) by (auto simp: H_def)
    ultimately show ?thesis using wd(2) IH(2) by simp
  qed
  moreover have "addWdiffs (zip tags (f # fs)) mg = Inr (mg\<lparr>mg_wdiffs := mg_wdiffs mg @ wd # wds\<rparr>)"
    using IH(1) tg(1) wd(1) by (simp add: addWdiff_def)
  ultimately show ?case using V(1) wd(3,4) IH(3-5)
    by (intro exI [of _ "wd # wds"] exI [of _ "ts # tss"] exI [of _ H]) auto
qed

section \<open>Merging files\<close>

lemma stream_of_ok:
  assumes "stream_of V t" and "dom V \<subseteq> {..< 2 ^ 61}"
  shows "stream_ok t"
proof -
  have "unat (rio_addr r) + unat (rio_blocks r) < 2 ^ 62" if r: "r \<in> set t" for r
  proof -
    have pos: "0 < unat (rio_blocks r)" using assms(1) r by (simp add: stream_of_def rio_ok_def)
    then have "unat (rio_addr r) + unat (rio_blocks r) - 1 \<in> rio.rng r" by (simp add: rio.rng_def)
    then have "unat (rio_addr r) + unat (rio_blocks r) - 1 \<in> dom V"
      using assms(1) r rio.dom_views [of t] by (auto simp: stream_of_def)
    then have "unat (rio_addr r) + unat (rio_blocks r) - 1 < 2 ^ 61" using assms(2) by blast
    then show ?thesis by simp
  qed
  then show ?thesis using assms(1) by (simp add: stream_of_def stream_ok_def)
qed

lemma stream_of_length:
  assumes "stream_of V t"
  shows "length t \<le> card (dom V)"
proof -
  have "length t \<le> card (dom (rio.views t)) \<and> finite (dom (rio.views t))"
    if "sorted_wrt before t" "\<forall>r \<in> set t. rio_ok r" using that
  proof (induction t)
    case (Cons r t)
    have "rio.rng r \<inter> rio.rng s = {}" if "s \<in> set t" for s using Cons.prems(1) before_disjoint that by simp
    then have "rio.rng r \<inter> dom (rio.views t) = {}" unfolding rio.dom_views by blast
    moreover have "0 < card (rio.rng r)" "finite (rio.rng r)" using Cons.prems(2) by (simp_all add: rio.rng_def rio_ok_def)
    ultimately show ?case using Cons by (auto simp: rio.dom_item card_Un_disjoint Int_commute)
  qed simp
  then show ?thesis using assms by (simp add: stream_of_def)
qed

lemma contents_streams: "list_all2 stream_of Vs tss \<Longrightarrow> contents m tss = foldl (++) m Vs"
  by (induction Vs tss arbitrary: m rule: list_all2_induct) (simp_all add: stream_of_def)

definition new_merger :: "u64 \<Rightarrow> u32 \<Rightarrow> u64 \<Rightarrow> diff_merger" where
  "new_merger searchLen mx cacheSize = setMaxCacheSize cacheSize (merger_setMaxIoBlocks mx (merger_new searchLen))"

text \<open>The wdiffs of a merge: fewer than 2 to the 64 blocks in all, below address 2 to the 61.\<close>

definition merge_inputs :: "encoder \<Rightarrow> nat list \<Rightarrow> u8 list list \<Rightarrow> (nat \<Rightarrow> diff_block option) list \<Rightarrow> bool" where
  "merge_inputs lib_enc tags fs Vs \<longleftrightarrow> fs \<noteq> [] \<and> list_all2 (wdiff_file lib_enc) fs Vs \<and> distinct tags
     \<and> length tags = length fs \<and> (\<forall>V \<in> set Vs. dom V \<subseteq> {..< 2 ^ 61}) \<and> sum_list (map (\<lambda>V. card (dom V)) Vs) < 2 ^ 64"

lemma sound_new: "unat cacheSize < 2 ^ 63 \<Longrightarrow> img.sound G (cache_setMaxSize cacheSize cache_new)"
  by (simp add: img.sound_def cache_bounded_def cache_ok_def cache_setMaxSize_def cache_new_def cache_view_def
      cache_contents_def fun_eq_iff map_le_def)

lemma files_prepared:
  assumes "merge_inputs lib_enc tags fs Vs" and "codec_ok lib_enc lib_dec"
    and "unat searchLen < 2 ^ 63" and "unat cacheSize < 2 ^ 63"
  shows "\<exists>mg mg1 G tss. addWdiffs (zip tags fs) (new_merger searchLen mx cacheSize) = Inr mg
    \<and> merger_prepare lib_dec mg = Some (Inr mg1) \<and> src.merge_state G lib_dec mg1 tss
    \<and> contents (mem_view (mg_diffMem mg1)) tss = foldl (++) Map.empty Vs
    \<and> mg_mergedQ mg1 = [] \<and> mem_maxIoBlocks (mg_diffMem mg1) = mx
    \<and> file_header_ok (mg_wdiffH mg1) \<and> fh_version (mg_wdiffH mg1) = WALB_DIFF_VERSION"
proof -
  note a = assms(1) [unfolded merge_inputs_def]
  let ?mg = "new_merger searchLen mx cacheSize"
  obtain wds tss G where w: "addWdiffs (zip tags fs) ?mg = Inr (?mg\<lparr>mg_wdiffs := mg_wdiffs ?mg @ wds\<rparr>)"
    "list_all2 (wd_yields lib_dec G) wds tss" "list_all2 stream_of Vs tss"
    "\<forall>wd \<in> set wds. length (fh_uuid (wd_header wd)) = 16" "length wds = length fs"
    using addWdiffs_ok [of lib_enc fs Vs lib_dec tags ?mg] a assms(2) by blast
  let ?m = "?mg\<lparr>mg_wdiffs := wds\<rparr>"
  have new: "mg_wdiffs ?mg = []" "mg_mergedQ ?mg = []" "\<not> mg_isHeaderPrepared ?mg" "\<not> mg_shouldValidateUuid ?mg"
    "mg_searchLen ?mg = searchLen" "mem_map (mg_diffMem ?mg) = []" "mem_maxIoBlocks (mg_diffMem ?mg) = mx"
    "mg_cache ?mg = cache_setMaxSize cacheSize cache_new"
    by (simp_all add: new_merger_def setMaxCacheSize_def merger_setMaxIoBlocks_def merger_new_def mem_new_def mem_setMaxIoBlocks_def)
  have ne: "wds \<noteq> []" using w(5) a by auto
  have ok: "\<forall>t \<in> set tss. stream_ok t"
  proof
    fix t assume "t \<in> set tss"
    then obtain i where i: "i < length tss" "t = tss ! i" by (auto simp: in_set_conv_nth)
    then have "stream_of (Vs ! i) t" "Vs ! i \<in> set Vs"
      using w(3) by (simp_all add: list_all2_conv_all_nth)
    then show "stream_ok t" using stream_of_ok a by blast
  qed
  have "length (concat tss) \<le> sum_list (map (\<lambda>V. card (dom V)) Vs)" using w(3)
    by (induction Vs tss rule: list_all2_induct) (auto simp: stream_of_length add_mono)
  then have len: "length (concat tss) < 2 ^ 64" using a by linarith
  have rd: "src.ready G ?m" using new sound_new [OF assms(4)]
    by (simp add: src.ready_def mem_good_def mem_ok_def rio.map_ok_def)
  obtain mg1 where p: "merger_prepare lib_dec ?m = Some (Inr mg1)"
    "src.merge_state G lib_dec mg1 (filter (\<lambda>t. t \<noteq> []) tss)" "mem_view (mg_diffMem mg1) = mem_view (mg_diffMem ?m)"
    "mg_mergedQ mg1 = []" "mem_maxIoBlocks (mg_diffMem mg1) = mem_maxIoBlocks (mg_diffMem ?m)"
    "mg_wdiffH mg1 = file_header_setUuid (fh_uuid (wd_header (last wds))) file_header_init"
    using src.prepare_ok [of lib_dec G ?m tss] w(2) ne ok rd new assms(3) len by auto
  have "length (fh_uuid (wd_header (last wds))) = 16" using w(4) ne by simp
  then have "file_header_ok (mg_wdiffH mg1)" "fh_version (mg_wdiffH mg1) = WALB_DIFF_VERSION"
    using p(6) file_header_init_ok by (simp_all add: file_header_setUuid_def file_header_ok_def)
  moreover have "contents (mem_view (mg_diffMem mg1)) (filter (\<lambda>t. t \<noteq> []) tss) = foldl (++) Map.empty Vs"
    using p(3) new(6) contents_streams [OF w(3)] by (simp add: contents_filter mem_view_def)
  ultimately show ?thesis using w(1) new(1,7) p by auto
qed

text \<open>The writing loop writes what reading to the end gives.\<close>

lemma write_loop_read_all:
  assumes "merger_read_all lib_dec mg = Some (Inr (rs, mg'))"
    and "mem_write_entries lib_enc WALB_DIFF_CMPR_SNAPPY rs w = Inr w'"
  shows "merge_write_loop lib_enc lib_dec w mg = Some (Inr (w', mg'))"
  using assms
proof (induction rs arbitrary: mg w)
  case Nil
  have "getAndRemove lib_dec mg = Some (Inr (None, mg'))"
    using Nil.prems(1) by (subst (asm) merger_read_all.simps) (auto simp: obind_def split: bind_splits sum.splits option.splits)
  then show ?case using Nil.prems(2) by (subst merge_write_loop.simps) simp
next
  case (Cons r rs)
  obtain mg1 where m: "getAndRemove lib_dec mg = Some (Inr (Some r, mg1))" "merger_read_all lib_dec mg1 = Some (Inr (rs, mg'))"
    using Cons.prems(1) by (subst (asm) merger_read_all.simps) (auto simp: obind_def split: bind_splits sum.splits option.splits)
  have ne: "WALB_DIFF_CMPR_SNAPPY \<noteq> WALB_DIFF_CMPR_NONE" by (simp add: WALB_DIFF_CMPR_SNAPPY_def WALB_DIFF_CMPR_NONE_def)
  then obtain w1 where w1: "rio_isValid r False"
    "writer_compressAndWriteDiff lib_enc (rio_rec r) (rio_io r) WALB_DIFF_CMPR_SNAPPY 0 w = Inr w1"
    "mem_write_entries lib_enc WALB_DIFF_CMPR_SNAPPY rs w1 = Inr w'"
    using Cons.prems(2) by (auto simp: res_bind_Inr_iff ensure_Inr_iff)
  show ?case using Cons.IH [OF m(2) w1(3)] m(1) w1(1,2) by (subst merge_write_loop.simps) simp
qed

text \<open>
  C3: Merging wdiff files, sorted or indexed, compressed or not: the merger hands out IOs in address
  order without overlaps, none larger than the limit, whose contents are those of the files with newer ones
  over older ones. It always reaches the end, no assertion of the merger and of the classes below it fails,
  and neither the search length nor the size of the cache matters for the result.
\<close>

theorem merger_overwrites:
  assumes "merge_inputs lib_enc tags fs Vs" and "codec_ok lib_enc lib_dec"
    and "unat searchLen < 2 ^ 63" and "unat cacheSize < 2 ^ 63"
  shows "\<exists>mg mg1 rs mg2. addWdiffs (zip tags fs) (new_merger searchLen mx cacheSize) = Inr mg
    \<and> merger_prepare lib_dec mg = Some (Inr mg1) \<and> merger_read_all lib_dec mg1 = Some (Inr (rs, mg2))
    \<and> sorted_wrt before rs \<and> (\<forall>r \<in> set rs. rio_ok r \<and> (mx = 0 \<or> rio_blocks r \<le> mx))
    \<and> rio.views rs = foldl (++) Map.empty Vs \<and> mg_wdiffs mg2 = []"
proof -
  obtain mg mg1 G tss where p: "addWdiffs (zip tags fs) (new_merger searchLen mx cacheSize) = Inr mg"
    "merger_prepare lib_dec mg = Some (Inr mg1)" "src.merge_state G lib_dec mg1 tss"
    "contents (mem_view (mg_diffMem mg1)) tss = foldl (++) Map.empty Vs" "mg_mergedQ mg1 = []"
    "mem_maxIoBlocks (mg_diffMem mg1) = mx"
    using files_prepared [OF assms, of mx] by blast
  show ?thesis using p(1,2) src.read_all_ok [OF p(3)] p(4-6) by (auto simp: fits_def)
qed

text \<open>The IOs of a merger are written to a file that holds them.\<close>

lemma ios_written:
  assumes "codec_ok lib_enc lib_dec" and "sorted_wrt before rs" and "\<forall>r \<in> set rs. rio_ok r \<and> rio_blocks r \<le> mx"
    and "512 * unat mx < 2 ^ 31" and "file_header_ok h" and "fh_version h = WALB_DIFF_VERSION"
  shows "\<exists>w w1 w2 dm. writer_writeHeader h (writer_setFd []) = Inr (sealed_header h, w)
    \<and> mem_write_entries lib_enc WALB_DIFF_CMPR_SNAPPY rs w = Inr w1 \<and> writer_close w1 = Inr w2
    \<and> wdiff_file lib_enc (sw_file w2) (rio.views rs)
    \<and> mem_readFrom lib_dec (sw_file w2) mem_new = Some (Inr dm) \<and> mem_view dm = rio.views rs"
proof -
  have sm: "\<forall>r \<in> set rs. rio_ok r \<and> 512 * unat (rio_blocks r) < 2147483648"
    using assms(3,4) by (fastforce simp: word_le_nat_alt)
  have t: "WALB_DIFF_CMPR_SNAPPY < WALB_DIFF_CMPR_MAX" by (simp add: WALB_DIFF_CMPR_SNAPPY_def WALB_DIFF_CMPR_MAX_def)
  obtain w xs w1 w2 rd where w: "writer_writeHeader h (writer_setFd []) = Inr (sealed_header h, w)"
    "mem_write_entries lib_enc WALB_DIFF_CMPR_SNAPPY rs w = Inr w1" "writer_close w1 = Inr w2"
    "reader_readHeader True (reader_init (sw_file w2)) = Inr (sealed_header h, rd)" "reader_rest rd xs"
    "list_all2 (stands_for lib_dec) xs rs"
    using write_ios_file [OF assms(1) t assms(5,6) sm] by blast
  have "wdiff_file lib_enc (sw_file w2) (rio.views rs)"
  proof -
    let ?dm = "mem_new\<lparr>mem_map := map (\<lambda>r. (rio_addr r, r)) rs, mem_fileH := h\<rparr>"
    have m: "map snd (mem_map ?dm) = rs" by (simp add: comp_def)
    have "mem_ok ?dm" using assms(2) sm by (auto simp: mem_ok_def rio.map_ok_def sorted_wrt_map before_def [abs_def])
    moreover have "mem_small ?dm" using sm by (auto simp: mem_small_def)
    moreover have "mem_writeTo lib_enc WALB_DIFF_CMPR_SNAPPY ?dm = Inr (sw_file w2, ?dm\<lparr>mem_fileH := sealed_header h\<rparr>)"
      using w(1-3) m by (simp add: mem_writeTo_def)
    moreover have "mem_view ?dm = rio.views rs" using m by (simp add: mem_view_def)
    ultimately have "sorted_wdiff lib_enc (sw_file w2) (rio.views rs)"
      using t assms(5,6) unfolding sorted_wdiff_def
      by (intro exI [of _ ?dm] exI [of _ WALB_DIFF_CMPR_SNAPPY] exI [of _ "?dm\<lparr>mem_fileH := sealed_header h\<rparr>"]) simp
    then show ?thesis by (simp add: wdiff_file_def)
  qed
  moreover obtain dm where "mem_readFrom lib_dec (sw_file w2) mem_new = Some (Inr dm)"
    "mem_view dm = foldl (\<lambda>m r. m ++ io_view r) Map.empty rs"
    using read_ios_file [OF w(4-6) mem_new_ok(1)] by (auto simp: mem_new_def)
  moreover have "foldl (\<lambda>m r. m ++ io_view r) Map.empty rs = rio.views rs"
  proof -
    have "rio.disjoint rs" using assms(2) sorted_wrt_mono_rel [of rs before] before_disjoint by (simp add: rio.disjoint_def)
    then show ?thesis by (simp add: foldl_disjoint_items)
  qed
  ultimately show ?thesis using w(1-3) by auto
qed

text \<open>
  C8: \<open>mergeToFd\<close> returns, and the file that it writes is again a wdiff with the contents of its inputs, newer
  ones over older ones: reading it into memory gives these contents, and it can be an input of another merge.
\<close>

theorem mergeToFd_contents:
  assumes "merge_inputs lib_enc tags fs Vs" and "codec_ok lib_enc lib_dec"
    and "unat searchLen < 2 ^ 63" and "unat cacheSize < 2 ^ 63" and "mx \<noteq> 0" and "512 * unat mx < 2 ^ 31"
  shows "\<exists>mg out mg' dm. addWdiffs (zip tags fs) (new_merger searchLen mx cacheSize) = Inr mg
    \<and> mergeToFd lib_enc lib_dec mg = Some (Inr (out, mg')) \<and> wdiff_file lib_enc out (foldl (++) Map.empty Vs)
    \<and> mem_readFrom lib_dec out mem_new = Some (Inr dm) \<and> mem_view dm = foldl (++) Map.empty Vs"
proof -
  obtain mg mg1 G tss where p: "addWdiffs (zip tags fs) (new_merger searchLen mx cacheSize) = Inr mg"
    "merger_prepare lib_dec mg = Some (Inr mg1)" "src.merge_state G lib_dec mg1 tss"
    "contents (mem_view (mg_diffMem mg1)) tss = foldl (++) Map.empty Vs" "mg_mergedQ mg1 = []"
    "mem_maxIoBlocks (mg_diffMem mg1) = mx" "file_header_ok (mg_wdiffH mg1)" "fh_version (mg_wdiffH mg1) = WALB_DIFF_VERSION"
    using files_prepared [OF assms(1-4), of mx] by blast
  let ?h = "sealed_header (mg_wdiffH mg1)" let ?mh = "mg1\<lparr>mg_wdiffH := ?h\<rparr>"
  have "src.merge_state G lib_dec ?mh tss" using p(3)
    by (simp add: src.merge_state_def src.merging_def src.ready_def)
  from src.read_all_ok [OF this] obtain rs mg2 where r: "merger_read_all lib_dec ?mh = Some (Inr (rs, mg2))"
    "sorted_wrt before rs" "\<forall>r \<in> set rs. rio_ok r \<and> rio_blocks r \<le> mx" "rio.views rs = foldl (++) Map.empty Vs"
    "mg_wdiffs mg2 = []" "mem_map (mg_diffMem mg2) = []"
    using p(4-6) assms(5) by (auto simp: fits_def)
  have le: "\<forall>r \<in> set rs. rio_ok r \<and> rio_blocks r \<le> mx" using r(3) by blast
  obtain w w1 w2 dm where w: "writer_writeHeader (mg_wdiffH mg1) (writer_setFd []) = Inr (?h, w)"
    "mem_write_entries lib_enc WALB_DIFF_CMPR_SNAPPY rs w = Inr w1" "writer_close w1 = Inr w2"
    "wdiff_file lib_enc (sw_file w2) (rio.views rs)"
    "mem_readFrom lib_dec (sw_file w2) mem_new = Some (Inr dm)" "mem_view dm = rio.views rs"
    using ios_written [OF assms(2) r(2) le assms(6) p(7,8)] by blast
  have out: "mergeToFd lib_enc lib_dec mg
      = Some (Inr (sw_file w2, mg2\<lparr>mg_statOut := stat_update_stat (sw_stat w2) (mg_statOut mg2)\<rparr>))"
    using p(2) w(1,3) write_loop_read_all [OF r(1) w(2)] r(5,6) by (simp add: mergeToFd_def)
  show ?thesis using p(1) out w(4-6) r(4) by auto
qed

text \<open>A sorted file of a diff in memory and an indexed file, with overlapping contents.\<close>

definition sample_irecs :: "(walb_indexed_diff_record \<times> u8 list) list" where
  "sample_irecs = [(plain_sample 10 4 0, replicate 2048 0), (plain_sample 11 2 2, []), (plain_sample 13 1 0, replicate 512 7)]"

definition sample_sorted_file :: "u8 list" where
  "sample_sorted_file = (case mem_writeTo sample_enc WALB_DIFF_CMPR_SNAPPY sample_mem_zeros of
     Inr (f, dm) \<Rightarrow> f | Inl e \<Rightarrow> [])"

definition sample_indexed_file :: "u8 list" where
  "sample_indexed_file = (case iw_writeHeader file_header_init (iw_setFd [] 2) of Inl e \<Rightarrow> [] | Inr (h, w1) \<Rightarrow>
     case iw_write_all sample_enc WALB_DIFF_CMPR_SNAPPY 0 sample_irecs w1 of Inl e \<Rightarrow> [] | Inr w2 \<Rightarrow>
     case iw_finalize w2 of Inl e \<Rightarrow> [] | Inr w3 \<Rightarrow> iw_file w3)"

definition sample_contents :: "(nat \<Rightarrow> diff_block option) list" where
  "sample_contents = [mem_view sample_mem_zeros, foldl (\<lambda>m x. m ++ piece_view (irec_io x)) Map.empty sample_irecs]"

lemma sample_snappy: "WALB_DIFF_CMPR_SNAPPY < WALB_DIFF_CMPR_MAX"
  by (simp add: WALB_DIFF_CMPR_SNAPPY_def WALB_DIFF_CMPR_MAX_def)

lemma sample_sorted_wdiff: "wdiff_file sample_enc sample_sorted_file (mem_view sample_mem_zeros)"
proof -
  have ok: "mem_ok sample_mem_zeros" "mem_small sample_mem_zeros" "file_header_ok (mem_fileH sample_mem_zeros)"
    "fh_version (mem_fileH sample_mem_zeros) = WALB_DIFF_VERSION"
    using file_header_init_ok
    by (simp_all add: sample_mem_zeros_def mem_ok_def mem_small_def rio.map_ok_def sample_io_simps mem_new_def)
  have "\<forall>r \<in> set (map snd (mem_map sample_mem_zeros)). rio_ok r \<and> 512 * unat (rio_blocks r) < 2147483648"
    using ok(1,2) by (auto simp: mem_ok_def mem_small_def rio.map_ok_def)
  from write_ios_file [OF sample_codec_ok sample_snappy ok(3,4) this] obtain w w1 w2 where
    "writer_writeHeader (mem_fileH sample_mem_zeros) (writer_setFd []) = Inr (sealed_header (mem_fileH sample_mem_zeros), w)"
    "mem_write_entries sample_enc WALB_DIFF_CMPR_SNAPPY (map snd (mem_map sample_mem_zeros)) w = Inr w1"
    "writer_close w1 = Inr w2" by blast
  then obtain f dm where "mem_writeTo sample_enc WALB_DIFF_CMPR_SNAPPY sample_mem_zeros = Inr (f, dm)"
    by (simp add: mem_writeTo_def)
  then show ?thesis using ok sample_snappy
    by (auto simp: wdiff_file_def sorted_wdiff_def sample_sorted_file_def)
qed

lemma sample_indexed_wdiff:
  "wdiff_file sample_enc sample_indexed_file (foldl (\<lambda>m x. m ++ piece_view (irec_io x)) Map.empty sample_irecs)"
proof -
  have ok: "\<forall>x \<in> set sample_irecs. plain_irec x" "total_blocks sample_irecs < 2 ^ 50"
    by (simp_all add: sample_irecs_def plain_irec_def irec_arg_ok_def
      irec_flags_ok_def irec_isNormal_def irec_isAllZero_def irec_isDiscard_def irec_isCompressed_def plain_sample_def
      total_blocks_def WALB_DIFF_FLAG_ALLZERO_def WALB_DIFF_FLAG_DISCARD_def WALB_DIFF_CMPR_NONE_def WALB_DIFF_CMPR_MAX_def)
  obtain h w1 w2 w3 where w: "iw_writeHeader file_header_init (iw_setFd [] 2) = Inr (h, w1)"
    "iw_write_all sample_enc WALB_DIFF_CMPR_SNAPPY 0 sample_irecs w1 = Inr w2" "iw_finalize w2 = Inr w3"
    using write_index [OF sample_codec_ok sample_snappy level_ok_0 file_header_init_ok ok, of 2]
      indexed_file_ready [OF _ ok(2), of sample_dec] by blast
  then have "sample_indexed_file = iw_file w3" by (simp add: sample_indexed_file_def)
  then show ?thesis
    unfolding wdiff_file_def indexed_wdiff_def using w ok file_header_init_ok sample_snappy level_ok_0 by blast
qed

lemma sample_dom: "V \<in> set sample_contents \<Longrightarrow> dom V \<subseteq> {..< 20}"
proof -
  have "dom (mem_view sample_mem_zeros) = {7 ..< 10} \<union> {10 ..< 14}"
    unfolding mem_view_def rio.dom_views by (simp add: sample_mem_zeros_def rio.rng_def sample_io_simps atLeastLessThan_def)
  moreover have "dom (foldl (\<lambda>m x. m ++ piece_view (irec_io x)) Map.empty sample_irecs) = {13 ..< 14} \<union> {11 ..< 13} \<union> {10 ..< 14}"
    by (simp add: sample_irecs_def dom_piece_view idx.rng_def plain_sample_def Un_assoc)
  ultimately have "dom (mem_view sample_mem_zeros) \<subseteq> {..< 20}"
    "dom (foldl (\<lambda>m x. m ++ piece_view (irec_io x)) Map.empty sample_irecs) \<subseteq> {..< 20}"
    by (auto simp del: domIff)
  then show "dom V \<subseteq> {..< 20}" if "V \<in> set sample_contents"
    using that unfolding sample_contents_def by (simp only: list.set insert_iff empty_iff) blast
qed

lemma sample_inputs: "merge_inputs sample_enc [1, 2] [sample_sorted_file, sample_indexed_file] sample_contents"
proof -
  have bd: "card (dom V) \<le> 20 \<and> dom V \<subseteq> {..< 2 ^ 61}" if "V \<in> set sample_contents" for V
  proof -
    have "dom V \<subseteq> {..< 20}" using sample_dom [OF that] .
    moreover from this have "card (dom V) \<le> 20" using card_mono [of "{..< 20 :: nat}"] by simp
    moreover have "dom V \<subseteq> {..< 2 ^ 61}" by (rule order_trans [OF sample_dom [OF that]]) simp
    ultimately show ?thesis by simp
  qed
  obtain A B where AB: "sample_contents = [A, B]" "wdiff_file sample_enc sample_sorted_file A"
    "wdiff_file sample_enc sample_indexed_file B"
    using sample_sorted_wdiff sample_indexed_wdiff by (simp add: sample_contents_def)
  have "card (dom A) \<le> 20 \<and> dom A \<subseteq> {..< 2 ^ 61}" "card (dom B) \<le> 20 \<and> dom B \<subseteq> {..< 2 ^ 61}"
    by (rule bd, simp add: AB(1))+
  then show ?thesis unfolding merge_inputs_def AB(1) using AB(2,3) by simp
qed

theorem merger_overwrites_witness:
  "\<exists>mg mg1 rs mg2. addWdiffs (zip [1, 2] [sample_sorted_file, sample_indexed_file]) (new_merger 4 2 100) = Inr mg
    \<and> merger_prepare sample_dec mg = Some (Inr mg1) \<and> merger_read_all sample_dec mg1 = Some (Inr (rs, mg2))
    \<and> sorted_wrt before rs \<and> list_all (\<lambda>r. rio_ok r \<and> rio_blocks r \<le> 2) rs
    \<and> rio.views rs = foldl (++) Map.empty sample_contents \<and> mg_wdiffs mg2 = []"
  using merger_overwrites [OF sample_inputs sample_codec_ok, of 4 100 2] by (simp add: list_all_iff)

theorem mergeToFd_contents_witness:
  "\<exists>mg out mg' dm. addWdiffs (zip [1, 2] [sample_sorted_file, sample_indexed_file]) (new_merger 4 2 100) = Inr mg
    \<and> mergeToFd sample_enc sample_dec mg = Some (Inr (out, mg'))
    \<and> wdiff_file sample_enc out (foldl (++) Map.empty sample_contents)
    \<and> mem_readFrom sample_dec out mem_new = Some (Inr dm) \<and> mem_view dm = foldl (++) Map.empty sample_contents"
  by (rule mergeToFd_contents [OF sample_inputs sample_codec_ok]) simp_all

end
