(* ===== verification/Diff_Virt_Laws.thy ===== *)
theory Diff_Virt_Laws
  imports Diff_Virt Merge_Files
begin

text \<open>
  The virtual full scanner gives the base image overwritten by the wdiffs: every block that a wdiff
  holds comes from the newest one, discarded and all-zero blocks read as zeros, and the others come
  from the base image. Scanning ends for every buffer size, every way in which the system cuts the
  transfers, and for seekable and non-seekable base images.
\<close>

section \<open>The image\<close>

definition out_block :: "u8 list \<Rightarrow> (nat \<Rightarrow> diff_block option) \<Rightarrow> nat \<Rightarrow> u8 list" where
  "out_block base V i =
     (case V i of
        None \<Rightarrow> take 512 (drop (512 * i) base)
      | Some (Data_Block d) \<Rightarrow> d
      | Some _ \<Rightarrow> replicate 512 0)"

definition disk_image :: "u8 list \<Rightarrow> (nat \<Rightarrow> diff_block option) \<Rightarrow> nat \<Rightarrow> nat \<Rightarrow> u8 list" where
  "disk_image base V a n = concat (map (out_block base V) [a ..< a + n])"

lemma disk_image_0 [simp]: "disk_image base V a 0 = []"
  by (simp add: disk_image_def)

lemma disk_image_append: "disk_image base V a m @ disk_image base V (a + m) n = disk_image base V a (m + n)"
proof -
  have "[a ..< a + (m + n)] = [a ..< a + m] @ [a + m ..< a + m + n]"
    using upt_add_eq_append [of a "a + m" n] by (simp add: add.assoc)
  then show ?thesis by (simp add: disk_image_def)
qed

text \<open>Blocks cut out of one buffer.\<close>

lemma slices_concat:
  "512 * (b + n) \<le> length xs \<Longrightarrow>
     concat (map (\<lambda>i. take 512 (drop (512 * (i - c)) xs)) [c + b ..< c + b + n]) = take (512 * n) (drop (512 * b) xs)"
proof (induction n)
  case (Suc n)
  have "take (512 * n) (drop (512 * b) xs) @ take 512 (drop (512 * (b + n)) xs) = take (512 * n + 512) (drop (512 * b) xs)"
    using take_add [of "512 * n" 512 "drop (512 * b) xs"] by (simp add: distrib_left add.commute)
  then show ?case using Suc by (simp add: add.commute)
qed simp

lemma disk_image_base:
  assumes "\<forall>i \<in> {a ..< a + n}. V i = None" and "512 * (a + n) \<le> length base"
  shows "disk_image base V a n = take (512 * n) (drop (512 * a) base)"
proof -
  have m: "map (out_block base V) [a ..< a + n] = map (\<lambda>i. take 512 (drop (512 * (i - 0)) base)) [0 + a ..< 0 + a + n]"
    using assms(1) by (simp add: out_block_def)
  show ?thesis unfolding disk_image_def m using assms(2) by (subst slices_concat) simp_all
qed

lemma disk_image_rio:
  assumes "rio_ok r" and "\<forall>i \<in> {a ..< a + n}. V i = rio.item r i" and "a = unat (rio_addr r) + b" and "b + n \<le> unat (rio_blocks r)"
  shows "disk_image base V a n = (if rec_isNormal (rio_rec r) then take (512 * n) (drop (512 * b) (rio_io r)) else replicate (512 * n) 0)"
proof -
  have V: "V i = Some (rio_block r i)" if "i \<in> {a ..< a + n}" for i
  proof -
    have "i \<in> rio.rng r" using that assms(3,4) by (auto simp: rio.rng_def)
    then show ?thesis using assms(2) that by (simp add: rio.item_def)
  qed
  show ?thesis
  proof (cases "rec_isNormal (rio_rec r)")
    case True
    have m: "map (out_block base V) [a ..< a + n] = map (\<lambda>i. take 512 (drop (512 * (i - unat (rio_addr r))) (rio_io r))) [a ..< a + n]"
      using V True by (simp add: out_block_def rio_block_def)
    have "512 * (b + n) \<le> length (rio_io r)" using True assms(1,4) by (simp add: rio_ok_def)
    then show ?thesis unfolding disk_image_def m using True
      by (simp only: assms(3) slices_concat if_True)
  next
    case False
    have "map (out_block base V) [a ..< a + n] = map (\<lambda>i. replicate 512 0) [a ..< a + n]"
      using V False by (simp add: out_block_def rio_block_def)
    then have "disk_image base V a n = concat (map (\<lambda>i. replicate 512 0) [a ..< a + n])" by (simp only: disk_image_def)
    also have "\<dots> = replicate (512 * n) 0" by (induction n) (simp_all flip: replicate_add)
    finally show ?thesis using False by simp
  qed
qed

section \<open>Reading the base image\<close>

lemma base_loop_works:
  assumes "io_works os"
  shows "base_loop os n f = Inr (take n (drop (fl_pos f) (fl_bytes f)),
    f\<lparr>fl_pos := fl_pos f + length (take n (drop (fl_pos f) (fl_bytes f)))\<rparr>)"
proof (induction n arbitrary: f rule: less_induct)
  case (less n)
  show ?case
  proof (cases "n = 0")
    case False
    then obtain k where k: "0 < k" "k \<le> n" "fd_readsome os n f = Inr (take k (drop (fl_pos f) (fl_bytes f)),
        f\<lparr>fl_pos := fl_pos f + length (take k (drop (fl_pos f) (fl_bytes f)))\<rparr>)"
      using fd_readsome_works [OF assms] by blast
    define d where "d = take k (drop (fl_pos f) (fl_bytes f))"
    show ?thesis
    proof (cases "d = []")
      case True
      then have "length (fl_bytes f) \<le> fl_pos f" using k(1) by (simp add: d_def)
      then show ?thesis using k(3) False by (subst base_loop.simps) simp
    next
      case ne: False
      let ?f = "f\<lparr>fl_pos := fl_pos f + length d\<rparr>"
      have l: "length d \<le> n" "0 < length d" using ne k(2) by (auto simp: d_def)
      have IH: "base_loop os (n - length d) ?f = Inr (take (n - length d) (drop (fl_pos ?f) (fl_bytes ?f)),
          ?f\<lparr>fl_pos := fl_pos ?f + length (take (n - length d) (drop (fl_pos ?f) (fl_bytes ?f)))\<rparr>)"
        using less [of "n - length d" ?f] False l(2) by simp
      have d: "d = take (length d) (drop (fl_pos f) (fl_bytes f))" by (simp add: d_def min_def)
      have ap: "d @ take (n - length d) (drop (fl_pos f + length d) (fl_bytes f)) = take n (drop (fl_pos f) (fl_bytes f))"
        using take_drop_more [of "length d" n "fl_pos f" "fl_bytes f"] d l(1) by simp
      then have "length d + length (take (n - length d) (drop (fl_pos f + length d) (fl_bytes f)))
          = length (take n (drop (fl_pos f) (fl_bytes f)))" by (metis length_append)
      then show ?thesis using False ne k IH ap
        by (subst base_loop.simps) (simp add: d_def [symmetric] add.assoc del: length_take length_drop)
    qed
  qed (simp add: base_loop.simps)
qed

section \<open>The state of a scan\<close>

definition no_more :: "virt_scanner \<Rightarrow> bool" where
  "no_more sc \<longleftrightarrow> vs_emptyWdiff sc \<or> vs_isEndDiff sc"

text \<open>The current IO, unless it is used up.\<close>

definition lead :: "virt_scanner \<Rightarrow> DiffRecIo list" where
  "lead sc = (if vs_offInIo sc < rio_blocks (vs_recIo sc) then [vs_recIo sc] else [])"

text \<open>The IOs that the merger still gives are \<open>rs\<close>.\<close>

definition diffs_left :: "(nat \<Rightarrow> diff_block option) \<Rightarrow> virt_scanner \<Rightarrow> DiffRecIo list \<Rightarrow> bool" where
  "diffs_left V sc rs \<longleftrightarrow> vs_offInIo sc \<le> rio_blocks (vs_recIo sc)
     \<and> sorted_wrt before (lead sc @ rs) \<and> (\<forall>r \<in> set (lead sc @ rs). rio_ok r \<and> unat (rio_blocks r) \<le> 2048)
     \<and> (\<forall>i \<ge> unat (vs_addr sc). V i = rio.views (lead sc @ rs) i)
     \<and> (if lead sc = [] then \<forall>r \<in> set rs. unat (vs_addr sc) \<le> unat (rio_addr r)
        else unat (vs_addr sc) = unat (rio_addr (vs_recIo sc)) + unat (vs_offInIo sc)
           \<or> vs_offInIo sc = 0 \<and> unat (vs_addr sc) \<le> unat (rio_addr (vs_recIo sc)))"

definition positioned :: "u8 list \<Rightarrow> nat \<Rightarrow> virt_scanner \<Rightarrow> bool" where
  "positioned base N sc \<longleftrightarrow> fl_bytes (vs_reader sc) = base \<and> fl_pos (vs_reader sc) = 512 * unat (vs_addr sc)
     \<and> unat (vs_addr sc) \<le> N \<and> vs_isInputFdSeekable sc = fl_seekable (vs_reader sc)"

definition scanning ::
  "decoder \<Rightarrow> u8 list \<Rightarrow> (nat \<Rightarrow> diff_block option) \<Rightarrow> nat \<Rightarrow> virt_scanner \<Rightarrow> bool"
where
  "scanning lib_dec base V N sc \<longleftrightarrow> length base = 512 * N \<and> N < 2 ^ 52 \<and> dom V \<subseteq> {..< N} \<and> positioned base N sc
     \<and> (if no_more sc then \<forall>i \<ge> unat (vs_addr sc). V i = None
        else \<exists>rs mg. merger_read_all lib_dec (vs_merger sc) = Some (Inr (rs, mg)) \<and> diffs_left V sc rs)"

lemma virt_update_rec_ok: "\<exists>st'. stat_update_rec r st = Inr st'"
  by (simp add: stat_update_rec_def updateDetail_def rec_isNormal_def)

lemma read_all_step:
  assumes "merger_read_all lib_dec mg = Some (Inr (rs, mg'))"
  shows "case rs of [] \<Rightarrow> getAndRemove lib_dec mg = Some (Inr (None, mg'))
    | r # rs' \<Rightarrow> \<exists>mg1. getAndRemove lib_dec mg = Some (Inr (Some r, mg1)) \<and> merger_read_all lib_dec mg1 = Some (Inr (rs', mg'))"
  using assms
  by (subst (asm) merger_read_all.simps) (auto simp: obind_def split: bind_splits sum.splits option.splits list.splits)

lemma fill_ok:
  assumes "scanning lib_dec base V N sc"
  shows "\<exists>sc'. fillDiffIo lib_dec sc = Some (Inr sc') \<and> scanning lib_dec base V N sc' \<and> vs_addr sc' = vs_addr sc
    \<and> (no_more sc' \<or> vs_offInIo sc' < rio_blocks (vs_recIo sc'))"
proof -
  consider "no_more sc" | "\<not> no_more sc" "vs_offInIo sc < rio_blocks (vs_recIo sc)"
    | "\<not> no_more sc" "vs_offInIo sc = rio_blocks (vs_recIo sc)"
    using assms by (force simp: scanning_def diffs_left_def)
  then show ?thesis
  proof cases
    case 3
    obtain rs mg where m: "merger_read_all lib_dec (vs_merger sc) = Some (Inr (rs, mg))" "diffs_left V sc rs"
      using assms 3(1) by (auto simp: scanning_def)
    have l: "lead sc = []" using 3(2) by (simp add: lead_def)
    note st = virt_update_rec_ok
    show ?thesis
    proof (cases rs)
      case Nil
      let ?sc = "sc\<lparr>vs_offInIo := 0, vs_merger := mg, vs_isEndDiff := True, vs_recIo := DiffRecIo_init,
        vs_statOut := (vs_statOut sc)\<lparr>wdiffNr := - 1, dataSize := - 1\<rparr>\<rparr>"
      obtain t where t: "stat_update_rec (rio_rec (vs_recIo ?sc)) (vs_statOut ?sc) = Inr t" using st by blast
      have "getAndRemove lib_dec (vs_merger sc) = Some (Inr (None, mg))" using read_all_step [OF m(1)] Nil by simp
      then have "fillDiffIo lib_dec sc = Some (Inr (?sc\<lparr>vs_statOut := t\<rparr>))"
        using 3 t by (simp add: fillDiffIo_def no_more_def rio_blocks_def Let_def)
      moreover have "\<forall>i \<ge> unat (vs_addr sc). V i = None" using m(2) Nil l by (simp add: diffs_left_def)
      then have "scanning lib_dec base V N (?sc\<lparr>vs_statOut := t\<rparr>)" "no_more (?sc\<lparr>vs_statOut := t\<rparr>)"
        using assms by (simp_all add: scanning_def positioned_def no_more_def)
      ultimately show ?thesis by auto
    next
      case (Cons r rs')
      obtain mg1 where g: "getAndRemove lib_dec (vs_merger sc) = Some (Inr (Some r, mg1))"
        "merger_read_all lib_dec mg1 = Some (Inr (rs', mg))" using read_all_step [OF m(1)] Cons by auto
      let ?sc = "sc\<lparr>vs_offInIo := 0, vs_merger := mg1, vs_recIo := r\<rparr>"
      obtain t where t: "stat_update_rec (rio_rec (vs_recIo ?sc)) (vs_statOut ?sc) = Inr t" using st by blast
      let ?sc' = "?sc\<lparr>vs_statOut := t\<rparr>"
      have "fillDiffIo lib_dec sc = Some (Inr ?sc')"
        using 3 t g by (simp add: fillDiffIo_def no_more_def rio_blocks_def Let_def)
      moreover have "rio_ok r" using m(2) Cons by (simp add: diffs_left_def)
      then have pos: "0 < rio_blocks r" by (simp add: rio_ok_def word_less_nat_alt)
      have "diffs_left V ?sc' rs'" using m(2) Cons l pos by (simp add: diffs_left_def lead_def)
      then have "scanning lib_dec base V N ?sc'" using assms 3(1) g(2)
        by (simp add: scanning_def positioned_def no_more_def)
      ultimately show ?thesis using pos by auto
    qed
  qed (use assms in \<open>auto simp: fillDiffIo_def no_more_def rio_blocks_def\<close>)
qed

section \<open>One call of \<open>readSome\<close>\<close>

lemma lbs_words: "unat (ucast LOGICAL_BLOCK_SIZE :: u64) = 512" "unat LOGICAL_BLOCK_SIZE = 512"
  by (simp_all add: LOGICAL_BLOCK_SIZE_def)

lemma unat_blocks:
  fixes n :: u64
  shows "unat n < 2 ^ 52 \<Longrightarrow> unat (n * ucast LOGICAL_BLOCK_SIZE) = 512 * unat n"
  by (simp add: unat_mult_small lbs_words)

definition moved_to :: "u64 \<Rightarrow> virt_scanner \<Rightarrow> virt_scanner" where
  "moved_to a sc = sc\<lparr>vs_reader := (vs_reader sc)\<lparr>fl_pos := 512 * unat a\<rparr>, vs_addr := a\<rparr>"

lemma positioned_moved_to:
  "positioned base N sc \<Longrightarrow> unat a \<le> N \<Longrightarrow> positioned base N (moved_to a sc)"
  by (simp add: positioned_def moved_to_def)

lemma unat_advance: "N < 2 ^ 52 \<Longrightarrow> unat (a :: u64) + n \<le> N \<Longrightarrow> unat (a + of_nat n) = unat a + n"
  by (simp add: unat_add_small unat_of_nat)

lemma readBase_ok:
  assumes "io_works os" and "positioned base N sc" and "length base = 512 * N" and "N < 2 ^ 52" and "unat blks < 2 ^ 32"
  defines "n \<equiv> min (unat blks) (N - unat (vs_addr sc))"
  shows "readBase os blks sc = Inr (take (512 * n) (drop (512 * unat (vs_addr sc)) base), moved_to (vs_addr sc + of_nat n) sc)"
proof -
  let ?f = "vs_reader sc" and ?a = "vs_addr sc"
  have p: "fl_bytes ?f = base" "fl_pos ?f = 512 * unat ?a" "unat ?a \<le> N" using assms(2) by (simp_all add: positioned_def)
  have s: "unat (blks * ucast LOGICAL_BLOCK_SIZE) = 512 * unat blks" using assms(5) by (simp add: unat_blocks)
  have d: "take (512 * unat blks) (drop (512 * unat ?a) base) = take (512 * n) (drop (512 * unat ?a) base)"
    using assms(3) p(3) by (cases "unat blks \<le> N - unat ?a") (simp_all add: n_def min_def)
  have l: "length (take (512 * n) (drop (512 * unat ?a) base)) = 512 * n"
    using assms(3) p(3) by (simp add: n_def)
  have n: "n \<le> unat blks" "unat ?a + n \<le> N" using p(3) by (simp_all add: n_def)
  define rest where "rest = blks * ucast LOGICAL_BLOCK_SIZE - of_nat (512 * n)"
  have on: "unat (of_nat (512 * n) :: u64) = 512 * n" using n(1) assms(5) by (simp add: unat_of_nat del: of_nat_mult)
  have "of_nat (512 * n) \<le> blks * ucast LOGICAL_BLOCK_SIZE" unfolding word_le_nat_alt s on using n(1) by simp
  then have r: "unat rest = 512 * (unat blks - n)" unfolding rest_def by (simp only: unat_sub_le s on diff_mult_distrib2)
  have r0: "rest mod ucast LOGICAL_BLOCK_SIZE = 0" by (simp add: unat_eq_iff_nat unat_mod r lbs_words)
  have "unat (rest div ucast LOGICAL_BLOCK_SIZE) = unat blks - n" by (simp add: unat_div r lbs_words)
  then have u: "unat (blks - rest div ucast LOGICAL_BLOCK_SIZE) = n" using n(1) by (subst unat_sub_le) (simp_all add: word_le_nat_alt)
  have rb: "blks - rest div ucast LOGICAL_BLOCK_SIZE = of_nat n" unfolding u [symmetric] by simp
  have nb: "unat (of_nat n * ucast LOGICAL_BLOCK_SIZE :: u64) = 512 * n"
    using n assms(4) by (subst unat_blocks) (simp_all add: unat_of_nat)
  have a: "unat (?a + of_nat n) = unat ?a + n" using unat_advance [OF assms(4) n(2)] .
  show ?thesis
    unfolding readBase_def base_loop_works [OF assms(1)] s p d
    by (simp only: res_bind.simps prod.case l Let_def rest_def [symmetric] r0 rb nb) (simp add: moved_to_def a p distrib_left)
qed

lemma skip_blocks_ok:
  assumes "io_works os" and "fl_pos f + 512 * k \<le> length (fl_bytes f)"
  shows "skip_blocks os k f = Inr (f\<lparr>fl_pos := fl_pos f + 512 * k\<rparr>)"
  using assms(2)
proof (induction k arbitrary: f)
  case (Suc k)
  then show ?case by (simp add: fd_read_works [OF assms(1)] lbs_words)
qed simp

lemma skipBase_ok:
  assumes "io_works os" and "positioned base N sc" and "length base = 512 * N" and "N < 2 ^ 52" and "unat (vs_addr sc) + n \<le> N"
  shows "skipBase os (of_nat n) sc
    = Inr (sc\<lparr>vs_reader := (vs_reader sc)\<lparr>fl_pos := 512 * (unat (vs_addr sc) + n)\<rparr>\<rparr>)"
proof -
  have p: "fl_bytes (vs_reader sc) = base" "fl_pos (vs_reader sc) = 512 * unat (vs_addr sc)"
    "vs_isInputFdSeekable sc = fl_seekable (vs_reader sc)" using assms(2) by (simp_all add: positioned_def)
  have u: "unat (of_nat n :: u64) = n" using assms(4,5) by (simp add: unat_of_nat)
  have b: "unat (of_nat n * ucast LOGICAL_BLOCK_SIZE :: u64) = 512 * n" using u assms(4,5) by (subst unat_blocks) simp_all
  then have si: "sint (of_nat n * ucast LOGICAL_BLOCK_SIZE :: u64) = int (512 * n)"
    using assms(4,5) unfolding sint_uint uint_nat b by (subst signed_take_bit_int_eq_self) simp_all
  show ?thesis using p assms(3,5) skip_blocks_ok [OF assms(1), of "vs_reader sc" n] u
    by (simp only: skipBase_def si) (simp add: fd_lseek_cur distrib_left del: of_nat_mult)
qed

lemma views_lead:
  assumes "sorted_wrt before (r # rs)"
  shows "i \<in> rio.rng r \<Longrightarrow> rio.views (r # rs) i = rio.item r i"
    and "unat (rio_addr r) + unat (rio_blocks r) \<le> i \<Longrightarrow> rio.views (r # rs) i = rio.views rs i"
    and "i < unat (rio_addr r) \<Longrightarrow> rio.views (r # rs) i = None"
proof -
  show "i \<in> rio.rng r \<Longrightarrow> rio.views (r # rs) i = rio.item r i" by (simp add: rio.item_def)
  show "unat (rio_addr r) + unat (rio_blocks r) \<le> i \<Longrightarrow> rio.views (r # rs) i = rio.views rs i"
    by (simp add: rio.item_def rio.rng_def map_add_def)
  assume i: "i < unat (rio_addr r)"
  have "i \<notin> rio.rng s" if "s \<in> set (r # rs)" for s
  proof -
    have "unat (rio_addr r) \<le> unat (rio_addr s)" using assms that by (auto simp: before_def)
    then show ?thesis using i by (simp add: rio.rng_def)
  qed
  then have "i \<notin> dom (rio.views (r # rs))" unfolding rio.dom_views by blast
  then show "rio.views (r # rs) i = None" by blast
qed

text \<open>Reading \<open>n\<close> blocks that no wdiff holds.\<close>

lemma base_step:
  assumes "scanning lib_dec base V N sc" and "unat (vs_addr sc) + n \<le> N"
    and "no_more sc \<or> vs_offInIo sc < rio_blocks (vs_recIo sc) \<and> vs_offInIo sc = 0
      \<and> unat (vs_addr sc) + n \<le> unat (rio_addr (vs_recIo sc))"
  shows "scanning lib_dec base V N (moved_to (vs_addr sc + of_nat n) sc)"
    and "take (512 * n) (drop (512 * unat (vs_addr sc)) base) = disk_image base V (unat (vs_addr sc)) n"
proof -
  let ?a = "vs_addr sc" and ?r = "vs_recIo sc"
  have sc: "length base = 512 * N" "N < 2 ^ 52" "positioned base N sc" using assms(1) by (simp_all add: scanning_def)
  have a: "unat (?a + of_nat n) = unat ?a + n" using unat_advance [OF sc(2) assms(2)] .
  have pos: "positioned base N (moved_to (?a + of_nat n) sc)" using positioned_moved_to [OF sc(3)] a assms(2) by simp
  have "scanning lib_dec base V N (moved_to (?a + of_nat n) sc) \<and> (\<forall>i \<in> {unat ?a ..< unat ?a + n}. V i = None)"
  proof (cases "no_more sc")
    case True
    then show ?thesis using assms(1) pos a by (simp add: scanning_def no_more_def moved_to_def)
  next
    case False
    then have r: "vs_offInIo sc < rio_blocks ?r" "vs_offInIo sc = 0" "unat ?a + n \<le> unat (rio_addr ?r)"
      using assms(3) by blast+
    obtain rs mg where m: "merger_read_all lib_dec (vs_merger sc) = Some (Inr (rs, mg))" "diffs_left V sc rs"
      using assms(1) False by (auto simp: scanning_def)
    have l: "lead sc = [?r]" "lead (moved_to (?a + of_nat n) sc) = [?r]" using r(1) by (simp_all add: lead_def moved_to_def)
    have "diffs_left V (moved_to (?a + of_nat n) sc) rs"
      using m(2) r a l unfolding diffs_left_def l by (simp add: moved_to_def)
    then have "scanning lib_dec base V N (moved_to (?a + of_nat n) sc)"
      using assms(1) pos m(1) False by (simp add: scanning_def no_more_def moved_to_def)
    moreover have "V i = None" if "i \<in> {unat ?a ..< unat ?a + n}" for i
    proof -
      have "sorted_wrt before (?r # rs)" "V i = rio.views (?r # rs) i"
        using m(2) that unfolding diffs_left_def l by simp_all
      then show ?thesis using views_lead(3) [of ?r rs i] that r(3) by simp
    qed
    ultimately show ?thesis by blast
  qed
  then show "scanning lib_dec base V N (moved_to (?a + of_nat n) sc)"
    "take (512 * n) (drop (512 * unat ?a) base) = disk_image base V (unat ?a) n"
    using disk_image_base [of "unat ?a" n V base] assms(2) sc(1) by simp_all
qed

text \<open>Reading \<open>n\<close> blocks of the current IO.\<close>

lemma wdiff_step:
  assumes "scanning lib_dec base V N sc" and "io_works os" and "\<not> no_more sc" and "vs_offInIo sc < rio_blocks (vs_recIo sc)"
    and at: "unat (vs_addr sc) = unat (rio_addr (vs_recIo sc)) + unat (vs_offInIo sc)"
    and n: "0 < n" "unat (vs_offInIo sc) + n \<le> unat (rio_blocks (vs_recIo sc))"
  shows "\<exists>sc'. readWdiff os (of_nat n) sc = Inr (disk_image base V (unat (vs_addr sc)) n, sc') \<and> scanning lib_dec base V N sc'
    \<and> unat (vs_addr sc') = unat (vs_addr sc) + n \<and> length (disk_image base V (unat (vs_addr sc)) n) = 512 * n
    \<and> unat (vs_addr sc) + n \<le> N"
proof -
  let ?a = "vs_addr sc" and ?r = "vs_recIo sc" and ?o = "vs_offInIo sc"
  have sc: "length base = 512 * N" "N < 2 ^ 52" "positioned base N sc" "dom V \<subseteq> {..< N}" using assms(1) by (simp_all add: scanning_def)
  obtain rs mg where m: "merger_read_all lib_dec (vs_merger sc) = Some (Inr (rs, mg))" "diffs_left V sc rs"
    using assms(1,3) by (auto simp: scanning_def)
  have l: "lead sc = [?r]" using assms(4) by (simp add: lead_def)
  have d: "sorted_wrt before (?r # rs)" "rio_ok ?r" "unat (rio_blocks ?r) \<le> 2048" "\<forall>r \<in> set rs. rio_ok r \<and> unat (rio_blocks r) \<le> 2048"
    "\<forall>i \<ge> unat ?a. V i = rio.views (?r # rs) i"
    using m(2) unfolding diffs_left_def l by simp_all
  have V: "V i = rio.item ?r i \<and> V i \<noteq> None" if "i \<in> {unat ?a ..< unat ?a + n}" for i
  proof -
    have i: "i \<in> rio.rng ?r" using that at n(2) by (simp add: rio.rng_def)
    have "V i = rio.views (?r # rs) i" using d(5) that by simp
    then have "V i = rio.item ?r i" using views_lead(1) [OF d(1) i] by simp
    then show ?thesis using i by (simp add: rio.item_def)
  qed
  have "unat ?a + n - 1 \<in> dom V" unfolding domIff by (rule V [THEN conjunct2]) (use n(1) in simp)
  then have "unat ?a + n - 1 < N" using sc(4) by blast
  then have N: "unat ?a + n \<le> N" by simp
  have im: "disk_image base V (unat ?a) n
      = (if rec_isNormal (rio_rec ?r) then take (512 * n) (drop (512 * unat ?o) (rio_io ?r)) else replicate (512 * n) 0)"
    using V at n(2) by (intro disk_image_rio [OF d(2)]) auto
  have len: "rec_isNormal (rio_rec ?r) \<Longrightarrow> length (rio_io ?r) = 512 * unat (rio_blocks ?r)" using d(2) by (simp add: rio_ok_def)
  then have il: "length (disk_image base V (unat ?a) n) = 512 * n" using n(2) unfolding im by auto
  have un: "unat (of_nat n :: u64) = n" "unat (of_nat n :: u32) = n" using n(2) d(3) by (simp_all add: unat_of_nat)
  have sz: "unat (of_nat n * ucast LOGICAL_BLOCK_SIZE :: u64) = 512 * n" using un n(2) d(3) by (subst unat_blocks) simp_all
  have off: "unat (?o * LOGICAL_BLOCK_SIZE) = 512 * unat ?o" using n(2) d(3) by (subst unat_mult_small) (simp_all add: lbs_words)
  have uc: "(ucast (of_nat n :: u64) :: u32) = of_nat n" using un n(2) d(3) by (simp add: word_unat_eq_iff unat_ucast_64_32)
  have o': "unat (?o + of_nat n) = unat ?o + n" using n(2) d(3) un by (subst unat_add_small) simp_all
  let ?sc1 = "sc\<lparr>vs_offInIo := ?o + of_nat n\<rparr>" let ?sc' = "moved_to (?a + of_nat n) ?sc1"
  have a': "unat (?a + of_nat n) = unat ?a + n" using unat_advance [OF sc(2) N] .
  have p1: "positioned base N ?sc1" using sc(3) by (simp add: positioned_def)
  have sk: "skipBase os (of_nat n) ?sc1
      = Inr (?sc1\<lparr>vs_reader := (vs_reader ?sc1)\<lparr>fl_pos := 512 * (unat (vs_addr ?sc1) + n)\<rparr>\<rparr>)"
    using N by (intro skipBase_ok [OF assms(2) p1 sc(1,2)]) simp
  have ty: "rec_isNormal (rio_rec ?r) \<or> rec_isDiscard (rio_rec ?r) \<or> rec_isAllZero (rio_rec ?r)"
    by (auto simp: rec_isNormal_def)
  have data: "(if rec_isNormal (rio_rec ?r)
        then read_at (rio_io ?r) (unat (?o * LOGICAL_BLOCK_SIZE)) (unat (of_nat n * ucast LOGICAL_BLOCK_SIZE :: u64))
        else ensure (rec_isDiscard (rio_rec ?r) \<or> rec_isAllZero (rio_rec ?r)) Assert_Failed
               (Inr (replicate (unat (of_nat n * ucast LOGICAL_BLOCK_SIZE :: u64)) 0)))
      = Inr (disk_image base V (unat ?a) n)"
    using ty len n(2) unfolding im sz off by auto
  have "?o + of_nat n \<le> rio_blocks ?r" using n(2) o' by (simp add: word_le_nat_alt)
  then have "readWdiff os (of_nat n) sc = Inr (disk_image base V (unat ?a) n, ?sc')"
    using assms(4) d(2) sk unfolding readWdiff_def Let_def data uc
    by (simp add: rio_blocks_def rio_ok_def moved_to_def a' distrib_left)
  moreover have "diffs_left V ?sc' rs"
  proof (cases "?o + of_nat n < rio_blocks ?r")
    case True
    then have "lead ?sc' = [?r]" by (simp add: lead_def moved_to_def)
    then show ?thesis using d True at o' a' by (simp add: diffs_left_def moved_to_def)
  next
    case False
    then have e: "unat ?o + n = unat (rio_blocks ?r)" "?o + of_nat n = rio_blocks ?r"
      using n(2) o' by (simp_all add: word_less_nat_alt unat_eq_iff_nat)
    then have l': "lead ?sc' = []" by (simp add: lead_def moved_to_def)
    have "V i = rio.views rs i" if "unat ?a + n \<le> i" for i
      using d(5) that views_lead(2) [OF d(1), of i] at e(1) by simp
    moreover have "unat ?a + n \<le> unat (rio_addr s)" if "s \<in> set rs" for s
    proof -
      have "before ?r s" using d(1) that by simp
      then show ?thesis using at e(1) by (simp add: before_def)
    qed
    ultimately show ?thesis using d(1,4) l' a' e(2) by (simp add: diffs_left_def moved_to_def)
  qed
  then have "scanning lib_dec base V N ?sc'" using assms(1,3) m(1) positioned_moved_to [OF p1, of "?a + of_nat n"] a' N
    by (simp add: scanning_def no_more_def moved_to_def)
  moreover have "unat (vs_addr ?sc') = unat ?a + n" using a' by (simp add: moved_to_def)
  ultimately show ?thesis using il N by blast
qed

text \<open>The sizes that \<open>readSome\<close> takes: whole blocks below 4 GiB.\<close>

lemma sizes:
  fixes sz :: u64
  assumes "unat sz = 512 * b" and "b < 2 ^ 23"
  shows "sz mod ucast LOGICAL_BLOCK_SIZE = 0" and "(ucast (sz div ucast LOGICAL_BLOCK_SIZE) :: u32) = of_nat b"
    and "(ucast (of_nat b * LOGICAL_BLOCK_SIZE :: u32) :: u64) = sz" and "unat (of_nat b :: u32) = b"
proof -
  show "sz mod ucast LOGICAL_BLOCK_SIZE = 0" by (simp add: unat_eq_iff_nat unat_mod assms(1) lbs_words)
  show b: "unat (of_nat b :: u32) = b" using assms(2) by (simp add: unat_of_nat)
  have "unat (sz div ucast LOGICAL_BLOCK_SIZE) = b" by (simp add: unat_div assms(1) lbs_words)
  then show "(ucast (sz div ucast LOGICAL_BLOCK_SIZE) :: u32) = of_nat b"
    using assms(2) b by (simp add: word_unat_eq_iff unat_ucast_64_32)
  have "unat (of_nat b * LOGICAL_BLOCK_SIZE :: u32) = 512 * b"
    using assms(2) b by (subst unat_mult_small) (simp_all add: lbs_words)
  then show "(ucast (of_nat b * LOGICAL_BLOCK_SIZE :: u32) :: u64) = sz" using assms(1) by (simp add: word_unat_eq_iff)
qed

lemma readSome_ok:
  assumes sc: "scanning lib_dec base V N sc" and os: "io_works os" and sz: "unat sz = 512 * b" "0 < b" "b < 2 ^ 23"
  shows "\<exists>sc' n. readSome lib_dec os sz sc = Some (Inr (disk_image base V (unat (vs_addr sc)) n, sc')) \<and> scanning lib_dec base V N sc'
    \<and> unat (vs_addr sc') = unat (vs_addr sc) + n \<and> length (disk_image base V (unat (vs_addr sc)) n) = 512 * n
    \<and> n \<le> b \<and> unat (vs_addr sc) + n \<le> N \<and> (n = 0 \<longleftrightarrow> unat (vs_addr sc) = N)"
proof -
  obtain sc1 where f: "fillDiffIo lib_dec sc = Some (Inr sc1)" "scanning lib_dec base V N sc1" "vs_addr sc1 = vs_addr sc"
    "no_more sc1 \<or> vs_offInIo sc1 < rio_blocks (vs_recIo sc1)" using fill_ok [OF sc] by blast
  let ?a = "vs_addr sc1" and ?r = "vs_recIo sc1" and ?o = "vs_offInIo sc1"
  have g: "length base = 512 * N" "N < 2 ^ 52" "positioned base N sc1" "unat ?a \<le> N"
    using f(2) by (simp_all add: scanning_def positioned_def)
  note w = sizes [OF sz(1,3)]
  have read: "readSome lib_dec os sz sc = Some (
      if no_more sc1 then readBase os (ucast (of_nat b :: u32)) sc1
      else ensure (?a \<le> currentDiffAddr sc1) Assert_Failed
        (if ?a = currentDiffAddr sc1
         then res_bind (currentDiffBlocks sc1) (\<lambda>n. readWdiff os (ucast (min (of_nat b) n)) sc1)
         else readBase os (ucast (if currentDiffAddr sc1 - ?a < ucast (of_nat b :: u32)
           then ucast (currentDiffAddr sc1 - ?a) else (of_nat b :: u32))) sc1))"
    using w f(1) by (simp add: readSome_def no_more_def Let_def)
  have base: "\<exists>sc'. readBase os m sc1 = Inr (disk_image base V (unat ?a) n, sc') \<and> scanning lib_dec base V N sc'
      \<and> unat (vs_addr sc') = unat ?a + n \<and> length (disk_image base V (unat ?a) n) = 512 * n"
    if "n = min (unat m) (N - unat ?a)" "unat m < 2 ^ 32"
      "no_more sc1 \<or> ?o < rio_blocks ?r \<and> ?o = 0 \<and> unat ?a + n \<le> unat (rio_addr ?r)" for m n
  proof -
    have n: "unat ?a + n \<le> N" using g(4) that(1) by simp
    note st = base_step [OF f(2) n that(3)]
    have "length (disk_image base V (unat ?a) n) = 512 * n" using n g(1) by (simp flip: st(2))
    then show ?thesis using readBase_ok [OF os g(3,1,2) that(2)] st unat_advance [OF g(2) n] that(1)
      by (auto simp: moved_to_def)
  qed
  have b32: "unat (ucast (of_nat b :: u32) :: u64) = b" using w(4) by simp
  show ?thesis
  proof (cases "no_more sc1")
    case True
    have "b < 2 ^ 32" using sz(3) by simp
    then obtain sc' where "readBase os (ucast (of_nat b :: u32)) sc1 = Inr (disk_image base V (unat ?a) (min b (N - unat ?a)), sc')"
      "scanning lib_dec base V N sc'" "unat (vs_addr sc') = unat ?a + min b (N - unat ?a)"
      "length (disk_image base V (unat ?a) (min b (N - unat ?a))) = 512 * min b (N - unat ?a)"
      using base [of "min b (N - unat ?a)" "ucast (of_nat b :: u32)"] True b32 by auto
    then show ?thesis using read True f(3) g(4) sz(2)
      by (intro exI [of _ sc'] exI [of _ "min b (N - unat ?a)"]) auto
  next
    case False
    then have o: "?o < rio_blocks ?r" using f(4) by simp
    have l: "lead sc1 = [?r]" using o by (simp add: lead_def)
    obtain rs mg where m: "merger_read_all lib_dec (vs_merger sc1) = Some (Inr (rs, mg))" "diffs_left V sc1 rs"
      using f(2) False by (auto simp: scanning_def)
    have d: "rio_ok ?r" "unat (rio_blocks ?r) \<le> 2048"
      "unat ?a = unat (rio_addr ?r) + unat ?o \<or> ?o = 0 \<and> unat ?a \<le> unat (rio_addr ?r)"
      using m(2) unfolding diffs_left_def l by simp_all
    have cur: "unat (currentDiffAddr sc1) = unat (rio_addr ?r) + unat ?o"
      using d(1) o unfolding currentDiffAddr_def rio_addr_def [symmetric]
      by (subst unat_add_small) (auto simp: rio_ok_def word_less_nat_alt)
    show ?thesis
    proof (cases "?a = currentDiffAddr sc1")
      case True
      define n where "n = min b (unat (rio_blocks ?r) - unat ?o)"
      have o': "unat ?o < unat (rio_blocks ?r)" "?o \<le> rio_blocks ?r" using o by (simp_all add: word_less_nat_alt word_le_nat_alt)
      have n: "0 < n" "unat ?o + n \<le> unat (rio_blocks ?r)" "n \<le> b" using o' sz(2) by (simp_all add: n_def)
      have "unat (min (of_nat b) (rio_blocks ?r - ?o)) = n"
        using w(4) o'(2) by (simp add: n_def min_def word_le_nat_alt unat_sub_le)
      then have "unat (ucast (min (of_nat b) (rio_blocks ?r - ?o)) :: u64) = n" by simp
      then have u: "(ucast (min (of_nat b) (rio_blocks ?r - ?o)) :: u64) = of_nat n" by (metis of_nat_unat ucast_id)
      have at: "unat ?a = unat (rio_addr ?r) + unat ?o" using True cur by simp
      have "readSome lib_dec os sz sc = Some (readWdiff os (of_nat n) sc1)"
        unfolding read using False True o'(2) u by (simp add: currentDiffBlocks_def rio_blocks_def)
      then show ?thesis using wdiff_step [OF f(2) os False o at n(1,2)] f(3) n(1,3) by auto
    next
      case ne: False
      then have lt: "?o = 0" "unat ?a < unat (currentDiffAddr sc1)" "unat ?a \<le> unat (rio_addr ?r)"
        using d(3) cur by (auto simp: unat_eq_iff_nat)
      define m where "m = (if currentDiffAddr sc1 - ?a < ucast (of_nat b :: u32)
           then ucast (currentDiffAddr sc1 - ?a) else (of_nat b :: u32))"
      have df: "unat (currentDiffAddr sc1 - ?a) = unat (rio_addr ?r) - unat ?a"
        using lt cur by (simp add: unat_sub_le word_le_nat_alt)
      have mu: "unat m = min (unat (rio_addr ?r) - unat ?a) b"
      proof (cases "currentDiffAddr sc1 - ?a < ucast (of_nat b :: u32)")
        case True
        then have "unat (rio_addr ?r) - unat ?a < b" by (simp add: word_less_nat_alt df w(4))
        then show ?thesis using True sz(3) df by (simp add: m_def unat_ucast_64_32)
      next
        case False
        then show ?thesis using w(4) by (simp add: m_def word_less_nat_alt df b32)
      qed
      define n where "n = min (unat m) (N - unat ?a)"
      have n: "n \<le> b" "unat ?a + n \<le> unat (rio_addr ?r)" "unat ?a + n \<le> N" using lt(3) g(4) by (simp_all add: n_def mu)
      have "0 < unat m" using lt(2) sz(2) cur lt(1) by (simp add: mu)
      then have n0: "n = 0 \<longleftrightarrow> unat ?a = N" using g(4) by (auto simp: n_def)
      have "readSome lib_dec os sz sc = Some (readBase os (ucast m) sc1)"
        unfolding read using False ne lt(2) by (simp add: m_def word_le_nat_alt)
      moreover obtain sc' where "readBase os (ucast m) sc1 = Inr (disk_image base V (unat ?a) n, sc')" "scanning lib_dec base V N sc'"
        "unat (vs_addr sc') = unat ?a + n" "length (disk_image base V (unat ?a) n) = 512 * n"
        using base [of n "ucast m"] n(2) lt(1) o by (auto simp: n_def)
      ultimately show ?thesis using n(1,3) n0 f(3) by auto
    qed
  qed
qed

section \<open>Reading a given size, and the whole image\<close>

lemma virt_read_ok:
  assumes "scanning lib_dec base V N sc" and "io_works os" and "unat sz = 512 * b" and "b < 2 ^ 23"
  shows "if unat (vs_addr sc) + b \<le> N
    then \<exists>sc'. virt_read lib_dec os sz sc = Some (Inr (disk_image base V (unat (vs_addr sc)) b, sc')) \<and> scanning lib_dec base V N sc'
      \<and> unat (vs_addr sc') = unat (vs_addr sc) + b
    else virt_read lib_dec os sz sc = Some (Inl EofError)"
  using assms(1,3,4)
proof (induction b arbitrary: sz sc rule: less_induct)
  case (less b)
  show ?case
  proof (cases "b = 0")
    case True
    then have "sz = 0" using less.prems(2) by (simp add: unat_eq_0)
    moreover have "unat (vs_addr sc) \<le> N" using less.prems(1) by (simp add: scanning_def positioned_def)
    ultimately show ?thesis using True less.prems(1) by (subst virt_read.simps) simp
  next
    case False
    then have ne: "sz \<noteq> 0" using less.prems(2) by auto
    obtain sc1 n where r: "readSome lib_dec os sz sc = Some (Inr (disk_image base V (unat (vs_addr sc)) n, sc1))"
      "scanning lib_dec base V N sc1" "unat (vs_addr sc1) = unat (vs_addr sc) + n" "length (disk_image base V (unat (vs_addr sc)) n) = 512 * n"
      "n \<le> b" "unat (vs_addr sc) + n \<le> N" "n = 0 \<longleftrightarrow> unat (vs_addr sc) = N"
      using readSome_ok [OF less.prems(1) assms(2) less.prems(2) _ less.prems(3)] False by blast
    show ?thesis
    proof (cases "n = 0")
      case True
      then show ?thesis using r(1,7) ne False by (subst virt_read.simps) simp
    next
      case n: False
      then have im: "disk_image base V (unat (vs_addr sc)) n \<noteq> []" using r(4) by auto
      have le: "512 * n \<le> unat sz" using r(5) less.prems(2) by simp
      have on: "unat (of_nat (512 * n) :: u64) = 512 * n"
        using r(5) less.prems(3) by (simp add: unat_of_nat del: of_nat_mult)
      have "unat (sz - of_nat (512 * n)) = 512 * (b - n)"
        using le on less.prems(2) by (subst unat_sub_le) (simp_all add: word_le_nat_alt diff_mult_distrib2 del: of_nat_mult)
      note sz' = this
      have IH: "if unat (vs_addr sc1) + (b - n) \<le> N
        then \<exists>sc'. virt_read lib_dec os (sz - of_nat (512 * n)) sc1 = Some (Inr (disk_image base V (unat (vs_addr sc1)) (b - n), sc'))
          \<and> scanning lib_dec base V N sc' \<and> unat (vs_addr sc') = unat (vs_addr sc1) + (b - n)
        else virt_read lib_dec os (sz - of_nat (512 * n)) sc1 = Some (Inl EofError)"
        by (rule less.IH [OF _ r(2) sz']) (use n r(5) less.prems(3) in simp_all)
      have "disk_image base V (unat (vs_addr sc)) n @ disk_image base V (unat (vs_addr sc) + n) (b - n) = disk_image base V (unat (vs_addr sc)) b"
        using disk_image_append [of base V "unat (vs_addr sc)" n "b - n"] r(5) by simp
      then show ?thesis using IH r(1,3,4,5) ne im by (subst (1 2) virt_read.simps) (auto simp del: of_nat_mult split: if_splits)
    qed
  qed
qed

lemma readAndWriteTo_ok:
  assumes "scanning lib_dec base V N sc" and "io_works osr" and "io_works osw"
    and "unat bufSize = 512 * b" and "0 < b" and "b < 2 ^ 23"
  shows "\<exists>w' sc'. readAndWriteTo lib_dec osr osw bufSize w sc = Some (Inr (w', sc'))
    \<and> fl_bytes w' = file_put (fl_pos w) (disk_image base V (unat (vs_addr sc)) (N - unat (vs_addr sc))) (fl_bytes w)"
  using assms(1)
proof (induction "N - unat (vs_addr sc)" arbitrary: w sc rule: less_induct)
  case less
  obtain sc1 n where r: "readSome lib_dec osr bufSize sc = Some (Inr (disk_image base V (unat (vs_addr sc)) n, sc1))"
    "scanning lib_dec base V N sc1" "unat (vs_addr sc1) = unat (vs_addr sc) + n" "length (disk_image base V (unat (vs_addr sc)) n) = 512 * n"
    "unat (vs_addr sc) + n \<le> N" "n = 0 \<longleftrightarrow> unat (vs_addr sc) = N"
    using readSome_ok [OF less.prems assms(2,4,5,6)] by blast
  show ?case
  proof (cases "n = 0")
    case True
    then show ?thesis using r(1,6) by (subst readAndWriteTo.simps) (simp add: file_put_def)
  next
    case False
    let ?d = "disk_image base V (unat (vs_addr sc)) n"
    let ?w = "w\<lparr>fl_bytes := file_put (fl_pos w) ?d (fl_bytes w), fl_pos := fl_pos w + length ?d\<rparr>"
    have "?d \<noteq> []" using False r(4) by auto
    moreover obtain w' sc' where "readAndWriteTo lib_dec osr osw bufSize ?w sc1 = Some (Inr (w', sc'))"
      "fl_bytes w' = file_put (fl_pos ?w) (disk_image base V (unat (vs_addr sc1)) (N - unat (vs_addr sc1))) (fl_bytes ?w)"
    proof -
      have "N - unat (vs_addr sc1) < N - unat (vs_addr sc)" using r(3,5) False by linarith
      from less.hyps [OF this r(2), of ?w] show ?thesis using that by blast
    qed
    moreover have "?d @ disk_image base V (unat (vs_addr sc) + n) (N - (unat (vs_addr sc) + n)) = disk_image base V (unat (vs_addr sc)) (N - unat (vs_addr sc))"
      using disk_image_append [of base V "unat (vs_addr sc)" n "N - (unat (vs_addr sc) + n)"] r(5) by simp
    ultimately show ?thesis using r(1,3) fd_write_works [OF assms(3), of ?d w]
      by (subst readAndWriteTo.simps) (simp add: file_put_append)
  qed
qed

lemma default_merger: "merger_new DEFAULT_MERGE_BUFFER_LB = new_merger DEFAULT_MERGE_BUFFER_LB DEFAULT_MAX_IO_LB 0"
  by (simp add: new_merger_def merger_new_def setMaxCacheSize_def merger_setMaxIoBlocks_def mem_setMaxIoBlocks_def
      mem_new_def cache_setMaxSize_def cache_new_def)

lemma init_ok:
  assumes "fs = [] \<and> tags = [] \<and> Vs = [] \<or> merge_inputs lib_enc tags fs Vs" and "codec_ok lib_enc lib_dec"
    and "length (fl_bytes f) = 512 * N" and "N < 2 ^ 52" and "fl_pos f = 0" and "dom (foldl (++) Map.empty Vs) \<subseteq> {..< N}"
  shows "\<exists>sc. virt_init lib_dec f (zip tags fs) virt_new = Some (Inr sc) \<and> vs_addr sc = 0
    \<and> scanning lib_dec (fl_bytes f) (foldl (++) Map.empty Vs) N sc"
proof (cases "fs = []")
  case True
  then have "Vs = []" "tags = []" using assms(1) by (auto simp: merge_inputs_def)
  then show ?thesis using True assms(3-5)
    by (auto simp: virt_init_def virt_init_inner_def virt_new_def scanning_def positioned_def no_more_def fd_seekable_def)
next
  case False
  then have m: "merge_inputs lib_enc tags fs Vs" using assms(1) by simp
  then have ne: "zip tags fs \<noteq> []" using False by (cases tags; cases fs) (simp_all add: merge_inputs_def)
  have b: "unat DEFAULT_MERGE_BUFFER_LB < 2 ^ 63" by (simp add: DEFAULT_MERGE_BUFFER_LB_def unat_div lbs_words)
  obtain mg mg1 G tss where p: "addWdiffs (zip tags fs) (merger_new DEFAULT_MERGE_BUFFER_LB) = Inr mg"
    "merger_prepare lib_dec mg = Some (Inr mg1)" "src.merge_state G lib_dec mg1 tss"
    "contents (mem_view (mg_diffMem mg1)) tss = foldl (++) Map.empty Vs" "mg_mergedQ mg1 = []"
    "mem_maxIoBlocks (mg_diffMem mg1) = DEFAULT_MAX_IO_LB"
    using files_prepared [OF m assms(2) b, of 0 DEFAULT_MAX_IO_LB] unfolding default_merger by auto
  have mx: "unat DEFAULT_MAX_IO_LB = 2048" by (simp add: DEFAULT_MAX_IO_LB_def LOGICAL_BLOCK_SIZE_def)
  then have mx0: "DEFAULT_MAX_IO_LB \<noteq> 0" by auto
  obtain rs mg2 where rs: "merger_read_all lib_dec mg1 = Some (Inr (rs, mg2))" "sorted_wrt before rs"
    "\<forall>r \<in> set rs. rio_ok r \<and> rio_blocks r \<le> DEFAULT_MAX_IO_LB" "rio.views rs = foldl (++) Map.empty Vs"
    using src.read_all_ok [OF p(3)] p(4-6) mx0 by (auto simp: fits_def)
  let ?sc = "virt_new\<lparr>vs_reader := f, vs_isInputFdSeekable := fl_seekable f, vs_merger := mg1\<rparr>"
  have "virt_init lib_dec f (zip tags fs) virt_new = Some (Inr ?sc)"
    using p(1,2) ne by (simp add: virt_init_def virt_init_inner_def virt_new_def fd_seekable_def)
  moreover have "diffs_left (foldl (++) Map.empty Vs) ?sc rs"
    using rs(2-4) mx by (simp add: diffs_left_def lead_def virt_new_def DiffRecIo_init_def DiffRecord_init_def rio_blocks_def word_le_nat_alt)
  then have "scanning lib_dec (fl_bytes f) (foldl (++) Map.empty Vs) N ?sc"
    using assms(3-6) rs(1) by (simp add: scanning_def positioned_def no_more_def virt_new_def)
  ultimately show ?thesis by (auto simp: virt_new_def)
qed

text \<open>
  C7: A virtual full scan over any wdiffs, sorted or indexed, ends and writes the base image overwritten by
  the wdiffs, newer ones over older ones, with zeros for discarded and all-zero blocks. The buffer size, the
  way the system cuts the transfers and whether the base image is seekable do not matter, and no assertion of
  the scanner and of the merger fails.
\<close>

theorem virtual_full_image:
  assumes "fs = [] \<and> tags = [] \<and> Vs = [] \<or> merge_inputs lib_enc tags fs Vs" and "codec_ok lib_enc lib_dec"
    and "length (fl_bytes f) = 512 * N" and "N < 2 ^ 52" and "fl_pos f = 0" and "dom (foldl (++) Map.empty Vs) \<subseteq> {..< N}"
    and "io_works osr" and "io_works osw" and "unat bufSize = 512 * b" and "0 < b" and "b < 2 ^ 23"
  shows "\<exists>sc out sc'. virt_init lib_dec f (zip tags fs) virt_new = Some (Inr sc)
    \<and> readAndWriteTo lib_dec osr osw bufSize \<lparr>fl_bytes = [], fl_pos = 0, fl_seekable = sk\<rparr> sc = Some (Inr (out, sc'))
    \<and> fl_bytes out = concat (map (out_block (fl_bytes f) (foldl (++) Map.empty Vs)) [0 ..< N])"
proof -
  obtain sc where sc: "virt_init lib_dec f (zip tags fs) virt_new = Some (Inr sc)" "vs_addr sc = 0"
    "scanning lib_dec (fl_bytes f) (foldl (++) Map.empty Vs) N sc" using init_ok [OF assms(1-6)] by blast
  then show ?thesis
    using readAndWriteTo_ok [OF sc(3) assms(7-11), of "\<lparr>fl_bytes = [], fl_pos = 0, fl_seekable = sk\<rparr>"]
    by (auto simp: disk_image_def file_put_def)
qed

theorem virtual_full_image_witness:
  "\<exists>sc out sc'. virt_init sample_dec \<lparr>fl_bytes = replicate 10240 1, fl_pos = 0, fl_seekable = True\<rparr>
      (zip [1, 2] [sample_sorted_file, sample_indexed_file]) virt_new = Some (Inr sc)
    \<and> readAndWriteTo sample_dec one_by_one one_by_one 1536 \<lparr>fl_bytes = [], fl_pos = 0, fl_seekable = False\<rparr> sc
      = Some (Inr (out, sc'))
    \<and> fl_bytes out = concat (map (out_block (fl_bytes \<lparr>fl_bytes = replicate 10240 1, fl_pos = 0, fl_seekable = True\<rparr>)
        (foldl (++) Map.empty sample_contents)) [0 ..< 20])"
proof (rule virtual_full_image [where b = 3, OF disjI2 [OF sample_inputs] sample_codec_ok _ _ _ _ one_by_one_works one_by_one_works])
  obtain A B where AB: "sample_contents = [A, B]" by (simp add: sample_contents_def)
  have "dom A \<subseteq> {..< 20}" "dom B \<subseteq> {..< 20}" by (rule sample_dom, simp add: AB)+
  then show "dom (foldl (++) Map.empty sample_contents) \<subseteq> {..< 20}" by (simp add: AB)
qed simp_all

end
