(* ===== verification/Sector.thy ===== *)
theory Sector
  imports Checksum
begin

text \<open>
  \<^verbatim>\<open>walb/include/linux/walb/sector.h\<close>: sector buffers and arrays of sectors. A pointer is an
  option (None is NULL), a buffer is the list of its bytes. Memory allocation is explicit:
  the \<open>heap\<close> record lists whether each coming allocation succeeds and counts the live
  blocks, so that leaks and the error paths can be stated. Sizes and offsets are 32-bit
  words, as \<open>unsigned int\<close> is. The flat view of an array is the concatenation of its
  sectors; the copy, checksum and memset routines are shown to work on that view.
\<close>

section \<open>Allocation\<close>

record heap =
  outcomes :: "bool list"
  live :: nat
  fresh :: "nat \<Rightarrow> u8"

definition heap_alloc :: "heap \<Rightarrow> bool \<times> heap" where
  "heap_alloc h =
     (case outcomes h of
        [] \<Rightarrow> (False, h)
      | b # bs \<Rightarrow> (b, h\<lparr>outcomes := bs, live := live h + (if b then 1 else 0)\<rparr>))"

definition heap_free :: "heap \<Rightarrow> heap" where
  "heap_free h = h\<lparr>live := live h - 1\<rparr>"

text \<open>
  \<open>posix_memalign\<close> fails with \<open>EINVAL\<close> unless the alignment is a power of two and a
  multiple of the pointer size (8).
\<close>

definition amalloc :: "u32 \<Rightarrow> heap \<Rightarrow> bool \<times> heap" where
  "amalloc align h =
     (if align AND (align - 1) = 0 \<and> align mod 8 = 0 then heap_alloc h else (False, h))"

section \<open>A sector\<close>

record sector_data =
  sd_size :: u32
  sd_data :: "u8 list option"

definition is_valid_sector_data :: "sector_data option \<Rightarrow> bool" where
  "is_valid_sector_data sect =
     (case sect of None \<Rightarrow> False | Some s \<Rightarrow> sd_size s > 0 \<and> sd_data s \<noteq> None)"

definition sector_alloc :: "u32 \<Rightarrow> heap \<Rightarrow> (sector_data option \<times> heap) res" where
  "sector_alloc sector_size h =
     ensure (sector_size > 0) Assert_Failed
       (let (ok, h1) = heap_alloc h in
        if \<not> ok then Inr (None, h1)
        else let (ok2, h2) = amalloc sector_size h1 in
          if \<not> ok2 then Inr (None, heap_free h2)
          else let s = \<lparr>sd_size = sector_size,
                        sd_data = Some (map (fresh h2) [0..<unat sector_size])\<rparr>
            in ensure (is_valid_sector_data (Some s)) Assert_Failed (Inr (Some s, h2)))"

definition deref :: "'a option \<Rightarrow> 'a res" where
  "deref p = (case p of None \<Rightarrow> Inl Null_Pointer | Some x \<Rightarrow> Inr x)"

definition sector_zeroclear :: "sector_data option \<Rightarrow> sector_data res" where
  "sector_zeroclear sect =
     ensure (is_valid_sector_data sect) Assert_Failed
       (res_bind (deref sect) (\<lambda>s. res_bind (deref (sd_data s)) (\<lambda>d.
         res_bind (write_at d 0 (replicate (unat (sd_size s)) 0))
           (\<lambda>d'. Inr (s\<lparr>sd_data := Some d'\<rparr>)))))"

definition sector_alloc_zero :: "u32 \<Rightarrow> heap \<Rightarrow> (sector_data option \<times> heap) res" where
  "sector_alloc_zero sector_size h =
     res_bind (sector_alloc sector_size h) (\<lambda>(sect, h').
       if sect \<noteq> None then res_bind (sector_zeroclear sect) (\<lambda>s. Inr (Some s, h'))
       else Inr (None, h'))"

definition sector_free :: "sector_data option \<Rightarrow> heap \<Rightarrow> heap" where
  "sector_free sect h =
     (case sect of
        None \<Rightarrow> h
      | Some s \<Rightarrow> heap_free (if sd_data s \<noteq> None then heap_free h else h))"

definition sector_copy :: "sector_data option \<Rightarrow> sector_data option \<Rightarrow> sector_data res" where
  "sector_copy dst src =
     ensure (is_valid_sector_data dst) Assert_Failed
       (ensure (is_valid_sector_data src) Assert_Failed
         (res_bind (deref dst) (\<lambda>d. res_bind (deref src) (\<lambda>s.
           ensure (sd_size d = sd_size s) Assert_Failed
             (res_bind (deref (sd_data d)) (\<lambda>db. res_bind (deref (sd_data s)) (\<lambda>sb.
               res_bind (read_at sb 0 (unat (sd_size s))) (\<lambda>bs.
                 res_bind (write_at db 0 bs) (\<lambda>db'. Inr (d\<lparr>sd_data := Some db'\<rparr>))))))))))"

definition is_same_size_sector :: "sector_data option \<Rightarrow> sector_data option \<Rightarrow> bool res" where
  "is_same_size_sector sect0 sect1 =
     ensure (is_valid_sector_data sect0) Assert_Failed
       (ensure (is_valid_sector_data sect1) Assert_Failed
         (res_bind (deref sect0) (\<lambda>s0. res_bind (deref sect1) (\<lambda>s1.
           Inr (sd_size s0 = sd_size s1)))))"

text \<open>Of the value of \<open>memcmp\<close> only the sign is specified.\<close>

fun memcmp :: "u8 list \<Rightarrow> u8 list \<Rightarrow> int" where
  "memcmp (a # as) (b # bs) = (if a < b then -1 else if b < a then 1 else memcmp as bs)"
| "memcmp _ _ = 0"

definition is_same_sector :: "sector_data option \<Rightarrow> sector_data option \<Rightarrow> bool res" where
  "is_same_sector sect0 sect1 =
     ensure (is_valid_sector_data sect0) Assert_Failed
       (ensure (is_valid_sector_data sect1) Assert_Failed
         (res_bind (is_same_size_sector sect0 sect1) (\<lambda>same.
           if \<not> same then Inr False
           else res_bind (deref sect0) (\<lambda>s0. res_bind (deref sect1) (\<lambda>s1.
             res_bind (deref (sd_data s0)) (\<lambda>d0. res_bind (deref (sd_data s1)) (\<lambda>d1.
               res_bind (read_at d0 0 (unat (sd_size s1))) (\<lambda>b0.
                 res_bind (read_at d1 0 (unat (sd_size s1))) (\<lambda>b1.
                   Inr (memcmp b0 b1 = 0)))))))))) "

section \<open>Arrays of sectors\<close>

record sector_data_array =
  sa_sector_size :: u32
  sa_size :: u32
  sa_array :: "sector_data option list option"

text \<open>
  The list of a non-null \<open>array\<close> is the allocated block of pointers; it can be longer than
  \<open>size\<close> after \<open>sector_array_realloc\<close>.
\<close>

fun sector_ptrs_valid :: "u32 \<Rightarrow> nat \<Rightarrow> sector_data option list \<Rightarrow> bool" where
  "sector_ptrs_valid ss 0 ary = True"
| "sector_ptrs_valid ss (Suc n) [] = False"
| "sector_ptrs_valid ss (Suc n) (p # ary) =
     (is_valid_sector_data p \<and> (case p of None \<Rightarrow> False | Some s \<Rightarrow> sd_size s = ss)
      \<and> sector_ptrs_valid ss n ary)"

definition is_valid_sector_data_array :: "sector_data_array option \<Rightarrow> bool" where
  "is_valid_sector_data_array sect_ary =
     (case sect_ary of
        None \<Rightarrow> False
      | Some sa \<Rightarrow>
          (case sa_array sa of
             None \<Rightarrow> False
           | Some ary \<Rightarrow> sa_size sa \<noteq> 0
               \<and> sector_ptrs_valid (sa_sector_size sa) (unat (sa_size sa)) ary))"

fun sectors_free :: "sector_data option list \<Rightarrow> heap \<Rightarrow> heap" where
  "sectors_free [] h = h"
| "sectors_free (p # ps) h = sectors_free ps (sector_free p h)"

definition sector_array_free :: "sector_data_array option \<Rightarrow> heap \<Rightarrow> heap res" where
  "sector_array_free sect_ary h =
     (case sect_ary of
        None \<Rightarrow> Inr h
      | Some sa \<Rightarrow>
          (case sa_array sa of
             None \<Rightarrow> Inr (heap_free h)
           | Some ary \<Rightarrow>
               ensure (is_valid_sector_data_array sect_ary) Assert_Failed
                 (Inr (heap_free (heap_free
                   (sectors_free (take (unat (sa_size sa)) ary) h))))))"

text \<open>
  The allocation loop over \<open>i\<close>: \<open>n\<close> pointers are still NULL, \<open>done\<close> are the sectors so far.
  A failing \<open>sector_alloc\<close> goes to \<open>nomem1\<close>, which frees the partly filled array.
\<close>

fun sector_array_alloc_loop ::
  "nat \<Rightarrow> u32 \<Rightarrow> u32 \<Rightarrow> sector_data option list \<Rightarrow> heap \<Rightarrow> (sector_data_array option \<times> heap) res"
where
  "sector_array_alloc_loop 0 ss n filled h =
     Inr (Some \<lparr>sa_sector_size = ss, sa_size = n, sa_array = Some filled\<rparr>, h)"
| "sector_array_alloc_loop (Suc k) ss n filled h =
     res_bind (sector_alloc ss h) (\<lambda>(sect, h').
       if sect = None then
         res_bind (sector_array_free
           (Some \<lparr>sa_sector_size = ss, sa_size = n,
                  sa_array = Some (filled @ replicate (Suc k) None)\<rparr>) h')
           (\<lambda>h''. Inr (None, h''))
       else sector_array_alloc_loop k ss n (filled @ [sect]) h')"

definition sector_array_alloc ::
  "u32 \<Rightarrow> u32 \<Rightarrow> heap \<Rightarrow> (sector_data_array option \<times> heap) res"
where
  "sector_array_alloc sector_size n_sectors h =
     ensure (n_sectors > 0) Assert_Failed
       (ensure (sector_size > 0) Assert_Failed
         (let (ok, h1) = heap_alloc h in
          if \<not> ok then Inr (None, h1)
          else let (ok2, h2) = heap_alloc h1 in
            if \<not> ok2 then
              res_bind (sector_array_free
                (Some \<lparr>sa_sector_size = sector_size, sa_size = n_sectors, sa_array = None\<rparr>) h2)
                (\<lambda>h3. Inr (None, h3))
            else sector_array_alloc_loop (unat n_sectors) sector_size n_sectors [] h2))"

fun sectors_free_checked :: "sector_data option list \<Rightarrow> heap \<Rightarrow> heap res" where
  "sectors_free_checked [] h = Inr h"
| "sectors_free_checked (p # ps) h =
     ensure (p \<noteq> None) Assert_Failed (sectors_free_checked ps (sector_free p h))"

text \<open>
  Growing: \<open>grown\<close> are the sectors allocated so far, \<open>k\<close> pointers are still NULL. The result
  is None when an allocation failed (\<open>error1\<close> frees the new sectors).
\<close>

fun sector_array_grow_loop ::
  "nat \<Rightarrow> u32 \<Rightarrow> sector_data option list \<Rightarrow> heap \<Rightarrow> (sector_data option list option \<times> heap) res"
where
  "sector_array_grow_loop 0 ss grown h = Inr (Some grown, h)"
| "sector_array_grow_loop (Suc k) ss grown h =
     res_bind (sector_alloc ss h) (\<lambda>(sect, h').
       if sect = None then Inr (None, sectors_free (grown @ replicate (Suc k) None) h')
       else sector_array_grow_loop k ss (grown @ [sect]) h')"

definition sector_array_realloc ::
  "sector_data_array \<Rightarrow> u32 \<Rightarrow> heap \<Rightarrow> (bool \<times> sector_data_array \<times> heap) res"
where
  "sector_array_realloc sa n_sectors h =
     ensure (is_valid_sector_data_array (Some sa)) Assert_Failed
       (ensure (n_sectors > 0) Assert_Failed
         (res_bind (deref (sa_array sa)) (\<lambda>ary.
           let sz = unat (sa_size sa); n = unat n_sectors in
           if n_sectors < sa_size sa then
             res_bind (sectors_free_checked (drop n (take sz ary)) h) (\<lambda>h'.
               Inr (True, sa\<lparr>sa_array := Some (take n ary @ replicate (sz - n) None @ drop sz ary),
                             sa_size := n_sectors\<rparr>, h'))
           else if sa_size sa < n_sectors then
             (let (ok, h1) = heap_alloc h in
              if \<not> ok then Inr (False, sa, h1)
              else let h1' = heap_free h1 in
                res_bind (sector_array_grow_loop (n - sz) (sa_sector_size sa) [] h1')
                  (\<lambda>(grown, h2).
                    case grown of
                      None \<Rightarrow> Inr (False,
                        sa\<lparr>sa_array := Some (take sz ary @ replicate (n - sz) None)\<rparr>, h2)
                    | Some g \<Rightarrow> Inr (True,
                        sa\<lparr>sa_array := Some (take sz ary @ g), sa_size := n_sectors\<rparr>, h2)))
           else Inr (True, sa, h))))"

definition get_sector_data_in_array :: "sector_data_array \<Rightarrow> u32 \<Rightarrow> sector_data option res" where
  "get_sector_data_in_array sa idx =
     ensure (is_valid_sector_data_array (Some sa)) Assert_Failed
       (ensure (idx < sa_size sa) Assert_Failed
         (res_bind (deref (sa_array sa)) (\<lambda>ary.
           ensure (unat idx < length ary) Out_Of_Bounds (Inr (ary ! unat idx)))))"

section \<open>Copying\<close>

text \<open>\<open>(u8 * )sect_ary->array[idx]->data\<close>, and the array with those bytes replaced.\<close>

definition sector_bytes :: "sector_data option list \<Rightarrow> u32 \<Rightarrow> u8 list res" where
  "sector_bytes ary idx =
     ensure (unat idx < length ary) Out_Of_Bounds
       (res_bind (deref (ary ! unat idx)) (\<lambda>s. deref (sd_data s)))"

definition set_sector_bytes ::
  "sector_data option list \<Rightarrow> u32 \<Rightarrow> u8 list \<Rightarrow> sector_data option list"
where
  "set_sector_bytes ary idx bs =
     ary[unat idx := map_option (\<lambda>s. s\<lparr>sd_data := Some bs\<rparr>) (ary ! unat idx)]"

function sector_array_copy_loop ::
  "bool \<Rightarrow> u32 \<Rightarrow> u32 \<Rightarrow> u32 \<Rightarrow> u32 \<Rightarrow> sector_data option list \<Rightarrow> u8 list
   \<Rightarrow> (sector_data option list \<times> u8 list) res"
where
  "sector_array_copy_loop is_from sect_size offset sz copied ary data =
     (if copied < sz then
        ensure (sect_size \<noteq> 0) Div_By_Zero
          (let sect_idx = (offset + copied) div sect_size;
               sect_off = (offset + copied) mod sect_size;
               tmp_size = min (sect_size - sect_off) (sz - copied)
           in res_bind (sector_bytes ary sect_idx) (\<lambda>sb.
             if is_from then
               res_bind (read_at data (unat copied) (unat tmp_size)) (\<lambda>bs.
                 res_bind (write_at sb (unat sect_off) bs) (\<lambda>sb'.
                   sector_array_copy_loop is_from sect_size offset sz (copied + tmp_size)
                     (set_sector_bytes ary sect_idx sb') data))
             else
               res_bind (read_at sb (unat sect_off) (unat tmp_size)) (\<lambda>bs.
                 res_bind (write_at data (unat copied) bs) (\<lambda>data'.
                   sector_array_copy_loop is_from sect_size offset sz (copied + tmp_size)
                     ary data'))))
      else Inr (ary, data))"
  by pat_completeness auto

lemma copy_step_progress:
  fixes copied sz ss x :: u32
  assumes "copied < sz" and "ss \<noteq> 0"
  shows "unat copied < unat (copied + min (ss - x mod ss) (sz - copied))"
    and "unat (copied + min (ss - x mod ss) (sz - copied)) \<le> unat sz"
proof -
  have lt: "unat (x mod ss) < unat ss"
    using assms(2) by (simp add: unat_mod_distrib unat_gt_0)
  let ?t = "min (ss - x mod ss) (sz - copied)"
  have t: "unat ?t = min (unat ss - unat (x mod ss)) (unat sz - unat copied)"
    using lt assms(1) by (auto simp: min_def word_le_nat_alt word_less_nat_alt unat_sub)
  have "unat copied + unat ?t \<le> unat sz"
    using t assms(1) by (simp add: word_less_nat_alt)
  then have s: "unat (copied + ?t) = unat copied + unat ?t"
    using unat_lt32 [of sz] by (intro unat_add_small) (simp del: unat_lt32)
  show "unat copied < unat (copied + ?t)"
    using s t lt assms(1) by (simp add: word_less_nat_alt)
  show "unat (copied + ?t) \<le> unat sz"
    using s \<open>unat copied + unat ?t \<le> unat sz\<close> by simp
qed

termination sector_array_copy_loop
proof (relation "measure (\<lambda>(_, _, _, sz, copied, _, _). unat sz - unat copied)",
    goal_cases)
  case 1
  then show ?case by simp
next
  case (2 is_from ss offset sz copied ary data x xa xb sb bs sb')
  with copy_step_progress [of copied sz ss "offset + copied"] show ?case
    by (simp add: word_less_nat_alt)
next
  case (3 is_from ss offset sz copied ary data x xa xb sb bs data')
  with copy_step_progress [of copied sz ss "offset + copied"] show ?case
    by (simp add: word_less_nat_alt)
qed

declare sector_array_copy_loop.simps [simp del]

definition sector_array_copy_detail ::
  "sector_data_array \<Rightarrow> u32 \<Rightarrow> u8 list option \<Rightarrow> u32 \<Rightarrow> bool
   \<Rightarrow> (sector_data_array \<times> u8 list option) res"
where
  "sector_array_copy_detail sa offset data sz is_from =
     (case data of
        None \<Rightarrow> Inr (sa, None)
      | Some d \<Rightarrow>
          ensure (is_valid_sector_data_array (Some sa)) Assert_Failed
            (ensure (offset + sz \<le> sa_size sa * sa_sector_size sa) Assert_Failed
              (res_bind (deref (sa_array sa)) (\<lambda>ary.
                res_bind (sector_array_copy_loop is_from (sa_sector_size sa) offset sz 0 ary d)
                  (\<lambda>(ary', d'). Inr (sa\<lparr>sa_array := Some ary'\<rparr>, Some d'))))))"

definition sector_array_copy_from ::
  "sector_data_array \<Rightarrow> u32 \<Rightarrow> u8 list option \<Rightarrow> u32 \<Rightarrow> sector_data_array res"
where
  "sector_array_copy_from sa offset data sz =
     res_bind (sector_array_copy_detail sa offset data sz True) (\<lambda>(sa', _). Inr sa')"

definition sector_array_copy_to ::
  "sector_data_array \<Rightarrow> u32 \<Rightarrow> u8 list option \<Rightarrow> u32 \<Rightarrow> u8 list option res"
where
  "sector_array_copy_to sa offset data sz =
     res_bind (sector_array_copy_detail sa offset data sz False) (\<lambda>(_, d'). Inr d')"

section \<open>Comparing, printing, checksum and memset\<close>

fun sector_array_compare_loop ::
  "nat \<Rightarrow> u32 \<Rightarrow> sector_data option list \<Rightarrow> sector_data option list \<Rightarrow> u32 \<Rightarrow> int res"
where
  "sector_array_compare_loop 0 i ary0 ary1 sect_size = Inr 0"
| "sector_array_compare_loop (Suc k) i ary0 ary1 sect_size =
     res_bind (sector_bytes ary0 i) (\<lambda>d0. res_bind (sector_bytes ary1 i) (\<lambda>d1.
       res_bind (read_at d0 0 (unat sect_size)) (\<lambda>b0.
         res_bind (read_at d1 0 (unat sect_size)) (\<lambda>b1.
           let cmp = memcmp b0 b1 in
           if cmp \<noteq> 0 then Inr cmp
           else sector_array_compare_loop k (i + 1) ary0 ary1 sect_size))))"

definition sector_array_compare :: "sector_data_array \<Rightarrow> sector_data_array \<Rightarrow> int res" where
  "sector_array_compare sa0 sa1 =
     ensure (is_valid_sector_data_array (Some sa0)) Assert_Failed
       (ensure (is_valid_sector_data_array (Some sa1)) Assert_Failed
         (if sa_size sa0 \<noteq> sa_size sa1 then Inr (sint (sa_size sa0 - sa_size sa1))
          else res_bind (deref (sa_array sa0)) (\<lambda>ary0. res_bind (deref (sa_array sa1)) (\<lambda>ary1.
            sector_array_compare_loop (unat (sa_size sa0)) 0 ary0 ary1 (sa_sector_size sa0)))))"

text \<open>
  \<open>sector_array_sprint\<close> appends one \<open>%02X\<close> group per byte; the pair is the returned flag and
  the string in the buffer.
\<close>

fun sprint_bytes :: "u32 \<Rightarrow> u32 \<Rightarrow> u32 \<Rightarrow> u32 \<Rightarrow> u8 list \<Rightarrow> string \<Rightarrow> bool \<times> string" where
  "sprint_bytes str_size i sect_size j [] str = (True, str)"
| "sprint_bytes str_size i sect_size j (b # bs) str =
     (if (i * sect_size + j + 1) * 3 + 1 > str_size then (False, str)
      else sprint_bytes str_size i sect_size (j + 1) bs (str @ hex_byte b))"

fun sprint_sectors ::
  "nat \<Rightarrow> u32 \<Rightarrow> u32 \<Rightarrow> u32 \<Rightarrow> sector_data option list \<Rightarrow> string \<Rightarrow> (bool \<times> string) res"
where
  "sprint_sectors 0 str_size i sect_size ary str = Inr (True, str)"
| "sprint_sectors (Suc k) str_size i sect_size ary str =
     res_bind (sector_bytes ary i) (\<lambda>d. res_bind (read_at d 0 (unat sect_size)) (\<lambda>bs.
       let (ok, str') = sprint_bytes str_size i sect_size 0 bs str in
       if \<not> ok then Inr (False, str')
       else sprint_sectors k str_size (i + 1) sect_size ary str'))"

definition sector_array_sprint :: "u32 \<Rightarrow> sector_data_array \<Rightarrow> (bool \<times> string) res" where
  "sector_array_sprint str_size sa =
     ensure (is_valid_sector_data_array (Some sa)) Assert_Failed
       (ensure (str_size > 0) Assert_Failed
         (res_bind (deref (sa_array sa)) (\<lambda>ary.
           sprint_sectors (unat (sa_size sa)) str_size 0 (sa_sector_size sa) ary [])))"

text \<open>
  The walk over the sectors that the checksum and the memset loops share is the pair
  \<open>(idx, off)\<close>; \<open>remaining\<close> decreases in every round. The offset is below the sector size
  in every round (it is a remainder first and 0 afterwards), and the recursion says so in
  its guard.
\<close>

lemma remaining_decreases:
  fixes rem ss off :: u32
  assumes "rem > 0" and "off < ss"
  shows "unat (rem - min (ss - off) rem) < unat rem"
  using assms by (auto simp: min_def word_less_nat_alt word_le_nat_alt unat_sub)

function sector_array_checksum_loop ::
  "u32 \<Rightarrow> u32 \<Rightarrow> sector_data option list \<Rightarrow> u32 \<Rightarrow> u32 \<Rightarrow> u32 \<Rightarrow> u32 \<Rightarrow> u32 res"
where
  "sector_array_checksum_loop sect_size n ary idx off rem acc =
     (if rem > 0 then
        ensure (idx < n) Assert_Failed
          (ensure (off < sect_size) Out_Of_Bounds
            (let tsize = min (sect_size - off) rem
             in res_bind (sector_bytes ary idx) (\<lambda>d.
               ensure (unat off \<le> length d) Out_Of_Bounds
                 (res_bind (checksum_partial acc (drop (unat off) d) tsize)
                   (sector_array_checksum_loop sect_size n ary (idx + 1) 0 (rem - tsize))))))
      else Inr acc)"
  by pat_completeness auto
termination
  by (relation "measure (\<lambda>(_, _, _, _, _, rem, _). unat rem)")
    (simp_all add: remaining_decreases)

declare sector_array_checksum_loop.simps [simp del]

definition sector_array_checksum ::
  "sector_data_array \<Rightarrow> u32 \<Rightarrow> u32 \<Rightarrow> u32 \<Rightarrow> u32 res"
where
  "sector_array_checksum sa offset sz salt =
     ensure (sz > 0) Assert_Failed
       (ensure (is_valid_sector_data_array (Some sa)) Assert_Failed
         (ensure (sa_size sa > 0) Assert_Failed
           (res_bind (deref (sa_array sa)) (\<lambda>ary.
             let sect_size = sa_sector_size sa in
             res_bind (sector_array_checksum_loop sect_size (sa_size sa) ary
                 (offset div sect_size) (offset mod sect_size) sz salt)
               (\<lambda>acc. Inr (checksum_finish acc))))))"

function sector_array_memset_loop ::
  "u32 \<Rightarrow> u32 \<Rightarrow> u8 \<Rightarrow> u32 \<Rightarrow> u32 \<Rightarrow> u32 \<Rightarrow> sector_data option list
   \<Rightarrow> sector_data option list res"
where
  "sector_array_memset_loop ssize n val idx off rem ary =
     (if rem > 0 then
        ensure (idx < n) Assert_Failed
          (ensure (off < ssize) Out_Of_Bounds
            (let tsize = min (ssize - off) rem
             in res_bind (sector_bytes ary idx) (\<lambda>d.
               res_bind (write_at d (unat off) (replicate (unat tsize) val)) (\<lambda>d'.
                 sector_array_memset_loop ssize n val (idx + 1) 0 (rem - tsize)
                   (set_sector_bytes ary idx d')))))
      else Inr ary)"
  by pat_completeness auto
termination
  by (relation "measure (\<lambda>(_, _, _, _, _, rem, _). unat rem)")
    (simp_all add: remaining_decreases)

declare sector_array_memset_loop.simps [simp del]

definition sector_array_memset ::
  "sector_data_array \<Rightarrow> u32 \<Rightarrow> u32 \<Rightarrow> u32 \<Rightarrow> sector_data_array res"
where
  "sector_array_memset sa offset sz val =
     ensure (sz > 0) Assert_Failed
       (ensure (is_valid_sector_data_array (Some sa)) Assert_Failed
         (ensure (sa_size sa > 0) Assert_Failed
           (res_bind (deref (sa_array sa)) (\<lambda>ary.
             let ssize = sa_sector_size sa in
             res_bind (sector_array_memset_loop ssize (sa_size sa) (ucast val)
                 (offset div ssize) (offset mod ssize) sz ary)
               (\<lambda>ary'. Inr (sa\<lparr>sa_array := Some ary'\<rparr>))))))"

section \<open>The flat view\<close>

text \<open>
  \<open>sectors_ok ss n ary\<close>: the first \<open>n\<close> pointers are sectors of \<open>ss\<close> bytes whose buffers hold
  \<open>ss\<close> bytes. \<open>flat_bytes\<close> concatenates them.
\<close>

definition sector_ok :: "u32 \<Rightarrow> sector_data option \<Rightarrow> bool" where
  "sector_ok ss p \<longleftrightarrow>
     (\<exists>s d. p = Some s \<and> sd_size s = ss \<and> sd_data s = Some d \<and> length d = unat ss)"

definition sector_payload :: "sector_data option \<Rightarrow> u8 list" where
  "sector_payload p =
     (case p of None \<Rightarrow> [] | Some s \<Rightarrow> (case sd_data s of None \<Rightarrow> [] | Some d \<Rightarrow> d))"

definition sectors_ok :: "u32 \<Rightarrow> sector_data option list \<Rightarrow> bool" where
  "sectors_ok ss ary \<longleftrightarrow> 0 < unat ss \<and> list_all (sector_ok ss) ary"

definition flat_bytes :: "sector_data option list \<Rightarrow> u8 list" where
  "flat_bytes ary = concat (map sector_payload ary)"

text \<open>The well-formed arrays: what \<open>sector_array_alloc\<close> returns.\<close>

definition sector_array_ok :: "sector_data_array \<Rightarrow> bool" where
  "sector_array_ok sa \<longleftrightarrow>
     (\<exists>ary. sa_array sa = Some ary \<and> length ary = unat (sa_size sa) \<and> sa_size sa \<noteq> 0
       \<and> sectors_ok (sa_sector_size sa) ary)"

definition sector_array_view :: "sector_data_array \<Rightarrow> u8 list" where
  "sector_array_view sa = (case sa_array sa of None \<Rightarrow> [] | Some ary \<Rightarrow> flat_bytes ary)"

lemma sector_ok_payload: "sector_ok ss p \<Longrightarrow> length (sector_payload p) = unat ss"
  by (auto simp: sector_ok_def sector_payload_def)

lemma sectors_ok_uniform:
  "sectors_ok ss ary \<Longrightarrow> \<forall>x \<in> set (map sector_payload ary). length x = unat ss"
  by (auto simp: sectors_ok_def list_all_iff sector_ok_payload)

lemma length_flat_bytes: "sectors_ok ss ary \<Longrightarrow> length (flat_bytes ary) = unat ss * length ary"
  using length_concat_uniform [OF sectors_ok_uniform] by (simp add: flat_bytes_def)

lemma sectors_ok_nth:
  assumes "sectors_ok ss ary" and "unat idx < length ary"
  obtains s where "ary ! unat idx = Some s" "sd_size s = ss"
    "sd_data s = Some (sector_payload (ary ! unat idx))"
    "length (sector_payload (ary ! unat idx)) = unat ss"
proof -
  have "sector_ok ss (ary ! unat idx)"
    using assms by (simp add: sectors_ok_def list_all_length)
  then show thesis using that by (auto simp: sector_ok_def sector_payload_def)
qed

lemma sector_bytes_ok:
  "sectors_ok ss ary \<Longrightarrow> unat idx < length ary \<Longrightarrow>
     sector_bytes ary idx = Inr (sector_payload (ary ! unat idx))"
  by (erule (1) sectors_ok_nth) (simp add: sector_bytes_def deref_def)

lemma set_sector_bytes_ok:
  assumes "sectors_ok ss ary" and "unat idx < length ary" and "length bs = unat ss"
  shows "sectors_ok ss (set_sector_bytes ary idx bs)"
    and "map sector_payload (set_sector_bytes ary idx bs) =
      (map sector_payload ary)[unat idx := bs]"
proof -
  obtain s where s: "ary ! unat idx = Some s" "sd_size s = ss"
    using assms(1,2) by (rule sectors_ok_nth)
  have "sector_ok ss (Some (s\<lparr>sd_data := Some bs\<rparr>))"
    using s assms(3) by (simp add: sector_ok_def)
  with assms(1,2) s show "sectors_ok ss (set_sector_bytes ary idx bs)"
    by (auto simp: sectors_ok_def set_sector_bytes_def list_all_iff
        dest!: set_update_subset_insert [THEN subsetD])
  show "map sector_payload (set_sector_bytes ary idx bs) =
      (map sector_payload ary)[unat idx := bs]"
    using s by (simp add: set_sector_bytes_def map_update sector_payload_def)
qed

lemma length_set_sector_bytes [simp]: "length (set_sector_bytes ary idx bs) = length ary"
  by (simp add: set_sector_bytes_def)

text \<open>Writing into one sector is writing into the flat view.\<close>

lemma flat_bytes_set_sector:
  assumes "sectors_ok ss ary" and "unat idx < length ary" and "off + length bs \<le> unat ss"
  shows "flat_bytes (set_sector_bytes ary idx (overwrite (sector_payload (ary ! unat idx)) off bs))
    = overwrite (flat_bytes ary) (unat idx * unat ss + off) bs"
proof -
  let ?p = "map sector_payload ary"
  have len: "length (sector_payload (ary ! unat idx)) = unat ss"
    using assms(1,2) by (rule sectors_ok_nth)
  have "concat (?p[unat idx := overwrite (?p ! unat idx) off bs])
      = overwrite (concat ?p) (unat idx * unat ss + off) bs"
    using sectors_ok_uniform [OF assms(1)] assms(2,3) by (intro concat_overwrite) auto
  then show ?thesis
    using assms len set_sector_bytes_ok(2) [OF assms(1,2)] by (simp add: flat_bytes_def)
qed

lemma flat_bytes_read_sector:
  assumes "sectors_ok ss ary" and "unat idx < length ary" and "off + m \<le> unat ss"
  shows "take m (drop off (sector_payload (ary ! unat idx)))
    = take m (drop (unat idx * unat ss + off) (flat_bytes ary))"
  using concat_read [OF sectors_ok_uniform [OF assms(1)], of "unat idx" off m] assms(2,3)
  by (simp add: flat_bytes_def)

lemma sector_ptrs_valid_ok:
  "list_all (sector_ok ss) ary \<Longrightarrow> 0 < unat ss \<Longrightarrow> n \<le> length ary \<Longrightarrow> sector_ptrs_valid ss n ary"
  by (induction ss n ary rule: sector_ptrs_valid.induct)
    (auto simp: sector_ok_def is_valid_sector_data_def word_less_nat_alt)

lemma sector_array_ok_valid: "sector_array_ok sa \<Longrightarrow> is_valid_sector_data_array (Some sa)"
  by (auto simp: sector_array_ok_def is_valid_sector_data_array_def sectors_ok_def
      intro!: sector_ptrs_valid_ok)

section \<open>Copying works on the flat view\<close>

text \<open>The arithmetic of one round, shared by the loops over the sectors.\<close>

lemma sector_position:
  fixes offset copied sz ss :: u32
  assumes "copied < sz" and "0 < unat ss" and "unat offset + unat sz < 2 ^ 32"
    and "unat offset + unat sz \<le> unat ss * n"
  defines "idx \<equiv> (offset + copied) div ss" and "off \<equiv> (offset + copied) mod ss"
  defines "t \<equiv> min (ss - off) (sz - copied)"
  shows "unat idx < n" and "unat off + unat t \<le> unat ss"
    and "unat idx * unat ss + unat off = unat offset + unat copied"
    and "unat (copied + t) = unat copied + unat t" and "copied + t \<le> sz"
    and "unat t \<le> unat sz - unat copied" and "0 < unat t"
proof -
  have pos: "unat (offset + copied) = unat offset + unat copied"
    using assms(1,3) by (intro unat_add_small) (simp add: word_less_nat_alt)
  have off: "unat off = (unat offset + unat copied) mod unat ss"
    and idx: "unat idx = (unat offset + unat copied) div unat ss"
    by (simp_all add: off_def idx_def unat_mod_distrib unat_div_distrib pos)
  have lt: "unat off < unat ss" using assms(2) by (simp add: off)
  show "unat idx * unat ss + unat off = unat offset + unat copied"
    by (simp add: off idx)
  show "unat idx < n"
    using assms(1,4) by (simp add: idx word_less_nat_alt less_mult_imp_div_less mult.commute)
  have t: "unat t = min (unat ss - unat off) (unat sz - unat copied)"
    using lt assms(1) by (auto simp: t_def min_def word_le_nat_alt word_less_nat_alt unat_sub)
  with lt show "unat off + unat t \<le> unat ss" by simp
  from t show "unat t \<le> unat sz - unat copied" by simp
  from t lt assms(1) show "0 < unat t" by (simp add: word_less_nat_alt)
  have "unat copied + unat t \<le> unat sz" using t assms(1) by (simp add: word_less_nat_alt)
  then show ct: "unat (copied + t) = unat copied + unat t"
    using assms(3) by (intro unat_add_small) simp
  with \<open>unat copied + unat t \<le> unat sz\<close> show "copied + t \<le> sz"
    by (simp add: word_le_nat_alt)
qed

lemma copy_from_step:
  fixes offset copied sz ss :: u32
  assumes ok: "sectors_ok ss ary" and fit: "unat offset + unat sz \<le> unat ss * length ary"
    and wrap: "unat offset + unat sz < 2 ^ 32" and data: "unat sz \<le> length data"
    and less: "copied < sz"
  defines "off \<equiv> (offset + copied) mod ss"
  defines "t \<equiv> min (ss - off) (sz - copied)"
  defines "bs \<equiv> take (unat t) (drop (unat copied) data)"
  obtains ary' where "sectors_ok ss ary'" "length ary' = length ary" "length bs = unat t"
    "flat_bytes ary' = overwrite (flat_bytes ary) (unat offset + unat copied) bs"
    "sector_array_copy_loop True ss offset sz copied ary data =
       sector_array_copy_loop True ss offset sz (copied + t) ary' data"
proof -
  let ?idx = "(offset + copied) div ss"
  have ss: "0 < unat ss" using ok by (simp add: sectors_ok_def)
  note pos = sector_position [OF less ss wrap fit, folded off_def, folded t_def]
  have len: "length bs = unat t" using pos(6) data less by (simp add: bs_def word_less_nat_alt)
  let ?sb = "overwrite (sector_payload (ary ! unat ?idx)) (unat off) bs"
  let ?ary = "set_sector_bytes ary ?idx ?sb"
  have pl: "length (sector_payload (ary ! unat ?idx)) = unat ss"
    using ok pos(1) by (rule sectors_ok_nth)
  have "sectors_ok ss ?ary"
    using ok pos(1,2) pl len by (intro set_sector_bytes_ok) simp_all
  moreover have "flat_bytes ?ary = overwrite (flat_bytes ary) (unat offset + unat copied) bs"
    using flat_bytes_set_sector [OF ok pos(1)] pos(2,3) len by simp
  moreover have "sector_array_copy_loop True ss offset sz copied ary data =
      sector_array_copy_loop True ss offset sz (copied + t) ?ary data"
    using less ss pos(1,2,6) pl len ok data
    by (subst sector_array_copy_loop.simps)
      (simp add: Let_def sector_bytes_ok unat_gt_0 word_less_nat_alt off_def t_def bs_def)
  ultimately show thesis using that len by simp
qed

lemma copy_from_loop_flat:
  assumes "sectors_ok ss ary" and "unat offset + unat sz \<le> unat ss * length ary"
    and wrap: "unat offset + unat sz < 2 ^ 32" and data: "unat sz \<le> length data"
    and "copied \<le> sz"
  shows "\<exists>ary'. sector_array_copy_loop True ss offset sz copied ary data = Inr (ary', data)
    \<and> sectors_ok ss ary' \<and> length ary' = length ary
    \<and> flat_bytes ary' = overwrite (flat_bytes ary) (unat offset + unat copied)
        (take (unat sz - unat copied) (drop (unat copied) data))"
  using assms(1,2,5)
proof (induction "unat sz - unat copied" arbitrary: copied ary rule: less_induct)
  case less
  show ?case
  proof (cases "copied < sz")
    case False
    with less.prems show ?thesis
      by (subst sector_array_copy_loop.simps) (simp add: word_less_nat_alt word_le_nat_alt)
  next
    case True
    let ?t = "min (ss - (offset + copied) mod ss) (sz - copied)"
    let ?bs = "take (unat ?t) (drop (unat copied) data)"
    have ss: "0 < unat ss" using less.prems(1) by (simp add: sectors_ok_def)
    note pos = sector_position [OF True ss wrap less.prems(2)]
    obtain ary1 where s1: "sectors_ok ss ary1" "length ary1 = length ary" "length ?bs = unat ?t"
      "flat_bytes ary1 = overwrite (flat_bytes ary) (unat offset + unat copied) ?bs"
      "sector_array_copy_loop True ss offset sz copied ary data =
         sector_array_copy_loop True ss offset sz (copied + ?t) ary1 data"
      using copy_from_step [OF less.prems(1,2) wrap data True] by blast
    let ?rest = "take (unat sz - unat (copied + ?t)) (drop (unat (copied + ?t)) data)"
    have dec: "unat sz - unat (copied + ?t) < unat sz - unat copied"
      using pos(4,6,7) by simp
    obtain ary' where ary': "sector_array_copy_loop True ss offset sz (copied + ?t) ary1 data
        = Inr (ary', data)" "sectors_ok ss ary'" "length ary' = length ary"
      "flat_bytes ary' = overwrite (flat_bytes ary1) (unat offset + unat (copied + ?t)) ?rest"
      using less.hyps [OF dec s1(1) _ pos(5)] s1(2) less.prems(2) by auto
    have "?bs @ ?rest = take (unat sz - unat copied) (drop (unat copied) data)"
      using take_drop_split [OF pos(6), of "unat copied" data] pos(4) by simp
    moreover have "flat_bytes ary' =
        overwrite (flat_bytes ary) (unat offset + unat copied) (?bs @ ?rest)"
      unfolding ary'(4) s1(4)
      by (rule overwrite_next)
        (use pos(4,6) s1(3) less.prems data in \<open>simp_all add: length_flat_bytes word_le_nat_alt\<close>)
    ultimately show ?thesis using s1(5) ary' by auto
  qed
qed

lemma copy_to_loop_flat:
  assumes ok: "sectors_ok ss ary" and fit: "unat offset + unat sz \<le> unat ss * length ary"
    and wrap: "unat offset + unat sz < 2 ^ 32" and "unat sz \<le> length data"
    and "copied \<le> sz"
  shows "sector_array_copy_loop False ss offset sz copied ary data =
    Inr (ary, overwrite data (unat copied)
      (take (unat sz - unat copied) (drop (unat offset + unat copied) (flat_bytes ary))))"
  using assms(4,5)
proof (induction "unat sz - unat copied" arbitrary: copied data rule: less_induct)
  case less
  show ?case
  proof (cases "copied < sz")
    case False
    with less.prems show ?thesis
      by (subst sector_array_copy_loop.simps) (simp add: word_less_nat_alt word_le_nat_alt)
  next
    case True
    let ?idx = "(offset + copied) div ss" and ?off = "(offset + copied) mod ss"
    let ?t = "min (ss - ?off) (sz - copied)"
    have ss: "0 < unat ss" using ok by (simp add: sectors_ok_def)
    note pos = sector_position [OF True ss wrap fit]
    let ?bs = "take (unat ?t) (drop (unat offset + unat copied) (flat_bytes ary))"
    let ?rest = "take (unat sz - unat (copied + ?t))
      (drop (unat offset + unat (copied + ?t)) (flat_bytes ary))"
    have pl: "length (sector_payload (ary ! unat ?idx)) = unat ss"
      using ok pos(1) by (rule sectors_ok_nth)
    have bs: "take (unat ?t) (drop (unat ?off) (sector_payload (ary ! unat ?idx))) = ?bs"
      using flat_bytes_read_sector [OF ok pos(1,2)] pos(3) by simp
    have len: "length ?bs = unat ?t" using pl pos(2) unfolding bs [symmetric] by simp
    have dec: "unat sz - unat (copied + ?t) < unat sz - unat copied"
      using pos(4,6,7) by simp
    have dl: "unat sz \<le> length (overwrite data (unat copied) ?bs)"
      using len pos(6) less.prems by (simp add: overwrite_def word_le_nat_alt)
    have "sector_array_copy_loop False ss offset sz copied ary data =
        sector_array_copy_loop False ss offset sz (copied + ?t) ary
          (overwrite data (unat copied) ?bs)"
      using True ss pos(1,2,6) pl len ok less.prems
      by (subst sector_array_copy_loop.simps)
        (simp add: Let_def sector_bytes_ok unat_gt_0 word_le_nat_alt bs)
    also have "\<dots> = Inr (ary, overwrite (overwrite data (unat copied) ?bs)
        (unat (copied + ?t)) ?rest)"
      by (rule less.hyps [OF dec dl pos(5)])
    also have "overwrite (overwrite data (unat copied) ?bs) (unat (copied + ?t)) ?rest =
        overwrite data (unat copied) (?bs @ ?rest)"
      by (rule overwrite_next) (use pos(4,6) len less.prems ok fit in
          \<open>simp_all add: length_flat_bytes word_le_nat_alt\<close>)
    also have "?bs @ ?rest = take (unat sz - unat copied)
        (drop (unat offset + unat copied) (flat_bytes ary))"
      using take_drop_split [OF pos(6), of "unat offset + unat copied" "flat_bytes ary"] pos(4)
      by (simp add: add.assoc)
    finally show ?thesis .
  qed
qed

lemma sector_array_view_length:
  assumes "sector_array_ok sa"
  shows "length (sector_array_view sa) = unat (sa_sector_size sa) * unat (sa_size sa)"
  using assms length_flat_bytes
  by (auto simp: sector_array_ok_def sector_array_view_def)

lemma sector_array_bound_check:
  assumes "sector_array_ok sa" and "unat offset + unat sz \<le> length (sector_array_view sa)"
    and "length (sector_array_view sa) < 2 ^ 32"
  shows "offset + sz \<le> sa_size sa * sa_sector_size sa"
proof -
  note len = sector_array_view_length [OF assms(1)]
  have "unat (offset + sz) = unat offset + unat sz"
    using assms(2,3) by (intro unat_add_small) simp
  moreover have "unat (sa_size sa * sa_sector_size sa) = unat (sa_size sa) * unat (sa_sector_size sa)"
    using assms(3) len by (intro unat_mult_small) (simp add: mult.commute)
  ultimately show ?thesis using assms(2) len by (simp add: word_le_nat_alt mult.commute)
qed

lemma sector_array_copy_from_view:
  assumes "sector_array_ok sa" and "unat offset + unat sz \<le> length (sector_array_view sa)"
    and "length (sector_array_view sa) < 2 ^ 32" and "unat sz \<le> length data"
  shows "\<exists>sa'. sector_array_copy_from sa offset (Some data) sz = Inr sa' \<and> sector_array_ok sa'
    \<and> sector_array_view sa' =
        overwrite (sector_array_view sa) (unat offset) (take (unat sz) data)"
proof -
  obtain ary where ary: "sa_array sa = Some ary" "length ary = unat (sa_size sa)"
    "sa_size sa \<noteq> 0" "sectors_ok (sa_sector_size sa) ary"
    using assms(1) by (auto simp: sector_array_ok_def)
  have view: "sector_array_view sa = flat_bytes ary" using ary by (simp add: sector_array_view_def)
  obtain ary' where "sector_array_copy_loop True (sa_sector_size sa) offset sz 0 ary data
      = Inr (ary', data)" "sectors_ok (sa_sector_size sa) ary'" "length ary' = length ary"
    "flat_bytes ary' = overwrite (flat_bytes ary) (unat offset) (take (unat sz) data)"
    using copy_from_loop_flat [OF ary(4), of offset sz data 0] assms view
      length_flat_bytes [OF ary(4)] by auto
  then show ?thesis
    using ary view sector_array_bound_check [OF assms(1-3)] sector_array_ok_valid [OF assms(1)]
    by (auto simp: sector_array_copy_from_def sector_array_copy_detail_def deref_def
        sector_array_ok_def sector_array_view_def)
qed

lemma sector_array_copy_to_view:
  assumes "sector_array_ok sa" and "unat offset + unat sz \<le> length (sector_array_view sa)"
    and "length (sector_array_view sa) < 2 ^ 32" and "unat sz \<le> length data"
  shows "sector_array_copy_to sa offset (Some data) sz =
    Inr (Some (overwrite data 0 (take (unat sz) (drop (unat offset) (sector_array_view sa)))))"
proof -
  obtain ary where ary: "sa_array sa = Some ary" "length ary = unat (sa_size sa)"
    "sectors_ok (sa_sector_size sa) ary"
    using assms(1) by (auto simp: sector_array_ok_def)
  have view: "sector_array_view sa = flat_bytes ary" using ary by (simp add: sector_array_view_def)
  have "sector_array_copy_loop False (sa_sector_size sa) offset sz 0 ary data =
      Inr (ary, overwrite data 0 (take (unat sz) (drop (unat offset) (flat_bytes ary))))"
    using copy_to_loop_flat [OF ary(3), of offset sz data 0] assms view
      length_flat_bytes [OF ary(3)] by auto
  then show ?thesis
    using ary view sector_array_bound_check [OF assms(1-3)] sector_array_ok_valid [OF assms(1)]
    by (simp add: sector_array_copy_to_def sector_array_copy_detail_def deref_def)
qed

section \<open>Checksum and memset work on the flat view\<close>

lemma sector_walk:
  fixes idx off rem ss :: u32
  assumes "rem > 0" and "off < ss" and fit: "unat idx * unat ss + unat off + unat rem \<le> unat ss * n"
    and "n < 2 ^ 32"
  defines "t \<equiv> min (ss - off) rem"
  shows "unat idx < n" and "unat off + unat t \<le> unat ss" and "unat t \<le> unat rem"
    and "unat (rem - t) = unat rem - unat t" and "0 < unat t"
    and "rem - t > 0 \<Longrightarrow> unat (idx + 1) * unat ss = unat idx * unat ss + unat off + unat t"
    and "unat t mod 4 = 0 \<longleftrightarrow> (if ss - off \<le> rem then unat (ss - off) else unat rem) mod 4 = 0"
proof -
  have t: "unat t = min (unat ss - unat off) (unat rem)"
    using assms(2) by (auto simp: t_def min_def word_le_nat_alt word_less_nat_alt unat_sub)
  show "unat off + unat t \<le> unat ss" "unat t \<le> unat rem" "0 < unat t"
    using t assms(1,2) by (simp_all add: word_less_nat_alt)
  have "t \<le> rem" by (simp add: t_def)
  then show "unat (rem - t) = unat rem - unat t" by (rule unat_sub)
  have rem: "0 < unat rem" using assms(1) by (simp add: word_less_nat_alt)
  then have "unat idx * unat ss < n * unat ss"
    using fit unfolding mult.commute [of "unat ss" n] by linarith
  then show lt: "unat idx < n" by simp
  show "unat t mod 4 = 0 \<longleftrightarrow> (if ss - off \<le> rem then unat (ss - off) else unat rem) mod 4 = 0"
    by (simp add: t_def min_def)
  assume "rem - t > 0"
  then have "unat t < unat rem"
    using \<open>unat (rem - t) = unat rem - unat t\<close> by (simp add: word_less_nat_alt)
  with t have tt: "unat t = unat ss - unat off" by simp
  have "(unat idx + 1) * unat ss < n * unat ss"
    using fit tt \<open>unat t < unat rem\<close> assms(2) unfolding mult.commute [of "unat ss" n]
    by (simp add: word_less_nat_alt)
  then have "unat idx + 1 < n" by (simp only: mult_less_cancel2)
  with assms(4) have "unat (idx + 1) = unat idx + 1" by (subst unat_add_small) simp_all
  then show "unat (idx + 1) * unat ss = unat idx * unat ss + unat off + unat t"
    using tt assms(2) by (simp add: word_less_nat_alt)
qed

lemma mod4_diff: "a mod 4 = 0 \<Longrightarrow> b mod 4 = 0 \<Longrightarrow> (a - b) mod 4 = (0 :: nat)"
  by (metis dvd_diff_nat mod_eq_0_iff_dvd)

lemma checksum_loop_step:
  fixes idx off rem ss n :: u32
  assumes ok: "sectors_ok ss ary" and n: "unat n = length ary" and "off < ss" and "rem > 0"
    and al: "unat ss mod 4 = 0" "unat off mod 4 = 0" "unat rem mod 4 = 0"
    and fit: "unat idx * unat ss + unat off + unat rem \<le> unat ss * length ary"
  defines "t \<equiv> min (ss - off) rem"
  defines "bs \<equiv> take (unat t) (drop (unat idx * unat ss + unat off) (flat_bytes ary))"
  shows "sector_array_checksum_loop ss n ary idx off rem acc =
      sector_array_checksum_loop ss n ary (idx + 1) 0 (rem - t) (acc + word_sum bs)"
    and "length bs = unat t" and "unat t mod 4 = 0"
proof -
  have nl: "length ary < 2 ^ 32" using n unat_lt32 [of n] by (simp del: unat_lt32)
  note w = sector_walk [OF assms(4,3) fit nl, folded t_def]
  have "unat (ss - off) mod 4 = 0"
    using mod4_diff [OF al(1,2)] assms(3) by (simp add: unat_sub word_less_nat_alt word_le_nat_alt)
  then show t4: "unat t mod 4 = 0" using w(7) al(3) by (simp split: if_splits)
  have pl: "length (sector_payload (ary ! unat idx)) = unat ss"
    using ok w(1) by (rule sectors_ok_nth)
  have bs: "take (unat t) (drop (unat off) (sector_payload (ary ! unat idx))) = bs"
    unfolding bs_def by (rule flat_bytes_read_sector [OF ok w(1,2)])
  then show "length bs = unat t" using pl w(2) by auto
  have part: "checksum_partial acc (drop (unat off) (sector_payload (ary ! unat idx))) t =
      Inr (acc + word_sum bs)"
    using checksum_partial_word_sum [OF t4] w(2) pl bs by simp
  have "idx < n" using w(1) n by (simp add: word_less_nat_alt)
  then show "sector_array_checksum_loop ss n ary idx off rem acc =
      sector_array_checksum_loop ss n ary (idx + 1) 0 (rem - t) (acc + word_sum bs)"
    using assms(3,4) w(1,2) pl part ok
    by (subst sector_array_checksum_loop.simps) (simp add: Let_def sector_bytes_ok t_def)
qed

lemma checksum_loop_flat:
  assumes ok: "sectors_ok ss ary" and n: "unat n = length ary" and "off < ss"
    and al: "unat ss mod 4 = 0" and "unat off mod 4 = 0" "unat rem mod 4 = 0"
    and "unat idx * unat ss + unat off + unat rem \<le> unat ss * length ary"
  shows "sector_array_checksum_loop ss n ary idx off rem acc =
    Inr (acc + word_sum (take (unat rem) (drop (unat idx * unat ss + unat off) (flat_bytes ary))))"
  using assms(3,5-)
proof (induction "unat rem" arbitrary: idx off rem acc rule: less_induct)
  case less
  show ?case
  proof (cases "rem > 0")
    case False
    then have "unat rem = 0" by (simp add: word_less_nat_alt)
    with False show ?thesis by (subst sector_array_checksum_loop.simps) simp
  next
    case True
    let ?t = "min (ss - off) rem" and ?p = "unat idx * unat ss + unat off"
    let ?bs = "take (unat ?t) (drop ?p (flat_bytes ary))"
    have nl: "length ary < 2 ^ 32" using n unat_lt32 [of n] by (simp del: unat_lt32)
    note w = sector_walk [OF True less.prems(1,4) nl]
    note st = checksum_loop_step [OF ok n less.prems(1) True al less.prems(2-4)]
    have rem4: "unat (rem - ?t) mod 4 = 0" using mod4_diff [OF less.prems(3) st(3)] w(4) by simp
    have rec: "sector_array_checksum_loop ss n ary (idx + 1) 0 (rem - ?t) a =
        Inr (a + word_sum (take (unat (rem - ?t)) (drop (?p + unat ?t) (flat_bytes ary))))" for a
    proof (cases "rem - ?t > 0")
      case more: True
      have "0 < ss" using less.prems(1) by (simp add: word_less_nat_alt)
      moreover have "unat (rem - ?t) < unat rem" using w(3,4,5) by simp
      ultimately show ?thesis
        using less.hyps [of "rem - ?t" 0 "idx + 1" a] w(3,4) w(6) [OF more] rem4 less.prems(4)
        by simp
    next
      case False
      then have "unat (rem - ?t) = 0" by (simp add: word_less_nat_alt)
      with False show ?thesis by (subst sector_array_checksum_loop.simps) simp
    qed
    have "word_sum (take (unat rem) (drop ?p (flat_bytes ary))) =
        word_sum ?bs + word_sum (take (unat (rem - ?t)) (drop (?p + unat ?t) (flat_bytes ary)))"
      using take_drop_split [OF w(3), of ?p "flat_bytes ary"] w(4) st(2,3)
        word_sum_append [of ?bs] by (metis mod_eq_0_iff_dvd)
    then show ?thesis using st(1) rec by (simp add: add.assoc)
  qed
qed

lemma sector_array_checksum_view:
  assumes "sector_array_ok sa" and "unat (sa_sector_size sa) mod 4 = 0"
    and "unat offset mod 4 = 0" and "unat sz mod 4 = 0" and "0 < unat sz"
    and "unat offset + unat sz \<le> length (sector_array_view sa)"
  shows "sector_array_checksum sa offset sz salt =
    Inr (- (salt + word_sum (take (unat sz) (drop (unat offset) (sector_array_view sa)))))"
proof -
  obtain ary where ary: "sa_array sa = Some ary" "unat (sa_size sa) = length ary"
    "sa_size sa \<noteq> 0" "sectors_ok (sa_sector_size sa) ary"
    using assms(1) by (auto simp: sector_array_ok_def)
  let ?ss = "sa_sector_size sa"
  have ss: "0 < unat ?ss" using ary(4) by (simp add: sectors_ok_def)
  have off: "offset mod ?ss < ?ss" using ss by (simp add: word_less_nat_alt unat_mod_distrib)
  have off4: "unat (offset mod ?ss) mod 4 = 0"
    using assms(2,3) by (simp add: unat_mod_distrib mod_mod_cancel mod_eq_0_iff_dvd dvd_mod)
  have pos: "unat (offset div ?ss) * unat ?ss + unat (offset mod ?ss) = unat offset"
    by (simp add: unat_mod_distrib unat_div_distrib)
  have view: "sector_array_view sa = flat_bytes ary" using ary by (simp add: sector_array_view_def)
  have ne: "ary \<noteq> []" using ary(2,3) by (auto simp: unat_eq_0)
  show ?thesis
    using ne checksum_loop_flat [OF ary(4,2) off assms(2) off4 assms(4), of "offset div ?ss"]
      assms pos view length_flat_bytes [OF ary(4)] ary sector_array_ok_valid [OF assms(1)]
    by (simp add: sector_array_checksum_def deref_def word_less_nat_alt unat_gt_0
        checksum_finish_eq)
qed

end
