(* ===== verification/Sector_Store.thy ===== *)
theory Sector_Store
  imports Sector
begin

text \<open>
  What the sector arrays of \<^verbatim>\<open>sector.h\<close> promise to their users. The locale \<open>byte_store\<close> states
  the contract of a byte-addressed store with bounded reads and writes, its lemmas are what
  clients use (a read returns the last write, other bytes keep their value), and the sector
  arrays are an instance through their flat view. The second part accounts for memory:
  allocation, growth and shrinking leave no block behind.
\<close>

section \<open>Memset on the flat view\<close>

lemma memset_loop_step:
  fixes idx off rem ss n :: u32 and val :: u8
  assumes ok: "sectors_ok ss ary" and n: "unat n = length ary" and "off < ss" and "rem > 0"
    and fit: "unat idx * unat ss + unat off + unat rem \<le> unat ss * length ary"
  defines "t \<equiv> min (ss - off) rem"
  defines "ary1 \<equiv> set_sector_bytes ary idx
    (overwrite (sector_payload (ary ! unat idx)) (unat off) (replicate (unat t) val))"
  shows "sector_array_memset_loop ss n val idx off rem ary =
      sector_array_memset_loop ss n val (idx + 1) 0 (rem - t) ary1"
    and "sectors_ok ss ary1" and "length ary1 = length ary"
    and "flat_bytes ary1 =
      overwrite (flat_bytes ary) (unat idx * unat ss + unat off) (replicate (unat t) val)"
proof -
  have nl: "length ary < 2 ^ 32" using n unat_lt32 [of n] by (simp del: unat_lt32)
  note w = sector_walk [OF assms(4,3) fit nl, folded t_def]
  have pl: "length (sector_payload (ary ! unat idx)) = unat ss"
    using ok w(1) by (rule sectors_ok_nth)
  have "idx < n" using w(1) n by (simp add: word_less_nat_alt)
  then show "sector_array_memset_loop ss n val idx off rem ary =
      sector_array_memset_loop ss n val (idx + 1) 0 (rem - t) ary1"
    using assms(3,4) w(1,2) pl ok
    by (subst sector_array_memset_loop.simps)
      (simp add: Let_def sector_bytes_ok t_def [symmetric] ary1_def)
  show "sectors_ok ss ary1"
    unfolding ary1_def using w(2) pl by (intro set_sector_bytes_ok(1) [OF ok w(1)]) simp
  show "length ary1 = length ary" by (simp add: ary1_def)
  show "flat_bytes ary1 =
      overwrite (flat_bytes ary) (unat idx * unat ss + unat off) (replicate (unat t) val)"
    unfolding ary1_def using w(2) by (intro flat_bytes_set_sector [OF ok w(1)]) simp
qed

lemma memset_loop_flat:
  assumes "sectors_ok ss ary" and "unat n = length ary" and "off < ss"
    and "unat idx * unat ss + unat off + unat rem \<le> unat ss * length ary"
  shows "\<exists>ary'. sector_array_memset_loop ss n val idx off rem ary = Inr ary'
    \<and> sectors_ok ss ary' \<and> length ary' = length ary
    \<and> flat_bytes ary' =
        overwrite (flat_bytes ary) (unat idx * unat ss + unat off) (replicate (unat rem) val)"
  using assms
proof (induction "unat rem" arbitrary: idx off rem ary rule: less_induct)
  case less
  show ?case
  proof (cases "rem > 0")
    case False
    then have "unat rem = 0" by (simp add: word_less_nat_alt)
    with False less.prems(1) show ?thesis by (subst sector_array_memset_loop.simps) simp
  next
    case True
    let ?t = "min (ss - off) rem" and ?p = "unat idx * unat ss + unat off"
    have nl: "length ary < 2 ^ 32"
      using less.prems(2) unat_lt32 [of n] by (simp del: unat_lt32)
    note w = sector_walk [OF True less.prems(3,4) nl]
    note st = memset_loop_step [OF less.prems(1-3) True less.prems(4), where val = val]
    let ?ary = "set_sector_bytes ary idx
      (overwrite (sector_payload (ary ! unat idx)) (unat off) (replicate (unat ?t) val))"
    have ss: "0 < ss" using less.prems(3) by (simp add: word_less_nat_alt)
    have flat: "overwrite (flat_bytes ?ary) (?p + unat ?t) (replicate (unat (rem - ?t)) val) =
        overwrite (flat_bytes ary) ?p (replicate (unat rem) val)"
      unfolding st(4)
      using w(3,4) less.prems(4) length_flat_bytes [OF less.prems(1)]
      by (subst overwrite_next) (simp_all add: replicate_add [symmetric])
    show ?thesis
    proof (cases "rem - ?t > 0")
      case more: True
      have "unat (rem - ?t) < unat rem" using w(3,4,5) by simp
      moreover have "unat (idx + 1) * unat ss + unat (0 :: u32) + unat (rem - ?t)
          \<le> unat ss * length ?ary"
        using w(3,4) w(6) [OF more] less.prems(4) by simp
      ultimately show ?thesis
        using less.hyps [OF _ st(2) _ ss, of "rem - ?t" "idx + 1"] st(1,3) flat
          less.prems(2) w(6) [OF more] by simp
    next
      case no_more: False
      then have "unat (rem - ?t) = 0" by (simp add: word_less_nat_alt)
      then show ?thesis
        using no_more st flat by (subst st(1), subst sector_array_memset_loop.simps) simp
    qed
  qed
qed

lemma sector_array_memset_flat:
  assumes "sector_array_ok sa" and "0 < unat sz"
    and "unat offset + unat sz \<le> length (sector_array_view sa)"
  shows "\<exists>sa'. sector_array_memset sa offset sz val = Inr sa' \<and> sector_array_ok sa'
    \<and> sector_array_view sa' =
        overwrite (sector_array_view sa) (unat offset) (replicate (unat sz) (ucast val))"
proof -
  obtain ary where ary: "sa_array sa = Some ary" "unat (sa_size sa) = length ary"
    "sa_size sa \<noteq> 0" "sectors_ok (sa_sector_size sa) ary"
    using assms(1) by (auto simp: sector_array_ok_def)
  let ?ss = "sa_sector_size sa"
  have ss: "0 < unat ?ss" using ary(4) by (simp add: sectors_ok_def)
  have off: "offset mod ?ss < ?ss" using ss by (simp add: word_less_nat_alt unat_mod_distrib)
  have pos: "unat (offset div ?ss) * unat ?ss + unat (offset mod ?ss) = unat offset"
    by (simp add: unat_mod_distrib unat_div_distrib)
  have view: "sector_array_view sa = flat_bytes ary" using ary by (simp add: sector_array_view_def)
  obtain ary' where m: "sector_array_memset_loop ?ss (sa_size sa) (ucast val)
        (offset div ?ss) (offset mod ?ss) sz ary = Inr ary'"
    "sectors_ok ?ss ary'" "length ary' = length ary"
    "flat_bytes ary' = overwrite (flat_bytes ary) (unat offset) (replicate (unat sz) (ucast val))"
    using memset_loop_flat [OF ary(4,2) off, of "offset div ?ss" sz "ucast val"] assms(3) pos view
      length_flat_bytes [OF ary(4)] by auto
  have ne: "ary \<noteq> []" using ary(2,3) by (auto simp: unat_eq_0)
  have "sector_array_memset sa offset sz val = Inr (sa\<lparr>sa_array := Some ary'\<rparr>)"
    using m(1) ary ne assms(2) sector_array_ok_valid [OF assms(1)]
    by (simp add: sector_array_memset_def deref_def word_less_nat_alt unat_gt_0)
  moreover have "sector_array_ok (sa\<lparr>sa_array := Some ary'\<rparr>)"
    using m ary by (simp add: sector_array_ok_def)
  ultimately show ?thesis using m(4) view by (simp add: sector_array_view_def)
qed

section \<open>The interface of a byte store\<close>

locale byte_store =
  fixes ok :: "'s \<Rightarrow> bool"
    and view :: "'s \<Rightarrow> u8 list"
    and put :: "'s \<Rightarrow> u32 \<Rightarrow> u8 list \<Rightarrow> 's res"
    and get :: "'s \<Rightarrow> u32 \<Rightarrow> u32 \<Rightarrow> u8 list res"
  assumes write_ok: "ok s \<Longrightarrow> unat off + length bs \<le> length (view s) \<Longrightarrow>
      \<exists>s'. put s off bs = Inr s' \<and> ok s' \<and> view s' = overwrite (view s) (unat off) bs"
    and read_ok: "ok s \<Longrightarrow> unat off + unat n \<le> length (view s) \<Longrightarrow>
      get s off n = Inr (take (unat n) (drop (unat off) (view s)))"
begin

lemma write_length:
  assumes "ok s" and "unat off + length bs \<le> length (view s)" and "put s off bs = Inr s'"
  shows "length (view s') = length (view s)"
  using write_ok [OF assms(1,2)] assms(2,3) by auto

lemma read_write_same:
  assumes "ok s" and "unat off + length bs \<le> length (view s)" and "put s off bs = Inr s'"
    and "unat n = length bs"
  shows "get s' off n = Inr bs"
  using write_ok [OF assms(1,2)] assms(2-) read_ok [of s' off n] overwrite_read [of _ bs] by auto

lemma read_write_disjoint:
  assumes "ok s" and "unat off + length bs \<le> length (view s)" and "put s off bs = Inr s'"
    and "unat o2 + unat n \<le> length (view s)"
    and "unat o2 + unat n \<le> unat off \<or> unat off + length bs \<le> unat o2"
  shows "get s' o2 n = get s o2 n"
proof -
  have s': "ok s'" "view s' = overwrite (view s) (unat off) bs"
    using write_ok [OF assms(1,2)] assms(3) by auto
  have "take (unat n) (drop (unat o2) (view s')) = take (unat n) (drop (unat o2) (view s))"
    using assms(2,4,5) s' by (intro nth_equalityI) (auto simp: nth_overwrite)
  then show ?thesis
    using read_ok [OF s'(1), of o2 n] read_ok [OF assms(1,4)] assms(2,4) s'(2) by simp
qed

lemma write_write_last:
  assumes "ok s" and "unat off + length bs \<le> length (view s)" and "put s off bs = Inr s1"
    and "length cs = length bs" and "put s1 off cs = Inr s2"
  shows "view s2 = overwrite (view s) (unat off) cs"
proof -
  have s1: "ok s1" "view s1 = overwrite (view s) (unat off) bs"
    using write_ok [OF assms(1,2)] assms(3) by auto
  have "view s2 = overwrite (view s1) (unat off) cs"
    using write_ok [OF s1(1), of off cs] assms s1(2) by auto
  also have "\<dots> = overwrite (view s) (unat off) cs"
    using assms(2,4) s1(2) by (intro nth_equalityI) (auto simp: nth_overwrite)
  finally show ?thesis .
qed

end

text \<open>
  The sector arrays whose total size fits in 32 bits: a write is \<open>sector_array_copy_from\<close> of a
  buffer that is as long as the size passed, a read is \<open>sector_array_copy_to\<close> into a zeroed
  buffer.
\<close>

definition sector_store_ok :: "sector_data_array \<Rightarrow> bool" where
  "sector_store_ok sa \<longleftrightarrow> sector_array_ok sa \<and> length (sector_array_view sa) < 2 ^ 32"

definition sector_store_write :: "sector_data_array \<Rightarrow> u32 \<Rightarrow> u8 list \<Rightarrow> sector_data_array res" where
  "sector_store_write sa off bs = sector_array_copy_from sa off (Some bs) (of_nat (length bs))"

definition sector_store_read :: "sector_data_array \<Rightarrow> u32 \<Rightarrow> u32 \<Rightarrow> u8 list res" where
  "sector_store_read sa off n =
     res_bind (sector_array_copy_to sa off (Some (replicate (unat n) 0)) n) deref"

interpretation sector_store: byte_store sector_store_ok sector_array_view
    sector_store_write sector_store_read
proof
  fix s :: sector_data_array and off :: u32 and bs :: "u8 list"
  assume s: "sector_store_ok s" "unat off + length bs \<le> length (sector_array_view s)"
  have len: "unat (of_nat (length bs) :: u32) = length bs"
    using s by (simp add: sector_store_ok_def unat_of_nat)
  obtain s' where s': "sector_array_copy_from s off (Some bs) (of_nat (length bs)) = Inr s'"
    "sector_array_ok s'" "sector_array_view s' = overwrite (sector_array_view s) (unat off) bs"
    using sector_array_copy_from_view [of s off "of_nat (length bs)" bs] s len
    by (auto simp: sector_store_ok_def)
  then show "\<exists>s'. sector_store_write s off bs = Inr s' \<and> sector_store_ok s' \<and>
      sector_array_view s' = overwrite (sector_array_view s) (unat off) bs"
    using s by (simp add: sector_store_write_def sector_store_ok_def)
next
  fix s :: sector_data_array and off n :: u32
  assume s: "sector_store_ok s" "unat off + unat n \<le> length (sector_array_view s)"
  then show "sector_store_read s off n =
      Inr (take (unat n) (drop (unat off) (sector_array_view s)))"
    using sector_array_copy_to_view [of s off n "replicate (unat n) 0"]
    by (simp add: sector_store_read_def sector_store_ok_def deref_def overwrite_def)
qed

section \<open>Memory accounting\<close>

text \<open>A sector is two blocks, the header and the buffer.\<close>

lemma heap_alloc_live: "heap_alloc h = (b, h') \<Longrightarrow> live h' = live h + (if b then 1 else 0)"
  by (auto simp: heap_alloc_def split: list.splits)

lemma amalloc_live: "amalloc a h = (b, h') \<Longrightarrow> live h' = live h + (if b then 1 else 0)"
  by (auto simp: amalloc_def dest: heap_alloc_live split: if_splits)

lemma live_heap_free [simp]: "live (heap_free h) = live h - 1"
  by (simp add: heap_free_def)

lemma sector_alloc_result:
  assumes "0 < ss"
  shows "\<exists>r h'. sector_alloc ss h = Inr (r, h') \<and>
    (r = None \<and> live h' = live h \<or> sector_ok ss r \<and> live h' = live h + 2)"
  using assms
  by (auto simp: sector_alloc_def is_valid_sector_data_def sector_ok_def Let_def
      dest!: heap_alloc_live amalloc_live split: prod.splits)

lemma sector_free_live: "sector_ok ss p \<Longrightarrow> live (sector_free p h) = live h - 2"
  by (auto simp: sector_ok_def sector_free_def)

lemma sectors_free_live:
  "list_all (sector_ok ss) ps \<Longrightarrow> live (sectors_free ps h) = live h - 2 * length ps"
  by (induction ps arbitrary: h) (auto simp: sector_free_live)

lemma sectors_free_append: "sectors_free (ps @ qs) h = sectors_free qs (sectors_free ps h)"
  by (induction ps arbitrary: h) auto

lemma sectors_free_replicate_None [simp]: "sectors_free (replicate k None) h = h"
  by (induction k) (simp_all add: sector_free_def)

lemma sectors_free_checked_ok:
  "list_all (sector_ok ss) ps \<Longrightarrow> sectors_free_checked ps h = Inr (sectors_free ps h)"
  by (induction ps arbitrary: h) (auto simp: sector_ok_def)

lemma sector_ptrs_none: "k < n \<Longrightarrow> k < length ary \<Longrightarrow> ary ! k = None \<Longrightarrow> \<not> sector_ptrs_valid ss n ary"
  by (induction ss n ary arbitrary: k rule: sector_ptrs_valid.induct)
    (auto simp: is_valid_sector_data_def nth_Cons split: nat.splits)

lemma sector_ptrs_valid_prefix:
  assumes "list_all (sector_ok ss) ary" and "0 < unat ss"
  shows "sector_ptrs_valid ss (length ary) (ary @ xs)"
  using assms by (induction ary)
    (auto simp: sector_ok_def is_valid_sector_data_def word_less_nat_alt)

lemma sector_array_alloc_loop_result:
  assumes "0 < ss" and "0 < n" and "list_all (sector_ok ss) filled"
    and "length filled + k = unat n"
  shows "sector_array_alloc_loop k ss n filled h = Inl Assert_Failed \<or>
    (\<exists>sa h'. sector_array_alloc_loop k ss n filled h = Inr (Some sa, h') \<and> sector_array_ok sa
       \<and> sa_sector_size sa = ss \<and> sa_size sa = n \<and> live h' = live h + 2 * k)"
  using assms(3,4)
proof (induction k arbitrary: filled h)
  case 0
  then show ?case
    using assms(1,2) by (auto simp: sector_array_ok_def sectors_ok_def word_less_nat_alt)
next
  case (Suc k)
  obtain r h' where r: "sector_alloc ss h = Inr (r, h')"
    "r = None \<and> live h' = live h \<or> sector_ok ss r \<and> live h' = live h + 2"
    using sector_alloc_result [OF assms(1)] by blast
  show ?case
  proof (cases r)
    case None
    have "\<not> sector_ptrs_valid ss (unat n) (filled @ replicate (Suc k) None)"
      using Suc.prems(2) by (intro sector_ptrs_none [of "length filled"]) (simp_all add: nth_append)
    then show ?thesis
      using Suc.prems(2) None r(1)
      by (auto simp: sector_array_free_def is_valid_sector_data_array_def)
  next
    case (Some s)
    with r have "sector_ok ss (Some s)" "live h' = live h + 2" by auto
    with Suc.IH [of "filled @ [Some s]" h'] Suc.prems r(1) Some show ?thesis by simp
  qed
qed

lemma sector_alloc_success:
  assumes "0 < ss" and "ss AND (ss - 1) = 0" and "ss mod 8 = 0"
    and "outcomes h = True # True # os"
  shows "\<exists>r h'. sector_alloc ss h = Inr (Some r, h') \<and> sector_ok ss (Some r)
    \<and> outcomes h' = os \<and> live h' = live h + 2"
  using assms
  by (simp add: sector_alloc_def heap_alloc_def amalloc_def is_valid_sector_data_def sector_ok_def)

lemma sector_array_alloc_loop_success:
  assumes "0 < ss" and "ss AND (ss - 1) = 0" and "ss mod 8 = 0"
    and "outcomes h = replicate (2 * k) True @ os"
  shows "\<exists>sa h'. sector_array_alloc_loop k ss n filled h = Inr (Some sa, h')"
  using assms(4)
proof (induction k arbitrary: filled h)
  case 0
  then show ?case by simp
next
  case (Suc k)
  then have "outcomes h = True # True # (replicate (2 * k) True @ os)" by simp
  from sector_alloc_success [OF assms(1-3) this] Suc.IH show ?case by fastforce
qed

lemma sector_array_free_ok:
  assumes "sector_array_ok sa"
  shows "\<exists>h'. sector_array_free (Some sa) h = Inr h'
    \<and> live h' = live h - (2 * unat (sa_size sa) + 2)"
proof -
  obtain ary where ary: "sa_array sa = Some ary" "length ary = unat (sa_size sa)"
    "list_all (sector_ok (sa_sector_size sa)) ary"
    using assms by (auto simp: sector_array_ok_def sectors_ok_def)
  then show ?thesis
    using sector_array_ok_valid [OF assms] sectors_free_live [OF ary(3)]
    by (simp add: sector_array_free_def)
qed

lemma sector_array_grow_loop_result:
  assumes "0 < ss" and "list_all (sector_ok ss) grown" and "live h = L + 2 * length grown"
  shows "\<exists>r h'. sector_array_grow_loop k ss grown h = Inr (r, h') \<and>
    (case r of
       None \<Rightarrow> live h' = L
     | Some g \<Rightarrow> length g = length grown + k \<and> list_all (sector_ok ss) g
         \<and> live h' = L + 2 * length g)"
  using assms(2,3)
proof (induction k arbitrary: grown h)
  case 0
  then show ?case by simp
next
  case (Suc k)
  obtain r h' where r: "sector_alloc ss h = Inr (r, h')"
    "r = None \<and> live h' = live h \<or> sector_ok ss r \<and> live h' = live h + 2"
    using sector_alloc_result [OF assms(1)] by blast
  show ?case
  proof (cases r)
    case None
    then show ?thesis
      using r Suc.prems sectors_free_live [OF Suc.prems(1), of h']
      by (auto simp: sectors_free_append sector_ok_def sector_free_def
          simp del: replicate_Suc)
  next
    case (Some s)
    with r have "sector_ok ss (Some s)" "live h' = live h + 2" by auto
    with Suc.IH [of "grown @ [Some s]" h'] Suc.prems r(1) Some show ?thesis
      by (simp cong: option.case_cong)
  qed
qed

text \<open>
  \<open>sector_array_alloc\<close> with memory available returns an array with the requested sector
  size and count whose sectors are all allocated at their full size; freeing it afterwards
  returns every block it took.
\<close>

theorem sector_array_alloc_free:
  assumes "0 < ss" and "ss AND (ss - 1) = 0" and "ss mod 8 = 0" and "0 < n"
    and "outcomes h = replicate (2 + 2 * unat n) True @ os"
  shows "\<exists>sa h1 h2. sector_array_alloc ss n h = Inr (Some sa, h1) \<and> sector_array_ok sa
    \<and> sa_sector_size sa = ss \<and> sa_size sa = n \<and> live h1 = live h + 2 + 2 * unat n
    \<and> sector_array_free (Some sa) h1 = Inr h2 \<and> live h2 = live h"
proof -
  define h0 where
    "h0 = h\<lparr>outcomes := replicate (2 * unat n) True @ os, live := Suc (Suc (live h))\<rparr>"
  have a: "sector_array_alloc ss n h = sector_array_alloc_loop (unat n) ss n [] h0"
    using assms by (simp add: sector_array_alloc_def heap_alloc_def h0_def)
  obtain sa h1 where sa: "sector_array_alloc_loop (unat n) ss n [] h0 = Inr (Some sa, h1)"
    using sector_array_alloc_loop_success [OF assms(1-3), of h0 "unat n" os n "[]"]
    by (auto simp: h0_def)
  then have ok: "sector_array_ok sa" "sa_sector_size sa = ss" "sa_size sa = n"
    "live h1 = live h + 2 + 2 * unat n"
    using sector_array_alloc_loop_result [OF assms(1,4), of "[]" "unat n" h0]
    by (auto simp: h0_def)
  then show ?thesis using a sa sector_array_free_ok [OF ok(1), of h1] by auto
qed

theorem sector_array_alloc_free_witness:
  "\<exists>sa h1 h2. sector_array_alloc 512 3 \<lparr>outcomes = replicate 8 True, live = 5, fresh = (\<lambda>_. 7)\<rparr>
      = Inr (Some sa, h1) \<and> sector_array_ok sa
    \<and> sa_sector_size sa = 512 \<and> sa_size sa = 3 \<and> live h1 = 5 + 2 + 2 * unat (3 :: u32)
    \<and> sector_array_free (Some sa) h1 = Inr h2 \<and> live h2 = 5"
  using sector_array_alloc_free [of 512 3 "\<lparr>outcomes = replicate 8 True, live = 5, fresh = (\<lambda>_. 7)\<rparr>" "[]"]
  by simp

text \<open>
  when \<open>sector_array_alloc\<close> fails in the middle of the sectors, the clean-up path calls
  \<open>sector_array_free\<close>, whose assertion that every sector is valid does not hold for a partly
  filled array: the call never returns NULL, it stops at the assertion.
\<close>

theorem sector_array_alloc_partial_failure:
  assumes "0 < ss" and "0 < n" and "outcomes h = True # True # os"
    and "\<And>sa h'. sector_array_alloc ss n h \<noteq> Inr (Some sa, h')"
  shows "sector_array_alloc ss n h = Inl Assert_Failed"
proof -
  let ?h = "h\<lparr>outcomes := os, live := Suc (Suc (live h))\<rparr>"
  have "sector_array_alloc ss n h = sector_array_alloc_loop (unat n) ss n [] ?h"
    using assms by (simp add: sector_array_alloc_def heap_alloc_def)
  then show ?thesis
    using sector_array_alloc_loop_result [OF assms(1,2), of "[]" "unat n" ?h] assms(4) by auto
qed

theorem sector_array_alloc_partial_failure_witness:
  "sector_array_alloc 512 1 \<lparr>outcomes = [True, True, True, False], live = 0, fresh = (\<lambda>_. 0)\<rparr>
     = Inl Assert_Failed"
  by (rule sector_array_alloc_partial_failure [of _ _ _ "[True, False]"])
    (simp_all add: sector_array_alloc_def heap_alloc_def sector_alloc_def amalloc_def
      sector_array_free_def is_valid_sector_data_array_def is_valid_sector_data_def)

lemma sector_array_shrink:
  assumes "sector_array_ok sa" and "sa_array sa = Some ary" and "0 < n" and "n < sa_size sa"
  shows "\<exists>h'. sector_array_realloc sa n h = Inr (True, sa\<lparr>sa_array := Some (take (unat n) ary
        @ replicate (unat (sa_size sa) - unat n) None), sa_size := n\<rparr>, h')
    \<and> live h' = live h - 2 * (unat (sa_size sa) - unat n)"
proof -
  have len: "length ary = unat (sa_size sa)"
    and sec: "list_all (sector_ok (sa_sector_size sa)) ary"
    using assms(1,2) by (auto simp: sector_array_ok_def sectors_ok_def)
  have fr: "list_all (sector_ok (sa_sector_size sa)) (drop (unat n) ary)"
    using sec by (auto simp: list_all_iff dest: in_set_dropD)
  show ?thesis
    using assms(2-) len sectors_free_live [OF fr, of h] sector_array_ok_valid [OF assms(1)]
    by (simp add: sector_array_realloc_def deref_def Let_def sectors_free_checked_ok [OF fr])
qed

lemma sector_array_grow:
  assumes "sector_array_ok sa" and "sa_array sa = Some ary" and "sa_size sa < n"
  shows "(\<exists>xs h'. sector_array_realloc sa n h = Inr (False, sa\<lparr>sa_array := Some (ary @ xs)\<rparr>, h')
      \<and> live h' = live h)
    \<or> (\<exists>g h'. sector_array_realloc sa n h =
        Inr (True, sa\<lparr>sa_array := Some (ary @ g), sa_size := n\<rparr>, h')
      \<and> length g = unat n - unat (sa_size sa) \<and> list_all (sector_ok (sa_sector_size sa)) g
      \<and> live h' = live h + 2 * length g)"
proof (cases "heap_alloc h")
  case (Pair b h1)
  let ?ss = "sa_sector_size sa" and ?k = "unat n - unat (sa_size sa)"
  have len: "length ary = unat (sa_size sa)" and ss: "0 < ?ss"
    using assms(1,2) by (auto simp: sector_array_ok_def sectors_ok_def word_less_nat_alt)
  have lt: "\<not> n < sa_size sa" "0 < n" using assms(3) by (auto simp: word_less_nat_alt)
  have tk: "take (unat (sa_size sa)) ary = ary" using len by simp
  have eq: "sector_array_realloc sa n h = (if \<not> b then Inr (False, sa, h1) else
      res_bind (sector_array_grow_loop ?k ?ss [] (heap_free h1)) (\<lambda>(grown, h2). case grown of
          None \<Rightarrow> Inr (False, sa\<lparr>sa_array := Some (ary @ replicate ?k None)\<rparr>, h2)
        | Some g \<Rightarrow> Inr (True, sa\<lparr>sa_array := Some (ary @ g), sa_size := n\<rparr>, h2)))"
    using assms(2,3) lt Pair sector_array_ok_valid [OF assms(1)]
    by (simp add: sector_array_realloc_def deref_def Let_def tk cong: option.case_cong)
  show ?thesis
  proof (cases b)
    case False
    have "sa\<lparr>sa_array := Some (ary @ [])\<rparr> = sa" using assms(2) by (cases sa) simp
    with eq False have "sector_array_realloc sa n h =
        Inr (False, sa\<lparr>sa_array := Some (ary @ [])\<rparr>, h1)" by simp
    moreover have "live h1 = live h" using heap_alloc_live [OF Pair] False by simp
    ultimately show ?thesis by blast
  next
    case True
    have "live (heap_free h1) = live h" using heap_alloc_live [OF Pair] True by simp
    with sector_array_grow_loop_result [OF ss, of "[]" "heap_free h1" "live h" ?k]
    obtain r h2 where "sector_array_grow_loop ?k ?ss [] (heap_free h1) = Inr (r, h2)"
      "case r of None \<Rightarrow> live h2 = live h
       | Some g \<Rightarrow> length g = ?k \<and> list_all (sector_ok ?ss) g
           \<and> live h2 = live h + 2 * length g"
      by (auto cong: option.case_cong)
    then show ?thesis using eq True by (cases r) auto
  qed
qed

text \<open>
  \<open>sector_array_realloc\<close> on a well-formed array always returns; on success the array has
  the new size, keeps the sectors below both sizes, is well-formed and exactly the blocks of
  the difference were taken or released; on failure the size, the sectors and the number of
  live blocks are those before the call.
\<close>

theorem sector_array_realloc_accounts:
  assumes "sector_array_ok sa" and "sa_array sa = Some ary" and "0 < n"
    and "2 * unat (sa_size sa) + 2 \<le> live h"
  shows "\<exists>res sa' ary' h'. sector_array_realloc sa n h = Inr (res, sa', h')
    \<and> sa_array sa' = Some ary' \<and> sa_sector_size sa' = sa_sector_size sa
    \<and> is_valid_sector_data_array (Some sa')
    \<and> take (min (unat n) (unat (sa_size sa))) ary' = take (min (unat n) (unat (sa_size sa))) ary
    \<and> sa_size sa' = (if res then n else sa_size sa)
    \<and> live h' + 2 * unat (sa_size sa) = live h + 2 * unat (sa_size sa')"
proof -
  let ?ss = "sa_sector_size sa" and ?sz = "unat (sa_size sa)"
  have len: "length ary = ?sz" and ss: "0 < unat ?ss" and sec: "list_all (sector_ok ?ss) ary"
    and sz: "sa_size sa \<noteq> 0"
    using assms(1,2) by (auto simp: sector_array_ok_def sectors_ok_def)
  note valid_defs = is_valid_sector_data_array_def
  consider "n < sa_size sa" | "sa_size sa < n" | "n = sa_size sa" by (rule linorder_cases)
  then show ?thesis
  proof cases
    case 1
    then have lt: "unat n < ?sz" by (simp add: word_less_nat_alt)
    have keep: "sector_ptrs_valid ?ss (unat n) (take (unat n) ary @ replicate (?sz - unat n) None)"
      using sector_ptrs_valid_prefix [of ?ss "take (unat n) ary"] sec ss len lt
      by (auto simp: list_all_iff dest: in_set_takeD)
    from sector_array_shrink [OF assms(1-3) 1, of h] obtain h' where
      "sector_array_realloc sa n h = Inr (True, sa\<lparr>sa_array := Some (take (unat n) ary
        @ replicate (?sz - unat n) None), sa_size := n\<rparr>, h')"
      "live h' = live h - 2 * (?sz - unat n)" by blast
    moreover have "n \<noteq> 0" using assms(3) by auto
    ultimately show ?thesis using keep assms(4) lt len
      by (simp add: valid_defs) (rule exI [of _ True], simp)
  next
    case 2
    then have lt: "?sz < unat n" by (simp add: word_less_nat_alt)
    have keep: "sector_ptrs_valid ?ss ?sz (ary @ xs)" for xs
      using sector_ptrs_valid_prefix [OF sec ss] len by simp
    have all: "sector_ptrs_valid ?ss (unat n) (ary @ g)"
      if "length g = unat n - ?sz" "list_all (sector_ok ?ss) g" for g
      using that sec ss len lt by (intro sector_ptrs_valid_ok) auto
    from sector_array_grow [OF assms(1,2) 2, of h] show ?thesis
    proof (elim disjE exE conjE)
      fix xs h'
      assume "sector_array_realloc sa n h = Inr (False, sa\<lparr>sa_array := Some (ary @ xs)\<rparr>, h')"
        and "live h' = live h"
      then show ?thesis using keep sz lt len by (simp add: valid_defs) blast
    next
      fix g h'
      assume "sector_array_realloc sa n h =
          Inr (True, sa\<lparr>sa_array := Some (ary @ g), sa_size := n\<rparr>, h')"
        and g: "length g = unat n - ?sz" "list_all (sector_ok ?ss) g"
        and "live h' = live h + 2 * length g"
      moreover have "n \<noteq> 0" using assms(3) by auto
      ultimately show ?thesis using all [OF g] lt len
        by (simp add: valid_defs) (rule exI [of _ True], simp)
    qed
  next
    case 3
    with sector_array_ok_valid [OF assms(1)] assms(2,3) show ?thesis
      by (auto simp: sector_array_realloc_def deref_def)
  qed
qed

text \<open>A small array and heap for the witnesses below.\<close>

definition sample_sectors :: "sector_data option list" where
  "sample_sectors = [Some \<lparr>sd_size = 4, sd_data = Some [9, 8, 7, 6]\<rparr>,
                     Some \<lparr>sd_size = 4, sd_data = Some [5, 4, 3, 2]\<rparr>]"

definition sample_array :: sector_data_array where
  "sample_array = \<lparr>sa_sector_size = 4, sa_size = 2, sa_array = Some sample_sectors\<rparr>"

definition sample_heap :: heap where
  "sample_heap = \<lparr>outcomes = [True, False], live = 6, fresh = (\<lambda>_. 0)\<rparr>"

lemmas sample_defs = sample_sectors_def sample_array_def sample_heap_def

lemma sample_array_ok: "sector_array_ok sample_array" "sector_store_ok sample_array"
  and length_sample_view: "length (sector_array_view sample_array) = 8"
  by (simp_all add: sample_defs sector_array_ok_def sectors_ok_def sector_ok_def
      sector_store_ok_def sector_array_view_def flat_bytes_def sector_payload_def)

theorem sector_array_realloc_accounts_witness:
  "\<exists>res sa' ary' h'. sector_array_realloc sample_array 3 sample_heap = Inr (res, sa', h')
    \<and> sa_array sa' = Some ary' \<and> sa_sector_size sa' = sa_sector_size sample_array
    \<and> is_valid_sector_data_array (Some sa')
    \<and> take (min (unat (3 :: u32)) (unat (sa_size sample_array))) ary' =
        take (min (unat (3 :: u32)) (unat (sa_size sample_array))) sample_sectors
    \<and> sa_size sa' = (if res then 3 else sa_size sample_array)
    \<and> live h' + 2 * unat (sa_size sample_array) = live sample_heap + 2 * unat (sa_size sa')"
  by (rule sector_array_realloc_accounts) (use sample_array_ok in \<open>simp_all add: sample_defs\<close>)

text \<open>
  C32: the flat view of a sector array behaves as one buffer: after \<open>sector_array_copy_from\<close> of
  \<open>bs\<close> at \<open>off\<close>, \<open>sector_array_copy_to\<close> of the same range returns \<open>bs\<close>, and of a disjoint range
  what it returned before, whatever sector boundaries lie in the ranges.
\<close>

theorem sector_array_read_after_write:
  assumes "sector_store_ok sa" and "unat off + length bs \<le> length (sector_array_view sa)"
    and "unat o2 + unat n \<le> length (sector_array_view sa)"
    and "unat o2 + unat n \<le> unat off \<or> unat off + length bs \<le> unat o2"
    and "unat m = length bs"
  shows "\<exists>sa'. sector_store_write sa off bs = Inr sa' \<and> sector_store_ok sa'
    \<and> sector_store_read sa' off m = Inr bs
    \<and> sector_store_read sa' o2 n = sector_store_read sa o2 n"
  using sector_store.write_ok [OF assms(1,2)]
    sector_store.read_write_same [OF assms(1,2) _ assms(5)]
    sector_store.read_write_disjoint [OF assms(1,2) _ assms(3,4)]
  by blast

theorem sector_array_read_after_write_witness:
  "\<exists>sa'. sector_store_write sample_array 3 [1, 2] = Inr sa' \<and> sector_store_ok sa'
    \<and> sector_store_read sa' 3 2 = Inr [1, 2]
    \<and> sector_store_read sa' 5 3 = sector_store_read sample_array 5 3"
  by (rule sector_array_read_after_write) (use sample_array_ok length_sample_view in simp_all)

text \<open>
  \<open>sector_array_checksum\<close> over any aligned range, and \<open>sector_array_memset\<close> over any range,
  do on the sectors what \<open>checksum\<close> and \<open>memset\<close> do on the flat buffer.
\<close>

theorem sector_array_memset_checksum:
  assumes "sector_array_ok sa" and "unat (sa_sector_size sa) mod 4 = 0"
    and "unat offset mod 4 = 0" and "unat sz mod 4 = 0" and "0 < unat sz"
    and "unat offset + unat sz \<le> length (sector_array_view sa)"
  shows "\<exists>sa'. sector_array_memset sa offset sz val = Inr sa' \<and> sector_array_ok sa'
    \<and> sector_array_view sa' =
        overwrite (sector_array_view sa) (unat offset) (replicate (unat sz) (ucast val))
    \<and> sector_array_checksum sa offset sz salt =
        checksum (take (unat sz) (drop (unat offset) (sector_array_view sa))) sz salt"
  using sector_array_memset_flat [OF assms(1,5,6), of val]
    sector_array_checksum_view [OF assms, of salt] assms(4,6)
    checksum_word_sum [of sz "take (unat sz) (drop (unat offset) (sector_array_view sa))" salt]
  by auto

theorem sector_array_memset_checksum_witness:
  "\<exists>sa'. sector_array_memset sample_array 0 8 1 = Inr sa' \<and> sector_array_ok sa'
    \<and> sector_array_view sa' =
        overwrite (sector_array_view sample_array) (unat (0 :: u32)) (replicate (unat (8 :: u32)) (ucast (1 :: u32)))
    \<and> sector_array_checksum sample_array 0 8 11 =
        checksum (take (unat (8 :: u32)) (drop (unat (0 :: u32)) (sector_array_view sample_array))) 8 11"
  by (rule sector_array_memset_checksum)
    (use sample_array_ok length_sample_view in \<open>simp_all add: sample_array_def\<close>)

end
