(* ===== verification/Log_Record.thy ===== *)
theory Log_Record
  imports Sector_Store Block_Size
begin

text \<open>
  \<^verbatim>\<open>walb/include/linux/walb/walb.h\<close> and \<^verbatim>\<open>log_record.h\<close>: the identifiers of the log format, log
  records, log pack headers and their validation, and the sequence id (lsid) of the next log
  pack. The structures are packed: \<open>log_record_bytes\<close> and \<open>logpack_header_bytes\<close> are their
  memory images, and a header pointer is an optional sector image, cast by
  \<open>logpack_header_of\<close>. A \<open>CHECKd\<close> that fails makes the function return 0.
\<close>

section \<open>walb.h\<close>

definition WALB_LOG_VERSION :: u16 where "WALB_LOG_VERSION = 2"

definition WALB_MAX_DISCARD_IO_SECTORS :: u32 where "WALB_MAX_DISCARD_IO_SECTORS = - 1"

definition WALB_MAX_NORMAL_IO_SECTORS :: u32 where "WALB_MAX_NORMAL_IO_SECTORS = 65535"

definition SECTOR_TYPE_SUPER :: u16 where "SECTOR_TYPE_SUPER = 0x0001"

definition SECTOR_TYPE_SNAPSHOT :: u16 where "SECTOR_TYPE_SNAPSHOT = 0x0002"

definition SECTOR_TYPE_LOGPACK :: u16 where "SECTOR_TYPE_LOGPACK = 0x0003"

definition SECTOR_TYPE_WALBLOG_HEADER :: u16 where "SECTOR_TYPE_WALBLOG_HEADER = 0x0004"

definition INVALID_LSID :: u64 where "INVALID_LSID = - 1"

definition MAX_LSID :: u64 where "MAX_LSID = - 2"

definition is_lsid_range_valid :: "u64 \<Rightarrow> u64 \<Rightarrow> bool" where
  "is_lsid_range_valid lsid0 lsid1 \<longleftrightarrow> lsid0 < lsid1 \<and> lsid1 \<le> MAX_LSID + 1"

section \<open>Log records\<close>

definition LOG_RECORD_EXIST :: nat where "LOG_RECORD_EXIST = 0"

definition LOG_RECORD_PADDING :: nat where "LOG_RECORD_PADDING = 1"

definition LOG_RECORD_DISCARD :: nat where "LOG_RECORD_DISCARD = 2"

record walb_log_record =
  lr_checksum :: u32
  lr_flags :: u32
  lr_offset :: u64
  lr_io_size :: u32
  lr_lsid_local :: u16
  lr_reserved1 :: u16
  lr_lsid :: u64

definition log_record_bytes :: "walb_log_record \<Rightarrow> u8 list" where
  "log_record_bytes r =
     le_store 4 (lr_checksum r) @ le_store 4 (lr_flags r) @ le_store 8 (lr_offset r)
     @ le_store 4 (lr_io_size r) @ le_store 2 (lr_lsid_local r) @ le_store 2 (lr_reserved1 r)
     @ le_store 8 (lr_lsid r)"

definition log_record_of :: "u8 list \<Rightarrow> walb_log_record" where
  "log_record_of bs =
     \<lparr>lr_checksum = le_load (take 4 bs), lr_flags = le_load (take 4 (drop 4 bs)),
      lr_offset = le_load (take 8 (drop 8 bs)), lr_io_size = le_load (take 4 (drop 16 bs)),
      lr_lsid_local = le_load (take 2 (drop 20 bs)), lr_reserved1 = le_load (take 2 (drop 22 bs)),
      lr_lsid = le_load (take 8 (drop 24 bs))\<rparr>"

definition log_record_init :: "walb_log_record option \<Rightarrow> walb_log_record res" where
  "log_record_init rec =
     ensure (rec \<noteq> None) Assert_Failed (Inr (log_record_of (replicate 32 0)))"

definition is_valid_log_record :: "walb_log_record option \<Rightarrow> bool" where
  "is_valid_log_record p =
     (case p of
        None \<Rightarrow> False
      | Some rec \<Rightarrow>
          if \<not> test_bit_u32 LOG_RECORD_EXIST (lr_flags rec) then False
          else if \<not> test_bit_u32 LOG_RECORD_PADDING (lr_flags rec) \<and> \<not> lr_io_size rec > 0
            then False
          else if \<not> test_bit_u32 LOG_RECORD_DISCARD (lr_flags rec)
              \<and> \<not> lr_io_size rec \<le> WALB_MAX_NORMAL_IO_SECTORS then False
          else if \<not> lr_lsid_local rec > 0 then False
          else lr_lsid rec \<le> MAX_LSID)"

definition is_valid_log_record_const :: "walb_log_record option \<Rightarrow> bool" where
  "is_valid_log_record_const rec = is_valid_log_record rec"

section \<open>Log pack headers\<close>

text \<open>
  \<open>lh_record\<close> is the flexible array \<open>record[0]\<close>: every record that lies completely inside the
  image, and \<open>lh_rest\<close> the bytes that follow the last of them.
\<close>

record walb_logpack_header =
  lh_checksum :: u32
  lh_sector_type :: u16
  lh_total_io_size :: u16
  lh_logpack_lsid :: u64
  lh_n_records :: u16
  lh_n_padding :: u16
  lh_reserved1 :: u32
  lh_record :: "walb_log_record list"
  lh_rest :: "u8 list"

definition logpack_header_bytes :: "walb_logpack_header \<Rightarrow> u8 list" where
  "logpack_header_bytes h =
     le_store 4 (lh_checksum h) @ le_store 2 (lh_sector_type h) @ le_store 2 (lh_total_io_size h)
     @ le_store 8 (lh_logpack_lsid h) @ le_store 2 (lh_n_records h) @ le_store 2 (lh_n_padding h)
     @ le_store 4 (lh_reserved1 h) @ concat (map log_record_bytes (lh_record h)) @ lh_rest h"

fun log_records_of :: "nat \<Rightarrow> u8 list \<Rightarrow> walb_log_record list" where
  "log_records_of 0 bs = []"
| "log_records_of (Suc n) bs = log_record_of (take 32 bs) # log_records_of n (drop 32 bs)"

definition logpack_header_of :: "u8 list \<Rightarrow> walb_logpack_header" where
  "logpack_header_of bs =
     (let n = (length bs - 24) div 32 in
      \<lparr>lh_checksum = le_load (take 4 bs), lh_sector_type = le_load (take 2 (drop 4 bs)),
       lh_total_io_size = le_load (take 2 (drop 6 bs)),
       lh_logpack_lsid = le_load (take 8 (drop 8 bs)),
       lh_n_records = le_load (take 2 (drop 16 bs)), lh_n_padding = le_load (take 2 (drop 18 bs)),
       lh_reserved1 = le_load (take 4 (drop 20 bs)),
       lh_record = log_records_of n (drop 24 bs), lh_rest = drop (24 + 32 * n) bs\<rparr>)"

definition MAX_TOTAL_IO_SIZE_IN_LOGPACK_HEADER :: u32 where
  "MAX_TOTAL_IO_SIZE_IN_LOGPACK_HEADER = push_bit 16 1 - 1"

definition max_n_log_record_in_sector :: "u32 \<Rightarrow> u32 res" where
  "max_n_log_record_in_sector pbs = ensure (pbs > 24) Assert_Failed (Inr ((pbs - 24) div 32))"

definition is_end_logpack_header :: "walb_logpack_header option \<Rightarrow> bool" where
  "is_end_logpack_header p =
     (case p of
        None \<Rightarrow> False
      | Some lhead \<Rightarrow> lh_n_records lhead = 0 \<and> lh_logpack_lsid lhead = - 1)"

definition is_valid_logpack_header :: "walb_logpack_header option \<Rightarrow> bool" where
  "is_valid_logpack_header p =
     (case p of
        None \<Rightarrow> False
      | Some lhead \<Rightarrow>
          if lh_sector_type lhead \<noteq> SECTOR_TYPE_LOGPACK then False
          else if lh_n_records lhead = 0 then
            lh_total_io_size lhead = 0 \<and> lh_n_padding lhead = 0
          else lh_n_padding lhead \<le> 1 \<and> lh_n_padding lhead \<le> lh_n_records lhead
            \<and> lh_logpack_lsid lhead
                < lh_logpack_lsid lhead + 1 + ucast (lh_total_io_size lhead))"

definition is_valid_logpack_header_with_checksum ::
  "walb_logpack_header option \<Rightarrow> u32 \<Rightarrow> u32 \<Rightarrow> bool res"
where
  "is_valid_logpack_header_with_checksum p pbs salt =
     (if \<not> is_valid_logpack_header p then Inr False
      else res_bind (deref p) (\<lambda>lhead.
        if lh_n_records lhead > 0 then
          res_bind (checksum (logpack_header_bytes lhead) pbs salt) (\<lambda>c. Inr (c = 0))
        else Inr True))"

fun is_valid_records_loop :: "nat \<Rightarrow> nat \<Rightarrow> walb_logpack_header \<Rightarrow> bool res" where
  "is_valid_records_loop 0 i lhead = Inr True"
| "is_valid_records_loop (Suc k) i lhead =
     ensure (i < length (lh_record lhead)) Out_Of_Bounds
       (let rec = lh_record lhead ! i in
        if \<not> is_valid_log_record_const (Some rec) then Inr False
        else if lr_lsid rec - ucast (lr_lsid_local rec) \<noteq> lh_logpack_lsid lhead then Inr False
        else is_valid_records_loop k (Suc i) lhead)"

definition is_valid_logpack_header_and_records :: "walb_logpack_header option \<Rightarrow> bool res" where
  "is_valid_logpack_header_and_records p =
     (if \<not> is_valid_logpack_header p then Inr False
      else res_bind (deref p) (\<lambda>lhead.
        is_valid_records_loop (unat (lh_n_records lhead)) 0 lhead))"

definition is_valid_logpack_header_and_records_with_checksum ::
  "walb_logpack_header option \<Rightarrow> u32 \<Rightarrow> u32 \<Rightarrow> bool res"
where
  "is_valid_logpack_header_and_records_with_checksum p pbs salt =
     res_bind (deref p) (\<lambda>lhead.
       if lh_n_records lhead > 0 then
         res_bind (checksum (logpack_header_bytes lhead) pbs salt) (\<lambda>c.
           if c \<noteq> 0 then Inr False else is_valid_logpack_header_and_records p)
       else is_valid_logpack_header_and_records p)"

definition get_next_lsid_unsafe :: "walb_logpack_header \<Rightarrow> u64" where
  "get_next_lsid_unsafe lhead =
     (if lh_total_io_size lhead = 0 \<and> lh_n_records lhead = 0 then lh_logpack_lsid lhead
      else lh_logpack_lsid lhead + 1 + ucast (lh_total_io_size lhead))"

definition get_next_lsid :: "walb_logpack_header \<Rightarrow> u64 res" where
  "get_next_lsid lhead =
     ensure (is_valid_logpack_header (Some lhead)) Assert_Failed
       (Inr (get_next_lsid_unsafe lhead))"

section \<open>Memory images\<close>

lemma length_log_record_bytes [simp]: "length (log_record_bytes r) = 32"
  by (simp add: log_record_bytes_def)

lemma log_record_of_bytes [simp]: "log_record_of (log_record_bytes r) = r"
  by (simp add: log_record_of_def log_record_bytes_def)

lemma length_concat_log_records [simp]:
  "length (concat (map log_record_bytes rs)) = 32 * length rs"
  by (induction rs) auto

lemma log_records_of_bytes:
  "log_records_of (length rs) (concat (map log_record_bytes rs) @ xs) = rs"
  by (induction rs) auto

lemma length_logpack_header_bytes:
  "length (logpack_header_bytes h) = 24 + 32 * length (lh_record h) + length (lh_rest h)"
  by (simp add: logpack_header_bytes_def)

text \<open>A header whose tail is shorter than a record is what the cast of its image gives.\<close>

lemma logpack_header_of_bytes:
  assumes "length (lh_rest h) < 32"
  shows "logpack_header_of (logpack_header_bytes h) = h"
proof -
  have n: "(length (logpack_header_bytes h) - 24) div 32 = length (lh_record h)"
    using assms by (simp add: length_logpack_header_bytes)
  show ?thesis
    by (simp add: logpack_header_of_def n Let_def)
      (simp add: logpack_header_bytes_def log_records_of_bytes)
qed

definition logpack_image_ok :: "walb_logpack_header \<Rightarrow> bool" where
  "logpack_image_ok h \<longleftrightarrow> length (lh_rest h) mod 4 = 0"

interpretation logpack_sum: checksummed logpack_image_ok logpack_header_bytes
    "\<lambda>c h. h\<lparr>lh_checksum := c\<rparr>"
proof
  fix c :: u32 and h :: walb_logpack_header
  assume ok: "logpack_image_ok h"
  then show "logpack_image_ok (h\<lparr>lh_checksum := c\<rparr>)" by (simp add: logpack_image_ok_def)
  show "4 dvd length (logpack_header_bytes h)"
    using ok by (auto simp: length_logpack_header_bytes logpack_image_ok_def
        intro!: dvd_add)
  show "word_sum (logpack_header_bytes (h\<lparr>lh_checksum := c\<rparr>)) =
      c + word_sum (logpack_header_bytes (h\<lparr>lh_checksum := 0\<rparr>))"
    by (simp add: logpack_header_bytes_def)
qed

text \<open>
  the cast of a sector to a log pack header and the memory image of the header are
  inverse: every field and every record of a header survives being written and read back.
\<close>

theorem logpack_header_roundtrip:
  assumes "length (lh_rest h) < 32"
  shows "logpack_header_of (logpack_header_bytes h) = h"
  by (rule logpack_header_of_bytes [OF assms])

definition sample_record :: walb_log_record where
  "sample_record = \<lparr>lr_checksum = 7, lr_flags = 1, lr_offset = 4096, lr_io_size = 8,
     lr_lsid_local = 1, lr_reserved1 = 0, lr_lsid = 101\<rparr>"

definition sample_header :: walb_logpack_header where
  "sample_header = \<lparr>lh_checksum = 5, lh_sector_type = 3, lh_total_io_size = 8,
     lh_logpack_lsid = 100, lh_n_records = 1, lh_n_padding = 0, lh_reserved1 = 0,
     lh_record = [sample_record], lh_rest = [1, 2, 3, 4, 5, 6, 7, 8]\<rparr>"

theorem logpack_header_roundtrip_witness:
  "logpack_header_of (logpack_header_bytes sample_header) = sample_header"
  by (rule logpack_header_roundtrip) (simp add: sample_header_def)

section \<open>Sequence ids\<close>

lemma is_valid_logpack_header_fits:
  assumes "is_valid_logpack_header (Some h)" and "lh_n_records h \<noteq> 0"
  shows "unat (lh_logpack_lsid h) + 1 + unat (lh_total_io_size h) < 2 ^ 64"
proof (rule ccontr)
  let ?l = "unat (lh_logpack_lsid h)" and ?t = "unat (lh_total_io_size h)"
  assume ge: "\<not> ?l + 1 + ?t < 2 ^ 64"
  have t: "?t < 65536" and l: "?l < 2 ^ 64" by simp_all
  have "?l + 1 + ?t - 2 ^ 64 < 2 ^ 64" using t l by (simp del: unat_lt64 unat_lt16)
  then have m: "(?l + 1 + ?t) mod 2 ^ 64 = ?l + 1 + ?t - 2 ^ 64"
    using ge le_mod_geq [of "2 ^ 64" "?l + 1 + ?t"] by (simp del: unat_lt64 unat_lt16)
  have "lh_logpack_lsid h < lh_logpack_lsid h + 1 + ucast (lh_total_io_size h)"
    using assms by (simp add: is_valid_logpack_header_def split: if_splits)
  then have "?l < (?l + 1 + ?t) mod 2 ^ 64"
    by (simp add: word_less_nat_alt unat_word_ariths mod_simps)
  then show False unfolding m using t ge by (simp del: unat_lt64 unat_lt16)
qed

lemma is_valid_records_loop_iff:
  assumes "i + k \<le> length (lh_record h)"
  shows "is_valid_records_loop k i h = Inr (\<forall>j \<in> {i..<i + k}.
     is_valid_log_record (Some (lh_record h ! j))
     \<and> lr_lsid (lh_record h ! j) - ucast (lr_lsid_local (lh_record h ! j)) = lh_logpack_lsid h)"
  using assms
proof (induction k arbitrary: i)
  case 0
  then show ?case by simp
next
  case (Suc k)
  have "{i..<i + Suc k} = insert i {Suc i..<Suc i + k}" by auto
  with Suc show ?case by (auto simp: Let_def is_valid_log_record_const_def)
qed

text \<open>
  a valid log pack header with records never wraps the lsid: the next lsid is the pack's
  lsid plus one header block plus the data blocks, as numbers, and is larger than the pack's
  lsid; a header without records (zero flush) keeps the lsid.
\<close>

theorem get_next_lsid_correct:
  assumes "is_valid_logpack_header (Some h)"
  shows "\<exists>next. get_next_lsid h = Inr next \<and>
    unat next = (if lh_n_records h = 0 then unat (lh_logpack_lsid h)
                 else unat (lh_logpack_lsid h) + 1 + unat (lh_total_io_size h))"
proof (cases "lh_n_records h = 0")
  case True
  then show ?thesis
    using assms by (auto simp: get_next_lsid_def get_next_lsid_unsafe_def is_valid_logpack_header_def
        split: if_splits)
next
  case False
  have l: "unat (lh_logpack_lsid h) + 1 + unat (lh_total_io_size h) < 2 ^ 64"
    by (rule is_valid_logpack_header_fits [OF assms False])
  then have "unat (lh_logpack_lsid h + 1 + ucast (lh_total_io_size h)) =
      unat (lh_logpack_lsid h) + 1 + unat (lh_total_io_size h)"
    by (simp add: unat_word_ariths mod_simps)
  then show ?thesis
    using assms False by (simp add: get_next_lsid_def get_next_lsid_unsafe_def)
qed

theorem get_next_lsid_correct_witness:
  "\<exists>next. get_next_lsid sample_header = Inr next \<and>
    unat next = (if lh_n_records sample_header = 0 then unat (lh_logpack_lsid sample_header)
                 else unat (lh_logpack_lsid sample_header) + 1
                   + unat (lh_total_io_size sample_header))"
  by (rule get_next_lsid_correct)
    (simp add: sample_header_def is_valid_logpack_header_def SECTOR_TYPE_LOGPACK_def)

text \<open>
  in a header that \<open>is_valid_logpack_header_and_records\<close> accepts, with as many records in
  the sector as it counts, every record whose \<open>lsid_local\<close> does not point beyond the pack's end
  lies after the header block, at the position \<open>lsid_local\<close>, without wrap-around.
\<close>

theorem logpack_record_lsid:
  assumes "is_valid_logpack_header_and_records (Some h) = Inr True"
    and "i < unat (lh_n_records h)" and "unat (lh_n_records h) \<le> length (lh_record h)"
    and "unat (lr_lsid_local (lh_record h ! i)) \<le> unat (lh_total_io_size h) + 1"
  shows "is_valid_log_record (Some (lh_record h ! i))
    \<and> unat (lr_lsid (lh_record h ! i)) =
        unat (lh_logpack_lsid h) + unat (lr_lsid_local (lh_record h ! i))
    \<and> lh_logpack_lsid h < lr_lsid (lh_record h ! i)"
proof -
  let ?r = "lh_record h ! i"
  have r: "is_valid_log_record (Some ?r)"
    "lr_lsid ?r - ucast (lr_lsid_local ?r) = lh_logpack_lsid h"
    using assms is_valid_records_loop_iff [of 0 "unat (lh_n_records h)" h]
    by (auto simp: is_valid_logpack_header_and_records_def deref_def split: if_splits)
  have loc: "0 < unat (lr_lsid_local ?r)"
    using r(1) by (auto simp: is_valid_log_record_def word_less_nat_alt split: if_splits)
  have h: "is_valid_logpack_header (Some h)" "lh_n_records h \<noteq> 0"
    using assms(1,2) by (auto simp: is_valid_logpack_header_and_records_def split: if_splits)
  have fits: "unat (lh_logpack_lsid h) + unat (lr_lsid_local ?r) < 2 ^ 64"
    using is_valid_logpack_header_fits [OF h] assms(4) by linarith
  have "lr_lsid ?r = lh_logpack_lsid h + ucast (lr_lsid_local ?r)"
    using r(2) by (simp add: algebra_simps)
  then have "unat (lr_lsid ?r) = unat (lh_logpack_lsid h) + unat (lr_lsid_local ?r)"
    using fits by (simp add: unat_word_ariths)
  with loc r(1) show ?thesis by (simp add: word_less_nat_alt)
qed

theorem logpack_record_lsid_witness:
  "is_valid_log_record (Some (lh_record sample_header ! 0))
    \<and> unat (lr_lsid (lh_record sample_header ! 0)) =
        unat (lh_logpack_lsid sample_header) + unat (lr_lsid_local (lh_record sample_header ! 0))
    \<and> lh_logpack_lsid sample_header < lr_lsid (lh_record sample_header ! 0)"
  by (rule logpack_record_lsid)
    (simp_all add: sample_header_def sample_record_def is_valid_logpack_header_def deref_def
      is_valid_logpack_header_and_records_def SECTOR_TYPE_LOGPACK_def is_valid_log_record_def
      is_valid_log_record_const_def LOG_RECORD_EXIST_def LOG_RECORD_PADDING_def
      LOG_RECORD_DISCARD_def WALB_MAX_NORMAL_IO_SECTORS_def MAX_LSID_def test_bit_u32_def Let_def)

text \<open>
  setting the checksum field of a log pack header to the checksum of the header with a zero
  field makes \<open>is_valid_logpack_header_with_checksum\<close> accept it, and with any other value of the
  field the header is rejected.
\<close>

theorem logpack_header_checksum_unique:
  assumes "is_valid_logpack_header (Some h)" and "lh_n_records h > 0"
    and "unat pbs = length (logpack_header_bytes h)" and "length (lh_rest h) mod 4 = 0"
  shows "is_valid_logpack_header_with_checksum (Some (h\<lparr>lh_checksum := c\<rparr>)) pbs salt =
    Inr (c = calcChecksum (logpack_header_bytes (h\<lparr>lh_checksum := 0\<rparr>)) salt)"
proof -
  have len: "length (logpack_header_bytes (h\<lparr>lh_checksum := x\<rparr>)) = unat pbs" for x
    using assms(3) by (simp add: length_logpack_header_bytes)
  have "is_valid_logpack_header (Some (h\<lparr>lh_checksum := c\<rparr>))"
    using assms(1) by (simp add: is_valid_logpack_header_def split: if_splits)
  then show ?thesis
    using assms(2) len logpack_sum.calc_zero_iff [of h c salt] logpack_sum.ok_set [of h c]
      logpack_sum.checksum_agrees [of "h\<lparr>lh_checksum := c\<rparr>" pbs salt] assms(4)
    by (simp add: is_valid_logpack_header_with_checksum_def deref_def logpack_image_ok_def)
qed

theorem logpack_header_checksum_unique_witness:
  "is_valid_logpack_header_with_checksum (Some (sample_header\<lparr>lh_checksum := 9\<rparr>)) 64 1 =
    Inr (9 = calcChecksum (logpack_header_bytes (sample_header\<lparr>lh_checksum := 0\<rparr>)) 1)"
  by (rule logpack_header_checksum_unique)
    (simp_all add: sample_header_def is_valid_logpack_header_def SECTOR_TYPE_LOGPACK_def
      length_logpack_header_bytes)

end
