(* ===== verification/Log_Pack.thy ===== *)
theory Log_Pack
  imports Log_Record
begin

text \<open>
  \<open>WlogRecord\<close>, \<open>LogPackHeader\<close>, \<open>ChecksumCalculator\<close> and \<open>LogStatistics\<close> of \<^verbatim>\<open>src/walb_log_base.hpp\<close> and
  \<^verbatim>\<open>src/walb_log_base.cpp\<close>: building, moving, cutting and checking a log pack. The object owns the block its header
  pointer refers to; a null pointer is \<open>None\<close>. A reader is the list of the bytes that are left.
\<close>

section \<open>WlogRecord\<close>

definition packLsid :: "walb_log_record \<Rightarrow> u64" where
  "packLsid r = lr_lsid r - ucast (lr_lsid_local r)"

definition isExist :: "walb_log_record \<Rightarrow> bool" where
  "isExist r \<longleftrightarrow> test_bit_u32 LOG_RECORD_EXIST (lr_flags r)"

definition isPadding :: "walb_log_record \<Rightarrow> bool" where
  "isPadding r \<longleftrightarrow> test_bit_u32 LOG_RECORD_PADDING (lr_flags r)"

definition isDiscard :: "walb_log_record \<Rightarrow> bool" where
  "isDiscard r \<longleftrightarrow> test_bit_u32 LOG_RECORD_DISCARD (lr_flags r)"

definition hasData :: "walb_log_record \<Rightarrow> bool" where
  "hasData r \<longleftrightarrow> isExist r \<and> \<not> isDiscard r"

definition hasDataForChecksum :: "walb_log_record \<Rightarrow> bool" where
  "hasDataForChecksum r \<longleftrightarrow> isExist r \<and> \<not> isDiscard r \<and> \<not> isPadding r"

definition setExist :: "walb_log_record \<Rightarrow> walb_log_record" where
  "setExist r = r\<lparr>lr_flags := set_bit_u32 LOG_RECORD_EXIST (lr_flags r)\<rparr>"

definition setPadding :: "walb_log_record \<Rightarrow> walb_log_record" where
  "setPadding r = r\<lparr>lr_flags := set_bit_u32 LOG_RECORD_PADDING (lr_flags r)\<rparr>"

definition setDiscard :: "walb_log_record \<Rightarrow> walb_log_record" where
  "setDiscard r = r\<lparr>lr_flags := set_bit_u32 LOG_RECORD_DISCARD (lr_flags r)\<rparr>"

definition clearExist :: "walb_log_record \<Rightarrow> walb_log_record" where
  "clearExist r = r\<lparr>lr_flags := clear_bit_u32 LOG_RECORD_EXIST (lr_flags r)\<rparr>"

definition clearPadding :: "walb_log_record \<Rightarrow> walb_log_record" where
  "clearPadding r = r\<lparr>lr_flags := clear_bit_u32 LOG_RECORD_PADDING (lr_flags r)\<rparr>"

definition clearDiscard :: "walb_log_record \<Rightarrow> walb_log_record" where
  "clearDiscard r = r\<lparr>lr_flags := clear_bit_u32 LOG_RECORD_DISCARD (lr_flags r)\<rparr>"

definition ioSizePb :: "u32 \<Rightarrow> walb_log_record \<Rightarrow> u32 res" where
  "ioSizePb pbs r = res_bind (capacity_pb pbs (ucast (lr_io_size r))) (\<lambda>c. Inr (ucast c))"

definition record_clear :: walb_log_record where
  "record_clear = log_record_of (replicate 32 0)"

section \<open>LogPackHeader\<close>

record log_pack =
  lp_header :: "walb_logpack_header option"
  lp_pbs :: u32
  lp_salt :: u32

definition pack_init :: "u32 \<Rightarrow> u32 \<Rightarrow> log_pack" where
  "pack_init pbs salt =
     \<lparr>lp_header = Some (logpack_header_of (replicate (unat pbs) 0)), lp_pbs = pbs, lp_salt = salt\<rparr>"

definition set_header :: "walb_logpack_header \<Rightarrow> log_pack \<Rightarrow> log_pack" where
  "set_header h lp = lp\<lparr>lp_header := Some h\<rparr>"

definition record_at :: "walb_logpack_header \<Rightarrow> nat \<Rightarrow> walb_log_record res" where
  "record_at h pos =
     (if pos \<ge> unat (lh_n_records h) then Inl (Exception ''LogPackHeader:index out of range.'')
      else ensure (pos < length (lh_record h)) Out_Of_Bounds (Inr (lh_record h ! pos)))"

definition nextLogpackLsid :: "walb_logpack_header \<Rightarrow> u64" where
  "nextLogpackLsid h =
     (if lh_n_records h > 0 then lh_logpack_lsid h + 1 + ucast (lh_total_io_size h)
      else lh_logpack_lsid h)"

definition pack_isEnd :: "walb_logpack_header \<Rightarrow> bool" where
  "pack_isEnd h \<longleftrightarrow> lh_n_records h = 0 \<and> lh_logpack_lsid h = - 1"

definition pack_isValid :: "log_pack \<Rightarrow> bool \<Rightarrow> bool res" where
  "pack_isValid lp isChecksum =
     (if lp_header lp = None then Inr False
      else if lp_pbs lp = 0 then Inr False
      else if isChecksum then
        is_valid_logpack_header_and_records_with_checksum (lp_header lp) (lp_pbs lp) (lp_salt lp)
      else is_valid_logpack_header_and_records (lp_header lp))"

definition pack_verify :: "log_pack \<Rightarrow> bool \<Rightarrow> unit res" where
  "pack_verify lp isChecksum =
     res_bind (pack_isValid lp isChecksum) (\<lambda>ok. if ok then Inr () else Inl (Exception ''invalid''))"

definition copyFrom_raw :: "u8 list \<Rightarrow> log_pack \<Rightarrow> log_pack res" where
  "copyFrom_raw data lp =
     (if unat (lp_pbs lp) \<noteq> length data then Inl (Exception ''invalid size'')
      else res_bind (deref (lp_header lp)) (\<lambda>_.
        let lp1 = set_header (logpack_header_of data) lp in
        res_bind (pack_verify lp1 True) (\<lambda>_. Inr lp1)))"

definition copyFrom :: "log_pack \<Rightarrow> log_pack \<Rightarrow> log_pack res" where
  "copyFrom rhs lp =
     (let lp1 = if lp_pbs lp \<noteq> lp_pbs rhs \<or> lp_salt lp \<noteq> lp_salt rhs
                then pack_init (lp_pbs rhs) (lp_salt rhs) else lp
      in res_bind (deref (lp_header rhs)) (\<lambda>h.
        copyFrom_raw (take (unat (lp_pbs rhs)) (logpack_header_bytes h)) lp1))"

fun nRecordsHavingData_loop :: "nat \<Rightarrow> nat \<Rightarrow> walb_logpack_header \<Rightarrow> nat res" where
  "nRecordsHavingData_loop 0 i h = Inr 0"
| "nRecordsHavingData_loop (Suc k) i h =
     res_bind (record_at h i) (\<lambda>r.
     res_bind (nRecordsHavingData_loop k (Suc i) h) (\<lambda>s. Inr (if hasData r then Suc s else s)))"

definition nRecordsHavingData :: "log_pack \<Rightarrow> nat res" where
  "nRecordsHavingData lp =
     res_bind (deref (lp_header lp)) (\<lambda>h. nRecordsHavingData_loop (unat (lh_n_records h)) 0 h)"

definition pack_updateChecksum :: "log_pack \<Rightarrow> log_pack res" where
  "pack_updateChecksum lp =
     res_bind (deref (lp_header lp)) (\<lambda>h.
     res_bind (checksum (logpack_header_bytes (h\<lparr>lh_checksum := 0\<rparr>)) (lp_pbs lp) (lp_salt lp)) (\<lambda>c.
       Inr (set_header (h\<lparr>lh_checksum := c\<rparr>) lp)))"

text \<open>\<open>readFrom\<close> gives false both when the read fails and when the block is not valid.\<close>

definition pack_readFrom :: "u8 list \<Rightarrow> log_pack \<Rightarrow> (bool \<times> u8 list \<times> log_pack) res" where
  "pack_readFrom reader lp =
     (if length reader < unat (lp_pbs lp) then Inr (False, [], lp)
      else res_bind (deref (lp_header lp)) (\<lambda>_.
        let lp1 = set_header (logpack_header_of (take (unat (lp_pbs lp)) reader)) lp in
        res_bind (pack_isValid lp1 True) (\<lambda>ok. Inr (ok, drop (unat (lp_pbs lp)) reader, lp1))))"

definition pack_writeTo :: "u8 list \<Rightarrow> log_pack \<Rightarrow> u8 list res" where
  "pack_writeTo writer lp =
     res_bind (pack_isValid lp True) (\<lambda>ok.
       if \<not> ok then Inl (Exception ''write:invalid'')
       else res_bind (deref (lp_header lp)) (\<lambda>h.
         res_bind (read_at (logpack_header_bytes h) 0 (unat (lp_pbs lp))) (\<lambda>bs. Inr (writer @ bs))))"

definition updateChecksumAndWriteTo :: "u8 list \<Rightarrow> log_pack \<Rightarrow> (u8 list \<times> log_pack) res" where
  "updateChecksumAndWriteTo writer lp =
     res_bind (pack_updateChecksum lp) (\<lambda>lp1.
     res_bind (pack_writeTo writer lp1) (\<lambda>out. Inr (out, lp1)))"

definition init_lsid :: "u64 \<Rightarrow> log_pack \<Rightarrow> log_pack res" where
  "init_lsid lsid lp =
     res_bind (deref (lp_header lp)) (\<lambda>_.
       Inr (set_header (logpack_header_of (replicate (unat (lp_pbs lp)) 0)
         \<lparr>lh_logpack_lsid := lsid, lh_sector_type := SECTOR_TYPE_LOGPACK\<rparr>) lp))"

definition setEnd :: "log_pack \<Rightarrow> log_pack res" where
  "setEnd lp = init_lsid (- 1) lp"

section \<open>Adding records\<close>

text \<open>
  What the three adding functions do to the next record and to the number of records: the
  record gets the position after the blocks that the pack holds already, in 16 bits.
\<close>

definition fill_record ::
  "u32 \<Rightarrow> u64 \<Rightarrow> u32 \<Rightarrow> walb_logpack_header \<Rightarrow> walb_log_record \<Rightarrow> walb_log_record"
where
  "fill_record flags offset size_lb h r =
     r\<lparr>lr_flags := flags, lr_offset := offset, lr_io_size := size_lb,
       lr_lsid_local := lh_total_io_size h + 1,
       lr_lsid := lh_logpack_lsid h + ucast (lh_total_io_size h + 1), lr_checksum := 0\<rparr>"

definition append_record ::
  "u32 \<Rightarrow> u64 \<Rightarrow> u32 \<Rightarrow> walb_logpack_header \<Rightarrow> walb_logpack_header res"
where
  "append_record flags offset size_lb h =
     (let pos = unat (lh_n_records h) in
      ensure (pos < length (lh_record h)) Out_Of_Bounds
        (Inr (h\<lparr>lh_record := (lh_record h)[pos := fill_record flags offset size_lb h (lh_record h ! pos)],
               lh_n_records := lh_n_records h + 1\<rparr>)))"

definition assert_records :: "walb_logpack_header \<Rightarrow> log_pack \<Rightarrow> (bool \<times> log_pack) res" where
  "assert_records h lp =
     res_bind (is_valid_logpack_header_and_records (Some h)) (\<lambda>ok.
       ensure ok Assert_Failed (Inr (True, set_header h lp)))"

definition addNormalIo :: "u64 \<Rightarrow> u16 \<Rightarrow> log_pack \<Rightarrow> (bool \<times> log_pack) res" where
  "addNormalIo offset size_lb lp =
     res_bind (max_n_log_record_in_sector (lp_pbs lp)) (\<lambda>m.
     res_bind (deref (lp_header lp)) (\<lambda>h.
       if m \<le> ucast (lh_n_records h) then Inr (False, lp)
       else res_bind (capacity_pb (lp_pbs lp) (ucast size_lb)) (\<lambda>c.
         if ucast MAX_TOTAL_IO_SIZE_IN_LOGPACK_HEADER < ucast (lh_total_io_size h) + c
         then Inr (False, lp)
         else if size_lb = 0 then Inl (Exception ''Normal IO can not be zero-sized.'')
         else res_bind (append_record (set_bit_u32 LOG_RECORD_EXIST 0) offset (ucast size_lb) h) (\<lambda>h1.
           assert_records (h1\<lparr>lh_total_io_size := lh_total_io_size h1 + ucast c\<rparr>) lp))))"

definition addDiscardIo :: "u64 \<Rightarrow> u32 \<Rightarrow> log_pack \<Rightarrow> (bool \<times> log_pack) res" where
  "addDiscardIo offset size_lb lp =
     res_bind (max_n_log_record_in_sector (lp_pbs lp)) (\<lambda>m.
     res_bind (deref (lp_header lp)) (\<lambda>h.
       if m \<le> ucast (lh_n_records h) then Inr (False, lp)
       else if size_lb = 0 then Inl (Exception ''Discard IO can not be zero-sized.'')
       else res_bind (append_record
           (set_bit_u32 LOG_RECORD_DISCARD (set_bit_u32 LOG_RECORD_EXIST 0)) offset size_lb h) (\<lambda>h1.
         assert_records h1 lp)))"

definition addPadding :: "u16 \<Rightarrow> log_pack \<Rightarrow> (bool \<times> log_pack) res" where
  "addPadding size_lb lp =
     res_bind (max_n_log_record_in_sector (lp_pbs lp)) (\<lambda>m.
     res_bind (deref (lp_header lp)) (\<lambda>h.
       if m \<le> ucast (lh_n_records h) then Inr (False, lp)
       else res_bind (capacity_pb (lp_pbs lp) (ucast size_lb)) (\<lambda>c.
         if ucast MAX_TOTAL_IO_SIZE_IN_LOGPACK_HEADER < ucast (lh_total_io_size h) + c
         then Inr (False, lp)
         else if 0 < lh_n_padding h then Inr (False, lp)
         else res_bind (n_lb_in_pb (lp_pbs lp)) (\<lambda>n_lb.
           if ucast size_lb mod n_lb \<noteq> 0 then Inl (Exception ''Padding size must be pbs-aligned.'')
           else res_bind (append_record
               (set_bit_u32 LOG_RECORD_PADDING (set_bit_u32 LOG_RECORD_EXIST 0)) 0 (ucast size_lb) h) (\<lambda>h1.
             assert_records (h1\<lparr>lh_total_io_size := lh_total_io_size h1 + ucast c,
                                lh_n_padding := lh_n_padding h1 + 1\<rparr>) lp)))))"

section \<open>Moving, cutting and invalidating\<close>

fun updateLsid_loop :: "u64 \<Rightarrow> nat \<Rightarrow> nat \<Rightarrow> walb_logpack_header \<Rightarrow> walb_logpack_header res" where
  "updateLsid_loop newLsid 0 i h = Inr h"
| "updateLsid_loop newLsid (Suc k) i h =
     res_bind (record_at h i) (\<lambda>r.
       updateLsid_loop newLsid k (Suc i)
         (h\<lparr>lh_record := (lh_record h)[i := r\<lparr>lr_lsid := newLsid + ucast (lr_lsid_local r)\<rparr>]\<rparr>))"

definition updateLsid :: "u64 \<Rightarrow> log_pack \<Rightarrow> log_pack res" where
  "updateLsid newLsid lp =
     res_bind (pack_isValid lp False) (\<lambda>ok.
     ensure ok Assert_Failed
     (ensure (newLsid \<noteq> - 1) Assert_Failed
       (res_bind (deref (lp_header lp)) (\<lambda>h.
         if lh_logpack_lsid h = newLsid then Inr lp
         else res_bind (updateLsid_loop newLsid (unat (lh_n_records h)) 0
             (h\<lparr>lh_logpack_lsid := newLsid\<rparr>)) (\<lambda>h1.
           let lp1 = set_header h1 lp in res_bind (pack_verify lp1 False) (\<lambda>_. Inr lp1))))))"

fun clear_records :: "nat \<Rightarrow> nat \<Rightarrow> walb_logpack_header \<Rightarrow> walb_logpack_header res" where
  "clear_records 0 i h = Inr h"
| "clear_records (Suc k) i h =
     res_bind (record_at h i) (\<lambda>r.
     res_bind (log_record_init (Some r)) (\<lambda>r0.
       clear_records k (Suc i) (h\<lparr>lh_record := (lh_record h)[i := r0]\<rparr>)))"

fun recount_records :: "u32 \<Rightarrow> nat \<Rightarrow> nat \<Rightarrow> walb_logpack_header \<Rightarrow> walb_logpack_header res" where
  "recount_records pbs 0 i h = Inr h"
| "recount_records pbs (Suc k) i h =
     res_bind (record_at h i) (\<lambda>r.
     res_bind (if \<not> test_bit_u32 LOG_RECORD_DISCARD (lr_flags r)
               then res_bind (capacity_pb pbs (ucast (lr_io_size r))) (\<lambda>c.
                 Inr (h\<lparr>lh_total_io_size := lh_total_io_size h + ucast c\<rparr>))
               else Inr h) (\<lambda>h1.
       recount_records pbs k (Suc i)
         (if test_bit_u32 LOG_RECORD_PADDING (lr_flags r)
          then h1\<lparr>lh_n_padding := lh_n_padding h1 + 1\<rparr> else h1)))"

definition shrink :: "nat \<Rightarrow> log_pack \<Rightarrow> (u64 \<times> log_pack) res" where
  "shrink invalidIdx lp =
     res_bind (deref (lp_header lp)) (\<lambda>h.
     ensure (invalidIdx < unat (lh_n_records h)) Assert_Failed
      (res_bind (clear_records (unat (lh_n_records h) - invalidIdx) invalidIdx h) (\<lambda>h1.
       res_bind (recount_records (lp_pbs lp) invalidIdx 0
           (h1\<lparr>lh_n_records := of_nat invalidIdx, lh_total_io_size := 0, lh_n_padding := 0\<rparr>)) (\<lambda>h2.
       res_bind (pack_updateChecksum (set_header h2 lp)) (\<lambda>lp2.
       res_bind (pack_isValid lp2 True) (\<lambda>ok.
       ensure ok Assert_Failed
         (res_bind (deref (lp_header lp2)) (\<lambda>h3. Inr (nextLogpackLsid h3, lp2)))))))))"

text \<open>The loop copies \<open>record(idx + 1)\<close> to \<open>record(idx)\<close> in every round, as in the source.\<close>

fun invalidate_loop :: "nat \<Rightarrow> nat \<Rightarrow> walb_logpack_header \<Rightarrow> walb_logpack_header res" where
  "invalidate_loop 0 idx h = Inr h"
| "invalidate_loop (Suc k) idx h =
     res_bind (record_at h idx) (\<lambda>_.
     res_bind (record_at h (idx + 1)) (\<lambda>r.
       invalidate_loop k idx (h\<lparr>lh_record := (lh_record h)[idx := r]\<rparr>)))"

definition invalidate :: "nat \<Rightarrow> log_pack \<Rightarrow> (nat \<times> log_pack) res" where
  "invalidate idx lp =
     res_bind (deref (lp_header lp)) (\<lambda>h.
     ensure (idx < unat (lh_n_records h)) Assert_Failed
      (res_bind (record_at h idx) (\<lambda>r.
        if isDiscard r then
          let n = unat (lh_n_records h) in
          res_bind (invalidate_loop (n - 1 - idx) idx h) (\<lambda>h1.
          res_bind (record_at h1 (n - 1)) (\<lambda>_.
            let lp2 = set_header (h1\<lparr>lh_record := (lh_record h1)[n - 1 := record_clear],
                                     lh_n_records := lh_n_records h1 - 1\<rparr>) lp
            in res_bind (pack_isValid lp2 False) (\<lambda>ok. ensure ok Assert_Failed (Inr (idx, lp2)))))
        else if isPadding r then Inr (idx + 1, lp)
        else Inr (idx + 1, set_header (h\<lparr>lh_record := (lh_record h)[idx :=
               (setPadding r)\<lparr>lr_offset := 0, lr_checksum := 0\<rparr>]\<rparr>) lp))))"

section \<open>Checksums of IO data, reading IO data, statistics\<close>

record ChecksumCalculator =
  cc_remaining :: nat
  cc_csum :: u32

definition cc_new :: "nat \<Rightarrow> u32 \<Rightarrow> ChecksumCalculator" where
  "cc_new ioSizeLb salt = \<lparr>cc_remaining = ioSizeLb * 512, cc_csum = salt\<rparr>"

definition cc_update :: "u8 list \<Rightarrow> ChecksumCalculator \<Rightarrow> ChecksumCalculator" where
  "cc_update data cc =
     (let s = min (length data) (cc_remaining cc) in
      \<lparr>cc_remaining = cc_remaining cc - s, cc_csum = checksumPartial (take s data) (cc_csum cc)\<rparr>)"

definition cc_get :: "ChecksumCalculator \<Rightarrow> u32 res" where
  "cc_get cc =
     (if cc_remaining cc \<noteq> 0 then Inl (Exception ''ChecksumCalculator'')
      else Inr (checksumFinish (cc_csum cc)))"

definition readLogPackHeader :: "u8 list \<Rightarrow> u64 \<Rightarrow> log_pack \<Rightarrow> (bool \<times> u8 list \<times> log_pack) res" where
  "readLogPackHeader reader lsid lp =
     res_bind (pack_readFrom reader lp) (\<lambda>(ok, reader1, lp1).
       if \<not> ok then Inr (False, reader1, lp1)
       else res_bind (deref (lp_header lp1)) (\<lambda>h.
         if lsid \<noteq> - 1 \<and> lh_logpack_lsid h \<noteq> lsid then Inr (False, reader1, lp1)
         else Inr (True, reader1, lp1)))"

definition readLogIo :: "u8 list \<Rightarrow> log_pack \<Rightarrow> nat \<Rightarrow> u8 list \<Rightarrow> (bool \<times> u8 list \<times> u8 list) res" where
  "readLogIo reader lp idx data =
     res_bind (deref (lp_header lp)) (\<lambda>h.
     res_bind (record_at h idx) (\<lambda>lrec.
       if \<not> hasData lrec then Inr (True, data, reader)
       else res_bind (ioSizePb (lp_pbs lp) lrec) (\<lambda>pb.
         let n = unat pb * unat (lp_pbs lp) in
         if length reader < n then Inl (Exception ''EofError'')
         else let data1 = take n reader in
           if \<not> hasDataForChecksum lrec then
             ensure (isPadding lrec) Assert_Failed (Inr (True, data1, drop n reader))
           else res_bind (read_at data1 0 (unat (lr_io_size lrec * LOGICAL_BLOCK_SIZE))) (\<lambda>io.
             Inr (lr_checksum lrec = calcChecksum io (lp_salt lp), data1, drop n reader)))))"

record LogStatistics =
  nrPacks :: u64
  bgnLsid :: u64
  endLsid :: u64
  st_lsid :: u64
  normalLb :: u64
  discardLb :: u64
  paddingPb :: u64

definition stat_init :: "u64 \<Rightarrow> u64 \<Rightarrow> LogStatistics" where
  "stat_init b e = \<lparr>nrPacks = 0, bgnLsid = b, endLsid = e, st_lsid = b, normalLb = 0, discardLb = 0,
     paddingPb = 0\<rparr>"

fun stat_loop :: "nat \<Rightarrow> nat \<Rightarrow> u32 \<Rightarrow> walb_logpack_header \<Rightarrow> LogStatistics \<Rightarrow> LogStatistics res" where
  "stat_loop 0 i pbs h st = Inr st"
| "stat_loop (Suc k) i pbs h st =
     res_bind (record_at h i) (\<lambda>r.
     res_bind (if isDiscard r then Inr (st\<lparr>discardLb := discardLb st + ucast (lr_io_size r)\<rparr>)
               else if isPadding r then
                 res_bind (ioSizePb pbs r) (\<lambda>pb. Inr (st\<lparr>paddingPb := paddingPb st + ucast pb\<rparr>))
               else Inr (st\<lparr>normalLb := normalLb st + ucast (lr_io_size r)\<rparr>))
       (stat_loop k (Suc i) pbs h))"

definition stat_update :: "log_pack \<Rightarrow> LogStatistics \<Rightarrow> LogStatistics res" where
  "stat_update lp st =
     res_bind (deref (lp_header lp)) (\<lambda>h.
     res_bind (stat_loop (unat (lh_n_records h)) 0 (lp_pbs lp) h st) (\<lambda>st1.
       Inr (st1\<lparr>nrPacks := nrPacks st1 + 1, st_lsid := nextLogpackLsid h\<rparr>)))"

end
