(* ===== verification/Wlog_Header.thy ===== *)
theory Wlog_Header
  imports Log_Record
begin

text \<open>
  The header block of a wlog file: \<^verbatim>\<open>src/walb_log.h\<close> and the class \<open>WlogFileHeader\<close> of
  \<^verbatim>\<open>src/walb_log_file.hpp\<close> and \<^verbatim>\<open>src/walb_log_file.cpp\<close>. The object is its buffer of
  \<open>WALBLOG_HEADER_SIZE\<close> bytes; \<open>header()\<close> is the cast of the buffer. A reader is the list of the
  bytes that are left, a writer the list of the bytes written so far.
\<close>

section \<open>walb\_log.h\<close>

definition WALBLOG_HEADER_SIZE :: u32 where "WALBLOG_HEADER_SIZE = 4096"

record walblog_header =
  wh_sector_type :: u16
  wh_version :: u16
  wh_header_size :: u16
  wh_reserved1 :: u16
  wh_checksum :: u32
  wh_log_checksum_salt :: u32
  wh_logical_bs :: u32
  wh_physical_bs :: u32
  wh_uuid :: "u8 list"
  wh_begin_lsid :: u64
  wh_end_lsid :: u64

definition wlog_header_bytes :: "walblog_header \<Rightarrow> u8 list" where
  "wlog_header_bytes w =
     le_store 2 (wh_sector_type w) @ le_store 2 (wh_version w) @ le_store 2 (wh_header_size w)
     @ le_store 2 (wh_reserved1 w) @ le_store 4 (wh_checksum w)
     @ le_store 4 (wh_log_checksum_salt w) @ le_store 4 (wh_logical_bs w)
     @ le_store 4 (wh_physical_bs w) @ wh_uuid w @ le_store 8 (wh_begin_lsid w)
     @ le_store 8 (wh_end_lsid w)"

definition wlog_header_of :: "u8 list \<Rightarrow> walblog_header" where
  "wlog_header_of bs =
     \<lparr>wh_sector_type = le_load (take 2 bs), wh_version = le_load (take 2 (drop 2 bs)),
      wh_header_size = le_load (take 2 (drop 4 bs)), wh_reserved1 = le_load (take 2 (drop 6 bs)),
      wh_checksum = le_load (take 4 (drop 8 bs)),
      wh_log_checksum_salt = le_load (take 4 (drop 12 bs)),
      wh_logical_bs = le_load (take 4 (drop 16 bs)),
      wh_physical_bs = le_load (take 4 (drop 20 bs)), wh_uuid = take 16 (drop 24 bs),
      wh_begin_lsid = le_load (take 8 (drop 40 bs)), wh_end_lsid = le_load (take 8 (drop 48 bs))\<rparr>"

text \<open>\<open>is_valid_wlog_header\<close> of the C header; its argument points to a whole header block.\<close>

definition is_valid_wlog_header :: "u8 list \<Rightarrow> bool res" where
  "is_valid_wlog_header block =
     res_bind (checksum block WALBLOG_HEADER_SIZE 0) (\<lambda>c.
       let wh = wlog_header_of block in
       if c \<noteq> 0 then Inr False
       else if wh_sector_type wh \<noteq> SECTOR_TYPE_WALBLOG_HEADER then Inr False
       else if wh_version wh \<noteq> WALB_LOG_VERSION then Inr False
       else if wh_end_lsid wh \<le> wh_begin_lsid wh then Inr False
       else if wh_logical_bs wh \<noteq> LOGICAL_BLOCK_SIZE then Inr False
       else if \<not> is_valid_pbs (wh_physical_bs wh) then Inr False
       else Inr True)"

section \<open>WlogFileHeader\<close>

definition wlog_set_header :: "walblog_header \<Rightarrow> u8 list \<Rightarrow> u8 list" where
  "wlog_set_header w data = overwrite data 0 (wlog_header_bytes w)"

definition wlog_new :: "u8 list" where
  "wlog_new = replicate (unat WALBLOG_HEADER_SIZE) 0"

definition wlog_init :: "u32 \<Rightarrow> u32 \<Rightarrow> u8 list \<Rightarrow> u64 \<Rightarrow> u64 \<Rightarrow> u8 list \<Rightarrow> u8 list" where
  "wlog_init pbs salt uuid beginLsid endLsid data =
     (let data0 = replicate (length data) 0 in
      wlog_set_header (wlog_header_of data0
        \<lparr>wh_sector_type := SECTOR_TYPE_WALBLOG_HEADER, wh_version := WALB_LOG_VERSION,
         wh_header_size := ucast WALBLOG_HEADER_SIZE, wh_log_checksum_salt := salt,
         wh_logical_bs := LOGICAL_BLOCK_SIZE, wh_physical_bs := pbs, wh_uuid := uuid,
         wh_begin_lsid := beginLsid, wh_end_lsid := endLsid\<rparr>) data0)"

definition wlog_calcChecksum :: "u8 list \<Rightarrow> u32 res" where
  "wlog_calcChecksum data = checksum data (of_nat (length data)) 0"

definition wlog_updateChecksum :: "u8 list \<Rightarrow> u8 list res" where
  "wlog_updateChecksum data =
     (let data0 = wlog_set_header (wlog_header_of data\<lparr>wh_checksum := 0\<rparr>) data in
      res_bind (wlog_calcChecksum data0) (\<lambda>c.
        Inr (wlog_set_header (wlog_header_of data0\<lparr>wh_checksum := c\<rparr>) data0)))"

definition wlog_isValid :: "u8 list \<Rightarrow> bool \<Rightarrow> bool res" where
  "wlog_isValid data isChecksum =
     (let h = wlog_header_of data in
      if wh_sector_type h \<noteq> SECTOR_TYPE_WALBLOG_HEADER then Inr False
      else if wh_version h \<noteq> WALB_LOG_VERSION then Inr False
      else if \<not> wh_begin_lsid h < wh_end_lsid h then Inr False
      else if isChecksum then res_bind (wlog_calcChecksum data) (\<lambda>c. Inr (c = 0))
      else Inr True)"

definition wlog_verify :: "u8 list \<Rightarrow> unit res" where
  "wlog_verify data =
     res_bind (wlog_isValid data True) (\<lambda>ok. if ok then Inr () else Inl (Exception ''invalid''))"

definition wlog_readFrom :: "u8 list \<Rightarrow> u8 list \<Rightarrow> (u8 list \<times> u8 list) res" where
  "wlog_readFrom reader data =
     (if length data \<le> length reader then
        res_bind (wlog_verify (take (length data) reader)) (\<lambda>_.
          Inr (take (length data) reader, drop (length data) reader))
      else Inl (Exception ''EofError''))"

definition wlog_writeTo :: "u8 list \<Rightarrow> u8 list \<Rightarrow> (u8 list \<times> u8 list) res" where
  "wlog_writeTo writer data =
     res_bind (wlog_updateChecksum data) (\<lambda>data1. Inr (data1, writer @ data1))"

section \<open>The image of a header block\<close>

definition wlog_block_ok :: "u8 list \<Rightarrow> bool" where
  "wlog_block_ok data \<longleftrightarrow> length data = 4096"

definition wlog_header_ok :: "walblog_header \<Rightarrow> bool" where
  "wlog_header_ok w \<longleftrightarrow> length (wh_uuid w) = 16"

lemma length_wlog_header_bytes: "wlog_header_ok w \<Longrightarrow> length (wlog_header_bytes w) = 56"
  by (simp add: wlog_header_ok_def wlog_header_bytes_def)

lemma wlog_header_of_bytes: "wlog_header_ok w \<Longrightarrow> wlog_header_of (wlog_header_bytes w @ xs) = w"
  by (simp add: wlog_header_ok_def wlog_header_bytes_def wlog_header_of_def)

lemma wlog_header_ok_of: "wlog_block_ok data \<Longrightarrow> wlog_header_ok (wlog_header_of data)"
  by (simp add: wlog_header_ok_def wlog_header_of_def wlog_block_ok_def)

lemma wlog_set_header_data:
  "wlog_header_ok w \<Longrightarrow> wlog_set_header w data = wlog_header_bytes w @ drop 56 data"
  by (simp add: wlog_set_header_def overwrite_def length_wlog_header_bytes)

lemma wlog_header_of_set: "wlog_header_ok w \<Longrightarrow> wlog_header_of (wlog_set_header w data) = w"
  by (simp add: wlog_set_header_data wlog_header_of_bytes)

lemma wlog_block_ok_set:
  "wlog_block_ok data \<Longrightarrow> wlog_header_ok w \<Longrightarrow> wlog_block_ok (wlog_set_header w data)"
  by (simp add: wlog_set_header_data wlog_block_ok_def length_wlog_header_bytes)

lemma wlog_set_header_set:
  "wlog_header_ok w \<Longrightarrow> wlog_header_ok w' \<Longrightarrow>
     wlog_set_header w (wlog_set_header w' data) = wlog_set_header w data"
  by (simp add: wlog_set_header_data length_wlog_header_bytes)

lemma wlog_header_ok_csum [simp]: "wlog_header_ok (w\<lparr>wh_checksum := c\<rparr>) = wlog_header_ok w"
  by (simp add: wlog_header_ok_def)

interpretation wlog_sum: checksummed wlog_block_ok "\<lambda>data. data"
    "\<lambda>c data. wlog_set_header (wlog_header_of data\<lparr>wh_checksum := c\<rparr>) data"
proof
  fix c :: u32 and data :: "u8 list"
  assume ok: "wlog_block_ok data"
  note w = wlog_header_ok_of [OF ok]
  show "wlog_block_ok (wlog_set_header (wlog_header_of data\<lparr>wh_checksum := c\<rparr>) data)"
    using w by (intro wlog_block_ok_set [OF ok]) simp
  show "4 dvd length data" using ok by (simp add: wlog_block_ok_def)
  let ?h = "wlog_header_of data"
  let ?t = "le_store 2 (wh_sector_type ?h) @ le_store 2 (wh_version ?h)
     @ le_store 2 (wh_header_size ?h) @ le_store 2 (wh_reserved1 ?h)"
  have "word_sum (?t @ le_store 4 x @ ys) = word_sum ?t + (x + word_sum ys)" for x ys
    by (subst word_sum_append) simp_all
  then have "word_sum (le_store 2 (wh_sector_type ?h) @ le_store 2 (wh_version ?h)
     @ le_store 2 (wh_header_size ?h) @ le_store 2 (wh_reserved1 ?h) @ le_store 4 x @ ys) =
     word_sum ?t + (x + word_sum ys)" for x ys
    by simp
  then show "word_sum (wlog_set_header (?h\<lparr>wh_checksum := c\<rparr>) data) =
      c + word_sum (wlog_set_header (?h\<lparr>wh_checksum := 0\<rparr>) data)"
    using w by (simp add: wlog_set_header_data wlog_header_bytes_def)
qed

lemma wlog_checksum:
  "wlog_block_ok data \<Longrightarrow> checksum data 4096 0 = Inr (calcChecksum data 0)"
  by (rule wlog_sum.checksum_agrees) (simp_all add: wlog_block_ok_def)

lemma wlog_calcChecksum_ok:
  "wlog_block_ok data \<Longrightarrow> wlog_calcChecksum data = Inr (calcChecksum data 0)"
  using wlog_checksum [of data] by (simp add: wlog_calcChecksum_def wlog_block_ok_def)

definition wlog_sealed :: "u8 list \<Rightarrow> u8 list" where
  "wlog_sealed data = wlog_set_header (wlog_header_of data\<lparr>wh_checksum :=
     calcChecksum (wlog_set_header (wlog_header_of data\<lparr>wh_checksum := 0\<rparr>) data) 0\<rparr>) data"

lemma wlog_updateChecksum_ok:
  assumes "wlog_block_ok data"
  shows "wlog_updateChecksum data = Inr (wlog_sealed data)"
proof -
  note w = wlog_header_ok_of [OF assms]
  show ?thesis
    using wlog_sum.ok_set [OF assms, of 0] w
    by (simp add: wlog_updateChecksum_def wlog_sealed_def Let_def wlog_calcChecksum_ok
        wlog_header_of_set wlog_set_header_set)
qed

lemma wlog_sealed_facts:
  assumes "wlog_block_ok data"
  shows "wlog_block_ok (wlog_sealed data)" and "calcChecksum (wlog_sealed data) 0 = 0"
    and "wlog_header_of (wlog_sealed data)\<lparr>wh_checksum := 0\<rparr> = wlog_header_of data\<lparr>wh_checksum := 0\<rparr>"
  using wlog_sum.ok_set [OF assms] wlog_sum.updated_verifies [OF assms, of 0]
    wlog_header_ok_of [OF assms]
  by (simp_all add: wlog_sealed_def wlog_header_of_set)

section \<open>Writing and reading back\<close>

text \<open>
  whatever an object held before, writing a header block whose lsid range is not empty and
  reading the bytes back, whatever follows them, succeeds: the reader gets the block that was
  written, with the checksum field filled in and every other field unchanged, and the rest of the stream.
\<close>

theorem wlog_header_write_read:
  assumes "wlog_isValid data False = Inr True" and "length data = 4096" and "length data' = 4096"
  shows "\<exists>data1. wlog_writeTo out data = Inr (data1, out @ data1)
    \<and> wlog_readFrom (data1 @ rest) data' = Inr (data1, rest)
    \<and> wlog_header_of data1\<lparr>wh_checksum := 0\<rparr> = wlog_header_of data\<lparr>wh_checksum := 0\<rparr>"
proof -
  have ok: "wlog_block_ok data" using assms(2) by (simp add: wlog_block_ok_def)
  note s = wlog_sealed_facts [OF ok]
  have fields: "wh_sector_type (wlog_header_of (wlog_sealed data)) = wh_sector_type (wlog_header_of data)"
    "wh_version (wlog_header_of (wlog_sealed data)) = wh_version (wlog_header_of data)"
    "wh_begin_lsid (wlog_header_of (wlog_sealed data)) = wh_begin_lsid (wlog_header_of data)"
    "wh_end_lsid (wlog_header_of (wlog_sealed data)) = wh_end_lsid (wlog_header_of data)"
    using wlog_header_ok_of [OF ok] by (simp_all add: wlog_sealed_def wlog_header_of_set)
  have "wlog_isValid (wlog_sealed data) True = Inr True"
    using assms(1) s(1,2) by (auto simp: wlog_isValid_def Let_def fields wlog_calcChecksum_ok split: if_splits)
  moreover have "length (wlog_sealed data) = 4096" using s(1) by (simp add: wlog_block_ok_def)
  ultimately show ?thesis
    using assms(3) s(3)
    by (simp add: wlog_writeTo_def wlog_readFrom_def wlog_verify_def wlog_updateChecksum_ok [OF ok])
qed

definition sample_wlog :: "u8 list" where
  "sample_wlog = wlog_init 4096 7 (replicate 16 3) 100 200 wlog_new"

lemma length_wlog_new [simp]: "length wlog_new = 4096"
  by (simp add: wlog_new_def WALBLOG_HEADER_SIZE_def)

lemma wlog_init_header:
  assumes "length uuid = 16" and "length data = 4096"
  shows "wlog_header_of (wlog_init pbs salt uuid b e data) =
    \<lparr>wh_sector_type = 4, wh_version = 2, wh_header_size = 4096, wh_reserved1 = 0, wh_checksum = 0,
     wh_log_checksum_salt = salt, wh_logical_bs = 512, wh_physical_bs = pbs, wh_uuid = uuid,
     wh_begin_lsid = b, wh_end_lsid = e\<rparr>"
    and "length (wlog_init pbs salt uuid b e data) = 4096"
proof -
  have z: "le_load (replicate n 0) = (0 :: 'a::len word)" for n
  proof -
    have "le_val (replicate n 0) = 0" by (induction n) auto
    then show ?thesis by (simp add: le_load_def)
  qed
  let ?w = "wlog_header_of (replicate 4096 0)
        \<lparr>wh_sector_type := SECTOR_TYPE_WALBLOG_HEADER, wh_version := WALB_LOG_VERSION,
         wh_header_size := ucast WALBLOG_HEADER_SIZE, wh_log_checksum_salt := salt,
         wh_logical_bs := LOGICAL_BLOCK_SIZE, wh_physical_bs := pbs, wh_uuid := uuid,
         wh_begin_lsid := b, wh_end_lsid := e\<rparr>"
  have ok: "wlog_header_ok ?w" using assms(1) by (simp add: wlog_header_ok_def)
  have i: "wlog_init pbs salt uuid b e data = wlog_set_header ?w (replicate 4096 0)"
    by (simp add: wlog_init_def Let_def assms(2))
  show "wlog_header_of (wlog_init pbs salt uuid b e data) =
    \<lparr>wh_sector_type = 4, wh_version = 2, wh_header_size = 4096, wh_reserved1 = 0, wh_checksum = 0,
     wh_log_checksum_salt = salt, wh_logical_bs = 512, wh_physical_bs = pbs, wh_uuid = uuid,
     wh_begin_lsid = b, wh_end_lsid = e\<rparr>"
    unfolding i wlog_header_of_set [OF ok]
    by (simp add: wlog_header_of_def z SECTOR_TYPE_WALBLOG_HEADER_def WALB_LOG_VERSION_def
        WALBLOG_HEADER_SIZE_def LOGICAL_BLOCK_SIZE_eq)
  show "length (wlog_init pbs salt uuid b e data) = 4096"
    unfolding i using wlog_block_ok_set [OF _ ok, of "replicate 4096 0"] by (simp add: wlog_block_ok_def)
qed

theorem wlog_header_write_read_witness:
  "\<exists>data1. wlog_writeTo [9] sample_wlog = Inr (data1, [9] @ data1)
    \<and> wlog_readFrom (data1 @ [1, 2]) wlog_new = Inr (data1, [1, 2])
    \<and> wlog_header_of data1\<lparr>wh_checksum := 0\<rparr> = wlog_header_of sample_wlog\<lparr>wh_checksum := 0\<rparr>"
  by (rule wlog_header_write_read)
    (simp_all add: sample_wlog_def wlog_init_header wlog_isValid_def SECTOR_TYPE_WALBLOG_HEADER_def
      WALB_LOG_VERSION_def)

text \<open>
  the two validity checks of a wlog header do not agree. On a header block the C function
  \<open>is_valid_wlog_header\<close> accepts exactly the blocks that \<open>WlogFileHeader::isValid\<close> accepts and that have the
  logical block size 512 and a physical block size that is a positive multiple of it;
  the C++ reader uses the weaker one.
\<close>

theorem is_valid_wlog_header_iff:
  assumes "length data = 4096"
  shows "is_valid_wlog_header data = res_bind (wlog_isValid data True) (\<lambda>ok.
    Inr (ok \<and> wh_logical_bs (wlog_header_of data) = 512
      \<and> 512 \<le> unat (wh_physical_bs (wlog_header_of data))
      \<and> unat (wh_physical_bs (wlog_header_of data)) mod 512 = 0))"
proof -
  have ok: "wlog_block_ok data" using assms by (simp add: wlog_block_ok_def)
  show ?thesis
    by (simp add: is_valid_wlog_header_def wlog_isValid_def WALBLOG_HEADER_SIZE_def Let_def
        wlog_checksum [OF ok] wlog_calcChecksum_ok [OF ok] is_valid_pbs_iff LOGICAL_BLOCK_SIZE_eq not_less)
qed

theorem is_valid_wlog_header_iff_witness:
  "is_valid_wlog_header sample_wlog = res_bind (wlog_isValid sample_wlog True) (\<lambda>ok.
    Inr (ok \<and> wh_logical_bs (wlog_header_of sample_wlog) = 512
      \<and> 512 \<le> unat (wh_physical_bs (wlog_header_of sample_wlog))
      \<and> unat (wh_physical_bs (wlog_header_of sample_wlog)) mod 512 = 0))"
  by (rule is_valid_wlog_header_iff) (simp add: sample_wlog_def wlog_init_header)

end
