(* ===== verification/Wlog_File.thy ===== *)
theory Wlog_File
  imports Log_Pack Wlog_Header File_Io
begin

text \<open>
  Wlog files: \<open>WlogReader\<close>, \<open>WlogWriter\<close> and \<open>LogFile\<close> of \<^verbatim>\<open>src/walb_log_file.hpp\<close> and
  \<^verbatim>\<open>src/walb_log_file.cpp\<close>, and the reading of whole log packs of \<^verbatim>\<open>src/walb_log_base.hpp\<close>.
  A file that is read is the list of the bytes that are left, a file that is written the list of the bytes
  written so far; a file header is its block, as in \<open>Wlog_Header\<close>.
\<close>

section \<open>WlogReader\<close>

record wlog_reader =
  wr_file :: "u8 list"
  wr_isReadHeader :: bool
  wr_pbs :: u32
  wr_salt :: u32
  wr_isBegun :: bool
  wr_isEnd :: bool
  wr_packH :: log_pack
  wr_recIdx :: u16
  wr_endLsid :: u64

definition wr_new :: "u8 list \<Rightarrow> wlog_reader" where
  "wr_new fileR = \<lparr>wr_file = fileR, wr_isReadHeader = False, wr_pbs = 0, wr_salt = 0, wr_isBegun = False,
     wr_isEnd = False, wr_packH = \<lparr>lp_header = None, lp_pbs = 0, lp_salt = 0\<rparr>, wr_recIdx = 0, wr_endLsid = 0\<rparr>"

definition wr_readHeader :: "u8 list \<Rightarrow> wlog_reader \<Rightarrow> (u8 list \<times> wlog_reader) res" where
  "wr_readHeader fileH r =
     (if wr_isReadHeader r then Inl (Exception ''Wlog file header has been read already.'')
      else res_bind (wlog_readFrom (wr_file r) fileH) (\<lambda>(fileH1, rest).
        let h = wlog_header_of fileH1 in
        Inr (fileH1, r\<lparr>wr_isReadHeader := True, wr_file := rest, wr_pbs := wh_physical_bs h,
          wr_salt := wh_log_checksum_salt h, wr_endLsid := wh_begin_lsid h,
          wr_packH := pack_init (wh_physical_bs h) (wh_log_checksum_salt h)\<rparr>)))"

definition wr_nRecords :: "wlog_reader \<Rightarrow> u16 res" where
  "wr_nRecords r = res_bind (deref (lp_header (wr_packH r))) (\<lambda>h. Inr (lh_n_records h))"

definition wr_readPackHeader :: "wlog_reader \<Rightarrow> (bool \<times> wlog_reader) res" where
  "wr_readPackHeader r =
     res_bind (pack_readFrom (wr_file r) (wr_packH r)) (\<lambda>(ok, rest, lp).
       let r1 = r\<lparr>wr_isBegun := True, wr_file := rest, wr_packH := lp\<rparr> in
       if \<not> ok then Inr (False, r1\<lparr>wr_isEnd := True\<rparr>)
       else res_bind (deref (lp_header lp)) (\<lambda>h.
         if pack_isEnd h then Inr (False, r1\<lparr>wr_isEnd := True\<rparr>)
         else Inr (True, r1\<lparr>wr_recIdx := 0, wr_endLsid := nextLogpackLsid h\<rparr>)))"

definition fetchNextPackHeader :: "wlog_reader \<Rightarrow> (bool \<times> wlog_reader) res" where
  "fetchNextPackHeader r =
     (if \<not> wr_isReadHeader r then Inl (Exception ''You have not called readHeader() yet'')
      else if wr_isEnd r then Inr (False, r)
      else if wr_isBegun r then
        res_bind (wr_nRecords r) (\<lambda>n. if wr_recIdx r < n then Inr (True, r) else wr_readPackHeader r)
      else wr_readPackHeader r)"

text \<open>\<open>None\<close> stands for the return value false; otherwise the record, the data and the index in the pack.\<close>

definition readLog ::
  "u8 list \<Rightarrow> wlog_reader \<Rightarrow> ((walb_log_record \<times> u8 list \<times> u16) option \<times> wlog_reader) res"
where
  "readLog data r =
     res_bind (fetchNextPackHeader r) (\<lambda>(ok, r1).
       if \<not> ok then Inr (None, r1)
       else res_bind (deref (lp_header (wr_packH r1))) (\<lambda>h.
         res_bind (record_at h (unat (wr_recIdx r1))) (\<lambda>rec.
         res_bind (readLogIo (wr_file r1) (wr_packH r1) (unat (wr_recIdx r1)) data) (\<lambda>(valid, data1, rest).
           if \<not> valid then Inl (Exception ''invalid log IO'')
           else Inr (Some (rec, data1, wr_recIdx r1), r1\<lparr>wr_file := rest, wr_recIdx := wr_recIdx r1 + 1\<rparr>)))))"

definition wr_packHeader :: "wlog_reader \<Rightarrow> (log_pack \<times> wlog_reader) res" where
  "wr_packHeader r =
     res_bind (fetchNextPackHeader r) (\<lambda>(ret, r1). ensure ret Assert_Failed (Inr (wr_packH r1, r1)))"

definition wr_getEndLsid :: "wlog_reader \<Rightarrow> (u64 \<times> wlog_reader) res" where
  "wr_getEndLsid r =
     res_bind (fetchNextPackHeader r) (\<lambda>(more, r1).
       if more then Inl (Exception ''Must be reached to the wlog end.'') else Inr (wr_endLsid r1, r1))"

section \<open>WlogWriter\<close>

record wlog_writer =
  ww_file :: "u8 list"
  ww_isWrittenHeader :: bool
  ww_isClosed :: bool
  ww_pbs :: u32
  ww_salt :: u32
  ww_beginLsid :: u64
  ww_lsid :: u64

definition ww_new :: "u8 list \<Rightarrow> wlog_writer" where
  "ww_new fileW = \<lparr>ww_file = fileW, ww_isWrittenHeader = False, ww_isClosed = False, ww_pbs = 0, ww_salt = 0,
     ww_beginLsid = - 1, ww_lsid = - 1\<rparr>"

definition writeEof :: "wlog_writer \<Rightarrow> wlog_writer res" where
  "writeEof w =
     res_bind (setEnd (pack_init (ww_pbs w) (ww_salt w))) (\<lambda>h.
     res_bind (updateChecksumAndWriteTo (ww_file w) h) (\<lambda>(f, _). Inr (w\<lparr>ww_file := f\<rparr>)))"

definition ww_close :: "wlog_writer \<Rightarrow> wlog_writer res" where
  "ww_close w =
     (if \<not> ww_isClosed w \<and> ww_isWrittenHeader w
      then res_bind (writeEof w) (\<lambda>w1. Inr (w1\<lparr>ww_isClosed := True\<rparr>)) else Inr w)"

definition ww_writeHeader :: "u8 list \<Rightarrow> wlog_writer \<Rightarrow> (u8 list \<times> wlog_writer) res" where
  "ww_writeHeader fileH w =
     (if ww_isWrittenHeader w then Inl (Exception ''Wlog file header has been written already.'')
      else res_bind (wlog_isValid fileH False) (\<lambda>ok.
        if \<not> ok then Inl (Exception ''Wlog file header is invalid.'')
        else res_bind (wlog_writeTo (ww_file w) fileH) (\<lambda>(fileH1, f).
          let h = wlog_header_of fileH1 in
          Inr (fileH1, w\<lparr>ww_file := f, ww_isWrittenHeader := True, ww_pbs := wh_physical_bs h,
            ww_salt := wh_log_checksum_salt h, ww_beginLsid := wh_begin_lsid h, ww_lsid := wh_begin_lsid h\<rparr>))))"

definition writePackHeader :: "walb_logpack_header \<Rightarrow> wlog_writer \<Rightarrow> wlog_writer res" where
  "writePackHeader header w =
     (if \<not> ww_isWrittenHeader w then Inl (Exception ''You must call writeHeader() at first.'')
      else if lh_n_records header = 0 then Inr w
      else res_bind (read_at (logpack_header_bytes header) 0 (unat (ww_pbs w))) (\<lambda>bs.
        Inr (w\<lparr>ww_file := ww_file w @ bs, ww_lsid := ww_lsid w + 1\<rparr>)))"

definition writePackIo :: "u8 list \<Rightarrow> wlog_writer \<Rightarrow> wlog_writer res" where
  "writePackIo data w =
     (if data = [] then Inr w
      else ensure (ww_pbs w \<noteq> 0) Div_By_Zero
       (ensure (length data mod unat (ww_pbs w) = 0) Assert_Failed
         (Inr (w\<lparr>ww_file := ww_file w @ data,
           ww_lsid := ww_lsid w + of_nat (length data div unat (ww_pbs w))\<rparr>))))"

fun writePackIos :: "u8 list list \<Rightarrow> wlog_writer \<Rightarrow> wlog_writer res" where
  "writePackIos [] w = Inr w"
| "writePackIos (data # ioQ) w = res_bind (writePackIo data w) (writePackIos ioQ)"

definition ww_checkHeader :: "log_pack \<Rightarrow> wlog_writer \<Rightarrow> unit res" where
  "ww_checkHeader header w =
     res_bind (pack_isValid header True) (\<lambda>ok.
       if \<not> ok then Inl (Exception ''Logpack header invalid.'')
       else if ww_pbs w \<noteq> lp_pbs header then Inl (Exception ''pbs differs'')
       else if ww_salt w \<noteq> lp_salt header then Inl (Exception ''salt differs'')
       else res_bind (deref (lp_header header)) (\<lambda>h.
         if ww_lsid w \<noteq> lh_logpack_lsid h then Inl (Exception ''logpack lsid differs'') else Inr ()))"

definition writePack :: "log_pack \<Rightarrow> u8 list list \<Rightarrow> wlog_writer \<Rightarrow> wlog_writer res" where
  "writePack header ioQ w =
     res_bind (ww_checkHeader header w) (\<lambda>_.
     res_bind (nRecordsHavingData header) (\<lambda>n.
       if length ioQ \<noteq> n then Inl (Exception ''bad queue size'')
       else res_bind (deref (lp_header header)) (\<lambda>h.
         res_bind (writePackHeader h w) (\<lambda>w1.
         res_bind (writePackIos ioQ w1) (\<lambda>w2.
           ensure (ww_lsid w2 = nextLogpackLsid h) Assert_Failed (Inr w2))))))"

section \<open>Whole packs\<close>

text \<open>
  The loop of \<open>readAllLogIos\<close>: the result is the reader, the pack, the queue and whether the pack was
  not cut. It looks at the number of records again in every round, but the pack only changes when it leaves.
\<close>

fun readAllLogIos_loop ::
  "nat \<Rightarrow> nat \<Rightarrow> bool \<Rightarrow> u8 list \<Rightarrow> log_pack \<Rightarrow> u8 list list \<Rightarrow> (bool \<times> u8 list \<times> log_pack \<times> u8 list list) res"
where
  "readAllLogIos_loop 0 i doShrink reader lp ioQ = Inr (True, reader, lp, ioQ)"
| "readAllLogIos_loop (Suc k) i doShrink reader lp ioQ =
     res_bind (deref (lp_header lp)) (\<lambda>h.
     res_bind (record_at h i) (\<lambda>rec.
       if \<not> hasData rec then readAllLogIos_loop k (i + 1) doShrink reader lp ioQ
       else res_bind (readLogIo reader lp i []) (\<lambda>(valid, buf, reader1).
         if doShrink \<and> \<not> valid then
           res_bind (shrink i lp) (\<lambda>(_, lp1). Inr (False, reader1, lp1, ioQ))
         else readAllLogIos_loop k (i + 1) doShrink reader1 lp (ioQ @ [buf]))))"

definition readAllLogIos ::
  "u8 list \<Rightarrow> log_pack \<Rightarrow> u8 list list \<Rightarrow> bool \<Rightarrow> (bool \<times> u8 list \<times> log_pack \<times> u8 list list) res"
where
  "readAllLogIos reader lp ioQ doShrink =
     res_bind (deref (lp_header lp)) (\<lambda>h.
     res_bind (readAllLogIos_loop (unat (lh_n_records h)) 0 doShrink reader lp ioQ) (\<lambda>(nt, reader1, lp1, ioQ1).
     res_bind (nRecordsHavingData lp1) (\<lambda>n.
       ensure (n = length ioQ1) Assert_Failed (Inr (nt, reader1, lp1, ioQ1)))))"

function logfile_skip_loop :: "os_io \<Rightarrow> nat \<Rightarrow> os_file \<Rightarrow> os_file res" where
  "logfile_skip_loop os n f =
     (if n = 0 then Inr f
      else res_bind (fd_read os (min 4096 n) f) (\<lambda>(_, f1). logfile_skip_loop os (n - min 4096 n) f1))"
  by pat_completeness auto
termination by (relation "measure (\<lambda>(os, n, f). n)") auto

declare logfile_skip_loop.simps [simp del]

text \<open>\<open>seekable\<close> is the member that \<open>setSeekable\<close> sets.\<close>

definition logfile_skip :: "os_io \<Rightarrow> bool \<Rightarrow> u64 \<Rightarrow> os_file \<Rightarrow> os_file res" where
  "logfile_skip os seekable n f =
     (if seekable then fd_lseek (sint n) SEEK_CUR f else logfile_skip_loop os (unat n) f)"

definition skipAllLogIos :: "os_io \<Rightarrow> bool \<Rightarrow> log_pack \<Rightarrow> os_file \<Rightarrow> os_file res" where
  "skipAllLogIos os seekable packH f =
     res_bind (deref (lp_header packH)) (\<lambda>h.
       logfile_skip os seekable (ucast (ucast (lh_total_io_size h) * lp_pbs packH :: u32)) f)"

section \<open>Progress of the reader\<close>

text \<open>The measure for loops over the logs of a wlog. Every log that is read makes the file shorter or brings the reader to the next record of the pack.\<close>

definition reader_measure :: "(wlog_reader \<times> wlog_reader) set" where
  "reader_measure = measures [\<lambda>r. length (wr_file r),
     \<lambda>r. (case lp_header (wr_packH r) of None \<Rightarrow> 0 | Some h \<Rightarrow> unat (lh_n_records h)) - unat (wr_recIdx r)]"

lemma readLogIo_shorter:
  "readLogIo f lp i d = Inr (v, d', f') \<Longrightarrow> length f' \<le> length f"
  by (auto simp: readLogIo_def res_bind_Inr_iff ensure_Inr_iff Let_def split: if_splits)

lemma pack_readFrom_shorter:
  assumes "pack_readFrom f lp = Inr (True, f', lp')"
  shows "length f' < length f"
proof -
  have "lp_pbs lp \<noteq> 0 \<and> \<not> length f < unat (lp_pbs lp) \<and> f' = drop (unat (lp_pbs lp)) f"
    using assms by (auto simp: pack_readFrom_def res_bind_Inr_iff Let_def pack_isValid_def set_header_def split: if_splits)
  moreover from this have "0 < unat (lp_pbs lp)" by (simp add: unat_gt_0)
  ultimately show ?thesis by auto
qed

lemma readLog_decreases:
  assumes "readLog data r = Inr (Some x, r')"
  shows "(r', r) \<in> reader_measure"
proof -
  obtain r1 h rec data1 rest where f: "fetchNextPackHeader r = Inr (True, r1)" "lp_header (wr_packH r1) = Some h"
    "record_at h (unat (wr_recIdx r1)) = Inr rec"
    "readLogIo (wr_file r1) (wr_packH r1) (unat (wr_recIdx r1)) data = Inr (True, data1, rest)"
    "r' = r1\<lparr>wr_file := rest, wr_recIdx := wr_recIdx r1 + 1\<rparr>"
    using assms by (auto simp: readLog_def res_bind_Inr_iff deref_def ensure_Inr_iff split: if_splits prod.splits option.splits)
  have le: "length rest \<le> length (wr_file r1)" using readLogIo_shorter [OF f(4)] .
  show ?thesis
  proof (cases "r1 = r")
    case True
    have lt: "unat (wr_recIdx r) < unat (lh_n_records h)" using f(3) True by (auto simp: record_at_def split: if_splits)
    moreover have "unat (wr_recIdx r) + 1 < 65536" using lt unat_lt16 [of "lh_n_records h"] by linarith
    then have "unat (wr_recIdx r + 1) = unat (wr_recIdx r) + 1" by (subst unat_add_small) simp_all
    ultimately show ?thesis using le f(2,5) True
      by (cases "length rest < length (wr_file r)") (auto simp: reader_measure_def)
  next
    case False
    then have "wr_readPackHeader r = Inr (True, r1)"
      using f(1) by (auto simp: fetchNextPackHeader_def res_bind_Inr_iff split: if_splits)
    then obtain rest1 lp where "pack_readFrom (wr_file r) (wr_packH r) = Inr (True, rest1, lp)" "wr_file r1 = rest1"
      by (auto simp: wr_readPackHeader_def res_bind_Inr_iff Let_def split: if_splits prod.splits)
    then show ?thesis using pack_readFrom_shorter [of "wr_file r" "wr_packH r" rest1 lp] le f(5)
      by (simp add: reader_measure_def)
  qed
qed

lemma wf_reader_measure: "wf reader_measure"
  by (simp add: reader_measure_def)

end
