(* ===== verification/Diff_Convert.thy ===== *)
theory Diff_Convert
  imports Wlog_File Diff_File
begin

text \<open>
  Conversion of wlogs to wdiffs: \<open>convertLogToDiff\<close>, \<open>DiffConverter\<close> and \<open>IndexedDiffConverter\<close> of
  \<^verbatim>\<open>src/walb_diff_converter.hpp\<close> and \<^verbatim>\<open>src/walb_diff_converter.cpp\<close>. The input is the list of the bytes that
  are left of the file descriptor, which several wlogs may share one after the other. The buffer that the loop
  reuses is passed on.
\<close>

section \<open>One log\<close>

text \<open>\<open>cybozu::util::isAllZero\<close>: words of eight bytes, then the rest byte by byte.\<close>

fun allZero_bytes :: "u8 list \<Rightarrow> bool" where
  "allZero_bytes [] = True"
| "allZero_bytes (b # bs) = (if b \<noteq> 0 then False else allZero_bytes bs)"

function allZero_words :: "u8 list \<Rightarrow> bool" where
  "allZero_words p =
     (if 8 \<le> length p then (if le_load (take 8 p) \<noteq> (0 :: u64) then False else allZero_words (drop 8 p))
      else allZero_bytes p)"
  by pat_completeness auto
termination by (relation "measure length") auto

declare allZero_words.simps [simp del]

definition util_isAllZero :: "u8 list \<Rightarrow> nat \<Rightarrow> bool res" where
  "util_isAllZero data n = res_bind (read_at data 0 n) (\<lambda>p. Inr (allZero_words p))"

text \<open>\<open>None\<close> stands for the return value false.\<close>

definition convertLogToDiff :: "walb_log_record \<Rightarrow> u8 list \<Rightarrow> walb_diff_record option res" where
  "convertLogToDiff lrec data =
     (if isPadding lrec then Inr None
      else
        let drec = DiffRecord_init\<lparr>dr_io_address := lr_offset lrec, dr_io_blocks := lr_io_size lrec\<rparr> in
        if isDiscard lrec then Inr (Some ((rec_setDiscard drec)\<lparr>dr_data_size := 0\<rparr>))
        else
          let ioSizeB = lr_io_size lrec * LOGICAL_BLOCK_SIZE in
          res_bind (util_isAllZero data (unat ioSizeB)) (\<lambda>z.
            if z then Inr (Some ((rec_setAllZero drec)\<lparr>dr_data_size := 0\<rparr>))
            else Inr (Some (drec\<lparr>dr_compression_type := WALB_DIFF_CMPR_NONE, dr_data_offset := 0,
              dr_data_size := ioSizeB, dr_checksum := 0\<rparr>))))"

definition IndexedDiffRecord_init :: walb_indexed_diff_record where
  "IndexedDiffRecord_init = \<lparr>ir_io_address = 0, ir_io_blocks = 0, ir_flags = 0, ir_compression_type = 0,
     ir_reserved1 = 0, ir_data_offset = 0, ir_data_size = 0, ir_io_offset = 0, ir_orig_blocks = 0,
     ir_reserved2 = 0, ir_io_checksum = 0, ir_rec_checksum = 0\<rparr>"

definition irec_setDiscard :: "walb_indexed_diff_record \<Rightarrow> walb_indexed_diff_record" where
  "irec_setDiscard r = r\<lparr>ir_flags := (ir_flags r AND NOT WALB_DIFF_FLAG_ALLZERO) OR WALB_DIFF_FLAG_DISCARD\<rparr>"

definition irec_setAllZero :: "walb_indexed_diff_record \<Rightarrow> walb_indexed_diff_record" where
  "irec_setAllZero r = r\<lparr>ir_flags := (ir_flags r OR WALB_DIFF_FLAG_ALLZERO) AND NOT WALB_DIFF_FLAG_DISCARD\<rparr>"

definition convertLogToIndexedDiff ::
  "walb_log_record \<Rightarrow> u8 list \<Rightarrow> walb_indexed_diff_record option res"
where
  "convertLogToIndexedDiff lrec data =
     (if isPadding lrec then Inr None
      else
        let drec = IndexedDiffRecord_init\<lparr>ir_io_address := lr_offset lrec, ir_io_blocks := lr_io_size lrec\<rparr> in
        if isDiscard lrec then Inr (Some ((irec_setDiscard drec)\<lparr>ir_data_size := 0, ir_orig_blocks := 0\<rparr>))
        else
          let ioSizeB = lr_io_size lrec * LOGICAL_BLOCK_SIZE in
          res_bind (util_isAllZero data (unat ioSizeB)) (\<lambda>z.
            if z then Inr (Some ((irec_setAllZero drec)\<lparr>ir_data_size := 0, ir_orig_blocks := 0\<rparr>))
            else ensure (irec_isNormal drec) Assert_Failed
              (Inr (Some (drec\<lparr>ir_orig_blocks := lr_io_size lrec, ir_compression_type := WALB_DIFF_CMPR_NONE,
                 ir_data_offset := 0, ir_io_offset := 0, ir_data_size := ioSizeB\<rparr>)))))"

section \<open>DiffConverter\<close>

function conv_logs ::
  "wlog_reader \<Rightarrow> u8 list \<Rightarrow> u64 \<Rightarrow> diff_memory \<Rightarrow> (wlog_reader \<times> u64 \<times> diff_memory) res"
where
  "conv_logs r buf writtenBlocks dm =
     res_bind (readLog buf r) (\<lambda>(x, r1).
       case x of
         None \<Rightarrow> Inr (r1, writtenBlocks, dm)
       | Some (lrec, buf1, i) \<Rightarrow>
           res_bind (convertLogToDiff lrec buf1) (\<lambda>d.
             case d of
               None \<Rightarrow> conv_logs r1 buf1 writtenBlocks dm
             | Some drec \<Rightarrow>
                 res_bind (mem_add drec (if rec_isNormal drec then buf1 else []) dm) (\<lambda>dm1.
                   conv_logs r1 [] (writtenBlocks + ucast (dr_io_blocks drec)) dm1)))"
  by pat_completeness auto
termination
  by (relation "inv_image reader_measure fst") (auto simp: wf_reader_measure dest: readLog_decreases)

declare conv_logs.simps [simp del]

text \<open>The result: whether a wlog was there, \<open>lsid\<close>, \<open>writtenBlocks\<close>, the rest of the file and the diff.\<close>

definition convertWlog ::
  "u64 \<Rightarrow> u64 \<Rightarrow> u8 list \<Rightarrow> diff_memory \<Rightarrow> (bool \<times> u64 \<times> u64 \<times> u8 list \<times> diff_memory) res"
where
  "convertWlog lsid writtenBlocks fd dm =
     (case wr_readHeader wlog_new (wr_new fd) of
        Inl e \<Rightarrow> if e = EofError then Inr (False, lsid, writtenBlocks, [], dm) else Inl e
      | Inr (wlHeader, r) \<Rightarrow>
          let h = wlog_header_of wlHeader in
          res_bind
            (if lsid = - 1 then Inr (wh_begin_lsid h, dm\<lparr>mem_fileH := file_header_setUuid (wh_uuid h) (mem_fileH dm)\<rparr>)
             else if lsid \<noteq> wh_begin_lsid h then Inl (Exception ''lsid mismatch.'')
             else if fh_uuid (mem_fileH dm) \<noteq> wh_uuid h then Inl (Exception ''uuid differ'')
             else Inr (lsid, dm)) (\<lambda>(_, dm1).
          res_bind (conv_logs r [] writtenBlocks dm1) (\<lambda>(r1, writtenBlocks1, dm2).
          res_bind (wr_getEndLsid r1) (\<lambda>(lsid1, r2).
            Inr (True, lsid1, writtenBlocks1, wr_file r2, dm2)))))"

text \<open>The loop of \<open>convert\<close> over the wlogs of the file; \<open>None\<close> would be a loop that does not end.\<close>

partial_function (option) conv_wlogs ::
  "u64 \<Rightarrow> u64 \<Rightarrow> u8 list \<Rightarrow> diff_memory \<Rightarrow> (u64 \<times> u64 \<times> diff_memory) res option"
where
  "conv_wlogs lsid writtenBlocks fd dm =
     obind (Some (convertWlog lsid writtenBlocks fd dm)) (\<lambda>t.
       if fst t then conv_wlogs (fst (snd t)) (fst (snd (snd t))) (fst (snd (snd (snd t)))) (snd (snd (snd (snd t))))
       else Some (Inr (fst (snd t), fst (snd (snd t)), snd (snd (snd (snd t))))))"

text \<open>The check that follows the loop in a debug build only logs its result.\<close>

definition convert :: "encoder \<Rightarrow> u8 list \<Rightarrow> u32 \<Rightarrow> u8 list res option" where
  "convert lib_enc inputLog maxIoBlocks =
     obind (conv_wlogs (- 1) 0 inputLog (mem_setMaxIoBlocks maxIoBlocks mem_new)) (\<lambda>(lsid, writtenBlocks, dm).
       Some (res_bind (mem_writeTo lib_enc WALB_DIFF_CMPR_SNAPPY dm) (\<lambda>(f, _). Inr f)))"

section \<open>IndexedDiffConverter\<close>

function iconv_logs ::
  "encoder \<Rightarrow> wlog_reader \<Rightarrow> u8 list \<Rightarrow> u64 \<Rightarrow> indexed_writer \<Rightarrow> (wlog_reader \<times> u64 \<times> indexed_writer) res"
where
  "iconv_logs lib_enc r buf writtenBlocks w =
     res_bind (readLog buf r) (\<lambda>(x, r1).
       case x of
         None \<Rightarrow> Inr (r1, writtenBlocks, w)
       | Some (lrec, buf1, i) \<Rightarrow>
           res_bind (convertLogToIndexedDiff lrec buf1) (\<lambda>d.
             case d of
               None \<Rightarrow> iconv_logs lib_enc r1 buf1 writtenBlocks w
             | Some drec \<Rightarrow>
                 res_bind (iw_compressAndWriteDiff lib_enc drec buf1 WALB_DIFF_CMPR_SNAPPY 0 w) (\<lambda>w1.
                   iconv_logs lib_enc r1 buf1 (writtenBlocks + ucast (ir_io_blocks drec)) w1)))"
  by pat_completeness auto
termination
  by (relation "inv_image reader_measure (\<lambda>t. fst (snd t))") (auto simp: wf_reader_measure dest: readLog_decreases)

declare iconv_logs.simps [simp del]

definition iconvertWlog ::
  "encoder \<Rightarrow> u64 \<Rightarrow> u64 \<Rightarrow> u8 list \<Rightarrow> indexed_writer \<Rightarrow> walb_diff_file_header
     \<Rightarrow> (bool \<times> u64 \<times> u64 \<times> u8 list \<times> indexed_writer \<times> walb_diff_file_header) res"
where
  "iconvertWlog lib_enc lsid writtenBlocks fd w wdiffH =
     (case wr_readHeader wlog_new (wr_new fd) of
        Inl e \<Rightarrow> if e = EofError then Inr (False, lsid, writtenBlocks, [], w, wdiffH) else Inl e
      | Inr (wlHeader, r) \<Rightarrow>
          let h = wlog_header_of wlHeader in
          res_bind
            (if lsid = - 1 then
               iw_writeHeader ((file_header_setUuid (wh_uuid h) wdiffH)\<lparr>fh_type := WALB_DIFF_TYPE_INDEXED\<rparr>) w
             else if lsid \<noteq> wh_begin_lsid h then Inl (Exception ''lsid mismatch.'')
             else if fh_uuid wdiffH \<noteq> wh_uuid h then Inl (Exception ''uuid differ'')
             else Inr (wdiffH, w)) (\<lambda>(wdiffH1, w1).
          res_bind (iconv_logs lib_enc r [] writtenBlocks w1) (\<lambda>(r1, writtenBlocks1, w2).
          res_bind (wr_getEndLsid r1) (\<lambda>(lsid1, r2).
            Inr (True, lsid1, writtenBlocks1, wr_file r2, w2, wdiffH1)))))"

partial_function (option) iconv_wlogs ::
  "encoder \<Rightarrow> u64 \<Rightarrow> u64 \<Rightarrow> u8 list \<Rightarrow> indexed_writer \<Rightarrow> walb_diff_file_header \<Rightarrow> indexed_writer res option"
where
  "iconv_wlogs lib_enc lsid writtenBlocks fd w wdiffH =
     obind (Some (iconvertWlog lib_enc lsid writtenBlocks fd w wdiffH)) (\<lambda>t.
       if fst t then
         iconv_wlogs lib_enc (fst (snd t)) (fst (snd (snd t))) (fst (snd (snd (snd t))))
           (fst (snd (snd (snd (snd t))))) (snd (snd (snd (snd (snd t)))))
       else Some (Inr (fst (snd (snd (snd (snd t)))))))"

definition iconvert :: "encoder \<Rightarrow> u8 list \<Rightarrow> u32 \<Rightarrow> u8 list res option" where
  "iconvert lib_enc inputLog maxIoBlocks =
     obind (iconv_wlogs lib_enc (- 1) 0 inputLog (iw_setFd [] maxIoBlocks) file_header_init) (\<lambda>w.
       Some (res_bind (iw_finalize w) (\<lambda>w1. Inr (iw_file w1))))"

end
