(* ===== verification/Log_Pack_Laws.thy ===== *)
theory Log_Pack_Laws
  imports Log_Pack
begin

text \<open>
  What a log pack holds: the records lie one after the other behind the header block, each at
  the position that its \<open>lsid_local\<close> says. The functions that build, move and cut packs keep
  this layout; it implies the validity checks of \<^verbatim>\<open>log_record.h\<close>.
\<close>

section \<open>The layout of a pack\<close>

definition rec_pb :: "u32 \<Rightarrow> walb_log_record \<Rightarrow> nat" where
  "rec_pb pbs r = (if isDiscard r then 0
     else (unat (lr_io_size r) + unat pbs div 512 - 1) div (unat pbs div 512))"

definition rec_shape :: "walb_log_record \<Rightarrow> bool" where
  "rec_shape r \<longleftrightarrow> isExist r \<and> (isPadding r \<or> lr_io_size r \<noteq> 0)
     \<and> (isDiscard r \<or> lr_io_size r \<le> 65535) \<and> \<not> (isPadding r \<and> isDiscard r)"

definition blocks :: "u32 \<Rightarrow> walb_log_record list \<Rightarrow> nat" where
  "blocks pbs rs = sum_list (map (rec_pb pbs) rs)"

fun layout :: "u32 \<Rightarrow> nat \<Rightarrow> nat \<Rightarrow> walb_log_record list \<Rightarrow> bool" where
  "layout pbs base p [] = True"
| "layout pbs base p (r # rs) = (rec_shape r \<and> unat (lr_lsid_local r) = p
     \<and> unat (lr_lsid r) = base + p \<and> layout pbs base (p + rec_pb pbs r) rs)"

definition paddings :: "walb_log_record list \<Rightarrow> nat" where
  "paddings rs = length (filter isPadding rs)"

definition pack_frame :: "u32 \<Rightarrow> walb_logpack_header \<Rightarrow> bool" where
  "pack_frame pbs h \<longleftrightarrow> is_valid_pbs pbs \<and> unat pbs \<le> 2097152
     \<and> length (lh_record h) = (unat pbs - 24) div 32 \<and> length (lh_rest h) = (unat pbs - 24) mod 32
     \<and> lh_sector_type h = SECTOR_TYPE_LOGPACK
     \<and> unat (lh_logpack_lsid h) + 65537 < 18446744073709551616"

definition pack_repr :: "u32 \<Rightarrow> walb_logpack_header \<Rightarrow> walb_log_record list \<Rightarrow> bool" where
  "pack_repr pbs h rs \<longleftrightarrow> pack_frame pbs h
     \<and> unat (lh_n_records h) \<le> length (lh_record h) \<and> rs = take (unat (lh_n_records h)) (lh_record h)
     \<and> layout pbs (unat (lh_logpack_lsid h)) 1 rs \<and> unat (lh_total_io_size h) = blocks pbs rs
     \<and> unat (lh_n_padding h) = paddings rs \<and> paddings rs \<le> 1"

definition pack_ok :: "log_pack \<Rightarrow> walb_log_record list \<Rightarrow> bool" where
  "pack_ok lp rs \<longleftrightarrow> (\<exists>h. lp_header lp = Some h \<and> pack_repr (lp_pbs lp) h rs)"

lemma blocks_simps [simp]:
  "blocks pbs [] = 0" "blocks pbs (r # rs) = rec_pb pbs r + blocks pbs rs"
  "blocks pbs (rs @ rs') = blocks pbs rs + blocks pbs rs'"
  by (simp_all add: blocks_def)

lemma blocks_take_le: "blocks pbs (take j rs) \<le> blocks pbs rs"
proof -
  have "blocks pbs rs = blocks pbs (take j rs) + blocks pbs (drop j rs)"
    by (metis append_take_drop_id blocks_simps(3))
  then show ?thesis by simp
qed

lemma paddings_simps [simp]:
  "paddings [] = 0" "paddings (r # rs) = (if isPadding r then Suc (paddings rs) else paddings rs)"
  "paddings (rs @ rs') = paddings rs + paddings rs'"
  by (simp_all add: paddings_def)

lemma paddings_take_le: "paddings (take j rs) \<le> paddings rs"
proof -
  have "paddings rs = paddings (take j rs) + paddings (drop j rs)"
    by (metis append_take_drop_id paddings_simps(3))
  then show ?thesis by simp
qed

lemma layout_append:
  "layout pbs base p (rs @ rs') \<longleftrightarrow> layout pbs base p rs \<and> layout pbs base (p + blocks pbs rs) rs'"
  by (induction rs arbitrary: p) (auto simp: add.assoc)

lemma layout_take: "layout pbs base p rs \<Longrightarrow> layout pbs base p (take j rs)"
  by (metis append_take_drop_id layout_append)

lemma layout_nth:
  assumes "layout pbs base p rs" and "j < length rs"
  shows "rec_shape (rs ! j)" and "unat (lr_lsid_local (rs ! j)) = p + blocks pbs (take j rs)"
    and "unat (lr_lsid (rs ! j)) = base + p + blocks pbs (take j rs)"
proof -
  have "layout pbs base (p + blocks pbs (take j rs)) (rs ! j # drop (Suc j) rs)"
    using assms by (metis append_take_drop_id layout_append Cons_nth_drop_Suc)
  then show "rec_shape (rs ! j)" "unat (lr_lsid_local (rs ! j)) = p + blocks pbs (take j rs)"
    "unat (lr_lsid (rs ! j)) = base + p + blocks pbs (take j rs)" by simp_all
qed

lemma pack_reprD:
  assumes "pack_repr pbs h rs"
  shows "pack_frame pbs h" and "unat (lh_n_records h) \<le> length (lh_record h)"
    and "layout pbs (unat (lh_logpack_lsid h)) 1 rs" and "unat (lh_total_io_size h) = blocks pbs rs"
    and "unat (lh_n_padding h) = paddings rs" and "unat (lh_logpack_lsid h) + 65537 < 18446744073709551616"
    and "rs = take (unat (lh_n_records h)) (lh_record h)" and "paddings rs \<le> 1"
  using assms unfolding pack_repr_def pack_frame_def by blast+

lemma pack_repr_length: "pack_repr pbs h rs \<Longrightarrow> length rs = unat (lh_n_records h)"
  by (simp add: pack_repr_def)

lemma pack_repr_nth: "pack_repr pbs h rs \<Longrightarrow> j < length rs \<Longrightarrow> rs ! j = lh_record h ! j"
  by (auto simp: pack_repr_def)

text \<open>The layout implies the checks of the C header.\<close>

lemma record_valid:
  assumes "rec_shape r" and "0 < unat (lr_lsid_local r)"
    and "unat (lr_lsid r) = unat base + unat (lr_lsid_local r)"
    and "unat (base :: u64) + 65537 < 18446744073709551616"
  shows "is_valid_log_record (Some r)" and "lr_lsid r - ucast (lr_lsid_local r) = base"
proof -
  have l: "unat (lr_lsid_local r) < 65536" by simp
  have m: "unat (- 2 :: u64) = 18446744073709551614" by simp
  have "lr_lsid r \<le> - 2"
    using assms(3,4) l unfolding word_le_nat_alt m by linarith
  then show "is_valid_log_record (Some r)"
    using assms(1,2)
    by (auto simp: is_valid_log_record_def rec_shape_def isExist_def isPadding_def isDiscard_def
        MAX_LSID_def WALB_MAX_NORMAL_IO_SECTORS_def word_gt_0 unat_gt_0)
  have "unat (ucast (lr_lsid_local r) :: u64) \<le> unat (lr_lsid r)" using assms(3) by simp
  then have "unat (lr_lsid r - ucast (lr_lsid_local r)) = unat base"
    using assms(3) by (subst unat_sub) (simp_all add: word_le_nat_alt)
  then show "lr_lsid r - ucast (lr_lsid_local r) = base" by (simp add: word_unat_eq_iff)
qed

lemma pack_repr_header_valid:
  assumes "pack_repr pbs h rs"
  shows "is_valid_logpack_header (Some h)"
proof (cases "lh_n_records h = 0")
  case True
  then have "rs = []" using assms by (simp add: pack_repr_def)
  with True assms show ?thesis
    by (simp add: is_valid_logpack_header_def pack_repr_def pack_frame_def unat_eq_0)
next
  case False
  then have n: "0 < unat (lh_n_records h)" by (simp add: unat_gt_0)
  have t: "unat (lh_total_io_size h) < 65536" by simp
  have base: "unat (lh_logpack_lsid h) + 65537 < 18446744073709551616"
    using assms by (simp add: pack_repr_def pack_frame_def)
  then have "unat (lh_logpack_lsid h) + 1 + unat (lh_total_io_size h) < 18446744073709551616"
    using t by linarith
  then have "unat (lh_logpack_lsid h + 1 + ucast (lh_total_io_size h)) =
      unat (lh_logpack_lsid h) + 1 + unat (lh_total_io_size h)"
    by (simp add: unat_word_ariths mod_simps)
  then have "lh_logpack_lsid h < lh_logpack_lsid h + 1 + ucast (lh_total_io_size h)"
    by (simp add: word_less_nat_alt)
  moreover have "lh_n_padding h \<le> 1" "lh_n_padding h \<le> lh_n_records h"
    using assms n by (auto simp: pack_repr_def word_le_nat_alt)
  ultimately show ?thesis
    using False assms by (simp add: is_valid_logpack_header_def pack_repr_def pack_frame_def)
qed

lemma pack_repr_valid:
  assumes "pack_repr pbs h rs"
  shows "is_valid_logpack_header_and_records (Some h) = Inr True"
proof -
  note n = pack_reprD(2) [OF assms] and base = pack_reprD(6) [OF assms] and lay = pack_reprD(3) [OF assms]
  have "is_valid_log_record (Some (lh_record h ! j)) \<and>
      lr_lsid (lh_record h ! j) - ucast (lr_lsid_local (lh_record h ! j)) = lh_logpack_lsid h"
    if "j < unat (lh_n_records h)" for j
  proof -
    have j: "j < length rs" using that pack_repr_length [OF assms] by simp
    note l = layout_nth [OF lay j, unfolded pack_repr_nth [OF assms j]]
    show ?thesis
      using record_valid [OF l(1) _ _ base] l(2,3) by simp
  qed
  then show ?thesis
    using pack_repr_header_valid [OF assms] n
    by (simp add: is_valid_logpack_header_and_records_def deref_def is_valid_records_loop_iff)
qed


section \<open>Adding records\<close>

lemma capacity_pb_nat:
  assumes "is_valid_pbs pbs" and "unat a < 9223372036854775808"
  obtains c where "capacity_pb pbs a = Inr c"
    and "unat c = (unat a + unat pbs div 512 - 1) div (unat pbs div 512)"
proof -
  obtain n :: u32 where n: "n_lb_in_pb pbs = Inr n" "unat n = unat pbs div 512" "0 < unat n"
    using n_lb_in_pb_valid [OF assms(1)] by blast
  have l: "unat a + unat n < 18446744073709551616" using assms(2) unat_lt32 [of n] by linarith
  have s: "unat (a + ucast n) = unat a + unat n" using l by (simp add: unat_word_ariths)
  have "unat (a + ucast n - 1) = unat a + unat n - 1"
    using s n(3) by (subst unat_sub) (simp_all add: word_le_nat_alt)
  then show ?thesis
    using that n assms(1) by (simp add: capacity_pb_def unat_div_distrib)
qed

lemma new_flags:
  "set_bit_u32 LOG_RECORD_EXIST 0 = 1"
  "set_bit_u32 LOG_RECORD_DISCARD 1 = 5" "set_bit_u32 LOG_RECORD_PADDING 1 = 3"
  by (simp_all add: set_bit_u32_def LOG_RECORD_EXIST_def LOG_RECORD_DISCARD_def LOG_RECORD_PADDING_def)

lemma flag_tests:
  "lr_flags r = 1 \<Longrightarrow> isExist r \<and> \<not> isPadding r \<and> \<not> isDiscard r"
  "lr_flags r = 5 \<Longrightarrow> isExist r \<and> \<not> isPadding r \<and> isDiscard r"
  "lr_flags r = 3 \<Longrightarrow> isExist r \<and> isPadding r \<and> \<not> isDiscard r"
  by (simp_all add: isExist_def isPadding_def isDiscard_def test_bit_u32_def LOG_RECORD_EXIST_def
      LOG_RECORD_DISCARD_def LOG_RECORD_PADDING_def)

text \<open>The step that the three adding functions share.\<close>

lemma append_record_repr:
  assumes repr: "pack_repr pbs h rs" and room: "length rs < length (lh_record h)"
    and r: "r = fill_record flags off sz h (lh_record h ! length rs)"
    and t: "unat (lh_total_io_size h) < 65535" and shape: "rec_shape r"
    and t': "unat t' = unat (lh_total_io_size h) + rec_pb pbs r"
    and p': "unat p' = paddings (rs @ [r])" and pads: "paddings (rs @ [r]) \<le> 1"
  shows "\<exists>h1. append_record flags off sz h = Inr h1 \<and> lh_total_io_size h1 = lh_total_io_size h
    \<and> lh_n_padding h1 = lh_n_padding h
    \<and> pack_repr pbs (h1\<lparr>lh_total_io_size := t', lh_n_padding := p'\<rparr>) (rs @ [r])"
proof -
  note d = pack_reprD [OF repr] and n = pack_repr_length [OF repr]
  let ?h1 = "h\<lparr>lh_record := (lh_record h)[length rs := r], lh_n_records := lh_n_records h + 1\<rparr>"
  have cap: "length (lh_record h) \<le> 65535" using d(1) by (auto simp: pack_frame_def)
  have n1: "unat (lh_n_records h + 1) = length rs + 1"
    using cap room n by (simp add: unat_word_ariths)
  have t1: "unat (lh_total_io_size h + 1) = unat (lh_total_io_size h) + 1"
    using t by (simp add: unat_word_ariths)
  have lsid: "unat (lh_logpack_lsid h + ucast (lh_total_io_size h + 1)) =
      unat (lh_logpack_lsid h) + (unat (lh_total_io_size h) + 1)"
    using d(6) t t1 by (simp add: unat_word_ariths)
  have rec: "take (unat (lh_n_records ?h1)) (lh_record ?h1) = rs @ [r]"
    using d(7) n n1 room by (simp add: take_Suc_conv_app_nth take_update_cancel)
  have lay: "layout pbs (unat (lh_logpack_lsid h)) 1 (rs @ [r])"
    using d(3,4) shape t1 lsid r by (simp add: layout_append fill_record_def)
  have "pack_frame pbs (?h1\<lparr>lh_total_io_size := t', lh_n_padding := p'\<rparr>)"
    using d(1) by (simp add: pack_frame_def)
  then have "pack_repr pbs (?h1\<lparr>lh_total_io_size := t', lh_n_padding := p'\<rparr>) (rs @ [r])"
    using rec lay n1 room d(4) t' p' pads unfolding pack_repr_def by simp
  moreover have "append_record flags off sz h = Inr ?h1"
    using room n r by (simp add: append_record_def Let_def)
  ultimately show ?thesis by auto
qed

lemma pack_ok_room:
  assumes "pack_repr pbs h rs"
  obtains m where "max_n_log_record_in_sector pbs = Inr m"
    and "m \<le> ucast (lh_n_records h) \<longleftrightarrow> length (lh_record h) \<le> length rs"
proof -
  have pbs: "512 \<le> unat pbs" "length (lh_record h) = (unat pbs - 24) div 32"
    using pack_reprD(1) [OF assms] by (simp_all add: pack_frame_def is_valid_pbs_iff)
  have "24 < pbs" using pbs(1) by (simp add: word_less_nat_alt)
  moreover have "unat ((pbs - 24) div 32) = (unat pbs - 24) div 32"
    using pbs(1) by (simp add: unat_div_distrib unat_sub word_le_nat_alt)
  ultimately show ?thesis
    using that [of "(pbs - 24) div 32"] pbs(2) pack_repr_length [OF assms]
    by (simp add: max_n_log_record_in_sector_def word_le_nat_alt)
qed

lemma assert_records_ok:
  assumes "lp_pbs lp = pbs" and "pack_repr pbs h rs"
  shows "assert_records h lp = Inr (True, set_header h lp)" and "pack_ok (set_header h lp) rs"
  using assms pack_repr_valid [OF assms(2)] by (simp_all add: assert_records_def pack_ok_def set_header_def)

lemma max_total: "ucast MAX_TOTAL_IO_SIZE_IN_LOGPACK_HEADER < ucast (t :: u16) + c \<longleftrightarrow> 65535 < unat t + unat c"
  if "unat (c :: u64) < 9223372036854775808" for c :: u64
proof -
  have "unat t + unat c < 18446744073709551616" using that unat_lt16 [of t] by linarith
  then have "unat (ucast t + c) = unat t + unat c" by (simp add: unat_word_ariths)
  then show ?thesis by (simp add: MAX_TOTAL_IO_SIZE_IN_LOGPACK_HEADER_def word_less_nat_alt)
qed

definition io_pb :: "log_pack \<Rightarrow> nat \<Rightarrow> nat" where
  "io_pb lp n = (n + unat (lp_pbs lp) div 512 - 1) div (unat (lp_pbs lp) div 512)"

definition pack_capacity :: "log_pack \<Rightarrow> nat" where
  "pack_capacity lp = (unat (lp_pbs lp) - 24) div 32"

lemma pack_ok_capacity: "pack_repr (lp_pbs lp) h rs \<Longrightarrow> length (lh_record h) = pack_capacity lp"
  using pack_reprD(1) by (simp add: pack_frame_def pack_capacity_def)

text \<open>
  C33: adding a normal IO to a well-formed log pack never fails: the function says no exactly
  when the header block has no free record or the blocks of the pack would exceed 65535, and
  leaves the pack as it was; otherwise the pack gets one more record, which has the given
  range and lies behind the blocks added before it, and is well-formed again.
\<close>

theorem addNormalIo_correct:
  assumes "pack_ok lp rs" and "size_lb \<noteq> 0"
  shows "if length rs < pack_capacity lp \<and> blocks (lp_pbs lp) rs + io_pb lp (unat size_lb) \<le> 65535
    then \<exists>r lp'. addNormalIo off size_lb lp = Inr (True, lp') \<and> pack_ok lp' (rs @ [r])
      \<and> lr_offset r = off \<and> unat (lr_io_size r) = unat size_lb \<and> hasDataForChecksum r
    else addNormalIo off size_lb lp = Inr (False, lp)"
proof -
  obtain h where h: "lp_header lp = Some h" and repr: "pack_repr (lp_pbs lp) h rs"
    using assms(1) by (auto simp: pack_ok_def)
  obtain m where m: "max_n_log_record_in_sector (lp_pbs lp) = Inr m"
    "m \<le> ucast (lh_n_records h) \<longleftrightarrow> pack_capacity lp \<le> length rs"
    using pack_ok_room [OF repr] pack_ok_capacity [OF repr] by metis
  have pbs: "is_valid_pbs (lp_pbs lp)" using pack_reprD(1) [OF repr] by (simp add: pack_frame_def)
  have sz: "unat (ucast size_lb :: u64) < 9223372036854775808"
    using unat_lt16 [of size_lb] by (simp del: unat_lt16)
  obtain c where c: "capacity_pb (lp_pbs lp) (ucast size_lb) = Inr c" "unat c = io_pb lp (unat size_lb)"
    using capacity_pb_nat [OF pbs sz] by (auto simp: io_pb_def)
  have q: "0 < unat (lp_pbs lp) div 512" using pbs by (auto simp: is_valid_pbs_iff)
  have "io_pb lp (unat size_lb) \<le> unat size_lb + unat (lp_pbs lp) div 512 - 1"
    by (simp add: io_pb_def)
  then have cl: "unat c < 9223372036854775808"
    using c(2) unat_lt16 [of size_lb] unat_lt32 [of "lp_pbs lp"] by linarith
  note mx = max_total [OF cl, of "lh_total_io_size h"]
  note tot = pack_reprD(4) [OF repr]
  show ?thesis
  proof (cases "length rs < pack_capacity lp \<and> blocks (lp_pbs lp) rs + io_pb lp (unat size_lb) \<le> 65535")
    case False
    then show ?thesis using h m c mx tot by (auto simp: addNormalIo_def deref_def)
  next
    case True
    define r where "r = fill_record 1 off (ucast size_lb) h (lh_record h ! length rs)"
    have fl: "isExist r \<and> \<not> isPadding r \<and> \<not> isDiscard r" by (rule flag_tests) (simp add: r_def fill_record_def)
    have "0 < unat size_lb" using assms(2) by (simp add: unat_gt_0)
    then have one: "1 \<le> io_pb lp (unat size_lb)" using q by (simp add: io_pb_def div_greater_zero_iff Suc_le_eq)
    have pb: "rec_pb (lp_pbs lp) r = unat c" using fl c(2) by (simp add: rec_pb_def io_pb_def r_def fill_record_def)
    have shape: "rec_shape r"
      using fl assms(2) unat_lt16 [of size_lb]
      by (simp add: rec_shape_def r_def fill_record_def word_le_nat_alt word_unat_eq_iff del: unat_lt16)
    have t': "unat (lh_total_io_size h + ucast c) = unat (lh_total_io_size h) + rec_pb (lp_pbs lp) r"
      using True tot pb c(2) by (simp add: unat_word_ariths unsigned_ucast_eq take_bit_eq_mod)
    have room: "length rs < length (lh_record h)" using True pack_ok_capacity [OF repr] by simp
    have small: "unat (lh_total_io_size h) < 65535" using True tot one by linarith
    have pads: "unat (lh_n_padding h) = paddings (rs @ [r])" "paddings (rs @ [r]) \<le> 1"
      using fl pack_reprD(5,8) [OF repr] by simp_all
    obtain h1 where h1: "append_record 1 off (ucast size_lb) h = Inr h1" "lh_total_io_size h1 = lh_total_io_size h"
      "lh_n_padding h1 = lh_n_padding h"
      "pack_repr (lp_pbs lp) (h1\<lparr>lh_total_io_size := lh_total_io_size h + ucast c, lh_n_padding := lh_n_padding h\<rparr>) (rs @ [r])"
      using append_record_repr [OF repr room r_def small shape t' pads] by blast
    have e: "h1\<lparr>lh_total_io_size := lh_total_io_size h + ucast c, lh_n_padding := lh_n_padding h\<rparr> =
        h1\<lparr>lh_total_io_size := lh_total_io_size h1 + ucast c\<rparr>" using h1(2,3) by simp
    note a = assert_records_ok [OF refl h1(4), unfolded e]
    have "addNormalIo off size_lb lp = Inr (True, set_header (h1\<lparr>lh_total_io_size := lh_total_io_size h1 + ucast c\<rparr>) lp)"
      using h m c mx tot True a(1) h1(1) assms(2) by (simp add: addNormalIo_def deref_def new_flags)
    moreover have "lr_offset r = off" "unat (lr_io_size r) = unat size_lb" "hasDataForChecksum r"
      using fl by (simp_all add: r_def fill_record_def hasDataForChecksum_def)
    ultimately show ?thesis using True a(2) by auto
  qed
qed

text \<open>A pack of four records at lsid 100, for the witnesses.\<close>

definition sample_rec :: "u32 \<Rightarrow> u64 \<Rightarrow> u32 \<Rightarrow> u16 \<Rightarrow> walb_log_record" where
  "sample_rec flags off sz loc = \<lparr>lr_checksum = 0, lr_flags = flags, lr_offset = off, lr_io_size = sz,
     lr_lsid_local = loc, lr_reserved1 = 0, lr_lsid = 100 + ucast loc\<rparr>"

definition sample_recs :: "walb_log_record list" where
  "sample_recs = [sample_rec 1 0 3 1, sample_rec 5 10 8 4, sample_rec 5 20 8 4, sample_rec 1 30 2 4]"

definition sample_pack :: log_pack where
  "sample_pack = \<lparr>lp_header = Some \<lparr>lh_checksum = 0, lh_sector_type = 3, lh_total_io_size = 5,
     lh_logpack_lsid = 100, lh_n_records = 4, lh_n_padding = 0, lh_reserved1 = 0,
     lh_record = sample_recs @ replicate 11 record_clear, lh_rest = replicate 8 0\<rparr>,
     lp_pbs = 512, lp_salt = 7\<rparr>"

lemma sample_rec_flags:
  "isExist (sample_rec 1 a b c)" "\<not> isPadding (sample_rec 1 a b c)" "\<not> isDiscard (sample_rec 1 a b c)"
  "isExist (sample_rec 5 a b c)" "\<not> isPadding (sample_rec 5 a b c)" "isDiscard (sample_rec 5 a b c)"
  using flag_tests(1) [of "sample_rec 1 a b c"] flag_tests(2) [of "sample_rec 5 a b c"]
  by (simp_all add: sample_rec_def)

lemma sample_rec_sel:
  "lr_io_size (sample_rec f a b c) = b" "lr_lsid_local (sample_rec f a b c) = c"
  "lr_lsid (sample_rec f a b c) = 100 + ucast c" "lr_offset (sample_rec f a b c) = a"
  by (simp_all add: sample_rec_def)

lemma sample_pack_ok: "pack_ok sample_pack sample_recs"
proof -
  have "layout 512 100 1 sample_recs" "blocks 512 sample_recs = 5" "paddings sample_recs = 0"
    by (simp_all add: sample_recs_def rec_shape_def rec_pb_def sample_rec_flags sample_rec_sel
        word_le_nat_alt)
  moreover have "length sample_recs = 4" by (simp add: sample_recs_def)
  ultimately show ?thesis
    by (simp add: pack_ok_def pack_repr_def pack_frame_def sample_pack_def is_valid_pbs_iff
        SECTOR_TYPE_LOGPACK_def)
qed

theorem addNormalIo_correct_witness:
  "if length sample_recs < pack_capacity sample_pack
      \<and> blocks (lp_pbs sample_pack) sample_recs + io_pb sample_pack (unat (8 :: u16)) \<le> 65535
    then \<exists>r lp'. addNormalIo 40 8 sample_pack = Inr (True, lp') \<and> pack_ok lp' (sample_recs @ [r])
      \<and> lr_offset r = 40 \<and> unat (lr_io_size r) = unat (8 :: u16) \<and> hasDataForChecksum r
    else addNormalIo 40 8 sample_pack = Inr (False, sample_pack)"
  by (rule addNormalIo_correct [OF sample_pack_ok]) simp

lemma records_loop_invalid:
  assumes "j < k" and "k \<le> length (lh_record h)" and "\<not> is_valid_log_record (Some (lh_record h ! j))"
  shows "is_valid_records_loop k 0 h = Inr False"
  using is_valid_records_loop_iff [of 0 k h] assms by (auto simp del: is_valid_records_loop.simps)

text \<open>A pack whose blocks reach the limit cannot take a further record: its position wraps to 0.\<close>

lemma append_full_invalid:
  assumes "pack_repr pbs h rs" and "length rs < length (lh_record h)"
    and "unat (lh_total_io_size h) = 65535"
  shows "\<exists>h1. append_record flags off sz h = Inr h1
    \<and> is_valid_logpack_header_and_records (Some h1) = Inr False"
proof -
  note n = pack_repr_length [OF assms(1)]
  let ?r = "fill_record flags off sz h (lh_record h ! length rs)"
  let ?h1 = "h\<lparr>lh_record := (lh_record h)[length rs := ?r], lh_n_records := lh_n_records h + 1\<rparr>"
  have "length (lh_record h) \<le> 65535"
    using pack_reprD(1) [OF assms(1)] by (auto simp: pack_frame_def)
  then have n1: "unat (lh_n_records h + 1) = Suc (length rs)"
    using assms(2) n by (simp add: unat_word_ariths)
  have "unat (lh_total_io_size h + 1) = 0" using assms(3) by (simp add: unat_word_ariths)
  then have "lh_total_io_size h + 1 = 0" by (simp add: unat_eq_0)
  then have "\<not> is_valid_log_record (Some (lh_record ?h1 ! length rs))"
    using assms(2) by (simp add: is_valid_log_record_def fill_record_def)
  then have "is_valid_records_loop (unat (lh_n_records ?h1)) 0 ?h1 = Inr False"
    using assms(2) n1 records_loop_invalid [of "length rs" "Suc (length rs)" ?h1]
    by (simp del: is_valid_records_loop.simps)
  then have "is_valid_logpack_header_and_records (Some ?h1) = Inr False"
    by (simp add: is_valid_logpack_header_and_records_def deref_def del: is_valid_records_loop.simps)
  moreover have "append_record flags off sz h = Inr ?h1"
    using assms(2) n by (simp add: append_record_def Let_def)
  ultimately show ?thesis by blast
qed

text \<open>
  adding a discard IO to a well-formed log pack: without a free record the answer is no. If
  the pack holds 65535 blocks already, the 16-bit position of the new record wraps to 0 and the
  assertion on the result fails; the check that \<open>addNormalIo\<close> has is missing. In every other
  case the pack gets one more discard record and is well-formed.
\<close>

theorem addDiscardIo_correct:
  assumes "pack_ok lp rs" and "size_lb \<noteq> 0"
  shows "if pack_capacity lp \<le> length rs then addDiscardIo off size_lb lp = Inr (False, lp)
    else if blocks (lp_pbs lp) rs = 65535 then addDiscardIo off size_lb lp = Inl Assert_Failed
    else \<exists>r lp'. addDiscardIo off size_lb lp = Inr (True, lp') \<and> pack_ok lp' (rs @ [r])
      \<and> lr_offset r = off \<and> lr_io_size r = size_lb \<and> isDiscard r"
proof -
  obtain h where h: "lp_header lp = Some h" and repr: "pack_repr (lp_pbs lp) h rs"
    using assms(1) by (auto simp: pack_ok_def)
  obtain m where m: "max_n_log_record_in_sector (lp_pbs lp) = Inr m"
    "m \<le> ucast (lh_n_records h) \<longleftrightarrow> pack_capacity lp \<le> length rs"
    using pack_ok_room [OF repr] pack_ok_capacity [OF repr] by metis
  note tot = pack_reprD(4) [OF repr]
  consider (no) "pack_capacity lp \<le> length rs"
    | (full) "\<not> pack_capacity lp \<le> length rs" "blocks (lp_pbs lp) rs = 65535"
    | (free) "\<not> pack_capacity lp \<le> length rs" "blocks (lp_pbs lp) rs \<noteq> 65535" by blast
  then show ?thesis
  proof cases
    case no
    then show ?thesis using h m by (simp add: addDiscardIo_def deref_def)
  next
    case full
    then have room: "length rs < length (lh_record h)" using pack_ok_capacity [OF repr] by simp
    show ?thesis
      using append_full_invalid [OF repr room, of 5 off size_lb] full h m tot assms(2)
      by (auto simp: addDiscardIo_def deref_def new_flags assert_records_def)
  next
    case free
    define r where "r = fill_record 5 off size_lb h (lh_record h ! length rs)"
    have fl: "isExist r \<and> \<not> isPadding r \<and> isDiscard r" by (rule flag_tests) (simp add: r_def fill_record_def)
    have shape: "rec_shape r" using fl assms(2) by (simp add: rec_shape_def r_def fill_record_def)
    have room: "length rs < length (lh_record h)" using free pack_ok_capacity [OF repr] by simp
    have small: "unat (lh_total_io_size h) < 65535" using free tot unat_lt16 [of "lh_total_io_size h"] by linarith
    have t': "unat (lh_total_io_size h) = unat (lh_total_io_size h) + rec_pb (lp_pbs lp) r"
      using fl by (simp add: rec_pb_def)
    have pads: "unat (lh_n_padding h) = paddings (rs @ [r])" "paddings (rs @ [r]) \<le> 1"
      using fl pack_reprD(5,8) [OF repr] by simp_all
    obtain h1 where h1: "append_record 5 off size_lb h = Inr h1" "lh_total_io_size h1 = lh_total_io_size h"
      "lh_n_padding h1 = lh_n_padding h"
      "pack_repr (lp_pbs lp) (h1\<lparr>lh_total_io_size := lh_total_io_size h, lh_n_padding := lh_n_padding h\<rparr>) (rs @ [r])"
      using append_record_repr [OF repr room r_def small shape t' pads] by blast
    have e: "h1\<lparr>lh_total_io_size := lh_total_io_size h, lh_n_padding := lh_n_padding h\<rparr> = h1"
      using h1(2,3) by (metis walb_logpack_header.surjective walb_logpack_header.update_convs(3,6))
    note a = assert_records_ok [OF refl h1(4), unfolded e]
    have "addDiscardIo off size_lb lp = Inr (True, set_header h1 lp)"
      using h m free a(1) h1(1) assms(2) by (simp add: addDiscardIo_def deref_def new_flags)
    moreover have "lr_offset r = off" "lr_io_size r = size_lb" by (simp_all add: r_def fill_record_def)
    ultimately show ?thesis using free a(2) fl by auto
  qed
qed

theorem addDiscardIo_correct_witness:
  "if pack_capacity sample_pack \<le> length sample_recs
    then addDiscardIo 40 9 sample_pack = Inr (False, sample_pack)
    else if blocks (lp_pbs sample_pack) sample_recs = 65535
    then addDiscardIo 40 9 sample_pack = Inl Assert_Failed
    else \<exists>r lp'. addDiscardIo 40 9 sample_pack = Inr (True, lp') \<and> pack_ok lp' (sample_recs @ [r])
      \<and> lr_offset r = 40 \<and> lr_io_size r = 9 \<and> isDiscard r"
  by (rule addDiscardIo_correct [OF sample_pack_ok]) simp

section \<open>Checksums of a pack\<close>

lemma pack_repr_csum [simp]: "pack_repr pbs (h\<lparr>lh_checksum := c\<rparr>) rs = pack_repr pbs h rs"
  by (simp add: pack_repr_def pack_frame_def)

lemma pack_frame_image:
  assumes "pack_frame pbs h"
  shows "logpack_image_ok h" and "length (logpack_header_bytes h) = unat pbs"
proof -
  have f: "512 \<le> unat pbs" "unat pbs mod 512 = 0" "length (lh_record h) = (unat pbs - 24) div 32"
    "length (lh_rest h) = (unat pbs - 24) mod 32"
    using assms by (simp_all add: pack_frame_def is_valid_pbs_iff)
  obtain q where "unat pbs = 512 * q" using f(2) by auto
  then have "unat pbs - 24 = 4 * (128 * q - 6)" by simp
  then have "(unat pbs - 24) mod 32 mod 4 = 0" by (simp add: mod_mod_cancel)
  then show "logpack_image_ok h" using f(4) by (simp add: logpack_image_ok_def)
  have "32 * ((unat pbs - 24) div 32) + (unat pbs - 24) mod 32 = unat pbs - 24" by simp
  then show "length (logpack_header_bytes h) = unat pbs"
    using f by (simp add: length_logpack_header_bytes)
qed

lemma pack_updateChecksum_ok:
  assumes "lp_header lp = Some h" and "pack_repr (lp_pbs lp) h rs"
  obtains c where "pack_updateChecksum lp = Inr (set_header (h\<lparr>lh_checksum := c\<rparr>) lp)"
    and "pack_isValid (set_header (h\<lparr>lh_checksum := c\<rparr>) lp) True = Inr True"
    and "pack_repr (lp_pbs lp) (h\<lparr>lh_checksum := c\<rparr>) rs"
proof -
  let ?c = "calcChecksum (logpack_header_bytes (h\<lparr>lh_checksum := 0\<rparr>)) (lp_salt lp)"
  have r: "pack_repr (lp_pbs lp) (h\<lparr>lh_checksum := x\<rparr>) rs" for x using assms(2) by simp
  have i: "logpack_image_ok (h\<lparr>lh_checksum := x\<rparr>)"
    "unat (lp_pbs lp) = length (logpack_header_bytes (h\<lparr>lh_checksum := x\<rparr>))" for x
    using pack_frame_image [OF pack_reprD(1) [OF r]] by simp_all
  have u: "pack_updateChecksum lp = Inr (set_header (h\<lparr>lh_checksum := ?c\<rparr>) lp)"
    using assms(1) logpack_sum.checksum_agrees [OF i, of 0] by (simp add: pack_updateChecksum_def deref_def)
  have ok: "logpack_image_ok h" by (rule pack_frame_image [OF pack_reprD(1) [OF assms(2)]])
  have "checksum (logpack_header_bytes (h\<lparr>lh_checksum := ?c\<rparr>)) (lp_pbs lp) (lp_salt lp) = Inr 0"
    using logpack_sum.checksum_agrees [OF i, of ?c] logpack_sum.updated_verifies [OF ok] by simp
  moreover have "lp_pbs lp \<noteq> 0"
    using pack_reprD(1) [OF assms(2)] by (auto simp: pack_frame_def is_valid_pbs_iff)
  ultimately have "pack_isValid (set_header (h\<lparr>lh_checksum := ?c\<rparr>) lp) True = Inr True"
    using pack_repr_valid [OF r, of ?c]
    by (simp add: pack_isValid_def set_header_def is_valid_logpack_header_and_records_with_checksum_def
        deref_def)
  with u r show ?thesis using that by blast
qed

section \<open>Cutting a pack\<close>

lemma record_at_ok:
  "i < unat (lh_n_records h) \<Longrightarrow> unat (lh_n_records h) \<le> length (lh_record h) \<Longrightarrow>
     record_at h i = Inr (lh_record h ! i)"
  by (simp add: record_at_def)

lemma clear_records_ok:
  assumes "i + k \<le> unat (lh_n_records h)" and "unat (lh_n_records h) \<le> length (lh_record h)"
  shows "\<exists>rs'. clear_records k i h = Inr (h\<lparr>lh_record := rs'\<rparr>)
    \<and> length rs' = length (lh_record h) \<and> take i rs' = take i (lh_record h)"
  using assms
proof (induction k arbitrary: i h)
  case 0
  show ?case by (rule exI [of _ "lh_record h"]) simp
next
  case (Suc k)
  let ?h = "h\<lparr>lh_record := (lh_record h)[i := log_record_of (replicate 32 0)]\<rparr>"
  obtain rs' where rs': "clear_records k (Suc i) ?h = Inr (?h\<lparr>lh_record := rs'\<rparr>)"
    "length rs' = length (lh_record ?h)" "take (Suc i) rs' = take (Suc i) (lh_record ?h)"
    using Suc.IH [of "Suc i" ?h] Suc.prems by auto
  have "take i rs' = take i (take (Suc i) rs')" by simp
  also have "\<dots> = take i (lh_record h)" unfolding rs'(3) by simp
  finally have "take i rs' = take i (lh_record h)" .
  moreover have "clear_records (Suc k) i h = clear_records k (Suc i) ?h"
    using Suc.prems by (simp add: record_at_ok log_record_init_def)
  ultimately show ?case using rs' by (intro exI [of _ rs']) simp
qed

lemma rec_pb_capacity:
  assumes "is_valid_pbs pbs" and "\<not> isDiscard r"
  obtains c where "capacity_pb pbs (ucast (lr_io_size r)) = Inr c" and "unat c = rec_pb pbs r"
proof -
  have "unat (ucast (lr_io_size r) :: u64) < 9223372036854775808"
    using unat_lt32 [of "lr_io_size r"] by (simp del: unat_lt32)
  from capacity_pb_nat [OF assms(1) this] that assms(2) show ?thesis by (auto simp: rec_pb_def)
qed

lemma recount_records_ok:
  assumes "is_valid_pbs pbs" and "i + k \<le> unat (lh_n_records h)"
    and "unat (lh_n_records h) \<le> length (lh_record h)"
    and "unat (lh_total_io_size h) = blocks pbs (take i (lh_record h))"
    and "unat (lh_n_padding h) = paddings (take i (lh_record h))"
    and "blocks pbs (take (i + k) (lh_record h)) \<le> 65535" and "paddings (take (i + k) (lh_record h)) \<le> 1"
  shows "\<exists>t p. recount_records pbs k i h = Inr (h\<lparr>lh_total_io_size := t, lh_n_padding := p\<rparr>)
    \<and> unat t = blocks pbs (take (i + k) (lh_record h)) \<and> unat p = paddings (take (i + k) (lh_record h))"
  using assms(2-)
proof (induction k arbitrary: i h)
  case 0
  show ?case
    by (rule exI [of _ "lh_total_io_size h"], rule exI [of _ "lh_n_padding h"]) (use 0 in simp)
next
  case (Suc k)
  let ?r = "lh_record h ! i"
  have tk: "take (Suc i) (lh_record h) = take i (lh_record h) @ [?r]"
    using Suc.prems(1,2) by (simp add: take_Suc_conv_app_nth)
  have "blocks pbs (take (Suc i) (take (i + Suc k) (lh_record h))) \<le> 65535"
    "paddings (take (Suc i) (take (i + Suc k) (lh_record h))) \<le> 1"
    using Suc.prems(5,6) blocks_take_le paddings_take_le le_trans by blast+
  then have le: "blocks pbs (take i (lh_record h)) + rec_pb pbs ?r \<le> 65535"
    "paddings (take i (lh_record h) @ [?r]) \<le> 1"
    by (simp_all add: tk min_def)
  obtain t where t: "(if \<not> test_bit_u32 LOG_RECORD_DISCARD (lr_flags ?r)
        then res_bind (capacity_pb pbs (ucast (lr_io_size ?r))) (\<lambda>c.
          Inr (h\<lparr>lh_total_io_size := lh_total_io_size h + ucast c\<rparr>)) else Inr h)
      = Inr (h\<lparr>lh_total_io_size := t\<rparr>)" "unat t = blocks pbs (take (Suc i) (lh_record h))"
  proof (cases "isDiscard ?r")
    case True
    then show ?thesis using that [of "lh_total_io_size h"] Suc.prems(3)
      by (simp add: tk rec_pb_def isDiscard_def)
  next
    case False
    obtain c where c: "capacity_pb pbs (ucast (lr_io_size ?r)) = Inr c" "unat c = rec_pb pbs ?r"
      by (rule rec_pb_capacity [OF assms(1) False])
    have "unat (lh_total_io_size h + ucast c) = unat (lh_total_io_size h) + unat c"
      using le(1) c(2) Suc.prems(3) by (simp add: unat_word_ariths unsigned_ucast_eq take_bit_eq_mod)
    then show ?thesis using that [of "lh_total_io_size h + ucast c"] c Suc.prems(3) False
      by (simp add: tk isDiscard_def)
  qed
  define p where "p = (if isPadding ?r then lh_n_padding h + 1 else lh_n_padding h)"
  have p: "unat p = paddings (take (Suc i) (lh_record h))"
    using le(2) Suc.prems(4) by (auto simp: p_def tk unat_word_ariths)
  let ?h = "h\<lparr>lh_total_io_size := t, lh_n_padding := p\<rparr>"
  have "\<exists>t p. recount_records pbs k (Suc i) ?h = Inr (?h\<lparr>lh_total_io_size := t, lh_n_padding := p\<rparr>)
    \<and> unat t = blocks pbs (take (Suc i + k) (lh_record ?h)) \<and> unat p = paddings (take (Suc i + k) (lh_record ?h))"
    using Suc.prems t(2) p by (intro Suc.IH) simp_all
  moreover have "recount_records pbs (Suc k) i h = recount_records pbs k (Suc i) ?h"
    using Suc.prems(1,2) t(1) by (simp add: record_at_ok p_def isPadding_def)
  ultimately show ?case by simp
qed

lemma shrink_repr:
  assumes "pack_repr pbs h rs" and "idx < length rs"
    and "length rs' = length (lh_record h)" and "take idx rs' = take idx (lh_record h)"
    and "unat t = blocks pbs (take idx rs')" and "unat p = paddings (take idx rs')"
  shows "pack_repr pbs (h\<lparr>lh_record := rs', lh_n_records := of_nat idx, lh_total_io_size := t,
    lh_n_padding := p\<rparr>) (take idx rs)"
proof -
  note d = pack_reprD [OF assms(1)] and n = pack_repr_length [OF assms(1)]
  have i: "unat (of_nat idx :: u16) = idx"
    using assms(2) n unat_lt16 [of "lh_n_records h"] by (simp add: unat_of_nat take_bit_eq_mod del: unat_lt16)
  have "take idx rs = take idx (lh_record h)" using assms(2) n by (subst d(7)) (simp add: min_def)
  then have tk: "take idx rs = take idx rs'" using assms(4) by simp
  have "idx \<le> length rs'" using assms(2,3) d(2) n by simp
  moreover have "pack_frame pbs (h\<lparr>lh_record := rs', lh_n_records := of_nat idx, lh_total_io_size := t,
    lh_n_padding := p\<rparr>)" using d(1) assms(3) by (simp add: pack_frame_def)
  moreover have "paddings (take idx rs) \<le> 1" using d(8) paddings_take_le le_trans by blast
  ultimately show ?thesis
    using i tk assms(5,6) layout_take [OF d(3), of idx] unfolding pack_repr_def by simp
qed

lemma nextLogpackLsid_repr:
  assumes "pack_repr pbs h rs" and "rs \<noteq> []"
  shows "unat (nextLogpackLsid h) = unat (lh_logpack_lsid h) + 1 + blocks pbs rs"
proof -
  note d = pack_reprD [OF assms(1)]
  have "lh_n_records h \<noteq> 0" using d(7) assms(2) by auto
  moreover have "unat (lh_logpack_lsid h) + 1 + unat (lh_total_io_size h) < 18446744073709551616"
    using d(6) unat_lt16 [of "lh_total_io_size h"] by linarith
  ultimately show ?thesis
    using d(4) by (simp add: nextLogpackLsid_def unat_word_ariths mod_simps word_gt_0)
qed

text \<open>
  C24: cutting a well-formed log pack at an index keeps exactly the records before it, gives a
  well-formed pack whose checksum is right, and returns the lsid where the first removed record
  was (the lsid of the pack itself when nothing is left).
\<close>

theorem shrink_correct:
  assumes "pack_ok lp rs" and "idx < length rs"
  shows "\<exists>next lp'. shrink idx lp = Inr (next, lp') \<and> pack_ok lp' (take idx rs)
    \<and> pack_isValid lp' True = Inr True
    \<and> next = (if idx = 0 then packLsid (rs ! 0) else lr_lsid (rs ! idx))"
proof -
  obtain h where h: "lp_header lp = Some h" and repr: "pack_repr (lp_pbs lp) h rs"
    using assms(1) by (auto simp: pack_ok_def)
  note d = pack_reprD [OF repr] and n = pack_repr_length [OF repr]
  have pbs: "is_valid_pbs (lp_pbs lp)" using d(1) by (simp add: pack_frame_def)
  obtain rs' where rs': "clear_records (unat (lh_n_records h) - idx) idx h = Inr (h\<lparr>lh_record := rs'\<rparr>)"
    "length rs' = length (lh_record h)" "take idx rs' = take idx (lh_record h)"
    using clear_records_ok [of idx "unat (lh_n_records h) - idx" h] d(2) n assms(2) by auto
  let ?h1 = "h\<lparr>lh_record := rs', lh_n_records := of_nat idx, lh_total_io_size := 0, lh_n_padding := 0\<rparr>"
  have i: "unat (of_nat idx :: u16) = idx"
    using assms(2) n unat_lt16 [of "lh_n_records h"] by (simp add: unat_of_nat take_bit_eq_mod del: unat_lt16)
  have tk: "take idx rs' = take idx rs" using assms(2) n rs'(3) by (subst d(7)) (simp add: min_def)
  have "blocks (lp_pbs lp) (take idx rs') \<le> 65535"
    using blocks_take_le [of "lp_pbs lp" idx rs] d(4) unat_lt16 [of "lh_total_io_size h"] tk by simp
  moreover have "paddings (take idx rs') \<le> 1" using d(8) paddings_take_le [of idx rs] tk by simp
  ultimately obtain t p where tp: "recount_records (lp_pbs lp) idx 0 ?h1 =
      Inr (?h1\<lparr>lh_total_io_size := t, lh_n_padding := p\<rparr>)"
      "unat t = blocks (lp_pbs lp) (take idx rs')" "unat p = paddings (take idx rs')"
    using recount_records_ok [OF pbs, of 0 idx ?h1] i rs'(2) d(2) n assms(2) by auto
  let ?h2 = "h\<lparr>lh_record := rs', lh_n_records := of_nat idx, lh_total_io_size := t, lh_n_padding := p\<rparr>"
  have r2: "pack_repr (lp_pbs lp) ?h2 (take idx rs)"
    by (rule shrink_repr [OF repr assms(2) rs'(2,3) tp(2,3)])
  obtain c where c: "pack_updateChecksum (set_header ?h2 lp) = Inr (set_header (?h2\<lparr>lh_checksum := c\<rparr>) (set_header ?h2 lp))"
    "pack_isValid (set_header (?h2\<lparr>lh_checksum := c\<rparr>) (set_header ?h2 lp)) True = Inr True"
    "pack_repr (lp_pbs lp) (?h2\<lparr>lh_checksum := c\<rparr>) (take idx rs)"
    using pack_updateChecksum_ok [of "set_header ?h2 lp" ?h2 "take idx rs"] r2 by (auto simp: set_header_def)
  let ?lp = "set_header (?h2\<lparr>lh_checksum := c\<rparr>) (set_header ?h2 lp)"
  have "shrink idx lp = Inr (nextLogpackLsid (?h2\<lparr>lh_checksum := c\<rparr>), ?lp)"
    using h rs'(1) tp(1) c(1,2) assms(2) n by (simp add: shrink_def deref_def) (simp add: set_header_def)
  moreover have "pack_ok ?lp (take idx rs)" using c(3) by (simp add: pack_ok_def set_header_def)
  moreover have "nextLogpackLsid (?h2\<lparr>lh_checksum := c\<rparr>) =
      (if idx = 0 then packLsid (rs ! 0) else lr_lsid (rs ! idx))"
  proof (cases "idx = 0")
    case True
    have "0 < length rs" using assms(2) by linarith
    note l = layout_nth [OF d(3) this]
    have "packLsid (rs ! 0) = lh_logpack_lsid h"
      using record_valid(2) [OF l(1) _ _ d(6)] l(2,3) by (simp add: packLsid_def)
    then show ?thesis using True by (simp add: nextLogpackLsid_def)
  next
    case False
    moreover have "rs \<noteq> []" using assms(2) by (cases rs) simp_all
    ultimately have "take idx rs \<noteq> []" by simp
    then have "unat (nextLogpackLsid (?h2\<lparr>lh_checksum := c\<rparr>)) = unat (lr_lsid (rs ! idx))"
      using nextLogpackLsid_repr [OF c(3)] layout_nth(3) [OF d(3) assms(2)] by simp
    then show ?thesis using False by (simp add: word_unat_eq_iff)
  qed
  ultimately show ?thesis using c(2) by blast
qed

theorem shrink_correct_witness:
  "\<exists>next lp'. shrink 2 sample_pack = Inr (next, lp') \<and> pack_ok lp' (take 2 sample_recs)
    \<and> pack_isValid lp' True = Inr True
    \<and> next = (if (2 :: nat) = 0 then packLsid (sample_recs ! 0) else lr_lsid (sample_recs ! 2))"
  by (rule shrink_correct [OF sample_pack_ok]) (simp add: sample_recs_def)

section \<open>Moving a pack\<close>

lemma updateLsid_loop_ok:
  assumes "i + k \<le> unat (lh_n_records h)" and "unat (lh_n_records h) \<le> length (lh_record h)"
  shows "updateLsid_loop newLsid k i h = Inr (h\<lparr>lh_record := take i (lh_record h)
    @ map (\<lambda>r. r\<lparr>lr_lsid := newLsid + ucast (lr_lsid_local r)\<rparr>) (take k (drop i (lh_record h)))
    @ drop (i + k) (lh_record h)\<rparr>)"
  using assms
proof (induction k arbitrary: i h)
  case 0
  then show ?case by simp
next
  case (Suc k)
  let ?f = "\<lambda>r. r\<lparr>lr_lsid := newLsid + ucast (lr_lsid_local r)\<rparr>"
  let ?xs = "lh_record h"
  let ?h = "h\<lparr>lh_record := ?xs[i := ?f (?xs ! i)]\<rparr>"
  have i: "i < length ?xs" using Suc.prems by simp
  have e: "take (Suc i) (?xs[i := ?f (?xs ! i)]) = take i ?xs @ [?f (?xs ! i)]"
    using i by (simp add: take_Suc_conv_app_nth)
  have f: "take (Suc k) (drop i ?xs) = ?xs ! i # take k (drop (Suc i) ?xs)"
    using i by (simp add: Cons_nth_drop_Suc [symmetric])
  show ?case
    using Suc.IH [of "Suc i" ?h] Suc.prems by (simp add: record_at_ok e f)
qed

lemma rec_move [simp]:
  "isExist (r\<lparr>lr_lsid := x\<rparr>) = isExist r" "isPadding (r\<lparr>lr_lsid := x\<rparr>) = isPadding r"
  "isDiscard (r\<lparr>lr_lsid := x\<rparr>) = isDiscard r" "rec_shape (r\<lparr>lr_lsid := x\<rparr>) = rec_shape r"
  "rec_pb pbs (r\<lparr>lr_lsid := x\<rparr>) = rec_pb pbs r"
  by (simp_all add: rec_shape_def rec_pb_def isExist_def isPadding_def isDiscard_def)

lemma layout_move:
  assumes "layout pbs base p rs" and "unat newLsid + 65537 < 18446744073709551616"
  shows "layout pbs (unat newLsid) p (map (\<lambda>r. r\<lparr>lr_lsid := newLsid + ucast (lr_lsid_local r)\<rparr>) rs)"
  using assms(1)
proof (induction rs arbitrary: p)
  case (Cons r rs)
  have l: "unat (lr_lsid_local r) < 65536" by simp
  then have "unat newLsid + unat (lr_lsid_local r) < 18446744073709551616" using assms(2) by linarith
  then have "unat (newLsid + ucast (lr_lsid_local r)) = unat newLsid + unat (lr_lsid_local r)"
    by (simp add: unat_word_ariths)
  with Cons show ?case by simp
qed simp

lemma move_sums:
  "blocks pbs (map (\<lambda>r. r\<lparr>lr_lsid := f r\<rparr>) rs) = blocks pbs rs"
  "paddings (map (\<lambda>r. r\<lparr>lr_lsid := f r\<rparr>) rs) = paddings rs"
  by (induction rs) simp_all

lemma record_lsid:
  assumes "pack_repr pbs h rs" and "r \<in> set rs"
  shows "lr_lsid r = lh_logpack_lsid h + ucast (lr_lsid_local r)"
proof -
  obtain j where j: "j < length rs" "r = rs ! j" using assms(2) by (auto simp: in_set_conv_nth)
  note l = layout_nth [OF pack_reprD(3) [OF assms(1)] j(1)]
  show ?thesis
    using record_valid(2) [OF l(1) _ _ pack_reprD(6) [OF assms(1)]] l(2,3) j(2)
    by (simp add: algebra_simps)
qed

lemma pack_isValid_repr:
  "lp_header lp = Some h \<Longrightarrow> pack_repr (lp_pbs lp) h rs \<Longrightarrow> pack_isValid lp False = Inr True"
  using pack_repr_valid [of "lp_pbs lp" h rs] pack_reprD(1) [of "lp_pbs lp" h rs]
  by (auto simp: pack_isValid_def pack_frame_def is_valid_pbs_iff)

text \<open>
  moving a well-formed log pack to another lsid (at which it does not reach the end of the
  lsid space) gives a well-formed pack at that lsid, in which every record keeps its position
  in the pack, its range and its flags.
\<close>

theorem updateLsid_correct:
  assumes "pack_ok lp rs" and "unat newLsid + 65537 < 18446744073709551616"
  shows "\<exists>lp'. updateLsid newLsid lp = Inr lp'
    \<and> pack_ok lp' (map (\<lambda>r. r\<lparr>lr_lsid := newLsid + ucast (lr_lsid_local r)\<rparr>) rs)"
proof -
  let ?f = "\<lambda>r. r\<lparr>lr_lsid := newLsid + ucast (lr_lsid_local r)\<rparr>"
  obtain h where h: "lp_header lp = Some h" and repr: "pack_repr (lp_pbs lp) h rs"
    using assms(1) by (auto simp: pack_ok_def)
  note d = pack_reprD [OF repr] and n = pack_repr_length [OF repr]
  let ?h = "h\<lparr>lh_logpack_lsid := newLsid, lh_record := map ?f rs @ drop (unat (lh_n_records h)) (lh_record h)\<rparr>"
  have "pack_frame (lp_pbs lp) ?h" using d(1,2) assms(2) n by (simp add: pack_frame_def)
  then have r: "pack_repr (lp_pbs lp) ?h (map ?f rs)"
    using d(2,4,5,8) n layout_move [OF d(3) assms(2)] by (simp add: pack_repr_def move_sums)
  note v = pack_isValid_repr [OF h repr] and v1 = pack_isValid_repr [of "set_header ?h lp" ?h "map ?f rs"]
  have "unat (- 1 :: u64) = 18446744073709551615"
    by (simp add: unsigned_minus_1_eq_mask mask_eq_exp_minus_1)
  then have ne: "newLsid \<noteq> - 1" using assms(2) by auto
  show ?thesis
  proof (cases "lh_logpack_lsid h = newLsid")
    case True
    have "map ?f rs = rs" using record_lsid [OF repr] True by (intro map_idI) simp
    then show ?thesis using v ne h True assms(1) by (simp add: updateLsid_def deref_def)
  next
    case False
    have "updateLsid_loop newLsid (unat (lh_n_records h)) 0 (h\<lparr>lh_logpack_lsid := newLsid\<rparr>) = Inr ?h"
      using updateLsid_loop_ok [of 0 "unat (lh_n_records h)" "h\<lparr>lh_logpack_lsid := newLsid\<rparr>" newLsid] d(2,7)
      by simp
    then show ?thesis
      using v v1 ne h False r
      by (simp add: updateLsid_def deref_def pack_verify_def pack_ok_def set_header_def)
  qed
qed

theorem updateLsid_correct_witness:
  "\<exists>lp'. updateLsid 5000 sample_pack = Inr lp'
    \<and> pack_ok lp' (map (\<lambda>r. r\<lparr>lr_lsid := 5000 + ucast (lr_lsid_local r)\<rparr>) sample_recs)"
  by (rule updateLsid_correct [OF sample_pack_ok]) simp

section \<open>Invalidating a record\<close>

definition pack_records :: "log_pack \<Rightarrow> walb_log_record list" where
  "pack_records lp = (case lp_header lp of None \<Rightarrow> []
     | Some h \<Rightarrow> take (unat (lh_n_records h)) (lh_record h))"

lemma invalidate_loop_ok:
  assumes "idx + 1 < unat (lh_n_records h)" and "unat (lh_n_records h) \<le> length (lh_record h)"
  shows "invalidate_loop (Suc k) idx h =
    Inr (h\<lparr>lh_record := (lh_record h)[idx := lh_record h ! (idx + 1)]\<rparr>)"
  using assms
proof (induction k arbitrary: h)
  case 0
  then show ?case by (simp add: record_at_ok)
next
  case (Suc k)
  let ?h = "h\<lparr>lh_record := (lh_record h)[idx := lh_record h ! (idx + 1)]\<rparr>"
  have "invalidate_loop (Suc (Suc k)) idx h = invalidate_loop (Suc k) idx ?h"
    using Suc.prems by (simp add: record_at_ok)
  also have "\<dots> = Inr (?h\<lparr>lh_record := (lh_record ?h)[idx := lh_record ?h ! (idx + 1)]\<rparr>)"
    using Suc.prems by (intro Suc.IH) simp_all
  finally show ?case by simp
qed

lemma records_loop_valid:
  assumes "k \<le> length (lh_record h)" and "\<forall>j < k. is_valid_log_record (Some (lh_record h ! j))
    \<and> lr_lsid (lh_record h ! j) - ucast (lr_lsid_local (lh_record h ! j)) = lh_logpack_lsid h"
  shows "is_valid_records_loop k 0 h = Inr True"
  using is_valid_records_loop_iff [of 0 k h] assms by (auto simp del: is_valid_records_loop.simps)

lemma pack_member_valid:
  assumes "pack_repr pbs h rs" and "r \<in> set rs"
  shows "is_valid_log_record (Some r) \<and> lr_lsid r - ucast (lr_lsid_local r) = lh_logpack_lsid h"
proof -
  obtain j where j: "j < length rs" "r = rs ! j" using assms(2) by (auto simp: in_set_conv_nth)
  note l = layout_nth [OF pack_reprD(3) [OF assms(1)] j(1)]
  show ?thesis using record_valid [OF l(1) _ _ pack_reprD(6) [OF assms(1)]] l(2,3) j(2) by simp
qed

text \<open>Any pack with one record less, all of them taken from the old ones, passes the checks.\<close>

lemma fewer_records_valid:
  assumes "pack_repr pbs h rs" and "idx < length rs" and "isDiscard (rs ! idx)"
    and "length ys = length (lh_record h)" and "\<forall>j < length rs - 1. ys ! j \<in> set rs"
  shows "is_valid_logpack_header_and_records
    (Some (h\<lparr>lh_record := ys, lh_n_records := lh_n_records h - 1\<rparr>)) = Inr True"
proof -
  note d = pack_reprD [OF assms(1)] and n = pack_repr_length [OF assms(1)]
  let ?h = "h\<lparr>lh_record := ys, lh_n_records := lh_n_records h - 1\<rparr>"
  have n1: "unat (lh_n_records h - 1) = length rs - 1"
    using assms(2) n by (simp add: unat_sub word_le_nat_alt)
  have v: "is_valid_logpack_header (Some h)" by (rule pack_repr_header_valid [OF assms(1)])
  have pos: "lh_n_records h \<noteq> 0" using assms(2) n by auto
  have "is_valid_logpack_header (Some ?h)"
  proof (cases "length rs = 1")
    case True
    then obtain r where r: "rs = [r]" by (auto simp: length_Suc_conv)
    then have "rec_shape r" "isDiscard r" using d(3) assms(2,3) by simp_all
    then have "blocks pbs rs = 0" "paddings rs = 0"
      by (simp_all add: r rec_pb_def rec_shape_def)
    then show ?thesis
      using d(4,5) n1 True v pos by (simp add: is_valid_logpack_header_def unat_eq_0 split: if_splits)
  next
    case False
    then have "lh_n_records h - 1 \<noteq> 0" "paddings rs \<le> length rs - 1" using n1 d(8) assms(2) by auto
    then show ?thesis
      using v pos n1 d(5) by (auto simp: is_valid_logpack_header_def word_le_nat_alt split: if_splits)
  qed
  moreover have "is_valid_records_loop (unat (lh_n_records ?h)) 0 ?h = Inr True"
    using n1 n d(2) assms(4,5) pack_member_valid [OF assms(1)] by (intro records_loop_valid) auto
  ultimately show ?thesis by (simp add: is_valid_logpack_header_and_records_def deref_def)
qed

text \<open>
  C38: invalidating a discard record does not remove it from the pack as documented. The loop
  that should shift the following records copies only the next one to the position, again and
  again, and the last record is dropped: of the records after the next one the last is
  lost and the next one appears twice. Only the last two positions behave as documented.
\<close>

theorem invalidate_discard_records:
  assumes "pack_ok lp rs" and "idx < length rs" and "isDiscard (rs ! idx)"
  shows "\<exists>lp'. invalidate idx lp = Inr (idx, lp') \<and> pack_records lp' =
    (if idx + 1 < length rs then take (length rs - 1) (rs[idx := rs ! (idx + 1)]) else butlast rs)"
proof -
  obtain h where h: "lp_header lp = Some h" and repr: "pack_repr (lp_pbs lp) h rs"
    using assms(1) by (auto simp: pack_ok_def)
  note d = pack_reprD [OF repr] and n = pack_repr_length [OF repr]
  let ?n = "unat (lh_n_records h)" and ?xs = "lh_record h"
  define ys where "ys = (if idx + 1 < length rs then ?xs[idx := ?xs ! (idx + 1)] else ?xs)"
  define h2 where "h2 = h\<lparr>lh_record := ys[?n - 1 := record_clear], lh_n_records := lh_n_records h - 1\<rparr>"
  have ly: "length ys = length ?xs" by (simp add: ys_def)
  have loop: "invalidate_loop (?n - 1 - idx) idx h = Inr (h\<lparr>lh_record := ys\<rparr>)"
  proof (cases "idx + 1 < length rs")
    case True
    then have "?n - 1 - idx = Suc (?n - 2 - idx)" using n by simp
    then show ?thesis using invalidate_loop_ok [of idx h "?n - 2 - idx"] True n d(2) by (simp add: ys_def)
  next
    case False
    then show ?thesis using assms(2) n by (simp add: ys_def)
  qed
  have tk: "take (length rs - 1) ys =
      (if idx + 1 < length rs then take (length rs - 1) (rs[idx := rs ! (idx + 1)]) else butlast rs)"
  proof (cases "idx + 1 < length rs")
    case True
    have "rs[idx := rs ! (idx + 1)] = take ?n (?xs[idx := ?xs ! (idx + 1)])"
      using pack_repr_nth [OF repr True] by (subst (1) d(7)) (simp add: take_update_swap)
    then show ?thesis using True n by (simp add: ys_def min_def)
  next
    case False
    have "butlast rs = take (length rs - 1) (take ?n ?xs)" by (subst d(7) [symmetric]) (rule butlast_conv_take)
    then show ?thesis using False n by (simp add: ys_def min_def)
  qed
  have vals: "ys[?n - 1 := record_clear] ! j \<in> set rs" if "j < length rs - 1" for j
  proof -
    have "ys ! j = take (length rs - 1) ys ! j" using that by simp
    also have "\<dots> \<in> set rs" unfolding tk using that assms(2)
      by (auto simp: nth_list_update nth_butlast)
    finally show ?thesis using that n by simp
  qed
  have "is_valid_logpack_header_and_records (Some h2) = Inr True"
    unfolding h2_def using ly vals by (intro fewer_records_valid [OF repr assms(2,3)]) simp_all
  then have "pack_isValid (set_header h2 lp) False = Inr True"
    using d(1) by (auto simp: pack_isValid_def set_header_def pack_frame_def is_valid_pbs_iff)
  moreover have "record_at h idx = Inr (rs ! idx)"
    using assms(2) n d(2) pack_repr_nth [OF repr assms(2)] by (simp add: record_at_ok)
  moreover have "record_at (h\<lparr>lh_record := ys\<rparr>) (?n - 1) = Inr (ys ! (?n - 1))"
    using assms(2) n d(2) ly by (intro record_at_ok [of _ "h\<lparr>lh_record := ys\<rparr>", simplified]) simp_all
  ultimately have "invalidate idx lp = Inr (idx, set_header h2 lp)"
    using h assms(2,3) n loop by (simp add: invalidate_def deref_def Let_def h2_def)
  moreover have "pack_records (set_header h2 lp) = take (length rs - 1) ys"
    using assms(2) n by (simp add: pack_records_def set_header_def h2_def unat_sub word_le_nat_alt)
  ultimately show ?thesis using tk by auto
qed

theorem invalidate_discard_records_witness:
  "\<exists>lp'. invalidate 1 sample_pack = Inr (1, lp')
    \<and> pack_records lp' = [sample_recs ! 0, sample_recs ! 2, sample_recs ! 2]"
  using invalidate_discard_records [OF sample_pack_ok, of 1]
  by (simp add: sample_recs_def sample_rec_flags)

end
