(* ===== verification/Wlog_File_Laws.thy ===== *)
theory Wlog_File_Laws
  imports Wlog_File Log_Pack_Laws
begin

text \<open>
  A wlog that is written is read back: the packs and their data come out of the reader record by record,
  whatever follows the wlog in the file. A pack to write is a well-formed, sealed log pack with the data of
  its records; consecutive packs lie at consecutive lsids.
\<close>

section \<open>The data of a pack\<close>

definition data_ok :: "u32 \<Rightarrow> u32 \<Rightarrow> walb_log_record \<Rightarrow> u8 list \<Rightarrow> bool" where
  "data_ok pbs salt r io \<longleftrightarrow> length io = rec_pb pbs r * unat pbs
     \<and> (isPadding r \<or> lr_checksum r = calcChecksum (take (512 * unat (lr_io_size r)) io) salt)"

fun ios_ok :: "u32 \<Rightarrow> u32 \<Rightarrow> walb_log_record list \<Rightarrow> u8 list list \<Rightarrow> bool" where
  "ios_ok pbs salt [] ios = (ios = [])"
| "ios_ok pbs salt (r # rs) ios =
     (if hasData r then ios \<noteq> [] \<and> data_ok pbs salt r (hd ios) \<and> ios_ok pbs salt rs (tl ios)
      else ios_ok pbs salt rs ios)"

text \<open>The records with their data; a record without data has none.\<close>

fun logs :: "walb_log_record list \<Rightarrow> u8 list list \<Rightarrow> (walb_log_record \<times> u8 list) list" where
  "logs [] ios = []"
| "logs (r # rs) ios = (if hasData r then (r, hd ios) # logs rs (tl ios) else (r, []) # logs rs ios)"

type_synonym wlog_pack = "log_pack \<times> u8 list list"

definition pack_header :: "wlog_pack \<Rightarrow> walb_logpack_header" where
  "pack_header p = the (lp_header (fst p))"

definition wpack_ok :: "u32 \<Rightarrow> u32 \<Rightarrow> u64 \<Rightarrow> wlog_pack \<Rightarrow> bool" where
  "wpack_ok pbs salt lsid p \<longleftrightarrow> pack_ok (fst p) (pack_records (fst p)) \<and> pack_records (fst p) \<noteq> []
     \<and> pack_isValid (fst p) True = Inr True \<and> lp_pbs (fst p) = pbs \<and> lp_salt (fst p) = salt
     \<and> lh_logpack_lsid (pack_header p) = lsid \<and> ios_ok pbs salt (pack_records (fst p)) (snd p)"

definition next_lsid :: "wlog_pack \<Rightarrow> u64" where
  "next_lsid p = nextLogpackLsid (pack_header p)"

fun wpacks_ok :: "u32 \<Rightarrow> u32 \<Rightarrow> u64 \<Rightarrow> wlog_pack list \<Rightarrow> bool" where
  "wpacks_ok pbs salt lsid [] = True"
| "wpacks_ok pbs salt lsid (p # ps) = (wpack_ok pbs salt lsid p \<and> wpacks_ok pbs salt (next_lsid p) ps)"

fun end_lsid :: "u64 \<Rightarrow> wlog_pack list \<Rightarrow> u64" where
  "end_lsid lsid [] = lsid"
| "end_lsid lsid (p # ps) = end_lsid (next_lsid p) ps"

definition wpack_image :: "wlog_pack \<Rightarrow> u8 list" where
  "wpack_image p = logpack_header_bytes (pack_header p) @ concat (snd p)"

definition pack_logs :: "wlog_pack \<Rightarrow> (walb_log_record \<times> u8 list) list" where
  "pack_logs p = logs (pack_records (fst p)) (snd p)"

lemma wpack_okD:
  assumes "wpack_ok pbs salt lsid p"
  shows "lp_header (fst p) = Some (pack_header p)" and "pack_repr pbs (pack_header p) (pack_records (fst p))"
    and "fst p = \<lparr>lp_header = Some (pack_header p), lp_pbs = pbs, lp_salt = salt\<rparr>"
proof -
  obtain h where h: "lp_header (fst p) = Some h" "pack_repr (lp_pbs (fst p)) h (pack_records (fst p))"
    using assms by (auto simp: wpack_ok_def pack_ok_def)
  then show "lp_header (fst p) = Some (pack_header p)" "pack_repr pbs (pack_header p) (pack_records (fst p))"
    using assms by (simp_all add: wpack_ok_def pack_header_def)
  then show "fst p = \<lparr>lp_header = Some (pack_header p), lp_pbs = pbs, lp_salt = salt\<rparr>"
    using assms by (simp add: wpack_ok_def)
qed

text \<open>The header block of a pack is its image.\<close>

lemma pack_block:
  assumes "pack_repr pbs h rs"
  shows "length (logpack_header_bytes h) = unat pbs" and "logpack_header_of (logpack_header_bytes h) = h"
proof -
  have "length (lh_rest h) < 32" using pack_reprD(1) [OF assms] by (simp add: pack_frame_def)
  then show "length (logpack_header_bytes h) = unat pbs" "logpack_header_of (logpack_header_bytes h) = h"
    using pack_frame_image(2) [OF pack_reprD(1) [OF assms]] logpack_header_of_bytes by simp_all
qed

section \<open>The end block\<close>

lemma le_load_zeros [simp]: "le_load (replicate n 0) = (0 :: 'a::len word)"
proof -
  have "le_val (replicate n 0) = 0" by (induction n) auto
  then show ?thesis by (simp add: le_load_def)
qed

definition end_header :: "u32 \<Rightarrow> u32 \<Rightarrow> walb_logpack_header" where
  "end_header pbs salt = (let h = logpack_header_of (replicate (unat pbs) 0)
       \<lparr>lh_logpack_lsid := - 1, lh_sector_type := SECTOR_TYPE_LOGPACK\<rparr> in
     h\<lparr>lh_checksum := calcChecksum (logpack_header_bytes (h\<lparr>lh_checksum := 0\<rparr>)) salt\<rparr>)"

definition end_block :: "u32 \<Rightarrow> u32 \<Rightarrow> u8 list" where
  "end_block pbs salt = logpack_header_bytes (end_header pbs salt)"

definition pbs_ok :: "u32 \<Rightarrow> bool" where
  "pbs_ok pbs \<longleftrightarrow> is_valid_pbs pbs \<and> unat pbs \<le> 2097152"

lemma length_log_records_of [simp]: "length (log_records_of n bs) = n"
  by (induction n arbitrary: bs) auto

lemma zero_header:
  assumes "pbs_ok pbs"
  defines "h \<equiv> logpack_header_of (replicate (unat pbs) 0)"
  shows "lh_n_records h = 0" and "lh_total_io_size h = 0" and "lh_n_padding h = 0"
    and "length (lh_record h) = (unat pbs - 24) div 32" and "length (lh_rest h) = (unat pbs - 24) mod 32"
proof -
  have "512 \<le> unat pbs" using assms by (simp add: pbs_ok_def is_valid_pbs_iff)
  then show "lh_n_records h = 0" "lh_total_io_size h = 0" "lh_n_padding h = 0"
    "length (lh_record h) = (unat pbs - 24) div 32" "length (lh_rest h) = (unat pbs - 24) mod 32"
    unfolding h_def logpack_header_of_def Let_def
    by (simp_all add: minus_mult_div_eq_mod [symmetric])
qed

text \<open>A frame that only lacks the bound on the lsid.\<close>

lemma end_header_facts:
  assumes "pbs_ok pbs"
  shows "length (end_block pbs salt) = unat pbs" and "logpack_header_of (end_block pbs salt) = end_header pbs salt"
    and "pack_isEnd (end_header pbs salt)" and "is_valid_logpack_header_and_records (Some (end_header pbs salt)) = Inr True"
    and "checksum (end_block pbs salt) pbs salt = Inr 0"
proof -
  note z = zero_header [OF assms]
  let ?h = "logpack_header_of (replicate (unat pbs) 0)\<lparr>lh_logpack_lsid := 0, lh_sector_type := SECTOR_TYPE_LOGPACK\<rparr>"
  have "pack_frame pbs ?h" using assms z by (simp add: pack_frame_def pbs_ok_def)
  from pack_frame_image [OF this] have i: "logpack_image_ok (?h\<lparr>lh_logpack_lsid := - 1\<rparr>)"
    "length (logpack_header_bytes (?h\<lparr>lh_logpack_lsid := - 1, lh_checksum := c\<rparr>)) = unat pbs" for c
    by (simp_all add: logpack_image_ok_def length_logpack_header_bytes)
  have e: "end_header pbs salt = ?h\<lparr>lh_logpack_lsid := - 1,
      lh_checksum := calcChecksum (logpack_header_bytes (?h\<lparr>lh_logpack_lsid := - 1, lh_checksum := 0\<rparr>)) salt\<rparr>"
  proof -
    have "f\<lparr>lh_logpack_lsid := x, lh_sector_type := y\<rparr> = f\<lparr>lh_sector_type := y, lh_logpack_lsid := x\<rparr>"
      for f :: walb_logpack_header and x y by (cases f) simp
    note c = this
    show ?thesis unfolding end_header_def Let_def by (simp only: c) simp
  qed
  show "length (end_block pbs salt) = unat pbs" unfolding end_block_def e using i(2) by simp
  show "logpack_header_of (end_block pbs salt) = end_header pbs salt"
    unfolding end_block_def e by (rule logpack_header_of_bytes) (simp add: z)
  show "pack_isEnd (end_header pbs salt)" by (simp add: e pack_isEnd_def z)
  show "is_valid_logpack_header_and_records (Some (end_header pbs salt)) = Inr True"
    by (simp add: e is_valid_logpack_header_and_records_def is_valid_logpack_header_def z deref_def)
  have im: "logpack_image_ok ((?h\<lparr>lh_logpack_lsid := - 1\<rparr>)\<lparr>lh_checksum := c\<rparr>)" for c
    using i(1) by (simp add: logpack_image_ok_def)
  show "checksum (end_block pbs salt) pbs salt = Inr 0"
    unfolding end_block_def e using logpack_sum.checksum_agrees [OF im] i(2) logpack_sum.updated_verifies [OF i(1)] by simp
qed

lemma writeEof_ok:
  assumes "pbs_ok (ww_pbs w)"
  shows "writeEof w = Inr (w\<lparr>ww_file := ww_file w @ end_block (ww_pbs w) (ww_salt w)\<rparr>)"
proof -
  let ?p = "ww_pbs w" and ?s = "ww_salt w"
  note f = end_header_facts [OF assms, of ?s] and z = zero_header [OF assms]
  let ?h = "logpack_header_of (replicate (unat ?p) 0)\<lparr>lh_logpack_lsid := - 1, lh_sector_type := SECTOR_TYPE_LOGPACK\<rparr>"
  have s: "setEnd (pack_init ?p ?s) = Inr \<lparr>lp_header = Some ?h, lp_pbs = ?p, lp_salt = ?s\<rparr>"
    by (simp add: setEnd_def init_lsid_def pack_init_def deref_def set_header_def)
  have "pack_frame ?p (?h\<lparr>lh_logpack_lsid := 0\<rparr>)" using assms z by (simp add: pack_frame_def pbs_ok_def)
  from pack_frame_image [OF this] have i: "logpack_image_ok (?h\<lparr>lh_checksum := 0\<rparr>)"
    "unat ?p = length (logpack_header_bytes (?h\<lparr>lh_checksum := 0\<rparr>))"
    by (simp_all add: logpack_image_ok_def length_logpack_header_bytes)
  have u: "pack_updateChecksum \<lparr>lp_header = Some ?h, lp_pbs = ?p, lp_salt = ?s\<rparr>
      = Inr \<lparr>lp_header = Some (end_header ?p ?s), lp_pbs = ?p, lp_salt = ?s\<rparr>"
    using logpack_sum.checksum_agrees [OF i] by (simp add: pack_updateChecksum_def deref_def set_header_def end_header_def Let_def)
  have "?p \<noteq> 0" using assms by (auto simp: pbs_ok_def is_valid_pbs_iff)
  then have "pack_isValid \<lparr>lp_header = Some (end_header ?p ?s), lp_pbs = ?p, lp_salt = ?s\<rparr> True = Inr True"
    using f(4,5) by (simp add: pack_isValid_def is_valid_logpack_header_and_records_with_checksum_def deref_def flip: end_block_def)
  then show ?thesis using s u f(1)
    by (simp add: writeEof_def updateChecksumAndWriteTo_def pack_writeTo_def deref_def flip: end_block_def)
qed

section \<open>Writing packs\<close>

lemma nRecordsHavingData_loop_ok:
  assumes "i + k = unat (lh_n_records h)" and "unat (lh_n_records h) \<le> length (lh_record h)"
  shows "nRecordsHavingData_loop k i h = Inr (length (filter hasData (drop i (take (unat (lh_n_records h)) (lh_record h)))))"
  using assms(1)
proof (induction k arbitrary: i)
  case (Suc k)
  let ?rs = "take (unat (lh_n_records h)) (lh_record h)"
  have i: "i < length ?rs" using Suc.prems assms(2) by simp
  have r: "record_at h i = Inr (?rs ! i)" using Suc.prems assms(2) by (simp add: record_at_ok)
  have "drop i ?rs = ?rs ! i # drop (Suc i) ?rs" using i by (rule Cons_nth_drop_Suc [symmetric])
  then show ?case using Suc.IH [of "Suc i"] Suc.prems r by simp
qed simp

lemma ios_ok_length: "ios_ok pbs salt rs ios \<Longrightarrow> length ios = length (filter hasData rs)"
proof (induction rs arbitrary: ios)
  case (Cons r rs)
  then show ?case using Cons.IH [of "tl ios"] Cons.IH [of ios] by (cases ios) (simp_all split: if_splits)
qed simp

lemma hasData_rec_pb: "\<not> hasData r \<Longrightarrow> rec_shape r \<Longrightarrow> rec_pb pbs r = 0"
  by (simp add: hasData_def rec_shape_def rec_pb_def)

lemma layout_shapes: "layout pbs base p rs \<Longrightarrow> r \<in> set rs \<Longrightarrow> rec_shape r"
  by (induction rs arbitrary: p) auto

lemma writePackIos_ok:
  assumes "ios_ok pbs salt rs ios" and "\<forall>r \<in> set rs. rec_shape r" and "ww_pbs w = pbs" and "pbs \<noteq> 0"
  shows "writePackIos ios w = Inr (w\<lparr>ww_file := ww_file w @ concat ios, ww_lsid := ww_lsid w + of_nat (blocks pbs rs)\<rparr>)"
  using assms(1-3)
proof (induction rs arbitrary: ios w)
  case (Cons r rs)
  show ?case
  proof (cases "hasData r")
    case True
    then obtain io ios' where io: "ios = io # ios'" "data_ok pbs salt r io" "ios_ok pbs salt rs ios'"
      using Cons.prems(1) by (cases ios) auto
    have l: "length io = rec_pb pbs r * unat pbs" "0 < unat pbs" using io(2) assms(4) by (simp_all add: data_ok_def unat_gt_0)
    have "writePackIo io w = Inr (w\<lparr>ww_file := ww_file w @ io, ww_lsid := ww_lsid w + of_nat (rec_pb pbs r)\<rparr>)"
      using l Cons.prems(3) assms(4) by (auto simp: writePackIo_def)
    then show ?thesis using Cons.IH [OF io(3)] Cons.prems(2,3) io(1) by (simp add: add.assoc)
  next
    case False
    then have "rec_pb pbs r = 0" using hasData_rec_pb Cons.prems(2) by simp
    then show ?thesis using Cons False by simp
  qed
qed simp

lemma writePack_ok:
  assumes "wpack_ok pbs salt lsid p" and "ww_isWrittenHeader w" and "ww_pbs w = pbs" and "ww_salt w = salt" and "ww_lsid w = lsid"
  shows "writePack (fst p) (snd p) w = Inr (w\<lparr>ww_file := ww_file w @ wpack_image p, ww_lsid := next_lsid p\<rparr>)"
proof -
  let ?h = "pack_header p" and ?rs = "pack_records (fst p)"
  note d = wpack_okD [OF assms(1)]
  note r = pack_reprD [OF d(2)]
  have p: "pack_isValid (fst p) True = Inr True" "ios_ok pbs salt ?rs (snd p)" "lh_logpack_lsid ?h = lsid" "?rs \<noteq> []"
    "lp_pbs (fst p) = pbs" "lp_salt (fst p) = salt"
    using assms(1) by (simp_all add: wpack_ok_def)
  have n: "lh_n_records ?h \<noteq> 0" using r(7) p(4) by auto
  have pbs: "pbs \<noteq> 0" using r(1) by (auto simp: pack_frame_def is_valid_pbs_iff)
  have "nRecordsHavingData (fst p) = Inr (length (snd p))"
    using nRecordsHavingData_loop_ok [of 0 "unat (lh_n_records ?h)" ?h] r(2,7) ios_ok_length [OF p(2)]
    by (simp add: nRecordsHavingData_def d(1) deref_def)
  moreover have "ww_checkHeader (fst p) w = Inr ()" using assms p d(1) by (simp add: ww_checkHeader_def deref_def)
  moreover have "writePackHeader ?h w = Inr (w\<lparr>ww_file := ww_file w @ logpack_header_bytes ?h, ww_lsid := lsid + 1\<rparr>)"
    using assms(2,3,5) n pack_block(1) [OF d(2)] by (simp add: writePackHeader_def)
  moreover have "lsid + 1 + of_nat (blocks pbs ?rs) = next_lsid p"
  proof -
    have "of_nat (blocks pbs ?rs) = (ucast (lh_total_io_size ?h) :: u64)"
      unfolding r(4) [symmetric] by simp
    then show ?thesis using n p(3) by (simp add: next_lsid_def nextLogpackLsid_def word_gt_0)
  qed
  ultimately show ?thesis
    using writePackIos_ok [OF p(2) _ _ pbs, of "w\<lparr>ww_file := ww_file w @ logpack_header_bytes ?h, ww_lsid := lsid + 1\<rparr>"]
      layout_shapes [OF r(3)] assms(3) d(1)
    by (simp add: writePack_def deref_def wpack_image_def) (simp add: next_lsid_def)
qed

fun write_packs :: "wlog_pack list \<Rightarrow> wlog_writer \<Rightarrow> wlog_writer res" where
  "write_packs [] w = Inr w"
| "write_packs (p # ps) w = res_bind (writePack (fst p) (snd p) w) (write_packs ps)"

lemma write_packs_ok:
  assumes "wpacks_ok pbs salt (ww_lsid w) ps" and "ww_isWrittenHeader w" and "ww_pbs w = pbs" and "ww_salt w = salt"
  shows "write_packs ps w = Inr (w\<lparr>ww_file := ww_file w @ concat (map wpack_image ps), ww_lsid := end_lsid (ww_lsid w) ps\<rparr>)"
  using assms
proof (induction ps arbitrary: w)
  case (Cons p ps)
  then show ?case using writePack_ok [of pbs salt "ww_lsid w" p w] by simp
qed simp

section \<open>Reading packs\<close>

definition reading ::
  "u32 \<Rightarrow> u32 \<Rightarrow> wlog_reader \<Rightarrow> walb_log_record list \<Rightarrow> u8 list list \<Rightarrow> wlog_pack list \<Rightarrow> u8 list \<Rightarrow> bool"
where
  "reading pbs salt r rs ios ps tail \<longleftrightarrow> wr_isReadHeader r \<and> \<not> wr_isEnd r \<and> pbs_ok pbs
     \<and> lp_pbs (wr_packH r) = pbs \<and> lp_salt (wr_packH r) = salt \<and> lp_header (wr_packH r) \<noteq> None
     \<and> (if wr_isBegun r
        then \<exists>h rs0. lp_header (wr_packH r) = Some h \<and> pack_repr pbs h rs0 \<and> unat (wr_recIdx r) \<le> length rs0
          \<and> rs = drop (unat (wr_recIdx r)) rs0
        else rs = [])
     \<and> ios_ok pbs salt rs ios \<and> wpacks_ok pbs salt (wr_endLsid r) ps
     \<and> wr_file r = concat ios @ concat (map wpack_image ps) @ end_block pbs salt @ tail"

definition read_out :: "u64 \<Rightarrow> u8 list \<Rightarrow> wlog_reader \<Rightarrow> bool" where
  "read_out lsid tail r \<longleftrightarrow> wr_isReadHeader r \<and> wr_isEnd r \<and> wr_file r = tail \<and> wr_endLsid r = lsid"

lemma fetch_same:
  assumes "reading pbs salt r (x # rs) ios ps tail"
  shows "fetchNextPackHeader r = Inr (True, r)"
proof -
  obtain h rs0 where h: "lp_header (wr_packH r) = Some h" "pack_repr pbs h rs0" "x # rs = drop (unat (wr_recIdx r)) rs0"
    "wr_isBegun r" using assms by (auto simp: reading_def split: if_splits)
  have "unat (wr_recIdx r) < length rs0" using h(3) by (metis drop_all list.distinct(1) not_le)
  then have "wr_recIdx r < lh_n_records h" using pack_repr_length [OF h(2)] by (simp add: word_less_nat_alt)
  then show ?thesis using assms h(1,4) by (simp add: fetchNextPackHeader_def wr_nRecords_def deref_def reading_def)
qed

text \<open>When the records of the pack are used up, the next block of the file is read.\<close>

lemma fetch_next:
  assumes "reading pbs salt r [] ios ps tail"
  shows "fetchNextPackHeader r = wr_readPackHeader r"
proof (cases "wr_isBegun r")
  case True
  then obtain h rs0 where h: "lp_header (wr_packH r) = Some h" "pack_repr pbs h rs0" "[] = drop (unat (wr_recIdx r)) rs0"
    using assms by (auto simp: reading_def)
  have "\<not> wr_recIdx r < lh_n_records h" using h(3) pack_repr_length [OF h(2)] by (simp add: word_less_nat_alt)
  then show ?thesis using assms h(1) True by (simp add: fetchNextPackHeader_def wr_nRecords_def deref_def reading_def)
qed (use assms in \<open>simp add: fetchNextPackHeader_def reading_def\<close>)

lemma readFrom_block:
  assumes "length (logpack_header_bytes h) = unat pbs" and "logpack_header_of (logpack_header_bytes h) = h"
    and "lp_pbs lp = pbs" and "lp_salt lp = salt" and "lp_header lp \<noteq> None"
    and "pack_isValid \<lparr>lp_header = Some h, lp_pbs = pbs, lp_salt = salt\<rparr> True = Inr True"
  shows "pack_readFrom (logpack_header_bytes h @ rest) lp = Inr (True, rest, \<lparr>lp_header = Some h, lp_pbs = pbs, lp_salt = salt\<rparr>)"
  using assms by (cases lp) (auto simp: pack_readFrom_def deref_def set_header_def)

lemma fetch_pack:
  assumes "reading pbs salt r [] ios (p # ps) tail"
  shows "\<exists>r'. fetchNextPackHeader r = Inr (True, r') \<and> reading pbs salt r' (pack_records (fst p)) (snd p) ps tail
    \<and> wr_endLsid r' = next_lsid p"
proof -
  have ios: "ios = []" and w: "wpack_ok pbs salt (wr_endLsid r) p" "wpacks_ok pbs salt (next_lsid p) ps"
    and f: "wr_file r = logpack_header_bytes (pack_header p) @ concat (snd p) @ concat (map wpack_image ps) @ end_block pbs salt @ tail"
    and st: "wr_isReadHeader r" "\<not> wr_isEnd r" "pbs_ok pbs" "lp_pbs (wr_packH r) = pbs" "lp_salt (wr_packH r) = salt"
      "lp_header (wr_packH r) \<noteq> None"
    using assms by (simp_all add: reading_def wpack_image_def)
  note d = wpack_okD [OF w(1)]
  have v: "pack_isValid \<lparr>lp_header = Some (pack_header p), lp_pbs = pbs, lp_salt = salt\<rparr> True = Inr True"
    using w(1) unfolding d(3) [symmetric] by (simp add: wpack_ok_def)
  have io: "ios_ok pbs salt (pack_records (fst p)) (snd p)" using w(1) by (simp add: wpack_ok_def)
  have "\<not> pack_isEnd (pack_header p)"
    using w(1) d(1) by (auto simp: pack_isEnd_def wpack_ok_def pack_records_def)
  then have "fetchNextPackHeader r = Inr (True, r\<lparr>wr_isBegun := True,
      wr_file := concat (snd p) @ concat (map wpack_image ps) @ end_block pbs salt @ tail,
      wr_packH := \<lparr>lp_header = Some (pack_header p), lp_pbs = pbs, lp_salt = salt\<rparr>, wr_recIdx := 0, wr_endLsid := next_lsid p\<rparr>)"
    unfolding fetch_next [OF assms]
    by (simp add: wr_readPackHeader_def f readFrom_block [OF pack_block [OF d(2)] st(4-6) v] deref_def next_lsid_def)
  then show ?thesis using st w(2) d(2) io by (auto simp: reading_def)
qed

lemma fetch_end:
  assumes "reading pbs salt r [] ios [] tail"
  shows "\<exists>r'. fetchNextPackHeader r = Inr (False, r') \<and> read_out (wr_endLsid r) tail r'"
proof -
  have f: "wr_file r = logpack_header_bytes (end_header pbs salt) @ tail"
    and st: "wr_isReadHeader r" "\<not> wr_isEnd r" "pbs_ok pbs" "lp_pbs (wr_packH r) = pbs" "lp_salt (wr_packH r) = salt"
      "lp_header (wr_packH r) \<noteq> None"
    using assms by (simp_all add: reading_def end_block_def)
  note e = end_header_facts [OF st(3), of salt]
  have "pbs \<noteq> 0" using st(3) by (auto simp: pbs_ok_def is_valid_pbs_iff)
  then have v: "pack_isValid \<lparr>lp_header = Some (end_header pbs salt), lp_pbs = pbs, lp_salt = salt\<rparr> True = Inr True"
    using e(4,5) by (simp add: pack_isValid_def is_valid_logpack_header_and_records_with_checksum_def deref_def flip: end_block_def)
  show ?thesis unfolding fetch_next [OF assms]
    using st(1) e(1,3) readFrom_block [OF _ _ st(4-6) v] e(2)
    by (simp add: wr_readPackHeader_def f deref_def read_out_def end_block_def)
qed

lemma io_size_bytes:
  "lr_io_size r \<le> 65535 \<Longrightarrow> unat (lr_io_size r * LOGICAL_BLOCK_SIZE) = 512 * unat (lr_io_size r)"
  by (subst unat_mult_small) (simp_all add: LOGICAL_BLOCK_SIZE_def word_le_nat_alt)

lemma rec_pb_bytes:
  assumes "pbs_ok pbs" and "\<not> isDiscard r"
  shows "512 * unat (lr_io_size r) \<le> rec_pb pbs r * unat pbs"
proof -
  define q where "q = unat pbs div 512"
  have q: "0 < q" "unat pbs = 512 * q" using assms(1) by (auto simp: pbs_ok_def is_valid_pbs_iff q_def)
  have "(unat (lr_io_size r) + q - 1) mod q < q" using q(1) by simp
  moreover have "(unat (lr_io_size r) + q - 1) div q * q + (unat (lr_io_size r) + q - 1) mod q = unat (lr_io_size r) + q - 1" by simp
  ultimately have "unat (lr_io_size r) \<le> (unat (lr_io_size r) + q - 1) div q * q" using q(1) by linarith
  then show ?thesis using assms(2) by (simp add: rec_pb_def q_def [symmetric] q(2))
qed

lemma readLogIo_ok:
  assumes "pack_repr pbs h rs" and "pbs_ok pbs" and "i < length rs" and "hasData (rs ! i)" and "data_ok pbs salt (rs ! i) io"
  shows "readLogIo (io @ rest) \<lparr>lp_header = Some h, lp_pbs = pbs, lp_salt = salt\<rparr> i data = Inr (True, io, rest)"
proof -
  let ?r = "rs ! i"
  note d = pack_reprD [OF assms(1)]
  have r: "record_at h i = Inr ?r"
    using pack_repr_nth [OF assms(1,3)] pack_repr_length [OF assms(1)] assms(3) d(2) by (simp add: record_at_ok)
  have nd: "\<not> isDiscard ?r" "isExist ?r" using assms(4) by (simp_all add: hasData_def)
  have sh: "rec_shape ?r" using layout_shapes [OF d(3)] assms(3) by simp
  have sz: "lr_io_size ?r \<le> 65535" using sh nd by (simp add: rec_shape_def)
  obtain c where c: "capacity_pb pbs (ucast (lr_io_size ?r)) = Inr c" "unat c = rec_pb pbs ?r"
    using rec_pb_capacity [of pbs ?r] assms(2) nd(1) by (auto simp: pbs_ok_def)
  have "blocks pbs [?r] \<le> blocks pbs rs"
    using assms(3) by (metis blocks_simps blocks_take_le id_take_nth_drop le_add1 le_add2 le_trans add_0_right append_Cons append_Nil)
  then have le: "rec_pb pbs ?r \<le> 65535" using d(4) unat_lt16 [of "lh_total_io_size h"] by simp
  then have "unat (ucast c :: u32) = rec_pb pbs ?r" using c(2) by (subst unat_ucast_64_32) simp_all
  then have pb: "ioSizePb pbs ?r = Inr (ucast c)" "unat (ucast c :: u32) * unat pbs = length io"
    using c(1) assms(5) by (simp_all add: ioSizePb_def data_ok_def)
  have len: "512 * unat (lr_io_size ?r) \<le> length io" using rec_pb_bytes [OF assms(2) nd(1)] assms(5) by (simp add: data_ok_def)
  show ?thesis
    using r assms(4,5) pb nd len
    by (auto simp: readLogIo_def deref_def Let_def hasDataForChecksum_def data_ok_def io_size_bytes [OF sz])
qed

text \<open>One log: the record, with its data when it has any; otherwise the buffer stays as it is.\<close>

definition log_step :: "wlog_reader \<Rightarrow> walb_log_record \<times> u8 list \<Rightarrow> wlog_reader \<Rightarrow> bool" where
  "log_step r x r' \<longleftrightarrow> (\<forall>d. \<exists>i. readLog d r = Inr (Some (fst x, if hasData (fst x) then snd x else d, i), r'))"

lemma readLog_rec:
  assumes "reading pbs salt r (x # rs) ios ps tail"
  shows "\<exists>r'. log_step r (x, if hasData x then hd ios else []) r'
    \<and> reading pbs salt r' rs (if hasData x then tl ios else ios) ps tail \<and> wr_endLsid r' = wr_endLsid r"
proof -
  obtain h rs0 where h: "lp_header (wr_packH r) = Some h" "pack_repr pbs h rs0" "x # rs = drop (unat (wr_recIdx r)) rs0"
    "wr_isBegun r" "unat (wr_recIdx r) \<le> length rs0" using assms by (auto simp: reading_def split: if_splits)
  have st: "wr_isReadHeader r" "\<not> wr_isEnd r" "pbs_ok pbs" "lp_pbs (wr_packH r) = pbs" "lp_salt (wr_packH r) = salt"
    "wr_file r = concat ios @ concat (map wpack_image ps) @ end_block pbs salt @ tail"
    "ios_ok pbs salt (x # rs) ios" "wpacks_ok pbs salt (wr_endLsid r) ps"
    using assms by (simp_all add: reading_def)
  let ?i = "wr_recIdx r"
  have i: "unat ?i < length rs0" using h(3) by (metis drop_all list.distinct(1) not_le)
  have x: "rs0 ! unat ?i = x" "rs = drop (Suc (unat ?i)) rs0" using h(3) i by (simp_all add: Cons_nth_drop_Suc [symmetric])
  have rec: "record_at h (unat ?i) = Inr x"
    using pack_repr_nth [OF h(2) i] pack_repr_length [OF h(2)] i pack_reprD(2) [OF h(2)] x(1) by (simp add: record_at_ok)
  have P: "wr_packH r = \<lparr>lp_header = Some h, lp_pbs = pbs, lp_salt = salt\<rparr>" using h(1) st(4,5) by (cases "wr_packH r") simp
  have "unat ?i + 1 < 65536" using i pack_repr_length [OF h(2)] unat_lt16 [of "lh_n_records h"] by linarith
  then have i1: "unat (?i + 1) = unat ?i + 1" by (subst unat_add_small) simp_all
  have read: "reading pbs salt (r\<lparr>wr_file := concat ios' @ concat (map wpack_image ps) @ end_block pbs salt @ tail, wr_recIdx := ?i + 1\<rparr>)
      rs ios' ps tail" if "ios_ok pbs salt rs ios'" for ios'
    using st h i i1 x(2) that by (auto simp: reading_def)
  show ?thesis
  proof (cases "hasData x")
    case True
    then obtain io ios' where io: "ios = io # ios'" "data_ok pbs salt x io" "ios_ok pbs salt rs ios'"
      using st(7) by (cases ios) auto
    let ?r = "r\<lparr>wr_file := concat ios' @ concat (map wpack_image ps) @ end_block pbs salt @ tail, wr_recIdx := ?i + 1\<rparr>"
    have "readLogIo (wr_file r) (wr_packH r) (unat ?i) d = Inr (True, io, concat ios' @ concat (map wpack_image ps) @ end_block pbs salt @ tail)" for d
      unfolding st(6) P io(1) using readLogIo_ok [OF h(2) st(3) i] True io(2) x(1) by simp
    then have "readLog d r = Inr (Some (x, io, ?i), ?r)" for d
      using fetch_same [OF assms] rec P by (simp add: readLog_def deref_def)
    then show ?thesis using True io read [OF io(3)] by (intro exI [of _ ?r]) (simp add: log_step_def)
  next
    case False
    let ?r = "r\<lparr>wr_file := wr_file r, wr_recIdx := ?i + 1\<rparr>"
    have "readLogIo (wr_file r) (wr_packH r) (unat ?i) d = Inr (True, d, wr_file r)" for d
      using False rec P by (simp add: readLogIo_def deref_def)
    then have "readLog d r = Inr (Some (x, d, ?i), ?r)" for d
      using fetch_same [OF assms] rec P by (simp add: readLog_def deref_def)
    then show ?thesis using False read [of ios] st(6,7) by (intro exI [of _ ?r]) (simp add: log_step_def)
  qed
qed

lemma readLog_pack:
  assumes "reading pbs salt r [] ios (p # ps) tail"
  shows "\<exists>r'. reading pbs salt r' (pack_records (fst p)) (snd p) ps tail \<and> wr_endLsid r' = next_lsid p
    \<and> (\<forall>x r''. log_step r' x r'' \<longrightarrow> log_step r x r'')"
proof -
  obtain r' where r': "fetchNextPackHeader r = Inr (True, r')" "reading pbs salt r' (pack_records (fst p)) (snd p) ps tail"
    "wr_endLsid r' = next_lsid p" using fetch_pack [OF assms] by blast
  have "wpack_ok pbs salt (wr_endLsid r) p" using assms by (simp add: reading_def)
  then have "pack_records (fst p) \<noteq> []" by (simp add: wpack_ok_def)
  then obtain y ys where "pack_records (fst p) = y # ys" by (cases "pack_records (fst p)") auto
  then have "fetchNextPackHeader r' = Inr (True, r')" using r'(2) fetch_same by simp
  then have "readLog d r = readLog d r'" for d using r'(1) by (simp add: readLog_def)
  then have "\<forall>x r''. log_step r' x r'' \<longrightarrow> log_step r x r''" by (simp add: log_step_def)
  then show ?thesis using r'(2,3) by blast
qed

text \<open>The logs that a reader gives until it reports the end.\<close>

fun yields :: "wlog_reader \<Rightarrow> (walb_log_record \<times> u8 list) list \<Rightarrow> wlog_reader \<Rightarrow> bool" where
  "yields r [] r' = (\<forall>d. readLog d r = Inr (None, r'))"
| "yields r (x # xs) r' = (\<exists>r1. log_step r x r1 \<and> yields r1 xs r')"

lemma reading_yields:
  assumes "reading pbs salt r rs ios ps tail"
  shows "\<exists>r'. yields r (logs rs ios @ concat (map pack_logs ps)) r' \<and> read_out (end_lsid (wr_endLsid r) ps) tail r'"
  using assms
proof (induction "length rs + length (concat (map (\<lambda>p. pack_records (fst p)) ps)) + length ps" arbitrary: r rs ios ps rule: less_induct)
  case less
  show ?case
  proof (cases rs)
    case (Cons x rs')
    obtain r1 where r1: "log_step r (x, if hasData x then hd ios else []) r1"
      "reading pbs salt r1 rs' (if hasData x then tl ios else ios) ps tail" "wr_endLsid r1 = wr_endLsid r"
      using readLog_rec less.prems Cons by blast
    obtain r' where "yields r1 (logs rs' (if hasData x then tl ios else ios) @ concat (map pack_logs ps)) r'"
      "read_out (end_lsid (wr_endLsid r1) ps) tail r'" using less.hyps [OF _ r1(2)] Cons by auto
    then show ?thesis using r1(1,3) Cons by (intro exI [of _ r']) auto
  next
    case Nil
    note nil = this
    show ?thesis
    proof (cases ps)
      case Nil
      obtain r' where r': "fetchNextPackHeader r = Inr (False, r')" "read_out (wr_endLsid r) tail r'"
        using fetch_end less.prems nil Nil by blast
      then have "readLog d r = Inr (None, r')" for d by (simp add: readLog_def)
      then show ?thesis using r'(2) nil Nil by auto
    next
      case (Cons p ps')
      obtain r1 where r1: "reading pbs salt r1 (pack_records (fst p)) (snd p) ps' tail" "wr_endLsid r1 = next_lsid p"
        "\<forall>x r''. log_step r1 x r'' \<longrightarrow> log_step r x r''" using readLog_pack less.prems nil Cons by blast
      obtain r' where r': "yields r1 (pack_logs p @ concat (map pack_logs ps')) r'"
        "read_out (end_lsid (wr_endLsid r1) ps') tail r'" using less.hyps [OF _ r1(1)] nil Cons by (auto simp: pack_logs_def)
      have "wpack_ok pbs salt (wr_endLsid r) p" using less.prems Cons by (simp add: reading_def)
      then obtain y ys where "pack_logs p = y # ys"
        by (cases "pack_logs p"; cases "pack_records (fst p)") (simp_all add: wpack_ok_def pack_logs_def split: if_splits)
      then have "yields r (pack_logs p @ concat (map pack_logs ps')) r'" using r'(1) r1(3) by (cases y) auto
      then show ?thesis using r'(2) r1(2) nil Cons by (auto simp: pack_logs_def)
    qed
  qed
qed

section \<open>Whole wlogs\<close>

definition wlog_ok :: "u8 list \<Rightarrow> wlog_pack list \<Rightarrow> bool" where
  "wlog_ok fileH ps \<longleftrightarrow> wlog_isValid fileH False = Inr True \<and> length fileH = 4096
     \<and> pbs_ok (wh_physical_bs (wlog_header_of fileH))
     \<and> wpacks_ok (wh_physical_bs (wlog_header_of fileH)) (wh_log_checksum_salt (wlog_header_of fileH))
         (wh_begin_lsid (wlog_header_of fileH)) ps"

definition wlog_image :: "u8 list \<Rightarrow> wlog_pack list \<Rightarrow> u8 list" where
  "wlog_image fileH ps = wlog_sealed fileH @ concat (map wpack_image ps)
     @ end_block (wh_physical_bs (wlog_header_of fileH)) (wh_log_checksum_salt (wlog_header_of fileH))"

definition wlog_logs :: "wlog_pack list \<Rightarrow> (walb_log_record \<times> u8 list) list" where
  "wlog_logs ps = concat (map pack_logs ps)"

lemma sealed_header_fields:
  assumes "length fileH = 4096"
  shows "wlog_header_of (wlog_sealed fileH) = wlog_header_of fileH\<lparr>wh_checksum := wh_checksum (wlog_header_of (wlog_sealed fileH))\<rparr>"
proof -
  have ok: "wlog_block_ok fileH" using assms by (simp add: wlog_block_ok_def)
  show ?thesis using wlog_header_ok_of [OF ok] by (simp add: wlog_sealed_def wlog_header_of_set)
qed

lemma sealed_header_sel:
  assumes "length fileH = 4096"
  shows "wh_physical_bs (wlog_header_of (wlog_sealed fileH)) = wh_physical_bs (wlog_header_of fileH)"
    and "wh_log_checksum_salt (wlog_header_of (wlog_sealed fileH)) = wh_log_checksum_salt (wlog_header_of fileH)"
    and "wh_begin_lsid (wlog_header_of (wlog_sealed fileH)) = wh_begin_lsid (wlog_header_of fileH)"
    and "wh_end_lsid (wlog_header_of (wlog_sealed fileH)) = wh_end_lsid (wlog_header_of fileH)"
    and "wh_uuid (wlog_header_of (wlog_sealed fileH)) = wh_uuid (wlog_header_of fileH)"
    and "wh_sector_type (wlog_header_of (wlog_sealed fileH)) = wh_sector_type (wlog_header_of fileH)"
    and "wh_version (wlog_header_of (wlog_sealed fileH)) = wh_version (wlog_header_of fileH)"
  by (subst sealed_header_fields [OF assms], simp)+

text \<open>The writer writes the image of the wlog.\<close>

lemma wlog_written:
  assumes "wlog_ok fileH ps"
  shows "\<exists>w1 w2 w3. ww_writeHeader fileH (ww_new out) = Inr (wlog_sealed fileH, w1) \<and> write_packs ps w1 = Inr w2
    \<and> ww_close w2 = Inr w3 \<and> ww_file w3 = out @ wlog_image fileH ps
    \<and> ww_lsid w2 = end_lsid (wh_begin_lsid (wlog_header_of fileH)) ps"
proof -
  let ?h = "wlog_header_of fileH"
  have l: "length fileH = 4096" and v: "wlog_isValid fileH False = Inr True" and p: "pbs_ok (wh_physical_bs ?h)"
    and ps: "wpacks_ok (wh_physical_bs ?h) (wh_log_checksum_salt ?h) (wh_begin_lsid ?h) ps"
    using assms by (simp_all add: wlog_ok_def)
  have ok: "wlog_block_ok fileH" using l by (simp add: wlog_block_ok_def)
  let ?w1 = "(ww_new out)\<lparr>ww_file := out @ wlog_sealed fileH, ww_isWrittenHeader := True, ww_pbs := wh_physical_bs ?h,
    ww_salt := wh_log_checksum_salt ?h, ww_beginLsid := wh_begin_lsid ?h, ww_lsid := wh_begin_lsid ?h\<rparr>"
  have "ww_writeHeader fileH (ww_new out) = Inr (wlog_sealed fileH, ?w1)"
    using v by (simp add: ww_writeHeader_def wlog_writeTo_def wlog_updateChecksum_ok [OF ok] sealed_header_sel [OF l] ww_new_def)
  moreover have "write_packs ps ?w1 = Inr (?w1\<lparr>ww_file := ww_file ?w1 @ concat (map wpack_image ps),
      ww_lsid := end_lsid (ww_lsid ?w1) ps\<rparr>)" (is "_ = Inr ?w2")
    by (rule write_packs_ok) (use ps in simp_all)
  moreover have "ww_close ?w2 = Inr (?w2\<lparr>ww_file := ww_file ?w2 @ end_block (wh_physical_bs ?h) (wh_log_checksum_salt ?h),
      ww_isClosed := True\<rparr>)"
    using writeEof_ok [of ?w2] p by (simp add: ww_close_def ww_new_def)
  ultimately show ?thesis by (auto simp: wlog_image_def)
qed

text \<open>The reader accepts the image, whatever follows it.\<close>

lemma wlog_opens:
  assumes "wlog_ok fileH ps" and "length data = 4096"
  shows "\<exists>r. wr_readHeader data (wr_new (wlog_image fileH ps @ tail)) = Inr (wlog_sealed fileH, r)
    \<and> reading (wh_physical_bs (wlog_header_of fileH)) (wh_log_checksum_salt (wlog_header_of fileH)) r [] [] ps tail
    \<and> wr_endLsid r = wh_begin_lsid (wlog_header_of fileH)"
proof -
  let ?h = "wlog_header_of fileH"
  have l: "length fileH = 4096" and v: "wlog_isValid fileH False = Inr True" and p: "pbs_ok (wh_physical_bs ?h)"
    and ps: "wpacks_ok (wh_physical_bs ?h) (wh_log_checksum_salt ?h) (wh_begin_lsid ?h) ps"
    using assms by (simp_all add: wlog_ok_def)
  have ok: "wlog_block_ok fileH" using l by (simp add: wlog_block_ok_def)
  note s = wlog_sealed_facts [OF ok]
  have "wlog_isValid (wlog_sealed fileH) True = Inr True"
    using v s(1,2) by (auto simp: wlog_isValid_def Let_def sealed_header_sel [OF l] wlog_calcChecksum_ok split: if_splits)
  moreover have "length (wlog_sealed fileH) = 4096" using s(1) by (simp add: wlog_block_ok_def)
  ultimately have "wlog_readFrom (wlog_image fileH ps @ tail) data
      = Inr (wlog_sealed fileH, concat (map wpack_image ps) @ end_block (wh_physical_bs ?h) (wh_log_checksum_salt ?h) @ tail)"
    using assms(2) by (simp add: wlog_readFrom_def wlog_verify_def wlog_image_def)
  then show ?thesis using p ps
    by (simp add: wr_readHeader_def wr_new_def sealed_header_sel [OF l] reading_def pack_init_def)
qed

lemma logs_bare: "x \<in> set (logs rs ios) \<Longrightarrow> \<not> hasData (fst x) \<Longrightarrow> snd x = []"
  by (induction rs arbitrary: ios) (auto split: if_splits)

lemma wlog_logs_bare: "x \<in> set (wlog_logs ps) \<Longrightarrow> \<not> hasData (fst x) \<Longrightarrow> snd x = []"
  using logs_bare by (fastforce simp: wlog_logs_def pack_logs_def)

text \<open>Reading to the end. The data of a record without data is not part of the result.\<close>

function read_logs :: "u8 list \<Rightarrow> wlog_reader \<Rightarrow> ((walb_log_record \<times> u8 list) list \<times> wlog_reader) res" where
  "read_logs data r =
     res_bind (readLog data r) (\<lambda>(x, r1).
       case x of
         None \<Rightarrow> Inr ([], r1)
       | Some (rec, data1, i) \<Rightarrow>
           res_bind (read_logs data1 r1) (\<lambda>(xs, r2). Inr ((rec, if hasData rec then data1 else []) # xs, r2)))"
  by pat_completeness auto
termination
  by (relation "inv_image reader_measure snd") (auto simp: wf_reader_measure dest: readLog_decreases)

declare read_logs.simps [simp del]

lemma yields_read_logs:
  assumes "yields r xs r'" and "\<forall>x \<in> set xs. \<not> hasData (fst x) \<longrightarrow> snd x = []"
  shows "read_logs d r = Inr (xs, r')"
  using assms
proof (induction xs arbitrary: d r)
  case Nil
  then show ?case by (subst read_logs.simps) simp
next
  case (Cons x xs)
  obtain r1 where r1: "log_step r x r1" "yields r1 xs r'" using Cons.prems(1) by auto
  obtain i where "readLog d r = Inr (Some (fst x, if hasData (fst x) then snd x else d, i), r1)" using r1(1) by (auto simp: log_step_def)
  moreover have "read_logs (if hasData (fst x) then snd x else d) r1 = Inr (xs, r')" using Cons.IH [OF r1(2)] Cons.prems(2) by simp
  ultimately show ?case using Cons.prems(2) by (subst read_logs.simps) (cases x, auto)
qed

text \<open>
  C11: A wlog that is written, with its header, any consecutive packs and the end block, is read
  back from a longer file: the reader gets the header, every record with its data in order, then the end, and
  after that the lsid where the writer stopped and the bytes that follow the wlog.
\<close>

theorem wlog_write_read:
  assumes "wlog_ok fileH ps" and "length data = 4096"
  shows "\<exists>fileH1 w1 w2 w3 r r1. ww_writeHeader fileH (ww_new []) = Inr (fileH1, w1) \<and> write_packs ps w1 = Inr w2
    \<and> ww_close w2 = Inr w3 \<and> wr_readHeader data (wr_new (ww_file w3 @ tail)) = Inr (fileH1, r)
    \<and> read_logs [] r = Inr (wlog_logs ps, r1) \<and> wr_getEndLsid r1 = Inr (ww_lsid w2, r1) \<and> wr_file r1 = tail"
proof -
  obtain w1 w2 w3 where w: "ww_writeHeader fileH (ww_new []) = Inr (wlog_sealed fileH, w1)" "write_packs ps w1 = Inr w2"
    "ww_close w2 = Inr w3" "ww_file w3 = wlog_image fileH ps" "ww_lsid w2 = end_lsid (wh_begin_lsid (wlog_header_of fileH)) ps"
    using wlog_written [OF assms(1), of "[]"] by auto
  obtain r where r: "wr_readHeader data (wr_new (ww_file w3 @ tail)) = Inr (wlog_sealed fileH, r)"
    "reading (wh_physical_bs (wlog_header_of fileH)) (wh_log_checksum_salt (wlog_header_of fileH)) r [] [] ps tail"
    "wr_endLsid r = wh_begin_lsid (wlog_header_of fileH)" using wlog_opens [OF assms] w(4) by auto
  obtain r1 where r1: "yields r (wlog_logs ps) r1" "read_out (end_lsid (wr_endLsid r) ps) tail r1"
    using reading_yields [OF r(2)] by (auto simp: wlog_logs_def)
  have "read_logs [] r = Inr (wlog_logs ps, r1)" using yields_read_logs [OF r1(1)] wlog_logs_bare by blast
  moreover have "wr_getEndLsid r1 = Inr (ww_lsid w2, r1)" "wr_file r1 = tail"
    using r1(2) w(5) r(3) by (simp_all add: read_out_def wr_getEndLsid_def fetchNextPackHeader_def)
  ultimately show ?thesis using w(1-3) r(1) by blast
qed

text \<open>A wlog with one pack: a write of one logical block at 0 and a discard.\<close>

definition sample_log_recs :: "u8 list \<Rightarrow> walb_log_record list" where
  "sample_log_recs io = [(sample_rec 1 0 1 1)\<lparr>lr_checksum := calcChecksum (take 512 io) 7\<rparr>, sample_rec 5 10 8 2]"

definition sample_log_header :: "u32 \<Rightarrow> u8 list \<Rightarrow> walb_logpack_header" where
  "sample_log_header pbs io = \<lparr>lh_checksum = 0, lh_sector_type = 3, lh_total_io_size = 1,
     lh_logpack_lsid = 100, lh_n_records = 2, lh_n_padding = 0, lh_reserved1 = 0,
     lh_record = sample_log_recs io @ replicate ((unat pbs - 24) div 32 - 2) record_clear,
     lh_rest = replicate ((unat pbs - 24) mod 32) 0\<rparr>"

definition sample_wpack :: "u32 \<Rightarrow> u8 list \<Rightarrow> wlog_pack" where
  "sample_wpack pbs io =
     (case pack_updateChecksum \<lparr>lp_header = Some (sample_log_header pbs io), lp_pbs = pbs, lp_salt = 7\<rparr> of
        Inr p \<Rightarrow> (p, [io]) | Inl e \<Rightarrow> (pack_init pbs 7, []))"

definition sample_wlog_header :: "u32 \<Rightarrow> u8 list" where
  "sample_wlog_header pbs = wlog_init pbs 7 (replicate 16 3) 100 200 wlog_new"

lemma sample_log_flags:
  "isExist (r\<lparr>lr_checksum := c\<rparr>) = isExist r" "isPadding (r\<lparr>lr_checksum := c\<rparr>) = isPadding r"
  "isDiscard (r\<lparr>lr_checksum := c\<rparr>) = isDiscard r" "hasData (r\<lparr>lr_checksum := c\<rparr>) = hasData r"
  by (simp_all add: isExist_def isPadding_def isDiscard_def hasData_def)

lemma sample_wlog_ok:
  assumes "pbs = 512 \<or> pbs = 4096" and "length io = unat pbs"
  shows "wlog_ok (sample_wlog_header pbs) [sample_wpack pbs io]"
    and "wlog_logs [sample_wpack pbs io] = zip (sample_log_recs io) [io, []]"
    and "wlog_header_of (sample_wlog_header pbs) = \<lparr>wh_sector_type = 4, wh_version = 2, wh_header_size = 4096, wh_reserved1 = 0,
      wh_checksum = 0, wh_log_checksum_salt = 7, wh_logical_bs = 512, wh_physical_bs = pbs, wh_uuid = replicate 16 3,
      wh_begin_lsid = 100, wh_end_lsid = 200\<rparr>"
proof -
  let ?rs = "sample_log_recs io" and ?h = "sample_log_header pbs io"
  let ?lp = "\<lparr>lp_header = Some ?h, lp_pbs = pbs, lp_salt = 7\<rparr>"
  have p: "is_valid_pbs pbs" "unat pbs \<le> 2097152" "2 \<le> (unat pbs - 24) div 32"
    "(1 + unat pbs div 512 - 1) div (unat pbs div 512) = 1"
    using assms(1) by (auto simp: is_valid_pbs_iff)
  have hd: "hasData (sample_rec 1 0 1 1)" "\<not> hasData (sample_rec 5 10 8 2)"
    by (simp_all add: hasData_def sample_rec_flags)
  have rp: "rec_pb pbs (?rs ! 0) = 1" "rec_pb pbs (?rs ! 1) = 0"
    using p(4) by (simp_all add: sample_log_recs_def rec_pb_def sample_log_flags sample_rec_flags sample_rec_sel)
  have "layout pbs 100 1 ?rs" "blocks pbs ?rs = 1" "paddings ?rs = 0"
    using rp by (simp_all add: sample_log_recs_def rec_shape_def sample_log_flags sample_rec_flags sample_rec_sel word_le_nat_alt)
  moreover have "length ?rs = 2" by (simp add: sample_log_recs_def)
  ultimately have repr: "pack_repr (lp_pbs ?lp) ?h ?rs"
    using p(1-3) by (simp add: pack_repr_def pack_frame_def sample_log_header_def SECTOR_TYPE_LOGPACK_def)
  have h: "lp_header ?lp = Some ?h" by simp
  obtain c where c: "pack_updateChecksum ?lp = Inr (set_header (?h\<lparr>lh_checksum := c\<rparr>) ?lp)"
    "pack_isValid (set_header (?h\<lparr>lh_checksum := c\<rparr>) ?lp) True = Inr True" "pack_repr (lp_pbs ?lp) (?h\<lparr>lh_checksum := c\<rparr>) ?rs"
    by (rule pack_updateChecksum_ok [OF h repr])
  have w: "sample_wpack pbs io = (set_header (?h\<lparr>lh_checksum := c\<rparr>) ?lp, [io])" using c(1) by (simp add: sample_wpack_def)
  have rs: "pack_records (fst (sample_wpack pbs io)) = ?rs"
    using pack_reprD(7) [OF c(3)] by (simp add: w pack_records_def set_header_def)
  have ios: "ios_ok pbs 7 ?rs [io]"
    using rp(1) assms(2) hd by (simp add: sample_log_recs_def data_ok_def sample_log_flags sample_rec_flags sample_rec_sel)
  have "?rs \<noteq> []" "lh_logpack_lsid ?h = 100" by (simp_all add: sample_log_recs_def sample_log_header_def)
  then have "wpack_ok pbs 7 100 (sample_wpack pbs io)"
    unfolding wpack_ok_def rs using ios c(2,3) by (simp add: w pack_ok_def set_header_def pack_header_def)
  moreover show hdr: "wlog_header_of (sample_wlog_header pbs) = \<lparr>wh_sector_type = 4, wh_version = 2, wh_header_size = 4096,
      wh_reserved1 = 0, wh_checksum = 0, wh_log_checksum_salt = 7, wh_logical_bs = 512, wh_physical_bs = pbs,
      wh_uuid = replicate 16 3, wh_begin_lsid = 100, wh_end_lsid = 200\<rparr>"
    by (simp add: sample_wlog_header_def wlog_init_header)
  ultimately show "wlog_ok (sample_wlog_header pbs) [sample_wpack pbs io]"
    using p(1,2) by (simp add: wlog_ok_def wlog_isValid_def SECTOR_TYPE_WALBLOG_HEADER_def WALB_LOG_VERSION_def pbs_ok_def)
       (simp add: sample_wlog_header_def wlog_init_header(2))
  show "wlog_logs [sample_wpack pbs io] = zip ?rs [io, []]"
    using hd by (simp add: wlog_logs_def pack_logs_def rs) (simp add: w sample_log_recs_def sample_log_flags)
qed

theorem wlog_write_read_witness:
  "\<exists>fileH1 w1 w2 w3 r r1. ww_writeHeader (sample_wlog_header 4096) (ww_new []) = Inr (fileH1, w1)
    \<and> write_packs [sample_wpack 4096 (replicate 4096 7)] w1 = Inr w2
    \<and> ww_close w2 = Inr w3 \<and> wr_readHeader wlog_new (wr_new (ww_file w3 @ [1, 2])) = Inr (fileH1, r)
    \<and> read_logs [] r = Inr (wlog_logs [sample_wpack 4096 (replicate 4096 7)], r1)
    \<and> wr_getEndLsid r1 = Inr (ww_lsid w2, r1) \<and> wr_file r1 = [1, 2]"
  by (rule wlog_write_read [OF sample_wlog_ok(1)]) simp_all

end
