(* ===== verification/Diff_Convert_Laws.thy ===== *)
theory Diff_Convert_Laws
  imports Diff_Convert Wlog_File_Laws Merge_Files
begin

text \<open>
  Converting wlogs gives a wdiff whose contents are those of the logged IOs, each one overwriting the
  earlier ones; padding is dropped, discards and all-zero writes are kept as such. The result is a wdiff
  in the sense of \<open>Merge_Files\<close>, so it can be merged and scanned. Where \<open>DiffConverter\<close> does not handle
  a log, whose data is padded to a physical block, a theorem shows what happens.
\<close>

section \<open>Zero data\<close>

lemma allZero_bytes_iff: "allZero_bytes p \<longleftrightarrow> (\<forall>x \<in> set p. x = 0)"
  by (induction p) auto

lemma le_val_zero: "le_val p = 0 \<longleftrightarrow> (\<forall>x \<in> set p. x = 0)"
  by (induction p) (auto simp: unat_eq_0)

lemma le_val_less: "le_val p < 256 ^ length p"
proof (induction p)
  case (Cons b p)
  have "unat b < 256" by simp
  moreover have "256 * (le_val p + 1) \<le> 256 * 256 ^ length p" using Cons by (intro mult_le_mono2) simp
  ultimately show ?case by (simp del: unat_lt8)
qed simp

lemma allZero_words_iff: "allZero_words p \<longleftrightarrow> (\<forall>x \<in> set p. x = 0)"
proof (induction p rule: allZero_words.induct)
  case (1 p)
  show ?case
  proof (cases "8 \<le> length p")
    case True
    have "le_val (take 8 p) < 256 ^ 8" using le_val_less [of "take 8 p"] True by (simp add: min_absorb2)
    then have "(le_load (take 8 p) :: u64) = 0 \<longleftrightarrow> le_val (take 8 p) = 0"
      by (simp add: le_load_def word_unat_eq_iff unat_of_nat)
    then have w: "(le_load (take 8 p) :: u64) = 0 \<longleftrightarrow> (\<forall>x \<in> set (take 8 p). x = 0)" by (simp add: le_val_zero)
    have s: "set p = set (take 8 p) \<union> set (drop 8 p)" using set_append [of "take 8 p" "drop 8 p"] by simp
    show ?thesis
    proof (cases "(le_load (take 8 p) :: u64) = 0")
      case z: True
      then show ?thesis using 1 [OF True] True w s by (subst allZero_words.simps) auto
    next
      case False
      then show ?thesis using True w s by (subst allZero_words.simps) auto
    qed
  qed (subst allZero_words.simps, simp add: allZero_bytes_iff)
qed

section \<open>The contents of a log\<close>

definition io_data :: "walb_log_record \<times> u8 list \<Rightarrow> u8 list" where
  "io_data x = take (512 * unat (lr_io_size (fst x))) (snd x)"

definition zero_data :: "u8 list \<Rightarrow> bool" where
  "zero_data p \<longleftrightarrow> p = replicate (length p) 0"

lemma zero_data_iff: "zero_data p \<longleftrightarrow> (\<forall>x \<in> set p. x = 0)"
  by (simp add: zero_data_def replicate_eqI [symmetric] eq_commute [of p] replicate_length_same) (metis in_set_replicate replicate_length_same)

definition log_view :: "walb_log_record \<times> u8 list \<Rightarrow> nat \<Rightarrow> diff_block option" where
  "log_view x a =
     (let b = unat (lr_offset (fst x)) in
      if isPadding (fst x) \<or> \<not> (b \<le> a \<and> a < b + unat (lr_io_size (fst x))) then None
      else Some (if isDiscard (fst x) then Discard_Block
        else if zero_data (io_data x) then Zero_Block
        else Data_Block (take 512 (drop (512 * (a - b)) (io_data x)))))"

text \<open>What the records of a pack satisfy, and an address range that does not wrap.\<close>

definition log_ok :: "walb_log_record \<times> u8 list \<Rightarrow> bool" where
  "log_ok x \<longleftrightarrow> rec_shape (fst x) \<and> unat (lr_offset (fst x)) + unat (lr_io_size (fst x)) < 2 ^ 64
     \<and> (hasData (fst x) \<longrightarrow> 512 * unat (lr_io_size (fst x)) \<le> length (snd x))"

lemma hasData_shape: "rec_shape r \<Longrightarrow> hasData r \<longleftrightarrow> \<not> isDiscard r"
  by (simp add: hasData_def rec_shape_def)

lemma io_data_length: "log_ok x \<Longrightarrow> hasData (fst x) \<Longrightarrow> length (io_data x) = 512 * unat (lr_io_size (fst x))"
  by (simp add: io_data_def log_ok_def)

lemma util_isAllZero_ok:
  assumes "log_ok x" and "hasData (fst x)"
  shows "util_isAllZero (snd x) (unat (lr_io_size (fst x) * LOGICAL_BLOCK_SIZE)) = Inr (zero_data (io_data x))"
proof -
  have "lr_io_size (fst x) \<le> 65535" using assms by (auto simp: log_ok_def rec_shape_def hasData_def)
  then show ?thesis using assms
    by (simp add: util_isAllZero_def io_size_bytes log_ok_def io_data_def allZero_words_iff zero_data_iff)
qed

section \<open>DiffConverter\<close>

lemma mem_uncount_fileH [simp]: "mem_fileH (mem_uncount q dm) = mem_fileH dm"
  by (induction q arbitrary: dm) simp_all

lemma mem_put_fileH [simp]: "mem_fileH (mem_put v dm) = mem_fileH dm"
  by (induction v arbitrary: dm) simp_all

lemma mem_eliminate_fileH: "mem_eliminate r0 q dm = Inr dm' \<Longrightarrow> mem_fileH dm' = mem_fileH dm"
  by (induction q arbitrary: dm) (auto simp: res_bind_Inr_iff)

lemma mem_add_fileH: "mem_add rec buf dm = Inr dm' \<Longrightarrow> mem_fileH dm' = mem_fileH dm"
  by (auto simp: mem_add_def Let_def res_bind_Inr_iff split: prod.splits dest!: mem_eliminate_fileH)

lemmas diff_flags = rec_isNormal_def rec_isAllZero_def rec_isDiscard_def rec_setAllZero_def rec_setDiscard_def
  DiffRecord_init_def WALB_DIFF_FLAG_ALLZERO_def WALB_DIFF_FLAG_DISCARD_def

text \<open>
  Data, not all zero, that is longer than the blocks of its record: the rest of a physical block
  follows. \<open>DiffConverter\<close> hands it on as it is.
\<close>

definition padded_data :: "walb_log_record \<times> u8 list \<Rightarrow> bool" where
  "padded_data x \<longleftrightarrow> hasData (fst x) \<and> \<not> isPadding (fst x) \<and> \<not> zero_data (io_data x)
     \<and> length (snd x) \<noteq> 512 * unat (lr_io_size (fst x))"

definition convertible :: "walb_log_record \<times> u8 list \<Rightarrow> bool" where
  "convertible x \<longleftrightarrow> log_ok x \<and> \<not> padded_data x"

lemma convertLogToDiff_ok:
  assumes "convertible x" and "\<not> isPadding (fst x)"
  shows "\<exists>drec. (\<forall>d. convertLogToDiff (fst x) (if hasData (fst x) then snd x else d) = Inr (Some drec))
    \<and> rio_ok (add_arg drec (snd x)) \<and> io_view (add_arg drec (snd x)) = log_view x
    \<and> dr_io_blocks drec = lr_io_size (fst x) \<and> (rec_isNormal drec \<longrightarrow> hasData (fst x))"
proof -
  let ?r = "fst x"
  let ?d = "DiffRecord_init\<lparr>dr_io_address := lr_offset ?r, dr_io_blocks := lr_io_size ?r\<rparr>"
  have lo: "log_ok x" using assms(1) by (simp add: convertible_def)
  have sh: "rec_shape ?r" "unat (lr_offset ?r) + unat (lr_io_size ?r) < 18446744073709551616" "0 < unat (lr_io_size ?r)"
    "lr_io_size ?r \<noteq> 0"
    using lo assms(2) by (auto simp: log_ok_def rec_shape_def unat_gt_0)
  note hd = hasData_shape [OF sh(1)]
  consider "isDiscard ?r" | "hasData ?r" "zero_data (io_data x)" | "hasData ?r" "\<not> zero_data (io_data x)" using hd by blast
  then show ?thesis
  proof cases
    case 1
    let ?e = "(rec_setDiscard ?d)\<lparr>dr_data_size := 0\<rparr>"
    have "rio_ok (add_arg ?e (snd x))"
      using sh by (simp add: rio_ok_def add_arg_def rio_addr_def rio_blocks_def diff_flags rec_isCompressed_def
          WALB_DIFF_CMPR_NONE_def rec_verify_def rio_isValid_def)
    moreover have "io_view (add_arg ?e (snd x)) = log_view x"
      using 1 assms(2) by (auto simp: fun_eq_iff io_view_def rio.item_def rio.rng_def add_arg_def rio_addr_def rio_blocks_def
          log_view_def rio_block_def diff_flags Let_def)
    ultimately show ?thesis using 1 assms(2) hd
      by (intro exI [of _ ?e]) (simp add: convertLogToDiff_def diff_flags)
  next
    case 2
    let ?e = "(rec_setAllZero ?d)\<lparr>dr_data_size := 0\<rparr>"
    have "rio_ok (add_arg ?e (snd x))"
      using sh by (simp add: rio_ok_def add_arg_def rio_addr_def rio_blocks_def diff_flags rec_isCompressed_def
          WALB_DIFF_CMPR_NONE_def rec_verify_def rio_isValid_def)
    moreover have "io_view (add_arg ?e (snd x)) = log_view x"
      using 2 hd assms(2) by (auto simp: fun_eq_iff io_view_def rio.item_def rio.rng_def add_arg_def rio_addr_def rio_blocks_def
          log_view_def rio_block_def diff_flags Let_def)
    ultimately show ?thesis using 2 assms(2) hd util_isAllZero_ok [OF lo]
      by (intro exI [of _ ?e]) (simp add: convertLogToDiff_def diff_flags)
  next
    case 3
    let ?e = "?d\<lparr>dr_compression_type := WALB_DIFF_CMPR_NONE, dr_data_offset := 0,
      dr_data_size := lr_io_size ?r * LOGICAL_BLOCK_SIZE, dr_checksum := 0\<rparr>"
    have up: "length (snd x) = 512 * unat (lr_io_size ?r)" "io_data x = snd x"
      using assms 3 by (simp_all add: convertible_def padded_data_def io_data_def)
    have sz: "lr_io_size ?r \<le> 65535" using sh 3 hd by (auto simp: rec_shape_def)
    have "rio_ok (add_arg ?e (snd x))"
      using sh up by (simp add: rio_ok_def add_arg_def rio_addr_def rio_blocks_def diff_flags rec_isCompressed_def
          WALB_DIFF_CMPR_NONE_def WALB_DIFF_CMPR_MAX_def rec_verify_def rio_isValid_def io_size_bytes [OF sz])
    moreover have "io_view (add_arg ?e (snd x)) = log_view x"
      using 3 hd assms(2) up by (auto simp: fun_eq_iff io_view_def rio.item_def rio.rng_def add_arg_def rio_addr_def rio_blocks_def
          log_view_def rio_block_def diff_flags Let_def)
    ultimately show ?thesis using 3 assms(2) hd util_isAllZero_ok [OF lo]
      by (intro exI [of _ ?e]) (simp add: convertLogToDiff_def diff_flags)
  qed
qed

definition log_blocks :: "(walb_log_record \<times> u8 list) list \<Rightarrow> nat" where
  "log_blocks xs = sum_list (map (\<lambda>x. if isPadding (fst x) then 0 else unat (lr_io_size (fst x))) xs)"

lemma log_view_padding: "isPadding (fst x) \<Longrightarrow> log_view x = Map.empty"
  by (simp add: log_view_def fun_eq_iff Let_def)

text \<open>One turn of the loop.\<close>

lemma conv_logs_step:
  assumes "log_step r x r1" and "convertible x" and "mem_good dm"
  shows "\<exists>dm1 d1. conv_logs r d n dm = conv_logs r1 d1 (n + of_nat (log_blocks [x])) dm1 \<and> mem_good dm1
    \<and> mem_view dm1 = mem_view dm ++ log_view x \<and> mem_fileH dm1 = mem_fileH dm \<and> mem_maxIoBlocks dm1 = mem_maxIoBlocks dm"
proof -
  let ?buf = "if hasData (fst x) then snd x else d"
  obtain i where i: "readLog d r = Inr (Some (fst x, ?buf, i), r1)" using assms(1) by (auto simp: log_step_def)
  show ?thesis
  proof (cases "isPadding (fst x)")
    case True
    have "conv_logs r d n dm = conv_logs r1 ?buf n dm"
      using i True by (subst conv_logs.simps) (simp add: convertLogToDiff_def)
    then show ?thesis using assms(3) True
      by (intro exI [of _ dm] exI [of _ ?buf]) (simp add: log_view_padding log_blocks_def del: if_split)
  next
    case False
    obtain drec where dr: "\<forall>d. convertLogToDiff (fst x) (if hasData (fst x) then snd x else d) = Inr (Some drec)"
      "rio_ok (add_arg drec (snd x))" "io_view (add_arg drec (snd x)) = log_view x" "dr_io_blocks drec = lr_io_size (fst x)"
      "rec_isNormal drec \<longrightarrow> hasData (fst x)"
      using convertLogToDiff_ok [OF assms(2) False] by blast
    have a: "rio_rec (add_arg drec (snd x)) = drec" by (simp add: add_arg_def)
    have "add_arg (rio_rec (add_arg drec (snd x))) (if rec_isNormal drec then ?buf else []) = add_arg drec (snd x)"
      using dr(5) by (auto simp: add_arg_def)
    from mem_add_good [OF assms(3) dr(2) this] obtain dm1 where
      dm1: "mem_add drec (if rec_isNormal drec then ?buf else []) dm = Inr dm1" "mem_good dm1"
        "mem_view dm1 = mem_view dm ++ log_view x" "mem_maxIoBlocks dm1 = mem_maxIoBlocks dm"
      unfolding a dr(3) by blast
    have "conv_logs r d n dm = conv_logs r1 [] (n + ucast (lr_io_size (fst x))) dm1"
      using i dr(1,4) dm1(1) by (subst conv_logs.simps) simp
    then show ?thesis using dm1(2-4) mem_add_fileH [OF dm1(1)] False
      by (intro exI [of _ dm1] exI [of _ "[]"]) (simp add: log_blocks_def)
  qed
qed

lemma log_blocks_Cons: "log_blocks (x # xs) = log_blocks [x] + log_blocks xs"
  by (simp add: log_blocks_def)

lemma conv_logs_ok:
  assumes "yields r xs r'" and "\<forall>x \<in> set xs. convertible x" and "mem_good dm"
  shows "\<exists>dm'. conv_logs r d n dm = Inr (r', n + of_nat (log_blocks xs), dm') \<and> mem_good dm'
    \<and> mem_view dm' = foldl (\<lambda>m x. m ++ log_view x) (mem_view dm) xs
    \<and> mem_fileH dm' = mem_fileH dm \<and> mem_maxIoBlocks dm' = mem_maxIoBlocks dm"
  using assms
proof (induction xs arbitrary: r d n dm)
  case Nil
  then show ?case by (subst conv_logs.simps) (simp add: log_blocks_def)
next
  case (Cons x xs)
  obtain r1 where r1: "log_step r x r1" "yields r1 xs r'" using Cons.prems(1) by auto
  obtain dm1 d1 where c: "conv_logs r d n dm = conv_logs r1 d1 (n + of_nat (log_blocks [x])) dm1" "mem_good dm1"
    "mem_view dm1 = mem_view dm ++ log_view x" "mem_fileH dm1 = mem_fileH dm" "mem_maxIoBlocks dm1 = mem_maxIoBlocks dm"
    using conv_logs_step [OF r1(1) _ Cons.prems(3)] Cons.prems(2) by fastforce
  show ?case using Cons.IH [OF r1(2) _ c(2), of d1 "n + of_nat (log_blocks [x])"] Cons.prems(2) c
    unfolding log_blocks_Cons [of x xs] by (simp add: add.assoc)
qed

text \<open>Padded data makes the assertion of the \<open>DiffRecIo\<close> fail.\<close>

lemma conv_logs_padded:
  assumes "yields r xs r'" and "\<forall>x \<in> set xs. log_ok x" and "\<exists>x \<in> set xs. padded_data x" and "mem_good dm"
  shows "conv_logs r d n dm = Inl Assert_Failed"
  using assms
proof (induction xs arbitrary: r d n dm)
  case (Cons x xs)
  obtain r1 where r1: "log_step r x r1" "yields r1 xs r'" using Cons.prems(1) by auto
  show ?case
  proof (cases "padded_data x")
    case True
    let ?r = "fst x" let ?buf = "if hasData ?r then snd x else d"
    let ?e = "DiffRecord_init\<lparr>dr_io_address := lr_offset ?r, dr_io_blocks := lr_io_size ?r, dr_compression_type := WALB_DIFF_CMPR_NONE,
      dr_data_offset := 0, dr_data_size := lr_io_size ?r * LOGICAL_BLOCK_SIZE, dr_checksum := 0\<rparr>"
    have x: "log_ok x" "hasData ?r" "\<not> isPadding ?r" "\<not> zero_data (io_data x)" "length (snd x) \<noteq> 512 * unat (lr_io_size ?r)"
      using True Cons.prems(2) by (simp_all add: padded_data_def)
    obtain i where i: "readLog d r = Inr (Some (?r, snd x, i), r1)" using r1(1) x(2) by (auto simp: log_step_def)
    have nd: "\<not> isDiscard ?r" using x(1,2) hasData_shape by (auto simp: log_ok_def)
    then have c: "convertLogToDiff ?r (snd x) = Inr (Some ?e)"
      using x(3,4) util_isAllZero_ok [OF x(1,2)] by (simp add: convertLogToDiff_def)
    have nor: "rec_isNormal ?e" by (simp add: diff_flags)
    have "lr_io_size ?r \<le> 65535" using x(1,3) nd by (auto simp: log_ok_def rec_shape_def)
    then have "rio_new ?e (snd x) = Inl Assert_Failed"
      using nor x(5) by (simp add: rio_new_def rio_isValid_def io_size_bytes)
    then have "mem_add ?e (snd x) dm = Inl Assert_Failed" by (simp add: mem_add_def Let_def split: prod.split)
    then show ?thesis using i c nor by (subst conv_logs.simps) simp
  next
    case False
    then have "convertible x" using Cons.prems(2) by (simp add: convertible_def)
    from conv_logs_step [OF r1(1) this Cons.prems(4)] obtain dm1 d1 where
      "conv_logs r d n dm = conv_logs r1 d1 (n + of_nat (log_blocks [x])) dm1" "mem_good dm1" by blast
    then show ?thesis using Cons.IH [OF r1(2)] Cons.prems(2,3) False by simp
  qed
qed simp

section \<open>Wlogs one after the other\<close>

type_synonym wlog_file = "u8 list \<times> wlog_pack list"

fun wlogs_ok :: "u64 \<Rightarrow> u8 list \<Rightarrow> wlog_file list \<Rightarrow> bool" where
  "wlogs_ok lsid uuid [] = True"
| "wlogs_ok lsid uuid (w # ws) = (wlog_ok (fst w) (snd w) \<and> wh_begin_lsid (wlog_header_of (fst w)) = lsid
     \<and> wh_uuid (wlog_header_of (fst w)) = uuid \<and> wlogs_ok (end_lsid lsid (snd w)) uuid ws)"

text \<open>A file of wlogs: each begins where the one before ended, all of one volume.\<close>

definition wlog_files_ok :: "wlog_file list \<Rightarrow> bool" where
  "wlog_files_ok ws \<longleftrightarrow> ws \<noteq> [] \<and> wlogs_ok (wh_begin_lsid (wlog_header_of (fst (hd ws)))) (wh_uuid (wlog_header_of (fst (hd ws)))) ws"

definition files_image :: "wlog_file list \<Rightarrow> u8 list" where
  "files_image ws = concat (map (\<lambda>w. wlog_image (fst w) (snd w)) ws)"

definition files_logs :: "wlog_file list \<Rightarrow> (walb_log_record \<times> u8 list) list" where
  "files_logs ws = concat (map (\<lambda>w. wlog_logs (snd w)) ws)"

definition files_view :: "wlog_file list \<Rightarrow> nat \<Rightarrow> diff_block option" where
  "files_view ws = foldl (\<lambda>m x. m ++ log_view x) Map.empty (files_logs ws)"

lemma end_lsid_not_max:
  assumes "wpacks_ok pbs salt lsid ps" and "lsid \<noteq> - 1"
  shows "end_lsid lsid ps \<noteq> - 1"
  using assms
proof (induction ps arbitrary: lsid)
  case (Cons p ps)
  have w: "wpack_ok pbs salt lsid p" using Cons.prems(1) by simp
  note d = wpack_okD [OF w] and r = pack_reprD [OF wpack_okD(2) [OF w]]
  have "blocks pbs (pack_records (fst p)) < 65536" unfolding r(4) [symmetric] by simp
  then have "unat (next_lsid p) < 18446744073709551615"
    using nextLogpackLsid_repr [OF d(2)] w r(6) by (simp add: next_lsid_def wpack_ok_def)
  then have "next_lsid p \<noteq> - 1" by (auto simp: unsigned_minus_1_eq_mask mask_eq_exp_minus_1)
  then show ?case using Cons by simp
qed simp

lemma wlog_lsids:
  assumes "wlog_ok fileH ps"
  shows "wh_begin_lsid (wlog_header_of fileH) \<noteq> - 1" and "end_lsid (wh_begin_lsid (wlog_header_of fileH)) ps \<noteq> - 1"
proof -
  have "wh_begin_lsid (wlog_header_of fileH) < wh_end_lsid (wlog_header_of fileH)"
    using assms by (auto simp: wlog_ok_def wlog_isValid_def Let_def split: if_splits)
  then show *: "wh_begin_lsid (wlog_header_of fileH) \<noteq> - 1" by (auto simp: word_order.extremum_strict)
  show "end_lsid (wh_begin_lsid (wlog_header_of fileH)) ps \<noteq> - 1"
    using assms end_lsid_not_max [OF _ *] by (auto simp: wlog_ok_def)
qed

text \<open>What both converters read from a wlog.\<close>

lemma wlog_read:
  assumes "wlog_ok fileH ps"
  shows "\<exists>r r'. wr_readHeader wlog_new (wr_new (wlog_image fileH ps @ tail)) = Inr (wlog_sealed fileH, r)
    \<and> yields r (wlog_logs ps) r' \<and> wr_getEndLsid r' = Inr (end_lsid (wh_begin_lsid (wlog_header_of fileH)) ps, r') \<and> wr_file r' = tail"
proof -
  obtain r where r: "wr_readHeader wlog_new (wr_new (wlog_image fileH ps @ tail)) = Inr (wlog_sealed fileH, r)"
    "reading (wh_physical_bs (wlog_header_of fileH)) (wh_log_checksum_salt (wlog_header_of fileH)) r [] [] ps tail"
    "wr_endLsid r = wh_begin_lsid (wlog_header_of fileH)" using wlog_opens [OF assms, of wlog_new] by auto
  obtain r' where r': "yields r (wlog_logs ps) r'" "read_out (end_lsid (wr_endLsid r) ps) tail r'"
    using reading_yields [OF r(2)] by (auto simp: wlog_logs_def)
  have "wr_getEndLsid r' = Inr (end_lsid (wh_begin_lsid (wlog_header_of fileH)) ps, r')" "wr_file r' = tail"
    using r'(2) r(3) by (simp_all add: read_out_def wr_getEndLsid_def fetchNextPackHeader_def)
  then show ?thesis using r(1) r'(1) by blast
qed

text \<open>A rest shorter than a header block ends the loops.\<close>

lemma header_eof: "length tail < 4096 \<Longrightarrow> wr_readHeader wlog_new (wr_new tail) = Inl EofError"
  by (simp add: wr_readHeader_def wr_new_def wlog_readFrom_def EofError_def)

definition mem_usable :: "diff_memory \<Rightarrow> bool" where
  "mem_usable dm \<longleftrightarrow> mem_good dm \<and> file_header_ok (mem_fileH dm) \<and> fh_version (mem_fileH dm) = WALB_DIFF_VERSION"

definition lsid_matches :: "u64 \<Rightarrow> u8 list \<Rightarrow> diff_memory \<Rightarrow> bool" where
  "lsid_matches lsid fileH dm \<longleftrightarrow> lsid = - 1
     \<or> lsid = wh_begin_lsid (wlog_header_of fileH) \<and> fh_uuid (mem_fileH dm) = wh_uuid (wlog_header_of fileH)"

lemma convertWlog_start:
  assumes "wlog_ok fileH ps" and "mem_usable dm" and "lsid_matches lsid fileH dm"
  shows "\<exists>r r' dm1. yields r (wlog_logs ps) r' \<and> mem_usable dm1 \<and> fh_uuid (mem_fileH dm1) = wh_uuid (wlog_header_of fileH)
    \<and> mem_view dm1 = mem_view dm \<and> mem_maxIoBlocks dm1 = mem_maxIoBlocks dm
    \<and> wr_getEndLsid r' = Inr (end_lsid (wh_begin_lsid (wlog_header_of fileH)) ps, r') \<and> wr_file r' = tail
    \<and> convertWlog lsid n (wlog_image fileH ps @ tail) dm = res_bind (conv_logs r [] n dm1) (\<lambda>(r1, writtenBlocks1, dm2).
          res_bind (wr_getEndLsid r1) (\<lambda>(lsid1, r2). Inr (True, lsid1, writtenBlocks1, wr_file r2, dm2)))"
proof -
  let ?h = "wlog_header_of fileH"
  have l: "length fileH = 4096" using assms(1) by (simp add: wlog_ok_def)
  have u: "length (wh_uuid ?h) = 16"
    using wlog_header_ok_of [of fileH] l by (simp add: wlog_header_ok_def wlog_block_ok_def)
  obtain r r' where r: "wr_readHeader wlog_new (wr_new (wlog_image fileH ps @ tail)) = Inr (wlog_sealed fileH, r)"
    "yields r (wlog_logs ps) r'" "wr_getEndLsid r' = Inr (end_lsid (wh_begin_lsid ?h) ps, r')" "wr_file r' = tail"
    using wlog_read [OF assms(1)] by blast
  define dm1 where "dm1 = (if lsid = - 1 then dm\<lparr>mem_fileH := file_header_setUuid (wh_uuid ?h) (mem_fileH dm)\<rparr> else dm)"
  have dm1: "mem_usable dm1" "fh_uuid (mem_fileH dm1) = wh_uuid ?h" "mem_view dm1 = mem_view dm"
    "mem_maxIoBlocks dm1 = mem_maxIoBlocks dm"
    using assms(2,3) u by (auto simp: lsid_matches_def dm1_def mem_usable_def mem_good_def mem_ok_def fits_def file_header_setUuid_def
        file_header_ok_def mem_view_def)
  have "dm1 = dm\<lparr>mem_fileH := file_header_setUuid (wh_uuid ?h) (mem_fileH dm)\<rparr>" if "lsid = - 1" using that by (simp add: dm1_def)
  moreover have "dm1 = dm" if "lsid \<noteq> - 1" using that by (simp add: dm1_def)
  moreover have "lsid = wh_begin_lsid ?h \<and> fh_uuid (mem_fileH dm) = wh_uuid ?h" if "lsid \<noteq> - 1"
    using that assms(3) by (simp add: lsid_matches_def)
  ultimately have "convertWlog lsid n (wlog_image fileH ps @ tail) dm = res_bind (conv_logs r [] n dm1) (\<lambda>(r1, writtenBlocks1, dm2).
      res_bind (wr_getEndLsid r1) (\<lambda>(lsid1, r2). Inr (True, lsid1, writtenBlocks1, wr_file r2, dm2)))"
    using r(1) by (cases "lsid = - 1") (simp_all add: convertWlog_def Let_def sealed_header_sel [OF l])
  then show ?thesis using r(2-4) dm1 by blast
qed

lemma convertWlog_ok:
  assumes "wlog_ok fileH ps" and "\<forall>x \<in> set (wlog_logs ps). convertible x" and "mem_usable dm" and "lsid_matches lsid fileH dm"
  shows "\<exists>dm'. convertWlog lsid n (wlog_image fileH ps @ tail) dm
      = Inr (True, end_lsid (wh_begin_lsid (wlog_header_of fileH)) ps, n + of_nat (log_blocks (wlog_logs ps)), tail, dm')
    \<and> mem_usable dm' \<and> fh_uuid (mem_fileH dm') = wh_uuid (wlog_header_of fileH)
    \<and> mem_view dm' = foldl (\<lambda>m x. m ++ log_view x) (mem_view dm) (wlog_logs ps)
    \<and> mem_maxIoBlocks dm' = mem_maxIoBlocks dm"
proof -
  obtain r r' dm1 where s: "yields r (wlog_logs ps) r'" "mem_usable dm1" "fh_uuid (mem_fileH dm1) = wh_uuid (wlog_header_of fileH)"
    "mem_view dm1 = mem_view dm" "mem_maxIoBlocks dm1 = mem_maxIoBlocks dm"
    "wr_getEndLsid r' = Inr (end_lsid (wh_begin_lsid (wlog_header_of fileH)) ps, r')" "wr_file r' = tail"
    "convertWlog lsid n (wlog_image fileH ps @ tail) dm = res_bind (conv_logs r [] n dm1) (\<lambda>(r1, writtenBlocks1, dm2).
          res_bind (wr_getEndLsid r1) (\<lambda>(lsid1, r2). Inr (True, lsid1, writtenBlocks1, wr_file r2, dm2)))"
    using convertWlog_start [OF assms(1,3,4)] by blast
  have g: "mem_good dm1" using s(2) by (simp add: mem_usable_def)
  obtain dm' where "conv_logs r [] n dm1 = Inr (r', n + of_nat (log_blocks (wlog_logs ps)), dm')" "mem_good dm'"
    "mem_view dm' = foldl (\<lambda>m x. m ++ log_view x) (mem_view dm1) (wlog_logs ps)"
    "mem_fileH dm' = mem_fileH dm1" "mem_maxIoBlocks dm' = mem_maxIoBlocks dm1"
    using conv_logs_ok [OF s(1) assms(2) g, of "[]" n] by blast
  then show ?thesis using s(2-8) by (simp add: mem_usable_def)
qed

lemma convertWlog_padded:
  assumes "wlog_ok fileH ps" and "\<forall>x \<in> set (wlog_logs ps). log_ok x" and "\<exists>x \<in> set (wlog_logs ps). padded_data x"
    and "mem_usable dm" and "lsid_matches lsid fileH dm"
  shows "convertWlog lsid n (wlog_image fileH ps @ tail) dm = Inl Assert_Failed"
proof -
  obtain r r' dm1 where s: "yields r (wlog_logs ps) r'" "mem_usable dm1"
    "convertWlog lsid n (wlog_image fileH ps @ tail) dm = res_bind (conv_logs r [] n dm1) (\<lambda>(r1, writtenBlocks1, dm2).
          res_bind (wr_getEndLsid r1) (\<lambda>(lsid1, r2). Inr (True, lsid1, writtenBlocks1, wr_file r2, dm2)))"
    using convertWlog_start [OF assms(1,4,5)] by blast
  then show ?thesis using conv_logs_padded [OF s(1) assms(2,3)] by (simp add: mem_usable_def)
qed

lemma conv_wlogs_ok:
  assumes "wlogs_ok lsid uuid ws" and "\<forall>x \<in> set (files_logs ws). convertible x" and "mem_usable dm"
    and "lsid0 = - 1 \<and> ws \<noteq> [] \<or> lsid0 = lsid \<and> lsid \<noteq> - 1 \<and> fh_uuid (mem_fileH dm) = uuid" and "length tail < 4096"
  shows "\<exists>lsid' n' dm'. conv_wlogs lsid0 n (files_image ws @ tail) dm = Some (Inr (lsid', n', dm'))
    \<and> mem_usable dm' \<and> mem_view dm' = foldl (\<lambda>m x. m ++ log_view x) (mem_view dm) (files_logs ws)
    \<and> mem_maxIoBlocks dm' = mem_maxIoBlocks dm"
  using assms(1-4)
proof (induction ws arbitrary: lsid lsid0 n dm)
  case Nil
  have "convertWlog lsid0 n tail dm = Inr (False, lsid0, n, [], dm)" using header_eof [OF assms(5)] by (simp add: convertWlog_def)
  then show ?case using Nil by (subst conv_wlogs.simps) (simp add: files_image_def files_logs_def)
next
  case (Cons w ws)
  obtain fileH ps where w: "w = (fileH, ps)" by fastforce
  let ?h = "wlog_header_of fileH"
  have ok: "wlog_ok fileH ps" "wh_begin_lsid ?h = lsid" "wh_uuid ?h = uuid" "wlogs_ok (end_lsid lsid ps) uuid ws"
    using Cons.prems(1) w by simp_all
  have logs: "\<forall>x \<in> set (wlog_logs ps). convertible x" "\<forall>x \<in> set (files_logs ws). convertible x"
    using Cons.prems(2) w by (simp_all add: files_logs_def)
  obtain dm1 where dm1: "convertWlog lsid0 n (wlog_image fileH ps @ files_image ws @ tail) dm
      = Inr (True, end_lsid lsid ps, n + of_nat (log_blocks (wlog_logs ps)), files_image ws @ tail, dm1)"
    "mem_usable dm1" "fh_uuid (mem_fileH dm1) = uuid" "mem_view dm1 = foldl (\<lambda>m x. m ++ log_view x) (mem_view dm) (wlog_logs ps)"
    "mem_maxIoBlocks dm1 = mem_maxIoBlocks dm"
    using convertWlog_ok [OF ok(1) logs(1) Cons.prems(3), of lsid0 n "files_image ws @ tail"] Cons.prems(4) ok(2,3)
    by (auto simp: lsid_matches_def)
  have "end_lsid lsid ps \<noteq> - 1" using wlog_lsids(2) [OF ok(1)] ok(2) by simp
  then obtain lsid' n' dm' where "conv_wlogs (end_lsid lsid ps) (n + of_nat (log_blocks (wlog_logs ps))) (files_image ws @ tail) dm1
      = Some (Inr (lsid', n', dm'))" "mem_usable dm'"
    "mem_view dm' = foldl (\<lambda>m x. m ++ log_view x) (mem_view dm1) (files_logs ws)" "mem_maxIoBlocks dm' = mem_maxIoBlocks dm1"
    using Cons.IH [OF ok(4) logs(2) dm1(2), of "end_lsid lsid ps"] dm1(3) by blast
  then show ?case using dm1(1,4,5) w by (subst conv_wlogs.simps) (simp add: files_image_def files_logs_def)
qed

lemma conv_wlogs_padded:
  assumes "wlogs_ok lsid uuid ws" and "\<forall>x \<in> set (files_logs ws). log_ok x" and "\<exists>x \<in> set (files_logs ws). padded_data x"
    and "mem_usable dm" and "lsid0 = - 1 \<or> lsid0 = lsid \<and> fh_uuid (mem_fileH dm) = uuid"
  shows "conv_wlogs lsid0 n (files_image ws @ tail) dm = Some (Inl Assert_Failed)"
  using assms
proof (induction ws arbitrary: lsid lsid0 n dm)
  case (Cons w ws)
  obtain fileH ps where w: "w = (fileH, ps)" by fastforce
  let ?h = "wlog_header_of fileH"
  have ok: "wlog_ok fileH ps" "wh_begin_lsid ?h = lsid" "wh_uuid ?h = uuid" "wlogs_ok (end_lsid lsid ps) uuid ws"
    "lsid_matches lsid0 fileH dm" "\<forall>x \<in> set (wlog_logs ps). log_ok x" "\<forall>x \<in> set (files_logs ws). log_ok x"
    using Cons.prems(1,2,5) w by (auto simp: files_logs_def lsid_matches_def)
  have img: "files_image (w # ws) @ tail = wlog_image fileH ps @ files_image ws @ tail" using w by (simp add: files_image_def)
  show ?case
  proof (cases "\<exists>x \<in> set (wlog_logs ps). padded_data x")
    case True
    show ?thesis unfolding img
      using convertWlog_padded [OF ok(1,6) True Cons.prems(4) ok(5)] by (subst conv_wlogs.simps) simp
  next
    case False
    then have "\<forall>x \<in> set (wlog_logs ps). convertible x" using ok(6) by (simp add: convertible_def)
    from convertWlog_ok [OF ok(1) this Cons.prems(4) ok(5), of n "files_image ws @ tail"] obtain dm1 where dm1:
      "convertWlog lsid0 n (wlog_image fileH ps @ files_image ws @ tail) dm
        = Inr (True, end_lsid lsid ps, n + of_nat (log_blocks (wlog_logs ps)), files_image ws @ tail, dm1)"
      "mem_usable dm1" "fh_uuid (mem_fileH dm1) = uuid" using ok(2,3) by auto
    have "\<exists>x \<in> set (files_logs ws). padded_data x" using Cons.prems(3) False w by (auto simp: files_logs_def)
    then show ?thesis unfolding img
      using dm1(1) Cons.IH [OF ok(4,7) _ dm1(2)] dm1(3) by (subst conv_wlogs.simps) simp
  qed
qed (simp add: files_logs_def)

lemma mem_new_usable: "mem_usable (mem_setMaxIoBlocks mx mem_new)"
  using file_header_init_ok mem_new_ok(1)
  by (simp add: mem_usable_def mem_good_def mem_setMaxIoBlocks_def mem_new_def mem_ok_def fits_def)

text \<open>
  C35: As soon as one of the IOs has data that is not all zero and does not fill its physical blocks, \<open>DiffConverter::convert\<close>
  fails: it hands on the padding, and the assertion in the constructor of \<open>DiffRecIo\<close>, that the data has the size
  of the record, does not hold.
\<close>

theorem convert_padded_fails:
  assumes "wlog_files_ok ws" and "\<forall>x \<in> set (files_logs ws). log_ok x" and "\<exists>x \<in> set (files_logs ws). padded_data x"
  shows "convert lib_enc (files_image ws @ tail) mx = Some (Inl Assert_Failed)"
proof -
  have "wlogs_ok (wh_begin_lsid (wlog_header_of (fst (hd ws)))) (wh_uuid (wlog_header_of (fst (hd ws)))) ws"
    using assms(1) by (simp add: wlog_files_ok_def)
  from conv_wlogs_padded [OF this assms(2,3) mem_new_usable] show ?thesis by (simp add: convert_def)
qed

text \<open>
  C9: \<open>DiffConverter::convert\<close> on wlogs of one volume, each beginning at the lsid where the one before ended, in which no IO has
  data that is padded to a physical block other than zeros (\<open>convertible\<close>; such data fails an assertion, as the claim before states),
  returns and writes a sorted wdiff whose contents are those of the logged IOs, each overwriting the earlier
  ones; padding records are left out. Bytes after the last wlog that are too few for a header are ignored.
\<close>

theorem convert_contents:
  assumes "wlog_files_ok ws" and "\<forall>x \<in> set (files_logs ws). convertible x" and "codec_ok lib_enc lib_dec"
    and "mx \<noteq> 0" and "512 * unat mx < 2 ^ 31" and "length tail < 4096"
  shows "\<exists>f dm. convert lib_enc (files_image ws @ tail) mx = Some (Inr f) \<and> sorted_wdiff lib_enc f (files_view ws)
    \<and> mem_readFrom lib_dec f mem_new = Some (Inr dm) \<and> mem_view dm = files_view ws"
proof -
  let ?dm = "mem_setMaxIoBlocks mx mem_new"
  have new: "mem_usable ?dm" "mem_view ?dm = Map.empty" "mem_maxIoBlocks ?dm = mx"
    using mem_new_usable by (simp_all add: mem_setMaxIoBlocks_def mem_new_def mem_view_def)
  have ok: "wlogs_ok (wh_begin_lsid (wlog_header_of (fst (hd ws)))) (wh_uuid (wlog_header_of (fst (hd ws)))) ws" "ws \<noteq> []"
    using assms(1) by (simp_all add: wlog_files_ok_def)
  obtain lsid n dm where c: "conv_wlogs (- 1) 0 (files_image ws @ tail) ?dm = Some (Inr (lsid, n, dm))"
    "mem_usable dm" "mem_view dm = files_view ws" "mem_maxIoBlocks dm = mx"
    using conv_wlogs_ok [OF ok(1) assms(2) new(1) _ assms(6), of "- 1" 0] ok(2) new(2,3)
    unfolding files_view_def by metis
  let ?rs = "map snd (mem_map dm)"
  have g: "mem_ok dm" "\<forall>r \<in> set ?rs. rio_ok r \<and> 512 * unat (rio_blocks r) < 2147483648"
    "file_header_ok (mem_fileH dm)" "fh_version (mem_fileH dm) = WALB_DIFF_VERSION"
    using c(2,4) assms(4,5)
    by (fastforce simp: mem_usable_def mem_good_def fits_def mem_ok_def rio.map_ok_def word_le_nat_alt)+
  obtain w xs w1 w2 r where w: "writer_writeHeader (mem_fileH dm) (writer_setFd []) = Inr (sealed_header (mem_fileH dm), w)"
    "mem_write_entries lib_enc WALB_DIFF_CMPR_SNAPPY ?rs w = Inr w1" "writer_close w1 = Inr w2"
    "reader_readHeader True (reader_init (sw_file w2)) = Inr (sealed_header (mem_fileH dm), r)"
    "reader_rest r xs" "list_all2 (stands_for lib_dec) xs ?rs"
    using write_ios_file [OF assms(3) sample_snappy g(3,4,2)] by blast
  have f: "mem_writeTo lib_enc WALB_DIFF_CMPR_SNAPPY dm = Inr (sw_file w2, dm\<lparr>mem_fileH := sealed_header (mem_fileH dm)\<rparr>)"
    using w(1-3) by (simp add: mem_writeTo_def)
  have "mem_small dm" using g(2) by (auto simp: mem_small_def)
  then have "sorted_wdiff lib_enc (sw_file w2) (files_view ws)"
    using g(1,3,4) f c(3) sample_snappy unfolding sorted_wdiff_def by metis
  moreover obtain dm' where "mem_readFrom lib_dec (sw_file w2) mem_new = Some (Inr dm')"
    "mem_view dm' = foldl (\<lambda>m r. m ++ io_view r) Map.empty ?rs"
    using read_ios_file [OF w(4-6) mem_new_ok(1)] by (auto simp: mem_new_def)
  moreover have "foldl (\<lambda>m r. m ++ io_view r) Map.empty ?rs = files_view ws"
    using rio.map_ok_disjoint [of "mem_map dm"] g(1) c(3) by (simp add: foldl_disjoint_items mem_view_def mem_ok_def)
  ultimately show ?thesis using c(1) f by (auto simp: convert_def)
qed

section \<open>IndexedDiffConverter\<close>

lemmas indexed_flags = irec_isNormal_def irec_isAllZero_def irec_isDiscard_def irec_setAllZero_def irec_setDiscard_def
  IndexedDiffRecord_init_def WALB_DIFF_FLAG_ALLZERO_def WALB_DIFF_FLAG_DISCARD_def irec_flags_ok_def irec_arg_ok_def
  irec_isCompressed_def WALB_DIFF_CMPR_NONE_def WALB_DIFF_CMPR_MAX_def

lemma convertLogToIndexedDiff_ok:
  assumes "log_ok x" and "\<not> isPadding (fst x)"
  shows "\<exists>drec. (\<forall>d. convertLogToIndexedDiff (fst x) (if hasData (fst x) then snd x else d) = Inr (Some drec))
    \<and> plain_irec (drec, io_data x) \<and> piece_view (irec_io (drec, io_data x)) = log_view x
    \<and> ir_io_blocks drec = lr_io_size (fst x) \<and> (irec_isNormal drec \<longrightarrow> hasData (fst x))"
proof -
  let ?r = "fst x"
  let ?d = "IndexedDiffRecord_init\<lparr>ir_io_address := lr_offset ?r, ir_io_blocks := lr_io_size ?r\<rparr>"
  have sh: "rec_shape ?r" "unat (lr_offset ?r) + unat (lr_io_size ?r) < 18446744073709551616" "lr_io_size ?r \<noteq> 0"
    using assms by (auto simp: log_ok_def rec_shape_def)
  note hd = hasData_shape [OF sh(1)]
  consider "isDiscard ?r" | "hasData ?r" "zero_data (io_data x)" | "hasData ?r" "\<not> zero_data (io_data x)" using hd by blast
  then show ?thesis
  proof cases
    case 1
    let ?e = "(irec_setDiscard ?d)\<lparr>ir_data_size := 0, ir_orig_blocks := 0\<rparr>"
    have "plain_irec (?e, io_data x)" using sh by (simp add: plain_irec_def indexed_flags)
    moreover have "piece_view (irec_io (?e, io_data x)) = log_view x"
      using 1 assms(2) by (auto simp: fun_eq_iff piece_view_def irec_io_def irec_type_def log_view_def indexed_flags Let_def)
    ultimately show ?thesis using 1 assms(2) hd
      by (intro exI [of _ ?e]) (simp add: convertLogToIndexedDiff_def indexed_flags)
  next
    case 2
    let ?e = "(irec_setAllZero ?d)\<lparr>ir_data_size := 0, ir_orig_blocks := 0\<rparr>"
    have "plain_irec (?e, io_data x)" using sh by (simp add: plain_irec_def indexed_flags)
    moreover have "piece_view (irec_io (?e, io_data x)) = log_view x"
      using 2 hd assms(2) by (auto simp: fun_eq_iff piece_view_def irec_io_def irec_type_def log_view_def indexed_flags Let_def)
    ultimately show ?thesis using 2 assms(2) hd util_isAllZero_ok [OF assms(1)]
      by (intro exI [of _ ?e]) (simp add: convertLogToIndexedDiff_def indexed_flags)
  next
    case 3
    let ?e = "?d\<lparr>ir_orig_blocks := lr_io_size ?r, ir_compression_type := WALB_DIFF_CMPR_NONE, ir_data_offset := 0,
      ir_io_offset := 0, ir_data_size := lr_io_size ?r * LOGICAL_BLOCK_SIZE\<rparr>"
    have "lr_io_size ?r \<le> 65535" using sh 3 hd by (auto simp: rec_shape_def)
    then have "plain_irec (?e, io_data x)" using sh io_data_length [OF assms(1) 3(1)]
      by (simp add: plain_irec_def indexed_flags word_le_nat_alt)
    moreover have "piece_view (irec_io (?e, io_data x)) = log_view x"
      using 3 hd assms(2) by (auto simp: fun_eq_iff piece_view_def irec_io_def irec_type_def log_view_def indexed_flags Let_def)
    ultimately show ?thesis using 3 assms(2) hd util_isAllZero_ok [OF assms(1)]
      by (intro exI [of _ ?e]) (simp add: convertLogToIndexedDiff_def indexed_flags)
  qed
qed

text \<open>The writer reads only the blocks of the record.\<close>

lemma write_io_data:
  assumes "plain_irec (drec, io_data x)" and "ir_io_blocks drec = lr_io_size (fst x)"
    and "irec_isNormal drec \<longrightarrow> log_ok x \<and> hasData (fst x)"
  shows "iw_compressAndWriteDiff lib_enc drec (if hasData (fst x) then snd x else d) t l w
    = iw_compressAndWriteDiff lib_enc drec (io_data x) t l w"
proof (cases "irec_isNormal drec")
  case True
  have "unat (ir_io_blocks drec * LOGICAL_BLOCK_SIZE) = 512 * unat (lr_io_size (fst x))"
    using assms(1,2) True by (simp add: plain_irec_def unat_lb_bytes)
  moreover have "\<not> irec_isCompressed drec" using assms(1) True by (simp add: plain_irec_def)
  ultimately show ?thesis using True assms(3)
    by (simp add: iw_compressAndWriteDiff_def io_data_def log_ok_def)
qed (simp add: iw_compressAndWriteDiff_def)

text \<open>What the converter writes for a log, and for several.\<close>

definition log_irec :: "walb_log_record \<times> u8 list \<Rightarrow> walb_indexed_diff_record \<times> u8 list" where
  "log_irec x = (case convertLogToIndexedDiff (fst x) (snd x) of
     Inr (Some drec) \<Rightarrow> (drec, io_data x) | _ \<Rightarrow> (IndexedDiffRecord_init, []))"

definition logs_irecs :: "(walb_log_record \<times> u8 list) list \<Rightarrow> (walb_indexed_diff_record \<times> u8 list) list" where
  "logs_irecs xs = map log_irec (filter (\<lambda>x. \<not> isPadding (fst x)) xs)"

lemma log_irec_ok:
  assumes "log_ok x" and "\<not> isPadding (fst x)"
  shows "convertLogToIndexedDiff (fst x) (if hasData (fst x) then snd x else d) = Inr (Some (fst (log_irec x)))"
    and "plain_irec (log_irec x)" and "piece_view (irec_io (log_irec x)) = log_view x"
    and "ir_io_blocks (fst (log_irec x)) = lr_io_size (fst x)" and "snd (log_irec x) = io_data x"
    and "irec_isNormal (fst (log_irec x)) \<longrightarrow> hasData (fst x)"
proof -
  obtain drec where dr: "\<forall>d. convertLogToIndexedDiff (fst x) (if hasData (fst x) then snd x else d) = Inr (Some drec)"
    "plain_irec (drec, io_data x)" "piece_view (irec_io (drec, io_data x)) = log_view x"
    "ir_io_blocks drec = lr_io_size (fst x)" "irec_isNormal drec \<longrightarrow> hasData (fst x)"
    using convertLogToIndexedDiff_ok [OF assms] by blast
  have "convertLogToIndexedDiff (fst x) (snd x) = Inr (Some drec)"
    using spec [OF dr(1), of "snd x"] by (cases "hasData (fst x)") simp_all
  then have "log_irec x = (drec, io_data x)" by (simp add: log_irec_def)
  then show "convertLogToIndexedDiff (fst x) (if hasData (fst x) then snd x else d) = Inr (Some (fst (log_irec x)))"
    "plain_irec (log_irec x)" "piece_view (irec_io (log_irec x)) = log_view x"
    "ir_io_blocks (fst (log_irec x)) = lr_io_size (fst x)" "snd (log_irec x) = io_data x"
    "irec_isNormal (fst (log_irec x)) \<longrightarrow> hasData (fst x)"
    using dr by (simp_all del: if_split)
qed

lemma logs_irecs_ok:
  assumes "\<forall>x \<in> set xs. log_ok x"
  shows "\<forall>x \<in> set (logs_irecs xs). plain_irec x" and "total_blocks (logs_irecs xs) = log_blocks xs"
    and "foldl (\<lambda>m x. m ++ piece_view (irec_io x)) V (logs_irecs xs) = foldl (\<lambda>m x. m ++ log_view x) V xs"
proof -
  show "\<forall>x \<in> set (logs_irecs xs). plain_irec x" using assms log_irec_ok(2) by (auto simp: logs_irecs_def)
  show "total_blocks (logs_irecs xs) = log_blocks xs"
    using assms by (induction xs) (simp_all add: logs_irecs_def log_irec_ok(4) total_blocks_def log_blocks_def)
  show "foldl (\<lambda>m x. m ++ piece_view (irec_io x)) V (logs_irecs xs) = foldl (\<lambda>m x. m ++ log_view x) V xs"
    using assms by (induction xs arbitrary: V) (simp_all add: logs_irecs_def log_irec_ok(3) log_view_padding)
qed

lemma iconv_logs_ok:
  assumes "yields r xs r'" and "\<forall>x \<in> set xs. log_ok x"
  shows "iconv_logs lib_enc r d n w = res_bind (iw_write_all lib_enc WALB_DIFF_CMPR_SNAPPY 0 (logs_irecs xs) w)
    (\<lambda>w1. Inr (r', n + of_nat (log_blocks xs), w1))"
  using assms
proof (induction xs arbitrary: r d n w)
  case Nil
  then show ?case by (subst iconv_logs.simps) (simp add: logs_irecs_def log_blocks_def)
next
  case (Cons x xs)
  obtain r1 where r1: "log_step r x r1" "yields r1 xs r'" using Cons.prems(1) by auto
  let ?buf = "if hasData (fst x) then snd x else d"
  obtain i where i: "readLog d r = Inr (Some (fst x, ?buf, i), r1)" using r1(1) by (auto simp: log_step_def)
  have x: "log_ok x" and xs: "\<forall>x \<in> set xs. log_ok x" using Cons.prems(2) by simp_all
  show ?case
  proof (cases "isPadding (fst x)")
    case True
    have "iconv_logs lib_enc r d n w = iconv_logs lib_enc r1 ?buf n w"
      using i True by (subst iconv_logs.simps) (simp add: convertLogToIndexedDiff_def)
    then show ?thesis using Cons.IH [OF r1(2) xs] True by (simp add: logs_irecs_def log_blocks_def)
  next
    case False
    note dr = log_irec_ok [OF x False]
    have "iw_compressAndWriteDiff lib_enc (fst (log_irec x)) ?buf WALB_DIFF_CMPR_SNAPPY 0 w
        = iw_compressAndWriteDiff lib_enc (fst (log_irec x)) (snd (log_irec x)) WALB_DIFF_CMPR_SNAPPY 0 w"
      unfolding dr(5) by (rule write_io_data) (use dr x in \<open>simp_all flip: dr(5)\<close>)
    then have "iconv_logs lib_enc r d n w
        = res_bind (iw_compressAndWriteDiff lib_enc (fst (log_irec x)) (snd (log_irec x)) WALB_DIFF_CMPR_SNAPPY 0 w)
            (\<lambda>w1. iconv_logs lib_enc r1 ?buf (n + ucast (lr_io_size (fst x))) w1)"
      using i dr(1) [of d] dr(4) by (subst iconv_logs.simps) (simp del: if_split)
    then show ?thesis using Cons.IH [OF r1(2) xs] False
      by (simp add: logs_irecs_def log_blocks_def res_bind_assoc add.assoc)
  qed
qed

lemma iw_write_all_append:
  "iw_write_all lib_enc t l (xs @ ys) w = res_bind (iw_write_all lib_enc t l xs w) (iw_write_all lib_enc t l ys)"
proof (induction xs arbitrary: w)
  case (Cons x xs)
  show ?case by (cases "iw_compressAndWriteDiff lib_enc (fst x) (snd x) t l w") (simp_all add: Cons.IH)
qed simp

text \<open>What one wlog adds, once the header of the wdiff is written or was checked.\<close>

lemma iconvertWlog_ok:
  assumes "wlog_ok fileH ps" and "\<forall>x \<in> set (wlog_logs ps). log_ok x"
    and "if lsid = - 1
      then iw_writeHeader ((file_header_setUuid (wh_uuid (wlog_header_of fileH)) h)\<lparr>fh_type := WALB_DIFF_TYPE_INDEXED\<rparr>) w = Inr (h1, w1)
      else lsid = wh_begin_lsid (wlog_header_of fileH) \<and> fh_uuid h = wh_uuid (wlog_header_of fileH) \<and> h1 = h \<and> w1 = w"
  shows "iconvertWlog lib_enc lsid n (wlog_image fileH ps @ tail) w h
    = res_bind (iw_write_all lib_enc WALB_DIFF_CMPR_SNAPPY 0 (logs_irecs (wlog_logs ps)) w1) (\<lambda>w2.
        Inr (True, end_lsid (wh_begin_lsid (wlog_header_of fileH)) ps, n + of_nat (log_blocks (wlog_logs ps)), tail, w2, h1))"
proof -
  let ?h = "wlog_header_of fileH"
  have l: "length fileH = 4096" using assms(1) by (simp add: wlog_ok_def)
  obtain r r' where r: "wr_readHeader wlog_new (wr_new (wlog_image fileH ps @ tail)) = Inr (wlog_sealed fileH, r)"
    "yields r (wlog_logs ps) r'" "wr_getEndLsid r' = Inr (end_lsid (wh_begin_lsid ?h) ps, r')" "wr_file r' = tail"
    using wlog_read [OF assms(1)] by blast
  note c = iconv_logs_ok [OF r(2) assms(2)]
  show ?thesis using r(1,3,4) assms(3)
    by (cases "lsid = - 1") (simp_all add: iconvertWlog_def Let_def sealed_header_sel [OF l] c res_bind_assoc)
qed

lemma iconv_wlogs_ok:
  assumes "wlogs_ok lsid uuid ws" and "\<forall>x \<in> set (files_logs ws). log_ok x" and "length tail < 4096"
    and "lsid \<noteq> - 1" and "fh_uuid h = uuid"
  shows "iconv_wlogs lib_enc lsid n (files_image ws @ tail) w h
    = Some (iw_write_all lib_enc WALB_DIFF_CMPR_SNAPPY 0 (logs_irecs (files_logs ws)) w)"
  using assms(1,2,4)
proof (induction ws arbitrary: lsid n w)
  case Nil
  have "iconvertWlog lib_enc lsid n tail w h = Inr (False, lsid, n, [], w, h)"
    using header_eof [OF assms(3)] by (simp add: iconvertWlog_def)
  then show ?case by (subst iconv_wlogs.simps) (simp add: files_image_def files_logs_def logs_irecs_def)
next
  case (Cons x ws)
  obtain fileH ps where x: "x = (fileH, ps)" by fastforce
  have ok: "wlog_ok fileH ps" "wh_begin_lsid (wlog_header_of fileH) = lsid" "wh_uuid (wlog_header_of fileH) = uuid"
    "wlogs_ok (end_lsid lsid ps) uuid ws" "\<forall>x \<in> set (wlog_logs ps). log_ok x" "\<forall>x \<in> set (files_logs ws). log_ok x"
    using Cons.prems(1,2) x by (simp_all add: files_logs_def)
  have "end_lsid lsid ps \<noteq> - 1" using wlog_lsids(2) [OF ok(1)] ok(2) by simp
  note ih = Cons.IH [OF ok(4,6) this]
  have "files_image (x # ws) @ tail = wlog_image fileH ps @ files_image ws @ tail"
    "logs_irecs (files_logs (x # ws)) = logs_irecs (wlog_logs ps) @ logs_irecs (files_logs ws)"
    using x by (simp_all add: files_image_def files_logs_def logs_irecs_def)
  note e = this
  note i = iconvertWlog_ok [OF ok(1,5), of lsid h w h w lib_enc n "files_image ws @ tail"]
  show ?case
    unfolding e iw_write_all_append
    using i ih Cons.prems(3) ok(2,3) assms(5)
    by (subst iconv_wlogs.simps) (cases "iw_write_all lib_enc WALB_DIFF_CMPR_SNAPPY 0 (logs_irecs (wlog_logs ps)) w", simp_all)
qed

text \<open>
  C10: \<open>IndexedDiffConverter::convert\<close> on such wlogs, whether or not their data is padded to physical blocks,
  returns and writes an indexed wdiff whose contents are those of the logged IOs, each overwriting the earlier ones.
\<close>

theorem iconvert_contents:
  assumes "wlog_files_ok ws" and "\<forall>x \<in> set (files_logs ws). log_ok x" and "codec_ok lib_enc lib_dec"
    and "log_blocks (files_logs ws) < 2 ^ 50" and "length tail < 4096"
  shows "\<exists>f. iconvert lib_enc (files_image ws @ tail) mx = Some (Inr f) \<and> indexed_wdiff lib_enc f (files_view ws)"
proof -
  obtain fileH ps ws' where ws: "ws = (fileH, ps) # ws'" using assms(1) by (cases ws) (auto simp: wlog_files_ok_def)
  let ?h = "wlog_header_of fileH" and ?xs = "logs_irecs (files_logs ws)"
  have ok: "wlog_ok fileH ps" "wlogs_ok (end_lsid (wh_begin_lsid ?h) ps) (wh_uuid ?h) ws'"
    "\<forall>x \<in> set (wlog_logs ps). log_ok x" "\<forall>x \<in> set (files_logs ws'). log_ok x"
    using assms(1,2) ws by (simp_all add: wlog_files_ok_def files_logs_def)
  note xs = logs_irecs_ok [OF assms(2)]
  have tb: "total_blocks ?xs < 2 ^ 50" using xs(2) assms(4) by simp
  have u: "length (wh_uuid ?h) = 16"
    using wlog_header_ok_of [of fileH] ok(1) by (simp add: wlog_header_ok_def wlog_block_ok_def wlog_ok_def)
  let ?w = "(file_header_setUuid (wh_uuid ?h) file_header_init)\<lparr>fh_type := WALB_DIFF_TYPE_INDEXED\<rparr>"
  have h: "file_header_ok ?w" "fh_version ?w = WALB_DIFF_VERSION"
    using u file_header_init_ok by (simp_all add: file_header_setUuid_def file_header_ok_def)
  obtain h1 w1 w2 where w: "iw_writeHeader ?w (iw_setFd [] mx) = Inr (h1, w1)"
    "iw_write_all lib_enc WALB_DIFF_CMPR_SNAPPY 0 ?xs w1 = Inr w2"
    "file_header_ok h1" "file_header_verify h1 = Inr ()" "fh_type h1 = WALB_DIFF_TYPE_INDEXED"
    "iw_holds lib_dec w2 (diff_file_header_bytes h1) (total_blocks ?xs)
       (foldl (\<lambda>m x. m ++ piece_view (irec_io x)) Map.empty ?xs)"
    using write_index [OF assms(3) sample_snappy level_ok_0 h xs(1) tb] by blast
  obtain w3 where w3: "iw_finalize w2 = Inr w3" using indexed_file_ready [OF w(6) tb w(3-5)] by blast
  have h1: "fh_uuid h1 = wh_uuid ?h"
    using w(1) by (auto simp: iw_writeHeader_def iw_setFd_def iw_init_def file_header_writeTo_def
        file_header_updateChecksum_def file_header_setUuid_def Let_def)
  have ne: "end_lsid (wh_begin_lsid ?h) ps \<noteq> - 1" using wlog_lsids(2) [OF ok(1)] .
  have img: "files_image ws @ tail = wlog_image fileH ps @ files_image ws' @ tail"
    "?xs = logs_irecs (wlog_logs ps) @ logs_irecs (files_logs ws')"
    using ws by (simp_all add: files_image_def files_logs_def logs_irecs_def)
  note i1 = iconvertWlog_ok [OF ok(1,3), of "- 1" file_header_init "iw_setFd [] mx" h1 w1 lib_enc 0 "files_image ws' @ tail"]
  note i2 = iconv_wlogs_ok [OF ok(2,4) assms(5) ne h1]
  obtain v where v: "iw_write_all lib_enc WALB_DIFF_CMPR_SNAPPY 0 (logs_irecs (wlog_logs ps)) w1 = Inr v"
    "iw_write_all lib_enc WALB_DIFF_CMPR_SNAPPY 0 (logs_irecs (files_logs ws')) v = Inr w2"
    using w(2) unfolding img(2) iw_write_all_append by (auto simp: res_bind_Inr_iff)
  have "iconv_wlogs lib_enc (- 1) 0 (files_image ws @ tail) (iw_setFd [] mx) file_header_init = Some (Inr w2)"
    unfolding img(1) using i1 i2 w(1) v by (subst iconv_wlogs.simps) simp
  then have "iconvert lib_enc (files_image ws @ tail) mx = Some (Inr (iw_file w3))" using w3 by (simp add: iconvert_def)
  moreover have "indexed_wdiff lib_enc (iw_file w3) (files_view ws)"
    unfolding indexed_wdiff_def files_view_def using h sample_snappy level_ok_0 xs(1,3) tb w(1,2) w3 by metis
  ultimately show ?thesis by blast
qed

text \<open>A file with one wlog, whose write fills its block or is padded.\<close>

definition sample_wlogs :: "u32 \<Rightarrow> u8 list \<Rightarrow> wlog_file list" where
  "sample_wlogs pbs io = [(sample_wlog_header pbs, [sample_wpack pbs io])]"

lemma sample_wlogs_ok:
  assumes "pbs = 512 \<or> pbs = 4096" and "length io = unat pbs"
  shows "wlog_files_ok (sample_wlogs pbs io)"
    and "files_logs (sample_wlogs pbs io) = [(sample_log_recs io ! 0, io), (sample_log_recs io ! 1, [])]"
    and "log_ok (sample_log_recs io ! 0, io)" and "log_ok (sample_log_recs io ! 1, [])"
    and "log_blocks (files_logs (sample_wlogs pbs io)) = 9"
    and "\<not> zero_data (take 512 io) \<Longrightarrow> padded_data (sample_log_recs io ! 0, io) \<longleftrightarrow> pbs = 4096"
    and "\<not> padded_data (sample_log_recs io ! 1, [])"
proof -
  note s = sample_wlog_ok [OF assms]
  note fl = sample_log_recs_def rec_shape_def sample_log_flags sample_rec_flags sample_rec_sel hasData_def
  show "wlog_files_ok (sample_wlogs pbs io)" using s(1,3) by (simp add: wlog_files_ok_def sample_wlogs_def)
  show l: "files_logs (sample_wlogs pbs io) = [(sample_log_recs io ! 0, io), (sample_log_recs io ! 1, [])]"
    using s(2) by (simp add: files_logs_def sample_wlogs_def sample_log_recs_def)
  have len: "512 \<le> length io" using assms by auto
  show "log_ok (sample_log_recs io ! 0, io)" "log_ok (sample_log_recs io ! 1, [])"
    using len by (simp_all add: log_ok_def fl word_le_nat_alt)
  show "log_blocks (files_logs (sample_wlogs pbs io)) = 9" by (simp add: l log_blocks_def fl)
  show "padded_data (sample_log_recs io ! 0, io) \<longleftrightarrow> pbs = 4096" if "\<not> zero_data (take 512 io)"
    using that assms by (auto simp: padded_data_def io_data_def fl)
  show "\<not> padded_data (sample_log_recs io ! 1, [])" by (simp add: padded_data_def fl)
qed

lemma sample_not_zero: "\<not> zero_data (take 512 (replicate 512 (7 :: u8) @ xs))"
  by (simp add: zero_data_iff)

theorem convert_contents_witness:
  "\<exists>f dm. convert sample_enc (files_image (sample_wlogs 512 (replicate 512 7 @ [])) @ [1, 2]) 128 = Some (Inr f)
    \<and> sorted_wdiff sample_enc f (files_view (sample_wlogs 512 (replicate 512 7 @ [])))
    \<and> mem_readFrom sample_dec f mem_new = Some (Inr dm)
    \<and> mem_view dm = files_view (sample_wlogs 512 (replicate 512 7 @ []))"
proof (rule convert_contents [OF _ _ sample_codec_ok])
  note s = sample_wlogs_ok [of 512 "replicate 512 7 @ []"]
  show "wlog_files_ok (sample_wlogs 512 (replicate 512 7 @ []))" by (rule s(1)) simp_all
  show "\<forall>x \<in> set (files_logs (sample_wlogs 512 (replicate 512 7 @ []))). convertible x"
    using s(2,3,4,7) s(6) [OF _ _ sample_not_zero] by (simp add: convertible_def)
qed simp_all

theorem convert_padded_fails_witness:
  "convert sample_enc (files_image (sample_wlogs 4096 (replicate 512 7 @ replicate 3584 0)) @ []) 128
    = Some (Inl Assert_Failed)"
proof (rule convert_padded_fails)
  note s = sample_wlogs_ok [of 4096 "replicate 512 7 @ replicate 3584 0"]
  show "wlog_files_ok (sample_wlogs 4096 (replicate 512 7 @ replicate 3584 0))" by (rule s(1)) simp_all
  show "\<forall>x \<in> set (files_logs (sample_wlogs 4096 (replicate 512 7 @ replicate 3584 0))). log_ok x"
    using s(2,3,4) by simp
  show "\<exists>x \<in> set (files_logs (sample_wlogs 4096 (replicate 512 7 @ replicate 3584 0))). padded_data x"
    using s(2) s(6) [OF _ _ sample_not_zero] by simp
qed

theorem iconvert_contents_witness:
  "\<exists>f. iconvert sample_enc (files_image (sample_wlogs 4096 (replicate 512 7 @ replicate 3584 0)) @ [1, 2]) 128 = Some (Inr f)
    \<and> indexed_wdiff sample_enc f (files_view (sample_wlogs 4096 (replicate 512 7 @ replicate 3584 0)))"
proof (rule iconvert_contents [OF _ _ sample_codec_ok])
  note s = sample_wlogs_ok [of 4096 "replicate 512 7 @ replicate 3584 0"]
  show "wlog_files_ok (sample_wlogs 4096 (replicate 512 7 @ replicate 3584 0))" by (rule s(1)) simp_all
  show "\<forall>x \<in> set (files_logs (sample_wlogs 4096 (replicate 512 7 @ replicate 3584 0))). log_ok x"
    using s(2,3,4) by simp
  show "log_blocks (files_logs (sample_wlogs 4096 (replicate 512 7 @ replicate 3584 0))) < 2 ^ 50" using s(5) by simp
qed simp

end
