(* ===== verification/Super_Sector.thy ===== *)
theory Super_Sector
  imports Log_Record
begin

text \<open>
  The super sector of a log device and the positions on that device:
  \<^verbatim>\<open>walb/include/linux/walb/super.h\<close>, \<^verbatim>\<open>log_device.h\<close>, \<^verbatim>\<open>disk_name.h\<close> and the class \<open>SuperBlock\<close> of
  \<^verbatim>\<open>src/wdev_log.hpp\<close> and \<^verbatim>\<open>src/wdev_log.cpp\<close>. \<open>PAGE_SIZE\<close> is a call of \<open>getpagesize\<close> and is an
  argument of the definitions that use it; the random numbers of \<open>SuperBlock::format\<close> and the
  physical block size and bytes that \<open>read\<close> gets from the device are arguments, too.
\<close>

section \<open>super.h and disk\_name.h\<close>

definition DISK_NAME_LEN :: nat where "DISK_NAME_LEN = 32"

definition WALB_DEV_NAME_MAX_LEN :: nat where
  "WALB_DEV_NAME_MAX_LEN = DISK_NAME_LEN - length ''walb'' - length ''/L'' - 1"

record walb_super_sector =
  ss_sector_type :: u16
  ss_version :: u16
  ss_checksum :: u32
  ss_logical_bs :: u32
  ss_physical_bs :: u32
  ss_metadata_size :: u32
  ss_log_checksum_salt :: u32
  ss_uuid :: "u8 list"
  ss_name :: "u8 list"
  ss_ring_buffer_size :: u64
  ss_oldest_lsid :: u64
  ss_written_lsid :: u64
  ss_device_size :: u64

definition super_sector_bytes :: "walb_super_sector \<Rightarrow> u8 list" where
  "super_sector_bytes s =
     le_store 2 (ss_sector_type s) @ le_store 2 (ss_version s) @ le_store 4 (ss_checksum s)
     @ le_store 4 (ss_logical_bs s) @ le_store 4 (ss_physical_bs s)
     @ le_store 4 (ss_metadata_size s) @ le_store 4 (ss_log_checksum_salt s)
     @ ss_uuid s @ ss_name s @ le_store 8 (ss_ring_buffer_size s)
     @ le_store 8 (ss_oldest_lsid s) @ le_store 8 (ss_written_lsid s)
     @ le_store 8 (ss_device_size s)"

definition super_sector_of :: "u8 list \<Rightarrow> walb_super_sector" where
  "super_sector_of bs =
     \<lparr>ss_sector_type = le_load (take 2 bs), ss_version = le_load (take 2 (drop 2 bs)),
      ss_checksum = le_load (take 4 (drop 4 bs)), ss_logical_bs = le_load (take 4 (drop 8 bs)),
      ss_physical_bs = le_load (take 4 (drop 12 bs)),
      ss_metadata_size = le_load (take 4 (drop 16 bs)),
      ss_log_checksum_salt = le_load (take 4 (drop 20 bs)),
      ss_uuid = take 16 (drop 24 bs), ss_name = take 32 (drop 40 bs),
      ss_ring_buffer_size = le_load (take 8 (drop 72 bs)),
      ss_oldest_lsid = le_load (take 8 (drop 80 bs)),
      ss_written_lsid = le_load (take 8 (drop 88 bs)),
      ss_device_size = le_load (take 8 (drop 96 bs))\<rparr>"

text \<open>\<open>strnlen\<close>: the number of characters before the terminator, at most \<open>n\<close>.\<close>

fun strnlen :: "u8 list \<Rightarrow> nat \<Rightarrow> nat" where
  "strnlen [] n = 0"
| "strnlen (c # cs) 0 = 0"
| "strnlen (c # cs) (Suc n) = (if c = 0 then 0 else Suc (strnlen cs n))"

definition is_valid_super_sector_raw :: "walb_super_sector \<Rightarrow> u32 \<Rightarrow> bool res" where
  "is_valid_super_sector_raw sect pbs =
     (if \<not> is_valid_pbs pbs then Inr False
      else if ss_sector_type sect \<noteq> SECTOR_TYPE_SUPER then Inr False
      else if ss_version sect \<noteq> WALB_LOG_VERSION then Inr False
      else if ss_physical_bs sect \<noteq> pbs then Inr False
      else if \<not> ss_physical_bs sect \<ge> ss_logical_bs sect then Inr False
      else ensure (ss_logical_bs sect \<noteq> 0) Div_By_Zero
        (if ss_physical_bs sect mod ss_logical_bs sect \<noteq> 0 then Inr False
         else if ss_oldest_lsid sect = INVALID_LSID then Inr False
         else if ss_written_lsid sect = INVALID_LSID then Inr False
         else if \<not> ss_oldest_lsid sect \<le> ss_written_lsid sect then Inr False
         else Inr (strnlen (ss_name sect) DISK_NAME_LEN < DISK_NAME_LEN)))"

definition get_super_sector :: "sector_data option \<Rightarrow> walb_super_sector res" where
  "get_super_sector sect =
     ensure (is_valid_sector_data sect) Assert_Failed
       (res_bind (deref sect) (\<lambda>s. res_bind (deref (sd_data s)) (\<lambda>d.
         res_bind (read_at d 0 104) (\<lambda>bs. Inr (super_sector_of bs)))))"

definition is_valid_super_sector :: "sector_data option \<Rightarrow> bool res" where
  "is_valid_super_sector sect =
     (if \<not> is_valid_sector_data sect then Inr False
      else res_bind (deref sect) (\<lambda>s. res_bind (deref (sd_data s)) (\<lambda>d.
        res_bind (read_at d 0 104) (\<lambda>bs.
          is_valid_super_sector_raw (super_sector_of bs) (sd_size s)))))"

text \<open>
  \<open>snprintf(buf, n, "%s", name)\<close>: at most \<open>n - 1\<close> characters up to the terminator of \<open>name\<close>
  and a terminator; the rest of the buffer keeps its bytes.
\<close>

definition snprintf_s :: "u8 list \<Rightarrow> nat \<Rightarrow> u8 list \<Rightarrow> u8 list" where
  "snprintf_s buf n name = overwrite buf 0 (take (n - 1) (takeWhile (\<lambda>c. c \<noteq> 0) name) @ [0])"

definition set_super_sector_name :: "walb_super_sector \<Rightarrow> u8 list option \<Rightarrow> walb_super_sector" where
  "set_super_sector_name s name =
     (case name of
        None \<Rightarrow> s\<lparr>ss_name := (ss_name s)[0 := 0]\<rparr>
      | Some n \<Rightarrow> s\<lparr>ss_name := snprintf_s (ss_name s) DISK_NAME_LEN n\<rparr>)"

section \<open>log\_device.h\<close>

definition get_super_sector0_offset :: "u32 \<Rightarrow> u32 \<Rightarrow> u64 res" where
  "get_super_sector0_offset page_size sector_size =
     ensure (sector_size \<noteq> 0) Div_By_Zero
       (ensure (page_size mod sector_size = 0) Assert_Failed
         (Inr (ucast (page_size div sector_size))))"

definition get_super_sector1_offset :: "u32 \<Rightarrow> u32 \<Rightarrow> u64 res" where
  "get_super_sector1_offset page_size sector_size =
     res_bind (get_super_sector0_offset page_size sector_size) (\<lambda>o0. Inr (o0 + 1))"

definition get_ring_buffer_offset :: "u32 \<Rightarrow> u32 \<Rightarrow> u64 res" where
  "get_ring_buffer_offset page_size sector_size =
     res_bind (get_super_sector1_offset page_size sector_size) (\<lambda>o1. Inr (o1 + 1))"

definition get_super_sector0_offset_2 :: "u32 \<Rightarrow> walb_super_sector \<Rightarrow> u64 res" where
  "get_super_sector0_offset_2 page_size super = get_super_sector0_offset page_size (ss_physical_bs super)"

definition get_super_sector1_offset_2 :: "u32 \<Rightarrow> walb_super_sector \<Rightarrow> u64 res" where
  "get_super_sector1_offset_2 page_size super =
     res_bind (get_super_sector0_offset page_size (ss_physical_bs super)) (\<lambda>o0.
       Inr (o0 + 1 + ucast (ss_metadata_size super)))"

definition get_ring_buffer_offset_2 :: "u32 \<Rightarrow> walb_super_sector \<Rightarrow> u64 res" where
  "get_ring_buffer_offset_2 page_size super =
     res_bind (get_super_sector1_offset_2 page_size super) (\<lambda>o1. Inr (o1 + 1))"

definition get_offset_of_lsid_2 :: "u32 \<Rightarrow> walb_super_sector \<Rightarrow> u64 \<Rightarrow> u64 res" where
  "get_offset_of_lsid_2 page_size super lsid =
     res_bind (get_ring_buffer_offset_2 page_size super) (\<lambda>rb.
       ensure (ss_ring_buffer_size super \<noteq> 0) Div_By_Zero
         (Inr (rb + lsid mod ss_ring_buffer_size super)))"

definition get_logpack_header :: "sector_data option \<Rightarrow> walb_logpack_header res" where
  "get_logpack_header sect =
     ensure (is_valid_sector_data sect) Assert_Failed
       (res_bind (deref sect) (\<lambda>s. res_bind (deref (sd_data s)) (\<lambda>d.
         Inr (logpack_header_of d))))"

section \<open>SuperBlock\<close>

record super_block =
  sb_pbs :: u32
  sb_offset :: u64
  sb_data :: "u8 list"

text \<open>
  \<open>AlignedArray::resize\<close>: shrinking keeps the prefix, growing clears the new bytes only when
  asked; otherwise they are what the allocated memory holds (\<open>garbage\<close>).
\<close>

definition aligned_resize :: "(nat \<Rightarrow> u8) \<Rightarrow> u8 list \<Rightarrow> nat \<Rightarrow> bool \<Rightarrow> u8 list" where
  "aligned_resize garbage data n doClear =
     (if n \<le> length data then take n data
      else data @ (if doClear then replicate (n - length data) 0
                   else map garbage [length data..<n]))"

definition super :: "super_block \<Rightarrow> walb_super_sector" where
  "super sb = super_sector_of (sb_data sb)"

definition set_super :: "walb_super_sector \<Rightarrow> super_block \<Rightarrow> super_block" where
  "set_super s sb = sb\<lparr>sb_data := overwrite (sb_data sb) 0 (super_sector_bytes s)\<rparr>"

definition setOldestLsid :: "u64 \<Rightarrow> super_block \<Rightarrow> super_block" where
  "setOldestLsid lsid sb = set_super (super sb\<lparr>ss_oldest_lsid := lsid\<rparr>) sb"

definition setWrittenLsid :: "u64 \<Rightarrow> super_block \<Rightarrow> super_block" where
  "setWrittenLsid lsid sb = set_super (super sb\<lparr>ss_written_lsid := lsid\<rparr>) sb"

definition setDeviceSize :: "u64 \<Rightarrow> super_block \<Rightarrow> super_block" where
  "setDeviceSize n sb = set_super (super sb\<lparr>ss_device_size := n\<rparr>) sb"

definition setLogChecksumSalt :: "u32 \<Rightarrow> super_block \<Rightarrow> super_block" where
  "setLogChecksumSalt salt sb = set_super (super sb\<lparr>ss_log_checksum_salt := salt\<rparr>) sb"

definition setUuid :: "u8 list \<Rightarrow> super_block \<Rightarrow> super_block" where
  "setUuid uuid sb = set_super (super sb\<lparr>ss_uuid := uuid\<rparr>) sb"

definition updateChecksum :: "super_block \<Rightarrow> super_block res" where
  "updateChecksum sb =
     (let sb0 = set_super (super sb\<lparr>ss_checksum := 0\<rparr>) sb in
      res_bind (checksum (sb_data sb0) (sb_pbs sb0) 0) (\<lambda>c.
        Inr (set_super (super sb0\<lparr>ss_checksum := c\<rparr>) sb0)))"

definition get2ndSuperBlockOffset :: "u32 \<Rightarrow> super_block \<Rightarrow> u64 res" where
  "get2ndSuperBlockOffset page_size sb = get_super_sector1_offset_2 page_size (super sb)"

definition getRingBufferOffset :: "u32 \<Rightarrow> super_block \<Rightarrow> u64 res" where
  "getRingBufferOffset page_size sb =
     res_bind (get_ring_buffer_offset_2 page_size (super sb)) (\<lambda>oft.
       res_bind (get2ndSuperBlockOffset page_size sb) (\<lambda>o2.
         ensure (oft = o2 + 1) Assert_Failed (Inr oft)))"

definition getOffsetFromLsid :: "u32 \<Rightarrow> super_block \<Rightarrow> u64 \<Rightarrow> u64 res" where
  "getOffsetFromLsid page_size sb lsid =
     (if lsid = INVALID_LSID then Inl (Exception ''Invalid lsid.'')
      else let s = ss_ring_buffer_size (super sb) in
        if s = 0 then Inl (Exception ''Ring buffer size must not be 0.'')
        else res_bind (getRingBufferOffset page_size sb) (\<lambda>rb. Inr (lsid mod s + rb)))"

definition super_block_init ::
  "u32 \<Rightarrow> (nat \<Rightarrow> u8) \<Rightarrow> u32 \<Rightarrow> bool \<Rightarrow> super_block \<Rightarrow> super_block res"
where
  "super_block_init page_size garbage pbs doZeroClear sb =
     (if \<not> is_valid_pbs pbs then Inl (Exception ''invalid pbs'')
      else res_bind (get_super_sector0_offset page_size pbs) (\<lambda>o0.
        Inr (sb\<lparr>sb_pbs := pbs, sb_offset := o0,
                sb_data := aligned_resize garbage (sb_data sb) (unat pbs) doZeroClear\<rparr>)))"

text \<open>The branches on \<open>isChecksum\<close> are as in the source.\<close>

definition super_block_isValid :: "super_block \<Rightarrow> bool \<Rightarrow> bool res" where
  "super_block_isValid sb isChecksum =
     res_bind (is_valid_super_sector_raw (super sb) (sb_pbs sb)) (\<lambda>raw.
       if \<not> raw then Inr False
       else if isChecksum then Inr True
       else res_bind (checksum (sb_data sb) (sb_pbs sb) 0) (\<lambda>c. Inr (c = 0)))"

definition format_fields ::
  "u8 list \<Rightarrow> u32 \<Rightarrow> u32 \<Rightarrow> u64 \<Rightarrow> u64 \<Rightarrow> u8 list \<Rightarrow> walb_super_sector \<Rightarrow> walb_super_sector"
where
  "format_fields uuid salt pbs ring ddevLb name s0 =
     (let s = s0
           \<lparr>ss_sector_type := SECTOR_TYPE_SUPER, ss_version := WALB_LOG_VERSION,
            ss_logical_bs := LOGICAL_BLOCK_SIZE, ss_physical_bs := pbs,
            ss_metadata_size := 0, ss_uuid := uuid, ss_log_checksum_salt := salt,
            ss_ring_buffer_size := ring, ss_oldest_lsid := 0,
            ss_written_lsid := 0, ss_device_size := ddevLb\<rparr>
      in if name = [] then s\<lparr>ss_name := (ss_name s)[0 := 0]\<rparr>
         else s\<lparr>ss_name := snprintf_s (ss_name s) DISK_NAME_LEN name\<rparr>)"

text \<open>
  The exception for an invalid block is constructed but not thrown in the source, so the value
  of \<open>isValid\<close> is not used.
\<close>

definition super_block_format ::
  "u32 \<Rightarrow> (nat \<Rightarrow> u8) \<Rightarrow> u8 list \<Rightarrow> u32 \<Rightarrow> u32 \<Rightarrow> u64 \<Rightarrow> u64 \<Rightarrow> u8 list \<Rightarrow> super_block
   \<Rightarrow> super_block res"
where
  "super_block_format page_size garbage uuid salt pbs ddevLb ldevLb name sb =
     res_bind (super_block_init page_size garbage pbs True sb) (\<lambda>sb1.
     res_bind (addr_pb pbs ldevLb) (\<lambda>ldevPb.
     res_bind (get_ring_buffer_offset page_size pbs) (\<lambda>rb.
       let sb2 = set_super (format_fields uuid salt pbs (ldevPb - rb) ddevLb name (super sb1)) sb1
       in res_bind (super_block_isValid sb2 False) (\<lambda>_. Inr sb2))))"

definition super_block_copyFrom ::
  "u32 \<Rightarrow> (nat \<Rightarrow> u8) \<Rightarrow> super_block \<Rightarrow> super_block \<Rightarrow> super_block res"
where
  "super_block_copyFrom page_size garbage rhs sb =
     res_bind (super_block_init page_size garbage (ss_physical_bs (super rhs)) False sb)
       (\<lambda>sb1. Inr (sb1\<lparr>sb_data := sb_data rhs\<rparr>))"

text \<open>The device is the list of its bytes; \<open>pread\<close> and \<open>pwrite\<close> throw beyond its end.\<close>

definition super_block_read ::
  "u32 \<Rightarrow> (nat \<Rightarrow> u8) \<Rightarrow> u32 \<Rightarrow> u8 list \<Rightarrow> super_block \<Rightarrow> super_block res"
where
  "super_block_read page_size garbage dev_pbs dev sb =
     res_bind (super_block_init page_size garbage dev_pbs False sb) (\<lambda>sb1.
     res_bind (read_at dev (unat (sb_offset sb1 * ucast (sb_pbs sb1))) (unat (sb_pbs sb1))) (\<lambda>bs.
       let sb2 = sb1\<lparr>sb_data := overwrite (sb_data sb1) 0 bs\<rparr> in
       res_bind (super_block_isValid sb2 True) (\<lambda>ok.
         if ok then Inr sb2 else Inl (Exception ''super block is invalid.''))))"

definition super_block_write :: "u8 list \<Rightarrow> super_block \<Rightarrow> (u8 list \<times> super_block) res" where
  "super_block_write dev sb =
     res_bind (updateChecksum sb) (\<lambda>sb1.
     res_bind (super_block_isValid sb1 True) (\<lambda>ok.
       if \<not> ok then Inl (Exception ''super block is invalid.'')
       else res_bind (write_at dev (unat (sb_offset sb1 * ucast (sb_pbs sb1))) (sb_data sb1))
         (\<lambda>dev'. Inr (dev', sb1))))"

definition initWalbMetadata ::
  "u32 \<Rightarrow> (nat \<Rightarrow> u8) \<Rightarrow> u8 list \<Rightarrow> u32 \<Rightarrow> u8 list \<Rightarrow> u32 \<Rightarrow> u64 \<Rightarrow> u64 \<Rightarrow> u8 list \<Rightarrow> u8 list res"
where
  "initWalbMetadata page_size garbage uuid salt dev pbs ddevLb ldevLb name =
     ensure (pbs > 0) Assert_Failed
    (ensure (ddevLb > 0) Assert_Failed
    (ensure (ldevLb > 0) Assert_Failed
      (res_bind (super_block_format page_size garbage uuid salt pbs ddevLb ldevLb name
          \<lparr>sb_pbs = 0, sb_offset = 0, sb_data = []\<rparr>) (\<lambda>sb.
       res_bind (updateChecksum sb) (\<lambda>sb1.
       res_bind (super_block_write dev sb1) (\<lambda>(dev', _). Inr dev'))))))"

section \<open>The image of a super block\<close>

definition super_sector_ok :: "walb_super_sector \<Rightarrow> bool" where
  "super_sector_ok s \<longleftrightarrow> length (ss_uuid s) = 16 \<and> length (ss_name s) = 32"

definition super_block_ok :: "super_block \<Rightarrow> bool" where
  "super_block_ok sb \<longleftrightarrow>
     is_valid_pbs (sb_pbs sb) \<and> length (sb_data sb) = unat (sb_pbs sb)"

lemma super_block_ok_length:
  assumes "super_block_ok sb"
  shows "104 \<le> length (sb_data sb)" and "4 dvd length (sb_data sb)"
proof -
  have "512 dvd length (sb_data sb)" and ge: "512 \<le> length (sb_data sb)"
    using assms by (simp_all add: super_block_ok_def is_valid_pbs_iff dvd_eq_mod_eq_0)
  moreover have "(4 :: nat) dvd 512" by simp
  ultimately show "4 dvd length (sb_data sb)" using dvd_trans by blast
  show "104 \<le> length (sb_data sb)" using ge by simp
qed

lemma length_super_sector_bytes: "super_sector_ok s \<Longrightarrow> length (super_sector_bytes s) = 104"
  by (simp add: super_sector_ok_def super_sector_bytes_def)

lemma super_sector_of_bytes:
  "super_sector_ok s \<Longrightarrow> super_sector_of (super_sector_bytes s @ xs) = s"
  by (simp add: super_sector_ok_def super_sector_bytes_def super_sector_of_def)

lemma super_sector_ok_super: "super_block_ok sb \<Longrightarrow> super_sector_ok (super sb)"
  using super_block_ok_length(1) [of sb] by (simp add: super_sector_ok_def super_def super_sector_of_def)

lemma set_super_data:
  assumes "super_sector_ok s"
  shows "sb_data (set_super s sb) = super_sector_bytes s @ drop 104 (sb_data sb)"
  by (simp add: set_super_def overwrite_def length_super_sector_bytes [OF assms])

lemma super_set_super [simp]: "super_sector_ok s \<Longrightarrow> super (set_super s sb) = s"
  by (simp add: super_def set_super_data super_sector_of_bytes)

lemma set_super_fields [simp]:
  "sb_pbs (set_super s sb) = sb_pbs sb" "sb_offset (set_super s sb) = sb_offset sb"
  by (simp_all add: set_super_def)

lemma super_block_ok_set:
  "super_block_ok sb \<Longrightarrow> super_sector_ok s \<Longrightarrow> super_block_ok (set_super s sb)"
  using super_block_ok_length(1) [of sb]
  by (simp add: super_block_ok_def set_super_data length_super_sector_bytes)

lemma set_super_set_super:
  assumes "super_sector_ok s" and "super_sector_ok t"
  shows "set_super s (set_super t sb) = set_super s sb"
proof -
  have "sb_data (set_super s (set_super t sb)) = sb_data (set_super s sb)"
    using assms by (simp add: set_super_data length_super_sector_bytes)
  then show ?thesis by (simp add: set_super_def)
qed

interpretation super_sum: checksummed super_block_ok sb_data
    "\<lambda>c sb. set_super (super sb\<lparr>ss_checksum := c\<rparr>) sb"
proof
  fix c :: u32 and sb :: super_block
  assume ok: "super_block_ok sb"
  then have s: "super_sector_ok (super sb\<lparr>ss_checksum := x\<rparr>)" for x
    using super_sector_ok_super [OF ok] by (simp add: super_sector_ok_def)
  show "super_block_ok (set_super (super sb\<lparr>ss_checksum := c\<rparr>) sb)"
    by (rule super_block_ok_set [OF ok s])
  show "4 dvd length (sb_data sb)" by (rule super_block_ok_length [OF ok])
  let ?t = "le_store 2 (ss_sector_type (super sb)) @ le_store 2 (ss_version (super sb))"
  have w: "word_sum (?t @ le_store 4 x @ ys) = word_sum ?t + (x + word_sum ys)" for x ys
    by (subst word_sum_append) simp_all
  have w': "word_sum (le_store 2 (ss_sector_type (super sb)) @ le_store 2 (ss_version (super sb))
      @ le_store 4 x @ ys) = word_sum ?t + (x + word_sum ys)" for x ys
    using w [of x ys] by simp
  show "word_sum (sb_data (set_super (super sb\<lparr>ss_checksum := c\<rparr>) sb)) =
      c + word_sum (sb_data (set_super (super sb\<lparr>ss_checksum := 0\<rparr>) sb))"
    by (simp add: set_super_data [OF s] super_sector_bytes_def w')
qed

lemma updateChecksum_eq:
  assumes "super_block_ok sb"
  shows "updateChecksum sb = Inr (set_super (super sb\<lparr>ss_checksum :=
    calcChecksum (sb_data (set_super (super sb\<lparr>ss_checksum := 0\<rparr>) sb)) 0\<rparr>) sb)"
proof -
  let ?s = "super sb\<lparr>ss_checksum := 0\<rparr>"
  have ss: "super_sector_ok (super sb\<lparr>ss_checksum := x\<rparr>)" for x
    using super_sector_ok_super [OF assms] by (simp add: super_sector_ok_def)
  have ok: "super_block_ok (set_super ?s sb)" by (rule super_block_ok_set [OF assms ss])
  then have "checksum (sb_data (set_super ?s sb)) (sb_pbs sb) 0 =
      Inr (calcChecksum (sb_data (set_super ?s sb)) 0)"
    by (intro super_sum.checksum_agrees) (simp_all add: super_block_ok_def)
  then show ?thesis
    using ss [of 0] ss [of "calcChecksum (sb_data (set_super ?s sb)) 0"]
    by (simp add: updateChecksum_def Let_def set_super_set_super)
qed

section \<open>Validation, writing and reading back\<close>

lemma raw_valid_checksum [simp]:
  "is_valid_super_sector_raw (s\<lparr>ss_checksum := c\<rparr>) pbs = is_valid_super_sector_raw s pbs"
  by (simp add: is_valid_super_sector_raw_def)

lemma length_aligned_resize [simp]: "length (aligned_resize g d n b) = n"
  by (simp add: aligned_resize_def)

lemma super_block_isValid_checksum:
  assumes "super_block_ok sb" and "is_valid_super_sector_raw (super sb) (sb_pbs sb) = Inr True"
  shows "super_block_isValid (set_super (super sb\<lparr>ss_checksum := c\<rparr>) sb) True = Inr True"
    and "super_block_isValid (set_super (super sb\<lparr>ss_checksum := c\<rparr>) sb) False =
      Inr (c = calcChecksum (sb_data (set_super (super sb\<lparr>ss_checksum := 0\<rparr>) sb)) 0)"
proof -
  let ?sb = "set_super (super sb\<lparr>ss_checksum := c\<rparr>) sb"
  have s: "super_sector_ok (super sb\<lparr>ss_checksum := c\<rparr>)"
    using super_sector_ok_super [OF assms(1)] by (simp add: super_sector_ok_def)
  have ok: "super_block_ok ?sb" by (rule super_sum.ok_set [OF assms(1)])
  show "super_block_isValid ?sb True = Inr True"
    using assms(2) s by (simp add: super_block_isValid_def)
  have "checksum (sb_data ?sb) (sb_pbs sb) 0 = Inr (calcChecksum (sb_data ?sb) 0)"
    using ok by (intro super_sum.checksum_agrees) (simp_all add: super_block_ok_def)
  then show "super_block_isValid ?sb False =
      Inr (c = calcChecksum (sb_data (set_super (super sb\<lparr>ss_checksum := 0\<rparr>) sb)) 0)"
    using assms(2) s super_sum.calc_zero_iff [OF assms(1), of c 0]
    by (simp add: super_block_isValid_def)
qed

lemma super_block_write_ok:
  assumes "super_block_ok sb" and "is_valid_super_sector_raw (super sb) (sb_pbs sb) = Inr True"
    and "unat (sb_offset sb * ucast (sb_pbs sb)) + unat (sb_pbs sb) \<le> length dev"
  shows "\<exists>sb'. super_block_write dev sb =
      Inr (overwrite dev (unat (sb_offset sb * ucast (sb_pbs sb))) (sb_data sb'), sb')
    \<and> super_block_ok sb' \<and> sb_pbs sb' = sb_pbs sb \<and> sb_offset sb' = sb_offset sb
    \<and> super sb' = super sb\<lparr>ss_checksum := ss_checksum (super sb')\<rparr>
    \<and> super_block_isValid sb' True = Inr True
    \<and> checksum (sb_data sb') (sb_pbs sb') 0 = Inr 0"
proof -
  let ?c = "calcChecksum (sb_data (set_super (super sb\<lparr>ss_checksum := 0\<rparr>) sb)) 0"
  let ?sb = "set_super (super sb\<lparr>ss_checksum := ?c\<rparr>) sb"
  have s: "super_sector_ok (super sb\<lparr>ss_checksum := ?c\<rparr>)"
    using super_sector_ok_super [OF assms(1)] by (simp add: super_sector_ok_def)
  have ok: "super_block_ok ?sb" by (rule super_sum.ok_set [OF assms(1)])
  then have len: "length (sb_data ?sb) = unat (sb_pbs sb)" by (simp add: super_block_ok_def)
  have "checksum (sb_data ?sb) (sb_pbs ?sb) 0 = Inr (calcChecksum (sb_data ?sb) 0)"
    using ok by (intro super_sum.checksum_agrees) (simp_all add: super_block_ok_def)
  then have "checksum (sb_data ?sb) (sb_pbs ?sb) 0 = Inr 0"
    using super_sum.updated_verifies [OF assms(1), of 0] by simp
  then show ?thesis
    using ok s len assms(3) super_block_isValid_checksum(1) [OF assms(1,2), of ?c]
    by (intro exI [of _ ?sb])
      (simp add: super_block_write_def updateChecksum_eq [OF assms(1)])
qed

lemma super_block_read_ok:
  assumes "super_block_ok sb" and "super_block_isValid sb True = Inr True"
    and "get_super_sector0_offset page_size (sb_pbs sb) = Inr (sb_offset sb)"
    and "read_at dev (unat (sb_offset sb * ucast (sb_pbs sb))) (unat (sb_pbs sb)) = Inr (sb_data sb)"
  shows "super_block_read page_size garbage (sb_pbs sb) dev sb0 = Inr sb"
proof -
  let ?sb1 = "sb0\<lparr>sb_pbs := sb_pbs sb, sb_offset := sb_offset sb,
    sb_data := aligned_resize garbage (sb_data sb0) (unat (sb_pbs sb)) False\<rparr>"
  have init: "super_block_init page_size garbage (sb_pbs sb) False sb0 = Inr ?sb1"
    using assms(1,3) by (simp add: super_block_init_def super_block_ok_def)
  have "?sb1\<lparr>sb_data := overwrite (sb_data ?sb1) 0 (sb_data sb)\<rparr> = sb"
    using assms(1) by (cases sb; cases sb0) (simp add: overwrite_def super_block_ok_def)
  then show ?thesis
    using assms(2,4) by (simp add: super_block_read_def init Let_def)
qed

text \<open>
  C27: a super block that \<open>SuperBlock::write\<close> accepts is what \<open>SuperBlock::read\<close> returns from the
  device afterwards, whatever object reads it: all fields are those written, the checksum field
  makes the checksum of the block zero, and no byte of the device outside the block changes.
\<close>

theorem super_block_write_read:
  assumes "super_block_ok sb" and "is_valid_super_sector_raw (super sb) (sb_pbs sb) = Inr True"
    and "unat (sb_offset sb * ucast (sb_pbs sb)) + unat (sb_pbs sb) \<le> length dev"
    and "get_super_sector0_offset page_size (sb_pbs sb) = Inr (sb_offset sb)"
  shows "\<exists>dev' sb'. super_block_write dev sb = Inr (dev', sb')
    \<and> super_block_read page_size garbage (sb_pbs sb) dev' sb0 = Inr sb'
    \<and> super sb' = super sb\<lparr>ss_checksum := ss_checksum (super sb')\<rparr>
    \<and> checksum (sb_data sb') (sb_pbs sb') 0 = Inr 0
    \<and> length dev' = length dev
    \<and> (\<forall>i < length dev. i < unat (sb_offset sb * ucast (sb_pbs sb))
         \<or> unat (sb_offset sb * ucast (sb_pbs sb)) + unat (sb_pbs sb) \<le> i \<longrightarrow> dev' ! i = dev ! i)"
proof -
  let ?o = "unat (sb_offset sb * ucast (sb_pbs sb))"
  obtain sb' where w: "super_block_write dev sb = Inr (overwrite dev ?o (sb_data sb'), sb')"
    "super_block_ok sb'" "sb_pbs sb' = sb_pbs sb" "sb_offset sb' = sb_offset sb"
    "super sb' = super sb\<lparr>ss_checksum := ss_checksum (super sb')\<rparr>"
    "super_block_isValid sb' True = Inr True" "checksum (sb_data sb') (sb_pbs sb') 0 = Inr 0"
    using super_block_write_ok [OF assms(1-3)] by blast
  have len: "length (sb_data sb') = unat (sb_pbs sb)" using w(2,3) by (simp add: super_block_ok_def)
  have "super_block_read page_size garbage (sb_pbs sb') (overwrite dev ?o (sb_data sb')) sb0 = Inr sb'"
    using w(2-4,6) assms(3,4) len overwrite_read [of ?o "sb_data sb'" dev]
    by (intro super_block_read_ok) simp_all
  moreover have "\<forall>i < length dev. i < ?o \<or> ?o + unat (sb_pbs sb) \<le> i \<longrightarrow>
      overwrite dev ?o (sb_data sb') ! i = dev ! i"
    using len assms(3) by (auto simp: nth_overwrite)
  moreover have "length (overwrite dev ?o (sb_data sb')) = length dev" using len assms(3) by simp
  ultimately show ?thesis using w(1,3,5,7) by auto
qed

text \<open>
  the branches of \<open>SuperBlock::isValid\<close> on its flag are exchanged: with the flag set (the
  default, as \<open>read\<close> and \<open>write\<close> call it) a super block is accepted with any checksum, and only with the
  flag cleared the checksum decides.
\<close>

theorem super_block_isValid_swapped:
  assumes "super_block_ok sb" and "is_valid_super_sector_raw (super sb) (sb_pbs sb) = Inr True"
  shows "super_block_isValid (set_super (super sb\<lparr>ss_checksum := c\<rparr>) sb) True = Inr True
    \<and> super_block_isValid (set_super (super sb\<lparr>ss_checksum := c\<rparr>) sb) False =
        Inr (c = calcChecksum (sb_data (set_super (super sb\<lparr>ss_checksum := 0\<rparr>) sb)) 0)"
  using super_block_isValid_checksum [OF assms] by simp

section \<open>Formatting\<close>

lemma strnlen_le: "0 \<in> set (take n s) \<Longrightarrow> strnlen s n < n"
proof (induction s n rule: strnlen.induct)
  case (3 c cs n)
  then show ?case by auto
qed auto

lemma snprintf_s_terminated:
  assumes "length buf = 32"
  shows "length (snprintf_s buf DISK_NAME_LEN name) = 32"
    and "strnlen (snprintf_s buf DISK_NAME_LEN name) DISK_NAME_LEN < DISK_NAME_LEN"
proof -
  let ?n = "take 31 (takeWhile (\<lambda>c. c \<noteq> 0) name)"
  have eq: "snprintf_s buf DISK_NAME_LEN name = ?n @ 0 # drop (Suc (length ?n)) buf"
    by (simp add: snprintf_s_def DISK_NAME_LEN_def overwrite_def)
  have l: "length ?n \<le> 31" by simp
  show "length (snprintf_s buf DISK_NAME_LEN name) = 32"
    unfolding eq using assms l by (simp del: length_take)
  have "take 32 (?n @ 0 # drop (Suc (length ?n)) buf) =
      ?n @ 0 # take (31 - length ?n) (drop (Suc (length ?n)) buf)"
    using l by (simp add: take_Cons' del: length_take)
  then have "0 \<in> set (take 32 (?n @ 0 # drop (Suc (length ?n)) buf))" by simp
  then show "strnlen (snprintf_s buf DISK_NAME_LEN name) DISK_NAME_LEN < DISK_NAME_LEN"
    unfolding eq unfolding DISK_NAME_LEN_def by (rule strnlen_le)
qed

lemma addr_pb_ok: "is_valid_pbs pbs \<Longrightarrow> \<exists>a'. addr_pb pbs a = Inr a'"
  using addr_conv_valid [of pbs a] by metis

lemma super_block_format_ok:
  assumes "is_valid_pbs pbs" and "get_super_sector0_offset page_size pbs = Inr o0"
    and "addr_pb pbs ldevLb = Inr ldevPb" and "length uuid = 16"
  shows "\<exists>sb. super_block_format page_size garbage uuid salt pbs ddevLb ldevLb name
        \<lparr>sb_pbs = 0, sb_offset = 0, sb_data = []\<rparr> = Inr sb
    \<and> super_block_ok sb \<and> sb_pbs sb = pbs \<and> sb_offset sb = o0
    \<and> is_valid_super_sector_raw (super sb) pbs = Inr True
    \<and> ss_ring_buffer_size (super sb) = ldevPb - (o0 + 2) \<and> ss_device_size (super sb) = ddevLb
    \<and> ss_uuid (super sb) = uuid \<and> ss_log_checksum_salt (super sb) = salt
    \<and> ss_oldest_lsid (super sb) = 0 \<and> ss_written_lsid (super sb) = 0
    \<and> ss_metadata_size (super sb) = 0"
proof -
  let ?sb1 = "\<lparr>sb_pbs = pbs, sb_offset = o0, sb_data = replicate (unat pbs) 0\<rparr>"
  define s' where "s' = format_fields uuid salt pbs (ldevPb - (o0 + 1 + 1)) ddevLb name (super ?sb1)"
  have ok1: "super_block_ok ?sb1" using assms(1) by (simp add: super_block_ok_def)
  then have name: "length (ss_name (super ?sb1)) = 32"
    using super_sector_ok_super [OF ok1] by (simp add: super_sector_ok_def)
  then obtain c cs where cs: "ss_name (super ?sb1) = c # cs"
    by (cases "ss_name (super ?sb1)") auto
  have trm: "length (ss_name s') = 32 \<and> strnlen (ss_name s') DISK_NAME_LEN < DISK_NAME_LEN"
    using snprintf_s_terminated [OF name] name cs strnlen_le [of 32 "0 # cs"]
    by (simp add: s'_def format_fields_def Let_def DISK_NAME_LEN_def)
  have fields: "ss_sector_type s' = SECTOR_TYPE_SUPER" "ss_version s' = WALB_LOG_VERSION"
    "ss_logical_bs s' = LOGICAL_BLOCK_SIZE" "ss_physical_bs s' = pbs" "ss_uuid s' = uuid"
    "ss_ring_buffer_size s' = ldevPb - (o0 + 1 + 1)" "ss_oldest_lsid s' = 0" "ss_written_lsid s' = 0"
    "ss_device_size s' = ddevLb" "ss_metadata_size s' = 0" "ss_log_checksum_salt s' = salt"
    by (simp_all add: s'_def format_fields_def Let_def)
  have ok': "super_sector_ok s'" using trm fields assms(4) by (simp add: super_sector_ok_def)
  have raw: "is_valid_super_sector_raw s' pbs = Inr True"
    using assms(1) trm fields
    by (simp add: is_valid_super_sector_raw_def is_valid_pbs_def is_valid_lbs_pbs_def INVALID_LSID_def
        LOGICAL_BLOCK_SIZE_eq)
  have ok2: "super_block_ok (set_super s' ?sb1)" by (rule super_block_ok_set [OF ok1 ok'])
  have "checksum (sb_data (set_super s' ?sb1)) pbs 0 =
      Inr (calcChecksum (sb_data (set_super s' ?sb1)) 0)"
    using ok2 by (intro super_sum.checksum_agrees) (simp_all add: super_block_ok_def)
  then have v: "is_ok (super_block_isValid (set_super s' ?sb1) False)"
    using raw ok' by (simp add: super_block_isValid_def)
  have "super_block_format page_size garbage uuid salt pbs ddevLb ldevLb name
        \<lparr>sb_pbs = 0, sb_offset = 0, sb_data = []\<rparr> = Inr (set_super s' ?sb1)"
    using assms(1-3) v
    by (cases "super_block_isValid (set_super s' ?sb1) False")
      (auto simp: super_block_format_def super_block_init_def aligned_resize_def is_valid_pbs_iff
        get_ring_buffer_offset_def get_super_sector1_offset_def Let_def s'_def add.assoc)
  then show ?thesis using ok2 ok' raw fields by simp
qed

text \<open>
  \<open>initWalbMetadata\<close> on a log device of the given block size writes a super block that
  \<open>SuperBlock::read\<close> accepts: both lsids are zero, there is no metadata area, the ring buffer is
  the rest of the device after the reserved page and the two super sectors, and the stored checksum is right.
\<close>

theorem initWalbMetadata_readable:
  assumes "is_valid_pbs pbs" and "get_super_sector0_offset page_size pbs = Inr o0"
    and "addr_pb pbs ldevLb = Inr ldevPb" and "length uuid = 16" and "0 < ddevLb" and "0 < ldevLb"
    and "unat (o0 * ucast pbs) + unat pbs \<le> length dev"
  shows "\<exists>dev' sb. initWalbMetadata page_size garbage uuid salt dev pbs ddevLb ldevLb name = Inr dev'
    \<and> super_block_read page_size garbage pbs dev' sb0 = Inr sb
    \<and> ss_physical_bs (super sb) = pbs \<and> ss_device_size (super sb) = ddevLb
    \<and> ss_oldest_lsid (super sb) = 0 \<and> ss_written_lsid (super sb) = 0
    \<and> ss_ring_buffer_size (super sb) = ldevPb - (o0 + 2)
    \<and> ss_uuid (super sb) = uuid \<and> ss_log_checksum_salt (super sb) = salt
    \<and> checksum (sb_data sb) pbs 0 = Inr 0"
proof -
  obtain sb where f: "super_block_format page_size garbage uuid salt pbs ddevLb ldevLb name
        \<lparr>sb_pbs = 0, sb_offset = 0, sb_data = []\<rparr> = Inr sb"
    "super_block_ok sb" "sb_pbs sb = pbs" "sb_offset sb = o0"
    "is_valid_super_sector_raw (super sb) pbs = Inr True"
    "ss_ring_buffer_size (super sb) = ldevPb - (o0 + 2)" "ss_device_size (super sb) = ddevLb"
    "ss_uuid (super sb) = uuid" "ss_log_checksum_salt (super sb) = salt"
    "ss_oldest_lsid (super sb) = 0" "ss_written_lsid (super sb) = 0"
    using super_block_format_ok [OF assms(1-4), of garbage salt ddevLb name] by blast
  define c where "c = calcChecksum (sb_data (set_super (super sb\<lparr>ss_checksum := 0\<rparr>) sb)) 0"
  define sb1 where "sb1 = set_super (super sb\<lparr>ss_checksum := c\<rparr>) sb"
  have s1: "super_sector_ok (super sb\<lparr>ss_checksum := c\<rparr>)"
    using super_sector_ok_super [OF f(2)] by (simp add: super_sector_ok_def)
  have u: "updateChecksum sb = Inr sb1" by (simp add: updateChecksum_eq [OF f(2)] sb1_def c_def)
  have ok1: "super_block_ok sb1" unfolding sb1_def by (rule super_sum.ok_set [OF f(2)])
  have fld: "super sb1 = super sb\<lparr>ss_checksum := c\<rparr>" "sb_pbs sb1 = pbs" "sb_offset sb1 = o0"
    using s1 f(3,4) by (simp_all add: sb1_def)
  have raw1: "is_valid_super_sector_raw (super sb1) (sb_pbs sb1) = Inr True"
    using f(5) fld by simp
  from super_block_write_ok [OF ok1 raw1, of dev] obtain sb' where w: "super_block_write dev sb1 =
      Inr (overwrite dev (unat (o0 * ucast pbs)) (sb_data sb'), sb')"
    "super_block_ok sb'" "sb_pbs sb' = pbs" "sb_offset sb' = o0"
    "super sb' = super sb1\<lparr>ss_checksum := ss_checksum (super sb')\<rparr>"
    "super_block_isValid sb' True = Inr True" "checksum (sb_data sb') pbs 0 = Inr 0"
    using assms(7) fld by auto
  have len: "length (sb_data sb') = unat pbs" using w(2,3) by (simp add: super_block_ok_def)
  have "super_block_read page_size garbage (sb_pbs sb')
      (overwrite dev (unat (o0 * ucast pbs)) (sb_data sb')) sb0 = Inr sb'"
    using w(2-4,6) assms(2,7) len overwrite_read [of "unat (o0 * ucast pbs)" "sb_data sb'" dev]
    by (intro super_block_read_ok) simp_all
  moreover have "ss_physical_bs (super sb) = pbs"
    using f(5) by (simp add: is_valid_super_sector_raw_def split: if_splits)
  moreover have "0 < pbs" using assms(1) by (simp add: is_valid_pbs_iff word_less_nat_alt)
  moreover obtain x where "super sb' = super sb\<lparr>ss_checksum := x\<rparr>" using w(5) fld(1) by auto
  ultimately show ?thesis
    using f(1,6-) u w(1,3,7) assms(5,6)
    by (intro exI [of _ sb'] exI conjI) (simp_all add: initWalbMetadata_def)
qed

theorem initWalbMetadata_readable_witness:
  "\<exists>dev' sb. initWalbMetadata 4096 (\<lambda>_. 1) (replicate 16 7) 5 (replicate 8192 0) 512 100 1000 [65] = Inr dev'
    \<and> super_block_read 4096 (\<lambda>_. 1) 512 dev' \<lparr>sb_pbs = 0, sb_offset = 0, sb_data = []\<rparr> = Inr sb
    \<and> ss_physical_bs (super sb) = 512 \<and> ss_device_size (super sb) = 100
    \<and> ss_oldest_lsid (super sb) = 0 \<and> ss_written_lsid (super sb) = 0
    \<and> ss_ring_buffer_size (super sb) = 1000 - (8 + 2)
    \<and> ss_uuid (super sb) = replicate 16 7 \<and> ss_log_checksum_salt (super sb) = 5
    \<and> checksum (sb_data sb) 512 0 = Inr 0"
  by (rule initWalbMetadata_readable)
    (simp_all add: is_valid_pbs_iff get_super_sector0_offset_def addr_pb_def n_lb_in_pb_def
      LOGICAL_BLOCK_SIZE_eq)

text \<open>A valid super block for the witnesses.\<close>

definition sample_super :: walb_super_sector where
  "sample_super = \<lparr>ss_sector_type = 1, ss_version = 2, ss_checksum = 0, ss_logical_bs = 512,
     ss_physical_bs = 512, ss_metadata_size = 0, ss_log_checksum_salt = 3,
     ss_uuid = replicate 16 1, ss_name = replicate 32 0, ss_ring_buffer_size = 100,
     ss_oldest_lsid = 5, ss_written_lsid = 9, ss_device_size = 1000\<rparr>"

definition sample_super_block :: super_block where
  "sample_super_block = \<lparr>sb_pbs = 512, sb_offset = 8,
     sb_data = super_sector_bytes sample_super @ replicate 408 0\<rparr>"

lemma sample_super_block_valid:
  "super_block_ok sample_super_block" "super sample_super_block = sample_super"
  "is_valid_super_sector_raw sample_super 512 = Inr True"
proof -
  have ok: "super_sector_ok sample_super" by (simp add: sample_super_def super_sector_ok_def)
  show "super sample_super_block = sample_super"
    by (simp add: super_def sample_super_block_def super_sector_of_bytes [OF ok])
  show "super_block_ok sample_super_block"
    by (simp add: super_block_ok_def sample_super_block_def length_super_sector_bytes [OF ok]
        is_valid_pbs_iff)
  have "strnlen (replicate 32 0) DISK_NAME_LEN < DISK_NAME_LEN"
    unfolding DISK_NAME_LEN_def by (rule strnlen_le) simp
  then show "is_valid_super_sector_raw sample_super 512 = Inr True"
    by (simp add: is_valid_super_sector_raw_def sample_super_def is_valid_pbs_iff INVALID_LSID_def
        SECTOR_TYPE_SUPER_def WALB_LOG_VERSION_def)
qed

theorem super_block_write_read_witness:
  "\<exists>dev' sb'. super_block_write (replicate 8192 0) sample_super_block = Inr (dev', sb')
    \<and> super_block_read 4096 (\<lambda>_. 1) (sb_pbs sample_super_block) dev' sample_super_block = Inr sb'
    \<and> super sb' = super sample_super_block\<lparr>ss_checksum := ss_checksum (super sb')\<rparr>
    \<and> checksum (sb_data sb') (sb_pbs sb') 0 = Inr 0
    \<and> length dev' = length (replicate 8192 0 :: u8 list)
    \<and> (\<forall>i < length (replicate 8192 0 :: u8 list).
         i < unat (sb_offset sample_super_block * ucast (sb_pbs sample_super_block))
         \<or> unat (sb_offset sample_super_block * ucast (sb_pbs sample_super_block))
             + unat (sb_pbs sample_super_block) \<le> i
         \<longrightarrow> dev' ! i = replicate 8192 0 ! i)"
  by (rule super_block_write_read)
    (use sample_super_block_valid in \<open>simp_all add: sample_super_block_def get_super_sector0_offset_def\<close>)

theorem super_block_isValid_swapped_witness:
  "super_block_isValid (set_super (super sample_super_block\<lparr>ss_checksum := 77\<rparr>) sample_super_block) True
      = Inr True
    \<and> super_block_isValid (set_super (super sample_super_block\<lparr>ss_checksum := 77\<rparr>) sample_super_block) False =
        Inr (77 = calcChecksum (sb_data (set_super (super sample_super_block\<lparr>ss_checksum := 0\<rparr>)
          sample_super_block)) 0)"
  by (rule super_block_isValid_swapped)
    (use sample_super_block_valid in \<open>simp_all add: sample_super_block_def\<close>)

text \<open>
  validating a super sector whose \<open>logical_bs\<close> field is zero divides by zero: the check
  \<open>physical_bs >= logical_bs\<close> lets it through to the remainder.
\<close>

theorem is_valid_super_sector_raw_div_by_zero:
  assumes "is_valid_pbs pbs"
  shows "is_valid_super_sector_raw (s\<lparr>ss_sector_type := SECTOR_TYPE_SUPER,
      ss_version := WALB_LOG_VERSION, ss_physical_bs := pbs, ss_logical_bs := 0\<rparr>) pbs =
    Inl Div_By_Zero"
  using assms by (simp add: is_valid_super_sector_raw_def)

theorem is_valid_super_sector_raw_div_by_zero_witness:
  "is_valid_super_sector_raw (sample_super\<lparr>ss_sector_type := SECTOR_TYPE_SUPER,
      ss_version := WALB_LOG_VERSION, ss_physical_bs := 4096, ss_logical_bs := 0\<rparr>) 4096 =
    Inl Div_By_Zero"
  by (rule is_valid_super_sector_raw_div_by_zero) (simp add: is_valid_pbs_iff)

end
