(* ===== verification/Log_Device.thy ===== *)
theory Log_Device
  imports Super_Sector
begin

text \<open>
  Reading and clearing the ring buffer of a log device: \<open>SimpleWldevReader\<close> of
  \<^verbatim>\<open>src/wdev_log.hpp\<close> and \<open>fillZeroToLdev\<close> of \<^verbatim>\<open>src/wdev_log.cpp\<close>. The device is the list of its
  bytes; the lsids that \<open>getLsidSet\<close> obtains from the kernel are arguments. The loop of
  \<open>fillZeroToLdev\<close> makes no progress when the buffer holds no block, so it is a partial function,
  and its theorem shows that it returns.
\<close>

section \<open>Positions in the ring buffer\<close>

text \<open>The ring buffer offset as a number, and the block that holds an lsid.\<close>

definition ring_start :: "u32 \<Rightarrow> walb_super_sector \<Rightarrow> nat" where
  "ring_start page_size s =
     unat (page_size div ss_physical_bs s) + unat (ss_metadata_size s) + 2"

definition ring_block :: "u32 \<Rightarrow> walb_super_sector \<Rightarrow> nat \<Rightarrow> nat" where
  "ring_block page_size s l = ring_start page_size s + l mod unat (ss_ring_buffer_size s)"

text \<open>A device whose block size divides the page and whose ring buffer lies inside 64-bit offsets.\<close>

definition ring_ok :: "u32 \<Rightarrow> walb_super_sector \<Rightarrow> bool" where
  "ring_ok page_size s \<longleftrightarrow>
     ss_physical_bs s \<noteq> 0 \<and> page_size mod ss_physical_bs s = 0 \<and> ss_ring_buffer_size s \<noteq> 0
     \<and> (ring_start page_size s + unat (ss_ring_buffer_size s)) * unat (ss_physical_bs s) < 2 ^ 64"

lemma ring_ok_less:
  assumes "ring_ok page_size s"
  shows "ring_start page_size s + unat (ss_ring_buffer_size s) < 2 ^ 64"
    and "0 < unat (ss_ring_buffer_size s)" and "0 < unat (ss_physical_bs s)"
proof -
  show rb: "0 < unat (ss_ring_buffer_size s)" and pb: "0 < unat (ss_physical_bs s)"
    using assms by (simp_all add: ring_ok_def unat_gt_0)
  have "ring_start page_size s + unat (ss_ring_buffer_size s)
      \<le> (ring_start page_size s + unat (ss_ring_buffer_size s)) * unat (ss_physical_bs s)"
    using pb by simp
  then show "ring_start page_size s + unat (ss_ring_buffer_size s) < 2 ^ 64"
    using assms unfolding ring_ok_def by linarith
qed

lemma get_ring_buffer_offset_2_eq:
  assumes "ring_ok page_size s"
  shows "\<exists>rb. get_ring_buffer_offset_2 page_size s = Inr rb \<and> unat rb = ring_start page_size s"
proof -
  have sm: "unat (ucast q + 1 + ucast m + 1 :: u64) = unat q + unat m + 2" for q m :: u32
  proof -
    have "unat q + unat m + 2 < 2 ^ 64" using unat_lt32 [of q] unat_lt32 [of m] by (simp del: unat_lt32)
    then show ?thesis by (simp add: unat_word_ariths mod_simps)
  qed
  then show ?thesis
    using assms by (simp add: ring_ok_def ring_start_def get_ring_buffer_offset_2_def get_super_sector1_offset_2_def
        get_super_sector0_offset_def)
qed

lemma getRingBufferOffset_eq:
  "getRingBufferOffset page_size sb = get_ring_buffer_offset_2 page_size (super sb)"
  by (cases "get_super_sector1_offset_2 page_size (super sb)")
    (simp_all add: getRingBufferOffset_def get2ndSuperBlockOffset_def get_ring_buffer_offset_2_def)

lemma ring_block_bound:
  assumes "ring_ok page_size s"
  shows "ring_start page_size s \<le> ring_block page_size s l"
    and "ring_block page_size s l < ring_start page_size s + unat (ss_ring_buffer_size s)"
  using ring_ok_less(2) [OF assms] by (simp_all add: ring_block_def)

lemma getOffsetFromLsid_ok:
  assumes "ring_ok page_size (super sb)" and "lsid \<noteq> INVALID_LSID"
  shows "\<exists>off. getOffsetFromLsid page_size sb lsid = Inr off
    \<and> unat off = ring_block page_size (super sb) (unat lsid)"
proof -
  obtain rb where rb: "get_ring_buffer_offset_2 page_size (super sb) = Inr rb"
    "unat rb = ring_start page_size (super sb)"
    using get_ring_buffer_offset_2_eq [OF assms(1)] by blast
  have "unat (lsid mod ss_ring_buffer_size (super sb)) + unat rb < 2 ^ 64"
    using rb(2) ring_ok_less [OF assms(1)]
      mod_less_divisor [OF ring_ok_less(2) [OF assms(1)], of "unat lsid"]
    unfolding unat_mod_distrib by linarith
  then have "unat (lsid mod ss_ring_buffer_size (super sb) + rb) =
      ring_block page_size (super sb) (unat lsid)"
    using rb(2) by (simp add: unat_add_small unat_mod_distrib ring_block_def)
  then show ?thesis
    using assms rb(1)
    by (simp add: getOffsetFromLsid_def getRingBufferOffset_eq ring_ok_def Let_def)
qed

text \<open>
  \<open>SuperBlock::getOffsetFromLsid\<close> gives for every lsid a block of the ring buffer, behind both
  super sectors and before the end of the buffer, and different blocks for two lsids that are
  less than the ring buffer size apart; it agrees with the C function \<open>get_offset_of_lsid_2\<close>.
\<close>

theorem getOffsetFromLsid_ring:
  assumes "ring_ok page_size (super sb)"
    and "unat l1 < unat l2" and "unat l2 < unat l1 + unat (ss_ring_buffer_size (super sb))"
    and "l2 \<noteq> INVALID_LSID"
  shows "\<exists>o1 o2 rb. getOffsetFromLsid page_size sb l1 = Inr o1
    \<and> getOffsetFromLsid page_size sb l2 = Inr o2 \<and> getRingBufferOffset page_size sb = Inr rb
    \<and> get_offset_of_lsid_2 page_size (super sb) l1 = Inr o1
    \<and> o1 \<noteq> o2 \<and> rb \<le> o1 \<and> unat o1 < unat rb + unat (ss_ring_buffer_size (super sb))"
proof -
  let ?s = "super sb"
  have "l1 < l2" using assms(2) by (simp add: word_less_nat_alt)
  then have l1: "l1 \<noteq> INVALID_LSID"
    using word_order.extremum_strict [of l2] by (auto simp: INVALID_LSID_def)
  obtain o1 o2 rb where o: "getOffsetFromLsid page_size sb l1 = Inr o1"
      "unat o1 = ring_block page_size ?s (unat l1)"
      "getOffsetFromLsid page_size sb l2 = Inr o2" "unat o2 = ring_block page_size ?s (unat l2)"
      "get_ring_buffer_offset_2 page_size ?s = Inr rb" "unat rb = ring_start page_size ?s"
    using getOffsetFromLsid_ok [OF assms(1)] l1 assms(4) get_ring_buffer_offset_2_eq [OF assms(1)]
    by metis
  have "unat l1 mod n \<noteq> unat l2 mod n" if "n = unat (ss_ring_buffer_size ?s)" for n
  proof
    assume "unat l1 mod n = unat l2 mod n"
    then have "n dvd unat l2 - unat l1" using assms(2) by (metis mod_eq_dvd_iff_nat less_imp_le)
    then show False using assms(2,3) that by (auto dest: dvd_imp_le)
  qed
  then have "o1 \<noteq> o2" using o(2,4) by (auto simp: ring_block_def)
  moreover have "get_offset_of_lsid_2 page_size ?s l1 = Inr o1"
    using o(1,5) l1 assms(1)
    by (simp add: get_offset_of_lsid_2_def getOffsetFromLsid_def getRingBufferOffset_eq ring_ok_def
        Let_def add.commute)
  ultimately show ?thesis
    using o ring_block_bound [OF assms(1), of "unat l1"]
    by (simp add: getRingBufferOffset_eq word_le_nat_alt)
qed

theorem getOffsetFromLsid_ring_witness:
  "\<exists>o1 o2 rb. getOffsetFromLsid 4096 sample_super_block 7 = Inr o1
    \<and> getOffsetFromLsid 4096 sample_super_block 106 = Inr o2
    \<and> getRingBufferOffset 4096 sample_super_block = Inr rb
    \<and> get_offset_of_lsid_2 4096 (super sample_super_block) 7 = Inr o1
    \<and> o1 \<noteq> o2 \<and> rb \<le> o1
    \<and> unat o1 < unat rb + unat (ss_ring_buffer_size (super sample_super_block))"
  by (rule getOffsetFromLsid_ring)
    (simp_all add: sample_super_block_valid sample_super_def ring_ok_def ring_start_def INVALID_LSID_def)

section \<open>SimpleWldevReader\<close>

record wldev_reader =
  rd_super :: super_block
  rd_pbs :: u32
  rd_lsid :: u64
  rd_pos :: u64

definition reader_seek :: "u32 \<Rightarrow> wldev_reader \<Rightarrow> wldev_reader res" where
  "reader_seek page_size r =
     res_bind (getOffsetFromLsid page_size (rd_super r) (rd_lsid r)) (\<lambda>off.
       Inr (r\<lparr>rd_pos := off * ucast (rd_pbs r)\<rparr>))"

definition reader_init ::
  "u32 \<Rightarrow> (nat \<Rightarrow> u8) \<Rightarrow> u32 \<Rightarrow> u8 list \<Rightarrow> wldev_reader res"
where
  "reader_init page_size garbage dev_pbs dev =
     res_bind (super_block_read page_size garbage dev_pbs dev
         \<lparr>sb_pbs = 0, sb_offset = 0, sb_data = []\<rparr>) (\<lambda>sb.
       Inr \<lparr>rd_super = sb, rd_pbs = ss_physical_bs (super sb), rd_lsid = 0, rd_pos = 0\<rparr>)"

definition reader_reset :: "u32 \<Rightarrow> u64 \<Rightarrow> wldev_reader \<Rightarrow> wldev_reader res" where
  "reader_reset page_size lsid r = reader_seek page_size (r\<lparr>rd_lsid := lsid\<rparr>)"

definition ringBufPb :: "wldev_reader \<Rightarrow> u64" where
  "ringBufPb r = ss_ring_buffer_size (super (rd_super r))"

definition readBlock :: "u32 \<Rightarrow> u8 list \<Rightarrow> wldev_reader \<Rightarrow> (u8 list \<times> wldev_reader) res" where
  "readBlock page_size dev r =
     res_bind (read_at dev (unat (rd_pos r)) (unat (rd_pbs r))) (\<lambda>bs.
       let r' = r\<lparr>rd_pos := rd_pos r + ucast (rd_pbs r), rd_lsid := rd_lsid r + 1\<rparr> in
       ensure (ringBufPb r' \<noteq> 0) Div_By_Zero
         (if rd_lsid r' mod ringBufPb r' = 0
          then res_bind (reader_seek page_size r') (\<lambda>r''. Inr (bs, r''))
          else Inr (bs, r')))"

definition verifySizePb :: "u64 \<Rightarrow> wldev_reader \<Rightarrow> unit res" where
  "verifySizePb sizePb r =
     (if sizePb \<ge> ringBufPb r then Inl (Exception ''too large sizePb'') else Inr ())"

fun readPb_loop :: "nat \<Rightarrow> u32 \<Rightarrow> u8 list \<Rightarrow> wldev_reader \<Rightarrow> (u8 list \<times> wldev_reader) res" where
  "readPb_loop 0 page_size dev r = Inr ([], r)"
| "readPb_loop (Suc n) page_size dev r =
     res_bind (readBlock page_size dev r) (\<lambda>(bs, r').
     res_bind (readPb_loop n page_size dev r') (\<lambda>(cs, r''). Inr (bs @ cs, r'')))"

definition readPb :: "u32 \<Rightarrow> u8 list \<Rightarrow> u64 \<Rightarrow> wldev_reader \<Rightarrow> (u8 list \<times> wldev_reader) res" where
  "readPb page_size dev sizePb r =
     (if sizePb = 0 then Inr ([], r)
      else res_bind (verifySizePb sizePb r) (\<lambda>_. readPb_loop (unat sizePb) page_size dev r))"

definition skipPb :: "u32 \<Rightarrow> u64 \<Rightarrow> wldev_reader \<Rightarrow> wldev_reader res" where
  "skipPb page_size sizePb r =
     (if sizePb = 0 then Inr r
      else res_bind (verifySizePb sizePb r) (\<lambda>_.
        reader_seek page_size (r\<lparr>rd_lsid := rd_lsid r + sizePb\<rparr>)))"

definition reader_read :: "u32 \<Rightarrow> u8 list \<Rightarrow> u64 \<Rightarrow> wldev_reader \<Rightarrow> (u8 list \<times> wldev_reader) res" where
  "reader_read page_size dev sz r =
     ensure (rd_pbs r \<noteq> 0) Div_By_Zero
       (ensure (sz mod ucast (rd_pbs r) = 0) Assert_Failed
         (readPb page_size dev (sz div ucast (rd_pbs r)) r))"

definition reader_skip :: "u32 \<Rightarrow> u64 \<Rightarrow> wldev_reader \<Rightarrow> wldev_reader res" where
  "reader_skip page_size sz r =
     ensure (rd_pbs r \<noteq> 0) Div_By_Zero
       (ensure (sz mod ucast (rd_pbs r) = 0) Assert_Failed
         (skipPb page_size (sz div ucast (rd_pbs r)) r))"

text \<open>
  The block of an lsid on the device, and the invariant of the reader: its file position is the
  block of its lsid.
\<close>

definition lsid_block :: "u32 \<Rightarrow> walb_super_sector \<Rightarrow> u8 list \<Rightarrow> nat \<Rightarrow> u8 list" where
  "lsid_block page_size s dev l =
     take (unat (ss_physical_bs s)) (drop (ring_block page_size s l * unat (ss_physical_bs s)) dev)"

definition reader_ok :: "u32 \<Rightarrow> u8 list \<Rightarrow> wldev_reader \<Rightarrow> bool" where
  "reader_ok page_size dev r \<longleftrightarrow>
     ring_ok page_size (super (rd_super r)) \<and> rd_pbs r = ss_physical_bs (super (rd_super r))
     \<and> (ring_start page_size (super (rd_super r)) + unat (ringBufPb r)) * unat (rd_pbs r) \<le> length dev
     \<and> unat (rd_pos r) = ring_block page_size (super (rd_super r)) (unat (rd_lsid r)) * unat (rd_pbs r)"

lemma ring_block_pos:
  assumes "ring_ok page_size s"
  shows "ring_block page_size s l * unat (ss_physical_bs s) + unat (ss_physical_bs s)
      \<le> (ring_start page_size s + unat (ss_ring_buffer_size s)) * unat (ss_physical_bs s)"
proof -
  have "ring_block page_size s l + 1 \<le> ring_start page_size s + unat (ss_ring_buffer_size s)"
    using ring_block_bound(2) [OF assms, of l] by simp
  then have "(ring_block page_size s l + 1) * unat (ss_physical_bs s)
      \<le> (ring_start page_size s + unat (ss_ring_buffer_size s)) * unat (ss_physical_bs s)"
    by (rule mult_right_mono) simp
  then show ?thesis by simp
qed

lemma reader_seek_ok:
  assumes "ring_ok page_size (super (rd_super r))" and "rd_pbs r = ss_physical_bs (super (rd_super r))"
    and "rd_lsid r \<noteq> INVALID_LSID"
  shows "\<exists>p. reader_seek page_size r = Inr (r\<lparr>rd_pos := p\<rparr>)
    \<and> unat p = ring_block page_size (super (rd_super r)) (unat (rd_lsid r)) * unat (rd_pbs r)"
proof -
  let ?s = "super (rd_super r)"
  obtain off where off: "getOffsetFromLsid page_size (rd_super r) (rd_lsid r) = Inr off"
    "unat off = ring_block page_size ?s (unat (rd_lsid r))"
    using getOffsetFromLsid_ok [OF assms(1,3)] by blast
  have "unat off * unat (rd_pbs r) < 2 ^ 64"
    using ring_block_pos [OF assms(1), of "unat (rd_lsid r)"] assms(1,2) ring_ok_less(3) [OF assms(1)]
    unfolding ring_ok_def off(2) assms(2) by linarith
  then have "unat (off * ucast (rd_pbs r)) = unat off * unat (rd_pbs r)"
    by (simp add: unat_word_ariths)
  then show ?thesis using off by (auto simp: reader_seek_def)
qed

lemma ring_block_Suc:
  assumes "ring_ok page_size s" and "Suc l mod unat (ss_ring_buffer_size s) \<noteq> 0"
  shows "ring_block page_size s (Suc l) = Suc (ring_block page_size s l)"
  using assms(2) by (auto simp: ring_block_def mod_Suc split: if_splits)

lemma readBlock_ok:
  assumes "reader_ok page_size dev r" and "unat (rd_lsid r) + 1 < 2 ^ 64 - 1"
  shows "\<exists>r'. readBlock page_size dev r =
      Inr (lsid_block page_size (super (rd_super r)) dev (unat (rd_lsid r)), r')
    \<and> reader_ok page_size dev r' \<and> rd_super r' = rd_super r
    \<and> unat (rd_lsid r') = unat (rd_lsid r) + 1"
proof -
  let ?s = "super (rd_super r)" and ?l = "unat (rd_lsid r)"
  let ?r = "r\<lparr>rd_pos := rd_pos r + ucast (rd_pbs r), rd_lsid := rd_lsid r + 1\<rparr>"
  have ok: "ring_ok page_size ?s" "rd_pbs r = ss_physical_bs ?s"
    "(ring_start page_size ?s + unat (ss_ring_buffer_size ?s)) * unat (ss_physical_bs ?s) \<le> length dev"
    "unat (rd_pos r) = ring_block page_size ?s ?l * unat (ss_physical_bs ?s)"
    using assms(1) by (auto simp: reader_ok_def ringBufPb_def)
  have read: "read_at dev (unat (rd_pos r)) (unat (rd_pbs r)) = Inr (lsid_block page_size ?s dev ?l)"
    using ring_block_pos [OF ok(1), of ?l] ok by (simp add: lsid_block_def)
  have l1: "unat (rd_lsid r + 1) = ?l + 1"
    using assms(2) by (simp add: unat_word_ariths)
  have valid: "rd_lsid ?r \<noteq> INVALID_LSID"
  proof
    assume "rd_lsid ?r = INVALID_LSID"
    then have "rd_lsid r + 1 = - 1" by (simp add: INVALID_LSID_def)
    then have "unat (rd_lsid r + 1) = 2 ^ 64 - 1"
      by (simp only: unsigned_minus_1_eq_mask mask_eq_exp_minus_1) simp
    with l1 assms(2) show False by simp
  qed
  have rb: "ringBufPb ?r \<noteq> 0" using ok(1) by (simp add: ringBufPb_def ring_ok_def)
  show ?thesis
  proof (cases "rd_lsid ?r mod ringBufPb ?r = 0")
    case True
    obtain p where "reader_seek page_size ?r = Inr (?r\<lparr>rd_pos := p\<rparr>)"
      "unat p = ring_block page_size ?s (?l + 1) * unat (rd_pbs r)"
      using reader_seek_ok [of page_size ?r] ok(1,2) valid l1 by auto
    then show ?thesis
      using True read rb ok l1 by (auto simp: readBlock_def reader_ok_def ringBufPb_def)
  next
    case False
    have "unat (rd_lsid r + 1) mod unat (ss_ring_buffer_size ?s) \<noteq> 0"
      using False by (simp add: ringBufPb_def unat_mod_distrib [symmetric] unat_eq_0)
    then have suc: "ring_block page_size ?s (?l + 1) = ring_block page_size ?s ?l + 1"
      using ring_block_Suc [OF ok(1)] l1 by simp
    have "unat (rd_pos r) + unat (rd_pbs r) < 2 ^ 64"
      using ring_block_pos [OF ok(1), of "?l + 1"] ok suc ring_ok_less(3) [OF ok(1)]
      unfolding ring_ok_def by simp
    then have "unat (rd_pos r + ucast (rd_pbs r)) = unat (rd_pos r) + unat (rd_pbs r)"
      by (simp add: unat_word_ariths)
    then show ?thesis
      using False read rb ok l1 suc by (simp add: readBlock_def reader_ok_def ringBufPb_def)
  qed
qed

lemma readPb_loop_ok:
  assumes "reader_ok page_size dev r" and "unat (rd_lsid r) + n < 2 ^ 64 - 1"
  shows "\<exists>r'. readPb_loop n page_size dev r =
      Inr (concat (map (\<lambda>i. lsid_block page_size (super (rd_super r)) dev (unat (rd_lsid r) + i)) [0..<n]), r')
    \<and> reader_ok page_size dev r' \<and> rd_super r' = rd_super r
    \<and> unat (rd_lsid r') = unat (rd_lsid r) + n"
  using assms
proof (induction n arbitrary: r)
  case 0
  then show ?case by simp
next
  case (Suc n)
  let ?b = "lsid_block page_size (super (rd_super r)) dev"
  obtain r1 where r1: "readBlock page_size dev r = Inr (?b (unat (rd_lsid r)), r1)"
    "reader_ok page_size dev r1" "rd_super r1 = rd_super r" "unat (rd_lsid r1) = unat (rd_lsid r) + 1"
    using readBlock_ok [OF Suc.prems(1)] Suc.prems(2) by auto
  have "[0..<Suc n] = 0 # map Suc [0..<n]" by (simp add: upt_conv_Cons map_Suc_upt del: upt_Suc)
  then have "map (\<lambda>i. ?b (unat (rd_lsid r) + i)) [0..<Suc n] =
      ?b (unat (rd_lsid r)) # map (\<lambda>i. ?b (unat (rd_lsid r) + 1 + i)) [0..<n]"
    by (simp del: upt_Suc)
  then show ?case using Suc.IH [OF r1(2)] r1 Suc.prems(2) by (auto simp del: upt_Suc)
qed

text \<open>
  C25: reading \<open>n\<close> blocks with the log device reader returns the blocks of the next \<open>n\<close> lsids in
  order, also across the end of the ring buffer, and leaves the reader at the lsid after them.
\<close>

theorem reader_readPb_blocks:
  assumes "reader_ok page_size dev r" and "unat (rd_lsid r) + unat n < 2 ^ 64 - 1"
    and "n < ringBufPb r"
  shows "\<exists>r'. readPb page_size dev n r =
      Inr (concat (map (\<lambda>i. lsid_block page_size (super (rd_super r)) dev (unat (rd_lsid r) + i))
        [0..<unat n]), r')
    \<and> reader_ok page_size dev r' \<and> unat (rd_lsid r') = unat (rd_lsid r) + unat n"
  using readPb_loop_ok [OF assms(1,2)] assms
  by (cases "n = 0") (auto simp: readPb_def verifySizePb_def)

definition sample_reader :: wldev_reader where
  "sample_reader = \<lparr>rd_super = sample_super_block, rd_pbs = 512, rd_lsid = 99, rd_pos = 109 * 512\<rparr>"

theorem reader_readPb_blocks_witness:
  "\<exists>r'. readPb 4096 (replicate 56320 0) 3 sample_reader =
      Inr (concat (map (\<lambda>i. lsid_block 4096 (super (rd_super sample_reader)) (replicate 56320 0)
        (unat (rd_lsid sample_reader) + i)) [0..<unat (3 :: u64)]), r')
    \<and> reader_ok 4096 (replicate 56320 0) r'
    \<and> unat (rd_lsid r') = unat (rd_lsid sample_reader) + unat (3 :: u64)"
  by (rule reader_readPb_blocks)
    (simp_all add: sample_reader_def reader_ok_def ringBufPb_def sample_super_block_valid
      ring_ok_def ring_start_def ring_block_def sample_super_def)

section \<open>fillZeroToLdev\<close>

definition MEBI :: u64 where "MEBI = push_bit 20 1"

partial_function (option) fillZero_loop ::
  "u64 \<Rightarrow> u64 \<Rightarrow> u64 \<Rightarrow> u32 \<Rightarrow> u64 \<Rightarrow> u64 \<Rightarrow> u8 list \<Rightarrow> u8 list res option"
where
  "fillZero_loop bufPb rbOff rbSize pbs lsid endLsid dev =
     (if lsid < endLsid then
        (let tmpPb0 = endLsid - lsid;
             tmpPb1 = rbSize - lsid mod rbSize;
             tmpPb2 = min tmpPb0 tmpPb1;
             minPb = min bufPb tmpPb2;
             offPb = lsid mod rbSize + rbOff
         in case write_at dev (unat (offPb * ucast pbs)) (replicate (unat (minPb * ucast pbs)) 0) of
              Inl e \<Rightarrow> Some (Inl e)
            | Inr dev' \<Rightarrow> fillZero_loop bufPb rbOff rbSize pbs (lsid + minPb) endLsid dev')
      else Some (Inr dev))"

definition fillZeroToLdev ::
  "u32 \<Rightarrow> (nat \<Rightarrow> u8) \<Rightarrow> u32 \<Rightarrow> u64 \<Rightarrow> u64 \<Rightarrow> u64 \<Rightarrow> u64 \<Rightarrow> u8 list \<Rightarrow> u8 list res option"
where
  "fillZeroToLdev page_size garbage dev_pbs oldest latest bgnLsid endLsid dev =
     (if \<not> bgnLsid < endLsid then Some (Inl Assert_Failed)
      else case super_block_read page_size garbage dev_pbs dev
             \<lparr>sb_pbs = 0, sb_offset = 0, sb_data = []\<rparr> of
        Inl e \<Rightarrow> Some (Inl e)
      | Inr sb \<Rightarrow>
          let pbs = ss_physical_bs (super sb); rbSize = ss_ring_buffer_size (super sb) in
          case getRingBufferOffset page_size sb of
            Inl e \<Rightarrow> Some (Inl e)
          | Inr rbOff \<Rightarrow>
              if endLsid > oldest then Some (Inl (Exception ''bad endLsid''))
              else if rbSize < latest \<and> bgnLsid < latest - rbSize
                then Some (Inl (Exception ''bad bgnLsid''))
              else if pbs = 0 \<or> rbSize = 0 then Some (Inl Div_By_Zero)
              else fillZero_loop (MEBI div ucast pbs) rbOff rbSize pbs bgnLsid endLsid dev)"

text \<open>The numbers of one round: the blocks written are those of the next \<open>minPb\<close> lsids.\<close>

lemma fillZero_round:
  fixes lsid endLsid rbSize bufPb :: u64
  assumes "lsid < endLsid" and "0 < unat rbSize" and "0 < unat bufPb"
  defines "m \<equiv> min bufPb (min (endLsid - lsid) (rbSize - lsid mod rbSize))"
  shows "0 < unat m" and "unat lsid + unat m \<le> unat endLsid"
    and "unat (lsid + m) = unat lsid + unat m"
    and "unat lsid mod unat rbSize + unat m \<le> unat rbSize"
    and "\<And>k. k < unat m \<Longrightarrow> (unat lsid + k) mod unat rbSize = unat lsid mod unat rbSize + k"
proof -
  have md: "unat (lsid mod rbSize) = unat lsid mod unat rbSize" by (simp add: unat_mod_distrib)
  have lt: "unat lsid mod unat rbSize < unat rbSize" using assms(2) by simp
  have m: "unat m = min (unat bufPb) (min (unat endLsid - unat lsid)
      (unat rbSize - unat lsid mod unat rbSize))"
    using assms(1) lt md
    by (auto simp: m_def min_def word_le_nat_alt word_less_nat_alt unat_sub)
  show "0 < unat m" using m assms(1,3) lt by (simp add: word_less_nat_alt)
  show le: "unat lsid + unat m \<le> unat endLsid" using m assms(1) by (simp add: word_less_nat_alt)
  then show "unat (lsid + m) = unat lsid + unat m"
    using unat_lt64 [of endLsid] by (intro unat_add_small) (simp del: unat_lt64)
  show rb: "unat lsid mod unat rbSize + unat m \<le> unat rbSize" using m lt by simp
  fix k
  assume "k < unat m"
  with rb have "unat lsid mod unat rbSize + k < unat rbSize" by simp
  then show "(unat lsid + k) mod unat rbSize = unat lsid mod unat rbSize + k"
    by (metis mod_add_left_eq mod_less)
qed

text \<open>The specification of the cleared device, byte by byte.\<close>

definition zeroed :: "nat \<Rightarrow> nat \<Rightarrow> nat \<Rightarrow> nat \<Rightarrow> nat \<Rightarrow> u8 list \<Rightarrow> u8 list" where
  "zeroed start rb pbs lo hi dev =
     map (\<lambda>i. if \<exists>l \<in> {lo..<hi}. i div pbs = start + l mod rb then 0 else dev ! i) [0..<length dev]"

lemma zeroed_empty [simp]: "hi \<le> lo \<Longrightarrow> zeroed start rb pbs lo hi dev = dev"
  by (simp add: zeroed_def map_nth)

lemma length_zeroed [simp]: "length (zeroed start rb pbs lo hi dev) = length dev"
  by (simp add: zeroed_def)

lemma zeroed_split:
  assumes "lo \<le> mid" and "mid \<le> hi"
  shows "zeroed start rb pbs mid hi (zeroed start rb pbs lo mid dev) = zeroed start rb pbs lo hi dev"
proof (rule nth_equalityI)
  fix i
  assume "i < length (zeroed start rb pbs mid hi (zeroed start rb pbs lo mid dev))"
  moreover have "{lo..<hi} = {lo..<mid} \<union> {mid..<hi}" using assms by auto
  ultimately show "zeroed start rb pbs mid hi (zeroed start rb pbs lo mid dev) ! i =
      zeroed start rb pbs lo hi dev ! i"
    by (auto simp: zeroed_def)
qed simp

lemma overwrite_zeroed:
  assumes "0 < pbs" and "\<And>k. k < m \<Longrightarrow> (l + k) mod rb = l mod rb + k"
    and "(start + l mod rb + m) * pbs \<le> length dev"
  shows "overwrite dev ((start + l mod rb) * pbs) (replicate (m * pbs) 0) =
    zeroed start rb pbs l (l + m) dev"
proof (rule nth_equalityI)
  let ?o = "(start + l mod rb) * pbs"
  have fit: "?o + m * pbs \<le> length dev" using assms(3) by (simp add: add_mult_distrib)
  then show "length (overwrite dev ?o (replicate (m * pbs) 0)) = length (zeroed start rb pbs l (l + m) dev)"
    by simp
  fix i
  assume "i < length (overwrite dev ?o (replicate (m * pbs) 0))"
  then have i: "i < length dev" using fit by simp
  have "(\<exists>j \<in> {l..<l + m}. i div pbs = start + j mod rb) \<longleftrightarrow>
      (\<exists>k < m. i div pbs = start + l mod rb + k)"
  proof
    assume "\<exists>j \<in> {l..<l + m}. i div pbs = start + j mod rb"
    then obtain j where j: "l \<le> j" "j < l + m" "i div pbs = start + j mod rb" by auto
    then have "j = l + (j - l)" "j - l < m" by simp_all
    with j assms(2) [of "j - l"] show "\<exists>k < m. i div pbs = start + l mod rb + k" by auto
  next
    assume "\<exists>k < m. i div pbs = start + l mod rb + k"
    with assms(2) show "\<exists>j \<in> {l..<l + m}. i div pbs = start + j mod rb"
      by (metis add.assoc atLeastLessThan_iff le_add1 nat_add_left_cancel_less)
  qed
  also have "\<dots> \<longleftrightarrow> start + l mod rb \<le> i div pbs \<and> i div pbs < start + l mod rb + m"
    by (auto simp: less_eq_Suc_le) (metis add.assoc add_less_cancel_left le_iff_add less_eq_Suc_le)
  also have "\<dots> \<longleftrightarrow> ?o \<le> i \<and> i < ?o + m * pbs"
    using assms(1) by (simp add: less_eq_div_iff_mult_less_eq div_less_iff_less_mult add_mult_distrib)
  finally show "overwrite dev ?o (replicate (m * pbs) 0) ! i = zeroed start rb pbs l (l + m) dev ! i"
    using fit i by (auto simp: nth_overwrite zeroed_def)
qed

lemma fillZero_loop_ok:
  assumes "ring_ok page_size s" and "unat rbOff = ring_start page_size s"
    and "rbSize = ss_ring_buffer_size s" and "pbs = ss_physical_bs s" and "0 < unat bufPb"
    and "(ring_start page_size s + unat rbSize) * unat pbs \<le> length dev"
  shows "fillZero_loop bufPb rbOff rbSize pbs lsid endLsid dev =
    Some (Inr (zeroed (ring_start page_size s) (unat rbSize) (unat pbs) (unat lsid) (unat endLsid) dev))"
  using assms(6)
proof (induction "unat endLsid - unat lsid" arbitrary: lsid dev rule: less_induct)
  case less
  let ?st = "ring_start page_size s"
  show ?case
  proof (cases "lsid < endLsid")
    case False
    then show ?thesis by (subst fillZero_loop.simps) (simp add: word_less_nat_alt)
  next
    case True
    define m where "m = min bufPb (min (endLsid - lsid) (rbSize - lsid mod rbSize))"
    have rb: "0 < unat rbSize" "0 < unat pbs"
      using ring_ok_less [OF assms(1)] assms(3,4) by simp_all
    note r = fillZero_round [OF True rb(1) assms(5), folded m_def]
    let ?o = "lsid mod rbSize + rbOff"
    have o1: "unat (lsid mod rbSize) + unat rbOff = ?st + unat lsid mod unat rbSize"
      using assms(2) by (simp add: unat_mod_distrib)
    have le: "(?st + unat lsid mod unat rbSize + unat m) * unat pbs \<le> (?st + unat rbSize) * unat pbs"
      using r(4) by (intro mult_right_mono) simp_all
    have "(?st + unat rbSize) * unat pbs < 2 ^ 64" using assms(1,3,4) by (simp add: ring_ok_def)
    with le have small: "(?st + unat lsid mod unat rbSize + unat m) * unat pbs < 2 ^ 64" by linarith
    have fit: "(?st + unat lsid mod unat rbSize + unat m) * unat pbs \<le> length dev"
      using le less.prems by linarith
    have "?st + unat lsid mod unat rbSize < 2 ^ 64"
      using ring_ok_less(1) [OF assms(1)] assms(3) mod_less_divisor [OF rb(1), of "unat lsid"]
      unfolding assms(3) by linarith
    then have o2: "unat ?o = ?st + unat lsid mod unat rbSize" using o1 by (simp add: unat_add_small)
    have w1: "unat (?o * ucast pbs) = (?st + unat lsid mod unat rbSize) * unat pbs"
      and w2: "unat (m * ucast pbs) = unat m * unat pbs"
      using small o2 by (simp_all add: unat_mult_small add_mult_distrib)
    let ?dev = "zeroed ?st (unat rbSize) (unat pbs) (unat lsid) (unat lsid + unat m) dev"
    have ow: "write_at dev (unat (?o * ucast pbs)) (replicate (unat (m * ucast pbs)) 0) = Inr ?dev"
      using overwrite_zeroed [OF rb(2) r(5), where start = ?st and dev = dev] fit w1 w2
      by (simp add: add_mult_distrib)
    have "fillZero_loop bufPb rbOff rbSize pbs lsid endLsid dev =
        fillZero_loop bufPb rbOff rbSize pbs (lsid + m) endLsid ?dev"
      using True ow by (subst fillZero_loop.simps) (simp add: Let_def m_def)
    also have "\<dots> = Some (Inr (zeroed ?st (unat rbSize) (unat pbs) (unat (lsid + m)) (unat endLsid) ?dev))"
      using r(1-3) less.prems True by (intro less.hyps) (simp_all add: word_less_nat_alt)
    finally show ?thesis using r(2,3) by (simp add: zeroed_split)
  qed
qed

lemma MEBI_div: "0 < unat (MEBI div ucast pbs)" if "unat pbs \<le> 4096" "0 < unat (pbs :: u32)"
proof -
  have "unat (MEBI div ucast pbs :: u64) = 1048576 div unat pbs"
    by (simp add: MEBI_def unat_div_distrib)
  moreover have "1 \<le> 1048576 div unat pbs"
    using that by (simp add: less_eq_div_iff_mult_less_eq)
  ultimately show ?thesis by simp
qed

text \<open>
  C26: \<open>fillZeroToLdev\<close> on a log device with a readable super block, for a range of obsolete lsids
  of a device with blocks of at most 4096 bytes, returns and clears exactly the ring buffer blocks of the lsids
  in the range; every other byte of the device, super sectors and live log blocks included, is
  unchanged.
\<close>

theorem fillZeroToLdev_clears_range:
  assumes "super_block_read page_size garbage dev_pbs dev \<lparr>sb_pbs = 0, sb_offset = 0, sb_data = []\<rparr> = Inr sb"
    and "ring_ok page_size (super sb)" and "unat (ss_physical_bs (super sb)) \<le> 4096"
    and "(ring_start page_size (super sb) + unat (ss_ring_buffer_size (super sb)))
      * unat (ss_physical_bs (super sb)) \<le> length dev"
    and "bgnLsid < endLsid" and "endLsid \<le> oldest"
    and "ss_ring_buffer_size (super sb) < latest \<Longrightarrow>
      latest - ss_ring_buffer_size (super sb) \<le> bgnLsid"
  shows "fillZeroToLdev page_size garbage dev_pbs oldest latest bgnLsid endLsid dev =
    Some (Inr (map (\<lambda>i. if \<exists>l \<in> {unat bgnLsid..<unat endLsid}.
        i div unat (ss_physical_bs (super sb)) = ring_block page_size (super sb) l
      then 0 else dev ! i) [0..<length dev]))"
proof -
  let ?s = "super sb"
  obtain rb where rb: "get_ring_buffer_offset_2 page_size ?s = Inr rb" "unat rb = ring_start page_size ?s"
    using get_ring_buffer_offset_2_eq [OF assms(2)] by blast
  have "0 < unat (MEBI div ucast (ss_physical_bs ?s))"
    using ring_ok_less(3) [OF assms(2)] assms(3) by (intro MEBI_div)
  then have "fillZero_loop (MEBI div ucast (ss_physical_bs ?s)) rb (ss_ring_buffer_size ?s)
      (ss_physical_bs ?s) bgnLsid endLsid dev = Some (Inr (zeroed (ring_start page_size ?s)
        (unat (ss_ring_buffer_size ?s)) (unat (ss_physical_bs ?s)) (unat bgnLsid) (unat endLsid) dev))"
    using assms(4) by (intro fillZero_loop_ok [OF assms(2) rb(2)]) simp_all
  moreover have "\<not> (ss_ring_buffer_size ?s < latest \<and> bgnLsid < latest - ss_ring_buffer_size ?s)"
    using assms(7) by auto
  ultimately show ?thesis
    using assms(1,2,5,6) rb(1)
    by (simp add: fillZeroToLdev_def Let_def getRingBufferOffset_eq ring_ok_def zeroed_def ring_block_def not_le)
qed

definition sample_device :: "u8 list" where
  "sample_device = overwrite (replicate 56320 1) 4096 (sb_data sample_super_block)"

lemma sample_device_read:
  "super_block_read 4096 (\<lambda>_. 0) 512 sample_device \<lparr>sb_pbs = 0, sb_offset = 0, sb_data = []\<rparr>
     = Inr sample_super_block"
proof -
  have len: "length (sb_data sample_super_block) = 512"
    using sample_super_block_valid(1) by (simp add: super_block_ok_def sample_super_block_def)
  have "super_block_isValid sample_super_block True = Inr True"
    using sample_super_block_valid by (simp add: super_block_isValid_def) (simp add: sample_super_block_def)
  moreover have "read_at sample_device (unat (sb_offset sample_super_block * ucast (sb_pbs sample_super_block)))
      (unat (sb_pbs sample_super_block)) = Inr (sb_data sample_super_block)"
    using overwrite_read [of 4096 "sb_data sample_super_block" "replicate 56320 1"] len
    by (simp add: sample_device_def) (simp add: sample_super_block_def)
  ultimately show ?thesis
    using super_block_read_ok [OF sample_super_block_valid(1), of 4096 sample_device "\<lambda>_. 0"]
    by (simp add: sample_super_block_def get_super_sector0_offset_def)
qed

theorem fillZeroToLdev_clears_range_witness:
  "fillZeroToLdev 4096 (\<lambda>_. 0) 512 50 60 10 20 sample_device =
    Some (Inr (map (\<lambda>i. if \<exists>l \<in> {unat (10 :: u64)..<unat (20 :: u64)}.
        i div unat (ss_physical_bs (super sample_super_block)) = ring_block 4096 (super sample_super_block) l
      then 0 else sample_device ! i) [0..<length sample_device]))"
  by (rule fillZeroToLdev_clears_range [OF sample_device_read])
    (use sample_super_block_valid in \<open>simp_all add: sample_super_def ring_ok_def ring_start_def
      sample_device_def super_block_ok_def sample_super_block_def\<close>)

end
