(* ===== verification/Ioctl.thy ===== *)
theory Ioctl
  imports Super_Sector
begin

text \<open>
  \<^verbatim>\<open>walb/include/linux/walb/ioctl.h\<close>: the control messages that the tools send to the driver, with their memory
  layout on x86-64, the command numbers, the request codes of the three \<open>ioctl\<close> calls and the check of
  the parameters of a device start.
\<close>

section \<open>Messages\<close>

record walb_ctl_data =
  wmajor :: u32
  wminor :: u32
  lmajor :: u32
  lminor :: u32
  dmajor :: u32
  dminor :: u32
  buf_size :: u64
  buf :: u64
  kbuf :: u64

record walb_ctl =
  ctl_command :: u32
  val_int :: u32
  val_u64 :: u64
  val_u32 :: u32
  ctl_error :: u32
  u2k :: walb_ctl_data
  k2u :: walb_ctl_data

definition WALB_DYNAMIC_MINOR :: u32 where "WALB_DYNAMIC_MINOR = - 1"

definition ctl_data_bytes :: "walb_ctl_data \<Rightarrow> u8 list" where
  "ctl_data_bytes d =
     le_store 4 (wmajor d) @ le_store 4 (wminor d) @ le_store 4 (lmajor d) @ le_store 4 (lminor d)
     @ le_store 4 (dmajor d) @ le_store 4 (dminor d) @ le_store 8 (buf_size d) @ le_store 8 (buf d)
     @ le_store 8 (kbuf d)"

definition ctl_data_of :: "u8 list \<Rightarrow> walb_ctl_data" where
  "ctl_data_of bs =
     \<lparr>wmajor = le_load (take 4 bs), wminor = le_load (take 4 (drop 4 bs)),
      lmajor = le_load (take 4 (drop 8 bs)), lminor = le_load (take 4 (drop 12 bs)),
      dmajor = le_load (take 4 (drop 16 bs)), dminor = le_load (take 4 (drop 20 bs)),
      buf_size = le_load (take 8 (drop 24 bs)), buf = le_load (take 8 (drop 32 bs)),
      kbuf = le_load (take 8 (drop 40 bs))\<rparr>"

definition walb_ctl_bytes :: "walb_ctl \<Rightarrow> u8 list" where
  "walb_ctl_bytes c =
     le_store 4 (ctl_command c) @ le_store 4 (val_int c) @ le_store 8 (val_u64 c)
     @ le_store 4 (val_u32 c) @ le_store 4 (ctl_error c) @ ctl_data_bytes (u2k c)
     @ ctl_data_bytes (k2u c)"

definition walb_ctl_of :: "u8 list \<Rightarrow> walb_ctl" where
  "walb_ctl_of bs =
     \<lparr>ctl_command = le_load (take 4 bs), val_int = le_load (take 4 (drop 4 bs)),
      val_u64 = le_load (take 8 (drop 8 bs)), val_u32 = le_load (take 4 (drop 16 bs)),
      ctl_error = le_load (take 4 (drop 20 bs)), u2k = ctl_data_of (take 48 (drop 24 bs)),
      k2u = ctl_data_of (take 48 (drop 72 bs))\<rparr>"

section \<open>Commands and request codes\<close>

datatype ioctl_id = WALB_IOCTL_VERSION_CMD | WALB_IOCTL_CONTROL_CMD | WALB_IOCTL_WDEV_CMD

fun ioctl_nr :: "ioctl_id \<Rightarrow> u32" where
  "ioctl_nr WALB_IOCTL_VERSION_CMD = 0"
| "ioctl_nr WALB_IOCTL_CONTROL_CMD = 1"
| "ioctl_nr WALB_IOCTL_WDEV_CMD = 2"

definition WALB_IOCTL_ID :: u32 where "WALB_IOCTL_ID = 0xfe"

text \<open>\<open>_IOC\<close> of the Linux user API: direction, size, type and number in 2, 14, 8 and 8 bits.\<close>

definition IOC :: "u32 \<Rightarrow> u32 \<Rightarrow> u32 \<Rightarrow> u32 \<Rightarrow> u32" where
  "IOC dir ty nr sz = push_bit 30 dir OR push_bit 8 ty OR nr OR push_bit 16 sz"

definition WALB_IOCTL_VERSION :: u32 where
  "WALB_IOCTL_VERSION = IOC 2 WALB_IOCTL_ID (ioctl_nr WALB_IOCTL_VERSION_CMD) 4"

definition WALB_IOCTL_CONTROL :: u32 where
  "WALB_IOCTL_CONTROL = IOC 3 WALB_IOCTL_ID (ioctl_nr WALB_IOCTL_CONTROL_CMD) 120"

definition WALB_IOCTL_WDEV :: u32 where
  "WALB_IOCTL_WDEV = IOC 3 WALB_IOCTL_ID (ioctl_nr WALB_IOCTL_WDEV_CMD) 120"

text \<open>The commands for the control device and those for the walb devices are one enumeration.\<close>

datatype control_command =
    WALB_IOCTL_DUMMY
  | WALB_IOCTL_START_DEV
  | WALB_IOCTL_STOP_DEV
  | WALB_IOCTL_GET_MAJOR
  | WALB_IOCTL_LIST_DEV
  | WALB_IOCTL_NUM_OF_DEV

datatype wdev_command =
    WALB_IOCTL_GET_OLDEST_LSID
  | WALB_IOCTL_SET_OLDEST_LSID
  | WALB_IOCTL_STATUS
  | WALB_IOCTL_CREATE_SNAPSHOT
  | WALB_IOCTL_DELETE_SNAPSHOT
  | WALB_IOCTL_DELETE_SNAPSHOT_RANGE
  | WALB_IOCTL_GET_SNAPSHOT
  | WALB_IOCTL_NUM_OF_SNAPSHOT_RANGE
  | WALB_IOCTL_LIST_SNAPSHOT_RANGE
  | WALB_IOCTL_LIST_SNAPSHOT_FROM
  | WALB_IOCTL_GET_CHECKPOINT_INTERVAL
  | WALB_IOCTL_TAKE_CHECKPOINT
  | WALB_IOCTL_SET_CHECKPOINT_INTERVAL
  | WALB_IOCTL_GET_WRITTEN_LSID
  | WALB_IOCTL_GET_PERMANENT_LSID
  | WALB_IOCTL_GET_COMPLETED_LSID
  | WALB_IOCTL_GET_LOG_USAGE
  | WALB_IOCTL_GET_LOG_CAPACITY
  | WALB_IOCTL_IS_FLUSH_CAPABLE
  | WALB_IOCTL_RESIZE
  | WALB_IOCTL_CLEAR_LOG
  | WALB_IOCTL_IS_LOG_OVERFLOW
  | WALB_IOCTL_FREEZE
  | WALB_IOCTL_MELT
  | WALB_IOCTL_IS_FROZEN

fun control_command_id :: "control_command \<Rightarrow> u32" where
  "control_command_id WALB_IOCTL_DUMMY = 0"
| "control_command_id WALB_IOCTL_START_DEV = 1"
| "control_command_id WALB_IOCTL_STOP_DEV = 2"
| "control_command_id WALB_IOCTL_GET_MAJOR = 3"
| "control_command_id WALB_IOCTL_LIST_DEV = 4"
| "control_command_id WALB_IOCTL_NUM_OF_DEV = 5"

fun wdev_command_id :: "wdev_command \<Rightarrow> u32" where
  "wdev_command_id WALB_IOCTL_GET_OLDEST_LSID = 6"
| "wdev_command_id WALB_IOCTL_SET_OLDEST_LSID = 7"
| "wdev_command_id WALB_IOCTL_STATUS = 8"
| "wdev_command_id WALB_IOCTL_CREATE_SNAPSHOT = 9"
| "wdev_command_id WALB_IOCTL_DELETE_SNAPSHOT = 10"
| "wdev_command_id WALB_IOCTL_DELETE_SNAPSHOT_RANGE = 11"
| "wdev_command_id WALB_IOCTL_GET_SNAPSHOT = 12"
| "wdev_command_id WALB_IOCTL_NUM_OF_SNAPSHOT_RANGE = 13"
| "wdev_command_id WALB_IOCTL_LIST_SNAPSHOT_RANGE = 14"
| "wdev_command_id WALB_IOCTL_LIST_SNAPSHOT_FROM = 15"
| "wdev_command_id WALB_IOCTL_GET_CHECKPOINT_INTERVAL = 16"
| "wdev_command_id WALB_IOCTL_TAKE_CHECKPOINT = 17"
| "wdev_command_id WALB_IOCTL_SET_CHECKPOINT_INTERVAL = 18"
| "wdev_command_id WALB_IOCTL_GET_WRITTEN_LSID = 19"
| "wdev_command_id WALB_IOCTL_GET_PERMANENT_LSID = 20"
| "wdev_command_id WALB_IOCTL_GET_COMPLETED_LSID = 21"
| "wdev_command_id WALB_IOCTL_GET_LOG_USAGE = 22"
| "wdev_command_id WALB_IOCTL_GET_LOG_CAPACITY = 23"
| "wdev_command_id WALB_IOCTL_IS_FLUSH_CAPABLE = 24"
| "wdev_command_id WALB_IOCTL_RESIZE = 25"
| "wdev_command_id WALB_IOCTL_CLEAR_LOG = 26"
| "wdev_command_id WALB_IOCTL_IS_LOG_OVERFLOW = 27"
| "wdev_command_id WALB_IOCTL_FREEZE = 28"
| "wdev_command_id WALB_IOCTL_MELT = 29"
| "wdev_command_id WALB_IOCTL_IS_FROZEN = 30"

section \<open>Starting a device\<close>

definition MAX_PENDING_MB :: u32 where "MAX_PENDING_MB = 16384"

record walb_start_param =
  sp_name :: "u8 list"
  max_pending_mb :: u32
  min_pending_mb :: u32
  queue_stop_timeout_ms :: u32
  max_logpack_kb :: u32
  log_flush_interval_ms :: u32
  log_flush_interval_mb :: u32
  n_pack_bulk :: u32
  n_io_bulk :: u32

definition is_walb_start_param_valid :: "walb_start_param option \<Rightarrow> bool" where
  "is_walb_start_param_valid p =
     (case p of
        None \<Rightarrow> False
      | Some param \<Rightarrow>
          if \<not> strnlen (sp_name param) DISK_NAME_LEN < DISK_NAME_LEN then False
          else if \<not> 2 \<le> max_pending_mb param then False
          else if \<not> max_pending_mb param \<le> MAX_PENDING_MB then False
          else if \<not> 1 \<le> min_pending_mb param then False
          else if \<not> min_pending_mb param < max_pending_mb param then False
          else if \<not> 1 \<le> queue_stop_timeout_ms param then False
          else if \<not> log_flush_interval_mb param * 2 \<le> max_pending_mb param then False
          else if \<not> 0 < n_pack_bulk param then False
          else 0 < n_io_bulk param)"

section \<open>Properties\<close>

lemma length_ctl_data_bytes [simp]: "length (ctl_data_bytes d) = 48"
  by (simp add: ctl_data_bytes_def)

lemma ctl_data_of_bytes [simp]: "ctl_data_of (ctl_data_bytes d) = d"
  by (simp add: ctl_data_of_def ctl_data_bytes_def)

text \<open>
  a control message has the size that the request codes announce to the kernel, both of
  its device descriptions included, and is read back from its memory image field by field;
  the size, type and number can be recovered from each request code.
\<close>

theorem walb_ctl_layout:
  "length (walb_ctl_bytes c) = unat (drop_bit 16 WALB_IOCTL_CONTROL AND 0x3fff)
   \<and> length (walb_ctl_bytes c) = unat (drop_bit 16 WALB_IOCTL_WDEV AND 0x3fff)
   \<and> walb_ctl_of (walb_ctl_bytes c) = c
   \<and> drop_bit 8 WALB_IOCTL_VERSION AND 0xff = WALB_IOCTL_ID \<and> WALB_IOCTL_VERSION AND 0xff = 0
   \<and> drop_bit 8 WALB_IOCTL_CONTROL AND 0xff = WALB_IOCTL_ID \<and> WALB_IOCTL_CONTROL AND 0xff = 1
   \<and> drop_bit 8 WALB_IOCTL_WDEV AND 0xff = WALB_IOCTL_ID \<and> WALB_IOCTL_WDEV AND 0xff = 2"
proof -
  have "length (walb_ctl_bytes c) = 120" by (simp add: walb_ctl_bytes_def)
  moreover have "walb_ctl_of (walb_ctl_bytes c) = c" by (simp add: walb_ctl_of_def walb_ctl_bytes_def)
  ultimately show ?thesis
    by (simp add: WALB_IOCTL_VERSION_def WALB_IOCTL_CONTROL_def WALB_IOCTL_WDEV_def IOC_def
        WALB_IOCTL_ID_def)
qed

text \<open>No command number is used twice, and the two groups of commands do not share a number.\<close>

lemma command_ids_distinct:
  "inj control_command_id" "inj wdev_command_id" "control_command_id a \<noteq> wdev_command_id b"
proof -
  show "inj control_command_id" by (rule injI, case_tac x; case_tac y) simp_all
  have "unat (wdev_command_id a) = unat (wdev_command_id b) \<Longrightarrow> a = b" for a b
    by (cases a; cases b) simp_all
  then show "inj wdev_command_id" by (intro injI) simp
  show "control_command_id a \<noteq> wdev_command_id b" by (cases a; cases b) simp_all
qed

text \<open>
  the check of the start parameters does not bound \<open>log_flush_interval_mb\<close>: the product
  with 2 is computed in 32 bits, so adding $2^{31}$ MB to any accepted interval is accepted,
  too, although the interval then exceeds the largest allowed amount of pending data.
\<close>

theorem is_walb_start_param_valid_wraps:
  "is_walb_start_param_valid (Some (p\<lparr>log_flush_interval_mb := log_flush_interval_mb p + 2147483648\<rparr>))
   = is_walb_start_param_valid (Some p)"
proof -
  have z: "(4294967296 :: u32) = 0" by (subst word_unat_eq_iff) (simp add: take_bit_eq_mod)
  show ?thesis by (simp add: is_walb_start_param_valid_def distrib_right z)
qed

end
