(* ===== verification/Format.thy ===== *)
theory Format
  imports Prelude
begin

text \<open>
  Decimal numbers as the program prints and parses them: \<open>cybozu::itoa\<close> of
  \<^verbatim>\<open>cybozulib/include/cybozu/itoa.hpp\<close> for unsigned 64-bit values and \<open>cybozu::atoi\<close> of \<^verbatim>\<open>atoi.hpp\<close>, with its
  treatment of leading zeros, of characters that are no digits, of the terminator and of values that do not
  fit. Parsing a printed number gives the number back.
\<close>

definition digit_char :: "nat \<Rightarrow> char" where
  "digit_char d = char_of (48 + d)"

fun dec_nat :: "nat \<Rightarrow> string" where
  "dec_nat n = (if n < 10 then [digit_char n] else dec_nat (n div 10) @ [digit_char (n mod 10)])"

declare dec_nat.simps [simp del]

definition itoa_u64 :: "u64 \<Rightarrow> string" where
  "itoa_u64 x = dec_nat (unat x)"

text \<open>
  \<open>convertToUint\<close> at 64 bits. \<open>c - '0'\<close> is unsigned, so characters below the digit zero wrap to
  large values and end the loop as those above the digit nine do.
\<close>

fun convertToUint_loop :: "string \<Rightarrow> u64 \<Rightarrow> u64 option" where
  "convertToUint_loop [] x = Some x"
| "convertToUint_loop (c # cs) x =
     (if c = CHR 0x00 then Some x
      else let y = (of_char c :: u32) - 48 in
        if y > 9 \<or> x > 1844674407370955161 \<or> (x = 1844674407370955161 \<and> of_char c \<ge> (54 :: nat))
        then None
        else convertToUint_loop cs (x * 10 + ucast y))"

definition atoi_u64 :: "string \<Rightarrow> u64 option" where
  "atoi_u64 s =
     (case s of
        [] \<Rightarrow> None
      | c # _ \<Rightarrow> if c = CHR 0x00 then None
                else convertToUint_loop (dropWhile (\<lambda>c. c = CHR ''0'') s) 0)"

section \<open>The round trip\<close>

definition is_digit :: "char \<Rightarrow> bool" where
  "is_digit c \<longleftrightarrow> 48 \<le> (of_char c :: nat) \<and> (of_char c :: nat) \<le> 57"

definition dec_fold :: "string \<Rightarrow> nat \<Rightarrow> nat" where
  "dec_fold cs a = foldl (\<lambda>a c. 10 * a + (of_char c - 48)) a cs"

lemma of_char_digit: "d < 10 \<Longrightarrow> (of_char (digit_char d) :: nat) = 48 + d"
  by (simp add: digit_char_def)

lemma is_digit_digit_char [simp]: "d < 10 \<Longrightarrow> is_digit (digit_char d)"
  by (simp add: is_digit_def of_char_digit)

lemma dec_nat_digits: "list_all is_digit (dec_nat n)"
  by (induction n rule: dec_nat.induct) (subst dec_nat.simps, simp)

lemma dec_nat_not_Nil [simp]: "dec_nat n \<noteq> []"
  by (subst dec_nat.simps) simp

lemma dec_fold_append: "dec_fold (cs @ ds) a = dec_fold ds (dec_fold cs a)"
  by (simp add: dec_fold_def)

lemma dec_fold_dec_nat: "dec_fold (dec_nat n) 0 = n"
proof (induction n rule: dec_nat.induct)
  case (1 n)
  then show ?case
    by (subst dec_nat.simps) (simp add: dec_fold_append, simp add: dec_fold_def of_char_digit)
qed

lemma dec_fold_mono: "a \<le> dec_fold cs a"
proof (induction cs arbitrary: a)
  case Nil
  then show ?case by (simp add: dec_fold_def)
next
  case (Cons c cs)
  have "a \<le> 10 * a + (of_char c - 48)" by simp
  also have "\<dots> \<le> dec_fold cs (10 * a + (of_char c - 48))" by (rule Cons)
  finally show ?case by (simp add: dec_fold_def)
qed

lemma convertToUint_digit:
  assumes "is_digit c" and "10 * unat x + (of_char c - 48) < 2 ^ 64"
  shows "\<exists>x'. convertToUint_loop (c # cs) x = convertToUint_loop cs x'
    \<and> unat x' = 10 * unat x + (of_char c - 48)"
proof -
  define d where "d = (of_char c :: nat) - 48"
  have d: "(of_char c :: nat) = 48 + d" "d \<le> 9" using assms(1) by (auto simp: d_def is_digit_def)
  have "(of_char c :: u32) = of_nat (of_char c)" by (simp add: of_nat_of_char)
  then have y: "(of_char c :: u32) - 48 = of_nat d" using d(1) by simp
  have ud: "unat (of_nat d :: u32) = d" using d(2) by (simp add: unat_of_nat)
  have u: "unat (x * 10 + ucast (of_nat d :: u32)) = 10 * unat x + d"
    using assms(2) ud by (simp add: unat_word_ariths d_def mult.commute mod_simps)
  have "c \<noteq> CHR 0x00" using d(1) by auto
  moreover have "\<not> (of_nat d :: u32) > 9" using ud d(2) by (simp add: word_less_nat_alt)
  moreover have "\<not> x > 1844674407370955161" using assms(2) by (simp add: word_less_nat_alt)
  moreover have "\<not> (x = 1844674407370955161 \<and> (of_char c :: nat) \<ge> 54)"
    using assms(2) d by auto
  ultimately show ?thesis using u y by (auto simp: Let_def d_def)
qed

lemma convertToUint_loop_digits:
  assumes "list_all is_digit cs" and "dec_fold cs (unat x) < 2 ^ 64"
  shows "\<exists>x'. convertToUint_loop cs x = Some x' \<and> unat x' = dec_fold cs (unat x)"
  using assms
proof (induction cs arbitrary: x)
  case Nil
  then show ?case by (simp add: dec_fold_def)
next
  case (Cons c cs)
  have "dec_fold cs (10 * unat x + (of_char c - 48)) < 2 ^ 64"
    using Cons.prems(2) by (simp add: dec_fold_def)
  then have "10 * unat x + (of_char c - 48) < 2 ^ 64"
    using dec_fold_mono [of "10 * unat x + (of_char c - 48)" cs] by linarith
  then obtain x' where "convertToUint_loop (c # cs) x = convertToUint_loop cs x'"
    "unat x' = 10 * unat x + (of_char c - 48)"
    using convertToUint_digit [of c x cs] Cons.prems(1) by auto
  with Cons.IH [of x'] Cons.prems show ?case by (simp add: dec_fold_def)
qed

lemma convertToUint_skip_zeros:
  "convertToUint_loop (dropWhile (\<lambda>c. c = CHR ''0'') cs) 0 = convertToUint_loop cs 0"
proof (induction cs)
  case (Cons c cs)
  have "convertToUint_loop (CHR ''0'' # cs) 0 = convertToUint_loop cs 0"
    by (simp add: Let_def)
  with Cons show ?case by simp
qed simp

lemma atoi_itoa [simp]: "atoi_u64 (itoa_u64 x) = Some x"
proof -
  obtain c cs where c: "dec_nat (unat x) = c # cs" by (cases "dec_nat (unat x)") auto
  then have "is_digit c" using dec_nat_digits [of "unat x"] by simp
  then have "c \<noteq> CHR 0x00" by (auto simp: is_digit_def)
  moreover obtain x' where "convertToUint_loop (dec_nat (unat x)) 0 = Some x'" "unat x' = unat x"
    using convertToUint_loop_digits [OF dec_nat_digits, of "unat x" 0]
    by (auto simp: dec_fold_dec_nat)
  ultimately show ?thesis
    unfolding atoi_u64_def itoa_u64_def convertToUint_skip_zeros
    using c unsigned_word_eqI [of x' x, where ?'a = nat] by auto
qed

lemma itoa_digits: "list_all is_digit (itoa_u64 x)"
  by (simp add: itoa_u64_def dec_nat_digits)

lemma itoa_not_Nil [simp]: "itoa_u64 x \<noteq> []"
  by (simp add: itoa_u64_def)

end
