(* ===== verification/Meta.thy ===== *)
theory Meta
  imports Format
begin

text \<open>
  \<^verbatim>\<open>src/meta.hpp\<close> (the records \<open>MetaSnap\<close>, \<open>MetaDiff\<close>, \<open>MetaState\<close>, \<open>MetaLsidGid\<close> and the apply and
  merge algebra on them) and the file names and textual forms of \<^verbatim>\<open>src/meta.cpp\<close>. A snapshot
  \<open>|B,E|\<close> is a pair of generation ids, a diff \<open>|B,E|-->|B',E'|\<close> leads from a snapshot to a later
  one. Overloaded functions get the name of the argument they work on as a suffix. The two
  time conversions of \<^verbatim>\<open>include/time.hpp\<close> are calls of the C library (\<open>gmtime\<close>, \<open>strptime\<close>) and
  are arguments of the definitions that use them.
\<close>

section \<open>Snapshots\<close>

record MetaSnap =
  gidB :: u64
  gidE :: u64

abbreviation snap :: "u64 \<Rightarrow> u64 \<Rightarrow> MetaSnap" where
  "snap b e \<equiv> \<lparr>gidB = b, gidE = e\<rparr>"

definition snap_verify :: "MetaSnap \<Rightarrow> unit res" where
  "snap_verify s =
     (if gidB s > gidE s then Inl (Exception ''MetaSnap::check:must be gidB <= gidE'') else Inr ())"

definition snap_isClean :: "MetaSnap \<Rightarrow> bool" where
  "snap_isClean s \<longleftrightarrow> gidB s = gidE s"

definition snap_isDirty :: "MetaSnap \<Rightarrow> bool" where
  "snap_isDirty s \<longleftrightarrow> gidB s \<noteq> gidE s"

definition snap_set1 :: "u64 \<Rightarrow> MetaSnap res" where
  "snap_set1 gid = res_bind (snap_verify (snap gid gid)) (\<lambda>_. Inr (snap gid gid))"

definition snap_set2 :: "u64 \<Rightarrow> u64 \<Rightarrow> MetaSnap res" where
  "snap_set2 b e = res_bind (snap_verify (snap b e)) (\<lambda>_. Inr (snap b e))"

definition snap_str :: "MetaSnap \<Rightarrow> string" where
  "snap_str s =
     (if gidB s = gidE s then ''|'' @ itoa_u64 (gidB s) @ ''|''
      else ''|'' @ itoa_u64 (gidB s) @ '','' @ itoa_u64 (gidE s) @ ''|'')"

section \<open>Diffs\<close>

record MetaDiff =
  isMergeable :: bool
  isCompDiff :: bool
  d_timestamp :: u64
  snapB :: MetaSnap
  snapE :: MetaSnap
  dataSize :: u64

definition MetaDiff_default :: MetaDiff where
  "MetaDiff_default = \<lparr>isMergeable = False, isCompDiff = False, d_timestamp = 0,
     snapB = snap (- 1) (- 1), snapE = snap (- 1) (- 1), dataSize = 0\<rparr>"

definition diff_isClean :: "MetaDiff \<Rightarrow> bool" where
  "diff_isClean d \<longleftrightarrow> snap_isClean (snapB d) \<and> snap_isClean (snapE d)"

definition diff_isDirty :: "MetaDiff \<Rightarrow> bool" where
  "diff_isDirty d \<longleftrightarrow> snap_isDirty (snapB d) \<or> snap_isDirty (snapE d)"

definition diff_verify :: "MetaDiff \<Rightarrow> unit res" where
  "diff_verify d =
     (if gidB (snapB d) \<ge> gidB (snapE d)
        then Inl (Exception ''MetaDiff::broken progress constraint for B'')
      else if gidE (snapB d) > gidE (snapE d)
        then Inl (Exception ''MetaDiff::broken progress constraint for E'')
      else Inr ())"

definition diff_eq :: "MetaDiff \<Rightarrow> MetaDiff \<Rightarrow> bool" where
  "diff_eq d d' \<longleftrightarrow> snapB d = snapB d' \<and> snapE d = snapE d'"

section \<open>States of a full image\<close>

record MetaState =
  isApplying :: bool
  st_timestamp :: u64
  st_snapB :: MetaSnap
  st_snapE :: MetaSnap
  isExplicit :: bool

definition state_verify :: "MetaState \<Rightarrow> unit res" where
  "state_verify st =
     (if isApplying st \<and> gidB (st_snapB st) \<ge> gidB (st_snapE st)
        then Inl (Exception ''MetaState::broken progress constraint'') else Inr ())"

definition MetaState1 :: "MetaSnap \<Rightarrow> u64 \<Rightarrow> MetaState res" where
  "MetaState1 s ts =
     (let st = \<lparr>isApplying = False, st_timestamp = ts, st_snapB = s, st_snapE = s,
                isExplicit = False\<rparr>
      in res_bind (state_verify st) (\<lambda>_. Inr st))"

definition MetaState2 :: "MetaSnap \<Rightarrow> MetaSnap \<Rightarrow> u64 \<Rightarrow> MetaState res" where
  "MetaState2 b e ts =
     (let st = \<lparr>isApplying = True, st_timestamp = ts, st_snapB = b, st_snapE = e,
                isExplicit = False\<rparr>
      in res_bind (state_verify st) (\<lambda>_. Inr st))"

definition state_eq :: "MetaState \<Rightarrow> MetaState \<Rightarrow> bool" where
  "state_eq st st' \<longleftrightarrow> isApplying st = isApplying st' \<and> st_snapB st = st_snapB st'
     \<and> (isApplying st \<longrightarrow> st_snapE st = st_snapE st')"

definition state_str :: "MetaState \<Rightarrow> string" where
  "state_str st =
     (if isApplying st
      then ''<'' @ snap_str (st_snapB st) @ ''-->'' @ snap_str (st_snapE st) @ ''>''
      else ''<'' @ snap_str (st_snapB st) @ ''>'')"

definition state_strTs :: "(u64 \<Rightarrow> string) \<Rightarrow> MetaState \<Rightarrow> string" where
  "state_strTs unixTimeToStr st = state_str st @ ''-'' @ unixTimeToStr (st_timestamp st)"

section \<open>Applying\<close>

datatype Relation = TOO_OLD_DIFF | TOO_NEW_DIFF | APPLICABLE_DIFF | NOT_APPLICABLE_DIFF

definition getRelation :: "MetaSnap \<Rightarrow> MetaDiff \<Rightarrow> Relation" where
  "getRelation s d =
     (if gidB (snapB d) > gidB s then TOO_NEW_DIFF
      else if gidB (snapE d) \<le> gidB s then TOO_OLD_DIFF
      else APPLICABLE_DIFF)"

definition canApply :: "MetaSnap \<Rightarrow> MetaDiff \<Rightarrow> bool" where
  "canApply s d \<longleftrightarrow> getRelation s d = APPLICABLE_DIFF"

definition isTooOld :: "MetaSnap \<Rightarrow> MetaDiff \<Rightarrow> bool" where
  "isTooOld s d \<longleftrightarrow> getRelation s d = TOO_OLD_DIFF"

definition isTooNew :: "MetaSnap \<Rightarrow> MetaDiff \<Rightarrow> bool" where
  "isTooNew s d \<longleftrightarrow> getRelation s d = TOO_NEW_DIFF"

definition apply_diff :: "MetaSnap \<Rightarrow> MetaDiff \<Rightarrow> MetaSnap res" where
  "apply_diff s d =
     (if \<not> canApply s d then Inl (Exception ''apply:can not apply'')
      else let r = (if diff_isClean d
                    then snap (gidB (snapE d)) (max (gidB (snapE d)) (gidE s))
                    else snapE d)
        in res_bind (snap_verify r) (\<lambda>_. Inr r))"

fun canApply_vec :: "MetaSnap \<Rightarrow> MetaDiff list \<Rightarrow> bool res" where
  "canApply_vec s [] = Inr True"
| "canApply_vec s (d # v) =
     (if \<not> canApply s d then Inr False
      else res_bind (apply_diff s d) (\<lambda>s'. canApply_vec s' v))"

fun apply_vec :: "MetaSnap \<Rightarrow> MetaDiff list \<Rightarrow> MetaSnap res" where
  "apply_vec s [] = Inr s"
| "apply_vec s (d # v) =
     (if \<not> canApply s d then Inl (Exception ''apply:can not apply'')
      else res_bind (apply_diff s d) (\<lambda>s'. apply_vec s' v))"

section \<open>Merging\<close>

definition canMerge :: "MetaDiff \<Rightarrow> MetaDiff \<Rightarrow> bool" where
  "canMerge d0 d1 =
     (if \<not> isMergeable d1 then False
      else if isCompDiff d0 \<or> isCompDiff d1 then False
      else gidB (snapB d0) \<le> gidB (snapB d1) \<and> gidB (snapB d1) \<le> gidB (snapE d0)
        \<and> gidB (snapE d0) < gidB (snapE d1))"

definition merge_diff :: "MetaDiff \<Rightarrow> MetaDiff \<Rightarrow> MetaDiff res" where
  "merge_diff d0 d1 =
     ensure (canMerge d0 d1) Assert_Failed
       (Inr (MetaDiff_default\<lparr>snapB := snapB d0, d_timestamp := d_timestamp d1,
          isMergeable := isMergeable d0,
          snapE := (if diff_isClean d1
                    then snap (gidB (snapE d1)) (max (gidB (snapE d1)) (gidE (snapE d0)))
                    else snapE d1)\<rparr>))"

fun canMerge_loop :: "MetaDiff \<Rightarrow> MetaDiff list \<Rightarrow> bool res" where
  "canMerge_loop m [] = Inr True"
| "canMerge_loop m (d # v) =
     (if \<not> canMerge m d then Inr False
      else res_bind (merge_diff m d) (\<lambda>m'. canMerge_loop m' v))"

definition canMerge_vec :: "MetaDiff list \<Rightarrow> bool res" where
  "canMerge_vec v = (case v of [] \<Rightarrow> Inr False | d # ds \<Rightarrow> canMerge_loop d ds)"

fun merge_loop :: "MetaDiff \<Rightarrow> MetaDiff list \<Rightarrow> MetaDiff res" where
  "merge_loop m [] = Inr m"
| "merge_loop m (d # v) =
     (if \<not> canMerge m d then Inl (Exception ''merge:can not merge'')
      else res_bind (merge_diff m d) (\<lambda>m'. merge_loop m' v))"

definition merge_vec :: "MetaDiff list \<Rightarrow> MetaDiff res" where
  "merge_vec v =
     (case v of [] \<Rightarrow> Inl (Exception ''merge:empty vector.'') | d # ds \<Rightarrow> merge_loop d ds)"

section \<open>Applying to states\<close>

definition canApply_state :: "MetaState \<Rightarrow> MetaDiff \<Rightarrow> bool" where
  "canApply_state st d =
     (let b = canApply (st_snapB st) d in
      if isApplying st then b \<and> gidB (st_snapE st) \<le> gidB (snapE d) else b)"

definition beginApplying :: "MetaState \<Rightarrow> MetaDiff \<Rightarrow> MetaState res" where
  "beginApplying st d =
     ensure (canApply_state st d) Assert_Failed
       (res_bind (apply_diff (st_snapB st) d) (\<lambda>e. MetaState2 (st_snapB st) e (d_timestamp d)))"

definition endApplying :: "MetaState \<Rightarrow> MetaDiff \<Rightarrow> MetaState res" where
  "endApplying st d =
     ensure (canApply_state st d) Assert_Failed
       (res_bind (apply_diff (st_snapB st) d) (\<lambda>e. MetaState1 e (d_timestamp d)))"

definition apply_state :: "MetaState \<Rightarrow> MetaDiff \<Rightarrow> MetaState res" where
  "apply_state st d = endApplying st d"

definition canApply_state_vec :: "MetaState \<Rightarrow> MetaDiff list \<Rightarrow> bool res" where
  "canApply_state_vec st v =
     res_bind (canApply_vec (st_snapB st) v) (\<lambda>b.
       if \<not> b then Inr False
       else res_bind (apply_vec (st_snapB st) v) (\<lambda>s.
         Inr (\<not> (isApplying st \<and> gidB (st_snapE st) > gidB s))))"

definition beginApplying_vec :: "MetaState \<Rightarrow> MetaDiff list \<Rightarrow> MetaState res" where
  "beginApplying_vec st v =
     res_bind (canApply_state_vec st v) (\<lambda>b. ensure b Assert_Failed
       (if v = [] then Inr st
        else res_bind (apply_vec (st_snapB st) v) (\<lambda>e.
          MetaState2 (st_snapB st) e (d_timestamp (last v)))))"

definition endApplying_vec :: "MetaState \<Rightarrow> MetaDiff list \<Rightarrow> MetaState res" where
  "endApplying_vec st v =
     res_bind (canApply_state_vec st v) (\<lambda>b. ensure b Assert_Failed
       (if v = [] then Inr st
        else res_bind (apply_vec (st_snapB st) v) (\<lambda>e. MetaState1 e (d_timestamp (last v)))))"

definition apply_state_vec :: "MetaState \<Rightarrow> MetaDiff list \<Rightarrow> MetaState res" where
  "apply_state_vec st v = endApplying_vec st v"

definition contains :: "MetaDiff \<Rightarrow> MetaDiff \<Rightarrow> bool" where
  "contains diffC d \<longleftrightarrow>
     gidB (snapB diffC) \<le> gidB (snapB d) \<and> gidB (snapE d) \<le> gidB (snapE diffC)"

fun getMaxProgressDiff_loop :: "MetaDiff \<Rightarrow> MetaDiff list \<Rightarrow> MetaDiff" where
  "getMaxProgressDiff_loop diff [] = diff"
| "getMaxProgressDiff_loop diff (d # v) =
     (let cond0 = gidB (snapE diff) < gidB (snapE d);
          cond1 = gidB (snapE diff) = gidB (snapE d) \<and> gidB (snapB diff) < gidB (snapB d)
      in getMaxProgressDiff_loop (if cond0 \<or> cond1 then d else diff) v)"

definition getMaxProgressDiff :: "MetaDiff list \<Rightarrow> MetaDiff res" where
  "getMaxProgressDiff v =
     (case v of
        [] \<Rightarrow> Inl (Exception ''getMaxProgressDiff:empty'')
      | d # ds \<Rightarrow> Inr (getMaxProgressDiff_loop d ds))"

end
