(* ===== verification/Meta_Algebra.thy ===== *)
theory Meta_Algebra
  imports Meta
begin

text \<open>
  The laws of the apply and merge operations of \<^verbatim>\<open>src/meta.hpp\<close>. The histories of
  \<^verbatim>\<open>doc/apply-merge-model.md\<close> (a clean diff extends the snapshot; a resynchronisation produces a
  dirty diff whose end lies behind everything before) are a step relation. On them merging and
  applying commute, also for a snapshot in the middle of the merged range; for arbitrary diffs
  the exact condition is given. The last part is about states and about choosing a diff.
\<close>

section \<open>Well-formed snapshots and diffs\<close>

definition snap_ok :: "MetaSnap \<Rightarrow> bool" where
  "snap_ok s \<longleftrightarrow> gidB s \<le> gidE s"

definition diff_ok :: "MetaDiff \<Rightarrow> bool" where
  "diff_ok d \<longleftrightarrow> snap_ok (snapB d) \<and> snap_ok (snapE d)
     \<and> gidB (snapB d) < gidB (snapE d) \<and> gidE (snapB d) \<le> gidE (snapE d)"

lemma snap_eq_iff: "snap b e = s \<longleftrightarrow> b = gidB s \<and> e = gidE s"
  by (cases s) auto

lemma snap_verify_ok: "snap_verify s = Inr () \<longleftrightarrow> snap_ok s"
  by (auto simp: snap_verify_def snap_ok_def)

lemma diff_verify_ok:
  "snap_ok (snapB d) \<Longrightarrow> snap_ok (snapE d) \<Longrightarrow> diff_verify d = Inr () \<longleftrightarrow> diff_ok d"
  by (auto simp: diff_verify_def diff_ok_def)

lemma canApply_iff: "canApply s d \<longleftrightarrow> gidB (snapB d) \<le> gidB s \<and> gidB s < gidB (snapE d)"
  by (auto simp: canApply_def getRelation_def)

text \<open>The end snapshot of an application, without the checks.\<close>

definition applied :: "MetaSnap \<Rightarrow> MetaDiff \<Rightarrow> MetaSnap" where
  "applied s d =
     (if diff_isClean d then snap (gidB (snapE d)) (max (gidB (snapE d)) (gidE s)) else snapE d)"

lemma snap_ok_applied: "diff_ok d \<Longrightarrow> snap_ok (applied s d)"
  by (simp add: applied_def diff_ok_def snap_ok_def)

lemma gidB_applied [simp]: "gidB (applied s d) = gidB (snapE d)"
  by (simp add: applied_def)

lemma apply_diff_ok: "canApply s d \<Longrightarrow> diff_ok d \<Longrightarrow> apply_diff s d = Inr (applied s d)"
  using snap_ok_applied [of d s]
  by (simp add: apply_diff_def applied_def [symmetric] Let_def snap_verify_def snap_ok_def)

lemma diff_isClean_gid:
  "diff_isClean d \<longleftrightarrow> gidE (snapB d) = gidB (snapB d) \<and> gidE (snapE d) = gidB (snapE d)"
  by (auto simp: diff_isClean_def snap_isClean_def)

text \<open>The merged diff, without the checks.\<close>

definition merged :: "MetaDiff \<Rightarrow> MetaDiff \<Rightarrow> MetaDiff" where
  "merged d0 d1 = MetaDiff_default\<lparr>snapB := snapB d0, d_timestamp := d_timestamp d1,
     isMergeable := isMergeable d0, snapE := applied (snapE d0) d1\<rparr>"

lemma merge_diff_ok: "canMerge d0 d1 \<Longrightarrow> merge_diff d0 d1 = Inr (merged d0 d1)"
  by (simp add: merge_diff_def merged_def applied_def)

lemma merged_simps [simp]:
  "snapB (merged d0 d1) = snapB d0" "snapE (merged d0 d1) = applied (snapE d0) d1"
  "isCompDiff (merged d0 d1) = False" "isMergeable (merged d0 d1) = isMergeable d0"
  by (simp_all add: merged_def MetaDiff_default_def)

lemma canMerge_gid:
  "canMerge d0 d1 \<Longrightarrow> gidB (snapB d0) \<le> gidB (snapB d1) \<and> gidB (snapB d1) \<le> gidB (snapE d0)
     \<and> gidB (snapE d0) < gidB (snapE d1)"
  by (simp add: canMerge_def split: if_splits)

lemma canApply_merged:
  "canMerge d0 d1 \<Longrightarrow> canApply s (merged d0 d1) \<longleftrightarrow>
     gidB (snapB d0) \<le> gidB s \<and> gidB s < gidB (snapE d1)"
  by (simp add: canApply_iff)

section \<open>When merging and applying commute\<close>

lemma applied_merged_iff:
  assumes "diff_ok d0" and "diff_ok d1" and "gidB (snapE d0) < gidB (snapE d1)"
  shows "applied s (merged d0 d1) = applied (applied s d0) d1 \<longleftrightarrow>
    diff_isClean d0 \<and> diff_isClean d1 \<or> \<not> diff_isClean (merged d0 d1) \<or> gidE s \<le> gidB (snapE d1)"
  using assms
  by (cases "diff_isClean d0"; cases "diff_isClean d1"; cases "diff_isClean (merged d0 d1)")
    (auto simp: applied_def diff_isClean_gid diff_ok_def snap_ok_def max_def snap_eq_iff
      split: if_splits)

text \<open>
  C40: applying two diffs one after the other and applying their merge end at the same begin
  gid, and give the same snapshot exactly when both diffs are clean, or the merged diff is dirty, or the
  snapshot's end gid does not lie beyond the second diff's end.
\<close>

theorem merge_apply_iff:
  assumes "diff_ok d0" and "diff_ok d1" and "canMerge d0 d1" and "canApply s d0"
  shows "\<exists>m s1 s2 s'. merge_diff d0 d1 = Inr m \<and> apply_diff s d0 = Inr s1
    \<and> apply_diff s1 d1 = Inr s2 \<and> apply_diff s m = Inr s' \<and> gidB s' = gidB s2
    \<and> (s' = s2 \<longleftrightarrow> diff_isClean d0 \<and> diff_isClean d1 \<or> \<not> diff_isClean m
         \<or> gidE s \<le> gidB (snapE d1))"
proof -
  note g = canMerge_gid [OF assms(3)]
  have s1: "apply_diff s d0 = Inr (applied s d0)" by (rule apply_diff_ok [OF assms(4,1)])
  have "canApply (applied s d0) d1" using g by (simp add: canApply_iff)
  then have s2: "apply_diff (applied s d0) d1 = Inr (applied (applied s d0) d1)"
    by (rule apply_diff_ok [OF _ assms(2)])
  have "canApply s (merged d0 d1)" using g assms(4) by (auto simp: canApply_iff)
  moreover have "snap_ok (applied s (merged d0 d1))"
    using snap_ok_applied [OF assms(2), of "snapE d0"] by (simp add: applied_def snap_ok_def)
  ultimately have "apply_diff s (merged d0 d1) = Inr (applied s (merged d0 d1))"
    by (simp add: apply_diff_def applied_def [symmetric] Let_def snap_verify_def snap_ok_def)
  then show ?thesis
    using s1 s2 merge_diff_ok [OF assms(3)] applied_merged_iff [OF assms(1,2), of s] g by simp
qed

section \<open>Histories\<close>

text \<open>
  Rule 1: a clean diff from the snapshot's begin gid. Rule 2: a resynchronisation, from the
  whole snapshot to a dirty one that begins after the snapshot's end.
\<close>

inductive history_step :: "MetaSnap \<Rightarrow> MetaDiff \<Rightarrow> MetaSnap \<Rightarrow> bool" where
  clean_step: "\<lbrakk>snapB d = snap (gidB s) (gidB s); snapE d = snap b b; gidB s < b;
      s' = snap b (max b (gidE s))\<rbrakk> \<Longrightarrow> history_step s d s'"
| resync_step: "\<lbrakk>snapB d = s; snapE d = snap b e; gidE s < b; b < e; s' = snap b e\<rbrakk>
      \<Longrightarrow> history_step s d s'"

inductive history :: "MetaSnap \<Rightarrow> MetaDiff list \<Rightarrow> MetaSnap \<Rightarrow> bool" where
  history_Nil: "history s [] s"
| history_snoc: "\<lbrakk>history s ds t; history_step t d u\<rbrakk> \<Longrightarrow> history s (ds @ [d]) u"

inductive_cases history_stepE: "history_step s d s'"
inductive_cases history_snocE: "history s (ds @ [d]) u"
inductive_cases history_NilE: "history s [] u"

lemma history_step_facts:
  assumes "history_step s d s'" and "snap_ok s"
  shows "diff_ok d" and "snap_ok s'" and "canApply s d" and "applied s d = s'"
    and "gidB s < gidB s'" and "gidE s \<le> gidE s'" and "gidB (snapB d) = gidB s"
    and "gidB (snapE d) = gidB s'"
  using assms
  by (auto elim!: history_stepE simp: diff_ok_def snap_ok_def canApply_iff applied_def
      diff_isClean_gid max_def)

lemma history_facts:
  assumes "history s ds t" and "snap_ok s"
  shows "snap_ok t" and "gidB s \<le> gidB t" and "gidE s \<le> gidE t" and "\<forall>d \<in> set ds. diff_ok d"
  using assms
proof (induction rule: history.induct)
  case (history_snoc s ds t d u)
  {
    case 1
    with history_snoc history_step_facts show ?case by blast
  next
    case 2
    with history_snoc history_step_facts(5) show ?case by (meson less_le_trans order.trans less_imp_le)
  next
    case 3
    with history_snoc history_step_facts(6) show ?case by (meson order.trans)
  next
    case 4
    with history_snoc history_step_facts(1) show ?case by auto
  }
qed auto

lemma history_append: "history s ds t \<Longrightarrow> history t ds' u \<Longrightarrow> history s (ds @ ds') u"
proof (induction ds' arbitrary: u rule: rev_induct)
  case Nil
  then show ?case by (auto elim: history_NilE)
next
  case (snoc d ds')
  then show ?case
    by (metis append_assoc history_snocE history_snoc)
qed

text \<open>
  What the merge of a history's diffs is: it starts at the first snapshot, and either it is clean and the
  history only moved the begin gid, or its end is the last snapshot.
\<close>

definition merge_describes :: "MetaSnap \<Rightarrow> MetaDiff \<Rightarrow> MetaSnap \<Rightarrow> bool" where
  "merge_describes s m t \<longleftrightarrow>
     diff_ok m \<and> gidB (snapB m) = gidB s \<and> gidE (snapB m) \<le> gidE s \<and> gidB (snapE m) = gidB t
     \<and> (diff_isClean m \<and> gidE t = max (gidB t) (gidE s) \<or> snapE m = t)"

lemma merge_describes_first:
  "history_step s d t \<Longrightarrow> snap_ok s \<Longrightarrow> merge_describes s d t"
  by (auto elim!: history_stepE simp: merge_describes_def diff_ok_def snap_ok_def diff_isClean_gid
      max_def)

lemma merge_describes_step:
  assumes "merge_describes s m t" and "history_step t d u" and "snap_ok t" and "gidE s \<le> gidE t"
  shows "merge_describes s (merged m d) u"
  using assms(2)
proof cases
  case (clean_step b)
  then have "diff_isClean d" by (simp add: diff_isClean_gid)
  with clean_step assms(1,3,4) show ?thesis
    by (auto simp: merge_describes_def applied_def diff_ok_def snap_ok_def diff_isClean_gid max_def
        split: if_splits)
next
  case (resync_step b e)
  then have "\<not> diff_isClean d" by (auto simp: diff_isClean_gid)
  with resync_step assms(1,3,4) show ?thesis
    by (auto simp: merge_describes_def applied_def diff_ok_def snap_ok_def)
qed

lemma merge_loop_snoc:
  "merge_loop m (ds @ [d]) = res_bind (merge_loop m ds) (\<lambda>m'.
     if \<not> canMerge m' d then Inl (Exception ''merge:can not merge'') else merge_diff m' d)"
proof (induction ds arbitrary: m)
  case Nil
  then show ?case by (cases "merge_diff m d") auto
next
  case (Cons x ds)
  then show ?case by (cases "merge_diff m x") auto
qed

lemma merge_vec_snoc:
  "ds \<noteq> [] \<Longrightarrow> merge_vec (ds @ [d]) = res_bind (merge_vec ds) (\<lambda>m'.
     if \<not> canMerge m' d then Inl (Exception ''merge:can not merge'') else merge_diff m' d)"
  by (cases ds) (simp_all add: merge_vec_def merge_loop_snoc)

lemma merge_vec_history:
  assumes "history s ds t" and "snap_ok s" and "ds \<noteq> []"
    and "\<forall>d \<in> set ds. isMergeable d \<and> \<not> isCompDiff d"
  shows "\<exists>m. merge_vec ds = Inr m \<and> merge_describes s m t \<and> \<not> isCompDiff m"
  using assms
proof (induction rule: history.induct)
  case (history_snoc s ds t d u)
  show ?case
  proof (cases "ds = []")
    case True
    with history_snoc.hyps(1) have "t = s" by (auto elim: history_NilE)
    with True history_snoc.hyps(2) history_snoc.prems show ?thesis
      by (auto simp: merge_vec_def merge_describes_first)
  next
    case False
    have "\<forall>d \<in> set ds. isMergeable d \<and> \<not> isCompDiff d" using history_snoc.prems(3) by simp
    then obtain m where m: "merge_vec ds = Inr m" "merge_describes s m t" "\<not> isCompDiff m"
      using history_snoc.IH [OF history_snoc.prems(1) False] by blast
    have t: "snap_ok t" "gidB s \<le> gidB t" "gidE s \<le> gidE t"
      using history_facts [OF history_snoc.hyps(1) history_snoc.prems(1)] by simp_all
    have "gidB (snapB d) = gidB t" "gidB (snapE d) = gidB u" "gidB t < gidB u"
      using history_step_facts [OF history_snoc.hyps(2) t(1)] by simp_all
    then have "canMerge m d"
      using m t history_snoc.prems(3) by (simp add: canMerge_def merge_describes_def)
    then have "merge_vec (ds @ [d]) = Inr (merged m d)"
      by (simp add: merge_vec_snoc [OF False] m(1) merge_diff_ok)
    moreover have "merge_describes s (merged m d) u"
      by (rule merge_describes_step [OF m(2) history_snoc.hyps(2) t(1,3)])
    ultimately show ?thesis by auto
  qed
qed simp

lemma merge_describes_applied:
  assumes "merge_describes s m t" and "gidE s \<le> gidE u" and "gidE u \<le> gidE t" and "snap_ok t"
  shows "applied u m = t"
  using assms
  by (auto simp: merge_describes_def applied_def snap_ok_def diff_isClean_gid max_def snap_eq_iff
      split: if_splits)

lemma apply_vec_snoc:
  "apply_vec s (ds @ [d]) = res_bind (apply_vec s ds) (\<lambda>t.
     if \<not> canApply t d then Inl (Exception ''apply:can not apply'') else apply_diff t d)"
proof (induction ds arbitrary: s)
  case Nil
  then show ?case by (cases "apply_diff s d") auto
next
  case (Cons x ds)
  then show ?case by (cases "apply_diff s x") auto
qed

lemma apply_vec_history:
  assumes "history s ds t" and "snap_ok s"
  shows "apply_vec s ds = Inr t"
  using assms
proof (induction rule: history.induct)
  case (history_snoc s ds t d u)
  have "snap_ok t" by (rule history_facts [OF history_snoc.hyps(1) history_snoc.prems])
  note f = history_step_facts [OF history_snoc.hyps(2) this]
  with history_snoc show ?case by (simp add: apply_vec_snoc apply_diff_ok)
qed simp

text \<open>
  C37: on every history, applying the diffs one by one leads to the history's last snapshot, the
  diffs can be merged, and the merged diff applied to \<open>any\<close> snapshot of the history before the last leads
  to the same last snapshot: diffs that are already applied are not applied twice.
\<close>

theorem history_merge_apply:
  assumes "history s ds1 u" and "history u ds2 t" and "ds2 \<noteq> []" and "snap_ok s"
    and "\<forall>d \<in> set (ds1 @ ds2). isMergeable d \<and> \<not> isCompDiff d"
  shows "apply_vec u ds2 = Inr t \<and>
    (\<exists>m. merge_vec (ds1 @ ds2) = Inr m \<and> canApply u m \<and> apply_diff u m = Inr t)"
proof -
  have h: "history s (ds1 @ ds2) t" by (rule history_append [OF assms(1,2)])
  note u = history_facts [OF assms(1,4)] and t = history_facts [OF h assms(4)]
  note ut = history_facts [OF assms(2) u(1)]
  obtain m where m: "merge_vec (ds1 @ ds2) = Inr m" "merge_describes s m t"
    using merge_vec_history [OF h assms(4)] assms(3,5) by auto
  obtain ds d where ds2: "ds2 = ds @ [d]" using assms(3) by (cases ds2 rule: rev_cases) auto
  from assms(2) obtain v where v: "history u ds v" "history_step v d t"
    unfolding ds2 by (auto elim: history_snocE)
  have "gidB u < gidB t"
    using history_facts(1,2) [OF v(1) u(1)] history_step_facts(5) [OF v(2)] by (meson le_less_trans)
  then have c: "canApply u m" using m(2) u(2) by (simp add: canApply_iff merge_describes_def)
  have "apply_diff u m = Inr (applied u m)"
    using m(2) by (intro apply_diff_ok [OF c]) (simp add: merge_describes_def)
  then show ?thesis
    using m(1) c apply_vec_history [OF assms(2) u(1)]
      merge_describes_applied [OF m(2) u(3) ut(3) t(1)] by simp
qed

theorem history_merge_apply_witness:
  "apply_vec (snap 5 9) [\<lparr>isMergeable = True, isCompDiff = False, d_timestamp = 0, snapB = snap 5 9,
        snapE = snap 12 20, dataSize = 0\<rparr>] = Inr (snap 12 20) \<and>
    (\<exists>m. merge_vec ([\<lparr>isMergeable = True, isCompDiff = False, d_timestamp = 0, snapB = snap 2 2,
        snapE = snap 5 5, dataSize = 0\<rparr>] @ [\<lparr>isMergeable = True, isCompDiff = False, d_timestamp = 0,
        snapB = snap 5 9, snapE = snap 12 20, dataSize = 0\<rparr>]) = Inr m
      \<and> canApply (snap 5 9) m \<and> apply_diff (snap 5 9) m = Inr (snap 12 20))"
proof (rule history_merge_apply)
  show "history (snap 2 9) [\<lparr>isMergeable = True, isCompDiff = False, d_timestamp = 0, snapB = snap 2 2,
      snapE = snap 5 5, dataSize = 0\<rparr>] (snap 5 9)"
    using history_snoc [OF history_Nil [of "snap 2 9"] clean_step [of _ "snap 2 9" 5]] by simp
  show "history (snap 5 9) [\<lparr>isMergeable = True, isCompDiff = False, d_timestamp = 0, snapB = snap 5 9,
      snapE = snap 12 20, dataSize = 0\<rparr>] (snap 12 20)"
    using history_snoc [OF history_Nil [of "snap 5 9"] resync_step [of _ "snap 5 9" 12 20]] by simp
qed (simp_all add: snap_ok_def)

theorem merge_apply_iff_witness:
  "\<exists>m s1 s2 s'. merge_diff (MetaDiff_default\<lparr>snapB := snap 1 1, snapE := snap 3 4\<rparr>)
      (MetaDiff_default\<lparr>isMergeable := True, snapB := snap 3 3, snapE := snap 5 5\<rparr>) = Inr m
    \<and> apply_diff (snap 2 9) (MetaDiff_default\<lparr>snapB := snap 1 1, snapE := snap 3 4\<rparr>) = Inr s1
    \<and> apply_diff s1 (MetaDiff_default\<lparr>isMergeable := True, snapB := snap 3 3, snapE := snap 5 5\<rparr>) = Inr s2
    \<and> apply_diff (snap 2 9) m = Inr s' \<and> gidB s' = gidB s2
    \<and> (s' = s2 \<longleftrightarrow> diff_isClean (MetaDiff_default\<lparr>snapB := snap 1 1, snapE := snap 3 4\<rparr>)
         \<and> diff_isClean (MetaDiff_default\<lparr>isMergeable := True, snapB := snap 3 3, snapE := snap 5 5\<rparr>)
         \<or> \<not> diff_isClean m
         \<or> gidE (snap 2 9) \<le> gidB (snapE (MetaDiff_default\<lparr>isMergeable := True, snapB := snap 3 3,
             snapE := snap 5 5\<rparr>)))"
  by (rule merge_apply_iff)
    (simp_all add: diff_ok_def snap_ok_def canMerge_def canApply_iff MetaDiff_default_def)

section \<open>States\<close>

text \<open>
  the two ways to apply a diff to a full image agree: marking the image as being applied and then finishing
  gives the same state as finishing at once, and during the application exactly the diffs that
  reach at least as far can still be applied, so an interrupted application can be resumed.
\<close>

theorem begin_end_applying:
  assumes "diff_ok d" and "canApply_state st d" and "\<not> isApplying st"
  shows "\<exists>st1 st2. beginApplying st d = Inr st1 \<and> endApplying st1 d = Inr st2
    \<and> apply_state st d = Inr st2 \<and> isApplying st1 \<and> \<not> isApplying st2
    \<and> gidB (st_snapB st2) = gidB (snapE d)
    \<and> (\<forall>d'. canApply_state st1 d' \<longleftrightarrow> canApply_state st d' \<and> gidB (snapE d) \<le> gidB (snapE d'))"
proof -
  have c: "canApply (st_snapB st) d" using assms(2,3) by (simp add: canApply_state_def)
  have a: "apply_diff (st_snapB st) d = Inr (applied (st_snapB st) d)"
    by (rule apply_diff_ok [OF c assms(1)])
  let ?st1 = "\<lparr>isApplying = True, st_timestamp = d_timestamp d, st_snapB = st_snapB st,
    st_snapE = applied (st_snapB st) d, isExplicit = False\<rparr>"
  have b: "beginApplying st d = Inr ?st1"
    using c a assms(2)
    by (simp add: beginApplying_def MetaState2_def state_verify_def canApply_iff Let_def not_le)
  show ?thesis
    using b c a assms(2,3)
    by (simp add: endApplying_def apply_state_def MetaState1_def state_verify_def canApply_state_def
        Let_def)
qed

theorem begin_end_applying_witness:
  "\<exists>st1 st2. beginApplying \<lparr>isApplying = False, st_timestamp = 0, st_snapB = snap 1 1,
        st_snapE = snap 1 1, isExplicit = False\<rparr>
        (MetaDiff_default\<lparr>snapB := snap 1 1, snapE := snap 3 4\<rparr>) = Inr st1
    \<and> endApplying st1 (MetaDiff_default\<lparr>snapB := snap 1 1, snapE := snap 3 4\<rparr>) = Inr st2
    \<and> apply_state \<lparr>isApplying = False, st_timestamp = 0, st_snapB = snap 1 1,
        st_snapE = snap 1 1, isExplicit = False\<rparr>
        (MetaDiff_default\<lparr>snapB := snap 1 1, snapE := snap 3 4\<rparr>) = Inr st2
    \<and> isApplying st1 \<and> \<not> isApplying st2
    \<and> gidB (st_snapB st2) = gidB (snapE (MetaDiff_default\<lparr>snapB := snap 1 1, snapE := snap 3 4\<rparr>))
    \<and> (\<forall>d'. canApply_state st1 d' \<longleftrightarrow> canApply_state \<lparr>isApplying = False, st_timestamp = 0,
        st_snapB = snap 1 1, st_snapE = snap 1 1, isExplicit = False\<rparr> d'
        \<and> gidB (snapE (MetaDiff_default\<lparr>snapB := snap 1 1, snapE := snap 3 4\<rparr>)) \<le> gidB (snapE d'))"
  by (rule begin_end_applying)
    (simp_all add: diff_ok_def snap_ok_def canApply_state_def canApply_iff)

section \<open>Containment and choice\<close>

text \<open>
  a diff that is contained in another can be deleted: wherever it applies, the containing diff applies, too,
  and after that the contained diff is too old.
\<close>

theorem contains_safe_to_delete:
  assumes "contains dC d" and "diff_ok dC" and "canApply s d"
  shows "\<exists>s'. apply_diff s dC = Inr s' \<and> isTooOld s' d"
proof -
  have c: "canApply s dC" using assms(1,3) by (auto simp: contains_def canApply_iff)
  have "gidB (snapB d) \<le> gidB (snapE dC)" "gidB (snapE d) \<le> gidB (snapE dC)"
    using assms(1,3) by (auto simp: contains_def canApply_iff)
  then show ?thesis
    using apply_diff_ok [OF c assms(2)] by (simp add: isTooOld_def getRelation_def)
qed

theorem contains_safe_to_delete_witness:
  "\<exists>s'. apply_diff (snap 2 2) (MetaDiff_default\<lparr>snapB := snap 1 1, snapE := snap 9 9\<rparr>) = Inr s'
    \<and> isTooOld s' (MetaDiff_default\<lparr>snapB := snap 2 2, snapE := snap 5 5\<rparr>)"
  by (rule contains_safe_to_delete)
    (simp_all add: contains_def diff_ok_def snap_ok_def canApply_iff)

definition progress_le :: "MetaDiff \<Rightarrow> MetaDiff \<Rightarrow> bool" where
  "progress_le d m \<longleftrightarrow> gidB (snapE d) < gidB (snapE m)
     \<or> gidB (snapE d) = gidB (snapE m) \<and> gidB (snapB d) \<le> gidB (snapB m)"

lemma progress_le_refl [simp]: "progress_le d d"
  by (simp add: progress_le_def)

lemma progress_le_trans: "progress_le a b \<Longrightarrow> progress_le b c \<Longrightarrow> progress_le a c"
  by (auto simp: progress_le_def)

lemma getMaxProgressDiff_loop_step:
  "getMaxProgressDiff_loop m (d # v) =
     getMaxProgressDiff_loop (if progress_le d m then m else d) v"
  by (auto simp: progress_le_def Let_def not_less not_le)

lemma getMaxProgressDiff_loop_max:
  "getMaxProgressDiff_loop m v \<in> set (m # v) \<and>
   (\<forall>d \<in> set (m # v). progress_le d (getMaxProgressDiff_loop m v))"
proof (induction v arbitrary: m)
  case (Cons d v)
  have "progress_le m d" if "\<not> progress_le d m" using that by (auto simp: progress_le_def)
  then show ?case
    using Cons [of m] Cons [of d] unfolding getMaxProgressDiff_loop_step
    by (cases "progress_le d m") (auto intro: progress_le_trans simp del: getMaxProgressDiff_loop.simps)
qed simp

text \<open>
  \<open>getMaxProgressDiff\<close> of a non-empty vector returns one of the diffs that
  ends at the largest gid, and among those one that begins at the largest gid.
\<close>

theorem getMaxProgressDiff_max:
  assumes "v \<noteq> []"
  shows "\<exists>m \<in> set v. getMaxProgressDiff v = Inr m \<and> (\<forall>d \<in> set v. progress_le d m)"
  using getMaxProgressDiff_loop_max [of "hd v" "tl v"] assms
  by (cases v) (auto simp: getMaxProgressDiff_def)

theorem getMaxProgressDiff_max_witness:
  "\<exists>m \<in> set [MetaDiff_default, MetaDiff_default\<lparr>snapE := snap 3 3\<rparr>].
     getMaxProgressDiff [MetaDiff_default, MetaDiff_default\<lparr>snapE := snap 3 3\<rparr>] = Inr m
     \<and> (\<forall>d \<in> set [MetaDiff_default, MetaDiff_default\<lparr>snapE := snap 3 3\<rparr>]. progress_le d m)"
  by (rule getMaxProgressDiff_max) simp

end
