(* ===== verification/Serializer.thy ===== *)
theory Serializer
  imports Prelude
begin

text \<open>
  \<^verbatim>\<open>cybozulib/include/cybozu/serializer.hpp\<close>: plain values are stored as their bytes, \<open>unsigned int\<close>
  and wider integers in a variable length form with a header byte. Loading takes the bytes from the front of a
  stream and throws when the stream ends early. The locale \<open>serializable\<close> is the contract of a
  pair of \<open>save\<close> and \<open>load\<close>; the structures of the other theories are instances.
\<close>

section \<open>Plain values\<close>

definition stream_read :: "nat \<Rightarrow> u8 list \<Rightarrow> (u8 list \<times> u8 list) res" where
  "stream_read n is =
     ensure (n \<le> length is) (Exception ''read error'') (Inr (take n is, drop n is))"

definition savePod8 :: "u8 \<Rightarrow> u8 list" where "savePod8 x = le_store 1 x"

definition savePod16 :: "u16 \<Rightarrow> u8 list" where "savePod16 x = le_store 2 x"

definition savePod32 :: "u32 \<Rightarrow> u8 list" where "savePod32 x = le_store 4 x"

definition savePod64 :: "u64 \<Rightarrow> u8 list" where "savePod64 x = le_store 8 x"

definition loadPod8 :: "u8 list \<Rightarrow> (u8 \<times> u8 list) res" where
  "loadPod8 is = res_bind (stream_read 1 is) (\<lambda>(b, is'). Inr (le_load b, is'))"

definition loadPod16 :: "u8 list \<Rightarrow> (u16 \<times> u8 list) res" where
  "loadPod16 is = res_bind (stream_read 2 is) (\<lambda>(b, is'). Inr (le_load b, is'))"

definition loadPod32 :: "u8 list \<Rightarrow> (u32 \<times> u8 list) res" where
  "loadPod32 is = res_bind (stream_read 4 is) (\<lambda>(b, is'). Inr (le_load b, is'))"

definition loadPod64 :: "u8 list \<Rightarrow> (u64 \<times> u8 list) res" where
  "loadPod64 is = res_bind (stream_read 8 is) (\<lambda>(b, is'). Inr (le_load b, is'))"

definition save_bool :: "bool \<Rightarrow> u8 list" where
  "save_bool b = savePod8 (if b then 1 else 0)"

definition load_bool :: "u8 list \<Rightarrow> (bool \<times> u8 list) res" where
  "load_bool is = res_bind (loadPod8 is) (\<lambda>(x, is'). Inr (x \<noteq> 0, is'))"

section \<open>Variable length integers\<close>

text \<open>\<open>isRecoverable\<close> for the signed and unsigned narrower types, at 64 bits.\<close>

definition rec_i8 :: "u64 \<Rightarrow> bool" where "rec_i8 x \<longleftrightarrow> scast (ucast x :: u8) = x"

definition rec_u8 :: "u64 \<Rightarrow> bool" where "rec_u8 x \<longleftrightarrow> ucast (ucast x :: u8) = x"

definition rec_i16 :: "u64 \<Rightarrow> bool" where "rec_i16 x \<longleftrightarrow> scast (ucast x :: u16) = x"

definition rec_u16 :: "u64 \<Rightarrow> bool" where "rec_u16 x \<longleftrightarrow> ucast (ucast x :: u16) = x"

definition rec_i32 :: "u64 \<Rightarrow> bool" where "rec_i32 x \<longleftrightarrow> scast (ucast x :: u32) = x"

definition rec_u32 :: "u64 \<Rightarrow> bool" where "rec_u32 x \<longleftrightarrow> ucast (ucast x :: u32) = x"

definition saveVariableInt :: "u64 \<Rightarrow> u8 list" where
  "saveVariableInt x =
     (if rec_i8 x then
        (let b = ucast x :: u8 in
         (if (ucast b :: u32) - 0x80 \<le> 7 then savePod8 0x84 else []) @ savePod8 b)
      else if rec_u8 x then savePod8 0x80 @ savePod8 (ucast x)
      else if rec_u16 x \<or> rec_i16 x then
        savePod8 (if rec_u16 x then 0x81 else 0x85) @ savePod16 (ucast x)
      else if rec_u32 x \<or> rec_i32 x then
        savePod8 (if rec_u32 x then 0x82 else 0x86) @ savePod32 (ucast x)
      else savePod8 0x83 @ savePod64 x)"

definition loadVariableInt :: "u8 list \<Rightarrow> (u64 \<times> u8 list) res" where
  "loadVariableInt is =
     res_bind (loadPod8 is) (\<lambda>(h, is1).
       if h = 0x80 then res_bind (loadPod8 is1) (\<lambda>(v, is2). Inr (ucast v, is2))
       else if h = 0x81 then res_bind (loadPod16 is1) (\<lambda>(v, is2). Inr (ucast v, is2))
       else if h = 0x82 then res_bind (loadPod32 is1) (\<lambda>(v, is2). Inr (ucast v, is2))
       else if h = 0x83 then res_bind (loadPod64 is1) (\<lambda>(v, is2). Inr (v, is2))
       else if h = 0x84 then res_bind (loadPod8 is1) (\<lambda>(v, is2). Inr (scast v, is2))
       else if h = 0x85 then res_bind (loadPod16 is1) (\<lambda>(v, is2). Inr (scast v, is2))
       else if h = 0x86 then res_bind (loadPod32 is1) (\<lambda>(v, is2). Inr (scast v, is2))
       else if h = 0x87 then res_bind (loadPod64 is1) (\<lambda>(v, is2). Inr (v, is2))
       else Inr (scast h, is1))"

section \<open>The contract\<close>

locale serializable =
  fixes ok :: "'a \<Rightarrow> bool" and save :: "'a \<Rightarrow> u8 list" and load :: "u8 list \<Rightarrow> ('a \<times> u8 list) res"
  assumes load_save: "ok x \<Longrightarrow> load (save x @ rest) = Inr (x, rest)"
begin

lemma load_save_end: "ok x \<Longrightarrow> load (save x) = Inr (x, [])"
  using load_save [of x "[]"] by simp

lemma save_prefix_free: "ok x \<Longrightarrow> ok y \<Longrightarrow> save x @ r = save y @ r' \<Longrightarrow> x = y \<and> r = r'"
  by (metis load_save prod.inject sum.inject(2))

text \<open>Values saved one after the other are loaded one after the other.\<close>

fun load_all :: "nat \<Rightarrow> u8 list \<Rightarrow> ('a list \<times> u8 list) res" where
  "load_all 0 is = Inr ([], is)"
| "load_all (Suc n) is = res_bind (load is) (\<lambda>(x, is'). res_bind (load_all n is') (\<lambda>(xs, r). Inr (x # xs, r)))"

lemma load_all_save: "list_all ok xs \<Longrightarrow> load_all (length xs) (concat (map save xs) @ rest) = Inr (xs, rest)"
  by (induction xs) (auto simp: load_save)

end

lemma pod_roundtrips [simp]:
  "loadPod8 (savePod8 a @ rest) = Inr (a, rest)" "loadPod16 (savePod16 b @ rest) = Inr (b, rest)"
  "loadPod32 (savePod32 c @ rest) = Inr (c, rest)" "loadPod64 (savePod64 d @ rest) = Inr (d, rest)"
  by (simp_all add: loadPod8_def savePod8_def loadPod16_def savePod16_def loadPod32_def savePod32_def
      loadPod64_def savePod64_def stream_read_def del: One_nat_def)

interpretation ser_u16: serializable "\<lambda>_. True" savePod16 loadPod16
  by unfold_locales simp

interpretation ser_bool: serializable "\<lambda>_. True" save_bool load_bool
  by unfold_locales (simp add: save_bool_def load_bool_def)

text \<open>A byte that is stored without a header is none of the header values.\<close>

lemma header_range:
  "\<not> (ucast (b :: u8) :: u32) - 0x80 \<le> 7 \<Longrightarrow>
     b \<notin> {0x80, 0x81, 0x82, 0x83, 0x84, 0x85, 0x86, 0x87}"
  by auto

interpretation ser_u64: serializable "\<lambda>_. True" saveVariableInt loadVariableInt
proof
  fix x :: u64 and rest :: "u8 list"
  show "loadVariableInt (saveVariableInt x @ rest) = Inr (x, rest)"
  proof (cases "rec_i8 x")
    case True
    then have x: "scast (ucast x :: u8) = x" by (simp add: rec_i8_def)
    show ?thesis
    proof (cases "(ucast (ucast x :: u8) :: u32) - 0x80 \<le> 7")
      case True
      then show ?thesis
        using \<open>rec_i8 x\<close> x by (simp add: saveVariableInt_def loadVariableInt_def Let_def)
    next
      case False
      note header_range [OF this]
      then show ?thesis
        using False \<open>rec_i8 x\<close> x by (simp add: saveVariableInt_def loadVariableInt_def Let_def)
    qed
  next
    case False
    then show ?thesis
      by (auto simp: saveVariableInt_def loadVariableInt_def rec_u8_def rec_u16_def rec_i16_def
          rec_u32_def rec_i32_def)
  qed
qed

end
