(* ===== verification/Meta_Text.thy ===== *)
theory Meta_Text
  imports Meta_Algebra Serializer
begin

text \<open>
  External forms of the meta data: wdiff file names (\<open>createDiffFileName\<close>, \<open>parseDiffFileName\<close> of
  \<^verbatim>\<open>src/meta.cpp\<close>), the textual snapshots and states (\<open>strToMetaSnap\<close>, \<open>strToMetaState\<close>) and the
  binary serialisation of \<^verbatim>\<open>src/meta.hpp\<close>. Each form is read back as it was written. A string
  position is the suffix of the string from there; reading at the end gives the terminator.
\<close>

section \<open>File names\<close>

definition createDiffFileName :: "(u64 \<Rightarrow> string) \<Rightarrow> MetaDiff \<Rightarrow> string" where
  "createDiffFileName unixTimeToStr d =
     unixTimeToStr (d_timestamp d) @ ''-'' @ (if isMergeable d then ''M'' else ''-'')
     @ (if isCompDiff d then ''C'' else ''-'')
     @ concat (map (\<lambda>gid. ''-'' @ itoa_u64 gid)
         (if diff_isDirty d
          then [gidB (snapB d), gidE (snapB d), gidB (snapE d), gidE (snapE d)]
          else [gidB (snapB d), gidB (snapE d)]))
     @ ''.wdiff''"

text \<open>\<open>std::string::find\<close>: the first position of the pattern.\<close>

fun find_str :: "string \<Rightarrow> string \<Rightarrow> nat option" where
  "find_str pat [] = (if pat = [] then Some 0 else None)"
| "find_str pat (c # cs) =
     (if take (length pat) (c # cs) = pat then Some 0 else map_option Suc (find_str pat cs))"

text \<open>The loop over the gids; the first argument is the number of rounds left.\<close>

fun parse_gids :: "nat \<Rightarrow> string \<Rightarrow> u64 list \<Rightarrow> u64 list res" where
  "parse_gids 0 s gidV = Inr gidV"
| "parse_gids (Suc k) s gidV =
     (case find_str ''-'' s of
        Some n \<Rightarrow>
          (case atoi_u64 (take n s) of
             None \<Rightarrow> Inl (Exception ''wrong digit value'')
           | Some gid \<Rightarrow> parse_gids k (drop (n + 1) s) (gidV @ [gid]))
      | None \<Rightarrow>
          (case find_str ''.wdiff'' s of
             None \<Rightarrow> Inl (Exception ''wrong suffix'')
           | Some n \<Rightarrow>
               (case atoi_u64 (take n s) of
                  None \<Rightarrow> Inl (Exception ''wrong digit value'')
                | Some gid \<Rightarrow> Inr (gidV @ [gid]))))"

definition parseDiffFileName :: "(string \<Rightarrow> u64 res) \<Rightarrow> string \<Rightarrow> MetaDiff res" where
  "parseDiffFileName strToUnixTime name =
     (if length name < length ''YYYYMMDDhhmmss-MC-0-1.wdiff''
        then Inl (Exception ''too short name'')
      else res_bind (strToUnixTime (take 14 name)) (\<lambda>ts.
        if name ! 14 \<noteq> CHR ''-'' then Inl (Exception ''invalid timestamp str'')
        else if name ! 17 \<noteq> CHR ''-'' then Inl (Exception ''must be - at 17th char'')
        else res_bind (parse_gids 4 (drop 18 name) []) (\<lambda>gidV.
          let d = MetaDiff_default\<lparr>d_timestamp := ts, isMergeable := (name ! 15 = CHR ''M''),
                    isCompDiff := (name ! 16 = CHR ''C'')\<rparr>
          in res_bind
            (case gidV of
               [a, b] \<Rightarrow> res_bind (snap_set1 a) (\<lambda>sb. res_bind (snap_set1 b) (\<lambda>se.
                 Inr (d\<lparr>snapB := sb, snapE := se\<rparr>)))
             | [a, b, c, e] \<Rightarrow> res_bind (snap_set2 a b) (\<lambda>sb. res_bind (snap_set2 c e) (\<lambda>se.
                 Inr (d\<lparr>snapB := sb, snapE := se\<rparr>)))
             | _ \<Rightarrow> Inl (Exception ''number of gids must be 2 or 4''))
            (\<lambda>d'. res_bind (diff_verify d') (\<lambda>_. Inr d')))))"

section \<open>Reading file names back\<close>

lemma digit_not_dash: "is_digit c \<Longrightarrow> c \<noteq> CHR ''-'' \<and> c \<noteq> CHR ''.''"
  by (auto simp: is_digit_def)

lemma find_str_char_append:
  "list_all is_digit cs \<Longrightarrow> find_str ''-'' (cs @ CHR ''-'' # ds) = Some (length cs)"
  by (induction cs) (auto dest: digit_not_dash)

lemma find_str_no_dash: "list_all (\<lambda>c. c \<noteq> CHR ''-'') cs \<Longrightarrow> find_str ''-'' cs = None"
  by (induction cs) auto

lemma find_str_suffix:
  "list_all is_digit cs \<Longrightarrow> find_str ''.wdiff'' (cs @ ''.wdiff'') = Some (length cs)"
  by (induction cs) (auto dest: digit_not_dash)

lemma parse_gids_next:
  "parse_gids (Suc k) (itoa_u64 g @ CHR ''-'' # ds) gidV = parse_gids k ds (gidV @ [g])"
  using find_str_char_append [OF itoa_digits [of g], of ds] by simp

lemma parse_gids_last: "parse_gids (Suc k) (itoa_u64 g @ ''.wdiff'') gidV = Inr (gidV @ [g])"
proof -
  have "list_all (\<lambda>c. c \<noteq> CHR ''-'') (itoa_u64 g @ ''.wdiff'')"
    using itoa_digits [of g] by (auto simp: list_all_iff dest: digit_not_dash)
  then show ?thesis
    using find_str_no_dash find_str_suffix [OF itoa_digits [of g]] by simp
qed

lemma itoa_length: "Suc 0 \<le> length (itoa_u64 g)"
  by (cases "itoa_u64 g") (auto simp: itoa_not_Nil)

lemma nth_append_offset: "length xs = n \<Longrightarrow> (xs @ ys) ! (n + k) = ys ! k"
  by (simp add: nth_append)

text \<open>
  parsing the file name created for a diff returns the diff: timestamp, both flags and all
  gids; only the optional data size, which the name does not carry, is zero. The hypothesis on
  the time conversions is that a printed time has 14 characters and is parsed to itself.
\<close>

theorem parse_create_diff_file_name:
  assumes "diff_ok d" and "length (unixTimeToStr (d_timestamp d)) = 14"
    and "strToUnixTime (unixTimeToStr (d_timestamp d)) = Inr (d_timestamp d)"
  shows "parseDiffFileName strToUnixTime (createDiffFileName unixTimeToStr d) = Inr (d\<lparr>dataSize := 0\<rparr>)"
proof -
  let ?ts = "unixTimeToStr (d_timestamp d)"
  define m where "m = (if isMergeable d then CHR ''M'' else CHR ''-'')"
  define c where "c = (if isCompDiff d then CHR ''C'' else CHR ''-'')"
  define gs where "gs = (if diff_isDirty d
      then [gidB (snapB d), gidE (snapB d), gidB (snapE d), gidE (snapE d)]
      else [gidB (snapB d), gidB (snapE d)])"
  define rest where "rest = tl (concat (map (\<lambda>gid. ''-'' @ itoa_u64 gid) gs)) @ ''.wdiff''"
  have name: "createDiffFileName unixTimeToStr d = ?ts @ [CHR ''-'', m, c, CHR ''-''] @ rest"
    by (simp add: createDiffFileName_def m_def c_def rest_def gs_def)
  have gids: "parse_gids 4 rest [] = Inr gs"
    by (simp add: rest_def gs_def eval_nat_numeral parse_gids_next parse_gids_last
        del: parse_gids.simps append_Cons append_Nil)
       (simp add: parse_gids_next parse_gids_last del: parse_gids.simps)
  have len: "9 \<le> length rest"
    using itoa_length [of "gidB (snapB d)"] itoa_length [of "gidB (snapE d)"]
    by (auto simp: rest_def gs_def)
  have nth: "(?ts @ [CHR ''-'', m, c, CHR ''-''] @ rest) ! (14 + k) = ([CHR ''-'', m, c, CHR ''-''] @ rest) ! k"
    for k by (rule nth_append_offset [OF assms(2)])
  have at: "createDiffFileName unixTimeToStr d ! 14 = CHR ''-''"
    "createDiffFileName unixTimeToStr d ! 15 = m" "createDiffFileName unixTimeToStr d ! 16 = c"
    "createDiffFileName unixTimeToStr d ! 17 = CHR ''-''"
    using nth [of 0] nth [of 1] nth [of 2] nth [of 3] unfolding name by simp_all
  have parts: "take 14 (createDiffFileName unixTimeToStr d) = ?ts"
    "drop 18 (createDiffFileName unixTimeToStr d) = rest"
    "27 \<le> length (createDiffFileName unixTimeToStr d)"
    using assms(2) len unfolding name by simp_all
  have flags: "(m = CHR ''M'') = isMergeable d" "(c = CHR ''C'') = isCompDiff d"
    by (simp_all add: m_def c_def)
  have v: "snap_set2 (gidB (snapB d)) (gidE (snapB d)) = Inr (snapB d)"
    "snap_set2 (gidB (snapE d)) (gidE (snapE d)) = Inr (snapE d)"
    using assms(1) by (auto simp: snap_set2_def snap_verify_def diff_ok_def snap_ok_def)
  have cl: "\<not> diff_isDirty d \<Longrightarrow> snap_set1 (gidB (snapB d)) = Inr (snapB d)"
    "\<not> diff_isDirty d \<Longrightarrow> snap_set1 (gidB (snapE d)) = Inr (snapE d)"
    by (simp_all add: snap_set1_def snap_verify_def diff_isDirty_def snap_isDirty_def snap_eq_iff)
  have "diff_verify (d\<lparr>dataSize := 0\<rparr>) = Inr ()"
    using assms(1) by (auto simp: diff_verify_def diff_ok_def)
  moreover have "MetaDiff_default\<lparr>d_timestamp := d_timestamp d, isMergeable := isMergeable d,
      isCompDiff := isCompDiff d, snapB := snapB d, snapE := snapE d\<rparr> = d\<lparr>dataSize := 0\<rparr>"
    by (simp add: MetaDiff_default_def)
  ultimately show ?thesis
    using parts(3) v cl
    by (cases "diff_isDirty d")
      (simp_all add: parseDiffFileName_def parts(1,2) assms(3) at flags gids gs_def Let_def not_less)
qed

theorem parse_create_diff_file_name_witness:
  "parseDiffFileName (\<lambda>_. Inr 7) (createDiffFileName (\<lambda>_. ''20150101000000'')
      \<lparr>isMergeable = True, isCompDiff = False, d_timestamp = 7, snapB = snap 1 3, snapE = snap 4 5,
       dataSize = 100\<rparr>) =
    Inr (\<lparr>isMergeable = True, isCompDiff = False, d_timestamp = 7, snapB = snap 1 3, snapE = snap 4 5,
       dataSize = 100\<rparr>\<lparr>dataSize := 0\<rparr>)"
  by (rule parse_create_diff_file_name) (simp_all add: diff_ok_def snap_ok_def)

section \<open>Textual snapshots and states\<close>

definition char_at :: "string \<Rightarrow> char" where
  "char_at s = (case s of [] \<Rightarrow> CHR 0x00 | c # _ \<Rightarrow> c)"

text \<open>\<open>findNonInt\<close> splits the digits off; it asserts that the position is inside the string.\<close>

definition findNonInt :: "string \<Rightarrow> (string \<times> string) res" where
  "findNonInt s = ensure (s \<noteq> []) Assert_Failed (Inr (takeWhile is_digit s, dropWhile is_digit s))"

definition atoi_throw :: "string \<Rightarrow> u64 res" where
  "atoi_throw s = (case atoi_u64 s of None \<Rightarrow> Inl (Exception ''atoi::convertToUint'') | Some x \<Rightarrow> Inr x)"

definition parseMetaSnap :: "string \<Rightarrow> (MetaSnap \<times> string) res" where
  "parseMetaSnap s =
     (if char_at s \<noteq> CHR ''|'' then Inl (Exception ''bad input string'')
      else res_bind (findNonInt (tl s)) (\<lambda>(b, s1).
        res_bind (atoi_throw b) (\<lambda>gB.
          if char_at s1 = CHR ''|'' then res_bind (snap_set1 gB) (\<lambda>sn. Inr (sn, tl s1))
          else if char_at s1 \<noteq> CHR '','' then Inl (Exception ''bad input string'')
          else res_bind (findNonInt (tl s1)) (\<lambda>(e, s2).
            if char_at s2 \<noteq> CHR ''|'' then Inl (Exception ''bad input string'')
            else res_bind (atoi_throw e) (\<lambda>gE.
              res_bind (snap_set2 gB gE) (\<lambda>sn. Inr (sn, tl s2)))))))"

definition strToMetaSnap :: "string \<Rightarrow> MetaSnap res" where
  "strToMetaSnap s = res_bind (parseMetaSnap s) (\<lambda>(sn, _). Inr sn)"

text \<open>\<open>now\<close> is the value of \<open>time(0)\<close>.\<close>

definition strToMetaState :: "(string \<Rightarrow> u64 res) \<Rightarrow> u64 \<Rightarrow> string \<Rightarrow> MetaState res" where
  "strToMetaState strToUnixTime now s =
     (if char_at s \<noteq> CHR ''<'' then Inl (Exception ''bad input string'')
      else res_bind (parseMetaSnap (tl s)) (\<lambda>(b, s1).
        let applying = (char_at s1 \<noteq> CHR ''>'') in
        res_bind
          (if applying then
             (if take 3 s1 \<noteq> ''-->'' then Inl (Exception ''bad input string'')
              else parseMetaSnap (drop 3 s1))
           else Inr (b, s1))
          (\<lambda>(e, s2).
            if char_at s2 \<noteq> CHR ''>'' then Inl (Exception ''bad input string'')
            else res_bind
              (if tl s2 = [] then Inr now
               else if char_at (tl s2) \<noteq> CHR ''-'' then Inl (Exception ''bad input string'')
               else res_bind (findNonInt (tl (tl s2))) (\<lambda>(_, s3).
                 if s3 \<noteq> [] then Inl (Exception ''bad input string'')
                 else strToUnixTime (tl (tl s2))))
              (\<lambda>ts. if applying then MetaState2 b e ts else MetaState1 b ts))))"

lemma findNonInt_append:
  assumes "list_all is_digit cs" and "cs \<noteq> []" and "\<not> is_digit c"
  shows "findNonInt (cs @ c # ds) = Inr (cs, c # ds)"
proof -
  have all: "\<forall>x \<in> set cs. is_digit x" using assms(1) by (simp add: list_all_iff)
  have t: "takeWhile is_digit (cs @ c # ds) = cs" "dropWhile is_digit (cs @ c # ds) = c # ds"
    using all assms(3) by (simp_all add: takeWhile_append2 dropWhile_append2)
  with assms(2) show ?thesis by (simp add: findNonInt_def)
qed

lemma sep_not_digit [simp]: "\<not> is_digit CHR ''|''" "\<not> is_digit CHR '',''"
  by (simp_all add: is_digit_def)

lemma char_at_Cons [simp]: "char_at (c # cs) = c"
  by (simp add: char_at_def)

lemma parse_snap_str:
  assumes "snap_ok s"
  shows "parseMetaSnap (snap_str s @ rest) = Inr (s, rest)"
proof (cases "gidB s = gidE s")
  case True
  have "findNonInt (itoa_u64 (gidE s) @ CHR ''|'' # rest) = Inr (itoa_u64 (gidE s), CHR ''|'' # rest)"
    by (rule findNonInt_append [OF itoa_digits]) simp_all
  then show ?thesis
    using True by (simp add: snap_str_def parseMetaSnap_def atoi_throw_def snap_set1_def
        snap_verify_def snap_eq_iff)
next
  case False
  have "findNonInt (itoa_u64 (gidB s) @ CHR '','' # itoa_u64 (gidE s) @ CHR ''|'' # rest) =
      Inr (itoa_u64 (gidB s), CHR '','' # itoa_u64 (gidE s) @ CHR ''|'' # rest)"
    and "findNonInt (itoa_u64 (gidE s) @ CHR ''|'' # rest) = Inr (itoa_u64 (gidE s), CHR ''|'' # rest)"
    by (rule findNonInt_append [OF itoa_digits]; simp)+
  then show ?thesis
    using False assms by (auto simp: snap_str_def parseMetaSnap_def atoi_throw_def snap_set2_def
        snap_verify_def snap_ok_def)
qed

text \<open>
  the textual form of a state with its timestamp, as the archive prints it, is parsed back
  to the state, for plain states and for states with an application in progress; the hypothesis on the
  time conversions is that a printed time consists of digits and is parsed to itself.
\<close>

theorem strToMetaState_strTs:
  assumes "snap_ok (st_snapB st)" and "snap_ok (st_snapE st)" and "state_verify st = Inr ()"
    and "\<not> isApplying st \<Longrightarrow> st_snapE st = st_snapB st" and "\<not> isExplicit st"
    and "list_all is_digit (unixTimeToStr (st_timestamp st))" and "unixTimeToStr (st_timestamp st) \<noteq> []"
    and "strToUnixTime (unixTimeToStr (st_timestamp st)) = Inr (st_timestamp st)"
  shows "strToMetaState strToUnixTime now (state_strTs unixTimeToStr st) = Inr st"
proof -
  let ?ts = "unixTimeToStr (st_timestamp st)"
  have "\<forall>x \<in> set ?ts. is_digit x" using assms(6) by (simp add: list_all_iff)
  then have f: "findNonInt ?ts = Inr (?ts, [])"
    using assms(7) by (simp add: findNonInt_def takeWhile_eq_all_conv [THEN iffD2] dropWhile_eq_Nil_conv [THEN iffD2])
  show ?thesis
  proof (cases "isApplying st")
    case True
    have e: "state_strTs unixTimeToStr st = CHR ''<'' # snap_str (st_snapB st) @ ''-->''
        @ snap_str (st_snapE st) @ CHR ''>'' # CHR ''-'' # ?ts"
      using True by (simp add: state_strTs_def state_str_def)
    show ?thesis
      unfolding e strToMetaState_def
      using True assms(3,5,8) f parse_snap_str [OF assms(1), of "''-->'' @ snap_str (st_snapE st) @ CHR ''>'' # CHR ''-'' # ?ts"]
        parse_snap_str [OF assms(2), of "CHR ''>'' # CHR ''-'' # ?ts"]
      by (cases st) (simp add: MetaState2_def)
  next
    case False
    have e: "state_strTs unixTimeToStr st = CHR ''<'' # snap_str (st_snapB st) @ CHR ''>'' # CHR ''-'' # ?ts"
      using False by (simp add: state_strTs_def state_str_def)
    show ?thesis
      unfolding e strToMetaState_def
      using False assms(3,4,5,8) f parse_snap_str [OF assms(1), of "CHR ''>'' # CHR ''-'' # ?ts"]
      by (cases st) (simp add: MetaState1_def)
  qed
qed

theorem strToMetaState_strTs_witness:
  "strToMetaState (\<lambda>_. Inr 7) 0 (state_strTs (\<lambda>_. ''20150101000000'')
      \<lparr>isApplying = True, st_timestamp = 7, st_snapB = snap 1 3, st_snapE = snap 4 4, isExplicit = False\<rparr>) =
    Inr \<lparr>isApplying = True, st_timestamp = 7, st_snapB = snap 1 3, st_snapE = snap 4 4, isExplicit = False\<rparr>"
  by (rule strToMetaState_strTs)
    (simp_all add: snap_ok_def state_verify_def is_digit_def word_le_nat_alt)

section \<open>Binary form\<close>

definition META_SNAP_PREAMBLE :: u16 where "META_SNAP_PREAMBLE = 0x0311"

definition META_DIFF_PREAMBLE :: u16 where "META_DIFF_PREAMBLE = 0x0312"

definition META_STATE_PREAMBLE :: u16 where "META_STATE_PREAMBLE = 0x0313"

definition META_LSIDGID_PREAMBLE :: u16 where "META_LSIDGID_PREAMBLE = 0x0314"

definition snap_save :: "MetaSnap \<Rightarrow> u8 list" where
  "snap_save s =
     savePod16 META_SNAP_PREAMBLE @ saveVariableInt (gidB s) @ saveVariableInt (gidE s)"

definition snap_load :: "u8 list \<Rightarrow> (MetaSnap \<times> u8 list) res" where
  "snap_load is =
     res_bind (loadPod16 is) (\<lambda>(p, is).
     if p \<noteq> META_SNAP_PREAMBLE then Inl (Exception ''MetaSnap::check:wrong preamble'')
     else res_bind (loadVariableInt is) (\<lambda>(b, is).
     res_bind (loadVariableInt is) (\<lambda>(e, is).
     res_bind (snap_verify (snap b e)) (\<lambda>_. Inr (snap b e, is)))))"

definition diff_save :: "MetaDiff \<Rightarrow> u8 list" where
  "diff_save d =
     savePod16 META_DIFF_PREAMBLE @ save_bool (isMergeable d) @ save_bool (isCompDiff d)
     @ saveVariableInt (d_timestamp d) @ snap_save (snapB d) @ snap_save (snapE d)
     @ saveVariableInt (dataSize d)"

definition diff_load :: "u8 list \<Rightarrow> (MetaDiff \<times> u8 list) res" where
  "diff_load is =
     res_bind (loadPod16 is) (\<lambda>(p, is).
     if p \<noteq> META_DIFF_PREAMBLE then Inl (Exception ''MetaDiff::check:wrong preamble'')
     else res_bind (load_bool is) (\<lambda>(m, is).
     res_bind (load_bool is) (\<lambda>(c, is).
     res_bind (loadVariableInt is) (\<lambda>(ts, is).
     res_bind (snap_load is) (\<lambda>(b, is).
     res_bind (snap_load is) (\<lambda>(e, is).
     res_bind (loadVariableInt is) (\<lambda>(sz, is).
     let d = \<lparr>isMergeable = m, isCompDiff = c, d_timestamp = ts, snapB = b, snapE = e, dataSize = sz\<rparr>
     in res_bind (diff_verify d) (\<lambda>_. Inr (d, is)))))))))"

definition state_save :: "MetaState \<Rightarrow> u8 list" where
  "state_save st =
     savePod16 META_STATE_PREAMBLE @ save_bool (isApplying st) @ saveVariableInt (st_timestamp st)
     @ snap_save (st_snapB st) @ snap_save (st_snapE st)"

text \<open>\<open>isExplicit\<close> is not stored; \<open>load\<close> leaves the member as it is (the argument).\<close>

definition state_load :: "bool \<Rightarrow> u8 list \<Rightarrow> (MetaState \<times> u8 list) res" where
  "state_load expl is =
     res_bind (loadPod16 is) (\<lambda>(p, is).
     if p \<noteq> META_STATE_PREAMBLE then Inl (Exception ''MetaState::check:wrong preamble'')
     else res_bind (load_bool is) (\<lambda>(a, is).
     res_bind (loadVariableInt is) (\<lambda>(ts, is).
     res_bind (snap_load is) (\<lambda>(b, is).
     res_bind (snap_load is) (\<lambda>(e, is).
     let st = \<lparr>isApplying = a, st_timestamp = ts, st_snapB = b, st_snapE = e, isExplicit = expl\<rparr>
     in res_bind (state_verify st) (\<lambda>_. Inr (st, is)))))))"

record MetaLsidGid =
  lg_isMergeable :: bool
  lg_timestamp :: u64
  lg_lsid :: u64
  lg_gid :: u64

definition lsidgid_save :: "MetaLsidGid \<Rightarrow> u8 list" where
  "lsidgid_save lg =
     savePod16 META_LSIDGID_PREAMBLE @ save_bool (lg_isMergeable lg)
     @ saveVariableInt (lg_timestamp lg) @ saveVariableInt (lg_lsid lg) @ saveVariableInt (lg_gid lg)"

definition lsidgid_load :: "u8 list \<Rightarrow> (MetaLsidGid \<times> u8 list) res" where
  "lsidgid_load is =
     res_bind (loadPod16 is) (\<lambda>(p, is).
     if p \<noteq> META_LSIDGID_PREAMBLE then Inl (Exception ''MetaLsidGid::check:wrong preamble'')
     else res_bind (load_bool is) (\<lambda>(m, is).
     res_bind (loadVariableInt is) (\<lambda>(ts, is).
     res_bind (loadVariableInt is) (\<lambda>(l, is).
     res_bind (loadVariableInt is) (\<lambda>(g, is).
     Inr (\<lparr>lg_isMergeable = m, lg_timestamp = ts, lg_lsid = l, lg_gid = g\<rparr>, is))))))"

lemmas ser_simps = ser_u16.load_save ser_bool.load_save ser_u64.load_save

interpretation ser_snap: serializable snap_ok snap_save snap_load
  by unfold_locales
    (auto simp: snap_save_def snap_load_def ser_simps snap_verify_def snap_ok_def)

interpretation ser_diff: serializable diff_ok diff_save diff_load
proof
  fix d :: MetaDiff and rest :: "u8 list"
  assume ok: "diff_ok d"
  then have "snap_ok (snapB d)" "snap_ok (snapE d)" "diff_verify d = Inr ()"
    by (auto simp: diff_ok_def diff_verify_def)
  moreover have eta: "\<lparr>isMergeable = isMergeable d, isCompDiff = isCompDiff d,
      d_timestamp = d_timestamp d, snapB = snapB d, snapE = snapE d, dataSize = dataSize d\<rparr> = d"
    by (cases d) simp
  ultimately show "diff_load (diff_save d @ rest) = Inr (d, rest)"
    by (simp add: eta diff_save_def diff_load_def ser_simps ser_snap.load_save Let_def)
qed

definition state_ok :: "MetaState \<Rightarrow> bool" where
  "state_ok st \<longleftrightarrow> snap_ok (st_snapB st) \<and> snap_ok (st_snapE st) \<and> state_verify st = Inr ()
     \<and> \<not> isExplicit st"

interpretation ser_state: serializable state_ok state_save "state_load False"
proof
  fix st :: MetaState and rest :: "u8 list"
  assume ok: "state_ok st"
  then have "\<lparr>isApplying = isApplying st, st_timestamp = st_timestamp st, st_snapB = st_snapB st,
      st_snapE = st_snapE st, isExplicit = False\<rparr> = st"
    by (cases st) (simp add: state_ok_def)
  moreover have "snap_ok (st_snapB st)" "snap_ok (st_snapE st)" "state_verify st = Inr ()"
    using ok by (simp_all add: state_ok_def)
  ultimately show "state_load False (state_save st @ rest) = Inr (st, rest)"
    by (simp add: state_save_def state_load_def ser_simps ser_snap.load_save Let_def)
qed

interpretation ser_lsidgid: serializable "\<lambda>_. True" lsidgid_save lsidgid_load
  by unfold_locales (simp add: lsidgid_save_def lsidgid_load_def ser_simps)

text \<open>
  every well-formed diff, state and lsid record that is serialised is loaded back
  unchanged, from a stream that continues with other data, and the data behind it is untouched.
\<close>

theorem meta_serialisation_roundtrip:
  assumes "diff_ok d" and "state_ok st"
  shows "diff_load (diff_save d @ state_save st @ lsidgid_save lg @ rest) =
      Inr (d, state_save st @ lsidgid_save lg @ rest)
    \<and> state_load False (state_save st @ lsidgid_save lg @ rest) = Inr (st, lsidgid_save lg @ rest)
    \<and> lsidgid_load (lsidgid_save lg @ rest) = Inr (lg, rest)"
  using ser_diff.load_save [OF assms(1)] ser_state.load_save [OF assms(2)] ser_lsidgid.load_save
  by simp

theorem meta_serialisation_roundtrip_witness:
  "diff_load (diff_save (MetaDiff_default\<lparr>snapB := snap 1 1, snapE := snap 3 4\<rparr>) @
      state_save \<lparr>isApplying = False, st_timestamp = 9, st_snapB = snap 1 1, st_snapE = snap 1 1,
        isExplicit = False\<rparr> @ lsidgid_save \<lparr>lg_isMergeable = True, lg_timestamp = 1, lg_lsid = 300,
        lg_gid = 70000\<rparr> @ [1, 2]) =
      Inr (MetaDiff_default\<lparr>snapB := snap 1 1, snapE := snap 3 4\<rparr>,
        state_save \<lparr>isApplying = False, st_timestamp = 9, st_snapB = snap 1 1, st_snapE = snap 1 1,
        isExplicit = False\<rparr> @ lsidgid_save \<lparr>lg_isMergeable = True, lg_timestamp = 1, lg_lsid = 300,
        lg_gid = 70000\<rparr> @ [1, 2])
    \<and> state_load False (state_save \<lparr>isApplying = False, st_timestamp = 9, st_snapB = snap 1 1,
        st_snapE = snap 1 1, isExplicit = False\<rparr> @ lsidgid_save \<lparr>lg_isMergeable = True,
        lg_timestamp = 1, lg_lsid = 300, lg_gid = 70000\<rparr> @ [1, 2]) =
      Inr (\<lparr>isApplying = False, st_timestamp = 9, st_snapB = snap 1 1, st_snapE = snap 1 1,
        isExplicit = False\<rparr>, lsidgid_save \<lparr>lg_isMergeable = True, lg_timestamp = 1, lg_lsid = 300,
        lg_gid = 70000\<rparr> @ [1, 2])
    \<and> lsidgid_load (lsidgid_save \<lparr>lg_isMergeable = True, lg_timestamp = 1, lg_lsid = 300,
        lg_gid = 70000\<rparr> @ [1, 2]) =
      Inr (\<lparr>lg_isMergeable = True, lg_timestamp = 1, lg_lsid = 300, lg_gid = 70000\<rparr>, [1, 2])"
  by (rule meta_serialisation_roundtrip)
    (simp_all add: diff_ok_def snap_ok_def state_ok_def state_verify_def)

end
