(* ===== verification/Gid_Range.thy ===== *)
theory Gid_Range
  imports Meta
begin

text \<open>
  \<open>GidRange\<close> and \<open>GidRangeManager\<close> of \<^verbatim>\<open>src/meta.hpp\<close> and \<^verbatim>\<open>src/meta.cpp\<close>: the index that finds the
  diffs whose gid range contains a given gid. An iterator of the multimap of diffs is a
  natural number (the identity of the entry). The \<open>std::map\<close> with the range end as key is the
  list of its ranges in key order, and \<open>lower_bound\<close> is a \<open>dropWhile\<close>. The locale \<open>interval_index\<close>
  is what the manager promises to \<open>MetaDiffManager\<close>.
\<close>

section \<open>Ranges\<close>

record GidRange =
  rngB :: u64
  rngE :: u64
  its :: "nat list"

definition range_split :: "u64 \<Rightarrow> GidRange \<Rightarrow> GidRange list res" where
  "range_split gid r =
     ensure (rngB r < gid \<and> gid < rngE r) Assert_Failed
       (Inr [\<lparr>rngB = rngB r, rngE = gid, its = its r\<rparr>, r\<lparr>rngB := gid\<rparr>])"

section \<open>The manager\<close>

definition lower_bound :: "u64 \<Rightarrow> GidRange list \<Rightarrow> GidRange list" where
  "lower_bound k m = dropWhile (\<lambda>r. rngE r < k) m"

definition before_bound :: "u64 \<Rightarrow> GidRange list \<Rightarrow> GidRange list" where
  "before_bound k m = takeWhile (\<lambda>r. rngE r < k) m"

definition gid_search :: "GidRange list \<Rightarrow> u64 \<Rightarrow> nat list" where
  "gid_search m gid =
     (case lower_bound (gid + 1) m of
        [] \<Rightarrow> []
      | r # _ \<Rightarrow> if rngB r > gid then [] else its r)"

text \<open>The ranges taken out of the map, and the map without them.\<close>

definition getRange :: "GidRange list \<Rightarrow> u64 \<Rightarrow> u64 \<Rightarrow> GidRange list \<times> GidRange list" where
  "getRange m b e =
     (let after = lower_bound (b + 1) m
      in (takeWhile (\<lambda>r. \<not> rngB r \<ge> e) after,
          before_bound (b + 1) m @ dropWhile (\<lambda>r. \<not> rngB r \<ge> e) after))"

definition map_insert :: "GidRange \<Rightarrow> GidRange list \<Rightarrow> GidRange list res" where
  "map_insert r m =
     ensure (\<forall>x \<in> set m. rngE x \<noteq> rngE r) Assert_Failed
       (Inr (before_bound (rngE r) m @ r # lower_bound (rngE r) m))"

fun putRange :: "GidRange list \<Rightarrow> GidRange list \<Rightarrow> GidRange list res" where
  "putRange [] m = Inr m"
| "putRange (r # rs) m = res_bind (map_insert r m) (putRange rs)"

function range_merge_loop :: "GidRange list \<Rightarrow> GidRange \<Rightarrow> GidRange list res" where
  "range_merge_loop [] rng = Inr (if rngB rng < rngE rng then [rng] else [])"
| "range_merge_loop (r # rs) rng =
     (if rngB rng < rngE rng then
        if rngB r = rngB rng then
          res_bind (range_merge_loop rs (rng\<lparr>rngB := rngE r\<rparr>)) (\<lambda>l.
            Inr (r\<lparr>its := its r @ its rng\<rparr> # l))
        else if rngB r < rngB rng then
          ensure (rngE r \<le> rngB rng) Assert_Failed
            (res_bind (range_merge_loop rs rng) (\<lambda>l. Inr (r # l)))
        else
          res_bind (range_merge_loop (r # rs) (rng\<lparr>rngB := rngB r\<rparr>)) (\<lambda>l.
            Inr (\<lparr>rngB = rngB rng, rngE = rngB r, its = its rng\<rparr> # l))
      else Inr (r # rs))"
  by pat_completeness auto
termination
  by (relation "measures [\<lambda>(l, _). length l, \<lambda>(l, g). if l \<noteq> [] \<and> rngB (hd l) = rngB g then 0 else 1]")
    auto

definition split_front :: "GidRange list \<Rightarrow> u64 \<Rightarrow> GidRange list res" where
  "split_front l b =
     (if rngB (hd l) < b then
        ensure (b < rngE (hd l)) Assert_Failed
          (res_bind (range_split b (hd l)) (\<lambda>two. Inr (two @ tl l)))
      else Inr l)"

definition split_back :: "GidRange list \<Rightarrow> u64 \<Rightarrow> GidRange list res" where
  "split_back l e =
     (if rngE (last l) > e then
        ensure (rngB (last l) < e) Assert_Failed
          (res_bind (range_split e (last l)) (\<lambda>two. Inr (butlast l @ two)))
      else Inr l)"

definition range_merge :: "GidRange list \<Rightarrow> GidRange \<Rightarrow> GidRange list res" where
  "range_merge l rng =
     (if l = [] then Inr [rng]
      else res_bind (split_front l (rngB rng)) (\<lambda>l1.
        res_bind (split_back l1 (rngE rng)) (\<lambda>l2. range_merge_loop l2 rng)))"

definition gid_add :: "nat \<Rightarrow> u64 \<Rightarrow> u64 \<Rightarrow> GidRange list \<Rightarrow> GidRange list res" where
  "gid_add it b e m =
     (let (l, m') = getRange m b e in
      res_bind (range_merge l \<lparr>rngB = b, rngE = e, its = [it]\<rparr>) (\<lambda>l'. putRange l' m'))"

fun gid_remove_loop :: "nat \<Rightarrow> u64 \<Rightarrow> u64 \<Rightarrow> GidRange list \<Rightarrow> GidRange list" where
  "gid_remove_loop it gid e [] = []"
| "gid_remove_loop it gid e (r # rs) =
     (if gid \<le> e then
        let xs = filter (\<lambda>i. i \<noteq> it) (its r) in
        (if xs = [] then [] else [r\<lparr>its := xs\<rparr>]) @ gid_remove_loop it (rngE r + 1) e rs
      else r # rs)"

definition gid_remove :: "nat \<Rightarrow> u64 \<Rightarrow> u64 \<Rightarrow> GidRange list \<Rightarrow> GidRange list" where
  "gid_remove it b e m =
     before_bound (b + 1) m @ gid_remove_loop it (b + 1) e (lower_bound (b + 1) m)"

section \<open>What the map represents\<close>

text \<open>
  The ranges are non-empty, in order and disjoint, and each has an entry. \<open>ids_at\<close> is the
  content at a gid.
\<close>

definition ranges_ok :: "GidRange list \<Rightarrow> bool" where
  "ranges_ok m \<longleftrightarrow> (\<forall>r \<in> set m. rngB r < rngE r \<and> its r \<noteq> [])
     \<and> sorted_wrt (\<lambda>r s. rngE r \<le> rngB s) m"

definition ids_at :: "GidRange list \<Rightarrow> u64 \<Rightarrow> nat list" where
  "ids_at m g = concat (map (\<lambda>r. if rngB r \<le> g \<and> g < rngE r then its r else []) m)"

lemma ids_at_simps [simp]:
  "ids_at [] g = []" "ids_at (r # m) g = (if rngB r \<le> g \<and> g < rngE r then its r else []) @ ids_at m g"
  "ids_at (m @ m') g = ids_at m g @ ids_at m' g"
  by (simp_all add: ids_at_def)

lemma ranges_ok_Nil [simp]: "ranges_ok []"
  by (simp add: ranges_ok_def)

lemma ranges_ok_Cons: "ranges_ok (r # m) \<longleftrightarrow>
    rngB r < rngE r \<and> its r \<noteq> [] \<and> (\<forall>s \<in> set m. rngE r \<le> rngB s) \<and> ranges_ok m"
  by (auto simp: ranges_ok_def)

lemma ranges_ok_append: "ranges_ok (m @ m') \<longleftrightarrow>
    ranges_ok m \<and> ranges_ok m' \<and> (\<forall>r \<in> set m. \<forall>s \<in> set m'. rngE r \<le> rngB s)"
  by (auto simp: ranges_ok_def sorted_wrt_append)

lemma ranges_okD: "ranges_ok m \<Longrightarrow> r \<in> set m \<Longrightarrow> rngB r < rngE r"
  by (simp add: ranges_ok_def)

lemma ids_at_out: "\<forall>r \<in> set m. g < rngB r \<or> rngE r \<le> g \<Longrightarrow> ids_at m g = []"
  by (induction m) auto

section \<open>Merging a range into a list of ranges\<close>

lemma range_merge_loop_ok:
  assumes "ranges_ok l" and "rngB rng \<le> rngE rng" and "its rng \<noteq> []"
    and "\<forall>r \<in> set l. rngE r \<le> rngE rng \<or> rngB r = rngE rng"
    and "\<forall>r \<in> set l. rngE r \<le> rngB rng \<or> rngB rng \<le> rngB r"
    and "\<forall>r \<in> set l. lo \<le> rngB r \<and> rngE r \<le> hi" and "lo \<le> rngB rng" and "rngE rng \<le> hi"
  shows "\<exists>l'. range_merge_loop l rng = Inr l' \<and> ranges_ok l'
    \<and> (\<forall>r \<in> set l'. lo \<le> rngB r \<and> rngE r \<le> hi)
    \<and> (\<forall>g. ids_at l' g = ids_at l g @ (if rngB rng \<le> g \<and> g < rngE rng then its rng else []))"
  using assms
proof (induction l rng arbitrary: lo rule: range_merge_loop.induct)
  case (1 rng)
  then show ?case by (auto simp: ranges_ok_Cons)
next
  case (2 r rs rng)
  have r: "rngB r < rngE r" "its r \<noteq> []" "\<forall>s \<in> set rs. rngE r \<le> rngB s" "ranges_ok rs"
    using "2.prems"(1) by (simp_all add: ranges_ok_Cons)
  have lo: "lo \<le> rngB x" if "rngE r \<le> rngB x" for x
    using that r(1) "2.prems"(6) by (meson le_less_trans less_imp_le less_le_trans list.set_intros(1))
  have rest: "\<forall>x \<in> set rs. rngE x \<le> rngE rng \<or> rngB x = rngE rng"
    "\<forall>x \<in> set rs. rngE r \<le> rngB x \<and> rngE x \<le> hi"
    using "2.prems"(4,6) r(3) by auto
  consider (exit) "\<not> rngB rng < rngE rng" | (same) "rngB rng < rngE rng" "rngB r = rngB rng"
    | (skip) "rngB rng < rngE rng" "rngB r < rngB rng" | (ins) "rngB rng < rngE rng" "rngB rng < rngB r"
    by fastforce
  then show ?case
  proof cases
    case exit
    with "2.prems" show ?thesis by auto
  next
    case same
    have e: "rngE r \<le> rngE rng" using same "2.prems"(4) by auto
    obtain l where l: "range_merge_loop rs (rng\<lparr>rngB := rngE r\<rparr>) = Inr l" "ranges_ok l"
      "\<forall>x \<in> set l. rngE r \<le> rngB x \<and> rngE x \<le> hi"
      "\<forall>g. ids_at l g = ids_at rs g @ (if rngE r \<le> g \<and> g < rngE rng then its rng else [])"
      using "2.IH"(1) [OF same, of "rngE r"] r e rest "2.prems"(3,8) by auto
    have "ids_at rs g = []" if "g < rngE r" for g using that r(3) by (intro ids_at_out) auto
    moreover have "ranges_ok (r\<lparr>its := its r @ its rng\<rparr> # l)" using l r by (simp add: ranges_ok_Cons)
    ultimately show ?thesis
      using same e l r lo "2.prems"(6) by (simp add: not_le) (auto simp: not_le)
  next
    case skip
    then have ne: "rngB r \<noteq> rngB rng" and e: "rngE r \<le> rngB rng" using "2.prems"(5) by auto
    obtain l where l: "range_merge_loop rs rng = Inr l" "ranges_ok l"
      "\<forall>x \<in> set l. rngE r \<le> rngB x \<and> rngE x \<le> hi"
      "\<forall>g. ids_at l g = ids_at rs g @ (if rngB rng \<le> g \<and> g < rngE rng then its rng else [])"
      using "2.IH"(2) [OF skip(1) ne skip(2), of "rngE r"] r e rest "2.prems"(2,3,5,8) by auto
    then show ?thesis
      using skip e r lo "2.prems"(6) by (auto simp: ranges_ok_Cons)
  next
    case ins
    then have ne: "rngB r \<noteq> rngB rng" "\<not> rngB r < rngB rng" by auto
    have le: "rngB r \<le> rngE rng"
      using r(1) "2.prems"(4) by auto
    have lor: "\<forall>s \<in> set (r # rs). rngB r \<le> rngB s \<and> rngE s \<le> hi"
      using r "2.prems"(6) by (auto intro: order.trans less_imp_le)
    obtain l where l: "range_merge_loop (r # rs) (rng\<lparr>rngB := rngB r\<rparr>) = Inr l" "ranges_ok l"
      "\<forall>x \<in> set l. rngB r \<le> rngB x \<and> rngE x \<le> hi"
      "\<forall>g. ids_at l g = ids_at (r # rs) g @ (if rngB r \<le> g \<and> g < rngE rng then its rng else [])"
    proof -
      have "\<exists>l'. range_merge_loop (r # rs) (rng\<lparr>rngB := rngB r\<rparr>) = Inr l' \<and> ranges_ok l'
          \<and> (\<forall>x \<in> set l'. rngB r \<le> rngB x \<and> rngE x \<le> hi)
          \<and> (\<forall>g. ids_at l' g = ids_at (r # rs) g @ (if rngB (rng\<lparr>rngB := rngB r\<rparr>) \<le> g
              \<and> g < rngE (rng\<lparr>rngB := rngB r\<rparr>) then its (rng\<lparr>rngB := rngB r\<rparr>) else []))"
        using le lor "2.prems"(1,3,4,8) by (intro "2.IH"(3) [OF ins(1) ne]) simp_all
      then show ?thesis using that by (elim exE conjE) (simp del: ids_at_simps)
    qed
    have nil: "ids_at (r # rs) g = []" if "g < rngB r" for g
      using that lor by (intro ids_at_out) (auto intro: less_le_trans)
    show ?thesis
      using ins l le nil "2.prems"(3,7,8)
      by (simp add: ranges_ok_Cons) (auto simp: not_le intro: order.trans less_imp_le)
  qed
qed

lemma range_split_ok:
  assumes "rngB r < x" and "x < rngE r"
  shows "\<exists>a c. range_split x r = Inr [a, c] \<and> rngB a = rngB r \<and> rngE a = x \<and> rngB c = x
    \<and> rngE c = rngE r \<and> its a = its r \<and> its c = its r"
  using assms by (simp add: range_split_def)

lemma split_front_ok:
  assumes "ranges_ok (r # rs)" and "b < rngE r" and "b < e" and "\<forall>x \<in> set (r # rs). rngB x < e"
  shows "\<exists>l. split_front (r # rs) b = Inr l \<and> ranges_ok l \<and> l \<noteq> []
    \<and> (\<forall>x \<in> set l. rngE x \<le> b \<or> b \<le> rngB x) \<and> (\<forall>x \<in> set l. rngB x < e)
    \<and> (\<forall>x \<in> set l. (\<exists>y \<in> set (r # rs). rngB y \<le> rngB x \<and> rngE x \<le> rngE y))
    \<and> (\<forall>g. ids_at l g = ids_at (r # rs) g)"
proof (cases "rngB r < b")
  case True
  obtain a c where s: "range_split b r = Inr [a, c]" "rngB a = rngB r" "rngE a = b" "rngB c = b"
    "rngE c = rngE r" "its a = its r" "its c = its r"
    using range_split_ok [OF True assms(2)] by blast
  have "split_front (r # rs) b = Inr (a # c # rs)"
    using True assms(2) s(1) by (simp add: split_front_def)
  moreover have "ranges_ok (a # c # rs)"
    using assms(1,2) True s by (auto simp: ranges_ok_Cons intro: order.trans less_imp_le)
  moreover have "\<forall>x \<in> set rs. b \<le> rngB x"
    using assms(1,2) by (auto simp: ranges_ok_Cons intro: order.trans less_imp_le)
  ultimately show ?thesis
    using True s assms by (intro exI [of _ "a # c # rs"]) (auto intro: less_imp_le)
next
  case False
  then have "\<forall>x \<in> set (r # rs). b \<le> rngB x"
    using assms(1) by (auto simp: ranges_ok_Cons not_less intro: order.trans less_imp_le)
  with False assms show ?thesis by (auto simp: split_front_def)
qed

lemma split_back_ok:
  assumes "ranges_ok l" and "l \<noteq> []" and "\<forall>x \<in> set l. rngB x < e"
    and "\<forall>x \<in> set l. rngE x \<le> b \<or> b \<le> rngB x" and "b < e"
  shows "\<exists>l'. split_back l e = Inr l' \<and> ranges_ok l'
    \<and> (\<forall>x \<in> set l'. rngE x \<le> e \<or> rngB x = e) \<and> (\<forall>x \<in> set l'. rngE x \<le> b \<or> b \<le> rngB x)
    \<and> (\<forall>x \<in> set l'. (\<exists>y \<in> set l. rngB y \<le> rngB x \<and> rngE x \<le> rngE y))
    \<and> (\<forall>g. ids_at l' g = ids_at l g)"
proof -
  obtain m r where l: "l = m @ [r]" using assms(2) by (cases l rule: rev_cases) auto
  have m: "\<forall>x \<in> set m. rngE x \<le> rngB r" and r: "rngB r < rngE r" "rngB r < e"
    using assms(1,3) l by (auto simp: ranges_ok_append ranges_ok_Cons)
  then have me: "\<forall>x \<in> set m. rngE x \<le> e" by (auto intro: order.trans less_imp_le)
  show ?thesis
  proof (cases "rngE r > e")
    case True
    obtain a c where s: "range_split e r = Inr [a, c]" "rngB a = rngB r" "rngE a = e" "rngB c = e"
      "rngE c = rngE r" "its a = its r" "its c = its r"
      using range_split_ok [OF r(2) True] by blast
    have "split_back l e = Inr (m @ [a, c])" using True r s(1) l by (simp add: split_back_def)
    moreover have "ranges_ok (m @ [a, c])"
      using assms(1) True r s me l by (auto simp: ranges_ok_append ranges_ok_Cons)
    moreover have "b \<le> rngB r" using assms(4,5) True l by auto
    ultimately show ?thesis
      using True s assms l me r by (intro exI [of _ "m @ [a, c]"]) (auto intro: less_imp_le)
  next
    case False
    then show ?thesis using assms l me by (auto simp: split_back_def not_less)
  qed
qed

lemma range_merge_ok:
  assumes "ranges_ok l" and "b < e" and "\<forall>r \<in> set l. b < rngE r \<and> rngB r < e"
    and "lo \<le> b" and "\<forall>r \<in> set l. lo \<le> rngB r" and "e \<le> hi" and "\<forall>r \<in> set l. rngE r \<le> hi"
  shows "\<exists>l'. range_merge l \<lparr>rngB = b, rngE = e, its = [it]\<rparr> = Inr l' \<and> ranges_ok l'
    \<and> (\<forall>r \<in> set l'. lo \<le> rngB r \<and> rngE r \<le> hi)
    \<and> (\<forall>g. ids_at l' g = ids_at l g @ (if b \<le> g \<and> g < e then [it] else []))"
proof (cases l)
  case Nil
  with assms show ?thesis by (simp add: range_merge_def ranges_ok_Cons)
next
  case (Cons r rs)
  let ?rng = "\<lparr>rngB = b, rngE = e, its = [it]\<rparr>"
  obtain l1 where l1: "split_front l b = Inr l1" "ranges_ok l1" "l1 \<noteq> []"
    "\<forall>x \<in> set l1. rngE x \<le> b \<or> b \<le> rngB x" "\<forall>x \<in> set l1. rngB x < e"
    "\<forall>x \<in> set l1. (\<exists>y \<in> set l. rngB y \<le> rngB x \<and> rngE x \<le> rngE y)"
    "\<forall>g. ids_at l1 g = ids_at l g"
    using split_front_ok [of r rs b e] assms(1-3) Cons by auto
  obtain l2 where l2: "split_back l1 e = Inr l2" "ranges_ok l2"
    "\<forall>x \<in> set l2. rngE x \<le> e \<or> rngB x = e" "\<forall>x \<in> set l2. rngE x \<le> b \<or> b \<le> rngB x"
    "\<forall>x \<in> set l2. (\<exists>y \<in> set l1. rngB y \<le> rngB x \<and> rngE x \<le> rngE y)"
    "\<forall>g. ids_at l2 g = ids_at l1 g"
    using split_back_ok [OF l1(2,3,5,4) assms(2)] by auto
  have "\<forall>x \<in> set l2. lo \<le> rngB x \<and> rngE x \<le> hi"
    using l2(5) l1(6) assms(5,7) by (meson order.trans)
  then have "\<exists>l'. range_merge_loop l2 ?rng = Inr l' \<and> ranges_ok l'
      \<and> (\<forall>r \<in> set l'. lo \<le> rngB r \<and> rngE r \<le> hi)
      \<and> (\<forall>g. ids_at l' g = ids_at l2 g @ (if rngB ?rng \<le> g \<and> g < rngE ?rng then its ?rng else []))"
    using l2 assms(2,4,6) by (intro range_merge_loop_ok) simp_all
  then show ?thesis
    using Cons l1(1,7) l2(1,6) by (auto simp: range_merge_def simp del: ids_at_simps)
qed

lemma less_add1: "b < e \<Longrightarrow> x < b + 1 \<longleftrightarrow> x \<le> (b :: u64)"
proof -
  assume "b < e"
  then have "unat b + 1 < 2 ^ 64" using unat_lt64 [of e] by (simp add: word_less_nat_alt del: unat_lt64)
  then have "unat (b + 1) = unat b + 1" by (simp add: unat_word_ariths)
  then show ?thesis by (simp add: word_less_nat_alt word_le_nat_alt less_Suc_eq_le)
qed

text \<open>The three parts of the map that \<open>getRange\<close> distinguishes.\<close>

lemma getRange_parts:
  assumes "ranges_ok m" and "b < e"
  obtains pre l post where "getRange m b e = (l, pre @ post)" and "m = pre @ l @ post"
    and "\<forall>r \<in> set pre. rngE r \<le> b" and "\<forall>r \<in> set l. b < rngE r \<and> rngB r < e"
    and "\<forall>r \<in> set post. e \<le> rngB r"
proof -
  define pre where "pre = before_bound (b + 1) m"
  define low where "low = lower_bound (b + 1) m"
  define l where "l = takeWhile (\<lambda>r. \<not> rngB r \<ge> e) low"
  define post where "post = dropWhile (\<lambda>r. \<not> rngB r \<ge> e) low"
  have m: "m = pre @ low" "low = l @ post"
    by (simp_all add: pre_def low_def before_bound_def lower_bound_def l_def post_def)
  have "getRange m b e = (l, pre @ post)"
    by (simp add: getRange_def Let_def l_def post_def low_def pre_def)
  moreover have "\<forall>r \<in> set pre. rngE r \<le> b"
    by (auto simp: pre_def before_bound_def less_add1 [OF assms(2)] dest: set_takeWhileD)
  moreover have "\<forall>r \<in> set low. b < rngE r"
  proof (cases low)
    case (Cons r rs)
    then have "\<not> rngE r < b + 1"
      unfolding low_def lower_bound_def by (metis hd_dropWhile list.distinct(1) list.sel(1))
    then have r: "b < rngE r" by (simp add: less_add1 [OF assms(2)])
    have ok: "\<forall>x \<in> set rs. rngE r \<le> rngB x" "ranges_ok rs"
      using assms(1) m(1) Cons by (simp_all add: ranges_ok_append ranges_ok_Cons)
    have "b < rngE x" if "x \<in> set rs" for x
      using r ok(1) that ranges_okD [OF ok(2) that] by fastforce
    with r Cons show ?thesis by simp
  qed simp
  moreover have "\<forall>r \<in> set l. rngB r < e" by (auto simp: l_def dest!: set_takeWhileD)
  moreover have "\<forall>r \<in> set post. e \<le> rngB r"
  proof (cases post)
    case (Cons r rs)
    then have "e \<le> rngB r"
      unfolding post_def by (metis hd_dropWhile list.distinct(1) list.sel(1))
    moreover have "ranges_ok post" using assms(1) m by (simp add: ranges_ok_append)
    ultimately show ?thesis
      using Cons by (auto simp: ranges_ok_Cons intro: order.trans less_imp_le)
  qed simp
  ultimately show thesis using that m by auto
qed

lemma putRange_between:
  "ranges_ok (pre @ l @ post) \<Longrightarrow> putRange l (pre @ post) = Inr (pre @ l @ post)"
proof (induction l arbitrary: pre)
  case (Cons r rs)
  have r: "\<forall>x \<in> set pre. rngE x < rngE r" "\<forall>x \<in> set post. rngE r < rngE x"
    using Cons.prems by (auto simp: ranges_ok_append ranges_ok_Cons dest: ranges_okD
        intro: le_less_trans)
  then have "before_bound (rngE r) (pre @ post) = pre" "lower_bound (rngE r) (pre @ post) = post"
    by (cases post; auto simp: before_bound_def lower_bound_def takeWhile_append dropWhile_append)+
  then have "map_insert r (pre @ post) = Inr ((pre @ [r]) @ post)"
    using r by (auto simp: map_insert_def ensure_def)
  with Cons.IH [of "pre @ [r]"] Cons.prems show ?case by simp
qed simp

lemma gid_add_ok:
  assumes "ranges_ok m" and "b < e"
  shows "\<exists>m'. gid_add it b e m = Inr m' \<and> ranges_ok m'
    \<and> (\<forall>g. ids_at m' g = ids_at m g @ (if b \<le> g \<and> g < e then [it] else []))"
proof -
  obtain pre l post where g: "getRange m b e = (l, pre @ post)" and m: "m = pre @ l @ post"
    and pre: "\<forall>r \<in> set pre. rngE r \<le> b" and l: "\<forall>r \<in> set l. b < rngE r \<and> rngB r < e"
    and post: "\<forall>r \<in> set post. e \<le> rngB r"
    using getRange_parts [OF assms] by metis
  let ?merge = "range_merge l \<lparr>rngB = b, rngE = e, its = [it]\<rparr>"
  have ok: "ranges_ok pre" "ranges_ok l" "ranges_ok post"
    and pl: "\<forall>x \<in> set pre. \<forall>y \<in> set l. rngE x \<le> rngB y"
    and lp: "\<forall>x \<in> set l. \<forall>y \<in> set post. rngE x \<le> rngB y"
    and pp: "\<forall>x \<in> set pre. \<forall>y \<in> set post. rngE x \<le> rngB y"
    using assms(1) m by (simp_all add: ranges_ok_append)
  obtain l' where l': "?merge = Inr l'" "ranges_ok l'"
    "\<forall>g. ids_at l' g = ids_at l g @ (if b \<le> g \<and> g < e then [it] else [])"
    using range_merge_ok [OF ok(2) assms(2) l, of 0 "- 1" it] by auto
  have "rngE x \<le> rngB y" if "x \<in> set pre" "y \<in> set l'" for x y
    using range_merge_ok [OF ok(2) assms(2) l, of "rngE x" "- 1" it] that pre pl l'(1) by auto
  moreover have "rngE y \<le> rngB z" if "y \<in> set l'" "z \<in> set post" for y z
    using range_merge_ok [OF ok(2) assms(2) l, of 0 "rngB z" it] that post lp l'(1) by auto
  ultimately have fin: "ranges_ok (pre @ l' @ post)"
    using ok l'(2) pp by (auto simp: ranges_ok_append)
  have out: "ids_at pre g = []" "ids_at post g = []" if "b \<le> g" "g < e" for g
    using that pre post by (auto intro!: ids_at_out intro: order.trans less_le_trans)
  show ?thesis
    using putRange_between [OF fin] fin g l'(1,3) out m
    by (auto simp: gid_add_def simp del: ids_at_simps(2))
qed

lemma gid_search_ok:
  assumes "ranges_ok m" and "g \<noteq> - 1"
  shows "gid_search m g = ids_at m g"
proof -
  have "g < - 1" using assms(2) by (simp add: word_order.not_eq_extremum)
  then have lt: "x < g + 1 \<longleftrightarrow> x \<le> g" for x by (rule less_add1)
  have m: "m = before_bound (g + 1) m @ lower_bound (g + 1) m"
    by (simp add: before_bound_def lower_bound_def)
  have pre: "ids_at (before_bound (g + 1) m) g = []"
    by (rule ids_at_out) (auto simp: before_bound_def lt dest: set_takeWhileD)
  have low: "ids_at m g = ids_at (lower_bound (g + 1) m) g"
    using arg_cong [OF m, of "\<lambda>x. ids_at x g"] pre by simp
  have ok: "ranges_ok (lower_bound (g + 1) m)"
    using arg_cong [OF m, of ranges_ok] assms(1) by (simp add: ranges_ok_append)
  show ?thesis
  proof (cases "lower_bound (g + 1) m")
    case Nil
    then show ?thesis using low by (simp add: gid_search_def)
  next
    case (Cons r rs)
    then have "\<not> rngE r < g + 1"
      unfolding lower_bound_def by (metis hd_dropWhile list.distinct(1) list.sel(1))
    then have r: "g < rngE r" by (simp add: lt)
    have "ids_at rs g = []"
      using r ok Cons by (intro ids_at_out) (auto simp: ranges_ok_Cons intro: less_le_trans)
    then show ?thesis using Cons r low by (auto simp: gid_search_def)
  qed
qed

lemma gid_remove_loop_ok:
  assumes "ranges_ok l" and "gid > e \<Longrightarrow> \<forall>r \<in> set l. it \<notin> set (its r)"
    and "\<forall>r \<in> set l. it \<in> set (its r) \<longrightarrow> rngE r \<le> e"
  shows "ranges_ok (gid_remove_loop it gid e l)
    \<and> (\<forall>x \<in> set (gid_remove_loop it gid e l). \<exists>y \<in> set l. rngB x = rngB y \<and> rngE x = rngE y)
    \<and> (\<forall>g. ids_at (gid_remove_loop it gid e l) g = filter (\<lambda>i. i \<noteq> it) (ids_at l g))"
  using assms
proof (induction l arbitrary: gid)
  case (Cons r rs)
  have r: "rngB r < rngE r" "its r \<noteq> []" "\<forall>s \<in> set rs. rngE r \<le> rngB s" "ranges_ok rs"
    using Cons.prems(1) by (simp_all add: ranges_ok_Cons)
  show ?case
  proof (cases "gid \<le> e")
    case False
    then have "e < gid" by simp
    then have "filter (\<lambda>i. i \<noteq> it) (ids_at (r # rs) g) = ids_at (r # rs) g" for g
      using Cons.prems(2) by (intro filter_True) (auto simp: ids_at_def split: if_splits)
    with False Cons.prems(1) show ?thesis by auto
  next
    case True
    have stop: "\<forall>s \<in> set rs. it \<notin> set (its s)" if "rngE r + 1 > e"
    proof
      fix s
      assume s: "s \<in> set rs"
      have "\<not> rngE r < e" using that less_add1 [of "rngE r" e e] by auto
      moreover have "rngE r < rngE s" using s r ranges_okD by (meson le_less_trans)
      ultimately have "\<not> rngE s \<le> e" by auto
      with s Cons.prems(3) show "it \<notin> set (its s)" by auto
    qed
    let ?l = "gid_remove_loop it (rngE r + 1) e rs"
    have IH: "ranges_ok ?l" "\<forall>x \<in> set ?l. \<exists>y \<in> set rs. rngB x = rngB y \<and> rngE x = rngE y"
      "\<forall>g. ids_at ?l g = filter (\<lambda>i. i \<noteq> it) (ids_at rs g)"
      using Cons.IH [OF r(4) stop] Cons.prems(3) by auto
    have "\<forall>x \<in> set ?l. rngE r \<le> rngB x" using IH(2) r(3) by auto
    then show ?thesis
      using True r IH by (auto simp: Let_def ranges_ok_Cons)
  qed
qed simp

lemma ids_at_mem: "r \<in> set m \<Longrightarrow> rngB r \<le> g \<Longrightarrow> g < rngE r \<Longrightarrow> set (its r) \<subseteq> set (ids_at m g)"
  by (induction m) auto

lemma gid_remove_ok:
  assumes "ranges_ok m" and "b < e" and "\<forall>g. it \<in> set (ids_at m g) \<longrightarrow> b \<le> g \<and> g < e"
  shows "ranges_ok (gid_remove it b e m)
    \<and> (\<forall>g. ids_at (gid_remove it b e m) g = filter (\<lambda>i. i \<noteq> it) (ids_at m g))"
proof -
  let ?pre = "before_bound (b + 1) m" and ?low = "lower_bound (b + 1) m"
  have m: "m = ?pre @ ?low" by (simp add: before_bound_def lower_bound_def)
  have ids: "ids_at m g = ids_at ?pre g @ ids_at ?low g" for g
    using arg_cong [OF m, of "\<lambda>x. ids_at x g"] by simp
  have ok: "ranges_ok ?pre" "ranges_ok ?low" "\<forall>x \<in> set ?pre. \<forall>y \<in> set ?low. rngE x \<le> rngB y"
    using arg_cong [OF m, of ranges_ok] assms(1) by (simp_all add: ranges_ok_append)
  have sub: "set ?pre \<subseteq> set m" "set ?low \<subseteq> set m"
    by (auto simp: before_bound_def lower_bound_def dest: set_takeWhileD set_dropWhileD)
  have inside: "b \<le> rngB r \<and> rngE r \<le> e" if "r \<in> set m" "it \<in> set (its r)" for r
  proof -
    have lt: "rngB r < rngE r" using assms(1) that(1) by (rule ranges_okD)
    then have nz: "0 < unat (rngE r)" by (simp add: word_less_nat_alt)
    then have one: "unat (rngE r - 1) = unat (rngE r) - 1" by (intro unat_minus_one) auto
    have "rngE r - 1 < rngE r" "rngB r \<le> rngE r - 1"
      using lt nz by (simp_all add: word_less_nat_alt word_le_nat_alt one)
    then have "rngE r - 1 < e" and "b \<le> rngB r"
      using ids_at_mem [OF that(1), of "rngE r - 1"] ids_at_mem [OF that(1), of "rngB r"] that(2)
        assms(3) lt by auto
    moreover have "rngE r \<le> e" if "rngE r - 1 < e"
      using that nz by (simp add: word_less_nat_alt word_le_nat_alt one)
    ultimately show ?thesis by simp
  qed
  have "it \<notin> set (ids_at ?pre g)" for g
  proof
    assume "it \<in> set (ids_at ?pre g)"
    then obtain r where r: "r \<in> set ?pre" "it \<in> set (its r)"
      by (auto simp: ids_at_def split: if_splits)
    then have "rngE r \<le> b" by (auto simp: before_bound_def less_add1 [OF assms(2)] dest: set_takeWhileD)
    moreover have "rngB r < rngE r" using ok(1) r(1) by (rule ranges_okD)
    moreover have "b \<le> rngB r" using inside [of r] r sub(1) by blast
    ultimately show False by simp
  qed
  then have pre: "filter (\<lambda>i. i \<noteq> it) (ids_at ?pre g) = ids_at ?pre g" for g
    by (auto intro!: filter_True)
  have "\<not> b + 1 > e" using assms(2) less_add1 [OF assms(2), of e] by auto
  then have low: "ranges_ok (gid_remove_loop it (b + 1) e ?low)"
    "\<forall>x \<in> set (gid_remove_loop it (b + 1) e ?low). \<exists>y \<in> set ?low. rngB x = rngB y \<and> rngE x = rngE y"
    "\<forall>g. ids_at (gid_remove_loop it (b + 1) e ?low) g = filter (\<lambda>i. i \<noteq> it) (ids_at ?low g)"
    using gid_remove_loop_ok [OF ok(2), of e "b + 1" it] inside sub(2) by auto
  have "\<forall>x \<in> set ?pre. \<forall>y \<in> set (gid_remove_loop it (b + 1) e ?low). rngE x \<le> rngB y"
    using low(2) ok(3) by fastforce
  then show ?thesis
    using low ok(1) pre by (simp add: gid_remove_def ranges_ok_append ids)
qed

section \<open>The interface\<close>

text \<open>
  What an index over gid intervals promises: entries are added with their interval, removed by
  identity, and found by any gid inside. The specification is the list of the live entries.
\<close>

type_synonym entry = "nat \<times> u64 \<times> u64"

definition entries_at :: "entry list \<Rightarrow> u64 \<Rightarrow> nat list" where
  "entries_at es g = map fst (filter (\<lambda>(_, b, e). b \<le> g \<and> g < e) es)"

datatype index_op = Add nat u64 u64 | Remove nat u64 u64

fun entries_step :: "index_op \<Rightarrow> entry list \<Rightarrow> entry list" where
  "entries_step (Add i b e) es = es @ [(i, b, e)]"
| "entries_step (Remove i b e) es = filter (\<lambda>x. fst x \<noteq> i) es"

text \<open>
  The operations a client may call: fresh identities, non-empty intervals, and removal with the
  interval the entry was added with.
\<close>

fun op_allowed :: "index_op \<Rightarrow> entry list \<Rightarrow> bool" where
  "op_allowed (Add i b e) es \<longleftrightarrow> b < e \<and> i \<notin> set (map fst es)"
| "op_allowed (Remove i b e) es \<longleftrightarrow> b < e \<and> (\<forall>x \<in> set es. fst x = i \<longrightarrow> snd x = (b, e))"

fun ops_allowed :: "index_op list \<Rightarrow> entry list \<Rightarrow> bool" where
  "ops_allowed [] es \<longleftrightarrow> True"
| "ops_allowed (p # ps) es \<longleftrightarrow> op_allowed p es \<and> ops_allowed ps (entries_step p es)"

locale interval_index =
  fixes ok :: "'s \<Rightarrow> bool" and content :: "'s \<Rightarrow> u64 \<Rightarrow> nat list"
    and add :: "nat \<Rightarrow> u64 \<Rightarrow> u64 \<Rightarrow> 's \<Rightarrow> 's res" and remove :: "nat \<Rightarrow> u64 \<Rightarrow> u64 \<Rightarrow> 's \<Rightarrow> 's"
    and search :: "'s \<Rightarrow> u64 \<Rightarrow> nat list"
  assumes add_ok: "ok s \<Longrightarrow> b < e \<Longrightarrow> \<exists>s'. add i b e s = Inr s' \<and> ok s'
      \<and> (\<forall>g. content s' g = content s g @ (if b \<le> g \<and> g < e then [i] else []))"
    and remove_ok: "ok s \<Longrightarrow> b < e \<Longrightarrow> (\<forall>g. i \<in> set (content s g) \<longrightarrow> b \<le> g \<and> g < e) \<Longrightarrow>
      ok (remove i b e s) \<and> (\<forall>g. content (remove i b e s) g = filter (\<lambda>j. j \<noteq> i) (content s g))"
    and search_ok: "ok s \<Longrightarrow> g \<noteq> - 1 \<Longrightarrow> search s g = content s g"
begin

fun step :: "index_op \<Rightarrow> 's \<Rightarrow> 's res" where
  "step (Add i b e) s = add i b e s"
| "step (Remove i b e) s = Inr (remove i b e s)"

fun run :: "index_op list \<Rightarrow> 's \<Rightarrow> 's res" where
  "run [] s = Inr s"
| "run (p # ps) s = res_bind (step p s) (run ps)"

lemma step_refines:
  assumes "ok s" and "\<forall>g. content s g = entries_at es g" and "op_allowed p es"
  shows "\<exists>s'. step p s = Inr s' \<and> ok s' \<and> (\<forall>g. content s' g = entries_at (entries_step p es) g)"
proof (cases p)
  case (Add i b e)
  then show ?thesis using add_ok [OF assms(1), of b e i] assms(2,3) by (auto simp: entries_at_def)
next
  case (Remove i b e)
  then have "\<forall>g. i \<in> set (content s g) \<longrightarrow> b \<le> g \<and> g < e"
    using assms(2,3) by (fastforce simp: entries_at_def)
  moreover have "filter (\<lambda>j. j \<noteq> i) (entries_at es g) = entries_at (filter (\<lambda>x. fst x \<noteq> i) es) g" for g
    by (simp add: entries_at_def filter_map comp_def conj_commute)
  ultimately show ?thesis using Remove remove_ok [OF assms(1), of b e i] assms(2,3) by simp
qed

lemma run_refines:
  assumes "ok s" and "\<forall>g. content s g = entries_at es g" and "ops_allowed ps es"
  shows "\<exists>s'. run ps s = Inr s' \<and> ok s'
    \<and> (\<forall>g. g \<noteq> - 1 \<longrightarrow> search s' g = entries_at (fold entries_step ps es) g)"
  using assms
proof (induction ps arbitrary: s es)
  case Nil
  then show ?case by (simp add: search_ok)
next
  case (Cons p ps)
  then obtain s' where "step p s = Inr s'" "ok s'" "\<forall>g. content s' g = entries_at (entries_step p es) g"
    using step_refines [of s es p] by auto
  with Cons.IH [of s' "entries_step p es"] Cons.prems(3) show ?case by simp
qed

end

interpretation gid_index: interval_index ranges_ok ids_at gid_add gid_remove gid_search
  by unfold_locales (use gid_add_ok gid_remove_ok gid_search_ok in blast)+

fun gid_step :: "index_op \<Rightarrow> GidRange list \<Rightarrow> GidRange list res" where
  "gid_step (Add i b e) m = gid_add i b e m"
| "gid_step (Remove i b e) m = Inr (gid_remove i b e m)"

fun gid_run :: "index_op list \<Rightarrow> GidRange list \<Rightarrow> GidRange list res" where
  "gid_run [] m = Inr m"
| "gid_run (p # ps) m = res_bind (gid_step p m) (gid_run ps)"

lemma gid_run_eq: "gid_run ps m = gid_index.run ps m"
proof (induction ps arbitrary: m)
  case (Cons p ps)
  have "gid_run ps = gid_index.run ps" using Cons by (rule ext)
  then show ?case by (cases p) simp_all
qed simp

lemma search_last: "gid_search m (- 1) = (case m of [] \<Rightarrow> [] | r # _ \<Rightarrow> its r)"
  by (cases m) (simp_all add: gid_search_def lower_bound_def not_less)

text \<open>
  C21: After any sequence of additions and removals that starts from the empty map (intervals that are not empty, fresh
  identities, removal with the interval of the addition), no assertion fails, and \<open>search\<close> returns for every gid
  except \<open>2^64 - 1\<close> exactly the entries whose interval contains it, in the order of their addition. For \<open>2^64 - 1\<close>, which no interval
  contains, \<open>gid + 1\<close> wraps to 0 and the entries of the first range are returned.
\<close>

theorem gid_range_manager_refines:
  assumes "ops_allowed ops []"
  shows "\<exists>m. gid_run ops [] = Inr m \<and> ranges_ok m
    \<and> (\<forall>g. g \<noteq> - 1 \<longrightarrow> gid_search m g = entries_at (fold entries_step ops []) g)
    \<and> entries_at (fold entries_step ops []) (- 1) = [] \<and> gid_search m (- 1) = (case m of [] \<Rightarrow> [] | r # _ \<Rightarrow> its r)"
proof -
  have "entries_at es (- 1) = []" for es by (simp add: entries_at_def not_less)
  then show ?thesis using gid_index.run_refines [of "[]" "[]" ops] assms search_last by (simp add: gid_run_eq entries_at_def)
qed

theorem gid_range_manager_refines_witness:
  "\<exists>m. gid_run [Add 0 1 10, Add 1 5 20, Remove 0 1 10] [] = Inr m \<and> ranges_ok m
    \<and> (\<forall>g. g \<noteq> - 1 \<longrightarrow> gid_search m g =
        entries_at (fold entries_step [Add 0 1 10, Add 1 5 20, Remove 0 1 10] []) g)"
proof -
  have "ops_allowed [Add 0 1 10, Add 1 5 20, Remove 0 1 10] []" by simp
  from gid_range_manager_refines [OF this] show ?thesis by blast
qed

end
