(* ===== verification/Diff_Manager.thy ===== *)
theory Diff_Manager
  imports Meta_Algebra Gid_Range
begin

text \<open>
  \<open>MetaDiffManager\<close> of \<^verbatim>\<open>src/meta.hpp\<close> and \<^verbatim>\<open>src/meta.cpp\<close>: the set of the diffs of a volume, ordered by
  their begin gid, with the range index beside it. The multimap is the list of its entries in
  iteration order; an entry is its identity (what an iterator points to) and the diff. The
  lock serialises the operations; each is one atomic step of the model. The loops that
  collect diffs terminate because the begin gid grows in every round.
\<close>

section \<open>State\<close>

record diff_manager =
  mmap :: "(nat \<times> MetaDiff) list"
  rangeMgr :: "GidRange list"
  next_it :: nat

definition manager_empty :: diff_manager where
  "manager_empty = \<lparr>mmap = [], rangeMgr = [], next_it = 0\<rparr>"

abbreviation key :: "nat \<times> MetaDiff \<Rightarrow> u64" where
  "key x \<equiv> gidB (snapB (snd x))"

text \<open>\<open>emplace\<close> puts the new entry behind those with the same key.\<close>

definition mmap_emplace :: "nat \<times> MetaDiff \<Rightarrow> (nat \<times> MetaDiff) list \<Rightarrow> (nat \<times> MetaDiff) list" where
  "mmap_emplace x m = takeWhile (\<lambda>y. key y \<le> key x) m @ x # dropWhile (\<lambda>y. key y \<le> key x) m"

definition mmap_lower_bound :: "u64 \<Rightarrow> (nat \<times> MetaDiff) list \<Rightarrow> (nat \<times> MetaDiff) list" where
  "mmap_lower_bound g m = dropWhile (\<lambda>y. key y < g) m"

definition equal_range :: "u64 \<Rightarrow> (nat \<times> MetaDiff) list \<Rightarrow> (nat \<times> MetaDiff) list" where
  "equal_range g m = takeWhile (\<lambda>y. key y \<le> g) (mmap_lower_bound g m)"

text \<open>\<open>it->second\<close>; an identity that is not in the map would be a dangling iterator.\<close>

definition deref_it :: "diff_manager \<Rightarrow> nat \<Rightarrow> MetaDiff res" where
  "deref_it mgr i = (case map_of (mmap mgr) i of None \<Rightarrow> Inl Out_Of_Bounds | Some d \<Rightarrow> Inr d)"

fun deref_all :: "diff_manager \<Rightarrow> nat list \<Rightarrow> MetaDiff list res" where
  "deref_all mgr [] = Inr []"
| "deref_all mgr (i # is) =
     res_bind (deref_it mgr i) (\<lambda>d. res_bind (deref_all mgr is) (\<lambda>ds. Inr (d # ds)))"

section \<open>Adding and erasing\<close>

definition searchNolock :: "diff_manager \<Rightarrow> MetaDiff \<Rightarrow> (nat \<times> MetaDiff) option" where
  "searchNolock mgr d =
     List.find (\<lambda>x. diff_eq d (snd x)) (equal_range (gidB (snapB d)) (mmap mgr))"

definition addNolock :: "MetaDiff \<Rightarrow> diff_manager \<Rightarrow> diff_manager res" where
  "addNolock d mgr =
     (if searchNolock mgr d \<noteq> None then Inl (Exception ''MetaDiffManager::add:already exists'')
      else res_bind (gid_add (next_it mgr) (gidB (snapB d)) (gidB (snapE d)) (rangeMgr mgr)) (\<lambda>rm.
        Inr \<lparr>mmap = mmap_emplace (next_it mgr, d) (mmap mgr), rangeMgr = rm,
             next_it = Suc (next_it mgr)\<rparr>))"

definition erase_it :: "nat \<times> MetaDiff \<Rightarrow> diff_manager \<Rightarrow> diff_manager" where
  "erase_it x mgr =
     mgr\<lparr>rangeMgr := gid_remove (fst x) (gidB (snapB (snd x))) (gidB (snapE (snd x))) (rangeMgr mgr),
         mmap := filter (\<lambda>y. fst y \<noteq> fst x) (mmap mgr)\<rparr>"

definition eraseNolock :: "MetaDiff \<Rightarrow> bool \<Rightarrow> diff_manager \<Rightarrow> diff_manager res" where
  "eraseNolock d doesThrowError mgr =
     (case searchNolock mgr d of
        None \<Rightarrow> if doesThrowError then Inl (Exception ''MetaDiffManager::erase:not found'') else Inr mgr
      | Some x \<Rightarrow> Inr (erase_it x mgr))"

fun erase_vec :: "MetaDiff list \<Rightarrow> bool \<Rightarrow> diff_manager \<Rightarrow> diff_manager res" where
  "erase_vec [] thr mgr = Inr mgr"
| "erase_vec (d # v) thr mgr = res_bind (eraseNolock d thr mgr) (erase_vec v thr)"

fun add_vec :: "MetaDiff list \<Rightarrow> diff_manager \<Rightarrow> diff_manager res" where
  "add_vec [] mgr = Inr mgr"
| "add_vec (d # v) mgr = res_bind (addNolock d mgr) (add_vec v)"

definition manager_clear :: "diff_manager \<Rightarrow> diff_manager" where
  "manager_clear mgr = mgr\<lparr>rangeMgr := [], mmap := []\<rparr>"

definition manager_reset :: "MetaDiff list \<Rightarrow> diff_manager \<Rightarrow> diff_manager res" where
  "manager_reset v mgr = add_vec v (manager_clear mgr)"

text \<open>The entries of one begin gid get or lose the mergeable flag; the changed diffs are returned.\<close>

definition set_mergeable :: "bool \<Rightarrow> MetaDiff \<Rightarrow> MetaDiff" where
  "set_mergeable enable d =
     (if enable then (if isMergeable d then d\<lparr>isMergeable := False\<rparr> else d)
      else (if \<not> isMergeable d then d\<lparr>isMergeable := True\<rparr> else d))"

definition changeSnapshot ::
  "u64 \<Rightarrow> bool \<Rightarrow> diff_manager \<Rightarrow> bool \<times> MetaDiff list \<times> diff_manager"
where
  "changeSnapshot gid enable mgr =
     (let rng = equal_range gid (mmap mgr) in
      if rng = [] then (False, [], mgr)
      else (True,
        map (set_mergeable enable \<circ> snd) (filter (\<lambda>x. isMergeable (snd x) = enable) rng),
        mgr\<lparr>mmap := map (\<lambda>x. if fst x \<in> set (map fst rng) then (fst x, set_mergeable enable (snd x))
                             else x) (mmap mgr)\<rparr>))"

text \<open>
  The two loops that walk over the map and erase entries: the first result is the vector of
  the removed diffs.
\<close>

fun gcRange_loop ::
  "u64 \<Rightarrow> u64 \<Rightarrow> (nat \<times> MetaDiff) list \<Rightarrow> diff_manager \<Rightarrow> MetaDiff list \<times> diff_manager"
where
  "gcRange_loop b e [] mgr = ([], mgr)"
| "gcRange_loop b e (x # xs) mgr =
     (let d = snd x in
      if gidB (snapB d) \<ge> e then ([], mgr)
      else if b \<le> gidB (snapB d) \<and> gidB (snapE d) \<le> e \<and> \<not> (b = gidB (snapB d) \<and> e = gidB (snapE d))
        then (let (v, mgr') = gcRange_loop b e xs (erase_it x mgr) in (d # v, mgr'))
      else gcRange_loop b e xs mgr)"

definition gcRange :: "u64 \<Rightarrow> u64 \<Rightarrow> diff_manager \<Rightarrow> MetaDiff list \<times> diff_manager" where
  "gcRange b e mgr = gcRange_loop b e (mmap_lower_bound b (mmap mgr)) mgr"

fun eraseBeforeGid_loop ::
  "u64 \<Rightarrow> (nat \<times> MetaDiff) list \<Rightarrow> diff_manager \<Rightarrow> MetaDiff list \<times> diff_manager"
where
  "eraseBeforeGid_loop gid [] mgr = ([], mgr)"
| "eraseBeforeGid_loop gid (x # xs) mgr =
     (let d = snd x in
      if gid \<le> gidB (snapB d) then ([], mgr)
      else if gidB (snapE d) \<le> gid
        then (let (v, mgr') = eraseBeforeGid_loop gid xs (erase_it x mgr) in (d # v, mgr'))
      else eraseBeforeGid_loop gid xs mgr)"

definition eraseBeforeGid :: "u64 \<Rightarrow> diff_manager \<Rightarrow> MetaDiff list \<times> diff_manager" where
  "eraseBeforeGid gid mgr = eraseBeforeGid_loop gid (mmap mgr) mgr"

definition eraseBefore :: "MetaState \<Rightarrow> diff_manager \<Rightarrow> MetaDiff list \<times> diff_manager" where
  "eraseBefore st mgr = eraseBeforeGid (gidB (st_snapB st)) mgr"

section \<open>Searching\<close>

definition getFirstDiffsNolock :: "diff_manager \<Rightarrow> u64 \<Rightarrow> MetaDiff list" where
  "getFirstDiffsNolock mgr gid =
     (case mmap_lower_bound gid (mmap mgr) of
        [] \<Rightarrow> []
      | x # _ \<Rightarrow> map snd (equal_range (key x) (mmap mgr)))"

definition getMergeableCandidatesNolock :: "diff_manager \<Rightarrow> MetaDiff \<Rightarrow> MetaDiff list res" where
  "getMergeableCandidatesNolock mgr d =
     res_bind (deref_all mgr (gid_search (rangeMgr mgr) (gidB (snapE d)))) (\<lambda>v.
       Inr (filter (\<lambda>d'. \<not> diff_eq d d' \<and> canMerge d d') v))"

definition getApplicableCandidatesNolock :: "diff_manager \<Rightarrow> MetaSnap \<Rightarrow> MetaDiff list res" where
  "getApplicableCandidatesNolock mgr s =
     res_bind (deref_all mgr (gid_search (rangeMgr mgr) (gidB s))) (\<lambda>v.
       Inr (filter (canApply s) v))"

definition getApplicableDiffNolock :: "diff_manager \<Rightarrow> MetaSnap \<Rightarrow> MetaDiff option res" where
  "getApplicableDiffNolock mgr s =
     res_bind (getApplicableCandidatesNolock mgr s) (\<lambda>u.
       if u = [] then Inr None
       else res_bind (getMaxProgressDiff u) (\<lambda>d. Inr (Some d)))"

lemma canMerge_progress: "canMerge d0 d1 \<Longrightarrow> gidB (snapE d0) < gidB (snapE d1)"
  by (simp add: canMerge_gid)

lemma merge_diff_progress:
  "merge_diff d0 d1 = Inr m \<Longrightarrow> gidB (snapE d0) < gidB (snapE m)"
  using canMerge_progress [of d0 d1] by (cases "canMerge d0 d1") (auto simp: merge_diff_def)

lemma apply_diff_progress: "apply_diff s d = Inr s' \<Longrightarrow> gidB s < gidB s'"
  by (auto simp: apply_diff_def canApply_iff Let_def snap_verify_def split: if_splits)

lemma u64_measure:
  "(a :: u64) < b \<Longrightarrow> 18446744073709551616 - unat b < 18446744073709551616 - unat a"
  using unat_lt64 [of b] by (simp add: word_less_nat_alt del: unat_lt64)

function getMergeableDiffList_loop ::
  "diff_manager \<Rightarrow> (MetaDiff \<Rightarrow> bool) \<Rightarrow> MetaDiff \<Rightarrow> MetaDiff list res"
where
  "getMergeableDiffList_loop mgr pred m =
     res_bind (getMergeableCandidatesNolock mgr m) (\<lambda>u.
       if u = [] then Inr []
       else res_bind (getMaxProgressDiff u) (\<lambda>d.
         if \<not> pred d then Inr []
         else res_bind (merge_diff m d) (\<lambda>m'.
           res_bind (getMergeableDiffList_loop mgr pred m') (\<lambda>v. Inr (d # v)))))"
  by pat_completeness auto
termination
  by (relation "measure (\<lambda>(_, _, m). 2 ^ 64 - unat (gidB (snapE m)))")
    (auto intro!: u64_measure dest: merge_diff_progress)

definition getMergeableDiffList ::
  "diff_manager \<Rightarrow> u64 \<Rightarrow> (MetaDiff \<Rightarrow> bool) \<Rightarrow> MetaDiff list res"
where
  "getMergeableDiffList mgr gid pred =
     (let v = getFirstDiffsNolock mgr gid in
      if v = [] then Inr []
      else res_bind (getMaxProgressDiff v) (\<lambda>d.
        res_bind (getMergeableDiffList_loop mgr pred d) (\<lambda>ds. Inr (d # ds))))"

function getApplicableDiffList ::
  "diff_manager \<Rightarrow> MetaSnap \<Rightarrow> (MetaDiff \<Rightarrow> MetaSnap \<Rightarrow> bool) \<Rightarrow> MetaDiff list res"
where
  "getApplicableDiffList mgr s pred =
     res_bind (getApplicableDiffNolock mgr s) (\<lambda>od.
       case od of
         None \<Rightarrow> Inr []
       | Some d \<Rightarrow> res_bind (apply_diff s d) (\<lambda>s'.
           if \<not> pred d s' then Inr []
           else res_bind (getApplicableDiffList mgr s' pred) (\<lambda>v. Inr (d # v))))"
  by pat_completeness auto
termination
  by (relation "measure (\<lambda>(_, s, _). 2 ^ 64 - unat (gidB s))")
    (auto intro!: u64_measure dest: apply_diff_progress)

declare getMergeableDiffList_loop.simps [simp del] getApplicableDiffList.simps [simp del]

definition all_diffs :: "MetaDiff \<Rightarrow> MetaSnap \<Rightarrow> bool" where
  "all_diffs d s = True"

definition getApplicableDiffListByGid :: "diff_manager \<Rightarrow> MetaSnap \<Rightarrow> u64 \<Rightarrow> MetaDiff list res" where
  "getApplicableDiffListByGid mgr s maxGid = getApplicableDiffList mgr s (\<lambda>_ s'. gidB s' \<le> maxGid)"

definition getApplicableDiffListByTime :: "diff_manager \<Rightarrow> MetaSnap \<Rightarrow> u64 \<Rightarrow> MetaDiff list res" where
  "getApplicableDiffListByTime mgr s maxTs = getApplicableDiffList mgr s (\<lambda>d _. d_timestamp d \<le> maxTs)"

text \<open>The longest prefix that can be merged with the first diff; \<open>diff.merge\<close> is \<open>merge\<close>.\<close>

fun mergeable_prefix :: "MetaDiff \<Rightarrow> MetaDiff list \<Rightarrow> MetaDiff list res" where
  "mergeable_prefix m [] = Inr []"
| "mergeable_prefix m (d # v) =
     (if \<not> canMerge m d then Inr []
      else res_bind (merge_diff m d) (\<lambda>m'. res_bind (mergeable_prefix m' v) (\<lambda>w. Inr (d # w))))"

definition getApplicableAndMergeableDiffList :: "diff_manager \<Rightarrow> MetaSnap \<Rightarrow> MetaDiff list res" where
  "getApplicableAndMergeableDiffList mgr s =
     res_bind (getApplicableDiffList mgr s all_diffs) (\<lambda>v.
       case v of [] \<Rightarrow> Inr []
       | d # ds \<Rightarrow> res_bind (mergeable_prefix d ds) (\<lambda>w. Inr (d # w)))"

definition getMinimumApplicableDiffList :: "diff_manager \<Rightarrow> MetaState \<Rightarrow> MetaDiff list res" where
  "getMinimumApplicableDiffList mgr st =
     (if \<not> isApplying st then Inr []
      else getApplicableDiffList mgr (st_snapB st) (\<lambda>_ s. gidB s \<le> gidB (st_snapE st)))"

definition getLatestSnapshot :: "diff_manager \<Rightarrow> MetaState \<Rightarrow> MetaSnap res" where
  "getLatestSnapshot mgr st =
     res_bind (getApplicableDiffList mgr (st_snapB st) all_diffs) (apply_vec (st_snapB st))"

definition getLatestState :: "diff_manager \<Rightarrow> MetaState \<Rightarrow> MetaState res" where
  "getLatestState mgr st =
     res_bind (getApplicableDiffList mgr (st_snapB st) all_diffs) (apply_state_vec st)"

function oldestClean_loop :: "diff_manager \<Rightarrow> MetaState \<Rightarrow> MetaState res" where
  "oldestClean_loop mgr st =
     (if snap_isClean (st_snapB st) then Inr st
      else res_bind (getApplicableDiffNolock mgr (st_snapB st)) (\<lambda>od.
        case od of
          None \<Rightarrow> Inl (Exception ''MetaDiffManager::getOldestCleanState:there is no clean snapshot.'')
        | Some d \<Rightarrow> res_bind (apply_state st d) (oldestClean_loop mgr)))"
  by pat_completeness auto

lemma apply_state_progress:
  "apply_state st d = Inr st' \<Longrightarrow> gidB (st_snapB st) < gidB (st_snapB st')"
  by (auto simp: apply_state_def endApplying_def MetaState1_def state_verify_def Let_def
      ensure_Inr_iff res_bind_Inr_iff dest: apply_diff_progress)

termination oldestClean_loop
  by (relation "measure (\<lambda>(_, st). 2 ^ 64 - unat (gidB (st_snapB st)))")
    (auto intro!: u64_measure dest: apply_state_progress)

declare oldestClean_loop.simps [simp del]

definition getOldestCleanState :: "diff_manager \<Rightarrow> MetaState \<Rightarrow> MetaState res" where
  "getOldestCleanState mgr st0 =
     res_bind (getMinimumApplicableDiffList mgr st0) (\<lambda>minV.
     res_bind (apply_state_vec st0 minV) (\<lambda>st.
       ensure (\<not> isApplying st) Assert_Failed (oldestClean_loop mgr st)))"

definition getOldestCleanSnapshot :: "diff_manager \<Rightarrow> MetaState \<Rightarrow> u64 res" where
  "getOldestCleanSnapshot mgr st0 =
     res_bind (getOldestCleanState mgr st0) (\<lambda>st.
       ensure (\<not> isApplying st) Assert_Failed
         (ensure (snap_isClean (st_snapB st)) Assert_Failed (Inr (gidB (st_snapB st)))))"

text \<open>\<open>getTargetDiffLists\<close> in its two forms; the pair is \<open>(applicableV, minV)\<close>.\<close>

definition getTargetDiffListsByGid ::
  "diff_manager \<Rightarrow> MetaState \<Rightarrow> u64 \<Rightarrow> (MetaDiff list \<times> MetaDiff list) res"
where
  "getTargetDiffListsByGid mgr st gid =
     res_bind (getApplicableDiffListByGid mgr (st_snapB st) gid) (\<lambda>v.
       if v = [] then Inr ([], [])
       else res_bind (getMinimumApplicableDiffList mgr st) (\<lambda>w. Inr (v, w)))"

definition getTargetDiffLists ::
  "diff_manager \<Rightarrow> MetaState \<Rightarrow> (MetaDiff list \<times> MetaDiff list) res"
where
  "getTargetDiffLists mgr st =
     res_bind (getApplicableDiffList mgr (st_snapB st) all_diffs) (\<lambda>v.
     res_bind (getMinimumApplicableDiffList mgr st) (\<lambda>w.
       if length v < length w then Inl (Exception ''getTargetDiffLists: size bug'')
       else ensure (list_all2 diff_eq (take (length w) v) w) Assert_Failed (Inr (v, w))))"

fun restorable_loop :: "bool \<Rightarrow> MetaState \<Rightarrow> MetaDiff list \<Rightarrow> MetaState list res" where
  "restorable_loop isAll st0 [] = Inr []"
| "restorable_loop isAll st0 (d # v) =
     res_bind (apply_state st0 d) (\<lambda>st1.
       let expl = (v = [] \<or> \<not> isMergeable (hd v));
           st2 = st1\<lparr>isExplicit := expl\<rparr>
       in res_bind (restorable_loop isAll st2 v) (\<lambda>ret.
         Inr (if snap_isClean (st_snapB st2) \<and> (isAll \<or> expl) then st2 # ret else ret)))"

definition getRestorableList :: "diff_manager \<Rightarrow> MetaState \<Rightarrow> bool \<Rightarrow> MetaState list res" where
  "getRestorableList mgr st isAll =
     res_bind (getTargetDiffLists mgr st) (\<lambda>(v, minV).
     res_bind (apply_state_vec st minV) (\<lambda>st0.
     res_bind (restorable_loop isAll st0 (drop (length minV) v)) (\<lambda>ret.
       Inr (if snap_isClean (st_snapB st0) then st0 # ret else ret))))"

definition getCleanSnapshotList :: "diff_manager \<Rightarrow> MetaState \<Rightarrow> u64 list res" where
  "getCleanSnapshotList mgr st =
     res_bind (getRestorableList mgr st True) (\<lambda>v. Inr (map (\<lambda>st. gidB (st_snapB st)) v))"

definition getDiffListToApply :: "diff_manager \<Rightarrow> MetaState \<Rightarrow> u64 \<Rightarrow> nat \<Rightarrow> MetaDiff list res" where
  "getDiffListToApply mgr st gid maxNr =
     res_bind (getTargetDiffListsByGid mgr st gid) (\<lambda>(v, minV).
       let v' = (if maxNr > 0 \<and> length v > maxNr then take maxNr v else v) in
       Inr (if length minV > length v' then minV else v'))"

definition getDiffListToSync :: "diff_manager \<Rightarrow> MetaState \<Rightarrow> MetaSnap \<Rightarrow> MetaDiff list res" where
  "getDiffListToSync mgr st s =
     res_bind (getTargetDiffListsByGid mgr st (gidB s)) (\<lambda>(v, minV).
       if length minV > length v then Inr []
       else res_bind (apply_state_vec st v) (\<lambda>appliedSt.
         Inr (if st_snapB appliedSt \<noteq> s then [] else v)))"

definition getDiffListToRestore :: "diff_manager \<Rightarrow> MetaState \<Rightarrow> u64 \<Rightarrow> nat \<Rightarrow> MetaDiff list res" where
  "getDiffListToRestore mgr st gid maxNr =
     res_bind (getDiffListToSync mgr st (snap gid gid)) (\<lambda>v.
       Inr (if maxNr > 0 \<and> length v > maxNr then take maxNr v else v))"

definition fastSearchNolock ::
  "diff_manager \<Rightarrow> u64 \<Rightarrow> u64 \<Rightarrow> (MetaDiff \<Rightarrow> bool) \<Rightarrow> (bool \<times> MetaDiff list) res"
where
  "fastSearchNolock mgr gid0 gid1 pred =
     ensure (gid0 < gid1) Assert_Failed
       (let v = filter pred (map snd (takeWhile (\<lambda>x. key x < gid1) (mmap_lower_bound gid0 (mmap mgr))))
        in Inr (v \<noteq> [], v))"

definition getAll :: "diff_manager \<Rightarrow> u64 \<Rightarrow> u64 \<Rightarrow> MetaDiff list res" where
  "getAll mgr gid0 gid1 =
     (if gid0 \<ge> gid1 then Inl (Exception ''MetaDiffManager::getAll:gid0 >= gid1'')
      else res_bind (fastSearchNolock mgr gid0 gid1 (\<lambda>_. True)) (\<lambda>(_, v). Inr v))"

definition manager_exists :: "diff_manager \<Rightarrow> MetaDiff \<Rightarrow> bool" where
  "manager_exists mgr d \<longleftrightarrow> (\<exists>d' \<in> set (getFirstDiffsNolock mgr (gidB (snapB d))). diff_eq d' d)"

definition getMinMaxGid :: "diff_manager \<Rightarrow> u64 \<times> u64" where
  "getMinMaxGid mgr =
     (if mmap mgr = [] then (0, 0)
      else fold (\<lambda>x (mn, mx). (min mn (gidB (snapB (snd x))), max mx (gidB (snapE (snd x)))))
        (mmap mgr) (- 1, 0))"

definition getDiffWithMaxGid :: "diff_manager \<Rightarrow> MetaDiff option" where
  "getDiffWithMaxGid mgr = (if mmap mgr = [] then None else Some (snd (last (mmap mgr))))"

definition gc :: "MetaSnap \<Rightarrow> diff_manager \<Rightarrow> (MetaDiff list \<times> diff_manager) res" where
  "gc s mgr =
     res_bind (getApplicableDiffList mgr s all_diffs) (\<lambda>v.
     res_bind (erase_vec v False mgr) (\<lambda>mgr1.
     res_bind (add_vec v (manager_clear mgr1)) (\<lambda>mgr2.
       Inr (map snd (mmap mgr1), mgr2))))"

end
