(* ===== verification/Diff_Manager_Laws.thy ===== *)
theory Diff_Manager_Laws
  imports Diff_Manager
begin

text \<open>
  The correctness of \<open>MetaDiffManager\<close>: the invariant that ties the multimap to the range index, its
  preservation by every operation that changes the manager, and what the queries return. The
  facts about the index come from the interface \<open>interval_index\<close> through its instance
  \<open>gid_index\<close>.
\<close>

section \<open>The invariant\<close>

definition entry_of :: "nat \<times> MetaDiff \<Rightarrow> entry" where
  "entry_of x = (fst x, gidB (snapB (snd x)), gidB (snapE (snd x)))"

text \<open>The index holds exactly the intervals of the entries.\<close>

definition index_ok :: "GidRange list \<Rightarrow> (nat \<times> MetaDiff) set \<Rightarrow> bool" where
  "index_ok rm X \<longleftrightarrow> ranges_ok rm \<and>
     (\<forall>g. set (ids_at rm g) = fst ` {x \<in> X. key x \<le> g \<and> g < gidB (snapE (snd x))})"

definition manager_ok :: "diff_manager \<Rightarrow> bool" where
  "manager_ok mgr \<longleftrightarrow>
     sorted (map key (mmap mgr)) \<and> distinct (map fst (mmap mgr))
     \<and> (\<forall>x \<in> set (mmap mgr). fst x < next_it mgr \<and> diff_ok (snd x))
     \<and> (\<forall>x \<in> set (mmap mgr). \<forall>y \<in> set (mmap mgr). diff_eq (snd x) (snd y) \<longrightarrow> x = y)
     \<and> index_ok (rangeMgr mgr) (set (mmap mgr))"

definition diffs :: "diff_manager \<Rightarrow> MetaDiff set" where
  "diffs mgr = snd ` set (mmap mgr)"

lemma manager_ok_empty: "manager_ok manager_empty"
  by (simp add: manager_ok_def manager_empty_def index_ok_def)

lemma diff_eq_refl [simp]: "diff_eq d d" and diff_eq_sym: "diff_eq d d' \<Longrightarrow> diff_eq d' d"
  by (simp_all add: diff_eq_def)

section \<open>The ordered multimap\<close>

lemma mmap_lower_bound_filter:
  "sorted (map key m) \<Longrightarrow> mmap_lower_bound g m = filter (\<lambda>x. g \<le> key x) m"
proof (induction m)
  case (Cons x m)
  show ?case
  proof (cases "key x < g")
    case True
    then show ?thesis using Cons by (simp add: mmap_lower_bound_def)
  next
    case False
    then have "\<forall>y \<in> set m. g \<le> key y" using Cons.prems by auto
    then show ?thesis using False by (simp add: mmap_lower_bound_def)
  qed
qed (simp add: mmap_lower_bound_def)

lemma takeWhile_key_filter:
  "sorted (map key m) \<Longrightarrow> takeWhile (\<lambda>x. key x \<le> g) m = filter (\<lambda>x. key x \<le> g) m"
proof (induction m)
  case (Cons x m)
  show ?case
  proof (cases "key x \<le> g")
    case False
    then have "\<forall>y \<in> set m. \<not> key y \<le> g" using Cons.prems by auto
    with False show ?thesis by (simp add: filter_empty_conv)
  qed (use Cons in simp)
qed simp

lemma dropWhile_key_filter:
  "sorted (map key m) \<Longrightarrow> dropWhile (\<lambda>x. key x \<le> g) m = filter (\<lambda>x. g < key x) m"
proof (induction m)
  case (Cons x m)
  show ?case
  proof (cases "key x \<le> g")
    case False
    then have "\<forall>y \<in> set m. g < key y" using Cons.prems by auto
    with False show ?thesis by simp
  qed (use Cons in simp)
qed simp

lemma sorted_filter_key: "sorted (map key m) \<Longrightarrow> sorted (map key (filter P m))"
  by (simp add: sorted_filter)

lemma equal_range_filter:
  "sorted (map key m) \<Longrightarrow> equal_range g m = filter (\<lambda>x. key x = g) m"
  by (simp add: equal_range_def mmap_lower_bound_filter takeWhile_key_filter sorted_filter_key)
    (auto intro!: filter_cong)

lemma set_mmap_emplace: "set (mmap_emplace x m) = insert x (set m)"
proof -
  have "set m = set (takeWhile (\<lambda>y. key y \<le> key x) m @ dropWhile (\<lambda>y. key y \<le> key x) m)" by simp
  then show ?thesis unfolding mmap_emplace_def set_append by auto
qed

lemma mmap_emplace_sorted: "sorted (map key m) \<Longrightarrow> sorted (map key (mmap_emplace x m))"
  by (auto simp: mmap_emplace_def takeWhile_key_filter dropWhile_key_filter sorted_append
      sorted_filter_key)

lemma mmap_emplace_distinct:
  assumes "distinct (map fst m)" and "fst x \<notin> fst ` set m"
  shows "distinct (map fst (mmap_emplace x m))"
proof -
  have "distinct (map fst (takeWhile (\<lambda>y. key y \<le> key x) m @ dropWhile (\<lambda>y. key y \<le> key x) m))"
    using assms(1) by simp
  moreover have "set (takeWhile (\<lambda>y. key y \<le> key x) m) \<subseteq> set m" "set (dropWhile (\<lambda>y. key y \<le> key x) m) \<subseteq> set m"
    by (auto dest: set_takeWhileD set_dropWhileD)
  ultimately show ?thesis
    using assms(2) unfolding mmap_emplace_def map_append list.map distinct_append by auto
qed

lemma searchNolock_None:
  assumes "manager_ok mgr"
  shows "searchNolock mgr d = None \<longleftrightarrow> (\<forall>x \<in> set (mmap mgr). \<not> diff_eq d (snd x))"
proof -
  have S: "set (equal_range (gidB (snapB d)) (mmap mgr)) = {x \<in> set (mmap mgr). key x = gidB (snapB d)}"
    using assms by (simp add: equal_range_filter manager_ok_def)
  have K: "key x = gidB (snapB d)" if "diff_eq d (snd x)" for x :: "nat \<times> MetaDiff"
    using that by (simp add: diff_eq_def)
  have "searchNolock mgr d = None \<longleftrightarrow>
      (\<forall>x \<in> set (equal_range (gidB (snapB d)) (mmap mgr)). \<not> diff_eq d (snd x))"
    unfolding searchNolock_def find_None_iff by blast
  also have "\<dots> \<longleftrightarrow> (\<forall>x \<in> set (mmap mgr). \<not> diff_eq d (snd x))"
    unfolding S using K by blast
  finally show ?thesis .
qed

lemma searchNolock_Some:
  assumes "manager_ok mgr" and "searchNolock mgr d = Some x"
  shows "x \<in> set (mmap mgr) \<and> diff_eq d (snd x)"
proof -
  have "x \<in> set (equal_range (gidB (snapB d)) (mmap mgr)) \<and> diff_eq d (snd x)"
    using assms(2) unfolding searchNolock_def find_Some_iff by (auto simp: in_set_conv_nth)
  then show ?thesis using assms(1) by (simp add: equal_range_filter manager_ok_def)
qed

section \<open>Adding and erasing keep the invariant\<close>

lemma index_add:
  assumes "index_ok rm X" and "key x < gidB (snapE (snd x))"
  shows "\<exists>rm'. gid_add (fst x) (key x) (gidB (snapE (snd x))) rm = Inr rm' \<and> index_ok rm' (insert x X)"
  using gid_index.add_ok [OF _ assms(2), of rm "fst x"] assms(1)
  by (auto simp: index_ok_def)

lemma index_remove:
  assumes "index_ok rm X" and "key x < gidB (snapE (snd x))" and "inj_on fst X" and "x \<in> X"
  shows "index_ok (gid_remove (fst x) (key x) (gidB (snapE (snd x))) rm) {y \<in> X. fst y \<noteq> fst x}"
proof -
  have "\<forall>g. fst x \<in> set (ids_at rm g) \<longrightarrow> key x \<le> g \<and> g < gidB (snapE (snd x))"
    using assms(1,3,4) by (auto simp: index_ok_def dest: inj_onD)
  with gid_index.remove_ok [OF _ assms(2), of rm "fst x"] assms(1) show ?thesis
    by (auto simp: index_ok_def)
qed

lemma addNolock_ok:
  assumes "manager_ok mgr" and "diff_ok d"
  shows "if \<exists>d' \<in> diffs mgr. diff_eq d d'
    then addNolock d mgr = Inl (Exception ''MetaDiffManager::add:already exists'')
    else \<exists>mgr'. addNolock d mgr = Inr mgr' \<and> manager_ok mgr' \<and> diffs mgr' = insert d (diffs mgr)
      \<and> set (mmap mgr') = insert (next_it mgr, d) (set (mmap mgr)) \<and> next_it mgr' = Suc (next_it mgr)"
proof (cases "\<exists>d' \<in> diffs mgr. diff_eq d d'")
  case True
  then have "searchNolock mgr d \<noteq> None" using searchNolock_None [OF assms(1)] by (auto simp: diffs_def)
  with True show ?thesis by (simp add: addNolock_def)
next
  case False
  then have none: "\<forall>x \<in> set (mmap mgr). \<not> diff_eq d (snd x)" by (auto simp: diffs_def)
  let ?x = "(next_it mgr, d)"
  obtain rm where rm: "gid_add (next_it mgr) (gidB (snapB d)) (gidB (snapE d)) (rangeMgr mgr) = Inr rm"
    "index_ok rm (insert ?x (set (mmap mgr)))"
    using index_add [of "rangeMgr mgr" "set (mmap mgr)" ?x] assms
    by (auto simp: manager_ok_def diff_ok_def)
  have fresh: "next_it mgr \<notin> fst ` set (mmap mgr)" using assms(1) by (auto simp: manager_ok_def)
  let ?mgr = "\<lparr>mmap = mmap_emplace ?x (mmap mgr), rangeMgr = rm, next_it = Suc (next_it mgr)\<rparr>"
  have "addNolock d mgr = Inr ?mgr"
    using none searchNolock_None [OF assms(1)] rm(1) by (simp add: addNolock_def)
  moreover have "manager_ok ?mgr"
    using assms rm(2) fresh none mmap_emplace_sorted [of "mmap mgr" ?x]
      mmap_emplace_distinct [of "mmap mgr" ?x]
    by (auto simp: manager_ok_def set_mmap_emplace less_Suc_eq dest: diff_eq_sym)
  ultimately show ?thesis using False by (simp add: diffs_def set_mmap_emplace)
qed

lemma erase_it_ok:
  assumes "manager_ok mgr" and "x \<in> set (mmap mgr)"
  shows "manager_ok (erase_it x mgr)" and "diffs (erase_it x mgr) = diffs mgr - {snd x}"
    and "set (mmap (erase_it x mgr)) = set (mmap mgr) - {x}" and "next_it (erase_it x mgr) = next_it mgr"
proof -
  have inj: "inj_on fst (set (mmap mgr))" using assms(1) by (simp add: manager_ok_def distinct_map)
  have filt: "{y \<in> set (mmap mgr). fst y \<noteq> fst x} = set (mmap mgr) - {x}"
    using inj assms(2) by (auto dest: inj_onD)
  show set: "set (mmap (erase_it x mgr)) = set (mmap mgr) - {x}" using filt by (simp add: erase_it_def)
  have uniq: "\<forall>y \<in> set (mmap mgr). snd y = snd x \<longrightarrow> y = x"
    using assms by (auto simp: manager_ok_def)
  show "diffs (erase_it x mgr) = diffs mgr - {snd x}" using set uniq by (auto simp: diffs_def)
  have "index_ok (rangeMgr (erase_it x mgr)) (set (mmap mgr) - {x})"
    using index_remove [of "rangeMgr mgr" "set (mmap mgr)" x] assms inj
    by (simp add: erase_it_def filt manager_ok_def diff_ok_def)
  then show "manager_ok (erase_it x mgr)"
    using assms(1) set filt
    by (auto simp: manager_ok_def erase_it_def sorted_filter_key distinct_map inj_on_def)
  show "next_it (erase_it x mgr) = next_it mgr" by (simp add: erase_it_def)
qed

lemma eraseNolock_ok:
  assumes "manager_ok mgr"
  shows "\<exists>mgr'. eraseNolock d False mgr = Inr mgr' \<and> manager_ok mgr'
    \<and> diffs mgr' = {d' \<in> diffs mgr. \<not> diff_eq d d'} \<and> next_it mgr' = next_it mgr"
proof (cases "searchNolock mgr d")
  case None
  then have "{d' \<in> diffs mgr. \<not> diff_eq d d'} = diffs mgr"
    using searchNolock_None [OF assms] by (auto simp: diffs_def)
  with None assms show ?thesis by (simp add: eraseNolock_def)
next
  case (Some x)
  note x = searchNolock_Some [OF assms Some]
  have "{d' \<in> diffs mgr. \<not> diff_eq d d'} = diffs mgr - {snd x}"
  proof -
    have "d' = snd x" if "d' \<in> diffs mgr" "diff_eq d d'" for d'
    proof -
      obtain y where y: "y \<in> set (mmap mgr)" "d' = snd y" using \<open>d' \<in> diffs mgr\<close> by (auto simp: diffs_def)
      have "diff_eq (snd x) (snd y)" using x y that(2) by (simp add: diff_eq_def)
      with y x assms show ?thesis by (auto simp: manager_ok_def)
    qed
    then show ?thesis using x by auto
  qed
  then show ?thesis
    using erase_it_ok [OF assms] x Some by (simp add: eraseNolock_def)
qed

text \<open>
  C28: adding a diff to a consistent manager succeeds unless an equal diff is present, erasing always
  succeeds; both keep the manager consistent (ordered entries, no two equal diffs, and a range
  index that knows exactly the entries), and change the set of the diffs by just that diff.
\<close>

theorem manager_add_erase:
  assumes "manager_ok mgr" and "diff_ok d"
  shows "(if \<exists>d' \<in> diffs mgr. diff_eq d d'
      then addNolock d mgr = Inl (Exception ''MetaDiffManager::add:already exists'')
      else \<exists>mgr'. addNolock d mgr = Inr mgr' \<and> manager_ok mgr' \<and> diffs mgr' = insert d (diffs mgr))
    \<and> (\<exists>mgr'. eraseNolock d False mgr = Inr mgr' \<and> manager_ok mgr'
         \<and> diffs mgr' = {d' \<in> diffs mgr. \<not> diff_eq d d'})"
  using addNolock_ok [OF assms] eraseNolock_ok [OF assms(1), of d]
  by (cases "\<exists>d' \<in> diffs mgr. diff_eq d d'") auto

theorem manager_add_erase_witness:
  "(if \<exists>d' \<in> diffs manager_empty. diff_eq (MetaDiff_default\<lparr>snapB := snap 1 1, snapE := snap 3 4\<rparr>) d'
      then addNolock (MetaDiff_default\<lparr>snapB := snap 1 1, snapE := snap 3 4\<rparr>) manager_empty =
        Inl (Exception ''MetaDiffManager::add:already exists'')
      else \<exists>mgr'. addNolock (MetaDiff_default\<lparr>snapB := snap 1 1, snapE := snap 3 4\<rparr>) manager_empty = Inr mgr'
        \<and> manager_ok mgr'
        \<and> diffs mgr' = insert (MetaDiff_default\<lparr>snapB := snap 1 1, snapE := snap 3 4\<rparr>) (diffs manager_empty))
    \<and> (\<exists>mgr'. eraseNolock (MetaDiff_default\<lparr>snapB := snap 1 1, snapE := snap 3 4\<rparr>) False manager_empty = Inr mgr'
         \<and> manager_ok mgr' \<and> diffs mgr' = {d' \<in> diffs manager_empty.
             \<not> diff_eq (MetaDiff_default\<lparr>snapB := snap 1 1, snapE := snap 3 4\<rparr>) d'})"
  by (rule manager_add_erase [OF manager_ok_empty]) (simp add: diff_ok_def snap_ok_def)

section \<open>Queries\<close>

lemma deref_all_eq:
  "set is \<subseteq> fst ` set (mmap mgr) \<Longrightarrow>
     deref_all mgr is = Inr (map (\<lambda>i. the (map_of (mmap mgr) i)) is)"
proof (induction "is")
  case (Cons i "is")
  then have "map_of (mmap mgr) i \<noteq> None" by (simp add: map_of_eq_None_iff)
  with Cons show ?case by (auto simp: deref_it_def)
qed simp

lemma deref_all_ok:
  assumes "manager_ok mgr" and "set is \<subseteq> fst ` set (mmap mgr)"
  shows "\<exists>v. deref_all mgr is = Inr v \<and> set v = snd ` {x \<in> set (mmap mgr). fst x \<in> set is}"
proof -
  have "distinct (map fst (mmap mgr))" using assms(1) by (simp add: manager_ok_def)
  then have look: "the (map_of (mmap mgr) (fst x)) = snd x" if "x \<in> set (mmap mgr)" for x
    using that by (cases x) (simp add: map_of_is_SomeI)
  have "set (map (\<lambda>i. the (map_of (mmap mgr) i)) is) = snd ` {x \<in> set (mmap mgr). fst x \<in> set is}"
  proof (rule set_eqI, rule iffI)
    fix d
    assume "d \<in> set (map (\<lambda>i. the (map_of (mmap mgr) i)) is)"
    then obtain i where i: "i \<in> set is" "d = the (map_of (mmap mgr) i)" by auto
    with assms(2) obtain x where "x \<in> set (mmap mgr)" "i = fst x" by blast
    with i look [of x] show "d \<in> snd ` {x \<in> set (mmap mgr). fst x \<in> set is}" by auto
  next
    fix d
    assume "d \<in> snd ` {x \<in> set (mmap mgr). fst x \<in> set is}"
    then obtain x where "x \<in> set (mmap mgr)" "fst x \<in> set is" "d = snd x" by blast
    with look [of x] have "d = the (map_of (mmap mgr) (fst x)) \<and> fst x \<in> set is" by simp
    then show "d \<in> set (map (\<lambda>i. the (map_of (mmap mgr) i)) is)" by auto
  qed
  with deref_all_eq [OF assms(2)] show ?thesis by blast
qed

lemma gid_search_subset:
  assumes "ranges_ok rm"
  shows "\<exists>g'. set (gid_search rm g) \<subseteq> set (ids_at rm g')"
proof (cases "lower_bound (g + 1) rm")
  case Nil
  then show ?thesis by (simp add: gid_search_def)
next
  case (Cons r rs)
  then have r: "r \<in> set rm" unfolding lower_bound_def by (metis list.set_intros(1) set_dropWhileD)
  then show ?thesis
    using Cons ids_at_mem [OF r, of "rngB r"] ranges_okD [OF assms r] by (auto simp: gid_search_def)
qed

lemma applicable_candidates:
  assumes "manager_ok mgr"
  shows "\<exists>u. getApplicableCandidatesNolock mgr s = Inr u \<and> set u = {d \<in> diffs mgr. canApply s d}"
proof -
  let ?is = "gid_search (rangeMgr mgr) (gidB s)"
  have idx: "index_ok (rangeMgr mgr) (set (mmap mgr))" using assms by (simp add: manager_ok_def)
  then have "ranges_ok (rangeMgr mgr)" by (simp add: index_ok_def)
  from gid_search_subset [OF this, of "gidB s"]
  obtain g' where "set ?is \<subseteq> set (ids_at (rangeMgr mgr) g')" by blast
  then have sub: "set ?is \<subseteq> fst ` set (mmap mgr)" using idx by (auto simp: index_ok_def)
  obtain v where v: "deref_all mgr ?is = Inr v" "set v = snd ` {x \<in> set (mmap mgr). fst x \<in> set ?is}"
    using deref_all_ok [OF assms sub] by auto
  have hit: "fst x \<in> set ?is" if "x \<in> set (mmap mgr)" "canApply s (snd x)" for x
  proof -
    have "gidB s \<noteq> - 1"
      using that(2) word_order.extremum_strict by (auto simp: canApply_iff)
    then have "?is = ids_at (rangeMgr mgr) (gidB s)"
      using idx by (intro gid_index.search_ok) (auto simp: index_ok_def)
    then show ?thesis using that idx by (auto simp: index_ok_def canApply_iff)
  qed
  then show ?thesis using v by (auto simp: getApplicableCandidatesNolock_def diffs_def)
qed

lemma applicable_diff:
  assumes "manager_ok mgr"
  shows "(getApplicableDiffNolock mgr s = Inr None \<and> (\<forall>d \<in> diffs mgr. \<not> canApply s d)) \<or>
    (\<exists>d \<in> diffs mgr. getApplicableDiffNolock mgr s = Inr (Some d) \<and> canApply s d \<and> diff_ok d
       \<and> (\<forall>d' \<in> diffs mgr. canApply s d' \<longrightarrow> progress_le d' d))"
proof -
  obtain u where u: "getApplicableCandidatesNolock mgr s = Inr u" "set u = {d \<in> diffs mgr. canApply s d}"
    using applicable_candidates [OF assms] by blast
  show ?thesis
  proof (cases "u = []")
    case True
    with u show ?thesis by (auto simp: getApplicableDiffNolock_def)
  next
    case False
    obtain d where d: "d \<in> set u" "getMaxProgressDiff u = Inr d" "\<forall>d' \<in> set u. progress_le d' d"
      using getMaxProgressDiff_loop_max [of "hd u" "tl u"] False
      by (cases u) (auto simp: getMaxProgressDiff_def)
    have "diff_ok d" using d(1) u(2) assms by (auto simp: manager_ok_def diffs_def)
    with d u False show ?thesis by (auto simp: getApplicableDiffNolock_def)
  qed
qed

lemma applicable_list:
  assumes "manager_ok mgr" and "snap_ok s"
  shows "\<exists>v t. getApplicableDiffList mgr s pred = Inr v \<and> apply_vec s v = Inr t \<and> snap_ok t
    \<and> set v \<subseteq> diffs mgr \<and> sorted_wrt (\<lambda>d d'. gidB (snapE d) < gidB (snapE d')) v
    \<and> (\<forall>d \<in> set v. gidB s < gidB (snapE d) \<and> gidB (snapE d) \<le> gidB t) \<and> gidB s \<le> gidB t
    \<and> (pred = all_diffs \<longrightarrow> (\<forall>d \<in> diffs mgr. \<not> canApply t d))"
  using assms(2)
proof (induction "18446744073709551616 - unat (gidB s)" arbitrary: s rule: less_induct)
  case less
  consider (none) "getApplicableDiffNolock mgr s = Inr None" "\<forall>d \<in> diffs mgr. \<not> canApply s d"
    | (some) d where "getApplicableDiffNolock mgr s = Inr (Some d)" "d \<in> diffs mgr" "canApply s d"
        "diff_ok d"
    using applicable_diff [OF assms(1), of s] by blast
  then show ?case
  proof cases
    case none
    with less.prems show ?thesis
      by (subst getApplicableDiffList.simps) simp
  next
    case (some d)
    note ap = apply_diff_ok [OF some(3,4)]
    have pos: "gidB s < gidB (snapE d)" using some(3) by (simp add: canApply_iff)
    show ?thesis
    proof (cases "pred d (applied s d)")
      case False
      then have "pred \<noteq> all_diffs" by (auto simp: all_diffs_def)
      with False some(1) ap less.prems show ?thesis
        by (subst getApplicableDiffList.simps) simp
    next
      case True
      have sm: "18446744073709551616 - unat (gidB (applied s d)) < 18446744073709551616 - unat (gidB s)"
        using pos by (intro u64_measure) simp
      obtain v t where v: "getApplicableDiffList mgr (applied s d) pred = Inr v"
        "apply_vec (applied s d) v = Inr t" "snap_ok t" "set v \<subseteq> diffs mgr"
        "sorted_wrt (\<lambda>d d'. gidB (snapE d) < gidB (snapE d')) v"
        "\<forall>x \<in> set v. gidB (applied s d) < gidB (snapE x) \<and> gidB (snapE x) \<le> gidB t"
        "gidB (applied s d) \<le> gidB t"
        "pred = all_diffs \<longrightarrow> (\<forall>d \<in> diffs mgr. \<not> canApply t d)"
        using less.hyps [OF sm snap_ok_applied [OF some(4)]] by blast
      have "getApplicableDiffList mgr s pred = Inr (d # v)"
        using True some(1) ap v(1) by (subst getApplicableDiffList.simps) simp
      then show ?thesis using some ap v pos by (auto intro: less_trans order.strict_implies_order)
    qed
  qed
qed

text \<open>
  C4: \<open>getApplicableDiffList\<close> on a consistent manager always returns, whatever the predicate; the diffs it returns belong to the
  manager, can be applied one after the other from the given snapshot, and reach strictly larger gids; without a
  predicate the list is complete: no diff of the manager applies to the snapshot reached.
\<close>

theorem getApplicableDiffList_complete:
  assumes "manager_ok mgr" and "snap_ok s"
  shows "\<exists>v t. getApplicableDiffList mgr s pred = Inr v \<and> apply_vec s v = Inr t
    \<and> set v \<subseteq> diffs mgr \<and> sorted_wrt (\<lambda>d d'. gidB (snapE d) < gidB (snapE d')) v
    \<and> (pred = all_diffs \<longrightarrow> (\<forall>d \<in> diffs mgr. \<not> canApply t d))"
  using applicable_list [OF assms, of pred] by blast

text \<open>A manager with one diff, for the witnesses.\<close>

definition sample_diff :: MetaDiff where
  "sample_diff = MetaDiff_default\<lparr>snapB := snap 1 1, snapE := snap 3 4\<rparr>"

definition sample_manager :: diff_manager where
  "sample_manager = \<lparr>mmap = [(0, sample_diff)],
     rangeMgr = [\<lparr>rngB = 1, rngE = 3, its = [0]\<rparr>], next_it = 1\<rparr>"

lemma sample_manager_ok: "manager_ok sample_manager"
proof -
  have "{x. x = 0 \<and> 1 \<le> g \<and> g < 3} =
      fst ` {x. x = (0 :: nat, sample_diff) \<and> key x \<le> g \<and> g < gidB (snapE (snd x))}" for g
    by (auto simp: sample_diff_def)
  then show ?thesis
    by (simp add: manager_ok_def sample_manager_def index_ok_def ranges_ok_def)
      (simp add: sample_diff_def diff_ok_def snap_ok_def diff_eq_def)
qed

theorem getApplicableDiffList_complete_witness:
  "\<exists>v t. getApplicableDiffList sample_manager (snap 2 2) all_diffs = Inr v
    \<and> apply_vec (snap 2 2) v = Inr t
    \<and> set v \<subseteq> diffs sample_manager \<and> sorted_wrt (\<lambda>d d'. gidB (snapE d) < gidB (snapE d')) v
    \<and> (all_diffs = all_diffs \<longrightarrow> (\<forall>d \<in> diffs sample_manager. \<not> canApply t d))"
  by (rule getApplicableDiffList_complete [OF sample_manager_ok]) (simp add: snap_ok_def)

section \<open>Erasing ranges\<close>

text \<open>The shape the two erasing loops share: they remove exactly the entries that satisfy a condition.\<close>

lemma eraseBeforeGid_loop_ok:
  assumes "manager_ok mgr" and "set xs \<subseteq> set (mmap mgr)" and "sorted (map key xs)" and "distinct xs"
  shows "\<exists>v mgr'. eraseBeforeGid_loop gid xs mgr = (v, mgr') \<and> manager_ok mgr'
    \<and> set v = snd ` {x \<in> set xs. gidB (snapE (snd x)) \<le> gid}
    \<and> set (mmap mgr') = set (mmap mgr) - {x \<in> set xs. gidB (snapE (snd x)) \<le> gid}"
  using assms
proof (induction xs arbitrary: mgr)
  case (Cons x xs)
  have ok: "\<forall>y \<in> set (x # xs). key y < gidB (snapE (snd y))"
    using Cons.prems(1,2) by (auto simp: manager_ok_def diff_ok_def)
  show ?case
  proof (cases "gid \<le> key x")
    case True
    have "\<forall>y \<in> set (x # xs). \<not> gidB (snapE (snd y)) \<le> gid"
      using True ok Cons.prems(3) by (auto simp: not_le intro: le_less_trans order.trans)
    with True Cons.prems(1) show ?thesis by auto
  next
    case nle: False
    show ?thesis
    proof (cases "gidB (snapE (snd x)) \<le> gid")
      case True
      let ?mgr = "erase_it x mgr"
      have x: "x \<in> set (mmap mgr)" using Cons.prems(2) by simp
      note e = erase_it_ok [OF Cons.prems(1) x]
      have sub: "set xs \<subseteq> set (mmap ?mgr)" using Cons.prems(2,4) e(3) by auto
      obtain v mgr' where IH: "eraseBeforeGid_loop gid xs ?mgr = (v, mgr')" "manager_ok mgr'"
        "set v = snd ` {x \<in> set xs. gidB (snapE (snd x)) \<le> gid}"
        "set (mmap mgr') = set (mmap ?mgr) - {x \<in> set xs. gidB (snapE (snd x)) \<le> gid}"
        using Cons.IH [OF e(1) sub] Cons.prems(3,4) by force
      have "{y \<in> set (x # xs). gidB (snapE (snd y)) \<le> gid} =
          insert x {y \<in> set xs. gidB (snapE (snd y)) \<le> gid}" using True by auto
      with IH nle True e(3) show ?thesis by (simp add: Let_def) blast
    next
      case False
      obtain v mgr' where IH: "eraseBeforeGid_loop gid xs mgr = (v, mgr')" "manager_ok mgr'"
        "set v = snd ` {x \<in> set xs. gidB (snapE (snd x)) \<le> gid}"
        "set (mmap mgr') = set (mmap mgr) - {x \<in> set xs. gidB (snapE (snd x)) \<le> gid}"
        using Cons.IH [OF Cons.prems(1)] Cons.prems(2-4) by force
      have "{y \<in> set (x # xs). gidB (snapE (snd y)) \<le> gid} =
          {y \<in> set xs. gidB (snapE (snd y)) \<le> gid}" using False by auto
      with IH nle False show ?thesis by (simp add: Let_def)
    qed
  qed
qed simp

lemma manager_ok_distinct: "manager_ok mgr \<Longrightarrow> distinct (mmap mgr)"
  by (auto simp: manager_ok_def distinct_map)

lemma diffs_minus:
  assumes "set (mmap mgr') = set (mmap mgr) - {x \<in> set (mmap mgr). P (snd x)}"
  shows "diffs mgr' = {d \<in> diffs mgr. \<not> P d}"
  using assms by (auto simp: diffs_def)

text \<open>
  \<open>eraseBeforeGid\<close> removes from a consistent manager exactly the diffs that end at the given gid or before, returns
  exactly those, and leaves a consistent manager (although the loop stops early at the first diff that begins
  at the gid or later).
\<close>

theorem eraseBeforeGid_exact:
  assumes "manager_ok mgr"
  shows "\<exists>v mgr'. eraseBeforeGid gid mgr = (v, mgr') \<and> manager_ok mgr'
    \<and> set v = {d \<in> diffs mgr. gidB (snapE d) \<le> gid}
    \<and> diffs mgr' = {d \<in> diffs mgr. \<not> gidB (snapE d) \<le> gid}"
proof -
  have "sorted (map key (mmap mgr))" using assms by (simp add: manager_ok_def)
  note loop = eraseBeforeGid_loop_ok [OF assms subset_refl this manager_ok_distinct [OF assms]]
  obtain v mgr' where l: "eraseBeforeGid_loop gid (mmap mgr) mgr = (v, mgr')" "manager_ok mgr'"
    "set v = snd ` {x \<in> set (mmap mgr). gidB (snapE (snd x)) \<le> gid}"
    "set (mmap mgr') = set (mmap mgr) - {x \<in> set (mmap mgr). gidB (snapE (snd x)) \<le> gid}"
    using loop [of gid] by blast
  from diffs_minus [OF l(4)] l(1-3) show ?thesis by (auto simp: eraseBeforeGid_def diffs_def)
qed

theorem eraseBeforeGid_exact_witness:
  "\<exists>v mgr'. eraseBeforeGid 3 sample_manager = (v, mgr') \<and> manager_ok mgr'
    \<and> set v = {d \<in> diffs sample_manager. gidB (snapE d) \<le> 3}
    \<and> diffs mgr' = {d \<in> diffs sample_manager. \<not> gidB (snapE d) \<le> 3}"
  by (rule eraseBeforeGid_exact [OF sample_manager_ok])

end
