(* ===== verification/State_Machine.thy ===== *)
theory State_Machine
  imports Prelude "HOL-Library.AList"
begin

text \<open>
  \<^verbatim>\<open>src/state_machine.hpp\<close> and \<^verbatim>\<open>src/action_counter.hpp\<close>: the state machine that drives a volume of a
  server, its transactions, and the counters of running actions. The recursive mutex makes every
  method one atomic step. A \<open>std::map\<close> that is only searched is an association list, a \<open>std::set\<close>
  of names a list without duplicates, an iterator of the map its key, and \<open>end()\<close> is \<open>None\<close>.
\<close>

section \<open>StateMachine\<close>

record state_machine =
  sm_map :: "(string \<times> string list) list"
  sm_cur :: "string option"
  sm_inTrans :: bool

definition sm_new :: state_machine where
  "sm_new = \<lparr>sm_map = [], sm_cur = None, sm_inTrans = False\<rparr>"

definition sm_succs :: "state_machine \<Rightarrow> string \<Rightarrow> string list" where
  "sm_succs sm s = (case map_of (sm_map sm) s of None \<Rightarrow> [] | Some v \<Rightarrow> v)"

text \<open>\<open>cur\<close> is dereferenced; the iterator \<open>end()\<close> refers to nothing.\<close>

definition changeNoLock :: "string \<Rightarrow> string \<Rightarrow> state_machine \<Rightarrow> (bool \<times> state_machine) res" where
  "changeNoLock from to sm =
     (case sm_cur sm of
        None \<Rightarrow> Inl Null_Pointer
      | Some c \<Rightarrow>
          if c \<noteq> from then Inr (False, sm)
          else if to \<notin> set (sm_succs sm c) then Inr (False, sm)
          else ensure (map_of (sm_map sm) to \<noteq> None) Assert_Failed (Inr (True, sm\<lparr>sm_cur := Some to\<rparr>)))"

definition verifyLocked :: "state_machine \<Rightarrow> unit res" where
  "verifyLocked sm = (if sm_inTrans sm then Inl (Exception ''StateMachine:locked'') else Inr ())"

definition addEdgeNoLock :: "string \<Rightarrow> string \<Rightarrow> state_machine \<Rightarrow> state_machine" where
  "addEdgeNoLock src dst sm =
     (let m = AList.update src (List.insert dst (sm_succs sm src)) (sm_map sm) in
      sm\<lparr>sm_map := (if map_of m dst = None then AList.update dst [] m else m)\<rparr>)"

definition addEdge :: "string \<Rightarrow> string \<Rightarrow> state_machine \<Rightarrow> state_machine res" where
  "addEdge src dst sm = res_bind (verifyLocked sm) (\<lambda>_. Inr (addEdgeNoLock src dst sm))"

fun addEdges :: "(string \<times> string) list \<Rightarrow> state_machine \<Rightarrow> state_machine" where
  "addEdges [] sm = sm"
| "addEdges ((from, to) # tbl) sm = addEdges tbl (addEdgeNoLock from to sm)"

definition sm_init :: "(string \<times> string) list \<Rightarrow> state_machine \<Rightarrow> state_machine res" where
  "sm_init tbl sm = res_bind (verifyLocked sm) (\<lambda>_. Inr (addEdges tbl sm))"

definition sm_set :: "string \<Rightarrow> state_machine \<Rightarrow> state_machine res" where
  "sm_set state sm = res_bind (verifyLocked sm) (\<lambda>_.
     if map_of (sm_map sm) state = None then Inl (Exception ''StateMachine:setState:not found'')
     else Inr (sm\<lparr>sm_cur := Some state\<rparr>))"

definition sm_get :: "bool \<Rightarrow> state_machine \<Rightarrow> string res" where
  "sm_get doThrow sm =
     (case sm_cur sm of
        None \<Rightarrow> if doThrow then Inl (Exception ''StateMachine:get:not set'') else Inr ''NO_STATE''
      | Some s \<Rightarrow> Inr s)"

definition sm_change :: "string \<Rightarrow> string \<Rightarrow> state_machine \<Rightarrow> (bool \<times> state_machine) res" where
  "sm_change from to sm = res_bind (verifyLocked sm) (\<lambda>_. changeNoLock from to sm)"

section \<open>StateMachineTransaction\<close>

record sm_transaction =
  tr_from :: "string option"
  tr_localInTrans :: bool

definition tran_new :: sm_transaction where
  "tran_new = \<lparr>tr_from = None, tr_localInTrans = False\<rparr>"

text \<open>A method of a transaction changes the transaction and its machine.\<close>

definition tryChange ::
  "string \<Rightarrow> string \<Rightarrow> sm_transaction \<Rightarrow> state_machine \<Rightarrow> (bool \<times> sm_transaction \<times> state_machine) res"
where
  "tryChange from pass tr sm =
     (if sm_inTrans sm then Inl (Exception ''StateMachineTransaction:tryChange:already called'')
      else
        let tr1 = tr\<lparr>tr_from := sm_cur sm\<rparr> in
        res_bind (changeNoLock from pass sm) (\<lambda>(ok, sm1).
          if \<not> ok then Inr (False, tr1, sm1)
          else Inr (True, tr1\<lparr>tr_localInTrans := True\<rparr>, sm1\<lparr>sm_inTrans := True\<rparr>)))"

text \<open>The constructor that starts the transaction.\<close>

definition tran_start :: "string \<Rightarrow> string \<Rightarrow> state_machine \<Rightarrow> (sm_transaction \<times> state_machine) res" where
  "tran_start from pass sm =
     res_bind (tryChange from pass tran_new sm) (\<lambda>(ok, tr, sm1).
       if \<not> ok then Inl (Exception ''StateMachineTransaction:bad state'') else Inr (tr, sm1))"

definition tran_commit :: "string \<Rightarrow> sm_transaction \<Rightarrow> state_machine \<Rightarrow> (sm_transaction \<times> state_machine) res" where
  "tran_commit to tr sm =
     (if \<not> sm_inTrans sm then Inl (Exception ''StateMachineTransaction:commit:tryChange is not called'')
      else case sm_cur sm of
        None \<Rightarrow> Inl Null_Pointer
      | Some c \<Rightarrow> res_bind (changeNoLock c to sm) (\<lambda>(ok, sm1).
          if \<not> ok then Inl (Exception ''StateMachineTransaction:commit:can't change'')
          else Inr (tr\<lparr>tr_localInTrans := False\<rparr>, sm1\<lparr>sm_inTrans := False\<rparr>)))"

text \<open>The destructor.\<close>

definition tran_destroy :: "sm_transaction \<Rightarrow> state_machine \<Rightarrow> state_machine res" where
  "tran_destroy tr sm =
     (if \<not> tr_localInTrans tr then Inr sm
      else ensure (sm_inTrans sm) Assert_Failed (Inr (sm\<lparr>sm_cur := tr_from tr, sm_inTrans := False\<rparr>)))"

section \<open>ActionCounters\<close>

record action_counter_item =
  aci_count :: u32
  aci_bgn_time :: u64

definition item_new :: action_counter_item where
  "item_new = \<lparr>aci_count = 0, aci_bgn_time = 0\<rparr>"

type_synonym action_counters = "(string \<times> action_counter_item) list"

text \<open>\<open>map_[name]\<close> inserts an empty item when there is none.\<close>

definition ac_get :: "string \<Rightarrow> action_counters \<Rightarrow> action_counter_item \<times> action_counters" where
  "ac_get name m =
     (case map_of m name of
        None \<Rightarrow> (item_new, AList.update name item_new m)
      | Some x \<Rightarrow> (x, m))"

definition ac_getValue :: "string \<Rightarrow> action_counters \<Rightarrow> u32 \<times> action_counters" where
  "ac_getValue name m = (let (x, m1) = ac_get name m in (aci_count x, m1))"

fun ac_getItems :: "string list \<Rightarrow> action_counters \<Rightarrow> action_counter_item list \<times> action_counters" where
  "ac_getItems [] m = ([], m)"
| "ac_getItems (name # nameV) m =
     (let (x, m1) = ac_get name m; (v, m2) = ac_getItems nameV m1 in (x # v, m2))"

fun ac_getValues :: "string list \<Rightarrow> action_counters \<Rightarrow> u32 list \<times> action_counters" where
  "ac_getValues [] m = ([], m)"
| "ac_getValues (name # nameV) m =
     (let (x, m1) = ac_get name m; (v, m2) = ac_getValues nameV m1 in (aci_count x # v, m2))"

definition ac_isAllZero :: "string list \<Rightarrow> action_counters \<Rightarrow> bool \<times> action_counters" where
  "ac_isAllZero nameV m = (let (v, m1) = ac_getValues nameV m in (list_all (\<lambda>i. i = 0) v, m1))"

record action_transaction =
  at_name :: string
  at_closed :: bool
  at_count :: u64

text \<open>The current time is an argument; \<open>count_\<close> is the counter before, converted to \<open>size_t\<close>.\<close>

definition action_start :: "string \<Rightarrow> u64 \<Rightarrow> action_counters \<Rightarrow> action_transaction \<times> action_counters" where
  "action_start name now m =
     (let (x, m1) = ac_get name m in
      (\<lparr>at_name = name, at_closed = False, at_count = scast (aci_count x)\<rparr>,
       AList.update name \<lparr>aci_count = aci_count x + 1, aci_bgn_time = now\<rparr> m1))"

definition action_close :: "action_transaction \<Rightarrow> action_counters \<Rightarrow> action_transaction \<times> action_counters" where
  "action_close t m =
     (if at_closed t then (t, m)
      else let (x, m1) = ac_get (at_name t) m in
        (t\<lparr>at_closed := True\<rparr>, AList.update (at_name t) (x\<lparr>aci_count := aci_count x - 1\<rparr>) m1))"

text \<open>\<open>verifyActionNotRunning\<close> of \<^verbatim>\<open>src/server_util.hpp\<close>; reading a counter may insert an empty item.\<close>

definition verifyActionNotRunning :: "string list \<Rightarrow> action_counters \<Rightarrow> unit res \<times> action_counters" where
  "verifyActionNotRunning actions m =
     (let (v, m1) = ac_getValues actions m in
      (ensure (length v = length actions) Assert_Failed
        (if list_ex (\<lambda>i. i \<noteq> 0) v then Inl (Exception ''there are running action'') else Inr ()), m1))"

end
