(* ===== verification/Server_States.thy ===== *)
theory Server_States
  imports State_Machine
begin

text \<open>
  The states of the volumes on the three servers (\<^verbatim>\<open>src/storage_constant.hpp\<close>,
  \<^verbatim>\<open>src/proxy_constant.hpp\<close>, \<^verbatim>\<open>src/archive_constant.hpp\<close>) and what the state machine guarantees
  for them when any number of transactions run interleaved: at most one is open, a volume outside a
  transaction is in a steady state, and from everywhere every steady state can be reached. The
  locale \<open>volume_table\<close> states what the tables have in common.
\<close>

section \<open>The tables\<close>

definition s_steadyStates :: "string list" where
  "s_steadyStates = [''Clear'', ''SyncReady'', ''Stopped'', ''Target'', ''Standby'']"

definition s_statePairTbl :: "(string \<times> string) list" where
  "s_statePairTbl =
     [(''Clear'', ''InitVol''), (''InitVol'', ''SyncReady''), (''SyncReady'', ''ClearVol''), (''ClearVol'', ''Clear''),
      (''SyncReady'', ''StartStandby''), (''StartStandby'', ''Standby''), (''Standby'', ''StopStandby''),
      (''StopStandby'', ''SyncReady''),
      (''SyncReady'', ''FullSync''), (''FullSync'', ''Stopped''), (''SyncReady'', ''HashSync''), (''HashSync'', ''Stopped''),
      (''Stopped'', ''Reset''), (''Reset'', ''SyncReady''),
      (''Stopped'', ''StartTarget''), (''StartTarget'', ''Target''), (''Target'', ''StopTarget''), (''StopTarget'', ''Stopped'')]"

definition p_steadyStates :: "string list" where
  "p_steadyStates = [''Clear'', ''Stopped'', ''Started'']"

definition p_statePairTbl :: "(string \<times> string) list" where
  "p_statePairTbl =
     [(''Clear'', ''AddArchiveInfo''), (''AddArchiveInfo'', ''Stopped''),
      (''Stopped'', ''ClearVol''), (''ClearVol'', ''Clear''),
      (''Stopped'', ''AddArchiveInfo''), (''AddArchiveInfo'', ''Stopped''),
      (''Stopped'', ''DeleteArchiveInfo''), (''DeleteArchiveInfo'', ''Stopped''),
      (''Stopped'', ''DeleteArchiveInfo''), (''DeleteArchiveInfo'', ''Clear''),
      (''Stopped'', ''Start''), (''Start'', ''Started''),
      (''Started'', ''Stop''), (''Stop'', ''Stopped''),
      (''Started'', ''WlogRecv''), (''WlogRecv'', ''Started''),
      (''Started'', ''WaitForEmpty''), (''WaitForEmpty'', ''Stopped'')]"

definition a_steadyStates :: "string list" where
  "a_steadyStates = [''Clear'', ''SyncReady'', ''Archived'', ''Stopped'']"

definition a_statePairTbl :: "(string \<times> string) list" where
  "a_statePairTbl =
     [(''Clear'', ''InitVol''), (''InitVol'', ''SyncReady''), (''SyncReady'', ''ClearVol''), (''ClearVol'', ''Clear''),
      (''SyncReady'', ''FullSync''), (''FullSync'', ''Archived''), (''SyncReady'', ''Resync''), (''Resync'', ''Archived''),
      (''Archived'', ''HashSync''), (''HashSync'', ''Archived''), (''Archived'', ''WdiffRecv''), (''WdiffRecv'', ''Archived''),
      (''Archived'', ''ReplSyncAsServer''), (''ReplSyncAsServer'', ''Archived''),
      (''Archived'', ''Stop''), (''Stop'', ''Stopped''),
      (''Stopped'', ''ClearVol''), (''ClearVol'', ''Clear''), (''Stopped'', ''Start''), (''Start'', ''Archived''),
      (''Stopped'', ''ResetVol''), (''SyncReady'', ''ResetVol''), (''ResetVol'', ''SyncReady'')]"

definition server_tables :: "((string \<times> string) list \<times> string list) list" where
  "server_tables = [(s_statePairTbl, s_steadyStates), (p_statePairTbl, p_steadyStates), (a_statePairTbl, a_steadyStates)]"

text \<open>The checks of \<^verbatim>\<open>src/server_util.hpp\<close>.\<close>

definition isStateIn :: "string \<Rightarrow> string list \<Rightarrow> bool" where
  "isStateIn state v = list_ex (\<lambda>s. state = s) v"

definition verifyStateIn :: "string \<Rightarrow> string list \<Rightarrow> unit res" where
  "verifyStateIn state v = (if \<not> isStateIn state v then Inl (Exception ''bad state'') else Inr ())"

section \<open>Interleaved transactions\<close>

text \<open>
  The open transaction objects of a volume. A transaction is committed by its owner; one that is
  not committed is undone by its destructor. Calls that throw change nothing.
\<close>

type_synonym volume = "state_machine \<times> sm_transaction list"

inductive tran_step :: "volume \<Rightarrow> volume \<Rightarrow> bool" where
  start: "tran_start from pass sm = Inr (tr, sm') \<Longrightarrow> tran_step (sm, ts) (sm', tr # ts)"
| commit: "tr_localInTrans tr \<Longrightarrow> tran_commit to tr sm = Inr (tr', sm') \<Longrightarrow>
    tran_step (sm, us @ tr # ts) (sm', us @ tr' # ts)"
| destroy: "tran_destroy tr sm = Inr sm' \<Longrightarrow> tran_step (sm, us @ tr # ts) (sm', us @ ts)"

inductive vol_step :: "string list \<Rightarrow> volume \<Rightarrow> volume \<Rightarrow> bool" for S where
  tran: "tran_step v v' \<Longrightarrow> vol_step S v v'"
| set_state: "s \<in> set S \<Longrightarrow> sm_set s sm = Inr sm' \<Longrightarrow> vol_step S (sm, ts) (sm', ts)"

inductive_cases tran_stepE: "tran_step (sm, ts) v"
inductive_cases vol_stepE: "vol_step S (sm, ts) v"

inductive vol_reachable :: "(string \<times> string) list \<Rightarrow> string list \<Rightarrow> volume \<Rightarrow> bool" for tbl S where
  init: "sm_init tbl sm_new = Inr sm \<Longrightarrow> s \<in> set S \<Longrightarrow> sm_set s sm = Inr sm' \<Longrightarrow> vol_reachable tbl S (sm', [])"
| step: "vol_reachable tbl S v \<Longrightarrow> vol_step S v v' \<Longrightarrow> vol_reachable tbl S v'"

section \<open>The invariant\<close>

definition sm_table :: "(string \<times> string) list \<Rightarrow> state_machine \<Rightarrow> bool" where
  "sm_table tbl sm \<longleftrightarrow> (\<forall>a b. b \<in> set (sm_succs sm a) \<longleftrightarrow> (a, b) \<in> set tbl)
     \<and> (\<forall>a. map_of (sm_map sm) a \<noteq> None \<longleftrightarrow> a \<in> fst ` set tbl \<union> snd ` set tbl)"

text \<open>
  Outside a transaction the state is steady. Inside one, exactly one transaction object is
  open, the state is temporary and the transaction remembers the steady state it came from.
\<close>

definition open_trans :: "sm_transaction list \<Rightarrow> nat" where
  "open_trans ts = length (filter tr_localInTrans ts)"

lemma open_trans_simps [simp]:
  "open_trans [] = 0" "open_trans (t # ts) = (if tr_localInTrans t then 1 else 0) + open_trans ts"
  "open_trans (us @ ts) = open_trans us + open_trans ts"
  by (simp_all add: open_trans_def)

definition vol_ok :: "(string \<times> string) list \<Rightarrow> string list \<Rightarrow> volume \<Rightarrow> bool" where
  "vol_ok tbl S v \<longleftrightarrow> sm_table tbl (fst v) \<and> (\<exists>c. sm_cur (fst v) = Some c
     \<and> (if sm_inTrans (fst v)
        then c \<notin> set S \<and> open_trans (snd v) = 1
          \<and> (\<exists>f \<in> set S. (f, c) \<in> set tbl \<and> (\<forall>t \<in> set (snd v). tr_localInTrans t \<longrightarrow> tr_from t = Some f))
        else c \<in> set S \<and> open_trans (snd v) = 0))"

lemma succs_addEdge:
  "b \<in> set (sm_succs (addEdgeNoLock x y sm) a) \<longleftrightarrow> b \<in> set (sm_succs sm a) \<or> (a = x \<and> b = y)"
  by (cases "map_of (sm_map sm) x"; cases "map_of (sm_map sm) y"; cases "x = y"; cases "a = x"; cases "a = y")
    (simp_all add: addEdgeNoLock_def sm_succs_def Let_def update_conv' disj_commute)

lemma mapped_addEdge:
  "map_of (sm_map (addEdgeNoLock x y sm)) a \<noteq> None \<longleftrightarrow> map_of (sm_map sm) a \<noteq> None \<or> a = x \<or> a = y"
  by (auto simp: addEdgeNoLock_def Let_def update_conv')

lemma succs_addEdges:
  "b \<in> set (sm_succs (addEdges tbl sm) a) \<longleftrightarrow> b \<in> set (sm_succs sm a) \<or> (a, b) \<in> set tbl"
  by (induction tbl sm rule: addEdges.induct) (auto simp: succs_addEdge)

lemma mapped_addEdges:
  "map_of (sm_map (addEdges tbl sm)) a \<noteq> None \<longleftrightarrow> map_of (sm_map sm) a \<noteq> None \<or> a \<in> fst ` set tbl \<union> snd ` set tbl"
  by (induction tbl sm rule: addEdges.induct) (simp_all only: addEdges.simps mapped_addEdge, auto)

lemma inTrans_addEdges [simp]: "sm_inTrans (addEdges tbl sm) = sm_inTrans sm"
  by (induction tbl sm rule: addEdges.induct) (simp_all add: addEdgeNoLock_def Let_def)

lemma sm_init_new: "sm_init tbl sm_new = Inr (addEdges tbl sm_new)" "sm_table tbl (addEdges tbl sm_new)"
proof -
  show "sm_init tbl sm_new = Inr (addEdges tbl sm_new)" by (simp add: sm_init_def verifyLocked_def sm_new_def)
  show "sm_table tbl (addEdges tbl sm_new)"
    unfolding sm_table_def succs_addEdges mapped_addEdges by (simp add: sm_succs_def sm_new_def)
qed

lemma sm_table_upd [simp]:
  "sm_table tbl (sm\<lparr>sm_cur := c\<rparr>) = sm_table tbl sm" "sm_table tbl (sm\<lparr>sm_inTrans := b\<rparr>) = sm_table tbl sm"
  by (simp_all add: sm_table_def sm_succs_def)

lemma changeNoLock_table:
  assumes "sm_table tbl sm" and "sm_cur sm = Some c"
  shows "changeNoLock from to sm = Inr (if c = from \<and> (from, to) \<in> set tbl then (True, sm\<lparr>sm_cur := Some to\<rparr>) else (False, sm))"
proof -
  have "(from, to) \<in> set tbl \<Longrightarrow> \<exists>v. map_of (sm_map sm) to = Some v"
    using assms(1) unfolding sm_table_def by (metis UnI2 image_eqI not_None_eq snd_conv)
  then show ?thesis using assms by (auto simp: changeNoLock_def sm_table_def)
qed

lemma tran_start_iff:
  assumes "sm_table tbl sm" and "sm_cur sm = Some c"
  shows "tran_start a pass sm = Inr (tr, sm') \<longleftrightarrow> \<not> sm_inTrans sm \<and> c = a \<and> (a, pass) \<in> set tbl
    \<and> tr = \<lparr>tr_from = Some c, tr_localInTrans = True\<rparr> \<and> sm' = sm\<lparr>sm_cur := Some pass, sm_inTrans := True\<rparr>"
  using changeNoLock_table [OF assms, of a pass] assms(2)
  by (auto simp: tran_start_def tryChange_def tran_new_def)

lemma tran_commit_iff:
  assumes "sm_table tbl sm" and "sm_cur sm = Some c"
  shows "tran_commit to tr sm = Inr (tr', sm') \<longleftrightarrow> sm_inTrans sm \<and> (c, to) \<in> set tbl
    \<and> tr' = tr\<lparr>tr_localInTrans := False\<rparr> \<and> sm' = sm\<lparr>sm_cur := Some to, sm_inTrans := False\<rparr>"
  using changeNoLock_table [OF assms, of c to] assms(2)
  by (auto simp: tran_commit_def)

section \<open>What the tables have in common\<close>

fun walk :: "(string \<times> string) list \<Rightarrow> string list \<Rightarrow> bool" where
  "walk tbl (a # b # p) \<longleftrightarrow> (a, b) \<in> set tbl \<and> walk tbl (b # p)"
| "walk tbl _ \<longleftrightarrow> True"

text \<open>Steady and temporary states alternate, and a round trip visits all steady states.\<close>

locale volume_table =
  fixes tbl :: "(string \<times> string) list" and S :: "string list" and tour :: "string list"
  assumes alternate: "list_all (\<lambda>(a, b). (a \<in> set S) = (b \<notin> set S)) tbl"
    and tour: "walk tbl tour" "tour \<noteq> []" "hd tour = last tour" "hd tour \<in> set S" "set S \<subseteq> set tour"
begin

lemma edge_alternates: "(a, b) \<in> set tbl \<Longrightarrow> a \<in> set S \<longleftrightarrow> b \<notin> set S"
  using alternate by (auto simp: list_all_iff)

lemma vol_ok_tran_step:
  assumes "vol_ok tbl S v" and "tran_step v v'"
  shows "vol_ok tbl S v'"
  using assms(2,1)
proof (cases rule: tran_step.cases)
  case (start a pass sm tr sm' ts)
  obtain c where c: "sm_table tbl sm" "sm_cur sm = Some c" using assms(1) start(1) by (auto simp: vol_ok_def)
  then have st: "\<not> sm_inTrans sm" "(c, pass) \<in> set tbl" "tr = \<lparr>tr_from = Some c, tr_localInTrans = True\<rparr>"
    "sm' = sm\<lparr>sm_cur := Some pass, sm_inTrans := True\<rparr>"
    using start(3) tran_start_iff [OF c] by auto
  moreover from this have o: "c \<in> set S" "open_trans ts = 0" using assms(1) start(1) c(2) by (auto simp: vol_ok_def)
  moreover from o(2) have "\<forall>t \<in> set ts. \<not> tr_localInTrans t" by (simp add: open_trans_def filter_empty_conv)
  ultimately show ?thesis using start(2) c(1) edge_alternates [OF st(2)] by (auto simp: vol_ok_def)
next
  case (commit tr to sm tr' sm' us ts)
  obtain c where c: "sm_table tbl sm" "sm_cur sm = Some c" using assms(1) commit(1) by (auto simp: vol_ok_def)
  then have cm: "sm_inTrans sm" "(c, to) \<in> set tbl" "tr' = tr\<lparr>tr_localInTrans := False\<rparr>"
    "sm' = sm\<lparr>sm_cur := Some to, sm_inTrans := False\<rparr>"
    using commit(4) tran_commit_iff [OF c] by auto
  then show ?thesis using assms(1) commit(1-3) c edge_alternates [OF cm(2)] by (auto simp: vol_ok_def)
next
  case (destroy tr sm sm' us ts)
  then show ?thesis using assms(1) by (auto simp: vol_ok_def tran_destroy_def res_simps split: if_splits)
qed

lemma vol_ok_init:
  assumes "sm_init tbl sm_new = Inr sm" and "s \<in> set S" and "sm_set s sm = Inr sm'"
  shows "vol_ok tbl S (sm', [])"
proof -
  have "sm = addEdges tbl sm_new" "sm_table tbl sm" using assms(1) sm_init_new by auto
  then show ?thesis
    using assms(2,3) by (auto simp: vol_ok_def sm_set_def verifyLocked_def sm_new_def split: if_splits)
qed

lemma vol_ok_reachable: "vol_reachable tbl S v \<Longrightarrow> vol_ok tbl S v"
proof (induction rule: vol_reachable.induct)
  case (init sm s sm')
  then show ?case by (rule vol_ok_init)
next
  case (step v v')
  from step(2,3) show ?case
  proof (cases rule: vol_step.cases)
    case tran
    then show ?thesis using vol_ok_tran_step step(3) by blast
  next
    case (set_state s sm sm' ts)
    then show ?thesis
      using step(3) by (auto simp: vol_ok_def sm_set_def verifyLocked_def split: if_splits)
  qed
qed

text \<open>The destructor of every object works in every state that is reached.\<close>

lemma destroy_ok:
  assumes "vol_ok tbl S (sm, us @ tr # ts)"
  shows "\<exists>sm'. tran_destroy tr sm = Inr sm'"
  using assms by (auto simp: vol_ok_def tran_destroy_def split: if_splits)

section \<open>Every steady state can be reached\<close>

definition hop :: "string \<Rightarrow> string \<Rightarrow> bool" where
  "hop a b \<longleftrightarrow> a \<in> set S \<and> (\<exists>t. (a, t) \<in> set tbl \<and> (t, b) \<in> set tbl)"

lemma hop_run:
  assumes "sm_table tbl sm" and "sm_cur sm = Some a" and "\<not> sm_inTrans sm" and "hop a b"
  shows "\<exists>sm'. tran_step\<^sup>*\<^sup>* (sm, []) (sm', []) \<and> sm_table tbl sm' \<and> sm_cur sm' = Some b \<and> \<not> sm_inTrans sm'"
proof -
  obtain t where t: "(a, t) \<in> set tbl" "(t, b) \<in> set tbl" using assms(4) by (auto simp: hop_def)
  let ?tr = "\<lparr>tr_from = Some a, tr_localInTrans = True\<rparr>" and ?sm1 = "sm\<lparr>sm_cur := Some t, sm_inTrans := True\<rparr>"
  let ?tr' = "?tr\<lparr>tr_localInTrans := False\<rparr>" and ?sm2 = "?sm1\<lparr>sm_cur := Some b, sm_inTrans := False\<rparr>"
  have "tran_start a t sm = Inr (?tr, ?sm1)" using tran_start_iff [OF assms(1,2)] assms(3) t(1) by simp
  then have "tran_step (sm, []) (?sm1, [?tr])" by (rule tran_step.start)
  moreover have "tran_commit b ?tr ?sm1 = Inr (?tr', ?sm2)"
    using tran_commit_iff [of tbl ?sm1 t b ?tr ?tr' ?sm2] assms(1) t(2) by simp
  then have "tran_step (?sm1, [] @ ?tr # []) (?sm2, [] @ ?tr' # [])" by (intro tran_step.commit) simp_all
  moreover have "tran_step (?sm2, [] @ ?tr' # []) (?sm2, [] @ [])"
    by (intro tran_step.destroy) (simp add: tran_destroy_def)
  ultimately have "tran_step\<^sup>*\<^sup>* (sm, []) (?sm2, [])" by (auto intro: converse_rtranclp_into_rtranclp)
  then show ?thesis using assms(1) by (intro exI [of _ ?sm2]) simp
qed

lemma hops_run:
  assumes "hop\<^sup>*\<^sup>* a b" and "sm_table tbl sm" and "sm_cur sm = Some a" and "\<not> sm_inTrans sm"
  shows "\<exists>sm'. tran_step\<^sup>*\<^sup>* (sm, []) (sm', []) \<and> sm_table tbl sm' \<and> sm_cur sm' = Some b \<and> \<not> sm_inTrans sm'"
  using assms
proof (induction arbitrary: sm rule: converse_rtranclp_induct)
  case base
  then show ?case by blast
next
  case (step a c)
  then obtain sm1 where "tran_step\<^sup>*\<^sup>* (sm, []) (sm1, [])" "sm_table tbl sm1" "sm_cur sm1 = Some c" "\<not> sm_inTrans sm1"
    using hop_run by blast
  then show ?case using step.IH by (meson rtranclp_trans)
qed

lemma walk_hops:
  assumes "walk tbl (a # p)" and "a \<in> set S" and "b \<in> set (a # p)" and "b \<in> set S"
  shows "hop\<^sup>*\<^sup>* a b"
  using assms
proof (induction "length p" arbitrary: a p rule: less_induct)
  case less
  show ?case
  proof (cases p)
    case Nil
    then show ?thesis using less.prems by simp
  next
    case (Cons t q)
    then have t: "(a, t) \<in> set tbl" "t \<notin> set S" using less.prems(1,2) edge_alternates by auto
    show ?thesis
    proof (cases q)
      case Nil
      then show ?thesis using less.prems(3,4) Cons t(2) by auto
    next
      case (Cons c r)
      then have c: "(t, c) \<in> set tbl" "walk tbl (c # r)" using less.prems(1) \<open>p = t # q\<close> by auto
      then have "c \<in> set S" "hop a c" using t less.prems(2) edge_alternates by (auto simp: hop_def)
      moreover have "b = a \<or> hop\<^sup>*\<^sup>* c b"
        using less.hyps [of r c] less.prems(3,4) Cons \<open>p = t # q\<close> c(2) \<open>c \<in> set S\<close> t(2) by auto
      ultimately show ?thesis by (meson converse_rtranclp_into_rtranclp rtranclp.rtrancl_refl)
    qed
  qed
qed

lemma walk_append: "walk tbl (us @ x # vs) \<Longrightarrow> walk tbl (x # vs)"
  by (induction us rule: induct_list012) (auto elim: walk.elims)

lemma tour_hops:
  assumes "a \<in> set S" and "b \<in> set S"
  shows "hop\<^sup>*\<^sup>* a b"
proof -
  obtain us vs where u: "tour = us @ a # vs" using assms(1) tour(5) by (metis in_mono split_list)
  have wa: "walk tbl (a # vs)" using tour(1) unfolding u by (rule walk_append)
  have "last tour \<in> set (a # vs)" using u by simp
  then have "hop\<^sup>*\<^sup>* a (last tour)" using walk_hops [OF wa assms(1)] tour(3,4) by simp
  moreover obtain p where p: "tour = last tour # p" using tour(2,3) by (metis list.collapse)
  then have "walk tbl (last tour # p)" "b \<in> set (last tour # p)" using tour(1,5) assms(2) by auto
  then have "hop\<^sup>*\<^sup>* (last tour) b" using walk_hops [of "last tour" p b] tour(3,4) assms(2) by simp
  ultimately show ?thesis by simp
qed

lemma all_steady_reachable:
  assumes "vol_ok tbl S (sm, ts)" and "b \<in> set S"
  shows "\<exists>sm'. tran_step\<^sup>*\<^sup>* (sm, ts) (sm', []) \<and> sm_cur sm' = Some b \<and> \<not> sm_inTrans sm'"
  using assms(1)
proof (induction ts arbitrary: sm)
  case Nil
  then obtain a where "sm_table tbl sm" "sm_cur sm = Some a" "a \<in> set S" "\<not> sm_inTrans sm"
    by (auto simp: vol_ok_def split: if_splits)
  then show ?case using hops_run [OF tour_hops [OF _ assms(2)]] by blast
next
  case (Cons t ts)
  then obtain sm1 where "tran_destroy t sm = Inr sm1" using destroy_ok [of sm "[]" t ts] by auto
  then have st: "tran_step (sm, [] @ t # ts) (sm1, [] @ ts)" by (rule tran_step.destroy)
  then have "vol_ok tbl S (sm1, ts)" using vol_ok_tran_step Cons.prems by fastforce
  then show ?case using Cons.IH st by (metis append_Nil converse_rtranclp_into_rtranclp)
qed

end

interpretation storage: volume_table s_statePairTbl s_steadyStates
    "[''Clear'', ''InitVol'', ''SyncReady'', ''StartStandby'', ''Standby'', ''StopStandby'', ''SyncReady'', ''FullSync'',
      ''Stopped'', ''StartTarget'', ''Target'', ''StopTarget'', ''Stopped'', ''Reset'', ''SyncReady'', ''ClearVol'', ''Clear'']"
  by standard (simp_all add: s_statePairTbl_def s_steadyStates_def)

interpretation proxy: volume_table p_statePairTbl p_steadyStates
    "[''Clear'', ''AddArchiveInfo'', ''Stopped'', ''Start'', ''Started'', ''Stop'', ''Stopped'', ''ClearVol'', ''Clear'']"
  by standard (simp_all add: p_statePairTbl_def p_steadyStates_def)

interpretation archive: volume_table a_statePairTbl a_steadyStates
    "[''Clear'', ''InitVol'', ''SyncReady'', ''FullSync'', ''Archived'', ''Stop'', ''Stopped'', ''ClearVol'', ''Clear'']"
  by standard (simp_all add: a_statePairTbl_def a_steadyStates_def)

lemma server_table_cases:
  assumes "(tbl, S) \<in> set server_tables"
  obtains (s) "tbl = s_statePairTbl" "S = s_steadyStates" | (p) "tbl = p_statePairTbl" "S = p_steadyStates"
    | (a) "tbl = a_statePairTbl" "S = a_steadyStates"
  using assms by (auto simp: server_tables_def)

lemma server_vol_ok:
  assumes "(tbl, S) \<in> set server_tables" and "vol_reachable tbl S v"
  shows "vol_ok tbl S v"
  using assms(1)
proof (cases rule: server_table_cases)
  case s
  then show ?thesis using storage.vol_ok_reachable assms(2) by blast
next
  case p
  then show ?thesis using proxy.vol_ok_reachable assms(2) by blast
next
  case a
  then show ?thesis using archive.vol_ok_reachable assms(2) by blast
qed

lemma destroy_member:
  assumes "vol_ok tbl S (sm, ts)" and "tr \<in> set ts"
  shows "\<exists>sm'. tran_destroy tr sm = Inr sm'"
  using assms by (auto simp: vol_ok_def tran_destroy_def open_trans_def filter_empty_conv split: if_splits)

text \<open>
  C30: On each of the three servers, however transactions, their destructors and settings of steady states
  interleave: at most one transaction of a volume is open; when none is, the state is one of the
  steady states; when one is, the state is temporary, was entered from a steady state along an edge
  of the table, and that steady state is what the destructor restores; no destructor fails.
\<close>

theorem server_transactions_exclusive:
  assumes "(tbl, S) \<in> set server_tables" and "vol_reachable tbl S (sm, ts)"
  shows "open_trans ts = (if sm_inTrans sm then 1 else 0)
    \<and> (\<exists>c. sm_get True sm = Inr c \<and> (c \<in> set S \<longleftrightarrow> \<not> sm_inTrans sm)
       \<and> (sm_inTrans sm \<longrightarrow> (\<exists>f \<in> set S. (f, c) \<in> set tbl \<and> (\<forall>tr \<in> set ts. tr_localInTrans tr \<longrightarrow> tr_from tr = Some f))))
    \<and> (\<forall>tr \<in> set ts. \<exists>sm'. tran_destroy tr sm = Inr sm')"
proof (intro conjI)
  have ok: "vol_ok tbl S (sm, ts)" by (rule server_vol_ok [OF assms])
  then show "open_trans ts = (if sm_inTrans sm then 1 else 0)" by (auto simp: vol_ok_def)
  show "\<exists>c. sm_get True sm = Inr c \<and> (c \<in> set S \<longleftrightarrow> \<not> sm_inTrans sm)
       \<and> (sm_inTrans sm \<longrightarrow> (\<exists>f \<in> set S. (f, c) \<in> set tbl \<and> (\<forall>tr \<in> set ts. tr_localInTrans tr \<longrightarrow> tr_from tr = Some f)))"
    using ok by (auto simp: vol_ok_def sm_get_def)
  show "\<forall>tr \<in> set ts. \<exists>sm'. tran_destroy tr sm = Inr sm'" using destroy_member [OF ok] by blast
qed

text \<open>
  C31: No volume gets stuck: from every state that can be reached, with transactions open or not, every
  steady state of the server can be reached by ending the open transactions and running others.
\<close>

theorem server_steady_state_reachable:
  assumes "(tbl, S) \<in> set server_tables" and "vol_reachable tbl S (sm, ts)" and "b \<in> set S"
  shows "\<exists>sm'. tran_step\<^sup>*\<^sup>* (sm, ts) (sm', []) \<and> sm_get True sm' = Inr b \<and> \<not> sm_inTrans sm'"
proof -
  have ok: "vol_ok tbl S (sm, ts)" by (rule server_vol_ok [OF assms(1,2)])
  have "\<exists>sm'. tran_step\<^sup>*\<^sup>* (sm, ts) (sm', []) \<and> sm_cur sm' = Some b \<and> \<not> sm_inTrans sm'"
    using assms(1)
  proof (cases rule: server_table_cases)
    case s
    then show ?thesis using storage.all_steady_reachable ok assms(3) by blast
  next
    case p
    then show ?thesis using proxy.all_steady_reachable ok assms(3) by blast
  next
    case a
    then show ?thesis using archive.all_steady_reachable ok assms(3) by blast
  qed
  then show ?thesis by (auto simp: sm_get_def)
qed

definition sample_volume :: state_machine where
  "sample_volume = (addEdges p_statePairTbl sm_new)\<lparr>sm_cur := Some ''Clear''\<rparr>"

definition sample_open :: volume where
  "sample_open = (sample_volume\<lparr>sm_cur := Some ''AddArchiveInfo'', sm_inTrans := True\<rparr>,
     [\<lparr>tr_from = Some ''Clear'', tr_localInTrans = True\<rparr>])"

lemma sample_volume_table: "sm_table p_statePairTbl sample_volume" "sm_cur sample_volume = Some ''Clear''"
    "\<not> sm_inTrans sample_volume"
  using sm_init_new(2) [of p_statePairTbl] by (simp_all add: sample_volume_def sm_new_def)

lemma sample_start: "tran_start ''Clear'' ''AddArchiveInfo'' sample_volume = Inr (hd (snd sample_open), fst sample_open)"
  using tran_start_iff [OF sample_volume_table(1,2)] sample_volume_table(3)
  by (simp add: sample_open_def p_statePairTbl_def)

lemma sample_open_reachable: "vol_reachable p_statePairTbl p_steadyStates (fst sample_open, snd sample_open)"
proof -
  have "vol_reachable p_statePairTbl p_steadyStates (sample_volume, [])"
  proof (rule vol_reachable.init [OF sm_init_new(1), of "''Clear''"])
    show "sm_set ''Clear'' (addEdges p_statePairTbl sm_new) = Inr sample_volume"
    proof -
      have "map_of (sm_map (addEdges p_statePairTbl sm_new)) ''Clear'' \<noteq> None"
        unfolding mapped_addEdges by (simp add: p_statePairTbl_def)
      moreover have "\<not> sm_inTrans (addEdges p_statePairTbl sm_new)" unfolding inTrans_addEdges by (simp add: sm_new_def)
      ultimately show ?thesis by (simp add: sm_set_def verifyLocked_def sample_volume_def del: not_None_eq)
    qed
  qed (simp add: p_steadyStates_def)
  moreover have "tran_step (sample_volume, []) (fst sample_open, [hd (snd sample_open)])"
    by (rule tran_step.start [OF sample_start])
  ultimately show ?thesis by (auto simp: sample_open_def intro: vol_reachable.step vol_step.tran)
qed

theorem server_transactions_exclusive_witness:
  "open_trans (snd sample_open) = 1 \<and> sm_get True (fst sample_open) = Inr ''AddArchiveInfo''
    \<and> ''AddArchiveInfo'' \<notin> set p_steadyStates
    \<and> (\<exists>f \<in> set p_steadyStates. (f, ''AddArchiveInfo'') \<in> set p_statePairTbl \<and> tr_from (hd (snd sample_open)) = Some f)
    \<and> (\<exists>sm'. tran_destroy (hd (snd sample_open)) (fst sample_open) = Inr sm')"
proof -
  have t: "(p_statePairTbl, p_steadyStates) \<in> set server_tables" by (simp add: server_tables_def)
  have "sm_inTrans (fst sample_open)" "sm_get True (fst sample_open) = Inr ''AddArchiveInfo''"
    "tr_localInTrans (hd (snd sample_open))" "hd (snd sample_open) \<in> set (snd sample_open)"
    by (simp_all add: sample_open_def sm_get_def)
  then show ?thesis using server_transactions_exclusive [OF t sample_open_reachable] by auto
qed

theorem server_steady_state_reachable_witness:
  "\<exists>sm'. tran_step\<^sup>*\<^sup>* (fst sample_open, snd sample_open) (sm', []) \<and> sm_get True sm' = Inr ''Started'' \<and> \<not> sm_inTrans sm'"
  by (rule server_steady_state_reachable [OF _ sample_open_reachable])
    (simp_all add: server_tables_def p_steadyStates_def)

text \<open>
  \<open>commit\<close> asks whether the machine is in a transaction, not whether this object started it: an
  object whose \<open>tryChange\<close> did not succeed can commit the transaction of another one, and the
  destructor of the owner then fails its assertion if a third one is not open.
\<close>

theorem commit_of_foreign_transaction:
  assumes "tran_start a pass sm = Inr (owner, sm1)" and "tran_commit b tran_new sm1 = Inr (other, sm2)"
  shows "tran_destroy owner sm2 = Inl Assert_Failed"
proof -
  have "tr_localInTrans owner"
    using assms(1) by (auto simp: tran_start_def tryChange_def Let_def res_simps split: if_splits)
  moreover have "\<not> sm_inTrans sm2"
    using assms(2) by (auto simp: tran_commit_def res_simps split: if_splits option.splits)
  ultimately show ?thesis by (simp add: tran_destroy_def)
qed

theorem commit_of_foreign_transaction_witness:
  "tran_destroy (hd (snd sample_open)) ((fst sample_open)\<lparr>sm_cur := Some ''Stopped'', sm_inTrans := False\<rparr>) = Inl Assert_Failed"
proof (rule commit_of_foreign_transaction [OF sample_start])
  have "sm_table p_statePairTbl (fst sample_open)" using sample_volume_table(1) by (simp add: sample_open_def)
  then show "tran_commit ''Stopped'' tran_new (fst sample_open) =
      Inr (tran_new\<lparr>tr_localInTrans := False\<rparr>, (fst sample_open)\<lparr>sm_cur := Some ''Stopped'', sm_inTrans := False\<rparr>)"
    using tran_commit_iff [of p_statePairTbl "fst sample_open" "''AddArchiveInfo''"]
    by (simp add: sample_open_def p_statePairTbl_def)
qed

section \<open>Action counters\<close>

text \<open>
  Starting and closing of actions of a volume, with the transactions that exist.\<close>

inductive action_reachable :: "action_counters \<times> action_transaction list \<Rightarrow> bool" where
  empty: "action_reachable ([], [])"
| start: "action_reachable (m, ts) \<Longrightarrow> action_start name now m = (t, m') \<Longrightarrow> action_reachable (m', t # ts)"
| close: "action_reachable (m, us @ t # ts) \<Longrightarrow> action_close t m = (t', m') \<Longrightarrow> action_reachable (m', us @ t' # ts)"
| destroy: "action_reachable (m, us @ t # ts) \<Longrightarrow> action_close t m = (t', m') \<Longrightarrow> action_reachable (m', us @ ts)"
| look: "action_reachable (m, ts) \<Longrightarrow> ac_getItems nameV m = (v, m') \<Longrightarrow> action_reachable (m', ts)"

definition running :: "string \<Rightarrow> action_transaction list \<Rightarrow> nat" where
  "running name ts = length (filter (\<lambda>t. at_name t = name \<and> \<not> at_closed t) ts)"

definition counter_of :: "string \<Rightarrow> action_counters \<Rightarrow> u32" where
  "counter_of name m = aci_count (fst (ac_get name m))"

lemma counter_get [simp]:
  "counter_of n (snd (ac_get name m)) = counter_of n m" "aci_count (fst (ac_get name m)) = counter_of name m"
  by (auto simp: ac_get_def counter_of_def update_conv' item_new_def split: option.splits)

lemma counter_update [simp]: "counter_of n (AList.update name x m) = (if n = name then aci_count x else counter_of n m)"
  by (auto simp: ac_get_def counter_of_def update_conv' item_new_def split: option.splits)

lemma counter_getItems: "counter_of n (snd (ac_getItems nameV m)) = counter_of n m"
  by (induction nameV arbitrary: m) (simp_all add: case_prod_unfold Let_def)

lemma counter_getValues: "fst (ac_getValues nameV m) = map (\<lambda>name. counter_of name m) nameV"
  by (induction nameV arbitrary: m) (simp_all add: case_prod_unfold Let_def)

lemma counter_start:
  assumes "action_start name now m = (t, m')"
  shows "counter_of n m' = counter_of n m + (if n = name then 1 else 0)" "at_name t = name" "\<not> at_closed t"
  using assms by (auto simp: action_start_def case_prod_unfold Let_def)

lemma counter_close:
  assumes "action_close t m = (t', m')"
  shows "counter_of n m' = counter_of n m - (if n = at_name t \<and> \<not> at_closed t then 1 else 0)"
    and "at_name t' = at_name t" "at_closed t'"
  using assms by (auto simp: action_close_def case_prod_unfold Let_def split: if_splits)

lemma counters_exact: "action_reachable (m, ts) \<Longrightarrow> counter_of name m = of_nat (running name ts)"
proof (induction "(m, ts)" arbitrary: m ts rule: action_reachable.induct)
  case empty
  then show ?case by (simp add: counter_of_def ac_get_def item_new_def running_def)
next
  case (start m ts name' now t m')
  then show ?case using counter_start(1) [OF start(3), of name] counter_start(2,3) [OF start(3)] by (simp add: running_def)
next
  case (close m us t ts t' m')
  then show ?case using counter_close(1) [OF close(3), of name] counter_close(2,3) [OF close(3)] by (simp add: running_def)
next
  case (destroy m us t ts t' m')
  then show ?case using counter_close(1) [OF destroy(3), of name] counter_close(2,3) [OF destroy(3)] by (simp add: running_def)
next
  case (look m ts nameV v m')
  then show ?case using counter_getItems [of name nameV m] by simp
qed

text \<open>
  The counter of an action is the number of its running transactions, however starts, closes,
  destructors and queries interleave, so \<open>isAllZero\<close> and \<open>verifyActionNotRunning\<close> say exactly whether one of
  the actions is running.
\<close>

theorem action_counters_exact:
  assumes "action_reachable (m, ts)" and "length ts < 2 ^ 32"
  shows "(fst (ac_isAllZero nameV m) \<longleftrightarrow> (\<forall>t \<in> set ts. at_name t \<in> set nameV \<longrightarrow> at_closed t))
    \<and> fst (verifyActionNotRunning nameV m) =
      (if \<forall>t \<in> set ts. at_name t \<in> set nameV \<longrightarrow> at_closed t then Inr () else Inl (Exception ''there are running action''))"
proof (rule conjI)
  obtain v m' where v: "ac_getValues nameV m = (v, m')" by fastforce
  have "counter_of n m = 0 \<longleftrightarrow> running n ts = 0" for n
  proof -
    have "running n ts < 2 ^ 32" unfolding running_def using assms(2) length_filter_le by (rule le_less_trans [rotated])
    then show ?thesis using counters_exact [OF assms(1), of n] by (simp add: of_nat_eq_0_iff unat_eq_0 [symmetric] unat_of_nat)
  qed
  then have z: "list_all (\<lambda>i. i = 0) v \<longleftrightarrow> (\<forall>t \<in> set ts. at_name t \<in> set nameV \<longrightarrow> at_closed t)"
    using counter_getValues [of nameV m] v by (auto simp: list_all_iff running_def filter_empty_conv)
  then show "fst (ac_isAllZero nameV m) \<longleftrightarrow> (\<forall>t \<in> set ts. at_name t \<in> set nameV \<longrightarrow> at_closed t)"
    using v by (simp add: ac_isAllZero_def)
  have "length v = length nameV" using counter_getValues [of nameV m] v by simp
  moreover have "list_ex (\<lambda>i. i \<noteq> 0) v \<longleftrightarrow> \<not> list_all (\<lambda>i. i = 0) v" by (auto simp: list_all_iff list_ex_iff)
  ultimately show "fst (verifyActionNotRunning nameV m) =
      (if \<forall>t \<in> set ts. at_name t \<in> set nameV \<longrightarrow> at_closed t then Inr () else Inl (Exception ''there are running action''))"
    using v z by (simp add: verifyActionNotRunning_def)
qed

theorem action_counters_exact_witness:
  "\<not> fst (ac_isAllZero [''Merge'', ''Apply''] (snd (action_start ''Merge'' 7 [])))
    \<and> fst (verifyActionNotRunning [''Merge'', ''Apply''] (snd (action_start ''Merge'' 7 [])))
      = Inl (Exception ''there are running action'')"
proof -
  have "at_name (fst (action_start ''Merge'' 7 [])) = ''Merge''" "\<not> at_closed (fst (action_start ''Merge'' 7 []))"
    by (simp_all add: action_start_def ac_get_def)
  then show ?thesis
    using action_counters_exact [OF action_reachable.start [OF action_reachable.empty surjective_pairing], where nameV = "[''Merge'', ''Apply'']"]
    by simp
qed

end
