(* ===== verification/Wdev_Util.thy ===== *)
theory Wdev_Util
  imports Meta_Text
begin

text \<open>
  What the servers ask the WalB device: \<^verbatim>\<open>src/wdev_util.cpp\<close>. The file in sysfs that reports the lsids is its text;
  the ioctl calls are answered by the driver, which is not part of the repository, so their answers are arguments and a
  change of the oldest lsid is the value that the driver is given. Splitting of lines is from \<^verbatim>\<open>include/util.hpp\<close>.
\<close>

section \<open>Words of a text\<close>

definition trimSpace :: "string \<Rightarrow> string \<Rightarrow> string" where
  "trimSpace str spaces =
     (let i0 = length (takeWhile (\<lambda>c. c \<in> set spaces) str);
          i1 = length str - length (takeWhile (\<lambda>c. c \<in> set spaces) (rev str))
      in if i0 < i1 then take (i1 - i0) (drop i0 str) else [])"

lemma dropWhile_Cons_length: "dropWhile P s = c # r \<Longrightarrow> length r < length s"
  using length_dropWhile_le [of P s] by simp

function splitString_loop :: "string \<Rightarrow> string \<Rightarrow> string list" where
  "splitString_loop separators s =
     (case dropWhile (\<lambda>c. c \<notin> set separators) s of
        [] \<Rightarrow> [s]
      | c # r \<Rightarrow> takeWhile (\<lambda>c. c \<notin> set separators) s # splitString_loop separators r)"
  by pat_completeness auto
termination by (relation "measure (\<lambda>(sep, s). length s)") (auto dest: dropWhile_Cons_length)

declare splitString_loop.simps [simp del]

definition SPACES :: string where "SPACES = [CHR 0x20, CHR 0x09, CHR 0x0D, CHR 0x0A]"

definition splitString :: "string \<Rightarrow> string \<Rightarrow> string list" where
  "splitString str separators = map (\<lambda>s. trimSpace s SPACES) (splitString_loop separators str)"

definition removeEmptyItemFromVec :: "string list \<Rightarrow> string list" where
  "removeEmptyItemFromVec v = filter (\<lambda>s. s \<noteq> []) v"

section \<open>The lsids of a device\<close>

record LsidSet =
  ls_latest :: u64
  ls_submitted :: u64
  ls_flush :: u64
  ls_completed :: u64
  ls_permanent :: u64
  ls_written :: u64
  ls_prevWritten :: u64
  ls_oldest :: u64

definition LsidSet_init :: LsidSet where
  "LsidSet_init = \<lparr>ls_latest = - 1, ls_submitted = - 1, ls_flush = - 1, ls_completed = - 1, ls_permanent = - 1,
     ls_written = - 1, ls_prevWritten = - 1, ls_oldest = - 1\<rparr>"

definition lsids_array :: "LsidSet \<Rightarrow> u64 list" where
  "lsids_array l = [ls_latest l, ls_submitted l, ls_flush l, ls_completed l, ls_permanent l, ls_written l,
     ls_prevWritten l, ls_oldest l]"

definition lsids_isValid :: "LsidSet \<Rightarrow> bool" where
  "lsids_isValid l \<longleftrightarrow> list_all (\<lambda>i. i = 1 \<or> lsids_array l ! i \<noteq> - 1) [0..<8]"

definition lsid_table :: "(string \<times> (u64 \<Rightarrow> LsidSet \<Rightarrow> LsidSet)) list" where
  "lsid_table =
     [(''latest'', \<lambda>x. ls_latest_update (\<lambda>_. x)), (''submitted'', \<lambda>x. ls_submitted_update (\<lambda>_. x)),
      (''flush'', \<lambda>x. ls_flush_update (\<lambda>_. x)), (''completed'', \<lambda>x. ls_completed_update (\<lambda>_. x)),
      (''permanent'', \<lambda>x. ls_permanent_update (\<lambda>_. x)), (''written'', \<lambda>x. ls_written_update (\<lambda>_. x)),
      (''prev_written'', \<lambda>x. ls_prevWritten_update (\<lambda>_. x)), (''oldest'', \<lambda>x. ls_oldest_update (\<lambda>_. x))]"

text \<open>A name that is not in the table is only logged.\<close>

fun lsid_lines :: "string list \<Rightarrow> LsidSet \<Rightarrow> LsidSet res" where
  "lsid_lines [] l = Inr l"
| "lsid_lines (line # lines) l =
     (if line = [] then lsid_lines lines l
      else let v = removeEmptyItemFromVec (splitString line [CHR 0x20, CHR 0x09]) in
        if length v \<noteq> 2 then Inl (Exception ''getLsidSet:bad data'')
        else (case map_of lsid_table (v ! 0) of
            None \<Rightarrow> lsid_lines lines l
          | Some put \<Rightarrow> res_bind (atoi_throw (v ! 1)) (\<lambda>x. lsid_lines lines (put x l))))"

definition getLsidSet :: "string \<Rightarrow> LsidSet res" where
  "getLsidSet readStr =
     res_bind (lsid_lines (splitString readStr [CHR 0x0D, CHR 0x0A]) LsidSet_init) (\<lambda>l.
       if \<not> lsids_isValid l then Inl (Exception ''getLsidSet:invalid data'') else Inr l)"

definition getLatestLsid :: "string \<Rightarrow> u64 res" where
  "getLatestLsid readStr = res_bind (getLsidSet readStr) (\<lambda>l. Inr (ls_latest l))"

text \<open>\<open>val\<close> is the answer of the driver.\<close>

definition getLsid :: "u64 \<Rightarrow> u64 res" where
  "getLsid val = (if val = - 1 then Inl (Exception ''getLsid:invalid lsid'') else Inr val)"

text \<open>The result is the new oldest lsid that the driver is told, if any.\<close>

definition eraseWal :: "bool \<Rightarrow> string \<Rightarrow> u64 \<Rightarrow> u64 option res" where
  "eraseWal isOverflow readStr lsid =
     (if isOverflow then Inl (Exception ''eraseWal:overflow'')
      else res_bind (getLsidSet readStr) (\<lambda>lsidSet.
        if lsid \<le> ls_oldest lsidSet then Inr None
        else if lsid > ls_prevWritten lsidSet then Inl (Exception ''eraseWal:invalid lsid'')
        else Inr (Some lsid)))"

section \<open>Names of devices\<close>

definition WDEV_PATH_PREFIX :: string where "WDEV_PATH_PREFIX = ''/dev/walb/''"

definition getWdevPathFromWdevName :: "string \<Rightarrow> string" where
  "getWdevPathFromWdevName wdevName = WDEV_PATH_PREFIX @ wdevName"

definition getWldevPathFromWdevName :: "string \<Rightarrow> string" where
  "getWldevPathFromWdevName wdevName = WDEV_PATH_PREFIX @ ''L'' @ wdevName"

definition getWdevNameFromWdevPath :: "string \<Rightarrow> string res" where
  "getWdevNameFromWdevPath wdevPath =
     (if take (length WDEV_PATH_PREFIX) wdevPath \<noteq> WDEV_PATH_PREFIX then Inl (Exception ''getWdevNameFromWdevPath:bad name'')
      else Inr (drop (length WDEV_PATH_PREFIX) wdevPath))"

lemma getWdevName_path [simp]: "getWdevNameFromWdevPath (getWdevPathFromWdevName n) = Inr n"
  by (simp add: getWdevNameFromWdevPath_def getWdevPathFromWdevName_def)

lemma getLsidSet_valid: "getLsidSet s = Inr l \<Longrightarrow> lsids_isValid l"
  by (auto simp: getLsidSet_def res_bind_Inr_iff split: if_splits)

lemma eraseWal_Some: "eraseWal ov s lsid = Inr (Some e) \<Longrightarrow> e = lsid"
  by (auto simp: eraseWal_def res_bind_Inr_iff split: if_splits)

definition NL :: string where "NL = [CHR 0x0A]"

lemma getLsidSet_sample:
  "getLsidSet (''latest 300'' @ NL @ ''flush 200'' @ NL @ ''completed 300'' @ NL @ ''permanent 300'' @ NL @ ''written 200'' @ NL
      @ ''prev_written 100'' @ NL @ ''oldest 0'' @ NL) =
    Inr \<lparr>ls_latest = 300, ls_submitted = - 1, ls_flush = 200, ls_completed = 300, ls_permanent = 300, ls_written = 200,
      ls_prevWritten = 100, ls_oldest = 0\<rparr>"
  by code_simp

end
