(* ===== verification/Queue_File.thy ===== *)
theory Queue_File
  imports Checksum
begin

text \<open>
  The persistent queue of \<^verbatim>\<open>src/walb_queue_file.hpp\<close> over the memory-mapped file of
  \<^verbatim>\<open>include/mmap_file.hpp\<close>. The mapping is shared, so it is the bytes of the file. A reference to a record
  is its address in the mapping; an access outside the mapping is an error. The system calls themselves are
  assumed to succeed; the page size is a field. What is stored is turned into bytes by \<open>save\<close> and back by \<open>load\<close>.
\<close>

section \<open>MmappedFile\<close>

record MmappedFile =
  mm_bytes :: "u8 list"
  mm_size :: u64
  mm_pageSize :: u64

definition mm_calcFileSize :: "MmappedFile \<Rightarrow> u64" where
  "mm_calcFileSize m = ((mm_size m - 1) div mm_pageSize m + 1) * mm_pageSize m"

function appendZero_loop :: "u64 \<Rightarrow> u8 list \<Rightarrow> u8 list" where
  "appendZero_loop len bs =
     (if 0 < len then let l = min len 4096 in appendZero_loop (len - l) (bs @ replicate (unat l) 0) else bs)"
  by pat_completeness auto
termination
proof (relation "measure (\<lambda>(len, bs). unat len)", simp, clarify)
  fix len :: u64
  assume "0 < len"
  then have "len - min len 4096 < len" by (auto simp: min_def word_less_nat_alt word_le_nat_alt unat_sub_if')
  then show "((len - min len 4096, bs @ replicate (unat (min len 4096)) 0), len, bs) \<in> measure (\<lambda>(len, bs). unat len)" for bs :: "u8 list"
    by (simp add: word_less_nat_alt)
qed

declare appendZero_loop.simps [simp del]

definition adjustFileSize :: "MmappedFile \<Rightarrow> u64 \<times> MmappedFile" where
  "adjustFileSize m =
     (let fileSize = mm_calcFileSize m;
          currFileSize = of_nat (length (mm_bytes m));
          bs = if currFileSize < fileSize then appendZero_loop (fileSize - currFileSize) (mm_bytes m) else mm_bytes m
      in (fileSize, m\<lparr>mm_bytes := if fileSize < currFileSize then take (unat fileSize) bs else bs\<rparr>))"

definition mm_resize :: "u64 \<Rightarrow> MmappedFile \<Rightarrow> MmappedFile" where
  "mm_resize sz m = snd (adjustFileSize (m\<lparr>mm_size := sz\<rparr>))"

text \<open>\<open>bs\<close> is what the file holds when it is opened; the size 0 keeps it.\<close>

definition mm_open :: "u64 \<Rightarrow> u64 \<Rightarrow> u8 list \<Rightarrow> MmappedFile res" where
  "mm_open pageSize sz bs =
     (let m = \<lparr>mm_bytes = bs, mm_size = sz, mm_pageSize = pageSize\<rparr>;
          (fileSize, m1) = (if 0 < sz then adjustFileSize m
            else (of_nat (length bs), m\<lparr>mm_size := of_nat (length bs)\<rparr>))
      in if fileSize = 0 then Inl (Exception ''mmap failed.'') else Inr m1)"

section \<open>Headers\<close>

definition QUEUE_PREAMBLE :: u32 where "QUEUE_PREAMBLE = 0x119d83a7"

record QueueFileHeader =
  qh_preamble :: u32
  qh_checksum :: u32
  qh_salt :: u32
  qh_beginOffset :: u64
  qh_endOffset :: u64

definition queue_header_bytes :: "QueueFileHeader \<Rightarrow> u8 list" where
  "queue_header_bytes h =
     le_store 4 (qh_preamble h) @ le_store 4 (qh_checksum h) @ le_store 4 (qh_salt h)
     @ le_store 8 (qh_beginOffset h) @ le_store 8 (qh_endOffset h)"

definition queue_header_of :: "u8 list \<Rightarrow> QueueFileHeader" where
  "queue_header_of bs =
     \<lparr>qh_preamble = le_load (take 4 bs), qh_checksum = le_load (take 4 (drop 4 bs)),
      qh_salt = le_load (take 4 (drop 8 bs)), qh_beginOffset = le_load (take 8 (drop 12 bs)),
      qh_endOffset = le_load (take 8 (drop 20 bs))\<rparr>"

definition QUEUE_HEADER_SIZE :: nat where "QUEUE_HEADER_SIZE = 28"

record QueueRecordHeader =
  qr_preamble :: u32
  qr_checksum :: u32
  qr_dataSize :: u32
  qr_toPrev :: u32

definition queue_record_bytes :: "QueueRecordHeader \<Rightarrow> u8 list" where
  "queue_record_bytes r =
     le_store 4 (qr_preamble r) @ le_store 4 (qr_checksum r) @ le_store 4 (qr_dataSize r) @ le_store 4 (qr_toPrev r)"

definition queue_record_of :: "u8 list \<Rightarrow> QueueRecordHeader" where
  "queue_record_of bs =
     \<lparr>qr_preamble = le_load (take 4 bs), qr_checksum = le_load (take 4 (drop 4 bs)),
      qr_dataSize = le_load (take 4 (drop 8 bs)), qr_toPrev = le_load (take 4 (drop 12 bs))\<rparr>"

definition qr_init :: "QueueRecordHeader \<Rightarrow> QueueRecordHeader" where
  "qr_init r = \<lparr>qr_preamble = QUEUE_PREAMBLE, qr_checksum = 0, qr_dataSize = 0, qr_toPrev = 0\<rparr>"

definition qr_isValid :: "QueueRecordHeader \<Rightarrow> bool" where
  "qr_isValid r \<longleftrightarrow> qr_preamble r = QUEUE_PREAMBLE"

definition qr_verify :: "QueueRecordHeader \<Rightarrow> unit res" where
  "qr_verify r = (if \<not> qr_isValid r then Inl (Exception ''invalid record:'') else Inr ())"

definition qr_headerSize :: u32 where "qr_headerSize = 16"

definition qr_totalSize :: "QueueRecordHeader \<Rightarrow> u32" where
  "qr_totalSize r = qr_headerSize + qr_dataSize r"

section \<open>QueueFile\<close>

record queue_file =
  q_header :: QueueFileHeader
  q_mm :: MmappedFile

text \<open>A record in the mapping is read, changed and written at its address.\<close>

definition record_addr :: "u64 \<Rightarrow> nat" where
  "record_addr off = QUEUE_HEADER_SIZE * 2 + unat off"

definition rec_get :: "nat \<Rightarrow> queue_file \<Rightarrow> QueueRecordHeader res" where
  "rec_get a q = res_bind (read_at (mm_bytes (q_mm q)) a 16) (\<lambda>bs. Inr (queue_record_of bs))"

definition put_bytes :: "nat \<Rightarrow> u8 list \<Rightarrow> queue_file \<Rightarrow> queue_file res" where
  "put_bytes a bs q = res_bind (write_at (mm_bytes (q_mm q)) a bs) (\<lambda>b.
     Inr (q\<lparr>q_mm := (q_mm q)\<lparr>mm_bytes := b\<rparr>\<rparr>))"

definition rec_change :: "nat \<Rightarrow> (QueueRecordHeader \<Rightarrow> QueueRecordHeader) \<Rightarrow> queue_file \<Rightarrow> queue_file res" where
  "rec_change a f q = res_bind (rec_get a q) (\<lambda>r. put_bytes a (queue_record_bytes (f r)) q)"

definition qr_nextPtr :: "nat \<Rightarrow> QueueRecordHeader \<Rightarrow> nat" where
  "qr_nextPtr a r = a + unat (qr_totalSize r)"

definition qr_prevPtr :: "nat \<Rightarrow> QueueRecordHeader \<Rightarrow> nat res" where
  "qr_prevPtr a r = ensure (unat (qr_toPrev r) \<le> a) Out_Of_Bounds (Inr (a - unat (qr_toPrev r)))"

definition qr_data :: "nat \<Rightarrow> nat" where
  "qr_data a = a + unat qr_headerSize"

definition q_empty :: "queue_file \<Rightarrow> bool" where
  "q_empty q \<longleftrightarrow> qh_beginOffset (q_header q) = qh_endOffset (q_header q)"

definition verifyNotEmpty_q :: "string \<Rightarrow> queue_file \<Rightarrow> unit res" where
  "verifyNotEmpty_q msg q = (if q_empty q then Inl (Exception (msg @ '':empty'')) else Inr ())"

definition getRequiredFileSize :: "u64 \<Rightarrow> queue_file \<Rightarrow> u64" where
  "getRequiredFileSize sz q = of_nat QUEUE_HEADER_SIZE * 2 + qh_endOffset (q_header q) + 16 + sz + 16"

definition updateFileHeaderChecksum :: "QueueFileHeader \<Rightarrow> QueueFileHeader" where
  "updateFileHeaderChecksum h =
     (let h0 = h\<lparr>qh_checksum := 0\<rparr> in h0\<lparr>qh_checksum := calcChecksum (queue_header_bytes h0) 0\<rparr>)"

definition isValidFileHeader :: "QueueFileHeader \<Rightarrow> bool" where
  "isValidFileHeader h =
     (if qh_preamble h \<noteq> QUEUE_PREAMBLE then False
      else if calcChecksum (queue_header_bytes h) 0 \<noteq> 0 then False
      else True)"

text \<open>The two copies of the header are written one after the other.\<close>

definition sync_copy :: "nat \<Rightarrow> queue_file \<Rightarrow> queue_file res" where
  "sync_copy i q = put_bytes (QUEUE_HEADER_SIZE * i) (queue_header_bytes (q_header q)) q"

definition q_sync :: "queue_file \<Rightarrow> queue_file res" where
  "q_sync q = (let q1 = q\<lparr>q_header := updateFileHeaderChecksum (q_header q)\<rparr> in
     res_bind (sync_copy 0 q1) (sync_copy 1))"

fun q_init_loop :: "nat \<Rightarrow> nat \<Rightarrow> queue_file \<Rightarrow> queue_file res" where
  "q_init_loop 0 i q = Inl (Exception ''Both header data broken.'')"
| "q_init_loop (Suc n) i q =
     res_bind (read_at (mm_bytes (q_mm q)) (QUEUE_HEADER_SIZE * i) QUEUE_HEADER_SIZE) (\<lambda>bs.
       let q1 = q\<lparr>q_header := queue_header_of bs\<rparr> in
       if isValidFileHeader (q_header q1) then q_sync q1 else q_init_loop n (Suc i) q1)"

text \<open>\<open>rand\<close> is the random salt of a new file.\<close>

definition q_init :: "u32 \<Rightarrow> bool \<Rightarrow> queue_file \<Rightarrow> queue_file res" where
  "q_init rand isCreated q =
     (if isCreated then
        let q1 = q\<lparr>q_header := (q_header q)\<lparr>qh_preamble := QUEUE_PREAMBLE, qh_salt := rand,
              qh_beginOffset := 0, qh_endOffset := 0\<rparr>\<rparr> in
        res_bind (rec_change (record_addr 0) qr_init q1) q_sync
      else q_init_loop 2 0 q)"

text \<open>The constructors; before \<open>init\<close> the header is what the memory holds.\<close>

definition q_create :: "u64 \<Rightarrow> u32 \<Rightarrow> QueueFileHeader \<Rightarrow> u8 list \<Rightarrow> queue_file res" where
  "q_create pageSize rand h bs = res_bind (mm_open pageSize (of_nat QUEUE_HEADER_SIZE * 2 + 16) bs) (\<lambda>m.
     q_init rand True \<lparr>q_header = h, q_mm = m\<rparr>)"

definition q_open :: "u64 \<Rightarrow> QueueFileHeader \<Rightarrow> u8 list \<Rightarrow> queue_file res" where
  "q_open pageSize h bs = res_bind (mm_open pageSize 0 bs) (\<lambda>m. q_init 0 False \<lparr>q_header = h, q_mm = m\<rparr>)"

subsection \<open>Moving the records\<close>

definition move_records :: "u64 \<Rightarrow> u64 \<Rightarrow> u64 \<Rightarrow> queue_file \<Rightarrow> queue_file res" where
  "move_records dst src len q =
     res_bind (read_at (mm_bytes (q_mm q)) (record_addr src) (unat len)) (\<lambda>bs. put_bytes (record_addr dst) bs q)"

definition q_gc :: "queue_file \<Rightarrow> queue_file res" where
  "q_gc q =
     (let bgn = qh_beginOffset (q_header q); fin = qh_endOffset (q_header q) + 16 in
      ensure (bgn \<le> fin) Assert_Failed
       (let len = fin - bgn in
        if bgn < len then Inr q
        else res_bind (q_sync q) (\<lambda>q1.
          res_bind (move_records 0 bgn len q1) (\<lambda>q2.
          res_bind (q_sync q2) (\<lambda>q3.
          res_bind (q_sync (q3\<lparr>q_header := (q_header q3)\<lparr>qh_beginOffset := 0, qh_endOffset := len - 16\<rparr>\<rparr>)) (\<lambda>q4.
            q_sync (q4\<lparr>q_mm := mm_resize (getRequiredFileSize 0 q4) (q_mm q4)\<rparr>)))))))"

definition reserveFrontSpace :: "u64 \<Rightarrow> queue_file \<Rightarrow> queue_file res" where
  "reserveFrontSpace sz q =
     (if sz \<le> qh_beginOffset (q_header q) then Inr q
      else
        let bgn = qh_beginOffset (q_header q); fin = qh_endOffset (q_header q) + 16 in
        ensure (bgn \<le> fin) Assert_Failed
         (let len = fin - bgn; newBgn = max fin sz in
          res_bind (q_sync q) (\<lambda>q1.
          let q2 = q1\<lparr>q_mm := mm_resize (of_nat QUEUE_HEADER_SIZE * 2 + newBgn + len) (q_mm q1)\<rparr> in
          res_bind (move_records newBgn bgn len q2) (\<lambda>q3.
          res_bind (q_sync q3) (\<lambda>q4.
            q_sync (q4\<lparr>q_header := (q_header q4)\<lparr>qh_beginOffset := newBgn, qh_endOffset := newBgn + len - 16\<rparr>\<rparr>))))))"

subsection \<open>Adding and removing\<close>

definition pushBackRaw :: "u8 list \<Rightarrow> u32 \<Rightarrow> queue_file \<Rightarrow> queue_file res" where
  "pushBackRaw data sz q =
     (let q1 = q\<lparr>q_mm := mm_resize (getRequiredFileSize (ucast sz) q) (q_mm q)\<rparr>;
          a = record_addr (qh_endOffset (q_header q1)) in
      res_bind (rec_get a q1) (\<lambda>rec.
      let toPrev = qr_toPrev rec in
      res_bind (rec_change a qr_init q1) (\<lambda>q2.
      res_bind (rec_change a (qr_dataSize_update (\<lambda>_. sz)) q2) (\<lambda>q3.
      res_bind (read_at data 0 (unat sz)) (\<lambda>ds.
      res_bind (rec_change a (qr_checksum_update (\<lambda>_. calcChecksum ds (qh_salt (q_header q3)))) q3) (\<lambda>q4.
      res_bind (rec_change a (qr_toPrev_update (\<lambda>_. toPrev)) q4) (\<lambda>q5.
      res_bind (rec_get a q5) (\<lambda>r5.
      res_bind (rec_change (qr_nextPtr a r5) qr_init q5) (\<lambda>q6.
      res_bind (rec_change (qr_nextPtr a r5) (qr_toPrev_update (\<lambda>_. qr_totalSize r5)) q6) (\<lambda>q7.
      res_bind (put_bytes (qr_data a) ds q7) (\<lambda>q8.
        Inr (q8\<lparr>q_header := (q_header q8)\<lparr>qh_endOffset := qh_endOffset (q_header q8) + ucast (qr_totalSize r5)\<rparr>\<rparr>))))))))))))"

definition pushFrontRaw :: "u8 list \<Rightarrow> u32 \<Rightarrow> queue_file \<Rightarrow> queue_file res" where
  "pushFrontRaw data sz q =
     (let totalSize = 16 + sz in
      res_bind (reserveFrontSpace (ucast totalSize) q) (\<lambda>q1.
      let a = record_addr (qh_beginOffset (q_header q1));
          p = record_addr (qh_beginOffset (q_header q1) - ucast totalSize) in
      res_bind (rec_change p qr_init q1) (\<lambda>q2.
      res_bind (rec_change p (qr_dataSize_update (\<lambda>_. sz)) q2) (\<lambda>q3.
      res_bind (read_at data 0 (unat sz)) (\<lambda>ds.
      res_bind (rec_change p (qr_checksum_update (\<lambda>_. calcChecksum ds (qh_salt (q_header q3)))) q3) (\<lambda>q4.
      res_bind (put_bytes (qr_data p) ds q4) (\<lambda>q5.
      res_bind (rec_change a (qr_toPrev_update (\<lambda>_. totalSize)) q5) (\<lambda>q6.
        Inr (q6\<lparr>q_header := (q_header q6)\<lparr>qh_beginOffset := qh_beginOffset (q_header q6) - ucast totalSize\<rparr>\<rparr>)))))))))"

definition q_assignString :: "nat \<Rightarrow> queue_file \<Rightarrow> u8 list res" where
  "q_assignString a q = res_bind (rec_get a q) (\<lambda>r. read_at (mm_bytes (q_mm q)) (qr_data a) (unat (qr_dataSize r)))"

definition frontRaw :: "queue_file \<Rightarrow> u8 list res" where
  "frontRaw q = res_bind (verifyNotEmpty_q ''frontRaw'' q) (\<lambda>_.
     q_assignString (record_addr (qh_beginOffset (q_header q))) q)"

definition backRaw :: "queue_file \<Rightarrow> u8 list res" where
  "backRaw q = res_bind (verifyNotEmpty_q ''backRaw'' q) (\<lambda>_.
     let a = record_addr (qh_endOffset (q_header q)) in
     res_bind (rec_get a q) (\<lambda>r. res_bind (qr_prevPtr a r) (\<lambda>p. q_assignString p q)))"

definition q_popFront :: "queue_file \<Rightarrow> queue_file res" where
  "q_popFront q = res_bind (verifyNotEmpty_q ''popFront'' q) (\<lambda>_.
     res_bind (rec_get (record_addr (qh_beginOffset (q_header q))) q) (\<lambda>r.
       Inr (q\<lparr>q_header := (q_header q)\<lparr>qh_beginOffset := qh_beginOffset (q_header q) + ucast (qr_totalSize r)\<rparr>\<rparr>)))"

definition q_popBack :: "queue_file \<Rightarrow> queue_file res" where
  "q_popBack q = res_bind (verifyNotEmpty_q ''popBack'' q) (\<lambda>_.
     res_bind (rec_get (record_addr (qh_endOffset (q_header q))) q) (\<lambda>r.
       Inr (q\<lparr>q_header := (q_header q)\<lparr>qh_endOffset := qh_endOffset (q_header q) - ucast (qr_toPrev r)\<rparr>\<rparr>)))"

definition q_clear :: "queue_file \<Rightarrow> queue_file res" where
  "q_clear q =
     (let q1 = q\<lparr>q_header := (q_header q)\<lparr>qh_beginOffset := qh_endOffset (q_header q)\<rparr>\<rparr> in
      rec_change (record_addr (qh_endOffset (q_header q1))) (qr_toPrev_update (\<lambda>_. 0)) q1)"

text \<open>With the serializer of the elements.\<close>

definition q_pushFront :: "('a \<Rightarrow> u8 list) \<Rightarrow> 'a \<Rightarrow> queue_file \<Rightarrow> queue_file res" where
  "q_pushFront save t q = (let s = save t in pushFrontRaw s (of_nat (length s)) q)"

definition q_pushBack :: "('a \<Rightarrow> u8 list) \<Rightarrow> 'a \<Rightarrow> queue_file \<Rightarrow> queue_file res" where
  "q_pushBack save t q = (let s = save t in pushBackRaw s (of_nat (length s)) q)"

definition q_front :: "(u8 list \<Rightarrow> ('a \<times> u8 list) res) \<Rightarrow> queue_file \<Rightarrow> 'a res" where
  "q_front load q = res_bind (frontRaw q) (\<lambda>s. res_bind (load s) (\<lambda>(t, rest). Inr t))"

definition q_back :: "(u8 list \<Rightarrow> ('a \<times> u8 list) res) \<Rightarrow> queue_file \<Rightarrow> 'a res" where
  "q_back load q = res_bind (backRaw q) (\<lambda>s. res_bind (load s) (\<lambda>(t, rest). Inr t))"

subsection \<open>Iterators\<close>

text \<open>An iterator is its offset.\<close>

definition q_cbegin :: "queue_file \<Rightarrow> u64" where "q_cbegin q = qh_beginOffset (q_header q)"

definition q_cend :: "queue_file \<Rightarrow> u64" where "q_cend q = qh_endOffset (q_header q)"

definition it_inc :: "queue_file \<Rightarrow> u64 \<Rightarrow> u64 res" where
  "it_inc q off = res_bind (rec_get (record_addr off) q) (\<lambda>r. Inr (off + ucast (qr_totalSize r)))"

definition it_dec :: "queue_file \<Rightarrow> u64 \<Rightarrow> u64 res" where
  "it_dec q off = res_bind (rec_get (record_addr off) q) (\<lambda>r. Inr (off - ucast (qr_toPrev r)))"

definition it_get :: "(u8 list \<Rightarrow> ('a \<times> u8 list) res) \<Rightarrow> queue_file \<Rightarrow> u64 \<Rightarrow> 'a res" where
  "it_get load q off = res_bind (q_assignString (record_addr off) q) (\<lambda>s. res_bind (load s) (\<lambda>(t, rest). Inr t))"

definition it_isValid :: "queue_file \<Rightarrow> u64 \<Rightarrow> bool res" where
  "it_isValid q off = res_bind (rec_get (record_addr off) q) (\<lambda>r.
     if \<not> qr_isValid r then Inr False
     else res_bind (read_at (mm_bytes (q_mm q)) (qr_data (record_addr off)) (unat (qr_dataSize r))) (\<lambda>ds.
       Inr (calcChecksum ds (qh_salt (q_header q)) = qr_checksum r)))"

subsection \<open>The check of all records\<close>

definition verifyRec :: "nat \<Rightarrow> QueueRecordHeader \<Rightarrow> queue_file \<Rightarrow> unit res" where
  "verifyRec a r q = res_bind (qr_verify r) (\<lambda>_.
     res_bind (read_at (mm_bytes (q_mm q)) (qr_data a) (unat (qr_dataSize r))) (\<lambda>ds.
       if qr_checksum r \<noteq> calcChecksum ds (qh_salt (q_header q)) then Inl (Exception ''invalid checksum'') else Inr ()))"

partial_function (option) verify_forward :: "queue_file \<Rightarrow> u64 \<Rightarrow> unit res option" where
  "verify_forward q off =
     (if off < qh_endOffset (q_header q) then
        obind (Some (rec_get (record_addr off) q)) (\<lambda>r.
        obind (Some (verifyRec (record_addr off) r q)) (\<lambda>_.
          verify_forward q (off + ucast (qr_totalSize r))))
      else Some (Inr ()))"

partial_function (option) verify_backward :: "queue_file \<Rightarrow> u64 \<Rightarrow> unit res option" where
  "verify_backward q off =
     obind (Some (rec_get (record_addr off) q)) (\<lambda>r.
     obind (Some (if off \<noteq> qh_endOffset (q_header q) then verifyRec (record_addr off) r q else Inr ())) (\<lambda>_.
       if off = qh_beginOffset (q_header q) then Some (Inr ())
       else verify_backward q (off - ucast (qr_toPrev r))))"

definition verifyAll :: "queue_file \<Rightarrow> unit res option" where
  "verifyAll q = obind (verify_forward q (qh_beginOffset (q_header q))) (\<lambda>_.
     verify_backward q (qh_endOffset (q_header q)))"

end
