(* ===== verification/Vol_Files.thy ===== *)
theory Vol_Files
  imports Meta_Text
begin

text \<open>
  What the volumes of the servers share: operations that change a state and can throw, with a calculus for what they
  lead to, and the small files of a volume directory (\<open>saveFile\<close>, \<open>loadFile\<close> of \<^verbatim>\<open>src/walb_util.hpp\<close>).
\<close>

section \<open>Operations that change a state and can throw\<close>

type_synonym ('s, 'a) sx = "'s \<Rightarrow> ('a res \<times> 's) option"

definition sx_bind :: "('s, 'a) sx \<Rightarrow> ('a \<Rightarrow> ('s, 'b) sx) \<Rightarrow> ('s, 'b) sx" where
  "sx_bind f g s = (case f s of
       None \<Rightarrow> None
     | Some (Inl e, s') \<Rightarrow> Some (Inl e, s')
     | Some (Inr a, s') \<Rightarrow> g a s')"

definition sx_return :: "'a \<Rightarrow> ('s, 'a) sx" where "sx_return a s = Some (Inr a, s)"

definition sx_read :: "('s \<Rightarrow> 'a res) \<Rightarrow> ('s, 'a) sx" where "sx_read f s = Some (f s, s)"

definition sx_put :: "('s \<Rightarrow> 's) \<Rightarrow> ('s, unit) sx" where "sx_put f s = Some (Inr (), f s)"

section \<open>Files of the volume\<close>

type_synonym vol_dir = "string \<Rightarrow> u8 list option"

definition saveFile :: "string \<Rightarrow> u8 list \<Rightarrow> vol_dir \<Rightarrow> vol_dir" where
  "saveFile fname bs dir = dir(fname \<mapsto> bs)"

definition loadFile :: "(u8 list \<Rightarrow> ('a \<times> u8 list) res) \<Rightarrow> string \<Rightarrow> vol_dir \<Rightarrow> 'a res" where
  "loadFile load fname dir = (case dir fname of
       None \<Rightarrow> Inl (Exception ''open failed'')
     | Some bs \<Rightarrow> res_bind (load bs) (\<lambda>(t, rest). Inr t))"

definition str_save :: "string \<Rightarrow> u8 list" where
  "str_save s = saveVariableInt (of_nat (length s)) @ map of_char s"

definition str_load :: "u8 list \<Rightarrow> (string \<times> u8 list) res" where
  "str_load bs = res_bind (loadVariableInt bs) (\<lambda>(n, bs1).
     res_bind (stream_read (unat n) bs1) (\<lambda>(cs, bs2). Inr (map (\<lambda>b. char_of (unat b)) cs, bs2)))"

section \<open>Running operations\<close>

definition runs :: "('s, 'a) sx \<Rightarrow> 's \<Rightarrow> ('a res \<Rightarrow> 's \<Rightarrow> bool) \<Rightarrow> bool" where
  "runs f s Q \<longleftrightarrow> (\<exists>r s'. f s = Some (r, s') \<and> Q r s')"

named_theorems runs_simps

lemma runs_bind [runs_simps]:
  "runs (sx_bind f g) s Q \<longleftrightarrow> runs f s (\<lambda>r s'. case r of Inl e \<Rightarrow> Q (Inl e) s' | Inr a \<Rightarrow> runs (g a) s' Q)"
  by (auto simp: runs_def sx_bind_def split: option.splits sum.splits)

lemma runs_basic [runs_simps]:
  "runs (sx_return a) s Q \<longleftrightarrow> Q (Inr a) s" "runs (sx_read f) s Q \<longleftrightarrow> Q (f s) s"
  "runs (sx_put h) s Q' \<longleftrightarrow> Q' (Inr ()) (h s)"
  by (simp_all add: runs_def sx_return_def sx_read_def sx_put_def)

lemma runs_mono: "runs f s P \<Longrightarrow> (\<And>r s'. P r s' \<Longrightarrow> Q r s') \<Longrightarrow> runs f s Q"
  by (auto simp: runs_def)

lemma runs_if [runs_simps]: "runs (if b then f else g) s Q \<longleftrightarrow> (if b then runs f s Q else runs g s Q)"
  by simp

lemma runs_bindI:
  assumes "runs f s P" and "\<And>a s'. P (Inr a) s' \<Longrightarrow> runs (g a) s' Q" and "\<And>e s'. P (Inl e) s' \<Longrightarrow> Q (Inl e) s'"
  shows "runs (sx_bind f g) s Q"
  unfolding runs_bind by (rule runs_mono [OF assms(1)]) (use assms(2,3) in \<open>auto split: sum.splits\<close>)

lemma runs_read_bindI:
  assumes "\<And>a. f s = Inr a \<Longrightarrow> runs (g a) s Q" and "\<And>e. f s = Inl e \<Longrightarrow> Q (Inl e) s"
  shows "runs (sx_bind (sx_read f) g) s Q"
  using assms by (auto simp: runs_simps split: sum.splits)

end
