(* ===== verification/Storage_Vol.thy ===== *)
theory Storage_Vol
  imports Wdev_Util Queue_File Log_Pack Vol_Files
begin

text \<open>
  A volume of the storage server: \<^verbatim>\<open>src/storage_vol_info.cpp\<close> and the transfer of wlogs in \<^verbatim>\<open>src/storage.cpp\<close>.
  The state is the directory of the volume, a map from file names to bytes, with the oldest lsids that the driver was
  told. An operation returns a result and the new state, also when it throws; \<open>None\<close> stands for a loop without end. What
  an operation is told by the system (lsids, overflow, block size, time) is its environment.
\<close>

text \<open>What the system answers; the time is asked twice by one operation.\<close>

record sv_env =
  env_lsids :: string
  env_overflow :: bool
  env_pbs :: u32
  env_time :: u64
  env_time2 :: u64
  env_pageSize :: u64
  env_memory :: QueueFileHeader
  env_rand :: u32

text \<open>
  \<open>sv_erased\<close> are the oldest lsids that the driver was told, \<open>sv_acked\<close> the diffs that a proxy acknowledged, with the
  range of lsids, the last ones first: what the outside has seen.
\<close>

record storage_vol =
  sv_dir :: vol_dir
  sv_erased :: "u64 list"
  sv_acked :: "(MetaDiff \<times> u64 \<times> u64) list"

definition sv_saveFile :: "string \<Rightarrow> u8 list \<Rightarrow> (storage_vol, unit) sx" where
  "sv_saveFile fname bs = sx_put (\<lambda>s. s\<lparr>sv_dir := saveFile fname bs (sv_dir s)\<rparr>)"

definition setDoneRecord :: "MetaLsidGid \<Rightarrow> (storage_vol, unit) sx" where
  "setDoneRecord rec = sv_saveFile ''done'' (lsidgid_save rec)"

definition getDoneRecord :: "(storage_vol, MetaLsidGid) sx" where
  "getDoneRecord = sx_read (\<lambda>s. loadFile lsidgid_load ''done'' (sv_dir s))"

definition getDoneLsid :: "(storage_vol, u64) sx" where
  "getDoneLsid = sx_bind getDoneRecord (\<lambda>rec.
     if lg_lsid rec = - 1 then sx_read (\<lambda>_. Inl (Exception ''StorageVolInfo:doneLsid is invalid''))
     else sx_return (lg_lsid rec))"

definition sv_getState :: "(storage_vol, string) sx" where
  "sv_getState = sx_read (\<lambda>s. loadFile str_load ''state'' (sv_dir s))"

definition sv_setState :: "string \<Rightarrow> (storage_vol, unit) sx" where
  "sv_setState newState =
     (if newState \<in> {''SyncReady'', ''Stopped'', ''Target'', ''Standby''} then sv_saveFile ''state'' (str_save newState)
      else sx_read (\<lambda>_. Inl (Exception ''StorageVolInfo::setState:bad state'')))"

definition sv_setUuid :: "u8 list \<Rightarrow> (storage_vol, unit) sx" where
  "sv_setUuid uuid = sv_saveFile ''uuid'' uuid"

definition sv_getUuid :: "(storage_vol, u8 list) sx" where
  "sv_getUuid = sx_read (\<lambda>s. loadFile (stream_read UUID_SIZE) ''uuid'' (sv_dir s))"

section \<open>The queue of the volume\<close>

text \<open>
  The queue file is open while \<open>f\<close> runs; its destructor synchronises it, also when \<open>f\<close> throws.
\<close>

type_synonym sv_open = "queue_file \<times> storage_vol"

definition with_queue :: "sv_env \<Rightarrow> (sv_open, 'a) sx \<Rightarrow> (storage_vol, 'a) sx" where
  "with_queue env f s = (case sv_dir s ''queue'' of
       None \<Rightarrow> Some (Inl (Exception ''open failed''), s)
     | Some bs \<Rightarrow> (case q_open (env_pageSize env) (env_memory env) bs of
           Inl e \<Rightarrow> Some (Inl e, s)
         | Inr q \<Rightarrow> (case f (q, s) of
               None \<Rightarrow> None
             | Some (r, (q1, s1)) \<Rightarrow>
                 let q2 = (case q_sync q1 of Inl e \<Rightarrow> q1 | Inr q' \<Rightarrow> q') in
                 Some (r, s1\<lparr>sv_dir := (sv_dir s1)(''queue'' \<mapsto> mm_bytes (q_mm q2))\<rparr>))))"

text \<open>An operation on the queue; one on the volume while the queue is open.\<close>

definition on_queue :: "(queue_file \<Rightarrow> queue_file res) \<Rightarrow> (sv_open, unit) sx" where
  "on_queue f = (\<lambda>(q, s). case f q of Inl e \<Rightarrow> Some (Inl e, (q, s)) | Inr q' \<Rightarrow> Some (Inr (), (q', s)))"

definition ask_queue :: "(queue_file \<Rightarrow> 'a res) \<Rightarrow> (sv_open, 'a) sx" where
  "ask_queue f = sx_read (\<lambda>(q, s). f q)"

definition on_vol :: "(storage_vol, 'a) sx \<Rightarrow> (sv_open, 'a) sx" where
  "on_vol f = (\<lambda>(q, s). case f s of None \<Rightarrow> None | Some (r, s') \<Rightarrow> Some (r, (q, s')))"

definition convertMibToPb :: "sv_env \<Rightarrow> u64 \<Rightarrow> u64 res" where
  "convertMibToPb env mib = ensure (env_pbs env \<noteq> 0) Div_By_Zero (Inr (mib * (0x100000 div ucast (env_pbs env))))"

definition getMaxWlogSendPb :: "sv_env \<Rightarrow> u64 \<Rightarrow> string \<Rightarrow> u64 res" where
  "getMaxWlogSendPb env maxWlogSendMb msg = res_bind (convertMibToPb env maxWlogSendMb) (\<lambda>maxWlogSendPb.
     if maxWlogSendPb = 0 then Inl (Exception (msg @ '':maxWlogSendPb must be positive'')) else Inr maxWlogSendPb)"

text \<open>A record is old when the volume has sent it; the loop ends at the first one that is not.\<close>

definition isOld :: "MetaLsidGid \<Rightarrow> MetaLsidGid \<Rightarrow> bool" where
  "isOld recB rec \<longleftrightarrow> lg_lsid rec < lg_lsid recB \<or> (lg_lsid rec = lg_lsid recB \<and> lg_gid rec \<le> lg_gid recB)"

partial_function (option) removeOld_loop :: "MetaLsidGid \<Rightarrow> queue_file \<Rightarrow> (unit res \<times> queue_file) option" where
  "removeOld_loop recB q =
     (if q_empty q then Some (Inr (), q)
      else case q_back lsidgid_load q of
        Inl e \<Rightarrow> Some (Inl e, q)
      | Inr rec \<Rightarrow>
          if isOld recB rec then
            (case q_popBack q of Inl e \<Rightarrow> Some (Inl e, q) | Inr q' \<Rightarrow> removeOld_loop recB q')
          else Some (Inr (), q))"

definition removeOldRecordsFromQueueFile :: "MetaLsidGid \<Rightarrow> (sv_open, unit) sx" where
  "removeOldRecordsFromQueueFile recB = (\<lambda>(q, s). case removeOld_loop recB q of
       None \<Rightarrow> None | Some (r, q') \<Rightarrow> Some (r, (q', s)))"

text \<open>Taking a snapshot: the gids that wlogs between the two lsids may need are left free.\<close>

definition queue_top :: "(sv_open, MetaLsidGid) sx" where
  "queue_top = sx_bind (ask_queue (\<lambda>q. Inr (q_empty q))) (\<lambda>isEmpty.
     if isEmpty then on_vol getDoneRecord else ask_queue (q_front lsidgid_load))"

definition takeSnapshotDetail :: "sv_env \<Rightarrow> u64 \<Rightarrow> u64 \<Rightarrow> bool \<Rightarrow> u64 \<Rightarrow> (sv_open, u64) sx" where
  "takeSnapshotDetail env now maxWlogSendPb mergeable lsid =
     sx_bind queue_top (\<lambda>pre.
     if env_overflow env then sx_read (\<lambda>_. Inl (Exception ''takeSnapshotDetail:wlog overflow''))
     else if lg_lsid pre > lsid then sx_read (\<lambda>_. Inl (Exception ''takeSnapshotDetail:invalid lsid''))
     else sx_bind (sx_read (\<lambda>_. ensure (maxWlogSendPb \<noteq> 0) Div_By_Zero
            (Inr (lg_gid pre + 1 + (lsid - lg_lsid pre) div maxWlogSendPb)))) (\<lambda>gid.
       let cur = \<lparr>lg_isMergeable = mergeable, lg_timestamp = now, lg_lsid = lsid, lg_gid = gid\<rparr> in
       sx_bind (on_queue (q_pushFront lsidgid_save cur)) (\<lambda>_.
       sx_bind (on_queue q_sync) (\<lambda>_. sx_return gid))))"

definition takeSnapshot :: "sv_env \<Rightarrow> u64 \<Rightarrow> (storage_vol, u64) sx" where
  "takeSnapshot env maxWlogSendMb =
     sx_bind (sx_read (\<lambda>_. getMaxWlogSendPb env maxWlogSendMb ''takeSnapshot'')) (\<lambda>maxWlogSendPb.
     with_queue env (sx_bind (sx_read (\<lambda>_. getLatestLsid (env_lsids env))) (\<lambda>lsid.
       takeSnapshotDetail env (env_time env) maxWlogSendPb False lsid)))"

text \<open>Which of the records, from the oldest, the next transfer reaches.\<close>

partial_function (option) endSnapshot_loop ::
    "MetaLsidGid \<Rightarrow> u64 \<Rightarrow> u64 \<Rightarrow> queue_file \<Rightarrow> u64 \<Rightarrow> MetaLsidGid \<Rightarrow> u64 \<Rightarrow> (MetaLsidGid \<times> u64) res option" where
  "endSnapshot_loop recB maxWlogSendPb permanentLsid q it recE nr =
     (if it \<noteq> q_cbegin q \<and> lg_isMergeable recE then
        obind (Some (it_dec q it)) (\<lambda>it'.
        obind (Some (it_get lsidgid_load q it')) (\<lambda>rec.
          if lg_lsid rec > lg_lsid recB + maxWlogSendPb then Some (Inr (recE, nr))
          else if lg_lsid rec > permanentLsid then Some (Inr (recE, nr))
          else endSnapshot_loop recB maxWlogSendPb permanentLsid q it' rec (nr + 1)))
      else Some (Inr (recE, nr)))"

definition endSnapshot_lsid :: "MetaLsidGid \<Rightarrow> u64 \<Rightarrow> MetaLsidGid \<Rightarrow> u64 \<Rightarrow> (MetaLsidGid \<times> u64) res" where
  "endSnapshot_lsid recB maxWlogSendPb recE nr =
     (if \<not> lg_lsid recB \<le> lg_lsid recE then Inl (Exception ''getEndSnapshot:invalid MetaLsidGid record'')
      else ensure (lg_gid recB < lg_gid recE) Assert_Failed
        (Inr (recE, if nr = 1 \<and> lg_gid recE = lg_gid recB + 1 then lg_lsid recE
                    else min (lg_lsid recB + maxWlogSendPb) (lg_lsid recE))))"

definition getEndSnapshot :: "MetaLsidGid \<Rightarrow> u64 \<Rightarrow> u64 \<Rightarrow> queue_file \<Rightarrow> (MetaLsidGid \<times> u64) res option" where
  "getEndSnapshot recB maxWlogSendPb permanentLsid q =
     obind (Some (ensure (\<not> q_empty q) Assert_Failed (it_dec q (q_cend q)))) (\<lambda>it.
     obind (Some (it_get lsidgid_load q it)) (\<lambda>recE.
     obind (endSnapshot_loop recB maxWlogSendPb permanentLsid q it recE 1) (\<lambda>(recE, nr).
       Some (endSnapshot_lsid recB maxWlogSendPb recE nr))))"

definition ask_queue_opt :: "(queue_file \<Rightarrow> 'a res option) \<Rightarrow> (sv_open, 'a) sx" where
  "ask_queue_opt f = (\<lambda>(q, s). case f q of None \<Rightarrow> None | Some r \<Rightarrow> Some (r, (q, s)))"

definition MetaLsidGid_default :: MetaLsidGid where
  "MetaLsidGid_default = \<lparr>lg_isMergeable = False, lg_timestamp = 0, lg_lsid = - 1, lg_gid = - 1\<rparr>"

text \<open>The implicit snapshot of \<open>prepareWlogTransfer\<close>.\<close>

definition takeImplicitSnapshot :: "sv_env \<Rightarrow> u64 \<Rightarrow> u64 \<Rightarrow> LsidSet \<Rightarrow> (sv_open, u64) sx" where
  "takeImplicitSnapshot env intervalSec maxWlogSendPb lsids =
     sx_bind (ask_queue (\<lambda>q. Inr (q_empty q))) (\<lambda>isEmpty.
     sx_bind (if isEmpty then sx_return MetaLsidGid_default else ask_queue (q_front lsidgid_load)) (\<lambda>recE.
       if isEmpty \<or> (lg_lsid recE < ls_latest lsids \<and> lg_timestamp recE + intervalSec \<le> env_time env)
       then takeSnapshotDetail env (env_time2 env) maxWlogSendPb True (ls_latest lsids) else sx_return 0))"

definition prepareWlogTransfer :: "sv_env \<Rightarrow> u64 \<Rightarrow> u64 \<Rightarrow> (storage_vol, MetaLsidGid \<times> MetaLsidGid \<times> u64 \<times> bool) sx" where
  "prepareWlogTransfer env maxWlogSendMb intervalSec = with_queue env (
     sx_bind (on_vol getDoneRecord) (\<lambda>recB.
     sx_bind (removeOldRecordsFromQueueFile recB) (\<lambda>_.
     sx_bind (sx_read (\<lambda>_. getLsidSet (env_lsids env))) (\<lambda>lsids.
     sx_bind (sx_read (\<lambda>_. getMaxWlogSendPb env maxWlogSendMb ''prepareWlogTransfer'')) (\<lambda>maxWlogSendPb.
     sx_bind (takeImplicitSnapshot env intervalSec maxWlogSendPb lsids) (\<lambda>_.
     sx_bind (ask_queue_opt (getEndSnapshot recB maxWlogSendPb (ls_permanent lsids))) (\<lambda>(recE, lsidLimit).
       sx_return (recB, recE, lsidLimit, ls_permanent lsids < lsidLimit))))))))"

section \<open>The diff of a transfer\<close>

definition getTransferDiff :: "MetaLsidGid \<Rightarrow> MetaLsidGid \<Rightarrow> u64 \<Rightarrow> MetaDiff res" where
  "getTransferDiff recB recE lsidE =
     res_bind (snap_set1 (lg_gid recB)) (\<lambda>sB.
     res_bind (if lsidE = lg_lsid recE then snap_set1 (lg_gid recE)
       else ensure (lg_gid recB + 1 < lg_gid recE) Assert_Failed (snap_set1 (lg_gid recB + 1))) (\<lambda>sE.
       Inr (MetaDiff_default\<lparr>snapB := sB, snapE := sE, d_timestamp := lg_timestamp recE, isMergeable := lg_isMergeable recB\<rparr>)))"

text \<open>The exception is constructed and not thrown.\<close>

definition verifyMetaLsidGidEquality :: "MetaLsidGid \<Rightarrow> MetaLsidGid \<Rightarrow> string \<Rightarrow> unit res" where
  "verifyMetaLsidGidEquality rec0 rec1 msg =
     (if lg_lsid rec0 \<noteq> lg_lsid rec1 \<or> lg_gid rec0 \<noteq> lg_gid rec1
      then let constructed = Exception (msg @ ''not equal lsid or gid'') in Inr ()
      else Inr ())"

definition sentRecord :: "MetaLsidGid \<Rightarrow> MetaLsidGid \<Rightarrow> u64 \<Rightarrow> MetaLsidGid res" where
  "sentRecord recB recE lsidE =
     (if lsidE = lg_lsid recE then
        Inr \<lparr>lg_isMergeable = lg_isMergeable recE, lg_timestamp = lg_timestamp recE, lg_lsid = lsidE, lg_gid = lg_gid recE\<rparr>
      else ensure (lg_gid recB + 1 < lg_gid recE) Assert_Failed
        (Inr \<lparr>lg_isMergeable = True, lg_timestamp = lg_timestamp recB, lg_lsid = lsidE, lg_gid = lg_gid recB + 1\<rparr>))"

definition finishWlogTransfer :: "sv_env \<Rightarrow> MetaLsidGid \<Rightarrow> MetaLsidGid \<Rightarrow> u64 \<Rightarrow> (storage_vol, bool) sx" where
  "finishWlogTransfer env recB recE lsidE =
     sx_bind getDoneRecord (\<lambda>recBx.
     sx_bind (sx_read (\<lambda>_. verifyMetaLsidGidEquality recB recBx ''finishWlogTransfer'')) (\<lambda>_.
     with_queue env (
       sx_bind (ask_queue (\<lambda>q. if q_empty q
         then Inl (Exception ''finishWlogTransfer:Maybe BUG: queue must have at lease one record.'') else Inr ())) (\<lambda>_.
       sx_bind (ask_queue (q_back lsidgid_load)) (\<lambda>recEx.
       sx_bind (sx_read (\<lambda>_. verifyMetaLsidGidEquality recE recEx ''finishWlogTransfer'')) (\<lambda>_.
       sx_bind (sx_read (\<lambda>_. ensure (lg_lsid recB \<le> lsidE \<and> lsidE \<le> lg_lsid recE) Assert_Failed (sentRecord recB recE lsidE))) (\<lambda>recS.
       sx_bind (on_vol (setDoneRecord recS)) (\<lambda>_.
       sx_bind (removeOldRecordsFromQueueFile recS) (\<lambda>_.
         ask_queue (\<lambda>q. Inr (\<not> q_empty q)))))))))))"

section \<open>The other operations\<close>

definition sv_init :: "sv_env \<Rightarrow> string \<Rightarrow> storage_vol \<Rightarrow> (unit res \<times> storage_vol) option" where
  "sv_init env wdevPath s =
     (case res_bind (q_create (env_pageSize env) (env_rand env) (env_memory env) []) q_sync of
        Inl e \<Rightarrow> Some (Inl e, s)
      | Inr q \<Rightarrow>
          sx_bind (sx_put (\<lambda>s. s\<lparr>sv_dir := (sv_dir s)(''queue'' \<mapsto>
              mm_bytes (q_mm (case q_sync q of Inl e \<Rightarrow> q | Inr q' \<Rightarrow> q')))\<rparr>)) (\<lambda>_.
          sx_bind (sv_saveFile ''path'' (str_save wdevPath)) (\<lambda>_.
          sx_bind (sv_setState ''SyncReady'') (\<lambda>_.
          sx_bind (setDoneRecord \<lparr>lg_isMergeable = False, lg_timestamp = env_time env, lg_lsid = - 1, lg_gid = - 1\<rparr>) (\<lambda>_.
            sv_setUuid (replicate UUID_SIZE 0))))) s)"

text \<open>\<open>uuid\<close> is in the super block after the driver has cleared the log.\<close>

definition resetWlog :: "sv_env \<Rightarrow> u8 list \<Rightarrow> u64 \<Rightarrow> (storage_vol, unit) sx" where
  "resetWlog env uuid gid =
     sx_bind (setDoneRecord \<lparr>lg_isMergeable = False, lg_timestamp = env_time env, lg_lsid = 0, lg_gid = gid\<rparr>) (\<lambda>_.
     sx_bind (with_queue env (sx_bind (on_queue q_clear) (\<lambda>_. on_queue q_sync))) (\<lambda>_.
     sx_bind (sv_setUuid uuid) (\<lambda>_. sv_setState ''SyncReady'')))"

definition sv_eraseWal :: "sv_env \<Rightarrow> u64 \<Rightarrow> (storage_vol, unit) sx" where
  "sv_eraseWal env lsid = sx_bind (sx_read (\<lambda>_. eraseWal (env_overflow env) (env_lsids env) lsid)) (\<lambda>e.
     sx_put (\<lambda>s. case e of None \<Rightarrow> s | Some l \<Rightarrow> s\<lparr>sv_erased := l # sv_erased s\<rparr>))"

text \<open>The device is asked a second time, \<open>env2\<close>, by \<open>eraseWal\<close>.\<close>

definition deleteGarbageWlogs :: "sv_env \<Rightarrow> sv_env \<Rightarrow> (storage_vol, bool) sx" where
  "deleteGarbageWlogs env env2 =
     sx_bind getDoneLsid (\<lambda>doneLsid.
     sx_bind (sx_read (\<lambda>_. getLsidSet (env_lsids env))) (\<lambda>lsids.
     let targetLsid = min doneLsid (ls_prevWritten lsids) in
     if ls_oldest lsids < targetLsid then
       sx_bind (sv_eraseWal env2 targetLsid) (\<lambda>_. sx_return (targetLsid < doneLsid))
     else sx_return (ls_oldest lsids < doneLsid)))"

definition deleteAllWlogs :: "sv_env \<Rightarrow> sv_env \<Rightarrow> (storage_vol, unit) sx" where
  "deleteAllWlogs env env2 =
     sx_bind (sx_read (\<lambda>_. getLsidSet (env_lsids env))) (\<lambda>lsids.
     if ls_oldest lsids < ls_prevWritten lsids then sv_eraseWal env2 (ls_prevWritten lsids) else sx_return ())"

definition isWlogTransferRequiredDetail :: "sv_env \<Rightarrow> bool \<Rightarrow> (storage_vol, bool) sx" where
  "isWlogTransferRequiredDetail env isLater =
     sx_bind getDoneLsid (\<lambda>doneLsid.
     sx_bind (sx_read (\<lambda>_. getLsidSet (env_lsids env))) (\<lambda>lsids.
     let targetLsid = if isLater then ls_latest lsids else ls_permanent lsids in
     sx_bind (with_queue env (ask_queue (\<lambda>q. Inr (q_empty q)))) (\<lambda>isQueueEmpty.
       sx_return (doneLsid < targetLsid \<or> \<not> isQueueEmpty))))"

definition getGidRange :: "sv_env \<Rightarrow> (storage_vol, u64 \<times> u64) sx" where
  "getGidRange env =
     sx_bind getDoneRecord (\<lambda>rec0.
     with_queue env (sx_bind (ask_queue (\<lambda>q. Inr (q_empty q))) (\<lambda>isEmpty.
       if isEmpty then sx_return (lg_gid rec0, lg_gid rec0)
       else sx_bind (ask_queue (q_front lsidgid_load)) (\<lambda>rec1. sx_return (lg_gid rec0, lg_gid rec1)))))"

definition getLatestSnap :: "sv_env \<Rightarrow> (storage_vol, MetaLsidGid) sx" where
  "getLatestSnap env = with_queue env queue_top"

text \<open>The size that the driver is told.\<close>

definition growWdev :: "u64 \<Rightarrow> u64 \<Rightarrow> u64 res" where
  "growWdev curSizeLb sizeLb =
     (if sizeLb > 0 \<and> curSizeLb > sizeLb then Inl (Exception ''growWdev:shrink is not supported'') else Inr sizeLb)"

section \<open>Sending wlogs\<close>

text \<open>
  The reader of the log device and the reasons to stop: \<open>ws_stop\<close> at an lsid, the header that is read there, and
  whether the data of its records is read.
\<close>

record wlog_source =
  ws_stop :: "u64 \<Rightarrow> bool"
  ws_header :: "u64 \<Rightarrow> walb_logpack_header option"
  ws_io :: "u64 \<Rightarrow> nat \<Rightarrow> bool"

definition verifyMaxWlogSendPbIsNotTooSmall :: "u64 \<Rightarrow> u64 \<Rightarrow> string \<Rightarrow> unit res" where
  "verifyMaxWlogSendPbIsNotTooSmall maxWlogSendPb logpackPb msg =
     (if maxWlogSendPb < logpackPb then Inl (Exception (msg @ '':maxWlogSendPb is too small'')) else Inr ())"

partial_function (option) send_loop :: "wlog_source \<Rightarrow> u64 \<Rightarrow> u64 \<Rightarrow> u64 \<Rightarrow> u64 res option" where
  "send_loop ws maxWlogSendPb lsidLimit lsid =
     (if ws_stop ws lsid then Some (Inl (Exception ''force stopped''))
      else if lsid = lsidLimit then Some (Inr lsid)
      else case ws_header ws lsid of
        None \<Rightarrow> Some (Inl (Exception ''invalid logpack header''))
      | Some h \<Rightarrow>
          obind (Some (verifyMaxWlogSendPbIsNotTooSmall maxWlogSendPb (ucast (lh_total_io_size h) + 1) ''extractAndSendAndDeleteWlog'')) (\<lambda>_.
          let nextLsid = nextLogpackLsid h in
          if lsidLimit < nextLsid then Some (Inr lsid)
          else if \<not> list_all (ws_io ws lsid) [0..<unat (lh_n_records h)] then Some (Inl (Exception ''invalid logpack IO''))
          else send_loop ws maxWlogSendPb lsidLimit nextLsid))"

text \<open>
  \<open>extractAndSendAndDeleteWlog\<close> up to the connection to the proxy, then the rest; other operations may come between
  the two. The environments are those of the successive questions. The first part returns what the function returns, or
  the range to send.
\<close>

definition extract_begin :: "(nat \<Rightarrow> sv_env) \<Rightarrow> u64 \<Rightarrow> u64 \<Rightarrow> (storage_vol, bool + MetaLsidGid \<times> MetaLsidGid \<times> u64) sx" where
  "extract_begin envs maxWlogSendMb intervalSec =
     sx_bind (deleteGarbageWlogs (envs 0) (envs 1)) (\<lambda>isRemainingGarbage.
     sx_bind (isWlogTransferRequiredDetail (envs 2) False) (\<lambda>now.
     if \<not> now then
       (if isRemainingGarbage then sx_return (Inl True)
        else sx_bind (isWlogTransferRequiredDetail (envs 3) True) (\<lambda>later. sx_return (Inl later)))
     else sx_bind (prepareWlogTransfer (envs 3) maxWlogSendMb intervalSec) (\<lambda>(rec0, rec1, lsidLimit, doLater).
       if doLater then sx_return (Inl True) else sx_return (Inr (rec0, rec1, lsidLimit)))))"

text \<open>\<open>net\<close> says what the network does with the diff; without the acknowledgement there is an exception.\<close>

definition send_diff :: "(MetaDiff \<Rightarrow> bool) \<Rightarrow> MetaDiff \<Rightarrow> u64 \<Rightarrow> u64 \<Rightarrow> (storage_vol, unit) sx" where
  "send_diff net diff lsidB lsidE =
     sx_bind (sx_read (\<lambda>_. if net diff then Inr () else Inl (Exception ''network''))) (\<lambda>_.
       sx_put (\<lambda>s. s\<lparr>sv_acked := (diff, lsidB, lsidE) # sv_acked s\<rparr>))"

definition sendWlogs :: "sv_env \<Rightarrow> wlog_source \<Rightarrow> (MetaDiff \<Rightarrow> bool) \<Rightarrow> u64 \<Rightarrow> MetaLsidGid \<times> MetaLsidGid \<times> u64
    \<Rightarrow> (storage_vol, u64) sx" where
  "sendWlogs env ws net maxWlogSendMb = (\<lambda>(rec0, rec1, lsidLimit).
     sx_bind (sx_read (\<lambda>_. ensure (env_pbs env \<noteq> 0) Div_By_Zero
       (Inr (maxWlogSendMb * 0x100000 div ucast (env_pbs env))))) (\<lambda>maxWlogSendPb.
     sx_bind (\<lambda>s. case send_loop ws maxWlogSendPb lsidLimit (lg_lsid rec0) of
         None \<Rightarrow> None | Some r \<Rightarrow> Some (r, s)) (\<lambda>lsidE.
     sx_bind (sx_read (\<lambda>_. getTransferDiff rec0 rec1 lsidE)) (\<lambda>diff.
     sx_bind (send_diff net diff (lg_lsid rec0) lsidE) (\<lambda>_. sx_return lsidE)))))"

definition extract_end :: "(nat \<Rightarrow> sv_env) \<Rightarrow> wlog_source \<Rightarrow> (MetaDiff \<Rightarrow> bool) \<Rightarrow> u64 \<Rightarrow> MetaLsidGid \<times> MetaLsidGid \<times> u64
    \<Rightarrow> (storage_vol, bool) sx" where
  "extract_end envs ws net maxWlogSendMb = (\<lambda>(rec0, rec1, lsidLimit).
     sx_bind (sendWlogs (envs 0) ws net maxWlogSendMb (rec0, rec1, lsidLimit)) (\<lambda>lsidE.
     sx_bind (finishWlogTransfer (envs 1) rec0 rec1 lsidE) (\<lambda>isRemainingData.
     sx_bind (deleteGarbageWlogs (envs 2) (envs 3)) (\<lambda>isRemainingGarbage.
       if isRemainingData \<or> isRemainingGarbage then sx_return True
       else isWlogTransferRequiredDetail (envs 4) True))))"

end
