(* ===== verification/Storage_Records.thy ===== *)
theory Storage_Records
  imports Storage_Vol
begin

text \<open>
  The records of a volume without the files: the done record \<open>d\<close> and the list \<open>xs\<close> of the queue, the newest first.
  Lsids and gids grow together; a record is either sent or newer than the done record; all lsids are ends of log packs,
  \<open>B\<close>; and the gid of the newest is bounded by its lsid and the number of snapshots. The first part of the invariant also
  holds after a crash between the update of the done record and that of the queue.
\<close>

definition newer :: "MetaLsidGid \<Rightarrow> MetaLsidGid \<Rightarrow> bool" where
  "newer d x \<longleftrightarrow> lg_lsid d \<le> lg_lsid x \<and> lg_gid d < lg_gid x"

definition passed :: "MetaLsidGid \<Rightarrow> MetaLsidGid \<Rightarrow> bool" where
  "passed d x \<longleftrightarrow> lg_lsid x \<le> lg_lsid d \<and> lg_gid x \<le> lg_gid d"

definition rec_top :: "MetaLsidGid \<Rightarrow> MetaLsidGid list \<Rightarrow> MetaLsidGid" where
  "rec_top d xs = (case xs of [] \<Rightarrow> d | x # _ \<Rightarrow> x)"

definition recs_ok :: "MetaLsidGid \<Rightarrow> MetaLsidGid list \<Rightarrow> bool" where
  "recs_ok d xs \<longleftrightarrow> sorted_wrt (\<lambda>a b. newer b a) xs \<and> (\<forall>x \<in> set xs. passed d x \<or> newer d x) \<and> passed (rec_top d xs) d"

definition vol_ok :: "u64 list \<Rightarrow> nat \<Rightarrow> nat \<Rightarrow> MetaLsidGid \<Rightarrow> MetaLsidGid list \<Rightarrow> bool" where
  "vol_ok B g0 n d xs \<longleftrightarrow> recs_ok d xs \<and> lg_lsid d \<in> set B \<and> lg_lsid ` set xs \<subseteq> set B
     \<and> unat (lg_gid (rec_top d xs)) \<le> g0 + unat (lg_lsid (rec_top d xs)) + n"

lemma newer_trans: "newer a b \<Longrightarrow> newer b c \<Longrightarrow> newer a c"
  by (auto simp: newer_def)

lemma passed_trans: "passed a b \<Longrightarrow> passed b c \<Longrightarrow> passed a c"
  by (auto simp: passed_def)

lemma passed_refl [simp]: "passed d d"
  by (simp add: passed_def)

lemma newer_passed: "newer d x \<Longrightarrow> passed x d"
  by (auto simp: newer_def passed_def)

lemma newer_not_passed: "newer d x \<Longrightarrow> \<not> passed d x"
  by (auto simp: newer_def passed_def)

lemma isOld_passed: "passed d x \<or> newer d x \<Longrightarrow> isOld d x \<longleftrightarrow> passed d x"
  by (auto simp: isOld_def passed_def newer_def)

lemma rec_top_simps [simp]: "rec_top d [] = d" "rec_top d (x # xs) = x"
  by (simp_all add: rec_top_def)

lemma rec_top_append [simp]: "rec_top d (xs @ ys) = rec_top (rec_top d ys) xs"
  by (cases xs) simp_all

section \<open>Removing the old records\<close>

definition drop_old :: "MetaLsidGid \<Rightarrow> MetaLsidGid list \<Rightarrow> MetaLsidGid list" where
  "drop_old d xs = rev (dropWhile (isOld d) (rev xs))"

lemma drop_old_simps [simp]:
  "drop_old d [] = []" "drop_old d [x] = (if isOld d x then [] else [x])"
  "drop_old d (xs @ [x]) = (if isOld d x then drop_old d xs else xs @ [x])"
  by (simp_all add: drop_old_def)

lemma drop_old_newer:
  assumes "recs_ok d xs"
  shows "x \<in> set (drop_old d xs) \<longleftrightarrow> x \<in> set xs \<and> newer d x"
  using assms
proof (induction xs rule: rev_induct)
  case (snoc y ys)
  have r: "recs_ok d ys" if "ys \<noteq> []"
    using snoc.prems that by (auto simp: recs_ok_def sorted_wrt_append neq_Nil_conv)
  have y: "passed d y \<or> newer d y" "\<forall>z \<in> set ys. newer y z" using snoc.prems by (auto simp: recs_ok_def sorted_wrt_append)
  show ?case
  proof (cases "isOld d y")
    case True
    then have "\<not> newer d y" using isOld_passed [OF y(1)] newer_not_passed by blast
    then show ?thesis using True snoc.IH r by (cases "ys = []") auto
  next
    case False
    then have "newer d y" using isOld_passed [OF y(1)] y(1) by blast
    then show ?thesis using False y(2) newer_trans by auto
  qed
qed simp

lemma drop_old_split: "\<exists>ys. xs = drop_old d xs @ ys \<and> list_all (isOld d) ys"
proof -
  have "rev xs = takeWhile (isOld d) (rev xs) @ dropWhile (isOld d) (rev xs)" by simp
  then have "xs = drop_old d xs @ rev (takeWhile (isOld d) (rev xs))" unfolding drop_old_def by (metis rev_append rev_rev_ident)
  then show ?thesis by (metis list_all_iff set_rev set_takeWhileD)
qed

lemma drop_old_top:
  assumes "recs_ok d xs"
  shows "lg_lsid (rec_top d (drop_old d xs)) = lg_lsid (rec_top d xs)" "lg_gid (rec_top d (drop_old d xs)) = lg_gid (rec_top d xs)"
proof -
  obtain ys where ys: "xs = drop_old d xs @ ys" using drop_old_split by blast
  have "passed d (rec_top d xs)" if e: "drop_old d xs = []"
  proof (cases xs)
    case (Cons x xs')
    then have "\<not> newer d x" using drop_old_newer [OF assms, of x] e by simp
    then show ?thesis using assms Cons by (auto simp: recs_ok_def)
  qed simp
  moreover have "passed (rec_top d xs) d" using assms by (simp add: recs_ok_def)
  moreover have "rec_top d (drop_old d xs) = rec_top d xs" if "drop_old d xs \<noteq> []"
    using that arg_cong [OF ys, of "rec_top d"] by (cases "drop_old d xs") simp_all
  ultimately show "lg_lsid (rec_top d (drop_old d xs)) = lg_lsid (rec_top d xs)" "lg_gid (rec_top d (drop_old d xs)) = lg_gid (rec_top d xs)"
    by (cases "drop_old d xs = []"; fastforce simp: passed_def)+
qed

lemma drop_old_ok:
  assumes "vol_ok B g0 n d xs"
  shows "vol_ok B g0 n d (drop_old d xs)"
proof -
  obtain ys where ys: "xs = drop_old d xs @ ys" using drop_old_split by blast
  have r: "recs_ok d xs" using assms by (simp add: vol_ok_def)
  have sub: "set (drop_old d xs) \<subseteq> set xs" using drop_old_newer [OF r] by blast
  have "sorted_wrt (\<lambda>a b. newer b a) (drop_old d xs)" using r ys by (metis recs_ok_def sorted_wrt_append)
  moreover have "passed (rec_top d (drop_old d xs)) d" using r drop_old_top [OF r] by (simp add: recs_ok_def passed_def)
  ultimately have "recs_ok d (drop_old d xs)" using r sub by (auto simp: recs_ok_def)
  then show ?thesis using assms sub drop_old_top [OF r] by (auto simp: vol_ok_def)
qed

section \<open>A new snapshot\<close>

lemma snapshot_ok:
  assumes "vol_ok B g0 n d xs" and "lg_lsid (rec_top d xs) \<le> l" and "l \<in> set B" and "mx \<noteq> 0"
    and "g0 + unat l + n + 1 < 2 ^ 64" and "lg_lsid x = l"
    and "lg_gid x = lg_gid (rec_top d xs) + 1 + (l - lg_lsid (rec_top d xs)) div mx"
  shows "vol_ok B g0 (n + 1) d (x # xs)" and "newer d x"
proof -
  let ?t = "rec_top d xs" let ?q = "(l - lg_lsid ?t) div mx"
  have t: "unat (lg_gid ?t) \<le> g0 + unat (lg_lsid ?t) + n" "passed ?t d" using assms(1) by (simp_all add: vol_ok_def recs_ok_def)
  have le: "unat (lg_lsid ?t) \<le> unat l" using assms(2) by (simp add: word_le_nat_alt)
  have q: "unat ?q \<le> unat l - unat (lg_lsid ?t)" using assms(2) by (simp add: unat_div unat_sub_le div_le_dividend)
  have s: "unat (lg_gid ?t) + 1 + unat ?q \<le> g0 + unat l + n + 1" using t(1) q le by linarith
  have "unat (lg_gid ?t + 1) = unat (lg_gid ?t) + 1" by (subst unat_add_small) (use s assms(5) in simp_all)
  then have g: "unat (lg_gid x) = unat (lg_gid ?t) + 1 + unat ?q"
    unfolding assms(7) by (subst unat_add_small) (use s assms(5) in simp_all)
  then have nt: "newer ?t x" using assms(2,6) by (simp add: newer_def word_less_nat_alt)
  have nx: "newer y x" if "passed ?t y" for y using nt that by (auto simp: newer_def passed_def)
  have all: "passed ?t y" if "y \<in> set xs" for y
  proof (cases xs)
    case (Cons z zs)
    then have "y = z \<or> newer y z" using that assms(1) by (auto simp: vol_ok_def recs_ok_def)
    then show ?thesis using Cons newer_passed by auto
  qed (use that in simp)
  show "newer d x" by (rule nx [OF t(2)])
  then have "recs_ok d (x # xs)" using assms(1) all nx newer_passed by (auto simp: vol_ok_def recs_ok_def)
  then show "vol_ok B g0 (n + 1) d (x # xs)" using assms(1,3,6) s g by (auto simp: vol_ok_def)
qed

section \<open>The range of a transfer\<close>

text \<open>
  Between the done record and the record that the transfer reaches there are only records of implicit snapshots, and
  none if the transfer is cut.
\<close>

definition range_ok :: "u64 list \<Rightarrow> MetaLsidGid \<Rightarrow> MetaLsidGid list \<Rightarrow> MetaLsidGid \<Rightarrow> u64 \<Rightarrow> bool" where
  "range_ok B d xs e lim \<longleftrightarrow> e \<in> set xs \<and> newer d e \<and> lg_lsid d \<le> lim \<and> lim \<le> lg_lsid e
     \<and> (\<forall>x \<in> set xs. newer d x \<and> newer x e \<longrightarrow> lg_isMergeable x)
     \<and> (lim \<noteq> lg_lsid e \<longrightarrow> lg_gid d + 1 < lg_gid e \<and> (\<forall>x \<in> set xs. newer d x \<longrightarrow> x = e \<or> newer e x))"

lemma newer_asym: "newer e x \<Longrightarrow> \<not> newer x e"
  by (auto simp: newer_def)

lemma range_snapshot: "range_ok B d xs e lim \<Longrightarrow> newer e x \<Longrightarrow> range_ok B d (x # xs) e lim"
  using newer_asym by (auto simp: range_ok_def)

lemma range_drop:
  assumes "recs_ok d xs" and "range_ok B d xs e lim"
  shows "range_ok B d (drop_old d xs) e lim"
  using assms drop_old_newer [OF assms(1)] by (auto simp: range_ok_def)

lemma sentRecord_ok:
  assumes "vol_ok B g0 n d xs" and "range_ok B d xs e lim" and "lE \<in> set B" and "lg_lsid d \<le> lE" and "lE \<le> lim"
    and "lim \<in> set B \<Longrightarrow> lE = lim"
  shows "\<exists>r. sentRecord d e lE = Inr r \<and> lg_lsid r = lE \<and> lg_gid d < lg_gid r \<and> vol_ok B g0 n r xs
    \<and> (lE = lg_lsid e \<longrightarrow> lg_gid r = lg_gid e) \<and> (lE \<noteq> lg_lsid e \<longrightarrow> lg_gid r = lg_gid d + 1 \<and> lg_gid d + 1 < lg_gid e)
    \<and> (\<forall>x \<in> set xs. newer d x \<and> \<not> lg_isMergeable x \<and> lg_gid x \<le> lg_gid r \<longrightarrow> lg_gid x = lg_gid r)"
proof -
  have e: "e \<in> set xs" "newer d e" "lg_lsid d \<le> lim" "lim \<le> lg_lsid e" "\<forall>x \<in> set xs. newer d x \<and> newer x e \<longrightarrow> lg_isMergeable x"
    "lim \<noteq> lg_lsid e \<longrightarrow> lg_gid d + 1 < lg_gid e \<and> (\<forall>x \<in> set xs. newer d x \<longrightarrow> x = e \<or> newer e x)"
    using assms(2) by (auto simp: range_ok_def)
  have v: "recs_ok d xs" "lg_lsid ` set xs \<subseteq> set B" using assms(1) by (simp_all add: vol_ok_def)
  have cmp: "x = e \<or> newer x e \<or> newer e x" if "x \<in> set xs" for x
  proof -
    have "sorted_wrt (\<lambda>a b. newer b a) xs" using v(1) by (simp add: recs_ok_def)
    then show ?thesis using that e(1) by (metis in_set_conv_nth less_irrefl linorder_neqE_nat sorted_wrt_iff_nth_less)
  qed
  have top: "passed (rec_top d xs) e"
  proof (cases xs)
    case (Cons z zs)
    then have "e = z \<or> newer e z" using e(1) v(1) by (auto simp: recs_ok_def)
    then show ?thesis using Cons newer_passed by auto
  qed (use e(1) in simp)
  have partial: "lg_gid d + 1 < lg_gid e \<and> (\<forall>x \<in> set xs. newer d x \<longrightarrow> x = e \<or> newer e x)" if "lE \<noteq> lg_lsid e"
  proof -
    have "lim \<noteq> lg_lsid e" using that assms(6) e(1) v(2) by auto
    then show ?thesis using e(6) by blast
  qed
  have inc: "lg_gid d < lg_gid d + 1 \<and> (\<forall>g. lg_gid d < g \<longrightarrow> lg_gid d + 1 \<le> g)" if "lE \<noteq> lg_lsid e"
  proof -
    have "unat (lg_gid d) + 1 < 2 ^ 64"
      using e(2) unat_lt64 [of "lg_gid e"] by (simp add: newer_def word_less_nat_alt del: unat_lt64)
    then have "unat (lg_gid d + 1) = unat (lg_gid d) + 1" by (subst unat_add_small) simp_all
    then show ?thesis by (simp add: word_less_nat_alt word_le_nat_alt)
  qed
  obtain r where r: "sentRecord d e lE = Inr r" "lg_lsid r = lE" "lE = lg_lsid e \<longrightarrow> lg_gid r = lg_gid e"
    "lE \<noteq> lg_lsid e \<longrightarrow> lg_gid r = lg_gid d + 1"
    using partial by (cases "lE = lg_lsid e") (auto simp: sentRecord_def)
  have dr: "lg_gid d < lg_gid r" "passed e r"
    using r e(2,4) inc partial assms(5) by (cases "lE = lg_lsid e"; auto simp: newer_def passed_def)+
  have cls: "passed r x \<or> newer r x" if x: "x \<in> set xs" for x
  proof (cases "lE = lg_lsid e")
    case True
    then show ?thesis using cmp [OF x] r by (auto simp: newer_def passed_def)
  next
    case False
    have "passed d x \<or> newer d x" using v(1) x by (simp add: recs_ok_def)
    then show ?thesis using partial [OF False] x r False dr(1) e(4) assms(4,5) by (auto simp: newer_def passed_def)
  qed
  have "passed (rec_top d xs) r" using top dr(2) passed_trans by blast
  then have "recs_ok r xs" using v(1) cls e(1) by (cases xs) (auto simp: recs_ok_def)
  then have "vol_ok B g0 n r xs" using assms(1,3) r(2) e(1) by (cases xs) (auto simp: vol_ok_def)
  moreover have "lg_gid x = lg_gid r" if x: "x \<in> set xs" "newer d x" "\<not> lg_isMergeable x" "lg_gid x \<le> lg_gid r" for x
  proof -
    have "\<not> newer x e" using x e(5) by blast
    then have "lg_gid e \<le> lg_gid x" using cmp [OF x(1)] by (auto simp: newer_def)
    then show ?thesis using x(4) dr(2) by (auto simp: passed_def)
  qed
  ultimately show ?thesis using r dr(1) partial by auto
qed

end
