(* ===== verification/Queue_File_Laws.thy ===== *)
theory Queue_File_Laws
  imports Queue_File Serializer
begin

text \<open>
  A queue file holds a list of byte strings. The abstraction is the image of the list in the file: the
  records one after the other, each with the size of the one before it, and behind them an end stub. Every
  operation works on the image as the operation on lists does, and what a crash leaves is found again.
\<close>

section \<open>The mapping\<close>

lemma appendZero_loop_ok: "appendZero_loop len bs = bs @ replicate (unat len) 0"
proof (induction len bs rule: appendZero_loop.induct)
  case (1 len bs)
  show ?case
  proof (cases "0 < len")
    case True
    have "unat (min len 4096) + unat (len - min len 4096) = unat len"
      by (auto simp: min_def word_le_nat_alt unat_sub_if')
    then show ?thesis using True 1 [OF True refl]
      by (subst appendZero_loop.simps) (simp add: Let_def flip: replicate_add)
  qed (subst appendZero_loop.simps, simp add: word_gt_0)
qed

definition map_ok :: "MmappedFile \<Rightarrow> bool" where
  "map_ok m \<longleftrightarrow> 0 < unat (mm_pageSize m) \<and> unat (mm_pageSize m) \<le> 2 ^ 30 \<and> length (mm_bytes m) < 2 ^ 62"

lemma calcFileSize_ok:
  assumes "map_ok m" and "0 < unat (mm_size m)" and "unat (mm_size m) < 2 ^ 61"
  shows "unat (mm_size m) \<le> unat (mm_calcFileSize m)" and "unat (mm_calcFileSize m) < 2 ^ 62"
proof -
  let ?s = "unat (mm_size m)" and ?p = "unat (mm_pageSize m)"
  have p: "0 < ?p" "?p \<le> 1073741824" using assms(1) by (simp_all add: map_ok_def)
  have n: "((?s - 1) div ?p + 1) * ?p \<le> ?s - 1 + ?p" "?s \<le> ((?s - 1) div ?p + 1) * ?p"
  proof -
    have "(?s - 1) div ?p * ?p \<le> ?s - 1" by simp
    then show "((?s - 1) div ?p + 1) * ?p \<le> ?s - 1 + ?p" by simp
    have "?s - 1 < ((?s - 1) div ?p + 1) * ?p" using p(1) dividend_less_div_times [of ?p "?s - 1"] by simp
    then show "?s \<le> ((?s - 1) div ?p + 1) * ?p" using assms(2) by simp
  qed
  have "unat (mm_size m - 1) = ?s - 1" using assms(2) by (simp add: unat_minus_one unat_gt_0)
  then have d: "unat ((mm_size m - 1) div mm_pageSize m) = (?s - 1) div ?p" by (simp add: unat_div)
  have "(?s - 1) div ?p \<le> ?s - 1" by simp
  then have d1: "unat ((mm_size m - 1) div mm_pageSize m + 1) = (?s - 1) div ?p + 1"
    using assms(3) d by (subst unat_add_small) (simp_all del: div_le_dividend)
  have lt: "((?s - 1) div ?p + 1) * ?p < 4611686018427387904" 
  proof (rule le_less_trans [OF n(1)])
    show "?s - 1 + ?p < 4611686018427387904" using p(2) assms(3) by simp
  qed
  have "unat (mm_calcFileSize m) = ((?s - 1) div ?p + 1) * ?p"
    unfolding mm_calcFileSize_def by (subst unat_mult_small) (use d1 lt in simp_all)
  then show "?s \<le> unat (mm_calcFileSize m)" "unat (mm_calcFileSize m) < 2 ^ 62" using n(2) lt by simp_all
qed

lemma adjustFileSize_ok:
  assumes "map_ok m" and "0 < unat (mm_size m)" and "unat (mm_size m) < 2 ^ 61"
  shows "\<exists>bs. adjustFileSize m = (mm_calcFileSize m, m\<lparr>mm_bytes := bs\<rparr>) \<and> unat (mm_size m) \<le> length bs \<and> length bs < 2 ^ 62
    \<and> length bs = unat (mm_calcFileSize m)
    \<and> (\<forall>n. n \<le> length (mm_bytes m) \<longrightarrow> n \<le> unat (mm_size m) \<longrightarrow> take n bs = take n (mm_bytes m))"
proof -
  note c = calcFileSize_ok [OF assms]
  let ?f = "mm_calcFileSize m" and ?n = "length (mm_bytes m)"
  have n: "unat (of_nat ?n :: u64) = ?n" using assms(1) by (simp add: map_ok_def unat_of_nat)
  let ?bs = "if ?n < unat ?f then mm_bytes m @ replicate (unat ?f - ?n) 0 else take (unat ?f) (mm_bytes m)"
  have "unat (?f - of_nat ?n) = unat ?f - ?n" if "?n < unat ?f" using that n by (simp add: unat_sub_if')
  then have "adjustFileSize m = (?f, m\<lparr>mm_bytes := ?bs\<rparr>)"
    using n by (auto simp: adjustFileSize_def Let_def appendZero_loop_ok word_less_nat_alt not_less)
  moreover have "length ?bs = unat ?f" by simp
  moreover have "take k ?bs = take k (mm_bytes m)" if "k \<le> ?n" "k \<le> unat (mm_size m)" for k
    using that c(1) by (simp add: min_def)
  ultimately show ?thesis using c by (intro exI [of _ ?bs]) auto
qed

lemma mm_resize_ok:
  assumes "map_ok m" and "0 < unat sz" and "unat sz < 2 ^ 61"
  obtains bs where "mm_resize sz m = m\<lparr>mm_bytes := bs, mm_size := sz\<rparr>" and "unat sz \<le> length bs" and "length bs < 2 ^ 62"
    and "\<And>n. n \<le> length (mm_bytes m) \<Longrightarrow> n \<le> unat sz \<Longrightarrow> take n bs = take n (mm_bytes m)"
proof -
  have ok: "map_ok (m\<lparr>mm_size := sz\<rparr>)" using assms(1) by (simp add: map_ok_def)
  obtain bs where bs: "adjustFileSize (m\<lparr>mm_size := sz\<rparr>) = (mm_calcFileSize (m\<lparr>mm_size := sz\<rparr>), m\<lparr>mm_size := sz, mm_bytes := bs\<rparr>)"
    "unat sz \<le> length bs" "length bs < 2 ^ 62"
    "\<forall>n. n \<le> length (mm_bytes m) \<longrightarrow> n \<le> unat sz \<longrightarrow> take n bs = take n (mm_bytes m)"
    using adjustFileSize_ok [OF ok] assms(2,3) by auto
  have "m\<lparr>mm_size := sz, mm_bytes := bs\<rparr> = m\<lparr>mm_bytes := bs, mm_size := sz\<rparr>" by (cases m) simp
  then have "mm_resize sz m = m\<lparr>mm_bytes := bs, mm_size := sz\<rparr>" using bs(1) by (simp add: mm_resize_def)
  then show ?thesis using bs(2-4) that by blast
qed

section \<open>Bytes of the headers\<close>

lemma length_queue_header_bytes [simp]: "length (queue_header_bytes h) = 28"
  by (simp add: queue_header_bytes_def)

lemma queue_header_of_bytes [simp]: "queue_header_of (queue_header_bytes h) = h"
  by (simp add: queue_header_of_def queue_header_bytes_def)

lemma length_queue_record_bytes [simp]: "length (queue_record_bytes r) = 16"
  by (simp add: queue_record_bytes_def)

lemma queue_record_of_bytes [simp]: "queue_record_of (queue_record_bytes r) = r"
  by (simp add: queue_record_of_def queue_record_bytes_def)

interpretation queue_header_sum: checksummed "\<lambda>_. True" queue_header_bytes "\<lambda>c h. h\<lparr>qh_checksum := c\<rparr>"
proof
  fix h c
  show "4 dvd length (queue_header_bytes h)" by simp
  show "word_sum (queue_header_bytes (h\<lparr>qh_checksum := c\<rparr>)) = c + word_sum (queue_header_bytes (h\<lparr>qh_checksum := 0\<rparr>))"
    by (simp add: queue_header_bytes_def)
qed simp

lemma updated_header_valid: "qh_preamble h = QUEUE_PREAMBLE \<Longrightarrow> isValidFileHeader (updateFileHeaderChecksum h)"
  using queue_header_sum.updated_verifies [of h 0] by (simp add: isValidFileHeader_def updateFileHeaderChecksum_def Let_def)

lemma updated_header_fields [simp]:
  "qh_preamble (updateFileHeaderChecksum h) = qh_preamble h" "qh_salt (updateFileHeaderChecksum h) = qh_salt h"
  "qh_beginOffset (updateFileHeaderChecksum h) = qh_beginOffset h" "qh_endOffset (updateFileHeaderChecksum h) = qh_endOffset h"
  by (simp_all add: updateFileHeaderChecksum_def Let_def)

section \<open>Reading and writing in the mapping\<close>

definition q_with :: "u8 list \<Rightarrow> queue_file \<Rightarrow> queue_file" where
  "q_with bs q = q\<lparr>q_mm := (q_mm q)\<lparr>mm_bytes := bs\<rparr>\<rparr>"

lemma q_with_simps [simp]:
  "q_header (q_with bs q) = q_header q" "mm_bytes (q_mm (q_with bs q)) = bs" "mm_pageSize (q_mm (q_with bs q)) = mm_pageSize (q_mm q)"
  "mm_size (q_mm (q_with bs q)) = mm_size (q_mm q)" "q_with bs (q_with cs q) = q_with bs q" "q_with (mm_bytes (q_mm q)) q = q"
  by (simp_all add: q_with_def)

lemma overwrite_middle: "length old = length new \<Longrightarrow> overwrite (A @ old @ B) (length A) new = A @ new @ B"
  by (simp add: overwrite_def)

lemma put_bytes_at:
  assumes "mm_bytes (q_mm q) = A @ old @ B" and "length old = length new" and "a = length A"
  shows "put_bytes a new q = Inr (q_with (A @ new @ B) q)"
  using assms by (simp add: put_bytes_def q_with_def overwrite_middle)

lemma rec_get_at:
  assumes "mm_bytes (q_mm q) = A @ old @ B" and "length old = 16" and "a = length A"
  shows "rec_get a q = Inr (queue_record_of old)"
  using assms by (simp add: rec_get_def)

lemma rec_change_at:
  assumes "mm_bytes (q_mm q) = A @ old @ B" and "length old = 16" and "a = length A"
  shows "rec_change a f q = Inr (q_with (A @ queue_record_bytes (f (queue_record_of old)) @ B) q)"
  using rec_get_at [OF assms] put_bytes_at [OF assms(1) _ assms(3)] assms(2) by (simp add: rec_change_def)

lemma header_with_map: "q_header (q\<lparr>q_mm := m\<rparr>) = q_header q"
  by simp

section \<open>The image of a list\<close>

definition rec_image :: "u32 \<Rightarrow> u32 \<Rightarrow> u8 list \<Rightarrow> u8 list" where
  "rec_image salt p x = queue_record_bytes \<lparr>qr_preamble = QUEUE_PREAMBLE, qr_checksum = calcChecksum x salt,
     qr_dataSize = of_nat (length x), qr_toPrev = p\<rparr> @ x"

fun recs_image :: "u32 \<Rightarrow> u32 \<Rightarrow> u8 list list \<Rightarrow> u8 list" where
  "recs_image salt p [] = []"
| "recs_image salt p (x # xs) = rec_image salt p x @ recs_image salt (16 + of_nat (length x)) xs"

fun last_prev :: "u32 \<Rightarrow> u8 list list \<Rightarrow> u32" where
  "last_prev p [] = p"
| "last_prev p (x # xs) = last_prev (16 + of_nat (length x)) xs"

definition recs_size :: "u8 list list \<Rightarrow> nat" where
  "recs_size xs = sum_list (map (\<lambda>x. 16 + length x) xs)"

lemma length_rec_image [simp]: "length (rec_image salt p x) = 16 + length x"
  by (simp add: rec_image_def)

lemma length_recs_image [simp]: "length (recs_image salt p xs) = recs_size xs"
  by (induction xs arbitrary: p) (simp_all add: recs_size_def)

lemma recs_size_simps [simp]:
  "recs_size [] = 0" "recs_size (x # xs) = 16 + length x + recs_size xs" "recs_size (xs @ ys) = recs_size xs + recs_size ys"
  by (simp_all add: recs_size_def)

lemma recs_size_zero: "recs_size xs = 0 \<longleftrightarrow> xs = []"
  by (cases xs) simp_all

lemma recs_image_append: "recs_image salt p (xs @ ys) = recs_image salt p xs @ recs_image salt (last_prev p xs) ys"
  by (induction xs arbitrary: p) simp_all

lemma last_prev_append [simp]: "last_prev p (xs @ [x]) = 16 + of_nat (length x)"
  by (induction xs arbitrary: p) simp_all

text \<open>Each string is short enough for a record.\<close>

definition sizes_ok :: "u8 list list \<Rightarrow> bool" where
  "sizes_ok xs \<longleftrightarrow> (\<forall>x \<in> set xs. 16 + length x < 2 ^ 32)"

text \<open>The bytes \<open>bs\<close> hold the list \<open>xs\<close> where the header says.\<close>

definition queue_image :: "u8 list \<Rightarrow> QueueFileHeader \<Rightarrow> u8 list list \<Rightarrow> bool" where
  "queue_image bs h xs \<longleftrightarrow> sizes_ok xs \<and> unat (qh_endOffset h) = unat (qh_beginOffset h) + recs_size xs
     \<and> (\<exists>A p st B. bs = A @ recs_image (qh_salt h) p xs @ st @ B \<and> length A = 56 + unat (qh_beginOffset h)
          \<and> length st = 16 \<and> qr_toPrev (queue_record_of st) = last_prev p xs)"

definition holds :: "queue_file \<Rightarrow> u8 list list \<Rightarrow> bool" where
  "holds q xs \<longleftrightarrow> map_ok (q_mm q) \<and> qh_preamble (q_header q) = QUEUE_PREAMBLE \<and> queue_image (mm_bytes (q_mm q)) (q_header q) xs"

lemma queue_imageE:
  assumes "queue_image bs h xs"
  obtains A p st B where "bs = A @ recs_image (qh_salt h) p xs @ st @ B" and "length A = 56 + unat (qh_beginOffset h)"
    and "length st = 16" and "qr_toPrev (queue_record_of st) = last_prev p xs"
    and "unat (qh_endOffset h) = unat (qh_beginOffset h) + recs_size xs" and "sizes_ok xs"
  using assms unfolding queue_image_def by blast

lemma queue_imageI:
  "bs = A @ recs_image (qh_salt h) p xs @ st @ B \<Longrightarrow> length A = 56 + unat (qh_beginOffset h) \<Longrightarrow> length st = 16
    \<Longrightarrow> qr_toPrev (queue_record_of st) = last_prev p xs \<Longrightarrow> unat (qh_endOffset h) = unat (qh_beginOffset h) + recs_size xs
    \<Longrightarrow> sizes_ok xs \<Longrightarrow> queue_image bs h xs"
  unfolding queue_image_def by blast

lemma record_addr_length: "length A = 56 + unat off \<Longrightarrow> record_addr off = length A"
  by (simp add: record_addr_def QUEUE_HEADER_SIZE_def)

lemma rec_image_header:
  "take 16 (rec_image salt p x @ ys) = queue_record_bytes \<lparr>qr_preamble = QUEUE_PREAMBLE, qr_checksum = calcChecksum x salt,
     qr_dataSize = of_nat (length x), qr_toPrev = p\<rparr>"
  by (simp add: rec_image_def)

lemma short_size:
  assumes "16 + length x < 2 ^ 32"
  shows "unat (of_nat (length x) :: u32) = length x" and "unat (16 + of_nat (length x) :: u32) = 16 + length x"
    and "ucast (16 + of_nat (length x) :: u32) = (of_nat (16 + length x) :: u64)"
proof -
  show n: "unat (of_nat (length x) :: u32) = length x" using assms by (simp add: unat_of_nat)
  then show t: "unat (16 + of_nat (length x) :: u32) = 16 + length x" using assms by (subst unat_add_small) simp_all
  show "ucast (16 + of_nat (length x) :: u32) = (of_nat (16 + length x) :: u64)"
    unfolding unat_eq_iff_nat unat_ucast_32_64 t by (subst unat_of_nat) (use assms in simp)
qed

lemma q_empty_iff: "holds q xs \<Longrightarrow> q_empty q \<longleftrightarrow> xs = []"
  unfolding holds_def queue_image_def q_empty_def unat_eq_iff_nat by (auto simp: recs_size_zero)

section \<open>Synchronisation\<close>

text \<open>The headers in the file do not matter for the image.\<close>

lemma queue_image_headers:
  assumes "queue_image bs h xs" and "length hs = 56" and "qh_salt h' = qh_salt h"
    and "qh_beginOffset h' = qh_beginOffset h" and "qh_endOffset h' = qh_endOffset h"
  shows "queue_image (hs @ drop 56 bs) h' xs"
proof -
  obtain A p st B where i: "bs = A @ recs_image (qh_salt h) p xs @ st @ B" "length A = 56 + unat (qh_beginOffset h)"
    "length st = 16" "qr_toPrev (queue_record_of st) = last_prev p xs"
    "unat (qh_endOffset h) = unat (qh_beginOffset h) + recs_size xs" "sizes_ok xs" by (rule queue_imageE [OF assms(1)])
  show ?thesis
    by (rule queue_imageI [of _ "hs @ drop 56 A" _ p _ st B]) (use i assms in simp_all)
qed

lemma sync_ok:
  assumes "56 \<le> length (mm_bytes (q_mm q))"
  defines "h \<equiv> updateFileHeaderChecksum (q_header q)"
  shows "q_sync q = Inr (q_with (queue_header_bytes h @ queue_header_bytes h @ drop 56 (mm_bytes (q_mm q))) (q\<lparr>q_header := h\<rparr>))"
proof -
  let ?m = "mm_bytes (q_mm q)" and ?hb = "queue_header_bytes h" and ?q = "q\<lparr>q_header := h\<rparr>"
  have m: "take 28 (drop 28 ?m) @ drop 56 ?m = drop 28 ?m"
    using append_take_drop_id [of 28 "drop 28 ?m"] by (simp add: drop_drop add.commute)
  have "put_bytes 0 ?hb ?q = Inr (q_with (?hb @ drop 28 ?m) ?q)"
    using put_bytes_at [of ?q "[]" "take 28 ?m" "drop 28 ?m" ?hb] assms(1) by simp
  moreover have "put_bytes 28 ?hb (q_with (?hb @ drop 28 ?m) ?q) = Inr (q_with (?hb @ ?hb @ drop 56 ?m) ?q)"
    using put_bytes_at [of "q_with (?hb @ drop 28 ?m) ?q" ?hb "take 28 (drop 28 ?m)" "drop 56 ?m" ?hb] assms(1)
    by (simp add: m)
  ultimately show ?thesis by (simp add: q_sync_def sync_copy_def QUEUE_HEADER_SIZE_def h_def Let_def)
qed

lemma holds_length: "holds q xs \<Longrightarrow> 72 + unat (qh_endOffset (q_header q)) \<le> length (mm_bytes (q_mm q))"
  unfolding holds_def by (auto elim!: queue_imageE)

lemma sync_holds:
  assumes "holds q xs"
  shows "\<exists>q'. q_sync q = Inr q' \<and> holds q' xs \<and> q_header q' = updateFileHeaderChecksum (q_header q)
    \<and> mm_bytes (q_mm q') = queue_header_bytes (q_header q') @ queue_header_bytes (q_header q') @ drop 56 (mm_bytes (q_mm q))
    \<and> mm_pageSize (q_mm q') = mm_pageSize (q_mm q)"
proof -
  have l: "56 \<le> length (mm_bytes (q_mm q))" using holds_length [OF assms] by simp
  let ?h = "updateFileHeaderChecksum (q_header q)"
  have "queue_image ((queue_header_bytes ?h @ queue_header_bytes ?h) @ drop 56 (mm_bytes (q_mm q))) ?h xs"
    by (rule queue_image_headers [of _ "q_header q"]) (use assms in \<open>simp_all add: holds_def\<close>)
  then show ?thesis using sync_ok [OF l] assms l by (simp add: holds_def map_ok_def)
qed

section \<open>The operations on the image\<close>

lemma res_bind_eq: "m = Inr x \<Longrightarrow> res_bind m f = f x"
  by simp

text \<open>A record is filled in at an address, where any bytes may have been.\<close>

definition stub :: "u32 \<Rightarrow> u8 list" where
  "stub p = queue_record_bytes \<lparr>qr_preamble = QUEUE_PREAMBLE, qr_checksum = 0, qr_dataSize = 0, qr_toPrev = p\<rparr>"

lemma stub_prev [simp]: "length (stub p) = 16" "qr_toPrev (queue_record_of (stub p)) = p"
  by (simp_all add: stub_def)

lemma resize_image:
  assumes "holds q xs" and "0 < n" and "unat sz = 72 + unat (qh_endOffset (q_header q)) + n" and "unat sz < 2 ^ 61"
  shows "\<exists>A p st R. q\<lparr>q_mm := mm_resize sz (q_mm q)\<rparr>
      = q_with (A @ recs_image (qh_salt (q_header q)) p xs @ st @ R) (q\<lparr>q_mm := (q_mm q)\<lparr>mm_size := sz\<rparr>\<rparr>)
    \<and> length A = 56 + unat (qh_beginOffset (q_header q)) \<and> length st = 16 \<and> qr_toPrev (queue_record_of st) = last_prev p xs
    \<and> n \<le> length R \<and> 72 + unat (qh_endOffset (q_header q)) + length R < 2 ^ 62
    \<and> (\<exists>B. mm_bytes (q_mm q) = A @ recs_image (qh_salt (q_header q)) p xs @ st @ B)"
proof -
  let ?h = "q_header q"
  obtain A p st B where i: "mm_bytes (q_mm q) = A @ recs_image (qh_salt ?h) p xs @ st @ B" "length A = 56 + unat (qh_beginOffset ?h)"
    "length st = 16" "qr_toPrev (queue_record_of st) = last_prev p xs"
    "unat (qh_endOffset ?h) = unat (qh_beginOffset ?h) + recs_size xs"
    using assms(1) unfolding holds_def by (auto elim!: queue_imageE)
  have m: "map_ok (q_mm q)" using assms(1) by (simp add: holds_def)
  let ?C = "A @ recs_image (qh_salt ?h) p xs @ st"
  have C: "length ?C = 72 + unat (qh_endOffset ?h)" "?C = take (length ?C) (mm_bytes (q_mm q))" "length ?C \<le> length (mm_bytes (q_mm q))"
    using i by simp_all
  obtain bs where bs: "mm_resize sz (q_mm q) = (q_mm q)\<lparr>mm_bytes := bs, mm_size := sz\<rparr>" "unat sz \<le> length bs" "length bs < 2 ^ 62"
    "\<And>k. k \<le> length (mm_bytes (q_mm q)) \<Longrightarrow> k \<le> unat sz \<Longrightarrow> take k bs = take k (mm_bytes (q_mm q))"
    using mm_resize_ok [OF m _ assms(4)] assms(3) by auto
  have t: "take (length ?C) bs = ?C" using bs(4) [OF C(3)] C(1) C(2) [symmetric] assms(3) by simp
  let ?R = "drop (length ?C) bs"
  have b: "bs = A @ recs_image (qh_salt ?h) p xs @ st @ ?R" using t append_take_drop_id [of "length ?C" bs] by simp
  have "q\<lparr>q_mm := mm_resize sz (q_mm q)\<rparr> = q_with bs (q\<lparr>q_mm := (q_mm q)\<lparr>mm_size := sz\<rparr>\<rparr>)"
    unfolding bs(1) q_with_def by (cases "q_mm q") simp
  moreover have "n \<le> length ?R" "72 + unat (qh_endOffset ?h) + length ?R < 2 ^ 62" using bs(2,3) C(1) assms(3) by simp_all
  ultimately show ?thesis using b i by metis
qed

lemma fill_record:
  assumes "mm_bytes (q_mm q) = C @ old @ d @ R" and "length old = 16" and "length d = length x" and "16 + length x < 2 ^ 32"
  shows "res_bind (rec_change (length C) qr_init q) (\<lambda>q2.
      res_bind (rec_change (length C) (qr_dataSize_update (\<lambda>_. of_nat (length x))) q2) (\<lambda>q3.
      res_bind (read_at x 0 (unat (of_nat (length x) :: u32))) (\<lambda>ds.
      res_bind (rec_change (length C) (qr_checksum_update (\<lambda>_. calcChecksum ds (qh_salt (q_header q3)))) q3) (F ds))))
    = F x (q_with (C @ queue_record_bytes \<lparr>qr_preamble = QUEUE_PREAMBLE, qr_checksum = calcChecksum x (qh_salt (q_header q)),
        qr_dataSize = of_nat (length x), qr_toPrev = 0\<rparr> @ d @ R) q)"
proof -
  note n = short_size [OF assms(4)]
  have 1: "rec_change (length C) qr_init q = Inr (q_with (C @ queue_record_bytes (qr_init r) @ d @ R) q)" for r
    using rec_change_at [OF assms(1,2) refl] by (simp add: qr_init_def)
  have 2: "rec_change (length C) f (q_with (C @ queue_record_bytes r @ d @ R) q) = Inr (q_with (C @ queue_record_bytes (f r) @ d @ R) q)" for f r
    using rec_change_at [of "q_with (C @ queue_record_bytes r @ d @ R) q" C "queue_record_bytes r" "d @ R" "length C" f] by simp
  show ?thesis using n by (simp add: 1 [of undefined] 2 qr_init_def)
qed

lemma pushBack_ok:
  assumes "holds q xs" and "16 + length x < 2 ^ 32" and "unat (qh_endOffset (q_header q)) + length x < 2 ^ 60"
  shows "\<exists>q' A p st st' B B'. pushBackRaw x (of_nat (length x)) q = Inr q' \<and> holds q' (xs @ [x])
    \<and> q_header q' = (q_header q)\<lparr>qh_endOffset := qh_endOffset (q_header q) + of_nat (16 + length x)\<rparr>
    \<and> mm_pageSize (q_mm q') = mm_pageSize (q_mm q)
    \<and> mm_bytes (q_mm q) = A @ recs_image (qh_salt (q_header q)) p xs @ st @ B
    \<and> mm_bytes (q_mm q') = A @ recs_image (qh_salt (q_header q)) p xs @ st' @ B'
    \<and> length A = 56 + unat (qh_beginOffset (q_header q)) \<and> length st = 16 \<and> length st' = 16
    \<and> qr_toPrev (queue_record_of st) = last_prev p xs \<and> qr_toPrev (queue_record_of st') = last_prev p xs"
proof -
  let ?h = "q_header q" let ?e = "unat (qh_endOffset ?h)" let ?n = "length x"
  let ?sz = "getRequiredFileSize (ucast (of_nat ?n :: u32)) q"
  note n = short_size [OF assms(2)]
  have sz: "unat ?sz = 72 + ?e + (?n + 16)"
    unfolding getRequiredFileSize_def QUEUE_HEADER_SIZE_def using n assms(2,3)
    by (subst unat_add_small; (subst unat_add_small)?; (subst unat_add_small)?; (subst unat_add_small)?; simp)
  obtain A p st R where r: "q\<lparr>q_mm := mm_resize ?sz (q_mm q)\<rparr>
      = q_with (A @ recs_image (qh_salt ?h) p xs @ st @ R) (q\<lparr>q_mm := (q_mm q)\<lparr>mm_size := ?sz\<rparr>\<rparr>)"
    "length A = 56 + unat (qh_beginOffset ?h)" "length st = 16" "qr_toPrev (queue_record_of st) = last_prev p xs"
    "?n + 16 \<le> length R" "72 + ?e + length R < 2 ^ 62"
    "\<exists>B. mm_bytes (q_mm q) = A @ recs_image (qh_salt ?h) p xs @ st @ B"
    using resize_image [OF assms(1) _ sz] sz assms(2,3) by auto
  let ?q = "q\<lparr>q_mm := (q_mm q)\<lparr>mm_size := ?sz\<rparr>\<rparr>"
  let ?C = "A @ recs_image (qh_salt ?h) p xs"
  let ?d = "take ?n R" let ?nx = "take 16 (drop ?n R)" let ?R = "drop (?n + 16) R"
  have R: "R = ?d @ ?nx @ ?R" using append_take_drop_id [of 16 "drop ?n R"] by (simp add: drop_drop add.commute)
  have l: "length ?d = ?n" "length ?nx = 16" using r(5) by simp_all
  have ends: "?e = unat (qh_beginOffset ?h) + recs_size xs" and so: "sizes_ok xs"
    using assms(1) unfolding holds_def by (auto elim!: queue_imageE)
  have C: "length ?C = 56 + ?e" using r(2) ends by simp
  have a: "record_addr (qh_endOffset ?h) = length ?C" using record_addr_length [OF C] .
  let ?r = "\<lambda>p. \<lparr>qr_preamble = QUEUE_PREAMBLE, qr_checksum = calcChecksum x (qh_salt ?h), qr_dataSize = of_nat ?n, qr_toPrev = p\<rparr>"
  let ?q1 = "q_with (?C @ st @ ?d @ ?nx @ ?R) ?q"
  have get: "rec_get (length ?C) ?q1 = Inr (queue_record_of st)"
    by (rule rec_get_at [of _ ?C st "?d @ ?nx @ ?R"]) (simp_all add: r(3))
  let ?q4 = "q_with (?C @ queue_record_bytes (?r 0) @ ?d @ ?nx @ ?R) ?q"
  let ?q5 = "q_with (?C @ queue_record_bytes (?r (last_prev p xs)) @ ?d @ ?nx @ ?R) ?q"
  have c5: "rec_change (length ?C) (qr_toPrev_update (\<lambda>_. last_prev p xs)) ?q4 = Inr ?q5"
    using rec_change_at [of ?q4 ?C "queue_record_bytes (?r 0)" "?d @ ?nx @ ?R" "length ?C"] by simp
  have g5: "rec_get (length ?C) ?q5 = Inr (?r (last_prev p xs))"
    using rec_get_at [of ?q5 ?C "queue_record_bytes (?r (last_prev p xs))" "?d @ ?nx @ ?R" "length ?C"] by simp
  let ?D = "?C @ queue_record_bytes (?r (last_prev p xs))"
  have nx: "qr_nextPtr (length ?C) (?r y) = length (?D @ ?d)" for y
    using n(2) r(5) by (simp add: qr_nextPtr_def qr_totalSize_def qr_headerSize_def)
  have tot: "qr_totalSize (?r y) = 16 + of_nat ?n" for y by (simp add: qr_totalSize_def qr_headerSize_def)
  let ?q6 = "q_with (?D @ ?d @ stub 0 @ ?R) ?q" let ?q7 = "q_with (?D @ ?d @ stub (16 + of_nat ?n) @ ?R) ?q"
  have c6: "rec_change (length (?D @ ?d)) qr_init ?q5 = Inr ?q6"
    using rec_change_at [of ?q5 "?D @ ?d" ?nx ?R "length (?D @ ?d)" qr_init] l by (simp add: qr_init_def stub_def)
  have c7: "rec_change (length (?D @ ?d)) (qr_toPrev_update (\<lambda>_. 16 + of_nat ?n)) ?q6 = Inr ?q7"
    using rec_change_at [of ?q6 "?D @ ?d" "stub 0" ?R "length (?D @ ?d)" "qr_toPrev_update (\<lambda>_. 16 + of_nat ?n)"]
    by (simp add: stub_def)
  let ?q8 = "q_with (?D @ x @ stub (16 + of_nat ?n) @ ?R) ?q"
  have c8: "put_bytes (qr_data (length ?C)) x ?q7 = Inr ?q8"
    using put_bytes_at [of ?q7 ?D ?d "stub (16 + of_nat ?n) @ ?R" x "qr_data (length ?C)"] l by (simp add: qr_data_def qr_headerSize_def)
  let ?h' = "?h\<lparr>qh_endOffset := qh_endOffset ?h + of_nat (16 + ?n)\<rparr>"
  have run: "pushBackRaw x (of_nat ?n) q = Inr (?q8\<lparr>q_header := ?h'\<rparr>)"
  proof -
    have q1: "q\<lparr>q_mm := mm_resize ?sz (q_mm q)\<rparr> = ?q1" unfolding r(1) using R by simp
    have "mm_bytes (q_mm ?q1) = ?C @ st @ ?d @ ?nx @ ?R" by simp
    note fill = fill_record [OF this r(3) l(1) assms(2)]
    show ?thesis
      unfolding pushBackRaw_def Let_def q1
      by (simp only: q_with_simps header_with_map a get res_bind.simps fill r(4) c5 g5 nx c6 tot c7 c8 n(3))
  qed
  let ?q' = "?q8\<lparr>q_header := ?h'\<rparr>"
  have b: "mm_bytes (q_mm ?q') = A @ recs_image (qh_salt ?h) p (xs @ [x]) @ stub (16 + of_nat ?n) @ ?R"
    by (simp add: recs_image_append rec_image_def)
  have e: "unat (qh_endOffset ?h') = ?e + (16 + ?n)"
  proof -
    have "unat (of_nat (16 + ?n) :: u64) = 16 + ?n" by (subst unat_of_nat) (use assms(2) in simp)
    then show ?thesis using assms(2,3) by (simp del: of_nat_add) (subst unat_add_small, simp_all)
  qed
  have "map_ok (q_mm ?q')" using assms(1) r(5,6) C by (simp add: holds_def map_ok_def)
  moreover have "queue_image (mm_bytes (q_mm ?q')) ?h' (xs @ [x])"
    by (rule queue_imageI [of _ A _ p _ "stub (16 + of_nat ?n)" ?R]) (use b r(2) e ends so assms(2) in \<open>simp_all add: sizes_ok_def\<close>)
  ultimately have "holds ?q' (xs @ [x])" using assms(1) by (simp add: holds_def)
  moreover have "mm_bytes (q_mm ?q') = A @ recs_image (qh_salt ?h) p xs @ queue_record_bytes (?r (last_prev p xs)) @ x @ stub (16 + of_nat ?n) @ ?R"
    by simp
  moreover obtain B where "mm_bytes (q_mm q) = A @ recs_image (qh_salt ?h) p xs @ st @ B" using r(7) by blast
  ultimately show ?thesis using run r(2-4)
    by (intro exI [of _ ?q'] exI [of _ A] exI [of _ p] exI [of _ st] exI [of _ "queue_record_bytes (?r (last_prev p xs))"] exI [of _ B]
        exI [of _ "x @ stub (16 + of_nat ?n) @ ?R"]) simp
qed

text \<open>The bytes around one record of the list.\<close>

lemma holdsE:
  assumes "holds q xs"
  obtains A p st B where "mm_bytes (q_mm q) = A @ recs_image (qh_salt (q_header q)) p xs @ st @ B"
    and "length A = 56 + unat (qh_beginOffset (q_header q))"
    and "length st = 16" and "qr_toPrev (queue_record_of st) = last_prev p xs"
    and "unat (qh_endOffset (q_header q)) = unat (qh_beginOffset (q_header q)) + recs_size xs" and "sizes_ok xs"
  using assms unfolding holds_def by (auto elim!: queue_imageE)

lemma holds_change:
  assumes "holds q xs" and "qh_preamble h = qh_preamble (q_header q)" and "queue_image bs h ys"
    and "length bs < 2 ^ 62" and "mm_pageSize m = mm_pageSize (q_mm q)" and "mm_bytes m = bs"
  shows "holds \<lparr>q_header = h, q_mm = m\<rparr> ys"
  using assms by (simp add: holds_def map_ok_def)

definition header_of_rec :: "u32 \<Rightarrow> u32 \<Rightarrow> u8 list \<Rightarrow> QueueRecordHeader" where
  "header_of_rec salt p x = \<lparr>qr_preamble = QUEUE_PREAMBLE, qr_checksum = calcChecksum x salt,
     qr_dataSize = of_nat (length x), qr_toPrev = p\<rparr>"

lemma header_of_rec_simps [simp]:
  "qr_toPrev (header_of_rec salt p x) = p" "qr_dataSize (header_of_rec salt p x) = of_nat (length x)"
  "qr_totalSize (header_of_rec salt p x) = 16 + of_nat (length x)" "qr_isValid (header_of_rec salt p x)"
  "qr_checksum (header_of_rec salt p x) = calcChecksum x salt"
  by (simp_all add: header_of_rec_def qr_totalSize_def qr_headerSize_def qr_isValid_def)

lemma record_in_image:
  assumes "holds q (xs @ x # ys)"
  defines "off \<equiv> qh_beginOffset (q_header q) + of_nat (recs_size xs)"
  shows "unat off = unat (qh_beginOffset (q_header q)) + recs_size xs"
    and "\<exists>p. rec_get (record_addr off) q = Inr (header_of_rec (qh_salt (q_header q)) p x)
      \<and> (xs \<noteq> [] \<longrightarrow> p = 16 + of_nat (length (last xs)))"
    and "read_at (mm_bytes (q_mm q)) (qr_data (record_addr off)) (length x) = Inr x" and "16 + length x < 2 ^ 32"
proof -
  let ?s = "qh_salt (q_header q)"
  obtain A p st B where i: "mm_bytes (q_mm q) = A @ recs_image ?s p (xs @ x # ys) @ st @ B"
    "length A = 56 + unat (qh_beginOffset (q_header q))" "sizes_ok (xs @ x # ys)"
    "unat (qh_endOffset (q_header q)) = unat (qh_beginOffset (q_header q)) + recs_size (xs @ x # ys)" by (rule holdsE [OF assms(1)])
  have lt: "unat (qh_beginOffset (q_header q)) + recs_size xs < 2 ^ 64"
    using i(4) unat_lt64 [of "qh_endOffset (q_header q)"] by (simp del: unat_lt64)
  then have "unat (of_nat (recs_size xs) :: u64) = recs_size xs" by (subst unat_of_nat) simp
  then show off: "unat off = unat (qh_beginOffset (q_header q)) + recs_size xs"
    unfolding off_def using lt by (subst unat_add_small) simp_all
  let ?C = "A @ recs_image ?s p xs"
  let ?r = "header_of_rec ?s (last_prev p xs) x"
  have b: "mm_bytes (q_mm q) = ?C @ queue_record_bytes ?r @ x @ recs_image ?s (16 + of_nat (length x)) ys @ st @ B"
    using i(1) by (simp add: recs_image_append rec_image_def header_of_rec_def)
  have C: "length ?C = 56 + unat off" using i(2) off by simp
  have "rec_get (record_addr off) q = Inr ?r"
    using rec_get_at [OF b _ record_addr_length [OF C]] by simp
  moreover have "last_prev p xs = 16 + of_nat (length (last xs))" if "xs \<noteq> []"
  proof -
    have "xs = butlast xs @ [last xs]" using that by simp
    then show ?thesis using last_prev_append [of p "butlast xs" "last xs"] by simp
  qed
  ultimately show "\<exists>p. rec_get (record_addr off) q = Inr (header_of_rec ?s p x) \<and> (xs \<noteq> [] \<longrightarrow> p = 16 + of_nat (length (last xs)))"
    by blast
  have "qr_data (record_addr off) = length (?C @ queue_record_bytes ?r)"
    using record_addr_length [OF C] by (simp add: qr_data_def qr_headerSize_def)
  then show "read_at (mm_bytes (q_mm q)) (qr_data (record_addr off)) (length x) = Inr x" unfolding b by simp
  show "16 + length x < 2 ^ 32" using i(3) by (simp add: sizes_ok_def)
qed

lemma first_in_image:
  assumes "holds q (x # xs)"
  shows "\<exists>p. rec_get (record_addr (qh_beginOffset (q_header q))) q = Inr (header_of_rec (qh_salt (q_header q)) p x)"
    and "read_at (mm_bytes (q_mm q)) (qr_data (record_addr (qh_beginOffset (q_header q)))) (length x) = Inr x"
    and "16 + length x < 2 ^ 32"
  using record_in_image [of q "[]" x xs] assms by simp_all

text \<open>The record behind the list, whose \<open>toPrev\<close> leads to the last one.\<close>

lemma end_stub:
  assumes "holds q (xs @ [x])"
  shows "\<exists>r. rec_get (record_addr (qh_endOffset (q_header q))) q = Inr r \<and> qr_toPrev r = 16 + of_nat (length x)"
proof -
  obtain A p st B where i: "mm_bytes (q_mm q) = A @ recs_image (qh_salt (q_header q)) p (xs @ [x]) @ st @ B"
    "length A = 56 + unat (qh_beginOffset (q_header q))" "length st = 16" "qr_toPrev (queue_record_of st) = last_prev p (xs @ [x])"
    "unat (qh_endOffset (q_header q)) = unat (qh_beginOffset (q_header q)) + recs_size (xs @ [x])" by (rule holdsE [OF assms])
  let ?C = "A @ recs_image (qh_salt (q_header q)) p (xs @ [x])"
  have C: "length ?C = 56 + unat (qh_endOffset (q_header q))" using i(2,5) by simp
  have b: "mm_bytes (q_mm q) = ?C @ st @ B" using i(1) by simp
  show ?thesis using rec_get_at [OF b i(3) record_addr_length [OF C]] i(4) by simp
qed

lemma popFront_ok:
  assumes "holds q (x # xs)"
  shows "\<exists>q'. q_popFront q = Inr q' \<and> holds q' xs \<and> q_mm q' = q_mm q
    \<and> q_header q' = (q_header q)\<lparr>qh_beginOffset := qh_beginOffset (q_header q) + of_nat (16 + length x)\<rparr>"
proof -
  let ?h = "q_header q" let ?s = "qh_salt ?h"
  note r = first_in_image [OF assms]
  note n = short_size [OF r(3)]
  let ?h' = "?h\<lparr>qh_beginOffset := qh_beginOffset ?h + of_nat (16 + length x)\<rparr>"
  obtain A p st B where i: "mm_bytes (q_mm q) = A @ recs_image ?s p (x # xs) @ st @ B" "length A = 56 + unat (qh_beginOffset ?h)"
    "length st = 16" "qr_toPrev (queue_record_of st) = last_prev p (x # xs)"
    "unat (qh_endOffset ?h) = unat (qh_beginOffset ?h) + recs_size (x # xs)" "sizes_ok (x # xs)" by (rule holdsE [OF assms])
  have "q_popFront q = Inr (q\<lparr>q_header := ?h'\<rparr>)"
    using r(1) q_empty_iff [OF assms] n(3) by (auto simp: q_popFront_def verifyNotEmpty_q_def)
  moreover have u: "unat (qh_beginOffset ?h') = unat (qh_beginOffset ?h) + (16 + length x)"
  proof -
    have "unat (of_nat (16 + length x) :: u64) = 16 + length x" by (subst unat_of_nat) (use r(3) in simp)
    then show ?thesis using i(5) unat_lt64 [of "qh_endOffset ?h"] by (simp del: of_nat_add unat_lt64) (subst unat_add_small, simp_all)
  qed
  have "queue_image (mm_bytes (q_mm q)) ?h' xs"
    by (rule queue_imageI [of _ "A @ rec_image ?s p x" _ "16 + of_nat (length x)" _ st B])
       (use i u in \<open>simp_all add: sizes_ok_def\<close>)
  then have "holds (q\<lparr>q_header := ?h'\<rparr>) xs" using assms by (simp add: holds_def)
  ultimately show ?thesis by (intro exI [of _ "q\<lparr>q_header := ?h'\<rparr>"]) simp
qed

lemma popBack_ok:
  assumes "holds q (xs @ [x])"
  shows "\<exists>q'. q_popBack q = Inr q' \<and> holds q' xs \<and> q_mm q' = q_mm q
    \<and> q_header q' = (q_header q)\<lparr>qh_endOffset := qh_endOffset (q_header q) - of_nat (16 + length x)\<rparr>"
proof -
  let ?h = "q_header q" let ?s = "qh_salt ?h"
  obtain A p st B where i: "mm_bytes (q_mm q) = A @ recs_image ?s p (xs @ [x]) @ st @ B" "length A = 56 + unat (qh_beginOffset ?h)"
    "length st = 16" "qr_toPrev (queue_record_of st) = last_prev p (xs @ [x])"
    "unat (qh_endOffset ?h) = unat (qh_beginOffset ?h) + recs_size (xs @ [x])" "sizes_ok (xs @ [x])" by (rule holdsE [OF assms])
  have sz: "16 + length x < 2 ^ 32" using i(6) by (simp add: sizes_ok_def)
  note n = short_size [OF sz]
  let ?h' = "?h\<lparr>qh_endOffset := qh_endOffset ?h - of_nat (16 + length x)\<rparr>"
  obtain r where "rec_get (record_addr (qh_endOffset ?h)) q = Inr r" "qr_toPrev r = 16 + of_nat (length x)"
    using end_stub [OF assms] by blast
  then have "q_popBack q = Inr (q\<lparr>q_header := ?h'\<rparr>)"
    using q_empty_iff [OF assms] n(3) by (simp add: q_popBack_def verifyNotEmpty_q_def)
  moreover have u: "unat (qh_endOffset ?h') = unat (qh_beginOffset ?h) + recs_size xs"
  proof -
    have "unat (of_nat (16 + length x) :: u64) = 16 + length x" by (subst unat_of_nat) (use sz in simp)
    then show ?thesis using i(5) by (simp del: of_nat_add add: unat_sub_if')
  qed
  let ?hb = "queue_record_bytes (header_of_rec ?s (last_prev p xs) x)"
  have "queue_image (mm_bytes (q_mm q)) ?h' xs"
    by (rule queue_imageI [of _ A _ p _ ?hb "x @ st @ B"])
       (use i u in \<open>simp_all add: sizes_ok_def recs_image_append rec_image_def header_of_rec_def\<close>)
  then have "holds (q\<lparr>q_header := ?h'\<rparr>) xs" using assms by (simp add: holds_def)
  ultimately show ?thesis by (intro exI [of _ "q\<lparr>q_header := ?h'\<rparr>"]) simp
qed

lemma front_ok: "holds q (x # xs) \<Longrightarrow> frontRaw q = Inr x"
proof -
  assume h: "holds q (x # xs)"
  note r = first_in_image [OF h]
  show ?thesis using r q_empty_iff [OF h] short_size(1) [OF r(3)]
    by (auto simp: frontRaw_def verifyNotEmpty_q_def q_assignString_def)
qed

lemma back_ok:
  assumes h: "holds q (xs @ [x])"
  shows "backRaw q = Inr x"
proof -
  let ?h = "q_header q"
  note r = record_in_image [of q xs x "[]", OF h]
  obtain A p st B where i: "unat (qh_endOffset ?h) = unat (qh_beginOffset ?h) + recs_size (xs @ [x])" by (rule holdsE [OF h])
  obtain st where s: "rec_get (record_addr (qh_endOffset ?h)) q = Inr st" "qr_toPrev st = 16 + of_nat (length x)"
    using end_stub [OF h] by blast
  note n = short_size [OF r(4)]
  have "qr_prevPtr (record_addr (qh_endOffset ?h)) st = Inr (record_addr (qh_beginOffset ?h + of_nat (recs_size xs)))"
    using s(2) n(2) i r(1) by (simp add: qr_prevPtr_def record_addr_def QUEUE_HEADER_SIZE_def)
  then show ?thesis using s(1) r(2,3) n(1) q_empty_iff [OF h]
    by (auto simp: backRaw_def verifyNotEmpty_q_def q_assignString_def)
qed

lemma clear_ok:
  assumes "holds q xs"
  shows "\<exists>q'. q_clear q = Inr q' \<and> holds q' [] \<and> q_header q' = (q_header q)\<lparr>qh_beginOffset := qh_endOffset (q_header q)\<rparr>"
proof -
  let ?h = "q_header q" let ?s = "qh_salt ?h" let ?h' = "?h\<lparr>qh_beginOffset := qh_endOffset ?h\<rparr>"
  obtain A p st B where i: "mm_bytes (q_mm q) = A @ recs_image ?s p xs @ st @ B" "length A = 56 + unat (qh_beginOffset ?h)"
    "length st = 16" "unat (qh_endOffset ?h) = unat (qh_beginOffset ?h) + recs_size xs" by (rule holdsE [OF assms])
  let ?C = "A @ recs_image ?s p xs" let ?st = "queue_record_bytes (qr_toPrev_update (\<lambda>_. 0) (queue_record_of st))"
  have C: "length ?C = 56 + unat (qh_endOffset ?h)" using i(2,4) by simp
  have b: "mm_bytes (q_mm (q\<lparr>q_header := ?h'\<rparr>)) = ?C @ st @ B" using i(1) by simp
  let ?q' = "q_with (?C @ ?st @ B) (q\<lparr>q_header := ?h'\<rparr>)"
  have "q_clear q = Inr ?q'" using rec_change_at [OF b i(3) record_addr_length [OF C]] by (simp add: q_clear_def)
  moreover have "queue_image (mm_bytes (q_mm ?q')) ?h' []"
    by (rule queue_imageI [of _ ?C _ 0 _ ?st B]) (use C in \<open>simp_all add: sizes_ok_def\<close>)
  then have "holds ?q' []" using assms i(1,3) by (simp add: holds_def map_ok_def)
  ultimately show ?thesis by (intro exI [of _ ?q']) simp
qed

section \<open>Adding in front\<close>

lemma image_set_prev:
  assumes "recs_image s p zs @ st @ B = old @ R" and "length old = 16" and "length st = 16" and "qr_toPrev (queue_record_of st) = last_prev p zs"
  shows "\<exists>st'. queue_record_bytes (qr_toPrev_update (\<lambda>_. t) (queue_record_of old)) @ R = recs_image s t zs @ st' @ B
    \<and> length st' = 16 \<and> qr_toPrev (queue_record_of st') = last_prev t zs"
proof (cases zs)
  case Nil
  then have "old = st" "R = B" using assms(1-3) by (simp_all add: append_eq_append_conv)
  then show ?thesis using Nil by (intro exI [of _ "queue_record_bytes (qr_toPrev_update (\<lambda>_. t) (queue_record_of st))"]) simp
next
  case (Cons y ys)
  have "queue_record_bytes (header_of_rec s p y) @ (y @ recs_image s (16 + of_nat (length y)) ys @ st @ B) = old @ R"
    using assms(1) Cons by (simp add: rec_image_def header_of_rec_def)
  then have "queue_record_bytes (header_of_rec s p y) = old" "y @ recs_image s (16 + of_nat (length y)) ys @ st @ B = R"
    using append_eq_append_conv [of "queue_record_bytes (header_of_rec s p y)" old] assms(2) by simp_all
  then show ?thesis using Cons assms(3,4) by (intro exI [of _ st]) (auto simp: rec_image_def header_of_rec_def)
qed

lemma append_same_length: "X @ Y = A @ Z \<Longrightarrow> length X = length A \<Longrightarrow> Y = Z"
  by simp

text \<open>Without moving the records, whatever list a header with that begin describes.\<close>

lemma pushFront_room:
  assumes "16 + length x < 2 ^ 32" and "16 + length x \<le> unat (qh_beginOffset (q_header q))"
    and "72 + unat (qh_beginOffset (q_header q)) \<le> length (mm_bytes (q_mm q))"
  shows "\<exists>bs. pushFrontRaw x (of_nat (length x)) q
      = Inr (q_with bs (q\<lparr>q_header := (q_header q)\<lparr>qh_beginOffset := qh_beginOffset (q_header q) - of_nat (16 + length x)\<rparr>\<rparr>))
    \<and> length bs = length (mm_bytes (q_mm q)) \<and> take 56 bs = take 56 (mm_bytes (q_mm q))
    \<and> (\<forall>h zs. qh_salt h = qh_salt (q_header q) \<longrightarrow> qh_beginOffset h = qh_beginOffset (q_header q)
        \<longrightarrow> queue_image (mm_bytes (q_mm q)) h zs
        \<longrightarrow> queue_image bs (h\<lparr>qh_beginOffset := qh_beginOffset h - of_nat (16 + length x)\<rparr>) (x # zs))"
proof -
  let ?h = "q_header q" let ?b = "qh_beginOffset ?h" let ?n = "length x" let ?s = "qh_salt ?h" let ?m = "mm_bytes (q_mm q)"
  let ?k = "56 + unat ?b - (16 + ?n)"
  note n = short_size [OF assms(1)]
  have tot: "unat (of_nat (16 + ?n) :: u64) = 16 + ?n" by (subst unat_of_nat) (use assms(1) in simp)
  have b': "unat (?b - of_nat (16 + ?n)) = unat ?b - (16 + ?n)" using tot assms(2) by (simp del: of_nat_add add: unat_sub_if')
  let ?A = "take ?k ?m" let ?o = "take 16 (drop ?k ?m)" let ?d = "take ?n (drop (?k + 16) ?m)"
  let ?o2 = "take 16 (drop (56 + unat ?b) ?m)" let ?R = "drop (72 + unat ?b) ?m"
  have k: "?k + 16 + ?n = 56 + unat ?b" "?k + (16 + ?n) = 56 + unat ?b" using assms(2) by simp_all
  have m: "?m = ?A @ ?o @ ?d @ ?o2 @ ?R"
  proof -
    have "drop (?k + 16) ?m = ?d @ drop (56 + unat ?b) ?m"
      using append_take_drop_id [of ?n "drop (?k + 16) ?m"] k by (simp add: drop_drop add.commute)
    moreover have "drop ?k ?m = ?o @ drop (?k + 16) ?m"
      using append_take_drop_id [of 16 "drop ?k ?m"] by (simp add: drop_drop add.commute)
    moreover have "drop (56 + unat ?b) ?m = ?o2 @ ?R"
      using append_take_drop_id [of 16 "drop (56 + unat ?b) ?m"] by (simp add: drop_drop add.commute)
    ultimately show ?thesis using append_take_drop_id [of ?k ?m] by simp
  qed
  have l: "length ?A = ?k" "length ?o = 16" "length ?d = ?n" "length ?o2 = 16" using assms(2,3) k by simp_all
  have pa: "record_addr (?b - of_nat (16 + ?n)) = length ?A" using b' l(1) assms(2) by (simp del: of_nat_add add: record_addr_def QUEUE_HEADER_SIZE_def)
  have aa: "record_addr ?b = length ?A + 16 + ?n" using l(1) k by (simp add: record_addr_def QUEUE_HEADER_SIZE_def)
  let ?rb = "queue_record_bytes (header_of_rec ?s 0 x)"
  let ?o3 = "queue_record_bytes (qr_toPrev_update (\<lambda>_. 16 + of_nat ?n) (queue_record_of ?o2))"
  let ?q4 = "q_with (?A @ ?rb @ ?d @ ?o2 @ ?R) q" let ?q5 = "q_with (?A @ ?rb @ x @ ?o2 @ ?R) q"
  let ?bs = "?A @ ?rb @ x @ ?o3 @ ?R"
  have q: "q = q_with (?A @ ?o @ ?d @ ?o2 @ ?R) q" using m by (metis q_with_simps(6))
  note fill = fill_record [OF m l(2,3) assms(1), folded header_of_rec_def]
  have c5: "put_bytes (qr_data (length ?A)) x ?q4 = Inr ?q5"
    using put_bytes_at [of ?q4 "?A @ ?rb" ?d "?o2 @ ?R" x "qr_data (length ?A)"] l(3) by (simp add: qr_data_def qr_headerSize_def)
  have c6: "rec_change (length ?A + 16 + ?n) (qr_toPrev_update (\<lambda>_. 16 + of_nat ?n)) ?q5 = Inr (q_with ?bs q)"
    using rec_change_at [of ?q5 "?A @ ?rb @ x" ?o2 ?R "length ?A + 16 + ?n"] l(4) by simp
  have res: "reserveFrontSpace (of_nat (16 + ?n)) q = Inr q"
    using assms(2) tot by (simp del: of_nat_add add: reserveFrontSpace_def word_le_nat_alt)
  let ?h' = "?h\<lparr>qh_beginOffset := ?b - of_nat (16 + ?n)\<rparr>"
  have "pushFrontRaw x (of_nat ?n) q = Inr (q_with ?bs (q\<lparr>q_header := ?h'\<rparr>))"
  proof -
    have "(q_with ?bs q)\<lparr>q_header := ?h'\<rparr> = q_with ?bs (q\<lparr>q_header := ?h'\<rparr>)" by (simp add: q_with_def)
    then show ?thesis unfolding pushFrontRaw_def Let_def n(3) res res_bind.simps pa aa fill c5 q_with_simps
      by (simp only: res_bind.simps c5 c6 q_with_simps)
  qed
  moreover have "length ?bs = length ?m" using arg_cong [OF m, of length] l by simp
  moreover have "take 56 ?bs = take 56 ?m"
  proof -
    have k56: "56 \<le> ?k" using assms(2) by simp
    have "take 56 (?A @ X) = take 56 ?A" for X using k56 by (simp only: take_append l(1)) simp
    from this [of "?rb @ x @ ?o3 @ ?R"] show ?thesis unfolding take_take min_absorb1 [OF k56] .
  qed
  moreover have "queue_image ?bs (h\<lparr>qh_beginOffset := qh_beginOffset h - of_nat (16 + ?n)\<rparr>) (x # zs)"
    if h: "qh_salt h = ?s" "qh_beginOffset h = ?b" "queue_image ?m h zs" for h zs
  proof -
    obtain A p st B where i: "?m = A @ recs_image (qh_salt h) p zs @ st @ B" "length A = 56 + unat (qh_beginOffset h)"
      "length st = 16" "qr_toPrev (queue_record_of st) = last_prev p zs"
      "unat (qh_endOffset h) = unat (qh_beginOffset h) + recs_size zs" "sizes_ok zs" by (rule queue_imageE [OF h(3)])
    have e: "(?A @ ?o @ ?d) @ (?o2 @ ?R) = A @ (recs_image (qh_salt h) p zs @ st @ B)"
      using m i(1) unfolding append_assoc by (rule trans [OF sym])
    have "length (?A @ ?o @ ?d) = length A" unfolding length_append l i(2) h(2) by (rule k(2))
    from append_same_length [OF e this] have "?o2 @ ?R = recs_image (qh_salt h) p zs @ st @ B" .
    then obtain st' where st': "?o3 @ ?R = recs_image (qh_salt h) (16 + of_nat ?n) zs @ st' @ B" "length st' = 16"
      "qr_toPrev (queue_record_of st') = last_prev (16 + of_nat ?n) zs"
      using image_set_prev [of "qh_salt h" p zs st B ?o2 ?R "16 + of_nat ?n"] l(4) i(3,4) by metis
    show ?thesis
      by (rule queue_imageI [of _ ?A _ 0 _ st' B])
        (use st' i(5,6) assms(1,2) b' l(1) h(1,2) in \<open>simp_all del: of_nat_add add: sizes_ok_def rec_image_def header_of_rec_def\<close>)
  qed
  ultimately show ?thesis by (intro exI [of _ ?bs]) blast
qed

section \<open>Moving the records\<close>

lemma overwrite_left: "off + length s \<le> length A \<Longrightarrow> overwrite (A @ B) off s = overwrite A off s @ B"
  by (simp add: overwrite_def)

lemma overwrite_right: "length A \<le> off \<Longrightarrow> overwrite (A @ B) off s = A @ overwrite B (off - length A) s"
  by (simp add: overwrite_def)

lemma move_records_ok:
  assumes "queue_image (mm_bytes (q_mm q)) (q_header q) xs" and "unat len = 16 + recs_size xs"
    and "56 + unat dst + unat len \<le> length (mm_bytes (q_mm q))"
  shows "\<exists>bs. move_records dst (qh_beginOffset (q_header q)) len q = Inr (q_with bs q) \<and> length bs = length (mm_bytes (q_mm q))
    \<and> take 56 bs = take 56 (mm_bytes (q_mm q))
    \<and> (\<forall>h. qh_salt h = qh_salt (q_header q) \<longrightarrow> qh_beginOffset h = dst \<longrightarrow> unat (qh_endOffset h) = unat dst + recs_size xs
        \<longrightarrow> queue_image bs h xs)
    \<and> (unat dst + unat len \<le> unat (qh_beginOffset (q_header q)) \<or> 16 + unat (qh_endOffset (q_header q)) \<le> unat dst
        \<longrightarrow> queue_image bs (q_header q) xs)"
proof -
  let ?h = "q_header q" let ?m = "mm_bytes (q_mm q)"
  obtain A p st B where i: "?m = A @ recs_image (qh_salt ?h) p xs @ st @ B" "length A = 56 + unat (qh_beginOffset ?h)"
    "length st = 16" "qr_toPrev (queue_record_of st) = last_prev p xs"
    "unat (qh_endOffset ?h) = unat (qh_beginOffset ?h) + recs_size xs" "sizes_ok xs" by (rule queue_imageE [OF assms(1)])
  let ?I = "recs_image (qh_salt ?h) p xs" let ?d = "56 + unat dst" let ?bs = "overwrite ?m ?d (?I @ st)"
  have rd: "read_at ?m (record_addr (qh_beginOffset ?h)) (unat len) = Inr (?I @ st)"
    using i(1,3) assms(2) record_addr_length [OF i(2)] by simp
  have fit: "?d + length (?I @ st) \<le> length ?m" using assms(2,3) i(3) by simp
  then have "write_at ?m (record_addr dst) (?I @ st) = Inr ?bs" by (simp add: record_addr_def QUEUE_HEADER_SIZE_def)
  then have "move_records dst (qh_beginOffset ?h) len q = Inr (q_with ?bs q)" using rd by (simp add: move_records_def put_bytes_def q_with_def)
  moreover have "length ?bs = length ?m" using fit by simp
  moreover have "take 56 ?bs = take 56 ?m" using fit by (simp add: overwrite_def)
  moreover have "queue_image ?bs h xs"
    if "qh_salt h = qh_salt ?h" "qh_beginOffset h = dst" "unat (qh_endOffset h) = unat dst + recs_size xs" for h
    by (rule queue_imageI [of _ "take ?d ?m" _ p _ st "drop (?d + length (?I @ st)) ?m"])
      (use that i(3,4,6) fit in \<open>simp_all add: overwrite_def\<close>)
  moreover have "queue_image ?bs ?h xs" if "unat dst + unat len \<le> unat (qh_beginOffset ?h)"
  proof -
    have f: "?d + length (?I @ st) \<le> length A" using that assms(2) i(2,3) by simp
    have "?bs = overwrite A ?d (?I @ st) @ ?I @ st @ B" unfolding i(1) by (rule overwrite_left [OF f])
    then show ?thesis
      by (rule queue_imageI) (use i(2-6) f in \<open>simp_all add: overwrite_def\<close>)
  qed
  moreover have "queue_image ?bs ?h xs" if "16 + unat (qh_endOffset ?h) \<le> unat dst"
  proof -
    have f: "length (A @ ?I @ st) \<le> ?d" using that i(2,3,5) by simp
    have "?bs = (A @ ?I @ st) @ overwrite B (?d - length (A @ ?I @ st)) (?I @ st)"
      using overwrite_right [OF f, of B "?I @ st"] i(1) by simp
    then have "?bs = A @ ?I @ st @ overwrite B (?d - length (A @ ?I @ st)) (?I @ st)" by simp
    then show ?thesis by (rule queue_imageI) (use i(2-6) in simp_all)
  qed
  ultimately show ?thesis by blast
qed

lemma resize_holds:
  assumes "holds q xs" and "0 < n" and "unat sz = 72 + unat (qh_endOffset (q_header q)) + n" and "unat sz < 2 ^ 61"
  shows "holds (q\<lparr>q_mm := mm_resize sz (q_mm q)\<rparr>) xs" and "unat sz \<le> length (mm_bytes (mm_resize sz (q_mm q)))"
    and "take 56 (mm_bytes (mm_resize sz (q_mm q))) = take 56 (mm_bytes (q_mm q))"
    and "mm_pageSize (mm_resize sz (q_mm q)) = mm_pageSize (q_mm q)"
proof -
  let ?h = "q_header q"
  have i: "unat (qh_endOffset ?h) = unat (qh_beginOffset ?h) + recs_size xs" "sizes_ok xs"
    using assms(1) unfolding holds_def by (auto elim!: queue_imageE)
  obtain A p st R B where r: "q\<lparr>q_mm := mm_resize sz (q_mm q)\<rparr>
      = q_with (A @ recs_image (qh_salt ?h) p xs @ st @ R) (q\<lparr>q_mm := (q_mm q)\<lparr>mm_size := sz\<rparr>\<rparr>)"
    "length A = 56 + unat (qh_beginOffset ?h)" "length st = 16" "qr_toPrev (queue_record_of st) = last_prev p xs"
    "n \<le> length R" "72 + unat (qh_endOffset ?h) + length R < 2 ^ 62" "mm_bytes (q_mm q) = A @ recs_image (qh_salt ?h) p xs @ st @ B"
    using resize_image [OF assms] by blast
  from arg_cong [OF r(1), of q_mm] have b: "mm_bytes (mm_resize sz (q_mm q)) = A @ recs_image (qh_salt ?h) p xs @ st @ R"
    "mm_pageSize (mm_resize sz (q_mm q)) = mm_pageSize (q_mm q)" by (simp_all add: q_with_def)
  show "mm_pageSize (mm_resize sz (q_mm q)) = mm_pageSize (q_mm q)" by (rule b(2))
  have "queue_image (mm_bytes (mm_resize sz (q_mm q))) ?h xs"
    by (rule queue_imageI [OF b(1)]) (use r(2-4) i in simp_all)
  then show "holds (q\<lparr>q_mm := mm_resize sz (q_mm q)\<rparr>) xs"
    using assms(1) b r(2,3,6) i(1) by (simp add: holds_def map_ok_def)
  show "unat sz \<le> length (mm_bytes (mm_resize sz (q_mm q)))" using b(1) r(2,3,5) i(1) assms(3) by simp
  show "take 56 (mm_bytes (mm_resize sz (q_mm q))) = take 56 (mm_bytes (q_mm q))" unfolding b(1) r(7) using r(2) by simp
qed

text \<open>What both movers do: the copy, a synchronisation, the new header and another synchronisation.\<close>

lemma move_and_sync:
  assumes "holds q xs" and "unat len = 16 + recs_size xs" and "56 + unat dst + unat len \<le> length (mm_bytes (q_mm q))"
    and "unat e = unat dst + recs_size xs"
  shows "\<exists>q2 q3 q4. move_records dst (qh_beginOffset (q_header q)) len q = Inr q2 \<and> q_sync q2 = Inr q3
    \<and> q_sync (q3\<lparr>q_header := (q_header q3)\<lparr>qh_beginOffset := dst, qh_endOffset := e\<rparr>\<rparr>) = Inr q4
    \<and> holds q4 xs \<and> qh_beginOffset (q_header q4) = dst \<and> qh_endOffset (q_header q4) = e
    \<and> qh_salt (q_header q4) = qh_salt (q_header q)
    \<and> (\<exists>rest. mm_bytes (q_mm q4) = queue_header_bytes (q_header q4) @ queue_header_bytes (q_header q4) @ rest)
    \<and> isValidFileHeader (q_header q4) \<and> mm_pageSize (q_mm q4) = mm_pageSize (q_mm q)"
proof -
  have im: "queue_image (mm_bytes (q_mm q)) (q_header q) xs" and mo: "map_ok (q_mm q)"
    and pr: "qh_preamble (q_header q) = QUEUE_PREAMBLE" using assms(1) by (simp_all add: holds_def)
  obtain bs where bs: "move_records dst (qh_beginOffset (q_header q)) len q = Inr (q_with bs q)" "length bs = length (mm_bytes (q_mm q))"
    "\<forall>h. qh_salt h = qh_salt (q_header q) \<longrightarrow> qh_beginOffset h = dst \<longrightarrow> unat (qh_endOffset h) = unat dst + recs_size xs \<longrightarrow> queue_image bs h xs"
    using move_records_ok [OF im assms(2,3)] by blast
  let ?h3 = "updateFileHeaderChecksum (q_header q)" let ?hb = "queue_header_bytes ?h3 @ queue_header_bytes ?h3"
  let ?q3 = "q_with (?hb @ drop 56 bs) ((q_with bs q)\<lparr>q_header := ?h3\<rparr>)"
  have l: "56 \<le> length bs" using bs(2) assms(3) by simp
  have s3: "q_sync (q_with bs q) = Inr ?q3" using sync_ok [of "q_with bs q"] l by simp
  let ?h' = "?h3\<lparr>qh_beginOffset := dst, qh_endOffset := e\<rparr>"
  have img: "queue_image bs ?h' xs" using bs(3) assms(4) by simp
  have "queue_image (?hb @ drop 56 bs) ?h' xs" by (rule queue_image_headers [OF img]) simp_all
  then have "holds (?q3\<lparr>q_header := ?h'\<rparr>) xs" using mo pr bs(2) l by (simp add: holds_def map_ok_def q_with_def)
  from sync_holds [OF this] obtain q4 where q4: "q_sync (?q3\<lparr>q_header := ?h'\<rparr>) = Inr q4" "holds q4 xs"
    "q_header q4 = updateFileHeaderChecksum ?h'" "mm_pageSize (q_mm q4) = mm_pageSize (q_mm q)"
    "mm_bytes (q_mm q4) = queue_header_bytes (q_header q4) @ queue_header_bytes (q_header q4) @ drop 56 (?hb @ drop 56 bs)"
    by (auto simp: q_with_def)
  have "isValidFileHeader (q_header q4)" unfolding q4(3) by (rule updated_header_valid) (simp add: pr)
  moreover have "q_header ?q3 = ?h3" by simp
  ultimately show ?thesis using bs(1) s3 q4 by (intro exI [of _ "q_with bs q"] exI [of _ ?q3] exI [of _ q4]) auto
qed

text \<open>A header that is in the file, twice, where opening finds it.\<close>

definition saved :: "queue_file \<Rightarrow> QueueFileHeader \<Rightarrow> bool" where
  "saved q h \<longleftrightarrow> isValidFileHeader h \<and> (\<exists>rest. mm_bytes (q_mm q) = queue_header_bytes h @ queue_header_bytes h @ rest)"

lemma sync_saved:
  assumes "holds q xs"
  shows "\<exists>q'. q_sync q = Inr q' \<and> holds q' xs \<and> saved q' (q_header q') \<and> mm_pageSize (q_mm q') = mm_pageSize (q_mm q)
    \<and> qh_beginOffset (q_header q') = qh_beginOffset (q_header q) \<and> qh_endOffset (q_header q') = qh_endOffset (q_header q)
    \<and> qh_salt (q_header q') = qh_salt (q_header q) \<and> length (mm_bytes (q_mm q')) = length (mm_bytes (q_mm q))"
proof -
  obtain q' where q': "q_sync q = Inr q'" "holds q' xs" "q_header q' = updateFileHeaderChecksum (q_header q)"
    "mm_bytes (q_mm q') = queue_header_bytes (q_header q') @ queue_header_bytes (q_header q') @ drop 56 (mm_bytes (q_mm q))"
    "mm_pageSize (q_mm q') = mm_pageSize (q_mm q)" using sync_holds [OF assms] by blast
  have "isValidFileHeader (q_header q')" unfolding q'(3) by (rule updated_header_valid) (use assms in \<open>simp add: holds_def\<close>)
  then have "saved q' (q_header q')" using q'(4) by (auto simp: saved_def)
  moreover have "length (mm_bytes (q_mm q')) = length (mm_bytes (q_mm q))" using q'(4) holds_length [OF assms] by simp
  ultimately show ?thesis using q' by auto
qed

lemma saved_take:
  assumes "saved q h" and "take 56 bs = take 56 (mm_bytes (q_mm q))"
  shows "\<exists>rest. bs = queue_header_bytes h @ queue_header_bytes h @ rest"
proof -
  obtain rest where r: "mm_bytes (q_mm q) = queue_header_bytes h @ queue_header_bytes h @ rest" using assms(1) by (auto simp: saved_def)
  have "take 56 bs = queue_header_bytes h @ queue_header_bytes h" unfolding assms(2) r by simp
  then show ?thesis using append_take_drop_id [of 56 bs] by (metis append_assoc)
qed

lemma end_plus:
  assumes "holds q xs"
  shows "unat (qh_endOffset (q_header q) + 16) = unat (qh_endOffset (q_header q)) + 16"
    and "qh_beginOffset (q_header q) \<le> qh_endOffset (q_header q) + 16"
    and "unat (qh_endOffset (q_header q) + 16 - qh_beginOffset (q_header q)) = 16 + recs_size xs"
proof -
  have e: "unat (qh_endOffset (q_header q)) = unat (qh_beginOffset (q_header q)) + recs_size xs"
    using assms by (auto elim: holdsE)
  have "length (mm_bytes (q_mm q)) < 2 ^ 62" using assms by (simp add: holds_def map_ok_def)
  then have lt: "unat (qh_endOffset (q_header q)) < 2 ^ 62" using holds_length [OF assms] by simp
  show u: "unat (qh_endOffset (q_header q) + 16) = unat (qh_endOffset (q_header q)) + 16"
    by (subst unat_add_small) (use lt in simp_all)
  show "qh_beginOffset (q_header q) \<le> qh_endOffset (q_header q) + 16" unfolding word_le_nat_alt u using e by simp
  show "unat (qh_endOffset (q_header q) + 16 - qh_beginOffset (q_header q)) = 16 + recs_size xs"
    using u e by (simp add: unat_sub_if')
qed

lemma unat_minus_stub: "unat (w :: u64) = 16 + n \<Longrightarrow> unat (w - 16) = n"
  by (simp add: unat_sub_if')

lemma gc_ok:
  assumes "holds q xs" and "unat (qh_endOffset (q_header q)) < 2 ^ 59"
  shows "\<exists>q'. q_gc q = Inr q' \<and> holds q' xs \<and> unat (qh_endOffset (q_header q')) \<le> unat (qh_endOffset (q_header q))
    \<and> mm_pageSize (q_mm q') = mm_pageSize (q_mm q)
    \<and> (16 + recs_size xs \<le> unat (qh_beginOffset (q_header q)) \<longrightarrow> qh_beginOffset (q_header q') = 0)"
proof -
  let ?h = "q_header q" let ?b = "qh_beginOffset ?h" let ?len = "qh_endOffset ?h + 16 - ?b"
  note e = end_plus [OF assms(1)]
  have efin: "unat (qh_endOffset ?h) = unat ?b + recs_size xs" using assms(1) by (auto elim: holdsE)
  show ?thesis
  proof (cases "?b < ?len")
    case True
    then have "unat ?b < 16 + recs_size xs" using e(3) by (simp add: word_less_nat_alt)
    then show ?thesis using True e(2) assms(1) by (simp add: q_gc_def Let_def)
  next
    case False
    obtain q1 where q1: "q_sync q = Inr q1" "holds q1 xs" "mm_pageSize (q_mm q1) = mm_pageSize (q_mm q)" "qh_beginOffset (q_header q1) = ?b"
      "qh_endOffset (q_header q1) = qh_endOffset ?h" "length (mm_bytes (q_mm q1)) = length (mm_bytes (q_mm q))"
      using sync_saved [OF assms(1)] by blast
    have fit: "56 + unat (0 :: u64) + unat ?len \<le> length (mm_bytes (q_mm q1))"
      using holds_length [OF assms(1)] e(3) efin q1(6) by simp
    have el: "unat (?len - 16) = unat (0 :: u64) + recs_size xs" using unat_minus_stub [OF e(3)] by simp
    obtain q2 q3 q4 where m: "move_records 0 (qh_beginOffset (q_header q1)) ?len q1 = Inr q2" "q_sync q2 = Inr q3"
      "q_sync (q3\<lparr>q_header := (q_header q3)\<lparr>qh_beginOffset := 0, qh_endOffset := ?len - 16\<rparr>\<rparr>) = Inr q4"
      "holds q4 xs" "qh_beginOffset (q_header q4) = 0" "qh_endOffset (q_header q4) = ?len - 16" "mm_pageSize (q_mm q4) = mm_pageSize (q_mm q1)"
      using move_and_sync [OF q1(2) e(3) fit el] by blast
    let ?sz = "getRequiredFileSize 0 q4"
    have e4: "unat (qh_endOffset (q_header q4)) \<le> unat (qh_endOffset ?h)" using m(6) el efin by simp
    have sz: "unat ?sz = 72 + unat (qh_endOffset (q_header q4)) + 16"
      unfolding getRequiredFileSize_def QUEUE_HEADER_SIZE_def using e4 assms(2)
      by (subst unat_add_small; (subst unat_add_small)?; (subst unat_add_small)?; (subst unat_add_small)?; simp)
    have lt: "unat ?sz < 2 ^ 61" using sz e4 assms(2) by simp
    let ?q5 = "q4\<lparr>q_mm := mm_resize ?sz (q_mm q4)\<rparr>"
    have h5: "holds ?q5 xs" by (rule resize_holds(1) [OF m(4) _ sz lt]) simp
    have p5: "mm_pageSize (q_mm ?q5) = mm_pageSize (q_mm q4)" using resize_holds(4) [OF m(4) _ sz lt] by simp
    obtain q' where q': "q_sync ?q5 = Inr q'" "holds q' xs" "mm_pageSize (q_mm q') = mm_pageSize (q_mm ?q5)"
      "qh_beginOffset (q_header q') = qh_beginOffset (q_header ?q5)" "qh_endOffset (q_header q') = qh_endOffset (q_header ?q5)"
      using sync_saved [OF h5] by blast
    have "q_gc q = Inr q'" using False e(2) q1(1,4) m(1-3) q'(1) by (simp add: q_gc_def Let_def)
    then show ?thesis using q'(2-5) e4 p5 m(5,7) q1(3) by (intro exI [of _ q']) simp
  qed
qed

lemma reserveFrontSpace_ok:
  assumes "holds q xs" and "unat (qh_endOffset (q_header q)) + unat sz < 2 ^ 59"
  shows "\<exists>q'. reserveFrontSpace sz q = Inr q' \<and> holds q' xs \<and> unat sz \<le> unat (qh_beginOffset (q_header q'))
    \<and> qh_salt (q_header q') = qh_salt (q_header q) \<and> mm_pageSize (q_mm q') = mm_pageSize (q_mm q)
    \<and> (q' = q \<or> saved q' (q_header q') \<and> unat (qh_beginOffset (q_header q)) < unat sz
         \<and> unat (qh_beginOffset (q_header q')) = max (unat (qh_endOffset (q_header q)) + 16) (unat sz))"
proof -
  let ?h = "q_header q" let ?b = "qh_beginOffset ?h" let ?fin = "qh_endOffset ?h + 16" let ?len = "?fin - ?b" let ?new = "max ?fin sz"
  note e = end_plus [OF assms(1)]
  have efin: "unat (qh_endOffset ?h) = unat ?b + recs_size xs" using assms(1) by (auto elim: holdsE)
  show ?thesis
  proof (cases "sz \<le> ?b")
    case True
    then show ?thesis using assms(1) by (simp add: reserveFrontSpace_def word_le_nat_alt)
  next
    case False
    have new: "unat ?new = max (unat (qh_endOffset ?h) + 16) (unat sz)" using e(1) by (auto simp: max_def word_le_nat_alt)
    obtain q1 where q1: "q_sync q = Inr q1" "holds q1 xs" "mm_pageSize (q_mm q1) = mm_pageSize (q_mm q)" "qh_beginOffset (q_header q1) = ?b"
      "qh_endOffset (q_header q1) = qh_endOffset ?h" "qh_salt (q_header q1) = qh_salt ?h"
      using sync_saved [OF assms(1)] by blast
    let ?sz = "of_nat QUEUE_HEADER_SIZE * 2 + ?new + ?len"
    let ?n = "unat ?new + recs_size xs - unat (qh_endOffset ?h)"
    have n: "0 < ?n" using new by simp
    have nl: "unat ?new < 2 ^ 59 + 16" using new assms(2) by simp
    have sz: "unat ?sz = 72 + unat (qh_endOffset (q_header q1)) + ?n"
      unfolding QUEUE_HEADER_SIZE_def q1(5) using e(3) new nl efin assms(2)
      by (subst unat_add_small; (subst unat_add_small)?; simp)
    have lt: "unat ?sz < 2 ^ 61" unfolding sz q1(5) using nl efin assms(2) by simp
    let ?q2 = "q1\<lparr>q_mm := mm_resize ?sz (q_mm q1)\<rparr>"
    have q2: "holds ?q2 xs" "unat ?sz \<le> length (mm_bytes (q_mm ?q2))" "mm_pageSize (q_mm ?q2) = mm_pageSize (q_mm q1)"
      using resize_holds [OF q1(2) n sz lt] by simp_all
    have fit: "56 + unat ?new + unat ?len \<le> length (mm_bytes (q_mm ?q2))"
      using q2(2) sz e(3) new q1(5) by simp
    have el: "unat (?new + ?len - 16) = unat ?new + recs_size xs"
    proof -
      have "unat (?new + ?len) = 16 + (unat ?new + recs_size xs)"
        using e(3) nl efin assms(2) by (subst unat_add_small) simp_all
      then show ?thesis by (rule unat_minus_stub)
    qed
    obtain q3 q4 q5 where m: "move_records ?new (qh_beginOffset (q_header ?q2)) ?len ?q2 = Inr q3" "q_sync q3 = Inr q4"
      "q_sync (q4\<lparr>q_header := (q_header q4)\<lparr>qh_beginOffset := ?new, qh_endOffset := ?new + ?len - 16\<rparr>\<rparr>) = Inr q5"
      "holds q5 xs" "qh_beginOffset (q_header q5) = ?new" "qh_salt (q_header q5) = qh_salt (q_header ?q2)"
      "mm_pageSize (q_mm q5) = mm_pageSize (q_mm ?q2)" "isValidFileHeader (q_header q5)"
      "\<exists>rest. mm_bytes (q_mm q5) = queue_header_bytes (q_header q5) @ queue_header_bytes (q_header q5) @ rest"
      using move_and_sync [OF q2(1) e(3) fit el] by metis
    have "reserveFrontSpace sz q = Inr q5" using False e(2) q1(1,4) m(1-3) by (simp add: reserveFrontSpace_def Let_def)
    moreover have "saved q5 (q_header q5)" using m(8,9) by (auto simp: saved_def)
    moreover have "unat sz \<le> unat ?new" using new by simp
    ultimately show ?thesis using m(4-7) q1(3,6) q2(3) new False
      by (intro exI [of _ q5]) (simp add: word_less_nat_alt not_le)
  qed
qed

lemma reserve_again: "unat sz \<le> unat (qh_beginOffset (q_header q)) \<Longrightarrow> reserveFrontSpace sz q = Inr q"
  by (simp add: reserveFrontSpace_def word_le_nat_alt)

text \<open>Adding in front first makes room and then finds it.\<close>

lemma pushFront_ok:
  assumes "holds q xs" and "16 + length x < 2 ^ 32" and "unat (qh_endOffset (q_header q)) + length x < 2 ^ 58"
  shows "\<exists>q1 q'. reserveFrontSpace (of_nat (16 + length x)) q = Inr q1 \<and> holds q1 xs
    \<and> (q1 = q \<or> saved q1 (q_header q1) \<and> unat (qh_beginOffset (q_header q)) < 16 + length x
         \<and> unat (qh_beginOffset (q_header q1)) = max (unat (qh_endOffset (q_header q)) + 16) (16 + length x))
    \<and> 16 + length x \<le> unat (qh_beginOffset (q_header q1)) \<and> pushFrontRaw x (of_nat (length x)) q1 = Inr q'
    \<and> pushFrontRaw x (of_nat (length x)) q = Inr q' \<and> holds q' (x # xs)
    \<and> unat (qh_beginOffset (q_header q')) = unat (qh_beginOffset (q_header q1)) - (16 + length x) \<and> mm_pageSize (q_mm q') = mm_pageSize (q_mm q)"
proof -
  let ?t = "of_nat (16 + length x) :: u64"
  have tot: "unat ?t = 16 + length x" by (subst unat_of_nat) (use assms(2) in simp)
  have bd: "unat (qh_endOffset (q_header q)) + unat ?t < 2 ^ 59" unfolding tot using assms(3) by simp
  obtain q1 where q1: "reserveFrontSpace ?t q = Inr q1" "holds q1 xs" "16 + length x \<le> unat (qh_beginOffset (q_header q1))"
    "qh_salt (q_header q1) = qh_salt (q_header q)" "mm_pageSize (q_mm q1) = mm_pageSize (q_mm q)" "q1 = q \<or> saved q1 (q_header q1) \<and> unat (qh_beginOffset (q_header q)) < 16 + length x
         \<and> unat (qh_beginOffset (q_header q1)) = max (unat (qh_endOffset (q_header q)) + 16) (16 + length x)"
    using reserveFrontSpace_ok [OF assms(1) bd] unfolding tot by blast
  note room = q1(3)
  have rt: "unat ?t \<le> unat (qh_beginOffset (q_header q1))" unfolding tot by (rule room)
  have e1: "unat (qh_endOffset (q_header q1)) = unat (qh_beginOffset (q_header q1)) + recs_size xs"
    using q1(2) by (auto elim: holdsE)
  have len: "72 + unat (qh_beginOffset (q_header q1)) \<le> length (mm_bytes (q_mm q1))" using holds_length [OF q1(2)] e1 by simp
  obtain bs where p: "pushFrontRaw x (of_nat (length x)) q1
      = Inr (q_with bs (q1\<lparr>q_header := (q_header q1)\<lparr>qh_beginOffset := qh_beginOffset (q_header q1) - ?t\<rparr>\<rparr>))"
    "length bs = length (mm_bytes (q_mm q1))"
    "\<forall>h zs. qh_salt h = qh_salt (q_header q1) \<longrightarrow> qh_beginOffset h = qh_beginOffset (q_header q1)
        \<longrightarrow> queue_image (mm_bytes (q_mm q1)) h zs \<longrightarrow> queue_image bs (h\<lparr>qh_beginOffset := qh_beginOffset h - ?t\<rparr>) (x # zs)"
    using pushFront_room [OF assms(2) room len] by blast
  let ?q' = "q_with bs (q1\<lparr>q_header := (q_header q1)\<lparr>qh_beginOffset := qh_beginOffset (q_header q1) - ?t\<rparr>\<rparr>)"
  have "holds ?q' (x # xs)" using q1(2) p(2,3) by (simp add: holds_def map_ok_def)
  moreover have "pushFrontRaw x (of_nat (length x)) q = pushFrontRaw x (of_nat (length x)) q1"
    unfolding pushFrontRaw_def Let_def short_size(3) [OF assms(2)] q1(1) reserve_again [OF rt] by simp
  moreover have "unat (qh_beginOffset (q_header ?q')) = unat (qh_beginOffset (q_header q1)) - (16 + length x)"
    using rt tot by (simp del: of_nat_add add: unat_sub_if')
  ultimately show ?thesis using q1 p(1) by (intro exI [of _ q1] exI [of _ ?q']) simp
qed

end
