(* ===== verification/Queue_File_Steps.thy ===== *)
theory Queue_File_Steps
  imports Queue_File_Laws
begin

text \<open>
  Whole lives of a queue file: creating and opening, sequences of operations as operations on a list,
  the bound on its growth, and what is found after a crash.
\<close>

section \<open>Creating and opening\<close>

lemma open_map:
  assumes "0 < length bs" and "length bs < 2 ^ 62"
  shows "mm_open pg 0 bs = Inr \<lparr>mm_bytes = bs, mm_size = of_nat (length bs), mm_pageSize = pg\<rparr>"
proof -
  have "unat (of_nat (length bs) :: u64) = length bs" by (subst unat_of_nat) (use assms in simp)
  then have "(of_nat (length bs) :: u64) \<noteq> 0" using assms(1) by (metis unat_0 less_numeral_extra(3))
  then show ?thesis by (simp add: mm_open_def)
qed

definition page_ok :: "u64 \<Rightarrow> bool" where
  "page_ok pg \<longleftrightarrow> 0 < unat pg \<and> unat pg \<le> 2 ^ 30"

text \<open>The first of the two headers that is valid counts.\<close>

lemma open_ok:
  assumes "queue_image bs h xs" and "isValidFileHeader h" and "page_ok pg" and "length bs < 2 ^ 62"
    and "bs = queue_header_bytes h @ rest \<or> (\<exists>t. bs = t @ queue_header_bytes h @ rest \<and> length t = 28 \<and> \<not> isValidFileHeader (queue_header_of t))"
  shows "\<exists>q. q_open pg h0 bs = Inr q \<and> holds q xs \<and> saved q (q_header q) \<and> mm_pageSize (q_mm q) = pg
    \<and> qh_beginOffset (q_header q) = qh_beginOffset h \<and> qh_endOffset (q_header q) = qh_endOffset h
    \<and> qh_salt (q_header q) = qh_salt h"
proof -
  have l: "72 \<le> length bs" using assms(1) by (auto elim!: queue_imageE)
  let ?q = "\<lambda>h. \<lparr>q_header = h, q_mm = \<lparr>mm_bytes = bs, mm_size = of_nat (length bs), mm_pageSize = pg\<rparr>\<rparr>"
  have m: "mm_open pg 0 bs = Inr (q_mm (?q h))" using open_map [OF _ assms(4)] l by (cases bs) simp_all
  have h: "holds (?q h) xs"
    using assms(1-4) by (simp add: holds_def map_ok_def page_ok_def isValidFileHeader_def split: if_splits)
  from sync_saved [OF this] obtain q' where q': "q_sync (?q h) = Inr q'" "holds q' xs" "saved q' (q_header q')"
    "mm_pageSize (q_mm q') = pg" "qh_beginOffset (q_header q') = qh_beginOffset h" "qh_endOffset (q_header q') = qh_endOffset h"
    "qh_salt (q_header q') = qh_salt h" by auto
  have "q_init_loop 2 0 (?q h0) = q_sync (?q h)"
    using assms(5)
  proof (elim disjE exE conjE)
    assume "bs = queue_header_bytes h @ rest"
    then show ?thesis using assms(2) by (simp add: numeral_2_eq_2 QUEUE_HEADER_SIZE_def)
  next
    fix t
    assume "bs = t @ queue_header_bytes h @ rest" "length t = 28" "\<not> isValidFileHeader (queue_header_of t)"
    then show ?thesis using assms(2) by (simp add: numeral_2_eq_2 QUEUE_HEADER_SIZE_def)
  qed
  then have "q_open pg h0 bs = Inr q'" using m q'(1) by (simp add: q_open_def q_init_def)
  then show ?thesis using q' by blast
qed

lemma create_ok:
  assumes "page_ok pg"
  shows "\<exists>q. q_create pg rand h [] = Inr q \<and> holds q [] \<and> saved q (q_header q) \<and> mm_pageSize (q_mm q) = pg
    \<and> qh_beginOffset (q_header q) = 0 \<and> qh_salt (q_header q) = rand"
proof -
  let ?m = "\<lparr>mm_bytes = [], mm_size = 72, mm_pageSize = pg\<rparr>"
  have "map_ok ?m" "0 < unat (mm_size ?m)" "unat (mm_size ?m) < 2 ^ 61" using assms by (simp_all add: map_ok_def page_ok_def)
  from adjustFileSize_ok [OF this] obtain bs where bs: "adjustFileSize ?m = (mm_calcFileSize ?m, ?m\<lparr>mm_bytes := bs\<rparr>)"
    "72 \<le> length bs" "length bs < 2 ^ 62" "length bs = unat (mm_calcFileSize ?m)" by auto
  then have ne: "mm_calcFileSize ?m \<noteq> 0" by auto
  have op: "mm_open pg (of_nat QUEUE_HEADER_SIZE * 2 + 16) [] = Inr (?m\<lparr>mm_bytes := bs\<rparr>)"
    using bs(1) ne by (simp add: mm_open_def QUEUE_HEADER_SIZE_def)
  let ?h = "h\<lparr>qh_preamble := QUEUE_PREAMBLE, qh_salt := rand, qh_beginOffset := 0, qh_endOffset := 0\<rparr>"
  let ?q = "\<lparr>q_header = ?h, q_mm = ?m\<lparr>mm_bytes := bs\<rparr>\<rparr>"
  let ?A = "take 56 bs" let ?o = "take 16 (drop 56 bs)" let ?B = "drop 72 bs"
  have b: "bs = ?A @ ?o @ ?B"
    using append_take_drop_id [of 56 bs] append_take_drop_id [of 16 "drop 56 bs"] by (simp add: drop_drop add.commute)
  have l: "length ?A = 56" "length ?o = 16" using bs(2) by simp_all
  let ?r = "qr_init (queue_record_of ?o)"
  have c: "rec_change (record_addr 0) qr_init ?q = Inr (q_with (?A @ queue_record_bytes ?r @ ?B) ?q)"
    by (rule rec_change_at) (use b l in \<open>simp_all add: record_addr_def QUEUE_HEADER_SIZE_def\<close>)
  have "queue_image (?A @ queue_record_bytes ?r @ ?B) ?h []"
    by (rule queue_imageI [of _ ?A _ 0 _ "queue_record_bytes ?r" ?B]) (use l in \<open>simp_all add: sizes_ok_def qr_init_def\<close>)
  moreover have "length (?A @ queue_record_bytes ?r @ ?B) < 2 ^ 62" using bs(2,3) l by simp
  ultimately have "holds (q_with (?A @ queue_record_bytes ?r @ ?B) ?q) []" using assms
    by (simp add: holds_def map_ok_def page_ok_def)
  from sync_saved [OF this] show ?thesis using c op by (auto simp: q_create_def q_init_def)
qed

section \<open>Operations and their meaning on lists\<close>

datatype queue_op = Push_Back "u8 list" | Push_Front "u8 list" | Pop_Front | Pop_Back | Clear | Gc | Sync | Reopen

text \<open>Closing is synchronising; the new object begins with any header.\<close>

definition q_reopen :: "queue_file \<Rightarrow> queue_file res" where
  "q_reopen q = res_bind (q_sync q) (\<lambda>q1. q_open (mm_pageSize (q_mm q)) (q_header q) (mm_bytes (q_mm q1)))"

fun queue_step :: "queue_op \<Rightarrow> queue_file \<Rightarrow> queue_file res" where
  "queue_step (Push_Back x) q = pushBackRaw x (of_nat (length x)) q"
| "queue_step (Push_Front x) q = pushFrontRaw x (of_nat (length x)) q"
| "queue_step Pop_Front q = q_popFront q"
| "queue_step Pop_Back q = q_popBack q"
| "queue_step Clear q = q_clear q"
| "queue_step Gc q = q_gc q"
| "queue_step Sync q = q_sync q"
| "queue_step Reopen q = q_reopen q"

fun list_step :: "queue_op \<Rightarrow> u8 list list \<Rightarrow> u8 list list res" where
  "list_step (Push_Back x) xs = Inr (xs @ [x])"
| "list_step (Push_Front x) xs = Inr (x # xs)"
| "list_step Pop_Front xs = (if xs = [] then Inl (Exception ''popFront:empty'') else Inr (tl xs))"
| "list_step Pop_Back xs = (if xs = [] then Inl (Exception ''popBack:empty'') else Inr (butlast xs))"
| "list_step Clear xs = Inr []"
| "list_step Gc xs = Inr xs"
| "list_step Sync xs = Inr xs"
| "list_step Reopen xs = Inr xs"

fun run_ops :: "('o \<Rightarrow> 's \<Rightarrow> 's res) \<Rightarrow> 'o list \<Rightarrow> 's \<Rightarrow> 's res" where
  "run_ops step [] s = Inr s"
| "run_ops step (p # ps) s = res_bind (step p s) (run_ops step ps)"

fun op_bytes :: "queue_op \<Rightarrow> nat" where
  "op_bytes (Push_Back x) = 16 + length x"
| "op_bytes (Push_Front x) = 16 + length x"
| "op_bytes _ = 0"

definition ops_bytes :: "queue_op list \<Rightarrow> nat" where
  "ops_bytes ps = sum_list (map op_bytes ps)"

text \<open>
  The file does not grow without bound: of \<open>S\<close> bytes that were ever pushed, \<open>P\<close> were popped in front, and the
  offset of the first record is at most \<open>3 S + P + 16\<close>.
\<close>

definition bounded :: "nat \<Rightarrow> nat \<Rightarrow> queue_file \<Rightarrow> u8 list list \<Rightarrow> bool" where
  "bounded S P q xs \<longleftrightarrow> unat (qh_beginOffset (q_header q)) \<le> 3 * S + 16 + P \<and> recs_size xs + P \<le> S"

lemma holds_end: "holds q xs \<Longrightarrow> unat (qh_endOffset (q_header q)) = unat (qh_beginOffset (q_header q)) + recs_size xs"
  by (auto elim: holdsE)

lemma recs_size_butlast: "recs_size (butlast xs) \<le> recs_size xs"
  by (induction xs) auto

lemma step_ok:
  assumes "holds q xs" and "bounded S P q xs" and "op_bytes p < 2 ^ 32" and "S + op_bytes p < 2 ^ 55"
  shows "case list_step p xs of Inl e \<Rightarrow> queue_step p q = Inl e
    | Inr ys \<Rightarrow> \<exists>q' P'. queue_step p q = Inr q' \<and> holds q' ys \<and> bounded (S + op_bytes p) P' q' ys
        \<and> mm_pageSize (q_mm q') = mm_pageSize (q_mm q)"
proof -
  note e = holds_end [OF assms(1)]
  have b: "unat (qh_beginOffset (q_header q)) \<le> 3 * S + 16 + P" "recs_size xs + P \<le> S" using assms(2) by (simp_all add: bounded_def)
  have pg: "page_ok (mm_pageSize (q_mm q))" using assms(1) by (simp add: holds_def map_ok_def page_ok_def)
  show ?thesis
  proof (cases p)
    case (Push_Back x)
    have s: "16 + length x < 2 ^ 32" "unat (qh_endOffset (q_header q)) + length x < 2 ^ 60" using Push_Back assms(3,4) b e by simp_all
    obtain q' where "pushBackRaw x (of_nat (length x)) q = Inr q'" "holds q' (xs @ [x])"
      "q_header q' = (q_header q)\<lparr>qh_endOffset := qh_endOffset (q_header q) + of_nat (16 + length x)\<rparr>"
      "mm_pageSize (q_mm q') = mm_pageSize (q_mm q)" using pushBack_ok [OF assms(1) s] by blast
    then show ?thesis using Push_Back b by (auto simp: bounded_def intro!: exI [of _ P])
  next
    case (Push_Front x)
    have s: "16 + length x < 2 ^ 32" "unat (qh_endOffset (q_header q)) + length x < 2 ^ 58" using Push_Front assms(3,4) b e by simp_all
    obtain q1 q' where q': "holds q1 xs" "q1 = q \<or> saved q1 (q_header q1) \<and> unat (qh_beginOffset (q_header q)) < 16 + length x
        \<and> unat (qh_beginOffset (q_header q1)) = max (unat (qh_endOffset (q_header q)) + 16) (16 + length x)"
      "pushFrontRaw x (of_nat (length x)) q = Inr q'" "holds q' (x # xs)"
      "unat (qh_beginOffset (q_header q')) = unat (qh_beginOffset (q_header q1)) - (16 + length x)" "mm_pageSize (q_mm q') = mm_pageSize (q_mm q)"
      using pushFront_ok [OF assms(1) s] by blast
    have "bounded (S + op_bytes p) P q' (x # xs)" using q'(2,5) b e Push_Front by (auto simp: bounded_def)
    then show ?thesis using Push_Front q'(3,4,6) by auto
  next
    case Pop_Front
    show ?thesis
    proof (cases xs)
      case Nil
      then show ?thesis using Pop_Front q_empty_iff [OF assms(1)] by (simp add: q_popFront_def verifyNotEmpty_q_def)
    next
      case (Cons x ys)
      have h: "holds q (x # ys)" using assms(1) Cons by simp
      obtain q' where q': "q_popFront q = Inr q'" "holds q' ys" "q_mm q' = q_mm q"
        "q_header q' = (q_header q)\<lparr>qh_beginOffset := qh_beginOffset (q_header q) + of_nat (16 + length x)\<rparr>"
        using popFront_ok [OF h] by blast
      have "unat (qh_beginOffset (q_header q')) + recs_size ys = unat (qh_beginOffset (q_header q)) + recs_size xs"
        using holds_end [OF q'(2)] e q'(4) by simp
      then have "bounded S (P + (16 + length x)) q' ys" using b Cons by (simp add: bounded_def)
      then show ?thesis using Pop_Front Cons q' by auto
    qed
  next
    case Pop_Back
    show ?thesis
    proof (cases xs rule: rev_cases)
      case Nil
      then show ?thesis using Pop_Back q_empty_iff [OF assms(1)] by (simp add: q_popBack_def verifyNotEmpty_q_def)
    next
      case (snoc ys x)
      have h: "holds q (ys @ [x])" using assms(1) snoc by simp
      obtain q' where q': "q_popBack q = Inr q'" "holds q' ys" "q_mm q' = q_mm q"
        "q_header q' = (q_header q)\<lparr>qh_endOffset := qh_endOffset (q_header q) - of_nat (16 + length x)\<rparr>"
        using popBack_ok [OF h] by blast
      then have "bounded S P q' ys" using b snoc by (simp add: bounded_def)
      then show ?thesis using Pop_Back snoc q' by auto
    qed
  next
    case Clear
    obtain q' where q': "q_clear q = Inr q'" "holds q' []" "q_header q' = (q_header q)\<lparr>qh_beginOffset := qh_endOffset (q_header q)\<rparr>"
      using clear_ok [OF assms(1)] by blast
    have "mm_pageSize (q_mm q') = mm_pageSize (q_mm q)"
      using q'(1) by (auto simp: q_clear_def Let_def rec_change_def rec_get_def put_bytes_def res_bind_Inr_iff)
    then show ?thesis using Clear q' b e by (auto simp: bounded_def intro!: exI [of _ "P + recs_size xs"])
  next
    case Gc
    have "unat (qh_endOffset (q_header q)) < 2 ^ 59" using assms(4) b e Gc by simp
    from gc_ok [OF assms(1) this] obtain q' where q': "q_gc q = Inr q'" "holds q' xs"
      "unat (qh_endOffset (q_header q')) \<le> unat (qh_endOffset (q_header q))" "mm_pageSize (q_mm q') = mm_pageSize (q_mm q)" by blast
    have "bounded S P q' xs" using holds_end [OF q'(2)] q'(3) e b by (simp add: bounded_def)
    then show ?thesis using Gc q' by auto
  next
    case Sync
    then show ?thesis using sync_saved [OF assms(1)] b by (auto simp: bounded_def)
  next
    case Reopen
    obtain q1 where q1: "q_sync q = Inr q1" "holds q1 xs" "saved q1 (q_header q1)"
      "qh_beginOffset (q_header q1) = qh_beginOffset (q_header q)" using sync_saved [OF assms(1)] by blast
    obtain rest where r: "mm_bytes (q_mm q1) = queue_header_bytes (q_header q1) @ queue_header_bytes (q_header q1) @ rest" "isValidFileHeader (q_header q1)"
      using q1(3) by (auto simp: saved_def)
    have im: "queue_image (mm_bytes (q_mm q1)) (q_header q1) xs" "length (mm_bytes (q_mm q1)) < 2 ^ 62"
      using q1(2) by (simp_all add: holds_def map_ok_def)
    from open_ok [OF im(1) r(2) pg im(2) disjI1 [OF r(1)]] obtain q' where
      "q_open (mm_pageSize (q_mm q)) (q_header q) (mm_bytes (q_mm q1)) = Inr q'" "holds q' xs"
      "mm_pageSize (q_mm q') = mm_pageSize (q_mm q)" "qh_beginOffset (q_header q') = qh_beginOffset (q_header q1)" by blast
    then show ?thesis using Reopen q1(1,4) b by (auto simp: q_reopen_def bounded_def)
  qed
qed

section \<open>The check of all records\<close>

lemma word_off: "unat (off :: u64) = unat off' \<longleftrightarrow> off = off'"
  by (simp add: unat_eq_iff_nat)

lemma next_off:
  assumes "holds q (us @ x # xs)"
  shows "qh_beginOffset (q_header q) + of_nat (recs_size us) + ucast (16 + of_nat (length x) :: u32)
    = qh_beginOffset (q_header q) + of_nat (recs_size (us @ [x]))"
  using short_size(3) [OF record_in_image(4) [OF assms]] by (simp add: add.assoc)

lemma verifyRec_ok:
  assumes "holds q (us @ x # xs)"
  defines "off \<equiv> qh_beginOffset (q_header q) + of_nat (recs_size us)"
  shows "\<exists>p. rec_get (record_addr off) q = Inr (header_of_rec (qh_salt (q_header q)) p x)
    \<and> (us \<noteq> [] \<longrightarrow> p = 16 + of_nat (length (last us)))
    \<and> verifyRec (record_addr off) (header_of_rec (qh_salt (q_header q)) p x) q = Inr ()"
proof -
  note r = record_in_image [OF assms(1)]
  show ?thesis using r(2,3) short_size(1) [OF r(4)] unfolding off_def by (auto simp: verifyRec_def qr_verify_def)
qed

lemma verify_forward_ok:
  assumes "holds q (us @ xs)"
  shows "verify_forward q (qh_beginOffset (q_header q) + of_nat (recs_size us)) = Some (Inr ())"
  using assms
proof (induction xs arbitrary: us)
  case Nil
  have "unat (qh_endOffset (q_header q)) = unat (qh_beginOffset (q_header q)) + recs_size us" using holds_end [OF Nil] by simp
  then have "qh_endOffset (q_header q) = qh_beginOffset (q_header q) + of_nat (recs_size us)"
    by (metis of_nat_add of_nat_unat ucast_id)
  then show ?case by (subst verify_forward.simps) simp
next
  case (Cons x xs)
  let ?off = "qh_beginOffset (q_header q) + of_nat (recs_size us)"
  have "?off < qh_endOffset (q_header q)"
    using holds_end [OF Cons.prems] record_in_image(1) [OF Cons.prems] by (simp add: word_less_nat_alt)
  moreover have "verify_forward q (?off + ucast (16 + of_nat (length x) :: u32)) = Some (Inr ())"
    unfolding next_off [OF Cons.prems] using Cons.IH [of "us @ [x]"] Cons.prems by simp
  ultimately show ?case using verifyRec_ok [OF Cons.prems] by (subst verify_forward.simps) auto
qed

lemma any_end_stub:
  assumes "holds q xs"
  shows "\<exists>r. rec_get (record_addr (qh_endOffset (q_header q))) q = Inr r \<and> (xs \<noteq> [] \<longrightarrow> qr_toPrev r = 16 + of_nat (length (last xs)))"
proof (cases xs rule: rev_cases)
  case Nil
  obtain A p st B where i: "mm_bytes (q_mm q) = A @ recs_image (qh_salt (q_header q)) p xs @ st @ B"
    "length A = 56 + unat (qh_beginOffset (q_header q))" "length st = 16"
    "unat (qh_endOffset (q_header q)) = unat (qh_beginOffset (q_header q)) + recs_size xs" by (rule holdsE [OF assms])
  have b: "mm_bytes (q_mm q) = A @ st @ B" "length A = 56 + unat (qh_endOffset (q_header q))" using i Nil by simp_all
  show ?thesis using rec_get_at [OF b(1) i(3) record_addr_length [OF b(2)]] Nil by simp
next
  case (snoc ys x)
  then show ?thesis using end_stub [of q ys x] assms by auto
qed

lemma verify_backward_step:
  assumes "rec_get (record_addr off) q = Inr r" and "off \<noteq> qh_endOffset (q_header q) \<Longrightarrow> verifyRec (record_addr off) r q = Inr ()"
    and "off \<noteq> qh_beginOffset (q_header q)" and "qr_toPrev r = t" and "verify_backward q (off - ucast t) = Some (Inr ())"
  shows "verify_backward q off = Some (Inr ())"
  using assms by (subst verify_backward.simps) simp

lemma verify_backward_ok:
  assumes "holds q (xs @ ys)"
  shows "verify_backward q (qh_beginOffset (q_header q) + of_nat (recs_size xs)) = Some (Inr ())"
  using assms
proof (induction xs arbitrary: ys rule: rev_induct)
  case Nil
  let ?b = "qh_beginOffset (q_header q)"
  show ?case
  proof (cases ys)
    case Nil
    then have "?b = qh_endOffset (q_header q)" using holds_end [OF Nil.prems] by (simp add: unat_eq_iff_nat)
    then show ?thesis using any_end_stub [OF Nil.prems] by (subst verify_backward.simps) auto
  next
    case (Cons y ys')
    then show ?thesis using verifyRec_ok [of q "[]" y ys'] Nil.prems by (subst verify_backward.simps) auto
  qed
next
  case (snoc x us)
  let ?b = "qh_beginOffset (q_header q)" let ?off = "?b + of_nat (recs_size (us @ [x]))"
  have h: "holds q (us @ x # ys)" using snoc.prems by simp
  note n = next_off [OF h]
  have IH: "verify_backward q (?off - ucast (16 + of_nat (length x) :: u32)) = Some (Inr ())"
    unfolding n [symmetric] using snoc.IH [of "x # ys"] h by simp
  have u: "unat ?off = unat ?b + recs_size (us @ [x])"
  proof (cases ys)
    case Nil
    have "unat (qh_endOffset (q_header q)) = unat ?b + recs_size (us @ [x])" using holds_end [OF h] Nil by simp
    then have "qh_endOffset (q_header q) = ?off" by (metis of_nat_add of_nat_unat ucast_id)
    then show ?thesis using holds_end [OF h] Nil by simp
  next
    case (Cons y ys')
    then show ?thesis using record_in_image(1) [of q "us @ [x]" y ys'] h by simp
  qed
  then have ne: "?off \<noteq> ?b" by auto
  show ?case
  proof (cases ys)
    case Nil
    have "unat (qh_endOffset (q_header q)) = unat ?b + recs_size (us @ [x])" using holds_end [OF h] Nil by simp
    then have e: "qh_endOffset (q_header q) = ?off" by (metis of_nat_add of_nat_unat ucast_id)
    obtain r where r: "rec_get (record_addr ?off) q = Inr r" "qr_toPrev r = 16 + of_nat (length x)"
      using any_end_stub [OF h] Nil unfolding e by auto
    show ?thesis by (rule verify_backward_step [OF r(1) _ ne r(2) IH]) (use e in simp)
  next
    case (Cons y ys')
    obtain p where p: "rec_get (record_addr ?off) q = Inr (header_of_rec (qh_salt (q_header q)) p y)"
      "p = 16 + of_nat (length x)" "verifyRec (record_addr ?off) (header_of_rec (qh_salt (q_header q)) p y) q = Inr ()"
      using verifyRec_ok [of q "us @ [x]" y ys'] h Cons by auto
    show ?thesis by (rule verify_backward_step [OF p(1) p(3) ne _ IH]) (use p(2) in simp)
  qed
qed

lemma verifyAll_ok:
  assumes "holds q xs"
  shows "verifyAll q = Some (Inr ())"
proof -
  have "verify_forward q (qh_beginOffset (q_header q)) = Some (Inr ())" using verify_forward_ok [of q "[]" xs] assms by simp
  moreover have "qh_endOffset (q_header q) = qh_beginOffset (q_header q) + of_nat (recs_size xs)"
    using holds_end [OF assms] by (metis of_nat_add of_nat_unat ucast_id)
  then have "verify_backward q (qh_endOffset (q_header q)) = Some (Inr ())" using verify_backward_ok [of q xs "[]"] assms by simp
  ultimately show ?thesis by (simp add: verifyAll_def)
qed

section \<open>Sequences of operations\<close>

lemma run_ok:
  assumes "holds q xs" and "bounded S P q xs" and "\<forall>p \<in> set ps. op_bytes p < 2 ^ 32" and "S + ops_bytes ps < 2 ^ 55"
  shows "case run_ops list_step ps xs of Inl e \<Rightarrow> run_ops queue_step ps q = Inl e
    | Inr ys \<Rightarrow> \<exists>q' P'. run_ops queue_step ps q = Inr q' \<and> holds q' ys \<and> bounded (S + ops_bytes ps) P' q' ys
        \<and> mm_pageSize (q_mm q') = mm_pageSize (q_mm q)"
  using assms
proof (induction ps arbitrary: q xs S P)
  case Nil
  then show ?case by (auto simp: ops_bytes_def)
next
  case (Cons p ps)
  have b: "op_bytes p < 2 ^ 32" "S + op_bytes p < 2 ^ 55" "\<forall>p \<in> set ps. op_bytes p < 2 ^ 32"
    "(S + op_bytes p) + ops_bytes ps < 2 ^ 55" "ops_bytes (p # ps) = op_bytes p + ops_bytes ps"
    using Cons.prems(3,4) by (simp_all add: ops_bytes_def)
  note s = step_ok [OF Cons.prems(1,2) b(1,2)]
  show ?case
  proof (cases "list_step p xs")
    case (Inl e)
    then show ?thesis using s by simp
  next
    case (Inr ys)
    obtain q1 P1 where q1: "queue_step p q = Inr q1" "holds q1 ys" "bounded (S + op_bytes p) P1 q1 ys"
      "mm_pageSize (q_mm q1) = mm_pageSize (q_mm q)" using s Inr by auto
    show ?thesis using Cons.IH [OF q1(2,3) b(3,4)] q1(1,4) Inr b(5) by (simp add: add.assoc split: sum.splits)
  qed
qed

text \<open>What can be asked of a queue.\<close>

definition answers :: "queue_file \<Rightarrow> u8 list list \<Rightarrow> bool" where
  "answers q xs \<longleftrightarrow> (q_empty q \<longleftrightarrow> xs = [])
     \<and> frontRaw q = (if xs = [] then Inl (Exception ''frontRaw:empty'') else Inr (hd xs))
     \<and> backRaw q = (if xs = [] then Inl (Exception ''backRaw:empty'') else Inr (last xs))
     \<and> verifyAll q = Some (Inr ())"

lemma holds_answers: "holds q xs \<Longrightarrow> answers q xs"
proof -
  assume h: "holds q xs"
  have "frontRaw q = Inr (hd xs)" if "xs \<noteq> []" using front_ok [of q "hd xs" "tl xs"] h that by simp
  moreover have "backRaw q = Inr (last xs)" if "xs \<noteq> []" using back_ok [of q "butlast xs" "last xs"] h that by simp
  moreover have "frontRaw q = Inl (Exception ''frontRaw:empty'')" "backRaw q = Inl (Exception ''backRaw:empty'')" if "xs = []"
    using q_empty_iff [OF h] that by (simp_all add: frontRaw_def backRaw_def verifyNotEmpty_q_def)
  ultimately show ?thesis using q_empty_iff [OF h] verifyAll_ok [OF h] by (auto simp: answers_def)
qed

text \<open>
  C12: A queue file is a list: any sequence of operations on a new file, closing and opening it among them, fails
  exactly where the operations on the list fail, with the same exception, and otherwise leaves a file that answers
  \<open>empty\<close>, \<open>front\<close> and \<open>back\<close> as the list does and passes the check of all its records. However the operations are mixed, the
  file is not larger than about four times the bytes that were pushed.
\<close>

theorem queue_file_refines:
  assumes "page_ok pg" and "\<forall>p \<in> set ps. op_bytes p < 2 ^ 32" and "ops_bytes ps < 2 ^ 54"
  shows "\<exists>q. q_create pg rand h [] = Inr q \<and>
    (case run_ops list_step ps [] of Inl e \<Rightarrow> run_ops queue_step ps q = Inl e
     | Inr xs \<Rightarrow> \<exists>q'. run_ops queue_step ps q = Inr q' \<and> answers q' xs
         \<and> unat (qh_endOffset (q_header q')) \<le> 4 * ops_bytes ps + 16)"
proof -
  obtain q where q: "q_create pg rand h [] = Inr q" "holds q []" "qh_beginOffset (q_header q) = 0"
    using create_ok [OF assms(1)] by blast
  have b: "bounded 0 0 q []" using q(3) by (simp add: bounded_def)
  have "0 + ops_bytes ps < 2 ^ 55" using assms(3) by simp
  from run_ok [OF q(2) b assms(2) this, unfolded add_0] have "case run_ops list_step ps [] of Inl e \<Rightarrow> run_ops queue_step ps q = Inl e
      | Inr ys \<Rightarrow> \<exists>q' P'. run_ops queue_step ps q = Inr q' \<and> holds q' ys \<and> bounded (ops_bytes ps) P' q' ys
          \<and> mm_pageSize (q_mm q') = mm_pageSize (q_mm q)" .
  moreover have "unat (qh_endOffset (q_header q')) \<le> 4 * ops_bytes ps + 16" if "holds q' ys" "bounded (ops_bytes ps) P' q' ys" for q' ys P'
    using holds_end [OF that(1)] that(2) by (simp add: bounded_def)
  ultimately show ?thesis using q(1) holds_answers by (fastforce split: sum.splits)
qed

definition blank_header :: QueueFileHeader where
  "blank_header = \<lparr>qh_preamble = 0, qh_checksum = 0, qh_salt = 0, qh_beginOffset = 0, qh_endOffset = 0\<rparr>"

theorem queue_file_refines_witness:
  "\<exists>q q'. q_create 4096 7 blank_header [] = Inr q
    \<and> run_ops queue_step [Push_Back [1], Push_Front [2, 3], Gc, Reopen, Push_Front [4], Pop_Back, Sync] q = Inr q'
    \<and> answers q' [[4], [2, 3]] \<and> run_ops queue_step [Push_Back [1], Clear, Pop_Front, Sync] q = Inl (Exception ''popFront:empty'')"
  using queue_file_refines [of 4096 "[Push_Back [1], Push_Front [2, 3], Gc, Reopen, Push_Front [4], Pop_Back, Sync]" 7 blank_header]
    queue_file_refines [of 4096 "[Push_Back [1], Clear, Pop_Front, Sync]" 7 blank_header]
  by (auto simp: page_ok_def ops_bytes_def)

section \<open>Crashes\<close>

text \<open>
  The storage server adds in front and removes at the back. What it has not synchronised does not overwrite
  the records of the saved header: from the present begin to the saved end there are records \<open>us @ ys\<close>, of
  which the present list \<open>xs\<close> is the beginning and the saved one \<open>ys\<close> the end.
\<close>

definition durable :: "queue_file \<Rightarrow> u8 list list \<Rightarrow> QueueFileHeader \<Rightarrow> u8 list list \<Rightarrow> bool" where
  "durable q xs h ys \<longleftrightarrow> saved q h \<and> qh_salt h = qh_salt (q_header q)
     \<and> (\<exists>us ws. us @ ys = xs @ ws \<and> unat (qh_beginOffset h) = unat (qh_beginOffset (q_header q)) + recs_size us
          \<and> queue_image (mm_bytes (q_mm q)) ((q_header q)\<lparr>qh_endOffset := qh_endOffset h\<rparr>) (us @ ys))"

lemma durableI:
  "saved q h \<Longrightarrow> qh_salt h = qh_salt (q_header q) \<Longrightarrow> us @ ys = xs @ ws
    \<Longrightarrow> unat (qh_beginOffset h) = unat (qh_beginOffset (q_header q)) + recs_size us
    \<Longrightarrow> queue_image (mm_bytes (q_mm q)) ((q_header q)\<lparr>qh_endOffset := qh_endOffset h\<rparr>) (us @ ys) \<Longrightarrow> durable q xs h ys"
  unfolding durable_def by blast

lemma queue_image_suffix:
  assumes "queue_image bs h' (us @ ys)" and "qh_salt h = qh_salt h'" and "unat (qh_beginOffset h) = unat (qh_beginOffset h') + recs_size us"
    and "qh_endOffset h = qh_endOffset h'"
  shows "queue_image bs h ys"
proof -
  obtain A p st B where i: "bs = A @ recs_image (qh_salt h') p (us @ ys) @ st @ B" "length A = 56 + unat (qh_beginOffset h')"
    "length st = 16" "qr_toPrev (queue_record_of st) = last_prev p (us @ ys)"
    "unat (qh_endOffset h') = unat (qh_beginOffset h') + recs_size (us @ ys)" "sizes_ok (us @ ys)" by (rule queue_imageE [OF assms(1)])
  have lp: "last_prev p (us @ ys) = last_prev (last_prev p us) ys" for p by (induction us arbitrary: p) simp_all
  show ?thesis
    by (rule queue_imageI [of _ "A @ recs_image (qh_salt h') p us" _ "last_prev p us" _ st B])
      (use i assms lp in \<open>simp_all add: recs_image_append sizes_ok_def\<close>)
qed

lemma durable_image: "durable q xs h ys \<Longrightarrow> queue_image (mm_bytes (q_mm q)) h ys"
  unfolding durable_def by (auto intro: queue_image_suffix)

lemma saved_durable: "holds q xs \<Longrightarrow> saved q (q_header q) \<Longrightarrow> durable q xs (q_header q) xs"
  unfolding durable_def holds_def by (auto intro!: exI [of _ "[]"])

lemma durable_popBack:
  assumes "durable q (xs @ [x]) h ys" and "q_mm q' = q_mm q" and "q_header q' = (q_header q)\<lparr>qh_endOffset := e\<rparr>"
  shows "durable q' xs h ys"
proof -
  obtain us ws where d: "us @ ys = (xs @ [x]) @ ws" "unat (qh_beginOffset h) = unat (qh_beginOffset (q_header q)) + recs_size us"
    "queue_image (mm_bytes (q_mm q)) ((q_header q)\<lparr>qh_endOffset := qh_endOffset h\<rparr>) (us @ ys)" "saved q h" "qh_salt h = qh_salt (q_header q)"
    using assms(1) by (auto simp: durable_def)
  show ?thesis by (rule durableI [of _ _ us _ _ "x # ws"]) (use d assms(2,3) in \<open>simp_all add: saved_def\<close>)
qed

lemma durable_pushFront:
  assumes "durable q xs h ys" and "16 + length x < 2 ^ 32" and "16 + length x \<le> unat (qh_beginOffset (q_header q))"
    and "holds q xs" and "pushFrontRaw x (of_nat (length x)) q = Inr q'"
  shows "durable q' (x # xs) h ys"
proof -
  let ?t = "of_nat (16 + length x) :: u64"
  have len: "72 + unat (qh_beginOffset (q_header q)) \<le> length (mm_bytes (q_mm q))"
    using holds_length [OF assms(4)] holds_end [OF assms(4)] by simp
  obtain bs where p: "q' = q_with bs (q\<lparr>q_header := (q_header q)\<lparr>qh_beginOffset := qh_beginOffset (q_header q) - ?t\<rparr>\<rparr>)"
    "take 56 bs = take 56 (mm_bytes (q_mm q))"
    "\<forall>h zs. qh_salt h = qh_salt (q_header q) \<longrightarrow> qh_beginOffset h = qh_beginOffset (q_header q)
        \<longrightarrow> queue_image (mm_bytes (q_mm q)) h zs \<longrightarrow> queue_image bs (h\<lparr>qh_beginOffset := qh_beginOffset h - ?t\<rparr>) (x # zs)"
    using pushFront_room [OF assms(2,3) len] assms(5) by auto
  obtain us ws where d: "us @ ys = xs @ ws" "unat (qh_beginOffset h) = unat (qh_beginOffset (q_header q)) + recs_size us"
    "queue_image (mm_bytes (q_mm q)) ((q_header q)\<lparr>qh_endOffset := qh_endOffset h\<rparr>) (us @ ys)" "saved q h"
    "qh_salt h = qh_salt (q_header q)"
    using assms(1) by (auto simp: durable_def)
  have tot: "unat ?t = 16 + length x" by (subst unat_of_nat) (use assms(2) in simp)
  have b: "unat (qh_beginOffset (q_header q) - ?t) = unat (qh_beginOffset (q_header q)) - (16 + length x)"
    using tot assms(3) by (simp del: of_nat_add add: unat_sub_if')
  have "saved q' h" using saved_take [OF d(4) p(2)] d(4) p(1) by (auto simp: saved_def)
  moreover have "queue_image bs ((q_header q)\<lparr>qh_endOffset := qh_endOffset h, qh_beginOffset := qh_beginOffset (q_header q) - ?t\<rparr>) (x # us @ ys)"
    using p(3) d(3) by simp
  moreover have "(q_header q)\<lparr>qh_endOffset := qh_endOffset h, qh_beginOffset := c\<rparr> = (q_header q)\<lparr>qh_beginOffset := c, qh_endOffset := qh_endOffset h\<rparr>" for c
    by (cases "q_header q") simp
  ultimately show ?thesis using d(1,2,5) b assms(3) p(1)
    by (intro durableI [of _ _ "x # us" _ _ ws]) (simp_all del: of_nat_add)
qed

text \<open>The operations of the storage server on its queue.\<close>

fun storage_op :: "queue_op \<Rightarrow> bool" where
  "storage_op (Push_Front x) = True"
| "storage_op Pop_Back = True"
| "storage_op _ = False"

lemma durable_step:
  assumes "durable q xs h ys" and "holds q xs" and "bounded S P q xs" and "op_bytes p < 2 ^ 32" and "S + op_bytes p < 2 ^ 55"
    and "storage_op p" and "list_step p xs = Inr zs"
  shows "\<exists>q' P' h' ys'. queue_step p q = Inr q' \<and> holds q' zs \<and> bounded (S + op_bytes p) P' q' zs \<and> durable q' zs h' ys'
    \<and> mm_pageSize (q_mm q') = mm_pageSize (q_mm q) \<and> (ys' = ys \<or> ys' = xs)"
proof -
  obtain q' P' where q': "queue_step p q = Inr q'" "holds q' zs" "bounded (S + op_bytes p) P' q' zs"
    "mm_pageSize (q_mm q') = mm_pageSize (q_mm q)" using step_ok [OF assms(2-5)] assms(7) by auto
  have "\<exists>h' ys'. durable q' zs h' ys' \<and> (ys' = ys \<or> ys' = xs)"
  proof (cases p)
    case (Push_Front x)
    have b: "unat (qh_beginOffset (q_header q)) \<le> 3 * S + 16 + P" "recs_size xs + P \<le> S" using assms(3) by (simp_all add: bounded_def)
    have s: "16 + length x < 2 ^ 32" "unat (qh_endOffset (q_header q)) + length x < 2 ^ 58"
      using Push_Front assms(4,5) b holds_end [OF assms(2)] by simp_all
    obtain q1 where q1: "holds q1 xs" "q1 = q \<or> saved q1 (q_header q1)" "16 + length x \<le> unat (qh_beginOffset (q_header q1))"
      "pushFrontRaw x (of_nat (length x)) q1 = Inr q'"
      using pushFront_ok [OF assms(2) s] q'(1) Push_Front by auto
    have "\<exists>h1 ys1. durable q1 xs h1 ys1 \<and> (ys1 = ys \<or> ys1 = xs)" using q1(1,2) assms(1) saved_durable by blast
    then show ?thesis using durable_pushFront [OF _ s(1) q1(3,1,4)] assms(7) Push_Front by auto
  next
    case Pop_Back
    then obtain ws x where xs: "xs = ws @ [x]" "zs = ws" using assms(7) by (cases xs rule: rev_cases) (auto split: if_splits)
    obtain q2 where "q_popBack q = Inr q2" "q_mm q2 = q_mm q" "\<exists>e. q_header q2 = (q_header q)\<lparr>qh_endOffset := e\<rparr>"
      using popBack_ok [of q ws x] assms(2) xs by blast
    then show ?thesis using durable_popBack [of q ws x h ys] assms(1) xs q'(1) Pop_Back by auto
  qed (use assms(6) in simp_all)
  then show ?thesis using q' by blast
qed

lemma durable_run:
  assumes "durable q xs h ys" and "holds q xs" and "bounded S P q xs" and "\<forall>p \<in> set ps. op_bytes p < 2 ^ 32 \<and> storage_op p"
    and "S + ops_bytes ps < 2 ^ 55" and "run_ops list_step ps xs = Inr zs"
  shows "\<exists>q' h' ys' k. run_ops queue_step ps q = Inr q' \<and> holds q' zs \<and> durable q' zs h' ys'
    \<and> mm_pageSize (q_mm q') = mm_pageSize (q_mm q) \<and> k \<le> length ps
    \<and> (ys' = ys \<or> run_ops list_step (take k ps) xs = Inr ys')"
  using assms
proof (induction ps arbitrary: q xs h ys S P)
  case Nil
  then show ?case by auto
next
  case (Cons p ps)
  obtain ws where ws: "list_step p xs = Inr ws" "run_ops list_step ps ws = Inr zs" using Cons.prems(6) by (auto simp: res_bind_Inr_iff)
  have b: "op_bytes p < 2 ^ 32" "S + op_bytes p < 2 ^ 55" "storage_op p" "\<forall>p \<in> set ps. op_bytes p < 2 ^ 32 \<and> storage_op p"
    "(S + op_bytes p) + ops_bytes ps < 2 ^ 55"
    using Cons.prems(4,5) by (simp_all add: ops_bytes_def)
  obtain q1 P1 h1 ys1 where q1: "queue_step p q = Inr q1" "holds q1 ws" "bounded (S + op_bytes p) P1 q1 ws" "durable q1 ws h1 ys1"
    "mm_pageSize (q_mm q1) = mm_pageSize (q_mm q)" "ys1 = ys \<or> ys1 = xs"
    using durable_step [OF Cons.prems(1-3) b(1-3) ws(1)] by blast
  obtain q' h' ys' k where r: "run_ops queue_step ps q1 = Inr q'" "holds q' zs" "durable q' zs h' ys'"
    "mm_pageSize (q_mm q') = mm_pageSize (q_mm q1)" "k \<le> length ps" "ys' = ys1 \<or> run_ops list_step (take k ps) ws = Inr ys'"
    using Cons.IH [OF q1(4,2,3) b(4,5) ws(2)] by blast
  show ?case
  proof (cases "run_ops list_step (take k ps) ws = Inr ys'")
    case True
    then have "run_ops list_step (take (Suc k) (p # ps)) xs = Inr ys'" using ws(1) by simp
    then show ?thesis using r q1(1,5) by (intro exI [of _ q'] exI [of _ h'] exI [of _ ys'] exI [of _ "Suc k"]) simp
  next
    case False
    then have "ys' = ys \<or> run_ops list_step (take 0 (p # ps)) xs = Inr ys'" using r(6) q1(6) by auto
    then show ?thesis using r(1-4) q1(1,5) by (intro exI [of _ q'] exI [of _ h'] exI [of _ ys'] exI [of _ 0]) simp
  qed
qed

lemma run_ops_append: "run_ops step (ps @ rs) s = res_bind (run_ops step ps s) (run_ops step rs)"
proof (induction ps arbitrary: s)
  case (Cons p ps)
  then show ?case by (cases "step p s") simp_all
qed simp

lemma ops_bytes_append: "ops_bytes (ps @ rs) = ops_bytes ps + ops_bytes rs"
  by (simp add: ops_bytes_def)

text \<open>What a crash leaves: the mapping, or the mapping with a first header copy that is not valid.\<close>

definition recovers :: "u64 \<Rightarrow> QueueFileHeader \<Rightarrow> queue_file \<Rightarrow> u8 list list \<Rightarrow> bool" where
  "recovers pg h q ys \<longleftrightarrow> (\<exists>q'. q_open pg h (mm_bytes (q_mm q)) = Inr q' \<and> answers q' ys)
     \<and> (\<forall>t. length t = QUEUE_HEADER_SIZE \<and> \<not> isValidFileHeader (queue_header_of t)
          \<longrightarrow> (\<exists>q'. q_open pg h (t @ drop QUEUE_HEADER_SIZE (mm_bytes (q_mm q))) = Inr q' \<and> answers q' ys))"

lemma durable_recovers:
  assumes "durable q xs hq ys" and "holds q xs" and "page_ok pg"
  shows "recovers pg h q ys"
proof -
  let ?m = "mm_bytes (q_mm q)"
  have im: "queue_image ?m hq ys" by (rule durable_image [OF assms(1)])
  have l: "length ?m < 2 ^ 62" using assms(2) by (simp add: holds_def map_ok_def)
  have v: "isValidFileHeader hq" using assms(1) by (simp add: durable_def saved_def)
  obtain rest where r: "?m = queue_header_bytes hq @ queue_header_bytes hq @ rest" using assms(1) by (auto simp: durable_def saved_def)
  obtain q1 where q1: "q_open pg h ?m = Inr q1" "holds q1 ys"
    using open_ok [OF im v assms(3) l, of "queue_header_bytes hq @ rest" h] r by auto
  have "\<exists>q'. q_open pg h (t @ drop 28 ?m) = Inr q' \<and> answers q' ys"
    if t: "length t = 28" "\<not> isValidFileHeader (queue_header_of t)" for t
  proof -
    have d: "t @ drop 28 ?m = (t @ queue_header_bytes hq) @ drop 56 ?m" using r by simp
    have im': "queue_image (t @ drop 28 ?m) hq ys" unfolding d by (rule queue_image_headers [OF im]) (use t in simp_all)
    have "t @ drop 28 ?m = t @ queue_header_bytes hq @ rest" using r by simp
    moreover have "length (t @ drop 28 ?m) < 2 ^ 62" using l t r by simp
    ultimately show ?thesis using open_ok [OF im' v assms(3), of rest h] t holds_answers by blast
  qed
  then show ?thesis using q1 holds_answers by (auto simp: recovers_def QUEUE_HEADER_SIZE_def)
qed

text \<open>
  C13: A crash of the storage server does not damage its queue. Between two synchronisations the server adds records
  in front and removes records at the back only. Whatever it did after a synchronisation, the file as it is in the
  mapping, and also with a first header copy torn by the crash, opens and answers like the list at the
  synchronisation or at a later moment; nothing the server had synchronised is lost.
\<close>

theorem queue_crash_recovers:
  assumes "page_ok pg" and "\<forall>p \<in> set (ps @ rs). op_bytes p < 2 ^ 32" and "ops_bytes (ps @ rs) < 2 ^ 54"
    and "\<forall>p \<in> set rs. storage_op p" and "run_ops list_step (ps @ Sync # rs) [] = Inr xs"
  shows "\<exists>q q' k ys. q_create pg rand h [] = Inr q \<and> run_ops queue_step (ps @ Sync # rs) q = Inr q'
    \<and> k \<le> length rs \<and> run_ops list_step (ps @ take k rs) [] = Inr ys \<and> recovers pg h q' ys"
proof -
  obtain q where q: "q_create pg rand h [] = Inr q" "holds q []" "qh_beginOffset (q_header q) = 0" "mm_pageSize (q_mm q) = pg"
    using create_ok [OF assms(1)] by blast
  obtain zs where zs: "run_ops list_step ps [] = Inr zs" "run_ops list_step rs zs = Inr xs"
    using assms(5) by (auto simp: run_ops_append res_bind_Inr_iff)
  have b: "bounded 0 0 q []" using q(3) by (simp add: bounded_def)
  have s: "\<forall>p \<in> set ps. op_bytes p < 2 ^ 32" "0 + ops_bytes ps < 2 ^ 55" "ops_bytes ps + ops_bytes rs < 2 ^ 55"
    "\<forall>p \<in> set rs. op_bytes p < 2 ^ 32 \<and> storage_op p"
    using assms(2-4) by (auto simp: ops_bytes_append)
  obtain q1 P1 where q1: "run_ops queue_step ps q = Inr q1" "holds q1 zs" "bounded (ops_bytes ps) P1 q1 zs"
    using run_ok [OF q(2) b s(1,2)] zs(1) by auto
  obtain q2 where q2: "q_sync q1 = Inr q2" "holds q2 zs" "saved q2 (q_header q2)"
    "qh_beginOffset (q_header q2) = qh_beginOffset (q_header q1)" using sync_saved [OF q1(2)] by blast
  have b2: "bounded (ops_bytes ps) P1 q2 zs" using q1(3) q2(4) by (simp add: bounded_def)
  obtain q' h' ys k where r: "run_ops queue_step rs q2 = Inr q'" "holds q' xs" "durable q' xs h' ys" "k \<le> length rs"
    "ys = zs \<or> run_ops list_step (take k rs) zs = Inr ys"
    using durable_run [OF saved_durable [OF q2(2,3)] q2(2) b2 s(4,3) zs(2)] by blast
  have "run_ops queue_step (ps @ Sync # rs) q = Inr q'" using q1(1) q2(1) r(1) by (simp add: run_ops_append)
  moreover have "recovers pg h q' ys" by (rule durable_recovers [OF r(3,2) assms(1)])
  moreover have "\<exists>k. k \<le> length rs \<and> run_ops list_step (ps @ take k rs) [] = Inr ys"
  proof (cases "ys = zs")
    case True
    then show ?thesis using zs(1) by (intro exI [of _ 0]) (simp add: run_ops_append)
  next
    case False
    then show ?thesis using r(4,5) zs(1) by (auto simp: run_ops_append)
  qed
  ultimately show ?thesis using q(1) by blast
qed

theorem queue_crash_recovers_witness:
  "\<exists>q q' k ys. q_create 4096 7 blank_header [] = Inr q
    \<and> run_ops queue_step ([Push_Back [1], Push_Front [2, 3]] @ Sync # [Push_Front [4], Pop_Back]) q = Inr q'
    \<and> k \<le> length [Push_Front [4], Pop_Back] \<and> run_ops list_step ([Push_Back [1], Push_Front [2, 3]] @ take k [Push_Front [4], Pop_Back]) [] = Inr ys
    \<and> recovers 4096 blank_header q' ys"
  using queue_crash_recovers [of 4096 "[Push_Back [1], Push_Front [2, 3]]" "[Push_Front [4], Pop_Back]" "[[4], [2, 3]]" 7 blank_header]
  by (simp add: page_ok_def ops_bytes_def)

end
