(* ===== verification/Queue_Values.thy ===== *)
theory Queue_Values
  imports Queue_File_Steps
begin

text \<open>
  The queue file of serialised values: with a serializer whose images are short, the queue behaves as the list of the
  values themselves, its iterators as positions in the list. The locale \<open>value_queue\<close> extends \<open>serializable\<close>.
\<close>

definition q_values :: "('a \<Rightarrow> u8 list) \<Rightarrow> u64 \<Rightarrow> nat \<Rightarrow> queue_file \<Rightarrow> 'a list \<Rightarrow> bool" where
  "q_values save pg S q xs \<longleftrightarrow> holds q (map save xs) \<and> mm_pageSize (q_mm q) = pg \<and> (\<exists>P. bounded S P q (map save xs))"

text \<open>The file of a queue that is closed.\<close>

definition file_values :: "('a \<Rightarrow> u8 list) \<Rightarrow> u64 \<Rightarrow> nat \<Rightarrow> u8 list \<Rightarrow> 'a list \<Rightarrow> bool" where
  "file_values save pg S bs xs \<longleftrightarrow> (\<exists>q. q_values save pg S q xs \<and> saved q (q_header q) \<and> mm_bytes (q_mm q) = bs)"

text \<open>The offset of the record behind the first ones.\<close>

definition q_pos :: "queue_file \<Rightarrow> u8 list list \<Rightarrow> u64" where
  "q_pos q us = qh_beginOffset (q_header q) + of_nat (recs_size us)"

lemma q_pos_end: "holds q xs \<Longrightarrow> q_pos q xs = q_cend q"
  using holds_end [of q xs] by (simp add: q_pos_def q_cend_def) (metis of_nat_add of_nat_unat ucast_id)

lemma q_pos_begin: "holds q (us @ x # ys) \<Longrightarrow> q_pos q us = q_cbegin q \<longleftrightarrow> us = []"
  using record_in_image(1) [of q us x ys] by (cases us) (auto simp: q_pos_def q_cbegin_def unat_eq_iff_nat)

lemma it_dec_ok:
  assumes "holds q (us @ x # ys)"
  shows "it_dec q (q_pos q (us @ [x])) = Inr (q_pos q us)"
proof -
  note n = next_off [OF assms]
  have "\<exists>r. rec_get (record_addr (q_pos q (us @ [x]))) q = Inr r \<and> qr_toPrev r = 16 + of_nat (length x)"
  proof (cases ys)
    case Nil
    then show ?thesis using end_stub [of q us x] q_pos_end [of q "us @ [x]"] assms by (simp add: q_cend_def)
  next
    case (Cons y ys')
    then show ?thesis using record_in_image(2) [of q "us @ [x]" y ys'] assms by (auto simp: q_pos_def header_of_rec_def)
  qed
  then show ?thesis using n by (auto simp: it_dec_def q_pos_def)
qed

lemma assignString_ok:
  assumes "holds q (us @ x # ys)"
  shows "q_assignString (record_addr (q_pos q us)) q = Inr x"
proof -
  note r = record_in_image(2-4) [OF assms]
  have "unat (of_nat (length x) :: u32) = length x" by (subst unat_of_nat) (use r(3) in simp)
  then show ?thesis using r(1,2) by (auto simp: q_assignString_def q_pos_def header_of_rec_def)
qed

locale value_queue = serializable "\<lambda>_. True" save load
  for save :: "'a \<Rightarrow> u8 list" and load :: "u8 list \<Rightarrow> ('a \<times> u8 list) res" +
  fixes K :: nat
  assumes short: "16 + length (save x) \<le> K" and K: "K < 2 ^ 32"
begin

lemma values_empty: "q_values save pg S q xs \<Longrightarrow> q_empty q \<longleftrightarrow> xs = []"
  using q_empty_iff [of q "map save xs"] by (simp add: q_values_def)

lemma values_front: "q_values save pg S q (x # xs) \<Longrightarrow> q_front load q = Inr x"
  using front_ok [of q "save x" "map save xs"] load_save_end by (simp add: q_values_def q_front_def)

lemma values_back: "q_values save pg S q (xs @ [x]) \<Longrightarrow> q_back load q = Inr x"
  using back_ok [of q "map save xs" "save x"] load_save_end by (simp add: q_values_def q_back_def)

lemma values_get: "q_values save pg S q (us @ x # ys) \<Longrightarrow> it_get load q (q_pos q (map save us)) = Inr x"
  using assignString_ok [of q "map save us" "save x" "map save ys"] load_save_end by (simp add: q_values_def it_get_def)

lemma values_dec: "q_values save pg S q (us @ x # ys) \<Longrightarrow> it_dec q (q_pos q (map save (us @ [x]))) = Inr (q_pos q (map save us))"
  using it_dec_ok [of q "map save us" "save x" "map save ys"] by (simp add: q_values_def)

lemma values_begin: "q_values save pg S q (us @ x # ys) \<Longrightarrow> q_pos q (map save us) = q_cbegin q \<longleftrightarrow> us = []"
  using q_pos_begin [of q "map save us" "save x" "map save ys"] by (simp add: q_values_def)

lemma values_end: "q_values save pg S q xs \<Longrightarrow> q_pos q (map save xs) = q_cend q"
  using q_pos_end by (simp add: q_values_def)

lemma values_step:
  assumes "q_values save pg S q xs" and "list_step p (map save xs) = Inr (map save ys)" and "op_bytes p \<le> K" and "S + K < 2 ^ 55"
  shows "\<exists>q'. queue_step p q = Inr q' \<and> q_values save pg (S + op_bytes p) q' ys"
proof -
  obtain P where h: "holds q (map save xs)" "bounded S P q (map save xs)" "mm_pageSize (q_mm q) = pg" using assms(1) by (auto simp: q_values_def)
  have "op_bytes p < 2 ^ 32" "S + op_bytes p < 2 ^ 55" using assms(3,4) K by simp_all
  then show ?thesis using step_ok [OF h(1,2)] assms(2) h(3) by (fastforce simp: q_values_def)
qed

lemma values_mono:
  assumes "q_values save pg S q xs" and "S \<le> S'"
  shows "q_values save pg S' q xs"
proof -
  obtain P where P: "holds q (map save xs)" "bounded S P q (map save xs)" "mm_pageSize (q_mm q) = pg" using assms(1) by (auto simp: q_values_def)
  then have "bounded S' P q (map save xs)" using assms(2) by (simp add: bounded_def)
  then show ?thesis using P by (auto simp: q_values_def)
qed

lemma values_pushFront:
  assumes "q_values save pg S q xs" and "S + K < 2 ^ 55"
  shows "\<exists>q'. q_pushFront save x q = Inr q' \<and> q_values save pg (S + K) q' (x # xs)"
  using values_step [OF assms(1) _ _ assms(2), of "Push_Front (save x)" "x # xs"] short [of x]
  by (force simp: q_pushFront_def Let_def intro: values_mono)

lemma values_popBack:
  assumes "q_values save pg S q (xs @ [x])" and "S + K < 2 ^ 55"
  shows "\<exists>q'. q_popBack q = Inr q' \<and> q_values save pg S q' xs"
  using values_step [OF assms(1) _ _ assms(2), of Pop_Back xs] by simp

lemma values_clear:
  assumes "q_values save pg S q xs" and "S + K < 2 ^ 55"
  shows "\<exists>q'. q_clear q = Inr q' \<and> q_values save pg S q' []"
  using values_step [OF assms(1) _ _ assms(2), of Clear "[]"] by simp

lemma values_sync:
  assumes "q_values save pg S q xs"
  shows "\<exists>q'. q_sync q = Inr q' \<and> q_values save pg S q' xs \<and> file_values save pg S (mm_bytes (q_mm q')) xs"
proof -
  obtain P where h: "holds q (map save xs)" "bounded S P q (map save xs)" "mm_pageSize (q_mm q) = pg" using assms by (auto simp: q_values_def)
  obtain q' where q': "q_sync q = Inr q'" "holds q' (map save xs)" "saved q' (q_header q')" "mm_pageSize (q_mm q') = pg"
    "qh_beginOffset (q_header q') = qh_beginOffset (q_header q)" using sync_saved [OF h(1)] h(3) by blast
  have "bounded S P q' (map save xs)" using h(2) q'(5) by (simp add: bounded_def)
  then have "q_values save pg S q' xs" using q' by (auto simp: q_values_def)
  then show ?thesis using q'(1,3) by (auto simp: file_values_def)
qed

lemma values_open:
  assumes "file_values save pg S bs xs"
  shows "\<exists>q. q_open pg h bs = Inr q \<and> q_values save pg S q xs"
proof -
  obtain q P where q: "holds q (map save xs)" "bounded S P q (map save xs)" "mm_pageSize (q_mm q) = pg" "saved q (q_header q)"
    "mm_bytes (q_mm q) = bs" using assms by (auto simp: file_values_def q_values_def)
  have i: "queue_image bs (q_header q) (map save xs)" "page_ok pg" "length bs < 2 ^ 62"
    using q by (auto simp: holds_def map_ok_def page_ok_def)
  obtain rest where "bs = queue_header_bytes (q_header q) @ queue_header_bytes (q_header q) @ rest" "isValidFileHeader (q_header q)"
    using q(4,5) by (auto simp: saved_def)
  then obtain q' where q': "q_open pg h bs = Inr q'" "holds q' (map save xs)" "mm_pageSize (q_mm q') = pg"
    "qh_beginOffset (q_header q') = qh_beginOffset (q_header q)" using open_ok [OF i(1) _ i(2,3)] by blast
  have "bounded S P q' (map save xs)" using q(2) q'(4) by (simp add: bounded_def)
  then show ?thesis using q' by (auto simp: q_values_def)
qed

lemma values_create:
  assumes "page_ok pg"
  shows "\<exists>q. q_create pg rand h [] = Inr q \<and> q_values save pg 0 q []"
  using create_ok [OF assms, of rand h] by (force simp: q_values_def bounded_def)

end

end
