(* ===== verification/Storage_Vol_Laws.thy ===== *)
theory Storage_Vol_Laws
  imports Storage_Records Queue_Values
begin

text \<open>
  What the operations of a volume do to its done record and to the list of the records in its queue.
\<close>

section \<open>Running operations with the queue open\<close>

lemma runs_on_vol [runs_simps]: "runs (on_vol f) (q, s) Q \<longleftrightarrow> runs f s (\<lambda>r s'. Q r (q, s'))"
  by (auto simp: runs_def on_vol_def split: option.splits)

lemma runs_on_queue [runs_simps]:
  "runs (on_queue f) (q, s) Q \<longleftrightarrow> (case f q of Inl e \<Rightarrow> Q (Inl e) (q, s) | Inr q' \<Rightarrow> Q (Inr ()) (q', s))"
  by (auto simp: runs_def on_queue_def split: sum.splits)

lemma runs_ask [runs_simps]:
  "runs (ask_queue f) (q, s) Q' \<longleftrightarrow> Q' (f q) (q, s)"
  "runs (ask_queue_opt g) (q, s) Q \<longleftrightarrow> (\<exists>r. g q = Some r \<and> Q r (q, s))"
  by (auto simp: ask_queue_def runs_simps) (auto simp: runs_def ask_queue_opt_def split: option.splits)

section \<open>The volume on disk\<close>

lemma length_saveVariableInt: "length (saveVariableInt x) \<le> 9"
  by (simp add: saveVariableInt_def Let_def savePod8_def savePod16_def savePod32_def savePod64_def)

lemma length_lsidgid_save: "16 + length (lsidgid_save x) \<le> 64"
  using length_saveVariableInt [of "lg_timestamp x"] length_saveVariableInt [of "lg_lsid x"] length_saveVariableInt [of "lg_gid x"]
  by (simp add: lsidgid_save_def savePod16_def savePod8_def save_bool_def)

interpretation lgq: value_queue lsidgid_save lsidgid_load 64
  by unfold_locales (use length_lsidgid_save in simp_all)

abbreviation lg_queue :: "u64 \<Rightarrow> nat \<Rightarrow> queue_file \<Rightarrow> MetaLsidGid list \<Rightarrow> bool" where
  "lg_queue \<equiv> q_values lsidgid_save"

definition done_is :: "storage_vol \<Rightarrow> MetaLsidGid \<Rightarrow> bool" where
  "done_is s d \<longleftrightarrow> sv_dir s ''done'' = Some (lsidgid_save d)"

definition vol_rep :: "u64 \<Rightarrow> nat \<Rightarrow> storage_vol \<Rightarrow> MetaLsidGid \<Rightarrow> MetaLsidGid list \<Rightarrow> bool" where
  "vol_rep pg S s d xs \<longleftrightarrow> done_is s d \<and> (\<exists>bs. sv_dir s ''queue'' = Some bs \<and> file_values lsidgid_save pg S bs xs)"

lemma runs_getDoneRecord [runs_simps]: "done_is s d \<Longrightarrow> runs getDoneRecord s Q \<longleftrightarrow> Q (Inr d) s"
  by (simp add: getDoneRecord_def runs_simps loadFile_def done_is_def ser_lsidgid.load_save_end)

lemma runs_setDoneRecord [runs_simps]:
  "runs (setDoneRecord d) s Q \<longleftrightarrow> Q (Inr ()) (s\<lparr>sv_dir := (sv_dir s)(''done'' \<mapsto> lsidgid_save d)\<rparr>)"
  by (simp add: setDoneRecord_def sv_saveFile_def runs_simps saveFile_def)

lemma done_is_set [simp]: "done_is (s\<lparr>sv_dir := (sv_dir s)(''done'' \<mapsto> lsidgid_save d)\<rparr>) d"
  by (simp add: done_is_def)

text \<open>What the outside has seen of the volume.\<close>

definition same_outside :: "storage_vol \<Rightarrow> storage_vol \<Rightarrow> bool" where
  "same_outside s s' \<longleftrightarrow> sv_erased s' = sv_erased s \<and> sv_acked s' = sv_acked s"

lemma same_outside_refl [simp]: "same_outside s s" by (simp add: same_outside_def)

lemma same_outside_dir [simp]: "same_outside s (s\<lparr>sv_dir := m\<rparr>)" "same_outside (s\<lparr>sv_dir := m\<rparr>) s"
  by (simp_all add: same_outside_def)

lemma same_outside_trans [trans]: "same_outside s s' \<Longrightarrow> same_outside s' s'' \<Longrightarrow> same_outside s s''"
  by (simp add: same_outside_def)

lemma runs_with_queue:
  assumes "vol_rep pg S s d xs" and "env_pageSize env = pg"
    and "\<And>q. lg_queue pg S q xs \<Longrightarrow> runs f (q, s) (\<lambda>r (q', s'). same_outside s s' \<and>
       (\<exists>d' xs'. lg_queue pg S' q' xs' \<and> done_is s' d' \<and> Q r d' xs'))"
  shows "runs (with_queue env f) s (\<lambda>r s'. same_outside s s' \<and> (\<exists>d' xs'. vol_rep pg S' s' d' xs' \<and> Q r d' xs'))"
proof -
  obtain bs where bs: "sv_dir s ''queue'' = Some bs" "file_values lsidgid_save pg S bs xs" using assms(1) by (auto simp: vol_rep_def)
  obtain q where q: "q_open pg (env_memory env) bs = Inr q" "lg_queue pg S q xs" using lgq.values_open [OF bs(2)] by blast
  obtain r q1 s1 d' xs' where r: "f (q, s) = Some (r, (q1, s1))" "same_outside s s1" "lg_queue pg S' q1 xs'" "done_is s1 d'" "Q r d' xs'"
    using assms(3) [OF q(2)] by (auto simp: runs_def)
  obtain q2 where q2: "q_sync q1 = Inr q2" "file_values lsidgid_save pg S' (mm_bytes (q_mm q2)) xs'" using lgq.values_sync [OF r(3)] by blast
  let ?s = "s1\<lparr>sv_dir := (sv_dir s1)(''queue'' \<mapsto> mm_bytes (q_mm q2))\<rparr>"
  have "with_queue env f s = Some (r, ?s)" using bs(1) q(1) r(1) q2(1) assms(2) by (simp add: with_queue_def)
  moreover have "vol_rep pg S' ?s d' xs'" using r(4) q2(2) by (simp add: vol_rep_def done_is_def)
  moreover have "same_outside s ?s" using r(2) by (simp add: same_outside_def)
  ultimately show ?thesis using r(5) by (auto simp: runs_def)
qed

section \<open>The loops over the queue\<close>

lemma removeOld_loop_ok:
  assumes "lg_queue pg S q xs" and "S + 64 < 2 ^ 55"
  shows "\<exists>q'. removeOld_loop d q = Some (Inr (), q') \<and> lg_queue pg S q' (drop_old d xs)"
  using assms(1)
proof (induction xs arbitrary: q rule: rev_induct)
  case Nil
  then show ?case using lgq.values_empty by (subst removeOld_loop.simps) auto
next
  case (snoc x xs)
  have b: "\<not> q_empty q" "q_back lsidgid_load q = Inr x" using lgq.values_empty [OF snoc.prems] lgq.values_back [OF snoc.prems] by simp_all
  show ?case
  proof (cases "isOld d x")
    case True
    obtain q1 where q1: "q_popBack q = Inr q1" "lg_queue pg S q1 xs" using lgq.values_popBack [OF snoc.prems assms(2)] by blast
    then show ?thesis using snoc.IH [OF q1(2)] b True by (subst removeOld_loop.simps) simp
  next
    case False
    then show ?thesis using b snoc.prems by (subst removeOld_loop.simps) simp
  qed
qed

lemma runs_removeOld:
  assumes "lg_queue pg S q xs" and "S + 64 < 2 ^ 55" and "\<And>q'. lg_queue pg S q' (drop_old d xs) \<Longrightarrow> Q (Inr ()) (q', s)"
  shows "runs (removeOldRecordsFromQueueFile d) (q, s) Q"
  using removeOld_loop_ok [OF assms(1,2), of d] assms(3) by (auto simp: runs_def removeOldRecordsFromQueueFile_def)

text \<open>The loop goes back over records of implicit snapshots.\<close>

lemma endSnapshot_loop_ok:
  assumes "lg_queue pg S q (us @ e # zs)"
  shows "\<exists>us' e' ws nr'. endSnapshot_loop d mx perm q (q_pos q (map lsidgid_save us)) e nr = Some (Inr (e', nr'))
    \<and> us @ [e] = us' @ e' # ws \<and> (\<forall>x \<in> set ws. lg_isMergeable x)
    \<and> (ws = [] \<and> e' = e \<and> nr' = nr \<or> lg_lsid e' \<le> lg_lsid d + mx)"
  using assms
proof (induction us arbitrary: e zs nr rule: rev_induct)
  case Nil
  then have "endSnapshot_loop d mx perm q (q_pos q (map lsidgid_save [])) e nr = Some (Inr (e, nr))"
    using lgq.values_begin [of pg S q "[]"] by (subst endSnapshot_loop.simps) auto
  then show ?case by (intro exI [of _ "[]"] exI [of _ e] exI [of _ "[]"] exI [of _ nr]) simp
next
  case (snoc u us)
  have h: "lg_queue pg S q (us @ u # e # zs)" using snoc.prems by simp
  have b: "q_pos q (map lsidgid_save (us @ [u])) \<noteq> q_cbegin q"
    "it_dec q (q_pos q (map lsidgid_save (us @ [u]))) = Inr (q_pos q (map lsidgid_save us))"
    "it_get lsidgid_load q (q_pos q (map lsidgid_save us)) = Inr u"
    using lgq.values_begin [of pg S q "us @ [u]" e zs] lgq.values_dec [OF h] lgq.values_get [OF h] snoc.prems by simp_all
  let ?go = "lg_isMergeable e \<and> lg_lsid u \<le> lg_lsid d + mx \<and> lg_lsid u \<le> perm"
  show ?case
  proof (cases ?go)
    case True
    obtain us' e' ws nr' where r: "endSnapshot_loop d mx perm q (q_pos q (map lsidgid_save us)) u (nr + 1) = Some (Inr (e', nr'))"
      "us @ [u] = us' @ e' # ws" "\<forall>x \<in> set ws. lg_isMergeable x" "ws = [] \<and> e' = u \<and> nr' = nr + 1 \<or> lg_lsid e' \<le> lg_lsid d + mx"
      using snoc.IH [OF h, of "nr + 1"] by blast
    have "endSnapshot_loop d mx perm q (q_pos q (map lsidgid_save (us @ [u]))) e nr = Some (Inr (e', nr'))"
      using b r(1) True by (subst endSnapshot_loop.simps) auto
    moreover have "(us @ [u]) @ [e] = us' @ e' # (ws @ [e])" using r(2) by simp
    moreover have "lg_lsid e' \<le> lg_lsid d + mx" using r(4) True by auto
    moreover have "\<forall>x \<in> set (ws @ [e]). lg_isMergeable x" using r(3) True by simp
    ultimately show ?thesis by blast
  next
    case False
    then have "endSnapshot_loop d mx perm q (q_pos q (map lsidgid_save (us @ [u]))) e nr = Some (Inr (e, nr))"
      using b by (subst endSnapshot_loop.simps) auto
    then show ?thesis by (intro exI [of _ "us @ [u]"] exI [of _ e] exI [of _ "[]"] exI [of _ nr]) simp
  qed
qed

lemma getEndSnapshot_ok:
  assumes "lg_queue pg S q xs" and "xs \<noteq> []" and "recs_ok d xs" and "\<forall>x \<in> set xs. newer d x"
    and "unat (lg_lsid d) + unat mx < 2 ^ 64"
  shows "\<exists>e lim. getEndSnapshot d mx perm q = Some (Inr (e, lim)) \<and> range_ok B d xs e lim"
proof -
  obtain ys e0 where xs: "xs = ys @ [e0]" using assms(2) by (cases xs rule: rev_cases) auto
  have q: "lg_queue pg S q (ys @ e0 # [])" using assms(1) xs by simp
  have i: "it_dec q (q_cend q) = Inr (q_pos q (map lsidgid_save ys))" "it_get lsidgid_load q (q_pos q (map lsidgid_save ys)) = Inr e0"
    "\<not> q_empty q"
    using lgq.values_dec [OF q] lgq.values_end [OF assms(1)] xs lgq.values_get [OF q] lgq.values_empty [OF assms(1)] by simp_all
  obtain us e ws nr where r: "endSnapshot_loop d mx perm q (q_pos q (map lsidgid_save ys)) e0 1 = Some (Inr (e, nr))"
    "ys @ [e0] = us @ e # ws" "\<forall>x \<in> set ws. lg_isMergeable x" "ws = [] \<and> e = e0 \<and> nr = 1 \<or> lg_lsid e \<le> lg_lsid d + mx"
    using endSnapshot_loop_ok [OF q, of d mx perm 1] by blast
  define lim where "lim = (if nr = 1 \<and> lg_gid e = lg_gid d + 1 then lg_lsid e else min (lg_lsid d + mx) (lg_lsid e))"
  have n: "newer d e" using assms(4) xs r(2) by (metis in_set_conv_decomp)
  have g: "getEndSnapshot d mx perm q = Some (Inr (e, lim))"
    using i r(1) n by (auto simp: getEndSnapshot_def endSnapshot_lsid_def lim_def newer_def)
  have le: "lg_lsid d \<le> lg_lsid d + mx" using assms(5) by (simp add: word_le_nat_alt unat_add_small)
  have srt: "sorted_wrt (\<lambda>a b. newer b a) (us @ e # ws)" using assms(3) xs r(2) by (simp add: recs_ok_def)
  have m: "lg_isMergeable x" if "x \<in> set xs" "newer x e" for x
  proof -
    have "x \<in> set us \<or> x = e \<or> x \<in> set ws" using that(1) xs r(2) by auto
    then show ?thesis using r(3) srt that(2) newer_asym [OF that(2)] by (auto simp: sorted_wrt_append)
  qed
  have c: "lg_gid d + 1 < lg_gid e \<and> (\<forall>x \<in> set xs. newer d x \<longrightarrow> x = e \<or> newer e x)" if "lim \<noteq> lg_lsid e"
  proof -
    have f: "\<not> lg_lsid e \<le> lg_lsid d + mx" "\<not> (nr = 1 \<and> lg_gid e = lg_gid d + 1)"
      using that by (auto simp: lim_def min_def split: if_splits)
    then have ws: "ws = []" "nr = 1" using r(4) by auto
    have "unat (lg_gid d) + 1 < 2 ^ 64" using n unat_lt64 [of "lg_gid e"] by (simp add: newer_def word_less_nat_alt del: unat_lt64)
    then have "unat (lg_gid d + 1) = unat (lg_gid d) + 1" by (subst unat_add_small) simp_all
    then have "lg_gid d + 1 < lg_gid e" using f(2) ws(2) n by (auto simp: newer_def word_less_nat_alt unat_eq_iff_nat)
    moreover have "x = e \<or> newer e x" if "x \<in> set xs" for x using that xs r(2) ws(1) srt by (auto simp: sorted_wrt_append)
    ultimately show ?thesis by blast
  qed
  have "e \<in> set xs" using xs r(2) by simp
  moreover have "lg_lsid d \<le> lim" "lim \<le> lg_lsid e" using n le by (auto simp: lim_def newer_def min_def)
  ultimately have "range_ok B d xs e lim" using n m c by (auto simp: range_ok_def)
  then show ?thesis using g by blast
qed

end
