(* ===== verification/Storage_Steps.thy ===== *)
theory Storage_Steps
  imports Storage_Vol_Laws
begin

text \<open>
  The operations of a volume keep its invariant and fail with exceptions only; after \<open>n\<close> snapshots the queue file has
  seen at most \<open>64 n\<close> bytes.
\<close>

fun is_exc :: "error \<Rightarrow> bool" where
  "is_exc (Exception m) = True"
| "is_exc _ = False"

lemma res_bind_Inl_iff: "res_bind m f = Inl e \<longleftrightarrow> m = Inl e \<or> (\<exists>x. m = Inr x \<and> f x = Inl e)"
  by (cases m) auto

lemma atoi_throw_exc: "atoi_throw s = Inl e \<Longrightarrow> is_exc e"
  by (auto simp: atoi_throw_def split: option.splits)

lemma lsid_lines_exc: "lsid_lines lines l = Inl e \<Longrightarrow> is_exc e"
  by (induction lines l rule: lsid_lines.induct)
    (auto simp: res_bind_Inl_iff Let_def atoi_throw_exc split: if_splits option.splits)

lemma getLsidSet_exc: "getLsidSet s = Inl e \<Longrightarrow> is_exc e"
  by (auto simp: getLsidSet_def res_bind_Inl_iff lsid_lines_exc split: if_splits)

definition vol_limits :: "u64 list \<Rightarrow> nat \<Rightarrow> nat \<Rightarrow> bool" where
  "vol_limits B g0 n \<longleftrightarrow> (\<forall>b \<in> set B. unat b < 2 ^ 62) \<and> g0 < 2 ^ 62 \<and> n < 2 ^ 48"

definition env_ok :: "u64 \<Rightarrow> u64 list \<Rightarrow> sv_env \<Rightarrow> bool" where
  "env_ok pg B env \<longleftrightarrow> env_pageSize env = pg \<and> env_pbs env \<noteq> 0
     \<and> (\<forall>l. getLsidSet (env_lsids env) = Inr l \<longrightarrow> ls_latest l \<in> set B)"

definition vol_inv :: "u64 \<Rightarrow> u64 list \<Rightarrow> nat \<Rightarrow> nat \<Rightarrow> storage_vol \<Rightarrow> MetaLsidGid \<Rightarrow> MetaLsidGid list \<Rightarrow> bool" where
  "vol_inv pg B g0 n s d xs \<longleftrightarrow> vol_rep pg (64 * n) s d xs \<and> vol_ok B g0 n d xs"

lemma vol_ok_mono: "vol_ok B g0 n d xs \<Longrightarrow> n \<le> n' \<Longrightarrow> vol_ok B g0 n' d xs"
  by (auto simp: vol_ok_def)

lemma vol_inv_mono: "vol_inv pg B g0 n s d xs \<Longrightarrow> n \<le> n' \<Longrightarrow> vol_inv pg B g0 n' s d xs"
  using vol_ok_mono lgq.values_mono [where S' = "64 * n'"] by (fastforce simp: vol_inv_def vol_rep_def file_values_def)

lemma vol_inv_done: "vol_inv pg B g0 n s d xs \<Longrightarrow> done_is s d"
  by (simp add: vol_inv_def vol_rep_def)

lemma runs_queue_top:
  assumes "lg_queue pg S q xs" and "done_is s d"
  shows "runs queue_top (q, s) Q \<longleftrightarrow> Q (Inr (rec_top d xs)) (q, s)"
  using lgq.values_empty [OF assms(1)] lgq.values_front [of pg S q "hd xs" "tl xs"] assms
  by (cases xs) (simp_all add: queue_top_def runs_simps)

lemma runs_takeSnapshotDetail:
  assumes "lg_queue pg (64 * n) q xs" and "done_is s d" and "vol_ok B g0 n d xs" and "vol_limits B g0 n"
    and "l \<in> set B" and "mx \<noteq> 0"
    and succ: "\<And>q' x. lg_queue pg (64 * (n + 1)) q' (x # xs) \<Longrightarrow> vol_ok B g0 (n + 1) d (x # xs) \<Longrightarrow> newer d x
      \<Longrightarrow> lg_isMergeable x = m \<Longrightarrow> Q (Inr (lg_gid x)) (q', s)"
    and fail: "\<And>m. env_overflow env \<or> l < lg_lsid (rec_top d xs) \<Longrightarrow> Q (Inl (Exception m)) (q, s)"
  shows "runs (takeSnapshotDetail env now mx m l) (q, s) Q"
proof -
  let ?t = "rec_top d xs"
  let ?x = "\<lparr>lg_isMergeable = m, lg_timestamp = now, lg_lsid = l, lg_gid = lg_gid ?t + 1 + (l - lg_lsid ?t) div mx\<rparr>"
  have b: "g0 + unat l + n + 1 < 2 ^ 64" "64 * n + 64 < 2 ^ 55" using assms(4,5) by (fastforce simp: vol_limits_def)+
  show ?thesis
  proof (cases "env_overflow env \<or> lg_lsid ?t > l")
    case True
    then show ?thesis using fail by (auto simp: takeSnapshotDetail_def runs_simps runs_queue_top [OF assms(1,2)])
  next
    case False
    obtain q1 where q1: "q_pushFront lsidgid_save ?x q = Inr q1" "lg_queue pg (64 * n + 64) q1 (?x # xs)"
      using lgq.values_pushFront [OF assms(1) b(2)] by blast
    obtain q2 where q2: "q_sync q1 = Inr q2" "lg_queue pg (64 * n + 64) q2 (?x # xs)" using lgq.values_sync [OF q1(2)] by blast
    have "vol_ok B g0 (n + 1) d (?x # xs)" "newer d ?x" using snapshot_ok [OF assms(3) _ assms(5,6) b(1), of ?x] False by (simp_all add: not_less)
    then have "Q (Inr (lg_gid ?x)) (q2, s)" using succ [of q2 ?x] q2(2) by (simp add: add.commute)
    moreover have "\<not> env_overflow env" "\<not> l < lg_lsid ?t" using False by simp_all
    ultimately show ?thesis using q1(1) q2(1) assms(6)
      by (simp add: takeSnapshotDetail_def runs_simps runs_queue_top [OF assms(1,2)])
  qed
qed

lemma getMaxWlogSendPb_ok:
  assumes "getMaxWlogSendPb env mb msg = r" and "env_ok pg B env" and "unat mb < 2 ^ 40"
  shows "(\<exists>m. r = Inl (Exception m)) \<or> (\<exists>mx. r = Inr mx \<and> mx \<noteq> 0 \<and> unat mx < 2 ^ 62)"
proof -
  let ?u = "0x100000 div ucast (env_pbs env) :: u64"
  have u: "unat ?u \<le> 2 ^ 20" by (simp add: unat_div div_le_dividend)
  have "unat mb * unat ?u \<le> 2 ^ 40 * 2 ^ 20" by (rule mult_le_mono) (use assms(3) u in simp_all)
  then have "unat (mb * ?u) < 2 ^ 62" by (subst unat_mult_small) simp_all
  moreover have "r = (if mb * ?u = 0 then Inl (Exception (msg @ '':maxWlogSendPb must be positive'')) else Inr (mb * ?u))"
    using assms(1,2) by (simp add: getMaxWlogSendPb_def convertMibToPb_def env_ok_def)
  ultimately show ?thesis by (cases "mb * ?u = 0") auto
qed

lemma takeSnapshot_ok:
  assumes "vol_inv pg B g0 n s d xs" and "vol_limits B g0 n" and "env_ok pg B env" and "unat mb < 2 ^ 40"
  shows "runs (takeSnapshot env mb) s (\<lambda>r s'. same_outside s s' \<and> (\<exists>xs'. vol_inv pg B g0 (n + 1) s' d xs'
    \<and> (case r of Inl e \<Rightarrow> is_exc e \<and> xs' = xs
       | Inr g \<Rightarrow> \<exists>x. xs' = x # xs \<and> newer d x \<and> lg_gid x = g \<and> \<not> lg_isMergeable x)))"
proof -
  have v: "vol_rep pg (64 * n) s d xs" "vol_ok B g0 n d xs" using assms(1) by (simp_all add: vol_inv_def)
  have n1: "vol_inv pg B g0 (n + 1) s d xs" using assms(1) vol_inv_mono by simp
  have pg: "env_pageSize env = pg" using assms(3) by (simp add: env_ok_def)
  show ?thesis
  proof (cases "getMaxWlogSendPb env mb ''takeSnapshot''")
    case (Inl e)
    then show ?thesis using getMaxWlogSendPb_ok [OF Inl assms(3,4)] n1 by (auto simp: takeSnapshot_def runs_simps)
  next
    case (Inr mx)
    then have mx: "mx \<noteq> 0" using getMaxWlogSendPb_ok [OF Inr assms(3,4)] by simp
    let ?Q = "\<lambda>r d' xs'. d' = d \<and> vol_ok B g0 (n + 1) d xs' \<and> (case r of Inl e \<Rightarrow> is_exc e \<and> xs' = xs
       | Inr g \<Rightarrow> \<exists>x. xs' = x # xs \<and> newer d x \<and> lg_gid x = g \<and> \<not> lg_isMergeable x)"
    let ?f = "sx_bind (sx_read (\<lambda>_. getLatestLsid (env_lsids env))) (\<lambda>lsid. takeSnapshotDetail env (env_time env) mx False lsid)"
    have "runs ?f (q, s) (\<lambda>r (q', s'). same_outside s s' \<and> (\<exists>d' xs'. lg_queue pg (64 * (n + 1)) q' xs' \<and> done_is s' d' \<and> ?Q r d' xs'))"
      if q: "lg_queue pg (64 * n) q xs" for q
    proof -
      have dn: "done_is s d" using v(1) by (simp add: vol_rep_def)
      have q1: "lg_queue pg (64 * (n + 1)) q xs" "vol_ok B g0 (n + 1) d xs"
        using lgq.values_mono [OF q] vol_ok_mono [OF v(2)] by simp_all
      show ?thesis
      proof (cases "getLsidSet (env_lsids env)")
        case (Inl e)
        then have "is_exc e" by (rule getLsidSet_exc)
        then show ?thesis using Inl q1 dn by (auto simp: runs_simps getLatestLsid_def)
      next
        case (Inr l)
        then have l: "ls_latest l \<in> set B" using assms(3) by (simp add: env_ok_def)
        show ?thesis unfolding runs_bind runs_basic getLatestLsid_def Inr res_bind.simps sum.case
          by (rule runs_takeSnapshotDetail [OF q dn v(2) assms(2) l mx]) (use q1 dn in auto)
      qed
    qed
    note w = runs_with_queue [where f = ?f and Q = ?Q, OF v(1) pg this]
    show ?thesis unfolding takeSnapshot_def runs_bind runs_basic Inr sum.case
      by (rule runs_mono [OF w]) (auto simp: vol_inv_def)
  qed
qed

lemma runs_with_queue_inv:
  assumes "vol_inv pg B g0 n s d xs" and "env_ok pg B env"
    and "\<And>q. lg_queue pg (64 * n) q xs \<Longrightarrow> runs f (q, s) (\<lambda>r (q', s'). same_outside s s' \<and>
       (\<exists>d' xs'. lg_queue pg (64 * n') q' xs' \<and> done_is s' d' \<and> vol_ok B g0 n' d' xs' \<and> Q r d' xs'))"
  shows "runs (with_queue env f) s (\<lambda>r s'. same_outside s s' \<and> (\<exists>d' xs'. vol_inv pg B g0 n' s' d' xs' \<and> Q r d' xs'))"
proof -
  have "vol_rep pg (64 * n) s d xs" "env_pageSize env = pg" using assms(1,2) by (simp_all add: vol_inv_def env_ok_def)
  note w = runs_with_queue [where f = f and S' = "64 * n'" and Q = "\<lambda>r d' xs'. vol_ok B g0 n' d' xs' \<and> Q r d' xs'", OF this assms(3)]
  show ?thesis by (rule runs_mono [OF w]) (auto simp: vol_inv_def)
qed

lemma runs_endSnapshot:
  assumes "lg_queue pg S q ys" and "ys \<noteq> []" and "vol_ok B g0 n d ys" and "\<forall>x \<in> set ys. newer d x" and "vol_limits B g0 m"
    and "unat mx < 2 ^ 62" and "\<And>e lim. range_ok B d ys e lim \<Longrightarrow> P (Inr (d, e, lim, perm < lim)) (q, s)"
  shows "runs (sx_bind (ask_queue_opt (getEndSnapshot d mx perm)) (\<lambda>(recE, lim). sx_return (d, recE, lim, perm < lim))) (q, s) P"
proof -
  have "unat (lg_lsid d) < 2 ^ 62" using assms(3,5) by (auto simp: vol_ok_def vol_limits_def)
  then have "unat (lg_lsid d) + unat mx < 2 ^ 64" using assms(6) by simp
  then obtain e lim where "getEndSnapshot d mx perm q = Some (Inr (e, lim))" "range_ok B d ys e lim"
    using getEndSnapshot_ok [OF assms(1,2) _ assms(4), of mx perm B] assms(3) unfolding vol_ok_def by blast
  then show ?thesis using assms(7) by (auto simp: runs_simps)
qed

lemma runs_implicitSnapshot:
  assumes "lg_queue pg (64 * n) q ys" and "done_is s d" and "vol_ok B g0 n d ys" and "vol_limits B g0 n" and "ls_latest l \<in> set B" and "mx \<noteq> 0"
    and same: "ys \<noteq> [] \<Longrightarrow> Q (Inr 0) (q, s)"
    and more: "\<And>q' x g. lg_queue pg (64 * (n + 1)) q' (x # ys) \<Longrightarrow> vol_ok B g0 (n + 1) d (x # ys) \<Longrightarrow> newer d x \<Longrightarrow> Q (Inr g) (q', s)"
    and fail: "\<And>m. env_overflow env \<or> ls_latest l < lg_lsid (rec_top d ys) \<Longrightarrow> Q (Inl (Exception m)) (q, s)"
  shows "runs (takeImplicitSnapshot env iv mx l) (q, s) Q"
proof -
  have t: "runs (takeSnapshotDetail env now mx True (ls_latest l)) (q, s) Q" for now
    by (rule runs_takeSnapshotDetail [OF assms(1-6)]) (use more fail in auto)
  show ?thesis
  proof (cases ys)
    case Nil
    then show ?thesis using t lgq.values_empty [OF assms(1)] by (simp add: takeImplicitSnapshot_def runs_simps)
  next
    case (Cons y ys')
    then have "q_front lsidgid_load q = Inr y" "\<not> q_empty q"
      using lgq.values_front lgq.values_empty [OF assms(1)] assms(1) by simp_all
    then show ?thesis using t same Cons by (simp add: takeImplicitSnapshot_def runs_simps)
  qed
qed

lemma runs_implicit_end:
  assumes q: "lg_queue pg (64 * n) q ys" and dn: "done_is s d" and v: "vol_ok B g0 n d ys" and lim: "vol_limits B g0 n"
    and l: "ls_latest l \<in> set B" and mx: "mx \<noteq> 0" "unat mx < 2 ^ 62" and new: "\<forall>x \<in> set ys. newer d x"
    and succ: "\<And>q' xs' e lim. lg_queue pg (64 * (n + 1)) q' xs' \<Longrightarrow> vol_ok B g0 (n + 1) d xs' \<Longrightarrow> set ys \<subseteq> set xs'
      \<Longrightarrow> range_ok B d xs' e lim \<Longrightarrow> P (Inr (d, e, lim, perm < lim)) (q', s)"
    and fail: "\<And>m. env_overflow env \<or> ls_latest l < lg_lsid (rec_top d ys) \<Longrightarrow> P (Inl (Exception m)) (q, s)"
  shows "runs (sx_bind (takeImplicitSnapshot env iv mx l) (\<lambda>_. sx_bind (ask_queue_opt (getEndSnapshot d mx perm))
      (\<lambda>(recE, lim). sx_return (d, recE, lim, perm < lim)))) (q, s) P"
proof -
  have fin: "runs (sx_bind (ask_queue_opt (getEndSnapshot d mx perm)) (\<lambda>(recE, lim). sx_return (d, recE, lim, perm < lim))) (q1, s) P"
    if "lg_queue pg (64 * (n + 1)) q1 zs" "zs \<noteq> []" "vol_ok B g0 (n + 1) d zs" "\<forall>x \<in> set zs. newer d x" "set ys \<subseteq> set zs" for q1 zs
    by (rule runs_endSnapshot [OF that(1-4) lim mx(2)]) (use succ that in auto)
  have n1: "lg_queue pg (64 * (n + 1)) q ys" "vol_ok B g0 (n + 1) d ys" using lgq.values_mono [OF q] vol_ok_mono [OF v] by simp_all
  show ?thesis unfolding runs_bind [of "takeImplicitSnapshot env iv mx l"]
  proof (rule runs_implicitSnapshot [OF q dn v lim l mx(1)], unfold sum.case, goal_cases)
    case 1
    then show ?case using fin [OF n1(1) _ n1(2) new] by blast
  next
    case (2 q' x g)
    then show ?case using fin [OF 2(1) _ 2(2)] new by auto
  next
    case (3 m)
    then show ?case by (rule fail)
  qed
qed

text \<open>Preparing keeps every record that is not sent; it fails only if the device does not answer or is behind the queue.\<close>

definition prepare_fails :: "sv_env \<Rightarrow> u64 \<Rightarrow> u64 \<Rightarrow> bool" where
  "prepare_fails env mb t \<longleftrightarrow> (\<forall>l mx. getLsidSet (env_lsids env) = Inr l \<longrightarrow> getMaxWlogSendPb env mb ''prepareWlogTransfer'' = Inr mx
     \<longrightarrow> env_overflow env \<or> ls_latest l < t)"

lemma runs_prepare:
  assumes q: "lg_queue pg (64 * n) q xs" and dn: "done_is s d" and v: "vol_ok B g0 n d xs" and lim: "vol_limits B g0 n"
    and env: "env_ok pg B env" and mb: "unat mb < 2 ^ 40"
    and succ: "\<And>q' xs' e lim l. lg_queue pg (64 * (n + 1)) q' xs' \<Longrightarrow> vol_ok B g0 (n + 1) d xs' \<Longrightarrow> set (drop_old d xs) \<subseteq> set xs'
      \<Longrightarrow> range_ok B d xs' e lim \<Longrightarrow> getLsidSet (env_lsids env) = Inr l \<Longrightarrow> P (Inr (d, e, lim, ls_permanent l < lim)) (q', s)"
    and fail: "\<And>q' e. lg_queue pg (64 * n) q' (drop_old d xs) \<Longrightarrow> vol_ok B g0 n d (drop_old d xs) \<Longrightarrow> is_exc e
      \<Longrightarrow> prepare_fails env mb (lg_lsid (rec_top d xs)) \<Longrightarrow> P (Inl e) (q', s)"
  shows "runs (sx_bind (on_vol getDoneRecord) (\<lambda>recB. sx_bind (removeOldRecordsFromQueueFile recB) (\<lambda>_.
     sx_bind (sx_read (\<lambda>_. getLsidSet (env_lsids env))) (\<lambda>lsids.
     sx_bind (sx_read (\<lambda>_. getMaxWlogSendPb env mb ''prepareWlogTransfer'')) (\<lambda>mx.
     sx_bind (takeImplicitSnapshot env iv mx lsids) (\<lambda>_.
     sx_bind (ask_queue_opt (getEndSnapshot recB mx (ls_permanent lsids))) (\<lambda>(recE, lim).
       sx_return (recB, recE, lim, ls_permanent lsids < lim)))))))) (q, s) P"
proof -
  have b: "64 * n + 64 < 2 ^ 55" using lim by (simp add: vol_limits_def)
  have ys: "vol_ok B g0 n d (drop_old d xs)" "\<forall>x \<in> set (drop_old d xs). newer d x"
    using drop_old_ok [OF v] drop_old_newer [of d xs] v by (auto simp: vol_ok_def)
  show ?thesis
    unfolding runs_bind [of "on_vol getDoneRecord"] runs_on_vol runs_getDoneRecord [OF dn] sum.case
      runs_bind [of "removeOldRecordsFromQueueFile d"]
  proof (rule runs_removeOld [OF q b], unfold sum.case, rule runs_read_bindI, rule runs_read_bindI, goal_cases)
    case (1 q1 l mx)
    have mx: "mx \<noteq> 0" "unat mx < 2 ^ 62" "ls_latest l \<in> set B" using getMaxWlogSendPb_ok [OF 1(3) env mb] env 1(2) by (auto simp: env_ok_def)
    have top: "lg_lsid (rec_top d (drop_old d xs)) = lg_lsid (rec_top d xs)" using drop_old_top(1) [of d xs] v by (simp add: vol_ok_def)
    have f: "prepare_fails env mb (lg_lsid (rec_top d xs))" if "env_overflow env \<or> ls_latest l < lg_lsid (rec_top d (drop_old d xs))"
      using that 1(2,3) top by (simp add: prepare_fails_def)
    show ?case
    proof (rule runs_implicit_end [OF 1(1) dn ys(1) lim mx(3,1,2) ys(2)], goal_cases)
      case (1 q' xs' e lim)
      then show ?case using succ \<open>getLsidSet (env_lsids env) = Inr l\<close> by blast
    next
      case (2 m)
      then show ?case using fail [OF \<open>lg_queue pg (64 * n) q1 (drop_old d xs)\<close> ys(1)] f by simp
    qed
  next
    case (2 q1 l e)
    then show ?case using fail [OF 2(1) ys(1)] getMaxWlogSendPb_ok [OF 2(3) env mb] by (auto simp: prepare_fails_def)
  next
    case (3 q1 e)
    then show ?case using fail [OF 3(1) ys(1)] getLsidSet_exc by (auto simp: prepare_fails_def)
  qed
qed

lemma prepareWlogTransfer_ok:
  assumes "vol_inv pg B g0 n s d xs" and "vol_limits B g0 n" and "env_ok pg B env" and "unat mb < 2 ^ 40"
  shows "runs (prepareWlogTransfer env mb iv) s (\<lambda>r s'. same_outside s s' \<and> (\<exists>d' xs'. vol_inv pg B g0 (n + 1) s' d' xs'
    \<and> d' = d \<and> (\<forall>x \<in> set xs. newer d x \<longrightarrow> x \<in> set xs')
    \<and> (case r of Inl e \<Rightarrow> is_exc e \<and> prepare_fails env mb (lg_lsid (rec_top d xs))
       | Inr (b, e, lim, later) \<Rightarrow> b = d \<and> range_ok B d xs' e lim
           \<and> (\<forall>l. getLsidSet (env_lsids env) = Inr l \<longrightarrow> later = (ls_permanent l < lim)))))"
  unfolding prepareWlogTransfer_def
proof (rule runs_with_queue_inv [OF assms(1,3)])
  fix q
  assume q: "lg_queue pg (64 * n) q xs"
  have dn: "done_is s d" by (rule vol_inv_done [OF assms(1)])
  have v: "vol_ok B g0 n d xs" using assms(1) by (simp add: vol_inv_def)
  have sub: "x \<in> set xs \<Longrightarrow> newer d x \<Longrightarrow> x \<in> set (drop_old d xs)" for x using drop_old_newer [of d xs] v by (auto simp: vol_ok_def)
  show "runs (sx_bind (on_vol getDoneRecord) (\<lambda>recB. sx_bind (removeOldRecordsFromQueueFile recB) (\<lambda>_.
     sx_bind (sx_read (\<lambda>_. getLsidSet (env_lsids env))) (\<lambda>lsids.
     sx_bind (sx_read (\<lambda>_. getMaxWlogSendPb env mb ''prepareWlogTransfer'')) (\<lambda>mx.
     sx_bind (takeImplicitSnapshot env iv mx lsids) (\<lambda>_.
     sx_bind (ask_queue_opt (getEndSnapshot recB mx (ls_permanent lsids))) (\<lambda>(recE, lim).
       sx_return (recB, recE, lim, ls_permanent lsids < lim)))))))) (q, s) (\<lambda>r (q', s'). same_outside s s' \<and>
       (\<exists>d' xs'. lg_queue pg (64 * (n + 1)) q' xs' \<and> done_is s' d' \<and> vol_ok B g0 (n + 1) d' xs'
         \<and> d' = d \<and> (\<forall>x \<in> set xs. newer d x \<longrightarrow> x \<in> set xs')
         \<and> (case r of Inl e \<Rightarrow> is_exc e \<and> prepare_fails env mb (lg_lsid (rec_top d xs))
           | Inr (b, e, lim, later) \<Rightarrow> b = d \<and> range_ok B d xs' e lim
               \<and> (\<forall>l. getLsidSet (env_lsids env) = Inr l \<longrightarrow> later = (ls_permanent l < lim)))))"
  proof (rule runs_prepare [OF q dn v assms(2-4)], goal_cases)
    case (1 q' xs' e lim l)
    then show ?case using dn sub by auto
  next
    case (2 q' e)
    have "lg_queue pg (64 * (n + 1)) q' (drop_old d xs)" "vol_ok B g0 (n + 1) d (drop_old d xs)"
      using lgq.values_mono [OF 2(1)] vol_ok_mono [OF 2(2)] by simp_all
    then show ?case using 2(3,4) dn sub by auto
  qed
qed

section \<open>Garbage\<close>

lemma eraseWal_exc: "eraseWal ov t l = Inl e \<Longrightarrow> is_exc e"
  by (auto simp: eraseWal_def res_bind_Inl_iff getLsidSet_exc split: if_splits)

lemma runs_getDoneLsid: "done_is s d \<Longrightarrow> runs getDoneLsid s Q \<longleftrightarrow>
    (if lg_lsid d = - 1 then Q (Inl (Exception ''StorageVolInfo:doneLsid is invalid'')) s else Q (Inr (lg_lsid d)) s)"
  by (simp add: getDoneLsid_def runs_simps)

lemma runs_getDoneLsid_bindI:
  assumes "done_is s d" and "runs (g (lg_lsid d)) s Q" and "\<And>m. Q (Inl (Exception m)) s"
  shows "runs (sx_bind getDoneLsid g) s Q"
  using assms by (simp add: runs_bind runs_getDoneLsid)

lemma runs_option: "runs (\<lambda>s. case x of None \<Rightarrow> None | Some r \<Rightarrow> Some (r, s)) s Q \<longleftrightarrow> (\<exists>r. x = Some r \<and> Q r s)"
  by (auto simp: runs_def split: option.splits)

lemma runs_const: "runs (\<lambda>s. Some (r, s)) s Q \<longleftrightarrow> Q r s"
  by (simp add: runs_def)

text \<open>Only wlogs before the done record are erased.\<close>

lemma runs_deleteGarbage:
  assumes "done_is s d" and "\<And>b. Q (Inr b) s" and "\<And>b l. l \<le> lg_lsid d \<Longrightarrow> Q (Inr b) (s\<lparr>sv_erased := l # sv_erased s\<rparr>)"
    and "\<And>e. is_exc e \<Longrightarrow> Q (Inl e) s"
  shows "runs (deleteGarbageWlogs env env2) s Q"
  unfolding deleteGarbageWlogs_def runs_bind [of getDoneLsid] runs_getDoneLsid [OF assms(1)]
proof (simp add: assms(4), rule impI, rule runs_read_bindI, goal_cases)
  case (1 l)
  show ?case
  proof (cases "eraseWal (env_overflow env2) (env_lsids env2) (min (lg_lsid d) (ls_prevWritten l))")
    case (Inl e)
    then show ?thesis using assms(2) assms(4) eraseWal_exc [OF Inl] by (simp add: Let_def sv_eraseWal_def runs_simps)
  next
    case (Inr x)
    then have "x = Some a \<Longrightarrow> a \<le> lg_lsid d" for a using eraseWal_Some by fastforce
    then show ?thesis using assms(2,3) Inr by (cases x) (auto simp: Let_def sv_eraseWal_def runs_simps)
  qed
next
  case (2 e)
  then show ?case using assms(4) getLsidSet_exc by blast
qed

section \<open>Sending\<close>

text \<open>
  The log is a sequence of packs that begin at the lsids of \<open>B\<close>, and what is read at such an lsid leads to the next one.
\<close>

definition source_ok :: "u64 list \<Rightarrow> wlog_source \<Rightarrow> bool" where
  "source_ok B ws \<longleftrightarrow> (\<forall>l h. l \<in> set B \<longrightarrow> ws_header ws l = Some h \<longrightarrow> (\<exists>us vs. B = us @ l # nextLogpackLsid h # vs))"

lemma send_loop_ok:
  assumes "B = us @ l # vs" and "sorted_wrt (<) B" and "source_ok B ws" and "l \<le> lim"
  shows "\<exists>r. send_loop ws mx lim l = Some r \<and> (case r of Inl e \<Rightarrow> is_exc e
    | Inr lE \<Rightarrow> lE \<in> set B \<and> l \<le> lE \<and> lE \<le> lim \<and> (lim \<in> set B \<longrightarrow> lE = lim))"
  using assms(1,4)
proof (induction vs arbitrary: us l)
  case Nil
  have "ws_header ws l = None"
  proof (rule ccontr)
    assume "ws_header ws l \<noteq> None"
    then obtain h us' vs' where "B = us' @ l # nextLogpackLsid h # vs'" using assms(3) Nil.prems(1) by (fastforce simp: source_ok_def)
    then show False using Nil.prems(1) assms(2) by (auto simp: append_eq_append_conv2 append_eq_Cons_conv Cons_eq_append_conv sorted_wrt_append)
  qed
  then show ?case using Nil.prems by (subst send_loop.simps) auto
next
  case (Cons v vs)
  show ?case
  proof (cases "\<not> ws_stop ws l \<and> l \<noteq> lim \<and> ws_header ws l \<noteq> None")
    case False
    then show ?thesis using Cons.prems by (subst send_loop.simps) auto
  next
    case True
    then obtain h where h: "ws_header ws l = Some h" by blast
    obtain us' vs' where "B = us' @ l # nextLogpackLsid h # vs'" using assms(3) Cons.prems(1) h by (fastforce simp: source_ok_def)
    then have v: "nextLogpackLsid h = v"
      using Cons.prems(1) assms(2) by (auto simp: append_eq_append_conv2 append_eq_Cons_conv Cons_eq_append_conv sorted_wrt_append)
    have lt: "l < v" "l \<in> set B" using Cons.prems(1) assms(2) by (auto simp: sorted_wrt_append)
    have far: "lim \<notin> set B" if "lim < v"
      using Cons.prems assms(2) True that by (auto simp: sorted_wrt_append dest: order.strict_trans2)
    show ?thesis
    proof (cases "lim < v \<or> \<not> list_all (ws_io ws l) [0..<unat (lh_n_records h)] \<or> mx < ucast (lh_total_io_size h) + 1")
      case True': True
      then show ?thesis using True h v far lt Cons.prems(2)
        by (subst send_loop.simps) (auto simp: Let_def verifyMaxWlogSendPbIsNotTooSmall_def)
    next
      case False
      then have "send_loop ws mx lim l = send_loop ws mx lim v"
        using True h v by (subst send_loop.simps) (simp add: Let_def verifyMaxWlogSendPbIsNotTooSmall_def)
      then show ?thesis using Cons.IH [of "us @ [l]" v] Cons.prems(1) False lt(1) by (fastforce split: sum.splits)
    qed
  qed
qed

lemma snap_set1_ok [simp]: "snap_set1 g = Inr (snap g g)"
  by (simp add: snap_set1_def snap_verify_def)

lemma runs_sendWlogs:
  assumes v: "vol_ok B g0 n d xs" and r: "range_ok B d xs e lim" and B: "sorted_wrt (<) B" and w: "source_ok B ws" and p: "env_ok pg B env"
    and fail: "\<And>e. is_exc e \<Longrightarrow> \<forall>lE. send_loop ws (mb * 0x100000 div ucast (env_pbs env)) lim (lg_lsid d) = Some (Inr lE) \<longrightarrow> (\<exists>D. \<not> net D)
      \<Longrightarrow> Q (Inl e) s"
    and succ: "\<And>lE rS D. lE \<in> set B \<Longrightarrow> lg_lsid d \<le> lE \<Longrightarrow> lE \<le> lim \<Longrightarrow> (lim \<in> set B \<longrightarrow> lE = lim) \<Longrightarrow> sentRecord d e lE = Inr rS
      \<Longrightarrow> snapB D = snap (lg_gid d) (lg_gid d) \<Longrightarrow> snapE D = snap (lg_gid rS) (lg_gid rS)
      \<Longrightarrow> Q (Inr lE) (s\<lparr>sv_acked := (D, lg_lsid d, lE) # sv_acked s\<rparr>)"
  shows "runs (sendWlogs env ws net mb (d, e, lim)) s Q"
proof -
  let ?mx = "mb * 0x100000 div ucast (env_pbs env) :: u64"
  obtain us vs where l: "B = us @ lg_lsid d # vs" using v by (auto simp: vol_ok_def dest: split_list)
  have le: "lg_lsid d \<le> lim" using r by (simp add: range_ok_def)
  obtain x where x: "send_loop ws ?mx lim (lg_lsid d) = Some x" "case x of Inl e \<Rightarrow> is_exc e
    | Inr lE \<Rightarrow> lE \<in> set B \<and> lg_lsid d \<le> lE \<and> lE \<le> lim \<and> (lim \<in> set B \<longrightarrow> lE = lim)"
    using send_loop_ok [OF l B w le] by blast
  have pb: "env_pbs env \<noteq> 0" using p by (simp add: env_ok_def)
  show ?thesis
  proof (cases x)
    case (Inl e)
    then show ?thesis using x fail pb by (simp add: sendWlogs_def runs_bind runs_basic runs_option runs_const)
  next
    case (Inr lE)
    then have lE: "lE \<in> set B" "lg_lsid d \<le> lE" "lE \<le> lim" "lim \<in> set B \<longrightarrow> lE = lim" using x(2) by simp_all
    obtain rS where rS: "sentRecord d e lE = Inr rS" "lE = lg_lsid e \<longrightarrow> lg_gid rS = lg_gid e"
      "lE \<noteq> lg_lsid e \<longrightarrow> lg_gid rS = lg_gid d + 1 \<and> lg_gid d + 1 < lg_gid e" using sentRecord_ok [OF v r lE(1-3)] lE(4) by blast
    let ?D = "MetaDiff_default\<lparr>snapB := snap (lg_gid d) (lg_gid d), snapE := snap (lg_gid rS) (lg_gid rS),
      d_timestamp := lg_timestamp e, isMergeable := lg_isMergeable d\<rparr>"
    have D: "getTransferDiff d e lE = Inr ?D" using rS(2,3) by (simp add: getTransferDiff_def)
    have "runs (sendWlogs env ws net mb (d, e, lim)) s Q \<longleftrightarrow>
      (if net ?D then Q (Inr lE) (s\<lparr>sv_acked := (?D, lg_lsid d, lE) # sv_acked s\<rparr>) else Q (Inl (Exception ''network'')) s)"
      using x(1) Inr pb D by (simp add: sendWlogs_def send_diff_def runs_bind runs_basic runs_option runs_const)
    then show ?thesis using succ [OF lE rS(1), of ?D] fail [of "Exception ''network''"] by (cases "net ?D") auto
  qed
qed

lemma runs_finish:
  assumes i: "vol_inv pg B g0 n s d xs" and r: "range_ok B d xs e lim" and lims: "vol_limits B g0 n" and env: "env_ok pg B env"
    and lE: "lE \<in> set B" "lg_lsid d \<le> lE" "lE \<le> lim" "lim \<in> set B \<longrightarrow> lE = lim" and rS: "sentRecord d e lE = Inr rS"
    and Q: "\<And>b s'. same_outside s s' \<Longrightarrow> vol_inv pg B g0 n s' rS (drop_old rS xs) \<Longrightarrow> Q (Inr b) s'"
  shows "runs (finishWlogTransfer env d e lE) s Q"
proof -
  have v: "vol_ok B g0 n d xs" using i by (simp add: vol_inv_def)
  have dn: "done_is s d" by (rule vol_inv_done [OF i])
  have vr: "vol_ok B g0 n rS xs" using sentRecord_ok [OF v r lE(1-3)] lE(4) rS by auto
  have b: "64 * n + 64 < 2 ^ 55" using lims by (simp add: vol_limits_def)
  have le: "lE \<le> lg_lsid e" "xs \<noteq> []" using r lE(3) by (auto simp: range_ok_def)
  obtain ys y where ys: "xs = ys @ [y]" using le(2) by (cases xs rule: rev_cases) auto
  let ?w = "\<lambda>f. with_queue env f"
  let ?f = "sx_bind (ask_queue (\<lambda>q. if q_empty q
         then Inl (Exception ''finishWlogTransfer:Maybe BUG: queue must have at lease one record.'') else Inr ())) (\<lambda>_.
       sx_bind (ask_queue (q_back lsidgid_load)) (\<lambda>recEx.
       sx_bind (sx_read (\<lambda>_. verifyMetaLsidGidEquality e recEx ''finishWlogTransfer'')) (\<lambda>_.
       sx_bind (sx_read (\<lambda>_. ensure (lg_lsid d \<le> lE \<and> lE \<le> lg_lsid e) Assert_Failed (sentRecord d e lE))) (\<lambda>recS.
       sx_bind (on_vol (setDoneRecord recS)) (\<lambda>_.
       sx_bind (removeOldRecordsFromQueueFile recS) (\<lambda>_.
         ask_queue (\<lambda>q. Inr (\<not> q_empty q))))))))"
  have ver: "verifyMetaLsidGidEquality a c m = Inr ()" for a c m by (simp add: verifyMetaLsidGidEquality_def)
  have "runs ?f (q, s) (\<lambda>r (q', s'). same_outside s s' \<and> (\<exists>d' xs'. lg_queue pg (64 * n) q' xs' \<and> done_is s' d' \<and> vol_ok B g0 n d' xs'
      \<and> (d' = rS \<and> xs' = drop_old rS xs \<and> (\<exists>b. r = Inr b))))" if q: "lg_queue pg (64 * n) q xs" for q
  proof -
    have qb: "\<not> q_empty q" "q_back lsidgid_load q = Inr y"
      using lgq.values_empty [OF q] lgq.values_back [of pg _ q ys y] q ys by simp_all
    show ?thesis
      unfolding runs_bind runs_ask runs_basic runs_on_vol runs_setDoneRecord sum.case qb ver rS
      by (simp add: qb lE(2) le(1) rS ver, rule runs_removeOld [OF q b]) (use drop_old_ok [OF vr] in \<open>auto simp: runs_ask\<close>)
  qed
  note w = runs_with_queue_inv [where f = ?f and Q = "\<lambda>r d' xs'. d' = rS \<and> xs' = drop_old rS xs \<and> (\<exists>b. r = Inr b)", OF i env this]
  have "runs (finishWlogTransfer env d e lE) s Q \<longleftrightarrow> runs (with_queue env ?f) s Q"
    by (simp add: finishWlogTransfer_def runs_bind [of getDoneRecord] runs_getDoneRecord [OF dn] runs_bind [of "sx_read _"] runs_basic ver)
  moreover have "runs (with_queue env ?f) s Q" by (rule runs_mono [OF w]) (auto intro: Q)
  ultimately show ?thesis by simp
qed

lemma runs_isRequired:
  assumes i: "vol_inv pg B g0 n s d xs" and env: "env_ok pg B env"
    and Q: "\<And>r s'. same_outside s s' \<Longrightarrow> vol_inv pg B g0 n s' d xs \<Longrightarrow> (\<And>e. r = Inl e \<Longrightarrow> is_exc e) \<Longrightarrow> Q r s'"
  shows "runs (isWlogTransferRequiredDetail env later) s Q"
proof -
  have dn: "done_is s d" by (rule vol_inv_done [OF i])
  have "runs (ask_queue (\<lambda>q. Inr (q_empty q))) (q, s) (\<lambda>r (q', s'). same_outside s s' \<and> (\<exists>d' xs'. lg_queue pg (64 * n) q' xs' \<and> done_is s' d' \<and> vol_ok B g0 n d' xs'
      \<and> (d' = d \<and> xs' = xs \<and> (\<exists>b. r = Inr b))))" if "lg_queue pg (64 * n) q xs" for q
    using that dn i by (auto simp: runs_simps vol_inv_def)
  note w = runs_with_queue_inv [where Q = "\<lambda>r d' xs'. d' = d \<and> xs' = xs \<and> (\<exists>b. r = Inr b)", OF i env this]
  show ?thesis unfolding isWlogTransferRequiredDetail_def
  proof (rule runs_getDoneLsid_bindI [OF dn], rule runs_read_bindI, goal_cases)
    case (1 l)
    show ?case unfolding Let_def runs_bind by (rule runs_mono [OF w]) (auto simp: runs_simps intro: Q)
  next
    case (2 e)
    then show ?case using i getLsidSet_exc by (intro Q) auto
  next
    case (3 m)
    then show ?case using i by (intro Q) auto
  qed
qed

end
