(* ===== verification/Storage_Run.thy ===== *)
theory Storage_Run
  imports Storage_Steps Meta_Algebra
begin

text \<open>
  The life of a volume of the storage server: snapshots and transfers of wlogs in any order, with whatever the device,
  the network and the clock answer, erasing in the state \<open>Standby\<close>, and crashes between two operations, after a proxy has taken a
  diff and before the done record is written (or with the acknowledgement lost), and between the update of the done record
  and that of the queue.
\<close>

section \<open>Runs\<close>

text \<open>
  \<open>sr_wait\<close> is the range that is being sent, \<open>sr_snaps\<close> are the gids of the snapshots that were asked for, the last first,
  \<open>sr_dropped\<close> the oldest lsids that the driver was told in the state \<open>Standby\<close>.
\<close>

record storage_run =
  sr_vol :: storage_vol
  sr_wait :: "(MetaLsidGid \<times> MetaLsidGid \<times> u64) option"
  sr_snaps :: "u64 list"
  sr_dropped :: "u64 list"

datatype vol_op =
    Op_Snapshot sv_env u64
  | Op_Begin "nat \<Rightarrow> sv_env" u64 u64
  | Op_End "nat \<Rightarrow> sv_env" wlog_source "MetaDiff \<Rightarrow> bool" u64
  | Op_Crash "nat \<Rightarrow> sv_env" wlog_source "MetaDiff \<Rightarrow> bool" u64
  | Op_Lost sv_env wlog_source "MetaDiff \<Rightarrow> bool" u64
  | Op_Standby sv_env sv_env

text \<open>The end of a transfer, cut off when the done record is written and the queue is not.\<close>

definition extract_crash :: "(nat \<Rightarrow> sv_env) \<Rightarrow> wlog_source \<Rightarrow> (MetaDiff \<Rightarrow> bool) \<Rightarrow> u64 \<Rightarrow> MetaLsidGid \<times> MetaLsidGid \<times> u64
    \<Rightarrow> (storage_vol, unit) sx" where
  "extract_crash envs ws net maxWlogSendMb = (\<lambda>(rec0, rec1, lsidLimit).
     sx_bind (sendWlogs (envs 0) ws net maxWlogSendMb (rec0, rec1, lsidLimit)) (\<lambda>lsidE.
     sx_bind (sx_read (\<lambda>_. ensure (lg_lsid rec0 \<le> lsidE \<and> lsidE \<le> lg_lsid rec1) Assert_Failed (sentRecord rec0 rec1 lsidE)))
       setDoneRecord))"

text \<open>An operation on the volume within a run, and what becomes of its result.\<close>

definition on_run :: "(storage_vol, 'a) sx \<Rightarrow> ('a res \<Rightarrow> storage_run \<Rightarrow> storage_run) \<Rightarrow> (storage_run, unit) sx" where
  "on_run f k r = (case f (sr_vol r) of
       None \<Rightarrow> None
     | Some (x, v) \<Rightarrow> Some (case x of Inl e \<Rightarrow> Inl e | Inr _ \<Rightarrow> Inr (), k x (r\<lparr>sr_vol := v\<rparr>)))"

definition note_snapshot :: "u64 res \<Rightarrow> storage_run \<Rightarrow> storage_run" where
  "note_snapshot x r = (case x of Inl e \<Rightarrow> r | Inr g \<Rightarrow> r\<lparr>sr_snaps := g # sr_snaps r\<rparr>)"

definition note_range :: "(bool + MetaLsidGid \<times> MetaLsidGid \<times> u64) res \<Rightarrow> storage_run \<Rightarrow> storage_run" where
  "note_range x r = r\<lparr>sr_wait := (case x of Inl e \<Rightarrow> None | Inr (Inl b) \<Rightarrow> None | Inr (Inr w) \<Rightarrow> Some w)\<rparr>"

definition note_end :: "'a res \<Rightarrow> storage_run \<Rightarrow> storage_run" where
  "note_end x r = r\<lparr>sr_wait := None\<rparr>"

text \<open>
  \<open>Op_Crash\<close> and \<open>Op_Lost\<close> are the end of a transfer that is cut off: in \<open>Op_Lost\<close> the proxy has taken the diff, and the server dies
  or the connection breaks before \<open>finishWlogTransfer\<close>. \<open>Op_Standby\<close> is the task of a volume in the state \<open>Standby\<close>.
\<close>

fun vol_step :: "vol_op \<Rightarrow> (storage_run, unit) sx" where
  "vol_step (Op_Snapshot env mb) r = on_run (takeSnapshot env mb) note_snapshot r"
| "vol_step (Op_Begin envs mb iv) r = on_run (extract_begin envs mb iv) note_range r"
| "vol_step (Op_End envs ws net mb) r =
     (case sr_wait r of None \<Rightarrow> Some (Inr (), r) | Some w \<Rightarrow> on_run (extract_end envs ws net mb w) note_end r)"
| "vol_step (Op_Crash envs ws net mb) r =
     (case sr_wait r of None \<Rightarrow> Some (Inr (), r) | Some w \<Rightarrow> on_run (extract_crash envs ws net mb w) note_end r)"
| "vol_step (Op_Lost env ws net mb) r =
     (case sr_wait r of None \<Rightarrow> Some (Inr (), r) | Some w \<Rightarrow> on_run (sendWlogs env ws net mb w) note_end r)"
| "vol_step (Op_Standby env env2) r = (case deleteAllWlogs env env2 (sr_vol r) of
       None \<Rightarrow> None
     | Some (x, v) \<Rightarrow> Some (x, r\<lparr>sr_vol := v,
         sr_dropped := take (length (sv_erased v) - length (sv_erased (sr_vol r))) (sv_erased v) @ sr_dropped r\<rparr>))"

text \<open>After an exception the server goes on with the next operation.\<close>

fun vol_run :: "vol_op list \<Rightarrow> storage_run \<Rightarrow> (unit res list \<times> storage_run) option" where
  "vol_run [] r = Some ([], r)"
| "vol_run (p # ps) r = (case vol_step p r of
       None \<Rightarrow> None
     | Some (x, r1) \<Rightarrow> (case vol_run ps r1 of None \<Rightarrow> None | Some (xs, r2) \<Rightarrow> Some (x # xs, r2)))"

fun op_ok :: "u64 \<Rightarrow> u64 list \<Rightarrow> vol_op \<Rightarrow> bool" where
  "op_ok pg B (Op_Snapshot env mb) \<longleftrightarrow> env_ok pg B env \<and> unat mb < 2 ^ 40"
| "op_ok pg B (Op_Begin envs mb iv) \<longleftrightarrow> (\<forall>i. env_ok pg B (envs i)) \<and> unat mb < 2 ^ 40"
| "op_ok pg B (Op_End envs ws net mb) \<longleftrightarrow> (\<forall>i. env_ok pg B (envs i)) \<and> source_ok B ws"
| "op_ok pg B (Op_Crash envs ws net mb) \<longleftrightarrow> (\<forall>i. env_ok pg B (envs i)) \<and> source_ok B ws"
| "op_ok pg B (Op_Lost env ws net mb) \<longleftrightarrow> env_ok pg B env \<and> source_ok B ws"
| "op_ok pg B (Op_Standby env env2) \<longleftrightarrow> True"

fun is_lost :: "vol_op \<Rightarrow> bool" where
  "is_lost (Op_Lost env ws net mb) \<longleftrightarrow> True"
| "is_lost _ \<longleftrightarrow> False"

fun is_standby :: "vol_op \<Rightarrow> bool" where
  "is_standby (Op_Standby env env2) \<longleftrightarrow> True"
| "is_standby _ \<longleftrightarrow> False"

section \<open>What the outside has seen\<close>

text \<open>
  The acknowledged diffs, the last one first, lead from the first gid to \<open>g\<close>, and their ranges of lsids follow each other
  from 0 to \<open>l\<close>. With \<open>k\<close> there are also diffs that the storage server did not get to know of: each of them begins at the gid and lsid
  that the others had reached by then, and is sent again from there.
\<close>

fun sent_upto :: "bool \<Rightarrow> u64 \<Rightarrow> u64 \<Rightarrow> u64 \<Rightarrow> (MetaDiff \<times> u64 \<times> u64) list \<Rightarrow> bool" where
  "sent_upto k g0 g l [] \<longleftrightarrow> g = g0 \<and> l = 0"
| "sent_upto k g0 g l ((D, lB, lE) # ts) \<longleftrightarrow> lB \<le> lE \<and> gidB (snapB D) < gidB (snapE D)
     \<and> gidE (snapB D) = gidB (snapB D) \<and> gidE (snapE D) = gidB (snapE D)
     \<and> (gidB (snapE D) = g \<and> lE = l \<and> sent_upto k g0 (gidB (snapB D)) lB ts
        \<or> k \<and> gidB (snapB D) = g \<and> lB = l \<and> sent_upto k g0 g l ts)"

text \<open>What a receiver does with the diffs, the first one first: it skips what it has, and has no use for one that begins later.\<close>

fun receive_all :: "MetaSnap \<Rightarrow> MetaDiff list \<Rightarrow> MetaSnap res" where
  "receive_all s [] = Inr s"
| "receive_all s (d # ds) = (case getRelation s d of
       TOO_OLD_DIFF \<Rightarrow> receive_all s ds
     | APPLICABLE_DIFF \<Rightarrow> res_bind (apply_diff s d) (\<lambda>s'. receive_all s' ds)
     | _ \<Rightarrow> Inl (Exception ''too-new-diff''))"

definition sent_ends :: "(MetaDiff \<times> u64 \<times> u64) list \<Rightarrow> u64 set" where
  "sent_ends ts = (\<lambda>t. gidB (snapE (fst t))) ` set ts"

lemma sent_ends_simps [simp]: "sent_ends [] = {}" "sent_ends (t # ts) = insert (gidB (snapE (fst t))) (sent_ends ts)"
  by (simp_all add: sent_ends_def)

lemma apply_one:
  assumes "gidB (snapB D) \<le> h" and "h < gidB (snapE D)" and "gidE (snapB D) = gidB (snapB D)" and "gidE (snapE D) = gidB (snapE D)"
  shows "canApply (snap h h) D" "apply_diff (snap h h) D = Inr (snap (gidB (snapE D)) (gidB (snapE D)))"
  using assms by (auto simp: apply_diff_def canApply_def getRelation_def snap_verify_def diff_isClean_def snap_isClean_def not_le
      max_def Let_def)

lemma sent_apply: "sent_upto False g0 g l ts \<Longrightarrow> apply_vec (snap g0 g0) (rev (map fst ts)) = Inr (snap g g)"
proof (induction ts arbitrary: g l)
  case (Cons t ts)
  obtain D lB lE where t: "t = (D, lB, lE)" by (cases t)
  then have D: "gidB (snapB D) < gidB (snapE D)" "gidE (snapB D) = gidB (snapB D)" "gidE (snapE D) = gidB (snapE D)"
    "g = gidB (snapE D)" "sent_upto False g0 (gidB (snapB D)) lB ts" using Cons.prems by auto
  show ?case using apply_one [OF order_refl D(1-3)] Cons.IH [OF D(5)] D(4) t by (simp add: apply_vec_snoc)
qed simp

lemma receive_all_snoc:
  "receive_all s (ds @ [d]) = res_bind (receive_all s ds) (\<lambda>t. receive_all t [d])"
proof (induction ds arbitrary: s)
  case (Cons x ds)
  then show ?case by (cases "apply_diff s x") (auto split: Relation.splits)
qed simp

lemma sent_receive: "sent_upto k g0 g l ts \<Longrightarrow> \<exists>h. g \<le> h \<and> receive_all (snap g0 g0) (rev (map fst ts)) = Inr (snap h h)"
proof (induction ts arbitrary: g l)
  case (Cons t ts)
  obtain D lB lE where t: "t = (D, lB, lE)" by (cases t)
  then have D: "gidB (snapB D) < gidB (snapE D)" "gidE (snapB D) = gidB (snapB D)" "gidE (snapE D) = gidB (snapE D)"
    "g = gidB (snapE D) \<or> g = gidB (snapB D)" using Cons.prems by auto
  obtain h where h: "gidB (snapB D) \<le> h" "receive_all (snap g0 g0) (rev (map fst ts)) = Inr (snap h h)"
    using Cons t by (fastforce dest: order_less_imp_le)
  show ?case
  proof (cases "gidB (snapE D) \<le> h")
    case True
    then show ?thesis using h D t by (auto simp: receive_all_snoc getRelation_def not_less intro!: exI [of _ h])
  next
    case False
    then have "receive_all (snap h h) [D] = Inr (snap (gidB (snapE D)) (gidB (snapE D)))"
      using apply_one [of D h] h(1) D by (simp add: canApply_def)
    then show ?thesis using h D t by (auto simp: receive_all_snoc)
  qed
qed simp

definition outside_ok :: "bool \<Rightarrow> u64 set \<Rightarrow> u64 \<Rightarrow> storage_vol \<Rightarrow> MetaLsidGid \<Rightarrow> bool" where
  "outside_ok k K g0 s d \<longleftrightarrow> sent_upto k g0 (lg_gid d) (lg_lsid d) (sv_acked s)
     \<and> (\<forall>l \<in> set (sv_erased s). l \<le> lg_lsid d \<or> l \<in> K)"

text \<open>
  A snapshot that was asked for is the end of an acknowledged diff or a record of the queue, and no acknowledged diff
  reaches over it.
\<close>

definition reaches_over :: "MetaDiff \<times> u64 \<times> u64 \<Rightarrow> u64 \<Rightarrow> bool" where
  "reaches_over t g \<longleftrightarrow> gidB (snapB (fst t)) < g \<and> g < gidB (snapE (fst t))"

definition snaps_ok :: "u64 list \<Rightarrow> storage_vol \<Rightarrow> MetaLsidGid \<Rightarrow> MetaLsidGid list \<Rightarrow> bool" where
  "snaps_ok gs s d xs \<longleftrightarrow> (\<forall>x \<in> sent_ends (sv_acked s). x \<le> lg_gid (rec_top d xs))
     \<and> (\<forall>g \<in> set gs. (\<forall>t \<in> set (sv_acked s). \<not> reaches_over t g) \<and> (if g \<le> lg_gid d then g \<in> sent_ends (sv_acked s)
        else \<exists>x \<in> set xs. lg_gid x = g \<and> newer d x \<and> \<not> lg_isMergeable x))"

lemma outside_same: "same_outside s s' \<Longrightarrow> outside_ok k K g0 s' d = outside_ok k K g0 s d \<and> snaps_ok gs s' d xs = snaps_ok gs s d xs"
  by (simp add: same_outside_def outside_ok_def snaps_ok_def)

lemma snaps_mono:
  assumes "snaps_ok gs s d xs" and "\<And>x. x \<in> set xs \<Longrightarrow> newer d x \<Longrightarrow> x \<in> set ys" and "lg_gid (rec_top d xs) \<le> lg_gid (rec_top d ys)"
  shows "snaps_ok gs s d ys"
proof -
  have "\<forall>x \<in> sent_ends (sv_acked s). x \<le> lg_gid (rec_top d ys)" using assms(1,3) unfolding snaps_ok_def by (meson order_trans)
  then show ?thesis using assms(1,2) unfolding snaps_ok_def by meson
qed

lemma top_mono:
  assumes "vol_ok B m n d xs'" and "\<forall>x \<in> set xs. newer d x \<longrightarrow> x \<in> set xs'" and "vol_ok B m' n' d xs"
  shows "lg_gid (rec_top d xs) \<le> lg_gid (rec_top d xs')"
proof -
  have d: "lg_gid d \<le> lg_gid (rec_top d xs')" using assms(1) by (simp add: vol_ok_def recs_ok_def passed_def)
  have le: "lg_gid x \<le> lg_gid (rec_top d xs')" if "x \<in> set xs'" for x
    using assms(1) that by (cases xs') (auto simp: vol_ok_def recs_ok_def newer_def)
  show ?thesis
  proof (cases xs)
    case (Cons x zs)
    then have "passed d x \<or> newer d x" using assms(3) by (simp add: vol_ok_def recs_ok_def)
    then show ?thesis using Cons d le assms(2) by (auto simp: passed_def)
  qed (use d in simp)
qed

lemma snaps_Cons:
  assumes "snaps_ok gs s d xs" and "newer d y" and "\<not> lg_isMergeable y" and "lg_gid (rec_top d xs) < lg_gid y"
  shows "snaps_ok (lg_gid y # gs) s d (y # xs)"
proof -
  have s: "snaps_ok gs s d (y # xs)" by (rule snaps_mono [OF assms(1)]) (use assms(4) in simp_all)
  have "\<not> reaches_over t (lg_gid y)" if "t \<in> set (sv_acked s)" for t
    using assms(1,4) that by (auto simp: snaps_ok_def sent_ends_def reaches_over_def not_less)
  moreover have "\<not> lg_gid y \<le> lg_gid d" using assms(2) by (simp add: newer_def not_le)
  ultimately show ?thesis using s assms(2,3) unfolding snaps_ok_def by (metis list.set_intros(1) set_ConsD)
qed

section \<open>The steps keep the invariant\<close>

text \<open>An operation that sends nothing.\<close>

definition quiet :: "bool \<Rightarrow> u64 set \<Rightarrow> u64 \<Rightarrow> u64 list \<Rightarrow> u64 \<Rightarrow> nat \<Rightarrow> storage_vol \<Rightarrow> MetaLsidGid \<Rightarrow> MetaLsidGid list \<Rightarrow> 'a res \<Rightarrow> storage_vol \<Rightarrow> bool" where
  "quiet k K pg B g0 n s d xs r s' \<longleftrightarrow> vol_inv pg B (unat g0) n s' d xs \<and> outside_ok k K g0 s' d \<and> sv_acked s' = sv_acked s
     \<and> (\<forall>e. r = Inl e \<longrightarrow> is_exc e)"

lemma quiet_trans: "quiet k K pg B g0 n s d xs r s1 \<Longrightarrow> quiet k K pg B g0 n s1 d xs r' s2 \<Longrightarrow> quiet k K pg B g0 n s d xs r' s2"
  by (simp add: quiet_def)

lemma quiet_Inr: "vol_inv pg B (unat g0) n s d xs \<Longrightarrow> outside_ok k K g0 s d \<Longrightarrow> quiet k K pg B g0 n s d xs (Inr b) s"
  by (simp add: quiet_def)

lemma quiet_bindI:
  fixes f :: "(storage_vol, 'a) sx" and g :: "'a \<Rightarrow> (storage_vol, 'b) sx"
  assumes "runs f s (quiet k K pg B g0 n s d xs)"
    and "\<And>a s'. vol_inv pg B (unat g0) n s' d xs \<Longrightarrow> outside_ok k K g0 s' d \<Longrightarrow> runs (g a) s' (quiet k K pg B g0 n s' d xs)"
  shows "runs (sx_bind f g) s (quiet k K pg B g0 n s d xs)"
proof (rule runs_bindI [OF assms(1)])
  fix a :: 'a and s'
  assume q: "quiet k K pg B g0 n s d xs (Inr a) s'"
  then show "runs (g a) s' (quiet k K pg B g0 n s d xs)"
    using runs_mono [OF assms(2)] quiet_trans [OF q] by (simp add: quiet_def)
qed (simp add: quiet_def)

lemma runs_quiet_garbage:
  assumes "vol_inv pg B (unat g0) n s d xs" and "outside_ok k K g0 s d"
  shows "runs (deleteGarbageWlogs env env2) s (quiet k K pg B g0 n s d xs)"
  by (rule runs_deleteGarbage [OF vol_inv_done [OF assms(1)]])
    (use assms in \<open>auto simp: quiet_def vol_inv_def vol_rep_def done_is_def outside_ok_def\<close>)

lemma runs_quiet_required:
  assumes "vol_inv pg B (unat g0) n s d xs" and "outside_ok k K g0 s d" and "env_ok pg B env"
  shows "runs (isWlogTransferRequiredDetail env later) s (quiet k K pg B g0 n s d xs)"
  by (rule runs_isRequired [OF assms(1,3)]) (use assms in \<open>auto simp: quiet_def outside_ok_def same_outside_def\<close>)

lemma runs_return_quiet:
  "vol_inv pg B (unat g0) n s d xs \<Longrightarrow> outside_ok k K g0 s d \<Longrightarrow> runs (sx_return a) s (quiet k K pg B g0 n s d xs)"
  by (simp add: runs_basic quiet_def)

text \<open>The beginning of a transfer.\<close>

definition began :: "bool \<Rightarrow> u64 set \<Rightarrow> u64 \<Rightarrow> u64 list \<Rightarrow> u64 \<Rightarrow> nat \<Rightarrow> storage_vol \<Rightarrow> MetaLsidGid \<Rightarrow> MetaLsidGid list
    \<Rightarrow> (bool + MetaLsidGid \<times> MetaLsidGid \<times> u64) res \<Rightarrow> storage_vol \<Rightarrow> bool" where
  "began k K pg B g0 n s d xs r s' \<longleftrightarrow> (\<exists>xs'. quiet k K pg B g0 n s d xs' r s' \<and> (\<forall>x \<in> set xs. newer d x \<longrightarrow> x \<in> set xs')
     \<and> (\<forall>b e lim. r = Inr (Inr (b, e, lim)) \<longrightarrow> b = d \<and> range_ok B d xs' e lim))"

lemma began_quiet: "quiet k K pg B g0 n s d xs r s' \<Longrightarrow> \<forall>w. r \<noteq> Inr (Inr w) \<Longrightarrow> began k K pg B g0 (n + 1) s d xs r s'"
  using vol_inv_mono [of pg B "unat g0" n s' d xs "n + 1"] by (fastforce simp: began_def quiet_def)

lemma runs_extract_begin:
  assumes i: "vol_inv pg B (unat g0) n s d xs" and o: "outside_ok k K g0 s d" and lims: "vol_limits B (unat g0) n"
    and envs: "\<And>i. env_ok pg B (envs i)" and mb: "unat mb < 2 ^ 40"
  shows "runs (extract_begin envs mb iv) s (began k K pg B g0 (n + 1) s d xs)"
  unfolding extract_begin_def
proof (rule runs_bindI [OF runs_quiet_garbage [OF i o]])
  fix garbage :: bool and s1
  assume "quiet k K pg B g0 n s d xs (Inr garbage) s1"
  then have s1: "vol_inv pg B (unat g0) n s1 d xs" "outside_ok k K g0 s1 d" "sv_acked s1 = sv_acked s" by (simp_all add: quiet_def)
  show "runs (sx_bind (isWlogTransferRequiredDetail (envs 2) False) (\<lambda>now. if \<not> now
      then if garbage then sx_return (Inl True) else sx_bind (isWlogTransferRequiredDetail (envs 3) True) (\<lambda>later. sx_return (Inl later))
      else sx_bind (prepareWlogTransfer (envs 3) mb iv) (\<lambda>(rec0, rec1, lsidLimit, doLater).
        if doLater then sx_return (Inl True) else sx_return (Inr (rec0, rec1, lsidLimit))))) s1 (began k K pg B g0 (n + 1) s d xs)"
  proof (rule runs_bindI [OF runs_quiet_required [OF s1(1,2) envs]])
    fix now :: bool and s2
    assume "quiet k K pg B g0 n s1 d xs (Inr now) s2"
    then have s2: "vol_inv pg B (unat g0) n s2 d xs" "outside_ok k K g0 s2 d" "sv_acked s2 = sv_acked s" using s1(3) by (simp_all add: quiet_def)
    have q: "began k K pg B g0 (n + 1) s d xs r s3" if "quiet k K pg B g0 n s2 d xs r s3" "\<forall>w. r \<noteq> Inr (Inr w)" for r s3
      using began_quiet [OF that] s2(3) by (simp add: began_def quiet_def)
    have later: "runs (sx_bind (isWlogTransferRequiredDetail (envs 3) True) (\<lambda>later. sx_return (Inl later))) s2 (began k K pg B g0 (n + 1) s d xs)"
      by (rule runs_bindI [OF runs_quiet_required [OF s2(1,2) envs]]) (auto simp: runs_basic quiet_def intro!: q [simplified])
    have prep: "runs (sx_bind (prepareWlogTransfer (envs 3) mb iv) (\<lambda>(rec0, rec1, lsidLimit, doLater).
        if doLater then sx_return (Inl True) else sx_return (Inr (rec0, rec1, lsidLimit)))) s2 (began k K pg B g0 (n + 1) s d xs)"
      by (rule runs_bindI [OF prepareWlogTransfer_ok [OF s2(1) lims envs mb]])
        (use s2(2,3) in \<open>auto simp: runs_basic began_def quiet_def outside_ok_def same_outside_def split: if_splits\<close>)
    show "runs (if \<not> now then if garbage then sx_return (Inl True) else sx_bind (isWlogTransferRequiredDetail (envs 3) True) (\<lambda>later. sx_return (Inl later))
      else sx_bind (prepareWlogTransfer (envs 3) mb iv) (\<lambda>(rec0, rec1, lsidLimit, doLater).
        if doLater then sx_return (Inl True) else sx_return (Inr (rec0, rec1, lsidLimit)))) s2 (began k K pg B g0 (n + 1) s d xs)"
      using later prep q [OF quiet_Inr [OF s2(1,2)]] by (auto simp: runs_basic)
  next
    fix e s2
    assume "quiet k K pg B g0 n s1 d xs (Inl e :: bool res) s2"
    then have "quiet k K pg B g0 n s d xs (Inl e) s2" using s1(3) by (simp add: quiet_def)
    then show "began k K pg B g0 (n + 1) s d xs (Inl e) s2" by (rule began_quiet) simp
  qed
next
  fix e s1
  assume "quiet k K pg B g0 n s d xs (Inl e :: bool res) s1"
  then have "quiet k K pg B g0 n s d xs (Inl e) s1" by (simp add: quiet_def)
  then show "began k K pg B g0 (n + 1) s d xs (Inl e) s1" by (rule began_quiet) simp
qed

lemma vol_inv_recs: "vol_inv pg B m n s d xs \<Longrightarrow> vol_ok B m n d xs"
  by (simp add: vol_inv_def)

text \<open>The end of a transfer.\<close>

definition ended :: "bool \<Rightarrow> u64 set \<Rightarrow> u64 \<Rightarrow> u64 list \<Rightarrow> u64 \<Rightarrow> nat \<Rightarrow> storage_vol \<Rightarrow> MetaLsidGid \<Rightarrow> MetaLsidGid list \<Rightarrow> 'a res \<Rightarrow> storage_vol \<Rightarrow> bool" where
  "ended k K pg B g0 n s d xs r s' \<longleftrightarrow> (\<exists>d' xs'. quiet k K pg B g0 n s' d' xs' r s' \<and> (\<forall>gs. snaps_ok gs s d xs \<longrightarrow> snaps_ok gs s' d' xs'))"

lemma snaps_acked: "sv_acked s' = sv_acked s \<Longrightarrow> snaps_ok gs s' d xs = snaps_ok gs s d xs"
  by (simp add: snaps_ok_def)

lemma quiet_self: "quiet k K pg B g0 n s d xs r s' \<Longrightarrow> quiet k K pg B g0 n s' d xs r s'"
  by (simp add: quiet_def)

lemma quiet_acked: "quiet k K pg B g0 n s d xs r s' \<Longrightarrow> snaps_ok gs s d xs \<Longrightarrow> snaps_ok gs s' d xs"
  using snaps_acked [of s' s] by (simp add: quiet_def)

lemma quiet_ended: "quiet k K pg B g0 n s d xs r s' \<Longrightarrow> ended k K pg B g0 n s d xs r s'"
  unfolding ended_def by (intro exI [of _ d] exI [of _ xs] conjI allI impI) (erule quiet_self, erule (1) quiet_acked)

lemma ended_quiet:
  assumes "quiet k K pg B g0 n s1 d1 xs1 r s'" and "\<And>gs. snaps_ok gs s d xs \<Longrightarrow> snaps_ok gs s1 d1 xs1"
  shows "ended k K pg B g0 n s d xs r s'"
  unfolding ended_def
  by (intro exI [of _ d1] exI [of _ xs1] conjI allI impI) (rule quiet_self [OF assms(1)], erule quiet_acked [OF assms(1) assms(2)])

lemma sent_step:
  assumes v: "vol_ok B m n d xs" and r: "range_ok B d xs e lim" and o: "outside_ok k K g0 s d"
    and lE: "lE \<in> set B" "lg_lsid d \<le> lE" "lE \<le> lim" "lim \<in> set B \<longrightarrow> lE = lim" and rS: "sentRecord d e lE = Inr rS"
    and D: "snapB D = snap (lg_gid d) (lg_gid d)" "snapE D = snap (lg_gid rS) (lg_gid rS)"
  defines "s1 \<equiv> s\<lparr>sv_acked := (D, lg_lsid d, lE) # sv_acked s\<rparr>"
  shows "vol_ok B m n rS xs" and "outside_ok k K g0 s1 rS" and "snaps_ok gs s d xs \<Longrightarrow> snaps_ok gs s1 rS xs"
    and "k \<Longrightarrow> outside_ok k K g0 s1 d" and "snaps_ok gs s d xs \<Longrightarrow> snaps_ok gs s1 d xs"
proof -
  have k: "lg_lsid rS = lE" "lg_gid d < lg_gid rS" "vol_ok B m n rS xs"
    "\<forall>x \<in> set xs. newer d x \<and> \<not> lg_isMergeable x \<and> lg_gid x \<le> lg_gid rS \<longrightarrow> lg_gid x = lg_gid rS"
    using sentRecord_ok [OF v r lE(1-3)] lE(4) rS by auto
  obtain y ys where ys: "xs = y # ys" using r by (cases xs) (auto simp: range_ok_def)
  then have top: "rec_top rS xs = rec_top d xs" "lg_gid rS \<le> lg_gid (rec_top d xs)"
    using k(3) by (simp_all add: vol_ok_def recs_ok_def passed_def)
  have acked: "sv_acked s1 = (D, lg_lsid d, lE) # sv_acked s" "sv_erased s1 = sv_erased s" by (simp_all add: s1_def)
  show "vol_ok B m n rS xs" by (rule k(3))
  show "outside_ok k K g0 s1 rS" using o k(1,2) D lE(2) by (fastforce simp: outside_ok_def acked)
  show "k \<Longrightarrow> outside_ok k K g0 s1 d" using o k(2) D lE(2) by (simp add: outside_ok_def acked)
  assume s: "snaps_ok gs s d xs"
  have snap: "\<not> reaches_over (D, lg_lsid d, lE) g" "\<not> g \<le> lg_gid d \<Longrightarrow> g \<le> lg_gid rS \<Longrightarrow> g = lg_gid rS"
    "\<not> g \<le> lg_gid rS \<Longrightarrow> \<exists>x \<in> set xs. lg_gid x = g \<and> newer rS x \<and> \<not> lg_isMergeable x" if g: "g \<in> set gs" for g
  proof -
    have x: "\<exists>x \<in> set xs. lg_gid x = g \<and> newer d x \<and> \<not> lg_isMergeable x" if "\<not> g \<le> lg_gid d"
      using s g that by (auto simp: snaps_ok_def)
    then show "\<not> reaches_over (D, lg_lsid d, lE) g" using k(4) D by (fastforce simp: reaches_over_def)
    show "\<not> g \<le> lg_gid d \<Longrightarrow> g \<le> lg_gid rS \<Longrightarrow> g = lg_gid rS" using x k(4) by blast
    assume n: "\<not> g \<le> lg_gid rS"
    then obtain x where x: "x \<in> set xs" "lg_gid x = g" "\<not> lg_isMergeable x" using x k(2) by fastforce
    then have "passed rS x \<or> newer rS x" using k(3) by (simp add: vol_ok_def recs_ok_def)
    then show "\<exists>x \<in> set xs. lg_gid x = g \<and> newer rS x \<and> \<not> lg_isMergeable x" using n x by (auto simp: passed_def)
  qed
  show "snaps_ok gs s1 rS xs"
    using s snap k(2) top D(2) unfolding snaps_ok_def by (fastforce simp: acked)
  show "snaps_ok gs s1 d xs"
    using s snap top D(2) unfolding snaps_ok_def by (fastforce simp: acked)
qed

lemma runs_extract_end:
  assumes i: "vol_inv pg B (unat g0) n s d xs" and o: "outside_ok k K g0 s d" and lims: "vol_limits B (unat g0) n" and r: "range_ok B d xs e lim"
    and envs: "\<And>i. env_ok pg B (envs i)" and ws: "source_ok B ws" and B: "sorted_wrt (<) B"
  shows "runs (extract_end envs ws net mb (d, e, lim)) s (ended k K pg B g0 n s d xs)"
  unfolding extract_end_def prod.case
proof (subst runs_bind, rule runs_sendWlogs [OF vol_inv_recs [OF i] r B ws envs], goal_cases)
  case (1 x)
  then show ?case using i o by (simp add: quiet_ended quiet_def)
next
  case (2 lE rS D)
  let ?s1 = "s\<lparr>sv_acked := (D, lg_lsid d, lE) # sv_acked s\<rparr>"
  have v: "vol_ok B (unat g0) n d xs" using i by (simp add: vol_inv_def)
  note k = sent_step [OF v r o 2]
  have i1: "vol_inv pg B (unat g0) n ?s1 d xs" using i by (simp add: vol_inv_def vol_rep_def done_is_def)
  have f: "runs (finishWlogTransfer (envs 1) d e lE) ?s1
      (\<lambda>r s2. (\<exists>b. r = Inr b) \<and> same_outside ?s1 s2 \<and> vol_inv pg B (unat g0) n s2 rS (drop_old rS xs))"
    by (rule runs_finish [OF i1 r lims envs 2(1-5)]) auto
  show ?case unfolding sum.case
  proof (rule runs_bindI [OF f], goal_cases)
    case (1 b s2)
    then have s2: "same_outside ?s1 s2" "vol_inv pg B (unat g0) n s2 rS (drop_old rS xs)" by simp_all
    have o2: "outside_ok k K g0 s2 rS" using k(2) outside_same [OF s2(1)] by blast
    have sn: "snaps_ok gs s2 rS (drop_old rS xs)" if "snaps_ok gs s d xs" for gs
      using snaps_mono [OF k(3) [OF that], of "drop_old rS xs"] drop_old_newer [of rS xs] drop_old_top [of rS xs] k(1)
        outside_same [OF s2(1)] by (auto simp: vol_ok_def)
    have "runs (sx_bind (deleteGarbageWlogs (envs 2) (envs 3)) (\<lambda>isRemainingGarbage.
       if b \<or> isRemainingGarbage then sx_return True else isWlogTransferRequiredDetail (envs 4) True)) s2
        (quiet k K pg B g0 n s2 rS (drop_old rS xs))"
      by (rule quiet_bindI [OF runs_quiet_garbage [OF s2(2) o2]]) (simp add: runs_if runs_return_quiet runs_quiet_required envs)
    then show ?case by (rule runs_mono) (rule ended_quiet [OF _ sn])
  qed simp
qed

lemma runs_extract_crash:
  assumes i: "vol_inv pg B (unat g0) n s d xs" and o: "outside_ok k K g0 s d" and r: "range_ok B d xs e lim"
    and envs: "\<And>i. env_ok pg B (envs i)" and ws: "source_ok B ws" and B: "sorted_wrt (<) B"
  shows "runs (extract_crash envs ws net mb (d, e, lim)) s (ended k K pg B g0 n s d xs)"
  unfolding extract_crash_def prod.case
proof (subst runs_bind, rule runs_sendWlogs [OF vol_inv_recs [OF i] r B ws envs], goal_cases)
  case (1 x)
  then show ?case using i o by (simp add: quiet_ended quiet_def)
next
  case (2 lE rS D)
  have v: "vol_ok B (unat g0) n d xs" using i by (simp add: vol_inv_def)
  note k = sent_step [OF v r o 2]
  let ?s1 = "s\<lparr>sv_acked := (D, lg_lsid d, lE) # sv_acked s\<rparr>"
  let ?s2 = "?s1\<lparr>sv_dir := (sv_dir ?s1)(''done'' \<mapsto> lsidgid_save rS)\<rparr>"
  have le: "lg_lsid d \<le> lE \<and> lE \<le> lg_lsid e" using 2(2,3) r by (auto simp: range_ok_def)
  have "vol_inv pg B (unat g0) n ?s2 rS xs" using i k(1) by (simp add: vol_inv_def vol_rep_def done_is_def)
  moreover have "outside_ok k K g0 ?s2 rS" "snaps_ok gs s d xs \<Longrightarrow> snaps_ok gs ?s2 rS xs" for gs
    using k(2) k(3) [of gs] outside_same [of ?s1 ?s2] by simp_all
  ultimately have "ended k K pg B g0 n s d xs (Inr ()) ?s2" by (auto simp: ended_def quiet_def)
  then show ?case using le 2(5) by (simp add: runs_bind runs_basic runs_setDoneRecord)
qed

text \<open>The diff is taken, and the storage server does not get to know.\<close>

lemma runs_extract_lost:
  assumes i: "vol_inv pg B (unat g0) n s d xs" and o: "outside_ok k K g0 s d" and r: "range_ok B d xs e lim"
    and env: "env_ok pg B env" and ws: "source_ok B ws" and B: "sorted_wrt (<) B" and k: "k"
  shows "runs (sendWlogs env ws net mb (d, e, lim)) s (ended k K pg B g0 n s d xs)"
proof (rule runs_sendWlogs [OF vol_inv_recs [OF i] r B ws env], goal_cases)
  case (1 x)
  then show ?case using i o by (simp add: quiet_ended quiet_def)
next
  case (2 lE rS D)
  note s = sent_step(4,5) [OF vol_inv_recs [OF i] r o 2]
  show ?case using s(1) [OF k] s(2) i unfolding ended_def quiet_def
    by (intro exI [of _ d] exI [of _ xs]) (simp add: vol_inv_def vol_rep_def done_is_def)
qed

text \<open>Erasing in the state \<open>Standby\<close>.\<close>

lemma runs_deleteAll:
  assumes "Q (Inr ()) s" and "\<And>l. Q (Inr ()) (s\<lparr>sv_erased := l # sv_erased s\<rparr>)" and "\<And>e. is_exc e \<Longrightarrow> Q (Inl e) s"
  shows "runs (deleteAllWlogs env env2) s Q"
  unfolding deleteAllWlogs_def
proof (rule runs_read_bindI, goal_cases)
  case (1 l)
  show ?case
  proof (cases "eraseWal (env_overflow env2) (env_lsids env2) (ls_prevWritten l)")
    case (Inl e)
    then show ?thesis using assms(1,3) eraseWal_exc [OF Inl] by (simp add: sv_eraseWal_def runs_simps)
  next
    case (Inr x)
    then show ?thesis using assms(1,2) by (cases x) (simp_all add: sv_eraseWal_def runs_simps)
  qed
next
  case (2 e)
  then show ?case using assms(3) getLsidSet_exc by blast
qed

lemma outside_mono: "outside_ok k K g0 s d \<Longrightarrow> K \<subseteq> K' \<Longrightarrow> outside_ok k K' g0 s d"
  by (auto simp: outside_ok_def)

section \<open>Every run\<close>

definition run_inv :: "bool \<Rightarrow> u64 \<Rightarrow> u64 list \<Rightarrow> u64 \<Rightarrow> nat \<Rightarrow> storage_run \<Rightarrow> bool" where
  "run_inv k pg B g0 n r \<longleftrightarrow> (\<exists>d xs. vol_inv pg B (unat g0) n (sr_vol r) d xs \<and> outside_ok k (set (sr_dropped r)) g0 (sr_vol r) d
     \<and> snaps_ok (sr_snaps r) (sr_vol r) d xs
     \<and> (\<forall>b e lim. sr_wait r = Some (b, e, lim) \<longrightarrow> b = d \<and> range_ok B d xs e lim))"

lemma runs_on_run:
  "runs (on_run f k) r Q \<longleftrightarrow> runs f (sr_vol r) (\<lambda>x v. Q (case x of Inl e \<Rightarrow> Inl e | Inr _ \<Rightarrow> Inr ()) (k x (r\<lparr>sr_vol := v\<rparr>)))"
  by (auto simp: runs_def on_run_def split: option.splits)

lemma run_inv_mono: "run_inv k pg B g0 n r \<Longrightarrow> n \<le> n' \<Longrightarrow> run_inv k pg B g0 n' r"
  using vol_inv_mono unfolding run_inv_def by blast

lemma vol_step_snapshot:
  assumes i: "run_inv k pg B g0 n r" and "env_ok pg B env" "unat mb < 2 ^ 40" and lims: "vol_limits B (unat g0) n"
  shows "runs (vol_step (Op_Snapshot env mb)) r (\<lambda>x r'. run_inv k pg B g0 (n + 1) r' \<and> (\<forall>e. x = Inl e \<longrightarrow> is_exc e))"
proof -
  define K where "K = set (sr_dropped r)"
  obtain d xs where d: "vol_inv pg B (unat g0) n (sr_vol r) d xs" "outside_ok k K g0 (sr_vol r) d" "snaps_ok (sr_snaps r) (sr_vol r) d xs"
    "\<forall>b e lim. sr_wait r = Some (b, e, lim) \<longrightarrow> b = d \<and> range_ok B d xs e lim" using i by (auto simp: run_inv_def K_def)
  show ?thesis unfolding vol_step.simps
  proof (subst runs_on_run, rule runs_mono [OF takeSnapshot_ok [OF d(1) lims assms(2,3)]], goal_cases)
    case (1 x v)
    then obtain xs' where v: "same_outside (sr_vol r) v" "vol_inv pg B (unat g0) (n + 1) v d xs'"
      "case x of Inl e \<Rightarrow> is_exc e \<and> xs' = xs | Inr g \<Rightarrow> \<exists>y. xs' = y # xs \<and> newer d y \<and> lg_gid y = g \<and> \<not> lg_isMergeable y" by blast
    have o: "outside_ok k (set (sr_dropped r)) g0 v d" "snaps_ok gs v d xs = snaps_ok gs (sr_vol r) d xs" for gs
      using d(2) outside_same [OF v(1)] by (auto simp: K_def)
    show ?case
    proof (cases x)
      case (Inl e)
      then show ?thesis using v o d(3,4) by (auto simp: run_inv_def note_snapshot_def)
    next
      case (Inr g)
      then obtain y where y: "xs' = y # xs" "newer d y" "lg_gid y = g" "\<not> lg_isMergeable y" using v(3) by auto
      have new: "newer e y" if "e \<in> set xs" for e using v(2) y(1) that by (simp add: vol_inv_def vol_ok_def recs_ok_def)
      have top: "lg_gid (rec_top d xs) < lg_gid y" using new y(2) by (cases xs) (auto simp: newer_def)
      have "range_ok B d (y # xs) e lim" if "range_ok B d xs e lim" for e lim
        by (rule range_snapshot [OF that new]) (use that in \<open>simp add: range_ok_def\<close>)
      moreover have "snaps_ok (g # sr_snaps r) v d (y # xs)"
        using snaps_Cons [of "sr_snaps r" v d xs y] d(3) y(2-4) o(2) top by simp
      ultimately have "run_inv k pg B g0 (n + 1) (r\<lparr>sr_vol := v, sr_snaps := g # sr_snaps r\<rparr>)"
        unfolding run_inv_def using v(2) o(1) d(4) y(1) by (intro exI [of _ d] exI [of _ "y # xs"]) auto
      then show ?thesis using Inr by (simp add: note_snapshot_def)
    qed
  qed
qed

lemma vol_step_ok:
  assumes i: "run_inv k pg B g0 n r" and p: "op_ok pg B p" "is_lost p \<longrightarrow> k" and B: "sorted_wrt (<) B" and lims: "vol_limits B (unat g0) n"
  shows "runs (vol_step p) r (\<lambda>x r'. run_inv k pg B g0 (n + 1) r' \<and> (\<forall>e. x = Inl e \<longrightarrow> is_exc e))"
proof -
  define K where "K = set (sr_dropped r)"
  obtain d xs where d: "vol_inv pg B (unat g0) n (sr_vol r) d xs" "outside_ok k K g0 (sr_vol r) d" "snaps_ok (sr_snaps r) (sr_vol r) d xs"
    "\<forall>b e lim. sr_wait r = Some (b, e, lim) \<longrightarrow> b = d \<and> range_ok B d xs e lim" using i by (auto simp: run_inv_def K_def)
  have fin: "runs (on_run f note_end) r (\<lambda>x r'. run_inv k pg B g0 (n + 1) r' \<and> (\<forall>e. x = Inl e \<longrightarrow> is_exc e))"
    if "runs f (sr_vol r) (ended k K pg B g0 n (sr_vol r) d xs)" for f :: "(storage_vol, 'a) sx"
    unfolding runs_on_run
  proof (rule runs_mono [OF that], goal_cases)
    case (1 x v)
    then have "run_inv k pg B g0 n (note_end x (r\<lparr>sr_vol := v\<rparr>))" "\<forall>e. x = Inl e \<longrightarrow> is_exc e"
      using d(3) unfolding ended_def quiet_def run_inv_def note_end_def by (auto simp: K_def)
    then show ?case using run_inv_mono [of k pg B g0 n _ "n + 1"] by (auto split: sum.splits)
  qed
  show ?thesis
  proof (cases p)
    case (Op_Snapshot env mb)
    then show ?thesis using vol_step_snapshot [OF i _ _ lims] p by simp
  next
    case (Op_Begin envs mb iv)
    then have p': "\<And>i. env_ok pg B (envs i)" "unat mb < 2 ^ 40" using p(1) by simp_all
    have "runs (on_run (extract_begin envs mb iv) note_range) r (\<lambda>x r'. run_inv k pg B g0 (n + 1) r' \<and> (\<forall>e. x = Inl e \<longrightarrow> is_exc e))"
      unfolding runs_on_run
    proof (rule runs_mono [OF runs_extract_begin [OF d(1,2) lims p']], goal_cases)
      case (1 x v)
      then obtain xs' where b: "quiet k K pg B g0 (n + 1) (sr_vol r) d xs' x v" "\<forall>x \<in> set xs. newer d x \<longrightarrow> x \<in> set xs'"
        "\<forall>b e lim. x = Inr (Inr (b, e, lim)) \<longrightarrow> b = d \<and> range_ok B d xs' e lim" unfolding began_def by blast
      then have "lg_gid (rec_top d xs) \<le> lg_gid (rec_top d xs')"
        using top_mono [OF vol_inv_recs _ vol_inv_recs [OF d(1)]] b(1) unfolding quiet_def by blast
      then have "snaps_ok (sr_snaps r) (sr_vol r) d xs'" using snaps_mono [OF d(3)] b(2) by blast
      then have "snaps_ok (sr_snaps r) v d xs'" using b(1) by (simp add: quiet_def snaps_ok_def)
      then show ?case using b(1,3) by (auto simp: run_inv_def note_range_def quiet_def K_def split: sum.splits)
    qed
    then show ?thesis using Op_Begin by (simp add: runs_def)
  next
    case (Op_End envs ws net mb)
    then have p': "\<And>i. env_ok pg B (envs i)" "source_ok B ws" using p(1) by simp_all
    show ?thesis
    proof (cases "sr_wait r")
      case None
      then show ?thesis using Op_End i run_inv_mono [OF i, of "n + 1"] by (simp add: runs_def)
    next
      case (Some w)
      obtain b e lim where w: "w = (b, e, lim)" by (cases w)
      then have r: "b = d" "range_ok B d xs e lim" using d(4) Some by auto
      have "runs (extract_end envs ws net mb w) (sr_vol r) (ended k K pg B g0 n (sr_vol r) d xs)"
        using runs_extract_end [where envs = envs, OF d(1,2) lims r(2) p' B] w r(1) by simp
      note f = fin [OF this]
      show ?thesis using f Op_End Some by (simp add: runs_def)
    qed
  next
    case (Op_Crash envs ws net mb)
    then have p': "\<And>i. env_ok pg B (envs i)" "source_ok B ws" using p(1) by simp_all
    show ?thesis
    proof (cases "sr_wait r")
      case None
      then show ?thesis using Op_Crash i run_inv_mono [OF i, of "n + 1"] by (simp add: runs_def)
    next
      case (Some w)
      obtain b e lim where w: "w = (b, e, lim)" by (cases w)
      then have r: "b = d" "range_ok B d xs e lim" using d(4) Some by auto
      have "runs (extract_crash envs ws net mb w) (sr_vol r) (ended k K pg B g0 n (sr_vol r) d xs)"
        using runs_extract_crash [where envs = envs, OF d(1,2) r(2) p' B] w r(1) by simp
      note f = fin [OF this]
      show ?thesis using f Op_Crash Some by (simp add: runs_def)
    qed
  next
    case (Op_Lost env ws net mb)
    then have p': "env_ok pg B env" "source_ok B ws" "k" using p by simp_all
    show ?thesis
    proof (cases "sr_wait r")
      case None
      then show ?thesis using Op_Lost i run_inv_mono [OF i, of "n + 1"] by (simp add: runs_def)
    next
      case (Some w)
      obtain b e lim where w: "w = (b, e, lim)" by (cases w)
      then have r: "b = d" "range_ok B d xs e lim" using d(4) Some by auto
      have "runs (sendWlogs env ws net mb w) (sr_vol r) (ended k K pg B g0 n (sr_vol r) d xs)"
        using runs_extract_lost [OF d(1,2) r(2) p'(1,2) B p'(3)] w r(1) by simp
      note f = fin [OF this]
      show ?thesis using f Op_Lost Some by (simp add: runs_def)
    qed
  next
    case (Op_Standby env env2)
    let ?r = "\<lambda>v. r\<lparr>sr_vol := v, sr_dropped := take (length (sv_erased v) - length (sv_erased (sr_vol r))) (sv_erased v) @ sr_dropped r\<rparr>"
    have k: "run_inv k pg B g0 (n + 1) (?r v)"
      if v: "v = sr_vol r \<or> (\<exists>l. v = (sr_vol r)\<lparr>sv_erased := l # sv_erased (sr_vol r)\<rparr>)" for v
    proof -
      have "vol_inv pg B (unat g0) (n + 1) v d xs"
        using v vol_inv_mono [OF d(1), of "n + 1"] by (auto simp: vol_inv_def vol_rep_def done_is_def)
      moreover have "outside_ok k (set (sr_dropped (?r v))) g0 v d" using v d(2) by (auto simp: outside_ok_def K_def)
      moreover have "snaps_ok (sr_snaps r) v d xs" using v d(3) by (auto simp: snaps_ok_def)
      ultimately show ?thesis using d(4) unfolding run_inv_def by auto
    qed
    have "runs (deleteAllWlogs env env2) (sr_vol r) (\<lambda>x v. run_inv k pg B g0 (n + 1) (?r v) \<and> (\<forall>e. x = Inl e \<longrightarrow> is_exc e))"
    proof (rule runs_deleteAll, goal_cases)
      case (2 l)
      show ?case using k [of "(sr_vol r)\<lparr>sv_erased := l # sv_erased (sr_vol r)\<rparr>"] by blast
    qed (use k [of "sr_vol r"] in blast)+
    then show ?thesis using Op_Standby by (auto simp: runs_def)
  qed
qed

lemma vol_run_ok:
  assumes "run_inv k pg B g0 n r" and "list_all (op_ok pg B) ps" and "sorted_wrt (<) B" and "vol_limits B (unat g0) (n + length ps)"
    and "list_ex is_lost ps \<longrightarrow> k"
  shows "\<exists>rs r'. vol_run ps r = Some (rs, r') \<and> run_inv k pg B g0 (n + length ps) r' \<and> (\<forall>e. Inl e \<in> set rs \<longrightarrow> is_exc e)"
  using assms
proof (induction ps arbitrary: r n)
  case (Cons p ps)
  have lims: "vol_limits B (unat g0) n" "vol_limits B (unat g0) ((n + 1) + length ps)" using Cons.prems(4) by (simp_all add: vol_limits_def)
  obtain x r1 where x: "vol_step p r = Some (x, r1)" "run_inv k pg B g0 (n + 1) r1" "\<forall>e. x = Inl e \<longrightarrow> is_exc e"
    using vol_step_ok [OF Cons.prems(1) _ _ assms(3) lims(1), of p] Cons.prems(2,5) by (auto simp: runs_def)
  show ?case using Cons.IH [OF x(2) _ assms(3) lims(2)] Cons.prems(2,5) x by auto
qed simp

text \<open>Only in the state \<open>Standby\<close> is log dropped.\<close>

lemma dropped_step:
  assumes "vol_step p r = Some (x, r')" and "\<not> is_standby p"
  shows "sr_dropped r' = sr_dropped r"
  using assms by (cases p) (auto simp: on_run_def note_snapshot_def note_range_def note_end_def split: option.splits sum.splits)

lemma dropped_run: "vol_run ps r = Some (rs, r') \<Longrightarrow> \<not> list_ex is_standby ps \<Longrightarrow> sr_dropped r' = sr_dropped r"
proof (induction ps arbitrary: r rs)
  case (Cons p ps)
  then show ?case using dropped_step [of p r] by (auto split: option.splits)
qed simp

section \<open>The beginning\<close>

definition new_vol :: storage_vol where
  "new_vol = \<lparr>sv_dir = \<lambda>_. None, sv_erased = [], sv_acked = []\<rparr>"

definition storage_start :: "sv_env \<Rightarrow> sv_env \<Rightarrow> string \<Rightarrow> u8 list \<Rightarrow> u64 \<Rightarrow> (storage_vol, unit) sx" where
  "storage_start e1 e2 wdevPath uuid g0 = sx_bind (sv_init e1 wdevPath) (\<lambda>_. resetWlog e2 uuid g0)"

text \<open>A volume is made, its log is cleared at gid \<open>g0\<close>, and operations follow.\<close>

definition storage_life :: "sv_env \<Rightarrow> sv_env \<Rightarrow> string \<Rightarrow> u8 list \<Rightarrow> u64 \<Rightarrow> vol_op list \<Rightarrow> (unit res list \<times> storage_run) option" where
  "storage_life e1 e2 wdevPath uuid g0 ps = (case storage_start e1 e2 wdevPath uuid g0 new_vol of
       Some (Inr _, v) \<Rightarrow> vol_run ps \<lparr>sr_vol = v, sr_wait = None, sr_snaps = [], sr_dropped = []\<rparr>
     | _ \<Rightarrow> None)"

definition storage_setup :: "u64 \<Rightarrow> u64 list \<Rightarrow> sv_env \<Rightarrow> sv_env \<Rightarrow> u64 \<Rightarrow> vol_op list \<Rightarrow> bool" where
  "storage_setup pg B e1 e2 g0 ps \<longleftrightarrow> page_ok pg \<and> env_pageSize e1 = pg \<and> env_pageSize e2 = pg \<and> sorted_wrt (<) B \<and> 0 \<in> set B
     \<and> vol_limits B (unat g0) (length ps) \<and> list_all (op_ok pg B) ps"

lemma runs_saveFile:
  "runs (sv_saveFile f bs) s Q \<longleftrightarrow> Q (Inr ()) (s\<lparr>sv_dir := (sv_dir s)(f \<mapsto> bs)\<rparr>)"
  "runs (sv_setState ''SyncReady'') s Q \<longleftrightarrow> Q (Inr ()) (s\<lparr>sv_dir := (sv_dir s)(''state'' \<mapsto> str_save ''SyncReady'')\<rparr>)"
  by (simp_all add: sv_setState_def sv_saveFile_def runs_basic saveFile_def)

lemma sv_init_ok:
  assumes "page_ok pg" and "env_pageSize env = pg"
  shows "runs (sv_init env path) new_vol (\<lambda>r s. r = Inr () \<and> same_outside new_vol s \<and> (\<exists>d. vol_rep pg 0 s d []))"
proof -
  obtain q where q: "q_create pg (env_rand env) (env_memory env) [] = Inr q" "lg_queue pg 0 q []" using lgq.values_create [OF assms(1)] by blast
  obtain q1 where q1: "q_sync q = Inr q1" "lg_queue pg 0 q1 []" using lgq.values_sync [OF q(2)] by blast
  obtain q2 where q2: "q_sync q1 = Inr q2" "file_values lsidgid_save pg 0 (mm_bytes (q_mm q2)) []" using lgq.values_sync [OF q1(2)] by blast
  let ?f = "sx_bind (sx_put (\<lambda>s. s\<lparr>sv_dir := (sv_dir s)(''queue'' \<mapsto> mm_bytes (q_mm q2))\<rparr>)) (\<lambda>_.
          sx_bind (sv_saveFile ''path'' (str_save path)) (\<lambda>_. sx_bind (sv_setState ''SyncReady'') (\<lambda>_.
          sx_bind (setDoneRecord \<lparr>lg_isMergeable = False, lg_timestamp = env_time env, lg_lsid = - 1, lg_gid = - 1\<rparr>) (\<lambda>_.
            sv_setUuid (replicate UUID_SIZE 0)))))"
  have "sv_init env path new_vol = ?f new_vol" using q(1) q1(1) q2(1) assms(2) by (simp add: sv_init_def)
  moreover have "runs ?f new_vol (\<lambda>r s. r = Inr () \<and> same_outside new_vol s \<and> (\<exists>d. vol_rep pg 0 s d []))"
    using q2(2) by (simp add: runs_bind runs_basic runs_saveFile runs_setDoneRecord sv_setUuid_def vol_rep_def done_is_def)
      (auto simp: same_outside_def)
  ultimately show ?thesis by (simp add: runs_def)
qed

lemma storage_start_ok:
  assumes "page_ok pg" and "env_pageSize e1 = pg" and "env_pageSize e2 = pg" and "0 \<in> set B"
  shows "\<exists>v. storage_start e1 e2 path uuid g0 new_vol = Some (Inr (), v)
    \<and> run_inv k pg B g0 0 \<lparr>sr_vol = v, sr_wait = None, sr_snaps = [], sr_dropped = []\<rparr> \<and> sv_acked v = []"
proof -
  let ?d = "\<lparr>lg_isMergeable = False, lg_timestamp = env_time e2, lg_lsid = 0, lg_gid = g0\<rparr>"
  let ?P = "\<lambda>r s. r = Inr () \<and> same_outside new_vol s \<and> vol_rep pg 0 s ?d []"
  have clear: "runs (sx_bind (on_queue q_clear) (\<lambda>_. on_queue q_sync)) (q, s) (\<lambda>r (q', s'). same_outside s s'
      \<and> (\<exists>d' xs'. lg_queue pg 0 q' xs' \<and> done_is s' d' \<and> r = Inr () \<and> d' = ?d \<and> xs' = []))"
    if q: "lg_queue pg 0 q []" and dn: "done_is s ?d" for q s
  proof -
    obtain q1 where q1: "q_clear q = Inr q1" "lg_queue pg 0 q1 []" using lgq.values_clear [OF q] by auto
    obtain q2 where "q_sync q1 = Inr q2" "lg_queue pg 0 q2 []" using lgq.values_sync [OF q1(2)] by blast
    then show ?thesis using q1(1) dn by (simp add: runs_bind runs_on_queue)
  qed
  have "runs (storage_start e1 e2 path uuid g0) new_vol ?P"
    unfolding storage_start_def
  proof (rule runs_bindI [OF sv_init_ok [OF assms(1,2)]], goal_cases)
    case (1 a s)
    then obtain d0 where s: "same_outside new_vol s" "vol_rep pg 0 s d0 []" by blast
    let ?s = "s\<lparr>sv_dir := (sv_dir s)(''done'' \<mapsto> lsidgid_save ?d)\<rparr>"
    have v: "vol_rep pg 0 ?s ?d []" using s(2) by (simp add: vol_rep_def)
    have dn: "done_is ?s ?d" by simp
    note w = runs_with_queue [where Q = "\<lambda>r d' xs'. r = Inr () \<and> d' = ?d \<and> xs' = []", OF v assms(3) clear [OF _ dn]]
    show ?case unfolding resetWlog_def runs_bind [of "setDoneRecord _"] runs_setDoneRecord sum.case
      by (rule runs_bindI [OF w])
        (use s(1) in \<open>auto simp: runs_bind runs_basic runs_saveFile sv_setUuid_def vol_rep_def done_is_def same_outside_def\<close>)
  qed simp
  then obtain v where v: "storage_start e1 e2 path uuid g0 new_vol = Some (Inr (), v)" "same_outside new_vol v" "vol_rep pg 0 v ?d []"
    by (auto simp: runs_def)
  have "run_inv k pg B g0 0 \<lparr>sr_vol = v, sr_wait = None, sr_snaps = [], sr_dropped = []\<rparr>"
    unfolding run_inv_def using v(2,3) assms(4)
    by (intro exI [of _ ?d] exI [of _ "[]"])
      (simp add: vol_inv_def vol_ok_def recs_ok_def outside_ok_def snaps_ok_def same_outside_def new_vol_def)
  moreover have "sv_acked v = []" using v(2) by (simp add: same_outside_def new_vol_def)
  ultimately show ?thesis using v(1) by blast
qed

lemma storage_life_ok:
  assumes "storage_setup pg B e1 e2 g0 ps"
  shows "\<exists>rs r. storage_life e1 e2 path uuid g0 ps = Some (rs, r) \<and> run_inv (list_ex is_lost ps) pg B g0 (length ps) r
    \<and> (\<forall>e. Inl e \<in> set rs \<longrightarrow> is_exc e) \<and> (sr_dropped r = [] \<or> list_ex is_standby ps)"
proof -
  have a: "page_ok pg" "env_pageSize e1 = pg" "env_pageSize e2 = pg" "sorted_wrt (<) B" "0 \<in> set B"
    "vol_limits B (unat g0) (0 + length ps)" "list_all (op_ok pg B) ps" using assms by (simp_all add: storage_setup_def)
  obtain v where v: "storage_start e1 e2 path uuid g0 new_vol = Some (Inr (), v)"
    "run_inv (list_ex is_lost ps) pg B g0 0 \<lparr>sr_vol = v, sr_wait = None, sr_snaps = [], sr_dropped = []\<rparr>"
    using storage_start_ok [OF a(1-3,5)] by blast
  obtain rs r where "vol_run ps \<lparr>sr_vol = v, sr_wait = None, sr_snaps = [], sr_dropped = []\<rparr> = Some (rs, r)"
    "run_inv (list_ex is_lost ps) pg B g0 (length ps) r" "\<forall>e. Inl e \<in> set rs \<longrightarrow> is_exc e"
    using vol_run_ok [OF v(2) a(7,4,6)] by auto
  then show ?thesis using v(1) dropped_run by (fastforce simp: storage_life_def)
qed

section \<open>Properties\<close>

lemma vol_inv_doneE:
  assumes "vol_inv pg B m n s d xs"
  shows "loadFile lsidgid_load ''done'' (sv_dir s) = Inr d"
  using vol_inv_done [OF assms] by (simp add: loadFile_def done_is_def ser_lsidgid.load_save_end)

text \<open>
  C14: Whatever snapshots, transfers, failures and erasures in \<open>Standby\<close> a volume sees, with crashes between two operations, after the
  proxy has taken a diff and before the done record is written, and between the done record and the queue, every operation returns
  or throws an exception (no assertion fails, no access is outside the queue file, no loop runs forever). The acknowledged diffs
  that the done record tells of form a chain: each begins at the gid where the one before it ended and covers the lsids
  that follow, from the first gid and lsid 0 to the done record; if no diff was taken without the storage server knowing, that is all
  of them, and they can be applied one after the other. A diff that was taken so (\<open>Op_Lost\<close>) begins at the place that the
  chain had reached, from which the range is sent again. A receiver that skips what it has already can then still take all diffs
  in their order, and gets to the gid of the done record or further. That the second diff covers the same lsids is not claimed:
  with another \<open>maxWlogSendMb\<close> it may end elsewhere.
\<close>

theorem storage_diffs_chain:
  assumes "storage_setup pg B e1 e2 g0 ps"
  shows "\<exists>rs r d h. storage_life e1 e2 path uuid g0 ps = Some (rs, r) \<and> (\<forall>x \<in> set rs. case x of Inl e \<Rightarrow> is_exc e | Inr _ \<Rightarrow> True)
    \<and> loadFile lsidgid_load ''done'' (sv_dir (sr_vol r)) = Inr d
    \<and> sent_upto (list_ex is_lost ps) g0 (lg_gid d) (lg_lsid d) (sv_acked (sr_vol r))
    \<and> receive_all (snap g0 g0) (rev (map fst (sv_acked (sr_vol r)))) = Inr (snap h h) \<and> lg_gid d \<le> h
    \<and> (list_ex is_lost ps
       \<or> apply_vec (snap g0 g0) (rev (map fst (sv_acked (sr_vol r)))) = Inr (snap (lg_gid d) (lg_gid d)))"
proof -
  obtain rs r where r: "storage_life e1 e2 path uuid g0 ps = Some (rs, r)" "run_inv (list_ex is_lost ps) pg B g0 (length ps) r"
    "\<forall>e. Inl e \<in> set rs \<longrightarrow> is_exc e" using storage_life_ok [OF assms] by blast
  obtain d xs where d: "vol_inv pg B (unat g0) (length ps) (sr_vol r) d xs"
    "outside_ok (list_ex is_lost ps) (set (sr_dropped r)) g0 (sr_vol r) d" using r(2) by (auto simp: run_inv_def)
  have u: "sent_upto (list_ex is_lost ps) g0 (lg_gid d) (lg_lsid d) (sv_acked (sr_vol r))" using d(2) by (simp add: outside_ok_def)
  obtain h where "lg_gid d \<le> h" "receive_all (snap g0 g0) (rev (map fst (sv_acked (sr_vol r)))) = Inr (snap h h)"
    using sent_receive [OF u] by blast
  moreover have "list_ex is_lost ps \<or> apply_vec (snap g0 g0) (rev (map fst (sv_acked (sr_vol r)))) = Inr (snap (lg_gid d) (lg_gid d))"
    using u sent_apply by (cases "list_ex is_lost ps") auto
  moreover have "\<forall>x \<in> set rs. case x of Inl e \<Rightarrow> is_exc e | Inr _ \<Rightarrow> True" using r(3) by (auto split: sum.splits)
  ultimately show ?thesis using r(1) u vol_inv_doneE [OF d(1)] by blast
qed

text \<open>
  C15: No snapshot that a user asked for is lost in merging: when the volume has passed its gid, an acknowledged diff ends
  exactly there and no acknowledged diff reaches over it; until then it is in the queue, marked as not mergeable.
\<close>

theorem storage_snapshots_kept:
  assumes "storage_setup pg B e1 e2 g0 ps"
  shows "\<exists>rs r d. storage_life e1 e2 path uuid g0 ps = Some (rs, r) \<and> loadFile lsidgid_load ''done'' (sv_dir (sr_vol r)) = Inr d
    \<and> (\<forall>g \<in> set (sr_snaps r). if g \<le> lg_gid d
         then g \<in> sent_ends (sv_acked (sr_vol r))
           \<and> (\<forall>t \<in> set (sv_acked (sr_vol r)). \<not> (gidB (snapB (fst t)) < g \<and> g < gidB (snapE (fst t))))
         else \<exists>bs xs x. sv_dir (sr_vol r) ''queue'' = Some bs \<and> file_values lsidgid_save pg (64 * length ps) bs xs
           \<and> x \<in> set xs \<and> lg_gid x = g \<and> \<not> lg_isMergeable x)"
proof -
  obtain rs r where r: "storage_life e1 e2 path uuid g0 ps = Some (rs, r)" "run_inv (list_ex is_lost ps) pg B g0 (length ps) r"
    using storage_life_ok [OF assms] by blast
  obtain d xs where d: "vol_inv pg B (unat g0) (length ps) (sr_vol r) d xs" "snaps_ok (sr_snaps r) (sr_vol r) d xs"
    using r(2) by (auto simp: run_inv_def)
  obtain bs where bs: "sv_dir (sr_vol r) ''queue'' = Some bs" "file_values lsidgid_save pg (64 * length ps) bs xs"
    using d(1) by (auto simp: vol_inv_def vol_rep_def)
  have "if g \<le> lg_gid d
         then g \<in> sent_ends (sv_acked (sr_vol r))
           \<and> (\<forall>t \<in> set (sv_acked (sr_vol r)). \<not> (gidB (snapB (fst t)) < g \<and> g < gidB (snapE (fst t))))
         else \<exists>bs xs x. sv_dir (sr_vol r) ''queue'' = Some bs \<and> file_values lsidgid_save pg (64 * length ps) bs xs
           \<and> x \<in> set xs \<and> lg_gid x = g \<and> \<not> lg_isMergeable x" if "g \<in> set (sr_snaps r)" for g
  proof (cases "g \<le> lg_gid d")
    case True
    then show ?thesis using d(2) that unfolding snaps_ok_def reaches_over_def by auto
  next
    case False
    have "if g \<le> lg_gid d then g \<in> sent_ends (sv_acked (sr_vol r))
        else \<exists>x \<in> set xs. lg_gid x = g \<and> newer d x \<and> \<not> lg_isMergeable x"
      using d(2) that unfolding snaps_ok_def by blast
    then obtain x where "x \<in> set xs" "lg_gid x = g" "\<not> lg_isMergeable x" using False by auto
    then show ?thesis using False bs by auto
  qed
  then show ?thesis using r(1) vol_inv_doneE [OF d(1)] by blast
qed

text \<open>
  C16: Outside of the state \<open>Standby\<close> the storage server never tells the driver to forget wlogs that were not sent: every oldest lsid
  that it sets lies at or before the lsid up to which the acknowledged diffs reach without a gap, whatever crashes and lost
  acknowledgements there were, or was set by \<open>deleteAllWlogs\<close> in \<open>Standby\<close> (\<open>sr_dropped\<close>), which erases what was written whether
  sent or not. A volume that was never in \<open>Standby\<close> has none of these.
\<close>

theorem storage_erases_only_sent:
  assumes "storage_setup pg B e1 e2 g0 ps"
  shows "\<exists>rs r g l. storage_life e1 e2 path uuid g0 ps = Some (rs, r) \<and> sent_upto (list_ex is_lost ps) g0 g l (sv_acked (sr_vol r))
    \<and> list_all (\<lambda>x. x \<le> l \<or> x \<in> set (sr_dropped r)) (sv_erased (sr_vol r)) \<and> (sr_dropped r = [] \<or> list_ex is_standby ps)"
proof -
  obtain rs r where r: "storage_life e1 e2 path uuid g0 ps = Some (rs, r)" "run_inv (list_ex is_lost ps) pg B g0 (length ps) r"
    "sr_dropped r = [] \<or> list_ex is_standby ps" using storage_life_ok [OF assms] by blast
  obtain d xs where d: "outside_ok (list_ex is_lost ps) (set (sr_dropped r)) g0 (sr_vol r) d" using r(2) by (auto simp: run_inv_def)
  then show ?thesis using r(1,3) by (auto simp: outside_ok_def list_all_iff)
qed

section \<open>Progress\<close>

text \<open>A device, a log and a network that work: everything in the log is permanent and can be read.\<close>

definition env_works :: "u64 \<Rightarrow> u64 list \<Rightarrow> sv_env \<Rightarrow> bool" where
  "env_works pg B env \<longleftrightarrow> env_ok pg B env \<and> \<not> env_overflow env \<and> unat (env_pbs env) \<le> 2 ^ 20
     \<and> (\<exists>l. getLsidSet (env_lsids env) = Inr l \<and> ls_latest l = last B \<and> ls_permanent l = last B)"

definition source_works :: "u64 list \<Rightarrow> u64 \<Rightarrow> wlog_source \<Rightarrow> bool" where
  "source_works B mx ws \<longleftrightarrow> (\<forall>x \<in> set B. \<not> ws_stop ws x \<and> (x \<noteq> last B \<longrightarrow> (\<exists>h. ws_header ws x = Some h
     \<and> ucast (lh_total_io_size h) + 1 \<le> mx \<and> list_all (ws_io ws x) [0..<unat (lh_n_records h)])))"

lemma runs_conj: "runs f s P \<Longrightarrow> runs f s Q \<Longrightarrow> runs f s (\<lambda>r s'. P r s' \<and> Q r s')"
  by (auto simp: runs_def)

lemma le_last: "sorted_wrt (<) B \<Longrightarrow> x \<in> set B \<Longrightarrow> (x :: u64) \<le> last B"
  by (induction B) (auto, metis last_in_set order.strict_implies_order)

lemma runs_garbage_works:
  assumes "done_is s d" and "lg_lsid d \<noteq> - 1" and "env_works pg B env"
  shows "runs (deleteGarbageWlogs env env) s (\<lambda>r s'. \<exists>b. r = Inr b)"
proof -
  obtain l where l: "getLsidSet (env_lsids env) = Inr l" "\<not> env_overflow env" using assms(3) by (auto simp: env_works_def)
  let ?t = "min (lg_lsid d) (ls_prevWritten l)"
  have "\<exists>x. eraseWal (env_overflow env) (env_lsids env) ?t = Inr x" using l by (simp add: eraseWal_def not_less)
  then show ?thesis using l assms(1,2)
    by (auto simp: deleteGarbageWlogs_def runs_bind runs_getDoneLsid runs_basic sv_eraseWal_def Let_def)
qed

lemma runs_required_works:
  assumes "vol_inv pg B m n s d xs" and "lg_lsid d \<noteq> - 1" and "env_works pg B env"
  shows "runs (isWlogTransferRequiredDetail env later) s (\<lambda>r s'. r = Inr (lg_lsid d < last B \<or> xs \<noteq> []))"
proof -
  obtain l where l: "getLsidSet (env_lsids env) = Inr l" "ls_latest l = last B" "ls_permanent l = last B" "env_ok pg B env"
    using assms(3) by (auto simp: env_works_def)
  have "runs (ask_queue (\<lambda>q. Inr (q_empty q))) (q, s) (\<lambda>r (q', s'). same_outside s s' \<and> (\<exists>d' xs'. lg_queue pg (64 * n) q' xs' \<and> done_is s' d' \<and> vol_ok B m n d' xs'
      \<and> r = Inr (xs = [])))" if "lg_queue pg (64 * n) q xs" for q
    using that vol_inv_done [OF assms(1)] vol_inv_recs [OF assms(1)] lgq.values_empty [OF that] by (auto simp: runs_ask)
  note w = runs_with_queue_inv [where Q = "\<lambda>r d' xs'. r = Inr (xs = [])", OF assms(1) l(4) this]
  have "runs (with_queue env (ask_queue (\<lambda>q. Inr (q_empty q)))) s (\<lambda>r s'. r = Inr (xs = []))" by (rule runs_mono [OF w]) auto
  then have "runs (with_queue env (ask_queue (\<lambda>q. Inr (q_empty q)))) s (\<lambda>r s'. case r of Inl e \<Rightarrow> False
      | Inr b \<Rightarrow> (lg_lsid d < last B \<or> \<not> b) = (lg_lsid d < last B \<or> xs \<noteq> []))" by (rule runs_mono) simp
  then show ?thesis
    unfolding isWlogTransferRequiredDetail_def using l(1-3) assms(2)
    by (simp add: runs_bind runs_getDoneLsid [OF vol_inv_done [OF assms(1)]] runs_basic Let_def)
      (intro conjI impI; erule runs_mono; auto split: sum.splits simp: runs_basic)
qed

lemma maxWlogSendPb_works:
  assumes "env_works pg B env" and "0 < mb" and "unat mb < 2 ^ 40"
  shows "\<exists>mx. getMaxWlogSendPb env mb msg = Inr mx"
proof -
  let ?u = "0x100000 div ucast (env_pbs env) :: u64"
  have pb: "env_pbs env \<noteq> 0" "unat (env_pbs env) \<le> 2 ^ 20" using assms(1) by (auto simp: env_works_def env_ok_def)
  have u: "unat ?u = 2 ^ 20 div unat (env_pbs env)" by (simp add: unat_div)
  have "0 < unat (env_pbs env)" using pb(1) by (simp add: unat_gt_0)
  then have "1 \<le> unat ?u" "unat ?u \<le> 2 ^ 20" unfolding u using div_le_mono2 [of "unat (env_pbs env)" "2 ^ 20" "2 ^ 20"] pb(2)
    by (simp_all add: div_le_dividend)
  then have "0 < unat mb * unat ?u" "unat mb * unat ?u < 2 ^ 40 * 2 ^ 21"
    using assms(2,3) mult_strict_mono [of "unat mb" "2 ^ 40" "unat ?u" "2 ^ 21"] by (simp_all add: word_less_nat_alt)
  then have "mb * ?u \<noteq> 0" by (subst unat_eq_iff_nat, subst unat_mult_small) simp_all
  then show ?thesis using pb(1) by (simp add: getMaxWlogSendPb_def convertMibToPb_def)
qed

lemma runs_begin_works:
  assumes i: "vol_inv pg B (unat g0) n s d xs" and o: "outside_ok k K g0 s d" and lims: "vol_limits B (unat g0) n" and B: "sorted_wrt (<) B"
    and env: "env_works pg B env" and mb: "0 < mb" "unat mb < 2 ^ 40"
  shows "runs (extract_begin (\<lambda>_. env) mb iv) s (\<lambda>r s'. (\<exists>w. r = Inr (Inr w)) \<or> lg_lsid d = last B \<and> xs = [])"
proof -
  have ok: "env_ok pg B env" using env by (simp add: env_works_def)
  have v: "vol_ok B (unat g0) n d xs" by (rule vol_inv_recs [OF i])
  have dB: "lg_lsid d \<in> set B" "unat (lg_lsid d) < 2 ^ 62" using v lims by (auto simp: vol_ok_def vol_limits_def)
  then have d1: "lg_lsid d \<noteq> - 1" by (auto simp: unsigned_minus_1_eq_mask mask_eq_exp_minus_1)
  have top: "lg_lsid (rec_top d xs) \<le> last B" by (rule le_last [OF B]) (use v in \<open>cases xs; auto simp: vol_ok_def\<close>)
  note g = runs_conj [OF runs_garbage_works [OF vol_inv_done [OF i] d1 env] runs_quiet_garbage [OF i o]]
  show ?thesis unfolding extract_begin_def
  proof (rule runs_bindI [OF g], goal_cases)
    case (1 b s1)
    then have s1: "vol_inv pg B (unat g0) n s1 d xs" "outside_ok k K g0 s1 d" by (simp_all add: quiet_def)
    note q = runs_conj [OF runs_required_works [OF s1(1) d1 env] runs_quiet_required [OF s1 ok]]
    show ?case
    proof (cases "lg_lsid d < last B \<or> xs \<noteq> []")
      case False
      then have f: "lg_lsid d = last B \<and> xs = []" using le_last [OF B dB(1)] by auto
      show ?thesis
      proof (rule runs_bindI [OF q], goal_cases)
        case (1 a s2)
        then have s2: "vol_inv pg B (unat g0) n s2 d xs" "outside_ok k K g0 s2 d" by (simp_all add: quiet_def)
        have "runs (isWlogTransferRequiredDetail env True) s2 (\<lambda>_ _. True)" by (rule runs_mono [OF runs_quiet_required [OF s2 ok]]) simp
        then show ?case using 1 False f by (simp add: runs_if runs_basic runs_bind) (intro impI, erule runs_mono, auto split: sum.splits simp: runs_basic)
      qed (use f in simp)
    next
      case True
      show ?thesis
      proof (rule runs_bindI [OF q], goal_cases)
        case (1 a s2)
        then have s2: "vol_inv pg B (unat g0) n s2 d xs" "a" using True by (simp_all add: quiet_def)
        obtain l where l: "getLsidSet (env_lsids env) = Inr l" "ls_latest l = last B" "ls_permanent l = last B" "\<not> env_overflow env"
          using env by (auto simp: env_works_def)
        have nf: "\<not> prepare_fails env mb (lg_lsid (rec_top d xs))"
          using maxWlogSendPb_works [OF env mb, of "''prepareWlogTransfer''"] l top by (auto simp: prepare_fails_def not_less)
        have "runs (prepareWlogTransfer env mb iv) s2 (\<lambda>r s'. \<exists>e lim. r = Inr (d, e, lim, False))"
        proof (rule runs_mono [OF prepareWlogTransfer_ok [OF s2(1) lims ok mb(2)]], goal_cases)
          case (1 r s3)
          then obtain xs' where x: "vol_inv pg B (unat g0) (n + 1) s3 d xs'" "case r of Inl e \<Rightarrow> is_exc e \<and> prepare_fails env mb (lg_lsid (rec_top d xs))
            | Inr (b, e, lim, later) \<Rightarrow> b = d \<and> range_ok B d xs' e lim \<and> (\<forall>l. getLsidSet (env_lsids env) = Inr l \<longrightarrow> later = (ls_permanent l < lim))"
            by blast
          then obtain e lim where r: "r = Inr (d, e, lim, last B < lim)" "range_ok B d xs' e lim" using nf l by (cases r) auto
          have "lg_lsid e \<in> set B" using r(2) vol_inv_recs [OF x(1)] by (auto simp: range_ok_def vol_ok_def)
          then have "lim \<le> last B" using le_last [OF B] r(2) by (fastforce simp: range_ok_def)
          then show ?case using r(1) by (simp add: not_less)
        qed
        then show ?case using s2(2) by (simp add: runs_if) (subst runs_bind, erule runs_mono, auto simp: runs_basic)
      qed (use True in simp)
    qed
  qed auto
qed

lemma send_loop_works:
  assumes "B = us @ l # vs" and "sorted_wrt (<) B" and "source_ok B ws" and "source_works B mx ws" and "l \<le> lim" and "lim \<le> last B"
  shows "\<exists>lE. send_loop ws mx lim l = Some (Inr lE)"
  using assms(1,5)
proof (induction vs arbitrary: us l)
  case Nil
  then have "l = lim" "\<not> ws_stop ws l" using assms(4,6) by (auto simp: source_works_def)
  then show ?case by (subst send_loop.simps) simp
next
  case (Cons v vs)
  have lt: "l < v" "l \<in> set B" "l \<noteq> last B" using Cons.prems(1) assms(2) by (auto simp: sorted_wrt_append)
  obtain h where h: "\<not> ws_stop ws l" "ws_header ws l = Some h" "ucast (lh_total_io_size h) + 1 \<le> mx" "list_all (ws_io ws l) [0..<unat (lh_n_records h)]"
    using assms(4) lt by (auto simp: source_works_def)
  obtain us' vs' where "B = us' @ l # nextLogpackLsid h # vs'" using assms(3) lt(2) h(2) by (fastforce simp: source_ok_def)
  then have v: "nextLogpackLsid h = v"
    using Cons.prems(1) assms(2) by (auto simp: append_eq_append_conv2 append_eq_Cons_conv Cons_eq_append_conv sorted_wrt_append)
  have nv: "verifyMaxWlogSendPbIsNotTooSmall mx (ucast (lh_total_io_size h) + 1) m = Inr ()" for m
    using h(3) by (simp add: verifyMaxWlogSendPbIsNotTooSmall_def not_less)
  show ?case
  proof (cases "l = lim \<or> lim < v")
    case True
    then show ?thesis using h v nv by (subst send_loop.simps) (auto simp: Let_def)
  next
    case False
    then have "send_loop ws mx lim l = send_loop ws mx lim v"
      using h v nv by (subst send_loop.simps) (simp add: Let_def)
    then show ?thesis using Cons.IH [of "us @ [l]" v] Cons.prems(1) False by (simp add: not_less)
  qed
qed

lemma runs_end_works:
  assumes i: "vol_inv pg B (unat g0) n s d xs" and o: "outside_ok k K g0 s d" and lims: "vol_limits B (unat g0) n" and r: "range_ok B d xs e lim"
    and env: "env_works pg B env" and ws: "source_ok B ws" "source_works B (mb * 0x100000 div ucast (env_pbs env)) ws" and B: "sorted_wrt (<) B"
  shows "runs (extract_end (\<lambda>_. env) ws (\<lambda>_. True) mb (d, e, lim)) s (\<lambda>_ s'. \<exists>t. sv_acked s' = t # sv_acked s)"
proof -
  have ok: "env_ok pg B env" using env by (simp add: env_works_def)
  have v: "vol_ok B (unat g0) n d xs" by (rule vol_inv_recs [OF i])
  obtain us vs where l: "B = us @ lg_lsid d # vs" using v by (auto simp: vol_ok_def dest: split_list)
  have "lg_lsid e \<in> set B" using r v by (auto simp: range_ok_def vol_ok_def)
  then have le: "lg_lsid d \<le> lim" "lim \<le> last B" using le_last [OF B] r by (fastforce simp: range_ok_def)+
  obtain lE where lE: "send_loop ws (mb * 0x100000 div ucast (env_pbs env)) lim (lg_lsid d) = Some (Inr lE)"
    using send_loop_works [OF l B ws le] by blast
  show ?thesis unfolding extract_end_def prod.case
  proof (subst runs_bind, rule runs_sendWlogs [OF v r B ws(1) ok], goal_cases)
    case (1 x)
    then show ?case using lE by simp
  next
    case (2 lE rS D)
    let ?s1 = "s\<lparr>sv_acked := (D, lg_lsid d, lE) # sv_acked s\<rparr>"
    note k = sent_step [OF v r o 2]
    have i1: "vol_inv pg B (unat g0) n ?s1 d xs" using i by (simp add: vol_inv_def vol_rep_def done_is_def)
    have f: "runs (finishWlogTransfer env d e lE) ?s1
        (\<lambda>r s2. (\<exists>b. r = Inr b) \<and> same_outside ?s1 s2 \<and> vol_inv pg B (unat g0) n s2 rS (drop_old rS xs))"
      by (rule runs_finish [OF i1 r lims ok 2(1-5)]) auto
    show ?case unfolding sum.case
    proof (rule runs_bindI [OF f], goal_cases)
      case (1 b s2)
      then have s2: "same_outside ?s1 s2" "vol_inv pg B (unat g0) n s2 rS (drop_old rS xs)" by simp_all
      have o2: "outside_ok k K g0 s2 rS" using k(2) outside_same [OF s2(1)] by blast
      have "runs (sx_bind (deleteGarbageWlogs env env) (\<lambda>isRemainingGarbage.
         if b \<or> isRemainingGarbage then sx_return True else isWlogTransferRequiredDetail env True)) s2
          (quiet k K pg B g0 n s2 rS (drop_old rS xs))"
        by (rule quiet_bindI [OF runs_quiet_garbage [OF s2(2) o2]]) (simp add: runs_if runs_return_quiet runs_quiet_required ok)
      then show ?case by (rule runs_mono) (use s2(1) in \<open>simp add: quiet_def same_outside_def\<close>)
    qed simp
  qed
qed

lemma vol_run_append:
  "vol_run (ps @ qs) r = (case vol_run ps r of None \<Rightarrow> None
     | Some (xs, r1) \<Rightarrow> (case vol_run qs r1 of None \<Rightarrow> None | Some (ys, r2) \<Rightarrow> Some (xs @ ys, r2)))"
  by (induction ps arbitrary: r) (auto split: option.splits)

lemma storage_life_append:
  assumes "storage_life e1 e2 path uuid g0 ps = Some (rs, r)" and "vol_run qs r = Some (rs', r')"
  shows "storage_life e1 e2 path uuid g0 (ps @ qs) = Some (rs @ rs', r')"
  using assms by (auto simp: storage_life_def vol_run_append split: option.splits sum.splits prod.splits)

text \<open>
  C17: From every state that a volume can get into, while the device, the log and the network work, one transfer sends
  something: a further diff is acknowledged, unless everything has been sent and the queue is empty.
\<close>

theorem storage_transfer_progress:
  assumes "storage_setup pg B e1 e2 g0 (ps @ [Op_Begin (\<lambda>_. env) mb iv, Op_End (\<lambda>_. env) ws (\<lambda>_. True) mb])"
    and "env_works pg B env" and "source_works B (mb * 0x100000 div ucast (env_pbs env)) ws" and "0 < mb"
  shows "\<exists>rs r rs' r'. storage_life e1 e2 path uuid g0 ps = Some (rs, r)
    \<and> storage_life e1 e2 path uuid g0 (ps @ [Op_Begin (\<lambda>_. env) mb iv, Op_End (\<lambda>_. env) ws (\<lambda>_. True) mb]) = Some (rs', r')
    \<and> ((\<exists>t. sv_acked (sr_vol r') = t # sv_acked (sr_vol r))
       \<or> (\<exists>d bs. loadFile lsidgid_load ''done'' (sv_dir (sr_vol r)) = Inr d \<and> lg_lsid d = last B
           \<and> sv_dir (sr_vol r) ''queue'' = Some bs \<and> file_values lsidgid_save pg (64 * length ps) bs []))"
proof -
  let ?n = "length ps"
  have a: "storage_setup pg B e1 e2 g0 ps" "sorted_wrt (<) B" "vol_limits B (unat g0) (?n + 1 + 1)" "vol_limits B (unat g0) ?n"
    "vol_limits B (unat g0) (?n + 1)" "env_ok pg B env" "unat mb < 2 ^ 40" "source_ok B ws"
    using assms(1) by (auto simp: storage_setup_def vol_limits_def)
  obtain rs r where r: "storage_life e1 e2 path uuid g0 ps = Some (rs, r)" "run_inv (list_ex is_lost ps) pg B g0 ?n r" using storage_life_ok [OF a(1)] by blast
  obtain d xs where d: "vol_inv pg B (unat g0) ?n (sr_vol r) d xs" "outside_ok (list_ex is_lost ps) (set (sr_dropped r)) g0 (sr_vol r) d"
    using r(2) by (auto simp: run_inv_def)
  have "runs (extract_begin (\<lambda>_. env) mb iv) (sr_vol r) (\<lambda>x v. ((\<exists>w. x = Inr (Inr w)) \<or> lg_lsid d = last B \<and> xs = [])
      \<and> began (list_ex is_lost ps) (set (sr_dropped r)) pg B g0 (?n + 1) (sr_vol r) d xs x v)"
    by (rule runs_conj [OF runs_begin_works [OF d a(4,2) assms(2,4) a(7)] runs_extract_begin [OF d a(4,6,7)]])
  then obtain x v where x: "extract_begin (\<lambda>_. env) mb iv (sr_vol r) = Some (x, v)" "(\<exists>w. x = Inr (Inr w)) \<or> lg_lsid d = last B \<and> xs = []"
    "began (list_ex is_lost ps) (set (sr_dropped r)) pg B g0 (?n + 1) (sr_vol r) d xs x v" by (auto simp: runs_def)
  obtain bs where bs: "sv_dir (sr_vol r) ''queue'' = Some bs" "file_values lsidgid_save pg (64 * ?n) bs xs" using d(1) by (auto simp: vol_inv_def vol_rep_def)
  obtain rs2 r2 where r2: "storage_life e1 e2 path uuid g0 (ps @ [Op_Begin (\<lambda>_. env) mb iv, Op_End (\<lambda>_. env) ws (\<lambda>_. True) mb]) = Some (rs2, r2)"
    using storage_life_ok [OF assms(1)] by blast
  show ?thesis
  proof (cases "lg_lsid d = last B \<and> xs = []")
    case True
    then show ?thesis using r(1) r2 vol_inv_doneE [OF d(1)] bs by blast
  next
    case False
    then obtain b e lim where w: "x = Inr (Inr (b, e, lim))" using x(2) by auto
    obtain xs' where q: "vol_inv pg B (unat g0) (?n + 1) v d xs'" "outside_ok (list_ex is_lost ps) (set (sr_dropped r)) g0 v d" "sv_acked v = sv_acked (sr_vol r)" "b = d" "range_ok B d xs' e lim"
      using x(3) w by (auto simp: began_def quiet_def)
    obtain y v' t where y: "extract_end (\<lambda>_. env) ws (\<lambda>_. True) mb (d, e, lim) v = Some (y, v')" "sv_acked v' = t # sv_acked (sr_vol r)"
      using runs_end_works [OF q(1,2) a(5) q(5) assms(2) a(8) assms(3) a(2)] q(3) by (auto simp: runs_def)
    have "\<exists>ys r3. vol_run [Op_Begin (\<lambda>_. env) mb iv, Op_End (\<lambda>_. env) ws (\<lambda>_. True) mb] r = Some (ys, r3) \<and> sr_vol r3 = v'"
      using x(1) y(1) w q(4) by (simp add: on_run_def note_range_def note_end_def)
    then obtain ys r3 where "vol_run [Op_Begin (\<lambda>_. env) mb iv, Op_End (\<lambda>_. env) ws (\<lambda>_. True) mb] r = Some (ys, r3)" "sr_vol r3 = v'" by blast
    then show ?thesis using r(1) storage_life_append [OF r(1)] y(2) by blast
  qed
qed

section \<open>An example\<close>

definition sample_env :: sv_env where
  "sample_env = \<lparr>env_lsids = ''latest 300'' @ NL @ ''flush 200'' @ NL @ ''completed 300'' @ NL @ ''permanent 300'' @ NL @ ''written 200'' @ NL
      @ ''prev_written 100'' @ NL @ ''oldest 0'' @ NL, env_overflow = False, env_pbs = 512, env_time = 10, env_time2 = 10,
    env_pageSize = 4096, env_memory = blank_header, env_rand = 7\<rparr>"

definition sample_pack :: walb_logpack_header where
  "sample_pack = \<lparr>lh_checksum = 0, lh_sector_type = 0, lh_total_io_size = 299, lh_logpack_lsid = 0, lh_n_records = 1, lh_n_padding = 0,
    lh_reserved1 = 0, lh_record = [], lh_rest = []\<rparr>"

definition sample_source :: wlog_source where
  "sample_source = \<lparr>ws_stop = \<lambda>_. False, ws_header = \<lambda>l. if l = 0 then Some sample_pack else None, ws_io = \<lambda>_ _. True\<rparr>"

definition sample_ops :: "vol_op list" where
  "sample_ops = [Op_Snapshot sample_env 1, Op_Begin (\<lambda>_. sample_env) 1 60, Op_End (\<lambda>_. sample_env) sample_source (\<lambda>_. True) 1,
    Op_Begin (\<lambda>_. sample_env) 1 60, Op_Crash (\<lambda>_. sample_env) sample_source (\<lambda>_. True) 1]"

definition sample_ops_lost :: "vol_op list" where
  "sample_ops_lost = [Op_Snapshot sample_env 1, Op_Begin (\<lambda>_. sample_env) 1 60, Op_Lost sample_env sample_source (\<lambda>_. True) 1,
    Op_Begin (\<lambda>_. sample_env) 1 60, Op_End (\<lambda>_. sample_env) sample_source (\<lambda>_. True) 1, Op_Standby sample_env sample_env]"

lemma sample_env_ok: "env_ok 4096 [0, 300] sample_env"
  using getLsidSet_sample by (simp add: env_ok_def sample_env_def)

lemma sample_source_ok: "source_ok [0, 300] sample_source"
  by (auto simp: source_ok_def sample_source_def sample_pack_def nextLogpackLsid_def split: if_splits)

lemma sample_setup:
  "storage_setup 4096 [0, 300] sample_env sample_env 5 sample_ops" "storage_setup 4096 [0, 300] sample_env sample_env 5 sample_ops_lost"
  using sample_env_ok sample_source_ok
  by (simp_all add: storage_setup_def sample_ops_def sample_ops_lost_def page_ok_def vol_limits_def) (simp_all add: sample_env_def)

theorem storage_diffs_chain_witness:
  "(\<exists>rs r d. storage_life sample_env sample_env ''/dev/walb/a'' [] 5 sample_ops = Some (rs, r)
     \<and> loadFile lsidgid_load ''done'' (sv_dir (sr_vol r)) = Inr d \<and> sent_upto False 5 (lg_gid d) (lg_lsid d) (sv_acked (sr_vol r))
     \<and> apply_vec (snap 5 5) (rev (map fst (sv_acked (sr_vol r)))) = Inr (snap (lg_gid d) (lg_gid d)))
   \<and> (\<exists>rs r d h. storage_life sample_env sample_env ''/dev/walb/a'' [] 5 sample_ops_lost = Some (rs, r)
     \<and> loadFile lsidgid_load ''done'' (sv_dir (sr_vol r)) = Inr d \<and> sent_upto True 5 (lg_gid d) (lg_lsid d) (sv_acked (sr_vol r))
     \<and> receive_all (snap 5 5) (rev (map fst (sv_acked (sr_vol r)))) = Inr (snap h h) \<and> lg_gid d \<le> h)"
proof -
  have k: "\<not> list_ex is_lost sample_ops" "list_ex is_lost sample_ops_lost" by (simp_all add: sample_ops_def sample_ops_lost_def)
  show ?thesis using storage_diffs_chain [OF sample_setup(1), of "''/dev/walb/a''" "[]"]
      storage_diffs_chain [OF sample_setup(2), of "''/dev/walb/a''" "[]"] by (simp only: k simp_thms) blast
qed

theorem storage_snapshots_kept_witness:
  "\<exists>rs r d. storage_life sample_env sample_env ''/dev/walb/a'' [] 5 sample_ops = Some (rs, r)
    \<and> loadFile lsidgid_load ''done'' (sv_dir (sr_vol r)) = Inr d"
  using storage_snapshots_kept [OF sample_setup(1), of "''/dev/walb/a''" "[]"] by blast

theorem storage_erases_only_sent_witness:
  "\<exists>rs r g l. storage_life sample_env sample_env ''/dev/walb/a'' [] 5 sample_ops = Some (rs, r)
    \<and> sent_upto False 5 g l (sv_acked (sr_vol r)) \<and> list_all (\<lambda>x. x \<le> l) (sv_erased (sr_vol r))"
proof -
  have k: "\<not> list_ex is_lost sample_ops" "\<not> list_ex is_standby sample_ops" by (simp_all add: sample_ops_def)
  obtain rs r g l where r: "storage_life sample_env sample_env ''/dev/walb/a'' [] 5 sample_ops = Some (rs, r)"
    "sent_upto False 5 g l (sv_acked (sr_vol r))" "list_all (\<lambda>x. x \<le> l \<or> x \<in> set (sr_dropped r)) (sv_erased (sr_vol r))"
    "sr_dropped r = []"
    using storage_erases_only_sent [OF sample_setup(1), of "''/dev/walb/a''" "[]"] k by auto
  then show ?thesis by auto
qed

lemma sample_works: "env_works 4096 [0, 300] sample_env" "source_works [0, 300] 2048 sample_source"
  using getLsidSet_sample sample_env_ok
  by (auto simp: env_works_def source_works_def sample_env_def sample_source_def sample_pack_def)

theorem storage_transfer_progress_witness:
  "\<exists>rs' r' t. storage_life sample_env sample_env ''/dev/walb/a'' [] 5
      ([] @ [Op_Begin (\<lambda>_. sample_env) 1 60, Op_End (\<lambda>_. sample_env) sample_source (\<lambda>_. True) 1]) = Some (rs', r')
    \<and> sv_acked (sr_vol r') = [t]"
proof -
  have s: "storage_setup 4096 [0, 300] sample_env sample_env 5 ([] @ [Op_Begin (\<lambda>_. sample_env) 1 60, Op_End (\<lambda>_. sample_env) sample_source (\<lambda>_. True) 1])"
    using sample_setup(1) by (simp add: storage_setup_def sample_ops_def vol_limits_def)
  obtain v where v: "storage_start sample_env sample_env ''/dev/walb/a'' [] 5 new_vol = Some (Inr (), v)" "sv_acked v = []"
    "run_inv False 4096 [0, 300] 5 0 \<lparr>sr_vol = v, sr_wait = None, sr_snaps = [], sr_dropped = []\<rparr>"
    using storage_start_ok [of 4096 sample_env sample_env "[0, 300]" "''/dev/walb/a''" "[]" 5] s by (auto simp: storage_setup_def)
  have l: "storage_life sample_env sample_env ''/dev/walb/a'' [] 5 [] = Some ([], \<lparr>sr_vol = v, sr_wait = None, sr_snaps = [], sr_dropped = []\<rparr>)"
    using v(1) by (simp add: storage_life_def)
  have "\<exists>d. loadFile lsidgid_load ''done'' (sv_dir v) = Inr d \<and> lg_lsid d = 0"
    using v(2,3) vol_inv_doneE by (fastforce simp: run_inv_def outside_ok_def)
  moreover have "source_works [0, 300] (1 * 0x100000 div ucast (env_pbs sample_env)) sample_source"
    using sample_works(2) by (simp add: sample_env_def)
  ultimately show ?thesis using storage_transfer_progress [OF s sample_works(1)] l v(2) by fastforce
qed

end
