(* ===== verification/Wdiff_Data.thy ===== *)
theory Wdiff_Data
  imports Vol_Files Diff_Manager_Laws
begin

text \<open>
  \<open>WalbDiffFiles\<close> of \<^verbatim>\<open>src/wdiff_data.cpp\<close>: the wdiff files of a directory and the manager that describes them. The class
  holds references to both, here they are passed along. The system answers in which order a directory is listed (the
  argument \<open>names\<close>); the conversions between times and the digits in file names are arguments as in \<open>Meta_Text\<close>. Removing
  a file is assumed to succeed.
\<close>

section \<open>Files of a directory\<close>

definition HasExtension :: "string \<Rightarrow> string \<Rightarrow> bool" where
  "HasExtension name suffix \<longleftrightarrow> suffix = [] \<or>
     (length suffix < length name \<and> name ! (length name - length suffix - 1) = CHR ''.''
      \<and> drop (length name - length suffix) name = suffix)"

definition getFileNameList :: "string list \<Rightarrow> string \<Rightarrow> string list" where
  "getFileNameList names ext = filter (\<lambda>n. HasExtension n ext) names"

fun load_diffs :: "(string \<Rightarrow> u64 res) \<Rightarrow> vol_dir \<Rightarrow> string list \<Rightarrow> MetaDiff list res" where
  "load_diffs strToUnixTime dir [] = Inr []"
| "load_diffs strToUnixTime dir (fname # ns) =
     res_bind (parseDiffFileName strToUnixTime fname) (\<lambda>d.
     res_bind (load_diffs strToUnixTime dir ns) (\<lambda>ret.
       Inr (d\<lparr>dataSize := (case dir fname of None \<Rightarrow> 0 | Some bs \<Rightarrow> of_nat (length bs))\<rparr> # ret)))"

definition loadWdiffMetadata :: "(string \<Rightarrow> u64 res) \<Rightarrow> string list \<Rightarrow> vol_dir \<Rightarrow> MetaDiff list res" where
  "loadWdiffMetadata strToUnixTime names dir = load_diffs strToUnixTime dir (getFileNameList names ''wdiff'')"

definition unlink :: "string \<Rightarrow> vol_dir \<Rightarrow> vol_dir" where
  "unlink fname dir = dir(fname := None)"

definition clearWdiffFiles :: "string list \<Rightarrow> vol_dir \<Rightarrow> vol_dir" where
  "clearWdiffFiles names dir = fold unlink (getFileNameList names ''wdiff'') dir"

definition removeDiffFiles :: "(u64 \<Rightarrow> string) \<Rightarrow> MetaDiff list \<Rightarrow> vol_dir \<Rightarrow> vol_dir" where
  "removeDiffFiles unixTimeToStr v dir = fold (\<lambda>d. unlink (createDiffFileName unixTimeToStr d)) v dir"

section \<open>Choosing diffs\<close>

fun truncate_loop :: "u64 \<Rightarrow> u64 \<Rightarrow> MetaDiff list \<Rightarrow> MetaDiff list" where
  "truncate_loop sz acc [] = []"
| "truncate_loop sz acc (d # v) =
     (let s = dataSize d in if sz < acc + s then [] else d # truncate_loop sz (acc + s) v)"

definition truncateDiffVecBySize :: "u64 \<Rightarrow> MetaDiff list \<Rightarrow> MetaDiff list" where
  "truncateDiffVecBySize sz v = (case v of [] \<Rightarrow> [] | d # ds \<Rightarrow> d # truncate_loop sz (dataSize d) ds)"

definition wf_getDiffListToMerge :: "diff_manager \<Rightarrow> u64 \<Rightarrow> u64 \<Rightarrow> u64 \<Rightarrow> MetaDiff list res" where
  "wf_getDiffListToMerge mgr gid sz nr =
     res_bind (getMergeableDiffList mgr gid (\<lambda>_. True)) (\<lambda>v. Inr (take (unat nr) (truncateDiffVecBySize sz v)))"

definition wf_getDiffListToSend :: "diff_manager \<Rightarrow> u64 \<Rightarrow> u64 \<Rightarrow> MetaDiff list res" where
  "wf_getDiffListToSend mgr sz nr = wf_getDiffListToMerge mgr 0 sz nr"

definition wf_getDiffListToSendSnap :: "diff_manager \<Rightarrow> MetaSnap \<Rightarrow> u64 \<Rightarrow> u64 \<Rightarrow> MetaDiff list res" where
  "wf_getDiffListToSendSnap mgr s sz nr =
     res_bind (getApplicableAndMergeableDiffList mgr s) (\<lambda>v. Inr (take (unat nr) (truncateDiffVecBySize sz v)))"

section \<open>Operations on the manager and the files\<close>

type_synonym wdiff_files = "diff_manager \<times> vol_dir"

definition wf_removed :: "(u64 \<Rightarrow> string) \<Rightarrow> MetaDiff list \<times> diff_manager \<Rightarrow> vol_dir \<Rightarrow> u64 \<times> wdiff_files" where
  "wf_removed unixTimeToStr = (\<lambda>(v, mgr) dir. (of_nat (length v), mgr, removeDiffFiles unixTimeToStr v dir))"

definition wf_gc :: "(u64 \<Rightarrow> string) \<Rightarrow> MetaSnap \<Rightarrow> wdiff_files \<Rightarrow> (u64 \<times> wdiff_files) res" where
  "wf_gc unixTimeToStr s = (\<lambda>(mgr, dir). res_bind (gc s mgr) (\<lambda>r. Inr (wf_removed unixTimeToStr r dir)))"

definition wf_gcRange :: "(u64 \<Rightarrow> string) \<Rightarrow> u64 \<Rightarrow> u64 \<Rightarrow> wdiff_files \<Rightarrow> u64 \<times> wdiff_files" where
  "wf_gcRange unixTimeToStr b e = (\<lambda>(mgr, dir). wf_removed unixTimeToStr (gcRange b e mgr) dir)"

definition wf_removeBeforeGid :: "(u64 \<Rightarrow> string) \<Rightarrow> u64 \<Rightarrow> wdiff_files \<Rightarrow> u64 \<times> wdiff_files" where
  "wf_removeBeforeGid unixTimeToStr gid = (\<lambda>(mgr, dir). wf_removed unixTimeToStr (eraseBeforeGid gid mgr) dir)"

definition wf_removeDiffs :: "(u64 \<Rightarrow> string) \<Rightarrow> MetaDiff list \<Rightarrow> wdiff_files \<Rightarrow> wdiff_files res" where
  "wf_removeDiffs unixTimeToStr v = (\<lambda>(mgr, dir). res_bind (erase_vec v False mgr) (\<lambda>mgr1.
     Inr (mgr1, removeDiffFiles unixTimeToStr v dir)))"

definition wf_reload :: "(string \<Rightarrow> u64 res) \<Rightarrow> string list \<Rightarrow> wdiff_files \<Rightarrow> wdiff_files res" where
  "wf_reload strToUnixTime names = (\<lambda>(mgr, dir). res_bind (loadWdiffMetadata strToUnixTime names dir) (\<lambda>v.
     res_bind (manager_reset v mgr) (\<lambda>mgr1. Inr (mgr1, dir))))"

definition wf_clear :: "string list \<Rightarrow> wdiff_files \<Rightarrow> wdiff_files" where
  "wf_clear names = (\<lambda>(mgr, dir). (manager_clear mgr, clearWdiffFiles names dir))"

definition wf_listName :: "(u64 \<Rightarrow> string) \<Rightarrow> diff_manager \<Rightarrow> u64 \<Rightarrow> u64 \<Rightarrow> string list res" where
  "wf_listName unixTimeToStr mgr gid0 gid1 =
     res_bind (getAll mgr gid0 gid1) (\<lambda>v. Inr (map (createDiffFileName unixTimeToStr) v))"

end
