(* ===== verification/Diff_Io.thy ===== *)
theory Diff_Io
  imports Diff_Merge File_Io
begin

text \<open>
  Writing the IOs of a wdiff to a volume: \<^verbatim>\<open>src/walb_diff_io.cpp\<close>. What the device does with a discard request is the
  parameter \<open>discard\<close>.
\<close>

datatype DiscardType = Dt_Ignore | Dt_Passdown | Dt_Zero

datatype IoType = Io_Normal | Io_Discard | Io_Zero | Io_Ignore

definition parseDiscardType :: "string \<Rightarrow> DiscardType res" where
  "parseDiscardType s =
     (case map_of [(''ignore'', Dt_Ignore), (''passdown'', Dt_Passdown), (''zero'', Dt_Zero)] s of
        None \<Rightarrow> Inl (Exception ''bad discard type'') | Some t \<Rightarrow> Inr t)"

definition decideIoType :: "walb_diff_record \<Rightarrow> DiscardType \<Rightarrow> IoType res" where
  "decideIoType rec discardType =
     (if rec_isNormal rec then Inr Io_Normal
      else if rec_isAllZero rec then Inr Io_Zero
      else ensure (rec_isDiscard rec) Assert_Failed
        (Inr (case discardType of Dt_Passdown \<Rightarrow> Io_Discard | Dt_Ignore \<Rightarrow> Io_Ignore | Dt_Zero \<Rightarrow> Io_Zero)))"

type_synonym dev_discard = "u64 \<Rightarrow> u32 \<Rightarrow> os_file \<Rightarrow> os_file res"

text \<open>The size is computed in 32 bits.\<close>

definition issueIo :: "os_io \<Rightarrow> dev_discard \<Rightarrow> DiscardType \<Rightarrow> walb_diff_record \<Rightarrow> u8 list option
    \<Rightarrow> os_file \<Rightarrow> os_file res" where
  "issueIo os discard discardType rec iodata f =
     ensure (\<not> rec_isCompressed rec) Assert_Failed
     (res_bind (decideIoType rec discardType) (\<lambda>type.
       if type = Io_Ignore then Inr f
       else if type = Io_Discard then discard (dr_io_address rec) (dr_io_blocks rec) f
       else
         let ioSizeB = unat (dr_io_blocks rec * LOGICAL_BLOCK_SIZE) in
         res_bind (if type = Io_Zero then Inr (replicate ioSizeB 0)
           else case iodata of
               None \<Rightarrow> Inl Assert_Failed
             | Some bs \<Rightarrow> ensure (ioSizeB \<le> length bs) Out_Of_Bounds (Inr (take ioSizeB bs))) (\<lambda>d.
         fd_pwrite os d (unat (dr_io_address rec * 512)) f)))"

text \<open>\<open>k\<close> rounds are left; the pack is its bytes.\<close>

fun issueDiffPack_loop :: "decoder \<Rightarrow> os_io \<Rightarrow> dev_discard \<Rightarrow> DiscardType \<Rightarrow> u8 list \<Rightarrow> nat \<Rightarrow> nat \<Rightarrow> os_file \<Rightarrow> os_file res" where
  "issueDiffPack_loop lib_dec os discard discardType pack 0 i f = Inr f"
| "issueDiffPack_loop lib_dec os discard discardType pack (Suc k) i f =
     res_bind (dpack_at (mpack_header pack) i) (\<lambda>inRec.
     res_bind (if \<not> rec_isNormal inRec then Inr (inRec, None)
       else res_bind (mpack_data pack i) (\<lambda>d.
         if rec_isCompressed inRec then
           (case d of None \<Rightarrow> Inl Out_Of_Bounds
            | Some bs \<Rightarrow> res_bind (uncompressDiffIo lib_dec inRec bs False) (\<lambda>(rec, arr). Inr (rec, Some arr)))
         else Inr (inRec, d))) (\<lambda>(rec, iodata).
     res_bind (issueIo os discard discardType rec iodata f) (issueDiffPack_loop lib_dec os discard discardType pack k (i + 1))))"

definition issueDiffPack :: "decoder \<Rightarrow> os_io \<Rightarrow> dev_discard \<Rightarrow> DiscardType \<Rightarrow> u8 list \<Rightarrow> os_file \<Rightarrow> os_file res" where
  "issueDiffPack lib_dec os discard discardType pack =
     issueDiffPack_loop lib_dec os discard discardType pack (unat (dp_n_records (mpack_header pack))) 0"

end
