(* ===== verification/Lv_Cache.thy ===== *)
theory Lv_Cache
  imports Format Prelude
begin

text \<open>
  The logical volumes of the archive server: their names, and the cache \<open>VolLvCache\<close> of the volumes that exist
  (\<^verbatim>\<open>src/archive_vol_info.cpp\<close>). The mutex of the cache makes each of its operations atomic.
\<close>

section \<open>Names of logical volumes\<close>

definition hasPrefix :: "string \<Rightarrow> string \<Rightarrow> bool" where
  "hasPrefix name pre \<longleftrightarrow> take (length pre) name = pre"

definition removePrefix :: "string \<Rightarrow> string \<Rightarrow> string res" where
  "removePrefix name pre = ensure (hasPrefix name pre) Assert_Failed (Inr (drop (length pre) name))"

definition hasSuffix :: "string \<Rightarrow> string \<Rightarrow> bool" where
  "hasSuffix name suf \<longleftrightarrow> length suf \<le> length name \<and> drop (length name - length suf) name = suf"

definition removeSuffix :: "string \<Rightarrow> string \<Rightarrow> string res" where
  "removeSuffix name suf = ensure (hasSuffix name suf) Assert_Failed (Inr (take (length name - length suf) name))"

definition isVolIdChar :: "char \<Rightarrow> bool" where
  "isVolIdChar c \<longleftrightarrow> (let n = of_char c :: nat in
     48 \<le> n \<and> n \<le> 57 \<or> 97 \<le> n \<and> n \<le> 122 \<or> 65 \<le> n \<and> n \<le> 90 \<or> c = CHR ''-'')"

definition isVolIdFormat :: "string \<Rightarrow> bool" where
  "isVolIdFormat s \<longleftrightarrow> s \<noteq> [] \<and> length s \<le> 64 \<and> list_all isVolIdChar s"

definition BASE_VOLUME_PREFIX :: string where "BASE_VOLUME_PREFIX = ''wb_''"
definition RESTORED_VOLUME_PREFIX :: string where "RESTORED_VOLUME_PREFIX = ''wr_''"
definition COLD_VOLUME_PREFIX :: string where "COLD_VOLUME_PREFIX = ''wc_''"
definition TMP_VOLUME_SUFFIX :: string where "TMP_VOLUME_SUFFIX = ''_tmp''"

definition parseBaseLvName :: "string \<Rightarrow> string option res" where
  "parseBaseLvName name =
     (if \<not> hasPrefix name BASE_VOLUME_PREFIX then Inr None
      else if hasSuffix name TMP_VOLUME_SUFFIX then Inr None
      else res_bind (removePrefix name BASE_VOLUME_PREFIX) (\<lambda>volId.
        Inr (if isVolIdFormat volId then Some volId else None)))"

text \<open>\<open>std::string::rfind\<close> of a character: what is before it and what is behind.\<close>

definition rsplit :: "char \<Rightarrow> string \<Rightarrow> (string \<times> string) option" where
  "rsplit c s = (if c \<notin> set s then None
     else let n = length s - 1 - length (takeWhile (\<lambda>x. x \<noteq> c) (rev s)) in Some (take n s, drop (n + 1) s))"

definition parseVolIdUnderscoreGid :: "string \<Rightarrow> (string \<times> u64) option" where
  "parseVolIdUnderscoreGid s = (case rsplit (CHR ''_'') s of
       None \<Rightarrow> None
     | Some (volId, g) \<Rightarrow> if \<not> isVolIdFormat volId then None
         else (case atoi_u64 g of None \<Rightarrow> None | Some gid \<Rightarrow> Some (volId, gid)))"

definition parseTmpColdToBaseLvName :: "string \<Rightarrow> (string \<times> u64) option res" where
  "parseTmpColdToBaseLvName name =
     (if \<not> hasPrefix name BASE_VOLUME_PREFIX then Inr None
      else res_bind (removePrefix name BASE_VOLUME_PREFIX) (\<lambda>tmp.
        if \<not> hasSuffix name TMP_VOLUME_SUFFIX then Inr None
        else res_bind (removeSuffix tmp TMP_VOLUME_SUFFIX) (\<lambda>tmp. Inr (parseVolIdUnderscoreGid tmp))))"

definition parseSnapLvName :: "string \<Rightarrow> bool \<Rightarrow> bool \<Rightarrow> (string \<times> u64) option res" where
  "parseSnapLvName name isCold isTmp =
     (if isCold \<and> isTmp then Inl (Exception ''isCold and isTmp must not be true at the same time.'')
      else let pre = (if isCold then COLD_VOLUME_PREFIX else RESTORED_VOLUME_PREFIX) in
        if \<not> hasPrefix name pre then Inr None
        else res_bind (removePrefix name pre) (\<lambda>tmp.
          let hasTmpSuffix = hasSuffix tmp TMP_VOLUME_SUFFIX in
          if isTmp then
            (if \<not> hasTmpSuffix then Inr None
             else res_bind (removeSuffix tmp TMP_VOLUME_SUFFIX) (\<lambda>tmp. Inr (parseVolIdUnderscoreGid tmp)))
          else if hasTmpSuffix then Inr None else Inr (parseVolIdUnderscoreGid tmp)))"

definition lvName :: "string \<Rightarrow> string" where "lvName volId = BASE_VOLUME_PREFIX @ volId"

definition restoredSnapshotName :: "string \<Rightarrow> u64 \<Rightarrow> string" where
  "restoredSnapshotName volId gid = (RESTORED_VOLUME_PREFIX @ volId @ ''_'') @ itoa_u64 gid"

definition tmpRestoredSnapshotName :: "string \<Rightarrow> u64 \<Rightarrow> string" where
  "tmpRestoredSnapshotName volId gid = restoredSnapshotName volId gid @ TMP_VOLUME_SUFFIX"

definition coldSnapshotName :: "string \<Rightarrow> u64 \<Rightarrow> string" where
  "coldSnapshotName volId gid = (COLD_VOLUME_PREFIX @ volId @ ''_'') @ itoa_u64 gid"

definition coldToBaseLvName :: "string \<Rightarrow> u64 \<Rightarrow> string" where
  "coldToBaseLvName volId gid = lvName volId @ ''_'' @ itoa_u64 gid @ ''_tmp''"

section \<open>The cache of logical volumes\<close>

text \<open>
  A logical volume is known by its name, the base volume also by its size as the cache remembers it; the maps are in the
  order of their gids.
\<close>

record VolLvCache =
  lc_lv :: "string option"
  lc_lvSizeLb :: nat
  lc_restoredMap :: "(u64 \<times> string) list"
  lc_coldMap :: "(u64 \<times> string) list"
  lc_tmpColdToBaseLv :: "string option"

definition lc_new :: VolLvCache where
  "lc_new = \<lparr>lc_lv = None, lc_lvSizeLb = 0, lc_restoredMap = [], lc_coldMap = [], lc_tmpColdToBaseLv = None\<rparr>"

definition lc_getLv :: "VolLvCache \<Rightarrow> string res" where
  "lc_getLv c = (case lc_lv c of
       None \<Rightarrow> Inl (Exception ''VolLvCache:lv does not existance in memory'') | Some n \<Rightarrow> Inr n)"

definition lc_getSizeLb :: "VolLvCache \<Rightarrow> nat res" where
  "lc_getSizeLb c = res_bind (lc_getLv c) (\<lambda>_. Inr (lc_lvSizeLb c))"

definition lc_add :: "string \<Rightarrow> nat \<Rightarrow> VolLvCache \<Rightarrow> VolLvCache" where
  "lc_add lv sz c = c\<lparr>lc_lv := Some lv, lc_lvSizeLb := sz\<rparr>"

definition lc_remove :: "VolLvCache \<Rightarrow> VolLvCache res" where
  "lc_remove c = res_bind (lc_getLv c) (\<lambda>_. Inr (c\<lparr>lc_restoredMap := [], lc_coldMap := [], lc_lv := None, lc_lvSizeLb := 0\<rparr>))"

definition lc_resize :: "nat \<Rightarrow> VolLvCache \<Rightarrow> VolLvCache res" where
  "lc_resize newSizeLb c = res_bind (lc_getLv c) (\<lambda>_. Inr (c\<lparr>lc_lvSizeLb := newSizeLb\<rparr>))"

definition lc_map :: "bool \<Rightarrow> VolLvCache \<Rightarrow> (u64 \<times> string) list" where
  "lc_map isCold c = (if isCold then lc_coldMap c else lc_restoredMap c)"

definition lc_map_update :: "bool \<Rightarrow> ((u64 \<times> string) list \<Rightarrow> (u64 \<times> string) list) \<Rightarrow> VolLvCache \<Rightarrow> VolLvCache" where
  "lc_map_update isCold f c = (if isCold then c\<lparr>lc_coldMap := f (lc_coldMap c)\<rparr> else c\<lparr>lc_restoredMap := f (lc_restoredMap c)\<rparr>)"

definition lc_hasSnap :: "bool \<Rightarrow> u64 \<Rightarrow> VolLvCache \<Rightarrow> bool" where
  "lc_hasSnap isCold gid c \<longleftrightarrow> map_of (lc_map isCold c) gid \<noteq> None"

definition lc_getSnap :: "bool \<Rightarrow> u64 \<Rightarrow> VolLvCache \<Rightarrow> string res" where
  "lc_getSnap isCold gid c = (case map_of (lc_map isCold c) gid of
       None \<Rightarrow> Inl (Exception ''getSnap:snapshot not found'') | Some n \<Rightarrow> Inr n)"

text \<open>\<open>emplace\<close> keeps an entry that is there.\<close>

fun gid_emplace :: "u64 \<Rightarrow> string \<Rightarrow> (u64 \<times> string) list \<Rightarrow> (u64 \<times> string) list" where
  "gid_emplace g n [] = [(g, n)]"
| "gid_emplace g n ((h, x) # m) =
     (if g < h then (g, n) # (h, x) # m else if g = h then (h, x) # m else (h, x) # gid_emplace g n m)"

definition lc_addSnap :: "bool \<Rightarrow> u64 \<Rightarrow> string \<Rightarrow> VolLvCache \<Rightarrow> VolLvCache" where
  "lc_addSnap isCold gid n = lc_map_update isCold (gid_emplace gid n)"

definition lc_removeSnap :: "bool \<Rightarrow> u64 \<Rightarrow> VolLvCache \<Rightarrow> VolLvCache" where
  "lc_removeSnap isCold gid = lc_map_update isCold (filter (\<lambda>x. fst x \<noteq> gid))"

definition lc_getSnapGidList :: "bool \<Rightarrow> VolLvCache \<Rightarrow> u64 list" where
  "lc_getSnapGidList isCold c = map fst (lc_map isCold c)"

text \<open>\<open>upper_bound\<close> and the entry before it.\<close>

definition searchColdNoGreaterThanGid :: "u64 \<Rightarrow> VolLvCache \<Rightarrow> u64 option res" where
  "searchColdNoGreaterThanGid gid c =
     (let xs = takeWhile (\<lambda>x. fst x \<le> gid) (lc_coldMap c) in
      if xs = [] then Inr None
      else ensure (fst (last xs) \<le> gid) Assert_Failed (Inr (Some (fst (last xs)))))"

text \<open>A volume of the list that LVM gives: its name, the name of its thinpool, if any, and its size.\<close>

record lvm_lv =
  lv_name :: string
  lv_tpName :: string
  lv_sizeLb :: nat

type_synonym lv_cache_map = "string \<Rightarrow> VolLvCache option"

definition insertVolLvCacheMapIfNotFound :: "string \<Rightarrow> lv_cache_map \<Rightarrow> VolLvCache" where
  "insertVolLvCacheMapIfNotFound volId m = (case m volId of None \<Rightarrow> lc_new | Some c \<Rightarrow> c)"

definition skip_lv :: "string \<Rightarrow> lvm_lv \<Rightarrow> bool" where
  "skip_lv tpName lv \<longleftrightarrow> (tpName = [] \<and> lv_tpName lv \<noteq> []) \<or> (tpName \<noteq> [] \<and> lv_tpName lv \<noteq> tpName)"

fun cache_bases :: "string \<Rightarrow> lvm_lv list \<Rightarrow> lv_cache_map \<Rightarrow> lv_cache_map res" where
  "cache_bases tpName [] m = Inr m"
| "cache_bases tpName (lv # lvL) m =
     (if skip_lv tpName lv then cache_bases tpName lvL m
      else res_bind (parseBaseLvName (lv_name lv)) (\<lambda>v. case v of
          None \<Rightarrow> cache_bases tpName lvL m
        | Some volId \<Rightarrow> cache_bases tpName lvL (m(volId \<mapsto> lc_add (lv_name lv) (lv_sizeLb lv) (insertVolLvCacheMapIfNotFound volId m)))))"

fun cache_snaps :: "string \<Rightarrow> lvm_lv list \<Rightarrow> lv_cache_map \<Rightarrow> lv_cache_map res" where
  "cache_snaps tpName [] m = Inr m"
| "cache_snaps tpName (lv # lvL) m =
     (if skip_lv tpName lv then cache_snaps tpName lvL m
      else res_bind (parseSnapLvName (lv_name lv) False False) (\<lambda>r.
        res_bind (parseSnapLvName (lv_name lv) True False) (\<lambda>c.
          if r = None \<and> c = None then cache_snaps tpName lvL m
          else let isCold = (c \<noteq> None); (volId, gid) = the (if isCold then c else r) in
            cache_snaps tpName lvL (m(volId \<mapsto> lc_addSnap isCold gid (lv_name lv) (insertVolLvCacheMapIfNotFound volId m))))))"

fun cache_tmps :: "lvm_lv list \<Rightarrow> (string \<Rightarrow> string option) \<Rightarrow> (string \<Rightarrow> string option) res" where
  "cache_tmps [] m = Inr m"
| "cache_tmps (lv # lvL) m =
     res_bind (parseTmpColdToBaseLvName (lv_name lv)) (\<lambda>x. case x of
         None \<Rightarrow> cache_tmps lvL m
       | Some (volId, gid) \<Rightarrow> cache_tmps lvL (if m volId = None then m(volId \<mapsto> lv_name lv) else m))"

fun cache_vols :: "lv_cache_map \<Rightarrow> (string \<Rightarrow> string option) \<Rightarrow> string list \<Rightarrow> lv_cache_map \<Rightarrow> lv_cache_map res" where
  "cache_vols m1 tmps [] m2 = Inr m2"
| "cache_vols m1 tmps (volId # v) m2 =
     ensure (m2 volId = None) Assert_Failed
       (let c = insertVolLvCacheMapIfNotFound volId m1 in
        cache_vols m1 tmps v (m2(volId \<mapsto> (case tmps volId of None \<Rightarrow> c | Some n \<Rightarrow> c\<lparr>lc_tmpColdToBaseLv := Some n\<rparr>))))"

definition getVolLvCacheMap :: "lvm_lv list \<Rightarrow> string \<Rightarrow> string list \<Rightarrow> lv_cache_map res" where
  "getVolLvCacheMap lvL tpName volIdV =
     res_bind (cache_bases tpName lvL Map.empty) (\<lambda>m0.
     res_bind (cache_snaps tpName lvL m0) (\<lambda>m1.
     res_bind (cache_tmps lvL Map.empty) (\<lambda>tmps. cache_vols m1 tmps volIdV Map.empty)))"

end
