(* ===== verification/Archive_Vol.thy ===== *)
theory Archive_Vol
  imports Wdiff_Data Diff_Io Lv_Cache
begin

text \<open>
  A volume of the archive server: \<open>ArchiveVolInfo\<close> of \<^verbatim>\<open>src/archive_vol_info.cpp\<close> and what \<^verbatim>\<open>src/archive.cpp\<close> does with
  it: applying, merging, restoring, receiving wdiffs, and starting again. The state is the directory of the volume, the
  manager of its wdiffs, the logical volumes by name with their images, the cache of their names, and the latest state. The
  commands of LVM run in child processes; they act on the images as documented. An operation returns a result and the
  new state, also when it throws.
\<close>

section \<open>State and environment\<close>

record archive_vol =
  av_dir :: vol_dir
  av_mgr :: diff_manager
  av_lvs :: "string \<Rightarrow> u8 list option"
  av_lvC :: VolLvCache
  av_latestMetaSt :: MetaState

text \<open>
  The volume, the configuration of the server, the libraries, and what the system answers: the order in which the directory
  is listed, whether the server is stopped before an IO, the contents of a volume that was enlarged.
\<close>

record av_env =
  ae_volId :: string
  ae_thinpool :: string
  ae_maxOpenDiffs :: nat
  ae_discardType :: DiscardType
  ae_keepOneColdSnapshot :: bool
  ae_unixTimeToStr :: "u64 \<Rightarrow> string"
  ae_strToUnixTime :: "string \<Rightarrow> u64 res"
  ae_enc :: encoder
  ae_dec :: decoder
  ae_os :: os_io
  ae_discard :: dev_discard
  ae_names :: "string list"
  ae_stop :: "DiffRecIo \<Rightarrow> bool"
  ae_extend :: "u8 list \<Rightarrow> nat \<Rightarrow> u8 list"

definition isThinpool :: "av_env \<Rightarrow> bool" where "isThinpool env \<longleftrightarrow> ae_thinpool env \<noteq> []"

section \<open>Commands on logical volumes\<close>

definition existsFile :: "string \<Rightarrow> archive_vol \<Rightarrow> bool" where
  "existsFile n s \<longleftrightarrow> av_lvs s n \<noteq> None"

definition lvm_get :: "string \<Rightarrow> (archive_vol, u8 list) sx" where
  "lvm_get n = sx_read (\<lambda>s. case av_lvs s n of None \<Rightarrow> Inl (Exception ''lvm: not found'') | Some img \<Rightarrow> Inr img)"

definition lvm_put :: "string \<Rightarrow> u8 list option \<Rightarrow> (archive_vol, unit) sx" where
  "lvm_put n img = sx_put (\<lambda>s. s\<lparr>av_lvs := (av_lvs s)(n := img)\<rparr>)"

definition lvm_remove :: "string \<Rightarrow> (archive_vol, unit) sx" where
  "lvm_remove n = sx_bind (lvm_get n) (\<lambda>_. lvm_put n None)"

definition lvm_new :: "string \<Rightarrow> (archive_vol, unit) sx" where
  "lvm_new n = sx_read (\<lambda>s. if existsFile n s then Inl (Exception ''lvm: already exists'') else Inr ())"

definition lvm_rename :: "string \<Rightarrow> string \<Rightarrow> (archive_vol, string) sx" where
  "lvm_rename old new = sx_bind (lvm_get old) (\<lambda>img. sx_bind (lvm_new new) (\<lambda>_.
     sx_bind (lvm_put old None) (\<lambda>_. sx_bind (lvm_put new (Some img)) (\<lambda>_. sx_return new))))"

definition lvm_snap :: "string \<Rightarrow> string \<Rightarrow> (archive_vol, string) sx" where
  "lvm_snap origin new = sx_bind (lvm_get origin) (\<lambda>img. sx_bind (lvm_new new) (\<lambda>_.
     sx_bind (lvm_put new (Some img)) (\<lambda>_. sx_return new)))"

definition sizeLb :: "u8 list \<Rightarrow> nat" where "sizeLb img = length img div 512"

definition lvm_resize :: "av_env \<Rightarrow> string \<Rightarrow> nat \<Rightarrow> (archive_vol, unit) sx" where
  "lvm_resize env n sz = sx_bind (lvm_get n) (\<lambda>img. lvm_put n (Some (ae_extend env img sz)))"

text \<open>A volume that is smaller is enlarged to a size.\<close>

definition grow_to :: "av_env \<Rightarrow> string \<Rightarrow> nat \<Rightarrow> (archive_vol, unit) sx" where
  "grow_to env n sz = sx_bind (lvm_get n) (\<lambda>img.
     if sizeLb img < sz then lvm_resize env n sz else sx_return ())"

definition on_lvC :: "(VolLvCache \<Rightarrow> VolLvCache) \<Rightarrow> (archive_vol, unit) sx" where
  "on_lvC f = sx_put (\<lambda>s. s\<lparr>av_lvC := f (av_lvC s)\<rparr>)"

definition ask_lvC :: "(VolLvCache \<Rightarrow> 'a res) \<Rightarrow> (archive_vol, 'a) sx" where
  "ask_lvC f = sx_read (\<lambda>s. f (av_lvC s))"

section \<open>Files of the volume\<close>

definition av_saveFile :: "string \<Rightarrow> u8 list \<Rightarrow> (archive_vol, unit) sx" where
  "av_saveFile fname bs = sx_put (\<lambda>s. s\<lparr>av_dir := saveFile fname bs (av_dir s)\<rparr>)"

definition setMetaState :: "MetaState \<Rightarrow> (archive_vol, unit) sx" where
  "setMetaState st = av_saveFile ''base'' (state_save st)"

definition getMetaState :: "(archive_vol, MetaState) sx" where
  "getMetaState = sx_read (\<lambda>s. loadFile (state_load False) ''base'' (av_dir s))"

definition av_setState :: "string \<Rightarrow> (archive_vol, unit) sx" where
  "av_setState newState =
     (if newState \<in> {''SyncReady'', ''Archived'', ''Stopped''} then av_saveFile ''state'' (str_save newState)
      else sx_read (\<lambda>_. Inl (Exception ''ArchiveVolInfo::setState:bad state'')))"

definition av_getState :: "(archive_vol, string) sx" where
  "av_getState = sx_read (\<lambda>s. loadFile str_load ''state'' (av_dir s))"

definition av_setUuid :: "u8 list \<Rightarrow> (archive_vol, unit) sx" where
  "av_setUuid uuid = av_saveFile ''uuid'' uuid"

definition av_getUuid :: "(archive_vol, u8 list) sx" where
  "av_getUuid = sx_read (\<lambda>s. loadFile (stream_read UUID_SIZE) ''uuid'' (av_dir s))"

definition setArchiveUuid :: "u8 list \<Rightarrow> (archive_vol, unit) sx" where
  "setArchiveUuid uuid = av_saveFile ''archive_uuid'' uuid"

definition getArchiveUuid :: "(archive_vol, u8 list) sx" where
  "getArchiveUuid = sx_read (\<lambda>s. loadFile (stream_read UUID_SIZE) ''archive_uuid'' (av_dir s))"

definition verifyArchiveUuid :: "u8 list \<Rightarrow> (archive_vol, unit) sx" where
  "verifyArchiveUuid uuid = sx_bind getArchiveUuid (\<lambda>archiveUuid. sx_read (\<lambda>_.
     if uuid = archiveUuid then Inr () else Inl (Exception ''verifyArchiveUuid:invalid archive uuid'')))"

definition coldTimestampFileName :: "u64 \<Rightarrow> string" where
  "coldTimestampFileName gid = itoa_u64 gid @ ''.cold''"

definition setColdTimestamp :: "u64 \<Rightarrow> u64 \<Rightarrow> (archive_vol, unit) sx" where
  "setColdTimestamp gid ts = av_saveFile (coldTimestampFileName gid) (saveVariableInt ts)"

definition getColdTimestamp :: "u64 \<Rightarrow> (archive_vol, u64) sx" where
  "getColdTimestamp gid = sx_read (\<lambda>s. loadFile loadVariableInt (coldTimestampFileName gid) (av_dir s))"

definition existsColdTimestamp :: "u64 \<Rightarrow> archive_vol \<Rightarrow> bool" where
  "existsColdTimestamp gid s \<longleftrightarrow> av_dir s (coldTimestampFileName gid) \<noteq> None"

definition av_unlink :: "string \<Rightarrow> (archive_vol, unit) sx" where
  "av_unlink fname = sx_put (\<lambda>s. s\<lparr>av_dir := unlink fname (av_dir s)\<rparr>)"

definition removeColdTimestamp :: "u64 \<Rightarrow> (archive_vol, unit) sx" where
  "removeColdTimestamp gid = av_unlink (coldTimestampFileName gid)"

fun removeColdTimestamp_loop :: "u64 \<Rightarrow> string list \<Rightarrow> (archive_vol, unit) sx" where
  "removeColdTimestamp_loop maxGid [] = sx_return ()"
| "removeColdTimestamp_loop maxGid (fname # ns) =
     sx_bind (sx_read (\<lambda>_. res_bind (removeSuffix fname ''.cold'') atoi_throw)) (\<lambda>gid.
     sx_bind (if gid \<ge> maxGid then sx_return () else av_unlink fname) (\<lambda>_. removeColdTimestamp_loop maxGid ns))"

definition removeColdTimestampFilesBeforeGid :: "av_env \<Rightarrow> u64 \<Rightarrow> (archive_vol, unit) sx" where
  "removeColdTimestampFilesBeforeGid env maxGid = removeColdTimestamp_loop maxGid (getFileNameList (ae_names env) ''cold'')"

section \<open>Wdiffs of the volume\<close>

definition on_wdiffs :: "(wdiff_files \<Rightarrow> ('a \<times> wdiff_files) res) \<Rightarrow> (archive_vol, 'a) sx" where
  "on_wdiffs f s = (case f (av_mgr s, av_dir s) of
       Inl e \<Rightarrow> Some (Inl e, s)
     | Inr (a, m, d) \<Rightarrow> Some (Inr a, s\<lparr>av_mgr := m, av_dir := d\<rparr>))"

definition av_removeDiffs :: "av_env \<Rightarrow> MetaDiff list \<Rightarrow> (archive_vol, unit) sx" where
  "av_removeDiffs env v = on_wdiffs (\<lambda>w. res_bind (wf_removeDiffs (ae_unixTimeToStr env) v w) (\<lambda>w'. Inr ((), w')))"

definition gcDiffs :: "av_env \<Rightarrow> (archive_vol, u64) sx" where
  "gcDiffs env = sx_bind getMetaState (\<lambda>st. on_wdiffs (wf_gc (ae_unixTimeToStr env) (st_snapB st)))"

definition gcDiffsRange :: "av_env \<Rightarrow> u64 \<Rightarrow> u64 \<Rightarrow> (archive_vol, u64) sx" where
  "gcDiffsRange env b e = on_wdiffs (\<lambda>w. Inr (wf_gcRange (ae_unixTimeToStr env) b e w))"

definition mgr_add :: "MetaDiff \<Rightarrow> (archive_vol, unit) sx" where
  "mgr_add d = on_wdiffs (\<lambda>(m, dir). res_bind (addNolock d m) (\<lambda>m'. Inr ((), m', dir)))"

definition getDiffListToMergeGid :: "diff_manager \<Rightarrow> u64 \<Rightarrow> u64 \<Rightarrow> MetaDiff list res" where
  "getDiffListToMergeGid mgr gB gE =
     res_bind (getMergeableDiffList mgr gB (\<lambda>_. True)) (\<lambda>v. Inr (takeWhile (\<lambda>d. \<not> gidB (snapB d) \<ge> gE) v))"

definition av_getLatestState :: "(archive_vol, MetaState) sx" where
  "av_getLatestState = sx_bind getMetaState (\<lambda>st. sx_read (\<lambda>s. getLatestState (av_mgr s) st))"

definition getOldestMetaState :: "(archive_vol, MetaState) sx" where
  "getOldestMetaState = sx_bind getMetaState (\<lambda>st. sx_read (\<lambda>s.
     res_bind (getMinimumApplicableDiffList (av_mgr s) st) (\<lambda>v.
     res_bind (if v = [] then Inr st else apply_state_vec st v) (\<lambda>st1. ensure (\<not> isApplying st1) Assert_Failed (Inr st1)))))"

text \<open>Cold images that were there are removed as far as this works; removing is assumed to work when the volume exists.\<close>

fun removeCold_loop :: "u64 \<Rightarrow> (u64 \<times> string) list \<Rightarrow> (archive_vol, unit) sx" where
  "removeCold_loop gid [] = sx_return ()"
| "removeCold_loop gid ((coldGid, n) # m) =
     (if coldGid \<ge> gid then sx_return ()
      else sx_bind (\<lambda>s. if existsFile n s
            then sx_bind (lvm_remove n) (\<lambda>_. on_lvC (lc_removeSnap True coldGid)) s else Some (Inr (), s)) (\<lambda>_.
        removeCold_loop gid m))"

definition removeBeforeGid :: "av_env \<Rightarrow> u64 \<Rightarrow> (archive_vol, unit) sx" where
  "removeBeforeGid env gid =
     sx_bind (on_wdiffs (\<lambda>w. Inr (wf_removeBeforeGid (ae_unixTimeToStr env) gid w))) (\<lambda>_.
     sx_bind (removeColdTimestampFilesBeforeGid env gid) (\<lambda>_.
     sx_bind (ask_lvC (\<lambda>c. Inr (lc_coldMap c))) (\<lambda>coldM. removeCold_loop gid coldM)))"

definition getMetaStateForDetail :: "u64 \<Rightarrow> bool \<Rightarrow> (archive_vol, MetaState \<times> bool) sx" where
  "getMetaStateForDetail gid isApply =
     sx_bind getMetaState (\<lambda>st.
     if isApply \<and> isApplying st then sx_return (st, False)
     else sx_bind (ask_lvC (searchColdNoGreaterThanGid gid)) (\<lambda>c. case c of
         None \<Rightarrow> sx_return (st, False)
       | Some coldGid \<Rightarrow>
           if coldGid \<le> gidB (st_snapB st) then sx_return (st, False)
           else sx_bind (sx_read (\<lambda>_. snap_set1 coldGid)) (\<lambda>sn. sx_bind (getColdTimestamp coldGid) (\<lambda>ts.
             sx_bind (sx_read (\<lambda>_. MetaState1 sn ts)) (\<lambda>cst. sx_return (cst, True))))))"

definition changeSnapshot_file :: "av_env \<Rightarrow> bool \<Rightarrow> MetaDiff \<Rightarrow> vol_dir \<Rightarrow> (bool \<times> vol_dir) res" where
  "changeSnapshot_file env enable d dir =
     ensure (isMergeable d \<noteq> enable) Assert_Failed
       (let to = createDiffFileName (ae_unixTimeToStr env) d;
            from = createDiffFileName (ae_unixTimeToStr env) (d\<lparr>isMergeable := enable\<rparr>)
        in case dir from of None \<Rightarrow> Inr (False, dir) | Some bs \<Rightarrow> Inr (True, dir(from := None, to \<mapsto> bs)))"

fun av_changeSnapshot_loop :: "av_env \<Rightarrow> bool \<Rightarrow> MetaDiff list \<Rightarrow> vol_dir \<Rightarrow> (bool \<times> vol_dir) res" where
  "av_changeSnapshot_loop env enable [] dir = Inr (True, dir)"
| "av_changeSnapshot_loop env enable (d # v) dir =
     res_bind (changeSnapshot_file env enable d dir) (\<lambda>(ok, dir1).
     res_bind (av_changeSnapshot_loop env enable v dir1) (\<lambda>(ok', dir2). Inr (ok \<and> ok', dir2)))"

text \<open>One gid of the handler of the same name: the manager and then the names of the files.\<close>

definition av_changeSnapshot :: "av_env \<Rightarrow> u64 \<Rightarrow> bool \<Rightarrow> (archive_vol, bool) sx" where
  "av_changeSnapshot env gid enable = on_wdiffs (\<lambda>(mgr, dir).
     let (ok, diffV, mgr1) = changeSnapshot gid enable mgr in
     res_bind (av_changeSnapshot_loop env enable diffV dir) (\<lambda>(ok', dir1). Inr (ok \<and> ok', mgr1, dir1)))"

datatype repl_kind = DONT_REPL | DO_HASH_REPL | DO_DIFF_REPL

fun repl_size :: "u64 \<Rightarrow> u64 \<Rightarrow> MetaDiff list \<Rightarrow> repl_kind" where
  "repl_size minSizeB totalB [] = DONT_REPL"
| "repl_size minSizeB totalB (d # v) =
     (let t = totalB + MetaDiff.dataSize d in if t > minSizeB then DO_DIFF_REPL else repl_size minSizeB t v)"

definition shouldDoRepl :: "diff_manager \<Rightarrow> MetaSnap \<Rightarrow> MetaSnap \<Rightarrow> bool \<Rightarrow> u64 \<Rightarrow> repl_kind res" where
  "shouldDoRepl mgr srvSnap cliSnap isSize param =
     (if gidB srvSnap \<ge> gidB cliSnap then Inr DONT_REPL
      else res_bind (MetaState1 srvSnap 0) (\<lambda>st. res_bind (getDiffListToSync mgr st cliSnap) (\<lambda>diffV.
        Inr (case diffV of
            [] \<Rightarrow> DO_HASH_REPL
          | d # _ \<Rightarrow>
              if isSize then
                (let minSizeB = param * 0x100000 in if minSizeB = 0 then DO_DIFF_REPL else repl_size minSizeB 0 diffV)
              else if param \<le> gidB (snapB d) then DONT_REPL else DO_DIFF_REPL))))"

section \<open>Applying wdiffs to a volume\<close>

fun open_all :: "(u64 \<Rightarrow> string) \<Rightarrow> MetaDiff list \<Rightarrow> vol_dir \<Rightarrow> u8 list list option" where
  "open_all unixTimeToStr [] dir = Some []"
| "open_all unixTimeToStr (d # v) dir =
     (case dir (createDiffFileName unixTimeToStr d) of
        None \<Rightarrow> None
      | Some f \<Rightarrow> map_option (\<lambda>fs. f # fs) (open_all unixTimeToStr v dir))"

text \<open>Nothing changes between the ten attempts, so that they are one.\<close>

definition tryOpenDiffs :: "av_env \<Rightarrow> bool \<Rightarrow> (diff_manager \<Rightarrow> MetaDiff list res) \<Rightarrow> (archive_vol, MetaDiff list \<times> u8 list list) sx" where
  "tryOpenDiffs env allowEmpty getDiffList = sx_read (\<lambda>s.
     res_bind (getDiffList (av_mgr s)) (\<lambda>diffV.
       if \<not> allowEmpty \<and> diffV = [] then Inl (Exception ''tryOpenDiffs:diffV empty'')
       else (case open_all (ae_unixTimeToStr env) diffV (av_dir s) of
           None \<Rightarrow> Inl (Exception ''tryOpenDiffs:exceed max retry'')
         | Some fileV \<Rightarrow> Inr (diffV, fileV))))"

text \<open>The result is \<open>None\<close> when the server is stopped.\<close>

partial_function (option) apply_loop ::
  "av_env \<Rightarrow> u64 \<Rightarrow> diff_merger \<Rightarrow> DiffStatistics \<Rightarrow> os_file \<Rightarrow> ((diff_merger \<times> DiffStatistics) option res \<times> os_file) option"
where
  "apply_loop env lvSnapSizeLb mg stat f =
     (case getAndRemove (ae_dec env) mg of
        None \<Rightarrow> None
      | Some (Inl e) \<Rightarrow> Some (Inl e, f)
      | Some (Inr (None, mg1)) \<Rightarrow> Some (Inr (Some (mg1, stat)), f)
      | Some (Inr (Some recIo, mg1)) \<Rightarrow>
          if ae_stop env recIo then Some (Inr None, f)
          else
            let rec = rio_rec recIo in
            (case res_bind (stat_update_rec rec stat) (\<lambda>stat1.
                ensure (\<not> rec_isCompressed rec) Assert_Failed
                (if dr_io_address rec + ucast (dr_io_blocks rec) > lvSnapSizeLb
                 then Inl (Exception ''applyOpenedDiffs:out of range'')
                 else res_bind (issueIo (ae_os env) (ae_discard env) (ae_discardType env) rec (Some (rio_io recIo)) f) (\<lambda>f1.
                   Inr (stat1, f1)))) of
               Inl e \<Rightarrow> Some (Inl e, f)
             | Inr (stat1, f1) \<Rightarrow> apply_loop env lvSnapSizeLb mg1 stat1 f1))"

definition archive_merger :: "u8 list list \<Rightarrow> diff_merger res" where
  "archive_merger fileV = addWdiffs (zip [0..<length fileV] fileV) (merger_new 8192)"

text \<open>\<open>sz\<close> is the size that the \<open>Lv\<close> object carries.\<close>

definition applyOpenedDiffs :: "av_env \<Rightarrow> u8 list list \<Rightarrow> string \<Rightarrow> nat \<Rightarrow> (archive_vol, bool) sx" where
  "applyOpenedDiffs env fileV lv sz =
     sx_bind (sx_read (\<lambda>_. archive_merger fileV)) (\<lambda>merger.
     sx_bind (\<lambda>s. case merger_prepare (ae_dec env) merger of None \<Rightarrow> None | Some r \<Rightarrow> Some (r, s)) (\<lambda>merger1.
     sx_bind (lvm_get lv) (\<lambda>img.
     \<lambda>s. case apply_loop env (of_nat sz) merger1 stat_clear \<lparr>fl_bytes = img, fl_pos = 0, fl_seekable = True\<rparr> of
         None \<Rightarrow> None
       | Some (r, f) \<Rightarrow>
           let s1 = s\<lparr>av_lvs := (av_lvs s)(lv \<mapsto> fl_bytes f)\<rparr> in
           Some (case r of
               Inl e \<Rightarrow> (Inl e, s1)
             | Inr None \<Rightarrow> (Inr False, s1)
             | Inr (Some (mg, stat)) \<Rightarrow> (res_bind (merger_statIn mg) (\<lambda>_. Inr True), s1)))))"

datatype ApplyState = As_FAILURE | As_REMAINING | As_DONE

definition applyDiffsToVolumeOnce :: "av_env \<Rightarrow> MetaState \<Rightarrow> u64 \<Rightarrow> (archive_vol, ApplyState \<times> MetaState) sx" where
  "applyDiffsToVolumeOnce env st0 gid =
     sx_bind (tryOpenDiffs env True (\<lambda>mgr. getDiffListToApply mgr st0 gid (ae_maxOpenDiffs env))) (\<lambda>(diffV, fileV).
     if diffV = [] then sx_return (As_DONE, st0)
     else
       sx_bind (sx_read (\<lambda>_. beginApplying_vec st0 diffV)) (\<lambda>st01.
       sx_bind (setMetaState st01) (\<lambda>_.
       sx_bind (ask_lvC lc_getLv) (\<lambda>lv. sx_bind (ask_lvC lc_getSizeLb) (\<lambda>sz.
       sx_bind (applyOpenedDiffs env fileV lv sz) (\<lambda>b.
         if \<not> b then sx_return (As_FAILURE, st0)
         else
           sx_bind (sx_read (\<lambda>_. endApplying_vec st01 diffV)) (\<lambda>st1.
           sx_bind (setMetaState st1) (\<lambda>_.
           sx_bind (removeBeforeGid env (gidB (st_snapB st1))) (\<lambda>_.
             sx_return (As_REMAINING, st1))))))))))"

partial_function (option) apply_rounds :: "av_env \<Rightarrow> u64 \<Rightarrow> MetaState \<Rightarrow> archive_vol \<Rightarrow> (bool res \<times> archive_vol) option" where
  "apply_rounds env gid st0 s =
     (case applyDiffsToVolumeOnce env st0 gid s of
        None \<Rightarrow> None
      | Some (Inl e, s1) \<Rightarrow> Some (Inl e, s1)
      | Some (Inr (ret, st1), s1) \<Rightarrow>
          if ret = As_DONE then Some (Inr True, s1)
          else if ret = As_FAILURE then Some (Inr False, s1)
          else apply_rounds env gid st1 s1)"

text \<open>Making a cold image the base image.\<close>

definition makeColdToBase :: "av_env \<Rightarrow> u64 \<Rightarrow> (archive_vol, unit) sx" where
  "makeColdToBase env gid =
     sx_bind (ask_lvC lc_getLv) (\<lambda>lv.
     sx_bind (ask_lvC (lc_getSnap True gid)) (\<lambda>coldLv.
     sx_bind (sx_read (\<lambda>_. snap_set1 gid)) (\<lambda>sn.
     sx_bind (getColdTimestamp gid) (\<lambda>ts.
     sx_bind (sx_read (\<lambda>_. MetaState1 sn ts)) (\<lambda>coldSt.
     let tmpLv = coldToBaseLvName (ae_volId env) gid in
     sx_bind (\<lambda>s. if existsFile tmpLv s then lvm_remove tmpLv s else Some (Inr (), s)) (\<lambda>_.
     sx_bind (lvm_rename coldLv tmpLv) (\<lambda>_.
     sx_bind (on_lvC (\<lambda>c. (lc_removeSnap True gid c)\<lparr>lc_tmpColdToBaseLv := Some tmpLv\<rparr>)) (\<lambda>_.
     sx_bind (ask_lvC lc_getSizeLb) (\<lambda>lvSizeLb.
     sx_bind (grow_to env tmpLv lvSizeLb) (\<lambda>_.
     sx_bind (lvm_remove lv) (\<lambda>_.
     sx_bind (setMetaState coldSt) (\<lambda>_.
     sx_bind (lvm_rename tmpLv lv) (\<lambda>_.
     sx_bind (removeColdTimestamp gid) (\<lambda>_.
     sx_bind (on_lvC (\<lambda>c. c\<lparr>lc_tmpColdToBaseLv := None\<rparr>)) (\<lambda>_.
       removeBeforeGid env gid)))))))))))))))"

text \<open>After a failure of that; the empty volume is \<open>None\<close>.\<close>

definition recoverColdToBaseIfNecessary :: "av_env \<Rightarrow> (archive_vol, unit) sx" where
  "recoverColdToBaseIfNecessary env =
     sx_bind (sx_read (\<lambda>s. Inr (case lc_tmpColdToBaseLv (av_lvC s) of
         None \<Rightarrow> None | Some n \<Rightarrow> if existsFile n s then Some n else None))) (\<lambda>tmpLv.
     sx_bind (sx_read (\<lambda>_. case tmpLv of
         None \<Rightarrow> Inr (- 1)
       | Some n \<Rightarrow> res_bind (parseTmpColdToBaseLvName n) (\<lambda>x. case x of
             None \<Rightarrow> Inl Assert_Failed
           | Some (volId2, g) \<Rightarrow> ensure (ae_volId env = volId2) Assert_Failed (ensure (g \<noteq> - 1) Assert_Failed (Inr g))))) (\<lambda>coldGid.
     sx_bind getMetaState (\<lambda>st0.
     sx_bind (sx_read (\<lambda>s. Inr (existsFile (lvName (ae_volId env)) s))) (\<lambda>baseExists.
     if baseExists then
       (case tmpLv of
          None \<Rightarrow> sx_return ()
        | Some n \<Rightarrow>
            sx_bind (if coldGid \<le> gidB (st_snapB st0)
              then sx_bind (lvm_remove n) (\<lambda>_. removeColdTimestamp coldGid)
              else sx_bind (lvm_rename n (coldSnapshotName (ae_volId env) coldGid)) (\<lambda>_. sx_return ())) (\<lambda>_.
            on_lvC (\<lambda>c. c\<lparr>lc_tmpColdToBaseLv := None\<rparr>)))
     else
       (case tmpLv of
          None \<Rightarrow> sx_read (\<lambda>_. Inl (Exception ''recoverColdToBase:not found''))
        | Some n \<Rightarrow>
            sx_bind (sx_read (\<lambda>_. snap_set1 coldGid)) (\<lambda>sn.
            sx_bind (getColdTimestamp coldGid) (\<lambda>ts.
            sx_bind (sx_read (\<lambda>_. MetaState1 sn ts)) (\<lambda>coldSt.
            sx_bind (setMetaState coldSt) (\<lambda>_.
            sx_bind (lvm_rename n (lvName (ae_volId env))) (\<lambda>baseLv.
            sx_bind (lvm_get baseLv) (\<lambda>img.
            sx_bind (on_lvC (lc_add baseLv (sizeLb img))) (\<lambda>_.
            sx_bind (removeColdTimestamp coldGid) (\<lambda>_.
            sx_bind (on_lvC (\<lambda>c. c\<lparr>lc_tmpColdToBaseLv := None\<rparr>)) (\<lambda>_.
              removeBeforeGid env coldGid))))))))))))))"

definition applyDiffsToVolume :: "av_env \<Rightarrow> u64 \<Rightarrow> (archive_vol, bool) sx" where
  "applyDiffsToVolume env gid =
     sx_bind (recoverColdToBaseIfNecessary env) (\<lambda>_.
     sx_bind (getMetaStateForDetail gid True) (\<lambda>(st0, useCold).
     let coldGid = gidB (st_snapB st0) in
     sx_bind (if useCold then makeColdToBase env coldGid else sx_return ()) (\<lambda>_.
     if useCold \<and> coldGid = gid then sx_return True else apply_rounds env gid st0)))"

section \<open>Merging wdiffs\<close>

partial_function (option) archive_merge_loop ::
  "av_env \<Rightarrow> sorted_writer \<Rightarrow> diff_merger \<Rightarrow> (sorted_writer \<times> diff_merger) option res option"
where
  "archive_merge_loop env w mg =
     obind (getAndRemove (ae_dec env) mg) (\<lambda>t.
       case fst t of
         None \<Rightarrow> Some (Inr (Some (w, snd t)))
       | Some d \<Rightarrow>
           if ae_stop env d then Some (Inr None)
           else obind (Some (writer_compressAndWriteDiff (ae_enc env) (rio_rec d) (rio_io d) WALB_DIFF_CMPR_SNAPPY 0 w)) (\<lambda>w1.
             archive_merge_loop env w1 (snd t)))"

text \<open>The file that is written, if the server is not stopped.\<close>

definition merged_file :: "av_env \<Rightarrow> u8 list list \<Rightarrow> u8 list option res option" where
  "merged_file env fileV =
     obind (Some (archive_merger fileV)) (\<lambda>merger.
     obind (merger_prepare (ae_dec env) merger) (\<lambda>mg1.
     obind (Some (merger_header mg1)) (\<lambda>wdiffH.
     obind (Some (writer_writeHeader wdiffH (writer_setFd []))) (\<lambda>(h, w).
     obind (archive_merge_loop env w mg1) (\<lambda>x. case x of
         None \<Rightarrow> Some (Inr None)
       | Some (w1, mg2) \<Rightarrow> obind (Some (writer_close w1)) (\<lambda>w2. Some (Inr (Some (sw_file w2)))))))))"

definition mergeDiffs :: "av_env \<Rightarrow> u64 \<Rightarrow> bool \<Rightarrow> u64 \<Rightarrow> (archive_vol, bool) sx" where
  "mergeDiffs env gB isSize param3 =
     sx_bind getMetaState (\<lambda>st0.
     sx_bind (tryOpenDiffs env True (\<lambda>mgr. if isSize then wf_getDiffListToMerge mgr gB (param3 * 0x100000) (- 1)
         else getDiffListToMergeGid mgr gB param3)) (\<lambda>(diffV, fileV).
     if length fileV < 2 then sx_read (\<lambda>_. Inl (Exception ''mergeDiffs:There is no mergeable diff.''))
     else
       sx_bind (sx_read (\<lambda>_. merge_vec diffV)) (\<lambda>mergedDiff.
       sx_bind (\<lambda>s. case merged_file env fileV of None \<Rightarrow> None | Some r \<Rightarrow> Some (r, s)) (\<lambda>out.
         case out of
           None \<Rightarrow> sx_return False
         | Some f \<Rightarrow>
             sx_bind (av_saveFile (createDiffFileName (ae_unixTimeToStr env) mergedDiff) f) (\<lambda>_.
             sx_bind (mgr_add (mergedDiff\<lparr>MetaDiff.dataSize := of_nat (length f)\<rparr>)) (\<lambda>_.
             sx_bind (av_removeDiffs env diffV) (\<lambda>_. sx_return True)))))))"

definition verifyNotApplying :: "(archive_vol, unit) sx" where
  "verifyNotApplying = sx_bind getMetaState (\<lambda>st. sx_read (\<lambda>_.
     if isApplying st then Inl (Exception ''merge is not permitted because the volume is under applying'') else Inr ()))"

definition verifyMergeable :: "u64 \<Rightarrow> (archive_vol, unit) sx" where
  "verifyMergeable gid = sx_read (\<lambda>s. res_bind (getMergeableDiffList (av_mgr s) gid (\<lambda>_. True)) (\<lambda>v.
     if length v < 2 then Inl (Exception ''There is no mergeable diff.'') else Inr ()))"

definition verifyApplicable :: "u64 \<Rightarrow> (archive_vol, unit) sx" where
  "verifyApplicable gid = sx_bind getMetaState (\<lambda>st. sx_read (\<lambda>s.
     res_bind (getDiffListToApply (av_mgr s) st gid 0) (\<lambda>v.
       if v = [] then Inl (Exception ''There is no diff to apply'') else Inr ())))"

end
