(* ===== verification/Archive_Ops.thy ===== *)
theory Archive_Ops
  imports Archive_Vol
begin

text \<open>
  Restoring snapshots, receiving wdiffs and starting again: the rest of what \<^verbatim>\<open>src/archive.cpp\<close> does with a volume.
\<close>

section \<open>Restoring a snapshot\<close>

definition removeLv :: "string \<Rightarrow> (archive_vol, unit) sx" where
  "removeLv n s = (if existsFile n s then lvm_remove n s else Some (Inr (), s))"

text \<open>The destructor of \<open>TmpSnapshotDeleter\<close>; it catches what it throws.\<close>

definition with_tmp_lv :: "string \<Rightarrow> (archive_vol, 'a) sx \<Rightarrow> (archive_vol, 'a) sx" where
  "with_tmp_lv n f s = (case f s of
       None \<Rightarrow> None
     | Some (r, s1) \<Rightarrow> (case removeLv n s1 of None \<Rightarrow> None | Some (_, s2) \<Rightarrow> Some (r, s2)))"

definition applyDiffsToRestore :: "av_env \<Rightarrow> string \<Rightarrow> MetaState \<Rightarrow> u64 \<Rightarrow> (archive_vol, MetaState option) sx" where
  "applyDiffsToRestore env tmpLv st0 gid =
     sx_bind (tryOpenDiffs env False (\<lambda>mgr. getDiffListToRestore mgr st0 gid (ae_maxOpenDiffs env))) (\<lambda>(diffV, fileV).
     sx_bind (lvm_get tmpLv) (\<lambda>img.
     sx_bind (applyOpenedDiffs env fileV tmpLv (sizeLb img)) (\<lambda>b.
       if \<not> b then sx_return None
       else sx_bind (sx_read (\<lambda>_. apply_state_vec st0 diffV)) (\<lambda>st1. sx_return (Some st1)))))"

definition is_restored :: "u64 \<Rightarrow> MetaState \<Rightarrow> bool" where
  "is_restored gid st \<longleftrightarrow> \<not> isApplying st \<and> snap_isClean (st_snapB st) \<and> gidB (st_snapB st) = gid"

partial_function (option) restore_rounds ::
  "av_env \<Rightarrow> string \<Rightarrow> u64 \<Rightarrow> MetaState \<Rightarrow> archive_vol \<Rightarrow> (MetaState option res \<times> archive_vol) option"
where
  "restore_rounds env tmpLv gid st s =
     (if is_restored gid st then Some (Inr (Some st), s)
      else case applyDiffsToRestore env tmpLv st gid s of
        None \<Rightarrow> None
      | Some (Inl e, s1) \<Rightarrow> Some (Inl e, s1)
      | Some (Inr None, s1) \<Rightarrow> Some (Inr None, s1)
      | Some (Inr (Some st1), s1) \<Rightarrow> restore_rounds env tmpLv gid st1 s1)"

definition cold_of_restored :: "av_env \<Rightarrow> u64 \<Rightarrow> string \<Rightarrow> u64 \<Rightarrow> (archive_vol, unit) sx" where
  "cold_of_restored env gid tmpLv ts =
     (let coldLvName = coldSnapshotName (ae_volId env) gid in
      sx_bind (sx_read (\<lambda>s. Inr (existsFile coldLvName s))) (\<lambda>ex.
        if ex then sx_return ()
        else sx_bind (lvm_snap tmpLv coldLvName) (\<lambda>coldLv.
          sx_bind (on_lvC (lc_addSnap True gid coldLv)) (\<lambda>_. setColdTimestamp gid ts))))"

text \<open>Removing is assumed to work when the volume exists.\<close>

fun removeCold_all :: "(u64 \<times> string) list \<Rightarrow> (archive_vol, unit) sx" where
  "removeCold_all [] = sx_return ()"
| "removeCold_all ((gid, coldLv) # m) =
     sx_bind (removeLv coldLv) (\<lambda>_.
     sx_bind (removeColdTimestamp gid) (\<lambda>_.
     sx_bind (on_lvC (lc_removeSnap True gid)) (\<lambda>_. removeCold_all m)))"

definition removeColdSnapshotsExceptTheLatestOne :: "(archive_vol, unit) sx" where
  "removeColdSnapshotsExceptTheLatestOne = sx_bind (ask_lvC (\<lambda>c. Inr (lc_coldMap c))) (\<lambda>m. removeCold_all (butlast m))"

definition restore_origin :: "av_env \<Rightarrow> string \<Rightarrow> string \<Rightarrow> u64 \<Rightarrow> bool \<Rightarrow> (archive_vol, unit) sx" where
  "restore_origin env baseLv tmpLvName g useCold =
     (if isThinpool env then
        (if useCold then sx_bind (ask_lvC (lc_getSnap True g)) (\<lambda>coldLv.
           sx_bind (lvm_snap coldLv tmpLvName) (\<lambda>_. sx_bind (ask_lvC lc_getSizeLb) (grow_to env tmpLvName)))
         else sx_bind (lvm_snap baseLv tmpLvName) (\<lambda>_. sx_return ()))
      else sx_bind (sx_read (\<lambda>_. ensure (\<not> useCold) Assert_Failed (Inr ()))) (\<lambda>_.
        sx_bind (lvm_snap baseLv tmpLvName) (\<lambda>_. sx_return ())))"

definition restore :: "av_env \<Rightarrow> u64 \<Rightarrow> (archive_vol, bool) sx" where
  "restore env gid =
     sx_bind (ask_lvC lc_getLv) (\<lambda>baseLv.
     let targetName = restoredSnapshotName (ae_volId env) gid; tmpLvName = tmpRestoredSnapshotName (ae_volId env) gid in
     sx_bind (removeLv tmpLvName) (\<lambda>_.
     sx_bind (getMetaStateForDetail gid False) (\<lambda>(st0, useCold).
     sx_bind (restore_origin env baseLv tmpLvName (gidB (st_snapB st0)) useCold) (\<lambda>_.
     with_tmp_lv tmpLvName (
       sx_bind (restore_rounds env tmpLvName gid st0) (\<lambda>x. case x of
           None \<Rightarrow> sx_return False
         | Some st1 \<Rightarrow>
             sx_bind (if isThinpool env then cold_of_restored env gid tmpLvName (st_timestamp st1) else sx_return ()) (\<lambda>_.
             sx_bind (lvm_rename tmpLvName targetName) (\<lambda>snapLv.
             sx_bind (on_lvC (lc_addSnap False gid snapLv)) (\<lambda>_.
             sx_bind (if isThinpool env \<and> ae_keepOneColdSnapshot env then removeColdSnapshotsExceptTheLatestOne else sx_return ()) (\<lambda>_.
               sx_return True))))))))))"

definition delSnapshot :: "u64 \<Rightarrow> bool \<Rightarrow> (archive_vol, unit) sx" where
  "delSnapshot gid isCold =
     sx_bind (ask_lvC (\<lambda>c. if lc_hasSnap isCold gid c then lc_getSnap isCold gid c
         else Inl (Exception ''delSnapshot:volume not found''))) (\<lambda>n.
     sx_bind (removeLv n) (\<lambda>_.
     sx_bind (on_lvC (lc_removeSnap isCold gid)) (\<lambda>_.
       if isCold then removeColdTimestamp gid else sx_return ())))"

section \<open>Receiving a wdiff\<close>

text \<open>A debug build compares the cached latest state.\<close>

definition dbgVerifyLatestMetaState :: "(archive_vol, unit) sx" where
  "dbgVerifyLatestMetaState = sx_bind av_getLatestState (\<lambda>st1. sx_read (\<lambda>s.
     if \<not> state_eq (av_latestMetaSt s) st1 then Inl (Exception ''meta state cache is invalid'') else Inr ()))"

definition setLatestMetaState :: "MetaState \<Rightarrow> (archive_vol, unit) sx" where
  "setLatestMetaState st =
     (if isApplying st then sx_read (\<lambda>_. Inl (Exception ''setLatestMetaState:bad metaSt''))
      else sx_put (\<lambda>s. s\<lparr>av_latestMetaSt := st\<rparr>))"

definition growLv :: "av_env \<Rightarrow> nat \<Rightarrow> (archive_vol, unit) sx" where
  "growLv env newSizeLb =
     sx_bind (ask_lvC lc_getLv) (\<lambda>lv. sx_bind (ask_lvC lc_getSizeLb) (\<lambda>oldSizeLb.
       if oldSizeLb = newSizeLb then sx_return ()
       else if newSizeLb < oldSizeLb then sx_read (\<lambda>_. Inl (Exception ''You tried to shrink the volume''))
       else sx_bind (lvm_resize env lv newSizeLb) (\<lambda>_. sx_bind (lvm_get lv) (\<lambda>img.
         sx_bind (ask_lvC (lc_resize (sizeLb img))) (\<lambda>c. on_lvC (\<lambda>_. c))))))"

definition doAutoResizeIfNecessary :: "av_env \<Rightarrow> bool \<Rightarrow> nat \<Rightarrow> (archive_vol, unit) sx" where
  "doAutoResizeIfNecessary env doAutoResize sz =
     (if \<not> doAutoResize then sx_return ()
      else sx_bind (ask_lvC (\<lambda>c. Inr (lc_lv c))) (\<lambda>x. case x of
          None \<Rightarrow> sx_return ()
        | Some lv \<Rightarrow> sx_bind (ask_lvC lc_getSizeLb) (\<lambda>selfSizeLb. if sz \<le> selfSizeLb then sx_return () else growLv env sz)))"

datatype recv_answer = Recv_Done | Recv_Stopped | Recv_Rejected string

text \<open>
  The handler of a wdiff transfer behind its first checks. \<open>bytes\<close> is what the network gives, \<open>None\<close> when the
  server is stopped; \<open>sz\<close> is the size of the volume at the sender.
\<close>

definition p2aWdiffTransfer ::
  "av_env \<Rightarrow> bool \<Rightarrow> u8 list option \<Rightarrow> nat \<Rightarrow> MetaDiff \<Rightarrow> u8 list option \<Rightarrow> (archive_vol, recv_answer) sx"
where
  "p2aWdiffTransfer env doAutoResize proxyUuid sz diff bytes =
     sx_bind (case proxyUuid of None \<Rightarrow> sx_return True
       | Some uuid \<Rightarrow> sx_bind av_getUuid (\<lambda>own. sx_return (own = uuid))) (\<lambda>sameUuid.
     if \<not> sameUuid then sx_return (Recv_Rejected ''different-uuid'')
     else
       sx_bind (doAutoResizeIfNecessary env doAutoResize sz) (\<lambda>_.
       sx_bind (ask_lvC lc_getSizeLb) (\<lambda>selfSizeLb.
       if selfSizeLb < sz then sx_return (Recv_Rejected ''smaller-lv-size'')
       else
         sx_bind (sx_read (\<lambda>s. Inr (av_latestMetaSt s))) (\<lambda>latestMetaSt.
         case getRelation (st_snapB latestMetaSt) diff of
           TOO_OLD_DIFF \<Rightarrow> sx_return (Recv_Rejected ''too-old-diff'')
         | TOO_NEW_DIFF \<Rightarrow> sx_return (Recv_Rejected ''too-new-diff'')
         | NOT_APPLICABLE_DIFF \<Rightarrow> sx_read (\<lambda>_. Inl (Exception ''bad meta diff relation''))
         | APPLICABLE_DIFF \<Rightarrow>
             (case bytes of
                None \<Rightarrow> sx_return Recv_Stopped
              | Some f \<Rightarrow>
                  let diff1 = diff\<lparr>MetaDiff.dataSize := of_nat (length f)\<rparr> in
                  sx_bind (av_saveFile (createDiffFileName (ae_unixTimeToStr env) diff) f) (\<lambda>_.
                  sx_bind (mgr_add diff1) (\<lambda>_.
                  sx_bind (sx_read (\<lambda>_. apply_state latestMetaSt diff1)) (\<lambda>st.
                  sx_bind (setLatestMetaState st) (\<lambda>_.
                  sx_bind dbgVerifyLatestMetaState (\<lambda>_. sx_return Recv_Done))))))))))"

text \<open>
  The checks before that: \<open>None\<close> when the transfer goes on, the message of a rejection, or an exception. They look at the
  request, the counter of foreground tasks, and the states of the volume.
\<close>

record wdiff_request =
  wr_volId :: string
  wr_hostType :: string
  wr_uuid :: "u8 list"
  wr_sizeLb :: nat
  wr_diff :: MetaDiff

record volume_status =
  vs_foregroundTasks :: nat
  vs_maxForegroundTasks :: nat
  vs_notStopping :: bool
  vs_state :: string
  vs_existsVolDir :: bool

definition wdiff_checks :: "wdiff_request \<Rightarrow> volume_status \<Rightarrow> string option res" where
  "wdiff_checks rq vs =
     (if wr_volId rq = [] then Inl (Exception ''empty volId'')
      else if wr_hostType rq \<noteq> ''proxy'' \<and> wr_hostType rq \<noteq> ''archive'' then Inl (Exception ''bad hostType'')
      else if vs_foregroundTasks vs > vs_maxForegroundTasks vs then Inl (Exception ''exceeds max foreground tasks'')
      else if \<not> vs_notStopping vs then Inl (Exception ''volume is stopping'')
      else if vs_state vs \<in> {''Stopped'', ''Start''} then Inr (Some ''stopped'')
      else if vs_state vs \<in> {''FullSync'', ''HashSync''} then Inr (Some ''syncing'')
      else if vs_state vs = ''WdiffRecv'' then Inr (Some ''wdiff-recv'')
      else if vs_state vs \<noteq> ''Archived'' then Inl (Exception ''bad state'')
      else if \<not> vs_existsVolDir vs then Inr (Some ''archive-not-found'')
      else Inr None)"

definition p2aWdiffTransferServer ::
  "av_env \<Rightarrow> bool \<Rightarrow> volume_status \<Rightarrow> wdiff_request \<Rightarrow> u8 list option \<Rightarrow> (archive_vol, recv_answer) sx"
where
  "p2aWdiffTransferServer env doAutoResize vs rq bytes =
     sx_bind (sx_read (\<lambda>_. wdiff_checks rq vs)) (\<lambda>msg. case msg of
         Some m \<Rightarrow> sx_return (Recv_Rejected m)
       | None \<Rightarrow> p2aWdiffTransfer env doAutoResize (if wr_hostType rq = ''proxy'' then Some (wr_uuid rq) else None)
           (wr_sizeLb rq) (wr_diff rq) bytes)"

section \<open>Starting again\<close>

definition aActiveOrStopped :: "string list" where
  "aActiveOrStopped = [''Archived'', ''HashSync'', ''WdiffRecv'', ''ReplSyncAsServer'', ''Stopped'']"

definition aActive :: "string list" where
  "aActive = [''Archived'', ''HashSync'', ''WdiffRecv'', ''ReplSyncAsServer'']"

definition initInner :: "av_env \<Rightarrow> (archive_vol, string) sx" where
  "initInner env =
     sx_bind av_getState (\<lambda>st.
     sx_bind (on_wdiffs (\<lambda>w. res_bind (wf_reload (ae_strToUnixTime env) (ae_names env) w) (\<lambda>w'. Inr ((), w')))) (\<lambda>_.
     sx_bind (if st \<in> set aActiveOrStopped
       then sx_bind av_getLatestState (\<lambda>m. sx_put (\<lambda>s. s\<lparr>av_latestMetaSt := m\<rparr>)) else sx_return ()) (\<lambda>_. sx_return st)))"

fun verifyCold_loop :: "(u64 \<times> string) list \<Rightarrow> (archive_vol, unit) sx" where
  "verifyCold_loop [] = sx_return ()"
| "verifyCold_loop ((gid, lv) # m) =
     sx_bind (sx_read (\<lambda>s. if \<not> existsFile lv s then Inl (Exception ''cold snapshot does not exist'') else Inr (existsColdTimestamp gid s))) (\<lambda>ex.
     sx_bind (if ex then sx_return () else sx_bind (on_lvC (lc_removeSnap True gid)) (\<lambda>_. lvm_remove lv)) (\<lambda>_.
       verifyCold_loop m))"

text \<open>\<open>st\<close> is the state of the state machine. A build with assertions accepts the active states only.\<close>

definition verifyAndRecoverArchiveVol :: "av_env \<Rightarrow> string \<Rightarrow> (archive_vol, unit) sx" where
  "verifyAndRecoverArchiveVol env st =
     (if st = ''Clear'' then sx_return ()
      else
        sx_bind av_getState (\<lambda>st2.
        if st2 \<noteq> st then sx_read (\<lambda>_. Inl (Exception ''verifyAndRecoverArchiveVol:invalid state''))
        else
          sx_bind av_getUuid (\<lambda>_.
          sx_bind getMetaState (\<lambda>_.
          if st = ''SyncReady'' then sx_return ()
          else
            sx_bind (sx_read (\<lambda>_. ensure (st \<in> set aActive) Assert_Failed (Inr ()))) (\<lambda>_.
            sx_bind (recoverColdToBaseIfNecessary env) (\<lambda>_.
            sx_bind (sx_read (\<lambda>s. if existsFile (lvName (ae_volId env)) s then Inr ()
                else Inl (Exception ''verifyAndRecoverArchiveVol:base lv must exist''))) (\<lambda>_.
            sx_bind (ask_lvC (\<lambda>c. Inr (lc_coldMap c))) (\<lambda>m. verifyCold_loop m))))))))"

definition gcArchiveVol :: "av_env \<Rightarrow> string \<Rightarrow> (archive_vol, unit) sx" where
  "gcArchiveVol env st = (if st \<notin> set aActive then sx_return () else sx_bind (gcDiffs env) (\<lambda>_. sx_return ()))"

text \<open>What the start of the server does for one volume; \<open>lvC\<close> is what \<open>getVolLvCacheMap\<close> finds.\<close>

definition archive_start :: "av_env \<Rightarrow> VolLvCache \<Rightarrow> (archive_vol, unit) sx" where
  "archive_start env lvC =
     sx_bind (sx_put (\<lambda>s. s\<lparr>av_mgr := manager_empty\<rparr>)) (\<lambda>_.
     sx_bind (initInner env) (\<lambda>st.
     sx_bind (sx_put (\<lambda>s. s\<lparr>av_lvC := lvC\<rparr>)) (\<lambda>_.
     sx_bind (verifyAndRecoverArchiveVol env st) (\<lambda>_. gcArchiveVol env st))))"

section \<open>The other operations\<close>

definition archive_init :: "av_env \<Rightarrow> (archive_vol, unit) sx" where
  "archive_init env =
     sx_bind (av_setUuid (replicate UUID_SIZE 0)) (\<lambda>_.
     sx_bind (setArchiveUuid (replicate UUID_SIZE 0)) (\<lambda>_.
     sx_bind (setMetaState \<lparr>isApplying = False, st_timestamp = 0, st_snapB = snap (- 1) (- 1), st_snapE = snap (- 1) (- 1),
         isExplicit = False\<rparr>) (\<lambda>_. av_setState ''SyncReady'')))"

definition createLv :: "av_env \<Rightarrow> u8 list \<Rightarrow> nat \<Rightarrow> (archive_vol, unit) sx" where
  "createLv env img sz =
     (let n = lvName (ae_volId env) in
      if sz = 0 then sx_read (\<lambda>_. Inl (Exception ''createLv:sizeLb is zero''))
      else sx_bind (sx_read (\<lambda>s. Inr (existsFile n s))) (\<lambda>ex.
        if ex then
          sx_bind (ask_lvC (\<lambda>c. Inr (lc_lv c))) (\<lambda>x.
          sx_bind (lvm_get n) (\<lambda>cur.
          sx_bind (if x = None then on_lvC (lc_add n (sizeLb cur)) else sx_return ()) (\<lambda>_.
          sx_bind (ask_lvC lc_getSizeLb) (\<lambda>curSizeLb.
            if curSizeLb \<noteq> sz then sx_read (\<lambda>_. Inl (Exception ''createLv:sizeLb is different''))
            else if isThinpool env then lvm_put n (Some img) else sx_return ()))))
        else sx_bind (lvm_put n (Some img)) (\<lambda>_. on_lvC (lc_add n (sizeLb img)))))"

end
