(* ===== verification/Archive_History.thy ===== *)
theory Archive_History
  imports Diff_Virt_Laws Diff_Io Meta_Algebra
begin

text \<open>
  What the volume of an archive server stands for. The history of a block device is what was written between every gid and
  the next one; a wdiff from one gid to another holds what was written between them, an image at a gid what was written
  before it. Diffs that overlap, diffs that were merged and volumes to which a diff was applied in part are compared with
  this history block by block.
\<close>

section \<open>The history of a block device\<close>

type_synonym contents = "nat \<Rightarrow> diff_block option"

definition delta :: "(nat \<Rightarrow> contents) \<Rightarrow> nat \<Rightarrow> nat \<Rightarrow> contents" where
  "delta P b e = foldl (++) Map.empty (map P [b ..< e])"

definition sector_at :: "(nat \<Rightarrow> contents) \<Rightarrow> u8 list \<Rightarrow> nat \<Rightarrow> nat \<Rightarrow> u8 list" where
  "sector_at P base g i = out_block base (delta P 0 g) i"

definition image_at :: "(nat \<Rightarrow> contents) \<Rightarrow> u8 list \<Rightarrow> nat \<Rightarrow> nat \<Rightarrow> u8 list" where
  "image_at P base N g = disk_image base (delta P 0 g) 0 N"

definition blocks_ok :: "contents \<Rightarrow> bool" where
  "blocks_ok V \<longleftrightarrow> (\<forall>i d. V i = Some (Data_Block d) \<longrightarrow> length d = 512)"

lemma foldl_map_add: "foldl (++) m Vs = m ++ foldl (++) Map.empty Vs"
proof (induction Vs arbitrary: m)
  case (Cons V Vs)
  show ?case using Cons [of "m ++ V"] Cons [of V] by simp
qed simp

lemma delta_none [simp]: "e \<le> b \<Longrightarrow> delta P b e = Map.empty"
  by (simp add: delta_def)

lemma delta_split: "b \<le> m \<Longrightarrow> m \<le> e \<Longrightarrow> delta P b e = delta P b m ++ delta P m e"
  using upt_add_eq_append [of b m "e - m"] foldl_map_add [of "delta P b m"] by (simp add: delta_def)

lemma delta_apply:
  "b \<le> m \<Longrightarrow> m \<le> e \<Longrightarrow> delta P b e i = (case delta P m e i of None \<Rightarrow> delta P b m i | Some x \<Rightarrow> Some x)"
  by (simp add: delta_split [of b m e] map_add_def)

text \<open>A diff that begins where another one has not ended: the newer one wins, and what both have is the same.\<close>

lemma delta_overlay:
  assumes "c0 \<le> e0" and "c \<le> e0" and "e0 \<le> e"
  shows "delta P c0 e0 ++ delta P c e = delta P (min c0 c) e"
proof
  fix i
  show "(delta P c0 e0 ++ delta P c e) i = delta P (min c0 c) e i"
  proof (cases "c0 \<le> c")
    case True
    have "c \<le> e" using assms by linarith
    then show ?thesis using True assms delta_apply [of c0 c e0 P i] delta_apply [of c e0 e P i] delta_apply [of c0 c e P i]
      by (auto simp: map_add_def split: option.splits)
  next
    case False
    then show ?thesis using assms delta_apply [of c c0 e0 P i] delta_apply [of c e0 e P i]
      by (auto simp: map_add_def min_def split: option.splits)
  qed
qed

lemma blocks_ok_add: "blocks_ok V \<Longrightarrow> blocks_ok W \<Longrightarrow> blocks_ok (V ++ W)"
  by (auto simp: blocks_ok_def map_add_Some_iff)

lemma blocks_ok_foldl: "\<forall>V \<in> set Vs. blocks_ok V \<Longrightarrow> blocks_ok m \<Longrightarrow> blocks_ok (foldl (++) m Vs)"
  by (induction Vs arbitrary: m) (simp_all add: blocks_ok_add)

lemma blocks_ok_delta: "(\<And>g. blocks_ok (P g)) \<Longrightarrow> blocks_ok (delta P b e)"
  unfolding delta_def by (rule blocks_ok_foldl) (auto simp: blocks_ok_def)

lemma blocks_ok_views: "\<forall>r \<in> set rs. rio_ok r \<Longrightarrow> blocks_ok (rio.views rs)"
proof (induction rs)
  case (Cons r rs)
  have "blocks_ok (rio.item r)"
    using Cons.prems by (auto simp: blocks_ok_def rio.item_def rio_block_def rio.rng_def rio_ok_def split: if_splits)
  then show ?case using Cons by (simp add: blocks_ok_add)
qed (simp add: blocks_ok_def)

section \<open>Images as blocks\<close>

definition sector :: "u8 list \<Rightarrow> nat \<Rightarrow> u8 list" where
  "sector img i = take 512 (drop (512 * i) img)"

lemma out_block_sector: "V i = None \<Longrightarrow> out_block img V i = sector img i"
  by (simp add: out_block_def sector_def)

lemma out_block_length: "blocks_ok V \<Longrightarrow> 512 * (i + 1) \<le> length img \<Longrightarrow> length (out_block img V i) = 512"
  by (auto simp: out_block_def blocks_ok_def split: option.splits diff_block.splits)

lemma disk_image_length:
  "blocks_ok V \<Longrightarrow> 512 * (a + n) \<le> length img \<Longrightarrow> length (disk_image img V a n) = 512 * n"
proof (induction n)
  case (Suc n)
  then show ?case using out_block_length [of V "a + n" img]
    by (simp add: disk_image_def)
qed simp

lemma image_sectors:
  assumes "length img = 512 * N" and "\<And>i. i < N \<Longrightarrow> sector img i = f i"
  shows "img = concat (map f [0 ..< N])"
proof -
  have "concat (map (sector img) [0 ..< N]) = img"
    using slices_concat [of 0 N img 0] assms(1) by (simp add: sector_def [abs_def])
  moreover have "map (sector img) [0 ..< N] = map f [0 ..< N]" using assms(2) by simp
  ultimately show ?thesis by simp
qed

lemma sector_disk_image:
  assumes "blocks_ok V" and "length img = 512 * N" and "i < N"
  shows "sector (disk_image img V 0 N) i = out_block img V i"
proof -
  have "disk_image img V 0 N = disk_image img V 0 i @ out_block img V i @ disk_image img V (Suc i) (N - Suc i)"
    using disk_image_append [of img V 0 i "N - i"] disk_image_append [of img V i 1 "N - Suc i"] assms(3)
    by (simp add: disk_image_def)
  moreover have "length (disk_image img V 0 i) = 512 * i" using disk_image_length [of V 0 i img] assms by simp
  moreover have "length (out_block img V i) = 512" using out_block_length assms by simp
  ultimately show ?thesis by (simp add: sector_def)
qed

text \<open>
  The contents of a block that was discarded are only defined when a discard makes it zeros (\<open>Z\<close>); the configuration
  \<open>ignore\<close>, the default of the server, leaves there what was written before.
\<close>

definition fits_block :: "bool \<Rightarrow> (nat \<Rightarrow> contents) \<Rightarrow> u8 list \<Rightarrow> nat \<Rightarrow> nat \<Rightarrow> u8 list \<Rightarrow> bool" where
  "fits_block Z P base g i x \<longleftrightarrow> x = sector_at P base g i \<or> \<not> Z \<and> delta P 0 g i = Some Discard_Block"

definition image_of :: "bool \<Rightarrow> (nat \<Rightarrow> contents) \<Rightarrow> u8 list \<Rightarrow> nat \<Rightarrow> nat \<Rightarrow> u8 list \<Rightarrow> bool" where
  "image_of Z P base N g img \<longleftrightarrow> length img = 512 * N \<and> (\<forall>i < N. fits_block Z P base g i (sector img i))"

lemma image_of_zeros: "image_of True P base N g img \<Longrightarrow> img = image_at P base N g"
  unfolding image_of_def image_at_def disk_image_def add_0 fits_block_def sector_at_def
  by (rule image_sectors) auto

lemma image_of_length: "image_of Z P base N g img \<Longrightarrow> length img = 512 * N"
  by (simp add: image_of_def)

text \<open>A volume whose blocks are each as at some gid between \<open>b\<close> and \<open>e\<close>.\<close>

definition between :: "bool \<Rightarrow> (nat \<Rightarrow> contents) \<Rightarrow> u8 list \<Rightarrow> nat \<Rightarrow> nat \<Rightarrow> nat \<Rightarrow> u8 list \<Rightarrow> bool" where
  "between Z P base N b e img \<longleftrightarrow> length img = 512 * N
     \<and> (\<forall>i < N. \<exists>g. b \<le> g \<and> g \<le> e \<and> fits_block Z P base g i (sector img i))"

lemma between_same: "between Z P base N g g img \<longleftrightarrow> image_of Z P base N g img"
  unfolding between_def image_of_def by (metis order_antisym order_refl)

lemma image_of_image_at:
  assumes "\<And>g. blocks_ok (P g)" and "length base = 512 * N"
  shows "image_of Z P base N g (image_at P base N g)"
  using assms disk_image_length [of "delta P 0 g" 0 N base] sector_disk_image [of "delta P 0 g" base N]
  by (simp add: image_of_def image_at_def sector_at_def fits_block_def blocks_ok_delta)

lemma between_wider: "between Z P base N b e img \<Longrightarrow> b' \<le> b \<Longrightarrow> e \<le> e' \<Longrightarrow> between Z P base N b' e' img"
  unfolding between_def by (meson order_trans)

text \<open>A crash leaves every block as before or as after the writes that were under way.\<close>

definition mixed :: "u8 list \<Rightarrow> u8 list \<Rightarrow> u8 list \<Rightarrow> bool" where
  "mixed old new img \<longleftrightarrow> length old = length img \<and> length new = length img
     \<and> (\<forall>i < length img div 512. sector img i = sector old i \<or> sector img i = sector new i)"

lemma between_mixed:
  assumes "between Z P base N b e old" and "between Z P base N b e new" and "mixed old new img"
  shows "between Z P base N b e img"
proof -
  have "\<exists>g. b \<le> g \<and> g \<le> e \<and> fits_block Z P base g i (sector img i)" if i: "i < N" for i
  proof -
    have "length img = 512 * N" using assms(1,3) by (simp add: between_def mixed_def)
    then have "i < length img div 512" using i by simp
    then have "sector img i = sector old i \<or> sector img i = sector new i" using assms(3) unfolding mixed_def by blast
    then show ?thesis using assms(1,2) i unfolding between_def by metis
  qed
  then show ?thesis using assms(1,3) by (simp add: between_def mixed_def)
qed

text \<open>The image \<open>img'\<close> after the contents \<open>V\<close> were written over \<open>img\<close>.\<close>

definition wrote :: "bool \<Rightarrow> u8 list \<Rightarrow> contents \<Rightarrow> nat \<Rightarrow> u8 list \<Rightarrow> bool" where
  "wrote Z img V N img' \<longleftrightarrow> length img' = 512 * N
     \<and> (\<forall>i < N. sector img' i = out_block img V i \<or> \<not> Z \<and> V i = Some Discard_Block)"

lemma wrote_none: "length img = 512 * N \<Longrightarrow> wrote Z img Map.empty N img"
  by (simp add: wrote_def out_block_sector)

lemma delta_later: "delta P c e i = Some x \<Longrightarrow> c \<le> e \<Longrightarrow> delta P 0 e i = Some x"
  using delta_apply [of 0 c e P i] by simp

lemma fits_written:
  assumes "delta P c e1 i = Some x" and "c \<le> e1" and "W i = Some x"
    and "y = out_block img W i \<or> \<not> Z \<and> W i = Some Discard_Block"
  shows "fits_block Z P base e1 i y"
  using delta_later [OF assms(1,2)] assms(3,4) by (auto simp: fits_block_def sector_at_def out_block_def)

text \<open>Writing a part of a diff, and the whole of it.\<close>

lemma between_part:
  assumes "between Z P base N b e img" and "W \<subseteq>\<^sub>m delta P c e1" and "c \<le> b" and "e \<le> e1" and "b \<le> e1"
    and "wrote Z img W N img'"
  shows "between Z P base N b e1 img'"
proof -
  have "\<exists>g. b \<le> g \<and> g \<le> e1 \<and> fits_block Z P base g i (sector img' i)" if i: "i < N" for i
  proof (cases "W i")
    case None
    then have "sector img' i = sector img i" using assms(6) i by (auto simp: wrote_def out_block_sector)
    moreover obtain g where "b \<le> g" "g \<le> e" "fits_block Z P base g i (sector img i)" using assms(1) i by (auto simp: between_def)
    ultimately show ?thesis using assms(4) by (metis order_trans)
  next
    case (Some x)
    then have "delta P c e1 i = Some x" using assms(2) by (auto simp: map_le_def dom_def)
    moreover have "c \<le> e1" using assms(3,5) by linarith
    ultimately have "fits_block Z P base e1 i (sector img' i)"
      using fits_written [of P c e1 i x W "sector img' i" img Z base] Some assms(6) i by (auto simp: wrote_def)
    then show ?thesis using assms(5) by blast
  qed
  then show ?thesis using assms(6) by (simp add: between_def wrote_def)
qed

lemma between_all:
  assumes "between Z P base N b e img" and "c \<le> b" and "e \<le> e1" and "b \<le> e1" and "wrote Z img (delta P c e1) N img'"
  shows "image_of Z P base N e1 img'"
proof -
  let ?W = "delta P c e1"
  have "fits_block Z P base e1 i (sector img' i)" if i: "i < N" for i
  proof (cases "?W i")
    case None
    obtain g where g: "b \<le> g" "g \<le> e" "fits_block Z P base g i (sector img i)" using assms(1) i by (auto simp: between_def)
    have "delta P 0 e1 i = delta P 0 g i"
      using None delta_apply [of c g e1 P i] delta_apply [of 0 g e1 P i] g(1,2) assms(2,3) by (auto split: option.splits)
    moreover from this have "sector_at P base e1 i = sector_at P base g i" by (simp add: sector_at_def out_block_def)
    moreover have "sector img' i = sector img i" using assms(5) None i by (auto simp: wrote_def out_block_sector)
    ultimately show ?thesis using g(3) by (simp add: fits_block_def)
  next
    case (Some x)
    moreover have "c \<le> e1" using assms(2,4) by linarith
    ultimately show ?thesis using fits_written [of P c e1 i x ?W "sector img' i" img Z base] assms(5) i by (auto simp: wrote_def)
  qed
  then show ?thesis using assms(5) by (simp add: image_of_def wrote_def)
qed

section \<open>Diffs and chains of diffs\<close>

text \<open>A diff holds what was written from its first gid, or an earlier one, to its last gid.\<close>

definition holds :: "(nat \<Rightarrow> contents) \<Rightarrow> MetaDiff \<Rightarrow> contents \<Rightarrow> bool" where
  "holds P d V \<longleftrightarrow> (\<exists>c \<le> unat (gidB (snapB d)). V = delta P c (unat (gidB (snapE d))))"

definition clean_diff :: "MetaDiff \<Rightarrow> bool" where
  "clean_diff d \<longleftrightarrow> diff_ok d \<and> diff_isClean d"

fun chain :: "u64 \<Rightarrow> MetaDiff list \<Rightarrow> u64 \<Rightarrow> bool" where
  "chain b [] e \<longleftrightarrow> b = e"
| "chain b (d # v) e \<longleftrightarrow> gidB (snapB d) \<le> b \<and> b < gidB (snapE d) \<and> chain (gidB (snapE d)) v e"

lemma chain_le: "chain b v e \<Longrightarrow> b \<le> e"
  by (induction v arbitrary: b) force+

lemma chain_append: "chain b (v @ w) e \<longleftrightarrow> (\<exists>m. chain b v m \<and> chain m w e)"
  by (induction v arbitrary: b) auto

lemma chain_prefix: "chain b v e \<Longrightarrow> \<exists>m. chain b (take k v) m \<and> m \<le> e"
  using chain_append [of b "take k v" "drop k v" e] chain_le by (metis append_take_drop_id)

lemma chain_progress: "chain b v e \<Longrightarrow> v \<noteq> [] \<Longrightarrow> b < e"
  by (cases v) (auto dest: chain_le)

lemma chain_end: "chain b v e \<Longrightarrow> v \<noteq> [] \<Longrightarrow> gidB (snapE (last v)) = e"
  by (induction v arbitrary: b) auto

lemma chain_ends: "chain b v e \<Longrightarrow> d \<in> set v \<Longrightarrow> b < gidB (snapE d) \<and> gidB (snapE d) \<le> e"
proof (induction v arbitrary: b)
  case (Cons x v)
  show ?case
  proof (cases "d = x")
    case True
    then show ?thesis using Cons.prems(1) by (auto dest: chain_le)
  next
    case False
    then have "gidB (snapE x) < gidB (snapE d) \<and> gidB (snapE d) \<le> e" using Cons.IH [of "gidB (snapE x)"] Cons.prems by simp
    moreover have "b < gidB (snapE x)" using Cons.prems(1) by simp
    ultimately show ?thesis by (meson order_less_trans)
  qed
qed simp

lemma chain_distinct: "chain b v e \<Longrightarrow> distinct v"
proof (induction v arbitrary: b)
  case (Cons x v)
  then show ?case using chain_ends [of "gidB (snapE x)" v e x] by auto
qed simp

text \<open>A chain covers every gid from its first to its last one.\<close>

lemma chain_covers: "chain b v e \<Longrightarrow> b \<le> g \<Longrightarrow> g < e \<Longrightarrow> \<exists>d \<in> set v. gidB (snapB d) \<le> g \<and> g < gidB (snapE d)"
proof (induction v arbitrary: b)
  case (Cons x v)
  show ?case
  proof (cases "g < gidB (snapE x)")
    case True
    moreover have "gidB (snapB x) \<le> g" using Cons.prems by (auto intro: order_trans)
    ultimately show ?thesis by auto
  next
    case False
    then show ?thesis using Cons by (auto simp: not_less)
  qed
qed simp

lemma clean_applied:
  assumes "clean_diff d" and "canApply (snap b b) d"
  shows "apply_diff (snap b b) d = Inr (snap (gidB (snapE d)) (gidB (snapE d)))"
proof -
  have "applied (snap b b) d = snap (gidB (snapE d)) (gidB (snapE d))"
    using assms by (auto simp: applied_def clean_diff_def canApply_iff max_def)
  then show ?thesis using assms apply_diff_ok [of "snap b b" d] by (simp add: clean_diff_def)
qed

lemma apply_vec_chain:
  assumes "\<forall>d \<in> set v. clean_diff d"
  shows "apply_vec (snap b b) v = Inr t \<longleftrightarrow> (\<exists>e. chain b v e \<and> t = snap e e)"
  using assms
proof (induction v arbitrary: b)
  case (Cons d v)
  show ?case
  proof (cases "canApply (snap b b) d")
    case True
    then show ?thesis using Cons clean_applied [of d b] by (auto simp: canApply_iff)
  next
    case False
    then show ?thesis by (auto simp: canApply_iff)
  qed
qed auto

lemma canApply_vec_chain: "\<forall>d \<in> set v. clean_diff d \<Longrightarrow> chain b v e \<Longrightarrow> canApply_vec (snap b b) v = Inr True"
proof (induction v arbitrary: b)
  case (Cons d v)
  have "canApply (snap b b) d" using Cons.prems(2) by (simp add: canApply_iff)
  then show ?case using Cons clean_applied [of d b] by simp
qed simp

text \<open>What the files of a chain hold together.\<close>

lemma chain_holds:
  assumes "chain e0 v e" and "list_all2 (holds P) v Vs" and "c0 \<le> unat e0"
  shows "\<exists>c \<le> c0. foldl (++) (delta P c0 (unat e0)) Vs = delta P c (unat e)"
  using assms
proof (induction v arbitrary: e0 Vs c0)
  case (Cons d v)
  obtain V Vs' where V: "Vs = V # Vs'" "holds P d V" "list_all2 (holds P) v Vs'"
    using Cons.prems(2) by (auto simp: list_all2_Cons1)
  obtain c where c: "c \<le> unat (gidB (snapB d))" "V = delta P c (unat (gidB (snapE d)))" using V(2) by (auto simp: holds_def)
  have o: "gidB (snapB d) \<le> e0" "e0 < gidB (snapE d)" "chain (gidB (snapE d)) v e" using Cons.prems(1) by auto
  have n: "c \<le> unat e0" "unat e0 \<le> unat (gidB (snapE d))"
    using c(1) o(1,2) by (simp_all add: word_le_nat_alt word_less_nat_alt)
  have m: "min c0 c \<le> unat (gidB (snapE d))" using n Cons.prems(3) by linarith
  obtain c' where "c' \<le> min c0 c" "foldl (++) (delta P (min c0 c) (unat (gidB (snapE d)))) Vs' = delta P c' (unat e)"
    using Cons.IH [OF o(3) V(3) m] by blast
  then show ?case using V(1) c(2) delta_overlay [OF Cons.prems(3) n] by auto
qed auto

lemma applied_chain_holds:
  assumes "chain b v e" and "list_all2 (holds P) v Vs" and "v \<noteq> []"
  shows "\<exists>c \<le> unat b. foldl (++) Map.empty Vs = delta P c (unat e)"
proof -
  obtain c where "c \<le> unat b" "foldl (++) (delta P (unat b) (unat b)) Vs = delta P c (unat e)"
    using chain_holds [OF assms(1,2), of "unat b"] by auto
  then show ?thesis by auto
qed

lemma merged_chain_holds:
  assumes "chain (gidB (snapE d)) v e" and "list_all2 (holds P) (d # v) Vs" and "diff_ok d"
  shows "\<exists>c \<le> unat (gidB (snapB d)). foldl (++) Map.empty Vs = delta P c (unat e)"
proof -
  obtain V Vs' c where V: "Vs = V # Vs'" "list_all2 (holds P) v Vs'" "c \<le> unat (gidB (snapB d))"
    "V = delta P c (unat (gidB (snapE d)))"
    using assms(2) by (auto simp: list_all2_Cons1 holds_def)
  have "unat (gidB (snapB d)) \<le> unat (gidB (snapE d))" using assms(3) by (simp add: diff_ok_def word_less_nat_alt)
  then have "c \<le> unat (gidB (snapE d))" using V(3) by linarith
  from chain_holds [OF assms(1) V(2) this] obtain c' where "c' \<le> c"
    "foldl (++) (delta P c (unat (gidB (snapE d)))) Vs' = delta P c' (unat e)" by blast
  moreover have "foldl (++) Map.empty Vs = foldl (++) (delta P c (unat (gidB (snapE d)))) Vs'" by (simp add: V(1,4))
  ultimately show ?thesis using V(3) by (metis order_trans)
qed

section \<open>Writing an IO into an image\<close>

definition rio_bytes :: "DiffRecIo \<Rightarrow> u8 list" where
  "rio_bytes r = (if rec_isNormal (rio_rec r) then rio_io r else replicate (512 * unat (rio_blocks r)) 0)"

lemma rio_bytes_length: "rio_ok r \<Longrightarrow> length (rio_bytes r) = 512 * unat (rio_blocks r)"
  by (simp add: rio_bytes_def rio_ok_def)

definition rio_discards :: "DiffRecIo \<Rightarrow> bool" where
  "rio_discards r \<longleftrightarrow> rec_isDiscard (rio_rec r) \<and> \<not> rec_isNormal (rio_rec r)"

lemma sector_file_put:
  assumes "length f = 512 * N" and "a + n \<le> N" and "length bs = 512 * n" and "i < N"
  shows "sector (file_put (512 * a) bs f) i = (if a \<le> i \<and> i < a + n then take 512 (drop (512 * (i - a)) bs) else sector f i)"
proof -
  have "512 * a + length bs = 512 * (a + n)" "512 * a \<le> length f" using assms(1-3) by simp_all
  then have f: "file_put (512 * a) bs f = take (512 * a) f @ bs @ drop (512 * (a + n)) f"
    by (cases "bs = []") (simp_all add: file_put_def)
  have ta: "length (take (512 * a) f) = 512 * a" using assms(1,2) by simp
  consider "i < a" | "a \<le> i" "i < a + n" | "a + n \<le> i" by linarith
  then show ?thesis
  proof cases
    case 1
    then have "take 512 (drop (512 * i) (take (512 * a) f)) = take 512 (drop (512 * i) f)"
      using assms(1,2) by (simp add: drop_take min_def)
    then show ?thesis using 1 ta unfolding f sector_def by (simp add: take_append)
  next
    case 2
    then have "512 * i - 512 * a = 512 * (i - a)" "512 * (i - a) + 512 \<le> length bs" using assms(3) by (simp_all add: algebra_simps)
    then show ?thesis using 2 ta unfolding f sector_def by simp
  next
    case 3
    then have "512 * i - 512 * a - 512 * n + 512 * (a + n) = 512 * i" by simp
    then show ?thesis using 3 ta assms(3) unfolding f sector_def by (simp add: add.commute)
  qed
qed

lemma wrote_rio:
  assumes "wrote Z img V N f" and "rio_ok r" and "unat (rio_addr r) + unat (rio_blocks r) \<le> N"
    and "length bs = 512 * unat (rio_blocks r)" and "bs = rio_bytes r \<or> \<not> Z \<and> rio_discards r"
  shows "wrote Z img (V ++ rio.item r) N (file_put (512 * unat (rio_addr r)) bs f)"
proof -
  let ?a = "unat (rio_addr r)" let ?n = "unat (rio_blocks r)" let ?f = "file_put (512 * ?a) bs f"
  have len: "length f = 512 * N" using assms(1) by (simp add: wrote_def)
  then have "length ?f = 512 * N" using assms(3,4) by (simp add: file_put_def algebra_simps)
  moreover have "sector ?f i = out_block img (V ++ rio.item r) i \<or> \<not> Z \<and> (V ++ rio.item r) i = Some Discard_Block" if i: "i < N" for i
  proof (cases "?a \<le> i \<and> i < ?a + ?n")
    case False
    then have "rio.item r i = None" by (auto simp: rio.item_def rio.rng_def)
    then show ?thesis using sector_file_put [OF len assms(3,4) i] False assms(1) i
      by (auto simp: wrote_def out_block_def map_add_def)
  next
    case True
    then have item: "(V ++ rio.item r) i = Some (rio_block r i)" by (auto simp: rio.item_def rio.rng_def)
    have "Suc (i - ?a) \<le> ?n" using True by linarith
    then have "512 * (i - ?a) + 512 \<le> 512 * ?n" using mult_le_mono2 [of "Suc (i - ?a)" ?n 512] by simp
    then have "take 512 (drop (512 * (i - ?a)) (rio_bytes r)) = out_block img (V ++ rio.item r) i"
      using item by (simp add: out_block_def rio_block_def rio_bytes_def)
    moreover have "rio_block r i = Discard_Block" if "rio_discards r" using that by (simp add: rio_block_def rio_discards_def)
    ultimately show ?thesis using sector_file_put [OF len assms(3,4) i] True assms(5) item by (elim disjE) simp_all
  qed
  ultimately show ?thesis by (simp add: wrote_def)
qed

text \<open>
  What a device does when it is asked to discard a range of blocks: their contents become arbitrary, and the others stay.
  Whether a discard makes zeros depends on the configuration, and on the device when it is passed on.
\<close>

definition discard_ok :: "dev_discard \<Rightarrow> DiscardType \<Rightarrow> bool" where
  "discard_ok discard t \<longleftrightarrow> (t = Dt_Passdown \<longrightarrow> (\<forall>a n f. 512 * (unat a + unat n) \<le> length (fl_bytes f) \<longrightarrow>
     (\<exists>bs. length bs = 512 * unat n \<and> discard a n f = Inr (f\<lparr>fl_bytes := file_put (512 * unat a) bs (fl_bytes f)\<rparr>))))"

definition discards_zero :: "dev_discard \<Rightarrow> DiscardType \<Rightarrow> bool" where
  "discards_zero discard t \<longleftrightarrow> t = Dt_Zero \<or> t = Dt_Passdown \<and>
     (\<forall>a n f. 512 * (unat a + unat n) \<le> length (fl_bytes f) \<longrightarrow>
       discard a n f = Inr (f\<lparr>fl_bytes := file_put (512 * unat a) (replicate (512 * unat n) 0) (fl_bytes f)\<rparr>))"

lemma file_put_same: "a + n \<le> length f \<Longrightarrow> file_put a (take n (drop a f)) f = f"
  by (simp add: file_put_def min_def) (metis add.commute append_take_drop_id drop_drop)

lemma issueIo_ok:
  assumes "rio_ok r" and "io_works os" and "discard_ok discard t" and "fl_seekable f"
    and "512 * (unat (rio_addr r) + unat (rio_blocks r)) \<le> length (fl_bytes f)"
    and "unat (rio_addr r) + unat (rio_blocks r) < 2 ^ 55" and "unat (rio_blocks r) < 2 ^ 23"
  shows "\<exists>f' bs. issueIo os discard t (rio_rec r) (Some (rio_io r)) f = Inr f' \<and> fl_seekable f'
    \<and> fl_bytes f' = file_put (512 * unat (rio_addr r)) bs (fl_bytes f) \<and> length bs = 512 * unat (rio_blocks r)
    \<and> (bs = rio_bytes r \<or> \<not> discards_zero discard t \<and> rio_discards r)"
proof -
  have r: "\<not> rec_isCompressed (rio_rec r)" "rec_isNormal (rio_rec r) \<Longrightarrow> length (rio_io r) = 512 * unat (rio_blocks r)"
    using assms(1) by (auto simp: rio_ok_def)
  have n: "unat (dr_io_blocks (rio_rec r) * LOGICAL_BLOCK_SIZE) = 512 * unat (rio_blocks r)"
    using assms(7) by (simp add: rio_blocks_def LOGICAL_BLOCK_SIZE_def unat_word_ariths)
  have a: "unat (dr_io_address (rio_rec r) * 512) = 512 * unat (rio_addr r)"
    using assms(6) by (simp add: rio_addr_def unat_word_ariths)
  have w: "\<exists>f'. fd_pwrite os d (512 * unat (rio_addr r)) f = Inr f' \<and> fl_seekable f'
      \<and> fl_bytes f' = file_put (512 * unat (rio_addr r)) d (fl_bytes f)" for d
    using assms(2,4) by (simp add: fd_pwrite_def fd_lseek_def fd_write_works nat_mult_distrib)
  have len: "length (rio_bytes r) = 512 * unat (rio_blocks r)" by (rule rio_bytes_length [OF assms(1)])
  have bytes: ?thesis if "\<exists>f'. issueIo os discard t (rio_rec r) (Some (rio_io r)) f = Inr f' \<and> fl_seekable f'
      \<and> fl_bytes f' = file_put (512 * unat (rio_addr r)) (rio_bytes r) (fl_bytes f)"
    using that len by blast
  consider "rec_isNormal (rio_rec r)" | "rec_isAllZero (rio_rec r)" "\<not> rec_isNormal (rio_rec r)"
    | "rec_isDiscard (rio_rec r)" "\<not> rec_isAllZero (rio_rec r)" "\<not> rec_isNormal (rio_rec r)"
    by (auto simp: rec_isNormal_def rec_isAllZero_def rec_isDiscard_def)
  then show ?thesis
  proof cases
    case 1
    then show ?thesis using w [of "rio_io r"] r n a by (intro bytes) (simp add: issueIo_def decideIoType_def rio_bytes_def)
  next
    case 2
    then show ?thesis using w [of "replicate (512 * unat (rio_blocks r)) 0"] r n a
      by (intro bytes) (simp add: issueIo_def decideIoType_def rio_bytes_def)
  next
    case 3
    have d: "rio_discards r" using 3 by (simp add: rio_discards_def)
    show ?thesis
    proof (cases t)
      case Dt_Zero
      then show ?thesis using 3 w [of "replicate (512 * unat (rio_blocks r)) 0"] r n a
        by (intro bytes) (simp add: issueIo_def decideIoType_def rio_bytes_def)
    next
      case Dt_Ignore
      let ?bs = "take (512 * unat (rio_blocks r)) (drop (512 * unat (rio_addr r)) (fl_bytes f))"
      have "file_put (512 * unat (rio_addr r)) ?bs (fl_bytes f) = fl_bytes f" by (rule file_put_same) (use assms(5) in simp)
      moreover have "length ?bs = 512 * unat (rio_blocks r)" using assms(5) by simp
      ultimately show ?thesis using Dt_Ignore 3 r assms(4) d
        by (intro exI [of _ f] exI [of _ ?bs]) (simp add: issueIo_def decideIoType_def discards_zero_def)
    next
      case Dt_Passdown
      have i: "issueIo os discard t (rio_rec r) (Some (rio_io r)) f = discard (rio_addr r) (rio_blocks r) f"
        using Dt_Passdown 3 r by (simp add: issueIo_def decideIoType_def rio_addr_def rio_blocks_def)
      show ?thesis
      proof (cases "discards_zero discard t")
        case True
        then have "discard (rio_addr r) (rio_blocks r) f
            = Inr (f\<lparr>fl_bytes := file_put (512 * unat (rio_addr r)) (rio_bytes r) (fl_bytes f)\<rparr>)"
          using Dt_Passdown 3 assms(5) by (simp add: discards_zero_def rio_bytes_def)
        then show ?thesis using i assms(4) by (intro bytes) simp
      next
        case False
        obtain bs where "length bs = 512 * unat (rio_blocks r)"
          "discard (rio_addr r) (rio_blocks r) f = Inr (f\<lparr>fl_bytes := file_put (512 * unat (rio_addr r)) bs (fl_bytes f)\<rparr>)"
          using assms(3,5) Dt_Passdown unfolding discard_ok_def by blast
        then show ?thesis unfolding i using assms(4) d False
          by (intro exI [of _ "f\<lparr>fl_bytes := file_put (512 * unat (rio_addr r)) bs (fl_bytes f)\<rparr>"] exI [of _ bs]) simp
      qed
    qed
  qed
qed

end
