(* ===== verification/Archive_Laws.thy ===== *)
theory Archive_Laws
  imports Archive_Ops Archive_History
begin

text \<open>
  What applying and merging do to the images and files of an archive volume: \<open>applyOpenedDiffs\<close> writes the contents of the
  wdiffs over the image, or a part of them when the server is stopped, and the file that a merge writes holds the contents
  of its inputs.
\<close>

section \<open>Merging and applying\<close>

definition av_env_ok :: "av_env \<Rightarrow> bool" where
  "av_env_ok env \<longleftrightarrow> codec_ok (ae_enc env) (ae_dec env) \<and> io_works (ae_os env)
     \<and> discard_ok (ae_discard env) (ae_discardType env)"

text \<open>Blocks that were discarded read as zeros: the discard type \<open>zero\<close>, or \<open>passdown\<close> on a device that does so.\<close>

definition exact :: "av_env \<Rightarrow> bool" where
  "exact env \<longleftrightarrow> discards_zero (ae_discard env) (ae_discardType env)"

lemma merger_new_default: "merger_new searchLen = new_merger searchLen DEFAULT_MAX_IO_LB 0"
  by (simp add: new_merger_def merger_new_def setMaxCacheSize_def merger_setMaxIoBlocks_def mem_setMaxIoBlocks_def
      mem_new_def cache_setMaxSize_def cache_new_def)

lemma max_io_lb: "unat DEFAULT_MAX_IO_LB = 2048" "DEFAULT_MAX_IO_LB \<noteq> 0"
proof -
  show "unat DEFAULT_MAX_IO_LB = 2048" by (simp add: DEFAULT_MAX_IO_LB_def LOGICAL_BLOCK_SIZE_def)
  then show "DEFAULT_MAX_IO_LB \<noteq> 0" by auto
qed

text \<open>Files with contents in the first \<open>N\<close> blocks, few enough for the counters of the merger.\<close>

definition wdiffs_ok :: "encoder \<Rightarrow> nat \<Rightarrow> u8 list list \<Rightarrow> contents list \<Rightarrow> bool" where
  "wdiffs_ok enc N fs Vs \<longleftrightarrow> fs \<noteq> [] \<and> length fs \<le> 4096 \<and> N < 2 ^ 52 \<and> list_all2 (wdiff_file enc) fs Vs
     \<and> (\<forall>V \<in> set Vs. dom V \<subseteq> {..< N})"

lemma wdiffs_merge_inputs: "wdiffs_ok enc N fs Vs \<Longrightarrow> merge_inputs enc [0 ..< length fs] fs Vs"
proof -
  assume ok: "wdiffs_ok enc N fs Vs"
  have le: "card (dom V) \<le> N" if "V \<in> set Vs" for V
    using that ok card_mono [of "{..< N}" "dom V"] by (simp add: wdiffs_ok_def)
  have "sum_list (map (\<lambda>V. card (dom V)) Vs) \<le> sum_list (map (\<lambda>V. N) Vs)"
    by (rule sum_list_mono) (rule le)
  also have "\<dots> = length fs * N" using ok list_all2_lengthD [of "wdiff_file enc" fs Vs]
    by (simp add: wdiffs_ok_def sum_list_triv)
  also have "\<dots> \<le> 4096 * N" using ok by (intro mult_right_mono) (simp_all add: wdiffs_ok_def)
  also have "\<dots> < 2 ^ 64" using ok by (simp add: wdiffs_ok_def)
  finally have "sum_list (map (\<lambda>V. card (dom V)) Vs) < 2 ^ 64" .
  moreover have "dom V \<subseteq> {..< 2 ^ 61}" if "V \<in> set Vs" for V
  proof -
    have "dom V \<subseteq> {..< N}" using that ok by (simp add: wdiffs_ok_def)
    also have "\<dots> \<subseteq> {..< 2 ^ 61}" using ok by (auto simp: wdiffs_ok_def)
    finally show ?thesis .
  qed
  ultimately show ?thesis using ok by (auto simp: wdiffs_ok_def merge_inputs_def)
qed

lemma wdiffs_prepared:
  assumes "av_env_ok env" and "wdiffs_ok (ae_enc env) N fs Vs"
  shows "\<exists>mg mg1 rs mg2. archive_merger fs = Inr mg \<and> merger_prepare (ae_dec env) mg = Some (Inr mg1)
    \<and> merger_read_all (ae_dec env) mg1 = Some (Inr (rs, mg2)) \<and> sorted_wrt before rs
    \<and> (\<forall>r \<in> set rs. rio_ok r \<and> rio_blocks r \<le> DEFAULT_MAX_IO_LB)
    \<and> rio.views rs = foldl (++) Map.empty Vs \<and> mg_wdiffs mg2 = []
    \<and> mg_isHeaderPrepared mg1 \<and> file_header_ok (mg_wdiffH mg1) \<and> fh_version (mg_wdiffH mg1) = WALB_DIFF_VERSION"
proof -
  have c: "codec_ok (ae_enc env) (ae_dec env)" using assms(1) by (simp add: av_env_ok_def)
  obtain mg mg1 G tss where p: "addWdiffs (zip [0 ..< length fs] fs) (merger_new 8192) = Inr mg"
    "merger_prepare (ae_dec env) mg = Some (Inr mg1)" "src.merge_state G (ae_dec env) mg1 tss"
    "contents (mem_view (mg_diffMem mg1)) tss = foldl (++) Map.empty Vs" "mg_mergedQ mg1 = []"
    "mem_maxIoBlocks (mg_diffMem mg1) = DEFAULT_MAX_IO_LB" "file_header_ok (mg_wdiffH mg1)"
    "fh_version (mg_wdiffH mg1) = WALB_DIFF_VERSION"
    using files_prepared [OF wdiffs_merge_inputs [OF assms(2)] c, of 8192 0 DEFAULT_MAX_IO_LB]
    unfolding merger_new_default [of 8192] by auto
  have "mg_isHeaderPrepared mg1" using p(3) by (simp add: src.merge_state_def)
  then show ?thesis using src.read_all_ok [OF p(3)] p max_io_lb(2)
    by (auto simp: archive_merger_def fits_def)
qed

lemma rios_in_range:
  assumes "\<forall>r \<in> set rs. rio_ok r" and "dom (rio.views rs) \<subseteq> {..< N}" and "r \<in> set rs"
  shows "unat (rio_addr r) + unat (rio_blocks r) \<le> N"
proof -
  have "rio.rng r \<subseteq> {..< N}" using assms(2,3) unfolding rio.dom_views by blast
  moreover have "0 < unat (rio_blocks r)" using assms(1,3) by (auto simp: rio_ok_def)
  then have "unat (rio_addr r) + unat (rio_blocks r) - 1 \<in> rio.rng r" by (auto simp: rio.rng_def)
  ultimately show ?thesis by auto
qed

lemma apply_loop_ok:
  assumes "merger_read_all (ae_dec env) mg = Some (Inr (rs, mg'))" and "av_env_ok env" and "sorted_wrt before rs"
    and "\<forall>r \<in> set rs. rio_ok r \<and> rio_blocks r \<le> DEFAULT_MAX_IO_LB \<and> unat (rio_addr r) + unat (rio_blocks r) \<le> N"
    and "N < 2 ^ 52" and "wrote (exact env) img V N (fl_bytes f)" and "fl_seekable f"
  shows "\<exists>k res f'. apply_loop env (of_nat N) mg stat f = Some (res, f')
    \<and> wrote (exact env) img (V ++ rio.views (take k rs)) N (fl_bytes f')
    \<and> (res = Inr None \<and> (\<exists>x. ae_stop env x) \<or> (\<exists>stat'. res = Inr (Some (mg', stat'))) \<and> k = length rs)"
  using assms
proof (induction rs arbitrary: mg stat f V)
  case Nil
  have "getAndRemove (ae_dec env) mg = Some (Inr (None, mg'))" using read_all_step [OF Nil.prems(1)] by simp
  then show ?case using Nil.prems by (subst apply_loop.simps) simp
next
  case (Cons r rs)
  obtain mg1 where m: "getAndRemove (ae_dec env) mg = Some (Inr (Some r, mg1))"
    "merger_read_all (ae_dec env) mg1 = Some (Inr (rs, mg'))" using read_all_step [OF Cons.prems(1)] by auto
  show ?case
  proof (cases "ae_stop env r")
    case True
    then show ?thesis using m(1) Cons.prems(6) by (subst apply_loop.simps) (auto intro!: exI [of _ 0])
  next
    case False
    have r: "rio_ok r" "unat (rio_blocks r) \<le> 2048" "unat (rio_addr r) + unat (rio_blocks r) \<le> N"
      using Cons.prems(4) max_io_lb(1) by (auto simp: word_le_nat_alt)
    obtain stat1 where st: "stat_update_rec (rio_rec r) stat = Inr stat1" using virt_update_rec_ok by blast
    have len: "length (fl_bytes f) = 512 * N" using Cons.prems(6) by (simp add: wrote_def)
    obtain f1 bs where f1: "issueIo (ae_os env) (ae_discard env) (ae_discardType env) (rio_rec r) (Some (rio_io r)) f = Inr f1"
      "fl_seekable f1" "fl_bytes f1 = file_put (512 * unat (rio_addr r)) bs (fl_bytes f)" "length bs = 512 * unat (rio_blocks r)"
      "bs = rio_bytes r \<or> \<not> exact env \<and> rio_discards r"
      using issueIo_ok [OF r(1), of "ae_os env" "ae_discard env" "ae_discardType env" f] Cons.prems(2,5,7) r(2,3) len
      by (auto simp: av_env_ok_def exact_def)
    have b1: "wrote (exact env) img (V ++ rio.item r) N (fl_bytes f1)"
      unfolding f1(3) by (rule wrote_rio [OF Cons.prems(6) r(1,3) f1(4,5)])
    have range: "\<not> dr_io_address (rio_rec r) + ucast (dr_io_blocks (rio_rec r)) > (of_nat N :: u64)"
    proof -
      have "unat (dr_io_address (rio_rec r) + ucast (dr_io_blocks (rio_rec r)) :: u64) = unat (rio_addr r) + unat (rio_blocks r)"
        using r(3) Cons.prems(5) by (simp add: rio_addr_def rio_blocks_def unat_word_ariths)
      moreover have "unat (of_nat N :: u64) = N" using Cons.prems(5) by (simp add: unat_of_nat)
      ultimately show ?thesis using r(3) by (simp add: word_less_nat_alt)
    qed
    have rest: "sorted_wrt before rs" "\<forall>r \<in> set rs. rio_ok r \<and> rio_blocks r \<le> DEFAULT_MAX_IO_LB \<and> unat (rio_addr r) + unat (rio_blocks r) \<le> N"
      using Cons.prems(3,4) by simp_all
    obtain k res f' where IH: "apply_loop env (of_nat N) mg1 stat1 f1 = Some (res, f')"
      "wrote (exact env) img ((V ++ rio.item r) ++ rio.views (take k rs)) N (fl_bytes f')"
      "res = Inr None \<and> (\<exists>x. ae_stop env x) \<or> (\<exists>stat'. res = Inr (Some (mg', stat'))) \<and> k = length rs"
      using Cons.IH [OF m(2) Cons.prems(2) rest Cons.prems(5) b1 f1(2), of stat1] by blast
    have "rio.rng r \<inter> rio.rng x = {}" if "x \<in> set (take k rs)" for x
      using before_disjoint [of r x] Cons.prems(3) in_set_takeD [OF that] by simp
    then have "dom (rio.item r) \<inter> dom (rio.views (take k rs)) = {}"
      unfolding rio.dom_views rio.dom_item by blast
    then have "rio.item r ++ rio.views (take k rs) = rio.views (take (Suc k) (r # rs))"
      using map_add_comm [of "rio.item r" "rio.views (take k rs)"] by simp
    then have "wrote (exact env) img (V ++ rio.views (take (Suc k) (r # rs))) N (fl_bytes f')"
      using IH(2) by (simp del: map_add_assoc flip: map_add_assoc)
    moreover have "apply_loop env (of_nat N) mg stat f = Some (res, f')"
      using m(1) False st f1(1) range r(1) IH(1) by (subst apply_loop.simps) (simp add: rio_ok_def)
    ultimately show ?thesis using IH(3) by (intro exI [of _ "Suc k"] exI [of _ res] exI [of _ f']) auto
  qed
qed

lemma take_views:
  assumes "sorted_wrt before rs"
  shows "rio.views (take k rs) \<subseteq>\<^sub>m rio.views rs"
proof -
  have "dom (rio.views (take k rs)) \<inter> dom (rio.views (drop k rs)) = {}"
  proof -
    have "\<forall>x \<in> set (take k rs). \<forall>y \<in> set (drop k rs). before x y"
      using assms sorted_wrt_append [of before "take k rs" "drop k rs"] by simp
    then show ?thesis unfolding rio.dom_views using before_disjoint by fast
  qed
  moreover have "rio.views rs = rio.views (drop k rs) ++ rio.views (take k rs)"
    using rio.views_append [of "take k rs" "drop k rs"] by simp
  ultimately show ?thesis by simp
qed

lemma applyOpenedDiffs_ok:
  assumes "av_env_ok env" and "wdiffs_ok (ae_enc env) N fs Vs" and "av_lvs s lv = Some img" and "length img = 512 * N"
  shows "\<exists>b W img'. applyOpenedDiffs env fs lv N s = Some (Inr b, s\<lparr>av_lvs := (av_lvs s)(lv \<mapsto> img')\<rparr>)
    \<and> wrote (exact env) img W N img' \<and> W \<subseteq>\<^sub>m foldl (++) Map.empty Vs \<and> (b \<longrightarrow> W = foldl (++) Map.empty Vs) \<and> (b \<or> (\<exists>x. ae_stop env x))"
proof -
  obtain mg mg1 rs mg2 where p: "archive_merger fs = Inr mg" "merger_prepare (ae_dec env) mg = Some (Inr mg1)"
    "merger_read_all (ae_dec env) mg1 = Some (Inr (rs, mg2))" "sorted_wrt before rs"
    "\<forall>r \<in> set rs. rio_ok r \<and> rio_blocks r \<le> DEFAULT_MAX_IO_LB" "rio.views rs = foldl (++) Map.empty Vs" "mg_wdiffs mg2 = []"
    using wdiffs_prepared [OF assms(1,2)] by blast
  have N: "N < 2 ^ 52" using assms(2) by (simp add: wdiffs_ok_def)
  have dV: "\<forall>V \<in> set Vs. dom V \<subseteq> {..< N}" using assms(2) by (simp add: wdiffs_ok_def)
  have fd: "dom (foldl (++) m Vs) \<subseteq> {..< N}" if "dom m \<subseteq> {..< N}" for m
    using that dV by (induction Vs arbitrary: m) auto
  have dm: "dom (rio.views rs) \<subseteq> {..< N}" unfolding p(6) by (rule fd) simp
  have rg: "\<forall>r \<in> set rs. rio_ok r \<and> rio_blocks r \<le> DEFAULT_MAX_IO_LB \<and> unat (rio_addr r) + unat (rio_blocks r) \<le> N"
    using p(5) rios_in_range [OF _ dm] by blast
  let ?f = "\<lparr>fl_bytes = img, fl_pos = 0, fl_seekable = True\<rparr>"
  have img: "wrote (exact env) img Map.empty N (fl_bytes ?f)" using wrote_none [OF assms(4)] by simp
  have "\<exists>k res f'. apply_loop env (of_nat N) mg1 stat_clear ?f = Some (res, f')
    \<and> wrote (exact env) img (Map.empty ++ rio.views (take k rs)) N (fl_bytes f')
    \<and> (res = Inr None \<and> (\<exists>x. ae_stop env x) \<or> (\<exists>stat'. res = Inr (Some (mg2, stat'))) \<and> k = length rs)"
    by (rule apply_loop_ok [OF p(3) assms(1) p(4) rg N img]) simp
  then obtain k res f' where a: "apply_loop env (of_nat N) mg1 stat_clear ?f = Some (res, f')"
    "wrote (exact env) img (rio.views (take k rs)) N (fl_bytes f')"
    "res = Inr None \<and> (\<exists>x. ae_stop env x) \<or> (\<exists>stat'. res = Inr (Some (mg2, stat'))) \<and> k = length rs"
    unfolding empty_map_add by blast
  let ?s = "s\<lparr>av_lvs := (av_lvs s)(lv \<mapsto> fl_bytes f')\<rparr>"
  have "applyOpenedDiffs env fs lv N s = Some (case res of Inl e \<Rightarrow> (Inl e, ?s) | Inr None \<Rightarrow> (Inr False, ?s)
      | Inr (Some (mg, stat)) \<Rightarrow> (res_bind (merger_statIn mg) (\<lambda>_. Inr True), ?s))"
    using p(1,2) a(1) assms(3) by (simp add: applyOpenedDiffs_def sx_bind_def sx_read_def lvm_get_def Let_def split: sum.splits option.splits)
  then have "\<exists>b. applyOpenedDiffs env fs lv N s = Some (Inr b, ?s) \<and> (b \<longrightarrow> k = length rs) \<and> (b \<or> (\<exists>x. ae_stop env x))"
    using a(3) p(7) by (auto simp: merger_statIn_def ensure_def)
  moreover have "rio.views (take k rs) \<subseteq>\<^sub>m foldl (++) Map.empty Vs" using take_views [OF p(4), of k] p(6) by simp
  moreover have "k = length rs \<longrightarrow> rio.views (take k rs) = foldl (++) Map.empty Vs" using p(6) by simp
  ultimately show ?thesis using a(2) by blast
qed

text \<open>The writer of the merged file gets what the merger hands out, unless the server is stopped.\<close>

lemma archive_merge_loop_ok:
  assumes "merger_read_all (ae_dec env) mg = Some (Inr (rs, mg'))"
    and "mem_write_entries (ae_enc env) WALB_DIFF_CMPR_SNAPPY rs w = Inr w'"
  shows "archive_merge_loop env w mg = Some (Inr None) \<or> archive_merge_loop env w mg = Some (Inr (Some (w', mg')))"
  using assms
proof (induction rs arbitrary: mg w)
  case Nil
  have "getAndRemove (ae_dec env) mg = Some (Inr (None, mg'))" using read_all_step [OF Nil.prems(1)] by simp
  then show ?case using Nil.prems(2) by (subst archive_merge_loop.simps) simp
next
  case (Cons r rs)
  obtain mg1 where m: "getAndRemove (ae_dec env) mg = Some (Inr (Some r, mg1))"
    "merger_read_all (ae_dec env) mg1 = Some (Inr (rs, mg'))" using read_all_step [OF Cons.prems(1)] by auto
  obtain w1 where w1: "writer_compressAndWriteDiff (ae_enc env) (rio_rec r) (rio_io r) WALB_DIFF_CMPR_SNAPPY 0 w = Inr w1"
    "mem_write_entries (ae_enc env) WALB_DIFF_CMPR_SNAPPY rs w1 = Inr w'"
    using Cons.prems(2) by (auto simp: res_bind_Inr_iff ensure_Inr_iff WALB_DIFF_CMPR_SNAPPY_def WALB_DIFF_CMPR_NONE_def)
  show ?case using Cons.IH [OF m(2) w1(2)] m(1) w1(1)
    by (subst (1 2) archive_merge_loop.simps) auto
qed

lemma merged_file_ok:
  assumes "av_env_ok env" and "wdiffs_ok (ae_enc env) N fs Vs"
  shows "\<exists>out. merged_file env fs = Some (Inr out) \<and> (\<forall>f. out = Some f \<longrightarrow> wdiff_file (ae_enc env) f (foldl (++) Map.empty Vs))"
proof -
  obtain mg mg1 rs mg2 where p: "archive_merger fs = Inr mg" "merger_prepare (ae_dec env) mg = Some (Inr mg1)"
    "merger_read_all (ae_dec env) mg1 = Some (Inr (rs, mg2))" "sorted_wrt before rs"
    "\<forall>r \<in> set rs. rio_ok r \<and> rio_blocks r \<le> DEFAULT_MAX_IO_LB" "rio.views rs = foldl (++) Map.empty Vs"
    "mg_isHeaderPrepared mg1" "file_header_ok (mg_wdiffH mg1)" "fh_version (mg_wdiffH mg1) = WALB_DIFF_VERSION"
    using wdiffs_prepared [OF assms] by blast
  have c: "codec_ok (ae_enc env) (ae_dec env)" using assms(1) by (simp add: av_env_ok_def)
  have mx: "512 * unat DEFAULT_MAX_IO_LB < 2 ^ 31" by (simp add: max_io_lb(1))
  obtain w w1 w2 where w: "writer_writeHeader (mg_wdiffH mg1) (writer_setFd []) = Inr (sealed_header (mg_wdiffH mg1), w)"
    "mem_write_entries (ae_enc env) WALB_DIFF_CMPR_SNAPPY rs w = Inr w1" "writer_close w1 = Inr w2"
    "wdiff_file (ae_enc env) (sw_file w2) (rio.views rs)"
    using ios_written [OF c p(4,5) mx p(8,9)] by blast
  show ?thesis using archive_merge_loop_ok [OF p(3) w(2)] p(1,2,6,7) w(1,3,4)
    by (auto simp: merged_file_def merger_header_def)
qed

end
