(* ===== verification/Archive_Files.thy ===== *)
theory Archive_Files
  imports Archive_Laws
begin

text \<open>
  The wdiffs of an archive volume: the manager and the directory agree, and every file holds what its name says of the
  history. Adding a diff with its file, removing diffs with their files, choosing diffs to apply or to merge, and loading
  the directory again keep this.
\<close>

section \<open>File names\<close>

abbreviation wname :: "av_env \<Rightarrow> MetaDiff \<Rightarrow> string" where
  "wname env d \<equiv> createDiffFileName (ae_unixTimeToStr env) d"

definition time_ok :: "av_env \<Rightarrow> MetaDiff \<Rightarrow> bool" where
  "time_ok env d \<longleftrightarrow> length (ae_unixTimeToStr env (d_timestamp d)) = 14
     \<and> ae_strToUnixTime env (ae_unixTimeToStr env (d_timestamp d)) = Inr (d_timestamp d)"

definition wdiff_names :: "vol_dir \<Rightarrow> string set" where
  "wdiff_names dir = {n. dir n \<noteq> None \<and> HasExtension n ''wdiff''}"

lemma HasExtension_append: "xs \<noteq> [] \<Longrightarrow> HasExtension (xs @ ''.wdiff'') ''wdiff''"
  by (simp add: HasExtension_def nth_append)

lemma wname_ext: "HasExtension (wname env d) ''wdiff''"
  unfolding createDiffFileName_def append_assoc [symmetric] by (rule HasExtension_append) simp

lemma wname_parse: "diff_ok d \<Longrightarrow> time_ok env d \<Longrightarrow> parseDiffFileName (ae_strToUnixTime env) (wname env d) = Inr (d\<lparr>MetaDiff.dataSize := 0\<rparr>)"
  by (rule parse_create_diff_file_name) (simp_all add: time_ok_def)

lemma wname_eq:
  assumes "wname env d = wname env d'" and "diff_ok d" and "diff_ok d'" and "time_ok env d" and "time_ok env d'"
  shows "d\<lparr>MetaDiff.dataSize := 0\<rparr> = d'\<lparr>MetaDiff.dataSize := 0\<rparr>"
  using wname_parse [OF assms(2,4)] wname_parse [OF assms(3,5)] assms(1) by simp

lemma wname_diff_eq:
  assumes "wname env d = wname env d'" and "diff_ok d" and "diff_ok d'" and "time_ok env d" and "time_ok env d'"
  shows "diff_eq d d'"
proof -
  have "snapB (d\<lparr>MetaDiff.dataSize := 0\<rparr>) = snapB (d'\<lparr>MetaDiff.dataSize := 0\<rparr>)" "snapE (d\<lparr>MetaDiff.dataSize := 0\<rparr>) = snapE (d'\<lparr>MetaDiff.dataSize := 0\<rparr>)"
    using wname_eq [OF assms] by simp_all
  then show ?thesis by (simp add: diff_eq_def)
qed

lemma wname_dataSize [simp]: "wname env (d\<lparr>MetaDiff.dataSize := x\<rparr>) = wname env d"
  by (simp add: createDiffFileName_def diff_isDirty_def)

lemma manager_diff_eq: "manager_ok mgr \<Longrightarrow> d \<in> diffs mgr \<Longrightarrow> d' \<in> diffs mgr \<Longrightarrow> diff_eq d d' \<Longrightarrow> d = d'"
  by (auto simp: manager_ok_def diffs_def)

lemma manager_diff_ok: "manager_ok mgr \<Longrightarrow> d \<in> diffs mgr \<Longrightarrow> diff_ok d"
  by (auto simp: manager_ok_def diffs_def)

section \<open>The manager and the directory\<close>

definition right_file :: "av_env \<Rightarrow> (nat \<Rightarrow> contents) \<Rightarrow> MetaDiff \<Rightarrow> u8 list \<Rightarrow> bool" where
  "right_file env P d f \<longleftrightarrow> (\<exists>V. wdiff_file (ae_enc env) f V \<and> holds P d V)"

text \<open>\<open>t\<close> is the last gid that was received.\<close>

definition right_diff :: "av_env \<Rightarrow> u64 \<Rightarrow> MetaDiff \<Rightarrow> bool" where
  "right_diff env t d \<longleftrightarrow> clean_diff d \<and> time_ok env d \<and> gidB (snapE d) \<le> t"

definition diffs_right :: "av_env \<Rightarrow> (nat \<Rightarrow> contents) \<Rightarrow> u64 \<Rightarrow> diff_manager \<Rightarrow> vol_dir \<Rightarrow> bool" where
  "diffs_right env P t mgr dir \<longleftrightarrow> manager_ok mgr \<and> card (diffs mgr) \<le> 4096 \<and> (\<forall>d \<in> diffs mgr. right_diff env t d)
     \<and> (\<forall>d \<in> diffs mgr. \<exists>f. dir (wname env d) = Some f \<and> right_file env P d f)
     \<and> wdiff_names dir = wname env ` diffs mgr"

definition covered :: "MetaDiff set \<Rightarrow> u64 \<Rightarrow> u64 \<Rightarrow> bool" where
  "covered D b e \<longleftrightarrow> (\<forall>g. b \<le> g \<and> g < e \<longrightarrow> (\<exists>d \<in> D. gidB (snapB d) \<le> g \<and> g < gidB (snapE d)))"

lemma finite_diffs [simp]: "finite (diffs mgr)"
  by (simp add: diffs_def)

lemma covered_mono: "covered D b e \<Longrightarrow> b \<le> b' \<Longrightarrow> e' \<le> e \<Longrightarrow> D \<subseteq> D' \<Longrightarrow> covered D' b' e'"
  unfolding covered_def by (meson order_trans order_less_le_trans subsetD)

lemma chain_covered: "chain b v e \<Longrightarrow> covered (set v) b e"
  using chain_covers by (auto simp: covered_def)

lemma diffs_right_dir:
  "diffs_right env P t mgr dir \<Longrightarrow> (\<And>n. HasExtension n ''wdiff'' \<Longrightarrow> dir' n = dir n) \<Longrightarrow> diffs_right env P t mgr dir'"
  unfolding diffs_right_def wdiff_names_def by (auto simp: wname_ext)

lemma diffs_right_later: "diffs_right env P t mgr dir \<Longrightarrow> t \<le> t' \<Longrightarrow> diffs_right env P t' mgr dir"
  unfolding diffs_right_def right_diff_def by (meson order_trans)

lemma right_diff_ok: "right_diff env t d \<Longrightarrow> diff_ok d \<and> time_ok env d"
  by (simp add: right_diff_def clean_diff_def)

lemma wname_inj: "diffs_right env P t mgr dir \<Longrightarrow> inj_on (wname env) (diffs mgr)"
proof (rule inj_onI)
  fix d d' assume r: "diffs_right env P t mgr dir" and d: "d \<in> diffs mgr" "d' \<in> diffs mgr" "wname env d = wname env d'"
  then have "diff_ok d \<and> time_ok env d" "diff_ok d' \<and> time_ok env d'" "manager_ok mgr"
    using right_diff_ok unfolding diffs_right_def by blast+
  then show "d = d'" using wname_diff_eq [of env d d'] manager_diff_eq d by blast
qed

lemma diffs_right_add:
  assumes "diffs_right env P t mgr dir" and "right_diff env t d" and "right_file env P d f"
    and "\<forall>d' \<in> diffs mgr. \<not> diff_eq d d'" and "card (diffs mgr) < 4096"
  shows "\<exists>mgr'. addNolock d mgr = Inr mgr' \<and> diffs mgr' = insert d (diffs mgr)
    \<and> diffs_right env P t mgr' (dir(wname env d \<mapsto> f))"
proof -
  have m: "manager_ok mgr" using assms(1) by (simp add: diffs_right_def)
  have d: "diff_ok d" "time_ok env d" using right_diff_ok [OF assms(2)] by simp_all
  obtain mgr' where a: "addNolock d mgr = Inr mgr'" "manager_ok mgr'" "diffs mgr' = insert d (diffs mgr)"
    using addNolock_ok [OF m d(1)] assms(4) by auto
  have ne: "wname env d' \<noteq> wname env d" if "d' \<in> diffs mgr" for d'
  proof -
    have "diff_ok d'" "time_ok env d'" using that assms(1) right_diff_ok unfolding diffs_right_def by blast+
    then show ?thesis using that assms(4) wname_diff_eq [of env d d'] d by auto
  qed
  have c: "card (diffs mgr') \<le> 4096" using assms(5) card_insert_le_m1 [of 4096 "diffs mgr" d] by (simp add: a(3) card_insert_if)
  have "wdiff_names (dir(wname env d \<mapsto> f)) = insert (wname env d) (wdiff_names dir)"
    by (auto simp: wdiff_names_def wname_ext)
  then have "diffs_right env P t mgr' (dir(wname env d \<mapsto> f))"
    using a(2) c assms(1-3) ne unfolding diffs_right_def a(3) right_file_def by auto
  then show ?thesis using a by blast
qed

text \<open>A file may be written again.\<close>

lemma diffs_right_overwrite:
  assumes "diffs_right env P t mgr dir" and "d \<in> diffs mgr" and "right_file env P d f"
  shows "diffs_right env P t mgr (dir(wname env d \<mapsto> f))"
proof -
  have "d' = d" if "d' \<in> diffs mgr" "wname env d' = wname env d" for d'
    using inj_onD [OF wname_inj [OF assms(1)]] that assms(2) by blast
  moreover have "wdiff_names (dir(wname env d \<mapsto> f)) = wdiff_names dir"
    using assms(1,2) unfolding diffs_right_def wdiff_names_def by auto
  ultimately show ?thesis using assms unfolding diffs_right_def by auto
qed

lemma removeDiffFiles_eq:
  "removeDiffFiles ts v dir = (\<lambda>n. if n \<in> createDiffFileName ts ` set v then None else dir n)"
proof (induction v arbitrary: dir)
  case (Cons d v)
  have "removeDiffFiles ts (d # v) dir = removeDiffFiles ts v (unlink (createDiffFileName ts d) dir)"
    by (simp add: removeDiffFiles_def)
  then show ?case by (auto simp: Cons unlink_def fun_eq_iff)
qed (simp add: removeDiffFiles_def)

lemma diffs_right_remove:
  assumes "diffs_right env P t mgr dir" and "manager_ok mgr'" and "diffs mgr' = diffs mgr - set v" and "set v \<subseteq> diffs mgr"
  shows "diffs_right env P t mgr' (removeDiffFiles (ae_unixTimeToStr env) v dir)"
proof -
  let ?dir = "removeDiffFiles (ae_unixTimeToStr env) v dir"
  have sub: "diffs mgr' \<subseteq> diffs mgr" using assms(3) by blast
  have keep: "wname env d \<notin> wname env ` set v" if "d \<in> diffs mgr'" for d
    using inj_onD [OF wname_inj [OF assms(1)]] that assms(3,4) by blast
  have "card (diffs mgr') \<le> 4096" using card_mono [OF finite_diffs sub] assms(1) by (simp add: diffs_right_def)
  moreover have "wdiff_names ?dir = wname env ` diffs mgr'"
  proof -
    have "wdiff_names ?dir = wdiff_names dir - wname env ` set v"
      by (auto simp: wdiff_names_def removeDiffFiles_eq split: if_splits)
    also have "\<dots> = wname env ` (diffs mgr - set v)"
      using assms(1,4) wname_inj [OF assms(1)] by (simp add: diffs_right_def inj_on_image_set_diff)
    finally show ?thesis by (simp add: assms(3))
  qed
  ultimately show ?thesis using assms(1,2) sub keep unfolding diffs_right_def by (auto simp: removeDiffFiles_eq)
qed

section \<open>Choosing diffs\<close>

lemma applicable_chain:
  assumes "diffs_right env P t mgr dir"
  shows "\<exists>v e. getApplicableDiffList mgr (snap b b) pred = Inr v \<and> chain b v e \<and> set v \<subseteq> diffs mgr
    \<and> (pred = all_diffs \<longrightarrow> (\<forall>d \<in> diffs mgr. \<not> canApply (snap e e) d))"
proof -
  have m: "manager_ok mgr" "\<forall>d \<in> diffs mgr. clean_diff d" using assms by (auto simp: diffs_right_def right_diff_def)
  have "snap_ok (snap b b)" by (simp add: snap_ok_def)
  from applicable_list [OF m(1) this, of pred] obtain v s where v: "getApplicableDiffList mgr (snap b b) pred = Inr v"
    "apply_vec (snap b b) v = Inr s" "set v \<subseteq> diffs mgr" "pred = all_diffs \<longrightarrow> (\<forall>d \<in> diffs mgr. \<not> canApply s d)" by blast
  have "\<forall>d \<in> set v. clean_diff d" using v(3) m(2) by blast
  then show ?thesis using v apply_vec_chain [of v b s] by auto
qed

lemma covered_end:
  assumes "covered D b t" and "\<forall>d \<in> D. gidB (snapE d) \<le> t" and "b \<le> t" and "b \<le> e" and "e \<le> t"
    and "\<forall>d \<in> D. \<not> canApply (snap e e) d"
  shows "e = t"
proof (rule ccontr)
  assume "e \<noteq> t"
  then have "e < t" using assms(5) by simp
  then obtain d where "d \<in> D" "gidB (snapB d) \<le> e" "e < gidB (snapE d)"
    using assms(1,4) unfolding covered_def by blast
  then show False using assms(6) by (auto simp: canApply_iff)
qed

lemma chain_le_last: "chain b v e \<Longrightarrow> b \<le> t \<Longrightarrow> \<forall>d \<in> set v. gidB (snapE d) \<le> t \<Longrightarrow> e \<le> t"
  by (induction v arbitrary: b) auto

lemma latest_chain:
  assumes "diffs_right env P t mgr dir" and "covered (diffs mgr) b t" and "b \<le> t"
  shows "\<exists>v. getApplicableDiffList mgr (snap b b) all_diffs = Inr v \<and> chain b v t \<and> set v \<subseteq> diffs mgr"
proof -
  obtain v e where v: "getApplicableDiffList mgr (snap b b) all_diffs = Inr v" "chain b v e" "set v \<subseteq> diffs mgr"
    "\<forall>d \<in> diffs mgr. \<not> canApply (snap e e) d" using applicable_chain [OF assms(1)] by blast
  have le: "\<forall>d \<in> diffs mgr. gidB (snapE d) \<le> t" using assms(1) by (auto simp: diffs_right_def right_diff_def)
  have "e \<le> t" using chain_le_last [OF v(2) assms(3)] le v(3) by blast
  then have "e = t" using covered_end [OF assms(2) le assms(3) chain_le [OF v(2)] _ v(4)] by blast
  then show ?thesis using v by blast
qed

lemma chain_length:
  assumes "chain b v e" and "set v \<subseteq> diffs mgr" and "card (diffs mgr) \<le> 4096"
  shows "length v \<le> 4096"
  using distinct_card [OF chain_distinct [OF assms(1)]] card_mono [OF finite_diffs assms(2)] assms(3) by simp

section \<open>The history and the files of chains\<close>

definition history_ok :: "(nat \<Rightarrow> contents) \<Rightarrow> u8 list \<Rightarrow> nat \<Rightarrow> bool" where
  "history_ok P base N \<longleftrightarrow> N < 2 ^ 52 \<and> length base = 512 * N \<and> (\<forall>g. blocks_ok (P g) \<and> dom (P g) \<subseteq> {..< N})"

lemma dom_delta: "history_ok P base N \<Longrightarrow> dom (delta P b e) \<subseteq> {..< N}"
proof -
  assume h: "history_ok P base N"
  have "dom m \<subseteq> {..< N} \<Longrightarrow> dom (foldl (++) m (map P gs)) \<subseteq> {..< N}" for m gs
    using h by (induction gs arbitrary: m) (auto simp: history_ok_def)
  then show ?thesis by (simp add: delta_def)
qed

lemma opened_files:
  assumes "diffs_right env P t mgr dir" and "set v \<subseteq> diffs mgr"
  shows "\<exists>fs Vs. open_all (ae_unixTimeToStr env) v dir = Some fs \<and> list_all2 (wdiff_file (ae_enc env)) fs Vs
    \<and> list_all2 (holds P) v Vs"
  using assms(2)
proof (induction v)
  case (Cons d v)
  obtain f V where "dir (wname env d) = Some f" "wdiff_file (ae_enc env) f V" "holds P d V"
    using Cons.prems assms(1) unfolding diffs_right_def right_file_def by fastforce
  moreover obtain fs Vs where "open_all (ae_unixTimeToStr env) v dir = Some fs" "list_all2 (wdiff_file (ae_enc env)) fs Vs"
    "list_all2 (holds P) v Vs" using Cons by auto
  ultimately have "open_all (ae_unixTimeToStr env) (d # v) dir = Some (f # fs)"
    "list_all2 (wdiff_file (ae_enc env)) (f # fs) (V # Vs)" "list_all2 (holds P) (d # v) (V # Vs)" by simp_all
  then show ?case by blast
qed simp

lemma opened_ok:
  assumes "list_all2 (wdiff_file (ae_enc env)) fs Vs" and "list_all2 (holds P) v Vs" and "history_ok P base N"
    and "v \<noteq> []" and "length v \<le> 4096"
  shows "wdiffs_ok (ae_enc env) N fs Vs"
proof -
  have "dom V \<subseteq> {..< N}" if V: "V \<in> set Vs" for V
  proof -
    obtain i where "i < length Vs" "V = Vs ! i" using V by (auto simp: in_set_conv_nth)
    then have "holds P (v ! i) V" using assms(2) by (simp add: list_all2_conv_all_nth)
    then show ?thesis using dom_delta [OF assms(3)] by (auto simp: holds_def)
  qed
  moreover have "length fs = length v" using assms(1,2) by (simp add: list_all2_lengthD)
  ultimately show ?thesis using assms by (auto simp: wdiffs_ok_def history_ok_def)
qed

end
