(* ===== verification/Archive_Diffs.thy ===== *)
theory Archive_Diffs
  imports Archive_Files
begin

text \<open>
  The operations on the wdiffs of an archive volume that change the manager and the directory together: removing what was
  applied, garbage collection, choosing and replacing the inputs of a merge, and loading the directory again.
\<close>

section \<open>Adding and erasing lists of diffs\<close>

lemma erase_vec_ok:
  assumes "manager_ok mgr"
  shows "\<exists>mgr'. erase_vec v False mgr = Inr mgr' \<and> manager_ok mgr'
    \<and> diffs mgr' = {d' \<in> diffs mgr. \<forall>d \<in> set v. \<not> diff_eq d d'}"
  using assms
proof (induction v arbitrary: mgr)
  case (Cons d v)
  obtain mgr1 where m1: "eraseNolock d False mgr = Inr mgr1" "manager_ok mgr1" "diffs mgr1 = {d' \<in> diffs mgr. \<not> diff_eq d d'}"
    using eraseNolock_ok [OF Cons.prems] by blast
  obtain mgr' where "erase_vec v False mgr1 = Inr mgr'" "manager_ok mgr'"
    "diffs mgr' = {d' \<in> diffs mgr1. \<forall>d \<in> set v. \<not> diff_eq d d'}" using Cons.IH [OF m1(2)] by blast
  then show ?case using m1 by auto
qed simp

lemma erase_members:
  assumes "manager_ok mgr" and "set v \<subseteq> diffs mgr"
  shows "\<exists>mgr'. erase_vec v False mgr = Inr mgr' \<and> manager_ok mgr' \<and> diffs mgr' = diffs mgr - set v"
proof -
  obtain mgr' where m: "erase_vec v False mgr = Inr mgr'" "manager_ok mgr'"
    "diffs mgr' = {d' \<in> diffs mgr. \<forall>d \<in> set v. \<not> diff_eq d d'}" using erase_vec_ok [OF assms(1)] by blast
  have "(\<forall>d \<in> set v. \<not> diff_eq d d') \<longleftrightarrow> d' \<notin> set v" if "d' \<in> diffs mgr" for d'
    using manager_diff_eq [OF assms(1) _ that] assms(2) diff_eq_refl by blast
  then show ?thesis using m by auto
qed

lemma manager_clear_ok: "manager_ok (manager_clear mgr)" "diffs (manager_clear mgr) = {}"
  by (simp_all add: manager_ok_def manager_clear_def index_ok_def diffs_def)

lemma add_vec_ok:
  assumes "manager_ok mgr" and "\<forall>d \<in> set v. diff_ok d" and "sorted_wrt (\<lambda>d d'. \<not> diff_eq d' d) v"
    and "\<forall>d \<in> set v. \<forall>d' \<in> diffs mgr. \<not> diff_eq d d'"
  shows "\<exists>mgr'. add_vec v mgr = Inr mgr' \<and> manager_ok mgr' \<and> diffs mgr' = diffs mgr \<union> set v"
  using assms
proof (induction v arbitrary: mgr)
  case (Cons d v)
  have d: "diff_ok d" "\<forall>d' \<in> diffs mgr. \<not> diff_eq d d'" using Cons.prems(2,4) by simp_all
  obtain mgr1 where m1: "addNolock d mgr = Inr mgr1" "manager_ok mgr1" "diffs mgr1 = insert d (diffs mgr)"
    using addNolock_ok [OF Cons.prems(1) d(1)] d(2) by auto
  obtain mgr' where "add_vec v mgr1 = Inr mgr'" "manager_ok mgr'" "diffs mgr' = diffs mgr1 \<union> set v"
    using Cons.IH [OF m1(2)] Cons.prems(2-4) m1(3) by auto
  then show ?case using m1 by auto
qed simp

section \<open>Removing diffs\<close>

lemma removeBeforeGid_right:
  assumes "diffs_right env P t mgr dir" and "covered (diffs mgr) b t" and "b \<le> gid"
  shows "\<exists>n mgr' v. eraseBeforeGid gid mgr = (v, mgr') \<and> set v \<subseteq> diffs mgr \<and> diffs mgr' = diffs mgr - set v
    \<and> wf_removeBeforeGid (ae_unixTimeToStr env) gid (mgr, dir)
      = (n, mgr', removeDiffFiles (ae_unixTimeToStr env) v dir)
    \<and> diffs_right env P t mgr' (removeDiffFiles (ae_unixTimeToStr env) v dir) \<and> covered (diffs mgr') gid t"
proof -
  have m: "manager_ok mgr" using assms(1) by (simp add: diffs_right_def)
  obtain v mgr' where v: "eraseBeforeGid gid mgr = (v, mgr')" "manager_ok mgr'"
    "set v = {d \<in> diffs mgr. gidB (snapE d) \<le> gid}" "diffs mgr' = {d \<in> diffs mgr. \<not> gidB (snapE d) \<le> gid}"
    using eraseBeforeGid_exact [OF m] by blast
  have d: "diffs mgr' = diffs mgr - set v" "set v \<subseteq> diffs mgr" using v(3,4) by auto
  have "covered (diffs mgr') gid t"
    unfolding covered_def
  proof (intro allI impI)
    fix g assume g: "gid \<le> g \<and> g < t"
    then have "b \<le> g" using assms(3) by (meson order_trans)
    then obtain d where "d \<in> diffs mgr" "gidB (snapB d) \<le> g" "g < gidB (snapE d)"
      using assms(2) g unfolding covered_def by blast
    moreover from this have "\<not> gidB (snapE d) \<le> gid" using g by (auto simp: not_le intro: order_le_less_trans)
    ultimately show "\<exists>d \<in> diffs mgr'. gidB (snapB d) \<le> g \<and> g < gidB (snapE d)" using v(4) by blast
  qed
  then show ?thesis using v(1) d diffs_right_remove [OF assms(1) v(2) d]
    by (intro exI [of _ "of_nat (length v)"] exI [of _ mgr'] exI [of _ v]) (simp add: wf_removeBeforeGid_def wf_removed_def)
qed

lemma gc_right:
  assumes "diffs_right env P t mgr dir" and "covered (diffs mgr) b t" and "b \<le> t"
  shows "\<exists>n mgr' v. gc (snap b b) mgr = Inr (v, mgr') \<and> set v \<subseteq> diffs mgr \<and> diffs mgr' = diffs mgr - set v
    \<and> wf_gc (ae_unixTimeToStr env) (snap b b) (mgr, dir)
      = Inr (n, mgr', removeDiffFiles (ae_unixTimeToStr env) v dir)
    \<and> diffs_right env P t mgr' (removeDiffFiles (ae_unixTimeToStr env) v dir) \<and> covered (diffs mgr') b t"
proof -
  have m: "manager_ok mgr" using assms(1) by (simp add: diffs_right_def)
  obtain v where v: "getApplicableDiffList mgr (snap b b) all_diffs = Inr v" "chain b v t" "set v \<subseteq> diffs mgr"
    using latest_chain [OF assms] by blast
  obtain mgr1 where m1: "erase_vec v False mgr = Inr mgr1" "manager_ok mgr1" "diffs mgr1 = diffs mgr - set v"
    using erase_members [OF m v(3)] by blast
  have "diff_ok d" if "d \<in> set v" for d using that v(3) manager_diff_ok [OF m] by blast
  moreover have "sorted_wrt (\<lambda>d d'. \<not> diff_eq d' d) v"
    using chain_distinct [OF v(2)] manager_diff_eq [OF m] v(3)
    by (auto simp: sorted_wrt_iff_nth_less distinct_conv_nth subset_iff) (metis nth_mem order_less_trans nat_neq_iff)
  ultimately obtain mgr2 where m2: "add_vec v (manager_clear mgr1) = Inr mgr2" "manager_ok mgr2" "diffs mgr2 = set v"
    using add_vec_ok [OF manager_clear_ok(1), of v mgr1] by (auto simp: manager_clear_ok(2))
  let ?w = "map snd (mmap mgr1)"
  have w: "set ?w = diffs mgr1" by (simp add: diffs_def)
  have d: "diffs mgr2 = diffs mgr - set ?w" "set ?w \<subseteq> diffs mgr" using w m1(3) m2(3) v(3) by auto
  have "wf_gc (ae_unixTimeToStr env) (snap b b) (mgr, dir)
      = Inr (of_nat (length ?w), mgr2, removeDiffFiles (ae_unixTimeToStr env) ?w dir)"
    using v(1) m1(1) m2(1) by (simp add: wf_gc_def gc_def wf_removed_def)
  moreover have "gc (snap b b) mgr = Inr (?w, mgr2)" using v(1) m1(1) m2(1) by (simp add: gc_def)
  moreover have "covered (diffs mgr2) b t" using chain_covered [OF v(2)] m2(3) by simp
  ultimately show ?thesis using d diffs_right_remove [OF assms(1) m2(2) d] by blast
qed

text \<open>When the server dies while it removes files, the first ones are gone.\<close>

lemma prefix_removed:
  assumes "diffs_right env P t mgr dir" and "set v \<subseteq> diffs mgr"
  shows "\<exists>mgr'. diffs_right env P t mgr' (removeDiffFiles (ae_unixTimeToStr env) (take k v) dir)
    \<and> diffs mgr - set v \<subseteq> diffs mgr' \<and> diffs mgr' = diffs mgr - set (take k v)"
proof -
  have m: "manager_ok mgr" using assms(1) by (simp add: diffs_right_def)
  have k: "set (take k v) \<subseteq> diffs mgr" using assms(2) set_take_subset by fast
  obtain mgr' where m': "manager_ok mgr'" "diffs mgr' = diffs mgr - set (take k v)" using erase_members [OF m k] by blast
  moreover have "diffs mgr - set v \<subseteq> diffs mgr'" unfolding m'(2) using set_take_subset by fast
  ultimately show ?thesis using diffs_right_remove [OF assms(1) m' k] by blast
qed

section \<open>Merging\<close>

text \<open>Diffs that are merged one after the other.\<close>

fun mchain :: "MetaDiff \<Rightarrow> MetaDiff list \<Rightarrow> bool" where
  "mchain m [] \<longleftrightarrow> True"
| "mchain m (d # v) \<longleftrightarrow> canMerge m d \<and> mchain (merged m d) v"

lemma mchain_take: "mchain m v \<Longrightarrow> mchain m (take k v)"
  by (induction v arbitrary: m k) (auto simp: take_Cons split: nat.splits)

lemma clean_merged:
  assumes "clean_diff m" and "clean_diff d" and "canMerge m d"
  shows "clean_diff (merged m d)" and "snapE (merged m d) = snapE d"
proof -
  have g: "gidB (snapE m) < gidB (snapE d)" using canMerge_gid [OF assms(3)] by simp
  have c: "gidE (snapB m) = gidB (snapB m)" "gidE (snapE m) = gidB (snapE m)" "gidE (snapE d) = gidB (snapE d)"
    using assms(1,2) by (simp_all add: clean_diff_def diff_isClean_gid)
  have "snapE (merged m d) = snap (gidB (snapE d)) (gidB (snapE d))"
    using g c assms(2) by (auto simp: applied_def clean_diff_def max_def)
  also have "\<dots> = snapE d" using c(3) by (simp add: snap_eq_iff)
  finally show e: "snapE (merged m d) = snapE d" .
  have "gidB (snapB m) < gidB (snapE d)" using g assms(1) by (auto simp: clean_diff_def diff_ok_def)
  then show "clean_diff (merged m d)"
    using c e by (simp add: clean_diff_def diff_isClean_gid diff_ok_def snap_ok_def)
qed

lemma mchain_merge:
  assumes "mchain m v" and "clean_diff m" and "\<forall>d \<in> set v. clean_diff d"
  shows "\<exists>M. merge_loop m v = Inr M \<and> clean_diff M \<and> snapB M = snapB m \<and> chain (gidB (snapE m)) v (gidB (snapE M))
    \<and> (v \<noteq> [] \<longrightarrow> d_timestamp M = d_timestamp (last v)) \<and> (\<forall>d \<in> set v. gidB (snapB m) \<le> gidB (snapB d))"
  using assms
proof (induction v arbitrary: m)
  case (Cons d v)
  have d: "canMerge m d" "mchain (merged m d) v" "clean_diff d" using Cons.prems by simp_all
  note cm = clean_merged [OF Cons.prems(2) d(3,1)] note g = canMerge_gid [OF d(1)]
  obtain M where M: "merge_loop (merged m d) v = Inr M" "clean_diff M" "snapB M = snapB (merged m d)"
    "chain (gidB (snapE (merged m d))) v (gidB (snapE M))" "v \<noteq> [] \<longrightarrow> d_timestamp M = d_timestamp (last v)"
    "\<forall>d' \<in> set v. gidB (snapB (merged m d)) \<le> gidB (snapB d')"
    using Cons.IH [OF d(2) cm(1)] Cons.prems(3) by auto
  have "v = [] \<Longrightarrow> d_timestamp M = d_timestamp d" using M(1) by (auto simp: merged_def)
  then show ?case using M cm(2) g d(1) merge_diff_ok [OF d(1)] by auto
qed auto

lemma mergeable_candidates:
  assumes "manager_ok mgr"
  shows "\<exists>u. getMergeableCandidatesNolock mgr m = Inr u \<and> set u \<subseteq> {d \<in> diffs mgr. canMerge m d}"
proof -
  have r: "ranges_ok (rangeMgr mgr)" using assms by (simp add: manager_ok_def index_ok_def)
  obtain g where "set (gid_search (rangeMgr mgr) (gidB (snapE m))) \<subseteq> set (ids_at (rangeMgr mgr) g)"
    using gid_search_subset [OF r] by blast
  then have "set (gid_search (rangeMgr mgr) (gidB (snapE m))) \<subseteq> fst ` set (mmap mgr)"
    using assms unfolding manager_ok_def index_ok_def by auto
  from deref_all_ok [OF assms this] show ?thesis by (auto simp: getMergeableCandidatesNolock_def diffs_def)
qed

lemma mergeable_loop:
  assumes "manager_ok mgr"
  shows "\<exists>v. getMergeableDiffList_loop mgr pred m = Inr v \<and> set v \<subseteq> diffs mgr \<and> mchain m v"
  using assms
proof (induction mgr pred m rule: getMergeableDiffList_loop.induct)
  case (1 mgr pred m)
  obtain u where u: "getMergeableCandidatesNolock mgr m = Inr u" "set u \<subseteq> {d \<in> diffs mgr. canMerge m d}"
    using mergeable_candidates [OF "1.prems"] by blast
  show ?case
  proof (cases u)
    case Nil
    then show ?thesis using u by (subst getMergeableDiffList_loop.simps) simp
  next
    case (Cons x u')
    obtain d where d: "getMaxProgressDiff u = Inr d" "d \<in> set u"
      using getMaxProgressDiff_max [of u] Cons by blast
    then have c: "canMerge m d" "d \<in> diffs mgr" using u(2) by auto
    show ?thesis
    proof (cases "pred d")
      case True
      obtain v where "getMergeableDiffList_loop mgr pred (merged m d) = Inr v" "set v \<subseteq> diffs mgr" "mchain (merged m d) v"
        using "1.IH" [OF u(1) _ d(1) _ merge_diff_ok [OF c(1)] "1.prems"] True Cons by auto
      then show ?thesis using u(1) Cons d(1) True merge_diff_ok [OF c(1)] c
        by (subst getMergeableDiffList_loop.simps) auto
    next
      case False
      then show ?thesis using u(1) Cons d(1) by (subst getMergeableDiffList_loop.simps) auto
    qed
  qed
qed

lemma first_diffs:
  assumes "manager_ok mgr"
  shows "getFirstDiffsNolock mgr gid = [] \<or> (\<exists>k. set (getFirstDiffsNolock mgr gid) = {d \<in> diffs mgr. gidB (snapB d) = k}
    \<and> getFirstDiffsNolock mgr gid \<noteq> [])"
proof (cases "mmap_lower_bound gid (mmap mgr)")
  case (Cons x xs)
  have s: "sorted (map key (mmap mgr))" using assms by (simp add: manager_ok_def)
  have x: "x \<in> set (mmap mgr)" using Cons s by (metis filter_is_subset list.set_intros(1) mmap_lower_bound_filter subsetD)
  have "getFirstDiffsNolock mgr gid = map snd (filter (\<lambda>y. key y = key x) (mmap mgr))"
    using Cons s by (simp add: getFirstDiffsNolock_def equal_range_filter)
  then have v: "set (getFirstDiffsNolock mgr gid) = {d \<in> diffs mgr. gidB (snapB d) = key x}"
    by (auto simp: diffs_def)
  have "snd x \<in> set (getFirstDiffsNolock mgr gid)" unfolding v using x by (simp add: diffs_def)
  then have "getFirstDiffsNolock mgr gid \<noteq> []" by (cases "getFirstDiffsNolock mgr gid") simp_all
  then show ?thesis using v by blast
qed (simp add: getFirstDiffsNolock_def)

definition merge_choice :: "diff_manager \<Rightarrow> MetaDiff list \<Rightarrow> bool" where
  "merge_choice mgr v \<longleftrightarrow> v = [] \<or> (\<exists>d ds. v = d # ds \<and> d \<in> diffs mgr \<and> set ds \<subseteq> diffs mgr \<and> mchain d ds
     \<and> (\<forall>d' \<in> diffs mgr. gidB (snapB d') = gidB (snapB d) \<longrightarrow> gidB (snapE d') \<le> gidB (snapE d)))"

lemma merge_choice_take:
  assumes "merge_choice mgr v"
  shows "merge_choice mgr (take k v)"
proof (cases "v = [] \<or> k = 0")
  case False
  then obtain d ds j where v: "v = d # ds" "k = Suc j" "d \<in> diffs mgr" "set ds \<subseteq> diffs mgr" "mchain d ds"
    "\<forall>d' \<in> diffs mgr. gidB (snapB d') = gidB (snapB d) \<longrightarrow> gidB (snapE d') \<le> gidB (snapE d)"
    using assms by (cases k) (auto simp: merge_choice_def)
  moreover have "set (take j ds) \<subseteq> diffs mgr" using v(4) set_take_subset [of j ds] by blast
  ultimately show ?thesis using mchain_take [OF v(5), of j] by (simp add: merge_choice_def)
qed (auto simp: merge_choice_def)

lemma mergeable_list:
  assumes "manager_ok mgr"
  shows "\<exists>v. getMergeableDiffList mgr gid pred = Inr v \<and> merge_choice mgr v"
proof (cases "getFirstDiffsNolock mgr gid = []")
  case False
  then obtain k where k: "set (getFirstDiffsNolock mgr gid) = {d \<in> diffs mgr. gidB (snapB d) = k}"
    using first_diffs [OF assms] by blast
  obtain d where d: "getMaxProgressDiff (getFirstDiffsNolock mgr gid) = Inr d" "d \<in> diffs mgr" "gidB (snapB d) = k"
    "\<forall>d' \<in> set (getFirstDiffsNolock mgr gid). progress_le d' d"
    using getMaxProgressDiff_max [OF False] k by blast
  obtain v where "getMergeableDiffList_loop mgr pred d = Inr v" "set v \<subseteq> diffs mgr" "mchain d v"
    using mergeable_loop [OF assms] by blast
  moreover have "\<forall>d' \<in> diffs mgr. gidB (snapB d') = gidB (snapB d) \<longrightarrow> gidB (snapE d') \<le> gidB (snapE d)"
    using d(3,4) k by (auto simp: progress_le_def)
  ultimately show ?thesis using False d(1,2) by (auto simp: getMergeableDiffList_def merge_choice_def)
qed (simp add: getMergeableDiffList_def merge_choice_def)

lemma truncate_take: "\<exists>k. truncateDiffVecBySize sz v = take k v"
proof -
  have loop: "\<exists>k. truncate_loop sz acc w = take k w" for acc w
  proof (induction w arbitrary: acc)
    case (Cons d w)
    obtain k where "truncate_loop sz (acc + MetaDiff.dataSize d) w = take k w" using Cons by blast
    then have "truncate_loop sz acc (d # w) = take (if sz < acc + MetaDiff.dataSize d then 0 else Suc k) (d # w)"
      by (simp add: Let_def)
    then show ?case by blast
  qed simp
  show ?thesis
  proof (cases v)
    case (Cons d w)
    obtain k where "truncate_loop sz (MetaDiff.dataSize d) w = take k w" using loop by blast
    then have "truncateDiffVecBySize sz v = take (Suc k) v" by (simp add: truncateDiffVecBySize_def Cons)
    then show ?thesis by blast
  qed (simp add: truncateDiffVecBySize_def)
qed

lemma merge_lists:
  assumes "manager_ok mgr"
  shows "\<exists>v. wf_getDiffListToMerge mgr gid sz nr = Inr v \<and> merge_choice mgr v"
    and "\<exists>v. getDiffListToMergeGid mgr gid gE = Inr v \<and> merge_choice mgr v"
proof -
  obtain v where v: "getMergeableDiffList mgr gid (\<lambda>_. True) = Inr v" "merge_choice mgr v"
    using mergeable_list [OF assms] by blast
  obtain k where "truncateDiffVecBySize sz v = take k v" using truncate_take by blast
  then show "\<exists>v. wf_getDiffListToMerge mgr gid sz nr = Inr v \<and> merge_choice mgr v"
    using v by (simp add: wf_getDiffListToMerge_def merge_choice_take)
  show "\<exists>v. getDiffListToMergeGid mgr gid gE = Inr v \<and> merge_choice mgr v"
    using v(1) by (simp add: getDiffListToMergeGid_def) (subst takeWhile_eq_take, rule merge_choice_take [OF v(2)])
qed

text \<open>The merged diff takes the place of its inputs.\<close>

lemma merge_right:
  assumes "diffs_right env P t mgr dir" and "merge_choice mgr v" and "2 \<le> length v"
  shows "\<exists>M. merge_vec v = Inr M \<and> right_diff env t M \<and> (\<forall>d \<in> diffs mgr. \<not> diff_eq M d)
    \<and> (\<forall>g. (\<exists>d \<in> set v. gidB (snapB d) \<le> g \<and> g < gidB (snapE d)) \<longrightarrow> gidB (snapB M) \<le> g \<and> g < gidB (snapE M))
    \<and> (\<forall>Vs. list_all2 (holds P) v Vs \<longrightarrow> holds P M (foldl (++) Map.empty Vs)) \<and> set v \<subseteq> diffs mgr \<and> distinct v"
proof -
  have all: "\<forall>d \<in> diffs mgr. right_diff env t d" using assms(1) by (simp add: diffs_right_def)
  obtain d ds where v: "v = d # ds" "d \<in> diffs mgr" "set ds \<subseteq> diffs mgr" "mchain d ds"
    "\<forall>d' \<in> diffs mgr. gidB (snapB d') = gidB (snapB d) \<longrightarrow> gidB (snapE d') \<le> gidB (snapE d)"
    using assms(2,3) by (auto simp: merge_choice_def)
  have cl: "clean_diff d" "\<forall>d \<in> set ds. clean_diff d" using all v(2,3) by (auto simp: right_diff_def)
  have ne: "ds \<noteq> []" using assms(3) v(1) by auto
  obtain M where M: "merge_loop d ds = Inr M" "clean_diff M" "snapB M = snapB d" "chain (gidB (snapE d)) ds (gidB (snapE M))"
    "d_timestamp M = d_timestamp (last ds)" "\<forall>d' \<in> set ds. gidB (snapB d) \<le> gidB (snapB d')"
    using mchain_merge [OF v(4) cl] ne by blast
  have last: "last ds \<in> diffs mgr" "gidB (snapE (last ds)) = gidB (snapE M)" using ne v(3) chain_end [OF M(4) ne] by auto
  have rd: "right_diff env t M" using last all M(2,5) unfolding right_diff_def time_ok_def by metis
  have gt: "gidB (snapE d) < gidB (snapE M)" by (rule chain_progress [OF M(4) ne])
  have nq: "\<not> diff_eq M d'" if "d' \<in> diffs mgr" for d'
  proof
    assume "diff_eq M d'"
    then have "gidB (snapB d') = gidB (snapB d)" "gidB (snapE d') = gidB (snapE M)" using M(3) by (simp_all add: diff_eq_def)
    then show False using v(5) that gt by fastforce
  qed
  have cov: "gidB (snapB M) \<le> g \<and> g < gidB (snapE M)"
    if x: "x \<in> set v" "gidB (snapB x) \<le> g" "g < gidB (snapE x)" for x g
  proof (cases "x = d")
    case True
    then show ?thesis using x M(3) gt by (auto intro: order_less_trans)
  next
    case False
    then have "x \<in> set ds" using x(1) v(1) by simp
    then have "gidB (snapB M) \<le> gidB (snapB x)" "gidB (snapE x) \<le> gidB (snapE M)"
      using M(3,6) chain_ends [OF M(4)] by simp_all
    then show ?thesis using x by (auto intro: order_trans order_less_le_trans)
  qed
  have "holds P M (foldl (++) Map.empty Vs)" if Vs: "list_all2 (holds P) v Vs" for Vs
  proof -
    have "diff_ok d" using cl(1) by (simp add: clean_diff_def)
    from merged_chain_holds [OF M(4) _ this, of P Vs] Vs v(1) show ?thesis by (simp add: holds_def M(3))
  qed
  moreover have "distinct v" using chain_ends [OF M(4)] chain_distinct [OF M(4)] v(1) by fastforce
  ultimately show ?thesis using M(1) rd nq cov v(1-3) by (auto simp: merge_vec_def)
qed

section \<open>Loading the directory\<close>

definition sized :: "av_env \<Rightarrow> vol_dir \<Rightarrow> MetaDiff \<Rightarrow> MetaDiff" where
  "sized env dir d = d\<lparr>MetaDiff.dataSize := (case dir (wname env d) of None \<Rightarrow> 0 | Some bs \<Rightarrow> of_nat (length bs))\<rparr>"

lemma sized_simps [simp]:
  "snapB (sized env dir d) = snapB d" "snapE (sized env dir d) = snapE d" "d_timestamp (sized env dir d) = d_timestamp d"
  "wname env (sized env dir d) = wname env d" "diff_isClean (sized env dir d) = diff_isClean d"
  by (simp_all add: sized_def diff_isClean_def)

lemma right_sized: "right_diff env t (sized env dir d) \<longleftrightarrow> right_diff env t d"
  "right_file env P (sized env dir d) f \<longleftrightarrow> right_file env P d f"
  by (simp_all add: right_diff_def clean_diff_def diff_ok_def time_ok_def right_file_def holds_def)

lemma load_diffs_ok:
  assumes "set ns \<subseteq> wname env ` D" and "\<forall>d \<in> D. right_diff env t d"
  shows "\<exists>v. load_diffs (ae_strToUnixTime env) dir ns = Inr (map (sized env dir) v) \<and> set v \<subseteq> D \<and> map (wname env) v = ns"
  using assms(1)
proof (induction ns)
  case (Cons n ns)
  obtain d where d: "d \<in> D" "n = wname env d" using Cons.prems by auto
  obtain v where v: "load_diffs (ae_strToUnixTime env) dir ns = Inr (map (sized env dir) v)" "set v \<subseteq> D" "map (wname env) v = ns"
    using Cons by auto
  have "diff_ok d \<and> time_ok env d" using right_diff_ok assms(2) d(1) by blast
  then have "load_diffs (ae_strToUnixTime env) dir (n # ns) = Inr (map (sized env dir) (d # v))"
    using v(1) d(2) by (simp add: wname_parse sized_def)
  then show ?case using v d by (metis insert_subset list.set(2) list.simps(9))
qed simp

lemma reload_right:
  assumes "diffs_right env P t mgr dir" and "set names = dom dir" and "distinct names"
  shows "\<exists>mgr'. wf_reload (ae_strToUnixTime env) names (mgr0, dir) = Inr (mgr', dir) \<and> diffs_right env P t mgr' dir
    \<and> diffs mgr' = sized env dir ` diffs mgr"
proof -
  let ?ns = "getFileNameList names ''wdiff''"
  have all: "\<forall>d \<in> diffs mgr. right_diff env t d" "manager_ok mgr" "wdiff_names dir = wname env ` diffs mgr"
    using assms(1) by (simp_all add: diffs_right_def)
  have ns: "set ?ns = wname env ` diffs mgr" "distinct ?ns"
    using all(3) assms(2,3) by (auto simp: getFileNameList_def wdiff_names_def)
  obtain v where v: "load_diffs (ae_strToUnixTime env) dir ?ns = Inr (map (sized env dir) v)" "set v \<subseteq> diffs mgr"
    "map (wname env) v = ?ns" using load_diffs_ok [OF _ all(1), of ?ns] ns(1) by blast
  have "distinct v" using v(3) ns(2) by (metis distinct_map)
  have "wname env ` set v = wname env ` diffs mgr" using v(3) ns(1) by (metis set_map)
  then have sv: "set v = diffs mgr" using inj_on_image_eq_iff [OF wname_inj [OF assms(1)] v(2) order_refl] by blast
  have eq: "diff_eq (sized env dir d) (sized env dir d') = diff_eq d d'" for d d' by (simp add: diff_eq_def)
  have "sorted_wrt (\<lambda>d d'. \<not> diff_eq d' d) (map (sized env dir) v)"
    using \<open>distinct v\<close> manager_diff_eq [OF all(2)] sv
    by (auto simp: sorted_wrt_map eq sorted_wrt_iff_nth_less distinct_conv_nth) (metis nth_mem order_less_trans nat_neq_iff)
  moreover have "\<forall>d \<in> set (map (sized env dir) v). diff_ok d"
    using all(1) sv by (auto simp: right_diff_def clean_diff_def diff_ok_def)
  ultimately obtain mgr' where m: "add_vec (map (sized env dir) v) (manager_clear mgr0) = Inr mgr'" "manager_ok mgr'"
    "diffs mgr' = sized env dir ` diffs mgr"
    using add_vec_ok [OF manager_clear_ok(1), of "map (sized env dir) v" mgr0] sv by (auto simp: manager_clear_ok(2))
  have "card (diffs mgr') \<le> 4096" using card_image_le [of "diffs mgr" "sized env dir"] assms(1) m(3) by (simp add: diffs_right_def)
  then have "diffs_right env P t mgr' dir"
    using assms(1) m(2,3) unfolding diffs_right_def by (auto simp: right_sized image_comp)
  moreover have "wf_reload (ae_strToUnixTime env) names (mgr0, dir) = Inr (mgr', dir)"
    using v(1) m(1) by (simp add: wf_reload_def loadWdiffMetadata_def manager_reset_def)
  ultimately show ?thesis using m(3) by blast
qed

lemma covered_sized: "covered (sized env dir ` D) b e \<longleftrightarrow> covered D b e"
  by (simp add: covered_def)

end
