(* ===== verification/Archive_Run.thy ===== *)
theory Archive_Run
  imports Archive_Diffs
begin

text \<open>
  The state of an archive volume between operations, and that every operation keeps it: the image is as at the gid of the
  base state, or between two gids while a diff is being applied; the diffs lead from there to the last gid that was
  received; every restored snapshot is the image at its gid. Blocks whose last write was a discard are determined only when discards
  make zeros (\<open>exact\<close>). Volumes without a thinpool are considered, of a fixed size.
\<close>

section \<open>Volumes\<close>

definition setting :: "av_env \<Rightarrow> (nat \<Rightarrow> contents) \<Rightarrow> u8 list \<Rightarrow> nat \<Rightarrow> bool" where
  "setting env P base N \<longleftrightarrow> av_env_ok env \<and> history_ok P base N \<and> \<not> isThinpool env
     \<and> (\<forall>n \<in> set (ae_names env). \<not> HasExtension n ''cold'')"

definition cache_ok :: "string \<Rightarrow> nat \<Rightarrow> VolLvCache \<Rightarrow> bool" where
  "cache_ok vol N c \<longleftrightarrow> lc_lv c = Some (lvName vol) \<and> lc_lvSizeLb c = N \<and> lc_coldMap c = [] \<and> lc_tmpColdToBaseLv c = None
     \<and> (\<forall>x \<in> set (lc_restoredMap c). snd x = restoredSnapshotName vol (fst x))"

definition upto_gid :: "MetaState \<Rightarrow> u64" where
  "upto_gid st = (if isApplying st then gidB (st_snapE st) else gidB (st_snapB st))"

definition image_right :: "bool \<Rightarrow> (nat \<Rightarrow> contents) \<Rightarrow> u8 list \<Rightarrow> nat \<Rightarrow> u64 \<Rightarrow> MetaState \<Rightarrow> u8 list \<Rightarrow> bool" where
  "image_right Z P base N t st img \<longleftrightarrow> state_ok st \<and> snap_isClean (st_snapB st) \<and> upto_gid st \<le> t
     \<and> between Z P base N (unat (gidB (st_snapB st))) (unat (upto_gid st)) img"

definition latest_is :: "u64 \<Rightarrow> MetaState \<Rightarrow> bool" where
  "latest_is t st \<longleftrightarrow> \<not> isApplying st \<and> st_snapB st = snap t t"

definition archive_at :: "av_env \<Rightarrow> (nat \<Rightarrow> contents) \<Rightarrow> u8 list \<Rightarrow> nat \<Rightarrow> u64 \<Rightarrow> MetaState \<Rightarrow> archive_vol \<Rightarrow> bool" where
  "archive_at env P base N t st s \<longleftrightarrow>
     diffs_right env P t (av_mgr s) (av_dir s) \<and> covered (diffs (av_mgr s)) (gidB (st_snapB st)) t
     \<and> av_dir s ''base'' = Some (state_save st) \<and> av_dir s ''state'' = Some (str_save ''Archived'')
     \<and> (\<exists>u. length u = UUID_SIZE \<and> av_dir s ''uuid'' = Some u)
     \<and> (\<exists>img. av_lvs s (lvName (ae_volId env)) = Some img \<and> image_right (exact env) P base N t st img)
     \<and> cache_ok (ae_volId env) N (av_lvC s) \<and> latest_is t (av_latestMetaSt s)
     \<and> (\<forall>g img. av_lvs s (restoredSnapshotName (ae_volId env) g) = Some img \<longrightarrow> image_of (exact env) P base N (unat g) img)"

lemma upto_ge: "state_ok st \<Longrightarrow> gidB (st_snapB st) \<le> upto_gid st"
  by (auto simp: state_ok_def state_verify_def upto_gid_def split: if_splits)

lemma names_differ [simp]:
  "restoredSnapshotName vol g \<noteq> lvName vol" "tmpRestoredSnapshotName vol g \<noteq> lvName vol"
  "lvName vol \<noteq> restoredSnapshotName vol g" "lvName vol \<noteq> tmpRestoredSnapshotName vol g"
  by (simp_all add: lvName_def restoredSnapshotName_def tmpRestoredSnapshotName_def RESTORED_VOLUME_PREFIX_def BASE_VOLUME_PREFIX_def)

lemma restored_names_eq [simp]: "restoredSnapshotName vol g = restoredSnapshotName vol h \<longleftrightarrow> g = h"
proof
  assume "restoredSnapshotName vol g = restoredSnapshotName vol h"
  then have "atoi_u64 (itoa_u64 g) = atoi_u64 (itoa_u64 h)" by (simp add: restoredSnapshotName_def)
  then show "g = h" by simp
qed simp

lemma tmp_name_not_restored [simp]: "tmpRestoredSnapshotName vol g \<noteq> restoredSnapshotName vol h"
proof
  assume "tmpRestoredSnapshotName vol g = restoredSnapshotName vol h"
  then have "itoa_u64 g @ TMP_VOLUME_SUFFIX = itoa_u64 h" by (simp add: tmpRestoredSnapshotName_def restoredSnapshotName_def)
  then have "CHR ''_'' \<in> set (itoa_u64 h)" by (metis TMP_VOLUME_SUFFIX_def UnI2 list.set_intros(1) set_append)
  then show False using itoa_digits [of h] by (auto simp: list_all_iff is_digit_def)
qed

lemma plain_names: "\<not> HasExtension ''base'' ''wdiff''" "\<not> HasExtension ''state'' ''wdiff''" "\<not> HasExtension ''uuid'' ''wdiff''"
  by (simp_all add: HasExtension_def)

lemma wname_plain [simp]: "wname env d \<noteq> ''base''" "wname env d \<noteq> ''state''" "wname env d \<noteq> ''uuid''"
  using wname_ext [of env d] plain_names by metis+

lemma load_state: "state_ok st \<Longrightarrow> dir n = Some (state_save st) \<Longrightarrow> loadFile (state_load False) n dir = Inr st"
  using ser_state.load_save [of st "[]"] by (simp add: loadFile_def)

lemma archive_at_state: "archive_at env P base N t st s \<Longrightarrow> getMetaState s = Some (Inr st, s)"
  by (auto simp: archive_at_def getMetaState_def sx_read_def load_state image_right_def)

lemma archive_at_covered: "archive_at env P base N t st s \<Longrightarrow> gidB (st_snapB st) \<le> t"
  using upto_ge [of st] by (auto simp: archive_at_def image_right_def)

text \<open>What may change in the state.\<close>

lemma archive_at_save:
  assumes "archive_at env P base N t st s" and "av_lvs s (lvName (ae_volId env)) = Some img" and "image_right (exact env) P base N t st' img"
    and "covered (diffs (av_mgr s)) (gidB (st_snapB st')) t"
  shows "archive_at env P base N t st' (s\<lparr>av_dir := saveFile ''base'' (state_save st') (av_dir s)\<rparr>)"
proof -
  have "diffs_right env P t (av_mgr s) (saveFile ''base'' (state_save st') (av_dir s))"
    by (rule diffs_right_dir [of _ _ _ _ "av_dir s"]) (use assms(1) plain_names in \<open>auto simp: archive_at_def saveFile_def\<close>)
  then show ?thesis using assms by (auto simp: archive_at_def saveFile_def)
qed

lemma archive_at_image:
  assumes "archive_at env P base N t st s" and "image_right (exact env) P base N t st img"
  shows "archive_at env P base N t st (s\<lparr>av_lvs := (av_lvs s)(lvName (ae_volId env) \<mapsto> img)\<rparr>)"
  using assms by (auto simp: archive_at_def)

lemma archive_at_lv:
  assumes "archive_at env P base N t st s" and "n \<noteq> lvName (ae_volId env)" and "\<forall>g. n \<noteq> restoredSnapshotName (ae_volId env) g"
  shows "archive_at env P base N t st (s\<lparr>av_lvs := (av_lvs s)(n := x)\<rparr>)"
  using assms by (auto simp: archive_at_def)

lemma archive_at_restored:
  assumes "archive_at env P base N t st s" and "image_of (exact env) P base N (unat g) img"
  shows "archive_at env P base N t st (s\<lparr>av_lvs := (av_lvs s)(restoredSnapshotName (ae_volId env) g \<mapsto> img)\<rparr>)"
  using assms by (auto simp: archive_at_def split: if_splits)

lemma archive_at_cache:
  "archive_at env P base N t st s \<Longrightarrow> cache_ok (ae_volId env) N c \<Longrightarrow> archive_at env P base N t st (s\<lparr>av_lvC := c\<rparr>)"
  by (simp add: archive_at_def)

lemma archive_at_wdiffs:
  assumes "archive_at env P base N t st s" and "diffs_right env P t mgr dir" and "covered (diffs mgr) (gidB (st_snapB st)) t"
    and "\<And>n. \<not> HasExtension n ''wdiff'' \<Longrightarrow> dir n = av_dir s n"
  shows "archive_at env P base N t st (s\<lparr>av_mgr := mgr, av_dir := dir\<rparr>)"
  using assms plain_names by (simp add: archive_at_def)

lemma removed_files_plain:
  fixes env :: av_env
  shows "\<not> HasExtension n ''wdiff'' \<Longrightarrow> removeDiffFiles (ae_unixTimeToStr env) v dir n = dir n"
  using wname_ext [of env] by (auto simp: removeDiffFiles_eq)

section \<open>Applying\<close>

lemma apply_list:
  assumes "diffs_right env P t mgr dir" and "st_snapB st = snap b b"
  shows "\<exists>v e. getDiffListToApply mgr st gid k = Inr v \<and> chain b v e \<and> set v \<subseteq> diffs mgr"
proof -
  obtain v e where v: "getApplicableDiffListByGid mgr (snap b b) gid = Inr v" "chain b v e" "set v \<subseteq> diffs mgr"
    using applicable_chain [OF assms(1), of b "\<lambda>_ s. gidB s \<le> gid"] by (auto simp: getApplicableDiffListByGid_def)
  obtain w e' where w: "getMinimumApplicableDiffList mgr st = Inr w" "chain b w e'" "set w \<subseteq> diffs mgr"
  proof (cases "isApplying st")
    case True
    then show ?thesis using that applicable_chain [OF assms(1), of b "\<lambda>_ s. gidB s \<le> gidB (st_snapE st)"] assms(2) by (auto simp: getMinimumApplicableDiffList_def)
  next
    case False
    then show ?thesis using that [of "[]" b] by (simp add: getMinimumApplicableDiffList_def)
  qed
  obtain m where "chain b (take k v) m" using chain_prefix [OF v(2)] by blast
  moreover have "set (take k v) \<subseteq> diffs mgr" using v(3) in_set_takeD by fast
  ultimately show ?thesis using v w assms(2)
    by (cases "v = []") (auto simp: getDiffListToApply_def getTargetDiffListsByGid_def Let_def)
qed

lemma canApply_state_chain:
  assumes "chain b v e" and "\<forall>d \<in> set v. clean_diff d" and "st_snapB st = snap b b"
  shows "canApply_state_vec st v = Inr (\<not> (isApplying st \<and> gidB (st_snapE st) > e))"
proof -
  have "apply_vec (snap b b) v = Inr (snap e e)" using apply_vec_chain [OF assms(2)] assms(1) by blast
  then show ?thesis using canApply_vec_chain [OF assms(2,1)] assms(3) by (simp add: canApply_state_vec_def)
qed

lemma begin_end_chain:
  assumes "chain b v e" and "\<forall>d \<in> set v. clean_diff d" and "st_snapB st = snap b b" and "v \<noteq> []"
  shows "beginApplying_vec st v = (if isApplying st \<and> e < gidB (st_snapE st) then Inl Assert_Failed
      else Inr \<lparr>isApplying = True, st_timestamp = d_timestamp (last v), st_snapB = snap b b, st_snapE = snap e e, isExplicit = False\<rparr>)"
    and "endApplying_vec st v = (if isApplying st \<and> e < gidB (st_snapE st) then Inl Assert_Failed
      else Inr \<lparr>isApplying = False, st_timestamp = d_timestamp (last v), st_snapB = snap e e, st_snapE = snap e e, isExplicit = False\<rparr>)"
proof -
  have a: "apply_vec (snap b b) v = Inr (snap e e)" using apply_vec_chain [OF assms(2)] assms(1) by blast
  have "\<not> e \<le> b" using chain_progress [OF assms(1,4)] by simp
  then show "beginApplying_vec st v = (if isApplying st \<and> e < gidB (st_snapE st) then Inl Assert_Failed
      else Inr \<lparr>isApplying = True, st_timestamp = d_timestamp (last v), st_snapB = snap b b, st_snapE = snap e e, isExplicit = False\<rparr>)"
    using canApply_state_chain [OF assms(1-3)] a assms(3,4)
    by (simp add: beginApplying_vec_def MetaState2_def state_verify_def ensure_def)
  show "endApplying_vec st v = (if isApplying st \<and> e < gidB (st_snapE st) then Inl Assert_Failed
      else Inr \<lparr>isApplying = False, st_timestamp = d_timestamp (last v), st_snapB = snap e e, st_snapE = snap e e, isExplicit = False\<rparr>)"
    using canApply_state_chain [OF assms(1-3)] a assms(3,4)
    by (simp add: endApplying_vec_def MetaState1_def state_verify_def ensure_def)
qed

text \<open>A chain of diffs that is applied to an image.\<close>

lemma opened_applied:
  assumes "setting env P base N" and "diffs_right env P t mgr dir" and "chain b v e" and "set v \<subseteq> diffs mgr" and "v \<noteq> []"
    and "av_lvs s lv = Some img" and "between (exact env) P base N (unat b) (unat e0) img"
  shows "\<exists>fs ok img'. open_all (ae_unixTimeToStr env) v dir = Some fs
    \<and> applyOpenedDiffs env fs lv N s = Some (Inr ok, s\<lparr>av_lvs := (av_lvs s)(lv \<mapsto> img')\<rparr>)
    \<and> (e0 \<le> e \<longrightarrow> between (exact env) P base N (unat b) (unat e) img' \<and> (ok \<longrightarrow> between (exact env) P base N (unat e) (unat e) img'))
    \<and> (ok \<or> (\<exists>x. ae_stop env x))"
proof -
  have h: "av_env_ok env" "history_ok P base N" using assms(1) by (simp_all add: setting_def)
  obtain fs Vs where o: "open_all (ae_unixTimeToStr env) v dir = Some fs" "list_all2 (wdiff_file (ae_enc env)) fs Vs"
    "list_all2 (holds P) v Vs" using opened_files [OF assms(2,4)] by blast
  have len: "length v \<le> 4096" by (rule chain_length [OF assms(3,4)]) (use assms(2) in \<open>simp add: diffs_right_def\<close>)
  have w: "wdiffs_ok (ae_enc env) N fs Vs" by (rule opened_ok [OF o(2,3) h(2) assms(5) len])
  have il: "length img = 512 * N" using assms(7) by (simp add: between_def)
  obtain ok W img' where a: "applyOpenedDiffs env fs lv N s = Some (Inr ok, s\<lparr>av_lvs := (av_lvs s)(lv \<mapsto> img')\<rparr>)"
    "W \<subseteq>\<^sub>m foldl (++) Map.empty Vs" "ok \<longrightarrow> W = foldl (++) Map.empty Vs" "ok \<or> (\<exists>x. ae_stop env x)" "wrote (exact env) img W N img'"
    using applyOpenedDiffs_ok [OF h(1) w assms(6) il] by blast
  obtain c where c: "c \<le> unat b" "foldl (++) Map.empty Vs = delta P c (unat e)"
    using applied_chain_holds [OF assms(3) o(3) assms(5)] by blast
  have n: "unat b \<le> unat e" using chain_le [OF assms(3)] by (simp add: word_le_nat_alt)
  have W: "W \<subseteq>\<^sub>m delta P c (unat e)" using a(2) c(2) by simp
  have "between (exact env) P base N (unat b) (unat e) img' \<and> (ok \<longrightarrow> between (exact env) P base N (unat e) (unat e) img')" if "e0 \<le> e"
  proof -
    have m: "unat e0 \<le> unat e" using that by (simp add: word_le_nat_alt)
    show ?thesis using between_part [OF assms(7) W c(1) m n a(5)] between_all [OF assms(7) c(1) m n] a(3,5) c(2) by (auto simp: between_same)
  qed
  then show ?thesis using o(1) a(1,4) by blast
qed

lemma runs_bind_Inr: "f s = Some (Inr a, s1) \<Longrightarrow> runs (sx_bind f g) s Q \<longleftrightarrow> runs (g a) s1 Q"
  by (simp add: runs_bind) (simp add: runs_def)

lemma runs_bind_Inl: "f s = Some (Inl e, s1) \<Longrightarrow> runs (sx_bind f g) s Q \<longleftrightarrow> Q (Inl e) s1"
  by (simp add: runs_bind) (simp add: runs_def)

lemma tryOpenDiffs_ok:
  assumes "getDiffList (av_mgr s) = Inr v" and "open_all (ae_unixTimeToStr env) v (av_dir s) = Some fs" and "ae \<or> v \<noteq> []"
  shows "tryOpenDiffs env ae getDiffList s = Some (Inr (v, fs), s)"
  using assms by (auto simp: tryOpenDiffs_def sx_read_def)

lemma archive_at_getLv: "archive_at env P base N t st s \<Longrightarrow> ask_lvC lc_getLv s = Some (Inr (lvName (ae_volId env)), s)"
  by (simp add: archive_at_def cache_ok_def ask_lvC_def lc_getLv_def sx_read_def)

lemma archive_at_getSize: "archive_at env P base N t st s \<Longrightarrow> ask_lvC lc_getSizeLb s = Some (Inr N, s)"
  by (simp add: archive_at_def cache_ok_def ask_lvC_def lc_getSizeLb_def lc_getLv_def sx_read_def)

lemma removeBeforeGid_ok:
  assumes "setting env P base N" and "archive_at env P base N t st s"
  shows "runs (removeBeforeGid env (gidB (st_snapB st))) s (\<lambda>r s'. r = Inr () \<and> archive_at env P base N t st s')"
proof -
  let ?g = "gidB (st_snapB st)"
  obtain n mgr v where w: "wf_removeBeforeGid (ae_unixTimeToStr env) ?g (av_mgr s, av_dir s)
      = (n, mgr, removeDiffFiles (ae_unixTimeToStr env) v (av_dir s))"
    "diffs_right env P t mgr (removeDiffFiles (ae_unixTimeToStr env) v (av_dir s))" "covered (diffs mgr) ?g t"
    using removeBeforeGid_right [of env P t "av_mgr s" "av_dir s" ?g ?g] assms(2) by (auto simp: archive_at_def)
  let ?s = "s\<lparr>av_mgr := mgr, av_dir := removeDiffFiles (ae_unixTimeToStr env) v (av_dir s)\<rparr>"
  have a: "archive_at env P base N t st ?s" by (rule archive_at_wdiffs [OF assms(2) w(2,3) removed_files_plain])
  have "on_wdiffs (\<lambda>w. Inr (wf_removeBeforeGid (ae_unixTimeToStr env) ?g w)) s = Some (Inr n, ?s)"
    using w(1) by (simp add: on_wdiffs_def)
  moreover have "removeColdTimestampFilesBeforeGid env ?g = sx_return ()"
    using assms(1) by (simp add: removeColdTimestampFilesBeforeGid_def getFileNameList_def setting_def)
  moreover have "lc_coldMap (av_lvC ?s) = []" using a by (simp add: archive_at_def cache_ok_def)
  ultimately show ?thesis using a by (simp add: removeBeforeGid_def runs_bind_Inr ask_lvC_def) (simp add: runs_simps)
qed

lemma clean_snapB: "image_right (exact env) P base N t st img \<Longrightarrow> st_snapB st = snap (gidB (st_snapB st)) (gidB (st_snapB st))"
  by (simp add: image_right_def snap_isClean_def snap_eq_iff [symmetric])

lemma chain_upto:
  assumes "diffs_right env P t mgr dir" and "chain b v e" and "set v \<subseteq> diffs mgr" and "b \<le> t"
  shows "e \<le> t"
  by (rule chain_le_last [OF assms(2,4)]) (use assms(1,3) in \<open>auto simp: diffs_right_def right_diff_def\<close>)

text \<open>
  One round of applying: the state that says that it is under way, the writes, of which a crash may leave any, and the
  state that says that it is done.
\<close>

lemma applying_states:
  assumes "setting env P base N" and "archive_at env P base N t st s"
    and "chain (gidB (st_snapB st)) v e" and "set v \<subseteq> diffs (av_mgr s)" and "v \<noteq> []"
    and "open_all (ae_unixTimeToStr env) v (av_dir s) = Some fs" and "beginApplying_vec st v = Inr st0"
  defines "lv \<equiv> lvName (ae_volId env)" and "s1 \<equiv> s\<lparr>av_dir := saveFile ''base'' (state_save st0) (av_dir s)\<rparr>"
  shows "\<exists>img ok img2 st1. av_lvs s lv = Some img
    \<and> applyOpenedDiffs env fs lv N s1 = Some (Inr ok, s1\<lparr>av_lvs := (av_lvs s)(lv \<mapsto> img2)\<rparr>) \<and> (ok \<or> (\<exists>x. ae_stop env x))
    \<and> mixed img img2 img2 \<and> (\<forall>i. mixed img img2 i \<longrightarrow> archive_at env P base N t st0 (s1\<lparr>av_lvs := (av_lvs s)(lv \<mapsto> i)\<rparr>))
    \<and> endApplying_vec st0 v = Inr st1 \<and> \<not> isApplying st1 \<and> gidB (st_snapB st1) = e
    \<and> (ok \<longrightarrow> archive_at env P base N t st1 (s1\<lparr>av_lvs := (av_lvs s)(lv \<mapsto> img2), av_dir := saveFile ''base'' (state_save st1) (av_dir s1)\<rparr>))"
proof -
  define b where "b = gidB (st_snapB st)"
  note v = assms(3) [folded b_def] assms(4)
  obtain img where img: "av_lvs s lv = Some img" "image_right (exact env) P base N t st img"
    using assms(2) by (auto simp: archive_at_def lv_def)
  have sb: "st_snapB st = snap b b" using clean_snapB [OF img(2)] by (simp add: b_def)
  have dr: "diffs_right env P t (av_mgr s) (av_dir s)" and cov: "covered (diffs (av_mgr s)) b t"
    using assms(2) by (simp_all add: archive_at_def b_def)
  have bt: "b \<le> t" using archive_at_covered [OF assms(2)] by (simp add: b_def)
  have cl: "\<forall>d \<in> set v. clean_diff d" using v(2) dr by (auto simp: diffs_right_def right_diff_def)
  have be: "b < e" "e \<le> t" using chain_progress [OF v(1) assms(5)] chain_upto [OF dr v bt] by simp_all
  let ?st1 = "\<lparr>isApplying = False, st_timestamp = d_timestamp (last v), st_snapB = snap e e, st_snapE = snap e e, isExplicit = False\<rparr>"
  have ne: "\<not> (isApplying st \<and> e < gidB (st_snapE st))"
    and st0: "st0 = \<lparr>isApplying = True, st_timestamp = d_timestamp (last v), st_snapB = snap b b, st_snapE = snap e e, isExplicit = False\<rparr>"
    using begin_end_chain(1) [OF v(1) cl sb assms(5)] assms(7) by (auto split: if_splits)
  have finish: "endApplying_vec st0 v = Inr ?st1" using begin_end_chain(2) [OF v(1) cl _ assms(5), of st0] by (simp add: st0)
  have up: "upto_gid st \<le> e" using ne be(1) by (auto simp: upto_gid_def b_def not_less)
  have bw: "between (exact env) P base N (unat b) (unat (upto_gid st)) img" using img(2) by (simp add: image_right_def b_def)
  have ok0: "image_right (exact env) P base N t st0 i" if "between (exact env) P base N (unat b) (unat e) i" for i
    using that be by (simp add: st0 image_right_def state_ok_def snap_ok_def state_verify_def snap_isClean_def upto_gid_def)
  have ok1: "image_right (exact env) P base N t ?st1 i" if "between (exact env) P base N (unat e) (unat e) i" for i
    using that be by (simp add: image_right_def state_ok_def snap_ok_def state_verify_def snap_isClean_def upto_gid_def)
  have wide: "between (exact env) P base N (unat b) (unat e) img"
    by (rule between_wider [OF bw]) (use up in \<open>simp_all add: word_le_nat_alt\<close>)
  have a1: "archive_at env P base N t st0 s1"
    unfolding s1_def using archive_at_save [OF assms(2) img(1) [unfolded lv_def] ok0 [OF wide]] cov by (simp add: st0)
  obtain ok img2 where o: "applyOpenedDiffs env fs lv N s1 = Some (Inr ok, s1\<lparr>av_lvs := (av_lvs s)(lv \<mapsto> img2)\<rparr>)"
    "between (exact env) P base N (unat b) (unat e) img2" "ok \<longrightarrow> between (exact env) P base N (unat e) (unat e) img2"
    "ok \<or> (\<exists>x. ae_stop env x)"
    using opened_applied [OF assms(1) dr v assms(5), of s1 lv img "upto_gid st"] img(1) bw up assms(6) by (auto simp: s1_def)
  have lvs: "av_lvs s1 = av_lvs s" by (simp add: s1_def)
  have a2: "archive_at env P base N t st0 (s1\<lparr>av_lvs := (av_lvs s)(lv \<mapsto> i)\<rparr>)" if "mixed img img2 i" for i
    using archive_at_image [OF a1 ok0 [OF between_mixed [OF wide o(2) that]]] by (simp add: lvs lv_def)
  have mx: "mixed img img2 img2" using wide o(2) by (simp add: mixed_def between_def)
  have fin: "archive_at env P base N t ?st1 (s1\<lparr>av_lvs := (av_lvs s)(lv \<mapsto> img2), av_dir := saveFile ''base'' (state_save ?st1) (av_dir s1)\<rparr>)"
    if ok
  proof -
    have "covered (diffs (av_mgr s)) e t" using covered_mono [OF cov] be(1) by simp
    then show ?thesis using archive_at_save [OF a2 [OF mx] _ ok1, of img2] o(3) that by (simp add: lv_def s1_def)
  qed
  show ?thesis
    by (intro exI [of _ img] exI [of _ ok] exI [of _ img2] exI [of _ ?st1] conjI allI impI)
      (use img(1) o(1,4) a2 mx finish fin in simp_all)
qed

lemma apply_once:
  assumes "setting env P base N" and "archive_at env P base N t st s"
  shows "\<exists>v e. getDiffListToApply (av_mgr s) st gid (ae_maxOpenDiffs env) = Inr v \<and> chain (gidB (st_snapB st)) v e
    \<and> set v \<subseteq> diffs (av_mgr s) \<and> runs (applyDiffsToVolumeOnce env st gid) s (\<lambda>r s'. \<exists>st'. archive_at env P base N t st' s'
      \<and> (if v = [] then r = Inr (As_DONE, st) \<and> st' = st \<and> s' = s
         else if isApplying st \<and> e < gidB (st_snapE st) then r = Inl Assert_Failed
         else r = Inr (As_FAILURE, st) \<and> (\<exists>x. ae_stop env x)
           \<or> r = Inr (As_REMAINING, st') \<and> \<not> isApplying st' \<and> gidB (st_snapB st') = e))"
proof -
  define b where "b = gidB (st_snapB st)"
  obtain img where img: "av_lvs s (lvName (ae_volId env)) = Some img" "image_right (exact env) P base N t st img"
    using assms(2) by (auto simp: archive_at_def)
  have sb: "st_snapB st = snap b b" using clean_snapB [OF img(2)] by (simp add: b_def)
  have dr: "diffs_right env P t (av_mgr s) (av_dir s)" and cov: "covered (diffs (av_mgr s)) b t"
    using assms(2) by (simp_all add: archive_at_def b_def)
  have bt: "b \<le> t" using archive_at_covered [OF assms(2)] by (simp add: b_def)
  obtain v e where v: "getDiffListToApply (av_mgr s) st gid (ae_maxOpenDiffs env) = Inr v" "chain b v e" "set v \<subseteq> diffs (av_mgr s)"
    using apply_list [OF dr sb] by blast
  have cl: "\<forall>d \<in> set v. clean_diff d" using v(3) dr by (auto simp: diffs_right_def right_diff_def)
  let ?Q = "\<lambda>r s'. \<exists>st'. archive_at env P base N t st' s'
      \<and> (if v = [] then r = Inr (As_DONE, st) \<and> st' = st \<and> s' = s
         else if isApplying st \<and> e < gidB (st_snapE st) then r = Inl Assert_Failed
         else r = Inr (As_FAILURE, st) \<and> (\<exists>x. ae_stop env x)
           \<or> r = Inr (As_REMAINING, st') \<and> \<not> isApplying st' \<and> gidB (st_snapB st') = e)"
  note unf = applyDiffsToVolumeOnce_def
  have "runs (applyDiffsToVolumeOnce env st gid) s ?Q"
  proof (cases "v = []")
    case True
    then have "tryOpenDiffs env True (\<lambda>mgr. getDiffListToApply mgr st gid (ae_maxOpenDiffs env)) s = Some (Inr ([], []), s)"
      using v(1) by (intro tryOpenDiffs_ok) simp_all
    then show ?thesis using True v(1) assms(2) by (auto simp: unf runs_bind_Inr) (auto simp: runs_simps)
  next
    case False
    obtain fs where fs: "open_all (ae_unixTimeToStr env) v (av_dir s) = Some fs" using opened_files [OF dr v(3)] by blast
    have opn: "tryOpenDiffs env True (\<lambda>mgr. getDiffListToApply mgr st gid (ae_maxOpenDiffs env)) s = Some (Inr (v, fs), s)"
      using v(1) fs by (intro tryOpenDiffs_ok) simp_all
    show ?thesis
    proof (cases "isApplying st \<and> e < gidB (st_snapE st)")
      case True
      then show ?thesis using opn False begin_end_chain(1) [OF v(2) cl sb False] assms(2)
        by (auto simp: unf runs_bind_Inr) (auto simp: runs_simps)
    next
      case ne: False
      obtain st0 where bgn: "beginApplying_vec st v = Inr st0" using begin_end_chain(1) [OF v(2) cl sb False] ne by auto
      let ?lv = "lvName (ae_volId env)"
      let ?s1 = "s\<lparr>av_dir := saveFile ''base'' (state_save st0) (av_dir s)\<rparr>"
      obtain ok img2 st1 where o: "applyOpenedDiffs env fs ?lv N ?s1 = Some (Inr ok, ?s1\<lparr>av_lvs := (av_lvs s)(?lv \<mapsto> img2)\<rparr>)"
        "ok \<or> (\<exists>x. ae_stop env x)" "archive_at env P base N t st0 (?s1\<lparr>av_lvs := (av_lvs s)(?lv \<mapsto> img2)\<rparr>)"
        "endApplying_vec st0 v = Inr st1" "\<not> isApplying st1" "gidB (st_snapB st1) = e"
        "ok \<longrightarrow> archive_at env P base N t st1 (?s1\<lparr>av_lvs := (av_lvs s)(?lv \<mapsto> img2), av_dir := saveFile ''base'' (state_save st1) (av_dir ?s1)\<rparr>)"
        using applying_states [OF assms v(2) [unfolded b_def] v(3) False fs bgn] by blast
      let ?s2 = "?s1\<lparr>av_lvs := (av_lvs s)(?lv \<mapsto> img2)\<rparr>"
      have set1: "setMetaState st' s' = Some (Inr (), s'\<lparr>av_dir := saveFile ''base'' (state_save st') (av_dir s')\<rparr>)" for st' s'
        by (simp add: setMetaState_def av_saveFile_def sx_put_def)
      have lv: "ask_lvC lc_getLv ?s1 = Some (Inr ?lv, ?s1)" "ask_lvC lc_getSizeLb ?s1 = Some (Inr N, ?s1)"
        using archive_at_getLv [OF assms(2)] archive_at_getSize [OF assms(2)] by (simp_all add: ask_lvC_def sx_read_def)
      show ?thesis
      proof (cases ok)
        case True
        let ?s3 = "?s2\<lparr>av_dir := saveFile ''base'' (state_save st1) (av_dir ?s2)\<rparr>"
        have "archive_at env P base N t st1 ?s3" using o(7) True by simp
        from removeBeforeGid_ok [OF assms(1) this] have
          "runs (removeBeforeGid env (gidB (st_snapB st1))) ?s3 (\<lambda>r s'. r = Inr () \<and> archive_at env P base N t st1 s')" .
        then have "runs (sx_bind (removeBeforeGid env (gidB (st_snapB st1))) (\<lambda>_. sx_return (As_REMAINING, st1))) ?s3
            (\<lambda>r s'. r = Inr (As_REMAINING, st1) \<and> archive_at env P base N t st1 s')"
          unfolding runs_bind by (rule runs_mono) (auto simp: runs_simps)
        then have "runs (applyDiffsToVolumeOnce env st gid) s
            (\<lambda>r s'. r = Inr (As_REMAINING, st1) \<and> archive_at env P base N t st1 s')"
          using opn False bgn o(1,4) True lv set1
          by (simp add: unf runs_bind_Inr runs_bind_Inr [OF set1] sx_read_def)
        then show ?thesis by (rule runs_mono) (use ne False o(5,6) in auto)
      next
        case no: False
        then have "runs (applyDiffsToVolumeOnce env st gid) s (\<lambda>r s'. r = Inr (As_FAILURE, st) \<and> s' = ?s2)"
          using opn False bgn o(1) lv
          by (simp add: unf runs_bind_Inr runs_bind_Inr [OF set1] sx_read_def) (simp add: runs_simps)
        then show ?thesis by (rule runs_mono) (use o(2,3) no ne False in auto)
      qed
    qed
  qed
  then show ?thesis using v unfolding b_def by blast
qed

end
