(* ===== verification/Archive_Steps.thy ===== *)
theory Archive_Steps
  imports Archive_Run
begin

text \<open>The operations of an archive volume keep its state: applying, merging, restoring, receiving, starting again.\<close>

section \<open>Applying\<close>

lemma apply_rounds_ok:
  assumes "setting env P base N" and "archive_at env P base N t st s"
  shows "runs (apply_rounds env gid st) s (\<lambda>r s'. \<exists>st'. archive_at env P base N t st' s'
    \<and> (r = Inr True \<longrightarrow> getDiffListToApply (av_mgr s') st' gid (ae_maxOpenDiffs env) = Inr []))"
  using assms(2)
proof (induction "2 ^ 64 - unat (gidB (st_snapB st))" arbitrary: st s rule: less_induct)
  case less
  obtain v e r s1 st1 where a: "getDiffListToApply (av_mgr s) st gid (ae_maxOpenDiffs env) = Inr v"
    "chain (gidB (st_snapB st)) v e" "applyDiffsToVolumeOnce env st gid s = Some (r, s1)" "archive_at env P base N t st1 s1"
    "if v = [] then r = Inr (As_DONE, st) \<and> st1 = st \<and> s1 = s
     else if isApplying st \<and> e < gidB (st_snapE st) then r = Inl Assert_Failed
     else r = Inr (As_FAILURE, st) \<and> (\<exists>x. ae_stop env x)
       \<or> r = Inr (As_REMAINING, st1) \<and> \<not> isApplying st1 \<and> gidB (st_snapB st1) = e"
    using apply_once [OF assms(1) less.prems, of gid] unfolding runs_def by blast
  consider "v = []" "r = Inr (As_DONE, st)" "st1 = st" "s1 = s" | "r = Inl Assert_Failed" | "r = Inr (As_FAILURE, st)"
    | "v \<noteq> []" "r = Inr (As_REMAINING, st1)" "gidB (st_snapB st1) = e"
    using a(5) by (auto split: if_splits)
  then show ?case
  proof cases
    case 4
    have "gidB (st_snapB st) < gidB (st_snapB st1)" using chain_progress [OF a(2) 4(1)] 4(3) by simp
    then have "2 ^ 64 - unat (gidB (st_snapB st1)) < 2 ^ 64 - unat (gidB (st_snapB st))" using u64_measure by simp
    from less.hyps [OF this a(4)] show ?thesis using a(3) 4(2) unfolding runs_def
      by (subst apply_rounds.simps) simp
  qed (use a in \<open>auto simp: runs_def apply_rounds.simps [of env gid st s]\<close>)
qed

lemma recover_none:
  assumes "archive_at env P base N t st s"
  shows "recoverColdToBaseIfNecessary env s = Some (Inr (), s)"
  using assms archive_at_state [OF assms]
  by (auto simp: recoverColdToBaseIfNecessary_def sx_bind_def sx_read_def sx_return_def archive_at_def cache_ok_def existsFile_def)

lemma detail_ok:
  assumes "archive_at env P base N t st s"
  shows "getMetaStateForDetail gid a s = Some (Inr (st, False), s)"
  using assms archive_at_state [OF assms]
  by (simp add: getMetaStateForDetail_def sx_bind_def sx_read_def sx_return_def ask_lvC_def searchColdNoGreaterThanGid_def
      archive_at_def cache_ok_def)

lemma apply_ok:
  assumes "setting env P base N" and "archive_at env P base N t st s"
  shows "runs (applyDiffsToVolume env gid) s (\<lambda>r s'. \<exists>st'. archive_at env P base N t st' s'
    \<and> (r = Inr True \<longrightarrow> getDiffListToApply (av_mgr s') st' gid (ae_maxOpenDiffs env) = Inr []))"
  using apply_rounds_ok [OF assms, of gid] recover_none [OF assms(2)] detail_ok [OF assms(2), of gid True]
  by (simp add: applyDiffsToVolume_def runs_bind_Inr Let_def) (simp add: runs_bind_Inr runs_simps)

section \<open>Applying everything\<close>

lemma chain_same_end: "chain b v e \<Longrightarrow> chain b v e' \<Longrightarrow> e = e'"
  by (induction v arbitrary: b) auto

lemma all_below:
  assumes "diffs_right env P t mgr dir" and "b \<le> t" and "t \<le> gid"
  shows "getApplicableDiffListByGid mgr (snap b b) gid = getApplicableDiffList mgr (snap b b) all_diffs"
  using assms(2)
proof (induction "2 ^ 64 - unat b" arbitrary: b rule: less_induct)
  case less
  have m: "manager_ok mgr" "\<forall>d \<in> diffs mgr. right_diff env t d" using assms(1) by (simp_all add: diffs_right_def)
  consider "getApplicableDiffNolock mgr (snap b b) = Inr None"
    | d where "d \<in> diffs mgr" "getApplicableDiffNolock mgr (snap b b) = Inr (Some d)" "canApply (snap b b) d"
    using applicable_diff [OF m(1), of "snap b b"] by blast
  then show ?case
  proof cases
    case 1
    then show ?thesis unfolding getApplicableDiffListByGid_def by (subst (1 2) getApplicableDiffList.simps) simp
  next
    case (2 d)
    let ?e = "gidB (snapE d)"
    have cl: "clean_diff d" and et: "?e \<le> t" using m(2) 2(1) by (auto simp: right_diff_def)
    have be: "b < ?e" using 2(3) by (simp add: canApply_iff)
    have ap: "apply_diff (snap b b) d = Inr (snap ?e ?e)" by (rule clean_applied [OF cl 2(3)])
    have "2 ^ 64 - unat ?e < 2 ^ 64 - unat b" using u64_measure [OF be] by simp
    from less.hyps [OF this et] have IH: "getApplicableDiffList mgr (snap ?e ?e) (\<lambda>_ s. gidB s \<le> gid)
      = getApplicableDiffList mgr (snap ?e ?e) all_diffs" by (simp add: getApplicableDiffListByGid_def)
    have "?e \<le> gid" using et assms(3) by simp
    then show ?thesis using 2(2) ap IH unfolding getApplicableDiffListByGid_def
      by (subst (1 2) getApplicableDiffList.simps) (simp add: all_diffs_def)
  qed
qed

lemma applicable_length:
  "getApplicableDiffList mgr s pred = Inr w \<Longrightarrow> getApplicableDiffList mgr s all_diffs = Inr v \<Longrightarrow> length w \<le> length v"
proof (induction mgr s pred arbitrary: v w rule: getApplicableDiffList.induct)
  case (1 mgr s pred)
  obtain od where od: "getApplicableDiffNolock mgr s = Inr od"
    using "1.prems"(1) by (subst (asm) getApplicableDiffList.simps) (auto simp: res_bind_Inr_iff)
  show ?case
  proof (cases od)
    case None
    then show ?thesis using "1.prems" od by (subst (asm) (1 2) getApplicableDiffList.simps) simp
  next
    case (Some d)
    obtain s' where s': "apply_diff s d = Inr s'"
      using "1.prems"(1) od Some by (subst (asm) getApplicableDiffList.simps) (auto simp: res_bind_Inr_iff)
    obtain v' where v': "getApplicableDiffList mgr s' all_diffs = Inr v'" "v = d # v'"
      using "1.prems"(2) od Some s' by (subst (asm) getApplicableDiffList.simps) (auto simp: res_bind_Inr_iff all_diffs_def)
    show ?thesis
    proof (cases "pred d s'")
      case True
      obtain w' where w': "getApplicableDiffList mgr s' pred = Inr w'" "w = d # w'"
        using "1.prems"(1) od Some s' True by (subst (asm) getApplicableDiffList.simps) (auto simp: res_bind_Inr_iff)
      show ?thesis using "1.IH" [OF od Some s' _ w'(1) v'(1)] True v'(2) w'(2) by simp
    next
      case False
      then have "w = []" using "1.prems"(1) od Some s' by (subst (asm) getApplicableDiffList.simps) simp
      then show ?thesis by simp
    qed
  qed
qed

text \<open>What \<open>getTargetDiffListsByGid\<close> finds for the last gid: the whole chain, and a first part of it.\<close>

lemma targets_all:
  assumes "diffs_right env P t mgr dir" and "covered (diffs mgr) b t" and "b \<le> t" and "st_snapB st = snap b b" and "t \<le> gid"
  shows "\<exists>w m. chain b w t \<and> set w \<subseteq> diffs mgr \<and> getTargetDiffListsByGid mgr st gid = Inr (w, m)
    \<and> length m \<le> length w \<and> (\<not> isApplying st \<longrightarrow> m = [])"
proof -
  obtain w where w: "getApplicableDiffList mgr (snap b b) all_diffs = Inr w" "chain b w t" "set w \<subseteq> diffs mgr"
    using latest_chain [OF assms(1-3)] by blast
  have g: "getApplicableDiffListByGid mgr (snap b b) gid = Inr w" using all_below [OF assms(1,3,5)] w(1) by simp
  obtain m where m: "getMinimumApplicableDiffList mgr st = Inr m" "length m \<le> length w" "\<not> isApplying st \<longrightarrow> m = []"
  proof (cases "isApplying st")
    case True
    then obtain m where "getMinimumApplicableDiffList mgr st = Inr m"
      using applicable_chain [OF assms(1), of b "\<lambda>_ s. gidB s \<le> gidB (st_snapE st)"] assms(4)
      by (auto simp: getMinimumApplicableDiffList_def)
    moreover from this have "length m \<le> length w"
      using True applicable_length [OF _ w(1)] assms(4) by (simp add: getMinimumApplicableDiffList_def)
    ultimately show ?thesis using that True by blast
  next
    case False
    then show ?thesis using that by (simp add: getMinimumApplicableDiffList_def)
  qed
  show ?thesis
  proof (cases "w = []")
    case True
    then show ?thesis using g w(2) assms(4) by (auto simp: getTargetDiffListsByGid_def)
  next
    case False
    then show ?thesis using g m w(2,3) assms(4) by (auto simp: getTargetDiffListsByGid_def)
  qed
qed

lemma cut_chain:
  assumes "chain b w t" and "b \<noteq> t" and "upto_gid st \<le> t" and "k = (0 :: nat) \<or> \<not> isApplying st"
    and "chain b (if k > 0 \<and> length w > k then take k w else w) e"
  shows "(if k > 0 \<and> length w > k then take k w else w) \<noteq> [] \<and> \<not> (isApplying st \<and> e < gidB (st_snapE st))"
proof -
  have "w \<noteq> []" using assms(1,2) by auto
  then have ne: "(if k > 0 \<and> length w > k then take k w else w) \<noteq> []" by auto
  show ?thesis
  proof (cases "isApplying st")
    case True
    then have "e = t" using assms(4,5) chain_same_end [OF assms(1)] by auto
    then show ?thesis using ne assms(3) True by (auto simp: upto_gid_def)
  qed (use ne in simp)
qed

lemma apply_list_all:
  assumes "diffs_right env P t mgr dir" and "covered (diffs mgr) b t" and "b \<le> t" and "st_snapB st = snap b b" and "t \<le> gid"
    and "upto_gid st \<le> t" and "k = 0 \<or> \<not> isApplying st" and "getDiffListToApply mgr st gid k = Inr v" and "chain b v e"
  shows "if v = [] then b = t else \<not> (isApplying st \<and> e < gidB (st_snapE st))"
proof -
  obtain w m where w: "chain b w t" "getTargetDiffListsByGid mgr st gid = Inr (w, m)" "length m \<le> length w"
    "\<not> isApplying st \<longrightarrow> m = []" using targets_all [OF assms(1-5)] by blast
  let ?v = "if k > 0 \<and> length w > k then take k w else w"
  have v: "v = ?v" using assms(7,8) w(2-4) by (auto simp: getDiffListToApply_def Let_def split: if_splits)
  show ?thesis
  proof (cases "b = t")
    case True
    then have "w = []" using w(1) chain_progress by fastforce
    then show ?thesis using True v by simp
  next
    case False
    then show ?thesis using cut_chain [OF w(1) False assms(6,7), of e] assms(9) unfolding v by simp
  qed
qed

lemma applied_all:
  assumes "image_right (exact env) P base N t st img" and "gidB (st_snapB st) = t"
  shows "\<not> isApplying st \<and> image_of (exact env) P base N (unat t) img"
proof -
  have "\<not> isApplying st" using assms by (auto simp: image_right_def upto_gid_def state_ok_def state_verify_def split: if_splits)
  then show ?thesis using assms by (auto simp: image_right_def upto_gid_def between_same)
qed

lemma apply_rounds_all:
  assumes "setting env P base N" and "archive_at env P base N t st s" and "t \<le> gid" and "\<And>x. \<not> ae_stop env x"
    and "ae_maxOpenDiffs env = 0 \<or> \<not> isApplying st"
  shows "runs (apply_rounds env gid st) s (\<lambda>r s'. r = Inr True \<and> (\<exists>st'. archive_at env P base N t st' s' \<and> gidB (st_snapB st') = t))"
  using assms(2,5)
proof (induction "2 ^ 64 - unat (gidB (st_snapB st))" arbitrary: st s rule: less_induct)
  case less
  let ?b = "gidB (st_snapB st)"
  obtain v e r s1 st1 where a: "getDiffListToApply (av_mgr s) st gid (ae_maxOpenDiffs env) = Inr v"
    "chain ?b v e" "applyDiffsToVolumeOnce env st gid s = Some (r, s1)" "archive_at env P base N t st1 s1"
    "if v = [] then r = Inr (As_DONE, st) \<and> st1 = st \<and> s1 = s
     else if isApplying st \<and> e < gidB (st_snapE st) then r = Inl Assert_Failed
     else r = Inr (As_FAILURE, st) \<and> (\<exists>x. ae_stop env x)
       \<or> r = Inr (As_REMAINING, st1) \<and> \<not> isApplying st1 \<and> gidB (st_snapB st1) = e"
    using apply_once [OF assms(1) less.prems(1), of gid] unfolding runs_def by blast
  obtain img where img: "image_right (exact env) P base N t st img" using less.prems(1) by (auto simp: archive_at_def)
  have "if v = [] then ?b = t else \<not> (isApplying st \<and> e < gidB (st_snapE st))"
    using less.prems(1) clean_snapB [OF img] img assms(3) less.prems(2) a(1,2)
    by (intro apply_list_all [of env P t "av_mgr s" "av_dir s"]) (auto simp: archive_at_def image_right_def archive_at_covered [OF less.prems(1)])
  then consider "v = []" "?b = t" "r = Inr (As_DONE, st)" "st1 = st" "s1 = s"
    | "v \<noteq> []" "r = Inr (As_REMAINING, st1)" "\<not> isApplying st1" "gidB (st_snapB st1) = e"
    using a(5) assms(4) by (auto split: if_splits)
  then show ?case
  proof cases
    case 1
    then show ?thesis using a(3,4) by (auto simp: runs_def apply_rounds.simps [of env gid st s])
  next
    case 2
    have "?b < gidB (st_snapB st1)" using chain_progress [OF a(2) 2(1)] 2(4) by simp
    then have "2 ^ 64 - unat (gidB (st_snapB st1)) < 2 ^ 64 - unat ?b" using u64_measure by simp
    from less.hyps [OF this a(4)] show ?thesis using a(3) 2(2,3) unfolding runs_def
      by (subst apply_rounds.simps) simp
  qed
qed

lemma apply_all_ok:
  assumes "setting env P base N" and "archive_at env P base N t st s" and "t \<le> gid" and "\<And>x. \<not> ae_stop env x"
    and "ae_maxOpenDiffs env = 0 \<or> \<not> isApplying st"
  shows "runs (applyDiffsToVolume env gid) s (\<lambda>r s'. r = Inr True \<and>
    (\<exists>st'. archive_at env P base N t st' s' \<and> gidB (st_snapB st') = t))"
  using apply_rounds_all [OF assms] recover_none [OF assms(2)] detail_ok [OF assms(2), of gid True]
  by (simp add: applyDiffsToVolume_def runs_bind_Inr Let_def) (simp add: runs_bind_Inr runs_simps)

section \<open>Merging\<close>

lemma diffs_right_same:
  "diffs_right env P t mgr dir \<Longrightarrow> manager_ok mgr' \<Longrightarrow> diffs mgr' = diffs mgr \<Longrightarrow> diffs_right env P t mgr' dir"
  by (simp add: diffs_right_def)

lemma right_sized_diff: "right_diff env t (d\<lparr>MetaDiff.dataSize := x\<rparr>) = right_diff env t d"
  "right_file env P (d\<lparr>MetaDiff.dataSize := x\<rparr>) f = right_file env P d f"
  by (simp_all add: right_diff_def clean_diff_def diff_ok_def diff_isClean_def time_ok_def right_file_def holds_def)

lemma covered_replaced:
  assumes "covered D b t" and "M \<in> D'" and "D - set v \<subseteq> D'"
    and "\<And>g. \<exists>d \<in> set v. gidB (snapB d) \<le> g \<and> g < gidB (snapE d) \<Longrightarrow> gidB (snapB M) \<le> g \<and> g < gidB (snapE M)"
  shows "covered D' b t"
  unfolding covered_def
proof (intro allI impI)
  fix g assume "b \<le> g \<and> g < t"
  then obtain d where d: "d \<in> D" "gidB (snapB d) \<le> g" "g < gidB (snapE d)" using assms(1) unfolding covered_def by blast
  show "\<exists>d \<in> D'. gidB (snapB d) \<le> g \<and> g < gidB (snapE d)"
  proof (cases "d \<in> set v")
    case True
    then show ?thesis using assms(2) assms(4) [of g] d by blast
  next
    case False
    then show ?thesis using d assms(3) by blast
  qed
qed

text \<open>The merged diff is there, and a first part of those that it replaces is gone.\<close>

lemma replace_cut:
  assumes "diffs_right env P t mgr dir" and "right_diff env t M" and "right_file env P M f"
    and "\<forall>d \<in> diffs mgr. \<not> diff_eq M d" and "set v \<subseteq> diffs mgr" and "card (diffs mgr) < 4096"
    and "covered (diffs mgr) b t"
    and "\<And>g. \<exists>d \<in> set v. gidB (snapB d) \<le> g \<and> g < gidB (snapE d) \<Longrightarrow> gidB (snapB M) \<le> g \<and> g < gidB (snapE M)"
  shows "\<exists>mgr'. diffs_right env P t mgr' (removeDiffFiles (ae_unixTimeToStr env) (take k v) (dir(wname env M \<mapsto> f)))
    \<and> covered (diffs mgr') b t"
proof -
  obtain mgr1 where a: "diffs mgr1 = insert M (diffs mgr)" "diffs_right env P t mgr1 (dir(wname env M \<mapsto> f))"
    using diffs_right_add [OF assms(1-4,6)] by blast
  have sub: "set v \<subseteq> diffs mgr1" using assms(5) a(1) by blast
  obtain mgr' where m': "diffs_right env P t mgr' (removeDiffFiles (ae_unixTimeToStr env) (take k v) (dir(wname env M \<mapsto> f)))"
    "diffs mgr1 - set v \<subseteq> diffs mgr'" using prefix_removed [OF a(2) sub, of k] by blast
  have "M \<notin> set v" using assms(4,5) diff_eq_refl by blast
  then have "M \<in> diffs mgr'" "diffs mgr - set v \<subseteq> diffs mgr'" using m'(2) a(1) by blast+
  then have "covered (diffs mgr') b t" by (rule covered_replaced [OF assms(7)]) (rule assms(8))
  then show ?thesis using m'(1) by blast
qed

lemma replace_right:
  assumes "diffs_right env P t mgr dir" and "right_diff env t M" and "right_file env P M f"
    and "\<forall>d \<in> diffs mgr. \<not> diff_eq M d" and "set v \<subseteq> diffs mgr" and "v \<noteq> []"
    and "covered (diffs mgr) b t"
    and "\<And>g. \<exists>d \<in> set v. gidB (snapB d) \<le> g \<and> g < gidB (snapE d) \<Longrightarrow> gidB (snapB M) \<le> g \<and> g < gidB (snapE M)"
  shows "\<exists>mgr1 mgr2. addNolock M mgr = Inr mgr1 \<and> erase_vec v False mgr1 = Inr mgr2
    \<and> diffs_right env P t mgr2 (removeDiffFiles (ae_unixTimeToStr env) v (dir(wname env M \<mapsto> f))) \<and> covered (diffs mgr2) b t"
proof -
  have m: "manager_ok mgr" using assms(1) by (simp add: diffs_right_def)
  have M: "diff_ok M" "time_ok env M" using right_diff_ok [OF assms(2)] by simp_all
  obtain mgr1 where a: "addNolock M mgr = Inr mgr1" "manager_ok mgr1" "diffs mgr1 = insert M (diffs mgr)"
    using addNolock_ok [OF m M(1)] assms(4) by auto
  have "set v \<subseteq> diffs mgr1" using assms(5) a(3) by auto
  then obtain mgr2 where e: "erase_vec v False mgr1 = Inr mgr2" "manager_ok mgr2" "diffs mgr2 = insert M (diffs mgr) - set v"
    using erase_members [OF a(2)] unfolding a(3) by blast
  have nv: "M \<notin> set v" using assms(4,5) diff_eq_refl by blast
  obtain mgr3 where r: "manager_ok mgr3" "diffs mgr3 = diffs mgr - set v" using erase_members [OF m assms(5)] by blast
  have dr3: "diffs_right env P t mgr3 (removeDiffFiles (ae_unixTimeToStr env) v dir)"
    by (rule diffs_right_remove [OF assms(1) r assms(5)])
  have "card (diffs mgr3) < card (diffs mgr)"
    by (rule psubset_card_mono) (use r(2) assms(5,6) in \<open>auto simp: neq_Nil_conv\<close>)
  then have "card (diffs mgr3) < 4096" using assms(1) by (simp add: diffs_right_def)
  moreover have "\<forall>d \<in> diffs mgr3. \<not> diff_eq M d" using assms(4) r(2) by simp
  ultimately obtain mgr4 where add: "diffs mgr4 = insert M (diffs mgr3)"
    "diffs_right env P t mgr4 ((removeDiffFiles (ae_unixTimeToStr env) v dir)(wname env M \<mapsto> f))"
    using diffs_right_add [OF dr3 assms(2,3)] by blast
  have "wname env M \<notin> wname env ` set v"
  proof
    assume "wname env M \<in> wname env ` set v"
    then obtain d where d: "d \<in> diffs mgr" "wname env M = wname env d" using assms(5) by blast
    then have "diff_ok d \<and> time_ok env d" using assms(1) right_diff_ok unfolding diffs_right_def by blast
    then show False using wname_diff_eq [OF d(2) M(1) _ M(2)] assms(4) d(1) by blast
  qed
  then have "removeDiffFiles (ae_unixTimeToStr env) v (dir(wname env M \<mapsto> f))
      = (removeDiffFiles (ae_unixTimeToStr env) v dir)(wname env M \<mapsto> f)"
    by (auto simp: removeDiffFiles_eq)
  moreover have "diffs mgr2 = diffs mgr4" using e(3) add(1) r(2) nv by auto
  ultimately have "diffs_right env P t mgr2 (removeDiffFiles (ae_unixTimeToStr env) v (dir(wname env M \<mapsto> f)))"
    using diffs_right_same [OF add(2) e(2)] by simp
  moreover have "M \<in> diffs mgr2" "diffs mgr - set v \<subseteq> diffs mgr2" using nv e(3) by auto
  then have "covered (diffs mgr2) b t" by (rule covered_replaced [OF assms(7)]) (rule assms(8))
  ultimately show ?thesis using a(1) e(1) by blast
qed

lemma merge_choice_sub: "merge_choice mgr v \<Longrightarrow> set v \<subseteq> diffs mgr"
  by (auto simp: merge_choice_def)

lemma merge_ok:
  assumes "setting env P base N" and "archive_at env P base N t st s"
  shows "runs (mergeDiffs env gB isSize param3) s (\<lambda>r s'. archive_at env P base N t st s')"
proof -
  have dr: "diffs_right env P t (av_mgr s) (av_dir s)" and cov: "covered (diffs (av_mgr s)) (gidB (st_snapB st)) t"
    using assms(2) by (simp_all add: archive_at_def)
  have m: "manager_ok (av_mgr s)" using dr by (simp add: diffs_right_def)
  have h: "av_env_ok env" "history_ok P base N" using assms(1) by (simp_all add: setting_def)
  define pick where "pick = (\<lambda>mgr. if isSize then wf_getDiffListToMerge mgr gB (param3 * 0x100000) (- 1)
         else getDiffListToMergeGid mgr gB param3)"
  obtain v where v: "pick (av_mgr s) = Inr v" "merge_choice (av_mgr s) v"
    using merge_lists [OF m] unfolding pick_def by metis
  note sub = merge_choice_sub [OF v(2)]
  obtain fs Vs where fs: "open_all (ae_unixTimeToStr env) v (av_dir s) = Some fs"
    "list_all2 (wdiff_file (ae_enc env)) fs Vs" "list_all2 (holds P) v Vs" using opened_files [OF dr sub] by blast
  have len: "length fs = length v" using fs(2,3) by (simp add: list_all2_lengthD)
  have opn: "tryOpenDiffs env True pick s = Some (Inr (v, fs), s)" using v(1) fs(1) by (intro tryOpenDiffs_ok) simp_all
  have unf: "mergeDiffs env gB isSize param3 = sx_bind getMetaState (\<lambda>st0. sx_bind (tryOpenDiffs env True pick) (\<lambda>(diffV, fileV).
     if length fileV < 2 then sx_read (\<lambda>_. Inl (Exception ''mergeDiffs:There is no mergeable diff.''))
     else
       sx_bind (sx_read (\<lambda>_. merge_vec diffV)) (\<lambda>mergedDiff.
       sx_bind (\<lambda>s. case merged_file env fileV of None \<Rightarrow> None | Some r \<Rightarrow> Some (r, s)) (\<lambda>out.
         case out of
           None \<Rightarrow> sx_return False
         | Some f \<Rightarrow>
             sx_bind (av_saveFile (createDiffFileName (ae_unixTimeToStr env) mergedDiff) f) (\<lambda>_.
             sx_bind (mgr_add (mergedDiff\<lparr>MetaDiff.dataSize := of_nat (length f)\<rparr>)) (\<lambda>_.
             sx_bind (av_removeDiffs env diffV) (\<lambda>_. sx_return True)))))))"
    by (simp add: mergeDiffs_def pick_def)
  show ?thesis
  proof (cases "2 \<le> length v")
    case False
    then show ?thesis using opn archive_at_state [OF assms(2)] len assms(2) by (simp add: unf runs_bind_Inr) (simp add: runs_simps)
  next
    case True
    then have ne: "v \<noteq> []" by auto
    obtain M where M: "merge_vec v = Inr M" "right_diff env t M" "\<forall>d \<in> diffs (av_mgr s). \<not> diff_eq M d"
      "\<forall>g. (\<exists>d \<in> set v. gidB (snapB d) \<le> g \<and> g < gidB (snapE d)) \<longrightarrow> gidB (snapB M) \<le> g \<and> g < gidB (snapE M)"
      "holds P M (foldl (++) Map.empty Vs)" "distinct v"
      using merge_right [OF dr v(2) True] fs(3) by blast
    have "card (set v) \<le> card (diffs (av_mgr s))" by (rule card_mono) (simp_all add: sub)
    then have "length v \<le> 4096" using distinct_card [OF M(6)] dr by (simp add: diffs_right_def)
    then have w: "wdiffs_ok (ae_enc env) N fs Vs" by (rule opened_ok [OF fs(2,3) h(2) ne])
    obtain out where out: "merged_file env fs = Some (Inr out)"
      "\<forall>f. out = Some f \<longrightarrow> wdiff_file (ae_enc env) f (foldl (++) Map.empty Vs)" using merged_file_ok [OF h(1) w] by blast
    show ?thesis
    proof (cases out)
      case None
      then show ?thesis using opn archive_at_state [OF assms(2)] len True M(1) out(1) assms(2)
        by (simp add: unf runs_bind_Inr sx_read_def) (simp add: runs_simps)
    next
      case (Some f)
      let ?M = "M\<lparr>MetaDiff.dataSize := of_nat (length f)\<rparr>"
      have f: "right_file env P ?M f" using out(2) Some M(5) unfolding right_sized_diff by (auto simp: right_file_def)
      have nq: "\<forall>d \<in> diffs (av_mgr s). \<not> diff_eq ?M d" using M(3) by (simp add: diff_eq_def)
      have rM: "right_diff env t ?M" using M(2) by (simp add: right_sized_diff)
      obtain mgr1 mgr2 where r: "addNolock ?M (av_mgr s) = Inr mgr1" "erase_vec v False mgr1 = Inr mgr2"
        "diffs_right env P t mgr2 (removeDiffFiles (ae_unixTimeToStr env) v ((av_dir s)(wname env ?M \<mapsto> f)))"
        "covered (diffs mgr2) (gidB (st_snapB st)) t"
        using replace_right [OF dr rM f nq sub ne cov] M(4) by auto
      let ?s' = "s\<lparr>av_mgr := mgr2, av_dir := removeDiffFiles (ae_unixTimeToStr env) v ((av_dir s)(wname env M \<mapsto> f))\<rparr>"
      have a: "archive_at env P base N t st ?s'"
        by (rule archive_at_wdiffs [OF assms(2) _ r(4)])
          (use r(3) removed_files_plain [of _ env] wname_ext [of env M] in auto)
      have "runs (mergeDiffs env gB isSize param3) s (\<lambda>r s'. s' = ?s')"
        using opn archive_at_state [OF assms(2)] len True M(1) out(1) Some r(1,2)
        by (simp add: unf runs_bind_Inr sx_read_def av_saveFile_def sx_put_def saveFile_def mgr_add_def on_wdiffs_def
            av_removeDiffs_def wf_removeDiffs_def) (simp add: runs_simps)
      then show ?thesis by (rule runs_mono) (use a in simp)
    qed
  qed
qed

end
