(* ===== verification/Archive_Restore.thy ===== *)
theory Archive_Restore
  imports Archive_Steps
begin

text \<open>
  Restoring keeps the state of an archive volume and gives the image at the gid. The temporary volume that it works on is
  removed on every way out.
\<close>

section \<open>Restoring\<close>

lemma restore_list:
  assumes "diffs_right env P t mgr dir" and "st_snapB st = snap b b"
  shows "(\<exists>e. getDiffListToRestore mgr st gid k = Inl e)
    \<or> (\<exists>v e. getDiffListToRestore mgr st gid k = Inr v \<and> chain b v e \<and> set v \<subseteq> diffs mgr)"
proof (cases "getDiffListToRestore mgr st gid k")
  case (Inr w)
  obtain v e where v: "getApplicableDiffListByGid mgr (snap b b) gid = Inr v" "chain b v e" "set v \<subseteq> diffs mgr"
    using applicable_chain [OF assms(1), of b "\<lambda>_ s. gidB s \<le> gid"] by (auto simp: getApplicableDiffListByGid_def)
  have "w = [] \<or> w = take k v \<or> w = v"
    using Inr v(1) assms(2)
    by (auto simp: getDiffListToRestore_def getDiffListToSync_def getTargetDiffListsByGid_def res_bind_Inr_iff split: if_splits)
  moreover have "set (take k v) \<subseteq> diffs mgr" using v(3) in_set_takeD by fast
  moreover obtain m where "chain b (take k v) m" using chain_prefix [OF v(2)] by blast
  moreover have "chain b [] b" by simp
  ultimately show ?thesis using Inr v(2,3) by (metis empty_subsetI list.set(1))
qed simp

abbreviation with_lv :: "string \<Rightarrow> u8 list option \<Rightarrow> archive_vol \<Rightarrow> archive_vol" where
  "with_lv n x s \<equiv> s\<lparr>av_lvs := (av_lvs s)(n := x)\<rparr>"

text \<open>When there is something to apply.\<close>

definition goes_on :: "diff_manager \<Rightarrow> MetaState \<Rightarrow> u64 \<Rightarrow> nat \<Rightarrow> bool" where
  "goes_on mgr st gid k \<longleftrightarrow> (\<exists>v e. getDiffListToRestore mgr st gid k = Inr v \<and> v \<noteq> []
     \<and> chain (gidB (st_snapB st)) v e \<and> \<not> (isApplying st \<and> e < gidB (st_snapE st)))"

lemma goes_on_to_latest:
  assumes "diffs_right env P t mgr dir" and "covered (diffs mgr) b t" and "b < t" and "st_snapB st = snap b b"
    and "upto_gid st \<le> t" and "k = 0 \<or> \<not> isApplying st"
  shows "goes_on mgr st t k"
proof -
  obtain w m where w: "chain b w t" "set w \<subseteq> diffs mgr" "getTargetDiffListsByGid mgr st t = Inr (w, m)" "length m \<le> length w"
    using targets_all [OF assms(1,2) order_less_imp_le [OF assms(3)] assms(4)] by blast
  let ?v = "if k > 0 \<and> length w > k then take k w else w"
  have bt: "b \<noteq> t" using assms(3) by simp
  then have ne: "w \<noteq> []" using w(1) by auto
  have cl: "\<forall>d \<in> set w. clean_diff d" using w(2) assms(1) by (auto simp: diffs_right_def right_diff_def)
  have "\<not> (isApplying st \<and> t < gidB (st_snapE st))" using assms(5) by (auto simp: upto_gid_def)
  then have "apply_state_vec st w = Inr \<lparr>isApplying = False, st_timestamp = d_timestamp (last w), st_snapB = snap t t,
      st_snapE = snap t t, isExplicit = False\<rparr>"
    using begin_end_chain(2) [OF w(1) cl assms(4) ne] by (simp add: apply_state_vec_def)
  then have "getDiffListToRestore mgr st t k = Inr ?v"
    using w(3,4) by (simp add: getDiffListToRestore_def getDiffListToSync_def)
  moreover obtain e where e: "chain b ?v e" using chain_prefix [OF w(1)] w(1) by (cases "k > 0 \<and> length w > k") auto
  ultimately show ?thesis using cut_chain [OF w(1) bt assms(5,6) e] assms(4) unfolding goes_on_def by auto
qed

lemma applyDiffsToRestore_ok:
  assumes "setting env P base N" and "diffs_right env P t (av_mgr s) (av_dir s)"
    and "av_lvs s lv = Some img" and "image_right (exact env) P base N t st img"
  shows "runs (applyDiffsToRestore env lv st gid) s (\<lambda>r s'. \<exists>img'. s' = with_lv lv (Some img') s
    \<and> (\<forall>st'. r = Inr (Some st') \<longrightarrow> image_right (exact env) P base N t st' img' \<and> gidB (st_snapB st) < gidB (st_snapB st') \<and> \<not> isApplying st')
    \<and> ((\<forall>x. \<not> ae_stop env x) \<and> goes_on (av_mgr s) st gid (ae_maxOpenDiffs env) \<longrightarrow> (\<exists>st'. r = Inr (Some st'))))"
proof -
  define b where "b = gidB (st_snapB st)"
  have sb: "st_snapB st = snap b b" using clean_snapB [OF assms(4)] by (simp add: b_def)
  have bw: "between (exact env) P base N (unat b) (unat (upto_gid st)) img" and bt: "b \<le> t"
    using assms(4) upto_ge [of st] by (auto simp: image_right_def b_def)
  have same: "with_lv lv (Some img) s = s" using assms(3) by (simp add: fun_upd_idem)
  let ?get = "\<lambda>mgr. getDiffListToRestore mgr st gid (ae_maxOpenDiffs env)"
  have noth: "runs (applyDiffsToRestore env lv st gid) s (\<lambda>r s'. \<exists>img'. s' = with_lv lv (Some img') s
    \<and> (\<forall>st'. r = Inr (Some st') \<longrightarrow> image_right (exact env) P base N t st' img' \<and> gidB (st_snapB st) < gidB (st_snapB st') \<and> \<not> isApplying st')
    \<and> ((\<forall>x. \<not> ae_stop env x) \<and> goes_on (av_mgr s) st gid (ae_maxOpenDiffs env) \<longrightarrow> (\<exists>st'. r = Inr (Some st'))))"
    if "tryOpenDiffs env False ?get s = Some (Inl e, s)" "\<not> goes_on (av_mgr s) st gid (ae_maxOpenDiffs env)" for e
    using that same by (simp add: applyDiffsToRestore_def runs_bind_Inl) metis
  consider e where "?get (av_mgr s) = Inl e"
    | v e where "?get (av_mgr s) = Inr v" "chain b v e" "set v \<subseteq> diffs (av_mgr s)"
    using restore_list [OF assms(2) sb] by blast
  then show ?thesis
  proof cases
    case (1 e)
    then show ?thesis by (intro noth [of e]) (simp_all add: tryOpenDiffs_def sx_read_def goes_on_def)
  next
    case (2 v e)
    show ?thesis
    proof (cases "v = []")
      case True
      then show ?thesis using 2(1) by (intro noth) (simp_all add: tryOpenDiffs_def sx_read_def goes_on_def)
    next
      case False
      have cl: "\<forall>d \<in> set v. clean_diff d" using 2(3) assms(2) by (auto simp: diffs_right_def right_diff_def)
      have be: "b < e" "e \<le> t" using chain_progress [OF 2(2) False] chain_upto [OF assms(2) 2(2,3) bt] by simp_all
      obtain fs ok img' where o: "open_all (ae_unixTimeToStr env) v (av_dir s) = Some fs"
        "applyOpenedDiffs env fs lv N s = Some (Inr ok, with_lv lv (Some img') s)"
        "upto_gid st \<le> e \<longrightarrow> between (exact env) P base N (unat b) (unat e) img' \<and> (ok \<longrightarrow> between (exact env) P base N (unat e) (unat e) img')"
        "ok \<or> (\<exists>x. ae_stop env x)"
        using opened_applied [OF assms(1,2) 2(2,3) False assms(3) bw] by blast
      have get: "lvm_get lv s = Some (Inr img, s)" "sizeLb img = N"
        using assms(3) bw by (simp_all add: lvm_get_def sx_read_def sizeLb_def between_def)
      have opn: "tryOpenDiffs env False ?get s = Some (Inr (v, fs), s)" using 2(1) o(1) False by (intro tryOpenDiffs_ok) simp_all
      let ?st1 = "\<lparr>isApplying = False, st_timestamp = d_timestamp (last v), st_snapB = snap e e, st_snapE = snap e e, isExplicit = False\<rparr>"
      have ap: "apply_state_vec st v = (if isApplying st \<and> e < gidB (st_snapE st) then Inl Assert_Failed else Inr ?st1)"
        using begin_end_chain(2) [OF 2(2) cl sb False] by (simp add: apply_state_vec_def)
      have "image_right (exact env) P base N t ?st1 img'" if "ok" "\<not> (isApplying st \<and> e < gidB (st_snapE st))"
      proof -
        have "upto_gid st \<le> e" using that(2) be(1) by (auto simp: upto_gid_def b_def not_less)
        then show ?thesis using o(3) that(1) be by (simp add: image_right_def state_ok_def snap_ok_def state_verify_def
          snap_isClean_def upto_gid_def)
      qed
      moreover have "\<not> (isApplying st \<and> e < gidB (st_snapE st))" if "goes_on (av_mgr s) st gid (ae_maxOpenDiffs env)"
      proof -
        obtain v' e' where v': "?get (av_mgr s) = Inr v'" "chain b v' e'" "\<not> (isApplying st \<and> e' < gidB (st_snapE st))"
          using \<open>goes_on (av_mgr s) st gid (ae_maxOpenDiffs env)\<close> unfolding goes_on_def b_def by blast
        then have "e' = e" using 2(1,2) chain_same_end by simp
        then show ?thesis using v'(3) by simp
      qed
      moreover have "applyDiffsToRestore env lv st gid s = Some (if \<not> ok then Inr None
          else if isApplying st \<and> e < gidB (st_snapE st) then Inl Assert_Failed else Inr (Some ?st1), with_lv lv (Some img') s)"
        using opn o(2) ap get by (simp add: applyDiffsToRestore_def sx_bind_def sx_read_def sx_return_def)
      ultimately show ?thesis using be(1) o(4) unfolding b_def
        by (cases ok; cases "isApplying st \<and> e < gidB (st_snapE st)") (auto simp: runs_def)
    qed
  qed
qed

lemma restore_rounds_ok:
  assumes "setting env P base N" and "diffs_right env P t (av_mgr s) (av_dir s)"
    and "av_lvs s lv = Some img" and "image_right (exact env) P base N t st img"
  shows "runs (restore_rounds env lv gid st) s (\<lambda>r s'. \<exists>img'. s' = with_lv lv (Some img') s
    \<and> (\<forall>st'. r = Inr (Some st') \<longrightarrow> image_right (exact env) P base N t st' img' \<and> is_restored gid st'))"
  using assms(2-4)
proof (induction "2 ^ 64 - unat (gidB (st_snapB st))" arbitrary: st s img rule: less_induct)
  case less
  show ?case
  proof (cases "is_restored gid st")
    case True
    have "with_lv lv (Some img) s = s" using less.prems(2) by (simp add: fun_upd_idem)
    then show ?thesis using True less.prems(3) unfolding runs_def by (subst restore_rounds.simps) (auto intro!: exI [of _ img])
  next
    case False
    obtain r img1 where a: "applyDiffsToRestore env lv st gid s = Some (r, with_lv lv (Some img1) s)"
      "\<forall>st'. r = Inr (Some st') \<longrightarrow> image_right (exact env) P base N t st' img1 \<and> gidB (st_snapB st) < gidB (st_snapB st')"
      using applyDiffsToRestore_ok [OF assms(1) less.prems, of gid] unfolding runs_def by blast
    show ?thesis
    proof (cases "\<exists>st1. r = Inr (Some st1)")
      case True
      then obtain st1 where st1: "r = Inr (Some st1)" "image_right (exact env) P base N t st1 img1" "gidB (st_snapB st) < gidB (st_snapB st1)"
        using a(2) by blast
      let ?s = "with_lv lv (Some img1) s"
      have lt: "2 ^ 64 - unat (gidB (st_snapB st1)) < 2 ^ 64 - unat (gidB (st_snapB st))" using u64_measure [OF st1(3)] by simp
      have d: "diffs_right env P t (av_mgr ?s) (av_dir ?s)" "av_lvs ?s lv = Some img1" using less.prems(1) by simp_all
      from less.hyps [OF lt d st1(2)] obtain r2 s2 img2 where "restore_rounds env lv gid st1 ?s = Some (r2, s2)"
        "s2 = with_lv lv (Some img2) ?s" "\<forall>st'. r2 = Inr (Some st') \<longrightarrow> image_right (exact env) P base N t st' img2 \<and> is_restored gid st'"
        unfolding runs_def by blast
      then show ?thesis using False a(1) st1(1) unfolding runs_def by (subst restore_rounds.simps) auto
    next
      case no: False
      then show ?thesis using False a(1) unfolding runs_def
        by (subst restore_rounds.simps) (auto split: sum.splits option.splits)
    qed
  qed
qed

lemma restore_rounds_all:
  assumes "setting env P base N" and "\<And>x. \<not> ae_stop env x" and "diffs_right env P t (av_mgr s) (av_dir s)"
    and "covered (diffs (av_mgr s)) (gidB (st_snapB st)) t" and "av_lvs s lv = Some img" and "image_right (exact env) P base N t st img"
    and "ae_maxOpenDiffs env = 0 \<or> \<not> isApplying st"
  shows "runs (restore_rounds env lv t st) s (\<lambda>r s'. \<exists>st'. r = Inr (Some st'))"
  using assms(3-7)
proof (induction "2 ^ 64 - unat (gidB (st_snapB st))" arbitrary: st s img rule: less_induct)
  case less
  let ?b = "gidB (st_snapB st)"
  show ?case
  proof (cases "is_restored t st")
    case True
    then show ?thesis unfolding runs_def by (subst restore_rounds.simps) simp
  next
    case False
    have up: "upto_gid st \<le> t" "?b \<le> t" using less.prems(4) upto_ge [of st] by (auto simp: image_right_def)
    have "?b \<noteq> t"
      using False applied_all [OF less.prems(4)] less.prems(4) by (auto simp: is_restored_def image_right_def)
    then have "?b < t" using up(2) by simp
    then have g: "goes_on (av_mgr s) st t (ae_maxOpenDiffs env)"
      by (rule goes_on_to_latest [OF less.prems(1,2) _ clean_snapB [OF less.prems(4)] up(1) less.prems(5)])
    obtain st1 img1 where a: "applyDiffsToRestore env lv st t s = Some (Inr (Some st1), with_lv lv (Some img1) s)"
      "image_right (exact env) P base N t st1 img1" "?b < gidB (st_snapB st1)" "\<not> isApplying st1"
      using applyDiffsToRestore_ok [OF assms(1) less.prems(1,3,4), of t] g assms(2) unfolding runs_def by blast
    let ?s = "with_lv lv (Some img1) s"
    have lt: "2 ^ 64 - unat (gidB (st_snapB st1)) < 2 ^ 64 - unat ?b" using u64_measure [OF a(3)] by simp
    have "diffs_right env P t (av_mgr ?s) (av_dir ?s)" "covered (diffs (av_mgr ?s)) (gidB (st_snapB st1)) t" "av_lvs ?s lv = Some img1"
      using less.prems(1,2) a(3) by (auto intro: covered_mono)
    from less.hyps [OF lt this a(2)] show ?thesis using False a(1,4) unfolding runs_def
      by (subst restore_rounds.simps) simp
  qed
qed

lemma runs_both: "runs f s Q \<Longrightarrow> runs f s R \<Longrightarrow> runs f s (\<lambda>r s'. Q r s' \<and> R r s')"
  by (auto simp: runs_def)

lemma removeLv_ok: "removeLv n s = Some (Inr (), with_lv n None s)"
proof (cases "av_lvs s n")
  case None
  then have "(av_lvs s)(n := None) = av_lvs s" by (simp add: fun_upd_idem)
  then show ?thesis using None by (simp add: removeLv_def existsFile_def)
qed (simp add: removeLv_def existsFile_def lvm_remove_def lvm_get_def lvm_put_def sx_bind_def sx_read_def sx_put_def)

lemma runs_with_tmp_lv:
  "runs f s (\<lambda>r s'. Q r (with_lv n None s')) \<Longrightarrow> runs (with_tmp_lv n f) s Q"
  by (auto simp: runs_def with_tmp_lv_def removeLv_ok)

lemma set_gid_emplace: "set (gid_emplace g n m) \<subseteq> insert (g, n) (set m)"
  by (induction g n m rule: gid_emplace.induct) auto

lemma cache_ok_add: "cache_ok vol N c \<Longrightarrow> cache_ok vol N (lc_addSnap False g (restoredSnapshotName vol g) c)"
  using set_gid_emplace [of g "restoredSnapshotName vol g" "lc_restoredMap c"]
  by (fastforce simp: cache_ok_def lc_addSnap_def lc_map_update_def)

lemma with_lv_twice: "with_lv n x (with_lv n y s) = with_lv n x s"
  by simp

lemma lvm_snap_ok:
  "av_lvs s a = Some img \<Longrightarrow> av_lvs s n = None \<Longrightarrow> lvm_snap a n s = Some (Inr n, with_lv n (Some img) s)"
  by (simp add: lvm_snap_def lvm_get_def lvm_new_def lvm_put_def existsFile_def sx_bind_def sx_read_def sx_put_def sx_return_def)

lemma lvm_rename_runs:
  "av_lvs s a = Some img \<Longrightarrow> lvm_rename a n s = (if av_lvs s n \<noteq> None then Some (Inl (Exception ''lvm: already exists''), s)
     else Some (Inr n, with_lv n (Some img) (with_lv a None s)))"
  by (simp add: lvm_rename_def lvm_get_def lvm_new_def lvm_put_def existsFile_def sx_bind_def sx_read_def sx_put_def sx_return_def)

lemma restore_ok:
  assumes "setting env P base N" and "archive_at env P base N t st s"
  shows "runs (restore env gid) s (\<lambda>r s'. archive_at env P base N t st s' \<and> (r = Inr True \<longrightarrow>
    (\<exists>img. av_lvs s' (restoredSnapshotName (ae_volId env) gid) = Some img \<and> image_of (exact env) P base N (unat gid) img))
    \<and> (gid = t \<and> (\<forall>x. \<not> ae_stop env x) \<and> (ae_maxOpenDiffs env = 0 \<or> \<not> isApplying st)
       \<and> av_lvs s (restoredSnapshotName (ae_volId env) gid) = None \<longrightarrow> r = Inr True)
    \<and> av_lvs s' (tmpRestoredSnapshotName (ae_volId env) gid) = None)"
proof -
  define live where "live \<longleftrightarrow> gid = t \<and> (\<forall>x. \<not> ae_stop env x) \<and> (ae_maxOpenDiffs env = 0 \<or> \<not> isApplying st)
    \<and> av_lvs s (restoredSnapshotName (ae_volId env) gid) = None"
  let ?tmp = "tmpRestoredSnapshotName (ae_volId env) gid" let ?to = "restoredSnapshotName (ae_volId env) gid"
  let ?base = "lvName (ae_volId env)"
  have thin: "\<not> isThinpool env" using assms(1) by (simp add: setting_def)
  obtain img where img: "av_lvs s ?base = Some img" "image_right (exact env) P base N t st img" using assms(2) by (auto simp: archive_at_def)
  let ?s1 = "with_lv ?tmp None s" let ?s2 = "with_lv ?tmp (Some img) s"
  have tmp: "archive_at env P base N t st (with_lv ?tmp x s)" for x
    by (rule archive_at_lv [OF assms(2)]) simp_all
  have dr: "diffs_right env P t (av_mgr ?s2) (av_dir ?s2)" using assms(2) by (simp add: archive_at_def)
  have org: "restore_origin env ?base ?tmp g False ?s1 = Some (Inr (), ?s2)" for g
    using thin lvm_snap_ok [of ?s1 ?base img ?tmp] img(1)
    by (simp add: restore_origin_def sx_bind_def sx_read_def sx_return_def)
  define inner where "inner = sx_bind (restore_rounds env ?tmp gid st) (\<lambda>x. case x of
           None \<Rightarrow> sx_return False
         | Some st1 \<Rightarrow>
             sx_bind (if isThinpool env then cold_of_restored env gid ?tmp (st_timestamp st1) else sx_return ()) (\<lambda>_.
             sx_bind (lvm_rename ?tmp ?to) (\<lambda>snapLv.
             sx_bind (on_lvC (lc_addSnap False gid snapLv)) (\<lambda>_.
             sx_bind (if isThinpool env \<and> ae_keepOneColdSnapshot env then removeColdSnapshotsExceptTheLatestOne else sx_return ()) (\<lambda>_.
               sx_return True)))))"
  define fin where "fin = (\<lambda>s'. \<exists>i. image_of (exact env) P base N (unat gid) i
    \<and> s' = (with_lv ?to (Some i) (with_lv ?tmp None s))\<lparr>av_lvC := lc_addSnap False gid ?to (av_lvC s)\<rparr>)"
  have t2: "av_lvs ?s2 ?tmp = Some img" by simp
  have "runs (restore_rounds env ?tmp gid st) ?s2 (\<lambda>r s'. live \<longrightarrow> (\<exists>st'. r = Inr (Some st')))"
  proof (cases live)
    case True
    then have stop: "\<And>x. \<not> ae_stop env x" and k: "ae_maxOpenDiffs env = 0 \<or> \<not> isApplying st" by (simp_all add: live_def)
    have "covered (diffs (av_mgr ?s2)) (gidB (st_snapB st)) t" using assms(2) by (simp add: archive_at_def)
    then have "runs (restore_rounds env ?tmp t st) ?s2 (\<lambda>r s'. \<exists>st'. r = Inr (Some st'))"
      by (rule restore_rounds_all [OF assms(1) stop dr _ t2 img(2) k])
    moreover have "gid = t" using True by (simp add: live_def)
    ultimately show ?thesis by (auto simp: runs_def)
  next
    case False
    then show ?thesis using restore_rounds_ok [OF assms(1) dr t2 img(2), of gid] by (auto simp: runs_def)
  qed
  note rounds = runs_both [OF restore_rounds_ok [OF assms(1) dr t2 img(2), of gid] this]
  have "runs inner ?s2 (\<lambda>r s'. (\<exists>x. s' = with_lv ?tmp x s) \<and> r \<noteq> Inr True \<and> \<not> live
    \<or> r = Inr True \<and> fin s')"
    unfolding inner_def
  proof (rule runs_bindI [OF rounds])
    fix x s' assume "(\<exists>img'. s' = with_lv ?tmp (Some img') ?s2
      \<and> (\<forall>st'. Inr x = Inr (Some st') \<longrightarrow> image_right (exact env) P base N t st' img' \<and> is_restored gid st'))
      \<and> (live \<longrightarrow> (\<exists>st'. Inr x = Inr (Some st')))"
    then obtain img' where s': "s' = with_lv ?tmp (Some img') s"
      "\<And>st'. x = Some st' \<Longrightarrow> image_right (exact env) P base N t st' img' \<and> is_restored gid st'" "x = None \<Longrightarrow> \<not> live" by auto
    show "runs (case x of None \<Rightarrow> sx_return False | Some st1 \<Rightarrow>
        sx_bind (if isThinpool env then cold_of_restored env gid ?tmp (st_timestamp st1) else sx_return ()) (\<lambda>_.
        sx_bind (lvm_rename ?tmp ?to) (\<lambda>snapLv. sx_bind (on_lvC (lc_addSnap False gid snapLv)) (\<lambda>_.
        sx_bind (if isThinpool env \<and> ae_keepOneColdSnapshot env then removeColdSnapshotsExceptTheLatestOne else sx_return ()) (\<lambda>_.
          sx_return True))))) s' (\<lambda>r s'. (\<exists>x. s' = with_lv ?tmp x s) \<and> r \<noteq> Inr True \<and> \<not> live
      \<or> r = Inr True \<and> fin s')"
    proof (cases x)
      case None
      then show ?thesis using s'(1,3) by (auto simp: runs_simps)
    next
      case (Some st1)
      have "image_right (exact env) P base N t st1 img'" "is_restored gid st1" using s'(2) [OF Some] by simp_all
      then have i: "image_of (exact env) P base N (unat gid) img'"
        by (simp add: image_right_def is_restored_def upto_gid_def between_same)
      have t: "av_lvs s' ?tmp = Some img'" using s'(1) by simp
      show ?thesis
      proof (cases "av_lvs s' ?to = None")
        case True
        let ?fin = "with_lv ?to (Some img') (with_lv ?tmp None s)"
        have "lvm_rename ?tmp ?to s' = Some (Inr ?to, with_lv ?to (Some img') (with_lv ?tmp None s'))"
          using lvm_rename_runs [OF t, of ?to] True by simp
        also have "with_lv ?tmp None s' = with_lv ?tmp None s" using s'(1) by simp
        finally have "lvm_rename ?tmp ?to s' = Some (Inr ?to, ?fin)" .
        moreover have "fin (?fin\<lparr>av_lvC := lc_addSnap False gid ?to (av_lvC s)\<rparr>)" unfolding fin_def using i by blast
        ultimately show ?thesis using Some thin by (simp add: runs_def sx_bind_def sx_return_def sx_put_def on_lvC_def)
      next
        case False
        then have "lvm_rename ?tmp ?to s' = Some (Inl (Exception ''lvm: already exists''), s')"
          using lvm_rename_runs [OF t, of ?to] by simp
        moreover have "\<exists>x. s' = with_lv ?tmp x s" "\<not> live" using s'(1) False by (auto simp: live_def tmp_name_not_restored [symmetric])
        ultimately show ?thesis using Some thin by (simp add: runs_def sx_bind_def sx_return_def)
      qed
    qed
  next
    fix e s' assume "(\<exists>img'. s' = with_lv ?tmp (Some img') ?s2
      \<and> (\<forall>st'. Inl e = Inr (Some st') \<longrightarrow> image_right (exact env) P base N t st' img' \<and> is_restored gid st'))
      \<and> (live \<longrightarrow> (\<exists>st'. Inl e = Inr (Some st')))"
    then have "\<exists>x. s' = with_lv ?tmp x s" "\<not> live" by auto
    then show "(\<exists>x. s' = with_lv ?tmp x s) \<and> Inl e \<noteq> Inr True \<and> \<not> live
      \<or> Inl e = Inr True \<and> fin s'" by simp
  qed
  then have "runs (with_tmp_lv ?tmp inner) ?s2 (\<lambda>r s'. archive_at env P base N t st s' \<and> (r = Inr True \<longrightarrow>
    (\<exists>i. av_lvs s' ?to = Some i \<and> image_of (exact env) P base N (unat gid) i)) \<and> (live \<longrightarrow> r = Inr True) \<and> av_lvs s' ?tmp = None)"
  proof (rule runs_with_tmp_lv [OF runs_mono], elim disjE)
    fix r s' assume "(\<exists>x. s' = with_lv ?tmp x s) \<and> r \<noteq> Inr True \<and> \<not> live"
    then show "archive_at env P base N t st (with_lv ?tmp None s') \<and> (r = Inr True \<longrightarrow>
        (\<exists>i. av_lvs (with_lv ?tmp None s') ?to = Some i \<and> image_of (exact env) P base N (unat gid) i)) \<and> (live \<longrightarrow> r = Inr True)
        \<and> av_lvs (with_lv ?tmp None s') ?tmp = None" using tmp [of None] by auto
  next
    fix r s' assume r: "r = Inr True \<and> fin s'"
    have c: "cache_ok (ae_volId env) N (lc_addSnap False gid ?to (av_lvC s))"
      using assms(2) by (intro cache_ok_add) (simp add: archive_at_def)
    obtain i where i: "image_of (exact env) P base N (unat gid) i"
      "s' = (with_lv ?to (Some i) (with_lv ?tmp None s))\<lparr>av_lvC := lc_addSnap False gid ?to (av_lvC s)\<rparr>"
      using r unfolding fin_def by blast
    have "archive_at env P base N t st s'"
      using archive_at_cache [OF archive_at_restored [OF tmp [of None] i(1)] c] i(2) by simp
    then show "archive_at env P base N t st (with_lv ?tmp None s') \<and> (r = Inr True \<longrightarrow>
        (\<exists>i. av_lvs (with_lv ?tmp None s') ?to = Some i \<and> image_of (exact env) P base N (unat gid) i)) \<and> (live \<longrightarrow> r = Inr True)
        \<and> av_lvs (with_lv ?tmp None s') ?tmp = None"
      using archive_at_lv [of env P base N t st s' ?tmp None] r i by simp
  qed
  then show ?thesis
    using archive_at_getLv [OF assms(2)] removeLv_ok [of ?tmp s] detail_ok [OF tmp [of None], of gid False] org
    unfolding live_def by (simp add: restore_def Let_def inner_def runs_bind_Inr)
qed

end
