(* ===== verification/Archive_Crash.thy ===== *)
theory Archive_Crash
  imports Archive_Restore
begin

text \<open>
  The server dies in the middle of an operation. What is left is the directory of the volume and the logical volumes; the
  relation \<open>crashed\<close> says what they can be, from the order of the writes in the code. Files of the directory are written
  whole (\<open>TmpFile::save\<close> renames them, and a rename is taken to last; a temporary file that is left over has no extension that is looked for,
  and is left out) and removed one by one; of the writes to a logical volume that are under way, any blocks
  may have arrived, up to the \<open>fdatasync\<close> at the end of \<open>applyOpenedDiffs\<close>. What earlier operations have written is there.
  A received wdiff is on the disk once its file is renamed, and what follows is in memory only; dying then is \<open>idle\<close>, after the receipt.
  So is dying after the last rename of a restored snapshot, or after a snapshot was deleted.
\<close>

section \<open>What a crash leaves\<close>

inductive crashed :: "av_env \<Rightarrow> archive_vol \<Rightarrow> vol_dir \<Rightarrow> (string \<Rightarrow> u8 list option) \<Rightarrow> bool" for env s where
  idle: "crashed env s (av_dir s) (av_lvs s)"
| applying: "\<lbrakk>getMetaState s = Some (Inr st, s); getDiffListToApply (av_mgr s) st gid (ae_maxOpenDiffs env) = Inr v; v \<noteq> [];
      open_all (ae_unixTimeToStr env) v (av_dir s) = Some fs; beginApplying_vec st v = Inr st0;
      lc_getLv (av_lvC s) = Inr lv; lc_getSizeLb (av_lvC s) = Inr sz;
      applyOpenedDiffs env fs lv sz (s\<lparr>av_dir := saveFile ''base'' (state_save st0) (av_dir s)\<rparr>) = Some (r, s2);
      av_lvs s lv = Some old; av_lvs s2 lv = Some new; mixed old new img\<rbrakk>
    \<Longrightarrow> crashed env s (saveFile ''base'' (state_save st0) (av_dir s)) ((av_lvs s)(lv \<mapsto> img))"
| applied: "\<lbrakk>getMetaState s = Some (Inr st, s); getDiffListToApply (av_mgr s) st gid (ae_maxOpenDiffs env) = Inr v; v \<noteq> [];
      open_all (ae_unixTimeToStr env) v (av_dir s) = Some fs; beginApplying_vec st v = Inr st0;
      lc_getLv (av_lvC s) = Inr lv; lc_getSizeLb (av_lvC s) = Inr sz;
      applyOpenedDiffs env fs lv sz (s\<lparr>av_dir := saveFile ''base'' (state_save st0) (av_dir s)\<rparr>) = Some (Inr True, s2);
      endApplying_vec st0 v = Inr st1; eraseBeforeGid (gidB (st_snapB st1)) (av_mgr s) = (w, mgr)\<rbrakk>
    \<Longrightarrow> crashed env s (removeDiffFiles (ae_unixTimeToStr env) (take k w) (saveFile ''base'' (state_save st1) (av_dir s2))) (av_lvs s2)"
| merging: "\<lbrakk>(if isSize then wf_getDiffListToMerge (av_mgr s) gB (param3 * 0x100000) (- 1)
        else getDiffListToMergeGid (av_mgr s) gB param3) = Inr v;
      open_all (ae_unixTimeToStr env) v (av_dir s) = Some fs; 2 \<le> length fs; merge_vec v = Inr M;
      merged_file env fs = Some (Inr (Some f)); card (diffs (av_mgr s)) < 4096\<rbrakk>
    \<Longrightarrow> crashed env s (removeDiffFiles (ae_unixTimeToStr env) (take k v) (saveFile (wname env M) f (av_dir s))) (av_lvs s)"
| restoring: "crashed env s (av_dir s) ((av_lvs s)(tmpRestoredSnapshotName (ae_volId env) gid \<mapsto> img))"
| collecting: "\<lbrakk>getMetaState s = Some (Inr st, s); gc (st_snapB st) (av_mgr s) = Inr (v, mgr)\<rbrakk>
    \<Longrightarrow> crashed env s (removeDiffFiles (ae_unixTimeToStr env) (take k v) (av_dir s)) (av_lvs s)"

section \<open>It is the disk of a volume again\<close>

definition disk_ok :: "av_env \<Rightarrow> (nat \<Rightarrow> contents) \<Rightarrow> u8 list \<Rightarrow> nat \<Rightarrow> u64 \<Rightarrow> vol_dir \<Rightarrow> (string \<Rightarrow> u8 list option) \<Rightarrow> bool" where
  "disk_ok env P base N t dir lvs \<longleftrightarrow> (\<exists>st s. archive_at env P base N t st s \<and> av_dir s = dir \<and> av_lvs s = lvs)"

lemma disk_okI: "archive_at env P base N t st s \<Longrightarrow> av_dir s = dir \<Longrightarrow> av_lvs s = lvs \<Longrightarrow> disk_ok env P base N t dir lvs"
  unfolding disk_ok_def by blast

lemma cut_files:
  assumes "archive_at env P base N t st s" and "set v \<subseteq> diffs (av_mgr s)" and "covered (diffs (av_mgr s) - set v) (gidB (st_snapB st)) t"
  shows "disk_ok env P base N t (removeDiffFiles (ae_unixTimeToStr env) (take k v) (av_dir s)) (av_lvs s)"
proof -
  have dr: "diffs_right env P t (av_mgr s) (av_dir s)" using assms(1) by (simp add: archive_at_def)
  obtain mgr' where m: "diffs_right env P t mgr' (removeDiffFiles (ae_unixTimeToStr env) (take k v) (av_dir s))"
    "diffs (av_mgr s) - set v \<subseteq> diffs mgr'" using prefix_removed [OF dr assms(2), of k] by blast
  have "covered (diffs mgr') (gidB (st_snapB st)) t" by (rule covered_mono [OF assms(3) order_refl order_refl m(2)])
  from archive_at_wdiffs [OF assms(1) m(1) this removed_files_plain] show ?thesis by (rule disk_okI) simp_all
qed

lemma round_data:
  assumes "archive_at env P base N t st s" and "getMetaState s = Some (Inr st', s)"
    and "getDiffListToApply (av_mgr s) st' gid k = Inr v" and "lc_getLv (av_lvC s) = Inr lv" and "lc_getSizeLb (av_lvC s) = Inr sz"
  shows "st' = st \<and> lv = lvName (ae_volId env) \<and> sz = N \<and> (\<exists>e. chain (gidB (st_snapB st)) v e) \<and> set v \<subseteq> diffs (av_mgr s)"
proof -
  obtain img where "image_right (exact env) P base N t st img" using assms(1) by (auto simp: archive_at_def)
  from clean_snapB [OF this] apply_list [of env P t "av_mgr s" "av_dir s" st "gidB (st_snapB st)" gid k] assms(1)
  obtain v' e where "getDiffListToApply (av_mgr s) st gid k = Inr v'" "chain (gidB (st_snapB st)) v' e" "set v' \<subseteq> diffs (av_mgr s)"
    by (auto simp: archive_at_def)
  moreover have "st' = st" using archive_at_state [OF assms(1)] assms(2) by simp
  moreover have "lv = lvName (ae_volId env)" "sz = N"
    using assms(1,4,5) by (simp_all add: archive_at_def cache_ok_def lc_getLv_def lc_getSizeLb_def)
  ultimately show ?thesis using assms(3) by auto
qed

lemma crashed_applying:
  assumes "setting env P base N" and "archive_at env P base N t st s"
    and "chain (gidB (st_snapB st)) v e" and "set v \<subseteq> diffs (av_mgr s)" and "v \<noteq> []"
    and "open_all (ae_unixTimeToStr env) v (av_dir s) = Some fs" and "beginApplying_vec st v = Inr st0"
    and "applyOpenedDiffs env fs (lvName (ae_volId env)) N (s\<lparr>av_dir := saveFile ''base'' (state_save st0) (av_dir s)\<rparr>) = Some (r, s2)"
  shows "av_lvs s (lvName (ae_volId env)) = Some old \<Longrightarrow> av_lvs s2 (lvName (ae_volId env)) = Some new \<Longrightarrow> mixed old new img
      \<Longrightarrow> disk_ok env P base N t (saveFile ''base'' (state_save st0) (av_dir s)) ((av_lvs s)(lvName (ae_volId env) \<mapsto> img))"
    and "r = Inr True \<Longrightarrow> endApplying_vec st0 v = Inr st1 \<Longrightarrow> eraseBeforeGid (gidB (st_snapB st1)) (av_mgr s) = (w, mgr)
      \<Longrightarrow> disk_ok env P base N t (removeDiffFiles (ae_unixTimeToStr env) (take k w) (saveFile ''base'' (state_save st1) (av_dir s2))) (av_lvs s2)"
proof -
  let ?lv = "lvName (ae_volId env)" let ?s1 = "s\<lparr>av_dir := saveFile ''base'' (state_save st0) (av_dir s)\<rparr>"
  obtain img1 ok img2 st2 where o: "av_lvs s ?lv = Some img1"
    "applyOpenedDiffs env fs ?lv N ?s1 = Some (Inr ok, ?s1\<lparr>av_lvs := (av_lvs s)(?lv \<mapsto> img2)\<rparr>)"
    "\<forall>i. mixed img1 img2 i \<longrightarrow> archive_at env P base N t st0 (?s1\<lparr>av_lvs := (av_lvs s)(?lv \<mapsto> i)\<rparr>)"
    "endApplying_vec st0 v = Inr st2"
    "ok \<longrightarrow> archive_at env P base N t st2 (?s1\<lparr>av_lvs := (av_lvs s)(?lv \<mapsto> img2), av_dir := saveFile ''base'' (state_save st2) (av_dir ?s1)\<rparr>)"
    using applying_states [OF assms(1-7)] by blast
  have s2: "r = Inr ok" "s2 = ?s1\<lparr>av_lvs := (av_lvs s)(?lv \<mapsto> img2)\<rparr>" using o(2) assms(8) by simp_all
  {
    assume "av_lvs s ?lv = Some old" "av_lvs s2 ?lv = Some new" "mixed old new img"
    then have "archive_at env P base N t st0 (?s1\<lparr>av_lvs := (av_lvs s)(?lv \<mapsto> img)\<rparr>)" using o(1,3) s2(2) by simp
    then show "disk_ok env P base N t (saveFile ''base'' (state_save st0) (av_dir s)) ((av_lvs s)(?lv \<mapsto> img))"
      by (rule disk_okI) simp_all
  next
    assume r: "r = Inr True" "endApplying_vec st0 v = Inr st1" "eraseBeforeGid (gidB (st_snapB st1)) (av_mgr s) = (w, mgr)"
    let ?s3 = "s2\<lparr>av_dir := saveFile ''base'' (state_save st1) (av_dir s2)\<rparr>"
    have a: "archive_at env P base N t st1 ?s3" using o(4,5) r(1,2) s2 by simp
    then have dr: "diffs_right env P t (av_mgr s) (av_dir ?s3)" "covered (diffs (av_mgr s)) (gidB (st_snapB st1)) t"
      using s2(2) by (simp_all add: archive_at_def)
    have "set w \<subseteq> diffs (av_mgr s) \<and> covered (diffs (av_mgr s) - set w) (gidB (st_snapB st1)) t"
      using removeBeforeGid_right [OF dr order_refl] r(3) by auto
    then show "disk_ok env P base N t (removeDiffFiles (ae_unixTimeToStr env) (take k w) (saveFile ''base'' (state_save st1) (av_dir s2))) (av_lvs s2)"
      using cut_files [OF a, of w k] s2(2) by simp
  }
qed

lemma crashed_merging:
  assumes "setting env P base N" and "archive_at env P base N t st s"
    and "(if isSize then wf_getDiffListToMerge (av_mgr s) gB (param3 * 0x100000) (- 1)
        else getDiffListToMergeGid (av_mgr s) gB param3) = Inr v"
    and "open_all (ae_unixTimeToStr env) v (av_dir s) = Some fs" and "2 \<le> length fs" and "merge_vec v = Inr M"
    and "merged_file env fs = Some (Inr (Some f))" and "card (diffs (av_mgr s)) < 4096"
  shows "disk_ok env P base N t (removeDiffFiles (ae_unixTimeToStr env) (take k v) (saveFile (wname env M) f (av_dir s))) (av_lvs s)"
proof -
  have dr: "diffs_right env P t (av_mgr s) (av_dir s)" and cov: "covered (diffs (av_mgr s)) (gidB (st_snapB st)) t"
    using assms(2) by (simp_all add: archive_at_def)
  have m: "manager_ok (av_mgr s)" using dr by (simp add: diffs_right_def)
  have v: "merge_choice (av_mgr s) v" using merge_lists [OF m, of gB] assms(3) by (cases isSize) (simp_all, metis sum.inject(2), metis sum.inject(2))
  note sub = merge_choice_sub [OF v]
  obtain Vs where fs: "list_all2 (wdiff_file (ae_enc env)) fs Vs" "list_all2 (holds P) v Vs"
    using opened_files [OF dr sub] assms(4) by auto
  have len: "2 \<le> length v" using fs assms(5) by (simp add: list_all2_lengthD)
  then have ne: "v \<noteq> []" by auto
  have M: "right_diff env t M" "\<forall>d \<in> diffs (av_mgr s). \<not> diff_eq M d"
    "\<forall>g. (\<exists>d \<in> set v. gidB (snapB d) \<le> g \<and> g < gidB (snapE d)) \<longrightarrow> gidB (snapB M) \<le> g \<and> g < gidB (snapE M)"
    "holds P M (foldl (++) Map.empty Vs)" "distinct v"
    using merge_right [OF dr v len] fs(2) assms(6) by auto
  have "card (set v) \<le> card (diffs (av_mgr s))" by (rule card_mono) (simp_all add: sub)
  then have "length v \<le> 4096" using distinct_card [OF M(5)] assms(8) by simp
  then have w: "wdiffs_ok (ae_enc env) N fs Vs"
    by (intro opened_ok [OF fs _ ne]) (use assms(1) in \<open>auto simp: setting_def\<close>)
  have e: "av_env_ok env" using assms(1) by (simp add: setting_def)
  have "wdiff_file (ae_enc env) f (foldl (++) Map.empty Vs)" using merged_file_ok [OF e w] assms(7) by auto
  then have f: "right_file env P M f" using M(4) by (auto simp: right_file_def)
  obtain mgr' where m': "diffs_right env P t mgr' (removeDiffFiles (ae_unixTimeToStr env) (take k v) ((av_dir s)(wname env M \<mapsto> f)))"
    "covered (diffs mgr') (gidB (st_snapB st)) t"
    using replace_cut [OF dr M(1) f M(2) sub assms(8) cov] M(3) by blast
  let ?dir = "removeDiffFiles (ae_unixTimeToStr env) (take k v) ((av_dir s)(wname env M \<mapsto> f))"
  have "archive_at env P base N t st (s\<lparr>av_mgr := mgr', av_dir := ?dir\<rparr>)"
    by (rule archive_at_wdiffs [OF assms(2) m']) (use removed_files_plain [of _ env] wname_ext [of env M] in auto)
  then show ?thesis by (rule disk_okI) (simp_all add: saveFile_def)
qed

lemma crashed_disk:
  assumes "setting env P base N" and "archive_at env P base N t st s" and "crashed env s dir lvs"
  shows "disk_ok env P base N t dir lvs"
  using assms(3)
proof cases
  case idle
  then show ?thesis by (intro disk_okI [OF assms(2)]) simp_all
next
  case (applying st' gid v fs st0 lv sz r s2 old new img)
  obtain e where d: "st' = st" "lv = lvName (ae_volId env)" "sz = N" "chain (gidB (st_snapB st)) v e" "set v \<subseteq> diffs (av_mgr s)"
    using round_data [OF assms(2) applying(3,4,8,9)] by blast
  note a = applying [unfolded d(1-3)]
  show ?thesis unfolding a(1,2) by (rule crashed_applying(1) [OF assms(1,2) d(4,5) a(5-7,10) a(11-13)])
next
  case (applied st' gid v fs st0 lv sz s2 st1 w mgr k)
  obtain e where d: "st' = st" "lv = lvName (ae_volId env)" "sz = N" "chain (gidB (st_snapB st)) v e" "set v \<subseteq> diffs (av_mgr s)"
    using round_data [OF assms(2) applied(3,4,8,9)] by blast
  note a = applied [unfolded d(1-3)]
  show ?thesis unfolding a(1,2) by (rule crashed_applying(2) [OF assms(1,2) d(4,5) a(5-7,10) refl a(11,12)])
next
  case (merging isSize gB param3 v fs M f k)
  then show ?thesis using crashed_merging [OF assms(1,2)] by metis
next
  case (restoring gid img)
  have "archive_at env P base N t st (s\<lparr>av_lvs := (av_lvs s)(tmpRestoredSnapshotName (ae_volId env) gid := Some img)\<rparr>)"
    by (rule archive_at_lv [OF assms(2)]) simp_all
  then show ?thesis by (rule disk_okI) (simp_all add: restoring)
next
  case (collecting st' v mgr k)
  let ?b = "gidB (st_snapB st)"
  obtain img where "image_right (exact env) P base N t st img" using assms(2) by (auto simp: archive_at_def)
  then have sb: "st_snapB st = snap ?b ?b" by (rule clean_snapB)
  moreover have "st' = st" using archive_at_state [OF assms(2)] collecting(3) by simp
  ultimately have "gc (snap ?b ?b) (av_mgr s) = Inr (v, mgr)" using collecting(4) by simp
  then have "set v \<subseteq> diffs (av_mgr s) \<and> covered (diffs (av_mgr s) - set v) ?b t"
    using gc_right [of env P t "av_mgr s" "av_dir s" ?b] assms(2) archive_at_covered [OF assms(2)] by (auto simp: archive_at_def)
  then show ?thesis using cut_files [OF assms(2)] collecting(1,2) by simp
qed

end
