(* ===== verification/Archive_Life.thy ===== *)
theory Archive_Life
  imports Archive_Crash
begin

text \<open>
  Receiving wdiffs, deleting snapshots and starting again, and then any sequence of operations on an archive volume, with
  crashes inside and between them. In every state that can be reached the restored snapshots are the images at their gids, and the latest gid is that of the
  last wdiff that was received; this is the invariant behind the claims of \<open>Archive_Claims\<close>.
\<close>

section \<open>The latest state\<close>

lemma latest_state:
  assumes "archive_at env P base N t st s"
  shows "\<exists>m. av_getLatestState s = Some (Inr m, s) \<and> latest_is t m"
proof -
  define b where "b = gidB (st_snapB st)"
  obtain img where img: "image_right (exact env) P base N t st img" using assms by (auto simp: archive_at_def)
  have sb: "st_snapB st = snap b b" using clean_snapB [OF img] by (simp add: b_def)
  have dr: "diffs_right env P t (av_mgr s) (av_dir s)" "covered (diffs (av_mgr s)) b t" using assms by (simp_all add: archive_at_def b_def)
  have bt: "b \<le> t" using archive_at_covered [OF assms] by (simp add: b_def)
  obtain v where v: "getApplicableDiffList (av_mgr s) (snap b b) all_diffs = Inr v" "chain b v t" "set v \<subseteq> diffs (av_mgr s)"
    using latest_chain [OF dr bt] by blast
  have cl: "\<forall>d \<in> set v. clean_diff d" using v(3) dr(1) by (auto simp: diffs_right_def right_diff_def)
  have up: "upto_gid st \<le> t" "state_ok st" using img by (simp_all add: image_right_def)
  have ne: "\<not> (isApplying st \<and> t < gidB (st_snapE st))" using up(1) by (auto simp: upto_gid_def)
  have "\<exists>m. apply_state_vec st v = Inr m \<and> latest_is t m"
  proof (cases "v = []")
    case True
    then have "b = t" using v(2) by simp
    moreover from this have "\<not> isApplying st" using up
      by (auto simp: upto_gid_def state_ok_def state_verify_def b_def split: if_splits)
    ultimately show ?thesis using True canApply_state_chain [OF v(2) cl sb] ne sb
      by (simp add: apply_state_vec_def endApplying_vec_def ensure_def latest_is_def)
  next
    case False
    then show ?thesis using begin_end_chain(2) [OF v(2) cl sb False] ne by (simp add: apply_state_vec_def latest_is_def)
  qed
  then show ?thesis using archive_at_state [OF assms] v(1) sb
    by (auto simp: av_getLatestState_def sx_bind_def sx_read_def getLatestState_def)
qed

section \<open>Receiving\<close>

text \<open>A wdiff that a sender may transfer: clean, with a time that can be printed, holding what its gids say.\<close>

definition right_transfer :: "av_env \<Rightarrow> (nat \<Rightarrow> contents) \<Rightarrow> MetaDiff \<Rightarrow> u8 list option \<Rightarrow> bool" where
  "right_transfer env P d bytes \<longleftrightarrow> clean_diff d \<and> time_ok env d \<and> (\<forall>f. bytes = Some f \<longrightarrow> right_file env P d f)"

lemma add_received:
  assumes "archive_at env P base N t st s" and "right_transfer env P d (Some f)" and "canApply (snap t t) d"
    and "card (diffs (av_mgr s)) < 4096"
  defines "d1 \<equiv> d\<lparr>MetaDiff.dataSize := of_nat (length f)\<rparr>"
  shows "\<exists>mgr. addNolock d1 (av_mgr s) = Inr mgr \<and> (\<forall>m. latest_is (gidB (snapE d)) m \<longrightarrow>
    archive_at env P base N (gidB (snapE d)) st
      (s\<lparr>av_mgr := mgr, av_dir := saveFile (wname env d) f (av_dir s), av_latestMetaSt := m\<rparr>))"
proof -
  let ?e = "gidB (snapE d)"
  have d: "gidB (snapB d) \<le> t" "t < ?e" using assms(3) by (simp_all add: canApply_iff)
  have dr: "diffs_right env P t (av_mgr s) (av_dir s)" and cov: "covered (diffs (av_mgr s)) (gidB (st_snapB st)) t"
    using assms(1) by (simp_all add: archive_at_def)
  have r: "right_diff env ?e d1" "right_file env P d1 f"
    using assms(2) by (auto simp: right_transfer_def right_diff_def d1_def clean_diff_def diff_ok_def diff_isClean_def
      time_ok_def right_file_def holds_def)
  have nq: "\<forall>d' \<in> diffs (av_mgr s). \<not> diff_eq d1 d'"
  proof
    fix d' assume "d' \<in> diffs (av_mgr s)"
    then have "gidB (snapE d') \<le> t" using dr by (auto simp: diffs_right_def right_diff_def)
    then show "\<not> diff_eq d1 d'" using d(2) by (auto simp: diff_eq_def d1_def)
  qed
  have le: "t \<le> ?e" using d(2) by simp
  obtain mgr where m: "addNolock d1 (av_mgr s) = Inr mgr" "diffs mgr = insert d1 (diffs (av_mgr s))"
    "diffs_right env P ?e mgr ((av_dir s)(wname env d1 \<mapsto> f))"
    using diffs_right_add [OF diffs_right_later [OF dr le] r nq assms(4)] by blast
  have c: "covered (diffs mgr) (gidB (st_snapB st)) ?e"
    unfolding covered_def
  proof (intro allI impI)
    fix g assume g: "gidB (st_snapB st) \<le> g \<and> g < ?e"
    show "\<exists>d \<in> diffs mgr. gidB (snapB d) \<le> g \<and> g < gidB (snapE d)"
    proof (cases "g < t")
      case True
      then show ?thesis using cov g m(2) unfolding covered_def by blast
    next
      case False
      then have "gidB (snapB d1) \<le> g" "g < gidB (snapE d1)" using d(1) g by (auto simp: d1_def not_less)
      then show ?thesis using m(2) by blast
    qed
  qed
  have "image_right (exact env) P base N ?e st img" if "image_right (exact env) P base N t st img" for img
    using that le by (auto simp: image_right_def)
  moreover have "wname env d1 = wname env d" by (simp add: d1_def)
  ultimately show ?thesis using m(1,3) c assms(1) wname_plain [of env d, symmetric] by (auto simp: archive_at_def saveFile_def)
qed

lemma uuid_ok:
  assumes "archive_at env P base N t st s"
  shows "\<exists>u. av_getUuid s = Some (Inr u, s) \<and> av_dir s ''uuid'' = Some u"
  using assms by (auto simp: archive_at_def av_getUuid_def sx_read_def loadFile_def stream_read_def)

text \<open>What is taken: a wdiff that leads on from the latest gid, from a sender that knows the volume.\<close>

definition leads_on :: "u64 \<Rightarrow> MetaDiff \<Rightarrow> u8 list option \<Rightarrow> bool" where
  "leads_on t d bytes \<longleftrightarrow> bytes \<noteq> None \<and> gidB (snapB d) \<le> t \<and> t < gidB (snapE d)"

definition same_uuid :: "u8 list option \<Rightarrow> archive_vol \<Rightarrow> bool" where
  "same_uuid u s \<longleftrightarrow> u = None \<or> av_dir s ''uuid'' = u"

lemma recv_ok:
  assumes "setting env P base N" and "archive_at env P base N t st s" and "right_transfer env P d bytes"
    and "card (diffs (av_mgr s)) < 4096" and "auto \<longrightarrow> sz \<le> N"
  shows "runs (p2aWdiffTransfer env auto u sz d bytes) s (\<lambda>r s'.
    if leads_on t d bytes \<and> same_uuid u s \<and> sz \<le> N then r = Inr Recv_Done \<and> archive_at env P base N (gidB (snapE d)) st s'
      \<and> av_lvs s' = av_lvs s \<and> av_dir s' (wname env d) = bytes
    else (r = Inr Recv_Stopped \<or> (\<exists>why. r = Inr (Recv_Rejected why))) \<and> s' = s)"
proof -
  define Q where "Q = (\<lambda>(r :: recv_answer res) s'. if leads_on t d bytes then r = Inr Recv_Done \<and> archive_at env P base N (gidB (snapE d)) st s'
      \<and> av_lvs s' = av_lvs s \<and> av_dir s' (wname env d) = bytes
    else (r = Inr Recv_Stopped \<or> (\<exists>why. r = Inr (Recv_Rejected why))) \<and> s' = s)"
  note size = archive_at_getSize [OF assms(2)]
  have "ask_lvC (\<lambda>c. Inr (lc_lv c)) s = Some (Inr (Some (lvName (ae_volId env))), s)"
    using assms(2) by (simp add: ask_lvC_def sx_read_def archive_at_def cache_ok_def)
  then have resize: "doAutoResizeIfNecessary env auto sz s = Some (Inr (), s)"
    using assms(5) size by (cases auto) (simp_all add: doAutoResizeIfNecessary_def sx_bind_def sx_return_def)
  have lt: "latest_is t (av_latestMetaSt s)" using assms(2) by (simp add: archive_at_def)
  then have sb: "st_snapB (av_latestMetaSt s) = snap t t" "\<not> isApplying (av_latestMetaSt s)" by (simp_all add: latest_is_def)
  have cl: "clean_diff d" using assms(3) by (simp add: right_transfer_def)
  define rest where "rest = (\<lambda>latestMetaSt. case getRelation (st_snapB latestMetaSt) d of
           TOO_OLD_DIFF \<Rightarrow> sx_return (Recv_Rejected ''too-old-diff'')
         | TOO_NEW_DIFF \<Rightarrow> sx_return (Recv_Rejected ''too-new-diff'')
         | NOT_APPLICABLE_DIFF \<Rightarrow> sx_read (\<lambda>_. Inl (Exception ''bad meta diff relation''))
         | APPLICABLE_DIFF \<Rightarrow>
             (case bytes of
                None \<Rightarrow> sx_return Recv_Stopped
              | Some f \<Rightarrow>
                  let diff1 = d\<lparr>MetaDiff.dataSize := of_nat (length f)\<rparr> in
                  sx_bind (av_saveFile (wname env d) f) (\<lambda>_.
                  sx_bind (mgr_add diff1) (\<lambda>_.
                  sx_bind (sx_read (\<lambda>_. apply_state latestMetaSt diff1)) (\<lambda>st.
                  sx_bind (setLatestMetaState st) (\<lambda>_.
                  sx_bind dbgVerifyLatestMetaState (\<lambda>_. sx_return Recv_Done)))))))"
  have "runs (rest (av_latestMetaSt s)) s Q"
  proof (cases "getRelation (snap t t) d = APPLICABLE_DIFF \<and> bytes \<noteq> None")
    case False
    then have "bytes = None" if "getRelation (snap t t) d = APPLICABLE_DIFF" using that by blast
    moreover have "\<not> leads_on t d bytes" using False canApply_iff [of "snap t t" d] by (auto simp: leads_on_def canApply_def)
    moreover have "getRelation (snap t t) d \<noteq> NOT_APPLICABLE_DIFF" by (simp add: getRelation_def)
    ultimately show ?thesis using sb(1) by (auto simp: Q_def rest_def runs_simps split: Relation.splits)
  next
    case True
    then obtain f where f: "bytes = Some f" by blast
    let ?e = "gidB (snapE d)" let ?d = "d\<lparr>MetaDiff.dataSize := of_nat (length f)\<rparr>"
    have ca: "canApply (snap t t) d" using True by (simp add: canApply_def)
    then have te: "leads_on t d bytes" using f by (simp add: canApply_iff leads_on_def)
    have cd: "clean_diff ?d" "canApply (snap t t) ?d"
      using cl ca by (simp_all add: clean_diff_def diff_ok_def diff_isClean_def canApply_iff)
    let ?m = "\<lparr>isApplying = False, st_timestamp = d_timestamp d, st_snapB = snap ?e ?e, st_snapE = snap ?e ?e, isExplicit = False\<rparr>"
    have ap: "apply_state (av_latestMetaSt s) ?d = Inr ?m"
      using clean_applied [OF cd] cd(2) sb
      by (simp add: apply_state_def endApplying_def canApply_state_def Let_def MetaState1_def state_verify_def ensure_def)
    have lm: "latest_is ?e ?m" by (simp add: latest_is_def)
    obtain mgr where a: "addNolock ?d (av_mgr s) = Inr mgr"
      "archive_at env P base N ?e st (s\<lparr>av_mgr := mgr, av_dir := saveFile (wname env d) f (av_dir s), av_latestMetaSt := ?m\<rparr>)"
      using add_received [OF assms(2) _ ca assms(4), of f] assms(3) f lm by auto
    let ?s = "s\<lparr>av_mgr := mgr, av_dir := saveFile (wname env d) f (av_dir s), av_latestMetaSt := ?m\<rparr>"
    obtain m' where "av_getLatestState ?s = Some (Inr m', ?s)" "latest_is ?e m'" using latest_state [OF a(2)] by blast
    then have "dbgVerifyLatestMetaState ?s = Some (Inr (), ?s)"
      by (simp add: dbgVerifyLatestMetaState_def sx_bind_def sx_read_def state_eq_def latest_is_def)
    then have "runs (rest (av_latestMetaSt s)) s (\<lambda>r s'. r = Inr Recv_Done \<and> s' = ?s)"
      using True f sb(1) a(1) ap
      by (simp add: rest_def Let_def runs_def sx_bind_def sx_read_def sx_return_def sx_put_def on_wdiffs_def av_saveFile_def
          mgr_add_def setLatestMetaState_def)
    then show ?thesis by (rule runs_mono) (use a(2) te f in \<open>auto simp: Q_def saveFile_def\<close>)
  qed
  define body where "body = sx_bind (doAutoResizeIfNecessary env auto sz) (\<lambda>_. sx_bind (ask_lvC lc_getSizeLb) (\<lambda>selfSizeLb.
       if selfSizeLb < sz then sx_return (Recv_Rejected ''smaller-lv-size'')
       else sx_bind (sx_read (\<lambda>s. Inr (av_latestMetaSt s))) rest))"
  have go: "runs body s (\<lambda>r s'. if sz \<le> N then Q r s' else (\<exists>why. r = Inr (Recv_Rejected why)) \<and> s' = s)"
    using \<open>runs (rest (av_latestMetaSt s)) s Q\<close> resize size
    unfolding body_def by (simp add: runs_bind_Inr) (simp add: runs_simps)
  have unf: "p2aWdiffTransfer env auto u sz d bytes = sx_bind (case u of None \<Rightarrow> sx_return True
       | Some uuid \<Rightarrow> sx_bind av_getUuid (\<lambda>own. sx_return (own = uuid))) (\<lambda>sameUuid.
     if \<not> sameUuid then sx_return (Recv_Rejected ''different-uuid'') else body)"
    unfolding p2aWdiffTransfer_def rest_def body_def by (rule refl)
  obtain own where own: "av_getUuid s = Some (Inr own, s)" "av_dir s ''uuid'' = Some own" using uuid_ok [OF assms(2)] by blast
  have "(case u of None \<Rightarrow> sx_return True | Some uuid \<Rightarrow> sx_bind av_getUuid (\<lambda>own. sx_return (own = uuid))) s
    = Some (Inr (same_uuid u s), s)"
    using own by (auto simp: sx_bind_def sx_return_def same_uuid_def split: option.splits)
  then have "runs (p2aWdiffTransfer env auto u sz d bytes) s (\<lambda>r s'. if same_uuid u s then if sz \<le> N then Q r s'
       else (\<exists>why. r = Inr (Recv_Rejected why)) \<and> s' = s else (\<exists>why. r = Inr (Recv_Rejected why)) \<and> s' = s)"
    using go unfolding unf by (cases "same_uuid u s") (simp_all add: runs_bind_Inr, simp_all add: runs_simps)
  then show ?thesis by (rule runs_mono) (simp add: Q_def split: if_splits)
qed

text \<open>The whole handler; a sender that is an archive server need not know the UUID.\<close>

definition takes :: "volume_status \<Rightarrow> wdiff_request \<Rightarrow> u8 list option \<Rightarrow> nat \<Rightarrow> u64 \<Rightarrow> archive_vol \<Rightarrow> bool" where
  "takes vs rq bytes N t s \<longleftrightarrow> wdiff_checks rq vs = Inr None \<and> leads_on t (wr_diff rq) bytes \<and> wr_sizeLb rq \<le> N
     \<and> (wr_hostType rq \<noteq> ''proxy'' \<or> av_dir s ''uuid'' = Some (wr_uuid rq))"

lemma recv_server_ok:
  assumes "setting env P base N" and "archive_at env P base N t st s" and "right_transfer env P (wr_diff rq) bytes"
    and "card (diffs (av_mgr s)) < 4096" and "\<not> auto \<or> wr_sizeLb rq \<le> N"
  shows "runs (p2aWdiffTransferServer env auto vs rq bytes) s (\<lambda>r s'.
    if takes vs rq bytes N t s then r = Inr Recv_Done \<and> archive_at env P base N (gidB (snapE (wr_diff rq))) st s'
      \<and> av_lvs s' = av_lvs s \<and> av_dir s' (wname env (wr_diff rq)) = bytes
    else r \<noteq> Inr Recv_Done \<and> s' = s)"
proof (cases "wdiff_checks rq vs")
  case (Inl e)
  then show ?thesis by (simp add: p2aWdiffTransferServer_def takes_def runs_simps)
next
  case (Inr m)
  show ?thesis
  proof (cases m)
    case (Some why)
    then show ?thesis using Inr by (simp add: p2aWdiffTransferServer_def takes_def runs_simps)
  next
    case None
    let ?u = "if wr_hostType rq = ''proxy'' then Some (wr_uuid rq) else None"
    have z: "auto \<longrightarrow> wr_sizeLb rq \<le> N" using assms(5) by blast
    have u: "same_uuid ?u s \<longleftrightarrow> wr_hostType rq \<noteq> ''proxy'' \<or> av_dir s ''uuid'' = Some (wr_uuid rq)"
      by (simp add: same_uuid_def)
    have "takes vs rq bytes N t s \<longleftrightarrow> leads_on t (wr_diff rq) bytes \<and> same_uuid ?u s \<and> wr_sizeLb rq \<le> N"
      unfolding u takes_def using Inr None by auto
    moreover have "p2aWdiffTransferServer env auto vs rq bytes s = p2aWdiffTransfer env auto ?u (wr_sizeLb rq) (wr_diff rq) bytes s"
      using Inr None by (simp add: p2aWdiffTransferServer_def sx_bind_def sx_read_def)
    ultimately show ?thesis using recv_ok [OF assms(1-4) z, of ?u] unfolding runs_def by (auto split: if_splits)
  qed
qed

section \<open>Deleting a snapshot\<close>

lemma delete_ok:
  assumes "archive_at env P base N t st s"
  shows "runs (delSnapshot gid isCold) s (\<lambda>r s'. archive_at env P base N t st s')"
proof (cases "lc_hasSnap isCold gid (av_lvC s)")
  case False
  then have "ask_lvC (\<lambda>c. if lc_hasSnap isCold gid c then lc_getSnap isCold gid c
      else Inl (Exception ''delSnapshot:volume not found'')) s = Some (Inl (Exception ''delSnapshot:volume not found''), s)"
    by (simp add: ask_lvC_def sx_read_def)
  then show ?thesis using assms by (simp add: delSnapshot_def runs_bind_Inl)
next
  case True
  have c: "cache_ok (ae_volId env) N (av_lvC s)" using assms by (simp add: archive_at_def)
  have nc: "\<not> isCold" using True c by (auto simp: lc_hasSnap_def lc_map_def cache_ok_def)
  obtain n where n: "map_of (lc_restoredMap (av_lvC s)) gid = Some n"
    using True nc by (auto simp: lc_hasSnap_def lc_map_def)
  then have nm: "n = restoredSnapshotName (ae_volId env) gid" using map_of_SomeD [OF n] c by (fastforce simp: cache_ok_def)
  have ask: "ask_lvC (\<lambda>c. if lc_hasSnap isCold gid c then lc_getSnap isCold gid c
      else Inl (Exception ''delSnapshot:volume not found'')) s = Some (Inr n, s)"
    using True nc n by (simp add: ask_lvC_def sx_read_def lc_getSnap_def lc_map_def)
  have "cache_ok (ae_volId env) N (lc_removeSnap isCold gid (av_lvC s))"
    using c nc by (simp add: cache_ok_def lc_removeSnap_def lc_map_update_def)
  moreover have "archive_at env P base N t st (with_lv n None s)" using assms by (auto simp: archive_at_def nm)
  ultimately have "archive_at env P base N t st ((with_lv n None s)\<lparr>av_lvC := lc_removeSnap isCold gid (av_lvC s)\<rparr>)"
    by (intro archive_at_cache)
  moreover have "isCold = False" using nc by simp
  ultimately show ?thesis using ask
    by (simp only: delSnapshot_def runs_def sx_bind_def) (simp add: sx_bind_def sx_return_def removeLv_ok on_lvC_def sx_put_def)
qed

section \<open>Starting again\<close>

lemma str_load_archived: "str_load (str_save ''Archived'') = Inr (''Archived'', [])"
  using ser_u64.load_save [of 8 "map of_char ''Archived''"]
  by (simp add: str_load_def str_save_def stream_read_def) code_simp

lemma state_name: "archive_at env P base N t st s \<Longrightarrow> av_getState s = Some (Inr ''Archived'', s)"
  by (simp add: archive_at_def av_getState_def sx_read_def loadFile_def str_load_archived)

lemma gc_start_ok:
  assumes "archive_at env P base N t st s"
  shows "runs (gcDiffs env) s (\<lambda>r s'. (\<exists>n. r = Inr n) \<and> archive_at env P base N t st s')"
proof -
  let ?b = "gidB (st_snapB st)"
  obtain img where "image_right (exact env) P base N t st img" using assms by (auto simp: archive_at_def)
  then have sb: "st_snapB st = snap ?b ?b" by (rule clean_snapB)
  obtain n mgr v where w: "wf_gc (ae_unixTimeToStr env) (snap ?b ?b) (av_mgr s, av_dir s)
      = Inr (n, mgr, removeDiffFiles (ae_unixTimeToStr env) v (av_dir s))"
    "diffs_right env P t mgr (removeDiffFiles (ae_unixTimeToStr env) v (av_dir s))" "covered (diffs mgr) ?b t"
    using gc_right [of env P t "av_mgr s" "av_dir s" ?b] assms archive_at_covered [OF assms] by (auto simp: archive_at_def)
  let ?s = "s\<lparr>av_mgr := mgr, av_dir := removeDiffFiles (ae_unixTimeToStr env) v (av_dir s)\<rparr>"
  have "archive_at env P base N t st ?s" by (rule archive_at_wdiffs [OF assms w(2,3) removed_files_plain])
  moreover have "on_wdiffs (wf_gc (ae_unixTimeToStr env) (st_snapB st)) s = Some (Inr n, ?s)"
    using w(1) sb by (simp add: on_wdiffs_def)
  ultimately show ?thesis
    using archive_at_state [OF assms] by (simp add: gcDiffs_def runs_bind_Inr) (simp add: runs_def)
qed

text \<open>Only the directory and the volumes outlive the server.\<close>

lemma start_ok:
  assumes "archive_at env P base N t st s" and "set (ae_names env) = dom (av_dir s)" and "distinct (ae_names env)"
    and "cache_ok (ae_volId env) N lvC" and "av_dir s' = av_dir s" and "av_lvs s' = av_lvs s"
  shows "runs (archive_start env lvC) s' (\<lambda>r s''. r = Inr () \<and> archive_at env P base N t st s'')"
proof -
  have dr: "diffs_right env P t (av_mgr s) (av_dir s)" using assms(1) by (simp add: archive_at_def)
  obtain mgr where m: "wf_reload (ae_strToUnixTime env) (ae_names env) (manager_empty, av_dir s) = Inr (mgr, av_dir s)"
    "diffs_right env P t mgr (av_dir s)" "diffs mgr = sized env (av_dir s) ` diffs (av_mgr s)"
    using reload_right [OF dr assms(2,3)] by blast
  have a0: "archive_at env P base N t st (s'\<lparr>av_mgr := mgr, av_lvC := lvC, av_latestMetaSt := x\<rparr>)" if "latest_is t x" for x
    using assms(1,4-6) m(2,3) that by (auto simp: archive_at_def covered_sized)
  let ?x = "av_latestMetaSt s"
  have "latest_is t ?x" using assms(1) by (simp add: archive_at_def)
  then obtain y where y: "av_getLatestState (s'\<lparr>av_mgr := mgr, av_lvC := lvC, av_latestMetaSt := ?x\<rparr>)
      = Some (Inr y, s'\<lparr>av_mgr := mgr, av_lvC := lvC, av_latestMetaSt := ?x\<rparr>)" "latest_is t y"
    using latest_state [OF a0] by blast
  have y': "av_getLatestState (s'\<lparr>av_mgr := mgr\<rparr>) = Some (Inr y, s'\<lparr>av_mgr := mgr\<rparr>)"
    using y(1) by (auto simp: av_getLatestState_def getMetaState_def sx_bind_def sx_read_def split: sum.splits)
  have nm: "av_getState (s'\<lparr>av_mgr := manager_empty\<rparr>) = Some (Inr ''Archived'', s'\<lparr>av_mgr := manager_empty\<rparr>)"
    using state_name [OF assms(1)] assms(5) by (simp add: av_getState_def sx_read_def)
  let ?s = "s'\<lparr>av_mgr := mgr, av_latestMetaSt := y, av_lvC := lvC\<rparr>"
  have a: "archive_at env P base N t st ?s" using a0 [OF y(2)] by (cases s') simp
  have same: "s'\<lparr>av_mgr := mgr, av_dir := av_dir s\<rparr> = s'\<lparr>av_mgr := mgr\<rparr>" using assms(5) [symmetric] by (cases s') simp
  have init: "initInner env (s'\<lparr>av_mgr := manager_empty\<rparr>) = Some (Inr ''Archived'', s'\<lparr>av_mgr := mgr, av_latestMetaSt := y\<rparr>)"
    using nm m(1) y' assms(5)
    by (simp add: same initInner_def sx_bind_def on_wdiffs_def aActiveOrStopped_def sx_put_def sx_return_def)
  obtain own where own: "av_getUuid ?s = Some (Inr own, ?s)" using uuid_ok [OF a] by blast
  have ex: "existsFile (lvName (ae_volId env)) ?s" "lc_coldMap (av_lvC ?s) = []"
    using a by (auto simp: archive_at_def existsFile_def cache_ok_def)
  have ver: "verifyAndRecoverArchiveVol env ''Archived'' ?s = Some (Inr (), ?s)"
    using state_name [OF a] own archive_at_state [OF a] recover_none [OF a] ex
    by (simp add: verifyAndRecoverArchiveVol_def sx_bind_def sx_read_def sx_return_def aActive_def ensure_def ask_lvC_def)
  have "runs (gcArchiveVol env ''Archived'') ?s (\<lambda>r s''. r = Inr () \<and> archive_at env P base N t st s'')"
    by (simp add: gcArchiveVol_def aActive_def runs_bind, rule runs_mono [OF gc_start_ok [OF a]]) (auto simp: runs_simps)
  then show ?thesis using init ver
    by (simp add: archive_start_def runs_def sx_bind_def sx_put_def)
qed

section \<open>Any sequence of operations\<close>

text \<open>
  The configuration stays; whether the server is stopped before an IO and the order in which the directory is listed may
  differ from operation to operation.
\<close>

definition variant :: "av_env \<Rightarrow> av_env \<Rightarrow> bool" where
  "variant env env' \<longleftrightarrow> (\<exists>p ns. env' = env\<lparr>ae_stop := p, ae_names := ns\<rparr> \<and> (\<forall>n \<in> set ns. \<not> HasExtension n ''cold''))"

text \<open>
  One operation, whatever it returns or throws, or one round of applying. After a crash at any point, and after a stop, the
  server starts again from what is on the disk, the directory and the list of logical volumes. A wdiff is accepted while there
  are fewer than 4096 of them, and the volume is not enlarged.
\<close>

inductive archive_step :: "av_env \<Rightarrow> (nat \<Rightarrow> contents) \<Rightarrow> nat \<Rightarrow> archive_vol \<Rightarrow> archive_vol \<Rightarrow> bool" for env P N where
  receive: "\<lbrakk>variant env env'; right_transfer env P (wr_diff rq) bytes; card (diffs (av_mgr s)) < 4096; \<not> auto \<or> wr_sizeLb rq \<le> N;
      p2aWdiffTransferServer env' auto vs rq bytes s = Some (r, s')\<rbrakk> \<Longrightarrow> archive_step env P N s s'"
| applying: "\<lbrakk>variant env env'; applyDiffsToVolume env' gid s = Some (r, s')\<rbrakk> \<Longrightarrow> archive_step env P N s s'"
| apply_round: "\<lbrakk>variant env env'; getMetaState s = Some (Inr st, s); applyDiffsToVolumeOnce env' st gid s = Some (r, s')\<rbrakk>
    \<Longrightarrow> archive_step env P N s s'"
| merge: "\<lbrakk>variant env env'; mergeDiffs env' gB isSize param3 s = Some (r, s')\<rbrakk> \<Longrightarrow> archive_step env P N s s'"
| restore: "\<lbrakk>variant env env'; restore env' gid s = Some (r, s')\<rbrakk> \<Longrightarrow> archive_step env P N s s'"
| delete: "delSnapshot gid isCold s = Some (r, s') \<Longrightarrow> archive_step env P N s s'"
| restart: "\<lbrakk>variant env env'; crashed env' s dir lvs; variant env env''; set (ae_names env'') = dom dir; distinct (ae_names env'');
      cache_ok (ae_volId env) N lvC; av_dir s0 = dir; av_lvs s0 = lvs; archive_start env'' lvC s0 = Some (r, s')\<rbrakk>
    \<Longrightarrow> archive_step env P N s s'"

definition archive_ok :: "av_env \<Rightarrow> (nat \<Rightarrow> contents) \<Rightarrow> u8 list \<Rightarrow> nat \<Rightarrow> archive_vol \<Rightarrow> bool" where
  "archive_ok env P base N s \<longleftrightarrow> (\<exists>t st. archive_at env P base N t st s)"

definition archive_run :: "av_env \<Rightarrow> (nat \<Rightarrow> contents) \<Rightarrow> nat \<Rightarrow> archive_vol \<Rightarrow> archive_vol \<Rightarrow> bool" where
  "archive_run env P N = (archive_step env P N)\<^sup>*\<^sup>*"

lemma variant_exact: "variant env env' \<Longrightarrow> exact env' = exact env"
  by (auto simp: variant_def exact_def)

lemma variant_at: "variant env env' \<Longrightarrow> archive_at env' P base N t st s = archive_at env P base N t st s"
  using variant_exact [of env env'] by (auto simp: variant_def archive_at_def diffs_right_def right_diff_def time_ok_def right_file_def)

lemma variant_setting: "variant env env' \<Longrightarrow> setting env P base N \<Longrightarrow> setting env' P base N"
  by (auto simp: variant_def setting_def av_env_ok_def isThinpool_def)

lemma variant_more:
  assumes "variant env env'"
  shows "right_transfer env' P d bytes = right_transfer env P d bytes" and "ae_volId env' = ae_volId env"
    and "ae_maxOpenDiffs env' = ae_maxOpenDiffs env"
  using assms by (auto simp: variant_def right_transfer_def time_ok_def right_file_def)

lemma runsD: "runs f s Q \<Longrightarrow> f s = Some (r, s') \<Longrightarrow> Q r s'"
  by (auto simp: runs_def)

lemma variant_disk: "variant env env' \<Longrightarrow> disk_ok env' P base N t dir lvs = disk_ok env P base N t dir lvs"
  by (simp add: disk_ok_def variant_at)

lemma step_at:
  assumes "archive_step env P N s s'" and "setting env P base N" and "archive_at env P base N t st s"
  shows "\<exists>t' st'. t \<le> t' \<and> archive_at env P base N t' st' s'"
  using assms(1)
proof cases
  case (receive env' rq bytes auto vs r)
  note v = variant_at [OF receive(1), of P base N] variant_more [OF receive(1)]
  have "right_transfer env' P (wr_diff rq) bytes" "archive_at env' P base N t st s" using receive(2) assms(3) v by simp_all
  from runsD [OF recv_server_ok [OF variant_setting [OF receive(1) assms(2)] this(2,1) receive(3,4)] receive(5)]
  show ?thesis using assms(3) v(1) by (auto simp: takes_def leads_on_def intro: order_less_imp_le split: if_splits)
next
  case (applying env' gid r)
  note v = variant_at [OF applying(1), of P base N]
  have "archive_at env' P base N t st s" using assms(3) v by simp
  from runsD [OF apply_ok [OF variant_setting [OF applying(1) assms(2)] this] applying(2)]
  show ?thesis using v by auto
next
  case (apply_round env' st' gid r)
  note v = variant_at [OF apply_round(1), of P base N]
  have a: "archive_at env' P base N t st s" "st' = st" using assms(3) v archive_at_state [OF assms(3)] apply_round(2) by simp_all
  from apply_once [OF variant_setting [OF apply_round(1) assms(2)] a(1), of gid]
  show ?thesis using v apply_round(3) a(2) unfolding runs_def by (metis option.inject order_refl prod.inject)
next
  case (merge env' gB isSize param3 r)
  note v = variant_at [OF merge(1), of P base N]
  have "archive_at env' P base N t st s" using assms(3) v by simp
  from runsD [OF merge_ok [OF variant_setting [OF merge(1) assms(2)] this] merge(2)]
  show ?thesis using v by auto
next
  case (restore env' gid r)
  note v = variant_at [OF restore(1), of P base N]
  have "archive_at env' P base N t st s" using assms(3) v by simp
  from runsD [OF restore_ok [OF variant_setting [OF restore(1) assms(2)] this] restore(2)]
  show ?thesis using v by auto
next
  case (delete gid isCold r)
  from runsD [OF delete_ok [OF assms(3)] delete] show ?thesis by blast
next
  case (restart env' dir lvs env'' lvC s0 r)
  have "archive_at env' P base N t st s" using assms(3) variant_at [OF restart(1)] by simp
  from crashed_disk [OF variant_setting [OF restart(1) assms(2)] this restart(2)]
  have "disk_ok env'' P base N t dir lvs" using variant_disk [OF restart(1)] variant_disk [OF restart(3)] by simp
  then obtain st1 s1 where s1: "archive_at env'' P base N t st1 s1" "av_dir s1 = dir" "av_lvs s1 = lvs"
    unfolding disk_ok_def by blast
  have names: "set (ae_names env'') = dom (av_dir s1)" "cache_ok (ae_volId env'') N lvC" "av_dir s0 = av_dir s1" "av_lvs s0 = av_lvs s1"
    using s1(2,3) restart(4,6-8) variant_more(2) [OF restart(3)] by simp_all
  from runsD [OF start_ok [OF s1(1) names(1) restart(5) names(2-4)] restart(9)]
  show ?thesis using variant_at [OF restart(3), of P base N] by auto
qed

lemma run_at:
  assumes "archive_run env P N s s'" and "setting env P base N" and "archive_at env P base N t st s"
  shows "\<exists>t' st'. t \<le> t' \<and> archive_at env P base N t' st' s'"
  using assms(1) unfolding archive_run_def
proof (induction rule: rtranclp_induct)
  case base
  then show ?case using assms(3) by blast
next
  case (step s1 s2)
  then show ?case using step_at [OF step.hyps(2) assms(2)] by (meson order_trans)
qed

lemma archive_run_at:
  assumes "archive_run env P N s0 s" and "setting env P base N" and "archive_ok env P base N s0"
  obtains t st where "archive_at env P base N t st s"
  using assms run_at unfolding archive_ok_def by blast

end
