(* ===== verification/Archive_Claims.thy ===== *)
theory Archive_Claims
  imports Archive_Life
begin

text \<open>
  What holds of an archive volume in every state that a sequence of operations reaches, and that its operations complete;
  a small volume, on which every claim is applied.
\<close>

section \<open>What an image holds\<close>

text \<open>
  The image of the device at a gid, for a server whose discards make zeros. Otherwise, as in the default configuration, the
  blocks whose last write is a discard are not determined; all others are.
\<close>

definition is_image :: "av_env \<Rightarrow> (nat \<Rightarrow> contents) \<Rightarrow> u8 list \<Rightarrow> nat \<Rightarrow> nat \<Rightarrow> u8 list \<Rightarrow> bool" where
  "is_image env P base N g img \<longleftrightarrow>
     (if exact env then img = image_at P base N g
      else length img = 512 * N \<and> (\<forall>i < N. delta P 0 g i = Some Discard_Block \<or> sector img i = sector_at P base g i))"

lemma is_image_of: "image_of (exact env) P base N g img \<Longrightarrow> is_image env P base N g img"
  using image_of_zeros by (auto simp: is_image_def image_of_def fits_block_def)

section \<open>A volume with one wdiff\<close>

definition sample_env :: "DiscardType \<Rightarrow> av_env" where
  "sample_env t = \<lparr>ae_volId = ''vol'', ae_thinpool = [], ae_maxOpenDiffs = 0, ae_discardType = t,
     ae_keepOneColdSnapshot = False, ae_unixTimeToStr = (\<lambda>_. ''20150101000000''), ae_strToUnixTime = (\<lambda>_. Inr 7),
     ae_enc = sample_enc, ae_dec = sample_dec, ae_os = one_by_one, ae_discard = (\<lambda>_ _ f. Inr f), ae_names = [],
     ae_stop = (\<lambda>_. False), ae_extend = (\<lambda>img _. img)\<rparr>"

definition sample_history :: "nat \<Rightarrow> contents" where
  "sample_history g = (if g = 0 then mem_view sample_mem_zeros else Map.empty)"

definition sample_image :: "u8 list" where "sample_image = replicate 10240 1"

definition sample_base :: MetaState where
  "sample_base = \<lparr>isApplying = False, st_timestamp = 0, st_snapB = snap 0 0, st_snapE = snap 0 0, isExplicit = False\<rparr>"

definition sample_wdiff :: MetaDiff where
  "sample_wdiff = \<lparr>isMergeable = True, isCompDiff = False, d_timestamp = 7, snapB = snap 0 0, snapE = snap 1 1, dataSize = 0\<rparr>"

definition sample_vol :: archive_vol where
  "sample_vol = \<lparr>av_dir = [''base'' \<mapsto> state_save sample_base, ''state'' \<mapsto> str_save ''Archived'', ''uuid'' \<mapsto> replicate UUID_SIZE 5],
     av_mgr = manager_empty, av_lvs = [lvName ''vol'' \<mapsto> sample_image],
     av_lvC = \<lparr>lc_lv = Some (lvName ''vol''), lc_lvSizeLb = 20, lc_restoredMap = [], lc_coldMap = [], lc_tmpColdToBaseLv = None\<rparr>,
     av_latestMetaSt = sample_base\<rparr>"

definition sample_request :: wdiff_request where
  "sample_request = \<lparr>wr_volId = ''vol'', wr_hostType = ''proxy'', wr_uuid = replicate UUID_SIZE 5, wr_sizeLb = 20, wr_diff = sample_wdiff\<rparr>"

definition sample_status :: volume_status where
  "sample_status = \<lparr>vs_foregroundTasks = 1, vs_maxForegroundTasks = 4, vs_notStopping = True, vs_state = ''Archived'', vs_existsVolDir = True\<rparr>"

lemma sample_setting:
  assumes "t = Dt_Ignore \<or> t = Dt_Zero"
  shows "setting (sample_env t) sample_history sample_image 20"
proof -
  have "blocks_ok (mem_view sample_mem_zeros)"
    unfolding mem_view_def by (rule blocks_ok_views) (simp add: sample_mem_zeros_def mem_new_def sample_io_simps)
  moreover have "dom (mem_view sample_mem_zeros) \<subseteq> {..< 20}" by (rule sample_dom) (simp add: sample_contents_def)
  moreover have "t \<noteq> Dt_Passdown" using assms by auto
  ultimately show ?thesis
    by (simp add: setting_def av_env_ok_def history_ok_def sample_env_def sample_codec_ok one_by_one_works discard_ok_def
        isThinpool_def sample_history_def sample_image_def blocks_ok_def del: domIff)
qed

lemma sample_exact: "exact (sample_env Dt_Zero)" "\<not> exact (sample_env Dt_Ignore)"
  by (simp_all add: exact_def discards_zero_def sample_env_def)

lemma sample_at: "archive_at (sample_env t) sample_history sample_image 20 0 sample_base sample_vol"
proof -
  have P: "blocks_ok (sample_history g)" for g
    using sample_setting [of Dt_Zero] by (simp add: setting_def history_ok_def)
  have "image_at sample_history sample_image 20 0 = sample_image"
    using disk_image_base [of 0 20 Map.empty sample_image] by (simp add: image_at_def sample_image_def)
  then have "between Z sample_history sample_image 20 0 0 sample_image" for Z
    using image_of_image_at [where P = sample_history and base = sample_image and N = 20 and Z = Z and g = 0] P
    by (simp add: between_same sample_image_def)
  then show ?thesis
    by (simp add: archive_at_def sample_vol_def sample_base_def sample_env_def diffs_right_def manager_ok_empty [unfolded manager_empty_def] diffs_def
        manager_empty_def covered_def image_right_def state_ok_def state_verify_def snap_ok_def snap_isClean_def upto_gid_def
        cache_ok_def latest_is_def wdiff_names_def HasExtension_def)
qed

lemma sample_ok: "archive_ok (sample_env t) sample_history sample_image 20 sample_vol"
  unfolding archive_ok_def using sample_at by blast

lemma sample_transfer: "right_transfer (sample_env t) sample_history (wr_diff sample_request) (Some sample_sorted_file)"
  using sample_sorted_wdiff
  by (auto simp: right_transfer_def clean_diff_def diff_ok_def diff_isClean_def snap_ok_def snap_isClean_def sample_wdiff_def sample_request_def
      time_ok_def sample_env_def right_file_def holds_def delta_def sample_history_def)

lemma sample_variant: "variant (sample_env t) (sample_env t)"
  unfolding variant_def by (rule exI [of _ "\<lambda>_. False"], rule exI [of _ "[]"]) (simp add: sample_env_def)

lemma sample_live: "\<not> ae_stop (sample_env t) x" "ae_maxOpenDiffs (sample_env t) = 0" "ae_volId (sample_env t) = ''vol''"
  by (simp_all add: sample_env_def)

lemma sample_few: "card (diffs (av_mgr sample_vol)) < 4096"
  by (simp add: sample_vol_def diffs_def manager_empty_def)

abbreviation sample_recv :: "DiscardType \<Rightarrow> archive_vol \<Rightarrow> bool" where
  "sample_recv t s \<equiv> p2aWdiffTransferServer (sample_env t) False sample_status sample_request (Some sample_sorted_file) sample_vol
     = Some (Inr Recv_Done, s)"

lemma sample_received:
  assumes "t = Dt_Ignore \<or> t = Dt_Zero"
  obtains s where "sample_recv t s" and "archive_at (sample_env t) sample_history sample_image 20 1 sample_base s"
    and "archive_run (sample_env t) sample_history 20 sample_vol s" and "av_lvs s = av_lvs sample_vol"
proof -
  have tk: "takes sample_status sample_request (Some sample_sorted_file) 20 0 sample_vol"
    by (simp add: takes_def leads_on_def wdiff_checks_def sample_status_def sample_request_def sample_wdiff_def sample_vol_def)
  obtain s where s: "sample_recv t s"
    "archive_at (sample_env t) sample_history sample_image 20 1 sample_base s" "av_lvs s = av_lvs sample_vol"
    using recv_server_ok [OF sample_setting [OF assms] sample_at sample_transfer sample_few, of False sample_status] tk
    by (auto simp: runs_def) (auto simp: sample_request_def sample_wdiff_def)
  moreover have "archive_step (sample_env t) sample_history 20 sample_vol s"
    by (rule archive_step.receive [OF sample_variant sample_transfer sample_few _ s(1)]) simp
  ultimately show ?thesis using that unfolding archive_run_def by blast
qed

lemma sample_run0: "archive_run (sample_env t) sample_history 20 sample_vol sample_vol"
  by (simp add: archive_run_def)

section \<open>The claims\<close>

text \<open>
  C1: In every state that a volume of the archive server can reach, by receiving wdiffs, applying (in rounds), merging,
  restoring, deleting snapshots, stops before any IO, and crashes inside these operations and between them, each followed by
  a restart, the restored snapshots are the images of the device at their gids. The base image is the one at the gid of the base
  state; while diffs are being applied, each of its blocks is as at some gid between the two that the base state tells. Blocks whose
  last write was a discard are zeros when the discard type makes them so (\<open>zero\<close>, or \<open>passdown\<close> on a device that zeroes), and
  not determined otherwise, as with the default \<open>ignore\<close> (\<open>is_image\<close>, \<open>fits_block\<close>). The volume has no thinpool and keeps its size.
\<close>

theorem archive_images_exact:
  assumes "setting env P base N" and "archive_ok env P base N s0" and "archive_run env P N s0 s"
  shows "(\<forall>gid img. av_lvs s (restoredSnapshotName (ae_volId env) gid) \<noteq> Some img \<or> is_image env P base N (unat gid) img)
    \<and> (\<exists>st img. getMetaState s = Some (Inr st, s) \<and> av_lvs s (lvName (ae_volId env)) = Some img
         \<and> (if isApplying st then between (exact env) P base N (unat (gidB (st_snapB st))) (unat (gidB (st_snapE st))) img
            else is_image env P base N (unat (gidB (st_snapB st))) img))"
proof -
  obtain t st where a: "archive_at env P base N t st s" using archive_run_at [OF assms(3,1,2)] .
  obtain img where img: "av_lvs s (lvName (ae_volId env)) = Some img" "image_right (exact env) P base N t st img"
    using a by (auto simp: archive_at_def)
  have "if isApplying st then between (exact env) P base N (unat (gidB (st_snapB st))) (unat (gidB (st_snapE st))) img
      else is_image env P base N (unat (gidB (st_snapB st))) img"
    using img(2) is_image_of by (auto simp: image_right_def upto_gid_def between_same)
  moreover have "is_image env P base N (unat gid) i" if "av_lvs s (restoredSnapshotName (ae_volId env) gid) = Some i" for gid i
    using a that by (intro is_image_of) (simp add: archive_at_def)
  ultimately show ?thesis using archive_at_state [OF a] img(1) by auto
qed

theorem archive_images_exact_witness:
  "\<exists>s. sample_recv Dt_Ignore s
    \<and> (\<forall>gid img. av_lvs s (restoredSnapshotName ''vol'' gid) \<noteq> Some img
         \<or> is_image (sample_env Dt_Ignore) sample_history sample_image 20 (unat gid) img)
    \<and> (\<exists>st img. getMetaState s = Some (Inr st, s) \<and> av_lvs s (lvName ''vol'') = Some img
         \<and> (if isApplying st
            then between (exact (sample_env Dt_Ignore)) sample_history sample_image 20 (unat (gidB (st_snapB st))) (unat (gidB (st_snapE st))) img
            else is_image (sample_env Dt_Ignore) sample_history sample_image 20 (unat (gidB (st_snapB st))) img))"
proof -
  obtain s where s: "sample_recv Dt_Ignore s" "archive_run (sample_env Dt_Ignore) sample_history 20 sample_vol s"
    using sample_received [of Dt_Ignore] by auto
  have g: "setting (sample_env Dt_Ignore) sample_history sample_image 20" by (rule sample_setting) simp
  show ?thesis using s(1) archive_images_exact [OF g sample_ok s(2)] unfolding sample_live by blast
qed

text \<open>
  C2: No wdiff that was accepted is lost: when a transfer has succeeded, the volume can be brought to the last gid of that
  wdiff, or a later one, after any further transfers, applications, merges, restorations and deletions of snapshots, stopped or
  cut short by crashes, and restarts, although they remove wdiffs. The latest state that the server keeps in memory agrees
  with the wdiffs, so that the check of a debug build passes. Resetting, clearing, setting the base state by hand and
  synchronising anew are not among the operations; the volume has no thinpool and keeps its size.
\<close>

theorem archive_received_kept:
  assumes "setting env P base N" and "archive_ok env P base N s0" and "archive_run env P N s0 s"
    and "right_transfer env P (wr_diff rq) (Some f)" and "card (diffs (av_mgr s)) < 4096" and "\<not> auto \<or> wr_sizeLb rq \<le> N"
    and "p2aWdiffTransferServer env auto vs rq (Some f) s = Some (Inr Recv_Done, s1)" and "archive_run env P N s1 s2"
  shows "\<exists>m. av_getLatestState s2 = Some (Inr m, s2) \<and> \<not> isApplying m \<and> snap_isClean (st_snapB m)
    \<and> gidB (snapE (wr_diff rq)) \<le> gidB (st_snapB m) \<and> dbgVerifyLatestMetaState s2 = Some (Inr (), s2)"
proof -
  obtain t st where a: "archive_at env P base N t st s" using archive_run_at [OF assms(3,1,2)] .
  from runsD [OF recv_server_ok [OF assms(1) a assms(4-6)] assms(7)]
  have "archive_at env P base N (gidB (snapE (wr_diff rq))) st s1" by (simp split: if_splits)
  then obtain t2 st2 where t2: "gidB (snapE (wr_diff rq)) \<le> t2" "archive_at env P base N t2 st2 s2"
    using run_at [OF assms(8,1)] by blast
  obtain m where m: "av_getLatestState s2 = Some (Inr m, s2)" "latest_is t2 m" using latest_state [OF t2(2)] by blast
  have "latest_is t2 (av_latestMetaSt s2)" using t2(2) by (simp add: archive_at_def)
  then have "dbgVerifyLatestMetaState s2 = Some (Inr (), s2)"
    using m by (simp add: dbgVerifyLatestMetaState_def sx_bind_def sx_read_def state_eq_def latest_is_def)
  then show ?thesis using m t2(1) by (auto simp: latest_is_def snap_isClean_def)
qed

theorem archive_received_kept_witness:
  "\<exists>s1 s2. sample_recv Dt_Ignore s1
    \<and> applyDiffsToVolume (sample_env Dt_Ignore) 1 s1 = Some (Inr True, s2)
    \<and> (\<exists>m. av_getLatestState s2 = Some (Inr m, s2) \<and> \<not> isApplying m \<and> snap_isClean (st_snapB m)
       \<and> gidB (snapE (wr_diff sample_request)) \<le> gidB (st_snapB m) \<and> dbgVerifyLatestMetaState s2 = Some (Inr (), s2))"
proof -
  obtain s1 where s1: "sample_recv Dt_Ignore s1"
    "archive_at (sample_env Dt_Ignore) sample_history sample_image 20 1 sample_base s1" using sample_received [of Dt_Ignore] by auto
  have g: "setting (sample_env Dt_Ignore) sample_history sample_image 20" by (rule sample_setting) simp
  obtain s2 where s2: "applyDiffsToVolume (sample_env Dt_Ignore) 1 s1 = Some (Inr True, s2)"
    using apply_all_ok [OF g s1(2) order_refl sample_live(1)] sample_live(2) by (auto simp: runs_def)
  have r: "archive_run (sample_env Dt_Ignore) sample_history 20 s1 s2"
    using archive_step.applying [OF sample_variant s2] unfolding archive_run_def by blast
  show ?thesis
    using s1(1) s2 archive_received_kept [OF g sample_ok sample_run0 sample_transfer sample_few _ s1(1) r] by blast
qed

text \<open>
  C20: The handler of a wdiff transfer accepts a clean wdiff exactly when its first checks pass (volume id, kind of host, number of
  foreground tasks, stop state, the state \<open>Archived\<close>, the directory: \<open>wdiff_checks\<close>), the wdiff leads on from the latest gid, a
  proxy names the UUID of the volume, the volume at the sender is not larger than the base volume, and the server is not stopped during the
  transfer; then the file is stored and the latest gid is the last one of the wdiff. Otherwise it
  rejects, stops or throws, and nothing changes. This is for volumes with fewer than 4096 wdiffs, and for senders with a larger
  volume only when volumes are not resized automatically.
\<close>

theorem archive_receive_exact:
  assumes "setting env P base N" and "archive_ok env P base N s0" and "archive_run env P N s0 s"
    and "right_transfer env P (wr_diff rq) bytes" and "card (diffs (av_mgr s)) < 4096" and "\<not> auto \<or> wr_sizeLb rq \<le> N"
  shows "\<exists>r s'. p2aWdiffTransferServer env auto vs rq bytes s = Some (r, s')
    \<and> (if wdiff_checks rq vs = Inr None \<and> bytes \<noteq> None \<and> gidB (snapB (wr_diff rq)) \<le> gidB (st_snapB (av_latestMetaSt s))
          \<and> gidB (st_snapB (av_latestMetaSt s)) < gidB (snapE (wr_diff rq)) \<and> wr_sizeLb rq \<le> N
          \<and> (wr_hostType rq = ''archive'' \<or> av_dir s ''uuid'' = Some (wr_uuid rq))
       then r = Inr Recv_Done \<and> st_snapB (av_latestMetaSt s') = snap (gidB (snapE (wr_diff rq))) (gidB (snapE (wr_diff rq)))
          \<and> av_dir s' (createDiffFileName (ae_unixTimeToStr env) (wr_diff rq)) = bytes
       else r \<noteq> Inr Recv_Done \<and> s' = s)"
proof -
  obtain t st where a: "archive_at env P base N t st s" using archive_run_at [OF assms(3,1,2)] .
  then have t: "gidB (st_snapB (av_latestMetaSt s)) = t" by (auto simp: archive_at_def latest_is_def)
  have "wr_hostType rq \<noteq> ''proxy'' \<longleftrightarrow> wr_hostType rq = ''archive''" if "wdiff_checks rq vs = Inr None"
    using that by (auto simp: wdiff_checks_def split: if_splits)
  then have "(wdiff_checks rq vs = Inr None \<and> bytes \<noteq> None \<and> gidB (snapB (wr_diff rq)) \<le> t \<and> t < gidB (snapE (wr_diff rq))
      \<and> wr_sizeLb rq \<le> N \<and> (wr_hostType rq = ''archive'' \<or> av_dir s ''uuid'' = Some (wr_uuid rq))) \<longleftrightarrow> takes vs rq bytes N t s"
    by (auto simp: leads_on_def takes_def)
  then show ?thesis using recv_server_ok [OF assms(1) a assms(4-6), of vs] unfolding runs_def t
    by (auto simp: archive_at_def latest_is_def split: if_splits)
qed

theorem archive_receive_exact_witness:
  "\<exists>r s'. p2aWdiffTransferServer (sample_env Dt_Ignore) True sample_status sample_request (Some sample_sorted_file) sample_vol
      = Some (r, s')
    \<and> r = Inr Recv_Done \<and> st_snapB (av_latestMetaSt s') = snap 1 1
    \<and> av_dir s' (createDiffFileName (ae_unixTimeToStr (sample_env Dt_Ignore)) (wr_diff sample_request)) = Some sample_sorted_file"
proof -
  have g: "setting (sample_env Dt_Ignore) sample_history sample_image 20" by (rule sample_setting) simp
  have z: "\<not> True \<or> wr_sizeLb sample_request \<le> 20" by (simp add: sample_request_def)
  from archive_receive_exact [OF g sample_ok sample_run0 sample_transfer sample_few z, of sample_status]
  show ?thesis by (auto simp: wdiff_checks_def sample_status_def sample_request_def sample_wdiff_def sample_vol_def sample_base_def)
qed

text \<open>
  C18: Applying to the latest gid, or a later one, returns with the base image of the latest gid, if the server is not
  stopped and all wdiffs can be opened at once or no application was interrupted before. The image is the one of the device except in
  discarded blocks that the discard type leaves undetermined (\<open>is_image\<close>).
\<close>

theorem archive_apply_completes:
  assumes "setting env P base N" and "archive_ok env P base N s0" and "archive_run env P N s0 s"
    and "\<And>x. \<not> ae_stop env x" and "getMetaState s = Some (Inr st, s)" and "ae_maxOpenDiffs env = 0 \<or> \<not> isApplying st"
    and "gidB (st_snapB (av_latestMetaSt s)) \<le> gid"
  shows "\<exists>s' img. applyDiffsToVolume env gid s = Some (Inr True, s') \<and> av_lvs s' (lvName (ae_volId env)) = Some img
    \<and> is_image env P base N (unat (gidB (st_snapB (av_latestMetaSt s)))) img"
proof -
  obtain t st1 where a1: "archive_at env P base N t st1 s" using archive_run_at [OF assms(3,1,2)] .
  then have a: "archive_at env P base N t st s" using archive_at_state [OF a1] assms(5) by simp
  have t: "gidB (st_snapB (av_latestMetaSt s)) = t" using a by (auto simp: archive_at_def latest_is_def)
  then have "t \<le> gid" using assms(7) by simp
  from apply_all_ok [OF assms(1) a this assms(4,6)] obtain s' st' where
    s': "applyDiffsToVolume env gid s = Some (Inr True, s')" "archive_at env P base N t st' s'" "gidB (st_snapB st') = t"
    unfolding runs_def by blast
  then obtain img where "av_lvs s' (lvName (ae_volId env)) = Some img" "image_right (exact env) P base N t st' img"
    by (auto simp: archive_at_def)
  then show ?thesis using applied_all [OF _ s'(3)] is_image_of s'(1) t by auto
qed

theorem archive_apply_completes_witness:
  "\<exists>s s'. sample_recv Dt_Zero s \<and> applyDiffsToVolume (sample_env Dt_Zero) 3 s = Some (Inr True, s')
    \<and> av_lvs s' (lvName ''vol'') = Some (image_at sample_history sample_image 20 1)"
proof -
  obtain s where s: "sample_recv Dt_Zero s" "archive_at (sample_env Dt_Zero) sample_history sample_image 20 1 sample_base s"
    "archive_run (sample_env Dt_Zero) sample_history 20 sample_vol s" using sample_received [of Dt_Zero] by auto
  have g: "setting (sample_env Dt_Zero) sample_history sample_image 20" by (rule sample_setting) simp
  have t: "gidB (st_snapB (av_latestMetaSt s)) = 1" using s(2) by (auto simp: archive_at_def latest_is_def)
  have "ae_maxOpenDiffs (sample_env Dt_Zero) = 0 \<or> \<not> isApplying sample_base" by (simp add: sample_live)
  from archive_apply_completes [OF g sample_ok s(3) sample_live(1) archive_at_state [OF s(2)] this, of 3] s(1)
  show ?thesis by (simp add: t sample_live is_image_def sample_exact)
qed

text \<open>
  C19: Restoring the latest gid succeeds if there is no such snapshot yet, the server is not stopped, and all wdiffs can be opened at
  once or no application to the base volume was interrupted; it gives the image at that gid, except in discarded blocks that the
  discard type leaves undetermined (\<open>is_image\<close>). The temporary volume that it worked on is gone.
\<close>

theorem archive_restore_completes:
  assumes "setting env P base N" and "archive_ok env P base N s0" and "archive_run env P N s0 s"
    and "\<And>x. \<not> ae_stop env x" and "getMetaState s = Some (Inr st, s)" and "ae_maxOpenDiffs env = 0 \<or> \<not> isApplying st"
    and "gidB (st_snapB (av_latestMetaSt s)) = gid" and "av_lvs s (restoredSnapshotName (ae_volId env) gid) = None"
  shows "\<exists>s' img. restore env gid s = Some (Inr True, s')
    \<and> av_lvs s' (restoredSnapshotName (ae_volId env) gid) = Some img \<and> is_image env P base N (unat gid) img
    \<and> av_lvs s' (tmpRestoredSnapshotName (ae_volId env) gid) = None"
proof -
  obtain t st1 where a1: "archive_at env P base N t st1 s" using archive_run_at [OF assms(3,1,2)] .
  then have a: "archive_at env P base N t st s" using archive_at_state [OF a1] assms(5) by simp
  have "gid = t" using a assms(7) by (auto simp: archive_at_def latest_is_def)
  then show ?thesis using restore_ok [OF assms(1) a, of gid] assms(4,6,8) is_image_of by (fastforce simp: runs_def)
qed

theorem archive_restore_completes_witness:
  "\<exists>s s' img. sample_recv Dt_Ignore s \<and> restore (sample_env Dt_Ignore) 1 s = Some (Inr True, s')
    \<and> av_lvs s' (restoredSnapshotName ''vol'' 1) = Some img \<and> is_image (sample_env Dt_Ignore) sample_history sample_image 20 1 img
    \<and> av_lvs s' (tmpRestoredSnapshotName ''vol'' 1) = None"
proof -
  obtain s where s: "sample_recv Dt_Ignore s" "archive_at (sample_env Dt_Ignore) sample_history sample_image 20 1 sample_base s"
    "archive_run (sample_env Dt_Ignore) sample_history 20 sample_vol s" "av_lvs s = av_lvs sample_vol"
    using sample_received [of Dt_Ignore] by auto
  have g: "setting (sample_env Dt_Ignore) sample_history sample_image 20" by (rule sample_setting) simp
  have t: "gidB (st_snapB (av_latestMetaSt s)) = 1" using s(2) by (auto simp: archive_at_def latest_is_def)
  have n: "av_lvs s (restoredSnapshotName (ae_volId (sample_env Dt_Ignore)) 1) = None" using s(4) by (simp add: sample_vol_def sample_live)
  have "ae_maxOpenDiffs (sample_env Dt_Ignore) = 0 \<or> \<not> isApplying sample_base" by (simp add: sample_live)
  from archive_restore_completes [OF g sample_ok s(3) sample_live(1) archive_at_state [OF s(2)] this t n] s(1)
  show ?thesis by (simp add: sample_live)
qed

end
