(* ===== verification/Spec2Isabelle.thy ===== *)
theory Spec2Isabelle
  imports Diff_Virt_Laws Diff_Convert_Laws Log_Device Ioctl Meta_Text Diff_Manager_Laws Address_Util
    Server_States Storage_Run Archive_Claims
begin

text \<open>
  Verification of walb-tools, the user-land tools of the WalB block device driver.

  \<^bold>\<open>The program.\<close> A storage server reads the write-ahead log of a WalB device (a ring
  buffer of log packs on the log device), turns it into wlog files, and a proxy turns these
  into wdiff files: sorted, compressed descriptions of what changed between two snapshots.
  The archive server keeps a base image with the wdiffs of each volume, merges them and
  applies them. Which wdiffs exist and what they lead to is tracked with generation ids by
  \<open>MetaDiffManager\<close>.

  \<^bold>\<open>Conventions.\<close> A C or C++ integer is a word of its width and wraps around; a struct is a record
  and, where its memory image matters, a pair of functions to and from its bytes (little endian,
  packed). Every assertion (debug build), exception, null pointer, division by zero and access
  outside a buffer is a value \<open>Inl e\<close> of the result type of theory \<open>Prelude\<close>; \<open>Inr x\<close>
  is a normal return. State that a method changes is passed explicitly. A \<open>std::map\<close>
  or \<open>std::multimap\<close> is the list of its entries in key order. A loop whose end is not
  evident is a \<open>partial_function\<close> with the value \<open>None\<close> for not returning, and its
  theorem says that it returns; no fuel is used anywhere. Definitions carry the names of the
  source, with a prefix for the class where a name occurs twice.

  \<^bold>\<open>Foundations.\<close>
  \<^item> \<open>Prelude\<close>: integer types, results, reading and writing words in byte lists.
  \<^item> \<open>Block_Size\<close> (\<^verbatim>\<open>block_size.h\<close>, \<^verbatim>\<open>u32bits.h\<close>, \<^verbatim>\<open>u64bits.h\<close>), \<open>Address_Util\<close>
    (\<^verbatim>\<open>src/address_util.hpp\<close>): block conversions; division of an IO into aligned
    power-of-two pieces tiles the IO and ends.
  \<^item> \<open>Checksum\<close> (\<^verbatim>\<open>checksum.h\<close>, \<^verbatim>\<open>include/checksum.hpp\<close>): the additive checksum. The
    locale \<open>checksummed\<close> (an image with a checksum field verifies after an update) is interpreted for
    super blocks, log packs, wlog headers, wdiff file headers, wdiff packs and indexed records.
  \<^item> \<open>File_Io\<close> (\<^verbatim>\<open>include/fileio.hpp\<close>): files with an offset; how many bytes a system call transfers, and
    whether it fails, is the parameter \<open>os\<close>, of which \<open>io_works\<close> says that it makes progress.
  \<^item> \<open>Format\<close>, \<open>Serializer\<close> (cybozulib): decimal numbers and binary serialisation; the locale
    \<open>serializable\<close> composes the round trips of \<open>Meta_Text\<close>.

  \<^bold>\<open>Log side.\<close>
  \<^item> \<open>Sector\<close>, \<open>Sector_Store\<close> (\<^verbatim>\<open>sector.h\<close>): sector buffers and arrays over an allocator that
    can fail; the locale \<open>byte_store\<close> states that they behave as one flat buffer.
  \<^item> \<open>Log_Record\<close> (\<^verbatim>\<open>walb.h\<close>, \<^verbatim>\<open>log_record.h\<close>): on-disk log records, pack headers, validation.
  \<^item> \<open>Super_Sector\<close> (\<^verbatim>\<open>super.h\<close>, \<^verbatim>\<open>log_device.h\<close>, class \<open>SuperBlock\<close>): format, write, read and
    validate the super block.
  \<^item> \<open>Log_Device\<close> (\<^verbatim>\<open>src/wdev_log.cpp\<close>): positions in the ring buffer, the sequential reader,
    clearing a range of lsids.
  \<^item> \<open>Log_Pack\<close>, \<open>Log_Pack_Laws\<close> (\<^verbatim>\<open>src/walb_log_base.cpp\<close>): the class \<open>LogPackHeader\<close>. The
    invariant is that the records lie one after the other behind the header; building, moving and
    cutting keep it, and where the code does not (\<open>invalidate\<close> on discards) a theorem shows what happens.
  \<^item> \<open>Wlog_Header\<close> (\<^verbatim>\<open>src/walb_log.h\<close>, \<open>WlogFileHeader\<close>), \<open>Ioctl\<close> (\<^verbatim>\<open>ioctl.h\<close>).
  \<^item> \<open>Wlog_File\<close>, \<open>Wlog_File_Laws\<close> (\<^verbatim>\<open>src/walb_log_file.cpp\<close>): \<open>WlogReader\<close> and \<open>WlogWriter\<close>. A file
    is the bytes that are left; an invariant says which records and packs a reader still has before it.

  \<^bold>\<open>Wdiff side.\<close>
  \<^item> \<open>Diff_Record\<close> (\<^verbatim>\<open>src/walb_diff.h\<close>, \<^verbatim>\<open>src/walb_diff_base.cpp\<close>): records, indexed records,
    splitting, compression. The codec libraries are the parameters \<open>lib_enc\<close> and \<open>lib_dec\<close>; the only
    assumption is \<open>codec_ok\<close>, that they are lossless, for liblzma up to preset 6 because of the memory limit of
    \<open>UncompressorXz\<close>. The levels that the wrappers in \<^verbatim>\<open>src/compressor-zlib.hpp\<close>, \<^verbatim>\<open>src/compressor-xz.hpp\<close> and
    \<^verbatim>\<open>src/compressor-zstd.hpp\<close> refuse are in \<open>compressor_level\<close>; \<open>level_ok\<close> are those whose data can be read again.
  \<^item> \<open>Diff_Pack\<close> (\<^verbatim>\<open>src/walb_diff_pack.cpp\<close>, \<^verbatim>\<open>src/walb_diff_stat.hpp\<close>): packs of records.
  \<^item> \<open>Range_Map\<close>: the search for overlaps that \<open>DiffMemory\<close> and \<open>DiffIndexMem\<close> share. The
    locales \<open>range_items\<close> and \<open>range_minus\<close> prove once that removing what overlaps, subtracting and
    inserting refines overwriting a map from addresses to blocks; both classes interpret them.
  \<^item> \<open>Diff_Mem\<close>, \<open>Diff_Mem_Laws\<close> (\<^verbatim>\<open>src/walb_diff_mem.cpp\<close>): diffs in memory.
  \<^item> \<open>Diff_Index\<close> (\<open>DiffIndexMem\<close> of \<^verbatim>\<open>src/walb_diff_file.cpp\<close>): the index of an indexed wdiff.
  \<^item> \<open>Diff_File\<close>, \<open>Diff_File_Laws\<close> (\<^verbatim>\<open>src/walb_diff_file.cpp\<close>): writer and reader of
    wdiff files; what is written is read back, down to the contents of a \<open>DiffMemory\<close>.
  \<^item> \<open>Diff_Cache\<close>, \<open>Diff_Cache_Laws\<close>, \<open>Diff_Read_Laws\<close> (\<open>IndexedDiffCache\<close>, \<open>IndexedDiffReader\<close>,
    \<open>BothDiffReader\<close>): the cache is a list of images in order of use; the locale \<open>image_cache\<close> is what
    a reader relies on; an indexed wdiff is read back whatever the cache holds and evicts.
  \<^item> \<open>Diff_Merge\<close>, \<open>Merge_Pass\<close>, \<open>Diff_Merge_Laws\<close>, \<open>Merge_Files\<close> (\<^verbatim>\<open>src/walb_diff_merge.cpp\<close>): the merger.
    \<open>Merge_Pass\<close> is the pass over the wdiffs on plain lists of IOs; the locale \<open>wdiff_source\<close> is what the
    merger relies on of an open wdiff, with the lemmas about the merger inside; \<open>Merge_Files\<close> interprets it for
    sorted and indexed files, so that merging is overwriting older contents by newer ones.
  \<^item> \<open>Diff_Virt\<close>, \<open>Diff_Virt_Laws\<close> (\<^verbatim>\<open>src/walb_diff_virt.cpp\<close>): the scan of a base image with wdiffs over
    it, by an invariant on the position, the current IO and what the merger still gives.
  \<^item> \<open>Diff_Convert\<close>, \<open>Diff_Convert_Laws\<close> (\<^verbatim>\<open>src/walb_diff_converter.cpp\<close>): from wlogs to sorted and indexed
    wdiffs; the result has the contents of the logged IOs, and is an input for the merger.

  \<^bold>\<open>Generations.\<close>
  \<^item> \<open>Meta\<close>, \<open>Meta_Algebra\<close> (\<^verbatim>\<open>src/meta.hpp\<close>): snapshots, diffs, states, and the laws of applying
    and merging, on histories and in general.
  \<^item> \<open>Meta_Text\<close>: file names, textual and binary forms are read back.
  \<^item> \<open>Gid_Range\<close> (\<open>GidRangeManager\<close>): the range index; the locale \<open>interval_index\<close> is what the
    manager relies on.
  \<^item> \<open>Diff_Manager\<close>, \<open>Diff_Manager_Laws\<close> (\<open>MetaDiffManager\<close>): the invariant that ties the multimap to
    the index, its preservation, and what the queries return.

  \<^bold>\<open>Servers.\<close>
  \<^item> \<open>Queue_File\<close>, \<open>Queue_File_Laws\<close>, \<open>Queue_File_Steps\<close> (\<^verbatim>\<open>src/walb_queue_file.hpp\<close>,
    \<^verbatim>\<open>include/mmap_file.hpp\<close>): the persistent queue on the bytes of its file. \<open>holds q xs\<close> says that the file
    is the image of the list \<open>xs\<close>; every operation keeps it and does to \<open>xs\<close> what it should, \<open>durable\<close> says what
    of it survives a crash.
  \<^item> \<open>Queue_Values\<close>: the queue of serialised values; the locale \<open>value_queue\<close> extends \<open>serializable\<close>.
  \<^item> \<open>Wdev_Util\<close> (\<^verbatim>\<open>src/wdev_util.cpp\<close>): the lsids that the driver reports, and what it may be told to forget.
  \<^item> \<open>Storage_Vol\<close> (\<^verbatim>\<open>src/storage_vol_info.cpp\<close>, the transfer of wlogs in \<^verbatim>\<open>src/storage.cpp\<close>): the volume of
    the storage server, on the files of its directory. \<open>Storage_Records\<close> is about the records of the queue alone: they
    grow in lsid and gid above the done record, and leave free the gids that partial transfers need. In
    \<open>Vol_Files\<close> (the files of a volume directory and operations that can throw), \<open>runs f s Q\<close> says that \<open>f\<close>
    returns or throws with \<open>Q\<close> of result and new state; \<open>Storage_Steps\<close> uses it for every operation. \<open>Storage_Run\<close> has runs of
    operations in any order, the erasing of the state \<open>Standby\<close>, and crashes at these points: between two operations, after a proxy has
    taken a diff and before the done record is written (which also stands for a lost acknowledgement), and between the
    done record and the queue. Diffs follow each other, a range that is sent again begins where the done record stands,
    snapshots are kept, only sent log is erased outside of \<open>Standby\<close>, transfers make progress. The state machine of the
    server is not part of a run: \<open>Op_Standby\<close> may come at any time. Crashes inside the update of the queue file are the subject of
    \<open>Queue_File_Steps\<close>; that a range sent again ends at the same lsid is not claimed. Lsids are below 2 to the 62, snapshots fewer than 2 to the 48, a transfer is smaller
    than 2 to the 40 MiB.
  \<^item> \<open>Wdiff_Data\<close> (\<^verbatim>\<open>src/wdiff_data.cpp\<close>): the wdiff files of a volume, on the directory and the diff manager.
    \<open>Diff_Io\<close> (\<^verbatim>\<open>src/walb_diff_io.cpp\<close>): writing the IOs of a wdiff to a device. \<open>Lv_Cache\<close>
    (\<^verbatim>\<open>src/archive_vol_info.cpp\<close>): names of logical volumes, and the cache of them.
  \<^item> \<open>Archive_Vol\<close>, \<open>Archive_Ops\<close> (\<^verbatim>\<open>src/archive_vol_info.cpp\<close>, \<^verbatim>\<open>src/archive.cpp\<close>): a volume of the archive
    server: directory, diff manager, logical volumes with their images, the cached state. Applying, merging,
    restoring, deleting snapshots, receiving wdiffs, starting again. An LVM command acts on the images as documented.
  \<^item> \<open>Archive_History\<close>: what was written to a device between any two gids, and what an image or a wdiff stands for.
    \<open>Archive_Laws\<close> has applying and merging of wdiff files, \<open>Archive_Files\<close> and \<open>Archive_Diffs\<close> the manager that agrees
    with the files, \<open>Archive_Run\<close> the invariant \<open>archive_at\<close> and one round of applying, \<open>Archive_Steps\<close>,
    \<open>Archive_Restore\<close> and \<open>Archive_Life\<close> the other operations and runs of them, with restarts. \<open>Archive_Crash\<close> has what a
    crash leaves: inside applying (any blocks of the writes under way, before and after the base state is saved), merging
    and collecting (any of the old files removed), restoring (any contents of the temporary volume), and between operations.
    \<open>Archive_Claims\<close>: restored snapshots and base images are those of the history, what was received is kept, operations complete.
    The discard type is any of the three: with \<open>ignore\<close>, the default of the server, or with \<open>passdown\<close> on a device that does not
    zero, a block whose last write was a discard holds anything (\<open>is_image\<close>, \<open>fits_block\<close>); with \<open>zero\<close> images are exact.
    The diffs are clean, there is no thinpool, the volume keeps its size of less than 2 to the 52 blocks, writing to a logical volume
    and discarding on it do not fail, one operation follows the other, a wdiff is received while there are fewer than 4096. The operations of a run are receiving,
    applying (also single rounds of it), merging, restoring, deleting snapshots and restarting; resetting, clearing, setting the base
    state, resizing and synchronising a volume are not among them.
  \<^item> \<open>State_Machine\<close> (\<^verbatim>\<open>src/state_machine.hpp\<close>, \<^verbatim>\<open>src/action_counter.hpp\<close>): the states of a volume,
    transactions on them, counters of running actions.
  \<^item> \<open>Server_States\<close>: the state tables of the storage, proxy and archive servers (locale
    \<open>volume_table\<close>, interpreted for each), and step relations for interleaved transactions: at most one is
    open, every steady state can be reached, the counters are exact.

  \<^bold>\<open>Bounds.\<close> Theorems about byte counts assume what the types of the code need: IOs below
  2 GiB, address ranges that do not wrap around 2 to the 64, buffers shorter than 4 GiB.

  \<^bold>\<open>Not modelled.\<close> Sockets, threads, child processes, device IO and the command line, with what only they serve
  in \<^verbatim>\<open>storage.cpp\<close>, \<^verbatim>\<open>archive.cpp\<close> (full and hash synchronisation, replication), \<^verbatim>\<open>proxy.cpp\<close>,
  \<^verbatim>\<open>controller.cpp\<close> and \<^verbatim>\<open>binsrc\<close>, the asynchronous log device reader, wlog redo, the codecs and other third-party code, printing, and the merging in threads (\<open>mergeToFdInParallel\<close>).
\<close>

end
